(* ===== verification/Prelude.thy ===== *)
theory Prelude
  imports Main "HOL-Library.Word" "HOL-Library.Monad_Syntax"
begin

text \<open>
  Shared vocabulary of the development: the machine types of the C++ sources, raw memory, and
  the lemma collections that carry the component proofs.

  A C++ expression with undefined behaviour (an access outside an object, a failed
  \<open>assert\<close>) is the value \<^const>\<open>None\<close> of the option monad, so a theorem that an
  operation returns \<^const>\<open>Some\<close> is a memory-safety theorem about the code.
\<close>

unbundle bit_operations_syntax

type_synonym u8 = "8 word"
type_synonym u16 = "16 word"
type_synonym u32 = "32 word"
type_synonym i64 = "64 word"

named_theorems mem_simps \<open>reading and writing raw memory\<close>
named_theorems byte_simps \<open>byte-level encodings and their inverses\<close>
named_theorems inv_simps \<open>unfolding of component invariants\<close>


section \<open>The option monad and lists\<close>

lemma bind_SomeI: "m = Some x \<Longrightarrow> f x = Some y \<Longrightarrow> Option.bind m f = Some y"
  by simp

lemma bind_SomeE:
  assumes "Option.bind m f = Some y"
  obtains x where "m = Some x" and "f x = Some y"
  using assms by (cases m) auto

lemma take_drop_append:
  "length xs = n \<Longrightarrow> take m (drop n (xs @ ys)) = take m ys"
  by simp

lemma drop_take_swap_len: "length (take n (drop m xs)) = min n (length xs - m)"
  by simp

lemma nth_drop_less: "i + m < length xs \<Longrightarrow> drop m xs ! i = xs ! (m + i)"
  by simp

lemma take_add_split: "take (m + n) xs = take m xs @ take n (drop m xs)"
  by (rule take_add)


section \<open>Words\<close>

lemma mask_FF [byte_simps]: "(0xFF :: 'a::len word) = mask 8"
  by (simp add: mask_eq_exp_minus_1)

lemma unat_u8_less [simp]: "unat (b :: u8) < 256"
  using unsigned_less [of b] by simp

lemma unat_u16_less [simp]: "unat (w :: u16) < 65536"
  using unsigned_less [of w] by simp

lemma unat_of_nat_u8: "n < 256 \<Longrightarrow> unat (of_nat n :: u8) = n"
  by (simp add: unat_of_nat)

lemma unat_Suc_u32: "unat (c :: u32) + 1 < 2 ^ 32 \<Longrightarrow> unat (c + 1) = unat c + 1"
  by (simp add: unat_word_ariths)

lemma unat_Suc_u16: "unat (c :: u16) + 1 < 2 ^ 16 \<Longrightarrow> unat (c + 1) = unat c + 1"
  by (simp add: unat_word_ariths)

lemma unat_ucast_u16: "unat (ucast (c :: u16) :: u32) = unat c"
  by (simp add: unsigned_ucast_eq take_bit_nat_eq_self_iff order_less_trans [OF unsigned_less])

lemma unat_of_nat_u16: "n < 65536 \<Longrightarrow> unat (of_nat n :: u16) = n"
  by (simp add: unat_of_nat)


lemma word_xor_cancel_left: "r XOR a = r XOR b \<longleftrightarrow> a = b" for a :: "'a::len word"
proof
  assume "r XOR a = r XOR b"
  then have "r XOR (r XOR a) = r XOR (r XOR b)" by simp
  then show "a = b" by (simp flip: xor.assoc)
qed simp

lemma word_xor_cancel_right: "a XOR r = b XOR r \<longleftrightarrow> a = b" for a :: "'a::len word"
  by (simp add: xor.commute [of _ r] word_xor_cancel_left)

lemma word_xor_eq_0_iff: "a XOR b = 0 \<longleftrightarrow> a = b" for a :: "'a::len word"
  using word_xor_cancel_left [of b a b] by (simp add: xor.commute)

lemma two_le_lengthE:
  assumes "2 \<le> length xs"
  obtains a b ys where "xs = a # b # ys"
  using assms by (cases xs; cases "tl xs") auto


section \<open>Raw memory\<close>

text \<open>
  A memory object is the list of its bytes, a pointer into it an offset. \<open>memcpy\<close>,
  \<open>memmove\<close> and single stores are reads followed by one write; anything outside the
  object is \<^const>\<open>None\<close>.
\<close>

definition mem_read :: "u8 list \<Rightarrow> nat \<Rightarrow> nat \<Rightarrow> u8 list option" where
  "mem_read m p n = (if p + n \<le> length m then Some (take n (drop p m)) else None)"

definition mem_write :: "u8 list \<Rightarrow> nat \<Rightarrow> u8 list \<Rightarrow> u8 list option" where
  "mem_write m p bs =
     (if p + length bs \<le> length m
      then Some (take p m @ bs @ drop (p + length bs) m) else None)"

lemma mem_read_Some [mem_simps]:
  "mem_read m p n = Some bs \<longleftrightarrow> p + n \<le> length m \<and> bs = take n (drop p m)"
  by (auto simp: mem_read_def)

lemma mem_write_Some [mem_simps]:
  "mem_write m p bs = Some m' \<longleftrightarrow>
     p + length bs \<le> length m \<and> m' = take p m @ bs @ drop (p + length bs) m"
  by (auto simp: mem_write_def)

lemma mem_write_length: "mem_write m p bs = Some m' \<Longrightarrow> length m' = length m"
  by (auto simp: mem_simps)

lemma mem_write_read_same:
  "mem_write m p bs = Some m' \<Longrightarrow> mem_read m' p (length bs) = Some bs"
  by (auto simp: mem_simps)

lemma mem_write_drop_above:
  "mem_write m p bs = Some m' \<Longrightarrow> p + length bs \<le> q \<Longrightarrow> drop q m' = drop q m"
  by (auto simp: mem_simps)

lemma mem_write_take_below:
  "mem_write m p bs = Some m' \<Longrightarrow> q \<le> p \<Longrightarrow> take q m' = take q m"
  by (auto simp: mem_simps min_def)

lemma mem_write_take_upto:
  "mem_write m p bs = Some m' \<Longrightarrow> take (p + length bs) m' = take p m @ bs"
  by (auto simp: mem_simps)

end
