(* ===== verification/Slices.thy ===== *)
theory Slices
  imports Prelude
begin

text \<open>
  The buffer views of \<open>openpal/container\<close>: \<open>RSlice\<close> (read only), \<open>WSlice\<close> (writable) and
  \<open>Settable\<close>. A read slice is the list of bytes it shows. A write slice carries the memory
  object it points into, because writing through it changes that object.
  \<open>Settable<T>\<close> is \<open>'a option\<close>.
\<close>

section \<open>RSlice\<close>

type_synonym rslice = "u8 list"

definition RSlice_Take :: "nat \<Rightarrow> rslice \<Rightarrow> rslice" where
  "RSlice_Take count s = take (min (length s) count) s"

definition RSlice_Skip :: "nat \<Rightarrow> rslice \<Rightarrow> rslice" where
  "RSlice_Skip count s = (let num = min (length s) count in take (length s - num) (drop num s))"

definition RSlice_Advance :: "nat \<Rightarrow> rslice \<Rightarrow> rslice" where
  "RSlice_Advance count s = drop (min (length s) count) s"

definition RSlice_Equals :: "rslice \<Rightarrow> rslice \<Rightarrow> bool" where
  "RSlice_Equals s rhs = (if length s = length rhs then s = rhs else False)"

lemma RSlice_Take_eq [simp]: "RSlice_Take n s = take n s"
  by (simp add: RSlice_Take_def min_def)

lemma RSlice_Skip_eq [simp]: "RSlice_Skip n s = drop n s"
  by (simp add: RSlice_Skip_def Let_def min_def)

lemma RSlice_Advance_eq [simp]: "RSlice_Advance n s = drop n s"
  by (simp add: RSlice_Advance_def min_def)

lemma RSlice_Equals_eq [simp]: "RSlice_Equals s t \<longleftrightarrow> s = t"
  by (auto simp: RSlice_Equals_def)


section \<open>WSlice\<close>

text \<open>The memory object, the position of \<open>pBuffer\<close> in it, and the size of the view.\<close>

record wslice =
  wbuf :: "u8 list"
  wpos :: nat
  wsize :: nat

definition wslice_wf :: "wslice \<Rightarrow> bool" where
  "wslice_wf s \<longleftrightarrow> wpos s + wsize s \<le> length (wbuf s)"

definition GetWSlice :: "u8 list \<Rightarrow> wslice" where
  "GetWSlice buffer = \<lparr>wbuf = buffer, wpos = 0, wsize = length buffer\<rparr>"

definition GetWSlice_max :: "u8 list \<Rightarrow> nat \<Rightarrow> wslice" where
  "GetWSlice_max buffer maxSize =
     (if maxSize \<le> length buffer then \<lparr>wbuf = buffer, wpos = 0, wsize = maxSize\<rparr>
      else GetWSlice buffer)"

definition WSlice_Advance :: "nat \<Rightarrow> wslice \<Rightarrow> nat \<times> wslice" where
  "WSlice_Advance count s =
     (let num = min count (wsize s)
      in (num, s\<lparr>wpos := wpos s + num, wsize := wsize s - num\<rparr>))"

definition WSlice_Skip :: "nat \<Rightarrow> wslice \<Rightarrow> wslice" where
  "WSlice_Skip count s =
     (let num = min count (wsize s)
      in s\<lparr>wpos := wpos s + num, wsize := wsize s - num\<rparr>)"

definition WSlice_ToRSlice :: "wslice \<Rightarrow> rslice" where
  "WSlice_ToRSlice s = take (wsize s) (drop (wpos s) (wbuf s))"

text \<open>
  A store through \<open>operator uint8_t*\<close> at an offset from \<open>pBuffer\<close>. The model refuses a store
  that leaves the view, which is stricter than leaving the memory object.
\<close>

definition wslice_store :: "wslice \<Rightarrow> nat \<Rightarrow> u8 list \<Rightarrow> wslice option" where
  "wslice_store s off bs =
     (if off + length bs \<le> wsize s
      then do { m \<leftarrow> mem_write (wbuf s) (wpos s + off) bs; Some (s\<lparr>wbuf := m\<rparr>) }
      else None)"

definition WSlice_SetAllTo :: "u8 \<Rightarrow> wslice \<Rightarrow> wslice option" where
  "WSlice_SetAllTo v s = wslice_store s 0 (replicate (wsize s) v)"

definition RSlice_CopyTo :: "rslice \<Rightarrow> wslice \<Rightarrow> (rslice \<times> wslice) option" where
  "RSlice_CopyTo s dest =
     (if wsize dest < length s then Some ([], dest)
      else do {
        copy \<leftarrow> wslice_store dest 0 s;
        let dest' = snd (WSlice_Advance (length s) copy);
        Some (RSlice_Take (length s) (WSlice_ToRSlice copy), dest')
      })"

lemma wslice_store_Some:
  "wslice_store s off bs = Some s' \<longleftrightarrow>
     off + length bs \<le> wsize s \<and> wpos s + off + length bs \<le> length (wbuf s) \<and>
     s' = s\<lparr>wbuf := take (wpos s + off) (wbuf s) @ bs @ drop (wpos s + off + length bs) (wbuf s)\<rparr>"
  by (auto simp: wslice_store_def mem_write_def)

lemma wslice_store_succeeds:
  assumes "wslice_wf s" and "off + length bs \<le> wsize s"
  shows "wslice_store s off bs =
     Some (s\<lparr>wbuf := take (wpos s + off) (wbuf s) @ bs @ drop (wpos s + off + length bs) (wbuf s)\<rparr>)"
  using assms by (simp add: wslice_store_Some wslice_wf_def)

lemma wslice_wf_GetWSlice [simp]: "wslice_wf (GetWSlice b)"
  by (simp add: wslice_wf_def GetWSlice_def)

lemma wslice_wf_Skip [simp]: "wslice_wf s \<Longrightarrow> wslice_wf (WSlice_Skip n s)"
  by (auto simp: wslice_wf_def WSlice_Skip_def Let_def min_def)

lemma wslice_wf_Advance [simp]: "wslice_wf s \<Longrightarrow> wslice_wf (snd (WSlice_Advance n s))"
  by (auto simp: wslice_wf_def WSlice_Advance_def Let_def min_def)

lemma wslice_store_wf: "wslice_store s off bs = Some s' \<Longrightarrow> wslice_wf s \<Longrightarrow> wslice_wf s'"
  by (auto simp: wslice_store_Some wslice_wf_def)

lemma RSlice_CopyTo_fits:
  assumes "wslice_wf dest" and "length s \<le> wsize dest"
  shows "RSlice_CopyTo s dest =
     Some (s, dest\<lparr>wbuf := take (wpos dest) (wbuf dest) @ s @ drop (wpos dest + length s) (wbuf dest),
                   wpos := wpos dest + length s, wsize := wsize dest - length s\<rparr>)"
  using assms
  by (simp add: RSlice_CopyTo_def wslice_store_succeeds WSlice_Advance_def WSlice_ToRSlice_def
      wslice_wf_def Let_def min_def)

lemma RSlice_CopyTo_too_small:
  "wsize dest < length s \<Longrightarrow> RSlice_CopyTo s dest = Some ([], dest)"
  by (simp add: RSlice_CopyTo_def)


section \<open>Write slices by parts\<close>

text \<open>
  A well-formed write slice is the bytes before it, the bytes it shows and the bytes after it.
  Stores and advances act on the middle part only.
\<close>

definition mkw :: "u8 list \<Rightarrow> u8 list \<Rightarrow> u8 list \<Rightarrow> wslice" where
  "mkw pre view post = \<lparr>wbuf = pre @ view @ post, wpos = length pre, wsize = length view\<rparr>"

definition list_store :: "'a list \<Rightarrow> nat \<Rightarrow> 'a list \<Rightarrow> 'a list" where
  "list_store xs off ys = take off xs @ ys @ drop (off + length ys) xs"

lemma length_list_store [simp]:
  "off + length ys \<le> length xs \<Longrightarrow> length (list_store xs off ys) = length xs"
  by (simp add: list_store_def)

lemma list_store_Nil [simp]: "list_store xs off [] = xs"
  by (simp add: list_store_def)

lemma list_store_append:
  "off + length ys + length zs \<le> length xs \<Longrightarrow>
   list_store (list_store xs off ys) (off + length ys) zs = list_store xs off (ys @ zs)"
  by (simp add: list_store_def ac_simps)

lemma wslice_wf_mkw: "wslice_wf s \<longleftrightarrow> (\<exists>pre view post. s = mkw pre view post)"
proof
  assume wf: "wslice_wf s"
  have "wbuf s = take (wpos s) (wbuf s) @ take (wsize s) (drop (wpos s) (wbuf s))
      @ drop (wpos s + wsize s) (wbuf s)"
    by (metis append.assoc append_take_drop_id take_add)
  with wf have "s = mkw (take (wpos s) (wbuf s)) (take (wsize s) (drop (wpos s) (wbuf s)))
      (drop (wpos s + wsize s) (wbuf s))"
    by (simp add: mkw_def wslice_wf_def min_def)
  then show "\<exists>pre view post. s = mkw pre view post" by blast
qed (auto simp: mkw_def wslice_wf_def)

lemma GetWSlice_mkw: "GetWSlice b = mkw [] b []"
  by (simp add: GetWSlice_def mkw_def)

lemma mkw_sel [simp]:
  "wsize (mkw pre view post) = length view" "wslice_wf (mkw pre view post)"
  "wbuf (mkw pre view post) = pre @ view @ post"
  "WSlice_ToRSlice (mkw pre view post) = view"
  by (simp_all add: mkw_def wslice_wf_def WSlice_ToRSlice_def)

lemma wslice_store_mkw [mem_simps]:
  "off + length bs \<le> length view \<Longrightarrow>
   wslice_store (mkw pre view post) off bs = Some (mkw pre (list_store view off bs) post)"
  by (simp add: wslice_store_Some mkw_def list_store_def)

lemma wslice_store_mkw_None:
  "length view < off + length bs \<Longrightarrow> wslice_store (mkw pre view post) off bs = None"
  by (simp add: wslice_store_def)

lemma WSlice_Advance_mkw [mem_simps]:
  "WSlice_Advance n (mkw pre view post) =
     (min n (length view), mkw (pre @ take n view) (drop n view) post)"
  by (auto simp: WSlice_Advance_def mkw_def Let_def min_def)

lemma RSlice_CopyTo_mkw:
  "length s \<le> length view \<Longrightarrow>
   RSlice_CopyTo s (mkw pre view post) = Some (s, mkw (pre @ s) (drop (length s) view) post)"
  by (simp add: RSlice_CopyTo_fits) (simp add: mkw_def)

end
