(* ===== verification/Serialization.thy ===== *)
theory Serialization
  imports Slices
begin

text \<open>
  Little-endian serialization (\<open>openpal/serialization\<close>): \<open>UInt8Simple\<close>, \<open>Bit16LE\<close>,
  \<open>Bit32LE\<close> and \<open>UInt48LE\<close>, plus the checked readers of \<open>Parse.cpp\<close>. A raw
  \<open>const uint8_t*\<close> is the list of bytes from that address to the end of its object;
  reading past the end is \<^const>\<open>None\<close>. \<open>Read\<close> takes the pointer, \<open>Write\<close> is given
  by the bytes it stores, \<open>ReadBuffer\<close> reads from a slice and advances it.
\<close>

section \<open>UInt8\<close>

fun UInt8_Read :: "u8 list \<Rightarrow> u8 option" where
  "UInt8_Read (b # _) = Some b"
| "UInt8_Read [] = None"

definition UInt8_bytes :: "u8 \<Rightarrow> u8 list" where
  "UInt8_bytes value = [value]"

definition UInt8_ReadBuffer :: "rslice \<Rightarrow> (u8 \<times> rslice) option" where
  "UInt8_ReadBuffer buffer =
     do { ret \<leftarrow> UInt8_Read buffer; Some (ret, RSlice_Advance 1 buffer) }"


section \<open>UInt16 and Int16\<close>

fun UInt16_Read :: "u8 list \<Rightarrow> u16 option" where
  "UInt16_Read (d0 # d1 # _) = Some (push_bit 0 (ucast d0) OR push_bit 8 (ucast d1))"
| "UInt16_Read _ = None"

definition UInt16_bytes :: "u16 \<Rightarrow> u8 list" where
  "UInt16_bytes value = [ucast (value AND 0xFF), ucast (drop_bit 8 value AND 0xFF)]"

definition UInt16_ReadBuffer :: "rslice \<Rightarrow> (u16 \<times> rslice) option" where
  "UInt16_ReadBuffer buffer =
     do { ret \<leftarrow> UInt16_Read buffer; Some (ret, RSlice_Advance 2 buffer) }"


section \<open>UInt32 and Int32\<close>

fun UInt32_Read :: "u8 list \<Rightarrow> u32 option" where
  "UInt32_Read (d0 # d1 # d2 # d3 # _) =
     Some (push_bit 0 (ucast d0) OR push_bit 8 (ucast d1) OR push_bit 16 (ucast d2)
           OR push_bit 24 (ucast d3))"
| "UInt32_Read _ = None"

definition UInt32_bytes :: "u32 \<Rightarrow> u8 list" where
  "UInt32_bytes value =
     [ucast (value AND 0xFF), ucast (drop_bit 8 value AND 0xFF),
      ucast (drop_bit 16 value AND 0xFF), ucast (drop_bit 24 value AND 0xFF)]"

definition UInt32_ReadBuffer :: "rslice \<Rightarrow> (u32 \<times> rslice) option" where
  "UInt32_ReadBuffer buffer =
     do { ret \<leftarrow> UInt32_Read buffer; Some (ret, RSlice_Advance 4 buffer) }"


section \<open>UInt48\<close>

text \<open>The value type is a signed 64-bit integer; \<open>Write\<close> clamps values above \<open>MAX\<close>.\<close>

fun UInt48_Read :: "u8 list \<Rightarrow> i64 option" where
  "UInt48_Read (d0 # d1 # d2 # d3 # d4 # d5 # _) =
     Some (push_bit 0 (ucast d0) OR push_bit 8 (ucast d1) OR push_bit 16 (ucast d2)
           OR push_bit 24 (ucast d3) OR push_bit 32 (ucast d4) OR push_bit 40 (ucast d5))"
| "UInt48_Read _ = None"

definition UInt48_MAX :: i64 where
  "UInt48_MAX = 281474976710655"

definition UInt48_bytes :: "i64 \<Rightarrow> u8 list" where
  "UInt48_bytes value0 =
     (let value = (if sint UInt48_MAX < sint value0 then UInt48_MAX else value0)
      in [ucast (value AND 0xFF), ucast (drop_bit 8 value AND 0xFF),
          ucast (drop_bit 16 value AND 0xFF), ucast (drop_bit 24 value AND 0xFF),
          ucast (drop_bit 32 value AND 0xFF), ucast (drop_bit 40 value AND 0xFF)])"

definition UInt48_ReadBuffer :: "rslice \<Rightarrow> (i64 \<times> rslice) option" where
  "UInt48_ReadBuffer buffer =
     do { ret \<leftarrow> UInt48_Read buffer; Some (ret, RSlice_Advance 6 buffer) }"


section \<open>Checked reads (Parse.cpp)\<close>

text \<open>
  \<open>ParseType\<close> tests the size before it reads. The model returns the value when the C++
  function returns true, and nothing (with the slice untouched) when it returns false.
\<close>

definition ParseType ::
    "nat \<Rightarrow> (rslice \<Rightarrow> ('a \<times> rslice) option) \<Rightarrow> rslice \<Rightarrow> ('a option \<times> rslice) option" where
  "ParseType sz readBuffer input =
     (if length input < sz then Some (None, input)
      else do { (output, input') \<leftarrow> readBuffer input; Some (Some output, input') })"

definition Parse_u8 :: "rslice \<Rightarrow> (u8 option \<times> rslice) option" where
  "Parse_u8 input = ParseType 1 UInt8_ReadBuffer input"

definition Parse_u16 :: "rslice \<Rightarrow> (u16 option \<times> rslice) option" where
  "Parse_u16 input = ParseType 2 UInt16_ReadBuffer input"

definition Parse_u32 :: "rslice \<Rightarrow> (u32 option \<times> rslice) option" where
  "Parse_u32 input = ParseType 4 UInt32_ReadBuffer input"

definition Parse_u48 :: "rslice \<Rightarrow> (i64 option \<times> rslice) option" where
  "Parse_u48 input = ParseType 6 UInt48_ReadBuffer input"


section \<open>Lengths and definedness\<close>

lemma length_bytes [simp]:
  "length (UInt8_bytes a) = 1" "length (UInt16_bytes b) = 2"
  "length (UInt32_bytes c) = 4" "length (UInt48_bytes d) = 6"
  by (simp_all add: UInt8_bytes_def UInt16_bytes_def UInt32_bytes_def UInt48_bytes_def Let_def)

lemma UInt8_Read_defined: "0 < length d \<Longrightarrow> \<exists>v. UInt8_Read d = Some v"
  by (cases d) auto

lemma UInt16_Read_defined: "2 \<le> length d \<Longrightarrow> \<exists>v. UInt16_Read d = Some v"
  by (cases d rule: UInt16_Read.cases) auto

lemma UInt32_Read_defined: "4 \<le> length d \<Longrightarrow> \<exists>v. UInt32_Read d = Some v"
  by (cases d rule: UInt32_Read.cases) auto

lemma UInt48_Read_defined: "6 \<le> length d \<Longrightarrow> \<exists>v. UInt48_Read d = Some v"
  by (cases d rule: UInt48_Read.cases) auto

lemma UInt16_Read_append: "2 \<le> length d \<Longrightarrow> UInt16_Read (d @ e) = UInt16_Read d"
  by (cases d rule: UInt16_Read.cases) auto


section \<open>Round trips\<close>

lemma u16_join_split:
  "push_bit 0 (ucast (ucast (v AND 0xFF) :: u8)) OR
   push_bit 8 (ucast (ucast (drop_bit 8 v AND 0xFF) :: u8)) = (v :: u16)"
  by (rule bit_word_eqI) (auto simp: bit_simps byte_simps)

lemma bit_byte_of:
  "bit (ucast (ucast (v AND 0xFF) :: u8) :: 'a::len word) n \<longleftrightarrow> n < 8 \<and> n < LENGTH('a) \<and> bit v n"
  for v :: "'a::len word"
  by (auto simp: bit_simps byte_simps dest: bit_imp_le_length)

lemmas bit_join = bit_or_iff bit_push_bit_iff bit_take_bit_iff bit_byte_of bit_drop_bit_eq

lemma u32_join_split:
  "push_bit 0 (ucast (ucast (v AND 0xFF) :: u8)) OR
   push_bit 8 (ucast (ucast (drop_bit 8 v AND 0xFF) :: u8)) OR
   push_bit 16 (ucast (ucast (drop_bit 16 v AND 0xFF) :: u8)) OR
   push_bit 24 (ucast (ucast (drop_bit 24 v AND 0xFF) :: u8)) = (v :: u32)" (is "?l = _")
proof (rule bit_word_eqI)
  fix n assume n: "n < LENGTH(32)"
  consider "n < 8" | "8 \<le> n \<and> n < 16" | "16 \<le> n \<and> n < 24" | "24 \<le> n"
    by linarith
  then show "bit ?l n = bit v n"
    using n by cases (auto simp add: bit_join)
qed

lemma u48_join_split:
  "push_bit 0 (ucast (ucast (v AND 0xFF) :: u8)) OR
   push_bit 8 (ucast (ucast (drop_bit 8 v AND 0xFF) :: u8)) OR
   push_bit 16 (ucast (ucast (drop_bit 16 v AND 0xFF) :: u8)) OR
   push_bit 24 (ucast (ucast (drop_bit 24 v AND 0xFF) :: u8)) OR
   push_bit 32 (ucast (ucast (drop_bit 32 v AND 0xFF) :: u8)) OR
   push_bit 40 (ucast (ucast (drop_bit 40 v AND 0xFF) :: u8)) = (take_bit 48 v :: i64)"
  (is "?l = _")
proof (rule bit_word_eqI)
  fix n assume n: "n < LENGTH(64)"
  consider "n < 8" | "8 \<le> n \<and> n < 16" | "16 \<le> n \<and> n < 24" | "24 \<le> n \<and> n < 32"
    | "32 \<le> n \<and> n < 40" | "40 \<le> n \<and> n < 48" | "48 \<le> n"
    by linarith
  then show "bit ?l n = bit (take_bit 48 v) n"
    using n by cases (auto simp add: bit_join)
qed

lemma uint_eq_sint_if_nonneg:
  assumes "0 \<le> sint (v :: i64)"
  shows "uint v = sint v"
proof -
  have nb: "\<not> bit (uint v) 63"
    using assms by (simp add: sint_uint signed_take_bit_nonnegative_iff)
  have "uint v = take_bit (Suc 63) (uint v)"
    using bintr_uint [of 64 v] by simp
  also have "\<dots> = take_bit 63 (uint v)"
    using nb by (subst take_bit_Suc_from_most) simp
  finally show ?thesis
    using nb by (simp add: sint_uint signed_take_bit_eq_if_positive)
qed

lemma take_bit_48_small:
  assumes "uint (v :: i64) < 2 ^ 48"
  shows "take_bit 48 v = v"
  using assms by (simp add: word_uint_eq_iff unsigned_take_bit_eq take_bit_int_eq_self_iff)

lemma UInt8_roundtrip [byte_simps]: "UInt8_Read (UInt8_bytes v @ r) = Some v"
  by (simp add: UInt8_bytes_def)

lemma UInt16_roundtrip [byte_simps]: "UInt16_Read (UInt16_bytes v @ r) = Some v"
  by (simp add: UInt16_bytes_def u16_join_split [unfolded push_bit_0_id id_apply])

lemma UInt32_roundtrip [byte_simps]: "UInt32_Read (UInt32_bytes v @ r) = Some v"
  by (simp add: UInt32_bytes_def u32_join_split [unfolded push_bit_0_id id_apply])

lemma UInt48_Read_bytes:
  "UInt48_Read (UInt48_bytes v @ r) =
     Some (take_bit 48 (if sint UInt48_MAX < sint v then UInt48_MAX else v))"
  by (simp add: UInt48_bytes_def Let_def u48_join_split [unfolded push_bit_0_id id_apply])

lemma UInt48_clamped:
  assumes "0 \<le> sint v"
  shows "UInt48_Read (UInt48_bytes v @ r) = Some (if sint UInt48_MAX < sint v then UInt48_MAX else v)"
proof -
  have "take_bit 48 UInt48_MAX = UInt48_MAX"
    by (simp add: UInt48_MAX_def)
  moreover have "take_bit 48 v = v" if "sint v \<le> sint UInt48_MAX"
    using that uint_eq_sint_if_nonneg [OF assms]
    by (intro take_bit_48_small) (simp add: UInt48_MAX_def)
  ultimately show ?thesis
    by (simp add: UInt48_Read_bytes not_less)
qed

lemma UInt16_bytes_Read:
  "UInt16_Read (d0 # d1 # r) = Some v \<Longrightarrow> UInt16_bytes v = [d0, d1]"
proof -
  assume "UInt16_Read (d0 # d1 # r) = Some v"
  then have v: "v = ucast d0 OR push_bit 8 (ucast d1)" by simp
  have "(ucast ((ucast d0 OR push_bit 8 (ucast d1)) AND 0xFF :: u16) :: u8) = d0"
    by (rule bit_word_eqI) (auto simp: bit_simps byte_simps)
  moreover have "(ucast (drop_bit 8 (ucast d0 OR push_bit 8 (ucast d1)) AND 0xFF :: u16) :: u8) = d1"
    by (rule bit_word_eqI) (auto simp: bit_simps byte_simps dest: bit_imp_le_length)
  ultimately show ?thesis
    by (simp add: v UInt16_bytes_def)
qed

lemma UInt16_bytes_inj: "UInt16_bytes v = UInt16_bytes w \<longleftrightarrow> v = w"
  by (metis UInt16_roundtrip option.inject)


section \<open>Checked reads never leave the slice\<close>

lemma ParseType_total:
  assumes "\<And>s. sz \<le> length s \<Longrightarrow> \<exists>v. readBuffer s = Some (v, drop sz s)"
  shows "ParseType sz readBuffer input =
    (if length input < sz then Some (None, input)
     else Some (map_option fst (readBuffer input), drop sz input))"
  using assms [of input] by (auto simp: ParseType_def)

lemma Parse_defined:
  "\<exists>r. Parse_u8 input = Some r" "\<exists>r. Parse_u16 input = Some r"
  "\<exists>r. Parse_u32 input = Some r" "\<exists>r. Parse_u48 input = Some r"
  using UInt8_Read_defined [of input] UInt16_Read_defined [of input]
    UInt32_Read_defined [of input] UInt48_Read_defined [of input]
  by (force simp: Parse_u8_def Parse_u16_def Parse_u32_def Parse_u48_def ParseType_def
      UInt8_ReadBuffer_def UInt16_ReadBuffer_def UInt32_ReadBuffer_def UInt48_ReadBuffer_def)+


section \<open>Properties\<close>

text \<open>Little-endian integers: what is written at 8, 16, 32 and 48 bits is read back by the checked
  readers, which advance past it; a 48-bit value outside the range is clamped when positive.\<close>

theorem serialization_roundtrip:
  assumes "0 \<le> sint t"
  shows "Parse_u8 (UInt8_bytes a @ rest) = Some (Some a, rest) \<and>
    Parse_u16 (UInt16_bytes b @ rest) = Some (Some b, rest) \<and>
    Parse_u32 (UInt32_bytes c @ rest) = Some (Some c, rest) \<and>
    Parse_u48 (UInt48_bytes t @ rest) = Some (Some (if sint UInt48_MAX < sint t then UInt48_MAX else t), rest)"
  using UInt8_roundtrip [of a rest] UInt16_roundtrip [of b rest] UInt32_roundtrip [of c rest] UInt48_clamped [OF assms, of rest]
  by (simp add: Parse_u8_def Parse_u16_def Parse_u32_def Parse_u48_def ParseType_def UInt8_ReadBuffer_def
      UInt16_ReadBuffer_def UInt32_ReadBuffer_def UInt48_ReadBuffer_def del: length_append append.simps)
    (simp add: UInt8_bytes_def UInt16_bytes_def UInt32_bytes_def UInt48_bytes_def Let_def)

theorem serialization_roundtrip_witness:
  "Parse_u48 (UInt48_bytes 1700000000000 @ [1]) =
     Some (Some (if sint UInt48_MAX < sint (1700000000000 :: i64) then UInt48_MAX else 1700000000000), [1])"
  using serialization_roundtrip [of 1700000000000 0 "[1]" 0 0] by simp

end
