(* ===== verification/Crc.thy ===== *)
theory Crc
  imports Serialization
begin

text \<open>
  The FT3 cyclic redundancy check (\<open>link/CRC.cpp\<close>): the table-driven routine as the code has
  it, the bit-serial shift register it implements, and its error-detection properties.
\<close>

section \<open>The routine\<close>

definition crcTable :: "u16 list" where
  "crcTable =
    [0x0000, 0x365E, 0x6CBC, 0x5AE2, 0xD978, 0xEF26, 0xB5C4, 0x839A, 0xFF89, 0xC9D7, 0x9335, 0xA56B,
     0x26F1, 0x10AF, 0x4A4D, 0x7C13, 0xB26B, 0x8435, 0xDED7, 0xE889, 0x6B13, 0x5D4D, 0x07AF, 0x31F1,
     0x4DE2, 0x7BBC, 0x215E, 0x1700, 0x949A, 0xA2C4, 0xF826, 0xCE78, 0x29AF, 0x1FF1, 0x4513, 0x734D,
     0xF0D7, 0xC689, 0x9C6B, 0xAA35, 0xD626, 0xE078, 0xBA9A, 0x8CC4, 0x0F5E, 0x3900, 0x63E2, 0x55BC,
     0x9BC4, 0xAD9A, 0xF778, 0xC126, 0x42BC, 0x74E2, 0x2E00, 0x185E, 0x644D, 0x5213, 0x08F1, 0x3EAF,
     0xBD35, 0x8B6B, 0xD189, 0xE7D7, 0x535E, 0x6500, 0x3FE2, 0x09BC, 0x8A26, 0xBC78, 0xE69A, 0xD0C4,
     0xACD7, 0x9A89, 0xC06B, 0xF635, 0x75AF, 0x43F1, 0x1913, 0x2F4D, 0xE135, 0xD76B, 0x8D89, 0xBBD7,
     0x384D, 0x0E13, 0x54F1, 0x62AF, 0x1EBC, 0x28E2, 0x7200, 0x445E, 0xC7C4, 0xF19A, 0xAB78, 0x9D26,
     0x7AF1, 0x4CAF, 0x164D, 0x2013, 0xA389, 0x95D7, 0xCF35, 0xF96B, 0x8578, 0xB326, 0xE9C4, 0xDF9A,
     0x5C00, 0x6A5E, 0x30BC, 0x06E2, 0xC89A, 0xFEC4, 0xA426, 0x9278, 0x11E2, 0x27BC, 0x7D5E, 0x4B00,
     0x3713, 0x014D, 0x5BAF, 0x6DF1, 0xEE6B, 0xD835, 0x82D7, 0xB489, 0xA6BC, 0x90E2, 0xCA00, 0xFC5E,
     0x7FC4, 0x499A, 0x1378, 0x2526, 0x5935, 0x6F6B, 0x3589, 0x03D7, 0x804D, 0xB613, 0xECF1, 0xDAAF,
     0x14D7, 0x2289, 0x786B, 0x4E35, 0xCDAF, 0xFBF1, 0xA113, 0x974D, 0xEB5E, 0xDD00, 0x87E2, 0xB1BC,
     0x3226, 0x0478, 0x5E9A, 0x68C4, 0x8F13, 0xB94D, 0xE3AF, 0xD5F1, 0x566B, 0x6035, 0x3AD7, 0x0C89,
     0x709A, 0x46C4, 0x1C26, 0x2A78, 0xA9E2, 0x9FBC, 0xC55E, 0xF300, 0x3D78, 0x0B26, 0x51C4, 0x679A,
     0xE400, 0xD25E, 0x88BC, 0xBEE2, 0xC2F1, 0xF4AF, 0xAE4D, 0x9813, 0x1B89, 0x2DD7, 0x7735, 0x416B,
     0xF5E2, 0xC3BC, 0x995E, 0xAF00, 0x2C9A, 0x1AC4, 0x4026, 0x7678, 0x0A6B, 0x3C35, 0x66D7, 0x5089,
     0xD313, 0xE54D, 0xBFAF, 0x89F1, 0x4789, 0x71D7, 0x2B35, 0x1D6B, 0x9EF1, 0xA8AF, 0xF24D, 0xC413,
     0xB800, 0x8E5E, 0xD4BC, 0xE2E2, 0x6178, 0x5726, 0x0DC4, 0x3B9A, 0xDC4D, 0xEA13, 0xB0F1, 0x86AF,
     0x0535, 0x336B, 0x6989, 0x5FD7, 0x23C4, 0x159A, 0x4F78, 0x7926, 0xFABC, 0xCCE2, 0x9600, 0xA05E,
     0x6E26, 0x5878, 0x029A, 0x34C4, 0xB75E, 0x8100, 0xDBE2, 0xEDBC, 0x91AF, 0xA7F1, 0xFD13, 0xCB4D,
     0x48D7, 0x7E89, 0x246B, 0x1235]"

definition crc_step :: "u16 \<Rightarrow> u8 \<Rightarrow> u16" where
  "crc_step CRC b =
     (let index = (ucast ((CRC XOR ucast b) AND 0xFF) :: u8)
      in crcTable ! unat index XOR drop_bit 8 CRC)"

definition CalcCrc :: "u8 list \<Rightarrow> u16" where
  "CalcCrc input = NOT (foldl crc_step 0 input)"

text \<open>\<open>AddCrc\<close> stores the CRC of the first \<open>len\<close> bytes right behind them.\<close>

definition AddCrc :: "wslice \<Rightarrow> nat \<Rightarrow> nat \<Rightarrow> wslice option" where
  "AddCrc input off len =
     (if off + len \<le> wsize input
      then let crc = CalcCrc (take len (drop off (WSlice_ToRSlice input)))
           in wslice_store input (off + len) (UInt16_bytes crc)
      else None)"

definition IsCorrectCRC :: "u8 list \<Rightarrow> nat \<Rightarrow> bool option" where
  "IsCorrectCRC input len =
     (if len \<le> length input
      then do { crc \<leftarrow> UInt16_Read (drop len input); Some (CalcCrc (take len input) = crc) }
      else None)"


section \<open>The shift register it implements\<close>

text \<open>
  The DNP3 polynomial x^16+x^13+x^12+x^11+x^10+x^8+x^6+x^5+x^2+1, bit-reversed, is 0xA6BC.
  One bit of the register: shift right, and subtract the polynomial when a one falls out.
\<close>

definition crc_shift :: "u16 \<Rightarrow> u16" where
  "crc_shift r = (if bit r 0 then drop_bit 1 r XOR 0xA6BC else drop_bit 1 r)"

definition crc_bitwise_step :: "u16 \<Rightarrow> u8 \<Rightarrow> u16" where
  "crc_bitwise_step r b = (crc_shift ^^ 8) (r XOR ucast b)"

definition CalcCrc_bitwise :: "u8 list \<Rightarrow> u16" where
  "CalcCrc_bitwise input = NOT (foldl crc_bitwise_step 0 input)"

lemma crc_shift_8:
  "(crc_shift ^^ 8) r =
     crc_shift (crc_shift (crc_shift (crc_shift (crc_shift (crc_shift (crc_shift (crc_shift r)))))))"
  by (simp add: eval_nat_numeral)

lemma crc_shift_odd: "bit r 0 \<Longrightarrow> crc_shift r = drop_bit 1 r XOR 0xA6BC"
  and crc_shift_even: "\<not> bit r 0 \<Longrightarrow> crc_shift r = drop_bit 1 r"
  by (simp_all add: crc_shift_def)

lemma crcTable_generated: "crcTable = map (\<lambda>i. (crc_shift ^^ 8) (of_nat i)) [0..<256]"
  by (simp add: crcTable_def upt_rec crc_shift_8 crc_shift_odd crc_shift_even)

lemma crcTable_nth: "crcTable ! unat b = (crc_shift ^^ 8) (ucast (b :: u8))"
  by (simp add: crcTable_generated unsigned_of_nat of_nat_unat)

lemma crc_shift_linear: "crc_shift (a XOR b) = crc_shift a XOR crc_shift b"
  by (rule bit_word_eqI) (auto simp: crc_shift_def bit_xor_iff bit_drop_bit_eq)

lemma crc_shift_pow_linear:
  "(crc_shift ^^ n) (a XOR b) = (crc_shift ^^ n) a XOR (crc_shift ^^ n) b"
  by (induction n) (simp_all add: crc_shift_linear)

lemma crc_shift_pow_zeros:
  "(\<And>i. i < n \<Longrightarrow> \<not> bit r i) \<Longrightarrow> (crc_shift ^^ n) r = drop_bit n r"
proof (induction n)
  case 0
  show ?case by simp
next
  case (Suc n)
  have "(crc_shift ^^ Suc n) r = crc_shift (drop_bit n r)"
    using Suc by simp
  moreover have "\<not> bit (drop_bit n r) 0"
    using Suc.prems [of n] by (simp add: bit_drop_bit_eq)
  ultimately show ?case
    by (simp add: crc_shift_even)
qed

lemma crc_step_eq_bitwise: "crc_step r b = crc_bitwise_step r b"
proof -
  let ?x = "r XOR ucast b"
  let ?lo = "?x AND 0xFF" and ?hi = "?x AND NOT 0xFF"
  have split: "?x = ?lo XOR ?hi"
    by (rule bit_word_eqI) (auto simp: bit_simps byte_simps)
  have "(crc_shift ^^ 8) ?hi = drop_bit 8 ?hi"
    by (rule crc_shift_pow_zeros) (auto simp: bit_simps byte_simps)
  also have "drop_bit 8 ?hi = drop_bit 8 r"
    by (rule bit_word_eqI) (auto simp: bit_simps byte_simps dest: bit_imp_le_length)
  finally have hi: "(crc_shift ^^ 8) ?hi = drop_bit 8 r" .
  have "ucast (ucast ?lo :: u8) = ?lo"
    by (rule bit_word_eqI) (auto simp: bit_simps byte_simps)
  then have lo: "crcTable ! unat (ucast ?lo :: u8) = (crc_shift ^^ 8) ?lo"
    by (simp add: crcTable_nth)
  have "crc_bitwise_step r b = (crc_shift ^^ 8) ?lo XOR (crc_shift ^^ 8) ?hi"
    unfolding crc_bitwise_step_def using crc_shift_pow_linear split by metis
  then show ?thesis
    unfolding crc_step_def Let_def lo hi by simp
qed


section \<open>Error detection\<close>

lemma crc_shift_zero [simp]: "crc_shift 0 = 0"
  by (simp add: crc_shift_def)

lemma crc_shift_pow_zero [simp]: "(crc_shift ^^ n) 0 = 0"
  by (induction n) simp_all

lemma crc_shift_eq_0: "crc_shift r = 0 \<Longrightarrow> r = 0"
proof -
  assume z: "crc_shift r = 0"
  have "bit (crc_shift r) 15 \<longleftrightarrow> bit r 0"
    by (auto simp: crc_shift_def bit_simps dest: bit_imp_le_length)
  with z have b0: "\<not> bit r 0" by simp
  with z have d: "drop_bit 1 r = 0" by (simp add: crc_shift_even)
  show "r = 0"
  proof (rule bit_word_eqI)
    fix n
    have "bit r (Suc m) = bit (drop_bit 1 r) m" for m by (simp add: bit_drop_bit_eq)
    with d b0 show "bit r n = bit 0 n" by (cases n) simp_all
  qed
qed

lemma crc_shift_pow_eq_0: "(crc_shift ^^ n) r = 0 \<Longrightarrow> r = 0"
  by (induction n) (auto dest: crc_shift_eq_0)

lemma crc_shift_pow_inj: "(crc_shift ^^ n) a = (crc_shift ^^ n) b \<Longrightarrow> a = b"
proof -
  assume "(crc_shift ^^ n) a = (crc_shift ^^ n) b"
  then have "(crc_shift ^^ n) (a XOR b) = 0"
    by (simp add: crc_shift_pow_linear)
  then have "a XOR b = 0"
    by (rule crc_shift_pow_eq_0)
  then show "a = b"
    by (simp add: word_xor_eq_0_iff)
qed

lemma crc_step_inj_state: "crc_step r b = crc_step s b \<Longrightarrow> r = s"
  unfolding crc_step_eq_bitwise crc_bitwise_step_def
  by (drule crc_shift_pow_inj) (simp add: word_xor_cancel_right)

lemma foldl_crc_step_inj: "foldl crc_step r bs = foldl crc_step s bs \<Longrightarrow> r = s"
  by (induction bs arbitrary: r s) (auto dest: crc_step_inj_state)

text \<open>Two bytes feed one 16-bit word into the register.\<close>

lemma crc_two_bytes:
  "crc_step (crc_step r b0) b1 = (crc_shift ^^ 16) (r XOR (ucast b0 OR push_bit 8 (ucast b1)))"
proof -
  let ?w1 = "push_bit 8 (ucast b1) :: u16"
  have "(crc_shift ^^ 8) ?w1 = drop_bit 8 ?w1"
    by (rule crc_shift_pow_zeros) (auto simp: bit_simps)
  also have "drop_bit 8 ?w1 = ucast b1"
    by (rule bit_word_eqI) (auto simp: bit_simps dest: bit_imp_le_length)
  finally have w1: "(crc_shift ^^ 8) ?w1 = ucast b1" .
  have or: "(ucast b0 OR ?w1 :: u16) = ucast b0 XOR ?w1"
    by (rule bit_word_eqI) (auto simp: bit_simps dest: bit_imp_le_length)
  have "(crc_shift ^^ 16) x = (crc_shift ^^ 8) ((crc_shift ^^ 8) x)" for x
    using funpow_add [of 8 8 crc_shift] by simp
  then show ?thesis
    by (simp add: crc_step_eq_bitwise crc_bitwise_step_def or crc_shift_pow_linear w1
        xor.assoc)
qed

lemma crc_two_bytes_inj:
  assumes "crc_step (crc_step r a0) a1 = crc_step (crc_step r b0) b1"
  shows "a0 = b0 \<and> a1 = b1"
proof -
  have "r XOR (ucast a0 OR push_bit 8 (ucast a1)) = r XOR (ucast b0 OR push_bit 8 (ucast b1))"
    using assms unfolding crc_two_bytes by (rule crc_shift_pow_inj)
  then have "(ucast a0 OR push_bit 8 (ucast a1) :: u16) = ucast b0 OR push_bit 8 (ucast b1)"
    by (simp only: word_xor_cancel_left)
  then have "UInt16_Read [a0, a1] = UInt16_Read [b0, b1]"
    by simp
  then have "[a0, a1] = [b0, b1]"
    by (metis UInt16_Read.simps(1) UInt16_bytes_Read)
  then show ?thesis by simp
qed

lemma CalcCrc_eq_iff: "CalcCrc xs = CalcCrc ys \<longleftrightarrow> foldl crc_step 0 xs = foldl crc_step 0 ys"
  unfolding CalcCrc_def by (metis bit.double_compl)

text \<open>
  A corruption confined to two neighbouring bytes always changes the CRC. The first bytes
  \<open>pre\<close> and the last bytes \<open>post\<close> are received correctly.
\<close>

lemma CalcCrc_two_byte_error:
  assumes "a0 \<noteq> b0 \<or> a1 \<noteq> b1"
  shows "CalcCrc (pre @ [a0, a1] @ post) \<noteq> CalcCrc (pre @ [b0, b1] @ post)"
proof
  assume "CalcCrc (pre @ [a0, a1] @ post) = CalcCrc (pre @ [b0, b1] @ post)"
  then have "crc_step (crc_step (foldl crc_step 0 pre) a0) a1 =
             crc_step (crc_step (foldl crc_step 0 pre) b0) b1"
    by (auto simp: CalcCrc_eq_iff dest: foldl_crc_step_inj)
  with crc_two_bytes_inj assms show False by blast
qed

lemma CalcCrc_one_byte_error:
  assumes "a \<noteq> b"
  shows "CalcCrc (pre @ [a] @ post) \<noteq> CalcCrc (pre @ [b] @ post)"
proof
  assume "CalcCrc (pre @ [a] @ post) = CalcCrc (pre @ [b] @ post)"
  then have "crc_step (foldl crc_step 0 pre) a = crc_step (foldl crc_step 0 pre) b"
    by (auto simp: CalcCrc_eq_iff dest: foldl_crc_step_inj)
  then have "crc_step (crc_step (foldl crc_step 0 pre) a) 0 = crc_step (crc_step (foldl crc_step 0 pre) b) 0"
    by simp
  with crc_two_bytes_inj assms show False by blast
qed


section \<open>Storing and checking\<close>

lemma IsCorrectCRC_defined: "len + 2 \<le> length input \<Longrightarrow> \<exists>r. IsCorrectCRC input len = Some r"
  using UInt16_Read_defined [of "drop len input"] by (force simp: IsCorrectCRC_def)

lemma IsCorrectCRC_iff:
  assumes "len + 2 \<le> length input"
  shows "IsCorrectCRC input len = Some True \<longleftrightarrow>
    take 2 (drop len input) = UInt16_bytes (CalcCrc (take len input))"
proof -
  obtain d0 d1 rest where d: "drop len input = d0 # d1 # rest"
    using assms by (elim two_le_lengthE [of "drop len input", rotated]) auto
  then obtain v where v: "UInt16_Read (drop len input) = Some v" by simp
  have "UInt16_bytes v = [d0, d1]"
    using v unfolding d by (rule UInt16_bytes_Read)
  then have "UInt16_bytes (CalcCrc (take len input)) = [d0, d1] \<longleftrightarrow> CalcCrc (take len input) = v"
    by (metis UInt16_bytes_inj)
  with v d assms show ?thesis
    by (auto simp: IsCorrectCRC_def numeral_2_eq_2)
qed

lemma IsCorrectCRC_own:
  "IsCorrectCRC (bs @ UInt16_bytes (CalcCrc bs) @ rest) (length bs) = Some True"
  by (simp add: IsCorrectCRC_iff)

lemma IsCorrectCRC_prefix:
  assumes "len + 2 \<le> length xs"
  shows "IsCorrectCRC (xs @ ys) len = IsCorrectCRC xs len"
  using assms by (simp add: IsCorrectCRC_def UInt16_Read_append)


section \<open>Properties\<close>

text \<open>The table-driven CRC equals its definition by the DNP3 polynomial: processing every bit of
  every byte through the reflected shift register with feedback 0xA6BC.\<close>

theorem CalcCrc_polynomial: "CalcCrc input = CalcCrc_bitwise input"
proof -
  have "crc_step = crc_bitwise_step"
    by (intro ext) (rule crc_step_eq_bitwise)
  then show ?thesis
    by (simp add: CalcCrc_def CalcCrc_bitwise_def)
qed

text \<open>Error detection: a block written by \<open>AddCrc\<close> and received with any corruption confined to two
  neighbouring bytes of its data fails the CRC check, and received unchanged it passes.\<close>

theorem AddCrc_detects_corruption:
  assumes "data = pre @ [a0, a1] @ post" and "received = pre @ [b0, b1] @ post"
    and "length data + 2 \<le> length view" and "take (length data) view = data"
  shows "\<exists>crc. AddCrc (mkw [] view []) 0 (length data) = Some (mkw [] (data @ crc @ drop (length data + 2) view) []) \<and>
    IsCorrectCRC (received @ crc @ rest) (length received) = Some (received = data)"
proof (intro exI conjI)
  show "AddCrc (mkw [] view []) 0 (length data) =
      Some (mkw [] (data @ UInt16_bytes (CalcCrc data) @ drop (length data + 2) view) [])"
  proof -
    have "WSlice_ToRSlice (mkw [] view []) = view"
      by (simp add: WSlice_ToRSlice_def mkw_def)
    with assms(3,4) show ?thesis
      by (simp add: AddCrc_def wslice_store_mkw list_store_def)
  qed
  show "IsCorrectCRC (received @ UInt16_bytes (CalcCrc data) @ rest) (length received) = Some (received = data)"
  proof (cases "received = data")
    case True
    then show ?thesis by (simp add: IsCorrectCRC_own)
  next
    case False
    then have "CalcCrc data \<noteq> CalcCrc received"
      using assms(1,2) CalcCrc_two_byte_error by metis
    then have "IsCorrectCRC (received @ UInt16_bytes (CalcCrc data) @ rest) (length received) \<noteq> Some True"
      by (simp add: IsCorrectCRC_iff UInt16_bytes_inj)
    moreover obtain b where "IsCorrectCRC (received @ UInt16_bytes (CalcCrc data) @ rest) (length received) = Some b"
      using IsCorrectCRC_defined [of "length received"] by force
    ultimately show ?thesis
      using False by auto
  qed
qed

theorem AddCrc_detects_corruption_witness:
  "\<exists>crc. AddCrc (mkw [] [5, 100, 5, 0, 0] []) 0 3 = Some (mkw [] ([5, 100, 5] @ crc) []) \<and>
    IsCorrectCRC ([5, 101, 4] @ crc @ [9]) 3 = Some False"
  using AddCrc_detects_corruption [of "[5, 100, 5]" "[5]" 100 5 "[]" "[5, 101, 4]" 101 4 "[5, 100, 5, 0, 0]" "[9]"]
  by (simp add: numeral_3_eq_3)

end
