(* ===== verification/LinkHeader.thy ===== *)
theory LinkHeader
  imports Crc
begin

text \<open>
  The FT3 link header (\<open>gen/LinkFunction\<close>, \<open>link/LinkLayerConstants.h\<close>,
  \<open>link/LinkHeader\<close>, \<open>link/LinkHeaderFields\<close>): function codes, the control octet and the
  ten header bytes, with the round trip between a header and its bytes.
\<close>

section \<open>Function codes\<close>

datatype LinkFunction =
    PRI_RESET_LINK_STATES
  | PRI_TEST_LINK_STATES
  | PRI_CONFIRMED_USER_DATA
  | PRI_UNCONFIRMED_USER_DATA
  | PRI_REQUEST_LINK_STATUS
  | SEC_ACK
  | SEC_NACK
  | SEC_LINK_STATUS
  | SEC_NOT_SUPPORTED
  | LF_INVALID

primrec LinkFunctionToType :: "LinkFunction \<Rightarrow> u8" where
  "LinkFunctionToType PRI_RESET_LINK_STATES = 0x40"
| "LinkFunctionToType PRI_TEST_LINK_STATES = 0x42"
| "LinkFunctionToType PRI_CONFIRMED_USER_DATA = 0x43"
| "LinkFunctionToType PRI_UNCONFIRMED_USER_DATA = 0x44"
| "LinkFunctionToType PRI_REQUEST_LINK_STATUS = 0x49"
| "LinkFunctionToType SEC_ACK = 0x0"
| "LinkFunctionToType SEC_NACK = 0x1"
| "LinkFunctionToType SEC_LINK_STATUS = 0xB"
| "LinkFunctionToType SEC_NOT_SUPPORTED = 0xF"
| "LinkFunctionToType LF_INVALID = 0xFF"

definition LinkFunctionFromType :: "u8 \<Rightarrow> LinkFunction" where
  "LinkFunctionFromType arg =
     (if arg = 0x40 then PRI_RESET_LINK_STATES
      else if arg = 0x42 then PRI_TEST_LINK_STATES
      else if arg = 0x43 then PRI_CONFIRMED_USER_DATA
      else if arg = 0x44 then PRI_UNCONFIRMED_USER_DATA
      else if arg = 0x49 then PRI_REQUEST_LINK_STATUS
      else if arg = 0x0 then SEC_ACK
      else if arg = 0x1 then SEC_NACK
      else if arg = 0xB then SEC_LINK_STATUS
      else if arg = 0xF then SEC_NOT_SUPPORTED
      else LF_INVALID)"

lemma LinkFunction_roundtrip [simp]: "LinkFunctionFromType (LinkFunctionToType f) = f"
  by (cases f) (simp_all add: LinkFunctionFromType_def)

lemma LinkFunctionToType_FromType:
  "LinkFunctionFromType b \<noteq> LF_INVALID \<Longrightarrow> LinkFunctionToType (LinkFunctionFromType b) = b"
  by (auto simp: LinkFunctionFromType_def)


section \<open>Constants\<close>

definition LPDU_MIN_LENGTH :: nat where "LPDU_MIN_LENGTH = 5"
definition LPDU_MAX_LENGTH :: nat where "LPDU_MAX_LENGTH = 255"
definition LPDU_HEADER_SIZE :: nat where "LPDU_HEADER_SIZE = 10"
definition LPDU_DATA_BLOCK_SIZE :: nat where "LPDU_DATA_BLOCK_SIZE = 16"
definition LPDU_CRC_SIZE :: nat where "LPDU_CRC_SIZE = 2"
definition LPDU_DATA_PLUS_CRC_SIZE :: nat where "LPDU_DATA_PLUS_CRC_SIZE = 18"
definition LPDU_MAX_USER_DATA_SIZE :: nat where "LPDU_MAX_USER_DATA_SIZE = 250"
definition LPDU_MAX_FRAME_SIZE :: nat where "LPDU_MAX_FRAME_SIZE = 292"

lemmas lpdu_sizes =
  LPDU_MIN_LENGTH_def LPDU_MAX_LENGTH_def LPDU_HEADER_SIZE_def LPDU_DATA_BLOCK_SIZE_def
  LPDU_CRC_SIZE_def LPDU_DATA_PLUS_CRC_SIZE_def LPDU_MAX_USER_DATA_SIZE_def
  LPDU_MAX_FRAME_SIZE_def

definition LI_START_05 :: nat where "LI_START_05 = 0"
definition LI_START_64 :: nat where "LI_START_64 = 1"
definition LI_LENGTH :: nat where "LI_LENGTH = 2"
definition LI_CONTROL :: nat where "LI_CONTROL = 3"
definition LI_DESTINATION :: nat where "LI_DESTINATION = 4"
definition LI_SOURCE :: nat where "LI_SOURCE = 6"
definition LI_CRC :: nat where "LI_CRC = 8"

lemmas link_index =
  LI_START_05_def LI_START_64_def LI_LENGTH_def LI_CONTROL_def LI_DESTINATION_def
  LI_SOURCE_def LI_CRC_def

definition MASK_DIR :: u8 where "MASK_DIR = 0x80"
definition MASK_PRM :: u8 where "MASK_PRM = 0x40"
definition MASK_FCB :: u8 where "MASK_FCB = 0x20"
definition MASK_FCV :: u8 where "MASK_FCV = 0x10"
definition MASK_FUNC :: u8 where "MASK_FUNC = 0x0F"
definition MASK_FUNC_OR_PRM :: u8 where "MASK_FUNC_OR_PRM = MASK_PRM OR MASK_FUNC"

lemmas ctrl_masks =
  MASK_DIR_def MASK_PRM_def MASK_FCB_def MASK_FCV_def MASK_FUNC_def MASK_FUNC_OR_PRM_def


section \<open>The header\<close>

record LinkHeader =
  hdr_length :: u8
  hdr_src :: u16
  hdr_dest :: u16
  hdr_ctrl :: u8

definition LinkHeader_default :: LinkHeader where
  "LinkHeader_default = \<lparr>hdr_length = 5, hdr_src = 0, hdr_dest = 0, hdr_ctrl = 0\<rparr>"

definition ControlByte :: "bool \<Rightarrow> bool \<Rightarrow> bool \<Rightarrow> LinkFunction \<Rightarrow> u8" where
  "ControlByte aIsMaster aFcb aFcvDfc aFunc =
     (let ret = LinkFunctionToType aFunc;
          ret = (if aIsMaster then ret OR MASK_DIR else ret);
          ret = (if aFcb then ret OR MASK_FCB else ret);
          ret = (if aFcvDfc then ret OR MASK_FCV else ret)
      in ret)"

definition LinkHeader_Set ::
    "u8 \<Rightarrow> u16 \<Rightarrow> u16 \<Rightarrow> bool \<Rightarrow> bool \<Rightarrow> bool \<Rightarrow> LinkFunction \<Rightarrow> LinkHeader" where
  "LinkHeader_Set aLen aSrc aDest aFromMaster aFcvDfc aFcb aCode =
     \<lparr>hdr_length = aLen, hdr_src = aSrc, hdr_dest = aDest,
      hdr_ctrl = ControlByte aFromMaster aFcb aFcvDfc aCode\<rparr>"

definition ChangeFCB :: "bool \<Rightarrow> LinkHeader \<Rightarrow> LinkHeader" where
  "ChangeFCB aFCB h =
     (if aFCB then h\<lparr>hdr_ctrl := hdr_ctrl h OR MASK_FCB\<rparr>
      else h\<lparr>hdr_ctrl := hdr_ctrl h AND NOT MASK_FCB\<rparr>)"

definition IsFromMaster :: "LinkHeader \<Rightarrow> bool" where
  "IsFromMaster h \<longleftrightarrow> hdr_ctrl h AND MASK_DIR \<noteq> 0"

definition IsPriToSec :: "LinkHeader \<Rightarrow> bool" where
  "IsPriToSec h \<longleftrightarrow> hdr_ctrl h AND MASK_PRM \<noteq> 0"

definition IsFcbSet :: "LinkHeader \<Rightarrow> bool" where
  "IsFcbSet h \<longleftrightarrow> hdr_ctrl h AND MASK_FCB \<noteq> 0"

definition IsFcvDfcSet :: "LinkHeader \<Rightarrow> bool" where
  "IsFcvDfcSet h \<longleftrightarrow> hdr_ctrl h AND MASK_FCV \<noteq> 0"

definition GetFuncByte :: "LinkHeader \<Rightarrow> u8" where
  "GetFuncByte h = hdr_ctrl h AND MASK_FUNC"

definition GetFuncEnum :: "LinkHeader \<Rightarrow> LinkFunction" where
  "GetFuncEnum h = LinkFunctionFromType (hdr_ctrl h AND MASK_FUNC_OR_PRM)"

definition ValidLength :: "LinkHeader \<Rightarrow> bool" where
  "ValidLength h \<longleftrightarrow> hdr_length h > 4"

definition LinkHeader_Read :: "u8 list \<Rightarrow> LinkHeader option" where
  "LinkHeader_Read apBuff = do {
     len \<leftarrow> UInt8_Read (drop LI_LENGTH apBuff);
     dest \<leftarrow> UInt16_Read (drop LI_DESTINATION apBuff);
     src \<leftarrow> UInt16_Read (drop LI_SOURCE apBuff);
     ctrl \<leftarrow> UInt8_Read (drop LI_CONTROL apBuff);
     Some \<lparr>hdr_length = len, hdr_src = src, hdr_dest = dest, hdr_ctrl = ctrl\<rparr> }"

definition LinkHeader_Write :: "LinkHeader \<Rightarrow> wslice \<Rightarrow> wslice option" where
  "LinkHeader_Write h apBuff = do {
     b \<leftarrow> wslice_store apBuff LI_START_05 [0x05];
     b \<leftarrow> wslice_store b LI_START_64 [0x64];
     b \<leftarrow> wslice_store b LI_LENGTH [hdr_length h];
     b \<leftarrow> wslice_store b LI_DESTINATION (UInt16_bytes (hdr_dest h));
     b \<leftarrow> wslice_store b LI_SOURCE (UInt16_bytes (hdr_src h));
     b \<leftarrow> wslice_store b LI_CONTROL [hdr_ctrl h];
     AddCrc b 0 LI_CRC }"

record LinkHeaderFields =
  lf_func :: LinkFunction
  lf_isFromMaster :: bool
  lf_fcb :: bool
  lf_fcvdfc :: bool
  lf_dest :: u16
  lf_src :: u16

record Addresses =
  addr_source :: u16
  addr_destination :: u16

definition Addresses_Reverse :: "Addresses \<Rightarrow> Addresses" where
  "Addresses_Reverse a = \<lparr>addr_source = addr_destination a, addr_destination = addr_source a\<rparr>"

definition ToAddresses :: "LinkHeaderFields \<Rightarrow> Addresses" where
  "ToAddresses f = \<lparr>addr_source = lf_src f, addr_destination = lf_dest f\<rparr>"


section \<open>The control octet\<close>

lemma ControlByte_flags:
  assumes "f \<noteq> LF_INVALID"
  shows "ControlByte m fcb fcv f AND MASK_DIR \<noteq> 0 \<longleftrightarrow> m"
    and "ControlByte m fcb fcv f AND MASK_FCB \<noteq> 0 \<longleftrightarrow> fcb"
    and "ControlByte m fcb fcv f AND MASK_FCV \<noteq> 0 \<longleftrightarrow> fcv"
    and "ControlByte m fcb fcv f AND MASK_FUNC_OR_PRM = LinkFunctionToType f"
  using assms by (cases f; cases m; cases fcb; cases fcv; simp add: ControlByte_def ctrl_masks)+

lemma ControlByte_PRM:
  "ControlByte m fcb fcv f AND MASK_PRM \<noteq> 0 \<longleftrightarrow>
     f \<in> {PRI_RESET_LINK_STATES, PRI_TEST_LINK_STATES, PRI_CONFIRMED_USER_DATA,
          PRI_UNCONFIRMED_USER_DATA, PRI_REQUEST_LINK_STATUS, LF_INVALID}"
  by (cases f; cases m; cases fcb; cases fcv; simp add: ControlByte_def ctrl_masks)

lemma LinkHeader_Set_accessors [simp]:
  assumes "f \<noteq> LF_INVALID"
  shows "IsFromMaster (LinkHeader_Set n s d m fcv fcb f) = m"
    and "IsFcbSet (LinkHeader_Set n s d m fcv fcb f) = fcb"
    and "IsFcvDfcSet (LinkHeader_Set n s d m fcv fcb f) = fcv"
    and "GetFuncEnum (LinkHeader_Set n s d m fcv fcb f) = f"
  using ControlByte_flags [OF assms]
  by (simp_all add: IsFromMaster_def IsFcbSet_def IsFcvDfcSet_def GetFuncEnum_def LinkHeader_Set_def)

lemma LinkHeader_Set_sel [simp]:
  "hdr_length (LinkHeader_Set n s d m fcv fcb f) = n"
  "hdr_src (LinkHeader_Set n s d m fcv fcb f) = s"
  "hdr_dest (LinkHeader_Set n s d m fcv fcb f) = d"
  by (simp_all add: LinkHeader_Set_def)

lemma IsFcbSet_ChangeFCB: "IsFcbSet (ChangeFCB b h) = b"
  by (simp add: IsFcbSet_def ChangeFCB_def MASK_FCB_def bit.conj_disj_distrib2 and.assoc or_eq_0_iff)

lemma GetFuncEnum_ChangeFCB: "GetFuncEnum (ChangeFCB b h) = GetFuncEnum h"
proof -
  have "(c OR MASK_FCB) AND MASK_FUNC_OR_PRM = c AND MASK_FUNC_OR_PRM"
    "(c AND NOT MASK_FCB) AND MASK_FUNC_OR_PRM = c AND MASK_FUNC_OR_PRM" for c
    by (simp_all add: ctrl_masks bit.conj_disj_distrib2 and.assoc)
  then show ?thesis
    by (simp add: GetFuncEnum_def ChangeFCB_def)
qed


section \<open>The header bytes\<close>

definition header_fields_bytes :: "LinkHeader \<Rightarrow> u8 list" where
  "header_fields_bytes h =
     [0x05, 0x64, hdr_length h, hdr_ctrl h] @ UInt16_bytes (hdr_dest h) @ UInt16_bytes (hdr_src h)"

definition header_bytes :: "LinkHeader \<Rightarrow> u8 list" where
  "header_bytes h = header_fields_bytes h @ UInt16_bytes (CalcCrc (header_fields_bytes h))"

lemma length_header_fields_bytes [simp]: "length (header_fields_bytes h) = 8"
  by (simp add: header_fields_bytes_def)

lemma length_header_bytes [simp]: "length (header_bytes h) = 10"
  by (simp add: header_bytes_def)

lemma LinkHeader_Write_mkw:
  assumes "10 \<le> length view"
  shows "LinkHeader_Write h (mkw pre view post) =
    Some (mkw pre (header_bytes h @ drop 10 view) post)"
proof -
  from assms obtain v0 v1 v2 v3 v4 v5 v6 v7 v8 v9 r where
    view: "view = [v0, v1, v2, v3, v4, v5, v6, v7, v8, v9] @ r"
    by (auto simp: numeral_eq_Suc Suc_le_length_iff)
  obtain d0 d1 s0 s1 where "UInt16_bytes (hdr_dest h) = [d0, d1]" "UInt16_bytes (hdr_src h) = [s0, s1]"
    by (simp add: UInt16_bytes_def)
  then show ?thesis
    by (simp add: LinkHeader_Write_def AddCrc_def Let_def link_index wslice_store_mkw view
        list_store_def header_bytes_def header_fields_bytes_def numeral_eq_Suc)
qed

lemma LinkHeader_Read_bytes: "LinkHeader_Read (header_bytes h @ r) = Some h"
  by (simp add: LinkHeader_Read_def link_index header_bytes_def header_fields_bytes_def
      numeral_eq_Suc UInt16_roundtrip [unfolded append_assoc])

lemma LinkHeader_Read_defined: "10 \<le> length b \<Longrightarrow> \<exists>h. LinkHeader_Read b = Some h"
  using UInt8_Read_defined [of "drop 2 b"] UInt8_Read_defined [of "drop 3 b"]
    UInt16_Read_defined [of "drop 4 b"] UInt16_Read_defined [of "drop 6 b"]
  by (force simp: LinkHeader_Read_def link_index)

lemma LinkHeader_Read_prefix:
  "8 \<le> length b \<Longrightarrow> LinkHeader_Read (b @ r) = LinkHeader_Read b"
proof -
  assume "8 \<le> length b"
  moreover from this have "UInt8_Read (drop n b @ r) = UInt8_Read (drop n b)" if "n < 8" for n
    using that by (cases "drop n b") auto
  ultimately show ?thesis
    by (simp add: LinkHeader_Read_def link_index UInt16_Read_append)
qed

text \<open>A header that reads back with valid start bytes and CRC is the ten bytes of that header.\<close>

lemma LinkHeader_Read_exact:
  assumes "LinkHeader_Read b = Some h" and "take 2 b = [0x05, 0x64]" and "10 \<le> length b"
    and "IsCorrectCRC b LI_CRC = Some True"
  shows "take 10 b = header_bytes h"
proof -
  from assms(2,3) obtain b2 b3 b4 b5 b6 b7 b8 b9 r where
    b: "b = [0x05, 0x64, b2, b3, b4, b5, b6, b7, b8, b9] @ r"
    by (auto simp: numeral_eq_Suc Suc_le_length_iff)
  then have "UInt16_bytes (hdr_dest h) = [b4, b5]" "UInt16_bytes (hdr_src h) = [b6, b7]"
      "hdr_length h = b2" "hdr_ctrl h = b3"
    using assms(1) UInt16_bytes_Read
    by (force simp: LinkHeader_Read_def link_index numeral_eq_Suc)+
  then have f: "header_fields_bytes h = take 8 b"
    by (simp add: header_fields_bytes_def b numeral_eq_Suc)
  have "take 2 (drop 8 b) = UInt16_bytes (CalcCrc (take 8 b))"
    using assms(3,4) IsCorrectCRC_iff [of 8 b] by (simp add: LI_CRC_def)
  with f have "header_bytes h = take 8 b @ take 2 (drop 8 b)"
    by (simp add: header_bytes_def)
  then show ?thesis
    using take_add [of 8 2 b] by simp
qed


section \<open>Properties\<close>

text \<open>A link header written to a buffer reads back unchanged, with every field and flag it was built
  from, and its bytes carry the start octets and a correct CRC.\<close>

theorem LinkHeader_roundtrip:
  assumes "f \<noteq> LF_INVALID" and "10 \<le> length view"
  shows "\<exists>bytes. LinkHeader_Write (LinkHeader_Set len src dest master fcv fcb f) (mkw [] view []) =
      Some (mkw [] (bytes @ drop 10 view) []) \<and>
    length bytes = 10 \<and> take 2 bytes = [0x05, 0x64] \<and> IsCorrectCRC (bytes @ rest) 8 = Some True \<and>
    (\<exists>h. LinkHeader_Read (bytes @ rest) = Some h \<and> hdr_length h = len \<and> hdr_src h = src \<and> hdr_dest h = dest \<and>
      IsFromMaster h = master \<and> IsFcbSet h = fcb \<and> IsFcvDfcSet h = fcv \<and> GetFuncEnum h = f)"
proof -
  define h where "h = LinkHeader_Set len src dest master fcv fcb f"
  have "IsCorrectCRC (header_bytes h @ rest) 8 = Some True"
    using IsCorrectCRC_own [of "header_fields_bytes h" rest] by (simp add: header_bytes_def)
  moreover have "take 2 (header_bytes h) = [0x05, 0x64]"
    by (simp add: header_bytes_def header_fields_bytes_def)
  ultimately show ?thesis
    using assms LinkHeader_Write_mkw [OF assms(2), of h "[]" "[]"] LinkHeader_Read_bytes [of h rest]
    by (intro exI [of _ "header_bytes h"]) (simp add: h_def)
qed

theorem LinkHeader_roundtrip_witness:
  "\<exists>bytes. LinkHeader_Write (LinkHeader_Set 5 1 2 True False False PRI_RESET_LINK_STATES) (mkw [] (replicate 10 0) []) =
      Some (mkw [] (bytes @ drop 10 (replicate 10 0)) []) \<and> IsCorrectCRC (bytes @ []) 8 = Some True"
  using LinkHeader_roundtrip [of PRI_RESET_LINK_STATES "replicate 10 0" 5 1 2 True False False "[]"] by fastforce

end
