(* ===== verification/LinkFrame.thy ===== *)
theory LinkFrame
  imports LinkHeader
begin

text \<open>
  FT3 frames (\<open>link/LinkFrame.cpp\<close>): sizes, the interleaving of user data with block CRCs in
  both directions, and the frame formatters. The pure function \<open>add_block_crcs\<close> is the
  frame-body layout; the loops of the code are proved to produce, validate and strip it.
\<close>

section \<open>Sizes\<close>

definition CalcUserDataSize :: "nat \<Rightarrow> nat" where
  "CalcUserDataSize dataLength =
     (if dataLength > 0
      then let mod16 = dataLength mod LPDU_DATA_BLOCK_SIZE;
               size' = (dataLength div LPDU_DATA_BLOCK_SIZE) * LPDU_DATA_PLUS_CRC_SIZE
           in (if mod16 > 0 then size' + mod16 + LPDU_CRC_SIZE else size')
      else 0)"

definition CalcFrameSize :: "nat \<Rightarrow> nat" where
  "CalcFrameSize dataLength = LPDU_HEADER_SIZE + CalcUserDataSize dataLength"

lemma CalcFrameSize_bounds:
  "10 \<le> CalcFrameSize n" "n \<le> 250 \<Longrightarrow> CalcFrameSize n \<le> LPDU_MAX_FRAME_SIZE"
proof -
  show "10 \<le> CalcFrameSize n"
    by (simp add: CalcFrameSize_def lpdu_sizes)
  assume n: "n \<le> 250"
  define q where "q = n div 16"
  define r where "r = n mod 16"
  have "n = 16 * q + r" "r < 16"
    by (simp_all add: q_def r_def)
  with n have "q \<le> 14 \<or> q = 15 \<and> r \<le> 10" by linarith
  with \<open>r < 16\<close> have "18 * q + r + 2 \<le> 282" by linarith
  moreover from this have "CalcUserDataSize n \<le> 282"
    by (simp add: CalcUserDataSize_def lpdu_sizes Let_def mult.commute flip: q_def r_def)
  ultimately show "CalcFrameSize n \<le> LPDU_MAX_FRAME_SIZE"
    by (simp add: CalcFrameSize_def lpdu_sizes)
qed


section \<open>Writing, validating and reading the user data\<close>

text \<open>The source pointer is the list from \<open>pSrc\<close> on, \<open>off\<close> is \<open>pDest\<close> within its buffer.\<close>

function WriteUserData :: "u8 list \<Rightarrow> wslice \<Rightarrow> nat \<Rightarrow> nat \<Rightarrow> wslice option" where
  "WriteUserData pSrc dest off len =
     (if len > 0
      then let num = (if len > LPDU_DATA_BLOCK_SIZE then LPDU_DATA_BLOCK_SIZE else len)
           in do {
             chunk \<leftarrow> mem_read pSrc 0 num;
             dest \<leftarrow> wslice_store dest off chunk;
             dest \<leftarrow> AddCrc dest off num;
             WriteUserData (drop num pSrc) dest (off + (num + 2)) (len - num) }
      else Some dest)"
  by pat_completeness auto
termination
  by (relation "measure (\<lambda>(pSrc, dest, off, len). len)") (auto simp: lpdu_sizes split: if_splits)

function ValidateBodyCRC :: "u8 list \<Rightarrow> nat \<Rightarrow> bool option" where
  "ValidateBodyCRC pBody len =
     (if len > 0
      then let num = (if len \<le> LPDU_DATA_BLOCK_SIZE then len else LPDU_DATA_BLOCK_SIZE)
           in do {
             ok \<leftarrow> IsCorrectCRC pBody num;
             if ok then ValidateBodyCRC (drop (num + 2) pBody) (len - num) else Some False }
      else Some True)"
  by pat_completeness auto
termination
  by (relation "measure (\<lambda>(pBody, len). len)") (auto simp: lpdu_sizes split: if_splits)

text \<open>
  \<open>ReadUserData\<close> works in one memory object: the receive buffer is both source and destination
  (\<open>memmove\<close> allows the overlap).
\<close>

function ReadUserData :: "u8 list \<Rightarrow> nat \<Rightarrow> nat \<Rightarrow> nat \<Rightarrow> u8 list option" where
  "ReadUserData mem pRead pWrite len =
     (if len > 0
      then let num = (if len \<le> LPDU_DATA_BLOCK_SIZE then len else LPDU_DATA_BLOCK_SIZE);
               num_with_crc = num + 2
           in do {
             chunk \<leftarrow> mem_read mem pRead num;
             mem \<leftarrow> mem_write mem pWrite chunk;
             ReadUserData mem (pRead + num_with_crc) (pWrite + num) (len - num) }
      else Some mem)"
  by pat_completeness auto
termination
  by (relation "measure (\<lambda>(mem, r, w, len). len)") (auto simp: lpdu_sizes split: if_splits)

declare WriteUserData.simps [simp del] ValidateBodyCRC.simps [simp del] ReadUserData.simps [simp del]


section \<open>Formatting\<close>

definition FormatHeader ::
    "wslice \<Rightarrow> nat \<Rightarrow> bool \<Rightarrow> bool \<Rightarrow> bool \<Rightarrow> LinkFunction \<Rightarrow> u16 \<Rightarrow> u16 \<Rightarrow> (rslice \<times> wslice) option" where
  "FormatHeader buffer aDataLength aIsMaster aFcb aFcvDfc aFuncCode aDest aSrc =
     (if wsize buffer \<ge> LPDU_HEADER_SIZE
      then let header = LinkHeader_Set (of_nat (aDataLength + LPDU_MIN_LENGTH)) aSrc aDest
                          aIsMaster aFcvDfc aFcb aFuncCode
           in do {
             buffer \<leftarrow> LinkHeader_Write header buffer;
             let ret = RSlice_Take 10 (WSlice_ToRSlice buffer);
             Some (ret, snd (WSlice_Advance 10 buffer)) }
      else None)"

definition FormatAck :: "wslice \<Rightarrow> bool \<Rightarrow> bool \<Rightarrow> u16 \<Rightarrow> u16 \<Rightarrow> (rslice \<times> wslice) option" where
  "FormatAck buffer aIsMaster aIsRcvBuffFull aDest aSrc =
     FormatHeader buffer 0 aIsMaster False aIsRcvBuffFull SEC_ACK aDest aSrc"

definition FormatNack :: "wslice \<Rightarrow> bool \<Rightarrow> bool \<Rightarrow> u16 \<Rightarrow> u16 \<Rightarrow> (rslice \<times> wslice) option" where
  "FormatNack buffer aIsMaster aIsRcvBuffFull aDest aSrc =
     FormatHeader buffer 0 aIsMaster False aIsRcvBuffFull SEC_NACK aDest aSrc"

definition FormatLinkStatus :: "wslice \<Rightarrow> bool \<Rightarrow> bool \<Rightarrow> u16 \<Rightarrow> u16 \<Rightarrow> (rslice \<times> wslice) option" where
  "FormatLinkStatus buffer aIsMaster aIsRcvBuffFull aDest aSrc =
     FormatHeader buffer 0 aIsMaster False aIsRcvBuffFull SEC_LINK_STATUS aDest aSrc"

definition FormatNotSupported :: "wslice \<Rightarrow> bool \<Rightarrow> bool \<Rightarrow> u16 \<Rightarrow> u16 \<Rightarrow> (rslice \<times> wslice) option" where
  "FormatNotSupported buffer aIsMaster aIsRcvBuffFull aDest aSrc =
     FormatHeader buffer 0 aIsMaster False aIsRcvBuffFull SEC_NOT_SUPPORTED aDest aSrc"

definition FormatResetLinkStates :: "wslice \<Rightarrow> bool \<Rightarrow> u16 \<Rightarrow> u16 \<Rightarrow> (rslice \<times> wslice) option" where
  "FormatResetLinkStates buffer aIsMaster aDest aSrc =
     FormatHeader buffer 0 aIsMaster False False PRI_RESET_LINK_STATES aDest aSrc"

definition FormatRequestLinkStatus :: "wslice \<Rightarrow> bool \<Rightarrow> u16 \<Rightarrow> u16 \<Rightarrow> (rslice \<times> wslice) option" where
  "FormatRequestLinkStatus buffer aIsMaster aDest aSrc =
     FormatHeader buffer 0 aIsMaster False False PRI_REQUEST_LINK_STATUS aDest aSrc"

definition FormatTestLinkStatus :: "wslice \<Rightarrow> bool \<Rightarrow> bool \<Rightarrow> u16 \<Rightarrow> u16 \<Rightarrow> (rslice \<times> wslice) option" where
  "FormatTestLinkStatus buffer aIsMaster aFcb aDest aSrc =
     FormatHeader buffer 0 aIsMaster aFcb True PRI_TEST_LINK_STATES aDest aSrc"

text \<open>
  The returned view starts at the original write position, so it is read from the buffer after
  the stores.
\<close>

definition FormatConfirmedUserData ::
    "wslice \<Rightarrow> bool \<Rightarrow> bool \<Rightarrow> u16 \<Rightarrow> u16 \<Rightarrow> u8 list \<Rightarrow> nat \<Rightarrow> (rslice \<times> wslice) option" where
  "FormatConfirmedUserData buffer aIsMaster aFcb aDest aSrc apData dataLength =
     (if dataLength > 0 \<and> dataLength \<le> LPDU_MAX_USER_DATA_SIZE
      then let userDataSize = CalcUserDataSize dataLength
           in do {
             (_, body) \<leftarrow> FormatHeader buffer dataLength aIsMaster aFcb True
                            PRI_CONFIRMED_USER_DATA aDest aSrc;
             body \<leftarrow> WriteUserData apData body 0 dataLength;
             let ret = RSlice_Take (userDataSize + LPDU_HEADER_SIZE)
                         (WSlice_ToRSlice (buffer\<lparr>wbuf := wbuf body\<rparr>));
             Some (ret, snd (WSlice_Advance userDataSize body)) }
      else None)"

definition FormatUnconfirmedUserData ::
    "wslice \<Rightarrow> bool \<Rightarrow> u16 \<Rightarrow> u16 \<Rightarrow> u8 list \<Rightarrow> nat \<Rightarrow> (rslice \<times> wslice) option" where
  "FormatUnconfirmedUserData buffer aIsMaster aDest aSrc apData dataLength =
     (if dataLength > 0 \<and> dataLength \<le> LPDU_MAX_USER_DATA_SIZE
      then let userDataSize = CalcUserDataSize dataLength
           in do {
             (_, body) \<leftarrow> FormatHeader buffer dataLength aIsMaster False False
                            PRI_UNCONFIRMED_USER_DATA aDest aSrc;
             body \<leftarrow> WriteUserData apData body 0 dataLength;
             let ret = RSlice_Take (userDataSize + LPDU_HEADER_SIZE)
                         (WSlice_ToRSlice (buffer\<lparr>wbuf := wbuf body\<rparr>));
             Some (ret, snd (WSlice_Advance userDataSize body)) }
      else None)"


section \<open>The frame-body layout\<close>

function add_block_crcs :: "u8 list \<Rightarrow> u8 list" where
  "add_block_crcs xs =
     (if xs = [] then []
      else take 16 xs @ UInt16_bytes (CalcCrc (take 16 xs)) @ add_block_crcs (drop 16 xs))"
  by pat_completeness auto
termination
  by (relation "measure length") auto

declare add_block_crcs.simps [simp del]

function strip_block_crcs :: "u8 list \<Rightarrow> nat \<Rightarrow> u8 list" where
  "strip_block_crcs body len =
     (if len > 0 then take (min 16 len) body @ strip_block_crcs (drop (min 16 len + 2) body) (len - min 16 len)
      else [])"
  by pat_completeness auto
termination
  by (relation "measure (\<lambda>(body, len). len)") auto

declare strip_block_crcs.simps [simp del]

lemma add_block_crcs_Nil [simp]: "add_block_crcs [] = []"
  by (simp add: add_block_crcs.simps)

lemma block_num: "(if len > LPDU_DATA_BLOCK_SIZE then LPDU_DATA_BLOCK_SIZE else len) = min 16 len"
  "(if len \<le> LPDU_DATA_BLOCK_SIZE then len else LPDU_DATA_BLOCK_SIZE) = min 16 len"
  by (simp_all add: lpdu_sizes)

lemma CalcUserDataSize_0 [simp]: "CalcUserDataSize 0 = 0"
  by (simp add: CalcUserDataSize_def)

lemma CalcUserDataSize_step:
  "0 < n \<Longrightarrow> CalcUserDataSize n = min 16 n + 2 + CalcUserDataSize (n - min 16 n)"
proof (cases "n \<le> 16")
  case True
  assume "0 < n"
  with True show ?thesis
    by (cases "n = 16") (auto simp: CalcUserDataSize_def lpdu_sizes Let_def)
next
  case False
  then show ?thesis
    using div_add_self2 [of 16 "n - 16"] mod_add_self2 [of "n - 16" 16]
    by (auto simp: CalcUserDataSize_def lpdu_sizes Let_def)
qed

lemma CalcUserDataSize_ge: "n \<le> CalcUserDataSize n"
proof (induction n rule: less_induct)
  case (less n)
  show ?case
  proof (cases "n = 0")
    case False
    then have "n - min 16 n \<le> CalcUserDataSize (n - min 16 n)"
      by (intro less) simp
    with False show ?thesis
      by (subst CalcUserDataSize_step) simp_all
  qed simp
qed

lemma add_block_crcs_take:
  assumes "0 < n" and "n \<le> length xs"
  shows "add_block_crcs (take n xs) =
    take (min 16 n) xs @ UInt16_bytes (CalcCrc (take (min 16 n) xs))
      @ add_block_crcs (take (n - min 16 n) (drop (min 16 n) xs))"
  using assms by (subst add_block_crcs.simps) (auto simp: min_def drop_take)

lemma length_add_block_crcs [simp]: "length (add_block_crcs xs) = CalcUserDataSize (length xs)"
proof (induction xs rule: length_induct)
  case (1 xs)
  show ?case
  proof (cases "xs = []")
    case False
    then have "length (add_block_crcs (drop (min 16 (length xs)) xs)) =
        CalcUserDataSize (length xs - min 16 (length xs))"
      using 1 by simp
    with False show ?thesis
      using add_block_crcs_take [of "length xs" xs] CalcUserDataSize_step [of "length xs"]
      by (simp add: min_def)
  qed simp
qed


section \<open>The loops produce, validate and strip the layout\<close>

lemma AddCrc_mkw:
  assumes "off + len + 2 \<le> length view"
  shows "AddCrc (mkw pre view post) off len =
    Some (mkw pre (list_store view (off + len) (UInt16_bytes (CalcCrc (take len (drop off view))))) post)"
  using assms by (simp add: AddCrc_def Let_def wslice_store_mkw)

lemma WriteUserData_mkw:
  assumes "len \<le> length src" and "off + CalcUserDataSize len \<le> length view"
  shows "WriteUserData src (mkw pre view post) off len =
    Some (mkw pre (list_store view off (add_block_crcs (take len src))) post)"
  using assms
proof (induction len arbitrary: src view off rule: less_induct)
  case (less len)
  show ?case
  proof (cases "len = 0")
    case True
    then show ?thesis by (simp add: WriteUserData.simps)
  next
    case False
    define num where "num = min 16 len"
    define chunk where "chunk = take num src"
    define crc where "crc = UInt16_bytes (CalcCrc chunk)"
    define view' where "view' = list_store view off (chunk @ crc)"
    have num: "0 < num" "num \<le> len" "num \<le> length src" "length chunk = num" "length crc = 2"
      using False less.prems by (auto simp: num_def chunk_def crc_def)
    have sz: "CalcUserDataSize len = num + 2 + CalcUserDataSize (len - num)"
      using False CalcUserDataSize_step [of len] by (simp add: num_def)
    then have fits: "off + num + 2 + CalcUserDataSize (len - num) \<le> length view"
      using less.prems by simp
    have reread: "take num (drop off (list_store view off chunk)) = chunk"
      using num fits by (simp add: list_store_def)
    have view': "list_store (list_store view off chunk) (off + num) crc = view'"
      using num fits list_store_append [of off chunk crc view] by (simp add: view'_def)
    have IH: "WriteUserData (drop num src) (mkw pre view' post) (off + (num + 2)) (len - num) =
      Some (mkw pre (list_store view' (off + (num + 2)) (add_block_crcs (take (len - num) (drop num src)))) post)"
      using num fits less.prems by (intro less.IH) (simp_all add: view'_def)
    have "list_store view' (off + (num + 2)) (add_block_crcs (take (len - num) (drop num src))) =
      list_store view off ((chunk @ crc) @ add_block_crcs (take (len - num) (drop num src)))"
      unfolding view'_def using num fits less.prems
      by (subst list_store_append [symmetric]) simp_all
    also have "(chunk @ crc) @ add_block_crcs (take (len - num) (drop num src)) = add_block_crcs (take len src)"
      using False less.prems by (simp add: add_block_crcs_take chunk_def crc_def num_def)
    finally show ?thesis
      using num fits IH
      by (subst WriteUserData.simps)
        (simp add: block_num flip: num_def,
         simp add: mem_read_def wslice_store_mkw AddCrc_mkw reread view' flip: chunk_def crc_def)
  qed
qed

lemma length_strip_block_crcs [simp]:
  "CalcUserDataSize len \<le> length body \<Longrightarrow> length (strip_block_crcs body len) = len"
proof (induction len arbitrary: body rule: less_induct)
  case (less len)
  show ?case
  proof (cases "len = 0")
    case True
    then show ?thesis by (simp add: strip_block_crcs.simps)
  next
    case False
    with less.prems have "min 16 len + 2 + CalcUserDataSize (len - min 16 len) \<le> length body"
      by (simp add: CalcUserDataSize_step [of len])
    with False show ?thesis
      using less.IH [of "len - min 16 len" "drop (min 16 len + 2) body"]
      by (subst strip_block_crcs.simps) simp
  qed
qed

lemma strip_block_crcs_append:
  "CalcUserDataSize len \<le> length body \<Longrightarrow> strip_block_crcs (body @ ext) len = strip_block_crcs body len"
proof (induction len arbitrary: body rule: less_induct)
  case (less len)
  show ?case
  proof (cases "len = 0")
    case True
    then show ?thesis by (simp add: strip_block_crcs.simps)
  next
    case False
    with less.prems have "min 16 len + 2 + CalcUserDataSize (len - min 16 len) \<le> length body"
      by (simp add: CalcUserDataSize_step [of len])
    with False show ?thesis
      using less.IH [of "len - min 16 len" "drop (min 16 len + 2) body"]
      by (subst (1 2) strip_block_crcs.simps) simp
  qed
qed

lemma strip_add_block_crcs: "strip_block_crcs (add_block_crcs d @ r) (length d) = d"
proof (induction d arbitrary: r rule: length_induct)
  case (1 d)
  show ?case
  proof (cases "d = []")
    case True
    then show ?thesis by (simp add: strip_block_crcs.simps)
  next
    case False
    let ?n = "min 16 (length d)"
    have "add_block_crcs d = take ?n d @ UInt16_bytes (CalcCrc (take ?n d)) @ add_block_crcs (drop ?n d)"
      using add_block_crcs_take [of "length d" d] False by simp
    with False show ?thesis
      using 1 [rule_format, of "drop ?n d" r]
      by (subst strip_block_crcs.simps) (simp add: min_def)
  qed
qed

text \<open>The body check accepts exactly the bytes that are the layout of what will be read out.\<close>

lemma ValidateBodyCRC_iff:
  assumes "CalcUserDataSize len \<le> length body"
  shows "ValidateBodyCRC body len =
    Some (take (CalcUserDataSize len) body = add_block_crcs (strip_block_crcs body len))"
  using assms
proof (induction len arbitrary: body rule: less_induct)
  case (less len)
  show ?case
  proof (cases "len = 0")
    case True
    then show ?thesis by (simp add: ValidateBodyCRC.simps strip_block_crcs.simps)
  next
    case False
    define num where "num = min 16 len"
    define rest where "rest = drop (num + 2) body"
    have num: "0 < num" "num \<le> len" "num \<le> 16"
      using False by (auto simp: num_def)
    have sz: "CalcUserDataSize len = num + 2 + CalcUserDataSize (len - num)"
      using False CalcUserDataSize_step [of len] by (simp add: num_def)
    with less.prems have fits: "CalcUserDataSize (len - num) \<le> length rest" "num + 2 \<le> length body"
      by (simp_all add: rest_def)
    have strip: "strip_block_crcs body len = take num body @ strip_block_crcs rest (len - num)"
      using False by (subst strip_block_crcs.simps) (simp add: num_def rest_def)
    have len': "length (strip_block_crcs body len) = len"
      using less.prems by simp
    have "add_block_crcs (strip_block_crcs body len) =
        take num body @ UInt16_bytes (CalcCrc (take num body)) @ add_block_crcs (strip_block_crcs rest (len - num))"
      using add_block_crcs_take [of len "strip_block_crcs body len"] False num fits len'
      by (simp add: strip flip: num_def)
    moreover have "take (CalcUserDataSize len) body =
        take num body @ take 2 (drop num body) @ take (CalcUserDataSize (len - num)) rest"
      by (simp only: sz rest_def take_add drop_drop append_assoc add.commute [of 2 num])
    moreover obtain ok where ok: "IsCorrectCRC body num = Some ok"
      using IsCorrectCRC_defined fits by blast
    moreover have "ok \<longleftrightarrow> take 2 (drop num body) = UInt16_bytes (CalcCrc (take num body))"
      using IsCorrectCRC_iff [OF fits(2)] ok by simp
    moreover have "ValidateBodyCRC rest (len - num) = Some
        (take (CalcUserDataSize (len - num)) rest = add_block_crcs (strip_block_crcs rest (len - num)))"
      using num fits by (intro less.IH) simp_all
    moreover have "ValidateBodyCRC body len =
        (if ok then ValidateBodyCRC rest (len - num) else Some False)"
      using False ok by (subst ValidateBodyCRC.simps) (simp add: block_num rest_def flip: num_def)
    ultimately show ?thesis
      using fits by auto
  qed
qed

text \<open>Reading out within one buffer is safe because the destination never overtakes the source.\<close>

lemma ReadUserData_in_place:
  assumes "pWrite \<le> pRead" and "pRead + CalcUserDataSize len \<le> length mem"
  shows "ReadUserData mem pRead pWrite len =
    Some (list_store mem pWrite (strip_block_crcs (drop pRead mem) len))"
  using assms
proof (induction len arbitrary: mem pRead pWrite rule: less_induct)
  case (less len)
  show ?case
  proof (cases "len = 0")
    case True
    then show ?thesis by (simp add: ReadUserData.simps strip_block_crcs.simps)
  next
    case False
    define num where "num = min 16 len"
    define chunk where "chunk = take num (drop pRead mem)"
    define mem' where "mem' = list_store mem pWrite chunk"
    have num: "0 < num" "num \<le> len"
      using False by (auto simp: num_def)
    have sz: "CalcUserDataSize len = num + 2 + CalcUserDataSize (len - num)"
      using False CalcUserDataSize_step [of len] by (simp add: num_def)
    with less.prems have fits: "pRead + num + 2 + CalcUserDataSize (len - num) \<le> length mem"
      by simp
    then have chunk: "length chunk = num"
      by (simp add: chunk_def)
    have mem': "length mem' = length mem" "drop (pRead + (num + 2)) mem' = drop (pRead + (num + 2)) mem"
      using less.prems fits chunk by (simp_all add: mem'_def list_store_def)
    have IH: "ReadUserData mem' (pRead + (num + 2)) (pWrite + num) (len - num) =
      Some (list_store mem' (pWrite + num) (strip_block_crcs (drop (pRead + (num + 2)) mem) (len - num)))"
      using num fits less.prems mem' by (subst less.IH) simp_all
    have "strip_block_crcs (drop pRead mem) len =
        chunk @ strip_block_crcs (drop (pRead + (num + 2)) mem) (len - num)"
      using False by (subst strip_block_crcs.simps)
        (simp add: chunk_def num_def add.commute add.left_commute)
    moreover have "length (strip_block_crcs (drop (pRead + (num + 2)) mem) (len - num)) = len - num"
      using fits by (intro length_strip_block_crcs) simp
    ultimately have "list_store mem' (pWrite + num) (strip_block_crcs (drop (pRead + (num + 2)) mem) (len - num)) =
      list_store mem pWrite (strip_block_crcs (drop pRead mem) len)"
      unfolding mem'_def using fits less.prems chunk num CalcUserDataSize_ge [of "len - num"]
      by (simp flip: list_store_append add: chunk)
    moreover have "mem_write mem pWrite chunk = Some mem'"
      using fits less.prems chunk by (simp add: mem_write_def mem'_def list_store_def)
    moreover have "mem_read mem pRead num = Some chunk"
      using fits by (simp add: mem_read_def chunk_def)
    ultimately show ?thesis
      using False IH by (subst ReadUserData.simps) (simp add: block_num flip: num_def)
  qed
qed


section \<open>The formatted frames\<close>

definition frame_header ::
    "nat \<Rightarrow> bool \<Rightarrow> bool \<Rightarrow> bool \<Rightarrow> LinkFunction \<Rightarrow> u16 \<Rightarrow> u16 \<Rightarrow> LinkHeader" where
  "frame_header n m fcb fcv f dest src = LinkHeader_Set (of_nat (n + 5)) src dest m fcv fcb f"

definition frame_bytes :: "LinkHeader \<Rightarrow> u8 list \<Rightarrow> u8 list" where
  "frame_bytes h d = header_bytes h @ add_block_crcs d"

lemma length_frame_bytes [simp]: "length (frame_bytes h d) = CalcFrameSize (length d)"
  by (simp add: frame_bytes_def CalcFrameSize_def lpdu_sizes)

lemma FormatHeader_mkw:
  assumes "10 \<le> length view"
  shows "FormatHeader (mkw pre view post) n m fcb fcv f dest src =
    Some (header_bytes (frame_header n m fcb fcv f dest src),
          mkw (pre @ header_bytes (frame_header n m fcb fcv f dest src)) (drop 10 view) post)"
  using assms
  by (simp add: FormatHeader_def lpdu_sizes LinkHeader_Write_mkw WSlice_Advance_mkw frame_header_def Let_def)

text \<open>A link-only frame is written into any buffer of at least the header size.\<close>

lemma FormatHeader_frame:
  assumes "10 \<le> length view"
  shows "FormatHeader (mkw pre view post) 0 m fcb fcv f dest src =
    Some (frame_bytes (frame_header 0 m fcb fcv f dest src) [],
          mkw (pre @ frame_bytes (frame_header 0 m fcb fcv f dest src) []) (drop 10 view) post)"
  using FormatHeader_mkw [OF assms] by (simp add: frame_bytes_def)

lemma format_data_aux:
  assumes "0 < n" and "n \<le> 250" and "n \<le> length data" and "CalcFrameSize n \<le> length view"
  shows "do {
       (_, body) \<leftarrow> FormatHeader (mkw pre view post) n m fcb fcv f dest src;
       body \<leftarrow> WriteUserData data body 0 n;
       let ret = RSlice_Take (CalcUserDataSize n + LPDU_HEADER_SIZE)
                   (WSlice_ToRSlice ((mkw pre view post)\<lparr>wbuf := wbuf body\<rparr>));
       Some (ret, snd (WSlice_Advance (CalcUserDataSize n) body)) } =
     Some (frame_bytes (frame_header n m fcb fcv f dest src) (take n data),
           mkw (pre @ frame_bytes (frame_header n m fcb fcv f dest src) (take n data))
             (drop (CalcFrameSize n) view) post)"
proof -
  let ?h = "header_bytes (frame_header n m fcb fcv f dest src)"
  let ?b = "add_block_crcs (take n data)"
  have len: "10 \<le> length view" "CalcUserDataSize n \<le> length (drop 10 view)"
      "length ?b = CalcUserDataSize n"
    using assms by (simp_all add: CalcFrameSize_def lpdu_sizes min_def)
  have "WriteUserData data (mkw (pre @ ?h) (drop 10 view) post) 0 n =
      Some (mkw (pre @ ?h) (?b @ drop (CalcFrameSize n) view) post)"
    using assms len
    by (subst WriteUserData_mkw)
      (simp_all add: list_store_def CalcFrameSize_def lpdu_sizes add.commute)
  moreover have "WSlice_ToRSlice ((mkw pre view post)\<lparr>wbuf := (pre @ ?h) @ (?b @ drop (CalcFrameSize n) view) @ post\<rparr>)
      = ?h @ ?b @ drop (CalcFrameSize n) view"
    using assms len
    by (simp add: WSlice_ToRSlice_def mkw_def CalcFrameSize_def lpdu_sizes)
  ultimately show ?thesis
    using len
    by (simp add: FormatHeader_mkw WSlice_Advance_mkw lpdu_sizes frame_bytes_def Let_def)
qed

lemma FormatUnconfirmedUserData_mkw:
  assumes "0 < n" and "n \<le> 250" and "n \<le> length data" and "CalcFrameSize n \<le> length view"
  shows "FormatUnconfirmedUserData (mkw pre view post) m dest src data n =
    (let h = frame_header n m False False PRI_UNCONFIRMED_USER_DATA dest src
     in Some (frame_bytes h (take n data),
              mkw (pre @ frame_bytes h (take n data)) (drop (CalcFrameSize n) view) post))"
  using assms format_data_aux [OF assms]
  by (simp add: FormatUnconfirmedUserData_def Let_def LPDU_MAX_USER_DATA_SIZE_def)

lemma FormatConfirmedUserData_mkw:
  assumes "0 < n" and "n \<le> 250" and "n \<le> length data" and "CalcFrameSize n \<le> length view"
  shows "FormatConfirmedUserData (mkw pre view post) m fcb dest src data n =
    (let h = frame_header n m fcb True PRI_CONFIRMED_USER_DATA dest src
     in Some (frame_bytes h (take n data),
              mkw (pre @ frame_bytes h (take n data)) (drop (CalcFrameSize n) view) post))"
  using assms format_data_aux [OF assms]
  by (simp add: FormatConfirmedUserData_def Let_def LPDU_MAX_USER_DATA_SIZE_def)

end
