(* ===== verification/ShiftableBuffer.thy ===== *)
theory ShiftableBuffer
  imports Slices
begin

text \<open>
  The receive buffer facade of the link parser (\<open>link/ShiftableBuffer.h/.cpp\<close>): a fixed
  memory object with a read and a write position. The unread bytes are
  \<open>sb_ReadBuffer\<close>; every operation is characterised by its effect on them.
\<close>

record ShiftableBuffer =
  sb_mem :: "u8 list"
  sb_size :: nat
  sb_writePos :: nat
  sb_readPos :: nat

definition sb_init :: "u8 list \<Rightarrow> nat \<Rightarrow> ShiftableBuffer" where
  "sb_init pBuffer size' = \<lparr>sb_mem = pBuffer, sb_size = size', sb_writePos = 0, sb_readPos = 0\<rparr>"

definition NumBytesRead :: "ShiftableBuffer \<Rightarrow> nat" where
  "NumBytesRead b = sb_writePos b - sb_readPos b"

definition sb_ReadBuffer :: "ShiftableBuffer \<Rightarrow> rslice" where
  "sb_ReadBuffer b = take (NumBytesRead b) (drop (sb_readPos b) (sb_mem b))"

definition NumWriteBytes :: "ShiftableBuffer \<Rightarrow> nat" where
  "NumWriteBytes b = sb_size b - sb_writePos b"

definition sb_WriteBuff :: "ShiftableBuffer \<Rightarrow> wslice" where
  "sb_WriteBuff b = \<lparr>wbuf = sb_mem b, wpos = sb_writePos b, wsize = NumWriteBytes b\<rparr>"

definition sb_AdvanceRead :: "nat \<Rightarrow> ShiftableBuffer \<Rightarrow> ShiftableBuffer option" where
  "sb_AdvanceRead numBytes b =
     (if numBytes \<le> NumBytesRead b then Some (b\<lparr>sb_readPos := sb_readPos b + numBytes\<rparr>) else None)"

definition sb_AdvanceWrite :: "nat \<Rightarrow> ShiftableBuffer \<Rightarrow> ShiftableBuffer option" where
  "sb_AdvanceWrite numBytes b =
     (if numBytes \<le> NumWriteBytes b then Some (b\<lparr>sb_writePos := sb_writePos b + numBytes\<rparr>) else None)"

definition sb_Shift :: "ShiftableBuffer \<Rightarrow> ShiftableBuffer option" where
  "sb_Shift b =
     (let numRead = NumBytesRead b
      in do {
        unread \<leftarrow> mem_read (sb_mem b) (sb_readPos b) numRead;
        mem \<leftarrow> mem_write (sb_mem b) 0 unread;
        Some (b\<lparr>sb_mem := mem, sb_readPos := 0, sb_writePos := numRead\<rparr>) })"

definition sb_Reset :: "ShiftableBuffer \<Rightarrow> ShiftableBuffer" where
  "sb_Reset b = b\<lparr>sb_writePos := 0, sb_readPos := 0\<rparr>"

lemma NumBytesRead_AdvanceRead:
  "sb_AdvanceRead n b = Some b' \<Longrightarrow> NumBytesRead b' = NumBytesRead b - n \<and> n \<le> NumBytesRead b"
  by (auto simp: sb_AdvanceRead_def NumBytesRead_def split: if_splits)

text \<open>The search for the start bytes; it returns with the number of bytes skipped added to \<open>skipCount\<close>.\<close>

function sb_Sync :: "ShiftableBuffer \<Rightarrow> nat \<Rightarrow> (bool \<times> nat \<times> ShiftableBuffer) option" where
  "sb_Sync b skipCount =
     (if NumBytesRead b > 1
      then (case sb_ReadBuffer b of
              b0 # b1 # _ \<Rightarrow>
                if b0 = 0x05 \<and> b1 = 0x64 then Some (True, skipCount, b)
                else do { b' \<leftarrow> sb_AdvanceRead 1 b; sb_Sync b' (skipCount + 1) }
            | _ \<Rightarrow> None)
      else Some (False, skipCount, b))"
  by pat_completeness auto
termination
  by (relation "measure (\<lambda>(b, _). NumBytesRead b)") (auto dest: NumBytesRead_AdvanceRead)

declare sb_Sync.simps [simp del]


section \<open>Effects on the unread bytes\<close>

definition sb_wf :: "ShiftableBuffer \<Rightarrow> bool" where
  "sb_wf b \<longleftrightarrow> sb_readPos b \<le> sb_writePos b \<and> sb_writePos b \<le> sb_size b \<and> length (sb_mem b) = sb_size b"

lemma length_sb_ReadBuffer [simp]: "sb_wf b \<Longrightarrow> length (sb_ReadBuffer b) = NumBytesRead b"
  by (auto simp: sb_wf_def sb_ReadBuffer_def NumBytesRead_def)

lemma sb_wf_init [simp]: "length mem = n \<Longrightarrow> sb_wf (sb_init mem n)"
  by (simp add: sb_wf_def sb_init_def)

lemma sb_wf_Reset [simp]: "sb_wf b \<Longrightarrow> sb_wf (sb_Reset b)"
  by (simp add: sb_wf_def sb_Reset_def)

lemma sb_ReadBuffer_empty [simp]: "sb_ReadBuffer (sb_init mem n) = []" "sb_ReadBuffer (sb_Reset b) = []"
  by (simp_all add: sb_ReadBuffer_def NumBytesRead_def sb_init_def sb_Reset_def)

lemma sb_AdvanceRead_ok:
  assumes "sb_wf b" and "n \<le> NumBytesRead b"
  shows "sb_AdvanceRead n b = Some (b\<lparr>sb_readPos := sb_readPos b + n\<rparr>)"
    and "sb_wf (b\<lparr>sb_readPos := sb_readPos b + n\<rparr>)"
    and "sb_ReadBuffer (b\<lparr>sb_readPos := sb_readPos b + n\<rparr>) = drop n (sb_ReadBuffer b)"
    and "NumBytesRead (b\<lparr>sb_readPos := sb_readPos b + n\<rparr>) = NumBytesRead b - n"
  using assms
  by (auto simp: sb_AdvanceRead_def sb_wf_def sb_ReadBuffer_def NumBytesRead_def drop_take add.commute)

lemma sb_Shift_ok:
  assumes "sb_wf b"
  shows "\<exists>b'. sb_Shift b = Some b' \<and> sb_wf b' \<and> sb_size b' = sb_size b \<and>
    sb_ReadBuffer b' = sb_ReadBuffer b \<and> NumWriteBytes b' = sb_size b - NumBytesRead b \<and>
    NumBytesRead b' = NumBytesRead b"
  using assms
  by (auto simp: sb_Shift_def Let_def mem_read_def mem_write_def sb_wf_def NumBytesRead_def
      sb_ReadBuffer_def NumWriteBytes_def)

text \<open>The channel stores received bytes at \<open>WriteBuff()\<close> and then reports their number.\<close>

definition sb_fill :: "u8 list \<Rightarrow> ShiftableBuffer \<Rightarrow> ShiftableBuffer option" where
  "sb_fill bs b = do { w \<leftarrow> wslice_store (sb_WriteBuff b) 0 bs; Some (b\<lparr>sb_mem := wbuf w\<rparr>) }"

lemma sb_fill_advance:
  assumes "sb_wf b" and "length bs \<le> NumWriteBytes b"
  shows "\<exists>b' b''. sb_fill bs b = Some b' \<and> sb_AdvanceWrite (length bs) b' = Some b'' \<and> sb_wf b'' \<and>
    sb_size b'' = sb_size b \<and> sb_ReadBuffer b'' = sb_ReadBuffer b @ bs"
proof -
  define m where "m = take (sb_writePos b) (sb_mem b) @ bs @ drop (sb_writePos b + length bs) (sb_mem b)"
  have bounds: "sb_readPos b \<le> sb_writePos b" "sb_writePos b + length bs \<le> length (sb_mem b)"
      "length (sb_mem b) = sb_size b"
    using assms by (auto simp: sb_wf_def NumWriteBytes_def)
  have "sb_fill bs b = Some (b\<lparr>sb_mem := m\<rparr>)"
    using assms bounds
    by (simp add: sb_fill_def wslice_store_succeeds wslice_wf_def sb_WriteBuff_def NumWriteBytes_def m_def)
  moreover have "sb_AdvanceWrite (length bs) (b\<lparr>sb_mem := m\<rparr>) =
      Some (b\<lparr>sb_mem := m, sb_writePos := sb_writePos b + length bs\<rparr>)"
    using assms by (simp add: sb_AdvanceWrite_def NumWriteBytes_def)
  moreover have "sb_wf (b\<lparr>sb_mem := m, sb_writePos := sb_writePos b + length bs\<rparr>)"
    using bounds by (simp add: sb_wf_def m_def)
  moreover have "sb_ReadBuffer (b\<lparr>sb_mem := m, sb_writePos := sb_writePos b + length bs\<rparr>) =
      sb_ReadBuffer b @ bs"
    using bounds by (simp add: sb_ReadBuffer_def NumBytesRead_def m_def drop_take)
  ultimately show ?thesis by simp
qed

lemma sb_Sync_ok:
  assumes "sb_wf b"
  shows "\<exists>k. k \<le> NumBytesRead b \<and>
    sb_Sync b skip = Some (take 2 (drop k (sb_ReadBuffer b)) = [0x05, 0x64], skip + k,
                           b\<lparr>sb_readPos := sb_readPos b + k\<rparr>) \<and>
    (\<forall>i<k. i + 2 \<le> NumBytesRead b \<and> take 2 (drop i (sb_ReadBuffer b)) \<noteq> [0x05, 0x64]) \<and>
    (take 2 (drop k (sb_ReadBuffer b)) \<noteq> [0x05, 0x64] \<longrightarrow> NumBytesRead b \<le> k + 1)"
  using assms
proof (induction b skip rule: sb_Sync.induct)
  case (1 b skip)
  show ?case
  proof (cases "NumBytesRead b > 1")
    case False
    then have "length (take 2 (sb_ReadBuffer b)) \<le> 1"
      using 1(2) by simp
    then have "take 2 (sb_ReadBuffer b) \<noteq> [0x05, 0x64]" by auto
    with False show ?thesis
      by (intro exI [of _ 0]) (simp add: sb_Sync.simps [of b skip])
  next
    case True
    then have "2 \<le> length (sb_ReadBuffer b)"
      using 1(2) by simp
    then obtain b0 b1 r where rb: "sb_ReadBuffer b = b0 # b1 # r"
      by (rule two_le_lengthE)
    show ?thesis
    proof (cases "b0 = 0x05 \<and> b1 = 0x64")
      case sync: True
      with True rb show ?thesis
        by (intro exI [of _ 0]) (simp add: sb_Sync.simps [of b skip])
    next
      case nosync: False
      let ?b = "b\<lparr>sb_readPos := sb_readPos b + 1\<rparr>"
      have adv: "sb_AdvanceRead 1 b = Some ?b" "sb_wf ?b"
          "sb_ReadBuffer ?b = drop 1 (sb_ReadBuffer b)" "NumBytesRead ?b = NumBytesRead b - 1"
        using sb_AdvanceRead_ok [of b 1] 1(2) True by simp_all
      obtain k where k: "k \<le> NumBytesRead ?b"
          "sb_Sync ?b (skip + 1) = Some (take 2 (drop k (sb_ReadBuffer ?b)) = [0x05, 0x64], skip + 1 + k,
             ?b\<lparr>sb_readPos := sb_readPos ?b + k\<rparr>)"
          "\<forall>i<k. i + 2 \<le> NumBytesRead ?b \<and> take 2 (drop i (sb_ReadBuffer ?b)) \<noteq> [0x05, 0x64]"
          "take 2 (drop k (sb_ReadBuffer ?b)) \<noteq> [0x05, 0x64] \<longrightarrow> NumBytesRead ?b \<le> k + 1"
        using 1(1) [OF True rb refl nosync adv(1) adv(2)] by blast
      have "\<forall>i<Suc k. i + 2 \<le> NumBytesRead b \<and> take 2 (drop i (sb_ReadBuffer b)) \<noteq> [0x05, 0x64]"
        using k(3) nosync rb True unfolding All_less_Suc2 adv(3,4) by auto
      with k True rb nosync adv show ?thesis
        by (intro exI [of _ "Suc k"]) (auto simp: sb_Sync.simps [of b skip])
    qed
  qed
qed

end
