(* ===== verification/LinkParser.thy ===== *)
theory LinkParser
  imports LinkFrame ShiftableBuffer
begin

text \<open>
  The FT3 receive state machine (\<open>link/LinkLayerParser.h/.cpp\<close>) over its 292-byte receive
  buffer, and its specification \<open>deframe\<close>: the frames a byte stream contains. Frames
  handed to \<open>IFrameSink::OnFrame\<close> are the output list of \<open>Parser_OnRead\<close>.
\<close>

datatype ParserState = FindSync | ReadHeader | ReadBody | Complete

record ParserStatistics =
  numHeaderCrcError :: u32
  numBodyCrcError :: u32
  numLinkFrameRx :: u32
  numBadLength :: u32
  numBadFunctionCode :: u32
  numBadFCV :: u32
  numBadFCB :: u32

text \<open>\<open>userData\<close> is the slice of that length at the front of \<open>rxBuffer\<close>.\<close>

record LinkLayerParser =
  p_statistics :: ParserStatistics
  p_header :: LinkHeader
  p_state :: ParserState
  p_frameSize :: nat
  p_userData :: nat
  p_buffer :: ShiftableBuffer

type_synonym frame = "LinkHeaderFields \<times> rslice"

definition LinkLayerParser_init :: "u8 list \<Rightarrow> LinkLayerParser" where
  "LinkLayerParser_init rxBuffer =
     \<lparr>p_statistics = \<lparr>numHeaderCrcError = 0, numBodyCrcError = 0, numLinkFrameRx = 0, numBadLength = 0,
        numBadFunctionCode = 0, numBadFCV = 0, numBadFCB = 0\<rparr>,
      p_header = LinkHeader_default, p_state = FindSync, p_frameSize = 0, p_userData = 0,
      p_buffer = sb_init rxBuffer LPDU_MAX_FRAME_SIZE\<rparr>"

definition Parser_Reset :: "LinkLayerParser \<Rightarrow> LinkLayerParser" where
  "Parser_Reset p = p\<lparr>p_state := FindSync, p_frameSize := 0, p_buffer := sb_Reset (p_buffer p)\<rparr>"

definition Parser_WriteBuff :: "LinkLayerParser \<Rightarrow> wslice" where
  "Parser_WriteBuff p = sb_WriteBuff (p_buffer p)"

definition count_stat ::
    "((u32 \<Rightarrow> u32) \<Rightarrow> ParserStatistics \<Rightarrow> ParserStatistics) \<Rightarrow> LinkLayerParser \<Rightarrow> LinkLayerParser" where
  "count_stat upd p = p\<lparr>p_statistics := upd (\<lambda>n. n + 1) (p_statistics p)\<rparr>"


section \<open>Header checks\<close>

definition ValidateFunctionCode :: "LinkLayerParser \<Rightarrow> bool \<times> LinkLayerParser" where
  "ValidateFunctionCode p =
     (let h = p_header p in
      if IsPriToSec h then
        (let fcv_set = (case GetFuncEnum h of
             PRI_CONFIRMED_USER_DATA \<Rightarrow> Some True
           | PRI_TEST_LINK_STATES \<Rightarrow> Some True
           | PRI_REQUEST_LINK_STATUS \<Rightarrow> Some False
           | PRI_RESET_LINK_STATES \<Rightarrow> Some False
           | PRI_UNCONFIRMED_USER_DATA \<Rightarrow> Some False
           | _ \<Rightarrow> None)
         in case fcv_set of
              None \<Rightarrow> (False, count_stat numBadFunctionCode_update p)
            | Some fcv \<Rightarrow>
                if fcv \<noteq> IsFcvDfcSet h then (False, count_stat numBadFCV_update p) else (True, p))
      else
        (if GetFuncEnum h \<in> {SEC_ACK, SEC_NACK, SEC_LINK_STATUS, SEC_NOT_SUPPORTED}
         then (if IsFcbSet h then (False, count_stat numBadFCB_update p) else (True, p))
         else (False, count_stat numBadFunctionCode_update p)))"

definition ValidateHeaderParameters :: "LinkLayerParser \<Rightarrow> bool \<times> LinkLayerParser" where
  "ValidateHeaderParameters p =
     (let h = p_header p in
      if \<not> ValidLength h then (False, count_stat numBadLength_update p)
      else
        (let (ok, p) = ValidateFunctionCode p in
         if \<not> ok then (False, p)
         else
           (let user_data_length = unat (hdr_length h - of_nat LPDU_MIN_LENGTH);
                p = p\<lparr>p_frameSize := CalcFrameSize user_data_length\<rparr>;
                func = GetFuncEnum h;
                has_payload = user_data_length > 0;
                should_have_payload =
                  (func = PRI_CONFIRMED_USER_DATA \<or> func = PRI_UNCONFIRMED_USER_DATA)
            in if should_have_payload \<and> \<not> has_payload then (False, count_stat numBadLength_update p)
               else if \<not> should_have_payload \<and> has_payload then (False, count_stat numBadLength_update p)
               else (True, p\<lparr>p_frameSize := CalcFrameSize user_data_length\<rparr>))))"

definition Parser_ReadHeader :: "LinkLayerParser \<Rightarrow> (bool \<times> LinkLayerParser) option" where
  "Parser_ReadHeader p = do {
     h \<leftarrow> LinkHeader_Read (sb_ReadBuffer (p_buffer p));
     let p = p\<lparr>p_header := h\<rparr>;
     ok \<leftarrow> IsCorrectCRC (sb_ReadBuffer (p_buffer p)) LI_CRC;
     Some (if ok then ValidateHeaderParameters p else (False, count_stat numHeaderCrcError_update p)) }"


section \<open>Body checks and transfer\<close>

text \<open>\<open>GetLength() - LPDU_MIN_LENGTH\<close> is computed as \<open>int\<close> and stored in a \<open>uint32_t\<close>.\<close>

definition user_data_len :: "LinkHeader \<Rightarrow> nat" where
  "user_data_len h = unat ((ucast (hdr_length h) :: u32) - of_nat LPDU_MIN_LENGTH)"

definition ValidateBody :: "LinkLayerParser \<Rightarrow> (bool \<times> LinkLayerParser) option" where
  "ValidateBody p = do {
     ok \<leftarrow> ValidateBodyCRC (drop LPDU_HEADER_SIZE (sb_ReadBuffer (p_buffer p))) (user_data_len (p_header p));
     Some (if ok then (True, p) else (False, count_stat numBodyCrcError_update p)) }"

definition TransferUserData :: "LinkLayerParser \<Rightarrow> LinkLayerParser option" where
  "TransferUserData p =
     (let len = user_data_len (p_header p);
          b = p_buffer p
      in do {
        rxBuffer \<leftarrow> ReadUserData (sb_mem b) (sb_readPos b + LPDU_HEADER_SIZE) 0 len;
        Some (p\<lparr>p_buffer := b\<lparr>sb_mem := rxBuffer\<rparr>, p_userData := len\<rparr>) })"

definition FailFrame :: "LinkLayerParser \<Rightarrow> LinkLayerParser option" where
  "FailFrame p = do { b \<leftarrow> sb_AdvanceRead 1 (p_buffer p); Some (p\<lparr>p_buffer := b\<rparr>) }"

definition header_fields :: "LinkHeader \<Rightarrow> LinkHeaderFields" where
  "header_fields h =
     \<lparr>lf_func = GetFuncEnum h, lf_isFromMaster = IsFromMaster h, lf_fcb = IsFcbSet h,
      lf_fcvdfc = IsFcvDfcSet h, lf_dest = hdr_dest h, lf_src = hdr_src h\<rparr>"

definition PushFrame :: "LinkLayerParser \<Rightarrow> (frame \<times> LinkLayerParser) option" where
  "PushFrame p = do {
     userData \<leftarrow> mem_read (sb_mem (p_buffer p)) 0 (p_userData p);
     b \<leftarrow> sb_AdvanceRead (p_frameSize p) (p_buffer p);
     Some ((header_fields (p_header p), userData), p\<lparr>p_buffer := b\<rparr>) }"


section \<open>The state machine\<close>

definition ParseSync :: "LinkLayerParser \<Rightarrow> (ParserState \<times> LinkLayerParser) option" where
  "ParseSync p =
     (if NumBytesRead (p_buffer p) \<ge> 10
      then do {
        (synced, _, b) \<leftarrow> sb_Sync (p_buffer p) 0;
        Some (if synced then ReadHeader else FindSync, p\<lparr>p_buffer := b\<rparr>) }
      else Some (FindSync, p))"

definition ParseHeader :: "LinkLayerParser \<Rightarrow> (ParserState \<times> LinkLayerParser) option" where
  "ParseHeader p =
     (if NumBytesRead (p_buffer p) \<ge> 10
      then do {
        (ok, p) \<leftarrow> Parser_ReadHeader p;
        if ok then Some (ReadBody, p)
        else do { p \<leftarrow> FailFrame p; Some (FindSync, p) } }
      else Some (ReadHeader, p))"

definition ParseBody :: "LinkLayerParser \<Rightarrow> (ParserState \<times> LinkLayerParser) option" where
  "ParseBody p =
     (if NumBytesRead (p_buffer p) < p_frameSize p then Some (ReadBody, p)
      else do {
        (ok, p) \<leftarrow> ValidateBody p;
        if ok then do { p \<leftarrow> TransferUserData p; Some (Complete, p) }
        else do { p \<leftarrow> FailFrame p; Some (FindSync, p) } })"

definition ParseOneStep :: "LinkLayerParser \<Rightarrow> (ParserState \<times> LinkLayerParser) option" where
  "ParseOneStep p =
     (case p_state p of
        FindSync \<Rightarrow> ParseSync p
      | ReadHeader \<Rightarrow> ParseHeader p
      | ReadBody \<Rightarrow> ParseBody p
      | Complete \<Rightarrow> Some (p_state p, p))"

text \<open>Each change of state lowers four times the unread bytes plus the rank of the state.\<close>

definition state_rank :: "ParserState \<Rightarrow> nat" where
  "state_rank s = (case s of FindSync \<Rightarrow> 3 | ReadHeader \<Rightarrow> 2 | ReadBody \<Rightarrow> 1 | Complete \<Rightarrow> 0)"

definition parser_measure :: "LinkLayerParser \<Rightarrow> nat" where
  "parser_measure p = 4 * NumBytesRead (p_buffer p) + state_rank (p_state p)"

lemma count_stat_sel [simp]:
  "p_header (count_stat f p) = p_header p" "p_state (count_stat f p) = p_state p"
  "p_frameSize (count_stat f p) = p_frameSize p" "p_userData (count_stat f p) = p_userData p"
  "p_buffer (count_stat f p) = p_buffer p"
  by (simp_all add: count_stat_def)

lemma count_stat_numLinkFrameRx [simp]:
  "numLinkFrameRx (p_statistics (count_stat numHeaderCrcError_update p)) = numLinkFrameRx (p_statistics p)"
  "numLinkFrameRx (p_statistics (count_stat numBodyCrcError_update p)) = numLinkFrameRx (p_statistics p)"
  "numLinkFrameRx (p_statistics (count_stat numBadLength_update p)) = numLinkFrameRx (p_statistics p)"
  "numLinkFrameRx (p_statistics (count_stat numBadFunctionCode_update p)) = numLinkFrameRx (p_statistics p)"
  "numLinkFrameRx (p_statistics (count_stat numBadFCV_update p)) = numLinkFrameRx (p_statistics p)"
  "numLinkFrameRx (p_statistics (count_stat numBadFCB_update p)) = numLinkFrameRx (p_statistics p)"
  "numLinkFrameRx (p_statistics (count_stat numLinkFrameRx_update p)) = numLinkFrameRx (p_statistics p) + 1"
  by (simp_all add: count_stat_def)

lemma ValidateFunctionCode_frame:
  "ValidateFunctionCode p = (ok, p') \<Longrightarrow>
     p_header p' = p_header p \<and> p_state p' = p_state p \<and> p_frameSize p' = p_frameSize p \<and>
     p_userData p' = p_userData p \<and> p_buffer p' = p_buffer p \<and>
     numLinkFrameRx (p_statistics p') = numLinkFrameRx (p_statistics p)"
  by (auto simp: ValidateFunctionCode_def Let_def split: if_splits LinkFunction.splits)

lemma ValidateHeaderParameters_frame:
  "ValidateHeaderParameters p = (ok, p') \<Longrightarrow>
     p_header p' = p_header p \<and> p_state p' = p_state p \<and>
     p_userData p' = p_userData p \<and> p_buffer p' = p_buffer p \<and>
     numLinkFrameRx (p_statistics p') = numLinkFrameRx (p_statistics p)"
  by (auto simp: ValidateHeaderParameters_def Let_def split: if_splits prod.splits
      dest!: ValidateFunctionCode_frame)

lemma Parser_ReadHeader_frame:
  "Parser_ReadHeader p = Some (ok, p') \<Longrightarrow>
     p_state p' = p_state p \<and> p_userData p' = p_userData p \<and> p_buffer p' = p_buffer p \<and>
     numLinkFrameRx (p_statistics p') = numLinkFrameRx (p_statistics p)"
  by (auto simp: Parser_ReadHeader_def bind_eq_Some_conv Let_def split: if_splits
      dest!: ValidateHeaderParameters_frame)

lemma sb_Sync_NumBytesRead: "sb_Sync b k = Some (s, k', b') \<Longrightarrow> NumBytesRead b' \<le> NumBytesRead b"
proof (induction b k arbitrary: s k' b' rule: sb_Sync.induct)
  case (1 b skip)
  then show ?case
    by (subst (asm) (2) sb_Sync.simps)
      (fastforce simp: bind_eq_Some_conv split: if_splits list.splits dest: NumBytesRead_AdvanceRead)
qed

lemma ReadUserData_NumBytesRead:
  "NumBytesRead (b\<lparr>sb_mem := m\<rparr>) = NumBytesRead b"
  by (simp add: NumBytesRead_def)

lemma FailFrame_NumBytesRead:
  "FailFrame p = Some p' \<Longrightarrow>
     NumBytesRead (p_buffer p') + 1 = NumBytesRead (p_buffer p) \<and> p_state p' = p_state p \<and>
     p_statistics p' = p_statistics p"
  by (auto simp: FailFrame_def bind_eq_Some_conv dest: NumBytesRead_AdvanceRead)

lemma ParseOneStep_progress:
  assumes "ParseOneStep p = Some (s, p')" and "s \<noteq> p_state p"
  shows "parser_measure (p'\<lparr>p_state := s\<rparr>) < parser_measure p"
  using assms
  by (cases "p_state p")
    (auto simp: ParseOneStep_def ParseSync_def ParseHeader_def ParseBody_def parser_measure_def
      state_rank_def bind_eq_Some_conv ValidateBody_def TransferUserData_def Let_def
      ReadUserData_NumBytesRead split: if_splits
      dest!: Parser_ReadHeader_frame FailFrame_NumBytesRead sb_Sync_NumBytesRead)

lemma ParseOneStep_frame:
  assumes "ParseOneStep p = Some (s, p')"
  shows "NumBytesRead (p_buffer p') \<le> NumBytesRead (p_buffer p) \<and>
    numLinkFrameRx (p_statistics p') = numLinkFrameRx (p_statistics p)"
  using assms
  by (cases "p_state p")
    (auto simp: ParseOneStep_def ParseSync_def ParseHeader_def ParseBody_def
      bind_eq_Some_conv ValidateBody_def TransferUserData_def Let_def
      ReadUserData_NumBytesRead split: if_splits
      dest!: Parser_ReadHeader_frame FailFrame_NumBytesRead sb_Sync_NumBytesRead)

text \<open>At the head of the loop \<open>lastState\<close> is always \<open>this->state\<close>.\<close>

function ParseUntilComplete :: "LinkLayerParser \<Rightarrow> (ParserState \<times> LinkLayerParser) option" where
  "ParseUntilComplete p =
     (let lastState = p_state p
      in do {
        (s, p) \<leftarrow> ParseOneStep p;
        let p = p\<lparr>p_state := s\<rparr>;
        if s \<noteq> lastState then ParseUntilComplete p else Some (s, p) })"
  by pat_completeness auto
termination
  by (relation "measure parser_measure") (auto dest: ParseOneStep_progress)

declare ParseUntilComplete.simps [simp del]

partial_function (option) OnRead_loop ::
    "LinkLayerParser \<Rightarrow> frame list \<Rightarrow> (LinkLayerParser \<times> frame list) option" where
  "OnRead_loop p out = do {
     (s, p) \<leftarrow> ParseUntilComplete p;
     if s = Complete
     then do {
       let p = count_stat numLinkFrameRx_update p;
       (f, p) \<leftarrow> PushFrame p;
       OnRead_loop (p\<lparr>p_state := FindSync\<rparr>) (out @ [f]) }
     else Some (p, out) }"

declare OnRead_loop.simps [code]

definition Parser_OnRead :: "nat \<Rightarrow> LinkLayerParser \<Rightarrow> (LinkLayerParser \<times> frame list) option" where
  "Parser_OnRead numBytes p = do {
     b \<leftarrow> sb_AdvanceWrite numBytes (p_buffer p);
     (p, frames) \<leftarrow> OnRead_loop (p\<lparr>p_buffer := b\<rparr>) [];
     b \<leftarrow> sb_Shift (p_buffer p);
     Some (p\<lparr>p_buffer := b\<rparr>, frames) }"

text \<open>One read of the channel: the bytes are stored at \<open>WriteBuff()\<close>, then \<open>OnRead\<close> runs.\<close>

definition Parser_Receive :: "u8 list \<Rightarrow> LinkLayerParser \<Rightarrow> (LinkLayerParser \<times> frame list) option" where
  "Parser_Receive bytes p = do {
     b \<leftarrow> sb_fill bytes (p_buffer p);
     Parser_OnRead (length bytes) (p\<lparr>p_buffer := b\<rparr>) }"


section \<open>Specification: the frames of a byte stream\<close>

definition payload_len :: "LinkHeader \<Rightarrow> nat" where
  "payload_len h = unat (hdr_length h) - 5"

text \<open>The headers of IEEE 1815 that this layer accepts: function code, FCV, FCB and length agree.\<close>

definition valid_header :: "LinkHeader \<Rightarrow> bool" where
  "valid_header h \<longleftrightarrow> 5 \<le> unat (hdr_length h) \<and>
     (case GetFuncEnum h of
        PRI_CONFIRMED_USER_DATA \<Rightarrow> IsFcvDfcSet h \<and> 0 < payload_len h
      | PRI_UNCONFIRMED_USER_DATA \<Rightarrow> \<not> IsFcvDfcSet h \<and> 0 < payload_len h
      | PRI_TEST_LINK_STATES \<Rightarrow> IsFcvDfcSet h \<and> payload_len h = 0
      | PRI_RESET_LINK_STATES \<Rightarrow> \<not> IsFcvDfcSet h \<and> payload_len h = 0
      | PRI_REQUEST_LINK_STATUS \<Rightarrow> \<not> IsFcvDfcSet h \<and> payload_len h = 0
      | LF_INVALID \<Rightarrow> False
      | _ \<Rightarrow> \<not> IsFcbSet h \<and> payload_len h = 0)"

definition frame_size :: "LinkHeader \<Rightarrow> nat" where
  "frame_size h = CalcFrameSize (payload_len h)"

text \<open>
  A frame is delivered exactly where ten bytes are a valid header and the following bytes are its
  payload with correct block CRCs; anywhere else the scan moves on by one byte.
\<close>

function deframe :: "u8 list \<Rightarrow> frame list" where
  "deframe bs =
     (if length bs < 10 then []
      else case LinkHeader_Read bs of
        None \<Rightarrow> []
      | Some h \<Rightarrow>
          if take 10 bs = header_bytes h \<and> valid_header h
          then if length bs < frame_size h then []
               else let d = strip_block_crcs (drop 10 bs) (payload_len h)
                    in if take (frame_size h) bs = frame_bytes h d
                       then (header_fields h, d) # deframe (drop (frame_size h) bs)
                       else deframe (tl bs)
          else deframe (tl bs))"
  by pat_completeness auto
termination
proof (relation "measure length")
  fix bs h d
  assume "\<not> length bs < 10"
  moreover have "10 \<le> frame_size h"
    by (simp add: frame_size_def CalcFrameSize_bounds)
  ultimately show "(drop (frame_size h) bs, bs) \<in> measure length"
    by simp
qed auto

declare deframe.simps [simp del]

definition header_at :: "u8 list \<Rightarrow> LinkHeader \<Rightarrow> bool" where
  "header_at bs h \<longleftrightarrow> 10 \<le> length bs \<and> take 10 bs = header_bytes h \<and> valid_header h"

lemma payload_len_le: "payload_len h \<le> 250"
  using unat_u8_less [of "hdr_length h"] unfolding payload_len_def by linarith

lemma frame_size_bounds: "10 \<le> frame_size h" "frame_size h \<le> 292"
  using CalcFrameSize_bounds [of "payload_len h"] payload_len_le [of h]
  by (simp_all add: frame_size_def LPDU_MAX_FRAME_SIZE_def)

lemma header_at_Read: "header_at bs h \<Longrightarrow> LinkHeader_Read bs = Some h"
proof -
  assume "header_at bs h"
  then have "bs = header_bytes h @ drop 10 bs"
    by (metis append_take_drop_id header_at_def)
  then show ?thesis
    using LinkHeader_Read_bytes by metis
qed

lemma header_at_append: "header_at bs h \<Longrightarrow> header_at (bs @ ext) h"
  by (simp add: header_at_def)

lemma deframe_short: "length bs < 10 \<Longrightarrow> deframe bs = []"
  by (simp add: deframe.simps)

lemma deframe_incomplete: "header_at bs h \<Longrightarrow> length bs < frame_size h \<Longrightarrow> deframe bs = []"
  using header_at_Read [of bs h] by (subst deframe.simps) (simp add: header_at_def)

lemma deframe_at:
  assumes "header_at bs h" and "frame_size h \<le> length bs"
    and "d = strip_block_crcs (drop 10 bs) (payload_len h)"
  shows "deframe bs =
    (if take (frame_size h) bs = frame_bytes h d
     then (header_fields h, d) # deframe (drop (frame_size h) bs) else deframe (tl bs))"
  using assms header_at_Read [OF assms(1)]
  by (subst deframe.simps) (simp add: header_at_def)

lemma deframe_skip:
  assumes "2 \<le> length bs" and "\<nexists>h. header_at bs h"
  shows "deframe bs = deframe (tl bs)"
proof (cases "length bs < 10")
  case True
  then show ?thesis by (simp add: deframe_short)
next
  case False
  then obtain h where "LinkHeader_Read bs = Some h"
    using LinkHeader_Read_defined [of bs] by auto
  moreover have "\<not> (take 10 bs = header_bytes h \<and> valid_header h)"
    using assms(2) False by (auto simp: header_at_def)
  ultimately show ?thesis
    using False by (subst deframe.simps) auto
qed

lemma header_at_sync: "header_at bs h \<Longrightarrow> take 2 bs = [0x05, 0x64]"
proof -
  assume "header_at bs h"
  then have "take 2 (take 10 bs) = take 2 (header_bytes h)"
    by (simp only: header_at_def)
  then show ?thesis
    by (simp add: header_bytes_def header_fields_bytes_def)
qed

lemma deframe_skip_many:
  assumes "\<forall>i<k. i + 2 \<le> length bs \<and> take 2 (drop i bs) \<noteq> [0x05, 0x64]"
  shows "deframe (bs @ ext) = deframe (drop k bs @ ext)"
  using assms
proof (induction k)
  case (Suc k)
  let ?b = "drop k bs"
  have k: "2 \<le> length ?b" "take 2 ?b \<noteq> [0x05, 0x64]"
    using Suc.prems by (auto dest: spec [of _ k])
  then have "take 2 (?b @ ext) \<noteq> [0x05, 0x64]" by simp
  then have "\<nexists>h. header_at (?b @ ext) h"
    using header_at_sync by blast
  then have "deframe (?b @ ext) = deframe (tl (?b @ ext))"
    using k by (intro deframe_skip) simp_all
  also have "tl (?b @ ext) = drop (Suc k) bs @ ext"
    using k by (cases ?b) (auto simp: drop_Suc drop_tl)
  finally show ?case
    using Suc by simp
qed simp

text \<open>A well-formed frame is delivered, whatever follows it.\<close>

lemma deframe_frame:
  assumes "valid_header h" and "length d = payload_len h"
  shows "deframe (frame_bytes h d @ rest) = (header_fields h, d) # deframe rest"
proof -
  have "header_at (frame_bytes h d @ rest) h"
    using assms by (simp add: header_at_def frame_bytes_def)
  moreover have "length (frame_bytes h d) = frame_size h"
    using assms by (simp add: frame_size_def)
  moreover have "d = strip_block_crcs (drop 10 (frame_bytes h d @ rest)) (payload_len h)"
    using strip_add_block_crcs [of d rest] assms by (simp add: frame_bytes_def)
  ultimately show ?thesis
    using deframe_at by simp
qed


section \<open>The header checks decide \<open>valid_header\<close>\<close>

lemma GetFuncEnum_PriToSec:
  assumes "GetFuncEnum h \<noteq> LF_INVALID"
  shows "IsPriToSec h \<longleftrightarrow> GetFuncEnum h \<in> {PRI_RESET_LINK_STATES, PRI_TEST_LINK_STATES,
    PRI_CONFIRMED_USER_DATA, PRI_UNCONFIRMED_USER_DATA, PRI_REQUEST_LINK_STATUS}"
proof -
  have "LinkFunctionToType (GetFuncEnum h) = hdr_ctrl h AND MASK_FUNC_OR_PRM"
    using assms by (auto simp: GetFuncEnum_def LinkFunctionFromType_def split: if_splits)
  moreover have "(c AND MASK_FUNC_OR_PRM) AND MASK_PRM = c AND MASK_PRM" for c
    by (simp add: ctrl_masks and.assoc)
  ultimately have "hdr_ctrl h AND MASK_PRM = LinkFunctionToType (GetFuncEnum h) AND MASK_PRM"
    by metis
  with assms show ?thesis
    by (cases "GetFuncEnum h") (simp_all add: IsPriToSec_def ctrl_masks)
qed

lemma unat_ucast_u8_u32: "unat (ucast (b :: u8) :: u32) = unat b"
  by transfer (simp add: take_bit_eq_mod)

lemma payload_len_u8:
  assumes "5 \<le> unat (hdr_length h)"
  shows "unat (hdr_length h - of_nat LPDU_MIN_LENGTH) = payload_len h"
    and "user_data_len h = payload_len h"
  using assms
  by (simp_all add: payload_len_def user_data_len_def LPDU_MIN_LENGTH_def unat_sub word_le_nat_alt
      unat_ucast_u8_u32)

lemma ValidateHeaderParameters_ok:
  "\<exists>p'. ValidateHeaderParameters p = (valid_header (p_header p), p') \<and>
     (valid_header (p_header p) \<longrightarrow> p' = p\<lparr>p_frameSize := frame_size (p_header p)\<rparr>)"
proof (cases "5 \<le> unat (hdr_length (p_header p))")
  case False
  then show ?thesis
    by (simp add: ValidateHeaderParameters_def ValidLength_def valid_header_def word_less_nat_alt)
next
  case True
  then have "ValidLength (p_header p)"
    by (simp add: ValidLength_def word_less_nat_alt)
  with True show ?thesis
    by (cases "GetFuncEnum (p_header p) = LF_INVALID"; cases "GetFuncEnum (p_header p)")
      (simp_all add: ValidateHeaderParameters_def ValidateFunctionCode_def GetFuncEnum_PriToSec
        valid_header_def payload_len_u8 frame_size_def Let_def split: if_splits)
qed

lemma IsCorrectCRC_header:
  assumes "take 10 bs = header_bytes h"
  shows "IsCorrectCRC bs LI_CRC = Some True"
proof -
  have "10 \<le> length bs"
    using arg_cong [OF assms, of length] by simp
  then have "take 8 bs = take 8 (take 10 bs)" "take 2 (drop 8 bs) = drop 8 (take 10 bs)"
    by (simp_all add: drop_take)
  then have "take 2 (drop 8 bs) = UInt16_bytes (CalcCrc (take 8 bs))"
    unfolding assms by (simp add: header_bytes_def)
  then show ?thesis
    using IsCorrectCRC_iff [of 8 bs] \<open>10 \<le> length bs\<close> by (simp add: LI_CRC_def)
qed

lemma Parser_ReadHeader_ok:
  assumes "10 \<le> length bs" and "bs = sb_ReadBuffer (p_buffer p)" and "take 2 bs = [0x05, 0x64]"
  shows "\<exists>ok p'. Parser_ReadHeader p = Some (ok, p') \<and> (ok \<longleftrightarrow> (\<exists>h. header_at bs h)) \<and>
    (ok \<longrightarrow> header_at bs (p_header p') \<and> p_frameSize p' = frame_size (p_header p'))"
proof -
  obtain h where h: "LinkHeader_Read bs = Some h"
    using LinkHeader_Read_defined assms by blast
  obtain c where c: "IsCorrectCRC bs LI_CRC = Some c"
    using IsCorrectCRC_defined [of 8 bs] assms by (auto simp: LI_CRC_def)
  obtain p' where p': "ValidateHeaderParameters (p\<lparr>p_header := h\<rparr>) = (valid_header h, p')"
      "valid_header h \<longrightarrow> p' = p\<lparr>p_header := h, p_frameSize := frame_size h\<rparr>"
    using ValidateHeaderParameters_ok [of "p\<lparr>p_header := h\<rparr>"] by auto
  have run: "Parser_ReadHeader p =
      Some (if c then (valid_header h, p') else (False, count_stat numHeaderCrcError_update (p\<lparr>p_header := h\<rparr>)))"
    using h c p' assms by (simp add: Parser_ReadHeader_def Let_def)
  have c_iff: "c \<longleftrightarrow> take 10 bs = header_bytes h"
    using LinkHeader_Read_exact [OF h assms(3,1)] IsCorrectCRC_header c by auto
  have "h' = h" if "header_at bs h'" for h'
    using header_at_Read [OF that] h by simp
  moreover have "header_at bs h \<longleftrightarrow> c \<and> valid_header h"
    using c_iff assms(1) by (simp add: header_at_def)
  ultimately have "(\<exists>h. header_at bs h) \<longleftrightarrow> c \<and> valid_header h"
    by metis
  with run p' c_iff assms(1) show ?thesis
    by (cases c; cases "valid_header h") (auto simp: header_at_def)
qed


section \<open>The machine refines the specification\<close>

abbreviation p_unread :: "LinkLayerParser \<Rightarrow> u8 list" where
  "p_unread p \<equiv> sb_ReadBuffer (p_buffer p)"

definition parser_inv :: "LinkLayerParser \<Rightarrow> bool" where
  "parser_inv p \<longleftrightarrow> sb_wf (p_buffer p) \<and> sb_size (p_buffer p) = LPDU_MAX_FRAME_SIZE \<and>
     (case p_state p of
        FindSync \<Rightarrow> True
      | ReadHeader \<Rightarrow> take 2 (p_unread p) = [0x05, 0x64]
      | ReadBody \<Rightarrow> header_at (p_unread p) (p_header p) \<and> p_frameSize p = frame_size (p_header p)
      | Complete \<Rightarrow> 10 \<le> p_frameSize p \<and> p_frameSize p \<le> NumBytesRead (p_buffer p) \<and>
          p_userData p \<le> LPDU_MAX_FRAME_SIZE)"

text \<open>The frames that the state and the unread bytes, continued by \<open>ext\<close>, stand for.\<close>

definition parser_frames :: "LinkLayerParser \<Rightarrow> u8 list \<Rightarrow> frame list" where
  "parser_frames p ext =
     (if p_state p = Complete
      then (header_fields (p_header p), take (p_userData p) (sb_mem (p_buffer p)))
             # deframe (drop (p_frameSize p) (p_unread p) @ ext)
      else deframe (p_unread p @ ext))"

text \<open>A parser that can make no further step without more bytes.\<close>

definition quiescent :: "LinkLayerParser \<Rightarrow> bool" where
  "quiescent p \<longleftrightarrow> (case p_state p of
       ReadBody \<Rightarrow> NumBytesRead (p_buffer p) < p_frameSize p
     | Complete \<Rightarrow> True
     | _ \<Rightarrow> NumBytesRead (p_buffer p) < 10)"

definition step_ok :: "LinkLayerParser \<Rightarrow> ParserState \<Rightarrow> LinkLayerParser \<Rightarrow> bool" where
  "step_ok p s p' \<longleftrightarrow> parser_inv (p'\<lparr>p_state := s\<rparr>) \<and>
     (\<forall>ext. parser_frames (p'\<lparr>p_state := s\<rparr>) ext = parser_frames p ext) \<and>
     (s = p_state p \<longrightarrow> quiescent (p'\<lparr>p_state := s\<rparr>))"

lemma FailFrame_ok:
  assumes "sb_wf (p_buffer p)" and "0 < NumBytesRead (p_buffer p)"
  shows "\<exists>p'. FailFrame p = Some p' \<and> sb_wf (p_buffer p') \<and>
    sb_size (p_buffer p') = sb_size (p_buffer p) \<and> p_unread p' = tl (p_unread p)"
  using sb_AdvanceRead_ok [OF assms(1), of 1] assms(2)
  by (auto simp: FailFrame_def drop_Suc)

lemma ParseSync_ok:
  assumes "parser_inv p" and "p_state p = FindSync"
  shows "\<exists>s p'. ParseSync p = Some (s, p') \<and> step_ok p s p'"
proof (cases "10 \<le> NumBytesRead (p_buffer p)")
  case False
  with assms show ?thesis
    by (simp add: ParseSync_def step_ok_def quiescent_def parser_inv_def parser_frames_def)
next
  case True
  have wf: "sb_wf (p_buffer p)"
    using assms by (simp add: parser_inv_def)
  from sb_Sync_ok [OF this, of 0] obtain k where k: "k \<le> NumBytesRead (p_buffer p)"
    "sb_Sync (p_buffer p) 0 = Some (take 2 (drop k (p_unread p)) = [0x05, 0x64], k,
       p_buffer p\<lparr>sb_readPos := sb_readPos (p_buffer p) + k\<rparr>)"
    "\<forall>i<k. i + 2 \<le> NumBytesRead (p_buffer p) \<and> take 2 (drop i (p_unread p)) \<noteq> [0x05, 0x64]"
    "take 2 (drop k (p_unread p)) \<noteq> [0x05, 0x64] \<longrightarrow> NumBytesRead (p_buffer p) \<le> k + 1"
    by auto
  have "deframe (p_unread p @ ext) = deframe (drop k (p_unread p) @ ext)" for ext
    using k(3) wf by (intro deframe_skip_many) simp
  then show ?thesis
    using True assms k sb_AdvanceRead_ok(2-) [OF wf k(1)]
    by (auto simp: ParseSync_def step_ok_def quiescent_def parser_inv_def parser_frames_def)
qed

lemma ParseHeader_ok:
  assumes "parser_inv p" and "p_state p = ReadHeader"
  shows "\<exists>s p'. ParseHeader p = Some (s, p') \<and> step_ok p s p'"
proof (cases "10 \<le> NumBytesRead (p_buffer p)")
  case False
  with assms show ?thesis
    by (simp add: ParseHeader_def step_ok_def quiescent_def parser_inv_def parser_frames_def)
next
  case True
  have wf: "sb_wf (p_buffer p)" "take 2 (p_unread p) = [0x05, 0x64]"
    using assms by (simp_all add: parser_inv_def)
  obtain ok p1 where ok: "Parser_ReadHeader p = Some (ok, p1)" "ok \<longleftrightarrow> (\<exists>h. header_at (p_unread p) h)"
      "ok \<longrightarrow> header_at (p_unread p) (p_header p1) \<and> p_frameSize p1 = frame_size (p_header p1)"
    using Parser_ReadHeader_ok [OF _ refl wf(2)] True wf by auto
  note same = Parser_ReadHeader_frame [OF ok(1)]
  show ?thesis
  proof (cases ok)
    case True
    with ok same assms \<open>10 \<le> NumBytesRead (p_buffer p)\<close> show ?thesis
      by (simp add: ParseHeader_def step_ok_def parser_inv_def parser_frames_def)
  next
    case False
    obtain p2 where p2: "FailFrame p1 = Some p2" "sb_wf (p_buffer p2)"
        "sb_size (p_buffer p2) = sb_size (p_buffer p)" "p_unread p2 = tl (p_unread p)"
      using FailFrame_ok [of p1] same wf True by auto
    have "deframe (p_unread p @ ext) = deframe (tl (p_unread p) @ ext)" for ext
    proof -
      have "header_at (p_unread p @ ext) h \<Longrightarrow> header_at (p_unread p) h" for h
        using True wf by (simp add: header_at_def)
      with False ok(2) have "\<nexists>h. header_at (p_unread p @ ext) h" by blast
      then have "deframe (p_unread p @ ext) = deframe (tl (p_unread p @ ext))"
        using True wf by (intro deframe_skip) simp_all
      moreover have "p_unread p \<noteq> []" using wf(2) by auto
      ultimately show ?thesis by simp
    qed
    with False ok p2 assms True show ?thesis
      by (simp add: ParseHeader_def step_ok_def parser_inv_def parser_frames_def)
  qed
qed

lemma ParseBody_ok:
  assumes "parser_inv p" and "p_state p = ReadBody"
  shows "\<exists>s p'. ParseBody p = Some (s, p') \<and> step_ok p s p'"
proof (cases "NumBytesRead (p_buffer p) < p_frameSize p")
  case True
  with assms show ?thesis
    by (simp add: ParseBody_def step_ok_def quiescent_def parser_inv_def parser_frames_def)
next
  case False
  define h where "h = p_header p"
  define b where "b = p_buffer p"
  define u where "u = p_unread p"
  define n where "n = payload_len h"
  define d where "d = strip_block_crcs (drop 10 u) n"
  have inv: "sb_wf b" "sb_size b = 292" "header_at u h" "p_frameSize p = frame_size h"
      "frame_size h \<le> length u" "length u = NumBytesRead b"
    using assms False by (simp_all add: parser_inv_def b_def u_def h_def LPDU_MAX_FRAME_SIZE_def)
  have len: "user_data_len h = n" "frame_size h = 10 + CalcUserDataSize n" "n \<le> 250"
    using inv payload_len_u8(2) [of h] payload_len_le
    by (auto simp: header_at_def valid_header_def n_def frame_size_def CalcFrameSize_def LPDU_HEADER_SIZE_def)
  have ub: "sb_ReadBuffer b = u"
    by (simp add: u_def b_def)
  have fits: "CalcUserDataSize n \<le> length (drop 10 u)"
    using inv len by simp
  have body: "ValidateBodyCRC (drop 10 u) n = Some (take (CalcUserDataSize n) (drop 10 u) = add_block_crcs d)"
    using ValidateBodyCRC_iff [OF fits] by (simp add: d_def)
  have good: "take (CalcUserDataSize n) (drop 10 u) = add_block_crcs d \<longleftrightarrow> take (frame_size h) u = frame_bytes h d"
    using inv(3) by (simp add: len(2) take_add header_at_def frame_bytes_def)
  have spec: "deframe (u @ ext) = (if take (frame_size h) u = frame_bytes h d
      then (header_fields h, d) # deframe (drop (frame_size h) u @ ext) else deframe (tl u @ ext))" for ext
  proof -
    have "d = strip_block_crcs (drop 10 (u @ ext)) (payload_len h)"
      using strip_block_crcs_append [OF fits] inv(5) len by (simp add: d_def n_def)
    moreover have "u \<noteq> []" using inv(3) by (auto simp: header_at_def)
    ultimately show ?thesis
      using deframe_at [OF header_at_append [OF inv(3)], of ext d] inv(5) by simp
  qed
  show ?thesis
  proof (cases "take (frame_size h) u = frame_bytes h d")
    case True
    define m where "m = list_store (sb_mem b) 0 d"
    have "length d = n"
      using fits by (simp add: d_def)
    have pos: "sb_readPos b + 10 + CalcUserDataSize n \<le> length (sb_mem b)"
      using inv len unfolding sb_wf_def NumBytesRead_def by linarith
    have "u = take (length u) (drop (sb_readPos b) (sb_mem b))"
      using inv(6) by (simp add: u_def b_def sb_ReadBuffer_def)
    then obtain r where "drop (sb_readPos b) (sb_mem b) = u @ r"
      by (metis append_take_drop_id)
    then have "drop 10 (drop (sb_readPos b) (sb_mem b)) = drop 10 u @ r"
      using inv(3) by (simp add: header_at_def)
    then have "d = strip_block_crcs (drop (sb_readPos b + 10) (sb_mem b)) n"
      using strip_block_crcs_append [OF fits, of r] by (simp add: d_def add.commute)
    then have rd: "ReadUserData (sb_mem b) (sb_readPos b + LPDU_HEADER_SIZE) 0 n = Some m"
      using ReadUserData_in_place [of 0 "sb_readPos b + 10" n "sb_mem b"] pos
      by (simp add: m_def LPDU_HEADER_SIZE_def)
    have m: "take n m = d" "length m = length (sb_mem b)"
      using pos \<open>length d = n\<close> CalcUserDataSize_ge [of n] by (simp_all add: m_def list_store_def)
    have "n \<le> sb_readPos b + frame_size h"
      using CalcUserDataSize_ge [of n] len by simp
    then have "drop (sb_readPos b + frame_size h) m = drop (sb_readPos b + frame_size h) (sb_mem b)"
      using \<open>length d = n\<close> by (simp add: m_def list_store_def)
    then have rest: "drop (frame_size h) (sb_ReadBuffer (b\<lparr>sb_mem := m\<rparr>)) = drop (frame_size h) u"
      by (simp add: u_def b_def [symmetric] sb_ReadBuffer_def NumBytesRead_def drop_take add.commute)
    have "ParseBody p = Some (Complete, p\<lparr>p_buffer := b\<lparr>sb_mem := m\<rparr>, p_userData := n\<rparr>)"
      using False inv body good True len rd
      by (simp add: ParseBody_def ValidateBody_def TransferUserData_def Let_def LPDU_HEADER_SIZE_def ub
          flip: b_def h_def)
    moreover have "sb_wf (b\<lparr>sb_mem := m\<rparr>)"
      using inv(1) m(2) by (simp add: sb_wf_def)
    moreover have "NumBytesRead (b\<lparr>sb_mem := m\<rparr>) = NumBytesRead b"
      by (simp add: NumBytesRead_def)
    ultimately show ?thesis
      using inv m rest spec True len assms(2) frame_size_bounds [of h]
      by (simp add: step_ok_def parser_inv_def parser_frames_def quiescent_def LPDU_MAX_FRAME_SIZE_def ub
          flip: b_def h_def)
  next
    case bad: False
    let ?p = "count_stat numBodyCrcError_update p"
    obtain p2 where p2: "FailFrame ?p = Some p2" "sb_wf (p_buffer p2)"
        "sb_size (p_buffer p2) = sb_size b" "p_unread p2 = tl u"
      using FailFrame_ok [of ?p] inv frame_size_bounds [of h]
      by (auto simp: b_def u_def)
    moreover have "ParseBody p = Some (FindSync, p2)"
      using False inv body good bad len p2
      by (simp add: ParseBody_def ValidateBody_def LPDU_HEADER_SIZE_def ub flip: b_def h_def)
    ultimately show ?thesis
      using inv spec bad assms(2)
      by (simp add: step_ok_def parser_inv_def parser_frames_def LPDU_MAX_FRAME_SIZE_def ub
          flip: b_def h_def)
  qed
qed

lemma ParseOneStep_ok:
  assumes "parser_inv p"
  shows "\<exists>s p'. ParseOneStep p = Some (s, p') \<and> step_ok p s p'"
proof (cases "p_state p")
  case Complete
  then have "p\<lparr>p_state := Complete\<rparr> = p" by (cases p) simp
  with assms have "step_ok p Complete p"
    by (simp add: step_ok_def quiescent_def)
  with Complete show ?thesis
    by (simp add: ParseOneStep_def)
qed (use assms ParseSync_ok ParseHeader_ok ParseBody_ok in \<open>simp_all add: ParseOneStep_def\<close>)

lemma ParseUntilComplete_ok:
  assumes "parser_inv p"
  shows "\<exists>p'. ParseUntilComplete p = Some (p_state p', p') \<and> parser_inv p' \<and> quiescent p' \<and>
    (\<forall>ext. parser_frames p' ext = parser_frames p ext)"
  using assms
proof (induction p rule: ParseUntilComplete.induct)
  case (1 p)
  then obtain s p' where step: "ParseOneStep p = Some (s, p')" "step_ok p s p'"
    using ParseOneStep_ok by blast
  show ?case
  proof (cases "s = p_state p")
    case True
    with step show ?thesis
      by (subst ParseUntilComplete.simps) (simp add: Let_def step_ok_def)
  next
    case False
    have "\<exists>q. ParseUntilComplete (p'\<lparr>p_state := s\<rparr>) = Some (p_state q, q) \<and> parser_inv q \<and> quiescent q \<and>
        (\<forall>ext. parser_frames q ext = parser_frames (p'\<lparr>p_state := s\<rparr>) ext)"
      using 1(1) [OF refl step(1) refl refl False] step(2) by (simp add: step_ok_def)
    with False step show ?thesis
      by (subst ParseUntilComplete.simps) (simp add: Let_def step_ok_def)
  qed
qed

lemma ParseUntilComplete_frame:
  "ParseUntilComplete p = Some (s, p') \<Longrightarrow>
     NumBytesRead (p_buffer p') \<le> NumBytesRead (p_buffer p) \<and>
     numLinkFrameRx (p_statistics p') = numLinkFrameRx (p_statistics p)"
proof (induction p arbitrary: s p' rule: ParseUntilComplete.induct)
  case (1 p)
  from 1(2) obtain t q where step: "ParseOneStep p = Some (t, q)"
    by (subst (asm) ParseUntilComplete.simps) (auto simp: bind_eq_Some_conv)
  note frame = ParseOneStep_frame [OF step]
  have run: "(if t \<noteq> p_state p then ParseUntilComplete (q\<lparr>p_state := t\<rparr>) else Some (t, q\<lparr>p_state := t\<rparr>))
      = Some (s, p')"
    using 1(2) step by (subst (asm) ParseUntilComplete.simps) (simp add: Let_def)
  show ?case
  proof (cases "t = p_state p")
    case True
    with run frame show ?thesis by auto
  next
    case False
    with run have "ParseUntilComplete (q\<lparr>p_state := t\<rparr>) = Some (s, p')" by simp
    from 1(1) [OF refl step refl refl False this] frame show ?thesis by simp
  qed
qed

text \<open>The payload is read before anything is written, and the read position moves past the frame.\<close>

lemma PushFrame_ok:
  assumes "parser_inv p" and "p_state p = Complete"
  shows "\<exists>f p'. PushFrame p = Some (f, p') \<and> parser_inv (p'\<lparr>p_state := FindSync\<rparr>) \<and>
    (\<forall>ext. parser_frames p ext = f # parser_frames (p'\<lparr>p_state := FindSync\<rparr>) ext) \<and>
    NumBytesRead (p_buffer p') < NumBytesRead (p_buffer p) \<and> p_statistics p' = p_statistics p"
proof -
  have inv: "sb_wf (p_buffer p)" "sb_size (p_buffer p) = 292" "10 \<le> p_frameSize p"
      "p_frameSize p \<le> NumBytesRead (p_buffer p)" "p_userData p \<le> 292"
    using assms by (simp_all add: parser_inv_def LPDU_MAX_FRAME_SIZE_def)
  with assms sb_AdvanceRead_ok [OF inv(1,4)] show ?thesis
    by (simp add: PushFrame_def mem_read_def sb_wf_def parser_inv_def parser_frames_def
        LPDU_MAX_FRAME_SIZE_def)
qed

lemma parser_frames_count_stat [simp]:
  "parser_frames (count_stat upd p) ext = parser_frames p ext"
  "parser_inv (count_stat upd p) = parser_inv p"
  by (simp_all add: parser_frames_def parser_inv_def split: ParserState.splits)

lemma OnRead_loop_ok:
  assumes "parser_inv p"
  shows "\<exists>p' fs. OnRead_loop p out = Some (p', out @ fs) \<and> parser_inv p' \<and> quiescent p' \<and>
    p_state p' \<noteq> Complete \<and> (\<forall>ext. parser_frames p ext = fs @ parser_frames p' ext) \<and>
    numLinkFrameRx (p_statistics p') = numLinkFrameRx (p_statistics p) + of_nat (length fs)"
  using assms
proof (induction "NumBytesRead (p_buffer p)" arbitrary: p out rule: less_induct)
  case less
  obtain q where q: "ParseUntilComplete p = Some (p_state q, q)" "parser_inv q" "quiescent q"
      "\<And>ext. parser_frames p ext = parser_frames q ext"
    using ParseUntilComplete_ok [OF less.prems] by metis
  note frame = ParseUntilComplete_frame [OF q(1)]
  show ?case
  proof (cases "p_state q = Complete")
    case False
    with q frame show ?thesis
      by (subst OnRead_loop.simps) simp
  next
    case True
    define c where "c = count_stat numLinkFrameRx_update q"
    have c: "parser_inv c" "p_state c = Complete"
      using q True by (simp_all add: c_def)
    obtain f r where r: "PushFrame c = Some (f, r)" "parser_inv (r\<lparr>p_state := FindSync\<rparr>)"
        "\<And>ext. parser_frames c ext = f # parser_frames (r\<lparr>p_state := FindSync\<rparr>) ext"
        "NumBytesRead (p_buffer r) < NumBytesRead (p_buffer c)" "p_statistics r = p_statistics c"
      using PushFrame_ok [OF c] by metis
    have "NumBytesRead (p_buffer (r\<lparr>p_state := FindSync\<rparr>)) < NumBytesRead (p_buffer p)"
      using r(4) frame by (simp add: c_def)
    from less.hyps [OF this r(2), of "out @ [f]"] obtain p' fs where
      IH: "OnRead_loop (r\<lparr>p_state := FindSync\<rparr>) (out @ [f]) = Some (p', (out @ [f]) @ fs)"
      "parser_inv p'" "quiescent p'" "p_state p' \<noteq> Complete"
      "\<And>ext. parser_frames (r\<lparr>p_state := FindSync\<rparr>) ext = fs @ parser_frames p' ext"
      "numLinkFrameRx (p_statistics p') = numLinkFrameRx (p_statistics r) + of_nat (length fs)"
      by auto
    have "OnRead_loop p out = Some (p', out @ (f # fs))"
      using True q(1) r(1) IH(1) by (subst OnRead_loop.simps) (simp add: Let_def flip: c_def)
    moreover have "numLinkFrameRx (p_statistics p') =
        numLinkFrameRx (p_statistics p) + of_nat (length (f # fs))"
      using IH(6) r(5) frame by (simp add: c_def)
    moreover have "parser_frames p ext = (f # fs) @ parser_frames p' ext" for ext
      using q(4) r(3) IH(5) by (simp add: c_def)
    ultimately show ?thesis
      using IH(2-4) by blast
  qed
qed


section \<open>Reads of the channel\<close>

lemma sync_append: "take 2 u = [a, b] \<Longrightarrow> take 2 (u @ v) = [a, b]"
  by (cases u; cases "tl u") auto

text \<open>Between reads the parser is shifted, has no complete frame and has room for more bytes.\<close>

definition parser_ready :: "LinkLayerParser \<Rightarrow> bool" where
  "parser_ready p \<longleftrightarrow> parser_inv p \<and> p_state p \<noteq> Complete \<and> quiescent p"

lemma parser_ready_init [simp]:
  "length mem = LPDU_MAX_FRAME_SIZE \<Longrightarrow> parser_ready (LinkLayerParser_init mem)"
  by (simp add: parser_ready_def parser_inv_def quiescent_def LinkLayerParser_init_def
      NumBytesRead_def sb_init_def sb_wf_def)

lemma parser_ready_Reset: "parser_ready p \<Longrightarrow> parser_ready (Parser_Reset p)"
  by (simp add: parser_ready_def parser_inv_def quiescent_def Parser_Reset_def
      NumBytesRead_def sb_Reset_def sb_wf_def)

lemma NumWriteBytes_init: "NumWriteBytes (p_buffer (LinkLayerParser_init mem)) = LPDU_MAX_FRAME_SIZE"
  by (simp add: LinkLayerParser_init_def sb_init_def NumWriteBytes_def)

lemma parser_frames_init [simp]: "parser_frames (LinkLayerParser_init mem) ext = deframe ext"
  by (simp add: parser_frames_def LinkLayerParser_init_def)

lemma parser_ready_room:
  assumes "parser_ready p"
  shows "NumBytesRead (p_buffer p) < LPDU_MAX_FRAME_SIZE" and "parser_frames p [] = []"
  using assms frame_size_bounds [of "p_header p"]
  by (auto simp: parser_ready_def parser_inv_def quiescent_def parser_frames_def LPDU_MAX_FRAME_SIZE_def
      split: ParserState.splits intro: deframe_short deframe_incomplete)

lemma Parser_Receive_ok:
  assumes "parser_ready p" and "length bytes \<le> NumWriteBytes (p_buffer p)"
  shows "\<exists>p' fs. Parser_Receive bytes p = Some (p', fs) \<and> parser_ready p' \<and>
    0 < NumWriteBytes (p_buffer p') \<and>
    (\<forall>ext. parser_frames p (bytes @ ext) = fs @ parser_frames p' ext) \<and>
    numLinkFrameRx (p_statistics p') = numLinkFrameRx (p_statistics p) + of_nat (length fs)"
proof -
  have inv: "parser_inv p" "sb_wf (p_buffer p)" "p_state p \<noteq> Complete"
    using assms(1) by (auto simp: parser_ready_def parser_inv_def)
  obtain b c where b: "sb_fill bytes (p_buffer p) = Some b" "sb_AdvanceWrite (length bytes) b = Some c"
      "sb_wf c" "sb_size c = sb_size (p_buffer p)" "sb_ReadBuffer c = p_unread p @ bytes"
    using sb_fill_advance [OF inv(2) assms(2)] by blast
  define q where "q = p\<lparr>p_buffer := c\<rparr>"
  have "parser_inv q"
    using inv b by (auto simp: parser_inv_def q_def header_at_append sync_append simp del: take_append
        split: ParserState.splits)
  moreover have frames: "parser_frames q ext = parser_frames p (bytes @ ext)" for ext
    using inv(3) b(5) by (simp add: parser_frames_def q_def)
  ultimately obtain r fs where r: "OnRead_loop q [] = Some (r, fs)" "parser_inv r" "quiescent r"
      "p_state r \<noteq> Complete" "\<And>ext. parser_frames p (bytes @ ext) = fs @ parser_frames r ext"
      "numLinkFrameRx (p_statistics r) = numLinkFrameRx (p_statistics p) + of_nat (length fs)"
    using OnRead_loop_ok [of q "[]"] by (auto simp: q_def)
  have "sb_wf (p_buffer r)" using r(2) by (simp add: parser_inv_def)
  from sb_Shift_ok [OF this] obtain s where s: "sb_Shift (p_buffer r) = Some s" "sb_wf s"
      "sb_size s = sb_size (p_buffer r)" "sb_ReadBuffer s = p_unread r"
      "NumWriteBytes s = sb_size (p_buffer r) - NumBytesRead (p_buffer r)"
      "NumBytesRead s = NumBytesRead (p_buffer r)"
    by blast
  have ready: "parser_ready (r\<lparr>p_buffer := s\<rparr>)"
    using r(2-4) s by (auto simp: parser_ready_def parser_inv_def quiescent_def split: ParserState.splits)
  moreover have "0 < NumWriteBytes s"
    using parser_ready_room(1) [OF ready] s r(2) by (simp add: parser_inv_def)
  moreover have "Parser_Receive bytes p = Some (r\<lparr>p_buffer := s\<rparr>, fs)"
    using b r(1) s(1) by (simp add: Parser_Receive_def Parser_OnRead_def flip: q_def)
  moreover have "parser_frames (r\<lparr>p_buffer := s\<rparr>) ext = parser_frames r ext" for ext
    using r(4) s(4) by (simp add: parser_frames_def)
  ultimately show ?thesis
    using r(5,6) by simp
qed

fun Parser_Receive_all :: "u8 list list \<Rightarrow> LinkLayerParser \<Rightarrow> (LinkLayerParser \<times> frame list) option" where
  "Parser_Receive_all [] p = Some (p, [])"
| "Parser_Receive_all (c # cs) p = do {
     (p, fs) \<leftarrow> Parser_Receive c p;
     (p, gs) \<leftarrow> Parser_Receive_all cs p;
     Some (p, fs @ gs) }"

lemma Parser_Receive_too_long:
  "NumWriteBytes (p_buffer p) < length bytes \<Longrightarrow> Parser_Receive bytes p = None"
  by (simp add: Parser_Receive_def sb_fill_def wslice_store_def sb_WriteBuff_def)

lemma Parser_Receive_all_frames:
  assumes "parser_ready p" and "Parser_Receive_all cs p = Some (p', fs)"
  shows "parser_ready p' \<and> (\<forall>ext. parser_frames p (concat cs @ ext) = fs @ parser_frames p' ext)"
  using assms
proof (induction cs arbitrary: p fs)
  case (Cons c cs)
  from Cons.prems(2) obtain q gs hs where q: "Parser_Receive c p = Some (q, gs)"
      "Parser_Receive_all cs q = Some (p', hs)" "fs = gs @ hs"
    by (auto simp: bind_eq_Some_conv)
  then have "length c \<le> NumWriteBytes (p_buffer p)"
    using Parser_Receive_too_long [of p c] by fastforce
  from Parser_Receive_ok [OF Cons.prems(1) this] q(1)
  have "parser_ready q" "\<And>ext. parser_frames p (c @ ext) = gs @ parser_frames q ext" by auto
  with Cons.IH [OF this(1) q(2)] q(3) show ?case by simp
qed simp

lemma Parser_Receive_bytewise:
  "parser_ready p \<Longrightarrow> 0 < NumWriteBytes (p_buffer p) \<Longrightarrow>
   \<exists>p' fs. Parser_Receive_all (map (\<lambda>b. [b]) bs) p = Some (p', fs)"
proof (induction bs arbitrary: p)
  case (Cons b bs)
  with Parser_Receive_ok [of p "[b]"] obtain q gs where
    "Parser_Receive [b] p = Some (q, gs)" "parser_ready q" "0 < NumWriteBytes (p_buffer q)" by auto
  with Cons.IH [of q] show ?case by auto
qed simp


lemma deframe_cases:
  obtains (none) "deframe bs = []"
  | (skip) "bs \<noteq> []" "deframe bs = deframe (tl bs)"
  | (frame) h d where "bs = frame_bytes h d @ drop (frame_size h) bs" "valid_header h"
      "length d = payload_len h" "deframe bs = (header_fields h, d) # deframe (drop (frame_size h) bs)"
proof (cases "\<exists>h. header_at bs h \<and> frame_size h \<le> length bs")
  case False
  then consider "length bs < 10" | "10 \<le> length bs" "\<nexists>h. header_at bs h"
    | h where "header_at bs h" "length bs < frame_size h"
    by (meson not_le)
  then show thesis
  proof cases
    case 2
    then have "deframe bs = deframe (tl bs)" by (intro deframe_skip) simp_all
    moreover have "bs \<noteq> []" using 2 by auto
    ultimately show thesis by (intro skip)
  qed (use deframe_short deframe_incomplete in \<open>auto intro: none\<close>)
next
  case True
  then obtain h where h: "header_at bs h" "frame_size h \<le> length bs" by blast
  define d where "d = strip_block_crcs (drop 10 bs) (payload_len h)"
  show thesis
  proof (cases "take (frame_size h) bs = frame_bytes h d")
    case True
    have "length d = payload_len h"
      using h by (simp add: d_def frame_size_def CalcFrameSize_def LPDU_HEADER_SIZE_def)
    with True deframe_at [OF h d_def] h show thesis
      by (intro frame [of h d]) (simp_all add: header_at_def flip: True)
  next
    case False
    moreover have "bs \<noteq> []" using h by (auto simp: header_at_def)
    ultimately show thesis
      using deframe_at [OF h d_def] by (intro skip) simp_all
  qed
qed

text \<open>A stream consists of its frames, with other bytes between and after them.\<close>

lemma deframe_parts:
  "\<exists>parts post. bs = concat (map (\<lambda>(garbage, h, data). garbage @ frame_bytes h data) parts) @ post \<and>
    deframe bs = map (\<lambda>(garbage, h, data). (header_fields h, data)) parts \<and>
    (\<forall>(garbage, h, data) \<in> set parts. valid_header h \<and> length data = payload_len h)"
proof (induction bs rule: length_induct)
  case (1 bs)
  show ?case
  proof (cases bs rule: deframe_cases)
    case none
    then show ?thesis
      by (intro exI [of _ "[]"] exI [of _ bs]) simp
  next
    case skip
    then obtain parts post where parts: "tl bs = concat (map (\<lambda>(garbage, h, data). garbage @ frame_bytes h data) parts) @ post"
        "deframe (tl bs) = map (\<lambda>(garbage, h, data). (header_fields h, data)) parts"
        "\<forall>(garbage, h, data) \<in> set parts. valid_header h \<and> length data = payload_len h"
      using 1 [THEN spec, of "tl bs"] by auto
    have bs: "bs = hd bs # tl bs"
      using skip(1) by simp
    show ?thesis
    proof (cases parts)
      case Nil
      then show ?thesis
        using parts skip(2) by (intro exI [of _ "[]"] exI [of _ bs]) simp
    next
      case (Cons a ps)
      obtain g h d where "a = (g, h, d)"
        by (cases a)
      moreover from this have "hd bs # tl bs = concat (map (\<lambda>(garbage, h, data). garbage @ frame_bytes h data) ((hd bs # g, h, d) # ps)) @ post"
        unfolding parts(1) Cons by simp
      ultimately show ?thesis
        using parts(2,3) bs skip(2) Cons by (intro exI [of _ "(hd bs # g, h, d) # ps"] exI [of _ post]) auto
    qed
  next
    case (frame h d)
    have "length (drop (frame_size h) bs) < length bs"
      using arg_cong [OF frame(1), of length] frame_size_bounds(1) [of h] frame(3)
      by (simp add: frame_size_def)
    then obtain parts post where parts: "drop (frame_size h) bs = concat (map (\<lambda>(garbage, h, data). garbage @ frame_bytes h data) parts) @ post"
        "deframe (drop (frame_size h) bs) = map (\<lambda>(garbage, h, data). (header_fields h, data)) parts"
        "\<forall>(garbage, h, data) \<in> set parts. valid_header h \<and> length data = payload_len h"
      using 1 by blast
    have "bs = frame_bytes h d @ drop (frame_size h) bs"
      by (rule frame(1))
    then have "bs = frame_bytes h d @ concat (map (\<lambda>(garbage, h, data). garbage @ frame_bytes h data) parts) @ post"
      by (simp only: parts(1))
    then show ?thesis
      using frame parts(2,3) by (intro exI [of _ "([], h, d) # parts"] exI [of _ post]) simp
  qed
qed

section \<open>Properties\<close>

lemma Parser_Receive_all_stream:
  assumes "length rxBuffer = LPDU_MAX_FRAME_SIZE"
    and "Parser_Receive_all reads (LinkLayerParser_init rxBuffer) = Some (p, frames)"
  shows "frames = deframe (concat reads)"
proof -
  have "parser_ready p \<and> (\<forall>ext. deframe (concat reads @ ext) = frames @ parser_frames p ext)"
    using Parser_Receive_all_frames [OF _ assms(2)] assms(1) by simp
  then show ?thesis
    using parser_ready_room(2) [of p] by (metis append_Nil2)
qed

text \<open>C7: However the received stream is cut into reads, the frames pushed to the sink are exactly
  the frames the stream contains according to \<open>deframe\<close>: no valid frame is lost, duplicated,
  reordered or invented, also after garbage and failed headers or bodies, and although the
  payload is extracted within the receive buffer itself.\<close>

theorem Parser_stream_frames:
  assumes "length rxBuffer = LPDU_MAX_FRAME_SIZE"
    and "Parser_Receive_all reads (LinkLayerParser_init rxBuffer) = Some (p, frames)"
  shows "frames = deframe (concat reads)"
  by (rule Parser_Receive_all_stream [OF assms])

definition demo_frame :: "u8 list" where
  "demo_frame = frame_bytes (frame_header 2 True False False PRI_UNCONFIRMED_USER_DATA 1024 1) [0xC0, 0x17]"

lemma demo_header: "valid_header (frame_header 2 True False False PRI_UNCONFIRMED_USER_DATA 1024 1)"
  "payload_len (frame_header 2 True False False PRI_UNCONFIRMED_USER_DATA 1024 1) = 2"
  by (simp_all add: valid_header_def frame_header_def payload_len_def)

theorem Parser_stream_frames_witness:
  "\<exists>p frames. Parser_Receive_all [0x05 # demo_frame] (LinkLayerParser_init (replicate 292 0)) = Some (p, frames) \<and>
     frames = deframe (0x05 # demo_frame)"
proof -
  let ?p = "LinkLayerParser_init (replicate 292 0)"
  have "parser_ready ?p"
    by (simp add: LPDU_MAX_FRAME_SIZE_def)
  moreover have "length (0x05 # demo_frame) \<le> NumWriteBytes (p_buffer ?p)"
    by (simp add: demo_frame_def NumWriteBytes_init CalcFrameSize_def CalcUserDataSize_def lpdu_sizes)
  ultimately obtain q fs where "Parser_Receive (0x05 # demo_frame) ?p = Some (q, fs)"
    using Parser_Receive_ok by blast
  then have run: "Parser_Receive_all [0x05 # demo_frame] ?p = Some (q, fs)"
    by simp
  have "fs = deframe (concat [0x05 # demo_frame])"
    by (rule Parser_stream_frames [OF _ run]) (simp add: LPDU_MAX_FRAME_SIZE_def)
  with run show ?thesis by simp
qed

text \<open>C26: A read that fits the write buffer is processed safely: every access stays inside the
  292-byte buffer, no assertion fails, the receive loop ends, the parser is ready for the
  next read with at least one free byte (it can never get stuck full), and the frame counter
  grows by the number of frames pushed.\<close>

theorem Parser_read_safe:
  assumes "parser_ready p" and "length bytes \<le> NumWriteBytes (p_buffer p)"
  shows "\<exists>p' frames. Parser_Receive bytes p = Some (p', frames) \<and> parser_ready p' \<and>
    0 < NumWriteBytes (p_buffer p') \<and>
    numLinkFrameRx (p_statistics p') = numLinkFrameRx (p_statistics p) + of_nat (length frames)"
  using Parser_Receive_ok [OF assms] by blast

theorem Parser_read_safe_witness:
  "\<exists>p' frames. Parser_Receive [0x05, 0x64, 0x05] (LinkLayerParser_init (replicate 292 0)) = Some (p', frames) \<and>
     parser_ready p' \<and> 0 < NumWriteBytes (p_buffer p')"
  using Parser_read_safe [of "LinkLayerParser_init (replicate 292 0)" "[0x05, 0x64, 0x05]"]
  by (auto simp: LPDU_MAX_FRAME_SIZE_def NumWriteBytes_init)

text \<open>C29: Every frame the parser delivers was received: the bytes that were read contain, one after the other and
  in the order of delivery, the frames that are delivered, each with a valid header with a correct CRC, followed by its
  payload in blocks with correct CRCs; the delivered fields are those of the header.\<close>

theorem received_frames_valid:
  assumes "length rxBuffer = LPDU_MAX_FRAME_SIZE"
    and "Parser_Receive_all reads (LinkLayerParser_init rxBuffer) = Some (p, frames)"
  shows "\<exists>parts post. concat reads = concat (map (\<lambda>(garbage, h, data). garbage @ frame_bytes h data) parts) @ post \<and>
    frames = map (\<lambda>(garbage, h, data). (header_fields h, data)) parts \<and>
    (\<forall>(garbage, h, data) \<in> set parts. valid_header h \<and> length data = payload_len h)"
  unfolding Parser_Receive_all_stream [OF assms] by (rule deframe_parts)

theorem received_frames_valid_witness:
  "\<exists>p frames parts post. Parser_Receive_all [demo_frame] (LinkLayerParser_init (replicate 292 0)) = Some (p, frames) \<and>
     map snd frames = [[0xC0, 0x17]] \<and> demo_frame = concat (map (\<lambda>(garbage, h, data). garbage @ frame_bytes h data) parts) @ post \<and>
     frames = map (\<lambda>(garbage, h, data). (header_fields h, data)) parts"
proof -
  let ?p = "LinkLayerParser_init (replicate 292 0)"
  have "length demo_frame \<le> NumWriteBytes (p_buffer ?p)"
    by (simp add: demo_frame_def NumWriteBytes_init CalcFrameSize_def CalcUserDataSize_def lpdu_sizes)
  then obtain q fs where "Parser_Receive demo_frame ?p = Some (q, fs)"
    using Parser_Receive_ok [of ?p demo_frame] by (auto simp: LPDU_MAX_FRAME_SIZE_def)
  then have run: "Parser_Receive_all [demo_frame] ?p = Some (q, fs)"
    by simp
  have "fs = deframe (concat [demo_frame])"
    by (rule Parser_Receive_all_stream [OF _ run]) (simp add: LPDU_MAX_FRAME_SIZE_def)
  then have "map snd fs = [[0xC0, 0x17]]"
    using deframe_frame [OF demo_header(1), of "[0xC0, 0x17]" "[]"] demo_header(2)
    by (simp add: demo_frame_def deframe_short)
  moreover obtain parts post where "concat [demo_frame] = concat (map (\<lambda>(garbage, h, data). garbage @ frame_bytes h data) parts) @ post"
      "fs = map (\<lambda>(garbage, h, data). (header_fields h, data)) parts"
    using received_frames_valid [OF _ run] by (auto simp: LPDU_MAX_FRAME_SIZE_def)
  ultimately show ?thesis
    using run by (intro exI [of _ q] exI [of _ fs] exI [of _ parts] exI [of _ post]) simp
qed

text \<open>C30: A transmitted frame that reaches the parser intact is received: whatever valid header
  and payload the frame formatter writes, the stream made of that frame and any following
  bytes yields exactly that header and payload, then the frames of the following bytes.\<close>

theorem format_then_deframe:
  assumes "0 < n" and "n \<le> LPDU_MAX_USER_DATA_SIZE" and "n \<le> length apData"
    and "wslice_wf buffer" and "CalcFrameSize n \<le> wsize buffer"
  shows "\<exists>frame buffer'.
    FormatUnconfirmedUserData buffer isMaster dest src apData n = Some (frame, buffer') \<and>
    deframe (frame @ rest) =
      (\<lparr>lf_func = PRI_UNCONFIRMED_USER_DATA, lf_isFromMaster = isMaster, lf_fcb = False,
        lf_fcvdfc = False, lf_dest = dest, lf_src = src\<rparr>, take n apData) # deframe rest"
proof -
  define h where "h = frame_header n isMaster False False PRI_UNCONFIRMED_USER_DATA dest src"
  from assms(4) obtain pre view post where w: "buffer = mkw pre view post"
    by (auto simp: wslice_wf_mkw)
  have n: "n \<le> 250" using assms(2) by (simp add: LPDU_MAX_USER_DATA_SIZE_def)
  then have "unat (of_nat (n + 5) :: u8) = n + 5"
    by (intro unat_of_nat_u8) simp
  then have h: "payload_len h = n" "valid_header h" "header_fields h =
      \<lparr>lf_func = PRI_UNCONFIRMED_USER_DATA, lf_isFromMaster = isMaster, lf_fcb = False,
        lf_fcvdfc = False, lf_dest = dest, lf_src = src\<rparr>"
    using assms(1)
    by (simp_all add: h_def frame_header_def payload_len_def valid_header_def header_fields_def)
  have "FormatUnconfirmedUserData buffer isMaster dest src apData n =
      Some (frame_bytes h (take n apData),
        mkw (pre @ frame_bytes h (take n apData)) (drop (CalcFrameSize n) view) post)"
    using FormatUnconfirmedUserData_mkw [OF assms(1) n assms(3), of view] assms(5)
    by (simp add: w h_def Let_def)
  moreover have "deframe (frame_bytes h (take n apData) @ rest) =
      (header_fields h, take n apData) # deframe rest"
    using h assms(3) by (intro deframe_frame) simp_all
  ultimately show ?thesis
    using h(3) by auto
qed

theorem format_then_deframe_witness:
  "\<exists>frame buffer'.
    FormatUnconfirmedUserData (GetWSlice (replicate 292 0)) True 1 2 [0xC0, 0xC1, 0x01] 3 = Some (frame, buffer') \<and>
    deframe (frame @ []) =
      (\<lparr>lf_func = PRI_UNCONFIRMED_USER_DATA, lf_isFromMaster = True, lf_fcb = False,
        lf_fcvdfc = False, lf_dest = 1, lf_src = 2\<rparr>, take 3 [0xC0, 0xC1, 0x01]) # deframe []"
  by (rule format_then_deframe)
    (simp_all add: lpdu_sizes GetWSlice_mkw CalcFrameSize_def CalcUserDataSize_def)

end
