(* ===== verification/Timing.thy ===== *)
theory Timing
  imports Prelude
begin

text \<open>
  Time and sequence numbers: \<open>openpal/executor\<close> (\<open>TimeDuration\<close>, \<open>MonotonicTimestamp\<close>,
  \<open>TimerRef\<close>) and \<open>openpal/util/SequenceNum.h\<close>. Milliseconds are mathematical integers; the
  64-bit bounds appear where the code tests them, in \<open>MonotonicTimestamp::Add\<close>.
\<close>

section \<open>Durations and timestamps\<close>

type_synonym TimeDuration = int
type_synonym MonotonicTimestamp = int

definition INT64_MAX :: int where
  "INT64_MAX = 9223372036854775807"

definition INT64_MIN :: int where
  "INT64_MIN = -9223372036854775808"

definition Seconds :: "int \<Rightarrow> TimeDuration" where
  "Seconds seconds = 1000 * seconds"

definition Minutes :: "int \<Rightarrow> TimeDuration" where
  "Minutes minutes = (1000 * 60) * minutes"

definition Hours :: "int \<Rightarrow> TimeDuration" where
  "Hours hours = (1000 * 60 * 60) * hours"

definition Days :: "int \<Rightarrow> TimeDuration" where
  "Days days = (1000 * 60 * 60 * 24) * days"

definition MonotonicTimestamp_Max :: MonotonicTimestamp where
  "MonotonicTimestamp_Max = INT64_MAX"

definition MonotonicTimestamp_IsMax :: "MonotonicTimestamp \<Rightarrow> bool" where
  "MonotonicTimestamp_IsMax t \<longleftrightarrow> t = INT64_MAX"

definition MonotonicTimestamp_Add :: "MonotonicTimestamp \<Rightarrow> TimeDuration \<Rightarrow> MonotonicTimestamp" where
  "MonotonicTimestamp_Add t duration =
     (let maximum = INT64_MAX - t
      in if duration \<ge> maximum then MonotonicTimestamp_Max else t + duration)"

lemma MonotonicTimestamp_Add_min:
  "MonotonicTimestamp_Add t d = min (t + d) INT64_MAX"
  by (auto simp: MonotonicTimestamp_Add_def MonotonicTimestamp_Max_def Let_def)

lemma MonotonicTimestamp_Add_le_Max: "MonotonicTimestamp_Add t d \<le> INT64_MAX"
  by (simp add: MonotonicTimestamp_Add_min)


section \<open>Timers\<close>

text \<open>
  \<open>TimerRef\<close> holds a pointer to an active timer or null. The model keeps the expiration of the
  active timer. \<open>Start\<close> refuses when a timer is active, \<open>Restart\<close> replaces it. When the
  executor fires a timer the wrapped action first clears the pointer (\<open>TimerRef_fire\<close>).
\<close>

type_synonym TimerRef = "MonotonicTimestamp option"

definition TimerRef_IsActive :: "TimerRef \<Rightarrow> bool" where
  "TimerRef_IsActive t \<longleftrightarrow> t \<noteq> None"

definition TimerRef_ExpiresAt :: "TimerRef \<Rightarrow> MonotonicTimestamp" where
  "TimerRef_ExpiresAt t = (case t of Some e \<Rightarrow> e | None \<Rightarrow> MonotonicTimestamp_Max)"

definition TimerRef_Cancel :: "TimerRef \<Rightarrow> bool \<times> TimerRef" where
  "TimerRef_Cancel t = (if t \<noteq> None then (True, None) else (False, t))"

definition TimerRef_Start :: "MonotonicTimestamp \<Rightarrow> TimerRef \<Rightarrow> bool \<times> TimerRef" where
  "TimerRef_Start expiration t = (if t \<noteq> None then (False, t) else (True, Some expiration))"

definition TimerRef_Restart :: "MonotonicTimestamp \<Rightarrow> TimerRef \<Rightarrow> TimerRef" where
  "TimerRef_Restart expiration t = Some expiration"

definition TimerRef_fire :: "TimerRef \<Rightarrow> TimerRef" where
  "TimerRef_fire t = None"

lemma TimerRef_Cancel_inactive [simp]: "snd (TimerRef_Cancel t) = None"
  by (simp add: TimerRef_Cancel_def)

lemma TimerRef_Start_active [simp]: "snd (TimerRef_Start e t) \<noteq> None"
  by (simp add: TimerRef_Start_def)

lemma TimerRef_Start_idle [simp]: "TimerRef_Start e None = (True, Some e)"
  by (simp add: TimerRef_Start_def)


section \<open>Sequence numbers\<close>

text \<open>\<open>SequenceNum<uint8_t, Modulus>\<close>; the increment happens in \<open>int\<close> arithmetic.\<close>

definition SequenceNum_Next :: "nat \<Rightarrow> u8 \<Rightarrow> u8" where
  "SequenceNum_Next Modulus seq = of_nat ((unat seq + 1) mod Modulus)"

lemma unat_SequenceNum_Next:
  "0 < m \<Longrightarrow> m \<le> 256 \<Longrightarrow> unat (SequenceNum_Next m s) = (unat s + 1) mod m"
  unfolding SequenceNum_Next_def
  by (rule unat_of_nat_u8) (meson less_le_trans mod_less_divisor)

lemma SequenceNum_Next_less:
  "0 < m \<Longrightarrow> m \<le> 256 \<Longrightarrow> unat (SequenceNum_Next m s) < m"
  by (simp add: unat_SequenceNum_Next)

lemma SequenceNum_Next_pow:
  assumes "0 < m" "m \<le> 256" "unat s < m"
  shows "unat ((SequenceNum_Next m ^^ n) s) = (unat s + n) mod m"
proof (induction n)
  case 0
  with assms show ?case by simp
next
  case (Suc n)
  with assms show ?case
    by (simp add: unat_SequenceNum_Next mod_Suc_eq)
qed

lemma SequenceNum_Next_neq:
  "1 < m \<Longrightarrow> m \<le> 256 \<Longrightarrow> unat s < m \<Longrightarrow> SequenceNum_Next m s \<noteq> s"
  by (metis Suc_eq_plus1 less_not_refl less_trans mod_Suc mod_less n_not_Suc_n
      unat_SequenceNum_Next zero_less_one zero_neq_one One_nat_def Suc_lessI zero_less_Suc)

end
