(* ===== verification/LinkContext.thy ===== *)
theory LinkContext
  imports LinkParser Timing
begin

text \<open>
  The DNP3 link layer session (\<open>link/LinkContext\<close>, \<open>link/PriLinkLayerStates\<close>,
  \<open>link/SecLinkLayerStates\<close>, \<open>link/LinkLayer\<close>): the shared context, the primary and the
  secondary station state machines, and the entry points that drive them.

  The state singletons become the constructors of \<open>PriState\<close> and \<open>SecState\<close>, a virtual
  method a case analysis that returns the next state. Calls into the physical layer, the
  listener and the upper layer append to \<open>lc_trace\<close>. A transmit buffer is memory of the
  context; a queued slice refers to it, and its bytes are read when the transmission begins.
  The transport segment is a parameter: the operations of \<open>ITransportSegment\<close> on a state
  type \<open>'s\<close>. While \<open>pSegments\<close> is set it carries the state of the object it points to; when
  the pointer is cleared that state stays in \<open>segment_object\<close>, since the object outlives it.
\<close>

section \<open>State\<close>

datatype LinkTransmitMode = TxIdle | TxPrimary | TxSecondary

datatype PriState =
    PLLS_Idle
  | PLLS_SendUnconfirmedTransmitWait
  | PLLS_LinkResetTransmitWait
  | PLLS_ConfUserDataTransmitWait
  | PLLS_RequestLinkStatusTransmitWait
  | PLLS_ResetLinkWait
  | PLLS_ConfDataWait
  | PLLS_RequestLinkStatusWait

datatype SecState =
    SLLS_NotReset
  | SLLS_Reset
  | SLLS_TransmitWaitReset
  | SLLS_TransmitWaitNotReset

datatype LinkStatus = UNRESET | RESET

record LinkStatistics =
  numUnexpectedFrame :: u32
  numBadMasterBit :: u32
  numUnknownDestination :: u32
  numUnknownSource :: u32

record LinkConfig =
  IsMaster :: bool
  UseConfirms :: bool
  NumRetry :: nat
  LocalAddr :: u16
  RemoteAddr :: u16
  RspTimeout :: TimeDuration
  KeepAliveTimeout :: TimeDuration
  respondToAnySource :: bool

text \<open>A slice of one of the two transmit buffers, from its start.\<close>

datatype tx_slice = PriSlice nat | SecSlice nat

datatype link_action =
    BeginTransmit "u8 list"
  | OnStateChange LinkStatus
  | OnKeepAliveInitiated
  | OnKeepAliveFailure
  | OnKeepAliveSuccess
  | OnUnknownDestinationAddress u16
  | OnUnknownSourceAddress u16
  | Upper_OnLowerLayerUp
  | Upper_OnLowerLayerDown
  | Upper_OnReceive Addresses "u8 list"
  | Post_OnTxReady

record 's segment_ops =
  GetSegment :: "'s \<Rightarrow> (rslice \<times> 's) option"
  SegAdvance :: "'s \<Rightarrow> (bool \<times> 's) option"
  GetAddresses :: "'s \<Rightarrow> Addresses"

record 's LinkContext =
  priTxBuffer :: "u8 list"
  secTxBuffer :: "u8 list"
  pendingPriTx :: "tx_slice option"
  pendingSecTx :: "tx_slice option"
  config :: LinkConfig
  pSegments :: "'s option"
  segment_object :: "'s option"
  txMode :: LinkTransmitMode
  numRetryRemaining :: nat
  executor_time :: MonotonicTimestamp
  rspTimeoutTimer :: TimerRef
  keepAliveTimer :: TimerRef
  nextReadFCB :: bool
  nextWriteFCB :: bool
  isOnline :: bool
  isRemoteReset :: bool
  keepAliveTimeout :: bool
  lastMessageTimestamp :: MonotonicTimestamp
  link_statistics :: LinkStatistics
  pPriState :: PriState
  pSecState :: SecState
  lc_trace :: "link_action list"

definition LinkContext_init ::
    "LinkConfig \<Rightarrow> MonotonicTimestamp \<Rightarrow> u8 list \<Rightarrow> u8 list \<Rightarrow> 's LinkContext" where
  "LinkContext_init cfg now pri sec =
     \<lparr>priTxBuffer = pri, secTxBuffer = sec, pendingPriTx = None, pendingSecTx = None, config = cfg,
      pSegments = None, segment_object = None, txMode = TxIdle, numRetryRemaining = 0, executor_time = now,
      rspTimeoutTimer = None, keepAliveTimer = None, nextReadFCB = False, nextWriteFCB = False,
      isOnline = False, isRemoteReset = False, keepAliveTimeout = False, lastMessageTimestamp = now,
      link_statistics = \<lparr>numUnexpectedFrame = 0, numBadMasterBit = 0, numUnknownDestination = 0,
        numUnknownSource = 0\<rparr>,
      pPriState = PLLS_Idle, pSecState = SLLS_NotReset, lc_trace = []\<rparr>"

definition emit :: "link_action \<Rightarrow> 's LinkContext \<Rightarrow> 's LinkContext" where
  "emit a ctx = ctx\<lparr>lc_trace := lc_trace ctx @ [a]\<rparr>"

definition unexpected_frame :: "'s LinkContext \<Rightarrow> 's LinkContext" where
  "unexpected_frame ctx =
     ctx\<lparr>link_statistics := link_statistics ctx\<lparr>
       numUnexpectedFrame := numUnexpectedFrame (link_statistics ctx) + 1\<rparr>\<rparr>"


section \<open>Context helpers\<close>

definition ResetReadFCB :: "'s LinkContext \<Rightarrow> 's LinkContext" where
  "ResetReadFCB ctx = ctx\<lparr>nextReadFCB := True\<rparr>"

definition ResetWriteFCB :: "'s LinkContext \<Rightarrow> 's LinkContext" where
  "ResetWriteFCB ctx = ctx\<lparr>nextWriteFCB := True\<rparr>"

definition ToggleReadFCB :: "'s LinkContext \<Rightarrow> 's LinkContext" where
  "ToggleReadFCB ctx = ctx\<lparr>nextReadFCB := \<not> nextReadFCB ctx\<rparr>"

definition ToggleWriteFCB :: "'s LinkContext \<Rightarrow> 's LinkContext" where
  "ToggleWriteFCB ctx = ctx\<lparr>nextWriteFCB := \<not> nextWriteFCB ctx\<rparr>"

definition slice_bytes :: "'s LinkContext \<Rightarrow> tx_slice \<Rightarrow> u8 list" where
  "slice_bytes ctx s = (case s of PriSlice n \<Rightarrow> take n (priTxBuffer ctx) | SecSlice n \<Rightarrow> take n (secTxBuffer ctx))"

definition QueueTransmit :: "tx_slice \<Rightarrow> bool \<Rightarrow> 's LinkContext \<Rightarrow> 's LinkContext" where
  "QueueTransmit buffer primary ctx =
     (if txMode ctx = TxIdle
      then emit (BeginTransmit (slice_bytes ctx buffer))
             (ctx\<lparr>txMode := if primary then TxPrimary else TxSecondary\<rparr>)
      else if primary then ctx\<lparr>pendingPriTx := Some buffer\<rparr>
      else ctx\<lparr>pendingSecTx := Some buffer\<rparr>)"

definition FormatPrimaryBufferWithConfirmed ::
    "Addresses \<Rightarrow> rslice \<Rightarrow> bool \<Rightarrow> 's LinkContext \<Rightarrow> (tx_slice \<times> 's LinkContext) option" where
  "FormatPrimaryBufferWithConfirmed addr tpdu FCB ctx = do {
     (output, dest) \<leftarrow> FormatConfirmedUserData (GetWSlice (priTxBuffer ctx)) (IsMaster (config ctx)) FCB
        (addr_destination addr) (addr_source addr) tpdu (unat (of_nat (length tpdu) :: u8));
     Some (PriSlice (length output), ctx\<lparr>priTxBuffer := wbuf dest\<rparr>) }"

definition FormatPrimaryBufferWithUnconfirmed ::
    "Addresses \<Rightarrow> rslice \<Rightarrow> 's LinkContext \<Rightarrow> (tx_slice \<times> 's LinkContext) option" where
  "FormatPrimaryBufferWithUnconfirmed addr tpdu ctx = do {
     (output, dest) \<leftarrow> FormatUnconfirmedUserData (GetWSlice (priTxBuffer ctx)) (IsMaster (config ctx))
        (addr_destination addr) (addr_source addr) tpdu (unat (of_nat (length tpdu) :: u8));
     Some (PriSlice (length output), ctx\<lparr>priTxBuffer := wbuf dest\<rparr>) }"

definition QueueAck :: "u16 \<Rightarrow> 's LinkContext \<Rightarrow> 's LinkContext option" where
  "QueueAck destination ctx = do {
     (buffer, dest) \<leftarrow> FormatAck (GetWSlice (secTxBuffer ctx)) (IsMaster (config ctx)) False destination
        (LocalAddr (config ctx));
     Some (QueueTransmit (SecSlice (length buffer)) False (ctx\<lparr>secTxBuffer := wbuf dest\<rparr>)) }"

definition QueueLinkStatus :: "u16 \<Rightarrow> 's LinkContext \<Rightarrow> 's LinkContext option" where
  "QueueLinkStatus destination ctx = do {
     (buffer, dest) \<leftarrow> FormatLinkStatus (GetWSlice (secTxBuffer ctx)) (IsMaster (config ctx)) False
        destination (LocalAddr (config ctx));
     Some (QueueTransmit (SecSlice (length buffer)) False (ctx\<lparr>secTxBuffer := wbuf dest\<rparr>)) }"

definition QueueResetLinks :: "u16 \<Rightarrow> 's LinkContext \<Rightarrow> 's LinkContext option" where
  "QueueResetLinks destination ctx = do {
     (buffer, dest) \<leftarrow> FormatResetLinkStates (GetWSlice (priTxBuffer ctx)) (IsMaster (config ctx))
        destination (LocalAddr (config ctx));
     Some (QueueTransmit (PriSlice (length buffer)) True (ctx\<lparr>priTxBuffer := wbuf dest\<rparr>)) }"

definition QueueRequestLinkStatus :: "u16 \<Rightarrow> 's LinkContext \<Rightarrow> 's LinkContext option" where
  "QueueRequestLinkStatus destination ctx = do {
     (buffer, dest) \<leftarrow> FormatRequestLinkStatus (GetWSlice (priTxBuffer ctx)) (IsMaster (config ctx))
        destination (LocalAddr (config ctx));
     Some (QueueTransmit (PriSlice (length buffer)) True (ctx\<lparr>priTxBuffer := wbuf dest\<rparr>)) }"

definition ResetRetry :: "'s LinkContext \<Rightarrow> 's LinkContext" where
  "ResetRetry ctx = ctx\<lparr>numRetryRemaining := NumRetry (config ctx)\<rparr>"

definition Retry :: "'s LinkContext \<Rightarrow> bool \<times> 's LinkContext" where
  "Retry ctx =
     (if numRetryRemaining ctx > 0 then (True, ctx\<lparr>numRetryRemaining := numRetryRemaining ctx - 1\<rparr>)
      else (False, ctx))"

definition PushDataUp :: "Addresses \<Rightarrow> rslice \<Rightarrow> 's LinkContext \<Rightarrow> 's LinkContext" where
  "PushDataUp addresses payload ctx = emit (Upper_OnReceive addresses payload) ctx"

definition release_segments :: "'s LinkContext \<Rightarrow> 's LinkContext" where
  "release_segments ctx =
     ctx\<lparr>segment_object := (case pSegments ctx of Some s \<Rightarrow> Some s | None \<Rightarrow> segment_object ctx),
         pSegments := None\<rparr>"

definition CompleteSendOperation :: "'s LinkContext \<Rightarrow> 's LinkContext" where
  "CompleteSendOperation ctx = emit Post_OnTxReady (release_segments ctx)"

definition StartResponseTimer :: "'s LinkContext \<Rightarrow> 's LinkContext" where
  "StartResponseTimer ctx =
     ctx\<lparr>rspTimeoutTimer := snd (TimerRef_Start
        (MonotonicTimestamp_Add (executor_time ctx) (RspTimeout (config ctx))) (rspTimeoutTimer ctx))\<rparr>"

definition StartKeepAliveTimer :: "MonotonicTimestamp \<Rightarrow> 's LinkContext \<Rightarrow> 's LinkContext" where
  "StartKeepAliveTimer expiration ctx =
     ctx\<lparr>keepAliveTimer := snd (TimerRef_Start expiration (keepAliveTimer ctx))\<rparr>"

definition CancelTimer :: "'s LinkContext \<Rightarrow> 's LinkContext" where
  "CancelTimer ctx = ctx\<lparr>rspTimeoutTimer := snd (TimerRef_Cancel (rspTimeoutTimer ctx))\<rparr>"

definition FailKeepAlive :: "bool \<Rightarrow> 's LinkContext \<Rightarrow> 's LinkContext" where
  "FailKeepAlive timeout ctx = (if timeout then emit OnKeepAliveFailure ctx else ctx)"

definition CompleteKeepAlive :: "'s LinkContext \<Rightarrow> 's LinkContext" where
  "CompleteKeepAlive ctx = emit OnKeepAliveSuccess ctx"

definition TryPendingPriTx :: "'s LinkContext \<Rightarrow> bool \<times> 's LinkContext" where
  "TryPendingPriTx ctx =
     (case pendingPriTx ctx of
        Some b \<Rightarrow>
          if txMode ctx = TxIdle
          then (True, (emit (BeginTransmit (slice_bytes ctx b)) ctx)\<lparr>pendingPriTx := None, txMode := TxPrimary\<rparr>)
          else (False, ctx)
      | None \<Rightarrow> (False, ctx))"

definition TryPendingSecTx :: "'s LinkContext \<Rightarrow> bool \<times> 's LinkContext" where
  "TryPendingSecTx ctx =
     (case pendingSecTx ctx of
        Some b \<Rightarrow>
          if txMode ctx = TxIdle
          then (True, (emit (BeginTransmit (slice_bytes ctx b)) ctx)\<lparr>pendingSecTx := None, txMode := TxSecondary\<rparr>)
          else (False, ctx)
      | None \<Rightarrow> (False, ctx))"


section \<open>Primary station\<close>

text \<open>
  Sending the current segment appears in five handlers; \<open>s\<close> is the object behind
  \<open>pSegments\<close>, which \<open>GetSegment\<close> may update.
\<close>

definition SendConfirmedSegment :: "'s segment_ops \<Rightarrow> 's \<Rightarrow> 's LinkContext \<Rightarrow> 's LinkContext option" where
  "SendConfirmedSegment ops s ctx = do {
     (seg, s') \<leftarrow> GetSegment ops s;
     (buffer, ctx) \<leftarrow> FormatPrimaryBufferWithConfirmed (GetAddresses ops s) seg (nextWriteFCB ctx) ctx;
     Some (QueueTransmit buffer True (ctx\<lparr>pSegments := Some s'\<rparr>)) }"

definition SendUnconfirmedSegment :: "'s segment_ops \<Rightarrow> 's \<Rightarrow> 's LinkContext \<Rightarrow> 's LinkContext option" where
  "SendUnconfirmedSegment ops s ctx = do {
     (seg, s') \<leftarrow> GetSegment ops s;
     (buffer, ctx) \<leftarrow> FormatPrimaryBufferWithUnconfirmed (GetAddresses ops s) seg ctx;
     Some (QueueTransmit buffer True (ctx\<lparr>pSegments := Some s'\<rparr>)) }"

type_synonym 's pri_result = "(PriState \<times> 's LinkContext) option"

text \<open>
  One definition per handler of a concrete state (\<open>PLLS_Idle::TrySendConfirmed\<close> is
  \<open>Idle_TrySendConfirmed\<close>), then one per virtual function: it selects the handler by the
  current state and falls back to the one of \<open>PriStateBase\<close>.
\<close>

definition Idle_TrySendUnconfirmed :: "'s segment_ops \<Rightarrow> 's \<Rightarrow> 's LinkContext \<Rightarrow> 's pri_result" where
  "Idle_TrySendUnconfirmed ops segments ctx = do {
     ctx \<leftarrow> SendUnconfirmedSegment ops segments ctx;
     Some (PLLS_SendUnconfirmedTransmitWait, ctx) }"

definition Idle_TrySendConfirmed :: "'s segment_ops \<Rightarrow> 's \<Rightarrow> 's LinkContext \<Rightarrow> 's pri_result" where
  "Idle_TrySendConfirmed ops segments ctx =
     (if isRemoteReset ctx then do {
        ctx \<leftarrow> SendConfirmedSegment ops segments (ResetRetry ctx);
        Some (PLLS_ConfUserDataTransmitWait, ctx) }
      else do {
        ctx \<leftarrow> QueueResetLinks (addr_destination (GetAddresses ops segments)) (ResetRetry ctx);
        Some (PLLS_LinkResetTransmitWait, ctx) })"

definition Idle_TrySendRequestLinkStatus :: "'s LinkContext \<Rightarrow> 's pri_result" where
  "Idle_TrySendRequestLinkStatus ctx = do {
     ctx \<leftarrow> QueueRequestLinkStatus (RemoteAddr (config ctx)) (ctx\<lparr>keepAliveTimeout := False\<rparr>);
     Some (PLLS_RequestLinkStatusTransmitWait, emit OnKeepAliveInitiated ctx) }"

definition SendUnconfirmedTransmitWait_OnTxReady :: "'s segment_ops \<Rightarrow> 's LinkContext \<Rightarrow> 's pri_result" where
  "SendUnconfirmedTransmitWait_OnTxReady ops ctx = do {
     s \<leftarrow> pSegments ctx;
     (more, s) \<leftarrow> SegAdvance ops s;
     if more then do {
       ctx \<leftarrow> SendUnconfirmedSegment ops s ctx;
       Some (PLLS_SendUnconfirmedTransmitWait, ctx) }
     else Some (PLLS_Idle, CompleteSendOperation (ctx\<lparr>pSegments := Some s\<rparr>)) }"

definition LinkResetTransmitWait_OnTxReady :: "'s LinkContext \<Rightarrow> 's pri_result" where
  "LinkResetTransmitWait_OnTxReady ctx = Some (PLLS_ResetLinkWait, StartResponseTimer ctx)"

definition ConfUserDataTransmitWait_OnTxReady :: "'s LinkContext \<Rightarrow> 's pri_result" where
  "ConfUserDataTransmitWait_OnTxReady ctx = Some (PLLS_ConfDataWait, StartResponseTimer ctx)"

definition RequestLinkStatusTransmitWait_OnTxReady :: "'s LinkContext \<Rightarrow> 's pri_result" where
  "RequestLinkStatusTransmitWait_OnTxReady ctx = Some (PLLS_RequestLinkStatusWait, StartResponseTimer ctx)"

definition ResetLinkWait_OnAck :: "'s segment_ops \<Rightarrow> 's LinkContext \<Rightarrow> 's pri_result" where
  "ResetLinkWait_OnAck ops ctx = do {
     let ctx = CancelTimer (ResetWriteFCB (ctx\<lparr>isRemoteReset := True\<rparr>));
     s \<leftarrow> pSegments ctx;
     ctx \<leftarrow> SendConfirmedSegment ops s ctx;
     Some (PLLS_ConfUserDataTransmitWait, emit (OnStateChange RESET) ctx) }"

definition ResetLinkWait_OnTimeout :: "'s LinkContext \<Rightarrow> 's pri_result" where
  "ResetLinkWait_OnTimeout ctx =
     (let (again, ctx) = Retry ctx
      in if again then do {
           ctx \<leftarrow> QueueResetLinks (RemoteAddr (config ctx)) ctx;
           Some (PLLS_LinkResetTransmitWait, ctx) }
         else Some (PLLS_Idle, CompleteSendOperation ctx))"

text \<open>\<open>Failure\<close> of \<open>PLLS_ResetLinkWait\<close> and, with the same body, of \<open>PLLS_ConfDataWait\<close>.\<close>

definition Pri_Failure :: "'s LinkContext \<Rightarrow> 's pri_result" where
  "Pri_Failure ctx = Some (PLLS_Idle, CompleteSendOperation (CancelTimer ctx))"

definition ConfDataWait_OnAck :: "'s segment_ops \<Rightarrow> 's LinkContext \<Rightarrow> 's pri_result" where
  "ConfDataWait_OnAck ops ctx = do {
     let ctx = CancelTimer (ToggleWriteFCB ctx);
     s \<leftarrow> pSegments ctx;
     (more, s) \<leftarrow> SegAdvance ops s;
     if more then do {
       ctx \<leftarrow> SendConfirmedSegment ops s ctx;
       Some (PLLS_ConfUserDataTransmitWait, ctx) }
     else Some (PLLS_Idle, CompleteSendOperation (ctx\<lparr>pSegments := Some s\<rparr>)) }"

definition ConfDataWait_OnNack :: "'s segment_ops \<Rightarrow> bool \<Rightarrow> 's LinkContext \<Rightarrow> 's pri_result" where
  "ConfDataWait_OnNack ops rxBuffFull ctx =
     (let ctx = emit (OnStateChange UNRESET) ctx
      in if rxBuffFull then Pri_Failure ctx
         else do {
           let ctx = CancelTimer (ResetRetry ctx);
           s \<leftarrow> pSegments ctx;
           ctx \<leftarrow> QueueResetLinks (addr_destination (GetAddresses ops s)) ctx;
           Some (PLLS_LinkResetTransmitWait, ctx) })"

definition ConfDataWait_OnTimeout :: "'s segment_ops \<Rightarrow> 's LinkContext \<Rightarrow> 's pri_result" where
  "ConfDataWait_OnTimeout ops ctx =
     (let (again, ctx) = Retry ctx
      in if again then do {
           s \<leftarrow> pSegments ctx;
           ctx \<leftarrow> SendConfirmedSegment ops s ctx;
           Some (PLLS_ConfUserDataTransmitWait, ctx) }
         else Some (PLLS_Idle, CompleteSendOperation (emit (OnStateChange UNRESET) ctx)))"

definition RequestLinkStatusWait_OnNack :: "'s LinkContext \<Rightarrow> 's pri_result" where
  "RequestLinkStatusWait_OnNack ctx = Some (PLLS_Idle, FailKeepAlive False (CancelTimer ctx))"

definition RequestLinkStatusWait_OnLinkStatus :: "'s LinkContext \<Rightarrow> 's pri_result" where
  "RequestLinkStatusWait_OnLinkStatus ctx = Some (PLLS_Idle, CompleteKeepAlive (CancelTimer ctx))"

definition RequestLinkStatusWait_OnNotSupported :: "'s LinkContext \<Rightarrow> 's pri_result" where
  "RequestLinkStatusWait_OnNotSupported ctx = Some (PLLS_Idle, FailKeepAlive False (CancelTimer ctx))"

definition RequestLinkStatusWait_OnTimeout :: "'s LinkContext \<Rightarrow> 's pri_result" where
  "RequestLinkStatusWait_OnTimeout ctx = Some (PLLS_Idle, FailKeepAlive True ctx)"

lemmas pri_handlers =
  Idle_TrySendUnconfirmed_def Idle_TrySendConfirmed_def Idle_TrySendRequestLinkStatus_def
  SendUnconfirmedTransmitWait_OnTxReady_def LinkResetTransmitWait_OnTxReady_def
  ConfUserDataTransmitWait_OnTxReady_def RequestLinkStatusTransmitWait_OnTxReady_def
  ResetLinkWait_OnAck_def ResetLinkWait_OnTimeout_def ConfDataWait_OnAck_def ConfDataWait_OnNack_def
  ConfDataWait_OnTimeout_def RequestLinkStatusWait_OnNack_def RequestLinkStatusWait_OnLinkStatus_def
  RequestLinkStatusWait_OnNotSupported_def RequestLinkStatusWait_OnTimeout_def

declare pri_handlers [simp]

definition TrySendUnconfirmed :: "'s segment_ops \<Rightarrow> 's \<Rightarrow> 's LinkContext \<Rightarrow> 's pri_result" where
  "TrySendUnconfirmed ops segments ctx =
     (case pPriState ctx of
        PLLS_Idle \<Rightarrow> Idle_TrySendUnconfirmed ops segments ctx
      | st \<Rightarrow> Some (st, ctx))"

definition TrySendConfirmed :: "'s segment_ops \<Rightarrow> 's \<Rightarrow> 's LinkContext \<Rightarrow> 's pri_result" where
  "TrySendConfirmed ops segments ctx =
     (case pPriState ctx of
        PLLS_Idle \<Rightarrow> Idle_TrySendConfirmed ops segments ctx
      | st \<Rightarrow> Some (st, ctx))"

definition TrySendRequestLinkStatus :: "'s LinkContext \<Rightarrow> 's pri_result" where
  "TrySendRequestLinkStatus ctx =
     (case pPriState ctx of
        PLLS_Idle \<Rightarrow> Idle_TrySendRequestLinkStatus ctx
      | st \<Rightarrow> Some (st, ctx))"

definition Pri_OnTxReady :: "'s segment_ops \<Rightarrow> 's LinkContext \<Rightarrow> 's pri_result" where
  "Pri_OnTxReady ops ctx =
     (case pPriState ctx of
        PLLS_SendUnconfirmedTransmitWait \<Rightarrow> SendUnconfirmedTransmitWait_OnTxReady ops ctx
      | PLLS_LinkResetTransmitWait \<Rightarrow> LinkResetTransmitWait_OnTxReady ctx
      | PLLS_ConfUserDataTransmitWait \<Rightarrow> ConfUserDataTransmitWait_OnTxReady ctx
      | PLLS_RequestLinkStatusTransmitWait \<Rightarrow> RequestLinkStatusTransmitWait_OnTxReady ctx
      | st \<Rightarrow> Some (st, ctx))"

definition Pri_OnAck :: "'s segment_ops \<Rightarrow> bool \<Rightarrow> 's LinkContext \<Rightarrow> 's pri_result" where
  "Pri_OnAck ops rxBuffFull ctx =
     (case pPriState ctx of
        PLLS_ResetLinkWait \<Rightarrow> ResetLinkWait_OnAck ops ctx
      | PLLS_ConfDataWait \<Rightarrow> ConfDataWait_OnAck ops ctx
      | st \<Rightarrow> Some (st, unexpected_frame ctx))"

definition Pri_OnNack :: "'s segment_ops \<Rightarrow> bool \<Rightarrow> 's LinkContext \<Rightarrow> 's pri_result" where
  "Pri_OnNack ops rxBuffFull ctx =
     (case pPriState ctx of
        PLLS_ResetLinkWait \<Rightarrow> Pri_Failure ctx
      | PLLS_ConfDataWait \<Rightarrow> ConfDataWait_OnNack ops rxBuffFull ctx
      | PLLS_RequestLinkStatusWait \<Rightarrow> RequestLinkStatusWait_OnNack ctx
      | st \<Rightarrow> Some (st, unexpected_frame ctx))"

definition Pri_OnLinkStatus :: "bool \<Rightarrow> 's LinkContext \<Rightarrow> 's pri_result" where
  "Pri_OnLinkStatus rxBuffFull ctx =
     (case pPriState ctx of
        PLLS_ResetLinkWait \<Rightarrow> Pri_Failure ctx
      | PLLS_ConfDataWait \<Rightarrow> Pri_Failure ctx
      | PLLS_RequestLinkStatusWait \<Rightarrow> RequestLinkStatusWait_OnLinkStatus ctx
      | st \<Rightarrow> Some (st, unexpected_frame ctx))"

definition Pri_OnNotSupported :: "bool \<Rightarrow> 's LinkContext \<Rightarrow> 's pri_result" where
  "Pri_OnNotSupported rxBuffFull ctx =
     (case pPriState ctx of
        PLLS_ResetLinkWait \<Rightarrow> Pri_Failure ctx
      | PLLS_ConfDataWait \<Rightarrow> Pri_Failure ctx
      | PLLS_RequestLinkStatusWait \<Rightarrow> RequestLinkStatusWait_OnNotSupported ctx
      | st \<Rightarrow> Some (st, unexpected_frame ctx))"

definition Pri_OnTimeout :: "'s segment_ops \<Rightarrow> 's LinkContext \<Rightarrow> 's pri_result" where
  "Pri_OnTimeout ops ctx =
     (case pPriState ctx of
        PLLS_ResetLinkWait \<Rightarrow> ResetLinkWait_OnTimeout ctx
      | PLLS_ConfDataWait \<Rightarrow> ConfDataWait_OnTimeout ops ctx
      | PLLS_RequestLinkStatusWait \<Rightarrow> RequestLinkStatusWait_OnTimeout ctx
      | st \<Rightarrow> Some (st, ctx))"


section \<open>Secondary station\<close>

type_synonym 's sec_result = "(SecState \<times> 's LinkContext) option"

definition Sec_OnTxReady :: "'s LinkContext \<Rightarrow> 's sec_result" where
  "Sec_OnTxReady ctx =
     (case pSecState ctx of
        SLLS_TransmitWaitReset \<Rightarrow> Some (SLLS_Reset, ctx)
      | SLLS_TransmitWaitNotReset \<Rightarrow> Some (SLLS_NotReset, ctx)
      | st \<Rightarrow> Some (st, ctx))"

definition NotReset_OnTestLinkStatus :: "'s LinkContext \<Rightarrow> 's sec_result" where
  "NotReset_OnTestLinkStatus ctx = Some (SLLS_NotReset, unexpected_frame ctx)"

definition NotReset_OnConfirmedUserData :: "'s LinkContext \<Rightarrow> 's sec_result" where
  "NotReset_OnConfirmedUserData ctx = Some (SLLS_NotReset, unexpected_frame ctx)"

definition NotReset_OnResetLinkStates :: "u16 \<Rightarrow> 's LinkContext \<Rightarrow> 's sec_result" where
  "NotReset_OnResetLinkStates source ctx = do {
     ctx \<leftarrow> QueueAck source ctx;
     Some (SLLS_TransmitWaitReset, ResetReadFCB ctx) }"

definition NotReset_OnRequestLinkStatus :: "u16 \<Rightarrow> 's LinkContext \<Rightarrow> 's sec_result" where
  "NotReset_OnRequestLinkStatus source ctx = do {
     ctx \<leftarrow> QueueLinkStatus source ctx;
     Some (SLLS_TransmitWaitNotReset, ctx) }"

definition Reset_OnTestLinkStatus :: "u16 \<Rightarrow> bool \<Rightarrow> 's LinkContext \<Rightarrow> 's sec_result" where
  "Reset_OnTestLinkStatus source fcb ctx =
     (if nextReadFCB ctx = fcb then do {
        ctx \<leftarrow> QueueAck source ctx;
        Some (SLLS_TransmitWaitReset, ToggleReadFCB ctx) }
      else Some (SLLS_Reset, ctx))"

definition Reset_OnConfirmedUserData ::
    "u16 \<Rightarrow> bool \<Rightarrow> Addresses \<Rightarrow> rslice \<Rightarrow> 's LinkContext \<Rightarrow> 's sec_result" where
  "Reset_OnConfirmedUserData source fcb addresses payload ctx = do {
     ctx \<leftarrow> QueueAck source ctx;
     Some (SLLS_TransmitWaitReset,
       if nextReadFCB ctx = fcb then PushDataUp addresses payload (ToggleReadFCB ctx) else ctx) }"

definition Reset_OnResetLinkStates :: "u16 \<Rightarrow> 's LinkContext \<Rightarrow> 's sec_result" where
  "Reset_OnResetLinkStates source ctx = do {
     ctx \<leftarrow> QueueAck source ctx;
     Some (SLLS_TransmitWaitReset, ResetReadFCB ctx) }"

definition Reset_OnRequestLinkStatus :: "u16 \<Rightarrow> 's LinkContext \<Rightarrow> 's sec_result" where
  "Reset_OnRequestLinkStatus source ctx = do {
     ctx \<leftarrow> QueueLinkStatus source ctx;
     Some (SLLS_TransmitWaitReset, ctx) }"

lemmas sec_handlers =
  NotReset_OnTestLinkStatus_def NotReset_OnConfirmedUserData_def NotReset_OnResetLinkStates_def
  NotReset_OnRequestLinkStatus_def Reset_OnTestLinkStatus_def Reset_OnConfirmedUserData_def
  Reset_OnResetLinkStates_def Reset_OnRequestLinkStatus_def

declare sec_handlers [simp]

text \<open>The virtual functions; the two transmit wait states ignore every frame.\<close>

definition Sec_OnTestLinkStatus :: "u16 \<Rightarrow> bool \<Rightarrow> 's LinkContext \<Rightarrow> 's sec_result" where
  "Sec_OnTestLinkStatus source fcb ctx =
     (case pSecState ctx of
        SLLS_NotReset \<Rightarrow> NotReset_OnTestLinkStatus ctx
      | SLLS_Reset \<Rightarrow> Reset_OnTestLinkStatus source fcb ctx
      | st \<Rightarrow> Some (st, ctx))"

definition Sec_OnConfirmedUserData ::
    "u16 \<Rightarrow> bool \<Rightarrow> Addresses \<Rightarrow> rslice \<Rightarrow> 's LinkContext \<Rightarrow> 's sec_result" where
  "Sec_OnConfirmedUserData source fcb addresses payload ctx =
     (case pSecState ctx of
        SLLS_NotReset \<Rightarrow> NotReset_OnConfirmedUserData ctx
      | SLLS_Reset \<Rightarrow> Reset_OnConfirmedUserData source fcb addresses payload ctx
      | st \<Rightarrow> Some (st, ctx))"

definition Sec_OnResetLinkStates :: "u16 \<Rightarrow> 's LinkContext \<Rightarrow> 's sec_result" where
  "Sec_OnResetLinkStates source ctx =
     (case pSecState ctx of
        SLLS_NotReset \<Rightarrow> NotReset_OnResetLinkStates source ctx
      | SLLS_Reset \<Rightarrow> Reset_OnResetLinkStates source ctx
      | st \<Rightarrow> Some (st, ctx))"

definition Sec_OnRequestLinkStatus :: "u16 \<Rightarrow> 's LinkContext \<Rightarrow> 's sec_result" where
  "Sec_OnRequestLinkStatus source ctx =
     (case pSecState ctx of
        SLLS_NotReset \<Rightarrow> NotReset_OnRequestLinkStatus source ctx
      | SLLS_Reset \<Rightarrow> Reset_OnRequestLinkStatus source ctx
      | st \<Rightarrow> Some (st, ctx))"


section \<open>Entry points\<close>

definition set_pri :: "'s pri_result \<Rightarrow> 's LinkContext option" where
  "set_pri r = map_option (\<lambda>(st, ctx). ctx\<lparr>pPriState := st\<rparr>) r"

definition set_sec :: "'s sec_result \<Rightarrow> 's LinkContext option" where
  "set_sec r = map_option (\<lambda>(st, ctx). ctx\<lparr>pSecState := st\<rparr>) r"

definition LinkContext_OnLowerLayerUp :: "'s LinkContext \<Rightarrow> bool \<times> 's LinkContext" where
  "LinkContext_OnLowerLayerUp ctx =
     (if isOnline ctx then (False, ctx)
      else
        let now = executor_time ctx;
            ctx = ctx\<lparr>isOnline := True, lastMessageTimestamp := now\<rparr>;
            ctx = StartKeepAliveTimer (MonotonicTimestamp_Add now (KeepAliveTimeout (config ctx))) ctx
        in (True, emit Upper_OnLowerLayerUp (emit (OnStateChange UNRESET) ctx)))"

definition LinkContext_OnLowerLayerDown :: "'s LinkContext \<Rightarrow> bool \<times> 's LinkContext" where
  "LinkContext_OnLowerLayerDown ctx =
     (if \<not> isOnline ctx then (False, ctx)
      else
        let ctx = release_segments ctx;
            ctx = ctx\<lparr>isOnline := False, keepAliveTimeout := False, isRemoteReset := False, txMode := TxIdle, pendingPriTx := None, pendingSecTx := None,
                      rspTimeoutTimer := snd (TimerRef_Cancel (rspTimeoutTimer ctx)),
                      keepAliveTimer := snd (TimerRef_Cancel (keepAliveTimer ctx)),
                      pPriState := PLLS_Idle, pSecState := SLLS_NotReset\<rparr>
        in (True, emit Upper_OnLowerLayerDown (emit (OnStateChange UNRESET) ctx)))"

definition SetTxSegment :: "'s \<Rightarrow> 's LinkContext \<Rightarrow> bool \<times> 's LinkContext" where
  "SetTxSegment segments ctx =
     (if \<not> isOnline ctx then (False, ctx)
      else case pSegments ctx of
        Some _ \<Rightarrow> (False, ctx)
      | None \<Rightarrow> (True, ctx\<lparr>pSegments := Some segments\<rparr>))"

definition TryStartTransmission :: "'s segment_ops \<Rightarrow> 's LinkContext \<Rightarrow> 's LinkContext option" where
  "TryStartTransmission ops ctx = do {
     ctx \<leftarrow> (if keepAliveTimeout ctx then set_pri (TrySendRequestLinkStatus ctx) else Some ctx);
     (case pSegments ctx of
        Some segments \<Rightarrow>
          set_pri (if UseConfirms (config ctx) then TrySendConfirmed ops segments ctx
                   else TrySendUnconfirmed ops segments ctx)
      | None \<Rightarrow> Some ctx) }"

definition LinkContext_OnTxReady :: "'s segment_ops \<Rightarrow> 's LinkContext \<Rightarrow> (bool \<times> 's LinkContext) option" where
  "LinkContext_OnTxReady ops ctx =
     (if txMode ctx = TxIdle then Some (False, ctx)
      else do {
        let isPrimary = (txMode ctx = TxPrimary);
        let ctx = ctx\<lparr>txMode := TxIdle\<rparr>;
        let ctx = snd (TryPendingSecTx ctx);
        let ctx = snd (TryPendingPriTx ctx);
        ctx \<leftarrow> (if isPrimary then set_pri (Pri_OnTxReady ops ctx) else set_sec (Sec_OnTxReady ctx));
        Some (True, ctx) })"

definition OnKeepAliveTimeout :: "'s segment_ops \<Rightarrow> 's LinkContext \<Rightarrow> 's LinkContext option" where
  "OnKeepAliveTimeout ops ctx =
     (let now = executor_time ctx;
          elapsed = now - lastMessageTimestamp ctx;
          ctx = (if elapsed \<ge> KeepAliveTimeout (config ctx)
                 then ctx\<lparr>lastMessageTimestamp := now, keepAliveTimeout := True\<rparr> else ctx);
          ctx = StartKeepAliveTimer (MonotonicTimestamp_Add now (KeepAliveTimeout (config ctx))) ctx
      in TryStartTransmission ops ctx)"

definition OnResponseTimeout :: "'s segment_ops \<Rightarrow> 's LinkContext \<Rightarrow> 's LinkContext option" where
  "OnResponseTimeout ops ctx = do {
     ctx \<leftarrow> set_pri (Pri_OnTimeout ops ctx);
     TryStartTransmission ops ctx }"

text \<open>The switch over the function code at the end of \<open>OnFrame\<close>.\<close>

definition dispatch_frame ::
    "'s segment_ops \<Rightarrow> LinkHeaderFields \<Rightarrow> rslice \<Rightarrow> 's LinkContext \<Rightarrow> 's LinkContext option" where
  "dispatch_frame ops header userdata ctx =
     (case lf_func header of
        SEC_ACK \<Rightarrow> set_pri (Pri_OnAck ops (lf_fcvdfc header) ctx)
      | SEC_NACK \<Rightarrow> set_pri (Pri_OnNack ops (lf_fcvdfc header) ctx)
      | SEC_LINK_STATUS \<Rightarrow> set_pri (Pri_OnLinkStatus (lf_fcvdfc header) ctx)
      | SEC_NOT_SUPPORTED \<Rightarrow> set_pri (Pri_OnNotSupported (lf_fcvdfc header) ctx)
      | PRI_TEST_LINK_STATES \<Rightarrow> set_sec (Sec_OnTestLinkStatus (lf_src header) (lf_fcb header) ctx)
      | PRI_RESET_LINK_STATES \<Rightarrow> set_sec (Sec_OnResetLinkStates (lf_src header) ctx)
      | PRI_REQUEST_LINK_STATUS \<Rightarrow> set_sec (Sec_OnRequestLinkStatus (lf_src header) ctx)
      | PRI_CONFIRMED_USER_DATA \<Rightarrow>
          set_sec (Sec_OnConfirmedUserData (lf_src header) (lf_fcb header) (ToAddresses header) userdata ctx)
      | PRI_UNCONFIRMED_USER_DATA \<Rightarrow> Some (PushDataUp (ToAddresses header) userdata ctx)
      | LF_INVALID \<Rightarrow> Some ctx)"

definition LinkContext_OnFrame ::
    "'s segment_ops \<Rightarrow> LinkHeaderFields \<Rightarrow> rslice \<Rightarrow> 's LinkContext \<Rightarrow> (bool \<times> 's LinkContext) option" where
  "LinkContext_OnFrame ops header userdata ctx =
     (if \<not> isOnline ctx then Some (False, ctx)
      else if lf_isFromMaster header = IsMaster (config ctx) then
        Some (False, ctx\<lparr>link_statistics := link_statistics ctx\<lparr>
          numBadMasterBit := numBadMasterBit (link_statistics ctx) + 1\<rparr>\<rparr>)
      else if lf_dest header \<noteq> LocalAddr (config ctx) then
        Some (False, emit (OnUnknownDestinationAddress (lf_dest header)) (ctx\<lparr>link_statistics := link_statistics ctx\<lparr>
          numUnknownDestination := numUnknownDestination (link_statistics ctx) + 1\<rparr>\<rparr>))
      else if lf_src header \<noteq> RemoteAddr (config ctx) \<and> \<not> respondToAnySource (config ctx) then
        Some (False, emit (OnUnknownSourceAddress (lf_src header)) (ctx\<lparr>link_statistics := link_statistics ctx\<lparr>
          numUnknownSource := numUnknownSource (link_statistics ctx) + 1\<rparr>\<rparr>))
      else do {
        ctx \<leftarrow> dispatch_frame ops header userdata (ctx\<lparr>lastMessageTimestamp := executor_time ctx\<rparr>);
        Some (True, ctx) })"

text \<open>The methods of \<open>LinkLayer\<close>, and the timers when the executor fires them.\<close>

definition LinkLayer_Send :: "'s segment_ops \<Rightarrow> 's \<Rightarrow> 's LinkContext \<Rightarrow> (bool \<times> 's LinkContext) option" where
  "LinkLayer_Send ops segments ctx =
     (if \<not> isOnline ctx then Some (False, ctx)
      else do {
        let (ok, ctx) = SetTxSegment segments ctx;
        ctx \<leftarrow> (if ok then TryStartTransmission ops ctx else Some ctx);
        Some (True, ctx) })"

definition LinkLayer_OnTxReady :: "'s segment_ops \<Rightarrow> 's LinkContext \<Rightarrow> (bool \<times> 's LinkContext) option" where
  "LinkLayer_OnTxReady ops ctx = do {
     (ret, ctx) \<leftarrow> LinkContext_OnTxReady ops ctx;
     ctx \<leftarrow> (if ret then TryStartTransmission ops ctx else Some ctx);
     Some (True, ctx) }"

definition LinkLayer_OnFrame ::
    "'s segment_ops \<Rightarrow> LinkHeaderFields \<Rightarrow> rslice \<Rightarrow> 's LinkContext \<Rightarrow> (bool \<times> 's LinkContext) option" where
  "LinkLayer_OnFrame ops header userdata ctx = do {
     (ret, ctx) \<leftarrow> LinkContext_OnFrame ops header userdata ctx;
     ctx \<leftarrow> (if ret then TryStartTransmission ops ctx else Some ctx);
     Some (ret, ctx) }"

definition ResponseTimer_fires :: "'s segment_ops \<Rightarrow> 's LinkContext \<Rightarrow> 's LinkContext option" where
  "ResponseTimer_fires ops ctx =
     OnResponseTimeout ops (ctx\<lparr>rspTimeoutTimer := TimerRef_fire (rspTimeoutTimer ctx)\<rparr>)"

definition KeepAliveTimer_fires :: "'s segment_ops \<Rightarrow> 's LinkContext \<Rightarrow> 's LinkContext option" where
  "KeepAliveTimer_fires ops ctx =
     OnKeepAliveTimeout ops (ctx\<lparr>keepAliveTimer := TimerRef_fire (keepAliveTimer ctx)\<rparr>)"

end
