(* ===== verification/LinkLayer.thy ===== *)
theory LinkLayer
  imports LinkContext
begin

text \<open>
  Correctness of the link layer session: the invariant of the two state machines and the
  transmit buffers, its preservation by every entry point, and what follows for reachable
  states. The transport layer is seen through the interface \<open>transport_segment\<close>.
\<close>

section \<open>The interface to the transport layer\<close>

text \<open>
  \<open>seg_inv\<close> is what the link layer may rely on while it holds the segment object, \<open>segs\<close> the
  segments still to be sent, the current one first. \<open>GetSegment\<close> may be called repeatedly (for
  retries) and returns the same segment, of a size that fits a frame.
\<close>

locale transport_segment =
  fixes ops :: "'s segment_ops"
    and seg_inv :: "'s \<Rightarrow> bool"
    and segs :: "'s \<Rightarrow> u8 list list"
  assumes GetSegment_ok: "seg_inv s \<Longrightarrow>
      \<exists>d s'. GetSegment ops s = Some (d, s') \<and> seg_inv s' \<and> segs s' = segs s \<and>
        GetAddresses ops s' = GetAddresses ops s \<and> segs s \<noteq> [] \<and> d = hd (segs s) \<and>
        0 < length d \<and> length d \<le> 250"
    and Advance_ok: "seg_inv s \<Longrightarrow>
      \<exists>more s'. SegAdvance ops s = Some (more, s') \<and> (more \<longleftrightarrow> tl (segs s) \<noteq> []) \<and>
        (more \<longrightarrow> seg_inv s' \<and> segs s' = tl (segs s) \<and> GetAddresses ops s' = GetAddresses ops s)"


section \<open>Transmitted frames are well formed\<close>

definition wire_frame :: "u8 list \<Rightarrow> bool" where
  "wire_frame bs \<longleftrightarrow> (\<exists>h d. valid_header h \<and> length d = payload_len h \<and> bs = frame_bytes h d)"

lemma wire_frame_frame_bytes: "valid_header h \<Longrightarrow> length d = payload_len h \<Longrightarrow> wire_frame (frame_bytes h d)"
  by (auto simp: wire_frame_def)

lemma payload_len_frame_header: "n \<le> 250 \<Longrightarrow> payload_len (frame_header n m fcb fcv f dest src) = n"
proof -
  assume "n \<le> 250"
  then have "unat (of_nat (n + 5) :: u8) = n + 5"
    by (intro unat_of_nat_u8) simp
  then show ?thesis
    by (simp add: payload_len_def frame_header_def)
qed

lemma valid_frame_header:
  assumes "n \<le> 250" and "f \<noteq> LF_INVALID"
  shows "valid_header (frame_header n m fcb fcv f dest src) \<longleftrightarrow>
    (case f of
       PRI_CONFIRMED_USER_DATA \<Rightarrow> fcv \<and> 0 < n
     | PRI_UNCONFIRMED_USER_DATA \<Rightarrow> \<not> fcv \<and> 0 < n
     | PRI_TEST_LINK_STATES \<Rightarrow> fcv \<and> n = 0
     | PRI_RESET_LINK_STATES \<Rightarrow> \<not> fcv \<and> n = 0
     | PRI_REQUEST_LINK_STATUS \<Rightarrow> \<not> fcv \<and> n = 0
     | _ \<Rightarrow> \<not> fcb \<and> n = 0)"
proof -
  have "unat (of_nat (n + 5) :: u8) = n + 5"
    using assms(1) by (intro unat_of_nat_u8) simp
  then have "5 \<le> unat (hdr_length (frame_header n m fcb fcv f dest src))"
    by (simp add: frame_header_def)
  moreover have "GetFuncEnum (frame_header n m fcb fcv f dest src) = f"
      "IsFcvDfcSet (frame_header n m fcb fcv f dest src) = fcv"
      "IsFcbSet (frame_header n m fcb fcv f dest src) = fcb"
    using assms(2) by (simp_all add: frame_header_def)
  ultimately show ?thesis
    using payload_len_frame_header [OF assms(1), of m fcb fcv f dest src] assms(2)
    by (cases f) (simp_all add: valid_header_def)
qed

text \<open>What a formatter leaves in a transmit buffer, as the context helpers use it.\<close>

lemma FormatHeader_buffer:
  "10 \<le> length b \<Longrightarrow> FormatHeader (GetWSlice b) 0 m fcb fcv f dest src =
    Some (frame_bytes (frame_header 0 m fcb fcv f dest src) [],
          mkw (frame_bytes (frame_header 0 m fcb fcv f dest src) []) (drop 10 b) [])"
  using FormatHeader_frame [of b "[]" "[]" m fcb fcv f dest src] by (simp add: GetWSlice_mkw)

lemma wire_frame_link_frame:
  assumes "\<not> fcb" and "\<not> fcv" and "f \<notin> {LF_INVALID, PRI_CONFIRMED_USER_DATA, PRI_UNCONFIRMED_USER_DATA, PRI_TEST_LINK_STATES}"
  shows "wire_frame (frame_bytes (frame_header 0 m fcb fcv f dest src) [])"
  using assms valid_frame_header [of 0 f] payload_len_frame_header [of 0]
  by (intro wire_frame_frame_bytes; cases f) simp_all

lemma CalcFrameSize_0 [simp]: "CalcFrameSize 0 = 10"
  by (simp add: CalcFrameSize_def LPDU_HEADER_SIZE_def)

lemma FormatPrimaryBufferWithConfirmed_ok:
  assumes "length (priTxBuffer ctx) = 292" and "0 < length d" and "length d \<le> 250"
  shows "\<exists>n b. FormatPrimaryBufferWithConfirmed a d fcb ctx = Some (PriSlice n, ctx\<lparr>priTxBuffer := b\<rparr>) \<and>
    length b = 292 \<and> wire_frame (take n b)"
proof -
  define h where "h = frame_header (length d) (IsMaster (config ctx)) fcb True PRI_CONFIRMED_USER_DATA
    (addr_destination a) (addr_source a)"
  have u8: "unat (of_nat (length d) :: u8) = length d"
    using assms(3) by (intro unat_of_nat_u8) simp
  have fits: "CalcFrameSize (length d) \<le> 292"
    using CalcFrameSize_bounds(2) [OF assms(3)] by (simp add: LPDU_MAX_FRAME_SIZE_def)
  have "FormatPrimaryBufferWithConfirmed a d fcb ctx = Some (PriSlice (length (frame_bytes h d)),
      ctx\<lparr>priTxBuffer := frame_bytes h d @ drop (CalcFrameSize (length d)) (priTxBuffer ctx)\<rparr>)"
    using FormatConfirmedUserData_mkw [OF assms(2,3), of d "priTxBuffer ctx"] fits assms(1)
    by (simp add: FormatPrimaryBufferWithConfirmed_def u8 GetWSlice_mkw Let_def h_def)
  moreover have "wire_frame (frame_bytes h d)"
    using valid_frame_header [OF assms(3)] payload_len_frame_header [OF assms(3)] assms(2)
    by (intro wire_frame_frame_bytes) (simp_all add: h_def)
  ultimately show ?thesis
    using fits assms(1)
    by (intro exI [of _ "CalcFrameSize (length d)"]
        exI [of _ "frame_bytes h d @ drop (CalcFrameSize (length d)) (priTxBuffer ctx)"]) simp
qed

lemma FormatPrimaryBufferWithUnconfirmed_ok:
  assumes "length (priTxBuffer ctx) = 292" and "0 < length d" and "length d \<le> 250"
  shows "\<exists>n b. FormatPrimaryBufferWithUnconfirmed a d ctx = Some (PriSlice n, ctx\<lparr>priTxBuffer := b\<rparr>) \<and>
    length b = 292 \<and> wire_frame (take n b)"
proof -
  define h where "h = frame_header (length d) (IsMaster (config ctx)) False False PRI_UNCONFIRMED_USER_DATA
    (addr_destination a) (addr_source a)"
  have u8: "unat (of_nat (length d) :: u8) = length d"
    using assms(3) by (intro unat_of_nat_u8) simp
  have fits: "CalcFrameSize (length d) \<le> 292"
    using CalcFrameSize_bounds(2) [OF assms(3)] by (simp add: LPDU_MAX_FRAME_SIZE_def)
  have "FormatPrimaryBufferWithUnconfirmed a d ctx = Some (PriSlice (length (frame_bytes h d)),
      ctx\<lparr>priTxBuffer := frame_bytes h d @ drop (CalcFrameSize (length d)) (priTxBuffer ctx)\<rparr>)"
    using FormatUnconfirmedUserData_mkw [OF assms(2,3), of d "priTxBuffer ctx"] fits assms(1)
    by (simp add: FormatPrimaryBufferWithUnconfirmed_def u8 GetWSlice_mkw Let_def h_def)
  moreover have "wire_frame (frame_bytes h d)"
    using valid_frame_header [OF assms(3)] payload_len_frame_header [OF assms(3)] assms(2)
    by (intro wire_frame_frame_bytes) (simp_all add: h_def)
  ultimately show ?thesis
    using fits assms(1)
    by (intro exI [of _ "CalcFrameSize (length d)"]
        exI [of _ "frame_bytes h d @ drop (CalcFrameSize (length d)) (priTxBuffer ctx)"]) simp
qed

lemma QueueAck_ok:
  assumes "length (secTxBuffer ctx) = 10"
  shows "\<exists>b. QueueAck dest ctx = Some (QueueTransmit (SecSlice 10) False (ctx\<lparr>secTxBuffer := b\<rparr>)) \<and>
    length b = 10 \<and> wire_frame (take 10 b)"
  using assms wire_frame_link_frame [of False False SEC_ACK "IsMaster (config ctx)" dest "LocalAddr (config ctx)"]
  by (intro exI [of _ "frame_bytes (frame_header 0 (IsMaster (config ctx)) False False SEC_ACK dest
        (LocalAddr (config ctx))) [] @ drop 10 (secTxBuffer ctx)"])
    (simp add: QueueAck_def FormatAck_def FormatHeader_buffer)

lemma QueueLinkStatus_ok:
  assumes "length (secTxBuffer ctx) = 10"
  shows "\<exists>b. QueueLinkStatus dest ctx = Some (QueueTransmit (SecSlice 10) False (ctx\<lparr>secTxBuffer := b\<rparr>)) \<and>
    length b = 10 \<and> wire_frame (take 10 b)"
  using assms wire_frame_link_frame [of False False SEC_LINK_STATUS "IsMaster (config ctx)" dest "LocalAddr (config ctx)"]
  by (intro exI [of _ "frame_bytes (frame_header 0 (IsMaster (config ctx)) False False SEC_LINK_STATUS dest
        (LocalAddr (config ctx))) [] @ drop 10 (secTxBuffer ctx)"])
    (simp add: QueueLinkStatus_def FormatLinkStatus_def FormatHeader_buffer)

lemma QueueResetLinks_ok:
  assumes "length (priTxBuffer ctx) = 292"
  shows "\<exists>b. QueueResetLinks dest ctx = Some (QueueTransmit (PriSlice 10) True (ctx\<lparr>priTxBuffer := b\<rparr>)) \<and>
    length b = 292 \<and> wire_frame (take 10 b)"
  using assms wire_frame_link_frame [of False False PRI_RESET_LINK_STATES "IsMaster (config ctx)" dest "LocalAddr (config ctx)"]
  by (intro exI [of _ "frame_bytes (frame_header 0 (IsMaster (config ctx)) False False PRI_RESET_LINK_STATES dest
        (LocalAddr (config ctx))) [] @ drop 10 (priTxBuffer ctx)"])
    (simp add: QueueResetLinks_def FormatResetLinkStates_def FormatHeader_buffer)

lemma QueueRequestLinkStatus_ok:
  assumes "length (priTxBuffer ctx) = 292"
  shows "\<exists>b. QueueRequestLinkStatus dest ctx =
      Some (QueueTransmit (PriSlice 10) True (ctx\<lparr>priTxBuffer := b\<rparr>)) \<and>
    length b = 292 \<and> wire_frame (take 10 b)"
  using assms wire_frame_link_frame [of False False PRI_REQUEST_LINK_STATUS "IsMaster (config ctx)" dest "LocalAddr (config ctx)"]
  by (intro exI [of _ "frame_bytes (frame_header 0 (IsMaster (config ctx)) False False PRI_REQUEST_LINK_STATUS dest
        (LocalAddr (config ctx))) [] @ drop 10 (priTxBuffer ctx)"])
    (simp add: QueueRequestLinkStatus_def FormatRequestLinkStatus_def FormatHeader_buffer)


section \<open>The invariant\<close>

definition pri_transmit_wait :: "PriState \<Rightarrow> bool" where
  "pri_transmit_wait p \<longleftrightarrow> p \<in> {PLLS_SendUnconfirmedTransmitWait, PLLS_LinkResetTransmitWait,
     PLLS_ConfUserDataTransmitWait, PLLS_RequestLinkStatusTransmitWait}"

definition pri_response_wait :: "PriState \<Rightarrow> bool" where
  "pri_response_wait p \<longleftrightarrow> p \<in> {PLLS_ResetLinkWait, PLLS_ConfDataWait, PLLS_RequestLinkStatusWait}"

definition pri_has_segment :: "PriState \<Rightarrow> bool" where
  "pri_has_segment p \<longleftrightarrow> p \<in> {PLLS_SendUnconfirmedTransmitWait, PLLS_LinkResetTransmitWait,
     PLLS_ConfUserDataTransmitWait, PLLS_ResetLinkWait, PLLS_ConfDataWait}"

definition sec_transmit_wait :: "SecState \<Rightarrow> bool" where
  "sec_transmit_wait q \<longleftrightarrow> q \<in> {SLLS_TransmitWaitReset, SLLS_TransmitWaitNotReset}"

lemmas state_kinds =
  pri_transmit_wait_def pri_response_wait_def pri_has_segment_def sec_transmit_wait_def

definition pri_pending_ok :: "'s LinkContext \<Rightarrow> bool" where
  "pri_pending_ok ctx \<longleftrightarrow> (\<forall>x. pendingPriTx ctx = Some x \<longrightarrow>
     txMode ctx = TxSecondary \<and> (\<exists>n. x = PriSlice n \<and> wire_frame (take n (priTxBuffer ctx))))"

definition sec_pending_ok :: "'s LinkContext \<Rightarrow> bool" where
  "sec_pending_ok ctx \<longleftrightarrow> (\<forall>x. pendingSecTx ctx = Some x \<longrightarrow>
     txMode ctx = TxPrimary \<and> (\<exists>n. x = SecSlice n \<and> wire_frame (take n (secTxBuffer ctx))))"

definition trace_ok :: "link_action list \<Rightarrow> bool" where
  "trace_ok t \<longleftrightarrow> (\<forall>bs. BeginTransmit bs \<in> set t \<longrightarrow> wire_frame bs)"

text \<open>
  The invariant for a primary state \<open>p\<close> and a secondary state \<open>q\<close>: a station is in a
  transmit-wait state exactly when its frame is in flight or pending, pending frames are well
  formed and belong to the right buffer, the response timer runs exactly in the response-wait
  states, a segment is present where it will be dereferenced, and everything is at rest when
  the layer is offline.
\<close>

definition link_inv_at ::
    "('s \<Rightarrow> bool) \<Rightarrow> PriState \<Rightarrow> SecState \<Rightarrow> 's LinkContext \<Rightarrow> bool" where
  "link_inv_at seg_inv p q ctx \<longleftrightarrow>
     length (priTxBuffer ctx) = 292 \<and> length (secTxBuffer ctx) = 10 \<and>
     (pri_transmit_wait p \<longleftrightarrow> txMode ctx = TxPrimary \<or> pendingPriTx ctx \<noteq> None) \<and>
     (sec_transmit_wait q \<longleftrightarrow> txMode ctx = TxSecondary \<or> pendingSecTx ctx \<noteq> None) \<and>
     pri_pending_ok ctx \<and> sec_pending_ok ctx \<and>
     (pri_has_segment p \<longrightarrow> pSegments ctx \<noteq> None) \<and>
     (\<forall>s. pSegments ctx = Some s \<longrightarrow> seg_inv s) \<and>
     (rspTimeoutTimer ctx \<noteq> None \<longleftrightarrow> pri_response_wait p) \<and>
     (keepAliveTimer ctx \<noteq> None \<longleftrightarrow> isOnline ctx) \<and>
     (\<not> isOnline ctx \<longrightarrow> p = PLLS_Idle \<and> q = SLLS_NotReset \<and> pSegments ctx = None \<and>
        \<not> keepAliveTimeout ctx \<and> \<not> isRemoteReset ctx) \<and>
     numRetryRemaining ctx \<le> NumRetry (config ctx) \<and> trace_ok (lc_trace ctx)"

definition link_core :: "('s \<Rightarrow> bool) \<Rightarrow> 's LinkContext \<Rightarrow> bool" where
  "link_core seg_inv ctx \<longleftrightarrow> link_inv_at seg_inv (pPriState ctx) (pSecState ctx) ctx"

text \<open>Between events the primary station is never idle while it has something to send.\<close>

definition link_inv :: "('s \<Rightarrow> bool) \<Rightarrow> 's LinkContext \<Rightarrow> bool" where
  "link_inv seg_inv ctx \<longleftrightarrow> link_core seg_inv ctx \<and>
     (pPriState ctx = PLLS_Idle \<longrightarrow> pSegments ctx = None \<and> \<not> keepAliveTimeout ctx)"

lemma link_inv_init:
  "length pri = 292 \<Longrightarrow> length sec = 10 \<Longrightarrow> link_inv seg_inv (LinkContext_init cfg now pri sec)"
  by (simp add: link_inv_def link_core_def link_inv_at_def LinkContext_init_def state_kinds
      pri_pending_ok_def sec_pending_ok_def trace_ok_def)


section \<open>Effect of the helpers on the invariant\<close>

lemma trace_ok_simps [simp]:
  "trace_ok []"
  "trace_ok (a # t) \<longleftrightarrow> (\<forall>bs. a = BeginTransmit bs \<longrightarrow> wire_frame bs) \<and> trace_ok t"
  "trace_ok (t @ u) \<longleftrightarrow> trace_ok t \<and> trace_ok u"
  by (auto simp: trace_ok_def)

lemma set_states_inv [simp]:
  "link_inv_at I p q (ctx\<lparr>pPriState := x\<rparr>) = link_inv_at I p q ctx"
  "link_inv_at I p q (ctx\<lparr>pSecState := y\<rparr>) = link_inv_at I p q ctx"
  by (simp_all add: link_inv_at_def pri_pending_ok_def sec_pending_ok_def)

lemma bookkeeping_inv [simp]:
  "link_inv_at I p q (ctx\<lparr>link_statistics := st\<rparr>) = link_inv_at I p q ctx"
  "link_inv_at I p q (ctx\<lparr>lastMessageTimestamp := t\<rparr>) = link_inv_at I p q ctx"
  "link_inv_at I p q (ctx\<lparr>executor_time := t\<rparr>) = link_inv_at I p q ctx"
  "link_inv_at I p q (ctx\<lparr>nextReadFCB := b\<rparr>) = link_inv_at I p q ctx"
  "link_inv_at I p q (ctx\<lparr>nextWriteFCB := b\<rparr>) = link_inv_at I p q ctx"
  by (simp_all add: link_inv_at_def pri_pending_ok_def sec_pending_ok_def)

lemma helper_inv [simp]:
  "link_inv_at I p q (ResetReadFCB ctx) = link_inv_at I p q ctx"
  "link_inv_at I p q (ResetWriteFCB ctx) = link_inv_at I p q ctx"
  "link_inv_at I p q (ToggleReadFCB ctx) = link_inv_at I p q ctx"
  "link_inv_at I p q (ToggleWriteFCB ctx) = link_inv_at I p q ctx"
  "link_inv_at I p q (unexpected_frame ctx) = link_inv_at I p q ctx"
  by (simp_all add: ResetReadFCB_def ResetWriteFCB_def ToggleReadFCB_def ToggleWriteFCB_def unexpected_frame_def)

lemma emit_inv [simp]:
  "(\<And>bs. a \<noteq> BeginTransmit bs) \<Longrightarrow> link_inv_at I p q (emit a ctx) = link_inv_at I p q ctx"
  by (simp add: link_inv_at_def emit_def pri_pending_ok_def sec_pending_ok_def)

lemma keepalive_inv [simp]:
  "link_inv_at I p q (PushDataUp a d ctx) = link_inv_at I p q ctx"
  "link_inv_at I p q (FailKeepAlive b ctx) = link_inv_at I p q ctx"
  "link_inv_at I p q (CompleteKeepAlive ctx) = link_inv_at I p q ctx"
  by (simp_all add: PushDataUp_def FailKeepAlive_def CompleteKeepAlive_def)

lemma retry_count_inv:
  "link_inv_at I p q ctx \<Longrightarrow> n \<le> NumRetry (config ctx) \<Longrightarrow>
   link_inv_at I p q (ctx\<lparr>numRetryRemaining := n\<rparr>)"
  by (simp add: link_inv_at_def pri_pending_ok_def sec_pending_ok_def)

lemma retry_inv: "link_inv_at I p q ctx \<Longrightarrow> link_inv_at I p q (ResetRetry ctx)"
  "link_inv_at I p q ctx \<Longrightarrow> link_inv_at I p q (snd (Retry ctx))"
proof -
  assume inv: "link_inv_at I p q ctx"
  then have "numRetryRemaining ctx \<le> NumRetry (config ctx)"
    by (simp add: link_inv_at_def)
  with inv show "link_inv_at I p q (ResetRetry ctx)" "link_inv_at I p q (snd (Retry ctx))"
    by (simp_all add: ResetRetry_def Retry_def retry_count_inv)
qed

lemma online_flags_inv:
  assumes "isOnline ctx"
  shows "link_inv_at I p q (ctx\<lparr>isRemoteReset := b\<rparr>) = link_inv_at I p q ctx"
    and "link_inv_at I p q (ctx\<lparr>keepAliveTimeout := b\<rparr>) = link_inv_at I p q ctx"
  using assms by (simp_all add: link_inv_at_def pri_pending_ok_def sec_pending_ok_def)

text \<open>Leaving a wait state: with its timer stopped the primary station is free to transmit.\<close>

lemma release_inv:
  assumes "link_inv_at I p q ctx" and "\<not> pri_transmit_wait p"
  shows "link_inv_at I PLLS_Idle q (CancelTimer ctx)"
    and "link_inv_at I PLLS_Idle q (ctx\<lparr>rspTimeoutTimer := None\<rparr>)"
  using assms
  by (auto simp: link_inv_at_def CancelTimer_def state_kinds pri_pending_ok_def sec_pending_ok_def)

lemma complete_inv:
  assumes "link_inv_at I PLLS_Idle q ctx"
  shows "link_inv_at I PLLS_Idle q (CompleteSendOperation ctx)"
    and "link_inv_at I PLLS_Idle q (CompleteSendOperation (ctx\<lparr>pSegments := so\<rparr>))"
  using assms
  by (simp_all add: CompleteSendOperation_def release_segments_def link_inv_at_def state_kinds emit_def
      pri_pending_ok_def sec_pending_ok_def)

lemma segment_inv:
  "link_inv_at I p q ctx \<Longrightarrow> isOnline ctx \<Longrightarrow> I s \<Longrightarrow> link_inv_at I p q (ctx\<lparr>pSegments := Some s\<rparr>)"
  by (simp add: link_inv_at_def pri_pending_ok_def sec_pending_ok_def)

lemma start_timer_inv:
  assumes "link_inv_at I PLLS_Idle q ctx" and "isOnline ctx" and "pri_response_wait p"
    and "pri_has_segment p \<longrightarrow> pSegments ctx \<noteq> None"
  shows "link_inv_at I p q (StartResponseTimer ctx)"
  using assms
  by (auto simp: StartResponseTimer_def link_inv_at_def state_kinds pri_pending_ok_def sec_pending_ok_def)

lemma queue_pri_inv:
  assumes "link_inv_at I PLLS_Idle q ctx" and "isOnline ctx" and "length b = 292"
    and "wire_frame (take n b)" and "pri_transmit_wait p" and "pri_has_segment p \<longrightarrow> pSegments ctx \<noteq> None"
  shows "link_inv_at I p q (QueueTransmit (PriSlice n) True (ctx\<lparr>priTxBuffer := b\<rparr>))"
  using assms
  by (cases "txMode ctx")
    (auto simp: QueueTransmit_def link_inv_at_def state_kinds emit_def slice_bytes_def
      pri_pending_ok_def sec_pending_ok_def)

lemma queue_pri_segment_inv:
  assumes "link_inv_at I PLLS_Idle q ctx" and "isOnline ctx" and "length b = 292"
    and "wire_frame (take n b)" and "pri_transmit_wait p" and "I s"
  shows "link_inv_at I p q (QueueTransmit (PriSlice n) True (ctx\<lparr>priTxBuffer := b, pSegments := Some s\<rparr>))"
  using assms
  by (cases "txMode ctx")
    (auto simp: QueueTransmit_def link_inv_at_def state_kinds emit_def slice_bytes_def
      pri_pending_ok_def sec_pending_ok_def)

lemma queue_sec_inv:
  assumes "link_inv_at I p q ctx" and "isOnline ctx" and "length b = 10"
    and "wire_frame (take n b)" and "\<not> sec_transmit_wait q" and "sec_transmit_wait q'"
  shows "link_inv_at I p q' (QueueTransmit (SecSlice n) False (ctx\<lparr>secTxBuffer := b\<rparr>))"
  using assms
  by (cases "txMode ctx")
    (auto simp: QueueTransmit_def link_inv_at_def state_kinds emit_def slice_bytes_def
      pri_pending_ok_def sec_pending_ok_def)

text \<open>Completion of a transmission hands the line to a pending frame of the other station.\<close>

lemma tx_done_pri_inv:
  assumes "link_inv_at I p q ctx" and "txMode ctx = TxPrimary"
  shows "link_inv_at I PLLS_Idle q (snd (TryPendingPriTx (snd (TryPendingSecTx (ctx\<lparr>txMode := TxIdle\<rparr>)))))"
proof -
  have "pendingPriTx ctx = None" "\<not> pri_response_wait p" "isOnline ctx"
    using assms
    by (auto simp: link_inv_at_def pri_pending_ok_def pri_transmit_wait_def pri_response_wait_def)
  with assms show ?thesis
    by (cases "pendingSecTx ctx")
      (auto simp: TryPendingPriTx_def TryPendingSecTx_def link_inv_at_def emit_def slice_bytes_def
        pri_pending_ok_def sec_pending_ok_def pri_has_segment_def pri_transmit_wait_def pri_response_wait_def)
qed

lemma tx_done_sec_inv:
  assumes "link_inv_at I p q ctx" and "txMode ctx = TxSecondary" and "\<not> sec_transmit_wait q'"
  shows "link_inv_at I p q' (snd (TryPendingPriTx (snd (TryPendingSecTx (ctx\<lparr>txMode := TxIdle\<rparr>)))))"
proof -
  have "pendingSecTx ctx = None" "isOnline ctx"
    using assms by (auto simp: link_inv_at_def sec_pending_ok_def sec_transmit_wait_def)
  with assms show ?thesis
    by (cases "pendingPriTx ctx")
      (auto simp: TryPendingPriTx_def TryPendingSecTx_def link_inv_at_def emit_def slice_bytes_def
        pri_pending_ok_def sec_pending_ok_def)
qed


section \<open>The handlers preserve the invariant\<close>

text \<open>What no handler of a station changes.\<close>

definition same_session :: "'s LinkContext \<Rightarrow> 's LinkContext \<Rightarrow> bool" where
  "same_session ctx ctx' \<longleftrightarrow> isOnline ctx' = isOnline ctx \<and> config ctx' = config ctx"

lemma same_session_refl [simp]: "same_session ctx ctx"
  by (simp add: same_session_def)

lemma same_session_trans: "same_session a b \<Longrightarrow> same_session b c \<Longrightarrow> same_session a c"
  by (simp add: same_session_def)

lemma same_session_helpers [simp]:
  "same_session ctx (emit a ctx') = same_session ctx ctx'"
  "same_session ctx (QueueTransmit x b ctx') = same_session ctx ctx'"
  "same_session ctx (CompleteSendOperation ctx') = same_session ctx ctx'"
  "same_session ctx (CancelTimer ctx') = same_session ctx ctx'"
  "same_session ctx (StartResponseTimer ctx') = same_session ctx ctx'"
  "same_session ctx (ResetRetry ctx') = same_session ctx ctx'"
  "same_session ctx (snd (Retry ctx')) = same_session ctx ctx'"
  "same_session ctx (ResetReadFCB ctx') = same_session ctx ctx'"
  "same_session ctx (ResetWriteFCB ctx') = same_session ctx ctx'"
  "same_session ctx (ToggleReadFCB ctx') = same_session ctx ctx'"
  "same_session ctx (ToggleWriteFCB ctx') = same_session ctx ctx'"
  "same_session ctx (unexpected_frame ctx') = same_session ctx ctx'"
  "same_session ctx (FailKeepAlive t ctx') = same_session ctx ctx'"
  "same_session ctx (CompleteKeepAlive ctx') = same_session ctx ctx'"
  "same_session ctx (PushDataUp a' d ctx') = same_session ctx ctx'"
  "same_session ctx (snd (TryPendingPriTx ctx')) = same_session ctx ctx'"
  "same_session ctx (snd (TryPendingSecTx ctx')) = same_session ctx ctx'"
  by (auto simp: same_session_def emit_def QueueTransmit_def CompleteSendOperation_def release_segments_def CancelTimer_def
      StartResponseTimer_def ResetRetry_def Retry_def ResetReadFCB_def ResetWriteFCB_def ToggleReadFCB_def
      ToggleWriteFCB_def unexpected_frame_def FailKeepAlive_def CompleteKeepAlive_def PushDataUp_def
      TryPendingPriTx_def TryPendingSecTx_def split: option.splits)

lemma same_session_updates [simp]:
  "same_session ctx (ctx'\<lparr>priTxBuffer := b\<rparr>) = same_session ctx ctx'"
  "same_session ctx (ctx'\<lparr>secTxBuffer := b\<rparr>) = same_session ctx ctx'"
  "same_session ctx (ctx'\<lparr>pSegments := so\<rparr>) = same_session ctx ctx'"
  "same_session ctx (ctx'\<lparr>isRemoteReset := f\<rparr>) = same_session ctx ctx'"
  "same_session ctx (ctx'\<lparr>keepAliveTimeout := f\<rparr>) = same_session ctx ctx'"
  "same_session ctx (ctx'\<lparr>txMode := m\<rparr>) = same_session ctx ctx'"
  "same_session ctx (ctx'\<lparr>pPriState := p\<rparr>) = same_session ctx ctx'"
  "same_session ctx (ctx'\<lparr>pSecState := q\<rparr>) = same_session ctx ctx'"
  "same_session ctx (ctx'\<lparr>link_statistics := st\<rparr>) = same_session ctx ctx'"
  "same_session ctx (ctx'\<lparr>lastMessageTimestamp := t\<rparr>) = same_session ctx ctx'"
  by (simp_all add: same_session_def)

lemma same_session_left [simp]:
  "same_session (ctx\<lparr>keepAliveTimeout := f\<rparr>) ctx' = same_session ctx ctx'"
  "same_session (ctx\<lparr>isRemoteReset := f\<rparr>) ctx' = same_session ctx ctx'"
  "same_session (ctx\<lparr>lastMessageTimestamp := t\<rparr>) ctx' = same_session ctx ctx'"
  "same_session (emit a ctx) ctx' = same_session ctx ctx'"
  "same_session (CancelTimer ctx) ctx' = same_session ctx ctx'"
  "same_session (ResetRetry ctx) ctx' = same_session ctx ctx'"
  "same_session (snd (Retry ctx)) ctx' = same_session ctx ctx'"
  "same_session (ResetWriteFCB ctx) ctx' = same_session ctx ctx'"
  "same_session (ToggleWriteFCB ctx) ctx' = same_session ctx ctx'"
  by (simp_all add: same_session_def emit_def CancelTimer_def ResetRetry_def Retry_def ResetWriteFCB_def
      ToggleWriteFCB_def)

lemma isOnline_helpers [simp]:
  "isOnline (emit a ctx) = isOnline ctx" "isOnline (QueueTransmit x b ctx) = isOnline ctx"
  "isOnline (CancelTimer ctx) = isOnline ctx" "isOnline (ResetRetry ctx) = isOnline ctx"
  "isOnline (snd (Retry ctx)) = isOnline ctx" "isOnline (ToggleWriteFCB ctx) = isOnline ctx"
  "isOnline (ResetWriteFCB ctx) = isOnline ctx"
  "isOnline (snd (TryPendingPriTx ctx)) = isOnline ctx" "isOnline (snd (TryPendingSecTx ctx)) = isOnline ctx"
  by (simp_all add: emit_def QueueTransmit_def CancelTimer_def ResetRetry_def Retry_def ToggleWriteFCB_def
      ResetWriteFCB_def TryPendingPriTx_def TryPendingSecTx_def split: option.splits)

lemma pSegments_helpers [simp]:
  "pSegments (emit a ctx) = pSegments ctx" "pSegments (QueueTransmit x b ctx) = pSegments ctx"
  "pSegments (CancelTimer ctx) = pSegments ctx" "pSegments (ResetRetry ctx) = pSegments ctx"
  "pSegments (snd (Retry ctx)) = pSegments ctx" "pSegments (ToggleWriteFCB ctx) = pSegments ctx"
  "pSegments (ResetWriteFCB ctx) = pSegments ctx"
  "pSegments (snd (TryPendingPriTx ctx)) = pSegments ctx" "pSegments (snd (TryPendingSecTx ctx)) = pSegments ctx"
  by (simp_all add: emit_def QueueTransmit_def CancelTimer_def ResetRetry_def Retry_def ToggleWriteFCB_def
      ResetWriteFCB_def TryPendingPriTx_def TryPendingSecTx_def split: option.splits)

lemma pPriState_helpers [simp]:
  "pPriState (emit a ctx) = pPriState ctx" "keepAliveTimeout (emit a ctx) = keepAliveTimeout ctx"
  "pPriState (CancelTimer ctx) = pPriState ctx"
  "pPriState (snd (TryPendingPriTx ctx)) = pPriState ctx" "pPriState (snd (TryPendingSecTx ctx)) = pPriState ctx"
  by (simp_all add: emit_def CancelTimer_def TryPendingPriTx_def TryPendingSecTx_def split: option.splits)

lemma pSecState_helpers [simp]:
  "pSecState (emit a ctx) = pSecState ctx" "pSecState (QueueTransmit x b ctx) = pSecState ctx"
  "pSecState (CompleteSendOperation ctx) = pSecState ctx" "pSecState (CancelTimer ctx) = pSecState ctx"
  "pSecState (StartResponseTimer ctx) = pSecState ctx" "pSecState (ResetRetry ctx) = pSecState ctx"
  "pSecState (snd (Retry ctx)) = pSecState ctx" "pSecState (ToggleWriteFCB ctx) = pSecState ctx"
  "pSecState (ResetWriteFCB ctx) = pSecState ctx" "pSecState (unexpected_frame ctx) = pSecState ctx"
  "pSecState (FailKeepAlive t ctx) = pSecState ctx" "pSecState (CompleteKeepAlive ctx) = pSecState ctx"
  "pSecState (snd (TryPendingPriTx ctx)) = pSecState ctx" "pSecState (snd (TryPendingSecTx ctx)) = pSecState ctx"
  by (simp_all add: emit_def QueueTransmit_def CompleteSendOperation_def release_segments_def CancelTimer_def StartResponseTimer_def
      ResetRetry_def Retry_def ToggleWriteFCB_def ResetWriteFCB_def unexpected_frame_def FailKeepAlive_def
      CompleteKeepAlive_def TryPendingPriTx_def TryPendingSecTx_def split: option.splits)

lemma inv_buffers: "link_inv_at I p q ctx \<Longrightarrow> length (priTxBuffer ctx) = 292 \<and> length (secTxBuffer ctx) = 10"
  by (simp add: link_inv_at_def)

lemma inv_segment:
  "link_inv_at I p q ctx \<Longrightarrow> pri_has_segment p \<Longrightarrow> \<exists>s. pSegments ctx = Some s \<and> I s"
  by (auto simp: link_inv_at_def)

lemma inv_online: "link_inv_at I p q ctx \<Longrightarrow> p \<noteq> PLLS_Idle \<or> q \<noteq> SLLS_NotReset \<Longrightarrow> isOnline ctx"
  by (auto simp: link_inv_at_def)

definition pri_result_ok :: "('s \<Rightarrow> bool) \<Rightarrow> SecState \<Rightarrow> 's LinkContext \<Rightarrow> 's pri_result \<Rightarrow> bool" where
  "pri_result_ok I q ctx r \<longleftrightarrow> (\<exists>p ctx'. r = Some (p, ctx') \<and> link_inv_at I p q ctx' \<and>
     same_session ctx ctx' \<and> pSecState ctx' = pSecState ctx)"

lemma QueueResetLinks_inv:
  assumes "link_inv_at I PLLS_Idle q ctx" and "isOnline ctx" and "pSegments ctx \<noteq> None"
  shows "\<exists>ctx'. QueueResetLinks dest ctx = Some ctx' \<and> link_inv_at I PLLS_LinkResetTransmitWait q ctx' \<and>
    same_session ctx ctx' \<and> pSecState ctx' = pSecState ctx"
  using QueueResetLinks_ok [of ctx dest] inv_buffers [OF assms(1)] assms
  by (auto simp: state_kinds intro!: queue_pri_inv)

lemma QueueRequestLinkStatus_inv:
  assumes "link_inv_at I PLLS_Idle q ctx" and "isOnline ctx"
  shows "\<exists>ctx'. QueueRequestLinkStatus dest ctx = Some ctx' \<and>
    link_inv_at I PLLS_RequestLinkStatusTransmitWait q ctx' \<and>
    same_session ctx ctx' \<and> pSecState ctx' = pSecState ctx"
  using QueueRequestLinkStatus_ok [of ctx dest] inv_buffers [OF assms(1)] assms
  by (auto simp: state_kinds intro!: queue_pri_inv)

lemma TrySendRequestLinkStatus_inv:
  assumes "link_inv_at I (pPriState ctx) q ctx" and "isOnline ctx"
  shows "pri_result_ok I q ctx (TrySendRequestLinkStatus ctx)"
proof (cases "pPriState ctx = PLLS_Idle")
  case True
  have "link_inv_at I PLLS_Idle q (ctx\<lparr>keepAliveTimeout := False\<rparr>)"
    using assms True by (simp add: online_flags_inv)
  from QueueRequestLinkStatus_inv [OF this, of "RemoteAddr (config ctx)"] assms(2) True
  show ?thesis
    by (auto simp: TrySendRequestLinkStatus_def pri_result_ok_def)
next
  case False
  with assms show ?thesis
    by (cases "pPriState ctx") (auto simp: TrySendRequestLinkStatus_def pri_result_ok_def)
qed

lemma Pri_Failure_inv:
  assumes "link_inv_at I p q ctx" and "\<not> pri_transmit_wait p"
  shows "pri_result_ok I q ctx (Pri_Failure ctx)"
  using complete_inv [OF release_inv(1) [OF assms]]
  by (simp add: Pri_Failure_def pri_result_ok_def)

lemma Pri_OnLinkStatus_inv:
  assumes "link_inv_at I (pPriState ctx) q ctx"
  shows "pri_result_ok I q ctx (Pri_OnLinkStatus full ctx)"
    and "pri_result_ok I q ctx (Pri_OnNotSupported full ctx)"
  using assms Pri_Failure_inv [OF assms] release_inv(1) [OF assms]
  by (cases "pPriState ctx";
      simp add: Pri_OnLinkStatus_def Pri_OnNotSupported_def state_kinds; simp add: pri_result_ok_def)+

context transport_segment
begin

lemma SendConfirmedSegment_inv:
  assumes "link_inv_at seg_inv PLLS_Idle q ctx" and "isOnline ctx" and "seg_inv s"
  shows "\<exists>ctx'. SendConfirmedSegment ops s ctx = Some ctx' \<and>
    link_inv_at seg_inv PLLS_ConfUserDataTransmitWait q ctx' \<and> same_session ctx ctx' \<and>
    pSecState ctx' = pSecState ctx"
proof -
  obtain d s' where seg: "GetSegment ops s = Some (d, s')" "seg_inv s'" "0 < length d" "length d \<le> 250"
    using GetSegment_ok [OF assms(3)] by blast
  obtain n b where fmt: "FormatPrimaryBufferWithConfirmed (GetAddresses ops s) d (nextWriteFCB ctx) ctx =
      Some (PriSlice n, ctx\<lparr>priTxBuffer := b\<rparr>)" "length b = 292" "wire_frame (take n b)"
    using FormatPrimaryBufferWithConfirmed_ok [of ctx d] inv_buffers [OF assms(1)] seg by blast
  have "link_inv_at seg_inv PLLS_ConfUserDataTransmitWait q
      (QueueTransmit (PriSlice n) True (ctx\<lparr>priTxBuffer := b, pSegments := Some s'\<rparr>))"
    using assms fmt(2,3) seg(2) by (intro queue_pri_segment_inv) (simp_all add: state_kinds)
  with seg fmt show ?thesis
    by (simp add: SendConfirmedSegment_def)
qed

lemma SendUnconfirmedSegment_inv:
  assumes "link_inv_at seg_inv PLLS_Idle q ctx" and "isOnline ctx" and "seg_inv s"
  shows "\<exists>ctx'. SendUnconfirmedSegment ops s ctx = Some ctx' \<and>
    link_inv_at seg_inv PLLS_SendUnconfirmedTransmitWait q ctx' \<and> same_session ctx ctx' \<and>
    pSecState ctx' = pSecState ctx"
proof -
  obtain d s' where seg: "GetSegment ops s = Some (d, s')" "seg_inv s'" "0 < length d" "length d \<le> 250"
    using GetSegment_ok [OF assms(3)] by blast
  obtain n b where fmt: "FormatPrimaryBufferWithUnconfirmed (GetAddresses ops s) d ctx =
      Some (PriSlice n, ctx\<lparr>priTxBuffer := b\<rparr>)" "length b = 292" "wire_frame (take n b)"
    using FormatPrimaryBufferWithUnconfirmed_ok [of ctx d] inv_buffers [OF assms(1)] seg by blast
  have "link_inv_at seg_inv PLLS_SendUnconfirmedTransmitWait q
      (QueueTransmit (PriSlice n) True (ctx\<lparr>priTxBuffer := b, pSegments := Some s'\<rparr>))"
    using assms fmt(2,3) seg(2) by (intro queue_pri_segment_inv) (simp_all add: state_kinds)
  with seg fmt show ?thesis
    by (simp add: SendUnconfirmedSegment_def)
qed

lemma TrySend_inv:
  assumes inv: "link_inv_at seg_inv (pPriState ctx) q ctx" and "isOnline ctx"
    and s: "pSegments ctx = Some s" "seg_inv s"
  shows "pri_result_ok seg_inv q ctx (TrySendConfirmed ops s ctx)"
    and "pri_result_ok seg_inv q ctx (TrySendUnconfirmed ops s ctx)"
proof -
  show "pri_result_ok seg_inv q ctx (TrySendConfirmed ops s ctx)"
  proof (cases "pPriState ctx = PLLS_Idle")
    case True
    then have idle: "link_inv_at seg_inv PLLS_Idle q (ResetRetry ctx)"
      using inv by (simp add: retry_inv)
    show ?thesis
      using True assms SendConfirmedSegment_inv [OF idle _ s(2)]
        QueueResetLinks_inv [OF idle, of "addr_destination (GetAddresses ops s)"]
      by (auto simp: TrySendConfirmed_def pri_result_ok_def)
  qed (use inv in \<open>cases "pPriState ctx"; simp add: TrySendConfirmed_def pri_result_ok_def\<close>)
  show "pri_result_ok seg_inv q ctx (TrySendUnconfirmed ops s ctx)"
  proof (cases "pPriState ctx = PLLS_Idle")
    case True
    with assms SendUnconfirmedSegment_inv [of q ctx s] show ?thesis
      by (auto simp: TrySendUnconfirmed_def pri_result_ok_def)
  qed (use inv in \<open>cases "pPriState ctx"; simp add: TrySendUnconfirmed_def pri_result_ok_def\<close>)
qed

lemma Pri_OnAck_inv:
  assumes inv: "link_inv_at seg_inv (pPriState ctx) q ctx" and "isOnline ctx"
  shows "pri_result_ok seg_inv q ctx (Pri_OnAck ops full ctx)"
proof -
  consider (reset) "pPriState ctx = PLLS_ResetLinkWait" | (data) "pPriState ctx = PLLS_ConfDataWait"
    | (other) "pPriState ctx \<notin> {PLLS_ResetLinkWait, PLLS_ConfDataWait}" by blast
  then show ?thesis
  proof cases
    case reset
    define c where "c = CancelTimer (ResetWriteFCB (ctx\<lparr>isRemoteReset := True\<rparr>))"
    have "link_inv_at seg_inv PLLS_ResetLinkWait q (ResetWriteFCB (ctx\<lparr>isRemoteReset := True\<rparr>))"
      using inv reset assms(2) by (simp add: online_flags_inv)
    then have "link_inv_at seg_inv PLLS_Idle q c"
      unfolding c_def by (rule release_inv) (simp add: state_kinds)
    moreover obtain s where s: "pSegments ctx = Some s" "seg_inv s"
      using inv_segment [OF inv] reset by (auto simp: state_kinds)
    ultimately obtain c' where "SendConfirmedSegment ops s c = Some c'"
        "link_inv_at seg_inv PLLS_ConfUserDataTransmitWait q c'" "same_session c c'" "pSecState c' = pSecState c"
      using SendConfirmedSegment_inv [of q c s] assms(2) by (auto simp: c_def)
    with reset s show ?thesis
      by (auto simp: Pri_OnAck_def pri_result_ok_def c_def Let_def)
  next
    case data
    define c where "c = CancelTimer (ToggleWriteFCB ctx)"
    have "link_inv_at seg_inv PLLS_ConfDataWait q (ToggleWriteFCB ctx)"
      using inv data by simp
    then have c: "link_inv_at seg_inv PLLS_Idle q c"
      unfolding c_def by (rule release_inv) (simp add: state_kinds)
    obtain s where s: "pSegments ctx = Some s" "seg_inv s"
      using inv_segment [OF inv] data by (auto simp: state_kinds)
    obtain more s' where adv: "SegAdvance ops s = Some (more, s')" "more \<longrightarrow> seg_inv s'"
      using Advance_ok [OF s(2)] by blast
    show ?thesis
    proof (cases more)
      case True
      with c adv(2) obtain c' where "SendConfirmedSegment ops s' c = Some c'"
        "link_inv_at seg_inv PLLS_ConfUserDataTransmitWait q c'" "same_session c c'" "pSecState c' = pSecState c"
        using SendConfirmedSegment_inv [of q c s'] assms(2) by (auto simp: c_def)
      with data s adv(1) True show ?thesis
        by (auto simp: Pri_OnAck_def pri_result_ok_def c_def Let_def)
    next
      case False
      with data s adv(1) complete_inv [OF c] show ?thesis
        by (auto simp: Pri_OnAck_def pri_result_ok_def c_def Let_def)
    qed
  next
    case other
    with inv show ?thesis
      by (cases "pPriState ctx") (auto simp: Pri_OnAck_def pri_result_ok_def)
  qed
qed

lemma Pri_OnNack_inv:
  assumes inv: "link_inv_at seg_inv (pPriState ctx) q ctx" and "isOnline ctx"
  shows "pri_result_ok seg_inv q ctx (Pri_OnNack ops full ctx)"
proof (cases "pPriState ctx = PLLS_ConfDataWait")
  case True
  define c where "c = emit (OnStateChange UNRESET) ctx"
  have c: "link_inv_at seg_inv PLLS_ConfDataWait q c" "\<not> pri_transmit_wait PLLS_ConfDataWait"
    using inv True by (simp_all add: c_def state_kinds)
  have idle: "link_inv_at seg_inv PLLS_Idle q (CancelTimer (ResetRetry c))"
    using release_inv(1) [OF retry_inv(1) [OF c(1)] c(2)] .
  obtain s where "pSegments ctx = Some s"
    using inv_segment [OF inv] True by (auto simp: state_kinds)
  with True assms(2) Pri_Failure_inv [OF c]
    QueueResetLinks_inv [OF idle, of "addr_destination (GetAddresses ops s)"]
  show ?thesis
    by (auto simp: Pri_OnNack_def pri_result_ok_def c_def Let_def)
next
  case False
  with inv Pri_Failure_inv [OF inv] release_inv(1) [OF inv] show ?thesis
    by (cases "pPriState ctx"; simp add: Pri_OnNack_def state_kinds; simp add: pri_result_ok_def)
qed

text \<open>The timer that fired is inactive, so the station is already released when \<open>OnTimeout\<close> runs.\<close>

lemma Pri_OnTimeout_inv:
  assumes idle: "link_inv_at seg_inv PLLS_Idle q ctx" and on: "isOnline ctx"
    and wait: "pri_response_wait (pPriState ctx)"
    and seg: "pri_has_segment (pPriState ctx) \<longrightarrow> (\<exists>s. pSegments ctx = Some s \<and> seg_inv s)"
  shows "pri_result_ok seg_inv q ctx (Pri_OnTimeout ops ctx)"
proof -
  define c where "c = snd (Retry ctx)"
  have c: "link_inv_at seg_inv PLLS_Idle q c" "isOnline c" "pSegments c = pSegments ctx"
      "link_inv_at seg_inv PLLS_Idle q (emit (OnStateChange UNRESET) c)"
    using retry_inv(2) [OF idle] on by (simp_all add: c_def)
  have r: "Retry ctx = (fst (Retry ctx), c)"
    by (simp add: c_def)
  have sess: "same_session ctx c" "same_session c c' = same_session ctx c'" "pSecState c = pSecState ctx" for c'
    by (simp_all add: c_def)
  show ?thesis
  proof (cases "pPriState ctx = PLLS_RequestLinkStatusWait")
    case True
    with idle show ?thesis
      by (simp add: Pri_OnTimeout_def pri_result_ok_def)
  next
    case False
    with wait seg obtain s where s: "pSegments ctx = Some s" "seg_inv s"
      and p: "pPriState ctx = PLLS_ResetLinkWait \<or> pPriState ctx = PLLS_ConfDataWait"
      by (auto simp: state_kinds)
    show ?thesis
    proof (cases "fst (Retry ctx)")
      case True
      then have "Retry ctx = (True, c)" using r by simp
      with p s c sess SendConfirmedSegment_inv [OF c(1,2) s(2)]
        QueueResetLinks_inv [OF c(1,2), of "RemoteAddr (config c)"] show ?thesis
        by (auto simp: Pri_OnTimeout_def pri_result_ok_def)
    next
      case False
      then have "Retry ctx = (False, c)" using r by simp
      with p sess complete_inv(1) [OF c(1)] complete_inv(1) [OF c(4)] show ?thesis
        by (auto simp: Pri_OnTimeout_def pri_result_ok_def)
    qed
  qed
qed

lemma Pri_OnTxReady_inv:
  assumes idle: "link_inv_at seg_inv PLLS_Idle q ctx" and on: "isOnline ctx"
    and tw: "pri_transmit_wait (pPriState ctx)"
    and seg: "pri_has_segment (pPriState ctx) \<longrightarrow> (\<exists>s. pSegments ctx = Some s \<and> seg_inv s)"
  shows "pri_result_ok seg_inv q ctx (Pri_OnTxReady ops ctx)"
proof (cases "pPriState ctx = PLLS_SendUnconfirmedTransmitWait")
  case True
  then obtain s more s' where s: "pSegments ctx = Some s" "SegAdvance ops s = Some (more, s')"
      "more \<longrightarrow> seg_inv s'"
    using seg Advance_ok by (auto simp: state_kinds) metis
  with True show ?thesis
    using SendUnconfirmedSegment_inv [OF idle on, of s'] complete_inv [OF idle]
    by (cases more) (auto simp: Pri_OnTxReady_def pri_result_ok_def)
next
  case False
  with tw seg idle on show ?thesis
    by (cases "pPriState ctx"; simp add: Pri_OnTxReady_def pri_result_ok_def start_timer_inv state_kinds;
        auto intro!: start_timer_inv simp: state_kinds)
qed

end


section \<open>The secondary station preserves the invariant\<close>

definition sec_result_ok :: "('s \<Rightarrow> bool) \<Rightarrow> PriState \<Rightarrow> 's LinkContext \<Rightarrow> 's sec_result \<Rightarrow> bool" where
  "sec_result_ok I p ctx r \<longleftrightarrow> (\<exists>q ctx'. r = Some (q, ctx') \<and> link_inv_at I p q ctx' \<and>
     same_session ctx ctx' \<and> pPriState ctx' = pPriState ctx \<and> pSegments ctx' = pSegments ctx \<and>
     keepAliveTimeout ctx' = keepAliveTimeout ctx)"

lemma queue_frame_eq [simp]:
  "pPriState (QueueTransmit x b ctx) = pPriState ctx"
  "keepAliveTimeout (QueueTransmit x b ctx) = keepAliveTimeout ctx"
  by (simp_all add: QueueTransmit_def emit_def)

lemma QueueAck_inv:
  assumes "link_inv_at I p q ctx" and "isOnline ctx" and "\<not> sec_transmit_wait q"
  shows "\<exists>ctx'. QueueAck dest ctx = Some ctx' \<and> link_inv_at I p SLLS_TransmitWaitReset ctx' \<and>
    same_session ctx ctx' \<and> pPriState ctx' = pPriState ctx \<and> pSegments ctx' = pSegments ctx \<and>
    keepAliveTimeout ctx' = keepAliveTimeout ctx"
  using QueueAck_ok [of ctx dest] inv_buffers [OF assms(1)] assms
  by (auto simp: state_kinds intro!: queue_sec_inv)

lemma QueueLinkStatus_inv:
  assumes "link_inv_at I p q ctx" and "isOnline ctx" and "\<not> sec_transmit_wait q" and "sec_transmit_wait q'"
  shows "\<exists>ctx'. QueueLinkStatus dest ctx = Some ctx' \<and> link_inv_at I p q' ctx' \<and>
    same_session ctx ctx' \<and> pPriState ctx' = pPriState ctx \<and> pSegments ctx' = pSegments ctx \<and>
    keepAliveTimeout ctx' = keepAliveTimeout ctx"
  using QueueLinkStatus_ok [of ctx dest] inv_buffers [OF assms(1)] assms
  by (auto intro!: queue_sec_inv)

lemma sec_helpers_eq [simp]:
  "pPriState (ToggleReadFCB ctx) = pPriState ctx" "pSegments (ToggleReadFCB ctx) = pSegments ctx"
  "keepAliveTimeout (ToggleReadFCB ctx) = keepAliveTimeout ctx"
  "pPriState (ResetReadFCB ctx) = pPriState ctx" "pSegments (ResetReadFCB ctx) = pSegments ctx"
  "keepAliveTimeout (ResetReadFCB ctx) = keepAliveTimeout ctx"
  "pPriState (PushDataUp a d ctx) = pPriState ctx" "pSegments (PushDataUp a d ctx) = pSegments ctx"
  "keepAliveTimeout (PushDataUp a d ctx) = keepAliveTimeout ctx"
  "pPriState (unexpected_frame ctx) = pPriState ctx" "pSegments (unexpected_frame ctx) = pSegments ctx"
  "keepAliveTimeout (unexpected_frame ctx) = keepAliveTimeout ctx"
  by (simp_all add: ToggleReadFCB_def ResetReadFCB_def PushDataUp_def unexpected_frame_def emit_def)

lemma Sec_handlers_inv:
  assumes inv: "link_inv_at I p (pSecState ctx) ctx" and on: "isOnline ctx"
  shows "sec_result_ok I p ctx (Sec_OnTestLinkStatus src fcb ctx)"
    and "sec_result_ok I p ctx (Sec_OnResetLinkStates src ctx)"
    and "sec_result_ok I p ctx (Sec_OnRequestLinkStatus src ctx)"
    and "sec_result_ok I p ctx (Sec_OnConfirmedUserData src fcb addr d ctx)"
  using inv QueueAck_inv [OF inv on, of src] QueueLinkStatus_inv [OF inv on, of _ src]
  by (cases "pSecState ctx"; force simp: sec_result_ok_def state_kinds Sec_OnTestLinkStatus_def
      Sec_OnResetLinkStates_def Sec_OnRequestLinkStatus_def Sec_OnConfirmedUserData_def)+


section \<open>Every event preserves the invariant\<close>

lemma ex_bool [simp]: "\<exists>b. b" "\<exists>b. \<not> b"
  by blast+

lemma set_pri_inv:
  assumes "pri_result_ok I (pSecState ctx) ctx r"
  shows "\<exists>ctx'. set_pri r = Some ctx' \<and> link_core I ctx' \<and> same_session ctx ctx'"
  using assms by (auto simp: pri_result_ok_def set_pri_def link_core_def)

lemma set_sec_inv:
  assumes "sec_result_ok I (pPriState ctx) ctx r"
  shows "\<exists>ctx'. set_sec r = Some ctx' \<and> link_core I ctx' \<and> same_session ctx ctx'"
  using assms by (auto simp: sec_result_ok_def set_sec_def link_core_def)

lemma TrySend_not_idle:
  "TrySendRequestLinkStatus ctx = Some (p, ctx') \<Longrightarrow> p \<noteq> PLLS_Idle"
  "TrySendConfirmed ops s ctx = Some (p, ctx') \<Longrightarrow> p \<noteq> PLLS_Idle"
  "TrySendUnconfirmed ops s ctx = Some (p, ctx') \<Longrightarrow> p \<noteq> PLLS_Idle"
  by (auto simp: TrySendRequestLinkStatus_def TrySendConfirmed_def TrySendUnconfirmed_def bind_eq_Some_conv
      split: PriState.splits if_splits)

lemma link_core_offline:
  "link_core I ctx \<Longrightarrow> \<not> isOnline ctx \<Longrightarrow>
   pPriState ctx = PLLS_Idle \<and> pSecState ctx = SLLS_NotReset \<and> pSegments ctx = None \<and> \<not> keepAliveTimeout ctx"
  by (simp add: link_core_def link_inv_at_def)

lemma link_inv_core: "link_inv I ctx \<Longrightarrow> link_core I ctx"
  by (simp add: link_inv_def)

context transport_segment
begin

lemma TryStartTransmission_inv:
  assumes core: "link_core seg_inv ctx"
  shows "\<exists>ctx'. TryStartTransmission ops ctx = Some ctx' \<and> link_inv seg_inv ctx' \<and> same_session ctx ctx'"
proof (cases "isOnline ctx")
  case False
  with core link_core_offline [OF core] show ?thesis
    by (simp add: TryStartTransmission_def link_inv_def)
next
  case on: True
  obtain c where c: "(if keepAliveTimeout ctx then set_pri (TrySendRequestLinkStatus ctx) else Some ctx) = Some c"
      "link_core seg_inv c" "same_session ctx c" "pPriState c = PLLS_Idle \<longrightarrow> \<not> keepAliveTimeout c"
  proof (cases "keepAliveTimeout ctx")
    case True
    have "pri_result_ok seg_inv (pSecState ctx) ctx (TrySendRequestLinkStatus ctx)"
      using core on by (intro TrySendRequestLinkStatus_inv) (simp_all add: link_core_def)
    then obtain p c where "TrySendRequestLinkStatus ctx = Some (p, c)"
        "link_inv_at seg_inv p (pSecState c) c" "same_session ctx c"
      by (auto simp: pri_result_ok_def)
    with True show ?thesis
      using TrySend_not_idle(1) that [of "c\<lparr>pPriState := p\<rparr>"] by (auto simp: set_pri_def link_core_def)
  qed (use core that in simp)
  show ?thesis
  proof (cases "pSegments c")
    case None
    with c show ?thesis
      by (simp add: TryStartTransmission_def link_inv_def)
  next
    case (Some s)
    then have s: "seg_inv s" and inv: "link_inv_at seg_inv (pPriState c) (pSecState c) c" and on': "isOnline c"
      using c on by (auto simp: link_core_def link_inv_at_def same_session_def)
    define r where "r = (if UseConfirms (config c) then TrySendConfirmed ops s c else TrySendUnconfirmed ops s c)"
    have "pri_result_ok seg_inv (pSecState c) c r"
      using TrySend_inv [OF inv on' Some s] by (simp add: r_def)
    then obtain p d where d: "r = Some (p, d)" "link_inv_at seg_inv p (pSecState d) d" "same_session c d"
      by (auto simp: pri_result_ok_def)
    moreover have "p \<noteq> PLLS_Idle"
      using d(1) unfolding r_def by (auto split: if_splits dest: TrySend_not_idle)
    ultimately show ?thesis
      using c Some same_session_trans [OF c(3) d(3)]
      by (simp add: TryStartTransmission_def set_pri_def link_inv_def link_core_def flip: r_def)
  qed
qed

lemma LinkContext_OnTxReady_inv:
  assumes core: "link_core seg_inv ctx"
  shows "\<exists>b ctx'. LinkContext_OnTxReady ops ctx = Some (b, ctx') \<and> link_core seg_inv ctx' \<and>
    same_session ctx ctx' \<and> (\<not> b \<longrightarrow> ctx' = ctx)"
proof (cases "txMode ctx")
  case TxIdle
  with core show ?thesis
    by (intro exI [of _ False] exI [of _ ctx]) (simp add: LinkContext_OnTxReady_def)
next
  case TxPrimary
  define c where "c = snd (TryPendingPriTx (snd (TryPendingSecTx (ctx\<lparr>txMode := TxIdle\<rparr>))))"
  have inv: "link_inv_at seg_inv (pPriState ctx) (pSecState ctx) ctx"
    using core by (simp add: link_core_def)
  then have tw: "pri_transmit_wait (pPriState ctx)"
    using TxPrimary by (simp add: link_inv_at_def)
  then have on: "isOnline ctx"
    using inv_online [OF inv] by (auto simp: state_kinds)
  have idle: "link_inv_at seg_inv PLLS_Idle (pSecState c) c"
    using tx_done_pri_inv [OF inv TxPrimary] by (simp add: c_def)
  have "pri_has_segment (pPriState c) \<longrightarrow> (\<exists>s. pSegments c = Some s \<and> seg_inv s)"
    using inv_segment [OF inv] by (simp add: c_def)
  then have "pri_result_ok seg_inv (pSecState c) c (Pri_OnTxReady ops c)"
    using on tw by (intro Pri_OnTxReady_inv [OF idle]) (simp_all add: c_def)
  from set_pri_inv [OF this] obtain d where "set_pri (Pri_OnTxReady ops c) = Some d" "link_core seg_inv d"
      "same_session c d" by blast
  moreover have "same_session ctx c" by (simp add: c_def)
  ultimately show ?thesis
    using TxPrimary same_session_trans by (auto simp: LinkContext_OnTxReady_def Let_def simp flip: c_def)
next
  case TxSecondary
  define c where "c = snd (TryPendingPriTx (snd (TryPendingSecTx (ctx\<lparr>txMode := TxIdle\<rparr>))))"
  have inv: "link_inv_at seg_inv (pPriState ctx) (pSecState ctx) ctx"
    using core by (simp add: link_core_def)
  then have tw: "sec_transmit_wait (pSecState ctx)"
    using TxSecondary by (simp add: link_inv_at_def)
  have "link_inv_at seg_inv (pPriState c) q c" if "\<not> sec_transmit_wait q" for q
    using tx_done_sec_inv [OF inv TxSecondary that] by (simp add: c_def)
  then have "sec_result_ok seg_inv (pPriState c) c (Sec_OnTxReady c)"
    using tw by (cases "pSecState ctx") (simp_all add: Sec_OnTxReady_def sec_result_ok_def c_def state_kinds)
  from set_sec_inv [OF this] obtain d where "set_sec (Sec_OnTxReady c) = Some d" "link_core seg_inv d"
      "same_session c d" by blast
  moreover have "same_session ctx c" by (simp add: c_def)
  ultimately show ?thesis
    using TxSecondary same_session_trans by (auto simp: LinkContext_OnTxReady_def Let_def simp flip: c_def)
qed

lemma dispatch_frame_inv:
  assumes core: "link_core seg_inv c" and on: "isOnline c"
  shows "\<exists>ctx'. dispatch_frame ops h d c = Some ctx' \<and> link_core seg_inv ctx' \<and> same_session c ctx'"
proof -
  have inv: "link_inv_at seg_inv (pPriState c) (pSecState c) c"
    using core by (simp add: link_core_def)
  have "link_core seg_inv (PushDataUp (ToAddresses h) d c)"
    using inv by (simp add: link_core_def PushDataUp_def)
  with core show ?thesis
    using Pri_OnAck_inv [OF inv on, THEN set_pri_inv] Pri_OnNack_inv [OF inv on, THEN set_pri_inv]
      Pri_OnLinkStatus_inv [OF inv, THEN set_pri_inv] Sec_handlers_inv [OF inv on, THEN set_sec_inv]
    by (cases "lf_func h") (simp_all add: dispatch_frame_def)
qed

lemma LinkContext_OnFrame_inv:
  assumes core: "link_core seg_inv ctx"
  shows "\<exists>b ctx'. LinkContext_OnFrame ops h d ctx = Some (b, ctx') \<and> link_core seg_inv ctx' \<and>
    same_session ctx ctx' \<and>
    (\<not> b \<longrightarrow> pPriState ctx' = pPriState ctx \<and> pSegments ctx' = pSegments ctx \<and>
       keepAliveTimeout ctx' = keepAliveTimeout ctx)"
proof (cases "isOnline ctx \<and> lf_isFromMaster h \<noteq> IsMaster (config ctx) \<and> lf_dest h = LocalAddr (config ctx) \<and>
      (lf_src h = RemoteAddr (config ctx) \<or> respondToAnySource (config ctx))")
  case True
  define c where "c = ctx\<lparr>lastMessageTimestamp := executor_time ctx\<rparr>"
  have c: "link_core seg_inv c" "isOnline c" "same_session ctx c"
    using core True by (simp_all add: c_def link_core_def)
  obtain ctx' where "dispatch_frame ops h d c = Some ctx'" "link_core seg_inv ctx'" "same_session c ctx'"
    using dispatch_frame_inv [OF c(1,2)] by blast
  moreover from this have "LinkContext_OnFrame ops h d ctx = Some (True, ctx')"
    using True by (auto simp: LinkContext_OnFrame_def simp flip: c_def)
  ultimately show ?thesis
    using same_session_trans [OF c(3)] by blast
next
  case rejected: False
  have st: "link_core seg_inv (ctx\<lparr>link_statistics := x\<rparr>)"
      "(\<And>bs. a \<noteq> BeginTransmit bs) \<Longrightarrow> link_core seg_inv (emit a (ctx\<lparr>link_statistics := x\<rparr>))" for x a
    using core by (simp_all add: link_core_def)
  show ?thesis
  proof (cases "isOnline ctx")
    case False
    with core show ?thesis
      by (intro exI [of _ False] exI [of _ ctx]) (simp add: LinkContext_OnFrame_def)
  next
    case True
    with rejected consider "lf_isFromMaster h = IsMaster (config ctx)"
      | "lf_isFromMaster h \<noteq> IsMaster (config ctx)" "lf_dest h \<noteq> LocalAddr (config ctx)"
      | "lf_isFromMaster h \<noteq> IsMaster (config ctx)" "lf_dest h = LocalAddr (config ctx)"
        "lf_src h \<noteq> RemoteAddr (config ctx)" "\<not> respondToAnySource (config ctx)" by blast
    then show ?thesis
      using True st by cases (intro exI [of _ False]; simp add: LinkContext_OnFrame_def)+
  qed
qed

lemma LinkLayer_Send_inv:
  assumes inv: "link_inv seg_inv ctx" and s: "seg_inv s"
  shows "\<exists>b ctx'. LinkLayer_Send ops s ctx = Some (b, ctx') \<and> link_inv seg_inv ctx' \<and> same_session ctx ctx'"
proof (cases "isOnline ctx \<and> pSegments ctx = None")
  case True
  then have "link_core seg_inv (ctx\<lparr>pSegments := Some s\<rparr>)"
    using link_inv_core [OF inv] s by (simp add: link_core_def segment_inv)
  then obtain c' where "TryStartTransmission ops (ctx\<lparr>pSegments := Some s\<rparr>) = Some c'" "link_inv seg_inv c'"
      "same_session (ctx\<lparr>pSegments := Some s\<rparr>) c'"
    using TryStartTransmission_inv by blast
  with True show ?thesis
    by (simp add: LinkLayer_Send_def SetTxSegment_def same_session_def)
next
  case False
  with inv show ?thesis
    by (cases "isOnline ctx"; cases "pSegments ctx") (simp_all add: LinkLayer_Send_def SetTxSegment_def)
qed

lemma LinkLayer_OnTxReady_inv:
  assumes inv: "link_inv seg_inv ctx"
  shows "\<exists>b ctx'. LinkLayer_OnTxReady ops ctx = Some (b, ctx') \<and> link_inv seg_inv ctx' \<and> same_session ctx ctx'"
proof -
  obtain b c where c: "LinkContext_OnTxReady ops ctx = Some (b, c)" "link_core seg_inv c" "same_session ctx c"
      "\<not> b \<longrightarrow> c = ctx"
    using LinkContext_OnTxReady_inv [OF link_inv_core [OF inv]] by blast
  obtain d where "TryStartTransmission ops c = Some d" "link_inv seg_inv d" "same_session c d"
    using TryStartTransmission_inv [OF c(2)] by blast
  with c inv same_session_trans [OF c(3)] show ?thesis
    by (cases b) (simp_all add: LinkLayer_OnTxReady_def)
qed

lemma LinkLayer_OnFrame_inv:
  assumes inv: "link_inv seg_inv ctx"
  shows "\<exists>b ctx'. LinkLayer_OnFrame ops h data ctx = Some (b, ctx') \<and> link_inv seg_inv ctx' \<and>
    same_session ctx ctx'"
proof -
  obtain b c where c: "LinkContext_OnFrame ops h data ctx = Some (b, c)" "link_core seg_inv c" "same_session ctx c"
      "\<not> b \<longrightarrow> pPriState c = pPriState ctx \<and> pSegments c = pSegments ctx \<and> keepAliveTimeout c = keepAliveTimeout ctx"
    using LinkContext_OnFrame_inv [OF link_inv_core [OF inv], of h data] by blast
  obtain d where "TryStartTransmission ops c = Some d" "link_inv seg_inv d" "same_session c d"
    using TryStartTransmission_inv [OF c(2)] by blast
  with c inv same_session_trans [OF c(3)] show ?thesis
    by (cases b) (simp_all add: LinkLayer_OnFrame_def link_inv_def)
qed

lemma ResponseTimer_fires_inv:
  assumes inv: "link_inv seg_inv ctx" and active: "TimerRef_IsActive (rspTimeoutTimer ctx)"
  shows "\<exists>ctx'. ResponseTimer_fires ops ctx = Some ctx' \<and> link_inv seg_inv ctx' \<and> same_session ctx ctx'"
proof -
  define c where "c = ctx\<lparr>rspTimeoutTimer := None\<rparr>"
  have at: "link_inv_at seg_inv (pPriState ctx) (pSecState ctx) ctx"
    using inv by (simp add: link_inv_def link_core_def)
  then have wait: "pri_response_wait (pPriState ctx)"
    using active by (simp add: link_inv_at_def TimerRef_IsActive_def)
  then have on: "isOnline ctx"
    using inv_online [OF at] by (auto simp: state_kinds)
  have "\<not> pri_transmit_wait (pPriState ctx)"
    using wait by (auto simp: state_kinds)
  then have "link_inv_at seg_inv PLLS_Idle (pSecState c) c"
    using release_inv(2) [OF at] by (simp add: c_def)
  then have "pri_result_ok seg_inv (pSecState c) c (Pri_OnTimeout ops c)"
    using on wait inv_segment [OF at] by (intro Pri_OnTimeout_inv) (simp_all add: c_def)
  from set_pri_inv [OF this] obtain d where d: "set_pri (Pri_OnTimeout ops c) = Some d" "link_core seg_inv d"
      "same_session c d" by blast
  obtain e where e: "TryStartTransmission ops d = Some e" "link_inv seg_inv e" "same_session d e"
    using TryStartTransmission_inv [OF d(2)] by blast
  have "same_session ctx e"
    using same_session_trans [OF d(3) e(3)] by (simp add: c_def same_session_def)
  with d e show ?thesis
    by (simp add: ResponseTimer_fires_def OnResponseTimeout_def TimerRef_fire_def flip: c_def)
qed

lemma KeepAliveTimer_fires_inv:
  assumes inv: "link_inv seg_inv ctx" and active: "TimerRef_IsActive (keepAliveTimer ctx)"
  shows "\<exists>ctx'. KeepAliveTimer_fires ops ctx = Some ctx' \<and> link_inv seg_inv ctx' \<and> same_session ctx ctx'"
proof -
  have at: "link_inv_at seg_inv (pPriState ctx) (pSecState ctx) ctx"
    using inv by (simp add: link_inv_def link_core_def)
  then have on: "isOnline ctx"
    using active by (simp add: link_inv_at_def TimerRef_IsActive_def)
  define e where "e = Some (MonotonicTimestamp_Add (executor_time ctx) (KeepAliveTimeout (config ctx)))"
  have "link_core seg_inv (ctx\<lparr>lastMessageTimestamp := t, keepAliveTimeout := b, keepAliveTimer := Some x\<rparr>)" for t b x
    using at on by (simp add: link_core_def link_inv_at_def pri_pending_ok_def sec_pending_ok_def)
  moreover have "link_core seg_inv (ctx\<lparr>keepAliveTimer := Some x\<rparr>)" for x
    using at on by (simp add: link_core_def link_inv_at_def pri_pending_ok_def sec_pending_ok_def)
  ultimately show ?thesis
    using TryStartTransmission_inv [of "ctx\<lparr>lastMessageTimestamp := executor_time ctx, keepAliveTimeout := True,
        keepAliveTimer := e\<rparr>"] TryStartTransmission_inv [of "ctx\<lparr>keepAliveTimer := e\<rparr>"]
    by (auto simp: KeepAliveTimer_fires_def OnKeepAliveTimeout_def StartKeepAliveTimer_def TimerRef_fire_def
        Let_def e_def same_session_def)
qed

end

lemma emit_link_inv [simp]:
  "(\<And>bs. a \<noteq> BeginTransmit bs) \<Longrightarrow> link_inv I (emit a ctx) = link_inv I ctx"
  by (simp add: link_inv_def link_core_def)

lemma go_online_inv:
  assumes "link_inv I ctx" and "\<not> isOnline ctx"
  shows "link_inv I (ctx\<lparr>isOnline := True, lastMessageTimestamp := t, keepAliveTimer := Some x\<rparr>)"
  using assms
  by (auto simp: link_inv_def link_core_def link_inv_at_def pri_pending_ok_def sec_pending_ok_def)

lemma OnLowerLayerUp_inv:
  assumes "link_inv I ctx"
  shows "link_inv I (snd (LinkContext_OnLowerLayerUp ctx))"
proof (cases "isOnline ctx")
  case False
  then have "keepAliveTimer ctx = None"
    using assms by (auto simp: link_inv_def link_core_def link_inv_at_def)
  with go_online_inv [OF assms False] False show ?thesis
    by (simp add: LinkContext_OnLowerLayerUp_def StartKeepAliveTimer_def Let_def)
qed (use assms in \<open>simp add: LinkContext_OnLowerLayerUp_def\<close>)

lemma rest_inv:
  assumes "length (priTxBuffer ctx) = 292" and "length (secTxBuffer ctx) = 10" and "trace_ok (lc_trace ctx)"
    and "numRetryRemaining ctx \<le> NumRetry (config ctx)"
    and "txMode ctx = TxIdle" and "pendingPriTx ctx = None" and "pendingSecTx ctx = None"
    and "pSegments ctx = None" and "rspTimeoutTimer ctx = None" and "keepAliveTimer ctx = None"
    and "\<not> isOnline ctx" and "\<not> keepAliveTimeout ctx" and "\<not> isRemoteReset ctx"
    and "pPriState ctx = PLLS_Idle" and "pSecState ctx = SLLS_NotReset"
  shows "link_inv I ctx"
  using assms
  by (simp add: link_inv_def link_core_def link_inv_at_def state_kinds pri_pending_ok_def sec_pending_ok_def)

lemma OnLowerLayerDown_inv:
  assumes "link_inv I ctx"
  shows "link_inv I (snd (LinkContext_OnLowerLayerDown ctx))"
proof (cases "isOnline ctx")
  case True
  have "length (priTxBuffer ctx) = 292" "length (secTxBuffer ctx) = 10" "trace_ok (lc_trace ctx)"
    "numRetryRemaining ctx \<le> NumRetry (config ctx)"
    using assms by (simp_all add: link_inv_def link_core_def link_inv_at_def)
  with True show ?thesis
    by (intro rest_inv) (simp_all add: LinkContext_OnLowerLayerDown_def release_segments_def Let_def emit_def)
qed (use assms in \<open>simp add: LinkContext_OnLowerLayerDown_def\<close>)


section \<open>Events and reachable states\<close>

text \<open>
  The link layer is driven by one event at a time on its executor. A timer event is possible
  only while the timer is active; \<open>EvTime\<close> lets the executor's clock advance.
\<close>

datatype 's link_event =
    EvLowerLayerUp
  | EvLowerLayerDown
  | EvSend 's
  | EvTxReady
  | EvFrame LinkHeaderFields "u8 list"
  | EvResponseTimer
  | EvKeepAliveTimer
  | EvTime MonotonicTimestamp

definition link_enabled :: "('s \<Rightarrow> bool) \<Rightarrow> 's link_event \<Rightarrow> 's LinkContext \<Rightarrow> bool" where
  "link_enabled seg_inv e ctx \<longleftrightarrow>
     (case e of
        EvSend s \<Rightarrow> seg_inv s
      | EvResponseTimer \<Rightarrow> TimerRef_IsActive (rspTimeoutTimer ctx)
      | EvKeepAliveTimer \<Rightarrow> TimerRef_IsActive (keepAliveTimer ctx)
      | _ \<Rightarrow> True)"

definition link_handle :: "'s segment_ops \<Rightarrow> 's link_event \<Rightarrow> 's LinkContext \<Rightarrow> 's LinkContext option" where
  "link_handle ops e ctx =
     (case e of
        EvLowerLayerUp \<Rightarrow> Some (snd (LinkContext_OnLowerLayerUp ctx))
      | EvLowerLayerDown \<Rightarrow> Some (snd (LinkContext_OnLowerLayerDown ctx))
      | EvSend s \<Rightarrow> map_option snd (LinkLayer_Send ops s ctx)
      | EvTxReady \<Rightarrow> map_option snd (LinkLayer_OnTxReady ops ctx)
      | EvFrame h d \<Rightarrow> map_option snd (LinkLayer_OnFrame ops h d ctx)
      | EvResponseTimer \<Rightarrow> ResponseTimer_fires ops ctx
      | EvKeepAliveTimer \<Rightarrow> KeepAliveTimer_fires ops ctx
      | EvTime t \<Rightarrow> Some (ctx\<lparr>executor_time := t\<rparr>))"

inductive link_reaches ::
    "'s segment_ops \<Rightarrow> ('s \<Rightarrow> bool) \<Rightarrow> 's LinkContext \<Rightarrow> 's LinkContext \<Rightarrow> bool"
  for ops seg_inv c0 where
  start: "link_reaches ops seg_inv c0 c0"
| event: "link_reaches ops seg_inv c0 c \<Longrightarrow> link_enabled seg_inv e c \<Longrightarrow> link_handle ops e c = Some c' \<Longrightarrow>
    link_reaches ops seg_inv c0 c'"

lemma EvTime_inv: "link_inv I ctx \<Longrightarrow> link_inv I (ctx\<lparr>executor_time := t\<rparr>)"
  by (simp add: link_inv_def link_core_def)

context transport_segment
begin

text \<open>No event can fail an assertion, leave a buffer or dereference a null segment.\<close>

lemma link_handle_inv:
  assumes "link_inv seg_inv ctx" and "link_enabled seg_inv e ctx"
  shows "\<exists>ctx'. link_handle ops e ctx = Some ctx' \<and> link_inv seg_inv ctx'"
  using assms LinkLayer_Send_inv [OF assms(1)] LinkLayer_OnTxReady_inv [OF assms(1)]
    LinkLayer_OnFrame_inv [OF assms(1)] ResponseTimer_fires_inv [OF assms(1)]
    KeepAliveTimer_fires_inv [OF assms(1)] OnLowerLayerUp_inv [OF assms(1)]
    OnLowerLayerDown_inv [OF assms(1)] EvTime_inv [OF assms(1)]
  by (cases e) (fastforce simp: link_handle_def link_enabled_def)+

lemma link_reaches_inv:
  assumes "link_reaches ops seg_inv c0 c" and "link_inv seg_inv c0"
  shows "link_inv seg_inv c"
  using assms
proof (induction rule: link_reaches.induct)
  case (event c e c')
  then show ?case
    using link_handle_inv [of c e] by auto
qed

end

text \<open>What the invariant says of a reachable state.\<close>

lemma link_inv_facts:
  assumes "link_inv I ctx"
  shows "pri_transmit_wait (pPriState ctx) \<longleftrightarrow> txMode ctx = TxPrimary \<or> pendingPriTx ctx \<noteq> None"
    and "sec_transmit_wait (pSecState ctx) \<longleftrightarrow> txMode ctx = TxSecondary \<or> pendingSecTx ctx \<noteq> None"
    and "TimerRef_IsActive (rspTimeoutTimer ctx) \<longleftrightarrow> pri_response_wait (pPriState ctx)"
    and "TimerRef_IsActive (keepAliveTimer ctx) \<longleftrightarrow> isOnline ctx"
    and "numRetryRemaining ctx \<le> NumRetry (config ctx)"
    and "BeginTransmit bs \<in> set (lc_trace ctx) \<Longrightarrow> wire_frame bs"
    and "pPriState ctx = PLLS_Idle \<Longrightarrow> pSegments ctx = None \<and> \<not> keepAliveTimeout ctx"
  using assms
  by (auto simp: link_inv_def link_core_def link_inv_at_def TimerRef_IsActive_def trace_ok_def)

end
