(* ===== verification/Transport.thy ===== *)
theory Transport
  imports LinkLayer
begin

text \<open>
  The transport function (\<open>transport/TransportHeader\<close>, \<open>TransportTx\<close>, \<open>TransportRx\<close>,
  \<open>TransportLayer\<close>): segmentation of an application message into TPDUs of at most 249 payload
  bytes with FIR/FIN/SEQ headers, and reassembly with its address, sequence and overflow
  guards. \<open>TransportTx\<close> is the segment provider of the link layer: it interprets
  \<open>transport_segment\<close>.
\<close>

section \<open>The transport header\<close>

definition MAX_TPDU_LENGTH :: nat where "MAX_TPDU_LENGTH = 250"
definition MAX_TPDU_PAYLOAD :: nat where "MAX_TPDU_PAYLOAD = 249"

definition FIN_MASK :: u8 where "FIN_MASK = 0x80"
definition FIR_MASK :: u8 where "FIR_MASK = 0x40"
definition SEQ_MASK :: u8 where "SEQ_MASK = 0x3F"

lemmas tpdu_masks = FIN_MASK_def FIR_MASK_def SEQ_MASK_def

record TransportHeader =
  th_fir :: bool
  th_fin :: bool
  th_seq :: u8

definition TransportHeader_of :: "u8 \<Rightarrow> TransportHeader" where
  "TransportHeader_of byte =
     \<lparr>th_fir = (byte AND FIR_MASK \<noteq> 0), th_fin = (byte AND FIN_MASK \<noteq> 0), th_seq = byte AND SEQ_MASK\<rparr>"

definition TransportHeader_ToByte :: "bool \<Rightarrow> bool \<Rightarrow> u8 \<Rightarrow> u8" where
  "TransportHeader_ToByte fir fin seq =
     (let hdr = 0;
          hdr = (if fir then hdr OR FIR_MASK else hdr);
          hdr = (if fin then hdr OR FIN_MASK else hdr)
      in hdr OR (SEQ_MASK AND seq))"

lemma seq_mask_id: "unat seq < 64 \<Longrightarrow> seq AND SEQ_MASK = seq"
proof -
  assume "unat seq < 64"
  then have "seq < 2 ^ 6"
    by (simp add: word_less_nat_alt)
  moreover have "SEQ_MASK = mask 6"
    by (simp add: SEQ_MASK_def mask_eq_exp_minus_1)
  ultimately show ?thesis
    using less_mask_eq by metis
qed

lemma TransportHeader_roundtrip:
  assumes "unat seq < 64"
  shows "TransportHeader_of (TransportHeader_ToByte fir fin seq) = \<lparr>th_fir = fir, th_fin = fin, th_seq = seq\<rparr>"
proof -
  have zero: "SEQ_MASK AND seq AND FIR_MASK = 0" "SEQ_MASK AND seq AND FIN_MASK = 0"
    by (simp_all add: tpdu_masks and.left_commute [of _ seq] and.assoc)
  have "(SEQ_MASK AND seq) AND SEQ_MASK = seq"
    using seq_mask_id [OF assms] by (simp add: and.left_commute and.commute)
  then show ?thesis
    using zero
    by (cases fir; cases fin)
      (simp_all add: TransportHeader_of_def TransportHeader_ToByte_def Let_def bit.conj_disj_distrib2
        and.assoc, simp_all add: tpdu_masks)
qed


section \<open>Transmission\<close>

record Message =
  msg_addresses :: Addresses
  msg_payload :: rslice

definition Message_default :: Message where
  "Message_default = \<lparr>msg_addresses = \<lparr>addr_source = 0, addr_destination = 0\<rparr>, msg_payload = []\<rparr>"

text \<open>
  \<open>txSegment\<close> is the length of the slice at the front of \<open>tpduBuffer\<close> once it has been built.
  \<open>tpduCount\<close> cannot wrap: a payload has fewer than \<open>2 ^ 32\<close> bytes.
\<close>

record TransportTx =
  tx_message :: Message
  txSegment :: "nat option"
  tpduBuffer :: "u8 list"
  numTransportTx :: u32
  tx_sequence :: u8
  tpduCount :: nat

definition TransportTx_init :: "u8 list \<Rightarrow> TransportTx" where
  "TransportTx_init buffer =
     \<lparr>tx_message = Message_default, txSegment = None, tpduBuffer = buffer, numTransportTx = 0,
      tx_sequence = 0, tpduCount = 0\<rparr>"

definition TransportTx_Configure :: "Message \<Rightarrow> TransportTx \<Rightarrow> TransportTx option" where
  "TransportTx_Configure message t =
     (if msg_payload message \<noteq> []
      then Some (t\<lparr>txSegment := None, tx_message := message, tpduCount := 0\<rparr>) else None)"

definition TransportTx_HasValue :: "TransportTx \<Rightarrow> bool" where
  "TransportTx_HasValue t \<longleftrightarrow> length (msg_payload (tx_message t)) > 0"

definition TransportTx_GetAddresses :: "TransportTx \<Rightarrow> Addresses" where
  "TransportTx_GetAddresses t = msg_addresses (tx_message t)"

definition TransportTx_GetSegment :: "TransportTx \<Rightarrow> (rslice \<times> TransportTx) option" where
  "TransportTx_GetSegment t =
     (case txSegment t of
        Some n \<Rightarrow> Some (take n (tpduBuffer t), t)
      | None \<Rightarrow>
          (let payload = msg_payload (tx_message t);
               numToSend = (if length payload < MAX_TPDU_PAYLOAD then length payload else MAX_TPDU_PAYLOAD)
           in do {
             (_, dest) \<leftarrow> RSlice_CopyTo (RSlice_Take numToSend payload) (WSlice_Skip 1 (GetWSlice (tpduBuffer t)));
             let fir = (tpduCount t = 0);
             let fin = (numToSend = length payload);
             buffer \<leftarrow> mem_write (wbuf dest) 0 [TransportHeader_ToByte fir fin (tx_sequence t)];
             let segment = min (length buffer) (numToSend + 1);
             Some (take segment buffer,
               t\<lparr>tpduBuffer := buffer, numTransportTx := numTransportTx t + 1, txSegment := Some segment\<rparr>) }))"

definition TransportTx_Advance :: "TransportTx \<Rightarrow> bool \<times> TransportTx" where
  "TransportTx_Advance t =
     (let payload = msg_payload (tx_message t);
          numToSend = (if length payload < MAX_TPDU_PAYLOAD then length payload else MAX_TPDU_PAYLOAD);
          rest = RSlice_Advance numToSend payload
      in (rest \<noteq> [],
          t\<lparr>txSegment := None, tx_message := (tx_message t)\<lparr>msg_payload := rest\<rparr>,
            tpduCount := tpduCount t + 1, tx_sequence := SequenceNum_Next 64 (tx_sequence t)\<rparr>))"

definition transport_ops :: "TransportTx segment_ops" where
  "transport_ops =
     \<lparr>GetSegment = TransportTx_GetSegment, SegAdvance = (\<lambda>t. Some (TransportTx_Advance t)),
      GetAddresses = TransportTx_GetAddresses\<rparr>"


section \<open>Segmentation as a function of the message\<close>

function tpdus :: "bool \<Rightarrow> u8 \<Rightarrow> u8 list \<Rightarrow> u8 list list" where
  "tpdus fir seq payload =
     (if length payload \<le> 249 then [TransportHeader_ToByte fir True seq # payload]
      else (TransportHeader_ToByte fir False seq # take 249 payload)
             # tpdus False (SequenceNum_Next 64 seq) (drop 249 payload))"
  by pat_completeness auto
termination
  by (relation "measure (\<lambda>(_, _, payload). length payload)") auto

declare tpdus.simps [simp del]

definition tx_segments :: "TransportTx \<Rightarrow> u8 list list" where
  "tx_segments t = tpdus (tpduCount t = 0) (tx_sequence t) (msg_payload (tx_message t))"

definition tx_inv :: "TransportTx \<Rightarrow> bool" where
  "tx_inv t \<longleftrightarrow> length (tpduBuffer t) = MAX_TPDU_LENGTH \<and> msg_payload (tx_message t) \<noteq> [] \<and>
     unat (tx_sequence t) < 64 \<and>
     (\<forall>n. txSegment t = Some n \<longrightarrow> take n (tpduBuffer t) = hd (tx_segments t))"

text \<open>What holds of the transmitter between messages.\<close>

definition tx_ready :: "TransportTx \<Rightarrow> bool" where
  "tx_ready t \<longleftrightarrow> length (tpduBuffer t) = MAX_TPDU_LENGTH \<and> unat (tx_sequence t) < 64"

lemma tpdus_not_Nil [simp]: "tpdus fir seq p \<noteq> []"
  by (simp add: tpdus.simps)

lemma hd_tpdus: "hd (tpdus fir seq p) = TransportHeader_ToByte fir (length p \<le> 249) seq # take 249 p"
  by (simp add: tpdus.simps)

lemma tl_tpdus: "tl (tpdus fir seq p) =
    (if length p \<le> 249 then [] else tpdus False (SequenceNum_Next 64 seq) (drop 249 p))"
  by (simp add: tpdus.simps)

lemma num_to_send: "(if length p < MAX_TPDU_PAYLOAD then length p else MAX_TPDU_PAYLOAD) = min 249 (length p)"
  by (simp add: MAX_TPDU_PAYLOAD_def)

lemma Configure_inv:
  assumes "tx_ready t" and "msg_payload m \<noteq> []"
  shows "\<exists>t'. TransportTx_Configure m t = Some t' \<and> tx_inv t' \<and>
    tx_segments t' = tpdus True (tx_sequence t) (msg_payload m) \<and> TransportTx_GetAddresses t' = msg_addresses m"
  using assms
  by (simp add: TransportTx_Configure_def tx_inv_def tx_ready_def tx_segments_def TransportTx_GetAddresses_def)

lemma GetSegment_built:
  assumes "tx_inv t" and "txSegment t = None"
  shows "\<exists>b. length b = MAX_TPDU_LENGTH \<and> take (length (hd (tx_segments t))) b = hd (tx_segments t) \<and>
    TransportTx_GetSegment t = Some (hd (tx_segments t),
      t\<lparr>tpduBuffer := b, numTransportTx := numTransportTx t + 1, txSegment := Some (length (hd (tx_segments t)))\<rparr>)"
proof -
  define p where "p = msg_payload (tx_message t)"
  define n where "n = min 249 (length p)"
  define hb where "hb = TransportHeader_ToByte (tpduCount t = 0) (n = length p) (tx_sequence t)"
  from assms have len: "length (tpduBuffer t) = 250"
    by (simp add: tx_inv_def MAX_TPDU_LENGTH_def)
  then obtain b0 br where buf: "tpduBuffer t = b0 # br" "length br = 249"
    by (cases "tpduBuffer t") auto
  have skip: "WSlice_Skip (Suc 0) (GetWSlice (tpduBuffer t)) = mkw [b0] br []"
    by (simp add: WSlice_Skip_def GetWSlice_def mkw_def buf)
  have "RSlice_CopyTo (RSlice_Take n p) (mkw [b0] br []) =
      Some (take n p, mkw ([b0] @ take n p) (drop n br) [])"
    using RSlice_CopyTo_mkw [of "take n p" br "[b0]" "[]"] buf(2) by (simp add: n_def)
  then have "TransportTx_GetSegment t = Some (hb # take n p,
      t\<lparr>tpduBuffer := hb # take n p @ drop n br, numTransportTx := numTransportTx t + 1,
        txSegment := Some (n + 1)\<rparr>)"
    using assms(2) buf(2)
    by (simp add: TransportTx_GetSegment_def num_to_send skip mem_write_def Let_def hb_def min_def flip: p_def n_def)
      (auto simp: n_def)
  moreover have "hd (tx_segments t) = hb # take n p"
    by (simp add: tx_segments_def hd_tpdus hb_def n_def min_def flip: p_def)
  ultimately show ?thesis
    using buf(2) by (intro exI [of _ "hb # take n p @ drop n br"]) (simp add: n_def MAX_TPDU_LENGTH_def)
qed

lemma TransportTx_GetSegment_inv:
  assumes "tx_inv t"
  shows "\<exists>t'. TransportTx_GetSegment t = Some (hd (tx_segments t), t') \<and> tx_inv t' \<and>
    tx_segments t' = tx_segments t \<and> TransportTx_GetAddresses t' = TransportTx_GetAddresses t"
proof (cases "txSegment t")
  case None
  obtain b where "length b = MAX_TPDU_LENGTH" "take (length (hd (tx_segments t))) b = hd (tx_segments t)"
    "TransportTx_GetSegment t = Some (hd (tx_segments t),
      t\<lparr>tpduBuffer := b, numTransportTx := numTransportTx t + 1, txSegment := Some (length (hd (tx_segments t)))\<rparr>)"
    using GetSegment_built [OF assms None] by blast
  with assms show ?thesis
    by (simp add: tx_inv_def tx_segments_def TransportTx_GetAddresses_def)
next
  case (Some n)
  with assms show ?thesis
    by (simp add: TransportTx_GetSegment_def tx_inv_def)
qed

lemma TransportTx_Advance_inv:
  assumes "tx_inv t"
  shows "\<exists>more t'. TransportTx_Advance t = (more, t') \<and> (more \<longleftrightarrow> tl (tx_segments t) \<noteq> []) \<and> tx_ready t' \<and>
    (more \<longrightarrow> tx_inv t' \<and> tx_segments t' = tl (tx_segments t) \<and>
       TransportTx_GetAddresses t' = TransportTx_GetAddresses t)"
proof -
  define p where "p = msg_payload (tx_message t)"
  have "drop (min 249 (length p)) p = drop 249 p"
    by (cases "length p \<le> 249") (simp_all add: min_def)
  with assms show ?thesis
    by (auto simp: TransportTx_Advance_def num_to_send Let_def tx_inv_def tx_ready_def tx_segments_def tl_tpdus
        TransportTx_GetAddresses_def SequenceNum_Next_less simp flip: p_def)
qed

text \<open>The transmitter keeps the contract the link layer relies on.\<close>

interpretation tx: transport_segment transport_ops tx_inv tx_segments
proof
  fix t
  assume inv: "tx_inv t"
  have "length (hd (tx_segments t)) \<le> 250" "0 < length (hd (tx_segments t))"
    by (simp_all add: tx_segments_def hd_tpdus)
  moreover have "tx_segments t \<noteq> []"
    by (simp add: tx_segments_def)
  ultimately show "\<exists>d s'. GetSegment transport_ops t = Some (d, s') \<and> tx_inv s' \<and> tx_segments s' = tx_segments t \<and>
      GetAddresses transport_ops s' = GetAddresses transport_ops t \<and> tx_segments t \<noteq> [] \<and> d = hd (tx_segments t) \<and>
      0 < length d \<and> length d \<le> 250"
    using TransportTx_GetSegment_inv [OF inv] by (auto simp: transport_ops_def)
  show "\<exists>more s'. SegAdvance transport_ops t = Some (more, s') \<and> (more \<longleftrightarrow> tl (tx_segments t) \<noteq> []) \<and>
      (more \<longrightarrow> tx_inv s' \<and> tx_segments s' = tl (tx_segments t) \<and>
        GetAddresses transport_ops s' = GetAddresses transport_ops t)"
    using TransportTx_Advance_inv [OF inv] by (auto simp: transport_ops_def)
qed



section \<open>Reception\<close>

record TransportRx =
  rxBuffer :: "u8 list"
  numBytesReceived :: nat
  lastAddresses :: Addresses
  expectedSeq :: u8
  numTransportRx :: u32
  numTransportErrorRx :: u32
  numTransportBufferOverflow :: u32
  numTransportDiscard :: u32
  numTransportIgnore :: u32

definition TransportRx_init :: "u8 list \<Rightarrow> TransportRx" where
  "TransportRx_init buffer =
     \<lparr>rxBuffer = buffer, numBytesReceived = 0,
      lastAddresses = \<lparr>addr_source = 0, addr_destination = 0\<rparr>, expectedSeq = 0, numTransportRx = 0,
      numTransportErrorRx = 0, numTransportBufferOverflow = 0, numTransportDiscard = 0,
      numTransportIgnore = 0\<rparr>"

definition ClearRxBuffer :: "TransportRx \<Rightarrow> TransportRx" where
  "ClearRxBuffer r = r\<lparr>numBytesReceived := 0\<rparr>"

definition TransportRx_Reset :: "TransportRx \<Rightarrow> TransportRx" where
  "TransportRx_Reset r = ClearRxBuffer r"

definition GetAvailable :: "TransportRx \<Rightarrow> wslice" where
  "GetAvailable r = WSlice_Skip (numBytesReceived r) (GetWSlice (rxBuffer r))"

definition ignore_segment :: "TransportRx \<Rightarrow> TransportRx" where
  "ignore_segment r = r\<lparr>numTransportIgnore := numTransportIgnore r + 1\<rparr>"

text \<open>The checks a segment without FIR must pass.\<close>

definition accept_segment :: "TransportHeader \<Rightarrow> Message \<Rightarrow> TransportRx \<Rightarrow> bool" where
  "accept_segment header segment r \<longleftrightarrow>
     (if \<not> th_fir header
      then (if numBytesReceived r = 0 then False
            else if th_seq header \<noteq> expectedSeq r then False
            else if msg_addresses segment \<noteq> lastAddresses r then False
            else True)
      else True)"

text \<open>A FIR segment discards what was received of the previous fragment.\<close>

definition discard_on_fir :: "TransportHeader \<Rightarrow> TransportRx \<Rightarrow> TransportRx" where
  "discard_on_fir header r =
     (if th_fir header \<and> numBytesReceived r > 0
      then r\<lparr>numTransportDiscard := numTransportDiscard r + 1, numBytesReceived := 0\<rparr> else r)"

text \<open>The second half of \<open>ProcessReceive\<close>, for a segment that passed the checks.\<close>

definition append_segment ::
    "TransportHeader \<Rightarrow> Addresses \<Rightarrow> rslice \<Rightarrow> TransportRx \<Rightarrow> (Message \<times> TransportRx) option" where
  "append_segment header addresses payload r =
     (let available = GetAvailable r in
      if length payload > wsize available
      then Some (Message_default,
             r\<lparr>numTransportBufferOverflow := numTransportBufferOverflow r + 1, numBytesReceived := 0\<rparr>)
      else do {
        (_, available) \<leftarrow> RSlice_CopyTo payload available;
        let r = r\<lparr>rxBuffer := wbuf available, numBytesReceived := numBytesReceived r + length payload,
                  lastAddresses := addresses, expectedSeq := SequenceNum_Next 64 (th_seq header)\<rparr>;
        if th_fin header
        then Some (\<lparr>msg_addresses = addresses, msg_payload = RSlice_Take (numBytesReceived r) (rxBuffer r)\<rparr>,
                   r\<lparr>numBytesReceived := 0\<rparr>)
        else Some (Message_default, r) })"

definition ProcessReceive :: "Message \<Rightarrow> TransportRx \<Rightarrow> (Message \<times> TransportRx) option" where
  "ProcessReceive segment r =
     (let r = r\<lparr>numTransportRx := numTransportRx r + 1\<rparr> in
      case msg_payload segment of
        [] \<Rightarrow> Some (Message_default, r\<lparr>numTransportErrorRx := numTransportErrorRx r + 1\<rparr>)
      | byte # _ \<Rightarrow>
          (let header = TransportHeader_of byte;
               payload = RSlice_Skip 1 (msg_payload segment);
               r = discard_on_fir header r
           in if \<not> accept_segment header segment r then Some (Message_default, ignore_segment r)
              else append_segment header (msg_addresses segment) payload r))"

definition rx_wf :: "TransportRx \<Rightarrow> bool" where
  "rx_wf r \<longleftrightarrow> numBytesReceived r \<le> length (rxBuffer r)"

text \<open>The bytes of the fragment received so far.\<close>

definition rx_partial :: "TransportRx \<Rightarrow> u8 list" where
  "rx_partial r = take (numBytesReceived r) (rxBuffer r)"

lemma GetAvailable_mkw:
  "rx_wf r \<Longrightarrow> GetAvailable r = mkw (rx_partial r) (drop (numBytesReceived r) (rxBuffer r)) []"
  by (simp add: GetAvailable_def WSlice_Skip_def GetWSlice_def mkw_def rx_partial_def rx_wf_def Let_def)

section \<open>Reassembly specification\<close>

text \<open>
  The receive channel seen from outside: the bytes of the fragment received so far, and the
  addresses and sequence number the next segment must carry.
\<close>

record rx_abs =
  abs_partial :: "u8 list"
  abs_addresses :: Addresses
  abs_seq :: u8

definition rx_abstract :: "TransportRx \<Rightarrow> rx_abs" where
  "rx_abstract r = \<lparr>abs_partial = rx_partial r, abs_addresses = lastAddresses r, abs_seq = expectedSeq r\<rparr>"

definition rx_spec_step :: "nat \<Rightarrow> Message \<Rightarrow> rx_abs \<Rightarrow> Message \<times> rx_abs" where
  "rx_spec_step capacity segment a =
     (case msg_payload segment of
        [] \<Rightarrow> (Message_default, a)
      | byte # data \<Rightarrow>
          (let h = TransportHeader_of byte;
               before = (if th_fir h then [] else abs_partial a)
           in if \<not> th_fir h \<and>
                (abs_partial a = [] \<or> th_seq h \<noteq> abs_seq a \<or> msg_addresses segment \<noteq> abs_addresses a)
              then (Message_default, a)
              else if length (before @ data) > capacity then (Message_default, a\<lparr>abs_partial := []\<rparr>)
              else if th_fin h
              then (\<lparr>msg_addresses = msg_addresses segment, msg_payload = before @ data\<rparr>,
                    \<lparr>abs_partial = [], abs_addresses = msg_addresses segment,
                     abs_seq = SequenceNum_Next 64 (th_seq h)\<rparr>)
              else (Message_default,
                    \<lparr>abs_partial = before @ data, abs_addresses = msg_addresses segment,
                     abs_seq = SequenceNum_Next 64 (th_seq h)\<rparr>)))"

lemma rx_partial_simps [simp]:
  "rx_partial (r\<lparr>numBytesReceived := 0\<rparr>) = []"
  "rx_wf r \<Longrightarrow> rx_partial r = [] \<longleftrightarrow> numBytesReceived r = 0"
  "rx_wf r \<Longrightarrow> length (rx_partial r) = numBytesReceived r"
  by (auto simp: rx_partial_def rx_wf_def)

lemma store_segment:
  assumes "rx_wf r" and "length data \<le> wsize (GetAvailable r)"
  shows "\<exists>w. RSlice_CopyTo data (GetAvailable r) = Some (data, w) \<and> length (wbuf w) = length (rxBuffer r) \<and>
    take (numBytesReceived r + length data) (wbuf w) = rx_partial r @ data \<and>
    numBytesReceived r + length data \<le> length (wbuf w)"
proof -
  have len: "length data \<le> length (drop (numBytesReceived r) (rxBuffer r))"
    using assms by (simp add: GetAvailable_mkw)
  from RSlice_CopyTo_mkw [OF len, of "rx_partial r" "[]"] assms(1) len show ?thesis
    by (intro exI [of _ "mkw (rx_partial r @ data) (drop (length data) (drop (numBytesReceived r) (rxBuffer r))) []"])
      (auto simp: GetAvailable_mkw rx_wf_def)
qed

lemma wsize_GetAvailable: "rx_wf r \<Longrightarrow> wsize (GetAvailable r) = length (rxBuffer r) - numBytesReceived r"
  by (simp add: GetAvailable_mkw)

lemma ProcessReceive_refines_aux:
  assumes wf: "rx_wf r"
  shows "\<exists>m r'. ProcessReceive seg r = Some (m, r') \<and> rx_wf r' \<and> length (rxBuffer r') = length (rxBuffer r) \<and>
    (m, rx_abstract r') = rx_spec_step (length (rxBuffer r)) seg (rx_abstract r)"
proof (cases "msg_payload seg")
  case Nil
  with wf show ?thesis
    by (simp add: ProcessReceive_def rx_spec_step_def rx_abstract_def rx_partial_def rx_wf_def)
next
  case (Cons byte data)
  define h where "h = TransportHeader_of byte"
  define r1 where "r1 = discard_on_fir h (r\<lparr>numTransportRx := numTransportRx r + 1\<rparr>)"
  have r1: "rx_wf r1" "rxBuffer r1 = rxBuffer r" "lastAddresses r1 = lastAddresses r" "expectedSeq r1 = expectedSeq r"
      "rx_partial r1 = (if th_fir h then [] else rx_partial r)"
    using wf by (auto simp: r1_def discard_on_fir_def rx_wf_def rx_partial_def)
  have z: "numBytesReceived r1 = 0 \<longleftrightarrow> rx_partial r = []" if "\<not> th_fir h"
    using r1(5) rx_partial_simps(2) [OF r1(1)] that by simp
  have acc: "accept_segment h seg r1 \<longleftrightarrow> \<not> (\<not> th_fir h \<and> (rx_partial r = [] \<or> th_seq h \<noteq> expectedSeq r \<or>
      msg_addresses seg \<noteq> lastAddresses r))"
    using r1(3,4) z by (auto simp: accept_segment_def)
  have run: "ProcessReceive seg r = (if \<not> accept_segment h seg r1 then Some (Message_default, ignore_segment r1)
      else append_segment h (msg_addresses seg) data r1)"
    using Cons by (simp add: ProcessReceive_def Let_def h_def r1_def)
  consider (ignored) "\<not> accept_segment h seg r1"
    | (overflow) "accept_segment h seg r1" "length data > wsize (GetAvailable r1)"
    | (stored) "accept_segment h seg r1" "length data \<le> wsize (GetAvailable r1)"
    by linarith
  then show ?thesis
  proof cases
    case ignored
    then have "\<not> th_fir h" using acc by blast
    with ignored show ?thesis
      using Cons acc r1
      by (simp add: run rx_spec_step_def rx_abstract_def ignore_segment_def flip: h_def)
        (simp add: rx_wf_def rx_partial_def)
  next
    case overflow
    then have "length (rx_partial r1 @ data) > length (rxBuffer r)"
      using r1(1,2) by (simp add: wsize_GetAvailable)
    with overflow Cons acc r1 show ?thesis
      by (auto simp: run append_segment_def rx_spec_step_def rx_abstract_def rx_wf_def Let_def simp flip: h_def)
  next
    case stored
    obtain w where w: "RSlice_CopyTo data (GetAvailable r1) = Some (data, w)" "length (wbuf w) = length (rxBuffer r1)"
        "take (numBytesReceived r1 + length data) (wbuf w) = rx_partial r1 @ data"
        "numBytesReceived r1 + length data \<le> length (wbuf w)"
      using store_segment [OF r1(1) stored(2)] by blast
    have "length (rx_partial r1 @ data) \<le> length (rxBuffer r)"
      using w r1(1,2) by simp
    with stored w Cons acc r1 show ?thesis
      by (auto simp: run append_segment_def rx_spec_step_def rx_abstract_def rx_wf_def rx_partial_def Let_def
          simp flip: h_def)
  qed
qed


section \<open>Segmentation and reassembly are inverse\<close>

text \<open>A run of the receive channel; the non-empty messages are what the layer above receives.\<close>

fun ProcessReceive_all :: "Message list \<Rightarrow> TransportRx \<Rightarrow> (Message list \<times> TransportRx) option" where
  "ProcessReceive_all [] r = Some ([], r)"
| "ProcessReceive_all (seg # rest) r = do {
     (m, r) \<leftarrow> ProcessReceive seg r;
     (ms, r) \<leftarrow> ProcessReceive_all rest r;
     Some (if msg_payload m \<noteq> [] then m # ms else ms, r) }"

fun rx_spec_run :: "nat \<Rightarrow> Message list \<Rightarrow> rx_abs \<Rightarrow> Message list \<times> rx_abs" where
  "rx_spec_run cap [] a = ([], a)"
| "rx_spec_run cap (seg # rest) a =
     (let (m, a) = rx_spec_step cap seg a;
          (ms, a) = rx_spec_run cap rest a
      in (if msg_payload m \<noteq> [] then m # ms else ms, a))"

lemma ProcessReceive_all_refines:
  "rx_wf r \<Longrightarrow> \<exists>ms r'. ProcessReceive_all segs r = Some (ms, r') \<and> rx_wf r' \<and>
     length (rxBuffer r') = length (rxBuffer r) \<and>
     (ms, rx_abstract r') = rx_spec_run (length (rxBuffer r)) segs (rx_abstract r)"
proof (induction segs arbitrary: r)
  case (Cons seg segs)
  obtain m r1 where r1: "ProcessReceive seg r = Some (m, r1)" "rx_wf r1" "length (rxBuffer r1) = length (rxBuffer r)"
      "rx_spec_step (length (rxBuffer r)) seg (rx_abstract r) = (m, rx_abstract r1)"
    using ProcessReceive_refines_aux [OF Cons.prems, of seg] by metis
  obtain ms r2 where r2: "ProcessReceive_all segs r1 = Some (ms, r2)" "rx_wf r2"
      "length (rxBuffer r2) = length (rxBuffer r1)"
      "rx_spec_run (length (rxBuffer r1)) segs (rx_abstract r1) = (ms, rx_abstract r2)"
    using Cons.IH [OF r1(2)] by metis
  show ?case
    using r1 r2 by simp
qed simp

definition tpdu_messages :: "Addresses \<Rightarrow> u8 list list \<Rightarrow> Message list" where
  "tpdu_messages addr ds = map (\<lambda>d. \<lparr>msg_addresses = addr, msg_payload = d\<rparr>) ds"

lemma rx_spec_tpdus:
  assumes "unat seq < 64" and "fir \<or> before \<noteq> [] \<and> abs_seq a = seq \<and> abs_addresses a = addr"
    and "before = (if fir then [] else abs_partial a)" and "payload \<noteq> []"
    and "length before + length payload \<le> cap"
  shows "fst (rx_spec_run cap (tpdu_messages addr (tpdus fir seq payload)) a) =
      [\<lparr>msg_addresses = addr, msg_payload = before @ payload\<rparr>] \<and>
    abs_partial (snd (rx_spec_run cap (tpdu_messages addr (tpdus fir seq payload)) a)) = []"
  using assms
proof (induction fir seq payload arbitrary: before a rule: tpdus.induct)
  case (1 fir seq payload)
  show ?case
  proof (cases "length payload \<le> 249")
    case True
    with 1(2-) show ?thesis
      by (subst tpdus.simps, subst (2) tpdus.simps)
        (auto simp: tpdu_messages_def rx_spec_step_def TransportHeader_roundtrip Let_def)
  next
    case False
    define nxt where "nxt = SequenceNum_Next 64 seq"
    define a' where "a' = \<lparr>abs_partial = before @ take 249 payload, abs_addresses = addr, abs_seq = nxt\<rparr>"
    have step: "rx_spec_step cap \<lparr>msg_addresses = addr, msg_payload =
        TransportHeader_ToByte fir False seq # take 249 payload\<rparr> a = (Message_default, a')"
      using 1(2-) False
      by (auto simp: rx_spec_step_def TransportHeader_roundtrip Let_def a'_def nxt_def)
    have "fst (rx_spec_run cap (tpdu_messages addr (tpdus False nxt (drop 249 payload))) a') =
        [\<lparr>msg_addresses = addr, msg_payload = (before @ take 249 payload) @ drop 249 payload\<rparr>] \<and>
      abs_partial (snd (rx_spec_run cap (tpdu_messages addr (tpdus False nxt (drop 249 payload))) a')) = []"
      unfolding nxt_def
      by (rule 1(1) [OF False]) (use 1(2-) False in \<open>simp_all add: SequenceNum_Next_less a'_def nxt_def\<close>)
    moreover have "tpdus fir seq payload =
        (TransportHeader_ToByte fir False seq # take 249 payload) # tpdus False nxt (drop 249 payload)"
      using False by (subst tpdus.simps) (simp add: nxt_def)
    ultimately show ?thesis
      using step by (auto simp: tpdu_messages_def Message_default_def split: prod.splits)
  qed
qed


section \<open>The transport layer\<close>

text \<open>
  \<open>upper\<close> and \<open>lower\<close> are null until \<open>SetAppLayer\<close> and \<open>SetLinkLayer\<close> attach them. The calls
  to both are collected in \<open>tl_trace\<close>; \<open>Lower_Send\<close> hands the configured transmitter to the
  link layer.
\<close>

datatype transport_action =
    Lower_Send TransportTx
  | App_OnReceive Message
  | App_OnTxReady
  | App_OnLowerLayerUp
  | App_OnLowerLayerDown

record TransportLayer =
  tl_upper :: bool
  tl_lower :: bool
  tl_isOnline :: bool
  tl_isSending :: bool
  tl_receiver :: TransportRx
  tl_transmitter :: TransportTx
  tl_trace :: "transport_action list"

definition TransportLayer_init :: "u8 list \<Rightarrow> u8 list \<Rightarrow> TransportLayer" where
  "TransportLayer_init rx tx =
     \<lparr>tl_upper = False, tl_lower = False, tl_isOnline = False, tl_isSending = False,
      tl_receiver = TransportRx_init rx, tl_transmitter = TransportTx_init tx, tl_trace = []\<rparr>"

definition tl_emit :: "transport_action \<Rightarrow> TransportLayer \<Rightarrow> TransportLayer" where
  "tl_emit a t = t\<lparr>tl_trace := tl_trace t @ [a]\<rparr>"

definition to_upper :: "transport_action \<Rightarrow> TransportLayer \<Rightarrow> TransportLayer" where
  "to_upper a t = (if tl_upper t then tl_emit a t else t)"

definition TransportLayer_SetAppLayer :: "TransportLayer \<Rightarrow> TransportLayer option" where
  "TransportLayer_SetAppLayer t = (if \<not> tl_upper t then Some (t\<lparr>tl_upper := True\<rparr>) else None)"

definition TransportLayer_SetLinkLayer :: "TransportLayer \<Rightarrow> TransportLayer option" where
  "TransportLayer_SetLinkLayer t = (if \<not> tl_lower t then Some (t\<lparr>tl_lower := True\<rparr>) else None)"

definition TransportLayer_BeginTransmit :: "Message \<Rightarrow> TransportLayer \<Rightarrow> (bool \<times> TransportLayer) option" where
  "TransportLayer_BeginTransmit message t =
     (if \<not> tl_isOnline t then Some (False, t)
      else if msg_payload message = [] then Some (False, t)
      else if tl_isSending t then Some (False, t)
      else if \<not> tl_lower t then Some (False, t)
      else do {
        tx \<leftarrow> TransportTx_Configure message (tl_transmitter t);
        Some (True, tl_emit (Lower_Send tx) (t\<lparr>tl_isSending := True, tl_transmitter := tx\<rparr>)) })"

definition TransportLayer_OnReceive :: "Message \<Rightarrow> TransportLayer \<Rightarrow> (bool \<times> TransportLayer) option" where
  "TransportLayer_OnReceive message t =
     (if tl_isOnline t
      then do {
        (asdu, rx) \<leftarrow> ProcessReceive message (tl_receiver t);
        let t = t\<lparr>tl_receiver := rx\<rparr>;
        Some (True, if msg_payload asdu \<noteq> [] then to_upper (App_OnReceive asdu) t else t) }
      else Some (False, t))"

definition TransportLayer_OnTxReady :: "TransportLayer \<Rightarrow> bool \<times> TransportLayer" where
  "TransportLayer_OnTxReady t =
     (if \<not> tl_isOnline t then (False, t)
      else if \<not> tl_isSending t then (False, t)
      else (True, to_upper App_OnTxReady (t\<lparr>tl_isSending := False\<rparr>)))"

definition TransportLayer_OnLowerLayerUp :: "TransportLayer \<Rightarrow> bool \<times> TransportLayer" where
  "TransportLayer_OnLowerLayerUp t =
     (if tl_isOnline t then (False, t)
      else (True, to_upper App_OnLowerLayerUp (t\<lparr>tl_isOnline := True\<rparr>)))"

definition TransportLayer_OnLowerLayerDown :: "TransportLayer \<Rightarrow> bool \<times> TransportLayer" where
  "TransportLayer_OnLowerLayerDown t =
     (if \<not> tl_isOnline t then (False, t)
      else (True, to_upper App_OnLowerLayerDown
              (t\<lparr>tl_isOnline := False, tl_isSending := False, tl_receiver := TransportRx_Reset (tl_receiver t)\<rparr>)))"

definition tl_wf :: "TransportLayer \<Rightarrow> bool" where
  "tl_wf t \<longleftrightarrow> rx_wf (tl_receiver t) \<and> tx_ready (tl_transmitter t) \<and> (tl_isSending t \<longrightarrow> tl_isOnline t)"

lemma tl_wf_init:
  "length tx = MAX_TPDU_LENGTH \<Longrightarrow> tl_wf (TransportLayer_init rx tx)"
  by (simp add: tl_wf_def TransportLayer_init_def rx_wf_def tx_ready_def TransportRx_init_def TransportTx_init_def)

lemma to_upper_wf [simp]: "tl_wf (to_upper a t) = tl_wf t" "tl_wf (tl_emit a t) = tl_wf t"
  by (simp_all add: tl_wf_def to_upper_def tl_emit_def)

lemma tx_ready_Configure: "TransportTx_Configure m t = Some t' \<Longrightarrow> tx_ready t \<Longrightarrow> tx_ready t'"
  by (auto simp: TransportTx_Configure_def tx_ready_def split: if_splits)

lemma TransportLayer_wf:
  assumes "tl_wf t"
  shows "\<exists>b t'. TransportLayer_BeginTransmit m t = Some (b, t') \<and> tl_wf t'"
    and "\<exists>b t'. TransportLayer_OnReceive m t = Some (b, t') \<and> tl_wf t'"
    and "tl_wf (snd (TransportLayer_OnTxReady t))"
    and "tl_wf (snd (TransportLayer_OnLowerLayerUp t))"
    and "tl_wf (snd (TransportLayer_OnLowerLayerDown t))"
proof -
  have wf: "rx_wf (tl_receiver t)" "tx_ready (tl_transmitter t)"
    using assms by (simp_all add: tl_wf_def)
  show "\<exists>b t'. TransportLayer_BeginTransmit m t = Some (b, t') \<and> tl_wf t'"
    using assms by (auto simp: TransportLayer_BeginTransmit_def TransportTx_Configure_def)
      (simp_all add: tl_wf_def tx_ready_def)
  show "\<exists>b t'. TransportLayer_OnReceive m t = Some (b, t') \<and> tl_wf t'"
    using assms ProcessReceive_refines_aux [OF wf(1), of m]
    by (auto simp: TransportLayer_OnReceive_def Let_def) (auto simp: tl_wf_def)
  show "tl_wf (snd (TransportLayer_OnTxReady t))" "tl_wf (snd (TransportLayer_OnLowerLayerUp t))"
      "tl_wf (snd (TransportLayer_OnLowerLayerDown t))"
    using assms
    by (auto simp: TransportLayer_OnTxReady_def TransportLayer_OnLowerLayerUp_def TransportLayer_OnLowerLayerDown_def)
      (simp_all add: tl_wf_def TransportRx_Reset_def ClearRxBuffer_def rx_wf_def)
qed


lemma tpdus_lengths: "d \<in> set (tpdus fir seq p) \<Longrightarrow> 0 < length d \<and> length d \<le> 250"
proof (induction fir seq p rule: tpdus.induct)
  case (1 fir seq p)
  then show ?case
    by (cases "length p \<le> 249") (auto simp: tpdus.simps [of fir seq p])
qed

section \<open>Properties of segmentation and reassembly\<close>

text \<open>The link layer's use of the transmitter: fetch a segment, advance, until nothing is left.\<close>

fun TransportTx_run :: "nat \<Rightarrow> TransportTx \<Rightarrow> (u8 list list \<times> TransportTx) option" where
  "TransportTx_run 0 t = Some ([], t)"
| "TransportTx_run (Suc n) t = do {
     (d, t) \<leftarrow> TransportTx_GetSegment t;
     let (more, t) = TransportTx_Advance t;
     (ds, t) \<leftarrow> (if more then TransportTx_run n t else Some ([], t));
     Some (d # ds, t) }"

lemma Advance_sequence: "tx_sequence (snd (TransportTx_Advance t)) = SequenceNum_Next 64 (tx_sequence t)"
  by (simp add: TransportTx_Advance_def Let_def)

lemma GetSegment_sequence: "TransportTx_GetSegment t = Some (d, t') \<Longrightarrow> tx_sequence t' = tx_sequence t"
  by (auto simp: TransportTx_GetSegment_def Let_def bind_eq_Some_conv split: option.splits)

lemma TransportTx_run_tpdus:
  assumes "tx_inv t" and "length (tx_segments t) \<le> n"
  shows "\<exists>t'. TransportTx_run n t = Some (tx_segments t, t') \<and> tx_ready t' \<and>
    tx_sequence t' = (SequenceNum_Next 64 ^^ length (tx_segments t)) (tx_sequence t)"
  using assms
proof (induction n arbitrary: t)
  case 0
  then show ?case by (simp add: tx_segments_def)
next
  case (Suc n)
  obtain t1 where t1: "TransportTx_GetSegment t = Some (hd (tx_segments t), t1)" "tx_inv t1"
      "tx_segments t1 = tx_segments t"
    using TransportTx_GetSegment_inv [OF Suc.prems(1)] by blast
  obtain more t2 where t2: "TransportTx_Advance t1 = (more, t2)" "more \<longleftrightarrow> tl (tx_segments t) \<noteq> []" "tx_ready t2"
      "more \<longrightarrow> tx_inv t2 \<and> tx_segments t2 = tl (tx_segments t)"
    using TransportTx_Advance_inv [OF t1(2)] t1(3) by auto
  have seq: "tx_sequence t2 = SequenceNum_Next 64 (tx_sequence t)"
    using Advance_sequence [of t1] GetSegment_sequence [OF t1(1)] t2(1) by simp
  have "tx_segments t \<noteq> []"
    by (simp add: tx_segments_def)
  then obtain d ds where ds: "tx_segments t = d # ds"
    by (cases "tx_segments t") auto
  show ?case
  proof (cases more)
    case False
    with t1 t2 ds seq show ?thesis by simp
  next
    case True
    with t2 ds have "tx_inv t2" "tx_segments t2 = ds"
      by simp_all
    with Suc.IH [of t2] Suc.prems(2) ds obtain t3 where "TransportTx_run n t2 = Some (ds, t3)" "tx_ready t3"
        "tx_sequence t3 = (SequenceNum_Next 64 ^^ length ds) (tx_sequence t2)"
      by auto
    with True t1 t2 ds seq show ?thesis
      by (simp add: funpow_swap1)
  qed
qed

lemma tpdus_count: "p \<noteq> [] \<Longrightarrow> length (tpdus fir seq p) = (length p + 248) div 249"
proof (induction fir seq p rule: tpdus.induct)
  case (1 fir seq p)
  show ?case
  proof (cases "length p \<le> 249")
    case True
    moreover have "Suc 0 \<le> length p" using 1(2) by (simp add: Suc_le_eq)
    ultimately have "(length p + 248) div 249 = 1"
      by (intro div_nat_eqI) simp_all
    with True show ?thesis by (simp add: tpdus.simps)
  next
    case False
    have eq: "length p + 248 = (length (drop 249 p) + 248) + 249" using False by simp
    from 1 False show ?thesis
      by (subst tpdus.simps) (simp only: eq div_add_self2, simp)
  qed
qed

lemma tpdus_payload: "concat (map tl (tpdus fir seq p)) = p"
proof (induction fir seq p rule: tpdus.induct)
  case (1 fir seq p)
  then show ?case by (subst tpdus.simps) simp
qed

lemma tpdus_headers:
  assumes "unat seq < 64" and "i < length (tpdus fir seq p)"
  shows "TransportHeader_of (hd (tpdus fir seq p ! i)) =
    \<lparr>th_fir = (i = 0 \<and> fir), th_fin = (Suc i = length (tpdus fir seq p)), th_seq = (SequenceNum_Next 64 ^^ i) seq\<rparr>"
  using assms
proof (induction fir seq p arbitrary: i rule: tpdus.induct)
  case (1 fir seq p)
  show ?case
  proof (cases "length p \<le> 249")
    case True
    with 1(2,3) show ?thesis
      by (simp add: tpdus.simps TransportHeader_roundtrip)
  next
    case False
    have eq: "tpdus fir seq p = (TransportHeader_ToByte fir False seq # take 249 p) #
        tpdus False (SequenceNum_Next 64 seq) (drop 249 p)"
      using False by (subst tpdus.simps) simp
    show ?thesis
    proof (cases i)
      case 0
      then show ?thesis
        using 1(2) by (simp add: eq TransportHeader_roundtrip)
    next
      case (Suc j)
      then have j: "j < length (tpdus False (SequenceNum_Next 64 seq) (drop 249 p))"
        using 1(3) by (simp add: eq)
      show ?thesis
        using 1(1) [OF False _ j] Suc by (simp add: eq SequenceNum_Next_less funpow_swap1)
    qed
  qed
qed

text \<open>C21: The transmitter splits a message into the fewest TPDUs of at most 249 payload bytes: fetching and
  advancing until nothing is left yields TPDUs whose payloads concatenate to the message, where
  exactly the first carries FIR, exactly the last FIN, and the sequence numbers count up modulo
  64 from the transmitter's sequence number, which continues from there with the next message.\<close>

theorem transport_segmentation:
  assumes "tx_ready t" and "TransportTx_Configure message t = Some t'"
    and "n = (length (msg_payload message) + 248) div 249"
  shows "\<exists>ds t''. TransportTx_run n t' = Some (ds, t'') \<and> tx_ready t'' \<and> length ds = n \<and>
    concat (map tl ds) = msg_payload message \<and>
    unat (tx_sequence t'') = (unat (tx_sequence t) + n) mod 64 \<and>
    (\<forall>i < n. 0 < length (ds ! i) \<and> length (ds ! i) \<le> 250 \<and>
       (\<exists>h. TransportHeader_of (hd (ds ! i)) = h \<and> th_fir h = (i = 0) \<and> th_fin h = (Suc i = n) \<and>
         unat (th_seq h) = (unat (tx_sequence t) + i) mod 64))"
proof -
  define ds where "ds = tpdus True (tx_sequence t) (msg_payload message)"
  have p: "msg_payload message \<noteq> []" and seq: "unat (tx_sequence t) < 64" "tx_sequence t' = tx_sequence t"
    using assms(1,2) by (auto simp: TransportTx_Configure_def tx_ready_def split: if_splits)
  have inv: "tx_inv t'" "tx_segments t' = ds"
    using Configure_inv [OF assms(1) p] assms(2) by (auto simp: ds_def)
  have len: "length ds = n"
    using tpdus_count [OF p] assms(3) by (simp add: ds_def)
  obtain t'' where t'': "TransportTx_run n t' = Some (ds, t'')" "tx_ready t''"
      "tx_sequence t'' = (SequenceNum_Next 64 ^^ n) (tx_sequence t)"
    using TransportTx_run_tpdus [OF inv(1), of n] inv(2) len seq(2) by auto
  have "\<forall>i < n. 0 < length (ds ! i) \<and> length (ds ! i) \<le> 250 \<and>
      TransportHeader_of (hd (ds ! i)) =
        \<lparr>th_fir = (i = 0), th_fin = (Suc i = n), th_seq = (SequenceNum_Next 64 ^^ i) (tx_sequence t)\<rparr>"
    using tpdus_headers [OF seq(1), of _ True "msg_payload message"] tpdus_lengths [OF nth_mem] len
    by (simp add: ds_def)
  with t'' len seq(1) show ?thesis
    by (intro exI [of _ ds] exI [of _ t'']) (simp add: SequenceNum_Next_pow tpdus_payload ds_def)
qed

lemma example_message_length: "length (msg_payload \<lparr>msg_addresses = a, msg_payload = replicate 600 b\<rparr>) = 600"
  by simp

theorem transport_segmentation_witness:
  "\<exists>ds t''. TransportTx_run 3 ((TransportTx_init (replicate 250 0))\<lparr>
      tx_message := \<lparr>msg_addresses = \<lparr>addr_source = 1, addr_destination = 2\<rparr>, msg_payload = replicate 600 7\<rparr>\<rparr>) =
      Some (ds, t'') \<and> concat (map tl ds) = replicate 600 7"
proof -
  define m where "m = \<lparr>msg_addresses = \<lparr>addr_source = 1, addr_destination = 2\<rparr>, msg_payload = replicate 600 (7::u8)\<rparr>"
  have len: "length (msg_payload m) = 600"
    by (simp add: m_def)
  have "msg_payload m \<noteq> []"
    using len by (simp flip: length_greater_0_conv)
  then have "TransportTx_Configure m (TransportTx_init (replicate 250 0)) =
      Some ((TransportTx_init (replicate 250 0))\<lparr>tx_message := m\<rparr>)"
    by (simp add: TransportTx_Configure_def TransportTx_init_def)
  moreover have "tx_ready (TransportTx_init (replicate 250 0))"
    by (simp add: tx_ready_def TransportTx_init_def MAX_TPDU_LENGTH_def)
  moreover have "3 = (length (msg_payload m) + 248) div 249"
    by (simp add: len)
  ultimately have "\<exists>ds t''. TransportTx_run 3 ((TransportTx_init (replicate 250 0))\<lparr>tx_message := m\<rparr>) = Some (ds, t'') \<and>
      concat (map tl ds) = msg_payload m"
    using transport_segmentation [of "TransportTx_init (replicate 250 0)" m _ 3] by blast
  then show ?thesis
    by (simp add: m_def)
qed

text \<open>C22: The receiver refines its specification: on every segment, well formed or not, processing
  succeeds without leaving the receive buffer, keeps the bytes-received counter within it, and
  acts on the reassembled bytes, expected addresses and expected sequence number exactly as
  \<open>rx_spec_step\<close>: FIR restarts, a wrong sequence number or address is ignored, an overflow
  drops the fragment, FIN delivers it.\<close>

theorem transport_rx_refines:
  assumes "rx_wf r"
  shows "\<exists>m r'. ProcessReceive seg r = Some (m, r') \<and> rx_wf r' \<and> length (rxBuffer r') = length (rxBuffer r) \<and>
    rx_spec_step (length (rxBuffer r)) seg (rx_abstract r) = (m, rx_abstract r')"
  using ProcessReceive_refines_aux [OF assms, of seg] by metis

theorem transport_rx_refines_witness:
  "\<exists>m r'. ProcessReceive \<lparr>msg_addresses = \<lparr>addr_source = 1, addr_destination = 2\<rparr>, msg_payload = [0xC0, 5, 6]\<rparr>
      (TransportRx_init [0, 0, 0, 0]) = Some (m, r') \<and>
    rx_spec_step (length (rxBuffer (TransportRx_init [0, 0, 0, 0])))
      \<lparr>msg_addresses = \<lparr>addr_source = 1, addr_destination = 2\<rparr>, msg_payload = [0xC0, 5, 6]\<rparr>
      (rx_abstract (TransportRx_init [0, 0, 0, 0])) = (m, rx_abstract r')"
  using transport_rx_refines [of "TransportRx_init [0, 0, 0, 0]"] by (force simp: rx_wf_def TransportRx_init_def)

text \<open>C28: The transport layer is total and keeps its invariant: no call from above or below fails an
  assertion or leaves a buffer, a transmission is accepted only while online and not already sending,
  and going offline ends the transmission and discards the partial fragment.\<close>

theorem transport_layer_safe:
  assumes "tl_wf t"
  shows "(\<exists>b t'. TransportLayer_BeginTransmit m t = Some (b, t') \<and> tl_wf t' \<and>
       b = (tl_isOnline t \<and> msg_payload m \<noteq> [] \<and> \<not> tl_isSending t \<and> tl_lower t) \<and> (\<not> b \<longrightarrow> t' = t) \<and>
       (b \<longrightarrow> tl_isSending t' \<and> tl_trace t' = tl_trace t @ [Lower_Send (tl_transmitter t')] \<and> tx_inv (tl_transmitter t'))) \<and>
    (\<exists>b t'. TransportLayer_OnReceive m t = Some (b, t') \<and> tl_wf t' \<and> b = tl_isOnline t) \<and>
    tl_wf (snd (TransportLayer_OnTxReady t)) \<and> \<not> tl_isSending (snd (TransportLayer_OnTxReady t)) \<and>
    tl_wf (snd (TransportLayer_OnLowerLayerUp t)) \<and> tl_isOnline (snd (TransportLayer_OnLowerLayerUp t)) \<and>
    tl_wf (snd (TransportLayer_OnLowerLayerDown t)) \<and>
    (let t' = snd (TransportLayer_OnLowerLayerDown t)
     in \<not> tl_isOnline t' \<and> \<not> tl_isSending t' \<and> (tl_isOnline t \<longrightarrow> rx_partial (tl_receiver t') = []))"
proof -
  have ready: "tx_ready (tl_transmitter t)" "tl_isSending t \<longrightarrow> tl_isOnline t"
    using assms by (simp_all add: tl_wf_def)
  have "\<exists>b t'. TransportLayer_BeginTransmit m t = Some (b, t') \<and> tl_wf t' \<and>
       b = (tl_isOnline t \<and> msg_payload m \<noteq> [] \<and> \<not> tl_isSending t \<and> tl_lower t) \<and> (\<not> b \<longrightarrow> t' = t) \<and>
       (b \<longrightarrow> tl_isSending t' \<and> tl_trace t' = tl_trace t @ [Lower_Send (tl_transmitter t')] \<and> tx_inv (tl_transmitter t'))"
  proof (cases "tl_isOnline t \<and> msg_payload m \<noteq> [] \<and> \<not> tl_isSending t \<and> tl_lower t")
    case False
    then have "TransportLayer_BeginTransmit m t = Some (False, t)"
      by (auto simp: TransportLayer_BeginTransmit_def)
    with False assms show ?thesis by simp
  next
    case True
    obtain x where x: "TransportTx_Configure m (tl_transmitter t) = Some x" "tx_inv x"
      using Configure_inv [OF ready(1)] True by blast
    then have "TransportLayer_BeginTransmit m t =
        Some (True, tl_emit (Lower_Send x) (t\<lparr>tl_isSending := True, tl_transmitter := x\<rparr>))"
      using True by (simp add: TransportLayer_BeginTransmit_def)
    moreover have "tl_wf (tl_emit (Lower_Send x) (t\<lparr>tl_isSending := True, tl_transmitter := x\<rparr>))"
      using TransportLayer_wf(1) [OF assms, of m] calculation by auto
    ultimately show ?thesis
      using True x(2)
      by (intro exI [of _ True] exI [of _ "tl_emit (Lower_Send x) (t\<lparr>tl_isSending := True, tl_transmitter := x\<rparr>)"])
        (simp add: tl_emit_def)
  qed
  moreover have "\<exists>b t'. TransportLayer_OnReceive m t = Some (b, t') \<and> tl_wf t' \<and> b = tl_isOnline t"
    using TransportLayer_wf(2) [OF assms, of m]
    by (auto simp: TransportLayer_OnReceive_def bind_eq_Some_conv Let_def split: if_splits)
  ultimately show ?thesis
    using TransportLayer_wf(3,4,5) [OF assms] ready(2)
    by (auto simp: TransportLayer_OnTxReady_def TransportLayer_OnLowerLayerUp_def TransportLayer_OnLowerLayerDown_def
        to_upper_def tl_emit_def TransportRx_Reset_def ClearRxBuffer_def Let_def)
qed

theorem transport_layer_safe_witness:
  "tl_wf (snd (TransportLayer_OnLowerLayerDown (TransportLayer_init (replicate 2048 0) (replicate 250 0))))"
proof -
  have "tl_wf (TransportLayer_init (replicate 2048 0) (replicate 250 0))"
    by (intro tl_wf_init) (simp add: MAX_TPDU_LENGTH_def)
  from transport_layer_safe [OF this] show ?thesis by blast
qed

end
