(* ===== verification/LinkBehaviour.thy ===== *)
theory LinkBehaviour
  imports Transport
begin

text \<open>
  Functional behaviour of the link layer session over its invariant: the frames a send
  operation puts on the line, the frame count bit on both sides, retries, and the stability of
  the transmit buffers while they are in use.
\<close>

section \<open>Unconfirmed send operations\<close>

definition unconfirmed_frame :: "bool \<Rightarrow> Addresses \<Rightarrow> u8 list \<Rightarrow> u8 list" where
  "unconfirmed_frame master a d =
     frame_bytes (frame_header (length d) master False False PRI_UNCONFIRMED_USER_DATA
       (addr_destination a) (addr_source a)) d"

definition confirmed_frame :: "bool \<Rightarrow> bool \<Rightarrow> Addresses \<Rightarrow> u8 list \<Rightarrow> u8 list" where
  "confirmed_frame master fcb a d =
     frame_bytes (frame_header (length d) master fcb True PRI_CONFIRMED_USER_DATA
       (addr_destination a) (addr_source a)) d"

fun LinkLayer_TxReadys :: "'s segment_ops \<Rightarrow> nat \<Rightarrow> 's LinkContext \<Rightarrow> 's LinkContext option" where
  "LinkLayer_TxReadys ops 0 ctx = Some ctx"
| "LinkLayer_TxReadys ops (Suc n) ctx = do {
     (_, ctx) \<leftarrow> LinkLayer_OnTxReady ops ctx;
     LinkLayer_TxReadys ops n ctx }"

lemma format_unconfirmed:
  assumes "length (priTxBuffer ctx) = 292" and "0 < length d" and "length d \<le> 250"
  shows "\<exists>b. FormatPrimaryBufferWithUnconfirmed a d ctx =
      Some (PriSlice (length (unconfirmed_frame (IsMaster (config ctx)) a d)), ctx\<lparr>priTxBuffer := b\<rparr>) \<and>
    length b = 292 \<and>
    take (length (unconfirmed_frame (IsMaster (config ctx)) a d)) b = unconfirmed_frame (IsMaster (config ctx)) a d"
proof -
  have u8: "unat (of_nat (length d) :: u8) = length d"
    using assms(3) by (intro unat_of_nat_u8) simp
  have "CalcFrameSize (length d) \<le> 292"
    using CalcFrameSize_bounds(2) [OF assms(3)] by (simp add: LPDU_MAX_FRAME_SIZE_def)
  with FormatUnconfirmedUserData_mkw [OF assms(2,3), of d "priTxBuffer ctx" "[]" "[]"] assms(1) show ?thesis
    by (intro exI [of _ "unconfirmed_frame (IsMaster (config ctx)) a d @ drop (CalcFrameSize (length d)) (priTxBuffer ctx)"])
      (simp add: FormatPrimaryBufferWithUnconfirmed_def u8 GetWSlice_mkw Let_def unconfirmed_frame_def)
qed

lemma format_confirmed:
  assumes "length (priTxBuffer ctx) = 292" and "0 < length d" and "length d \<le> 250"
  shows "\<exists>b. FormatPrimaryBufferWithConfirmed a d fcb ctx =
      Some (PriSlice (length (confirmed_frame (IsMaster (config ctx)) fcb a d)), ctx\<lparr>priTxBuffer := b\<rparr>) \<and>
    length b = 292 \<and>
    take (length (confirmed_frame (IsMaster (config ctx)) fcb a d)) b = confirmed_frame (IsMaster (config ctx)) fcb a d"
proof -
  have u8: "unat (of_nat (length d) :: u8) = length d"
    using assms(3) by (intro unat_of_nat_u8) simp
  have "CalcFrameSize (length d) \<le> 292"
    using CalcFrameSize_bounds(2) [OF assms(3)] by (simp add: LPDU_MAX_FRAME_SIZE_def)
  with FormatConfirmedUserData_mkw [OF assms(2,3), of d "priTxBuffer ctx" "[]" "[]"] assms(1) show ?thesis
    by (intro exI [of _ "confirmed_frame (IsMaster (config ctx)) fcb a d @ drop (CalcFrameSize (length d)) (priTxBuffer ctx)"])
      (simp add: FormatPrimaryBufferWithConfirmed_def u8 GetWSlice_mkw Let_def confirmed_frame_def)
qed

context transport_segment
begin

lemma SendUnconfirmedSegment_eq:
  assumes "txMode ctx = TxIdle" and "length (priTxBuffer ctx) = 292" and "seg_inv s"
  shows "\<exists>b s'. SendUnconfirmedSegment ops s ctx = Some (ctx\<lparr>priTxBuffer := b, pSegments := Some s', txMode := TxPrimary,
      lc_trace := lc_trace ctx @ [BeginTransmit (unconfirmed_frame (IsMaster (config ctx)) (GetAddresses ops s) (hd (segs s)))]\<rparr>) \<and>
    length b = 292 \<and> seg_inv s' \<and> segs s' = segs s \<and> GetAddresses ops s' = GetAddresses ops s"
proof -
  obtain d s' where seg: "GetSegment ops s = Some (d, s')" "seg_inv s'" "segs s' = segs s"
      "GetAddresses ops s' = GetAddresses ops s" "d = hd (segs s)" "0 < length d" "length d \<le> 250"
    using GetSegment_ok [OF assms(3)] by blast
  obtain b where "FormatPrimaryBufferWithUnconfirmed (GetAddresses ops s) d ctx =
      Some (PriSlice (length (unconfirmed_frame (IsMaster (config ctx)) (GetAddresses ops s) d)), ctx\<lparr>priTxBuffer := b\<rparr>)"
      "length b = 292" "take (length (unconfirmed_frame (IsMaster (config ctx)) (GetAddresses ops s) d)) b =
        unconfirmed_frame (IsMaster (config ctx)) (GetAddresses ops s) d"
    using format_unconfirmed [OF assms(2) seg(6,7)] by blast
  with seg assms(1) show ?thesis
    by (intro exI [of _ b] exI [of _ s'])
      (simp add: SendUnconfirmedSegment_def QueueTransmit_def emit_def slice_bytes_def)
qed

text \<open>The state between two frames of an unconfirmed send operation that has the line to itself.\<close>

definition sending_unconfirmed :: "'s LinkContext \<Rightarrow> 's \<Rightarrow> bool" where
  "sending_unconfirmed ctx s \<longleftrightarrow>
     isOnline ctx \<and> \<not> UseConfirms (config ctx) \<and> pPriState ctx = PLLS_SendUnconfirmedTransmitWait \<and>
     txMode ctx = TxPrimary \<and> pendingPriTx ctx = None \<and> pendingSecTx ctx = None \<and>
     pSegments ctx = Some s \<and> seg_inv s \<and> length (priTxBuffer ctx) = 292 \<and> \<not> keepAliveTimeout ctx"

lemma Send_unconfirmed:
  assumes "link_inv seg_inv ctx" and "isOnline ctx" and "\<not> UseConfirms (config ctx)"
    and "pPriState ctx = PLLS_Idle" and "txMode ctx = TxIdle" and "seg_inv s"
  shows "\<exists>ctx' s'. LinkLayer_Send ops s ctx = Some (True, ctx') \<and> sending_unconfirmed ctx' s' \<and>
    segs s' = segs s \<and> GetAddresses ops s' = GetAddresses ops s \<and> config ctx' = config ctx \<and>
    lc_trace ctx' = lc_trace ctx @
      [BeginTransmit (unconfirmed_frame (IsMaster (config ctx)) (GetAddresses ops s) (hd (segs s)))]"
proof -
  have facts: "pSegments ctx = None" "\<not> keepAliveTimeout ctx" "length (priTxBuffer ctx) = 292"
      "pendingPriTx ctx = None" "pendingSecTx ctx = None"
    using assms by (auto simp: link_inv_def link_core_def link_inv_at_def pri_pending_ok_def sec_pending_ok_def)
  obtain b s' where "SendUnconfirmedSegment ops s (ctx\<lparr>pSegments := Some s\<rparr>) =
      Some (ctx\<lparr>priTxBuffer := b, pSegments := Some s', txMode := TxPrimary, lc_trace := lc_trace ctx @
        [BeginTransmit (unconfirmed_frame (IsMaster (config ctx)) (GetAddresses ops s) (hd (segs s)))]\<rparr>)"
      "length b = 292" "seg_inv s'" "segs s' = segs s" "GetAddresses ops s' = GetAddresses ops s"
    using SendUnconfirmedSegment_eq [of "ctx\<lparr>pSegments := Some s\<rparr>" s] assms facts by auto
  with assms facts show ?thesis
    by (intro exI [of _ "ctx\<lparr>priTxBuffer := b, pSegments := Some s', txMode := TxPrimary, lc_trace := lc_trace ctx @
        [BeginTransmit (unconfirmed_frame (IsMaster (config ctx)) (GetAddresses ops s) (hd (segs s)))],
        pPriState := PLLS_SendUnconfirmedTransmitWait\<rparr>"] exI [of _ s'])
      (simp add: LinkLayer_Send_def SetTxSegment_def TryStartTransmission_def TrySendUnconfirmed_def set_pri_def
        sending_unconfirmed_def)
qed

lemma TxReady_unconfirmed:
  assumes "sending_unconfirmed ctx s"
  shows "tl (segs s) \<noteq> [] \<Longrightarrow> \<exists>ctx' s'. LinkLayer_OnTxReady ops ctx = Some (True, ctx') \<and>
      sending_unconfirmed ctx' s' \<and> segs s' = tl (segs s) \<and> GetAddresses ops s' = GetAddresses ops s \<and>
      config ctx' = config ctx \<and> lc_trace ctx' = lc_trace ctx @
        [BeginTransmit (unconfirmed_frame (IsMaster (config ctx)) (GetAddresses ops s) (hd (tl (segs s))))]"
    and "tl (segs s) = [] \<Longrightarrow> \<exists>ctx'. LinkLayer_OnTxReady ops ctx = Some (True, ctx') \<and>
      pPriState ctx' = PLLS_Idle \<and> txMode ctx' = TxIdle \<and> pSegments ctx' = None \<and>
      lc_trace ctx' = lc_trace ctx @ [Post_OnTxReady]"
proof -
  have st: "isOnline ctx" "\<not> UseConfirms (config ctx)" "pPriState ctx = PLLS_SendUnconfirmedTransmitWait"
      "txMode ctx = TxPrimary" "pendingPriTx ctx = None" "pendingSecTx ctx = None" "pSegments ctx = Some s"
      "seg_inv s" "length (priTxBuffer ctx) = 292" "\<not> keepAliveTimeout ctx"
    using assms by (simp_all add: sending_unconfirmed_def)
  have pending: "snd (TryPendingPriTx (snd (TryPendingSecTx (ctx\<lparr>txMode := TxIdle\<rparr>)))) = ctx\<lparr>txMode := TxIdle\<rparr>"
    using st by (simp add: TryPendingPriTx_def TryPendingSecTx_def)
  obtain more s1 where adv: "SegAdvance ops s = Some (more, s1)" "more \<longleftrightarrow> tl (segs s) \<noteq> []"
      "more \<longrightarrow> seg_inv s1 \<and> segs s1 = tl (segs s) \<and> GetAddresses ops s1 = GetAddresses ops s"
    using Advance_ok [OF st(8)] by blast
  {
    assume more: "tl (segs s) \<noteq> []"
    define f where "f = unconfirmed_frame (IsMaster (config ctx)) (GetAddresses ops s) (hd (tl (segs s)))"
    obtain b s' where "SendUnconfirmedSegment ops s1 (ctx\<lparr>txMode := TxIdle\<rparr>) =
        Some (ctx\<lparr>txMode := TxIdle, priTxBuffer := b, pSegments := Some s', txMode := TxPrimary,
          lc_trace := lc_trace ctx @ [BeginTransmit f]\<rparr>)"
        "length b = 292" "seg_inv s'" "segs s' = segs s1" "GetAddresses ops s' = GetAddresses ops s1"
      using SendUnconfirmedSegment_eq [of "ctx\<lparr>txMode := TxIdle\<rparr>" s1] st adv more by (auto simp: f_def)
    with st adv more show "\<exists>ctx' s'. LinkLayer_OnTxReady ops ctx = Some (True, ctx') \<and>
      sending_unconfirmed ctx' s' \<and> segs s' = tl (segs s) \<and> GetAddresses ops s' = GetAddresses ops s \<and>
      config ctx' = config ctx \<and> lc_trace ctx' = lc_trace ctx @ [BeginTransmit f]"
      by (simp add: LinkLayer_OnTxReady_def LinkContext_OnTxReady_def pending Pri_OnTxReady_def set_pri_def
          TryStartTransmission_def TrySendUnconfirmed_def sending_unconfirmed_def)
  next
    assume "tl (segs s) = []"
    with st adv show "\<exists>ctx'. LinkLayer_OnTxReady ops ctx = Some (True, ctx') \<and>
      pPriState ctx' = PLLS_Idle \<and> txMode ctx' = TxIdle \<and> pSegments ctx' = None \<and>
      lc_trace ctx' = lc_trace ctx @ [Post_OnTxReady]"
      by (simp add: LinkLayer_OnTxReady_def LinkContext_OnTxReady_def pending Pri_OnTxReady_def set_pri_def
          TryStartTransmission_def CompleteSendOperation_def release_segments_def emit_def)
  }
qed

lemma TxReadys_unconfirmed:
  assumes "sending_unconfirmed ctx s" and "segs s = d # ds"
  shows "\<exists>ctx'. LinkLayer_TxReadys ops (length (segs s)) ctx = Some ctx' \<and>
    pPriState ctx' = PLLS_Idle \<and> txMode ctx' = TxIdle \<and> pSegments ctx' = None \<and>
    lc_trace ctx' = lc_trace ctx @
      map (\<lambda>d. BeginTransmit (unconfirmed_frame (IsMaster (config ctx)) (GetAddresses ops s) d)) ds @ [Post_OnTxReady]"
  using assms
proof (induction ds arbitrary: ctx s d)
  case Nil
  with TxReady_unconfirmed(2) [of ctx s] show ?case by auto
next
  case (Cons e ds)
  obtain c s' where c: "LinkLayer_OnTxReady ops ctx = Some (True, c)" "sending_unconfirmed c s'"
      "segs s' = e # ds" "GetAddresses ops s' = GetAddresses ops s" "config c = config ctx"
      "lc_trace c = lc_trace ctx @ [BeginTransmit (unconfirmed_frame (IsMaster (config ctx)) (GetAddresses ops s) e)]"
    using TxReady_unconfirmed(1) [OF Cons.prems(1)] Cons.prems(2) by auto
  from Cons.IH [OF c(2,3)] c Cons.prems(2) show ?case
    by auto
qed

text \<open>An unconfirmed send operation puts one frame per segment on the line, in order, and completes.\<close>

lemma unconfirmed_send_completes:
  assumes "link_inv seg_inv ctx" and "isOnline ctx" and "\<not> UseConfirms (config ctx)"
    and "pPriState ctx = PLLS_Idle" and "txMode ctx = TxIdle" and "seg_inv s"
  shows "\<exists>ctx0 ctx'. LinkLayer_Send ops s ctx = Some (True, ctx0) \<and>
    LinkLayer_TxReadys ops (length (segs s)) ctx0 = Some ctx' \<and>
    pPriState ctx' = PLLS_Idle \<and> txMode ctx' = TxIdle \<and> pSegments ctx' = None \<and>
    lc_trace ctx' = lc_trace ctx @
      map (\<lambda>d. BeginTransmit (unconfirmed_frame (IsMaster (config ctx)) (GetAddresses ops s) d)) (segs s)
      @ [Post_OnTxReady]"
proof -
  have "segs s \<noteq> []"
    using GetSegment_ok [OF assms(6)] by blast
  then obtain d ds where ds: "segs s = d # ds"
    by (cases "segs s") auto
  obtain c s' where c: "LinkLayer_Send ops s ctx = Some (True, c)" "sending_unconfirmed c s'"
      "segs s' = d # ds" "GetAddresses ops s' = GetAddresses ops s" "config c = config ctx"
      "lc_trace c = lc_trace ctx @ [BeginTransmit (unconfirmed_frame (IsMaster (config ctx)) (GetAddresses ops s) d)]"
    using Send_unconfirmed [OF assms] ds by auto
  from TxReadys_unconfirmed [OF c(2,3)] c ds show ?thesis
    by auto
qed

end


section \<open>Confirmed data: the frame count bit and retries\<close>

text \<open>The user data delivered to the transport layer so far.\<close>

definition deliveries :: "link_action list \<Rightarrow> (Addresses \<times> u8 list) list" where
  "deliveries t = List.map_filter (\<lambda>a. case a of Upper_OnReceive addr d \<Rightarrow> Some (addr, d) | _ \<Rightarrow> None) t"

lemma deliveries_append [simp]:
  "deliveries (t @ u) = deliveries t @ deliveries u"
  "deliveries [] = []"
  "deliveries (a # t) = (case a of Upper_OnReceive addr d \<Rightarrow> (addr, d) # deliveries t | _ \<Rightarrow> deliveries t)"
  by (auto simp: deliveries_def map_filter_def split: link_action.splits)

definition accepted_by :: "'s LinkContext \<Rightarrow> LinkHeaderFields \<Rightarrow> bool" where
  "accepted_by ctx h \<longleftrightarrow> isOnline ctx \<and> lf_isFromMaster h \<noteq> IsMaster (config ctx) \<and>
     lf_dest h = LocalAddr (config ctx) \<and> (lf_src h = RemoteAddr (config ctx) \<or> respondToAnySource (config ctx))"

lemma QueueAck_secondary:
  assumes "length (secTxBuffer ctx) = 10"
  shows "\<exists>ctx'. QueueAck dest ctx = Some ctx' \<and> nextReadFCB ctx' = nextReadFCB ctx \<and>
    deliveries (lc_trace ctx') = deliveries (lc_trace ctx) \<and> pPriState ctx' = pPriState ctx \<and>
    config ctx' = config ctx \<and> isOnline ctx' = isOnline ctx"
proof -
  obtain b where "QueueAck dest ctx = Some (QueueTransmit (SecSlice 10) False (ctx\<lparr>secTxBuffer := b\<rparr>))"
    using QueueAck_ok [OF assms] by blast
  then show ?thesis
    by (simp add: QueueTransmit_def emit_def)
qed

lemma confirmed_data_reset:
  assumes "link_core I ctx" and "accepted_by ctx h" and "lf_func h = PRI_CONFIRMED_USER_DATA"
    and "pSecState ctx = SLLS_Reset"
  shows "\<exists>ctx'. LinkContext_OnFrame ops h d ctx = Some (True, ctx') \<and>
    pSecState ctx' = SLLS_TransmitWaitReset \<and> nextReadFCB ctx' = (\<not> lf_fcb h) \<and>
    deliveries (lc_trace ctx') = deliveries (lc_trace ctx) @
      (if lf_fcb h = nextReadFCB ctx then [(ToAddresses h, d)] else [])"
proof -
  define c where "c = ctx\<lparr>lastMessageTimestamp := executor_time ctx\<rparr>"
  have "length (secTxBuffer c) = 10"
    using assms(1) by (simp add: c_def link_core_def link_inv_at_def)
  then obtain c' where c': "QueueAck (lf_src h) c = Some c'" "nextReadFCB c' = nextReadFCB ctx"
      "deliveries (lc_trace c') = deliveries (lc_trace ctx)"
    using QueueAck_secondary [of c "lf_src h"] by (auto simp: c_def)
  have "Sec_OnConfirmedUserData (lf_src h) (lf_fcb h) (ToAddresses h) d c = Some (SLLS_TransmitWaitReset,
      if nextReadFCB ctx = lf_fcb h then PushDataUp (ToAddresses h) d (ToggleReadFCB c') else c')"
    using c' assms(4) by (simp add: Sec_OnConfirmedUserData_def c_def)
  with assms(2,3) c' show ?thesis
    by (auto simp: LinkContext_OnFrame_def dispatch_frame_def set_sec_def accepted_by_def PushDataUp_def
        emit_def ToggleReadFCB_def simp flip: c_def)
qed

text \<open>A response timeout either repeats the transmission and uses up a retry, or ends the operation.\<close>

lemma Retry_cases:
  "Retry ctx = (if numRetryRemaining ctx > 0 then (True, ctx\<lparr>numRetryRemaining := numRetryRemaining ctx - 1\<rparr>)
     else (False, ctx))"
  by (simp add: Retry_def)

lemma TryStart_no_segment:
  assumes "pSegments ctx = None" and "TryStartTransmission ops ctx = Some ctx'"
  shows "pSegments ctx' = None \<and> (\<exists>t. lc_trace ctx' = lc_trace ctx @ t)"
proof (cases "keepAliveTimeout ctx")
  case False
  with assms show ?thesis by (simp add: TryStartTransmission_def)
next
  case True
  show ?thesis
  proof (cases "pPriState ctx = PLLS_Idle")
    case True
    with \<open>keepAliveTimeout ctx\<close> assms show ?thesis
      by (auto simp: TryStartTransmission_def TrySendRequestLinkStatus_def set_pri_def bind_eq_Some_conv
          QueueRequestLinkStatus_def QueueTransmit_def emit_def split: if_splits)
  next
    case False
    with \<open>keepAliveTimeout ctx\<close> assms show ?thesis
      by (cases "pPriState ctx") (auto simp: TryStartTransmission_def TrySendRequestLinkStatus_def set_pri_def)
  qed
qed

context transport_segment
begin

lemma SendConfirmedSegment_eq:
  assumes "txMode ctx = TxIdle" and "length (priTxBuffer ctx) = 292" and "seg_inv s"
  shows "\<exists>b s'. SendConfirmedSegment ops s ctx = Some (ctx\<lparr>priTxBuffer := b, pSegments := Some s', txMode := TxPrimary,
      lc_trace := lc_trace ctx @ [BeginTransmit (confirmed_frame (IsMaster (config ctx)) (nextWriteFCB ctx)
        (GetAddresses ops s) (hd (segs s)))]\<rparr>) \<and>
    length b = 292 \<and> seg_inv s' \<and> segs s' = segs s \<and> GetAddresses ops s' = GetAddresses ops s"
proof -
  obtain d s' where seg: "GetSegment ops s = Some (d, s')" "seg_inv s'" "segs s' = segs s"
      "GetAddresses ops s' = GetAddresses ops s" "d = hd (segs s)" "0 < length d" "length d \<le> 250"
    using GetSegment_ok [OF assms(3)] by blast
  obtain b where "FormatPrimaryBufferWithConfirmed (GetAddresses ops s) d (nextWriteFCB ctx) ctx =
      Some (PriSlice (length (confirmed_frame (IsMaster (config ctx)) (nextWriteFCB ctx) (GetAddresses ops s) d)),
        ctx\<lparr>priTxBuffer := b\<rparr>)"
      "length b = 292" "take (length (confirmed_frame (IsMaster (config ctx)) (nextWriteFCB ctx) (GetAddresses ops s) d)) b =
        confirmed_frame (IsMaster (config ctx)) (nextWriteFCB ctx) (GetAddresses ops s) d"
    using format_confirmed [OF assms(2) seg(6,7), of "GetAddresses ops s" "nextWriteFCB ctx"] by blast
  with seg assms(1) show ?thesis
    by (intro exI [of _ b] exI [of _ s'])
      (simp add: SendConfirmedSegment_def QueueTransmit_def emit_def slice_bytes_def)
qed

lemma TrySend_busy:
  assumes "pPriState ctx \<noteq> PLLS_Idle"
  shows "TryStartTransmission ops ctx = Some ctx"
proof -
  have "ctx\<lparr>pPriState := pPriState ctx\<rparr> = ctx" by simp
  then show ?thesis
    using assms
    by (cases "pPriState ctx"; cases "pSegments ctx")
      (simp_all add: TryStartTransmission_def TrySendRequestLinkStatus_def TrySendConfirmed_def
        TrySendUnconfirmed_def set_pri_def)
qed

lemma confirmed_timeout:
  assumes inv: "link_inv seg_inv ctx" and st: "pPriState ctx = PLLS_ConfDataWait" and idle: "txMode ctx = TxIdle"
    and ops': "pSegments ctx = Some s"
  shows "numRetryRemaining ctx > 0 \<Longrightarrow> \<exists>ctx'. ResponseTimer_fires ops ctx = Some ctx' \<and>
      pPriState ctx' = PLLS_ConfUserDataTransmitWait \<and> nextWriteFCB ctx' = nextWriteFCB ctx \<and>
      numRetryRemaining ctx' = numRetryRemaining ctx - 1 \<and>
      lc_trace ctx' = lc_trace ctx @ [BeginTransmit (confirmed_frame (IsMaster (config ctx)) (nextWriteFCB ctx)
        (GetAddresses ops s) (hd (segs s)))]"
    and "numRetryRemaining ctx = 0 \<Longrightarrow> \<exists>ctx'. ResponseTimer_fires ops ctx = Some ctx' \<and>
      pSegments ctx' = None \<and> (\<exists>t. lc_trace ctx' = lc_trace ctx @ [OnStateChange UNRESET, Post_OnTxReady] @ t)"
proof -
  have at: "link_inv_at seg_inv PLLS_ConfDataWait (pSecState ctx) ctx"
    using inv st by (simp add: link_inv_def link_core_def)
  have s: "seg_inv s" "length (priTxBuffer ctx) = 292"
    using at ops' by (simp_all add: link_inv_at_def)
  define c where "c = ctx\<lparr>rspTimeoutTimer := None\<rparr>"
  {
    assume retry: "numRetryRemaining ctx > 0"
    define c1 where "c1 = c\<lparr>numRetryRemaining := numRetryRemaining ctx - 1\<rparr>"
    obtain b s' where "SendConfirmedSegment ops s c1 = Some (c1\<lparr>priTxBuffer := b, pSegments := Some s', txMode := TxPrimary,
      lc_trace := lc_trace ctx @ [BeginTransmit (confirmed_frame (IsMaster (config ctx)) (nextWriteFCB ctx)
        (GetAddresses ops s) (hd (segs s)))]\<rparr>)"
      using SendConfirmedSegment_eq [of c1 s] s idle by (auto simp: c1_def c_def)
    moreover have "Retry c = (True, c1)" "pPriState c = PLLS_ConfDataWait" "pSegments c1 = Some s"
      using retry st ops' by (simp_all add: Retry_def c1_def c_def)
    ultimately show "\<exists>ctx'. ResponseTimer_fires ops ctx = Some ctx' \<and>
      pPriState ctx' = PLLS_ConfUserDataTransmitWait \<and> nextWriteFCB ctx' = nextWriteFCB ctx \<and>
      numRetryRemaining ctx' = numRetryRemaining ctx - 1 \<and>
      lc_trace ctx' = lc_trace ctx @ [BeginTransmit (confirmed_frame (IsMaster (config ctx)) (nextWriteFCB ctx)
        (GetAddresses ops s) (hd (segs s)))]"
      by (simp add: ResponseTimer_fires_def TimerRef_fire_def OnResponseTimeout_def Pri_OnTimeout_def set_pri_def
          TrySend_busy flip: c_def) (simp add: c1_def c_def)
  next
    assume no_retry: "numRetryRemaining ctx = 0"
    show "\<exists>ctx'. ResponseTimer_fires ops ctx = Some ctx' \<and>
      pSegments ctx' = None \<and> (\<exists>t. lc_trace ctx' = lc_trace ctx @ [OnStateChange UNRESET, Post_OnTxReady] @ t)"
    proof -
      have "TimerRef_IsActive (rspTimeoutTimer ctx)"
        using at by (simp add: link_inv_at_def TimerRef_IsActive_def state_kinds)
      then obtain ctx' where run: "ResponseTimer_fires ops ctx = Some ctx'"
        using ResponseTimer_fires_inv [OF inv] by blast
      define e where "e = (CompleteSendOperation (emit (OnStateChange UNRESET) c))\<lparr>pPriState := PLLS_Idle\<rparr>"
      have "Retry c = (False, c)" "pPriState c = PLLS_ConfDataWait"
        using no_retry st by (simp_all add: Retry_def c_def)
      then have "TryStartTransmission ops e = Some ctx'"
        using run by (simp add: ResponseTimer_fires_def TimerRef_fire_def OnResponseTimeout_def
            Pri_OnTimeout_def set_pri_def e_def flip: c_def)
      moreover have "pSegments e = None" "lc_trace e = lc_trace ctx @ [OnStateChange UNRESET, Post_OnTxReady]"
        by (simp_all add: e_def CompleteSendOperation_def release_segments_def emit_def c_def)
      ultimately show ?thesis
        using TryStart_no_segment [of e ops ctx'] run by auto
    qed
  }
qed

end


section \<open>Transmit buffers are stable while in use\<close>

text \<open>
  The physical layer reads a transmit buffer between \<open>BeginTransmit\<close> and \<open>OnTxReady\<close>, and a
  pending slice is read later still. Neither station writes its buffer in that time.
\<close>

definition keeps_pri :: "'s LinkContext \<Rightarrow> 's LinkContext \<Rightarrow> bool" where
  "keeps_pri ctx ctx' \<longleftrightarrow> priTxBuffer ctx' = priTxBuffer ctx \<and> pPriState ctx' = pPriState ctx"

definition keeps_sec :: "'s LinkContext \<Rightarrow> 's LinkContext \<Rightarrow> bool" where
  "keeps_sec ctx ctx' \<longleftrightarrow> secTxBuffer ctx' = secTxBuffer ctx \<and> pSecState ctx' = pSecState ctx"

lemma queue_keeps_pri:
  "QueueAck dest ctx = Some ctx' \<Longrightarrow> keeps_pri ctx ctx'"
  "QueueLinkStatus dest ctx = Some ctx' \<Longrightarrow> keeps_pri ctx ctx'"
  by (auto simp: QueueAck_def QueueLinkStatus_def QueueTransmit_def emit_def keeps_pri_def bind_eq_Some_conv
      split: if_splits)

lemma keeps_pri_helpers [simp]:
  "keeps_pri ctx ctx" "keeps_pri ctx (unexpected_frame ctx') = keeps_pri ctx ctx'"
  "keeps_pri ctx (ToggleReadFCB ctx') = keeps_pri ctx ctx'" "keeps_pri ctx (ResetReadFCB ctx') = keeps_pri ctx ctx'"
  "keeps_pri ctx (PushDataUp a d ctx') = keeps_pri ctx ctx'" "keeps_pri ctx (emit x ctx') = keeps_pri ctx ctx'"
  "keeps_pri ctx (ctx'\<lparr>pSecState := q\<rparr>) = keeps_pri ctx ctx'"
  "keeps_pri ctx (ctx'\<lparr>link_statistics := st\<rparr>) = keeps_pri ctx ctx'"
  by (simp_all add: keeps_pri_def unexpected_frame_def ToggleReadFCB_def ResetReadFCB_def PushDataUp_def emit_def)

lemma sec_handlers_keep_pri:
  "Sec_OnTestLinkStatus src fcb ctx = Some (q, ctx') \<Longrightarrow> keeps_pri ctx ctx'"
  "Sec_OnConfirmedUserData src fcb addr d ctx = Some (q, ctx') \<Longrightarrow> keeps_pri ctx ctx'"
  "Sec_OnResetLinkStates src ctx = Some (q, ctx') \<Longrightarrow> keeps_pri ctx ctx'"
  "Sec_OnRequestLinkStatus src ctx = Some (q, ctx') \<Longrightarrow> keeps_pri ctx ctx'"
  by (auto simp: Sec_OnTestLinkStatus_def Sec_OnConfirmedUserData_def Sec_OnResetLinkStates_def
      Sec_OnRequestLinkStatus_def bind_eq_Some_conv split: SecState.splits if_splits dest: queue_keeps_pri)

lemma pri_busy_handlers:
  assumes "pri_transmit_wait (pPriState ctx)"
  shows "Pri_OnAck ops full ctx = Some (pPriState ctx, unexpected_frame ctx)"
    and "Pri_OnNack ops full ctx = Some (pPriState ctx, unexpected_frame ctx)"
    and "Pri_OnLinkStatus full ctx = Some (pPriState ctx, unexpected_frame ctx)"
    and "Pri_OnNotSupported full ctx = Some (pPriState ctx, unexpected_frame ctx)"
  using assms
  by (auto simp: state_kinds Pri_OnAck_def Pri_OnNack_def Pri_OnLinkStatus_def Pri_OnNotSupported_def)

lemma dispatch_keeps_pri:
  assumes "pri_transmit_wait (pPriState ctx)" and "dispatch_frame ops h d ctx = Some ctx'"
  shows "keeps_pri ctx ctx'"
  using assms(2) pri_busy_handlers [OF assms(1)]
  by (cases "lf_func h")
    (auto simp: dispatch_frame_def set_pri_def set_sec_def unexpected_frame_def PushDataUp_def emit_def
      dest!: sec_handlers_keep_pri simp: keeps_pri_def)

lemma OnFrame_keeps_pri:
  assumes "pri_transmit_wait (pPriState ctx)" and "LinkContext_OnFrame ops h d ctx = Some (b, ctx')"
  shows "keeps_pri ctx ctx'"
proof -
  define c where "c = ctx\<lparr>lastMessageTimestamp := executor_time ctx\<rparr>"
  have "keeps_pri ctx ctx'" if "dispatch_frame ops h d c = Some ctx'"
    using dispatch_keeps_pri [of c ops h d ctx'] assms(1) that by (simp add: c_def keeps_pri_def)
  with assms(2) show ?thesis
    unfolding LinkContext_OnFrame_def
    by (auto simp: emit_def keeps_pri_def bind_eq_Some_conv simp flip: c_def split: if_splits)
qed

lemma sec_busy_handlers:
  assumes "sec_transmit_wait (pSecState ctx)"
  shows "Sec_OnTestLinkStatus src fcb ctx = Some (pSecState ctx, ctx)"
    and "Sec_OnConfirmedUserData src fcb addr d ctx = Some (pSecState ctx, ctx)"
    and "Sec_OnResetLinkStates src ctx = Some (pSecState ctx, ctx)"
    and "Sec_OnRequestLinkStatus src ctx = Some (pSecState ctx, ctx)"
  using assms
  by (auto simp: state_kinds Sec_OnTestLinkStatus_def Sec_OnConfirmedUserData_def
      Sec_OnResetLinkStates_def Sec_OnRequestLinkStatus_def)

lemma queue_keeps_sec:
  "QueueResetLinks dest ctx = Some ctx' \<Longrightarrow> keeps_sec ctx ctx'"
  "QueueRequestLinkStatus dest ctx = Some ctx' \<Longrightarrow> keeps_sec ctx ctx'"
  "SendConfirmedSegment ops s ctx = Some ctx' \<Longrightarrow> keeps_sec ctx ctx'"
  "SendUnconfirmedSegment ops s ctx = Some ctx' \<Longrightarrow> keeps_sec ctx ctx'"
  by (auto simp: QueueResetLinks_def QueueRequestLinkStatus_def SendConfirmedSegment_def SendUnconfirmedSegment_def
      FormatPrimaryBufferWithConfirmed_def FormatPrimaryBufferWithUnconfirmed_def QueueTransmit_def emit_def
      keeps_sec_def bind_eq_Some_conv split: if_splits)

lemmas pri_helper_defs =
  CancelTimer_def ResetRetry_def Retry_def ResetWriteFCB_def ToggleWriteFCB_def CompleteSendOperation_def
  release_segments_def unexpected_frame_def FailKeepAlive_def CompleteKeepAlive_def emit_def
  StartResponseTimer_def Pri_Failure_def

lemma TrySend_keeps_sec:
  "TrySendRequestLinkStatus ctx = Some (p, ctx') \<Longrightarrow> keeps_sec ctx ctx'"
  "TrySendConfirmed ops s ctx = Some (p, ctx') \<Longrightarrow> keeps_sec ctx ctx'"
  "TrySendUnconfirmed ops s ctx = Some (p, ctx') \<Longrightarrow> keeps_sec ctx ctx'"
  by (auto simp: TrySendRequestLinkStatus_def TrySendConfirmed_def TrySendUnconfirmed_def bind_eq_Some_conv
      pri_helper_defs keeps_sec_def split: PriState.splits if_splits
      dest!: queue_keeps_sec [unfolded keeps_sec_def])

lemma Pri_keeps_sec:
  "Pri_OnAck ops full ctx = Some (p, ctx') \<Longrightarrow> keeps_sec ctx ctx'"
  "Pri_OnNack ops full ctx = Some (p, ctx') \<Longrightarrow> keeps_sec ctx ctx'"
  "Pri_OnLinkStatus full ctx = Some (p, ctx') \<Longrightarrow> keeps_sec ctx ctx'"
  "Pri_OnNotSupported full ctx = Some (p, ctx') \<Longrightarrow> keeps_sec ctx ctx'"
  "Pri_OnTimeout ops ctx = Some (p, ctx') \<Longrightarrow> keeps_sec ctx ctx'"
  by (cases "pPriState ctx"; auto simp: Pri_OnAck_def Pri_OnNack_def Pri_OnLinkStatus_def Pri_OnNotSupported_def
      Pri_OnTimeout_def bind_eq_Some_conv Let_def pri_helper_defs keeps_sec_def split: if_splits
      dest!: queue_keeps_sec [unfolded keeps_sec_def])+

lemma keeps_sec_helpers [simp]:
  "keeps_sec ctx ctx" "keeps_sec ctx (emit x ctx') = keeps_sec ctx ctx'"
  "keeps_sec ctx (ctx'\<lparr>pPriState := p\<rparr>) = keeps_sec ctx ctx'"
  "keeps_sec ctx (ctx'\<lparr>link_statistics := st\<rparr>) = keeps_sec ctx ctx'"
  "keeps_sec ctx (PushDataUp a d ctx') = keeps_sec ctx ctx'"
  by (simp_all add: keeps_sec_def emit_def PushDataUp_def)

lemma keeps_sec_trans: "keeps_sec a b \<Longrightarrow> keeps_sec b c \<Longrightarrow> keeps_sec a c"
  by (simp add: keeps_sec_def)

lemma dispatch_keeps_sec:
  assumes "sec_transmit_wait (pSecState ctx)" and "dispatch_frame ops h d ctx = Some ctx'"
  shows "keeps_sec ctx ctx'"
proof -
  have same: "keeps_sec ctx (ctx\<lparr>pSecState := pSecState ctx\<rparr>)" by (simp add: keeps_sec_def)
  show ?thesis
    using assms(2) sec_busy_handlers [OF assms(1)] same
    by (cases "lf_func h") (auto simp: dispatch_frame_def set_pri_def set_sec_def dest: Pri_keeps_sec)
qed

lemma OnFrame_keeps_sec:
  assumes "sec_transmit_wait (pSecState ctx)" and "LinkContext_OnFrame ops h d ctx = Some (b, ctx')"
  shows "keeps_sec ctx ctx'"
proof -
  define c where "c = ctx\<lparr>lastMessageTimestamp := executor_time ctx\<rparr>"
  have "keeps_sec ctx ctx'" if "dispatch_frame ops h d c = Some ctx'"
    using dispatch_keeps_sec [of c ops h d ctx'] assms(1) that by (simp add: c_def keeps_sec_def)
  with assms(2) show ?thesis
    unfolding LinkContext_OnFrame_def
    by (auto simp: bind_eq_Some_conv simp flip: c_def split: if_splits)
qed

lemma set_pri_keeps_sec:
  "set_pri r = Some ctx' \<Longrightarrow> (\<And>p c. r = Some (p, c) \<Longrightarrow> keeps_sec ctx c) \<Longrightarrow> keeps_sec ctx ctx'"
  by (auto simp: set_pri_def)

lemma TryStart_keeps_sec: "TryStartTransmission ops ctx = Some ctx' \<Longrightarrow> keeps_sec ctx ctx'"
proof -
  assume run: "TryStartTransmission ops ctx = Some ctx'"
  then obtain c where c: "(if keepAliveTimeout ctx then set_pri (TrySendRequestLinkStatus ctx) else Some ctx) = Some c"
      "(case pSegments c of Some s \<Rightarrow> set_pri (if UseConfirms (config c) then TrySendConfirmed ops s c
         else TrySendUnconfirmed ops s c) | None \<Rightarrow> Some c) = Some ctx'"
    unfolding TryStartTransmission_def by (auto simp: bind_eq_Some_conv)
  have "keeps_sec ctx c"
    using c(1) by (auto split: if_splits elim!: set_pri_keeps_sec dest: TrySend_keeps_sec)
  moreover have "keeps_sec c ctx'"
    using c(2) by (auto split: option.splits if_splits elim!: set_pri_keeps_sec dest: TrySend_keeps_sec)
  ultimately show ?thesis
    by (rule keeps_sec_trans)
qed

text \<open>The end of a transmission only adds to the trace, and begins the frame that is pending.\<close>

definition trace_extends :: "'s LinkContext \<Rightarrow> 's LinkContext \<Rightarrow> bool" where
  "trace_extends ctx ctx' \<longleftrightarrow> (\<exists>rest. lc_trace ctx' = lc_trace ctx @ rest)"

lemma trace_extends_helpers [simp]:
  "trace_extends ctx ctx" "lc_trace ctx' = lc_trace ctx \<Longrightarrow> trace_extends ctx ctx'"
  by (simp_all add: trace_extends_def)

lemma trace_extends_trans: "trace_extends a b \<Longrightarrow> trace_extends b c \<Longrightarrow> trace_extends a c"
  by (auto simp: trace_extends_def)

lemma queue_trace_extends:
  "QueueResetLinks dest ctx = Some ctx' \<Longrightarrow> trace_extends ctx ctx'"
  "QueueRequestLinkStatus dest ctx = Some ctx' \<Longrightarrow> trace_extends ctx ctx'"
  "SendConfirmedSegment ops s ctx = Some ctx' \<Longrightarrow> trace_extends ctx ctx'"
  "SendUnconfirmedSegment ops s ctx = Some ctx' \<Longrightarrow> trace_extends ctx ctx'"
  by (auto simp: QueueResetLinks_def QueueRequestLinkStatus_def SendConfirmedSegment_def SendUnconfirmedSegment_def
      FormatPrimaryBufferWithConfirmed_def FormatPrimaryBufferWithUnconfirmed_def QueueTransmit_def emit_def
      trace_extends_def bind_eq_Some_conv split: if_splits)

lemma TrySend_trace_extends:
  "TrySendRequestLinkStatus ctx = Some (p, ctx') \<Longrightarrow> trace_extends ctx ctx'"
  "TrySendConfirmed ops s ctx = Some (p, ctx') \<Longrightarrow> trace_extends ctx ctx'"
  "TrySendUnconfirmed ops s ctx = Some (p, ctx') \<Longrightarrow> trace_extends ctx ctx'"
  by (auto simp: TrySendRequestLinkStatus_def TrySendConfirmed_def TrySendUnconfirmed_def bind_eq_Some_conv
      pri_helper_defs trace_extends_def split: PriState.splits if_splits
      dest!: queue_trace_extends [unfolded trace_extends_def])

lemma set_pri_trace_extends:
  "set_pri r = Some ctx' \<Longrightarrow> (\<And>p c. r = Some (p, c) \<Longrightarrow> trace_extends ctx c) \<Longrightarrow> trace_extends ctx ctx'"
  by (auto simp: set_pri_def trace_extends_def)

lemma TryStart_trace_extends:
  assumes "TryStartTransmission ops ctx = Some ctx'"
  shows "trace_extends ctx ctx'"
proof -
  from assms obtain c where c: "(if keepAliveTimeout ctx then set_pri (TrySendRequestLinkStatus ctx) else Some ctx) = Some c"
      "(case pSegments c of Some s \<Rightarrow> set_pri (if UseConfirms (config c) then TrySendConfirmed ops s c
         else TrySendUnconfirmed ops s c) | None \<Rightarrow> Some c) = Some ctx'"
    unfolding TryStartTransmission_def by (auto simp: bind_eq_Some_conv)
  have "trace_extends ctx c"
    using c(1) by (auto split: if_splits elim!: set_pri_trace_extends dest: TrySend_trace_extends)
  moreover have "trace_extends c ctx'"
    using c(2) by (auto split: option.splits if_splits elim!: set_pri_trace_extends dest: TrySend_trace_extends)
  ultimately show ?thesis
    by (rule trace_extends_trans)
qed

lemmas tx_ready_handlers =
  Pri_OnTxReady_def SendUnconfirmedTransmitWait_OnTxReady_def LinkResetTransmitWait_OnTxReady_def
  ConfUserDataTransmitWait_OnTxReady_def RequestLinkStatusTransmitWait_OnTxReady_def

lemma Pri_OnTxReady_trace_extends: "Pri_OnTxReady ops ctx = Some (p, ctx') \<Longrightarrow> trace_extends ctx ctx'"
  by (auto simp: tx_ready_handlers bind_eq_Some_conv pri_helper_defs trace_extends_def split: PriState.splits if_splits
      dest!: queue_trace_extends [unfolded trace_extends_def])

lemma Pri_OnTxReady_keeps_sec: "Pri_OnTxReady ops ctx = Some (p, ctx') \<Longrightarrow> keeps_sec ctx ctx'"
  by (auto simp: tx_ready_handlers bind_eq_Some_conv pri_helper_defs keeps_sec_def split: PriState.splits if_splits
      dest!: queue_keeps_sec [unfolded keeps_sec_def])

lemma slice_bytes_mode [simp]: "slice_bytes (ctx\<lparr>txMode := m\<rparr>) x = slice_bytes ctx x"
  by (cases x) (simp_all add: slice_bytes_def)

context transport_segment
begin

lemma TxReady_begins_pending:
  assumes "link_inv I ctx" and "LinkLayer_OnTxReady ops ctx = Some (b, ctx')"
  shows "pendingPriTx ctx = Some x \<Longrightarrow> priTxBuffer ctx' = priTxBuffer ctx \<and>
      (\<exists>rest. lc_trace ctx' = lc_trace ctx @ BeginTransmit (slice_bytes ctx x) # rest)"
    and "pendingSecTx ctx = Some x \<Longrightarrow> secTxBuffer ctx' = secTxBuffer ctx \<and>
      (\<exists>rest. lc_trace ctx' = lc_trace ctx @ BeginTransmit (slice_bytes ctx x) # rest)"
proof -
  have pending: "pri_pending_ok ctx" "sec_pending_ok ctx"
    using assms(1) by (simp_all add: link_inv_def link_core_def link_inv_at_def)
  {
    assume x: "pendingPriTx ctx = Some x"
    then have mode: "txMode ctx = TxSecondary" "pendingSecTx ctx = None"
      using pending by (auto simp: pri_pending_ok_def sec_pending_ok_def)
    have busy: "pPriState ctx \<noteq> PLLS_Idle"
      using link_inv_facts(1) [OF assms(1)] x by (auto simp: state_kinds)
    define c where "c = (emit (BeginTransmit (slice_bytes ctx x)) ctx)\<lparr>pendingPriTx := None, txMode := TxPrimary\<rparr>"
    have "snd (TryPendingPriTx (snd (TryPendingSecTx (ctx\<lparr>txMode := TxIdle\<rparr>)))) = c"
      using x mode by (simp add: TryPendingSecTx_def TryPendingPriTx_def c_def emit_def)
    moreover obtain q where "Sec_OnTxReady c = Some (q, c)"
      by (cases "pSecState c") (simp_all add: Sec_OnTxReady_def)
    ultimately have "LinkContext_OnTxReady ops ctx = Some (True, c\<lparr>pSecState := q\<rparr>)"
      using mode by (simp add: LinkContext_OnTxReady_def Let_def set_sec_def)
    moreover have "TryStartTransmission ops (c\<lparr>pSecState := q\<rparr>) = Some (c\<lparr>pSecState := q\<rparr>)"
      using busy by (intro TrySend_busy) (simp add: c_def emit_def)
    ultimately have "ctx' = c\<lparr>pSecState := q\<rparr>"
      using assms(2) by (simp add: LinkLayer_OnTxReady_def)
    then show "priTxBuffer ctx' = priTxBuffer ctx \<and> (\<exists>rest. lc_trace ctx' = lc_trace ctx @ BeginTransmit (slice_bytes ctx x) # rest)"
      by (simp add: c_def emit_def)
  next
    assume x: "pendingSecTx ctx = Some x"
    then have mode: "txMode ctx = TxPrimary" "pendingPriTx ctx = None"
      using pending by (auto simp: pri_pending_ok_def sec_pending_ok_def)
    define c where "c = (emit (BeginTransmit (slice_bytes ctx x)) ctx)\<lparr>pendingSecTx := None, txMode := TxSecondary\<rparr>"
    have "snd (TryPendingPriTx (snd (TryPendingSecTx (ctx\<lparr>txMode := TxIdle\<rparr>)))) = c"
      using x mode by (simp add: TryPendingSecTx_def TryPendingPriTx_def c_def emit_def)
    then obtain d where d: "set_pri (Pri_OnTxReady ops c) = Some d" "TryStartTransmission ops d = Some ctx'"
      using assms(2) mode by (auto simp: LinkLayer_OnTxReady_def LinkContext_OnTxReady_def Let_def bind_eq_Some_conv)
    have "keeps_sec c d" "trace_extends c d"
      using d(1) by (auto elim!: set_pri_keeps_sec set_pri_trace_extends dest: Pri_OnTxReady_keeps_sec Pri_OnTxReady_trace_extends)
    then have "keeps_sec c ctx'" "trace_extends c ctx'"
      using TryStart_keeps_sec [OF d(2)] TryStart_trace_extends [OF d(2)] by (blast intro: keeps_sec_trans trace_extends_trans)+
    then show "secTxBuffer ctx' = secTxBuffer ctx \<and> (\<exists>rest. lc_trace ctx' = lc_trace ctx @ BeginTransmit (slice_bytes ctx x) # rest)"
      by (auto simp: c_def emit_def keeps_sec_def trace_extends_def)
  }
qed

lemma event_keeps_buffers:
  assumes inv: "link_inv seg_inv ctx" and run: "link_handle ops e ctx = Some ctx'" and e: "e \<noteq> EvTxReady"
    and en: "link_enabled seg_inv e ctx"
  shows "pri_transmit_wait (pPriState ctx) \<Longrightarrow> priTxBuffer ctx' = priTxBuffer ctx"
    and "sec_transmit_wait (pSecState ctx) \<Longrightarrow> secTxBuffer ctx' = secTxBuffer ctx"
proof -
  {
    assume busy: "pri_transmit_wait (pPriState ctx)"
    then have not_idle: "pPriState c \<noteq> PLLS_Idle" if "keeps_pri ctx c" for c :: "'s LinkContext"
      using that by (auto simp: keeps_pri_def state_kinds)
    have "\<not> TimerRef_IsActive (rspTimeoutTimer ctx)"
      using busy link_inv_facts(3) [OF inv] by (auto simp: state_kinds)
    have started: "TryStartTransmission ops c = Some c" if "keeps_pri ctx c" for c
      using TrySend_busy not_idle that by blast
    show "priTxBuffer ctx' = priTxBuffer ctx"
    proof (cases e)
      case (EvFrame h d)
      with run obtain b c where c: "LinkContext_OnFrame ops h d ctx = Some (b, c)"
          "(if b then TryStartTransmission ops c else Some c) = Some ctx'"
        by (auto simp: link_handle_def LinkLayer_OnFrame_def bind_eq_Some_conv)
      with OnFrame_keeps_pri [OF busy c(1)] started show ?thesis
        by (auto simp: keeps_pri_def split: if_splits)
    next
      case EvKeepAliveTimer
      then show ?thesis
        using run
        by (auto simp: link_handle_def KeepAliveTimer_fires_def OnKeepAliveTimeout_def Let_def
            StartKeepAliveTimer_def started keeps_pri_def split: if_splits)
    qed (use run e en \<open>\<not> TimerRef_IsActive (rspTimeoutTimer ctx)\<close> started in
        \<open>auto simp: link_handle_def link_enabled_def LinkContext_OnLowerLayerUp_def LinkContext_OnLowerLayerDown_def
          StartKeepAliveTimer_def release_segments_def emit_def Let_def LinkLayer_Send_def SetTxSegment_def
          bind_eq_Some_conv keeps_pri_def split: if_splits option.splits\<close>)
  next
    assume busy: "sec_transmit_wait (pSecState ctx)"
    show "secTxBuffer ctx' = secTxBuffer ctx"
    proof (cases e)
      case (EvFrame h d)
      with run obtain b c where c: "LinkContext_OnFrame ops h d ctx = Some (b, c)"
          "(if b then TryStartTransmission ops c else Some c) = Some ctx'"
        by (auto simp: link_handle_def LinkLayer_OnFrame_def bind_eq_Some_conv)
      with OnFrame_keeps_sec [OF busy c(1)] show ?thesis
        by (auto simp: keeps_sec_def split: if_splits dest: TryStart_keeps_sec)
    next
      case EvKeepAliveTimer
      with run obtain c where "TryStartTransmission ops c = Some ctx'" "secTxBuffer c = secTxBuffer ctx"
        by (auto simp: link_handle_def KeepAliveTimer_fires_def OnKeepAliveTimeout_def Let_def
            StartKeepAliveTimer_def split: if_splits)
      then show ?thesis
        by (auto simp: keeps_sec_def dest: TryStart_keeps_sec)
    next
      case EvResponseTimer
      with run obtain c where c: "set_pri (Pri_OnTimeout ops (ctx\<lparr>rspTimeoutTimer := None\<rparr>)) = Some c"
          "TryStartTransmission ops c = Some ctx'"
        by (auto simp: link_handle_def ResponseTimer_fires_def OnResponseTimeout_def TimerRef_fire_def bind_eq_Some_conv)
      have "keeps_sec (ctx\<lparr>rspTimeoutTimer := None\<rparr>) c"
        using c(1) by (elim set_pri_keeps_sec) (rule Pri_keeps_sec)
      with TryStart_keeps_sec [OF c(2)] show ?thesis
        by (simp add: keeps_sec_def)
    next
      case (EvSend s)
      then show ?thesis
        using run TryStart_keeps_sec [of ops "ctx\<lparr>pSegments := Some s\<rparr>" ctx']
        by (auto simp: link_handle_def LinkLayer_Send_def SetTxSegment_def bind_eq_Some_conv keeps_sec_def
            split: if_splits option.splits)
    qed (use run e in
        \<open>auto simp: link_handle_def LinkContext_OnLowerLayerUp_def LinkContext_OnLowerLayerDown_def
          StartKeepAliveTimer_def release_segments_def emit_def Let_def split: if_splits\<close>)
  }
qed

end


section \<open>From the application message to the other side's application message\<close>

definition unconfirmed_fields :: "bool \<Rightarrow> Addresses \<Rightarrow> LinkHeaderFields" where
  "unconfirmed_fields master a =
     \<lparr>lf_func = PRI_UNCONFIRMED_USER_DATA, lf_isFromMaster = master, lf_fcb = False, lf_fcvdfc = False,
      lf_dest = addr_destination a, lf_src = addr_source a\<rparr>"

lemma unconfirmed_header:
  assumes "0 < n" and "n \<le> 250"
    and "h = frame_header n master False False PRI_UNCONFIRMED_USER_DATA (addr_destination a) (addr_source a)"
  shows "payload_len h = n" and "valid_header h" and "header_fields h = unconfirmed_fields master a"
proof -
  have "unat (of_nat (n + 5) :: u8) = n + 5"
    using assms(2) by (intro unat_of_nat_u8) simp
  then show "payload_len h = n" "valid_header h" "header_fields h = unconfirmed_fields master a"
    using assms(1)
    by (simp_all add: assms(3) frame_header_def payload_len_def valid_header_def header_fields_def
        unconfirmed_fields_def)
qed

lemma deframe_unconfirmed_frame:
  assumes "0 < length d" and "length d \<le> 250"
  shows "deframe (unconfirmed_frame master a d @ rest) = (unconfirmed_fields master a, d) # deframe rest"
proof -
  define h where "h = frame_header (length d) master False False PRI_UNCONFIRMED_USER_DATA
    (addr_destination a) (addr_source a)"
  note facts = unconfirmed_header [OF assms h_def]
  have "deframe (frame_bytes h d @ rest) = (header_fields h, d) # deframe rest"
    using facts(1,2) by (intro deframe_frame) simp_all
  then show ?thesis
    unfolding facts(3) by (simp add: unconfirmed_frame_def h_def)
qed

lemma deframe_unconfirmed_frames:
  assumes "\<And>d. d \<in> set ds \<Longrightarrow> 0 < length d \<and> length d \<le> 250"
  shows "deframe (concat (map (unconfirmed_frame master a) ds)) = map (\<lambda>d. (unconfirmed_fields master a, d)) ds"
  using assms by (induction ds) (simp_all add: deframe_short deframe_unconfirmed_frame)

lemma ToAddresses_unconfirmed [simp]: "ToAddresses (unconfirmed_fields master a) = a"
  by (simp add: ToAddresses_def unconfirmed_fields_def)

lemma reassemble:
  assumes "rx_wf r" and "unat seq < 64" and "p \<noteq> []" and "length p \<le> length (rxBuffer r)"
  shows "\<exists>r'. ProcessReceive_all (tpdu_messages a (tpdus True seq p)) r =
      Some ([\<lparr>msg_addresses = a, msg_payload = p\<rparr>], r') \<and> rx_wf r' \<and> rx_partial r' = []"
proof -
  obtain ms r' where r': "ProcessReceive_all (tpdu_messages a (tpdus True seq p)) r = Some (ms, r')" "rx_wf r'"
      "rx_spec_run (length (rxBuffer r)) (tpdu_messages a (tpdus True seq p)) (rx_abstract r) = (ms, rx_abstract r')"
    using ProcessReceive_all_refines [OF assms(1)] by metis
  have "fst (rx_spec_run (length (rxBuffer r)) (tpdu_messages a (tpdus True seq p)) (rx_abstract r)) =
      [\<lparr>msg_addresses = a, msg_payload = [] @ p\<rparr>] \<and>
    abs_partial (snd (rx_spec_run (length (rxBuffer r)) (tpdu_messages a (tpdus True seq p)) (rx_abstract r))) = []"
    using assms by (intro rx_spec_tpdus) simp_all
  with r' show ?thesis
    by (simp add: rx_abstract_def)
qed


section \<open>Properties\<close>

text \<open>C11: No event can break the link layer: in a state that satisfies the invariant, every
  possible event (layer up and down, a send request, completion of a transmission, any received
  frame, either timer, the passage of time) is handled without a failed assertion, an access
  outside a buffer or a null segment, and leads to a state that satisfies the invariant again.\<close>

theorem link_events_safe:
  assumes "link_inv tx_inv ctx" and "link_enabled tx_inv e ctx"
  shows "\<exists>ctx'. link_handle transport_ops e ctx = Some ctx' \<and> link_inv tx_inv ctx'"
  using assms by (rule tx.link_handle_inv)

definition demo_config :: LinkConfig where
  "demo_config = \<lparr>IsMaster = True, UseConfirms = False, NumRetry = 2, LocalAddr = 1, RemoteAddr = 1024,
     RspTimeout = 1000, KeepAliveTimeout = 60000, respondToAnySource = False\<rparr>"

definition demo_link :: "TransportTx LinkContext" where
  "demo_link = snd (LinkContext_OnLowerLayerUp
     (LinkContext_init demo_config 0 (replicate 292 0) (replicate 10 0)))"

lemma demo_link_inv: "link_inv tx_inv demo_link"
  unfolding demo_link_def by (intro OnLowerLayerUp_inv link_inv_init) simp_all

lemma demo_link_state:
  "isOnline demo_link" "config demo_link = demo_config" "pPriState demo_link = PLLS_Idle"
  "txMode demo_link = TxIdle" "lc_trace demo_link = [OnStateChange UNRESET, Upper_OnLowerLayerUp]"
  by (simp_all add: demo_link_def LinkContext_OnLowerLayerUp_def LinkContext_init_def StartKeepAliveTimer_def
      emit_def Let_def)

theorem link_events_safe_witness:
  "\<exists>ctx'. link_handle transport_ops (EvFrame (unconfirmed_fields False \<lparr>addr_source = 1024, addr_destination = 1\<rparr>)
      [0xC0, 0x01]) demo_link = Some ctx' \<and> link_inv tx_inv ctx'"
  by (rule link_events_safe [OF demo_link_inv]) (simp add: link_enabled_def)

text \<open>C23: In every state the link layer can reach from its initial state: a station waits for a
  transmission exactly when its frame is in flight or pending; the response timer runs exactly
  while the primary station waits for a response, so it can neither wait forever nor be woken by
  a stale timer; the keep-alive timer runs exactly while the layer is online; the primary station
  is never idle with a message or a keep-alive to send; and everything transmitted is a
  well-formed frame.\<close>

theorem link_reachable_states:
  assumes "link_reaches transport_ops tx_inv (LinkContext_init cfg now pri sec) ctx"
    and "length pri = 292" and "length sec = 10"
  shows "(pri_transmit_wait (pPriState ctx) \<longleftrightarrow> txMode ctx = TxPrimary \<or> pendingPriTx ctx \<noteq> None) \<and>
    (sec_transmit_wait (pSecState ctx) \<longleftrightarrow> txMode ctx = TxSecondary \<or> pendingSecTx ctx \<noteq> None) \<and>
    (TimerRef_IsActive (rspTimeoutTimer ctx) \<longleftrightarrow> pri_response_wait (pPriState ctx)) \<and>
    (TimerRef_IsActive (keepAliveTimer ctx) \<longleftrightarrow> isOnline ctx) \<and>
    (pPriState ctx = PLLS_Idle \<longrightarrow> pSegments ctx = None \<and> \<not> keepAliveTimeout ctx) \<and>
    numRetryRemaining ctx \<le> NumRetry (config ctx) \<and>
    (\<forall>bs. BeginTransmit bs \<in> set (lc_trace ctx) \<longrightarrow> wire_frame bs)"
proof -
  have "link_inv tx_inv ctx"
    using tx.link_reaches_inv [OF assms(1) link_inv_init [OF assms(2,3)]] .
  from link_inv_facts [OF this] show ?thesis by blast
qed

theorem link_reachable_states_witness:
  "TimerRef_IsActive (keepAliveTimer demo_link) = isOnline demo_link"
proof -
  have "link_reaches transport_ops tx_inv (LinkContext_init demo_config 0 (replicate 292 0) (replicate 10 0)) demo_link"
    by (rule link_reaches.event [OF link_reaches.start, where e = EvLowerLayerUp])
      (simp_all add: link_enabled_def link_handle_def demo_link_def)
  from link_reachable_states [OF this] show ?thesis by simp
qed

text \<open>C25: A frame is never overwritten before the physical layer has sent it. While a frame of the primary
  station is pending, no event changes the primary transmit buffer, and while it is in flight none does but the
  completion of its own transmission; likewise for the secondary station. The completion of
  the other station's frame begins the transmission of exactly the bytes that were pending.\<close>

theorem link_buffers_stable:
  assumes "link_inv tx_inv ctx" and "link_enabled tx_inv e ctx"
    and "link_handle transport_ops e ctx = Some ctx'"
  shows "(pendingPriTx ctx \<noteq> None \<or> txMode ctx = TxPrimary \<and> e \<noteq> EvTxReady \<longrightarrow> priTxBuffer ctx' = priTxBuffer ctx) \<and>
    (pendingSecTx ctx \<noteq> None \<or> txMode ctx = TxSecondary \<and> e \<noteq> EvTxReady \<longrightarrow> secTxBuffer ctx' = secTxBuffer ctx) \<and>
    (\<forall>x. e = EvTxReady \<and> (pendingPriTx ctx = Some x \<or> pendingSecTx ctx = Some x) \<longrightarrow>
       (\<exists>rest. lc_trace ctx' = lc_trace ctx @ BeginTransmit (slice_bytes ctx x) # rest))"
proof (cases "e = EvTxReady")
  case True
  with assms(3) obtain b where "LinkLayer_OnTxReady transport_ops ctx = Some (b, ctx')"
    by (auto simp: link_handle_def)
  from tx.TxReady_begins_pending [OF assms(1) this] True show ?thesis
    by blast
next
  case False
  from tx.event_keeps_buffers [OF assms(1,3) False assms(2)] link_inv_facts(1,2) [OF assms(1)] False show ?thesis
    by blast
qed

text \<open>A request for the link status that waits while an acknowledgement is being transmitted.\<close>

definition demo_pending :: "TransportTx LinkContext" where
  "demo_pending = demo_link\<lparr>pPriState := PLLS_RequestLinkStatusTransmitWait, pSecState := SLLS_TransmitWaitNotReset,
     txMode := TxSecondary, pendingPriTx := Some (PriSlice 10),
     priTxBuffer := frame_bytes (frame_header 0 True False False PRI_REQUEST_LINK_STATUS 1024 1) [] @ replicate 282 0\<rparr>"

lemma demo_frame_length: "length (frame_bytes (frame_header 0 True False False PRI_REQUEST_LINK_STATUS 1024 1) []) = 10"
  by (simp add: frame_bytes_def header_bytes_def)

lemma demo_pending_inv: "link_inv tx_inv demo_pending"
proof -
  have "wire_frame (frame_bytes (frame_header 0 True False False PRI_REQUEST_LINK_STATUS 1024 1) [])"
    by (rule wire_frame_link_frame) simp_all
  then show ?thesis
    using demo_link_inv demo_frame_length demo_link_state
    by (simp add: link_inv_def link_core_def link_inv_at_def demo_pending_def pri_pending_ok_def sec_pending_ok_def state_kinds)
qed

theorem link_buffers_stable_witness:
  "\<exists>ctx'. link_handle transport_ops EvTxReady demo_pending = Some ctx' \<and> priTxBuffer ctx' = priTxBuffer demo_pending \<and>
    (\<exists>rest. lc_trace ctx' = lc_trace demo_pending @
       BeginTransmit (frame_bytes (frame_header 0 True False False PRI_REQUEST_LINK_STATUS 1024 1) []) # rest)"
proof -
  have enabled: "link_enabled tx_inv EvTxReady demo_pending"
    by (simp add: link_enabled_def)
  obtain ctx' where ctx': "link_handle transport_ops EvTxReady demo_pending = Some ctx'"
    using tx.link_handle_inv [OF demo_pending_inv enabled] by blast
  have pending: "pendingPriTx demo_pending = Some (PriSlice 10)"
    by (simp add: demo_pending_def)
  have "slice_bytes demo_pending (PriSlice 10) = frame_bytes (frame_header 0 True False False PRI_REQUEST_LINK_STATUS 1024 1) []"
    using demo_frame_length by (simp add: demo_pending_def slice_bytes_def)
  with link_buffers_stable [OF demo_pending_inv enabled ctx'] pending ctx' show ?thesis
    by auto
qed

text \<open>C2: End-to-end delivery without link confirmations: a message given to the transport
  transmitter and sent by an idle link layer is put on the line as frames, one per segment, the
  send operation completes, and a peer that receives those bytes, deframes them and reassembles
  the payloads obtains exactly this message with its addresses, whatever its receive state was
  before, provided it fits the peer's reassembly buffer.\<close>

theorem message_delivery:
  assumes "link_inv tx_inv ctx" and "isOnline ctx" and "\<not> UseConfirms (config ctx)"
    and "pPriState ctx = PLLS_Idle" and "txMode ctx = TxIdle"
    and "tx_ready t" and "TransportTx_Configure message t = Some t'"
    and "rx_wf r" and "length (msg_payload message) \<le> length (rxBuffer r)"
  shows "\<exists>n ctx0 ctx' frames r'.
    LinkLayer_Send transport_ops t' ctx = Some (True, ctx0) \<and>
    LinkLayer_TxReadys transport_ops n ctx0 = Some ctx' \<and>
    pPriState ctx' = PLLS_Idle \<and> pSegments ctx' = None \<and>
    lc_trace ctx' = lc_trace ctx @ map BeginTransmit frames @ [Post_OnTxReady] \<and>
    ProcessReceive_all (map (\<lambda>(h, d). \<lparr>msg_addresses = ToAddresses h, msg_payload = d\<rparr>) (deframe (concat frames))) r =
      Some ([message], r') \<and> rx_wf r'"
proof -
  define a where "a = msg_addresses message"
  define p where "p = msg_payload message"
  have p: "p \<noteq> []"
    using assms(7) by (auto simp: TransportTx_Configure_def p_def split: if_splits)
  have t': "tx_inv t'" "tx_segments t' = tpdus True (tx_sequence t) p" "GetAddresses transport_ops t' = a"
    using Configure_inv [OF assms(6), of message] assms(7) p by (auto simp: a_def p_def transport_ops_def)
  define m where "m = IsMaster (config ctx)"
  define frames where "frames = map (unconfirmed_frame m a) (tx_segments t')"
  have "map (\<lambda>(h, d). \<lparr>msg_addresses = ToAddresses h, msg_payload = d\<rparr>) (deframe (concat frames)) =
      tpdu_messages a (tx_segments t')"
    using tpdus_lengths unfolding frames_def t'(2)
    by (subst deframe_unconfirmed_frames) (auto simp: tpdu_messages_def)
  moreover obtain r' where "ProcessReceive_all (tpdu_messages a (tx_segments t')) r = Some ([message], r')" "rx_wf r'"
    using reassemble [OF assms(8), of "tx_sequence t" p a] assms(6,9) p t'(2)
    by (auto simp: tx_ready_def a_def p_def)
  moreover obtain c0 c' where "LinkLayer_Send transport_ops t' ctx = Some (True, c0)"
      "LinkLayer_TxReadys transport_ops (length (tx_segments t')) c0 = Some c'"
      "pPriState c' = PLLS_Idle" "pSegments c' = None"
      "lc_trace c' = lc_trace ctx @ map BeginTransmit frames @ [Post_OnTxReady]"
    using tx.unconfirmed_send_completes [OF assms(1-5) t'(1)] t'(3) by (auto simp: frames_def m_def comp_def)
  ultimately show ?thesis
    by (intro exI [of _ "length (tx_segments t')"] exI [of _ c0] exI [of _ c'] exI [of _ frames] exI [of _ r']) simp
qed

definition demo_message :: Message where
  "demo_message = \<lparr>msg_addresses = \<lparr>addr_source = 1, addr_destination = 1024\<rparr>, msg_payload = replicate 300 0x2A\<rparr>"

theorem message_delivery_witness:
  "\<exists>t' n ctx0 ctx' frames r'.
    TransportTx_Configure demo_message (TransportTx_init (replicate 250 0)) = Some t' \<and>
    LinkLayer_Send transport_ops t' demo_link = Some (True, ctx0) \<and>
    LinkLayer_TxReadys transport_ops n ctx0 = Some ctx' \<and>
    lc_trace ctx' = lc_trace demo_link @ map BeginTransmit frames @ [Post_OnTxReady] \<and>
    ProcessReceive_all (map (\<lambda>(h, d). \<lparr>msg_addresses = ToAddresses h, msg_payload = d\<rparr>) (deframe (concat frames)))
      (TransportRx_init (replicate 2048 0)) = Some ([demo_message], r')"
proof -
  have len: "length (msg_payload demo_message) = 300"
    by (simp add: demo_message_def)
  then obtain t' where t': "TransportTx_Configure demo_message (TransportTx_init (replicate 250 0)) = Some t'"
    by (auto simp: TransportTx_Configure_def simp flip: length_greater_0_conv)
  have "tx_ready (TransportTx_init (replicate 250 0))"
    by (simp add: tx_ready_def TransportTx_init_def MAX_TPDU_LENGTH_def)
  moreover have "rx_wf (TransportRx_init (replicate 2048 0))"
    by (simp add: rx_wf_def TransportRx_init_def)
  moreover have "length (msg_payload demo_message) \<le> length (rxBuffer (TransportRx_init (replicate 2048 0)))"
    by (simp add: len TransportRx_init_def)
  moreover have "\<not> UseConfirms (config demo_link)"
    by (simp add: demo_link_state demo_config_def)
  ultimately have "\<exists>n ctx0 ctx' frames r'.
    LinkLayer_Send transport_ops t' demo_link = Some (True, ctx0) \<and>
    LinkLayer_TxReadys transport_ops n ctx0 = Some ctx' \<and>
    pPriState ctx' = PLLS_Idle \<and> pSegments ctx' = None \<and>
    lc_trace ctx' = lc_trace demo_link @ map BeginTransmit frames @ [Post_OnTxReady] \<and>
    ProcessReceive_all (map (\<lambda>(h, d). \<lparr>msg_addresses = ToAddresses h, msg_payload = d\<rparr>) (deframe (concat frames)))
      (TransportRx_init (replicate 2048 0)) = Some ([demo_message], r') \<and> rx_wf r'"
    by (intro message_delivery [OF demo_link_inv demo_link_state(1) _ demo_link_state(3,4) _ t'])
  with t' show ?thesis by blast
qed


section \<open>Receiving confirmed data exactly once\<close>

text \<open>A link that only receives: nothing of its own to send, the line free, links reset.\<close>

definition receiving :: "'s LinkContext \<Rightarrow> bool" where
  "receiving ctx \<longleftrightarrow> isOnline ctx \<and> pPriState ctx = PLLS_Idle \<and> pSecState ctx = SLLS_Reset \<and>
     pSegments ctx = None \<and> \<not> keepAliveTimeout ctx \<and> txMode ctx = TxIdle \<and>
     pendingPriTx ctx = None \<and> pendingSecTx ctx = None \<and> length (secTxBuffer ctx) = 10"

text \<open>Each confirmed data frame is received and its acknowledgement transmitted before the next one.\<close>

fun receive_confirmed :: "'s segment_ops \<Rightarrow> (LinkHeaderFields \<times> rslice) list \<Rightarrow> 's LinkContext \<Rightarrow> 's LinkContext option" where
  "receive_confirmed ops [] ctx = Some ctx"
| "receive_confirmed ops ((h, d) # frames) ctx = do {
     (_, ctx) \<leftarrow> LinkLayer_OnFrame ops h d ctx;
     (_, ctx) \<leftarrow> LinkLayer_OnTxReady ops ctx;
     receive_confirmed ops frames ctx }"

text \<open>What must be delivered: a frame whose frame count bit is the expected one; the next frame is
  expected with the other bit.\<close>

fun fcb_spec :: "bool \<Rightarrow> (LinkHeaderFields \<times> rslice) list \<Rightarrow> (Addresses \<times> u8 list) list" where
  "fcb_spec expected [] = []"
| "fcb_spec expected ((h, d) # frames) =
     (if lf_fcb h = expected then [(ToAddresses h, d)] else []) @ fcb_spec (\<not> lf_fcb h) frames"

lemma receive_one_confirmed:
  assumes "receiving ctx" and "accepted_by ctx h" and "lf_func h = PRI_CONFIRMED_USER_DATA"
  shows "\<exists>b1 c b2 ctx'. LinkLayer_OnFrame ops h d ctx = Some (b1, c) \<and> LinkLayer_OnTxReady ops c = Some (b2, ctx') \<and>
    receiving ctx' \<and> config ctx' = config ctx \<and> nextReadFCB ctx' = (\<not> lf_fcb h) \<and>
    deliveries (lc_trace ctx') = deliveries (lc_trace ctx) @
      (if lf_fcb h = nextReadFCB ctx then [(ToAddresses h, d)] else [])"
proof -
  define c0 where "c0 = ctx\<lparr>lastMessageTimestamp := executor_time ctx\<rparr>"
  obtain b where b: "QueueAck (lf_src h) c0 = Some (QueueTransmit (SecSlice 10) False (c0\<lparr>secTxBuffer := b\<rparr>))"
      "length b = 10"
    using QueueAck_ok [of c0 "lf_src h"] assms(1) by (auto simp: c0_def receiving_def)
  define c1 where "c1 = QueueTransmit (SecSlice 10) False (c0\<lparr>secTxBuffer := b\<rparr>)"
  define c2 where "c2 = (if nextReadFCB ctx = lf_fcb h then PushDataUp (ToAddresses h) d (ToggleReadFCB c1) else c1)
      \<lparr>pSecState := SLLS_TransmitWaitReset\<rparr>"
  have st: "isOnline c2" "pPriState c2 = PLLS_Idle" "pSecState c2 = SLLS_TransmitWaitReset" "pSegments c2 = None"
      "\<not> keepAliveTimeout c2" "txMode c2 = TxSecondary" "pendingPriTx c2 = None" "pendingSecTx c2 = None"
      "length (secTxBuffer c2) = 10" "config c2 = config ctx" "nextReadFCB c2 = (\<not> lf_fcb h)"
      "deliveries (lc_trace c2) = deliveries (lc_trace ctx) @
        (if lf_fcb h = nextReadFCB ctx then [(ToAddresses h, d)] else [])"
    using assms(1) b(2)
    by (auto simp: c2_def c1_def c0_def receiving_def QueueTransmit_def PushDataUp_def ToggleReadFCB_def emit_def)
  have "Sec_OnConfirmedUserData (lf_src h) (lf_fcb h) (ToAddresses h) d c0 = Some (SLLS_TransmitWaitReset,
      if nextReadFCB ctx = lf_fcb h then PushDataUp (ToAddresses h) d (ToggleReadFCB c1) else c1)"
    using assms(1) b(1)
    by (simp add: Sec_OnConfirmedUserData_def receiving_def c1_def) (simp add: c0_def QueueTransmit_def emit_def)
  then have "LinkContext_OnFrame ops h d ctx = Some (True, c2)"
    using assms(2,3) by (simp add: LinkContext_OnFrame_def dispatch_frame_def set_sec_def accepted_by_def c2_def flip: c0_def)
  then have "LinkLayer_OnFrame ops h d ctx = Some (True, c2)"
    using st by (simp add: LinkLayer_OnFrame_def TryStartTransmission_def)
  moreover have "LinkLayer_OnTxReady ops c2 = Some (True, c2\<lparr>txMode := TxIdle, pSecState := SLLS_Reset\<rparr>)"
    using st by (simp add: LinkLayer_OnTxReady_def LinkContext_OnTxReady_def TryPendingSecTx_def TryPendingPriTx_def
        Sec_OnTxReady_def set_sec_def TryStartTransmission_def Let_def)
  ultimately show ?thesis
    using st by (intro exI [of _ True] exI [of _ c2] exI [of _ "c2\<lparr>txMode := TxIdle, pSecState := SLLS_Reset\<rparr>"])
      (simp add: receiving_def)
qed

text \<open>C10: Confirmed user data is delivered exactly once: over any sequence of confirmed data frames for this
  station, each acknowledged before the next, the transport layer receives a frame exactly when
  its frame count bit is the expected one, so a frame repeated because its acknowledgement was
  lost is acknowledged again and not delivered again.\<close>

theorem confirmed_data_exactly_once:
  assumes "receiving ctx"
    and "\<And>h d. (h, d) \<in> set frames \<Longrightarrow> accepted_by ctx h \<and> lf_func h = PRI_CONFIRMED_USER_DATA"
  shows "\<exists>ctx'. receive_confirmed ops frames ctx = Some ctx' \<and> receiving ctx' \<and>
    deliveries (lc_trace ctx') = deliveries (lc_trace ctx) @ fcb_spec (nextReadFCB ctx) frames"
  using assms
proof (induction frames arbitrary: ctx)
  case Nil
  then show ?case by simp
next
  case (Cons f frames)
  obtain h d where f: "f = (h, d)" by (cases f)
  have h: "accepted_by ctx h" "lf_func h = PRI_CONFIRMED_USER_DATA"
    using Cons.prems(2) [of h d] f by simp_all
  obtain b1 c b2 c' where c': "LinkLayer_OnFrame ops h d ctx = Some (b1, c)" "LinkLayer_OnTxReady ops c = Some (b2, c')"
      "receiving c'" "config c' = config ctx" "nextReadFCB c' = (\<not> lf_fcb h)"
      "deliveries (lc_trace c') = deliveries (lc_trace ctx) @
        (if lf_fcb h = nextReadFCB ctx then [(ToAddresses h, d)] else [])"
    using receive_one_confirmed [OF Cons.prems(1) h, of ops d] by blast
  have "accepted_by c' k \<and> lf_func k = PRI_CONFIRMED_USER_DATA" if "(k, e) \<in> set frames" for k e
    using Cons.prems(2) [of k e] that c'(3,4) by (simp add: accepted_by_def receiving_def)
  with Cons.IH [OF c'(3)] obtain ctx' where "receive_confirmed ops frames c' = Some ctx'" "receiving ctx'"
      "deliveries (lc_trace ctx') = deliveries (lc_trace c') @ fcb_spec (\<not> lf_fcb h) frames"
    using c'(5) by auto
  with c' f show ?case by simp
qed

definition demo_receiver :: "TransportTx LinkContext" where
  "demo_receiver = demo_link\<lparr>pSecState := SLLS_Reset\<rparr>"

definition demo_confirmed :: "bool \<Rightarrow> LinkHeaderFields" where
  "demo_confirmed fcb = \<lparr>lf_func = PRI_CONFIRMED_USER_DATA, lf_isFromMaster = False, lf_fcb = fcb, lf_fcvdfc = True,
     lf_dest = 1, lf_src = 1024\<rparr>"

theorem confirmed_data_exactly_once_witness:
  "\<exists>ctx'. receive_confirmed transport_ops
      [(demo_confirmed True, [1]), (demo_confirmed True, [1]), (demo_confirmed False, [2])]
      (demo_receiver\<lparr>nextReadFCB := True\<rparr>) = Some ctx' \<and>
    deliveries (lc_trace ctx') = [(ToAddresses (demo_confirmed True), [1]), (ToAddresses (demo_confirmed False), [2])]"
proof -
  have "receiving (demo_receiver\<lparr>nextReadFCB := True\<rparr>)"
    by (simp add: receiving_def demo_receiver_def demo_link_def LinkContext_OnLowerLayerUp_def LinkContext_init_def
        StartKeepAliveTimer_def emit_def Let_def)
  moreover have "accepted_by (demo_receiver\<lparr>nextReadFCB := True\<rparr>) (demo_confirmed b)" for b
    by (simp add: accepted_by_def demo_receiver_def demo_link_state demo_config_def demo_confirmed_def)
  moreover have "deliveries (lc_trace (demo_receiver\<lparr>nextReadFCB := True\<rparr>)) = []"
    by (simp add: demo_receiver_def demo_link_state)
  moreover have "fcb_spec (nextReadFCB (demo_receiver\<lparr>nextReadFCB := True\<rparr>))
      [(demo_confirmed True, [1]), (demo_confirmed True, [1]), (demo_confirmed False, [2])] =
      [(ToAddresses (demo_confirmed True), [1]), (ToAddresses (demo_confirmed False), [2])]"
    by (simp add: demo_confirmed_def)
  moreover have "lf_func (demo_confirmed b) = PRI_CONFIRMED_USER_DATA" for b
    by (simp add: demo_confirmed_def)
  ultimately show ?thesis
    using confirmed_data_exactly_once [of "demo_receiver\<lparr>nextReadFCB := True\<rparr>"
        "[(demo_confirmed True, [1]), (demo_confirmed True, [1]), (demo_confirmed False, [2])]" transport_ops]
    by (force simp del: receive_confirmed.simps fcb_spec.simps)
qed

section \<open>Retries of confirmed data\<close>

text \<open>C24: A response timeout while a confirmed data frame is unacknowledged: with retries left, the identical
  segment is transmitted again with the same frame count bit and one retry is used up; with none
  left, the send operation ends and the listener is told that the link is unreset. In both
  cases the handler succeeds.\<close>

theorem confirmed_data_retry:
  assumes "link_inv tx_inv ctx" and "pPriState ctx = PLLS_ConfDataWait" and "txMode ctx = TxIdle"
    and "pSegments ctx = Some t"
  shows "if numRetryRemaining ctx > 0
    then \<exists>ctx'. ResponseTimer_fires transport_ops ctx = Some ctx' \<and>
      pPriState ctx' = PLLS_ConfUserDataTransmitWait \<and> nextWriteFCB ctx' = nextWriteFCB ctx \<and>
      numRetryRemaining ctx' = numRetryRemaining ctx - 1 \<and>
      lc_trace ctx' = lc_trace ctx @ [BeginTransmit (confirmed_frame (IsMaster (config ctx)) (nextWriteFCB ctx)
        (TransportTx_GetAddresses t) (hd (tx_segments t)))]
    else \<exists>ctx' rest. ResponseTimer_fires transport_ops ctx = Some ctx' \<and> pSegments ctx' = None \<and>
      lc_trace ctx' = lc_trace ctx @ [OnStateChange UNRESET, Post_OnTxReady] @ rest"
  using tx.confirmed_timeout [OF assms] by (auto simp: transport_ops_def)

text \<open>A state in which confirmed data is unacknowledged.\<close>

definition demo_waiting :: "TransportTx LinkContext" where
  "demo_waiting = demo_link\<lparr>pPriState := PLLS_ConfDataWait, rspTimeoutTimer := Some 1000, isRemoteReset := True,
     pSegments := Some ((TransportTx_init (replicate 250 0))\<lparr>tx_message := demo_message\<rparr>)\<rparr>"

lemma demo_waiting_inv: "link_inv tx_inv demo_waiting"
proof -
  have "msg_payload demo_message \<noteq> []"
    by (simp add: demo_message_def)
  then have "tx_inv ((TransportTx_init (replicate 250 0))\<lparr>tx_message := demo_message\<rparr>)"
    by (simp add: tx_inv_def TransportTx_init_def MAX_TPDU_LENGTH_def)
  with demo_link_inv show ?thesis
    by (simp add: demo_waiting_def link_inv_def link_core_def link_inv_at_def demo_link_state state_kinds
        pri_pending_ok_def sec_pending_ok_def TimerRef_IsActive_def)
qed

theorem confirmed_data_retry_witness:
  "\<exists>ctx' rest. ResponseTimer_fires transport_ops (demo_waiting\<lparr>numRetryRemaining := 0\<rparr>) = Some ctx' \<and>
    pSegments ctx' = None \<and>
    lc_trace ctx' = [OnStateChange UNRESET, Upper_OnLowerLayerUp, OnStateChange UNRESET, Post_OnTxReady] @ rest"
proof -
  have "link_inv tx_inv (demo_waiting\<lparr>numRetryRemaining := 0\<rparr>)"
    using demo_waiting_inv by (simp add: link_inv_def link_core_def link_inv_at_def pri_pending_ok_def sec_pending_ok_def)
  from confirmed_data_retry [OF this] show ?thesis
    by (simp add: demo_waiting_def demo_link_state)
qed

end
