(* ===== verification/AppHeader.thy ===== *)
theory AppHeader
  imports LinkHeader
begin

text \<open>
  The fixed part of an application fragment (\<open>app/AppControlField\<close>, \<open>gen/FunctionCode\<close>,
  \<open>app/IINField\<close>, \<open>app/APDUHeader\<close>, \<open>app/parsing/APDUHeaderParser\<close>, \<open>app/APDUWrapper\<close>,
  \<open>app/APDURequest\<close>, \<open>app/APDUResponse\<close>, \<open>app/Functions\<close>): its data, the parsers of the request
  and response headers, and the writers of the same bytes.
\<close>

section \<open>Control octet\<close>

record AppControlField =
  acf_FIR :: bool
  acf_FIN :: bool
  acf_CON :: bool
  acf_UNS :: bool
  acf_SEQ :: u8

definition ACF_FIR_MASK :: u8 where "ACF_FIR_MASK = 0x80"
definition ACF_FIN_MASK :: u8 where "ACF_FIN_MASK = 0x40"
definition ACF_CON_MASK :: u8 where "ACF_CON_MASK = 0x20"
definition ACF_UNS_MASK :: u8 where "ACF_UNS_MASK = 0x10"
definition ACF_SEQ_MASK :: u8 where "ACF_SEQ_MASK = 0x0F"

lemmas acf_masks = ACF_FIR_MASK_def ACF_FIN_MASK_def ACF_CON_MASK_def ACF_UNS_MASK_def ACF_SEQ_MASK_def

definition AppControlField_DEFAULT :: AppControlField where
  "AppControlField_DEFAULT = \<lparr>acf_FIR = True, acf_FIN = True, acf_CON = False, acf_UNS = False, acf_SEQ = 0\<rparr>"

definition AppControlField_of :: "u8 \<Rightarrow> AppControlField" where
  "AppControlField_of byte =
     \<lparr>acf_FIR = (byte AND ACF_FIR_MASK \<noteq> 0), acf_FIN = (byte AND ACF_FIN_MASK \<noteq> 0),
      acf_CON = (byte AND ACF_CON_MASK \<noteq> 0), acf_UNS = (byte AND ACF_UNS_MASK \<noteq> 0),
      acf_SEQ = byte AND ACF_SEQ_MASK\<rparr>"

definition AppControlField_Request :: "u8 \<Rightarrow> AppControlField" where
  "AppControlField_Request seq = \<lparr>acf_FIR = True, acf_FIN = True, acf_CON = False, acf_UNS = False, acf_SEQ = seq\<rparr>"

definition AppControlField_ToByte :: "AppControlField \<Rightarrow> u8" where
  "AppControlField_ToByte c =
     (let ret = 0;
          ret = (if acf_FIR c then ret OR ACF_FIR_MASK else ret);
          ret = (if acf_FIN c then ret OR ACF_FIN_MASK else ret);
          ret = (if acf_CON c then ret OR ACF_CON_MASK else ret);
          ret = (if acf_UNS c then ret OR ACF_UNS_MASK else ret);
          seq = acf_SEQ c mod 16
      in ret OR seq)"

definition IsFirAndFin :: "AppControlField \<Rightarrow> bool" where
  "IsFirAndFin c \<longleftrightarrow> acf_FIR c \<and> acf_FIN c"


section \<open>Function codes\<close>

datatype FunctionCode =
    FC_CONFIRM
  | FC_READ
  | FC_WRITE
  | FC_SELECT
  | FC_OPERATE
  | FC_DIRECT_OPERATE
  | FC_DIRECT_OPERATE_NR
  | FC_IMMED_FREEZE
  | FC_IMMED_FREEZE_NR
  | FC_FREEZE_CLEAR
  | FC_FREEZE_CLEAR_NR
  | FC_FREEZE_AT_TIME
  | FC_FREEZE_AT_TIME_NR
  | FC_COLD_RESTART
  | FC_WARM_RESTART
  | FC_INITIALIZE_DATA
  | FC_INITIALIZE_APPLICATION
  | FC_START_APPLICATION
  | FC_STOP_APPLICATION
  | FC_SAVE_CONFIGURATION
  | FC_ENABLE_UNSOLICITED
  | FC_DISABLE_UNSOLICITED
  | FC_ASSIGN_CLASS
  | FC_DELAY_MEASURE
  | FC_RECORD_CURRENT_TIME
  | FC_OPEN_FILE
  | FC_CLOSE_FILE
  | FC_DELETE_FILE
  | FC_GET_FILE_INFO
  | FC_AUTHENTICATE_FILE
  | FC_ABORT_FILE
  | FC_AUTH_REQUEST
  | FC_AUTH_REQUEST_NO_ACK
  | FC_RESPONSE
  | FC_UNSOLICITED_RESPONSE
  | FC_AUTH_RESPONSE
  | FC_UNKNOWN

primrec FunctionCodeToType :: "FunctionCode \<Rightarrow> u8" where
  "FunctionCodeToType FC_CONFIRM = 0x0"
| "FunctionCodeToType FC_READ = 0x1"
| "FunctionCodeToType FC_WRITE = 0x2"
| "FunctionCodeToType FC_SELECT = 0x3"
| "FunctionCodeToType FC_OPERATE = 0x4"
| "FunctionCodeToType FC_DIRECT_OPERATE = 0x5"
| "FunctionCodeToType FC_DIRECT_OPERATE_NR = 0x6"
| "FunctionCodeToType FC_IMMED_FREEZE = 0x7"
| "FunctionCodeToType FC_IMMED_FREEZE_NR = 0x8"
| "FunctionCodeToType FC_FREEZE_CLEAR = 0x9"
| "FunctionCodeToType FC_FREEZE_CLEAR_NR = 0xA"
| "FunctionCodeToType FC_FREEZE_AT_TIME = 0xB"
| "FunctionCodeToType FC_FREEZE_AT_TIME_NR = 0xC"
| "FunctionCodeToType FC_COLD_RESTART = 0xD"
| "FunctionCodeToType FC_WARM_RESTART = 0xE"
| "FunctionCodeToType FC_INITIALIZE_DATA = 0xF"
| "FunctionCodeToType FC_INITIALIZE_APPLICATION = 0x10"
| "FunctionCodeToType FC_START_APPLICATION = 0x11"
| "FunctionCodeToType FC_STOP_APPLICATION = 0x12"
| "FunctionCodeToType FC_SAVE_CONFIGURATION = 0x13"
| "FunctionCodeToType FC_ENABLE_UNSOLICITED = 0x14"
| "FunctionCodeToType FC_DISABLE_UNSOLICITED = 0x15"
| "FunctionCodeToType FC_ASSIGN_CLASS = 0x16"
| "FunctionCodeToType FC_DELAY_MEASURE = 0x17"
| "FunctionCodeToType FC_RECORD_CURRENT_TIME = 0x18"
| "FunctionCodeToType FC_OPEN_FILE = 0x19"
| "FunctionCodeToType FC_CLOSE_FILE = 0x1A"
| "FunctionCodeToType FC_DELETE_FILE = 0x1B"
| "FunctionCodeToType FC_GET_FILE_INFO = 0x1C"
| "FunctionCodeToType FC_AUTHENTICATE_FILE = 0x1D"
| "FunctionCodeToType FC_ABORT_FILE = 0x1E"
| "FunctionCodeToType FC_AUTH_REQUEST = 0x20"
| "FunctionCodeToType FC_AUTH_REQUEST_NO_ACK = 0x21"
| "FunctionCodeToType FC_RESPONSE = 0x81"
| "FunctionCodeToType FC_UNSOLICITED_RESPONSE = 0x82"
| "FunctionCodeToType FC_AUTH_RESPONSE = 0x83"
| "FunctionCodeToType FC_UNKNOWN = 0xFF"

definition FunctionCodeFromType :: "u8 \<Rightarrow> FunctionCode" where
  "FunctionCodeFromType arg =
     (if arg = 0x0 then FC_CONFIRM
      else if arg = 0x1 then FC_READ
      else if arg = 0x2 then FC_WRITE
      else if arg = 0x3 then FC_SELECT
      else if arg = 0x4 then FC_OPERATE
      else if arg = 0x5 then FC_DIRECT_OPERATE
      else if arg = 0x6 then FC_DIRECT_OPERATE_NR
      else if arg = 0x7 then FC_IMMED_FREEZE
      else if arg = 0x8 then FC_IMMED_FREEZE_NR
      else if arg = 0x9 then FC_FREEZE_CLEAR
      else if arg = 0xA then FC_FREEZE_CLEAR_NR
      else if arg = 0xB then FC_FREEZE_AT_TIME
      else if arg = 0xC then FC_FREEZE_AT_TIME_NR
      else if arg = 0xD then FC_COLD_RESTART
      else if arg = 0xE then FC_WARM_RESTART
      else if arg = 0xF then FC_INITIALIZE_DATA
      else if arg = 0x10 then FC_INITIALIZE_APPLICATION
      else if arg = 0x11 then FC_START_APPLICATION
      else if arg = 0x12 then FC_STOP_APPLICATION
      else if arg = 0x13 then FC_SAVE_CONFIGURATION
      else if arg = 0x14 then FC_ENABLE_UNSOLICITED
      else if arg = 0x15 then FC_DISABLE_UNSOLICITED
      else if arg = 0x16 then FC_ASSIGN_CLASS
      else if arg = 0x17 then FC_DELAY_MEASURE
      else if arg = 0x18 then FC_RECORD_CURRENT_TIME
      else if arg = 0x19 then FC_OPEN_FILE
      else if arg = 0x1A then FC_CLOSE_FILE
      else if arg = 0x1B then FC_DELETE_FILE
      else if arg = 0x1C then FC_GET_FILE_INFO
      else if arg = 0x1D then FC_AUTHENTICATE_FILE
      else if arg = 0x1E then FC_ABORT_FILE
      else if arg = 0x20 then FC_AUTH_REQUEST
      else if arg = 0x21 then FC_AUTH_REQUEST_NO_ACK
      else if arg = 0x81 then FC_RESPONSE
      else if arg = 0x82 then FC_UNSOLICITED_RESPONSE
      else if arg = 0x83 then FC_AUTH_RESPONSE
      else FC_UNKNOWN)"

definition IsNoAckFuncCode :: "FunctionCode \<Rightarrow> bool" where
  "IsNoAckFuncCode code =
     (case code of
        FC_DIRECT_OPERATE_NR \<Rightarrow> True
      | FC_IMMED_FREEZE_NR \<Rightarrow> True
      | FC_FREEZE_AT_TIME_NR \<Rightarrow> True
      | FC_FREEZE_CLEAR_NR \<Rightarrow> True
      | _ \<Rightarrow> False)"


section \<open>Internal indications\<close>

datatype IINBit =
    IIN_ALL_STATIONS
  | IIN_CLASS1_EVENTS
  | IIN_CLASS2_EVENTS
  | IIN_CLASS3_EVENTS
  | IIN_NEED_TIME
  | IIN_LOCAL_CONTROL
  | IIN_DEVICE_TROUBLE
  | IIN_DEVICE_RESTART
  | IIN_FUNC_NOT_SUPPORTED
  | IIN_OBJECT_UNKNOWN
  | IIN_PARAM_ERROR
  | IIN_EVENT_BUFFER_OVERFLOW
  | IIN_ALREADY_EXECUTING
  | IIN_CONFIG_CORRUPT
  | IIN_RESERVED1
  | IIN_RESERVED2

text \<open>The masks of the least and of the most significant octet.\<close>

datatype IINMask = LSBMask u8 | MSBMask u8

text \<open>The switch that \<open>IsSet\<close>, \<open>SetBit\<close> and \<open>ClearBit\<close> share.\<close>

definition iin_mask :: "IINBit \<Rightarrow> IINMask" where
  "iin_mask b =
     (case b of
        IIN_ALL_STATIONS \<Rightarrow> LSBMask 0x01
      | IIN_CLASS1_EVENTS \<Rightarrow> LSBMask 0x02
      | IIN_CLASS2_EVENTS \<Rightarrow> LSBMask 0x04
      | IIN_CLASS3_EVENTS \<Rightarrow> LSBMask 0x08
      | IIN_NEED_TIME \<Rightarrow> LSBMask 0x10
      | IIN_LOCAL_CONTROL \<Rightarrow> LSBMask 0x20
      | IIN_DEVICE_TROUBLE \<Rightarrow> LSBMask 0x40
      | IIN_DEVICE_RESTART \<Rightarrow> LSBMask 0x80
      | IIN_FUNC_NOT_SUPPORTED \<Rightarrow> MSBMask 0x01
      | IIN_OBJECT_UNKNOWN \<Rightarrow> MSBMask 0x02
      | IIN_PARAM_ERROR \<Rightarrow> MSBMask 0x04
      | IIN_EVENT_BUFFER_OVERFLOW \<Rightarrow> MSBMask 0x08
      | IIN_ALREADY_EXECUTING \<Rightarrow> MSBMask 0x10
      | IIN_CONFIG_CORRUPT \<Rightarrow> MSBMask 0x20
      | IIN_RESERVED1 \<Rightarrow> MSBMask 0x40
      | IIN_RESERVED2 \<Rightarrow> MSBMask 0x80)"

record IINField =
  iin_LSB :: u8
  iin_MSB :: u8

definition IINField_Empty :: IINField where
  "IINField_Empty = \<lparr>iin_LSB = 0, iin_MSB = 0\<rparr>"

definition IINField_Get :: "IINMask \<Rightarrow> IINField \<Rightarrow> bool" where
  "IINField_Get k f =
     (case k of LSBMask m \<Rightarrow> iin_LSB f AND m \<noteq> 0 | MSBMask m \<Rightarrow> iin_MSB f AND m \<noteq> 0)"

definition IINField_Set :: "IINMask \<Rightarrow> IINField \<Rightarrow> IINField" where
  "IINField_Set k f =
     (case k of LSBMask m \<Rightarrow> f\<lparr>iin_LSB := iin_LSB f OR m\<rparr> | MSBMask m \<Rightarrow> f\<lparr>iin_MSB := iin_MSB f OR m\<rparr>)"

definition IINField_ClearMask :: "IINMask \<Rightarrow> IINField \<Rightarrow> IINField" where
  "IINField_ClearMask k f =
     (case k of LSBMask m \<Rightarrow> f\<lparr>iin_LSB := iin_LSB f AND NOT m\<rparr> | MSBMask m \<Rightarrow> f\<lparr>iin_MSB := iin_MSB f AND NOT m\<rparr>)"

definition IINField_IsSet :: "IINBit \<Rightarrow> IINField \<Rightarrow> bool" where
  "IINField_IsSet b f = IINField_Get (iin_mask b) f"

definition IINField_SetBit :: "IINBit \<Rightarrow> IINField \<Rightarrow> IINField" where
  "IINField_SetBit b f = IINField_Set (iin_mask b) f"

definition IINField_ClearBit :: "IINBit \<Rightarrow> IINField \<Rightarrow> IINField" where
  "IINField_ClearBit b f = IINField_ClearMask (iin_mask b) f"

definition IINField_SetBitToValue :: "IINBit \<Rightarrow> bool \<Rightarrow> IINField \<Rightarrow> IINField" where
  "IINField_SetBitToValue b v f = (if v then IINField_SetBit b f else IINField_ClearBit b f)"

definition IINField_of_bit :: "IINBit \<Rightarrow> IINField" where
  "IINField_of_bit b = IINField_SetBit b IINField_Empty"

definition IINField_Any :: "IINField \<Rightarrow> bool" where
  "IINField_Any f \<longleftrightarrow> iin_LSB f OR iin_MSB f \<noteq> 0"

text \<open>\<open>FUNC_NOT_SUPPORTED | OBJECT_UNKNOWN | PARAM_ERROR\<close>.\<close>

definition REQUEST_ERROR_MASK :: u8 where
  "REQUEST_ERROR_MASK = 0x01 OR 0x02 OR 0x04"

definition HasRequestError :: "IINField \<Rightarrow> bool" where
  "HasRequestError f = IINField_Get (MSBMask REQUEST_ERROR_MASK) f"

definition IINField_or :: "IINField \<Rightarrow> IINField \<Rightarrow> IINField" where
  "IINField_or f g = \<lparr>iin_LSB = iin_LSB f OR iin_LSB g, iin_MSB = iin_MSB f OR iin_MSB g\<rparr>"

definition IINField_and :: "IINField \<Rightarrow> IINField \<Rightarrow> IINField" where
  "IINField_and f g = \<lparr>iin_LSB = iin_LSB f AND iin_LSB g, iin_MSB = iin_MSB f AND iin_MSB g\<rparr>"

definition IINField_not :: "IINField \<Rightarrow> IINField" where
  "IINField_not f = \<lparr>iin_LSB = NOT (iin_LSB f), iin_MSB = NOT (iin_MSB f)\<rparr>"


section \<open>Headers and their parsers\<close>

record APDUHeader =
  apdu_control :: AppControlField
  apdu_function :: FunctionCode

record APDUResponseHeader = APDUHeader +
  apdu_IIN :: IINField

definition REQUEST_SIZE :: nat where "REQUEST_SIZE = 2"
definition RESPONSE_SIZE :: nat where "RESPONSE_SIZE = 4"

definition APDUHeader_Confirm :: "u8 \<Rightarrow> bool \<Rightarrow> APDUHeader" where
  "APDUHeader_Confirm seq unsolicited =
     \<lparr>apdu_control = \<lparr>acf_FIR = True, acf_FIN = True, acf_CON = False, acf_UNS = unsolicited, acf_SEQ = seq\<rparr>,
      apdu_function = FC_CONFIRM\<rparr>"

definition APDUHeader_SolicitedConfirm :: "u8 \<Rightarrow> APDUHeader" where
  "APDUHeader_SolicitedConfirm seq = APDUHeader_Confirm seq False"

definition APDUHeader_UnsolicitedConfirm :: "u8 \<Rightarrow> APDUHeader" where
  "APDUHeader_UnsolicitedConfirm seq = APDUHeader_Confirm seq True"

definition APDUHeader_Equals :: "APDUHeader \<Rightarrow> APDUHeader \<Rightarrow> bool" where
  "APDUHeader_Equals this header \<longleftrightarrow> apdu_function header = apdu_function this \<and>
     AppControlField_ToByte (apdu_control header) = AppControlField_ToByte (apdu_control this)"

text \<open>\<open>Result::Error()\<close> is \<^const>\<open>None\<close>; \<open>Ok\<close> carries the header and the objects. An index
  outside the fragment is the outer \<^const>\<open>None\<close>.\<close>

definition rslice_at :: "rslice \<Rightarrow> nat \<Rightarrow> u8 option" where
  "rslice_at s i = (if i < length s then Some (s ! i) else None)"

definition ParseRequest :: "rslice \<Rightarrow> (APDUHeader \<times> rslice) option option" where
  "ParseRequest apdu =
     (if length apdu < REQUEST_SIZE then Some None
      else do {
        b0 \<leftarrow> rslice_at apdu 0;
        b1 \<leftarrow> rslice_at apdu 1;
        Some (Some (\<lparr>apdu_control = AppControlField_of b0, apdu_function = FunctionCodeFromType b1\<rparr>,
          RSlice_Skip REQUEST_SIZE apdu)) })"

definition ParseResponse :: "rslice \<Rightarrow> (APDUResponseHeader \<times> rslice) option option" where
  "ParseResponse apdu =
     (if length apdu < RESPONSE_SIZE then Some None
      else do {
        b0 \<leftarrow> rslice_at apdu 0;
        b1 \<leftarrow> rslice_at apdu 1;
        b2 \<leftarrow> rslice_at apdu 2;
        b3 \<leftarrow> rslice_at apdu 3;
        Some (Some (\<lparr>apdu_control = AppControlField_of b0, apdu_function = FunctionCodeFromType b1,
            apdu_IIN = \<lparr>iin_LSB = b2, iin_MSB = b3\<rparr>\<rparr>,
          RSlice_Skip RESPONSE_SIZE apdu)) })"


section \<open>Writing the header\<close>

text \<open>
  \<open>APDUWrapper\<close>: \<open>remaining\<close> is a second view of the memory of \<open>buffer\<close>, given by its position and
  size. An assertion that fails is \<^const>\<open>None\<close>.
\<close>

record APDUWrapper =
  apw_valid :: bool
  apw_buffer :: wslice
  apw_rem_pos :: nat
  apw_rem_size :: nat

definition remaining_advance :: "nat \<Rightarrow> APDUWrapper \<Rightarrow> APDUWrapper" where
  "remaining_advance num w =
     (let n = min num (apw_rem_size w)
      in w\<lparr>apw_rem_pos := apw_rem_pos w + n, apw_rem_size := apw_rem_size w - n\<rparr>)"

definition APDUWrapper_of :: "wslice \<Rightarrow> APDUWrapper option" where
  "APDUWrapper_of buffer =
     (if 2 \<le> wsize buffer
      then Some (remaining_advance 2
        \<lparr>apw_valid = True, apw_buffer = buffer, apw_rem_pos = wpos buffer, apw_rem_size = wsize buffer\<rparr>)
      else None)"

definition APDUResponse_of :: "wslice \<Rightarrow> APDUWrapper option" where
  "APDUResponse_of buffer = do {
     w \<leftarrow> APDUWrapper_of buffer;
     if 4 \<le> wsize buffer then Some (remaining_advance 2 w) else None }"

definition SetFunction :: "FunctionCode \<Rightarrow> APDUWrapper \<Rightarrow> APDUWrapper option" where
  "SetFunction code w =
     (if wsize (apw_buffer w) > 0 then do {
        b \<leftarrow> wslice_store (apw_buffer w) 1 [FunctionCodeToType code];
        Some (w\<lparr>apw_buffer := b\<rparr>) }
      else None)"

definition GetFunction :: "APDUWrapper \<Rightarrow> FunctionCode option" where
  "GetFunction w = map_option FunctionCodeFromType (rslice_at (WSlice_ToRSlice (apw_buffer w)) 1)"

definition SetControl :: "AppControlField \<Rightarrow> APDUWrapper \<Rightarrow> APDUWrapper option" where
  "SetControl control w = do {
     b \<leftarrow> wslice_store (apw_buffer w) 0 [AppControlField_ToByte control];
     Some (w\<lparr>apw_buffer := b\<rparr>) }"

definition GetControl :: "APDUWrapper \<Rightarrow> AppControlField option" where
  "GetControl w = map_option AppControlField_of (rslice_at (WSlice_ToRSlice (apw_buffer w)) 0)"

definition SetIIN :: "IINField \<Rightarrow> APDUWrapper \<Rightarrow> APDUWrapper option" where
  "SetIIN indications w = do {
     b \<leftarrow> wslice_store (apw_buffer w) 2 [iin_LSB indications];
     b \<leftarrow> wslice_store b 3 [iin_MSB indications];
     Some (w\<lparr>apw_buffer := b\<rparr>) }"

definition GetIIN :: "APDUWrapper \<Rightarrow> IINField option" where
  "GetIIN w = do {
     b2 \<leftarrow> rslice_at (WSlice_ToRSlice (apw_buffer w)) 2;
     b3 \<leftarrow> rslice_at (WSlice_ToRSlice (apw_buffer w)) 3;
     Some \<lparr>iin_LSB = b2, iin_MSB = b3\<rparr> }"

definition APDU_Size :: "APDUWrapper \<Rightarrow> nat" where
  "APDU_Size w = wsize (apw_buffer w) - apw_rem_size w"

definition APDU_ToRSlice :: "APDUWrapper \<Rightarrow> rslice" where
  "APDU_ToRSlice w = RSlice_Take (APDU_Size w) (WSlice_ToRSlice (apw_buffer w))"

text \<open>\<open>ConfigureHeader\<close> ignores its function code argument.\<close>

definition ConfigureHeader :: "FunctionCode \<Rightarrow> u8 \<Rightarrow> APDUWrapper \<Rightarrow> APDUWrapper option" where
  "ConfigureHeader code seq w = do {
     w \<leftarrow> SetFunction FC_AUTH_REQUEST w;
     SetControl (AppControlField_Request seq) w }"

text \<open>The unsolicited null response of \<open>APDUBuilders.cpp\<close>.\<close>

definition NullUnsolicited :: "u8 \<Rightarrow> IINField \<Rightarrow> APDUWrapper \<Rightarrow> APDUWrapper option" where
  "NullUnsolicited seq iin response = do {
     w \<leftarrow> SetControl \<lparr>acf_FIR = True, acf_FIN = True, acf_CON = True, acf_UNS = True, acf_SEQ = seq\<rparr> response;
     w \<leftarrow> SetFunction FC_UNSOLICITED_RESPONSE w;
     SetIIN iin w }"

definition MeasureDelay :: "u8 \<Rightarrow> APDUWrapper \<Rightarrow> APDUWrapper option" where
  "MeasureDelay seq request = do {
     w \<leftarrow> SetFunction FC_DELAY_MEASURE request;
     SetControl (AppControlField_Request seq) w }"

definition RecordCurrentTime :: "u8 \<Rightarrow> APDUWrapper \<Rightarrow> APDUWrapper option" where
  "RecordCurrentTime seq request = do {
     w \<leftarrow> SetFunction FC_RECORD_CURRENT_TIME request;
     SetControl (AppControlField_Request seq) w }"


section \<open>Lemmas\<close>

lemma AppControlField_roundtrip:
  assumes "unat (acf_SEQ c) < 16"
  shows "AppControlField_of (AppControlField_ToByte c) = c"
proof -
  define s where "s = acf_SEQ c"
  have eq: "s mod 16 = s AND 0x0F"
    using and_mask_mod_2p [of s 4] by (simp add: mask_eq_exp_minus_1 word_mod_def)
  have "s < 2 ^ 4"
    using assms by (simp add: s_def word_less_nat_alt)
  then have id: "s AND 0x0F = s"
    using less_mask_eq [of s 4] by (simp add: mask_eq_exp_minus_1)
  have zero: "(s AND 0x0F) AND 0x80 = 0" "(s AND 0x0F) AND 0x40 = 0" "(s AND 0x0F) AND 0x20 = 0" "(s AND 0x0F) AND 0x10 = 0"
    by (simp_all add: and.assoc)
  obtain a b d e q where c: "c = \<lparr>acf_FIR = a, acf_FIN = b, acf_CON = d, acf_UNS = e, acf_SEQ = q\<rparr>"
    by (cases c)
  with eq id zero show ?thesis
    by (cases a; cases b; cases d; cases e)
      (simp_all add: s_def AppControlField_of_def AppControlField_ToByte_def Let_def acf_masks bit.conj_disj_distrib2)
qed

lemma FunctionCode_roundtrip: "FunctionCodeFromType (FunctionCodeToType f) = f"
  by (cases f) (simp_all add: FunctionCodeFromType_def)

lemma FunctionCodeFromType_known:
  "FunctionCodeFromType b \<noteq> FC_UNKNOWN \<Longrightarrow> FunctionCodeToType (FunctionCodeFromType b) = b"
  by (simp add: FunctionCodeFromType_def split: if_splits)

lemma APDUWrapper_mkw:
  assumes "2 \<le> length view"
  shows "APDUWrapper_of (mkw pre view post) = Some \<lparr>apw_valid = True, apw_buffer = mkw pre view post,
    apw_rem_pos = length pre + 2, apw_rem_size = length view - 2\<rparr>"
  using assms by (simp add: APDUWrapper_of_def remaining_advance_def min_def Let_def mkw_def)

lemma APDUResponse_mkw:
  assumes "4 \<le> length view"
  shows "APDUResponse_of (mkw pre view post) = Some \<lparr>apw_valid = True, apw_buffer = mkw pre view post,
    apw_rem_pos = length pre + 4, apw_rem_size = length view - 4\<rparr>"
  using assms by (simp add: APDUResponse_of_def APDUWrapper_mkw) (simp add: remaining_advance_def Let_def mkw_def)

lemma WSlice_ToRSlice_mkw: "WSlice_ToRSlice (mkw pre view post) = view"
  by (simp add: WSlice_ToRSlice_def mkw_def)

lemma IIN_Get_Set:
  "IINField_Get (iin_mask a) (IINField_Set (iin_mask b) f) \<longleftrightarrow> a = b \<or> IINField_Get (iin_mask a) f"
  by (cases a; cases b; simp add: IINField_Get_def IINField_Set_def iin_mask_def bit.conj_disj_distrib2)

lemma IIN_Get_Clear:
  "IINField_Get (iin_mask a) (IINField_ClearMask (iin_mask b) f) \<longleftrightarrow> a \<noteq> b \<and> IINField_Get (iin_mask a) f"
  by (cases a; cases b; simp add: IINField_Get_def IINField_ClearMask_def iin_mask_def and.assoc)


section \<open>Properties\<close>

text \<open>Parsing a request or response header is total and stays inside the fragment: it fails exactly when
  the fragment is shorter than the header, and otherwise yields the control octet, the function
  code (unknown codes become UNKNOWN, known ones are exact) and the remaining bytes as objects.\<close>

theorem header_parsers_total:
  "ParseRequest apdu = Some (if length apdu < 2 then None
     else Some (\<lparr>apdu_control = AppControlField_of (apdu ! 0), apdu_function = FunctionCodeFromType (apdu ! 1)\<rparr>, drop 2 apdu)) \<and>
   ParseResponse apdu = Some (if length apdu < 4 then None
     else Some (\<lparr>apdu_control = AppControlField_of (apdu ! 0), apdu_function = FunctionCodeFromType (apdu ! 1),
       apdu_IIN = \<lparr>iin_LSB = apdu ! 2, iin_MSB = apdu ! 3\<rparr>\<rparr>, drop 4 apdu)) \<and>
   (FunctionCodeFromType b = FC_UNKNOWN \<or> FunctionCodeToType (FunctionCodeFromType b) = b)"
  using FunctionCodeFromType_known [of b]
  by (auto simp: ParseRequest_def ParseResponse_def REQUEST_SIZE_def RESPONSE_SIZE_def rslice_at_def)

text \<open>A response header written into any buffer of at least four bytes is parsed back as the same control
  field, function code and indications with no objects, and the getters agree.\<close>

theorem response_header_roundtrip:
  assumes "wslice_wf buffer" and "4 \<le> wsize buffer" and "unat (acf_SEQ c) < 16"
  shows "\<exists>w0 w1 w2 w. APDUResponse_of buffer = Some w0 \<and> SetControl c w0 = Some w1 \<and> SetFunction f w1 = Some w2 \<and>
    SetIIN iin w2 = Some w \<and> APDU_Size w = 4 \<and>
    ParseResponse (APDU_ToRSlice w) = Some (Some (\<lparr>apdu_control = c, apdu_function = f, apdu_IIN = iin\<rparr>, [])) \<and>
    GetControl w = Some c \<and> GetFunction w = Some f \<and> GetIIN w = Some iin"
proof -
  from assms(1,2) obtain pre v0 v1 v2 v3 rest post where w: "buffer = mkw pre (v0 # v1 # v2 # v3 # rest) post"
    by (auto simp: wslice_wf_mkw numeral_eq_Suc Suc_le_length_iff)
  obtain l m where iin: "iin = \<lparr>iin_LSB = l, iin_MSB = m\<rparr>"
    by (cases iin)
  show ?thesis
    using AppControlField_roundtrip [OF assms(3)] FunctionCode_roundtrip [of f]
    by (simp add: w APDUResponse_mkw SetControl_def SetFunction_def SetIIN_def wslice_store_mkw list_store_def
        APDU_Size_def APDU_ToRSlice_def WSlice_ToRSlice_mkw ParseResponse_def RESPONSE_SIZE_def rslice_at_def
        GetControl_def GetFunction_def GetIIN_def iin)
qed

theorem response_header_roundtrip_witness:
  "\<exists>w0 w1 w2 w. APDUResponse_of (GetWSlice [9, 9, 9, 9, 9]) = Some w0 \<and> SetControl (AppControlField_Request 5) w0 = Some w1 \<and>
    SetFunction FC_RESPONSE w1 = Some w2 \<and> SetIIN (IINField_of_bit IIN_DEVICE_RESTART) w2 = Some w \<and> APDU_Size w = 4 \<and>
    GetFunction w = Some FC_RESPONSE"
proof -
  have "wslice_wf (GetWSlice [9, 9, 9, 9, 9])" "4 \<le> wsize (GetWSlice [9, 9, 9, 9, 9])"
      "unat (acf_SEQ (AppControlField_Request 5)) < 16"
    by (simp_all add: GetWSlice_def wslice_wf_def AppControlField_Request_def)
  from response_header_roundtrip [OF this, of FC_RESPONSE "IINField_of_bit IIN_DEVICE_RESTART"] show ?thesis
    by blast
qed

text \<open>The sixteen indication bits are independent: setting, clearing or assigning one changes exactly that
  bit, a field made of one bit has just that bit, the union of two fields has the bits of both, and
  the request error mask covers exactly the three request error bits.\<close>

theorem IIN_bits:
  "IINField_IsSet a (IINField_SetBit b f) = (a = b \<or> IINField_IsSet a f) \<and>
   IINField_IsSet a (IINField_ClearBit b f) = (a \<noteq> b \<and> IINField_IsSet a f) \<and>
   IINField_IsSet a (IINField_SetBitToValue b v f) = (if a = b then v else IINField_IsSet a f) \<and>
   IINField_IsSet a (IINField_of_bit b) = (a = b) \<and>
   IINField_IsSet a (IINField_or f g) = (IINField_IsSet a f \<or> IINField_IsSet a g) \<and>
   HasRequestError f = (IINField_IsSet IIN_FUNC_NOT_SUPPORTED f \<or> IINField_IsSet IIN_OBJECT_UNKNOWN f \<or>
     IINField_IsSet IIN_PARAM_ERROR f)"
proof -
  have empty: "\<not> IINField_Get (iin_mask a) IINField_Empty"
    by (cases a) (simp_all add: IINField_Get_def iin_mask_def IINField_Empty_def)
  have or: "IINField_Get (iin_mask a) (IINField_or f g) = (IINField_Get (iin_mask a) f \<or> IINField_Get (iin_mask a) g)"
    by (cases a) (simp_all add: IINField_Get_def iin_mask_def IINField_or_def bit.conj_disj_distrib2 or_eq_0_iff)
  have "iin_MSB f AND (0x01 OR 0x02 OR 0x04) = (iin_MSB f AND 0x01) OR (iin_MSB f AND 0x02) OR (iin_MSB f AND 0x04)"
    by (simp only: bit.conj_disj_distrib)
  then have "HasRequestError f = (IINField_IsSet IIN_FUNC_NOT_SUPPORTED f \<or> IINField_IsSet IIN_OBJECT_UNKNOWN f \<or>
     IINField_IsSet IIN_PARAM_ERROR f)"
    by (simp only: HasRequestError_def REQUEST_ERROR_MASK_def IINField_Get_def IINField_IsSet_def iin_mask_def
        IINBit.case IINMask.case) (simp add: or_eq_0_iff)
  with empty or show ?thesis
    by (auto simp: IINField_IsSet_def IINField_SetBit_def IINField_ClearBit_def IINField_SetBitToValue_def
        IINField_of_bit_def IIN_Get_Set IIN_Get_Clear)
qed

end
