(* ===== verification/ObjectHeader.thy ===== *)
theory ObjectHeader
  imports AppHeader Serialization
begin

text \<open>
  Object headers of an application fragment (\<open>app/parsing/ParseResult\<close>, \<open>gen/GroupVariation\<close>,
  \<open>gen/QualifierCode\<close>, \<open>app/GroupVariationRecord\<close>, \<open>app/Range\<close>, \<open>app/parsing/NumParser\<close>,
  \<open>app/parsing/ObjectHeaderParser\<close>, \<open>app/parsing/BitReader\<close>): the identification of an object
  type, the ranges and counts that follow a header, and packed bits.
\<close>

section \<open>Results\<close>

datatype ParseResult =
    PR_OK
  | NOT_ON_WHITELIST
  | NOT_ENOUGH_DATA_FOR_HEADER
  | NOT_ENOUGH_DATA_FOR_RANGE
  | NOT_ENOUGH_DATA_FOR_OBJECTS
  | UNREASONABLE_OBJECT_COUNT
  | UNKNOWN_OBJECT
  | UNKNOWN_QUALIFIER
  | INVALID_OBJECT_QUALIFIER
  | INVALID_OBJECT
  | BAD_START_STOP
  | COUNT_OF_ZERO


section \<open>Group and variation\<close>

text \<open>
  The enumeration \<open>GroupVariation\<close> has one constant per known object, whose underlying value is
  the group in the high octet and the variation in the low one; \<open>gv 30 2\<close> is \<open>Group30Var2\<close>.
\<close>

type_synonym GroupVariation = u16

definition gv :: "nat \<Rightarrow> nat \<Rightarrow> GroupVariation" where
  "gv grp variation = of_nat (256 * grp + variation)"

definition GV_UNKNOWN :: GroupVariation where "GV_UNKNOWN = 0xFFFF"

definition GroupVariation_values :: "GroupVariation list" where
  "GroupVariation_values =
     [gv 1 0, gv 1 1, gv 1 2, gv 2 0, gv 2 1, gv 2 2, gv 2 3, gv 3 0, gv 3 1, gv 3 2, gv 4 0,
      gv 4 1, gv 4 2, gv 4 3, gv 10 0, gv 10 1, gv 10 2, gv 11 0, gv 11 1, gv 11 2, gv 12 0,
      gv 12 1, gv 13 1, gv 13 2, gv 20 0, gv 20 1, gv 20 2, gv 20 5, gv 20 6, gv 21 0, gv 21 1,
      gv 21 2, gv 21 5, gv 21 6, gv 21 9, gv 21 10, gv 22 0, gv 22 1, gv 22 2, gv 22 5, gv 22 6,
      gv 23 0, gv 23 1, gv 23 2, gv 23 5, gv 23 6, gv 30 0, gv 30 1, gv 30 2, gv 30 3, gv 30 4,
      gv 30 5, gv 30 6, gv 32 0, gv 32 1, gv 32 2, gv 32 3, gv 32 4, gv 32 5, gv 32 6, gv 32 7,
      gv 32 8, gv 40 0, gv 40 1, gv 40 2, gv 40 3, gv 40 4, gv 41 0, gv 41 1, gv 41 2, gv 41 3,
      gv 41 4, gv 42 0, gv 42 1, gv 42 2, gv 42 3, gv 42 4, gv 42 5, gv 42 6, gv 42 7, gv 42 8,
      gv 43 1, gv 43 2, gv 43 3, gv 43 4, gv 43 5, gv 43 6, gv 43 7, gv 43 8, gv 50 1, gv 50 3,
      gv 50 4, gv 51 1, gv 51 2, gv 52 1, gv 52 2, gv 60 1, gv 60 2, gv 60 3, gv 60 4, gv 70 1,
      gv 70 2, gv 70 3, gv 70 4, gv 70 5, gv 70 6, gv 70 7, gv 70 8, gv 80 1, gv 110 0, gv 111 0,
      gv 112 0, gv 113 0, gv 120 1, gv 120 2, gv 120 3, gv 120 4, gv 120 5, gv 120 6, gv 120 7,
      gv 120 8, gv 120 9, gv 120 10, gv 120 11, gv 120 12, gv 120 13, gv 120 14, gv 120 15,
      gv 121 0, gv 121 1, gv 122 0, gv 122 1, gv 122 2]"

definition GroupVariationFromType :: "u16 \<Rightarrow> GroupVariation" where
  "GroupVariationFromType arg = (if arg \<in> set GroupVariation_values then arg else GV_UNKNOWN)"

datatype QualifierCode =
    QC_UINT8_START_STOP
  | QC_UINT16_START_STOP
  | QC_ALL_OBJECTS
  | QC_UINT8_CNT
  | QC_UINT16_CNT
  | QC_UINT8_CNT_UINT8_INDEX
  | QC_UINT16_CNT_UINT16_INDEX
  | QC_UINT16_FREE_FORMAT
  | QC_UNDEFINED

primrec QualifierCodeToType :: "QualifierCode \<Rightarrow> u8" where
  "QualifierCodeToType QC_UINT8_START_STOP = 0x0"
| "QualifierCodeToType QC_UINT16_START_STOP = 0x1"
| "QualifierCodeToType QC_ALL_OBJECTS = 0x6"
| "QualifierCodeToType QC_UINT8_CNT = 0x7"
| "QualifierCodeToType QC_UINT16_CNT = 0x8"
| "QualifierCodeToType QC_UINT8_CNT_UINT8_INDEX = 0x17"
| "QualifierCodeToType QC_UINT16_CNT_UINT16_INDEX = 0x28"
| "QualifierCodeToType QC_UINT16_FREE_FORMAT = 0x5B"
| "QualifierCodeToType QC_UNDEFINED = 0xFF"

definition QualifierCodeFromType :: "u8 \<Rightarrow> QualifierCode" where
  "QualifierCodeFromType arg =
     (if arg = 0x0 then QC_UINT8_START_STOP
      else if arg = 0x1 then QC_UINT16_START_STOP
      else if arg = 0x6 then QC_ALL_OBJECTS
      else if arg = 0x7 then QC_UINT8_CNT
      else if arg = 0x8 then QC_UINT16_CNT
      else if arg = 0x17 then QC_UINT8_CNT_UINT8_INDEX
      else if arg = 0x28 then QC_UINT16_CNT_UINT16_INDEX
      else if arg = 0x5B then QC_UINT16_FREE_FORMAT
      else QC_UNDEFINED)"

datatype GroupVariationType = GVT_STATIC | GVT_EVENT | GVT_OTHER

record GroupVariationRecord =
  gvr_enumeration :: GroupVariation
  gvr_type :: GroupVariationType
  gvr_group :: u8
  gvr_variation :: u8

record HeaderRecord = GroupVariationRecord +
  hr_qualifier :: u8
  hr_headerIndex :: nat

definition GetQualifierCode :: "HeaderRecord \<Rightarrow> QualifierCode" where
  "GetQualifierCode record0 = QualifierCodeFromType (hr_qualifier record0)"

definition GetGroupVar :: "u8 \<Rightarrow> u8 \<Rightarrow> u16" where
  "GetGroupVar grp variation = push_bit 8 (ucast grp) OR ucast variation"

definition GroupVariation_GetType :: "u8 \<Rightarrow> u8 \<Rightarrow> GroupVariationType" where
  "GroupVariation_GetType grp variation =
     (if grp = 1 then GVT_STATIC
      else if grp = 2 then GVT_EVENT
      else if grp = 3 then GVT_STATIC
      else if grp = 4 then GVT_EVENT
      else if grp = 10 then GVT_STATIC
      else if grp = 11 then GVT_EVENT
      else if grp = 13 then GVT_EVENT
      else if grp = 20 then GVT_STATIC
      else if grp = 21 then GVT_STATIC
      else if grp = 22 then GVT_EVENT
      else if grp = 23 then GVT_EVENT
      else if grp = 30 then GVT_STATIC
      else if grp = 32 then GVT_EVENT
      else if grp = 40 then GVT_STATIC
      else if grp = 41 then GVT_EVENT
      else if grp = 42 then GVT_EVENT
      else if grp = 43 then GVT_EVENT
      else if grp = 50 then (if variation = 4 then GVT_STATIC else GVT_OTHER)
      else if grp = 60 then (if variation = 1 then GVT_STATIC else GVT_EVENT)
      else if grp = 110 then GVT_STATIC
      else if grp = 111 then GVT_EVENT
      else if grp = 121 then GVT_STATIC
      else if grp = 122 then GVT_EVENT
      else GVT_OTHER)"

text \<open>Octet strings use the variation as their length: any unknown variation of their groups is variation 0.\<close>

definition GetEnumAndType :: "u8 \<Rightarrow> u8 \<Rightarrow> GroupVariation \<times> GroupVariationType" where
  "GetEnumAndType grp variation =
     (let type = GroupVariation_GetType grp variation;
          enumeration = GroupVariationFromType (GetGroupVar grp variation);
          enumeration =
            (if enumeration = GV_UNKNOWN
             then (if grp = 110 then gv 110 0
                   else if grp = 111 then gv 111 0
                   else if grp = 112 then gv 112 0
                   else if grp = 113 then gv 113 0
                   else enumeration)
             else enumeration)
      in (enumeration, type))"

definition GetRecord :: "u8 \<Rightarrow> u8 \<Rightarrow> GroupVariationRecord" where
  "GetRecord grp variation =
     (let pair = GetEnumAndType grp variation
      in \<lparr>gvr_enumeration = fst pair, gvr_type = snd pair, gvr_group = grp, gvr_variation = variation\<rparr>)"

definition HeaderRecord_of :: "GroupVariationRecord \<Rightarrow> u8 \<Rightarrow> nat \<Rightarrow> HeaderRecord" where
  "HeaderRecord_of g qualifier headerIndex =
     \<lparr>gvr_enumeration = gvr_enumeration g, gvr_type = gvr_type g, gvr_group = gvr_group g,
      gvr_variation = gvr_variation g, hr_qualifier = qualifier, hr_headerIndex = headerIndex\<rparr>"


section \<open>Ranges\<close>

record Range =
  range_start :: u16
  range_stop :: u16

definition Range_From :: "u16 \<Rightarrow> u16 \<Rightarrow> Range" where
  "Range_From start stop = \<lparr>range_start = start, range_stop = stop\<rparr>"

definition Range_Invalid :: Range where
  "Range_Invalid = \<lparr>range_start = 1, range_stop = 0\<rparr>"

definition Range_IsValid :: "Range \<Rightarrow> bool" where
  "Range_IsValid r \<longleftrightarrow> range_start r \<le> range_stop r"

text \<open>The subtraction happens in 32 bits.\<close>

definition Range_Count :: "Range \<Rightarrow> u32" where
  "Range_Count r = (if Range_IsValid r then ucast (range_stop r) - ucast (range_start r) + 1 else 0)"

definition Range_Advance :: "Range \<Rightarrow> bool \<times> Range" where
  "Range_Advance r =
     (if Range_IsValid r
      then (if range_start r < range_stop r then (True, r\<lparr>range_start := range_start r + 1\<rparr>)
            else (True, r\<lparr>range_start := 1, range_stop := 0\<rparr>))
      else (False, r))"

definition Range_Intersection :: "Range \<Rightarrow> Range \<Rightarrow> Range" where
  "Range_Intersection r other =
     \<lparr>range_start = max (range_start r) (range_start other), range_stop = min (range_stop r) (range_stop other)\<rparr>"

definition Range_Union :: "Range \<Rightarrow> Range \<Rightarrow> Range" where
  "Range_Union r other =
     \<lparr>range_start = min (range_start r) (range_start other), range_stop = max (range_stop r) (range_stop other)\<rparr>"

definition Range_Equals :: "Range \<Rightarrow> Range \<Rightarrow> bool" where
  "Range_Equals r other \<longleftrightarrow> range_start other = range_start r \<and> range_stop other = range_stop r"

definition Range_IsOneByte :: "Range \<Rightarrow> bool" where
  "Range_IsOneByte r \<longleftrightarrow> Range_IsValid r \<and> range_start r \<le> 255 \<and> range_stop r \<le> 255"


section \<open>Numbers in headers\<close>

text \<open>
  \<open>NumParser\<close> holds a read function and its size; its two factories give two values. The
  out parameters of the parse functions are passed in and returned.
\<close>

datatype NumParser = OneByte | TwoByte

definition NumBytes :: "NumParser \<Rightarrow> nat" where
  "NumBytes p = (case p of OneByte \<Rightarrow> 1 | TwoByte \<Rightarrow> 2)"

definition ReadNum :: "NumParser \<Rightarrow> rslice \<Rightarrow> (u16 \<times> rslice) option" where
  "ReadNum p buffer =
     (case p of
        OneByte \<Rightarrow> do { (b, buffer) \<leftarrow> UInt8_ReadBuffer buffer; Some (ucast b, buffer) }
      | TwoByte \<Rightarrow> UInt16_ReadBuffer buffer)"

definition NumParser_Read :: "NumParser \<Rightarrow> u16 \<Rightarrow> rslice \<Rightarrow> (bool \<times> u16 \<times> rslice) option" where
  "NumParser_Read p num buffer =
     (if length buffer < NumBytes p then Some (False, num, buffer)
      else do { (num, buffer) \<leftarrow> ReadNum p buffer; Some (True, num, buffer) })"

definition ParseCount :: "NumParser \<Rightarrow> u16 \<Rightarrow> rslice \<Rightarrow> (ParseResult \<times> u16 \<times> rslice) option" where
  "ParseCount p count buffer = do {
     (ok, count, buffer) \<leftarrow> NumParser_Read p count buffer;
     Some (if ok then (if count = 0 then COUNT_OF_ZERO else PR_OK) else NOT_ENOUGH_DATA_FOR_RANGE, count, buffer) }"

definition ParseRange :: "NumParser \<Rightarrow> Range \<Rightarrow> rslice \<Rightarrow> (ParseResult \<times> Range \<times> rslice) option" where
  "ParseRange p rng buffer =
     (if length buffer < 2 * NumBytes p then Some (NOT_ENOUGH_DATA_FOR_RANGE, rng, buffer)
      else do {
        (start, buffer) \<leftarrow> ReadNum p buffer;
        (stop, buffer) \<leftarrow> ReadNum p buffer;
        let rng = \<lparr>range_start = start, range_stop = stop\<rparr>;
        Some (if Range_IsValid rng then PR_OK else BAD_START_STOP, rng, buffer) })"


section \<open>Object headers\<close>

record ObjectHeader =
  oh_group :: u8
  oh_variation :: u8
  oh_qualifier :: u8

definition ObjectHeader_default :: ObjectHeader where
  "ObjectHeader_default = \<lparr>oh_group = 0, oh_variation = 0, oh_qualifier = 0\<rparr>"

definition ParseObjectHeader :: "ObjectHeader \<Rightarrow> rslice \<Rightarrow> (ParseResult \<times> ObjectHeader \<times> rslice) option" where
  "ParseObjectHeader header buffer =
     (if length buffer < 3 then Some (NOT_ENOUGH_DATA_FOR_HEADER, header, buffer)
      else do {
        (grp, buffer) \<leftarrow> UInt8_ReadBuffer buffer;
        (variation, buffer) \<leftarrow> UInt8_ReadBuffer buffer;
        (qualifier, buffer) \<leftarrow> UInt8_ReadBuffer buffer;
        Some (PR_OK, \<lparr>oh_group = grp, oh_variation = variation, oh_qualifier = qualifier\<rparr>, buffer) })"

definition ReadFirstGroupVariation :: "rslice \<Rightarrow> GroupVariation \<Rightarrow> (bool \<times> GroupVariation) option" where
  "ReadFirstGroupVariation objects g = do {
     (result, oheader, _) \<leftarrow> ParseObjectHeader ObjectHeader_default objects;
     Some (if result \<noteq> PR_OK then (False, g)
           else (True, gvr_enumeration (GetRecord (oh_group oheader) (oh_variation oheader)))) }"


section \<open>Packed bits\<close>

datatype DoubleBit = DB_INTERMEDIATE | DB_DETERMINED_OFF | DB_DETERMINED_ON | DB_INDETERMINATE

definition DoubleBitFromType :: "u8 \<Rightarrow> DoubleBit" where
  "DoubleBitFromType arg =
     (if arg = 0x0 then DB_INTERMEDIATE
      else if arg = 0x1 then DB_DETERMINED_OFF
      else if arg = 0x2 then DB_DETERMINED_ON
      else DB_INDETERMINATE)"

definition NumBytesInBits :: "u32 \<Rightarrow> u32" where
  "NumBytesInBits numBits =
     (let numBytes = numBits div 8 in if numBits mod 8 = 0 then numBytes else numBytes + 1)"

definition GetBit :: "rslice \<Rightarrow> nat \<Rightarrow> bool option" where
  "GetBit buffer position =
     (let byte = position div 8; b = position mod 8
      in if byte < length buffer then Some (buffer ! byte AND push_bit b 1 \<noteq> 0) else None)"

definition NumBytesInDoubleBits :: "u32 \<Rightarrow> u32" where
  "NumBytesInDoubleBits numBits =
     (let numBytes = numBits div 4 in if numBits mod 4 = 0 then numBytes else numBytes + 1)"

definition GetDoubleBit :: "rslice \<Rightarrow> nat \<Rightarrow> DoubleBit option" where
  "GetDoubleBit buffer index =
     (let byteNumber = index div 4
      in if byteNumber < length buffer
         then (let byte = buffer ! byteNumber; bitshift = 2 * (index mod 4)
               in Some (DoubleBitFromType (drop_bit bitshift byte AND 0x03)))
         else None)"


section \<open>Lemmas\<close>

lemma QualifierCode_roundtrip: "QualifierCodeFromType (QualifierCodeToType q) = q"
  by (cases q) (simp_all add: QualifierCodeFromType_def)

lemma unat_of_nat_u32: "n < 4294967296 \<Longrightarrow> unat (of_nat n :: u32) = n"
  by (simp add: unat_of_nat)

lemma Range_Count_unat:
  "unat (Range_Count r) = (if Range_IsValid r then unat (range_stop r) - unat (range_start r) + 1 else 0)"
proof (cases "Range_IsValid r")
  case True
  define a b where "a = unat (range_start r)" and "b = unat (range_stop r)"
  have le: "a \<le> b" "b < 65536"
    using True by (simp_all add: a_def b_def Range_IsValid_def word_le_nat_alt)
  have ab: "(ucast (range_stop r) :: u32) = of_nat b" "(ucast (range_start r) :: u32) = of_nat a"
    by (simp_all add: a_def b_def)
  have "Range_Count r = of_nat (b - a + 1)"
    using True le by (simp add: Range_Count_def ab of_nat_diff)
  moreover have "unat (of_nat (b - a + 1) :: u32) = b - a + 1"
    using le by (intro unat_of_nat_u32) simp
  ultimately show ?thesis
    using True by (simp add: a_def b_def)
next
  case False
  then show ?thesis by (simp add: Range_Count_def)
qed

lemma Range_Count_bound: "unat (Range_Count r) \<le> 65536"
proof -
  have "unat (range_stop r) - unat (range_start r) \<le> 65535"
    using unat_u16_less [of "range_stop r"] by linarith
  then show ?thesis by (simp add: Range_Count_unat)
qed

lemma ReadNum_ok:
  assumes "NumBytes p \<le> length b"
  shows "\<exists>n. ReadNum p b = Some (n, drop (NumBytes p) b)"
proof (cases p)
  case OneByte
  with assms obtain v where "UInt8_Read b = Some v"
    using UInt8_Read_defined [of b] by (auto simp: NumBytes_def Suc_le_eq)
  with OneByte show ?thesis
    by (simp add: ReadNum_def NumBytes_def UInt8_ReadBuffer_def)
next
  case TwoByte
  with assms obtain v where "UInt16_Read b = Some v"
    using UInt16_Read_defined [of b] by (auto simp: NumBytes_def)
  with TwoByte show ?thesis
    by (simp add: ReadNum_def NumBytes_def UInt16_ReadBuffer_def)
qed


lemma ReadNum_prefix:
  assumes "NumBytes p \<le> length b"
  shows "ReadNum p (b @ r) = map_option (\<lambda>(n, d). (n, d @ r)) (ReadNum p b)"
proof (cases p)
  case OneByte
  with assms obtain x xs where "b = x # xs"
    by (cases b) (auto simp: NumBytes_def)
  with OneByte show ?thesis
    by (simp add: ReadNum_def UInt8_ReadBuffer_def)
next
  case TwoByte
  with assms have "2 \<le> length b"
    by (simp add: NumBytes_def)
  with TwoByte show ?thesis
    by (auto simp: ReadNum_def UInt16_ReadBuffer_def UInt16_Read_append option.map_comp comp_def bind_eq_Some_conv
        split: option.splits intro: option.expand elim!: two_le_lengthE)
qed

end
