(* ===== verification/Objects.thy ===== *)
theory Objects
  imports ObjectHeader
begin

text \<open>
  The encodings of the objects (\<open>openpal/serialization/Parse\<close>, \<open>objects/Group*\<close>,
  \<open>app/parsing/PrefixFields\<close>): the field types and sizes of the fixed-size objects, the layouts
  of the variable-length authentication objects, and the functions that read them. The value of
  an object is the list of its fields; a floating-point field is kept as its bytes, and the
  conversion of fields to measurement objects (\<open>MeasurementFactory\<close>) is not modelled.
\<close>

section \<open>Fields\<close>

datatype FieldType = F_u8 | F_u16 | F_u32 | F_i16 | F_i32 | F_time | F_float | F_double

datatype FieldValue =
    FV_u8 u8
  | FV_u16 u16
  | FV_u32 u32
  | FV_i16 u16
  | FV_i32 u32
  | FV_time i64
  | FV_float "u8 list"
  | FV_double "u8 list"

definition field_size :: "FieldType \<Rightarrow> nat" where
  "field_size f =
     (case f of F_u8 \<Rightarrow> 1 | F_u16 \<Rightarrow> 2 | F_u32 \<Rightarrow> 4 | F_i16 \<Rightarrow> 2 | F_i32 \<Rightarrow> 4 | F_time \<Rightarrow> 6 | F_float \<Rightarrow> 4 | F_double \<Rightarrow> 8)"

abbreviation fields_size :: "FieldType list \<Rightarrow> nat" where
  "fields_size fs \<equiv> sum_list (map field_size fs)"

text \<open>The overloads of \<open>Parse::Read\<close>; a signed integer has the bytes of the unsigned one.\<close>

definition Parse_bytes :: "nat \<Rightarrow> rslice \<Rightarrow> (u8 list option \<times> rslice) option" where
  "Parse_bytes n input = ParseType n (\<lambda>b. Some (RSlice_Take n b, RSlice_Advance n b)) input"

definition as_field :: "('a \<Rightarrow> FieldValue) \<Rightarrow> ('a option \<times> rslice) option \<Rightarrow> (FieldValue option \<times> rslice) option" where
  "as_field c r = map_option (\<lambda>(v, b). (map_option c v, b)) r"

definition Parse_Read :: "FieldType \<Rightarrow> rslice \<Rightarrow> (FieldValue option \<times> rslice) option" where
  "Parse_Read f input =
     (case f of
        F_u8 \<Rightarrow> as_field FV_u8 (Parse_u8 input)
      | F_u16 \<Rightarrow> as_field FV_u16 (Parse_u16 input)
      | F_u32 \<Rightarrow> as_field FV_u32 (Parse_u32 input)
      | F_i16 \<Rightarrow> as_field FV_i16 (Parse_u16 input)
      | F_i32 \<Rightarrow> as_field FV_i32 (Parse_u32 input)
      | F_time \<Rightarrow> as_field FV_time (Parse_u48 input)
      | F_float \<Rightarrow> as_field FV_float (Parse_bytes 4 input)
      | F_double \<Rightarrow> as_field FV_double (Parse_bytes 8 input))"

fun Parse_Many :: "FieldType list \<Rightarrow> rslice \<Rightarrow> (FieldValue list option \<times> rslice) option" where
  "Parse_Many [] input = Some (Some [], input)"
| "Parse_Many (f # fs) input = do {
     (v, input) \<leftarrow> Parse_Read f input;
     (case v of
        None \<Rightarrow> Some (None, input)
      | Some v \<Rightarrow> do {
          (vs, input) \<leftarrow> Parse_Many fs input;
          Some (map_option (\<lambda>vs. v # vs) vs, input) }) }"


section \<open>Fixed-size objects\<close>

text \<open>Each object by its group and variation, the constant its \<open>Size\<close> returns, and the fields its
  \<open>Read\<close> passes to \<open>Parse::Many\<close>.\<close>

type_synonym descriptor = "GroupVariation \<times> nat \<times> FieldType list"

definition Group1_objects :: "descriptor list" where
  "Group1_objects =
     [(gv 1 2, 1, [F_u8])]"

definition Group2_objects :: "descriptor list" where
  "Group2_objects =
     [(gv 2 1, 1, [F_u8]),
      (gv 2 2, 7, [F_u8, F_time]),
      (gv 2 3, 3, [F_u8, F_u16])]"

definition Group3_objects :: "descriptor list" where
  "Group3_objects =
     [(gv 3 2, 1, [F_u8])]"

definition Group4_objects :: "descriptor list" where
  "Group4_objects =
     [(gv 4 1, 1, [F_u8]),
      (gv 4 2, 7, [F_u8, F_time]),
      (gv 4 3, 3, [F_u8, F_u16])]"

definition Group10_objects :: "descriptor list" where
  "Group10_objects =
     [(gv 10 2, 1, [F_u8])]"

definition Group11_objects :: "descriptor list" where
  "Group11_objects =
     [(gv 11 1, 1, [F_u8]),
      (gv 11 2, 7, [F_u8, F_time])]"

definition Group12_objects :: "descriptor list" where
  "Group12_objects =
     [(gv 12 1, 11, [F_u8, F_u8, F_u32, F_u32, F_u8])]"

definition Group13_objects :: "descriptor list" where
  "Group13_objects =
     [(gv 13 1, 1, [F_u8]),
      (gv 13 2, 7, [F_u8, F_time])]"

definition Group20_objects :: "descriptor list" where
  "Group20_objects =
     [(gv 20 1, 5, [F_u8, F_u32]),
      (gv 20 2, 3, [F_u8, F_u16]),
      (gv 20 5, 4, [F_u32]),
      (gv 20 6, 2, [F_u16])]"

definition Group21_objects :: "descriptor list" where
  "Group21_objects =
     [(gv 21 1, 5, [F_u8, F_u32]),
      (gv 21 2, 3, [F_u8, F_u16]),
      (gv 21 5, 11, [F_u8, F_u32, F_time]),
      (gv 21 6, 9, [F_u8, F_u16, F_time]),
      (gv 21 9, 4, [F_u32]),
      (gv 21 10, 2, [F_u16])]"

definition Group22_objects :: "descriptor list" where
  "Group22_objects =
     [(gv 22 1, 5, [F_u8, F_u32]),
      (gv 22 2, 3, [F_u8, F_u16]),
      (gv 22 5, 11, [F_u8, F_u32, F_time]),
      (gv 22 6, 9, [F_u8, F_u16, F_time])]"

definition Group23_objects :: "descriptor list" where
  "Group23_objects =
     [(gv 23 1, 5, [F_u8, F_u32]),
      (gv 23 2, 3, [F_u8, F_u16]),
      (gv 23 5, 11, [F_u8, F_u32, F_time]),
      (gv 23 6, 9, [F_u8, F_u16, F_time])]"

definition Group30_objects :: "descriptor list" where
  "Group30_objects =
     [(gv 30 1, 5, [F_u8, F_i32]),
      (gv 30 2, 3, [F_u8, F_i16]),
      (gv 30 3, 4, [F_i32]),
      (gv 30 4, 2, [F_i16]),
      (gv 30 5, 5, [F_u8, F_float]),
      (gv 30 6, 9, [F_u8, F_double])]"

definition Group32_objects :: "descriptor list" where
  "Group32_objects =
     [(gv 32 1, 5, [F_u8, F_i32]),
      (gv 32 2, 3, [F_u8, F_i16]),
      (gv 32 3, 11, [F_u8, F_i32, F_time]),
      (gv 32 4, 9, [F_u8, F_i16, F_time]),
      (gv 32 5, 5, [F_u8, F_float]),
      (gv 32 6, 9, [F_u8, F_double]),
      (gv 32 7, 11, [F_u8, F_float, F_time]),
      (gv 32 8, 15, [F_u8, F_double, F_time])]"

definition Group40_objects :: "descriptor list" where
  "Group40_objects =
     [(gv 40 1, 5, [F_u8, F_i32]),
      (gv 40 2, 3, [F_u8, F_i16]),
      (gv 40 3, 5, [F_u8, F_float]),
      (gv 40 4, 9, [F_u8, F_double])]"

definition Group41_objects :: "descriptor list" where
  "Group41_objects =
     [(gv 41 1, 5, [F_i32, F_u8]),
      (gv 41 2, 3, [F_i16, F_u8]),
      (gv 41 3, 5, [F_float, F_u8]),
      (gv 41 4, 9, [F_double, F_u8])]"

definition Group42_objects :: "descriptor list" where
  "Group42_objects =
     [(gv 42 1, 5, [F_u8, F_i32]),
      (gv 42 2, 3, [F_u8, F_i16]),
      (gv 42 3, 11, [F_u8, F_i32, F_time]),
      (gv 42 4, 9, [F_u8, F_i16, F_time]),
      (gv 42 5, 5, [F_u8, F_float]),
      (gv 42 6, 9, [F_u8, F_double]),
      (gv 42 7, 11, [F_u8, F_float, F_time]),
      (gv 42 8, 15, [F_u8, F_double, F_time])]"

definition Group43_objects :: "descriptor list" where
  "Group43_objects =
     [(gv 43 1, 5, [F_u8, F_i32]),
      (gv 43 2, 3, [F_u8, F_i16]),
      (gv 43 3, 11, [F_u8, F_i32, F_time]),
      (gv 43 4, 9, [F_u8, F_i16, F_time]),
      (gv 43 5, 5, [F_u8, F_float]),
      (gv 43 6, 9, [F_u8, F_double]),
      (gv 43 7, 11, [F_u8, F_float, F_time]),
      (gv 43 8, 15, [F_u8, F_double, F_time])]"

definition Group50_objects :: "descriptor list" where
  "Group50_objects =
     [(gv 50 1, 6, [F_time]),
      (gv 50 3, 6, [F_time]),
      (gv 50 4, 11, [F_time, F_u32, F_u8])]"

definition Group51_objects :: "descriptor list" where
  "Group51_objects =
     [(gv 51 1, 6, [F_time]),
      (gv 51 2, 6, [F_time])]"

definition Group52_objects :: "descriptor list" where
  "Group52_objects =
     [(gv 52 1, 2, [F_u16]),
      (gv 52 2, 2, [F_u16])]"

definition Group120_objects :: "descriptor list" where
  "Group120_objects =
     [(gv 120 3, 6, [F_u32, F_u16]),
      (gv 120 4, 2, [F_u16])]"

definition Group121_objects :: "descriptor list" where
  "Group121_objects =
     [(gv 121 1, 7, [F_u8, F_u16, F_u32])]"

definition Group122_objects :: "descriptor list" where
  "Group122_objects =
     [(gv 122 1, 7, [F_u8, F_u16, F_u32]),
      (gv 122 2, 13, [F_u8, F_u16, F_u32, F_time])]"

definition descriptors :: "descriptor list" where
  "descriptors = concat
     [Group1_objects, Group2_objects, Group3_objects, Group4_objects, Group10_objects, Group11_objects,
      Group12_objects, Group13_objects, Group20_objects, Group21_objects, Group22_objects, Group23_objects,
      Group30_objects, Group32_objects, Group40_objects, Group41_objects, Group42_objects, Group43_objects,
      Group50_objects, Group51_objects, Group52_objects, Group120_objects, Group121_objects, Group122_objects]"

definition Descriptor_Size :: "GroupVariation \<Rightarrow> nat" where
  "Descriptor_Size g = (case map_of descriptors g of Some (n, _) \<Rightarrow> n | None \<Rightarrow> 0)"

definition Descriptor_fields :: "GroupVariation \<Rightarrow> FieldType list" where
  "Descriptor_fields g = (case map_of descriptors g of Some (_, fs) \<Rightarrow> fs | None \<Rightarrow> [])"

definition Descriptor_Read :: "GroupVariation \<Rightarrow> rslice \<Rightarrow> (FieldValue list option \<times> rslice) option" where
  "Descriptor_Read g buffer = Parse_Many (Descriptor_fields g) buffer"


section \<open>Variable-length objects\<close>

text \<open>The fields with a 16-bit length prefix: all lengths come first, then all contents.\<close>

fun ReadLengths :: "nat \<Rightarrow> rslice \<Rightarrow> (nat list \<times> rslice) option" where
  "ReadLengths 0 input = Some ([], input)"
| "ReadLengths (Suc n) input = do {
     (len, input) \<leftarrow> UInt16_ReadBuffer input;
     (lens, input) \<leftarrow> ReadLengths n input;
     Some (unat len # lens, input) }"

fun ReadFields :: "rslice \<Rightarrow> nat list \<Rightarrow> u8 list list \<times> rslice" where
  "ReadFields input [] = ([], input)"
| "ReadFields input (len # lens) =
     (let output = RSlice_Take len input;
          (outputs, input) = ReadFields (RSlice_Advance len input) lens
      in (output # outputs, input))"

definition PrefixFields_Read :: "nat \<Rightarrow> rslice \<Rightarrow> (u8 list list option \<times> rslice) option" where
  "PrefixFields_Read n input =
     (if length input < n * 2 then Some (None, input)
      else do {
        (lengths, input) \<leftarrow> ReadLengths n input;
        if length input < sum_list lengths then Some (None, input)
        else let (outputs, input) = ReadFields input lengths in Some (Some outputs, input) })"

text \<open>
  The layout of an authentication object: its minimum size, the integer fields, the number of
  length-prefixed fields, and whether the rest of the buffer is a field (otherwise there must be
  no rest). Enumerations are kept as the octet they are converted from.
\<close>

record VariableLayout =
  vl_min :: nat
  vl_fields :: "FieldType list"
  vl_prefixed :: nat
  vl_remainder :: bool

record VariableObject =
  vo_fields :: "FieldValue list"
  vo_prefixed :: "u8 list list"
  vo_remainder :: "u8 list"

definition Group120_layouts :: "(nat \<times> VariableLayout) list" where
  "Group120_layouts =
     [(1, \<lparr>vl_min = 8, vl_fields = [F_u32, F_u16, F_u8, F_u8], vl_prefixed = 0, vl_remainder = True\<rparr>),
      (2, \<lparr>vl_min = 6, vl_fields = [F_u32, F_u16], vl_prefixed = 0, vl_remainder = True\<rparr>),
      (5, \<lparr>vl_min = 11, vl_fields = [F_u32, F_u16, F_u8, F_u8, F_u8], vl_prefixed = 1, vl_remainder = True\<rparr>),
      (6, \<lparr>vl_min = 6, vl_fields = [F_u32, F_u16], vl_prefixed = 0, vl_remainder = True\<rparr>),
      (7, \<lparr>vl_min = 15, vl_fields = [F_u32, F_u16, F_u16, F_u8, F_time], vl_prefixed = 0, vl_remainder = True\<rparr>),
      (8, \<lparr>vl_min = 2, vl_fields = [F_u8, F_u8], vl_prefixed = 0, vl_remainder = True\<rparr>),
      (9, \<lparr>vl_min = 0, vl_fields = [], vl_prefixed = 0, vl_remainder = True\<rparr>),
      (10, \<lparr>vl_min = 16, vl_fields = [F_u8, F_u8, F_u32, F_u16, F_u16], vl_prefixed = 3, vl_remainder = False\<rparr>),
      (11, \<lparr>vl_min = 5, vl_fields = [F_u8], vl_prefixed = 2, vl_remainder = False\<rparr>),
      (12, \<lparr>vl_min = 8, vl_fields = [F_u32, F_u16], vl_prefixed = 1, vl_remainder = False\<rparr>),
      (13, \<lparr>vl_min = 8, vl_fields = [F_u32, F_u16], vl_prefixed = 1, vl_remainder = False\<rparr>),
      (14, \<lparr>vl_min = 0, vl_fields = [], vl_prefixed = 0, vl_remainder = True\<rparr>),
      (15, \<lparr>vl_min = 0, vl_fields = [], vl_prefixed = 0, vl_remainder = True\<rparr>)]"

definition Variable_Read :: "VariableLayout \<Rightarrow> rslice \<Rightarrow> VariableObject option option" where
  "Variable_Read l buffer =
     (if length buffer < vl_min l then Some None
      else do {
        (fs, copy) \<leftarrow> Parse_Many (vl_fields l) buffer;
        (ps, copy) \<leftarrow> PrefixFields_Read (vl_prefixed l) copy;
        Some (case (fs, ps) of
            (Some fs, Some ps) \<Rightarrow>
              if \<not> vl_remainder l \<and> copy \<noteq> [] then None
              else Some \<lparr>vo_fields = fs, vo_prefixed = ps, vo_remainder = copy\<rparr>
          | _ \<Rightarrow> None) })"


section \<open>Reading consumes exactly the size\<close>

lemma field_size_pos: "0 < field_size f"
  by (cases f) (simp_all add: field_size_def)

text \<open>The value of a field whose bytes are all there.\<close>

definition field_value :: "FieldType \<Rightarrow> u8 list \<Rightarrow> FieldValue" where
  "field_value f bs = the (fst (the (Parse_Read f bs)))"

lemma Parse_u_eq:
  "1 \<le> length b \<Longrightarrow> \<exists>v. \<forall>r. Parse_u8 (b @ r) = Some (Some v, drop 1 b @ r)"
  "2 \<le> length b \<Longrightarrow> \<exists>v. \<forall>r. Parse_u16 (b @ r) = Some (Some v, drop 2 b @ r)"
  "4 \<le> length b \<Longrightarrow> \<exists>v. \<forall>r. Parse_u32 (b @ r) = Some (Some v, drop 4 b @ r)"
  "6 \<le> length b \<Longrightarrow> \<exists>v. \<forall>r. Parse_u48 (b @ r) = Some (Some v, drop 6 b @ r)"
  by (auto simp: numeral_eq_Suc Suc_le_length_iff Parse_u8_def Parse_u16_def Parse_u32_def Parse_u48_def ParseType_def
      UInt8_ReadBuffer_def UInt16_ReadBuffer_def UInt32_ReadBuffer_def UInt48_ReadBuffer_def)

lemma Parse_bytes_eq: "n \<le> length b \<Longrightarrow> Parse_bytes n (b @ r) = Some (Some (take n b), drop n b @ r)"
  by (simp add: Parse_bytes_def ParseType_def)

lemma Parse_Read_uniform:
  assumes "field_size f \<le> length b"
  shows "\<exists>v. \<forall>r. Parse_Read f (b @ r) = Some (Some v, drop (field_size f) b @ r)"
proof (cases f)
  case F_u8 then show ?thesis using assms Parse_u_eq(1) [of b]
    by (auto simp: Parse_Read_def as_field_def field_size_def Suc_le_eq)
next
  case F_u16 then show ?thesis using assms Parse_u_eq(2) [of b]
    by (auto simp: Parse_Read_def as_field_def field_size_def)
next
  case F_u32 then show ?thesis using assms Parse_u_eq(3) [of b]
    by (auto simp: Parse_Read_def as_field_def field_size_def)
next
  case F_i16 then show ?thesis using assms Parse_u_eq(2) [of b]
    by (auto simp: Parse_Read_def as_field_def field_size_def)
next
  case F_i32 then show ?thesis using assms Parse_u_eq(3) [of b]
    by (auto simp: Parse_Read_def as_field_def field_size_def)
next
  case F_time then show ?thesis using assms Parse_u_eq(4) [of b]
    by (auto simp: Parse_Read_def as_field_def field_size_def)
next
  case F_float then show ?thesis using assms
    by (auto simp: Parse_Read_def as_field_def field_size_def Parse_bytes_eq)
next
  case F_double then show ?thesis using assms
    by (auto simp: Parse_Read_def as_field_def field_size_def Parse_bytes_eq)
qed

lemma Parse_Many_uniform:
  assumes "fields_size fs \<le> length b"
  shows "\<exists>vs. length vs = length fs \<and> (\<forall>r. Parse_Many fs (b @ r) = Some (Some vs, drop (fields_size fs) b @ r))"
  using assms
proof (induction fs arbitrary: b)
  case Nil
  then show ?case by simp
next
  case (Cons f fs)
  obtain v where v: "\<And>r. Parse_Read f (b @ r) = Some (Some v, drop (field_size f) b @ r)"
    using Parse_Read_uniform [of f b] Cons.prems by auto
  have len: "fields_size fs \<le> length (drop (field_size f) b)"
    using Cons.prems by simp
  obtain vs where "length vs = length fs"
      "\<And>r. Parse_Many fs (drop (field_size f) b @ r) = Some (Some vs, drop (fields_size fs) (drop (field_size f) b) @ r)"
    using Cons.IH [OF len] by blast
  with v show ?case
    by (intro exI [of _ "v # vs"]) (simp add: add.commute)
qed

definition fields_value :: "FieldType list \<Rightarrow> u8 list \<Rightarrow> FieldValue list" where
  "fields_value fs bs = the (fst (the (Parse_Many fs bs)))"

lemma Parse_Many_value:
  assumes "fields_size fs \<le> length b"
  shows "Parse_Many fs b = Some (Some (fields_value fs (take (fields_size fs) b)), drop (fields_size fs) b)"
proof -
  define n where "n = fields_size fs"
  have "fields_size fs \<le> length (take n b)"
    using assms by (simp add: n_def)
  then obtain vs where vs: "\<And>r. Parse_Many fs (take n b @ r) = Some (Some vs, drop n (take n b) @ r)"
    using Parse_Many_uniform [of fs "take n b"] unfolding n_def by blast
  from vs [of "drop n b"] vs [of "[]"] show ?thesis
    by (simp add: fields_value_def flip: n_def)
qed

lemma descriptors_consistent: "\<forall>(g, n, fs) \<in> set descriptors. n = fields_size fs \<and> 0 < n \<and> n \<le> 15"
  by (simp add: descriptors_def field_size_def
      Group1_objects_def Group2_objects_def Group3_objects_def Group4_objects_def Group10_objects_def Group11_objects_def Group12_objects_def Group13_objects_def Group20_objects_def Group21_objects_def Group22_objects_def Group23_objects_def Group30_objects_def Group32_objects_def Group40_objects_def Group41_objects_def Group42_objects_def Group43_objects_def Group50_objects_def Group51_objects_def Group52_objects_def Group120_objects_def Group121_objects_def Group122_objects_def)

lemma Descriptor_Size_fields: "Descriptor_Size g = fields_size (Descriptor_fields g)"
proof (cases "map_of descriptors g")
  case None
  then show ?thesis by (simp add: Descriptor_Size_def Descriptor_fields_def)
next
  case (Some p)
  then have "(g, p) \<in> set descriptors"
    by (rule map_of_SomeD)
  with Some show ?thesis
    using descriptors_consistent by (auto simp: Descriptor_Size_def Descriptor_fields_def)
qed

lemma Descriptor_Size_bound: "Descriptor_Size g \<le> 15"
proof (cases "map_of descriptors g")
  case None
  then show ?thesis by (simp add: Descriptor_Size_def)
next
  case (Some p)
  then have "(g, p) \<in> set descriptors"
    by (rule map_of_SomeD)
  with Some show ?thesis
    using descriptors_consistent by (auto simp: Descriptor_Size_def)
qed

lemma Descriptor_Read_value:
  assumes "Descriptor_Size g \<le> length b"
  shows "Descriptor_Read g b =
    Some (Some (fields_value (Descriptor_fields g) (take (Descriptor_Size g) b)), drop (Descriptor_Size g) b)"
  using assms by (simp add: Descriptor_Read_def Descriptor_Size_fields Parse_Many_value)

lemma ReadLengths_ok:
  "n * 2 \<le> length b \<Longrightarrow> \<exists>lens. length lens = n \<and> ReadLengths n b = Some (lens, drop (n * 2) b)"
proof (induction n arbitrary: b)
  case 0
  then show ?case by simp
next
  case (Suc n)
  then obtain v where v: "UInt16_Read b = Some v"
    using UInt16_Read_defined [of b] by auto
  have len: "n * 2 \<le> length (drop 2 b)"
    using Suc.prems by simp
  obtain lens where "length lens = n" "ReadLengths n (drop 2 b) = Some (lens, drop (n * 2) (drop 2 b))"
    using Suc.IH [OF len] by blast
  with v show ?case
    by (intro exI [of _ "unat v # lens"]) (simp add: UInt16_ReadBuffer_def)
qed

lemma PrefixFields_Read_ok: "\<exists>r. PrefixFields_Read n b = Some r"
proof (cases "length b < n * 2")
  case False
  then obtain lens where "ReadLengths n b = Some (lens, drop (n * 2) b)"
    using ReadLengths_ok [of n b] by auto
  then show ?thesis
    by (simp add: PrefixFields_Read_def split: prod.splits)
qed (simp add: PrefixFields_Read_def)

lemma Parse_Many_total: "\<exists>r. Parse_Many fs b = Some r"
proof (induction fs arbitrary: b)
  case (Cons f fs)
  have "\<exists>r. Parse_Read f b = Some r"
  proof (cases "field_size f \<le> length b")
    case True
    with Parse_Read_uniform [of f b] show ?thesis
      by (metis append_Nil2)
  next
    case False
    then have "length b < field_size f" by simp
    then show ?thesis
      by (cases f) (simp_all add: Parse_Read_def as_field_def field_size_def Parse_u8_def Parse_u16_def Parse_u32_def
          Parse_u48_def Parse_bytes_def ParseType_def)
  qed
  then obtain v c where "Parse_Read f b = Some (v, c)"
    by auto
  moreover obtain w d where "Parse_Many fs c = Some (w, d)"
    using Cons.IH [of c] by auto
  ultimately show ?case
    by (cases v) simp_all
qed simp

lemma Variable_Read_total: "\<exists>r. Variable_Read l b = Some r"
proof -
  obtain fs c where "Parse_Many (vl_fields l) b = Some (fs, c)"
    using Parse_Many_total by fastforce
  moreover obtain ps d where "PrefixFields_Read (vl_prefixed l) c = Some (ps, d)"
    using PrefixFields_Read_ok by fastforce
  ultimately show ?thesis
    by (simp add: Variable_Read_def)
qed

end
