(* ===== verification/HeaderWriter.thy ===== *)
theory HeaderWriter
  imports Objects
begin

text \<open>
  Writing object headers and objects (\<open>app/HeaderWriter\<close>, the write iterators, \<open>openpal\<close>'s
  \<open>Format\<close> and \<open>Serializer\<close>, \<open>outstation/OctetStringSerializer\<close>). All slices of a writer view
  the memory of \<open>position\<close>; a copied slice is its position and size in that memory. A destructor
  that patches a count or a range is a \<open>finish\<close> operation.
\<close>

section \<open>Format\<close>

text \<open>\<open>WriteBuffer\<close> of a serialization template, given the bytes its \<open>Write\<close> stores.\<close>

definition WriteBuffer :: "u8 list \<Rightarrow> wslice \<Rightarrow> wslice option" where
  "WriteBuffer bs buffer = do {
     buffer \<leftarrow> wslice_store buffer 0 bs;
     Some (snd (WSlice_Advance (length bs) buffer)) }"

definition Format_WriteType :: "u8 list \<Rightarrow> wslice \<Rightarrow> (bool \<times> wslice) option" where
  "Format_WriteType bs dest =
     (if wsize dest < length bs then Some (False, dest)
      else do { dest \<leftarrow> WriteBuffer bs dest; Some (True, dest) })"

definition field_bytes :: "FieldValue \<Rightarrow> u8 list" where
  "field_bytes v =
     (case v of
        FV_u8 a \<Rightarrow> UInt8_bytes a
      | FV_u16 a \<Rightarrow> UInt16_bytes a
      | FV_u32 a \<Rightarrow> UInt32_bytes a
      | FV_i16 a \<Rightarrow> UInt16_bytes a
      | FV_i32 a \<Rightarrow> UInt32_bytes a
      | FV_time t \<Rightarrow> UInt48_bytes t
      | FV_float bs \<Rightarrow> bs
      | FV_double bs \<Rightarrow> bs)"

text \<open>The overloads of \<open>Format::Write\<close>, and \<open>Format::Many\<close>.\<close>

definition Format_Write :: "FieldValue \<Rightarrow> wslice \<Rightarrow> (bool \<times> wslice) option" where
  "Format_Write v dest = Format_WriteType (field_bytes v) dest"

fun Format_Many :: "FieldValue list \<Rightarrow> wslice \<Rightarrow> (bool \<times> wslice) option" where
  "Format_Many [] dest = Some (True, dest)"
| "Format_Many (v # vs) dest = do {
     (ok, dest) \<leftarrow> Format_Write v dest;
     if ok then Format_Many vs dest else Some (False, dest) }"


section \<open>Serializers\<close>

text \<open>
  \<open>DNP3Serializer<T>\<close>. The serializer of a fixed-size object converts the measurement to the
  fields of the object with \<open>conv\<close>, which stands for the functions of \<open>WriteConversions\<close>.
\<close>

record 'a DNP3Serializer =
  ser_group :: u8
  ser_variation :: u8
  ser_Size :: nat
  ser_Write :: "'a \<Rightarrow> wslice \<Rightarrow> (bool \<times> wslice) option"

definition Descriptor_Inst :: "u8 \<Rightarrow> u8 \<Rightarrow> ('a \<Rightarrow> FieldValue list) \<Rightarrow> 'a DNP3Serializer" where
  "Descriptor_Inst grp variation conv =
     \<lparr>ser_group = grp, ser_variation = variation,
      ser_Size = Descriptor_Size (gv (unat grp) (unat variation)),
      ser_Write = (\<lambda>value. Format_Many (conv value))\<rparr>"

definition OctetStringSerializer :: "bool \<Rightarrow> u8 \<Rightarrow> u8 list DNP3Serializer" where
  "OctetStringSerializer isEvent sz =
     \<lparr>ser_group = (if isEvent then 111 else 110), ser_variation = sz, ser_Size = unat sz,
      ser_Write = (\<lambda>value buffer.
        if wsize buffer < length value then Some (False, buffer)
        else map_option (\<lambda>(_, buffer). (True, buffer)) (RSlice_CopyTo value buffer))\<rparr>"

text \<open>A serializer that is default-constructed has null function pointers.\<close>

definition DNP3Serializer_null :: "'a DNP3Serializer" where
  "DNP3Serializer_null = \<lparr>ser_group = 0, ser_variation = 0, ser_Size = 0, ser_Write = \<lambda>_ _. None\<rparr>"


section \<open>Index types\<close>

text \<open>The template parameter of the iterators; a value of \<open>UInt8::Type\<close> is kept in 16 bits.\<close>

datatype IndexType = IT_UInt8 | IT_UInt16

definition IT_SIZE :: "IndexType \<Rightarrow> nat" where
  "IT_SIZE it = (case it of IT_UInt8 \<Rightarrow> 1 | IT_UInt16 \<Rightarrow> 2)"

definition IT_Max :: "IndexType \<Rightarrow> nat" where
  "IT_Max it = (case it of IT_UInt8 \<Rightarrow> 255 | IT_UInt16 \<Rightarrow> 65535)"

definition IT_cast :: "IndexType \<Rightarrow> u16 \<Rightarrow> u16" where
  "IT_cast it v = (case it of IT_UInt8 \<Rightarrow> v AND 0xFF | IT_UInt16 \<Rightarrow> v)"

definition IT_bytes :: "IndexType \<Rightarrow> u16 \<Rightarrow> u8 list" where
  "IT_bytes it v = (case it of IT_UInt8 \<Rightarrow> UInt8_bytes (ucast v) | IT_UInt16 \<Rightarrow> UInt16_bytes v)"


section \<open>The header writer\<close>

record HeaderWriter =
  hw_position :: wslice
  hw_mark :: "(nat \<times> nat) option"

definition HeaderWriter_of :: "wslice \<Rightarrow> HeaderWriter" where
  "HeaderWriter_of position = \<lparr>hw_position = position, hw_mark = None\<rparr>"

definition HW_Remaining :: "HeaderWriter \<Rightarrow> nat" where
  "HW_Remaining hw = wsize (hw_position hw)"

definition HW_Mark :: "HeaderWriter \<Rightarrow> HeaderWriter" where
  "HW_Mark hw = hw\<lparr>hw_mark := Some (wpos (hw_position hw), wsize (hw_position hw))\<rparr>"

definition HW_Rollback :: "HeaderWriter \<Rightarrow> bool \<times> HeaderWriter" where
  "HW_Rollback hw =
     (case hw_mark hw of
        Some (p, n) \<Rightarrow> (True, hw\<lparr>hw_position := (hw_position hw)\<lparr>wpos := p, wsize := n\<rparr>, hw_mark := None\<rparr>)
      | None \<Rightarrow> (False, hw))"

definition hw_put :: "u8 list \<Rightarrow> HeaderWriter \<Rightarrow> HeaderWriter option" where
  "hw_put bs hw = do { p \<leftarrow> WriteBuffer bs (hw_position hw); Some (hw\<lparr>hw_position := p\<rparr>) }"

definition WriteHeader :: "u8 \<Rightarrow> u8 \<Rightarrow> QualifierCode \<Rightarrow> HeaderWriter \<Rightarrow> (bool \<times> HeaderWriter) option" where
  "WriteHeader grp variation qc hw =
     (if wsize (hw_position hw) < 3 then Some (False, hw)
      else do {
        hw \<leftarrow> hw_put (UInt8_bytes grp) hw;
        hw \<leftarrow> hw_put (UInt8_bytes variation) hw;
        hw \<leftarrow> hw_put (UInt8_bytes (QualifierCodeToType qc)) hw;
        Some (True, hw) })"

definition WriteHeaderWithReserve :: "u8 \<Rightarrow> u8 \<Rightarrow> QualifierCode \<Rightarrow> nat \<Rightarrow> HeaderWriter \<Rightarrow> (bool \<times> HeaderWriter) option" where
  "WriteHeaderWithReserve grp variation qc reserve hw =
     (if wsize (hw_position hw) < 3 + reserve then Some (False, hw) else WriteHeader grp variation qc hw)"

definition WriteRangeHeader :: "IndexType \<Rightarrow> QualifierCode \<Rightarrow> u8 \<Rightarrow> u8 \<Rightarrow> u16 \<Rightarrow> u16 \<Rightarrow> HeaderWriter \<Rightarrow> (bool \<times> HeaderWriter) option" where
  "WriteRangeHeader it qc grp variation start stop hw = do {
     (ok, hw) \<leftarrow> WriteHeaderWithReserve grp variation qc (2 * IT_SIZE it) hw;
     if ok then do {
       hw \<leftarrow> hw_put (IT_bytes it start) hw;
       hw \<leftarrow> hw_put (IT_bytes it stop) hw;
       Some (True, hw) }
     else Some (False, hw) }"

definition WriteCountHeader :: "IndexType \<Rightarrow> QualifierCode \<Rightarrow> u8 \<Rightarrow> u8 \<Rightarrow> u16 \<Rightarrow> HeaderWriter \<Rightarrow> (bool \<times> HeaderWriter) option" where
  "WriteCountHeader it qc grp variation count hw = do {
     (ok, hw) \<leftarrow> WriteHeaderWithReserve grp variation qc (IT_SIZE it) hw;
     if ok then do { hw \<leftarrow> hw_put (IT_bytes it count) hw; Some (True, hw) }
     else Some (False, hw) }"

definition ser_put :: "'a DNP3Serializer \<Rightarrow> 'a \<Rightarrow> HeaderWriter \<Rightarrow> HeaderWriter option" where
  "ser_put serializer value hw = do {
     (_, p) \<leftarrow> ser_Write serializer value (hw_position hw);
     Some (hw\<lparr>hw_position := p\<rparr>) }"

text \<open>\<open>WriteSingleValue\<close> of an object type; its static \<open>ID\<close>, \<open>Size\<close> and \<open>Write\<close> are a serializer.\<close>

definition WriteSingleValue :: "IndexType \<Rightarrow> QualifierCode \<Rightarrow> 'a DNP3Serializer \<Rightarrow> 'a \<Rightarrow> HeaderWriter \<Rightarrow> (bool \<times> HeaderWriter) option" where
  "WriteSingleValue it qc serializer value hw = do {
     (ok, hw) \<leftarrow> WriteHeaderWithReserve (ser_group serializer) (ser_variation serializer) qc (IT_SIZE it + ser_Size serializer) hw;
     if ok then do {
       hw \<leftarrow> hw_put (IT_bytes it 1) hw;
       hw \<leftarrow> ser_put serializer value hw;
       Some (True, hw) }
     else Some (False, hw) }"

definition WriteSingleIndexedValue ::
    "IndexType \<Rightarrow> QualifierCode \<Rightarrow> 'a DNP3Serializer \<Rightarrow> 'a \<Rightarrow> u16 \<Rightarrow> HeaderWriter \<Rightarrow> (bool \<times> HeaderWriter) option" where
  "WriteSingleIndexedValue it qc serializer value index hw = do {
     (ok, hw) \<leftarrow> WriteHeaderWithReserve (ser_group serializer) (ser_variation serializer) qc (2 * IT_SIZE it + ser_Size serializer) hw;
     if ok then do {
       hw \<leftarrow> hw_put (IT_bytes it 1) hw;
       hw \<leftarrow> hw_put (IT_bytes it index) hw;
       hw \<leftarrow> ser_put serializer value hw;
       Some (True, hw) }
     else Some (False, hw) }"

text \<open>Writing through a copied slice: it views the same memory.\<close>

definition copy_position :: "HeaderWriter \<Rightarrow> nat \<times> nat" where
  "copy_position hw = (wpos (hw_position hw), wsize (hw_position hw))"

definition slice_copy :: "nat \<times> nat \<Rightarrow> HeaderWriter \<Rightarrow> wslice" where
  "slice_copy c hw = (hw_position hw)\<lparr>wpos := fst c, wsize := snd c\<rparr>"

definition copy_store :: "nat \<times> nat \<Rightarrow> u8 list \<Rightarrow> HeaderWriter \<Rightarrow> HeaderWriter option" where
  "copy_store c bs hw = do {
     s \<leftarrow> wslice_store (slice_copy c hw) 0 bs;
     Some (hw\<lparr>hw_position := (hw_position hw)\<lparr>wbuf := wbuf s\<rparr>\<rparr>) }"

definition copy_advance :: "nat \<Rightarrow> nat \<times> nat \<Rightarrow> nat \<times> nat" where
  "copy_advance n c = (fst c + min n (snd c), snd c - min n (snd c))"

text \<open>\<open>Format::Write\<close> to a copied slice.\<close>

definition copy_Format :: "nat \<times> nat \<Rightarrow> u8 list \<Rightarrow> HeaderWriter \<Rightarrow> ((nat \<times> nat) \<times> HeaderWriter) option" where
  "copy_Format c bs hw =
     (if snd c < length bs then Some (c, hw)
      else do { hw \<leftarrow> copy_store c bs hw; Some (copy_advance (length bs) c, hw) })"

definition hw_advance :: "nat \<Rightarrow> HeaderWriter \<Rightarrow> HeaderWriter" where
  "hw_advance n hw = hw\<lparr>hw_position := snd (WSlice_Advance n (hw_position hw))\<rparr>"


section \<open>Iterators over a range\<close>

record 'a RangeWriteIterator =
  rwi_index :: IndexType
  rwi_start :: u16
  rwi_serializer :: "'a DNP3Serializer"
  rwi_count :: u32
  rwi_isValid :: bool
  rwi_range :: "nat \<times> nat"

definition RangeWriteIterator_Null :: "IndexType \<Rightarrow> 'a RangeWriteIterator" where
  "RangeWriteIterator_Null it =
     \<lparr>rwi_index = it, rwi_start = 0, rwi_serializer = DNP3Serializer_null, rwi_count = 0, rwi_isValid = False, rwi_range = (0, 0)\<rparr>"

definition RangeWriteIterator_of ::
    "IndexType \<Rightarrow> u16 \<Rightarrow> 'a DNP3Serializer \<Rightarrow> HeaderWriter \<Rightarrow> ('a RangeWriteIterator \<times> HeaderWriter) option" where
  "RangeWriteIterator_of it start serializer hw =
     (let valid = (2 * IT_SIZE it \<le> wsize (hw_position hw));
          iter = \<lparr>rwi_index = it, rwi_start = start, rwi_serializer = serializer, rwi_count = 0, rwi_isValid = valid,
                  rwi_range = copy_position hw\<rparr>
      in if valid then do {
           (c, hw) \<leftarrow> copy_Format (rwi_range iter) (IT_bytes it start) hw;
           Some (iter\<lparr>rwi_range := c\<rparr>, hw_advance (2 * IT_SIZE it) hw) }
         else Some (iter, hw))"

definition Range_Write :: "'a \<Rightarrow> 'a RangeWriteIterator \<Rightarrow> HeaderWriter \<Rightarrow> (bool \<times> 'a RangeWriteIterator \<times> HeaderWriter) option" where
  "Range_Write value iter hw =
     (if rwi_isValid iter \<and> ser_Size (rwi_serializer iter) \<le> wsize (hw_position hw) \<and> unat (rwi_count iter) \<le> IT_Max (rwi_index iter)
      then do {
        hw \<leftarrow> ser_put (rwi_serializer iter) value hw;
        Some (True, iter\<lparr>rwi_count := rwi_count iter + 1\<rparr>, hw) }
      else Some (False, iter, hw))"

definition Range_finish :: "'a RangeWriteIterator \<Rightarrow> HeaderWriter \<Rightarrow> HeaderWriter option" where
  "Range_finish iter hw =
     (if rwi_isValid iter \<and> rwi_count iter > 0
      then (let stop = ucast (rwi_start iter) + rwi_count iter - 1
            in copy_store (rwi_range iter) (IT_bytes (rwi_index iter) (ucast stop)) hw)
      else Some hw)"

definition IterateOverRange ::
    "IndexType \<Rightarrow> QualifierCode \<Rightarrow> 'a DNP3Serializer \<Rightarrow> u16 \<Rightarrow> HeaderWriter \<Rightarrow> ('a RangeWriteIterator \<times> HeaderWriter) option" where
  "IterateOverRange it qc serializer start hw = do {
     (ok, hw) \<leftarrow> WriteHeaderWithReserve (ser_group serializer) (ser_variation serializer) qc (2 * IT_SIZE it + ser_Size serializer) hw;
     if ok then RangeWriteIterator_of it start serializer hw else Some (RangeWriteIterator_Null it, hw) }"


section \<open>Iterators over a count\<close>

record 'a CountWriteIterator =
  cwi_index :: IndexType
  cwi_serializer :: "'a DNP3Serializer"
  cwi_count :: u16
  cwi_isValid :: bool
  cwi_countPosition :: "nat \<times> nat"

definition CountWriteIterator_Null :: "IndexType \<Rightarrow> 'a CountWriteIterator" where
  "CountWriteIterator_Null it =
     \<lparr>cwi_index = it, cwi_serializer = DNP3Serializer_null, cwi_count = 0, cwi_isValid = False, cwi_countPosition = (0, 0)\<rparr>"

definition CountWriteIterator_of :: "IndexType \<Rightarrow> 'a DNP3Serializer \<Rightarrow> HeaderWriter \<Rightarrow> 'a CountWriteIterator \<times> HeaderWriter" where
  "CountWriteIterator_of it serializer hw =
     (let valid = (IT_SIZE it \<le> wsize (hw_position hw))
      in (\<lparr>cwi_index = it, cwi_serializer = serializer, cwi_count = 0, cwi_isValid = valid, cwi_countPosition = copy_position hw\<rparr>,
          if valid then hw_advance (IT_SIZE it) hw else hw))"

definition Count_Write :: "'a \<Rightarrow> 'a CountWriteIterator \<Rightarrow> HeaderWriter \<Rightarrow> (bool \<times> 'a CountWriteIterator \<times> HeaderWriter) option" where
  "Count_Write value iter hw =
     (if cwi_isValid iter \<and> ser_Size (cwi_serializer iter) \<le> wsize (hw_position hw) \<and> unat (cwi_count iter) < IT_Max (cwi_index iter)
      then do {
        hw \<leftarrow> ser_put (cwi_serializer iter) value hw;
        Some (True, iter\<lparr>cwi_count := IT_cast (cwi_index iter) (cwi_count iter + 1)\<rparr>, hw) }
      else Some (False, iter, hw))"

definition Count_finish :: "'a CountWriteIterator \<Rightarrow> HeaderWriter \<Rightarrow> HeaderWriter option" where
  "Count_finish iter hw =
     (if cwi_isValid iter
      then map_option snd (copy_Format (cwi_countPosition iter) (IT_bytes (cwi_index iter) (cwi_count iter)) hw)
      else Some hw)"

definition IterateOverCount ::
    "IndexType \<Rightarrow> QualifierCode \<Rightarrow> 'a DNP3Serializer \<Rightarrow> HeaderWriter \<Rightarrow> ('a CountWriteIterator \<times> HeaderWriter) option" where
  "IterateOverCount it qc serializer hw = do {
     (ok, hw) \<leftarrow> WriteHeaderWithReserve (ser_group serializer) (ser_variation serializer) qc (IT_SIZE it + ser_Size serializer) hw;
     Some (if ok then CountWriteIterator_of it serializer hw else (CountWriteIterator_Null it, hw)) }"


section \<open>Iterators over a bitfield\<close>

record BitfieldRangeWriteIterator =
  bwi_index :: IndexType
  bwi_start :: u16
  bwi_count :: u16
  bwi_maxCount :: u32
  bwi_isValid :: bool
  bwi_range :: "nat \<times> nat"

definition BitfieldRangeWriteIterator_Null :: "IndexType \<Rightarrow> BitfieldRangeWriteIterator" where
  "BitfieldRangeWriteIterator_Null it =
     \<lparr>bwi_index = it, bwi_start = 0, bwi_count = 0, bwi_maxCount = 0, bwi_isValid = False, bwi_range = (0, 0)\<rparr>"

definition BitfieldRangeWriteIterator_of ::
    "IndexType \<Rightarrow> u16 \<Rightarrow> HeaderWriter \<Rightarrow> (BitfieldRangeWriteIterator \<times> HeaderWriter) option" where
  "BitfieldRangeWriteIterator_of it start hw =
     (let valid = (2 * IT_SIZE it \<le> wsize (hw_position hw));
          iter = \<lparr>bwi_index = it, bwi_start = start, bwi_count = 0, bwi_maxCount = 0, bwi_isValid = valid, bwi_range = copy_position hw\<rparr>
      in if valid then do {
           (c, hw) \<leftarrow> copy_Format (bwi_range iter) (IT_bytes it start) hw;
           let hw = hw_advance (2 * IT_SIZE it) hw;
           Some (iter\<lparr>bwi_range := c, bwi_maxCount := of_nat (wsize (hw_position hw)) * 8\<rparr>, hw) }
         else Some (iter, hw))"

text \<open>A store through \<open>operator[]\<close> and a read through it.\<close>

definition hw_set :: "nat \<Rightarrow> u8 \<Rightarrow> HeaderWriter \<Rightarrow> HeaderWriter option" where
  "hw_set i b hw = do { p \<leftarrow> wslice_store (hw_position hw) i [b]; Some (hw\<lparr>hw_position := p\<rparr>) }"

definition hw_get :: "nat \<Rightarrow> HeaderWriter \<Rightarrow> u8 option" where
  "hw_get i hw = (let s = WSlice_ToRSlice (hw_position hw) in if i < length s then Some (s ! i) else None)"

definition Bitfield_Write :: "bool \<Rightarrow> BitfieldRangeWriteIterator \<Rightarrow> HeaderWriter \<Rightarrow>
    (bool \<times> BitfieldRangeWriteIterator \<times> HeaderWriter) option" where
  "Bitfield_Write value iter hw =
     (if bwi_isValid iter \<and> ucast (bwi_count iter) < bwi_maxCount iter
      then (let byte = unat (bwi_count iter) div 8; b = unat (bwi_count iter) mod 8
            in do {
              hw \<leftarrow> (if b = 0 then hw_set byte 0 hw else Some hw);
              hw \<leftarrow> (if value then do { v \<leftarrow> hw_get byte hw; hw_set byte (v OR push_bit b 1) hw } else Some hw);
              Some (True, iter\<lparr>bwi_count := IT_cast (bwi_index iter) (bwi_count iter + 1)\<rparr>, hw) })
      else Some (False, iter, hw))"

definition Bitfield_finish :: "BitfieldRangeWriteIterator \<Rightarrow> HeaderWriter \<Rightarrow> HeaderWriter option" where
  "Bitfield_finish iter hw =
     (if bwi_isValid iter \<and> bwi_count iter > 0
      then do {
        let stop = IT_cast (bwi_index iter) (bwi_start iter + bwi_count iter - 1);
        (_, hw) \<leftarrow> copy_Format (bwi_range iter) (IT_bytes (bwi_index iter) stop) hw;
        let num = unat (bwi_count iter) div 8;
        let num = (if unat (bwi_count iter) mod 8 > 0 then num + 1 else num);
        Some (hw_advance num hw) }
      else Some hw)"

definition IterateOverSingleBitfield ::
    "IndexType \<Rightarrow> u8 \<Rightarrow> u8 \<Rightarrow> QualifierCode \<Rightarrow> u16 \<Rightarrow> HeaderWriter \<Rightarrow> (BitfieldRangeWriteIterator \<times> HeaderWriter) option" where
  "IterateOverSingleBitfield it grp variation qc start hw = do {
     (ok, hw) \<leftarrow> WriteHeaderWithReserve grp variation qc (2 * IT_SIZE it + 1) hw;
     if ok then BitfieldRangeWriteIterator_of it start hw else Some (BitfieldRangeWriteIterator_Null it, hw) }"


section \<open>Iterators with index prefixes\<close>

record 'a PrefixedWriteIterator =
  pwi_index :: IndexType
  pwi_serializer :: "'a DNP3Serializer"
  pwi_sizeOfTypePlusIndex :: nat
  pwi_count :: u16
  pwi_isValid :: bool
  pwi_countPosition :: "nat \<times> nat"

definition PrefixedWriteIterator_Null :: "IndexType \<Rightarrow> 'a PrefixedWriteIterator" where
  "PrefixedWriteIterator_Null it =
     \<lparr>pwi_index = it, pwi_serializer = DNP3Serializer_null, pwi_sizeOfTypePlusIndex = 0, pwi_count = 0, pwi_isValid = False,
      pwi_countPosition = (0, 0)\<rparr>"

definition PrefixedWriteIterator_of :: "IndexType \<Rightarrow> 'a DNP3Serializer \<Rightarrow> HeaderWriter \<Rightarrow> 'a PrefixedWriteIterator \<times> HeaderWriter" where
  "PrefixedWriteIterator_of it serializer hw =
     (let valid = (IT_SIZE it \<le> wsize (hw_position hw))
      in (\<lparr>pwi_index = it, pwi_serializer = serializer, pwi_sizeOfTypePlusIndex = ser_Size serializer + IT_SIZE it, pwi_count = 0,
           pwi_isValid = valid, pwi_countPosition = copy_position hw\<rparr>,
          if valid then hw_advance (IT_SIZE it) hw else hw))"

definition Prefixed_Write :: "'a \<Rightarrow> u16 \<Rightarrow> 'a PrefixedWriteIterator \<Rightarrow> HeaderWriter \<Rightarrow>
    (bool \<times> 'a PrefixedWriteIterator \<times> HeaderWriter) option" where
  "Prefixed_Write value index iter hw =
     (if pwi_isValid iter \<and> pwi_sizeOfTypePlusIndex iter \<le> wsize (hw_position hw)
      then do {
        hw \<leftarrow> hw_put (IT_bytes (pwi_index iter) index) hw;
        hw \<leftarrow> ser_put (pwi_serializer iter) value hw;
        Some (True, iter\<lparr>pwi_count := IT_cast (pwi_index iter) (pwi_count iter + 1)\<rparr>, hw) }
      else Some (False, iter, hw))"

definition Prefixed_finish :: "'a PrefixedWriteIterator \<Rightarrow> HeaderWriter \<Rightarrow> HeaderWriter option" where
  "Prefixed_finish iter hw =
     (if pwi_isValid iter
      then copy_store (pwi_countPosition iter) (IT_bytes (pwi_index iter) (pwi_count iter)) hw
      else Some hw)"

definition IterateOverCountWithPrefix ::
    "IndexType \<Rightarrow> QualifierCode \<Rightarrow> 'a DNP3Serializer \<Rightarrow> HeaderWriter \<Rightarrow> ('a PrefixedWriteIterator \<times> HeaderWriter) option" where
  "IterateOverCountWithPrefix it qc serializer hw = do {
     (ok, hw) \<leftarrow> WriteHeaderWithReserve (ser_group serializer) (ser_variation serializer) qc (2 * IT_SIZE it + ser_Size serializer) hw;
     Some (if ok then PrefixedWriteIterator_of it serializer hw else (PrefixedWriteIterator_Null it, hw)) }"

text \<open>The common time of occurrence first; it is taken back when no event fits behind it.\<close>

definition IterateOverCountWithPrefixAndCTO ::
    "IndexType \<Rightarrow> QualifierCode \<Rightarrow> 'a DNP3Serializer \<Rightarrow> 'c DNP3Serializer \<Rightarrow> 'c \<Rightarrow> HeaderWriter \<Rightarrow>
     ('a PrefixedWriteIterator \<times> HeaderWriter) option" where
  "IterateOverCountWithPrefixAndCTO it qc serializer ctoType cto hw = do {
     (ok, hw) \<leftarrow> WriteSingleValue IT_UInt8 QC_UINT8_CNT ctoType cto (HW_Mark hw);
     if ok then do {
       (iter, hw) \<leftarrow> IterateOverCountWithPrefix it qc serializer hw;
       Some (iter, if pwi_isValid iter then hw else snd (HW_Rollback hw)) }
     else Some (PrefixedWriteIterator_Null it, hw) }"


section \<open>What is written\<close>

text \<open>A writer by its parts: the bytes before the position, the room left, the bytes after it.\<close>

definition hwm :: "u8 list \<Rightarrow> u8 list \<Rightarrow> u8 list \<Rightarrow> (nat \<times> nat) option \<Rightarrow> HeaderWriter" where
  "hwm pre view post m = \<lparr>hw_position = mkw pre view post, hw_mark = m\<rparr>"

lemma hwm_sel [simp]: "hw_position (hwm pre view post m) = mkw pre view post" "hw_mark (hwm pre view post m) = m"
  by (simp_all add: hwm_def)

lemma list_store_0: "length bs \<le> length view \<Longrightarrow> list_store view 0 bs = bs @ drop (length bs) view"
  by (simp add: list_store_def)

lemma WriteBuffer_mkw [mem_simps]:
  "length bs \<le> length view \<Longrightarrow> WriteBuffer bs (mkw pre view post) = Some (mkw (pre @ bs) (drop (length bs) view) post)"
  by (simp add: WriteBuffer_def wslice_store_mkw WSlice_Advance_mkw list_store_0)

lemma hw_put_hwm [mem_simps]:
  "length bs \<le> length view \<Longrightarrow> hw_put bs (hwm pre view post m) = Some (hwm (pre @ bs) (drop (length bs) view) post m)"
  by (simp add: hw_put_def WriteBuffer_mkw hwm_def)

lemma WriteHeader_hwm:
  "WriteHeader grp variation qc (hwm pre view post m) =
     Some (if length view < 3 then (False, hwm pre view post m)
           else (True, hwm (pre @ [grp, variation, QualifierCodeToType qc]) (drop 3 view) post m))"
proof (cases "length view < 3")
  case False
  then show ?thesis
    by (simp add: WriteHeader_def hw_put_hwm) (simp add: UInt8_bytes_def numeral_3_eq_3)
qed (simp add: WriteHeader_def)

lemma WriteHeaderWithReserve_hwm:
  "WriteHeaderWithReserve grp variation qc reserve (hwm pre view post m) =
     Some (if length view < 3 + reserve then (False, hwm pre view post m)
           else (True, hwm (pre @ [grp, variation, QualifierCodeToType qc]) (drop 3 view) post m))"
  by (simp add: WriteHeaderWithReserve_def WriteHeader_hwm)

lemma length_IT_bytes [simp]: "length (IT_bytes it v) = IT_SIZE it"
  by (cases it) (simp_all add: IT_bytes_def IT_SIZE_def)

lemma IT_SIZE_pos: "0 < IT_SIZE it" and IT_SIZE_le: "IT_SIZE it \<le> 2"
  by (cases it; simp add: IT_SIZE_def)+

lemma copy_position_hwm [simp]: "copy_position (hwm pre view post m) = (length pre, length view)"
  by (simp add: copy_position_def hwm_def mkw_def)

lemma hw_advance_hwm: "n \<le> length view \<Longrightarrow> hw_advance n (hwm pre view post m) = hwm (pre @ take n view) (drop n view) post m"
  by (simp add: hw_advance_def WSlice_Advance_mkw hwm_def)

text \<open>A copied slice that points into what has been written already patches it.\<close>

lemma copy_store_hwm:
  assumes "length bs \<le> n" and "length bs \<le> length old"
  shows "copy_store (length pre, n) bs (hwm (pre @ old) view post m) = Some (hwm (pre @ list_store old 0 bs) view post m)"
  using assms by (simp add: copy_store_def slice_copy_def wslice_store_def mem_write_def hwm_def mkw_def list_store_def)

lemma copy_store_hwm_view:
  assumes "length bs \<le> n" and "length bs \<le> length view"
  shows "copy_store (length pre, n) bs (hwm pre view post m) = Some (hwm pre (list_store view 0 bs) post m)"
  using assms by (simp add: copy_store_def slice_copy_def wslice_store_def mem_write_def hwm_def mkw_def list_store_def)


section \<open>Ranges and prefixes, as bytes\<close>

text \<open>The contract of a serializer: a value takes exactly its size.\<close>

locale serializer =
  fixes ser :: "'a DNP3Serializer" and encode :: "'a \<Rightarrow> u8 list" and valid :: "'a \<Rightarrow> bool"
  assumes encode_length: "valid v \<Longrightarrow> length (encode v) = ser_Size ser"
    and encode_written: "valid v \<Longrightarrow> length (encode v) \<le> length view \<Longrightarrow>
      ser_Write ser v (mkw pre view post) = Some (True, mkw (pre @ encode v) (drop (length (encode v)) view) post)"
begin

lemma put:
  assumes "valid v" and "ser_Size ser \<le> length view"
  shows "ser_put ser v (hwm pre view post m) = Some (hwm (pre @ encode v) (drop (ser_Size ser) view) post m)"
  using assms by (simp add: ser_put_def hwm_def encode_written encode_length)

end

fun Range_Writes :: "'a list \<Rightarrow> 'a RangeWriteIterator \<Rightarrow> HeaderWriter \<Rightarrow> ('a RangeWriteIterator \<times> HeaderWriter) option" where
  "Range_Writes [] iter hw = Some (iter, hw)"
| "Range_Writes (v # vs) iter hw = do {
     (ok, iter, hw) \<leftarrow> Range_Write v iter hw;
     if ok then Range_Writes vs iter hw else Some (iter, hw) }"

fun Prefixed_Writes :: "('a \<times> u16) list \<Rightarrow> 'a PrefixedWriteIterator \<Rightarrow> HeaderWriter \<Rightarrow> ('a PrefixedWriteIterator \<times> HeaderWriter) option" where
  "Prefixed_Writes [] iter hw = Some (iter, hw)"
| "Prefixed_Writes ((v, index) # vs) iter hw = do {
     (ok, iter, hw) \<leftarrow> Prefixed_Write v index iter hw;
     if ok then Prefixed_Writes vs iter hw else Some (iter, hw) }"

lemma IT_Max_le: "IT_Max it \<le> 65535"
  by (cases it) (simp_all add: IT_Max_def)

lemma and_FF_small: "unat (v :: u16) < 256 \<Longrightarrow> v AND 0xFF = v"
proof -
  assume "unat v < 256"
  moreover have "v AND 0xFF = take_bit 8 v"
    by (simp add: mask_FF take_bit_eq_mask)
  ultimately show ?thesis
    by (simp add: word_unat_eq_iff unsigned_take_bit_eq take_bit_nat_eq_self_iff)
qed

lemma IT_cast_small: "unat v \<le> IT_Max it \<Longrightarrow> IT_cast it v = v"
  by (cases it) (simp_all add: IT_cast_def IT_Max_def and_FF_small)

context serializer
begin

lemma Range_Writes_hwm:
  assumes "\<forall>v \<in> set vs. valid v" and "rwi_isValid iter" and "rwi_serializer iter = ser"
    and "unat (rwi_count iter) + length vs \<le> Suc (IT_Max (rwi_index iter))" and "length vs * ser_Size ser \<le> length view"
  shows "\<exists>c. unat c = unat (rwi_count iter) + length vs \<and>
    Range_Writes vs iter (hwm pre view post m) =
      Some (iter\<lparr>rwi_count := c\<rparr>, hwm (pre @ concat (map encode vs)) (drop (length vs * ser_Size ser) view) post m)"
  using assms
proof (induction vs arbitrary: iter pre view)
  case Nil
  then show ?case by (intro exI [of _ "rwi_count iter"]) simp
next
  case (Cons v vs)
  have max: "IT_Max it \<le> 65535" for it
    by (cases it) (simp_all add: IT_Max_def)
  let ?iter = "iter\<lparr>rwi_count := rwi_count iter + 1\<rparr>"
  have count: "unat (rwi_count iter + 1) = unat (rwi_count iter) + 1"
    using Cons.prems(4) max [of "rwi_index iter"] by (intro unat_Suc_u32) simp
  have len: "length vs * ser_Size ser \<le> length (drop (ser_Size ser) view)"
    using Cons.prems(5) by simp
  have "\<exists>c. unat c = unat (rwi_count ?iter) + length vs \<and>
    Range_Writes vs ?iter (hwm (pre @ encode v) (drop (ser_Size ser) view) post m) =
      Some (?iter\<lparr>rwi_count := c\<rparr>, hwm ((pre @ encode v) @ concat (map encode vs))
        (drop (length vs * ser_Size ser) (drop (ser_Size ser) view)) post m)"
    using Cons.prems count by (intro Cons.IH len) simp_all
  then obtain c where c: "unat c = unat (rwi_count iter) + length (v # vs)"
      "Range_Writes vs ?iter (hwm (pre @ encode v) (drop (ser_Size ser) view) post m) =
        Some (iter\<lparr>rwi_count := c\<rparr>, hwm (pre @ encode v @ concat (map encode vs))
          (drop (length vs * ser_Size ser) (drop (ser_Size ser) view)) post m)"
    using count by auto
  have "Range_Write v iter (hwm pre view post m) = Some (True, ?iter, hwm (pre @ encode v) (drop (ser_Size ser) view) post m)"
    using Cons.prems by (simp add: Range_Write_def put)
  with c show ?case
    by (intro exI [of _ c]) (simp add: add.commute)
qed

lemma Prefixed_Writes_hwm:
  assumes "\<forall>(v, index) \<in> set vs. valid v" and "pwi_isValid iter" and "pwi_serializer iter = ser"
    and "pwi_sizeOfTypePlusIndex iter = ser_Size ser + IT_SIZE (pwi_index iter)"
    and "unat (pwi_count iter) + length vs \<le> IT_Max (pwi_index iter)"
    and "length vs * (IT_SIZE (pwi_index iter) + ser_Size ser) \<le> length view"
  shows "\<exists>c. unat c = unat (pwi_count iter) + length vs \<and>
    Prefixed_Writes vs iter (hwm pre view post m) =
      Some (iter\<lparr>pwi_count := c\<rparr>, hwm (pre @ concat (map (\<lambda>(v, index). IT_bytes (pwi_index iter) index @ encode v) vs))
          (drop (length vs * (IT_SIZE (pwi_index iter) + ser_Size ser)) view) post m)"
  using assms
proof (induction vs arbitrary: iter pre view)
  case Nil
  then show ?case by (intro exI [of _ "pwi_count iter"]) simp
next
  case (Cons x vs)
  obtain v index where x: "x = (v, index)" by fastforce
  define it where "it = pwi_index iter"
  define n where "n = IT_SIZE it + ser_Size ser"
  have room: "n \<le> length view" "length vs * n \<le> length (drop n view)"
    using Cons.prems(6) by (simp_all add: n_def it_def)
  have count: "IT_cast it (pwi_count iter + 1) = pwi_count iter + 1" "unat (pwi_count iter + 1) = unat (pwi_count iter) + 1"
    using Cons.prems(5) IT_cast_small [of "pwi_count iter + 1" it] IT_Max_le [of it] unat_Suc_u16 [of "pwi_count iter"]
    by (simp_all add: it_def)
  define iter' where "iter' = iter\<lparr>pwi_count := pwi_count iter + 1\<rparr>"
  have head: "Prefixed_Write v index iter (hwm pre view post m) =
      Some (True, iter', hwm (pre @ IT_bytes it index @ encode v) (drop n view) post m)"
    using Cons.prems room(1) count(1)
    by (simp add: Prefixed_Write_def hw_put_hwm put x iter'_def n_def add.commute flip: it_def)
  have "\<exists>c. unat c = unat (pwi_count iter') + length vs \<and>
    Prefixed_Writes vs iter' (hwm (pre @ IT_bytes it index @ encode v) (drop n view) post m) =
      Some (iter'\<lparr>pwi_count := c\<rparr>, hwm ((pre @ IT_bytes it index @ encode v) @
          concat (map (\<lambda>(v, index). IT_bytes (pwi_index iter') index @ encode v) vs))
          (drop (length vs * (IT_SIZE (pwi_index iter') + ser_Size ser)) (drop n view)) post m)"
    using Cons.prems room(2) count(2) by (intro Cons.IH) (simp_all add: iter'_def n_def it_def)
  then obtain c where c: "unat c = unat (pwi_count iter) + length (x # vs)"
      "Prefixed_Writes vs iter' (hwm (pre @ IT_bytes it index @ encode v) (drop n view) post m) =
        Some (iter\<lparr>pwi_count := c\<rparr>, hwm (pre @ IT_bytes it index @ encode v @
          concat (map (\<lambda>(v, index). IT_bytes it index @ encode v) vs)) (drop (length vs * n) (drop n view)) post m)"
    using count(2) by (auto simp: iter'_def it_def n_def)
  show ?case
    unfolding it_def [symmetric] n_def [symmetric]
    using c(1) by (intro exI [of _ c]) (simp add: x head c(2) add.commute)
qed

end


text \<open>A range of values, a count of indexed values: what a caller writes that is never refused.\<close>

definition WriteRange :: "IndexType \<Rightarrow> QualifierCode \<Rightarrow> 'a DNP3Serializer \<Rightarrow> u16 \<Rightarrow> 'a list \<Rightarrow> HeaderWriter \<Rightarrow> HeaderWriter option" where
  "WriteRange it qc ser start vs hw = do {
     (iter, hw) \<leftarrow> IterateOverRange it qc ser start hw;
     (iter, hw) \<leftarrow> Range_Writes vs iter hw;
     Range_finish iter hw }"

definition WritePrefixed :: "IndexType \<Rightarrow> QualifierCode \<Rightarrow> 'a DNP3Serializer \<Rightarrow> ('a \<times> u16) list \<Rightarrow> HeaderWriter \<Rightarrow> HeaderWriter option" where
  "WritePrefixed it qc ser vs hw = do {
     (iter, hw) \<leftarrow> IterateOverCountWithPrefix it qc ser hw;
     (iter, hw) \<leftarrow> Prefixed_Writes vs iter hw;
     Prefixed_finish iter hw }"

lemma copy_Format_hwm:
  assumes "length bs \<le> length view"
  shows "copy_Format (length pre, length view) bs (hwm pre view post m) =
    Some ((length pre + length bs, length view - length bs), hwm pre (bs @ drop (length bs) view) post m)"
  using assms by (simp add: copy_Format_def copy_store_hwm_view list_store_0 copy_advance_def)

lemma reserved_range_hwm:
  assumes "2 * n \<le> length view" and "length bs = n"
  shows "hw_advance (2 * n) (hwm pre (bs @ drop n view) post m) =
    hwm (pre @ bs @ take n (drop n view)) (drop (2 * n) view) post m"
  using assms by (subst hw_advance_hwm) (simp_all add: mult_2 take_add drop_drop)

lemma RangeWriteIterator_of_hwm:
  assumes "2 * IT_SIZE it \<le> length view"
  shows "RangeWriteIterator_of it start ser (hwm pre view post m) =
    Some (\<lparr>rwi_index = it, rwi_start = start, rwi_serializer = ser, rwi_count = 0, rwi_isValid = True,
        rwi_range = (length pre + IT_SIZE it, length view - IT_SIZE it)\<rparr>,
      hwm (pre @ IT_bytes it start @ take (IT_SIZE it) (drop (IT_SIZE it) view)) (drop (2 * IT_SIZE it) view) post m)"
  using assms copy_Format_hwm [of "IT_bytes it start" view pre post m]
  by (simp add: RangeWriteIterator_of_def reserved_range_hwm)

context serializer
begin

definition header :: "QualifierCode \<Rightarrow> u8 list" where
  "header qc = [ser_group ser, ser_variation ser, QualifierCodeToType qc]"

lemma length_header [simp]: "length (header qc) = 3"
  by (simp add: header_def)

lemma WriteHeader_reserved:
  assumes "3 + reserve \<le> length view"
  shows "WriteHeaderWithReserve (ser_group ser) (ser_variation ser) qc reserve (hwm pre view post m) =
    Some (True, hwm (pre @ header qc) (drop 3 view) post m)"
  using assms by (simp add: WriteHeaderWithReserve_hwm header_def)

lemma WriteRange_hwm:
  assumes "\<forall>v \<in> set vs. valid v" and "vs \<noteq> []" and "length vs \<le> Suc (IT_Max it)"
    and "3 + 2 * IT_SIZE it + length vs * ser_Size ser \<le> length view"
  shows "WriteRange it qc ser start vs (hwm pre view post m) =
    Some (hwm (pre @ header qc @ IT_bytes it start @ IT_bytes it (ucast (ucast start + of_nat (length vs) - 1 :: u32)) @
        concat (map encode vs))
      (drop (3 + 2 * IT_SIZE it + length vs * ser_Size ser) view) post m)"
proof -
  define k where "k = IT_SIZE it"
  define n where "n = ser_Size ser"
  have "3 + 2 * k + length vs * n \<le> length view"
    unfolding k_def n_def by (rule assms(4))
  moreover have "n \<le> length vs * n"
    using assms(2) by (cases vs) simp_all
  ultimately have room: "3 + (2 * k + n) \<le> length view" "2 * k \<le> length (drop 3 view)" "length vs * n \<le> length (drop (3 + 2 * k) view)"
    unfolding length_drop by linarith+
  define old where "old = take k (drop k (drop 3 view))"
  have old: "length old = k"
    using room by (simp add: old_def)
  define iter where "iter = \<lparr>rwi_index = it, rwi_start = start, rwi_serializer = ser, rwi_count = 0, rwi_isValid = True,
      rwi_range = (length (pre @ header qc) + k, length (drop 3 view) - k)\<rparr>"
  define pre' where "pre' = pre @ header qc @ IT_bytes it start"
  have start: "IterateOverRange it qc ser start (hwm pre view post m) =
      Some (iter, hwm (pre' @ old) (drop (3 + 2 * k) view) post m)"
    using WriteHeader_reserved [OF room(1), of qc pre post m] RangeWriteIterator_of_hwm [OF room(2) [unfolded k_def], of start ser "pre @ header qc" post m]
    by (simp add: IterateOverRange_def iter_def pre'_def old_def add.commute flip: k_def n_def)
  obtain c where c: "unat c = length vs" "Range_Writes vs iter (hwm (pre' @ old) (drop (3 + 2 * k) view) post m) =
      Some (iter\<lparr>rwi_count := c\<rparr>, hwm ((pre' @ old) @ concat (map encode vs)) (drop (length vs * n) (drop (3 + 2 * k) view)) post m)"
    using Range_Writes_hwm [of vs iter "drop (3 + 2 * k) view" "pre' @ old" post m] assms(1,3) room(3)
    by (auto simp: iter_def n_def)
  have "c = of_nat (length vs)" "0 < c"
    using c(1) assms(2) by (simp flip: c(1), simp add: word_less_nat_alt)
  moreover have "copy_store (length pre', length view - 3 - k) bs (hwm (pre' @ old @ concat (map encode vs)) (drop (length vs * n + (3 + 2 * k)) view) post m) =
      Some (hwm (pre' @ bs @ concat (map encode vs)) (drop (length vs * n + (3 + 2 * k)) view) post m)" if "length bs = k" for bs
    using that old room by (subst copy_store_hwm) (simp_all add: list_store_def)
  ultimately show ?thesis
    by (simp add: WriteRange_def start c(2) Range_finish_def)
      (simp add: iter_def pre'_def k_def n_def add.commute add.left_commute)
qed

lemma WritePrefixed_hwm:
  assumes "\<forall>(v, index) \<in> set vs. valid v" and "vs \<noteq> []" and "length vs \<le> IT_Max it"
    and "3 + IT_SIZE it + length vs * (IT_SIZE it + ser_Size ser) \<le> length view"
  shows "WritePrefixed it qc ser vs (hwm pre view post m) =
    Some (hwm (pre @ header qc @ IT_bytes it (of_nat (length vs)) @ concat (map (\<lambda>(v, index). IT_bytes it index @ encode v) vs))
      (drop (3 + IT_SIZE it + length vs * (IT_SIZE it + ser_Size ser)) view) post m)"
proof -
  define k where "k = IT_SIZE it"
  define n where "n = IT_SIZE it + ser_Size ser"
  have "n \<le> length vs * n" "3 + k + length vs * n \<le> length view" "n = k + ser_Size ser"
    using assms(2) assms(4) [folded n_def, folded k_def] by (cases vs, simp_all) (simp add: n_def k_def)
  then have room: "3 + (2 * k + ser_Size ser) \<le> length view" "k \<le> length (drop 3 view)" "length vs * n \<le> length (drop (3 + k) view)"
    unfolding length_drop by linarith+
  define old where "old = take k (drop 3 view)"
  have old: "length old = k"
    using room by (simp add: old_def)
  define pre' where "pre' = pre @ header qc"
  define iter where "iter = \<lparr>pwi_index = it, pwi_serializer = ser, pwi_sizeOfTypePlusIndex = ser_Size ser + IT_SIZE it, pwi_count = 0,
      pwi_isValid = True, pwi_countPosition = (length pre', length (drop 3 view))\<rparr>"
  have start: "IterateOverCountWithPrefix it qc ser (hwm pre view post m) =
      Some (iter, hwm (pre' @ old) (drop (3 + k) view) post m)"
    using WriteHeader_reserved [OF room(1), of qc pre post m] hw_advance_hwm [OF room(2), of "pre @ header qc" post m] room(2)
    by (simp add: IterateOverCountWithPrefix_def PrefixedWriteIterator_of_def iter_def pre'_def old_def add.commute flip: k_def)
  obtain c where c: "unat c = length vs" "Prefixed_Writes vs iter (hwm (pre' @ old) (drop (3 + k) view) post m) =
      Some (iter\<lparr>pwi_count := c\<rparr>, hwm ((pre' @ old) @ concat (map (\<lambda>(v, index). IT_bytes it index @ encode v) vs))
        (drop (length vs * n) (drop (3 + k) view)) post m)"
    using Prefixed_Writes_hwm [of vs iter "drop (3 + k) view" "pre' @ old" post m] assms(1,3) room(3)
    by (auto simp: iter_def n_def)
  have "c = of_nat (length vs)"
    by (simp flip: c(1))
  moreover have "copy_store (length pre', length view - 3) bs (hwm (pre' @ old @ zs) v post m) =
      Some (hwm (pre' @ bs @ zs) v post m)" if "length bs = k" for bs zs v
    using that old room by (subst copy_store_hwm) (simp_all add: list_store_def)
  ultimately show ?thesis
    unfolding n_def [symmetric] k_def [symmetric]
    by (simp add: WritePrefixed_def start c(2) Prefixed_finish_def) (simp add: iter_def pre'_def k_def n_def add.commute add.left_commute)
qed

end


section \<open>Fixed-size objects and octet strings\<close>

text \<open>\<open>typed fs vs\<close>: the values have the types of the fields.\<close>

definition has_type :: "FieldType \<Rightarrow> FieldValue \<Rightarrow> bool" where
  "has_type f v =
     (case v of
        FV_u8 _ \<Rightarrow> f = F_u8 | FV_u16 _ \<Rightarrow> f = F_u16 | FV_u32 _ \<Rightarrow> f = F_u32 | FV_i16 _ \<Rightarrow> f = F_i16 | FV_i32 _ \<Rightarrow> f = F_i32
      | FV_time t \<Rightarrow> f = F_time \<and> 0 \<le> sint t \<and> sint t \<le> sint UInt48_MAX
      | FV_float bs \<Rightarrow> f = F_float \<and> length bs = 4
      | FV_double bs \<Rightarrow> f = F_double \<and> length bs = 8)"

abbreviation typed :: "FieldType list \<Rightarrow> FieldValue list \<Rightarrow> bool" where
  "typed \<equiv> list_all2 has_type"

definition fields_bytes :: "FieldValue list \<Rightarrow> u8 list" where
  "fields_bytes vs = concat (map field_bytes vs)"

lemma length_field_bytes: "has_type f v \<Longrightarrow> length (field_bytes v) = field_size f"
  by (cases v) (auto simp: has_type_def field_bytes_def field_size_def)

lemma length_fields_bytes: "typed fs vs \<Longrightarrow> length (fields_bytes vs) = fields_size fs"
  by (induction rule: list_all2_induct) (simp_all add: fields_bytes_def length_field_bytes)

lemma Format_Many_mkw:
  "length (fields_bytes vs) \<le> length view \<Longrightarrow>
     Format_Many vs (mkw pre view post) = Some (True, mkw (pre @ fields_bytes vs) (drop (length (fields_bytes vs)) view) post)"
proof (induction vs arbitrary: pre view)
  case Nil
  then show ?case by (simp add: fields_bytes_def)
next
  case (Cons v vs)
  then have "Format_Write v (mkw pre view post) = Some (True, mkw (pre @ field_bytes v) (drop (length (field_bytes v)) view) post)"
    by (simp add: Format_Write_def Format_WriteType_def WriteBuffer_mkw fields_bytes_def)
  moreover have "length (fields_bytes vs) \<le> length (drop (length (field_bytes v)) view)"
    using Cons.prems by (simp add: fields_bytes_def)
  ultimately show ?case
    using Cons.IH by (simp add: fields_bytes_def add.commute)
qed

interpretation object_writer: serializer "Descriptor_Inst grp variation conv" "\<lambda>v. fields_bytes (conv v)"
    "\<lambda>v. typed (Descriptor_fields (gv (unat grp) (unat variation))) (conv v)" for grp variation conv
  by unfold_locales (simp_all add: Descriptor_Inst_def Descriptor_Size_fields length_fields_bytes Format_Many_mkw)

interpretation octet_writer: serializer "OctetStringSerializer isEvent sz" "\<lambda>v. v" "\<lambda>v. length v = unat sz" for isEvent sz
  by unfold_locales (simp_all add: OctetStringSerializer_def RSlice_CopyTo_mkw)

text \<open>What is written is read back.\<close>

lemma Parse_Read_field_bytes:
  assumes "has_type f v"
  shows "Parse_Read f (field_bytes v @ r) = Some (Some v, r)"
proof -
  have parse: "Parse_u8 (UInt8_bytes a @ r) = Some (Some a, r)" "Parse_u16 (UInt16_bytes b @ r) = Some (Some b, r)"
      "Parse_u32 (UInt32_bytes c @ r) = Some (Some c, r)" for a b c
    by (simp_all add: Parse_u8_def Parse_u16_def Parse_u32_def ParseType_def UInt8_ReadBuffer_def UInt16_ReadBuffer_def
        UInt32_ReadBuffer_def UInt8_roundtrip UInt16_roundtrip UInt32_roundtrip)
  have time: "Parse_u48 (UInt48_bytes t @ r) = Some (Some t, r)" if "0 \<le> sint t" "sint t \<le> sint UInt48_MAX" for t
    using that by (simp add: Parse_u48_def ParseType_def UInt48_ReadBuffer_def UInt48_clamped)
  show ?thesis
    using assms parse time
    by (cases v) (auto simp: has_type_def field_bytes_def Parse_Read_def as_field_def Parse_bytes_def ParseType_def)
qed

lemma Parse_Many_fields_bytes: "typed fs vs \<Longrightarrow> Parse_Many fs (fields_bytes vs @ r) = Some (Some vs, r)"
  by (induction rule: list_all2_induct) (simp_all add: fields_bytes_def Parse_Read_field_bytes)

lemma fields_value_bytes: "typed fs vs \<Longrightarrow> fields_value fs (fields_bytes vs) = vs"
  using Parse_Many_fields_bytes [of fs vs "[]"] by (simp add: fields_value_def)


section \<open>Bits\<close>

fun Bitfield_Writes :: "bool list \<Rightarrow> BitfieldRangeWriteIterator \<Rightarrow> HeaderWriter \<Rightarrow>
    (BitfieldRangeWriteIterator \<times> HeaderWriter) option" where
  "Bitfield_Writes [] iter hw = Some (iter, hw)"
| "Bitfield_Writes (v # vs) iter hw = do {
     (ok, iter, hw) \<leftarrow> Bitfield_Write v iter hw;
     if ok then Bitfield_Writes vs iter hw else Some (iter, hw) }"

definition WriteBitfield :: "IndexType \<Rightarrow> u8 \<Rightarrow> u8 \<Rightarrow> QualifierCode \<Rightarrow> u16 \<Rightarrow> bool list \<Rightarrow> HeaderWriter \<Rightarrow> HeaderWriter option" where
  "WriteBitfield it grp variation qc start vs hw = do {
     (iter, hw) \<leftarrow> IterateOverSingleBitfield it grp variation qc start hw;
     (iter, hw) \<leftarrow> Bitfield_Writes vs iter hw;
     Bitfield_finish iter hw }"

text \<open>The bits \<open>bs\<close> lie in the bytes, and the rest of the last byte that they reach is clear.\<close>

definition packed :: "u8 list \<Rightarrow> bool list \<Rightarrow> bool" where
  "packed view bs \<longleftrightarrow> (\<forall>i < length bs. bit (view ! (i div 8)) (i mod 8) = bs ! i) \<and>
     (length bs mod 8 \<noteq> 0 \<longrightarrow> (\<forall>j \<ge> length bs mod 8. \<not> bit (view ! (length bs div 8)) j))"

definition with_bit :: "bool \<Rightarrow> nat \<Rightarrow> u8 \<Rightarrow> u8" where
  "with_bit v b byte = (let byte = (if b = 0 then 0 else byte) in if v then byte OR push_bit b 1 else byte)"

lemma bit_with_bit: "b < 8 \<Longrightarrow> bit (with_bit v b byte) j \<longleftrightarrow> (b \<noteq> 0 \<and> bit byte j) \<or> (v \<and> j = b)"
  by (auto simp: with_bit_def Let_def bit_or_iff bit_exp_iff bit_1_iff)

lemma packed_step:
  assumes "packed view bs" and "length bs < 8 * length view"
  shows "packed (view[length bs div 8 := with_bit v (length bs mod 8) (view ! (length bs div 8))]) (bs @ [v])"
proof -
  define n where "n = length bs"
  define view' where "view' = view[n div 8 := with_bit v (n mod 8) (view ! (n div 8))]"
  have len: "n div 8 < length view"
    using assms(2) by (simp add: n_def)
  have "bit (view' ! (i div 8)) (i mod 8) = (bs @ [v]) ! i" if "i < Suc n" for i
  proof (cases "i div 8 = n div 8")
    case True
    then have mod: "i mod 8 \<le> n mod 8" "i mod 8 = n mod 8 \<longleftrightarrow> i = n"
      using that div_mult_mod_eq [of i 8] div_mult_mod_eq [of n 8] by linarith+
    then have "n mod 8 \<noteq> 0" if "i < n"
      using that by auto
    with mod show ?thesis
      using len assms(1) \<open>i < Suc n\<close> True
      by (auto simp: view'_def bit_with_bit nth_append packed_def n_def less_Suc_eq)
  next
    case False
    then have "i < n" using that by (cases "i = n") auto
    then show ?thesis
      using False assms(1) by (auto simp: view'_def nth_append packed_def n_def)
  qed
  moreover have "\<not> bit (view' ! (Suc n div 8)) j" if "Suc n mod 8 \<noteq> 0" "Suc n mod 8 \<le> j" for j
  proof -
    have "Suc n div 8 = n div 8" "Suc n mod 8 = Suc (n mod 8)"
      using that(1) by (auto simp: div_Suc mod_Suc split: if_splits)
    then show ?thesis
      using that len assms(1) by (auto simp: view'_def bit_with_bit packed_def n_def)
  qed
  ultimately show ?thesis
    by (simp add: packed_def view'_def n_def)
qed

lemma hw_set_hwm: "i < length view \<Longrightarrow> hw_set i b (hwm pre view post m) = Some (hwm pre (view[i := b]) post m)"
  by (simp add: hw_set_def wslice_store_mkw hwm_def list_store_def upd_conv_take_nth_drop)

lemma hw_get_hwm: "i < length view \<Longrightarrow> hw_get i (hwm pre view post m) = Some (view ! i)"
  by (simp add: hw_get_def)

lemma Bitfield_Write_hwm:
  assumes "bwi_isValid iter" and "unat (bwi_count iter) < unat (bwi_maxCount iter)" and "unat (bwi_count iter) < 8 * length view"
  shows "Bitfield_Write v iter (hwm pre view post m) =
    Some (True, iter\<lparr>bwi_count := IT_cast (bwi_index iter) (bwi_count iter + 1)\<rparr>,
      hwm pre (view[unat (bwi_count iter) div 8 := with_bit v (unat (bwi_count iter) mod 8) (view ! (unat (bwi_count iter) div 8))]) post m)"
proof -
  have "unat (bwi_count iter) div 8 < length view"
    using assms(3) by simp
  then show ?thesis
    using assms(1,2)
    by (simp add: Bitfield_Write_def Let_def hw_set_hwm hw_get_hwm with_bit_def word_less_nat_alt unat_ucast_u16)
qed

lemma num_bytes: "(if 0 < n mod 8 then n div 8 + 1 else n div 8) = (n + 7) div 8" for n :: nat
proof -
  define q where "q = n div 8"
  define r where "r = n mod 8"
  have n: "n = r + q * 8" and r: "r < 8"
    by (simp_all add: q_def r_def)
  have "(r + 7) div 8 = (if 0 < r then 1 else 0)"
    using r by auto
  then show ?thesis
    using r by (simp add: n add.assoc add.commute [of _ 7] flip: add.assoc)
qed

lemma Bitfield_Writes_hwm:
  assumes "bwi_isValid iter" and "unat (bwi_count iter) = length bs" and "packed view bs"
    and "length bs + length vs \<le> IT_Max (bwi_index iter)" and "length bs + length vs \<le> unat (bwi_maxCount iter)"
    and "unat (bwi_maxCount iter) \<le> 8 * length view"
  shows "\<exists>c view'. unat c = length (bs @ vs) \<and> length view' = length view \<and> packed view' (bs @ vs) \<and>
    (\<forall>n. (length (bs @ vs) + 7) div 8 \<le> n \<longrightarrow> drop n view' = drop n view) \<and>
    (\<forall>ws. Bitfield_Writes (vs @ ws) iter (hwm pre view post m) = Bitfield_Writes ws (iter\<lparr>bwi_count := c\<rparr>) (hwm pre view' post m))"
  using assms
proof (induction vs arbitrary: iter view bs)
  case Nil
  then show ?case by (intro exI [of _ "bwi_count iter"] exI [of _ view]) simp
next
  case (Cons v vs)
  define iter' where "iter' = iter\<lparr>bwi_count := IT_cast (bwi_index iter) (bwi_count iter + 1)\<rparr>"
  define view' where "view' = view[length bs div 8 := with_bit v (length bs mod 8) (view ! (length bs div 8))]"
  have "unat (bwi_count iter + 1) = Suc (length bs)"
    using Cons.prems(2,4) IT_Max_le [of "bwi_index iter"] by (subst unat_Suc_u16) simp_all
  then have count: "unat (bwi_count iter') = Suc (length bs)"
    using Cons.prems(4) by (simp add: iter'_def IT_cast_small)
  have "Bitfield_Write v iter (hwm pre view post m) = Some (True, iter', hwm pre view' post m)"
    using Cons.prems by (simp add: Bitfield_Write_hwm iter'_def view'_def)
  moreover have "packed view' (bs @ [v])"
    using Cons.prems packed_step [of view bs v] by (simp add: view'_def)
  moreover have "drop n view' = drop n view" if "(length (bs @ v # vs) + 7) div 8 \<le> n" for n
    using that by (simp add: view'_def)
  ultimately show ?case
    using Cons.IH [of iter' "bs @ [v]" view'] Cons.prems(1,4-6) count by (auto simp: iter'_def view'_def)
qed

lemma packed_take: "packed view bs \<Longrightarrow> (length bs + 7) div 8 \<le> n \<Longrightarrow> n \<le> length view \<Longrightarrow> packed (take n view) bs"
proof -
  assume a: "packed view bs" "(length bs + 7) div 8 \<le> n" "n \<le> length view"
  have "i div 8 < n" if "i < length bs" for i
    using that a(2) by linarith
  moreover have "length bs div 8 < n" if "length bs mod 8 \<noteq> 0"
    using that a(2) div_mult_mod_eq [of "length bs" 8] by linarith
  ultimately show ?thesis
    using a(1) by (auto simp: packed_def)
qed

lemma BitfieldRangeWriteIterator_of_hwm:
  assumes "2 * IT_SIZE it \<le> length view"
  shows "BitfieldRangeWriteIterator_of it start (hwm pre view post m) =
    Some (\<lparr>bwi_index = it, bwi_start = start, bwi_count = 0, bwi_maxCount = of_nat (length (drop (2 * IT_SIZE it) view)) * 8,
        bwi_isValid = True, bwi_range = (length pre + IT_SIZE it, length view - IT_SIZE it)\<rparr>,
      hwm (pre @ IT_bytes it start @ take (IT_SIZE it) (drop (IT_SIZE it) view)) (drop (2 * IT_SIZE it) view) post m)"
  using assms copy_Format_hwm [of "IT_bytes it start" view pre post m]
  by (simp add: BitfieldRangeWriteIterator_of_def reserved_range_hwm Let_def)

lemma WriteBitfield_hwm:
  assumes "0 < length vs" and "length vs \<le> IT_Max it"
    and "length pre + length view < 2 ^ 28"
    and "3 + 2 * IT_SIZE it + (length vs + 7) div 8 \<le> length view"
  shows "\<exists>bytes. length bytes = (length vs + 7) div 8 \<and> packed bytes vs \<and>
    WriteBitfield it grp variation qc start vs (hwm pre view post m) =
      Some (hwm (pre @ [grp, variation, QualifierCodeToType qc] @ IT_bytes it start @
          IT_bytes it (IT_cast it (start + of_nat (length vs) - 1)) @ bytes)
        (drop (3 + 2 * IT_SIZE it + (length vs + 7) div 8) view) post m)"
proof -
  define k where "k = IT_SIZE it"
  define n where "n = (length vs + 7) div 8"
  have n: "0 < n" "length vs \<le> 8 * n"
    using assms(1) unfolding n_def by linarith+
  have room: "3 + (2 * k + 1) \<le> length view" "2 * k \<le> length (drop 3 view)" "n \<le> length (drop (3 + 2 * k) view)"
    using assms(4) n(1) by (simp_all flip: k_def n_def)
  define view0 where "view0 = drop (3 + 2 * k) view"
  define old where "old = take k (drop k (drop 3 view))"
  have old: "length old = k"
    using room by (simp add: old_def)
  define pre' where "pre' = pre @ [grp, variation, QualifierCodeToType qc] @ IT_bytes it start"
  define iter where "iter = \<lparr>bwi_index = it, bwi_start = start, bwi_count = 0, bwi_maxCount = of_nat (length view0) * 8,
      bwi_isValid = True, bwi_range = (length pre', length (drop 3 view) - k)\<rparr>"
  have start: "IterateOverSingleBitfield it grp variation qc start (hwm pre view post m) =
      Some (iter, hwm (pre' @ old) view0 post m)"
    using room(1) BitfieldRangeWriteIterator_of_hwm [OF room(2) [unfolded k_def], of start "pre @ [grp, variation, QualifierCodeToType qc]" post m]
    by (simp add: IterateOverSingleBitfield_def WriteHeaderWithReserve_hwm iter_def pre'_def old_def view0_def add.commute
        del: length_drop flip: k_def)
  have max: "unat (bwi_maxCount iter) = 8 * length view0"
  proof -
    have "unat (of_nat (8 * length view0) :: u32) = 8 * length view0"
      using assms(3) by (intro unat_of_nat_u32) (simp add: view0_def)
    then show ?thesis by (simp add: iter_def mult.commute)
  qed
  obtain c view' where c: "unat c = length vs" "length view' = length view0" "packed view' vs"
      "drop n view' = drop n view0" and writes: "\<forall>ws. Bitfield_Writes (vs @ ws) iter (hwm (pre' @ old) view0 post m) =
        Bitfield_Writes ws (iter\<lparr>bwi_count := c\<rparr>) (hwm (pre' @ old) view' post m)"
    using Bitfield_Writes_hwm [of iter "[]" view0 vs "pre' @ old" post m] assms(2) max room(3) n(2)
    by (auto simp: iter_def packed_def view0_def n_def)
  have "c = of_nat (length vs)" "0 < c"
    using c(1) assms(1) by (simp flip: c(1), simp add: word_less_nat_alt)
  have packed: "packed (take n view') vs"
    using c(2,3) room(3) by (intro packed_take) (simp_all add: n_def view0_def)
  have copy: "copy_Format (bwi_range iter) bs (hwm (pre' @ old) view' post m) =
      Some (copy_advance k (bwi_range iter), hwm (pre' @ bs) view' post m)" if "length bs = k" for bs
  proof -
    have "k \<le> length (drop 3 view) - k"
      using room(2) by linarith
    then have "copy_store (bwi_range iter) bs (hwm (pre' @ old) view' post m) = Some (hwm (pre' @ bs) view' post m)" "k \<le> snd (bwi_range iter)"
      using that old by (simp_all add: iter_def copy_store_hwm list_store_def del: length_drop length_append)
    then show ?thesis
      using that by (simp add: copy_Format_def)
  qed
  have adv: "hw_advance n (hwm p view' post m) = hwm (p @ take n view') (drop n view0) post m" for p
    using room(3) c(2,4) by (subst hw_advance_hwm) (simp_all add: view0_def)
  define stop where "stop = IT_cast it (start + c - 1)"
  have sel: "bwi_index iter = it" "bwi_start iter = start" "bwi_isValid iter"
    by (simp_all add: iter_def)
  have "Bitfield_finish (iter\<lparr>bwi_count := c\<rparr>) (hwm (pre' @ old) view' post m) =
      Some (hwm ((pre' @ IT_bytes it stop) @ take n view') (drop n view0) post m)"
    using \<open>0 < c\<close> num_bytes [of "length vs", folded n_def] copy [of "IT_bytes it stop"] adv
    by (simp add: Bitfield_finish_def sel c(1) Let_def k_def flip: stop_def)
  then have "WriteBitfield it grp variation qc start vs (hwm pre view post m) =
      Some (hwm ((pre' @ IT_bytes it stop) @ take n view') (drop n view0) post m)"
    using writes [rule_format, of "[]"] by (simp add: WriteBitfield_def start)
  moreover have "drop n view0 = drop (3 + 2 * k + n) view"
    by (simp add: view0_def add.commute)
  ultimately show ?thesis
    using packed room(3) c(2) unfolding stop_def \<open>c = of_nat (length vs)\<close> n_def [symmetric] k_def [symmetric]
    by (intro exI [of _ "take n view'"]) (simp add: pre'_def view0_def)
qed

lemma IT_cast_wraps: "IT_cast IT_UInt8 256 = 0"
  by (simp add: IT_cast_def)

text \<open>C34: The count of a bitfield iterator has the width of its index. The 256 points that a one-byte
  range can name wrap it to zero: the destructor then neither stores the stop index, which keeps
  what the buffer held, nor skips the 32 bytes of bits, so that whatever is written next
  overwrites them.\<close>

theorem WriteBitfield_full_range:
  assumes "length vs = 256" and "length pre + length view < 2 ^ 28" and "37 \<le> length view"
  shows "\<exists>view'. packed view' vs \<and> length view' = length view - 5 \<and>
    WriteBitfield IT_UInt8 grp variation qc start vs (hwm pre view post m) =
      Some (hwm (pre @ [grp, variation, QualifierCodeToType qc] @ IT_bytes IT_UInt8 start @ [view ! 4]) view' post m)"
proof -
  obtain us v where vs: "vs = us @ [v]" "length us = 255"
    using assms(1) by (cases vs rule: rev_cases) auto
  define view0 where "view0 = drop 5 view"
  define pre' where "pre' = pre @ [grp, variation, QualifierCodeToType qc] @ IT_bytes IT_UInt8 start"
  define iter where "iter = \<lparr>bwi_index = IT_UInt8, bwi_start = start, bwi_count = 0, bwi_maxCount = of_nat (length view0) * 8,
      bwi_isValid = True, bwi_range = (length pre', length (drop 3 view) - 1)\<rparr>"
  have room: "3 + (2 * IT_SIZE IT_UInt8 + 1) \<le> length view" "2 * IT_SIZE IT_UInt8 \<le> length (drop 3 view)"
    using assms(3) by (simp_all add: IT_SIZE_def)
  have one: "take (IT_SIZE IT_UInt8) (drop (IT_SIZE IT_UInt8) (drop 3 view)) = [view ! 4]"
    using assms(3) by (simp add: IT_SIZE_def take_Suc_conv_app_nth hd_drop_conv_nth)
  have start: "IterateOverSingleBitfield IT_UInt8 grp variation qc start (hwm pre view post m) =
      Some (iter, hwm (pre' @ [view ! 4]) view0 post m)"
    using room(1) BitfieldRangeWriteIterator_of_hwm [OF room(2), of start "pre @ [grp, variation, QualifierCodeToType qc]" post m]
    unfolding one
    by (simp add: IterateOverSingleBitfield_def WriteHeaderWithReserve_hwm iter_def pre'_def view0_def del: length_drop)
      (simp add: IT_SIZE_def)
  have max: "unat (bwi_maxCount iter) = 8 * length view0"
  proof -
    have "unat (of_nat (8 * length view0) :: u32) = 8 * length view0"
      using assms(2) by (intro unat_of_nat_u32) (simp add: view0_def)
    then show ?thesis by (simp add: iter_def mult.commute)
  qed
  obtain c view1 where c: "unat c = 255" "length view1 = length view0" "packed view1 us"
      "Bitfield_Writes vs iter (hwm (pre' @ [view ! 4]) view0 post m) =
        Bitfield_Writes [v] (iter\<lparr>bwi_count := c\<rparr>) (hwm (pre' @ [view ! 4]) view1 post m)"
  proof -
    have "bwi_isValid iter" "unat (bwi_count iter) = length ([] :: bool list)" "packed view0 []"
        "length ([] :: bool list) + length us \<le> IT_Max (bwi_index iter)"
        "length ([] :: bool list) + length us \<le> unat (bwi_maxCount iter)" "unat (bwi_maxCount iter) \<le> 8 * length view0"
      using max assms(3) vs(2) by (simp_all add: iter_def packed_def IT_Max_def) (simp add: view0_def)
    note w = Bitfield_Writes_hwm [OF this, of "pre' @ [view ! 4]" post m]
    show ?thesis
      using w that vs by auto
  qed
  have "c = of_nat 255"
    by (simp flip: c(1))
  define view' where "view' = view1[31 := with_bit v 7 (view1 ! 31)]"
  have "packed view' vs"
    using packed_step [OF c(3), of v] c(2) assms(3) vs by (simp add: view'_def view0_def)
  moreover have "Bitfield_Write v (iter\<lparr>bwi_count := c\<rparr>) (hwm (pre' @ [view ! 4]) view1 post m) =
      Some (True, iter\<lparr>bwi_count := 0\<rparr>, hwm (pre' @ [view ! 4]) view' post m)"
    using max c(1,2) assms(3) \<open>c = of_nat 255\<close>
    by (subst Bitfield_Write_hwm) (simp_all add: iter_def view'_def view0_def IT_cast_wraps)
  ultimately show ?thesis
    using c(2) by (intro exI [of _ view'], simp add: WriteBitfield_def start c(4) Bitfield_finish_def)
      (simp add: view'_def view0_def pre'_def)
qed

theorem WriteBitfield_full_range_witness:
  "\<exists>view'. packed view' (replicate 256 True) \<and> length view' = 45 \<and>
    WriteBitfield IT_UInt8 1 1 QC_UINT8_START_STOP 0 (replicate 256 True) (hwm [] (replicate 50 0) [] None) =
      Some (hwm ([] @ [1, 1, QualifierCodeToType QC_UINT8_START_STOP] @ IT_bytes IT_UInt8 0 @ [replicate 50 0 ! 4]) view' [] None)"
  using WriteBitfield_full_range [of "replicate 256 True" "[]" "replicate 50 0" 1 1 QC_UINT8_START_STOP 0 "[]" None]
  by (simp del: replicate.simps)

end
