(* ===== verification/ObjectParser.thy ===== *)
theory ObjectParser
  imports Objects
begin

text \<open>
  The object parser (\<open>app/parsing/BufferedCollection\<close>, \<open>CountParser\<close>, \<open>RangeParser\<close>,
  \<open>CountIndexParser\<close>, \<open>FreeFormatParser\<close>, \<open>APDUParser\<close>, \<open>IAPDUHandler\<close>): it walks over the
  object headers of a fragment, first without and then with the handler. The buffer is passed in
  and the rest returned. A null handler is \<open>handling = False\<close>; the calls to a handler are
  collected as \<open>apdu_event\<close>s, a collection by the values a visitor sees.
\<close>

section \<open>Events\<close>

text \<open>A failed \<open>Read\<close> leaves the object at its default and is not noticed by the caller: \<^const>\<open>None\<close>.\<close>

datatype ObjectValue =
    Fields "FieldValue list option"
  | SingleBit bool
  | TwoBits DoubleBit
  | Octets "u8 list"

datatype apdu_event =
    OnAllObjects HeaderRecord
  | OnCount HeaderRecord u16
  | OnRange HeaderRecord Range
  | OnCountOf HeaderRecord u16 "ObjectValue list"
  | OnRangeOf HeaderRecord Range "(u16 \<times> ObjectValue) list"
  | OnPrefixOf HeaderRecord u16 "(u16 \<times> ObjectValue) list"
  | OnFreeFormat HeaderRecord u16 VariableObject "u8 list"

type_synonym parse_outcome = "(ParseResult \<times> rslice \<times> apdu_event list) option"

text \<open>\<open>BufferedCollection::Foreach\<close>: \<open>readFunc\<close> reads from a copy of the buffer and advances it.\<close>

fun Foreach :: "(rslice \<Rightarrow> nat \<Rightarrow> ('a \<times> rslice) option) \<Rightarrow> nat \<Rightarrow> nat \<Rightarrow> rslice \<Rightarrow> 'a list option" where
  "Foreach readFunc 0 pos copy = Some []"
| "Foreach readFunc (Suc n) pos copy = do {
     (v, copy) \<leftarrow> readFunc copy pos;
     vs \<leftarrow> Foreach readFunc n (Suc pos) copy;
     Some (v # vs) }"

text \<open>\<open>Process\<close>, which \<open>CountParser\<close>, \<open>RangeParser\<close> and \<open>CountIndexParser\<close> share.\<close>

definition Process :: "u32 \<Rightarrow> (rslice \<Rightarrow> apdu_event option) \<Rightarrow> bool \<Rightarrow> rslice \<Rightarrow> parse_outcome" where
  "Process requiredSize handler handling buffer =
     (if length buffer < unat requiredSize then Some (NOT_ENOUGH_DATA_FOR_OBJECTS, buffer, [])
      else do {
        evs \<leftarrow> (if handling then map_option (\<lambda>e. [e]) (handler buffer) else Some []);
        Some (PR_OK, RSlice_Advance (unat requiredSize) buffer, evs) })"


section \<open>Counts\<close>

definition count_objects :: "GroupVariation list" where
  "count_objects = [gv 50 1, gv 50 3, gv 51 1, gv 51 2, gv 52 1, gv 52 2, gv 120 3, gv 120 4]"

definition read_object :: "GroupVariation \<Rightarrow> rslice \<Rightarrow> nat \<Rightarrow> (ObjectValue \<times> rslice) option" where
  "read_object g buffer pos = do { (v, buffer) \<leftarrow> Descriptor_Read g buffer; Some (Fields v, buffer) }"

definition InvokeCountOf :: "HeaderRecord \<Rightarrow> GroupVariation \<Rightarrow> u16 \<Rightarrow> rslice \<Rightarrow> apdu_event option" where
  "InvokeCountOf record0 g count buffer =
     map_option (OnCountOf record0 count) (Foreach (read_object g) (unat count) 0 buffer)"

definition ParseCountOfObjects :: "HeaderRecord \<Rightarrow> u16 \<Rightarrow> bool \<Rightarrow> rslice \<Rightarrow> parse_outcome" where
  "ParseCountOfObjects record0 count handling buffer =
     (let g = gvr_enumeration record0 in
      if g \<in> set count_objects
      then Process (ucast count * of_nat (Descriptor_Size g)) (InvokeCountOf record0 g count) handling buffer
      else Some (INVALID_OBJECT_QUALIFIER, buffer, []))"

definition CountParser_ParseHeader :: "NumParser \<Rightarrow> bool \<Rightarrow> HeaderRecord \<Rightarrow> bool \<Rightarrow> rslice \<Rightarrow> parse_outcome" where
  "CountParser_ParseHeader numParser expectsContents record0 handling buffer = do {
     (result, count, buffer) \<leftarrow> ParseCount numParser 0 buffer;
     if result = PR_OK
     then (if expectsContents then ParseCountOfObjects record0 count handling buffer
           else Some (PR_OK, buffer, if handling then [OnCount record0 count] else []))
     else Some (result, buffer, []) }"


section \<open>Ranges\<close>

text \<open>What \<open>ParseRangeOfObjects\<close> does for each object.\<close>

datatype range_kind = BitfieldType | DoubleBitfieldType | FixedSize | OctetData

definition range_objects :: "(GroupVariation \<times> range_kind) list" where
  "range_objects =
     [(gv 1 1, BitfieldType), (gv 1 2, FixedSize), (gv 3 1, DoubleBitfieldType), (gv 10 1, BitfieldType),
      (gv 3 2, FixedSize), (gv 10 2, FixedSize),
      (gv 20 1, FixedSize), (gv 20 2, FixedSize), (gv 20 5, FixedSize), (gv 20 6, FixedSize),
      (gv 21 1, FixedSize), (gv 21 2, FixedSize), (gv 21 5, FixedSize), (gv 21 6, FixedSize),
      (gv 21 9, FixedSize), (gv 21 10, FixedSize),
      (gv 30 1, FixedSize), (gv 30 2, FixedSize), (gv 30 3, FixedSize), (gv 30 4, FixedSize),
      (gv 30 5, FixedSize), (gv 30 6, FixedSize),
      (gv 40 1, FixedSize), (gv 40 2, FixedSize), (gv 40 3, FixedSize), (gv 40 4, FixedSize),
      (gv 50 4, FixedSize), (gv 80 1, BitfieldType), (gv 110 0, OctetData), (gv 121 1, FixedSize)]"

text \<open>\<open>WithIndex(value, range.start + pos)\<close>: the index is stored in 16 bits.\<close>

definition WithIndex :: "Range \<Rightarrow> nat \<Rightarrow> 'a \<Rightarrow> u16 \<times> 'a" where
  "WithIndex rng pos v = (of_nat (unat (range_start rng) + pos), v)"

definition read_range_object :: "GroupVariation \<Rightarrow> Range \<Rightarrow> rslice \<Rightarrow> nat \<Rightarrow> ((u16 \<times> ObjectValue) \<times> rslice) option" where
  "read_range_object g rng buffer pos = do {
     (v, buffer) \<leftarrow> Descriptor_Read g buffer;
     Some (WithIndex rng pos (Fields v), buffer) }"

definition read_range_bit :: "Range \<Rightarrow> rslice \<Rightarrow> nat \<Rightarrow> ((u16 \<times> ObjectValue) \<times> rslice) option" where
  "read_range_bit rng buffer pos = do { v \<leftarrow> GetBit buffer pos; Some (WithIndex rng pos (SingleBit v), buffer) }"

definition read_range_double_bit :: "Range \<Rightarrow> rslice \<Rightarrow> nat \<Rightarrow> ((u16 \<times> ObjectValue) \<times> rslice) option" where
  "read_range_double_bit rng buffer pos = do {
     v \<leftarrow> GetDoubleBit buffer pos;
     Some (WithIndex rng pos (TwoBits v), buffer) }"

definition read_range_octets :: "nat \<Rightarrow> Range \<Rightarrow> rslice \<Rightarrow> nat \<Rightarrow> ((u16 \<times> ObjectValue) \<times> rslice) option" where
  "read_range_octets variation rng buffer pos =
     Some (WithIndex rng pos (Octets (RSlice_Take variation buffer)), RSlice_Advance variation buffer)"

definition InvokeRangeOf :: "HeaderRecord \<Rightarrow> GroupVariation \<Rightarrow> Range \<Rightarrow> rslice \<Rightarrow> apdu_event option" where
  "InvokeRangeOf record0 g rng buffer =
     map_option (OnRangeOf record0 rng) (Foreach (read_range_object g rng)
       (unat (Range_Count rng)) 0 buffer)"

definition InvokeRangeBitfieldType :: "HeaderRecord \<Rightarrow> Range \<Rightarrow> rslice \<Rightarrow> apdu_event option" where
  "InvokeRangeBitfieldType record0 rng buffer =
     map_option (OnRangeOf record0 rng) (Foreach (read_range_bit rng)
       (unat (Range_Count rng)) 0 buffer)"

definition InvokeRangeDoubleBitfieldType :: "HeaderRecord \<Rightarrow> Range \<Rightarrow> rslice \<Rightarrow> apdu_event option" where
  "InvokeRangeDoubleBitfieldType record0 rng buffer =
     map_option (OnRangeOf record0 rng) (Foreach (read_range_double_bit rng)
       (unat (Range_Count rng)) 0 buffer)"

definition ParseRangeOfOctetData :: "HeaderRecord \<Rightarrow> Range \<Rightarrow> bool \<Rightarrow> rslice \<Rightarrow> parse_outcome" where
  "ParseRangeOfOctetData record0 rng handling buffer =
     (if gvr_variation record0 > 0
      then (let variation = unat (gvr_variation record0);
                COUNT = Range_Count rng;
                size = ucast (gvr_variation record0) * COUNT
            in if length buffer < unat size then Some (NOT_ENOUGH_DATA_FOR_OBJECTS, buffer, [])
               else do {
                 evs \<leftarrow> (if handling
                   then map_option (\<lambda>vs. [OnRangeOf record0 rng vs]) (Foreach (read_range_octets variation rng) (unat COUNT) 0 buffer)
                   else Some []);
                 Some (PR_OK, RSlice_Advance (unat size) buffer, evs) })
      else Some (INVALID_OBJECT, buffer, []))"

definition ParseRangeOfObjects :: "HeaderRecord \<Rightarrow> Range \<Rightarrow> bool \<Rightarrow> rslice \<Rightarrow> parse_outcome" where
  "ParseRangeOfObjects record0 rng handling buffer =
     (let g = gvr_enumeration record0 in
      case map_of range_objects g of
        Some BitfieldType \<Rightarrow>
          Process (NumBytesInBits (Range_Count rng)) (InvokeRangeBitfieldType record0 rng) handling buffer
      | Some DoubleBitfieldType \<Rightarrow>
          Process (NumBytesInDoubleBits (Range_Count rng)) (InvokeRangeDoubleBitfieldType record0 rng) handling buffer
      | Some FixedSize \<Rightarrow>
          Process (Range_Count rng * of_nat (Descriptor_Size g)) (InvokeRangeOf record0 g rng) handling buffer
      | Some OctetData \<Rightarrow> ParseRangeOfOctetData record0 rng handling buffer
      | None \<Rightarrow> Some (INVALID_OBJECT_QUALIFIER, buffer, []))"

definition RangeParser_ParseHeader :: "NumParser \<Rightarrow> bool \<Rightarrow> HeaderRecord \<Rightarrow> bool \<Rightarrow> rslice \<Rightarrow> parse_outcome" where
  "RangeParser_ParseHeader numparser expectsContents record0 handling buffer = do {
     (res, rng, buffer) \<leftarrow> ParseRange numparser Range_Invalid buffer;
     if res \<noteq> PR_OK then Some (res, buffer, [])
     else if expectsContents then ParseRangeOfObjects record0 rng handling buffer
     else Some (PR_OK, buffer, if handling then [OnRange record0 rng] else []) }"


section \<open>Counts with index prefixes\<close>

definition count_index_objects :: "GroupVariation list" where
  "count_index_objects =
     [gv 2 1, gv 2 2, gv 2 3, gv 4 1, gv 4 2, gv 4 3, gv 11 1, gv 11 2, gv 12 1, gv 13 1, gv 13 2,
      gv 22 1, gv 22 2, gv 22 5, gv 22 6, gv 23 1, gv 23 2, gv 23 5, gv 23 6,
      gv 32 1, gv 32 2, gv 32 3, gv 32 4, gv 32 5, gv 32 6, gv 32 7, gv 32 8,
      gv 41 1, gv 41 2, gv 41 3, gv 41 4,
      gv 42 1, gv 42 2, gv 42 3, gv 42 4, gv 42 5, gv 42 6, gv 42 7, gv 42 8,
      gv 43 1, gv 43 2, gv 43 3, gv 43 4, gv 43 5, gv 43 6, gv 43 7, gv 43 8,
      gv 50 4, gv 122 1, gv 122 2]"

definition read_prefixed_object :: "NumParser \<Rightarrow> GroupVariation \<Rightarrow> rslice \<Rightarrow> nat \<Rightarrow> ((u16 \<times> ObjectValue) \<times> rslice) option" where
  "read_prefixed_object numparser g buffer pos = do {
     (index, buffer) \<leftarrow> ReadNum numparser buffer;
     (v, buffer) \<leftarrow> Descriptor_Read g buffer;
     Some ((index, Fields v), buffer) }"

definition read_prefixed_octets :: "NumParser \<Rightarrow> nat \<Rightarrow> rslice \<Rightarrow> nat \<Rightarrow> ((u16 \<times> ObjectValue) \<times> rslice) option" where
  "read_prefixed_octets numparser variation buffer pos = do {
     (index, buffer) \<leftarrow> ReadNum numparser buffer;
     Some ((index, Octets (RSlice_Take variation buffer)), RSlice_Advance variation buffer) }"

definition InvokePrefixOf :: "HeaderRecord \<Rightarrow> GroupVariation \<Rightarrow> u16 \<Rightarrow> NumParser \<Rightarrow> rslice \<Rightarrow> apdu_event option" where
  "InvokePrefixOf record0 g count numparser buffer =
     map_option (OnPrefixOf record0 count) (Foreach (read_prefixed_object numparser g) (unat count) 0 buffer)"

definition ParseIndexPrefixedOctetData :: "HeaderRecord \<Rightarrow> NumParser \<Rightarrow> u32 \<Rightarrow> bool \<Rightarrow> rslice \<Rightarrow> parse_outcome" where
  "ParseIndexPrefixedOctetData record0 numparser count handling buffer =
     (if gvr_variation record0 = 0 then Some (INVALID_OBJECT, buffer, [])
      else
        let variation = unat (gvr_variation record0);
            TOTAL_SIZE = count * (of_nat (NumBytes numparser) + ucast (gvr_variation record0))
        in if length buffer < unat TOTAL_SIZE then Some (NOT_ENOUGH_DATA_FOR_OBJECTS, buffer, [])
           else do {
             evs \<leftarrow> (if handling
               then map_option (\<lambda>vs. [OnPrefixOf record0 (ucast count) vs]) (Foreach (read_prefixed_octets numparser variation)
                 (unat count) 0 buffer)
               else Some []);
             Some (PR_OK, RSlice_Advance (unat TOTAL_SIZE) buffer, evs) })"

definition CountIndex_ParseCountOfObjects :: "HeaderRecord \<Rightarrow> NumParser \<Rightarrow> u16 \<Rightarrow> bool \<Rightarrow> rslice \<Rightarrow> parse_outcome" where
  "CountIndex_ParseCountOfObjects record0 numparser count handling buffer =
     (let g = gvr_enumeration record0 in
      if g \<in> set count_index_objects
      then Process (ucast count * (of_nat (Descriptor_Size g) + of_nat (NumBytes numparser)))
             (InvokePrefixOf record0 g count numparser) handling buffer
      else if g = gv 111 0 then ParseIndexPrefixedOctetData record0 numparser (ucast count) handling buffer
      else Some (INVALID_OBJECT_QUALIFIER, buffer, []))"

definition CountIndexParser_ParseHeader :: "NumParser \<Rightarrow> HeaderRecord \<Rightarrow> bool \<Rightarrow> rslice \<Rightarrow> parse_outcome" where
  "CountIndexParser_ParseHeader numparser record0 handling buffer = do {
     (res, count, buffer) \<leftarrow> ParseCount numparser 0 buffer;
     if res = PR_OK then CountIndex_ParseCountOfObjects record0 numparser count handling buffer
     else Some (res, buffer, []) }"


section \<open>Free format\<close>

definition free_format_objects :: "GroupVariation list" where
  "free_format_objects =
     [gv 120 1, gv 120 2, gv 120 5, gv 120 6, gv 120 7, gv 120 9, gv 120 8, gv 120 10, gv 120 11,
      gv 120 12, gv 120 13, gv 120 14, gv 120 15]"

text \<open>\<open>ParseAny<T>\<close>, with the layout of \<open>T\<close>; the handler also gets the bytes of the object.\<close>

definition ParseFreeFormat :: "VariableLayout \<Rightarrow> HeaderRecord \<Rightarrow> u16 \<Rightarrow> bool \<Rightarrow> rslice \<Rightarrow> (ParseResult \<times> apdu_event list) option" where
  "ParseFreeFormat layout record0 count handling objects = do {
     value \<leftarrow> Variable_Read layout objects;
     Some (case value of
         Some v \<Rightarrow> (PR_OK, if handling then [OnFreeFormat record0 count v objects] else [])
       | None \<Rightarrow> (NOT_ENOUGH_DATA_FOR_OBJECTS, [])) }"

definition FreeFormatParser_ParseHeader :: "HeaderRecord \<Rightarrow> bool \<Rightarrow> rslice \<Rightarrow> parse_outcome" where
  "FreeFormatParser_ParseHeader record0 handling buffer =
     (if length buffer < 3 then Some (NOT_ENOUGH_DATA_FOR_HEADER, buffer, [])
      else do {
        (FREE_FORMAT_COUNT, buffer) \<leftarrow> UInt8_ReadBuffer buffer;
        (FREE_FORMAT_SIZE, buffer) \<leftarrow> UInt16_ReadBuffer buffer;
        if FREE_FORMAT_COUNT \<noteq> 1 then Some (UNREASONABLE_OBJECT_COUNT, buffer, [])
        else if length buffer < unat FREE_FORMAT_SIZE then Some (NOT_ENOUGH_DATA_FOR_OBJECTS, buffer, [])
        else
          let copy = RSlice_Take (unat FREE_FORMAT_SIZE) buffer;
              buffer = RSlice_Advance (unat FREE_FORMAT_SIZE) buffer
          in (if gvr_enumeration record0 \<in> set free_format_objects
              then (case map_of Group120_layouts (unat (gvr_variation record0)) of
                  Some layout \<Rightarrow> do {
                    (result, evs) \<leftarrow> ParseFreeFormat layout record0 (ucast FREE_FORMAT_COUNT) handling copy;
                    Some (result, buffer, evs) }
                | None \<Rightarrow> None)
              else Some (INVALID_OBJECT_QUALIFIER, buffer, [])) })"


section \<open>The fragment\<close>

definition HandleAllObjectsHeader :: "HeaderRecord \<Rightarrow> bool \<Rightarrow> ParseResult \<times> apdu_event list" where
  "HandleAllObjectsHeader record0 handling = (PR_OK, if handling then [OnAllObjects record0] else [])"

definition ParseQualifier :: "bool \<Rightarrow> HeaderRecord \<Rightarrow> bool \<Rightarrow> rslice \<Rightarrow> parse_outcome" where
  "ParseQualifier expectsContents record0 handling buffer =
     (case GetQualifierCode record0 of
        QC_ALL_OBJECTS \<Rightarrow> (let (r, evs) = HandleAllObjectsHeader record0 handling in Some (r, buffer, evs))
      | QC_UINT8_CNT \<Rightarrow> CountParser_ParseHeader OneByte expectsContents record0 handling buffer
      | QC_UINT16_CNT \<Rightarrow> CountParser_ParseHeader TwoByte expectsContents record0 handling buffer
      | QC_UINT8_START_STOP \<Rightarrow> RangeParser_ParseHeader OneByte expectsContents record0 handling buffer
      | QC_UINT16_START_STOP \<Rightarrow> RangeParser_ParseHeader TwoByte expectsContents record0 handling buffer
      | QC_UINT8_CNT_UINT8_INDEX \<Rightarrow> CountIndexParser_ParseHeader OneByte record0 handling buffer
      | QC_UINT16_CNT_UINT16_INDEX \<Rightarrow> CountIndexParser_ParseHeader TwoByte record0 handling buffer
      | QC_UINT16_FREE_FORMAT \<Rightarrow> FreeFormatParser_ParseHeader record0 handling buffer
      | QC_UNDEFINED \<Rightarrow> Some (UNKNOWN_QUALIFIER, buffer, []))"

text \<open>\<open>IWhiteList::IsAllowed\<close> is virtual: a parameter, absent for a null white-list.\<close>

type_synonym white_list = "nat \<Rightarrow> GroupVariation \<Rightarrow> QualifierCode \<Rightarrow> bool"

definition APDUParser_ParseHeader :: "bool \<Rightarrow> white_list option \<Rightarrow> bool \<Rightarrow> nat \<Rightarrow> rslice \<Rightarrow> parse_outcome" where
  "APDUParser_ParseHeader expectsContents pWhiteList handling count buffer = do {
     (result, header, buffer) \<leftarrow> ParseObjectHeader ObjectHeader_default buffer;
     if result \<noteq> PR_OK then Some (result, buffer, [])
     else
       let GV = GetRecord (oh_group header) (oh_variation header)
       in if gvr_enumeration GV = GV_UNKNOWN then Some (UNKNOWN_OBJECT, buffer, [])
          else if (case pWhiteList of
                     Some IsAllowed \<Rightarrow> \<not> IsAllowed count (gvr_enumeration GV) (QualifierCodeFromType (oh_qualifier header))
                   | None \<Rightarrow> False)
          then Some (NOT_ON_WHITELIST, buffer, [])
          else ParseQualifier expectsContents (HeaderRecord_of GV (oh_qualifier header) count) handling buffer }"

end
