(* ===== verification/HeaderParsers.thy ===== *)
theory HeaderParsers
  imports ObjectParser
begin

text \<open>
  The object parser's properties, header by header: what the readers of a collection return, that
  no bytes can take a header parser outside its buffer, that the parse with a handler does what
  the parse without it announced, and what a handler sees.
\<close>

section \<open>Readers of a collection\<close>

text \<open>
  What \<open>BufferedCollection\<close> needs of its read function: given \<open>size\<close> bytes it succeeds, its result
  depends on these bytes and the position only, and it advances the buffer past them.
\<close>

locale object_reader =
  fixes readFunc :: "rslice \<Rightarrow> nat \<Rightarrow> ('a \<times> rslice) option"
    and size :: nat
    and decode :: "nat \<Rightarrow> u8 list \<Rightarrow> 'a"
  assumes read_ok: "size \<le> length b \<Longrightarrow> readFunc b pos = Some (decode pos (take size b), drop size b)"
begin

lemma Foreach_values:
  "n * size \<le> length b \<Longrightarrow>
     Foreach readFunc n pos b = Some (map (\<lambda>i. decode (pos + i) (take size (drop (i * size) b))) [0..<n])"
proof (induction n arbitrary: pos b)
  case 0
  show ?case by simp
next
  case (Suc n)
  have "Foreach readFunc n (Suc pos) (drop size b) =
      Some (map (\<lambda>i. decode (Suc pos + i) (take size (drop (i * size) (drop size b)))) [0..<n])"
    using Suc.prems by (intro Suc.IH) simp
  moreover have "size \<le> length b"
    using Suc.prems by simp
  moreover have "map (\<lambda>i. decode (pos + i) (take size (drop (i * size) b))) [0..<Suc n] =
      decode pos (take size b) # map (\<lambda>i. decode (Suc pos + i) (take size (drop (i * size) (drop size b)))) [0..<n]"
    by (simp add: upt_conv_Cons map_Suc_upt [symmetric] comp_def add.commute del: upt_Suc)
  ultimately show ?case
    by (simp add: read_ok)
qed

lemma Foreach_append:
  assumes "n * size \<le> length b"
  shows "Foreach readFunc n pos (b @ c) = Foreach readFunc n pos b"
proof -
  have eq: "take size (drop (i * size) (b @ c)) = take size (drop (i * size) b)" if "i < n" for i
  proof -
    have "(i + 1) * size \<le> n * size"
      using that by (intro mult_right_mono) simp_all
    then show ?thesis
      using assms by simp
  qed
  have "map (\<lambda>i. decode (pos + i) (take size (drop (i * size) (b @ c)))) [0..<n] =
      map (\<lambda>i. decode (pos + i) (take size (drop (i * size) b))) [0..<n]"
    by (intro map_cong refl) (simp only: set_upt atLeastLessThan_iff eq)
  moreover have "n * size \<le> length (b @ c)"
    using assms by simp
  ultimately show ?thesis
    using assms by (simp only: Foreach_values)
qed

end

definition object_value :: "GroupVariation \<Rightarrow> u8 list \<Rightarrow> ObjectValue" where
  "object_value g bs = Fields (Some (fields_value (Descriptor_fields g) bs))"

interpretation counted: object_reader "read_object g" "Descriptor_Size g" "\<lambda>pos. object_value g" for g
  by unfold_locales (simp add: read_object_def Descriptor_Read_value object_value_def)

interpretation ranged: object_reader "read_range_object g rng" "Descriptor_Size g"
    "\<lambda>pos bs. WithIndex rng pos (object_value g bs)" for g rng
  by unfold_locales (simp add: read_range_object_def Descriptor_Read_value object_value_def)

interpretation ranged_octets: object_reader "read_range_octets n rng" n "\<lambda>pos bs. WithIndex rng pos (Octets bs)" for n rng
  by unfold_locales (simp add: read_range_octets_def)

definition num_value :: "NumParser \<Rightarrow> u8 list \<Rightarrow> u16" where
  "num_value p bs = fst (the (ReadNum p bs))"

lemma ReadNum_value:
  assumes "NumBytes p \<le> length b"
  shows "ReadNum p b = Some (num_value p (take (NumBytes p) b), drop (NumBytes p) b)"
proof -
  obtain n where "ReadNum p (take (NumBytes p) b) = Some (n, [])"
    using ReadNum_ok [of p "take (NumBytes p) b"] assms by auto
  then show ?thesis
    using ReadNum_prefix [of p "take (NumBytes p) b" "drop (NumBytes p) b"] assms
    by (simp add: num_value_def)
qed

interpretation prefixed: object_reader "read_prefixed_object p g" "NumBytes p + Descriptor_Size g"
    "\<lambda>pos bs. (num_value p (take (NumBytes p) bs), object_value g (drop (NumBytes p) bs))" for p g
  by unfold_locales
    (simp add: read_prefixed_object_def ReadNum_value Descriptor_Read_value object_value_def take_drop add.commute)

interpretation prefixed_octets: object_reader "read_prefixed_octets p n" "NumBytes p + n"
    "\<lambda>pos bs. (num_value p (take (NumBytes p) bs), Octets (drop (NumBytes p) bs))" for p n
  by unfold_locales (simp add: read_prefixed_octets_def ReadNum_value take_drop add.commute)

text \<open>Bit readers address the whole bitfield by position.\<close>

lemma Foreach_positions:
  assumes "\<And>i. i < n \<Longrightarrow> readFunc b (pos + i) = Some (v (pos + i), b)"
  shows "Foreach readFunc n pos b = Some (map v [pos..<pos + n])"
  using assms
proof (induction n arbitrary: pos)
  case 0
  show ?case by simp
next
  case (Suc n)
  have "Foreach readFunc n (Suc pos) b = Some (map v [Suc pos..<Suc pos + n])"
    using Suc.prems [of "Suc i" for i] by (intro Suc.IH) simp
  moreover have "readFunc b pos = Some (v pos, b)"
    using Suc.prems [of 0] by simp
  ultimately show ?case
    by (simp add: upt_conv_Cons del: upt_Suc)
qed

lemma unat_NumBytesInBits: "unat (NumBytesInBits n) = (unat n + 7) div 8"
proof -
  have u: "unat (n div 8) = unat n div 8" "unat (n mod 8) = unat n mod 8"
    by (simp_all add: unat_div unat_mod)
  have "unat n < 2 ^ 32"
    using unsigned_less [of n] by simp
  then have "unat (n div 8 + 1) = unat n div 8 + 1"
    by (subst unat_word_ariths) (simp add: u)
  then show ?thesis
    using u by (auto simp: NumBytesInBits_def Let_def unat_eq_0 [symmetric] simp del: unat_eq_0) presburger+
qed

lemma unat_NumBytesInDoubleBits: "unat (NumBytesInDoubleBits n) = (unat n + 3) div 4"
proof -
  have u: "unat (n div 4) = unat n div 4" "unat (n mod 4) = unat n mod 4"
    by (simp_all add: unat_div unat_mod)
  have "unat n < 2 ^ 32"
    using unsigned_less [of n] by simp
  then have "unat (n div 4 + 1) = unat n div 4 + 1"
    by (subst unat_word_ariths) (simp add: u)
  then show ?thesis
    using u by (auto simp: NumBytesInDoubleBits_def Let_def unat_eq_0 [symmetric] simp del: unat_eq_0) presburger+
qed


section \<open>What a handler sees\<close>

text \<open>A complete object: every field of its encoding was read; octets have the length of the variation.\<close>

definition value_complete :: "HeaderRecord \<Rightarrow> ObjectValue \<Rightarrow> bool" where
  "value_complete record0 v =
     (case v of
        Fields None \<Rightarrow> False
      | Fields (Some fs) \<Rightarrow> length fs = length (Descriptor_fields (gvr_enumeration record0))
      | Octets bs \<Rightarrow> length bs = unat (gvr_variation record0) \<and> bs \<noteq> []
      | _ \<Rightarrow> True)"

text \<open>The header an event belongs to.\<close>

fun event_header :: "apdu_event \<Rightarrow> HeaderRecord" where
  "event_header (OnAllObjects h) = h"
| "event_header (OnCount h count) = h"
| "event_header (OnRange h rng) = h"
| "event_header (OnCountOf h count vs) = h"
| "event_header (OnRangeOf h rng vs) = h"
| "event_header (OnPrefixOf h count vs) = h"
| "event_header (OnFreeFormat h count v bs) = h"

definition event_ok :: "HeaderRecord \<Rightarrow> apdu_event \<Rightarrow> bool" where
  "event_ok record0 e =
     (event_header e = record0 \<and> (case e of
        OnAllObjects h \<Rightarrow> True
      | OnCount h count \<Rightarrow> 0 < count
      | OnRange h rng \<Rightarrow> Range_IsValid rng
      | OnCountOf h count vs \<Rightarrow> 0 < count \<and> length vs = unat count \<and> (\<forall>v \<in> set vs. value_complete h v)
      | OnRangeOf h rng vs \<Rightarrow> Range_IsValid rng \<and>
          map (unat \<circ> fst) vs = [unat (range_start rng)..<Suc (unat (range_stop rng))] \<and>
          (\<forall>v \<in> set vs. value_complete h (snd v))
      | OnPrefixOf h count vs \<Rightarrow> 0 < count \<and> length vs = unat count \<and> (\<forall>v \<in> set vs. value_complete h (snd v))
      | OnFreeFormat h count v bs \<Rightarrow> count = 1))"

text \<open>
  A parse function for one header is well behaved on a buffer: it is defined, it only advances in
  the buffer, the handler does not change its result and is called once on success and not at all
  on failure, with an event of this header that satisfies \<open>event_ok\<close>, and success does not depend on what
  follows the bytes it consumed.
\<close>

definition handled :: "HeaderRecord \<Rightarrow> (bool \<Rightarrow> rslice \<Rightarrow> parse_outcome) \<Rightarrow> rslice \<Rightarrow> bool" where
  "handled record0 f b \<longleftrightarrow> (\<exists>r n evs. n \<le> length b \<and>
     (\<forall>h. f h b = Some (r, drop n b, if h then evs else [])) \<and>
     (r \<noteq> PR_OK \<longrightarrow> evs = []) \<and>
     (r = PR_OK \<longrightarrow> (\<exists>e. evs = [e] \<and> event_ok record0 e) \<and>
        (\<forall>c h. f h (take n b @ c) = Some (PR_OK, c, if h then evs else []))))"

lemma handled_error: "n \<le> length b \<Longrightarrow> r \<noteq> PR_OK \<Longrightarrow> (\<And>h. f h b = Some (r, drop n b, [])) \<Longrightarrow> handled record0 f b"
  unfolding handled_def by (intro exI [of _ r] exI [of _ n] exI [of _ "[]"]) simp

lemma handled_ok:
  assumes "n \<le> length b" and "event_ok record0 e"
    and "\<And>c h. f h (take n b @ c) = Some (PR_OK, c, if h then [e] else [])"
  shows "handled record0 f b"
proof -
  have "f h b = Some (PR_OK, drop n b, if h then [e] else [])" for h
    using assms(3) [of h "drop n b"] by simp
  then show ?thesis
    unfolding handled_def using assms
    by (intro exI [of _ PR_OK] exI [of _ n] exI [of _ "[e]"]) simp
qed

lemma handled_cong: "handled record0 g b \<Longrightarrow> (\<And>h b. f h b = g h b) \<Longrightarrow> handled record0 f b"
  by (simp add: handled_def)

text \<open>A prefix of the buffer has been consumed before the rest is parsed.\<close>

lemma handled_after:
  assumes "handled record0 g (drop k b)" and "k \<le> length b" and "\<And>c h. f h (take k b @ c) = g h c"
  shows "handled record0 f b"
proof -
  obtain r n evs where g: "n \<le> length (drop k b)" "\<And>h. g h (drop k b) = Some (r, drop n (drop k b), if h then evs else [])"
      "r \<noteq> PR_OK \<longrightarrow> evs = []" "r = PR_OK \<longrightarrow> (\<exists>e. evs = [e] \<and> event_ok record0 e) \<and>
        (\<forall>c h. g h (take n (drop k b) @ c) = Some (PR_OK, c, if h then evs else []))"
    using assms(1) unfolding handled_def by blast
  have "f h b = g h (drop k b)" for h
    using assms(3) [of h "drop k b"] by simp
  moreover have "f h (take (k + n) b @ c) = g h (take n (drop k b) @ c)" for h c
    using assms(3) [of h "take n (drop k b) @ c"] by (simp add: take_add)
  ultimately show ?thesis
    unfolding handled_def using g assms(2)
    by (intro exI [of _ r] exI [of _ "k + n"] exI [of _ evs]) (auto simp: add.commute)
qed

lemma handled_Process:
  assumes "\<And>b. length b = unat required \<Longrightarrow> \<exists>e. event_ok record0 e \<and> (\<forall>c. handler (b @ c) = Some e)"
  shows "handled record0 (Process required handler) b"
proof (cases "length b < unat required")
  case True
  then show ?thesis
    by (intro handled_error [of 0 b NOT_ENOUGH_DATA_FOR_OBJECTS]) (simp_all add: Process_def)
next
  case False
  then obtain e where "event_ok record0 e" "\<And>c. handler (take (unat required) b @ c) = Some e"
    using assms [of "take (unat required) b"] by auto
  with False show ?thesis
    by (intro handled_ok [of "unat required" b _ e]) (simp_all add: Process_def)
qed


section \<open>The header parsers are well behaved\<close>

lemma length_fields_value: "fields_size fs \<le> length bs \<Longrightarrow> length (fields_value fs bs) = length fs"
proof -
  assume "fields_size fs \<le> length bs"
  then obtain vs where "length vs = length fs" "Parse_Many fs (bs @ []) = Some (Some vs, drop (fields_size fs) bs @ [])"
    using Parse_Many_uniform [of fs bs] by blast
  then show ?thesis
    by (simp add: fields_value_def)
qed

lemma object_value_complete:
  "length bs = Descriptor_Size g \<Longrightarrow> gvr_enumeration h = g \<Longrightarrow> value_complete h (object_value g bs)"
  by (simp add: value_complete_def object_value_def length_fields_value Descriptor_Size_fields)

lemma chunk_length: "i < n \<Longrightarrow> n * k \<le> length b \<Longrightarrow> length (take k (drop (i * k) b)) = k"
proof -
  assume "i < n" "n * k \<le> length b"
  moreover from this have "(i + 1) * k \<le> n * k"
    by (intro mult_right_mono) simp_all
  ultimately show ?thesis by simp
qed

lemma chunks_satisfy:
  assumes "n * k \<le> length b" and "\<And>i bs. length bs = k \<Longrightarrow> P (f i bs)"
  shows "\<forall>v \<in> set (map (\<lambda>i. f i (take k (drop (i * k) b))) [0..<n]). P v"
  using assms(2) chunk_length [OF _ assms(1)] by (auto simp del: length_take length_drop)

lemma map_plus_upt: "map (\<lambda>i. m + i) [0..<k] = [m..<m + k]"
  by (induction k) simp_all

lemma WithIndex_indices:
  assumes "Range_IsValid rng"
  shows "map (unat \<circ> fst) (map (\<lambda>i. WithIndex rng i (v i)) [0..<unat (Range_Count rng)]) =
    [unat (range_start rng)..<Suc (unat (range_stop rng))]"
proof -
  have le: "unat (range_start rng) \<le> unat (range_stop rng)"
    using assms by (simp add: Range_IsValid_def word_le_nat_alt)
  have "unat (of_nat (unat (range_start rng) + i) :: u16) = unat (range_start rng) + i"
      if "i < unat (Range_Count rng)" for i
  proof (rule unat_of_nat_u16)
    have "i \<le> unat (range_stop rng) - unat (range_start rng)"
      using that assms by (simp add: Range_Count_unat)
    then show "unat (range_start rng) + i < 65536"
      using le unat_u16_less [of "range_stop rng"] by linarith
  qed
  then have "map (unat \<circ> fst) (map (\<lambda>i. WithIndex rng i (v i)) [0..<unat (Range_Count rng)]) =
      map (\<lambda>i. unat (range_start rng) + i) [0..<unat (Range_Count rng)]"
    by (simp add: WithIndex_def)
  also have "\<dots> = [unat (range_start rng)..<unat (range_start rng) + unat (Range_Count rng)]"
    by (rule map_plus_upt)
  finally show ?thesis
    using assms le by (simp add: Range_Count_unat)
qed

lemma unat_required:
  assumes "unat (n :: u32) \<le> 65536" and "k \<le> 65535"
  shows "unat (n * of_nat k) = unat n * k"
proof -
  have "unat n * k \<le> 65536 * 65535"
    using assms by (intro mult_mono) simp_all
  then have "unat (of_nat (unat n * k) :: u32) = unat n * k"
    by (intro unat_of_nat_u32) simp
  then show ?thesis by simp
qed

lemma handled_count_objects:
  assumes "0 < count"
  shows "handled h (ParseCountOfObjects h count) b"
proof (cases "gvr_enumeration h \<in> set count_objects")
  case False
  then show ?thesis
    by (intro handled_error [of 0 b INVALID_OBJECT_QUALIFIER]) (simp_all add: ParseCountOfObjects_def)
next
  case True
  define g where "g = gvr_enumeration h"
  have size: "unat (ucast count * of_nat (Descriptor_Size g) :: u32) = unat count * Descriptor_Size g"
    using unat_required [of "ucast count" "Descriptor_Size g"] Descriptor_Size_bound [of g] unat_u16_less [of count]
    by (simp add: unat_ucast_u16)
  have "handled h (Process (ucast count * of_nat (Descriptor_Size g)) (InvokeCountOf h g count)) b"
  proof (rule handled_Process)
    fix b :: rslice
    assume len: "length b = unat (ucast count * of_nat (Descriptor_Size g) :: u32)"
    then have le: "unat (ucast count * of_nat (Descriptor_Size g) :: u32) \<le> length b" by simp
    then have b: "unat count * Descriptor_Size g \<le> length b"
      by (simp add: size)
    define vs where "vs = map (\<lambda>i. object_value g (take (Descriptor_Size g) (drop (i * Descriptor_Size g) b))) [0..<unat count]"
    have "Foreach (read_object g) (unat count) 0 b = Some vs"
      using counted.Foreach_values [OF b] by (simp add: vs_def)
    then have "InvokeCountOf h g count (b @ c) = Some (OnCountOf h count vs)" for c
      using counted.Foreach_append [OF b] by (simp add: InvokeCountOf_def)
    moreover have "event_ok h (OnCountOf h count vs)"
    proof -
      have "\<forall>v \<in> set vs. value_complete h v"
        unfolding vs_def by (rule chunks_satisfy [OF b]) (simp add: object_value_complete g_def)
      moreover have "length vs = unat count"
        by (simp add: vs_def)
      ultimately show ?thesis
        using assms by (simp add: event_ok_def)
    qed
    ultimately show "\<exists>e. event_ok h e \<and> (\<forall>c. InvokeCountOf h g count (b @ c) = Some e)"
      by blast
  qed
  then show ?thesis
    using True by (simp add: ParseCountOfObjects_def [abs_def] Let_def g_def)
qed

lemma ReadNum_take:
  assumes "NumBytes p \<le> length b"
  shows "ReadNum p (take (NumBytes p) b @ c) = Some (num_value p (take (NumBytes p) b), c)"
  using ReadNum_value [of p "take (NumBytes p) b @ c"] assms by simp

lemma ParseCount_cases:
  obtains "length b < NumBytes p" and "\<And>c0. ParseCount p c0 b = Some (NOT_ENOUGH_DATA_FOR_RANGE, c0, b)"
  | "NumBytes p \<le> length b"
    and "\<And>c0. ParseCount p c0 b = Some (COUNT_OF_ZERO, 0, drop (NumBytes p) b)"
  | count where "NumBytes p \<le> length b" and "0 < count"
    and "\<And>c0 c. ParseCount p c0 (take (NumBytes p) b @ c) = Some (PR_OK, count, c)"
proof (cases "length b < NumBytes p")
  case True
  then show ?thesis
    using that(1) by (simp add: ParseCount_def NumParser_Read_def)
next
  case False
  define n where "n = num_value p (take (NumBytes p) b)"
  have eq: "ParseCount p c0 (take (NumBytes p) b @ c) = Some (if n = 0 then COUNT_OF_ZERO else PR_OK, n, c)" for c0 c
    using False by (simp add: ParseCount_def NumParser_Read_def ReadNum_take n_def)
  show ?thesis
    using that(2,3) eq eq [of _ "drop (NumBytes p) b"] False by (cases "n = 0") (auto simp: word_gt_0)
qed

lemma handled_CountParser: "handled h (CountParser_ParseHeader p expects h) b"
proof (cases rule: ParseCount_cases [of b p])
  case 1
  then show ?thesis
    by (intro handled_error [of 0 b NOT_ENOUGH_DATA_FOR_RANGE]) (simp_all add: CountParser_ParseHeader_def)
next
  case 2
  then show ?thesis
    using 2(2) [of 0]
    by (intro handled_error [of "NumBytes p" b COUNT_OF_ZERO]) (simp_all add: CountParser_ParseHeader_def)
next
  case (3 count)
  show ?thesis
  proof (cases expects)
    case True
    show ?thesis
      by (rule handled_after [OF handled_count_objects [OF 3(2)] 3(1)]) (simp add: CountParser_ParseHeader_def True 3(3))
  next
    case False
    with 3 show ?thesis
      by (intro handled_ok [of "NumBytes p" b _ "OnCount h count"])
        (simp_all add: CountParser_ParseHeader_def event_ok_def)
  qed
qed


lemma ranged_event:
  assumes "Foreach read (unat (Range_Count rng)) 0 b = Some (map (\<lambda>i. WithIndex rng i (v i)) [0..<unat (Range_Count rng)])"
    and "Range_IsValid rng" and "\<And>i. i < unat (Range_Count rng) \<Longrightarrow> value_complete h (v i)"
    and "\<And>c. Foreach read (unat (Range_Count rng)) 0 (b @ c) = Foreach read (unat (Range_Count rng)) 0 b"
  shows "\<exists>e. event_ok h e \<and> (\<forall>c. map_option (OnRangeOf h rng) (Foreach read (unat (Range_Count rng)) 0 (b @ c)) = Some e)"
proof -
  define vs where "vs = map (\<lambda>i. WithIndex rng i (v i)) [0..<unat (Range_Count rng)]"
  have "map (unat \<circ> fst) vs = [unat (range_start rng)..<Suc (unat (range_stop rng))]"
    unfolding vs_def by (rule WithIndex_indices [OF assms(2)])
  moreover have "\<forall>x \<in> set vs. value_complete h (snd x)"
    using assms(3) by (auto simp: vs_def WithIndex_def)
  ultimately have "event_ok h (OnRangeOf h rng vs)"
    using assms(2) by (simp add: event_ok_def del: upt_Suc)
  then show ?thesis
    using assms(1,4) by (intro exI [of _ "OnRangeOf h rng vs"]) (simp add: vs_def)
qed

lemma handled_range_fixed:
  assumes "Range_IsValid rng" and "gvr_enumeration h = g"
  shows "handled h (Process (Range_Count rng * of_nat (Descriptor_Size g)) (InvokeRangeOf h g rng)) b"
proof (rule handled_Process)
  fix b :: rslice
  assume len: "length b = unat (Range_Count rng * of_nat (Descriptor_Size g))"
  then have "unat (Range_Count rng * of_nat (Descriptor_Size g)) \<le> length b" by simp
  then have b: "unat (Range_Count rng) * Descriptor_Size g \<le> length b"
    using unat_required [OF Range_Count_bound, of "Descriptor_Size g" rng] Descriptor_Size_bound [of g] by simp
  have "\<exists>e. event_ok h e \<and> (\<forall>c. map_option (OnRangeOf h rng)
      (Foreach (read_range_object g rng) (unat (Range_Count rng)) 0 (b @ c)) = Some e)"
    using ranged.Foreach_values [OF b, of rng 0] assms
    by (intro ranged_event [where v = "\<lambda>i. object_value g (take (Descriptor_Size g) (drop (i * Descriptor_Size g) b))",
          OF _ assms(1) _ ranged.Foreach_append [OF b]])
      (simp_all add: object_value_complete chunk_length [OF _ b] del: length_take length_drop)
  then show "\<exists>e. event_ok h e \<and> (\<forall>c. InvokeRangeOf h g rng (b @ c) = Some e)"
    by (simp add: InvokeRangeOf_def)
qed

lemma bits_event:
  assumes "Range_IsValid rng" and "\<And>i c. i < unat (Range_Count rng) \<Longrightarrow> get (b @ c) i = Some (v i)"
    and "\<And>buffer pos. read buffer pos = map_option (\<lambda>x. (WithIndex rng pos (con x), buffer)) (get buffer pos)"
    and "\<And>x. value_complete h (con x)"
  shows "\<exists>e. event_ok h e \<and> (\<forall>c. map_option (OnRangeOf h rng) (Foreach read (unat (Range_Count rng)) 0 (b @ c)) = Some e)"
proof -
  have eq: "Foreach read (unat (Range_Count rng)) 0 (b @ c) =
      Some (map (\<lambda>i. WithIndex rng i (con (v i))) [0..<unat (Range_Count rng)])" for c
    using Foreach_positions [of "unat (Range_Count rng)" read "b @ c" 0 "\<lambda>i. WithIndex rng i (con (v i))"] assms(2,3)
    by simp
  show ?thesis
    using eq eq [of "[]"] assms(1,4) by (intro ranged_event [of read rng b "\<lambda>i. con (v i)"]) simp_all
qed

lemma bind_Some_map: "Option.bind m (\<lambda>x. Some (f x)) = map_option f m"
  by (cases m) simp_all

lemma handled_range_bits:
  assumes "Range_IsValid rng"
  shows "handled h (Process (NumBytesInBits (Range_Count rng)) (InvokeRangeBitfieldType h rng)) b"
proof (rule handled_Process)
  fix b :: rslice
  assume len: "length b = unat (NumBytesInBits (Range_Count rng))"
  then have "unat (NumBytesInBits (Range_Count rng)) \<le> length b" by simp
  then have len: "i div 8 < length b" if "i < unat (Range_Count rng)" for i
    using that by (simp add: unat_NumBytesInBits)
  have "GetBit (b @ c) i = Some (b ! (i div 8) AND push_bit (i mod 8) 1 \<noteq> 0)" if "i < unat (Range_Count rng)" for i c
  proof -
    have "i div 8 < length b" by (rule len [OF that])
    then show ?thesis by (simp add: GetBit_def nth_append Let_def)
  qed
  then have "\<exists>e. event_ok h e \<and> (\<forall>c. map_option (OnRangeOf h rng)
      (Foreach (read_range_bit rng) (unat (Range_Count rng)) 0 (b @ c)) = Some e)"
    by (intro bits_event [where get = GetBit and con = SingleBit, OF assms])
      (simp_all add: read_range_bit_def value_complete_def bind_Some_map)
  then show "\<exists>e. event_ok h e \<and> (\<forall>c. InvokeRangeBitfieldType h rng (b @ c) = Some e)"
    by (simp add: InvokeRangeBitfieldType_def)
qed

lemma handled_range_double_bits:
  assumes "Range_IsValid rng"
  shows "handled h (Process (NumBytesInDoubleBits (Range_Count rng)) (InvokeRangeDoubleBitfieldType h rng)) b"
proof (rule handled_Process)
  fix b :: rslice
  assume len: "length b = unat (NumBytesInDoubleBits (Range_Count rng))"
  then have "unat (NumBytesInDoubleBits (Range_Count rng)) \<le> length b" by simp
  then have len: "i div 4 < length b" if "i < unat (Range_Count rng)" for i
    using that by (simp add: unat_NumBytesInDoubleBits)
  have "GetDoubleBit (b @ c) i =
      Some (DoubleBitFromType (drop_bit (2 * (i mod 4)) (b ! (i div 4)) AND 0x03))" if "i < unat (Range_Count rng)" for i c
  proof -
    have "i div 4 < length b" by (rule len [OF that])
    then show ?thesis by (simp add: GetDoubleBit_def nth_append Let_def)
  qed
  then have "\<exists>e. event_ok h e \<and> (\<forall>c. map_option (OnRangeOf h rng)
      (Foreach (read_range_double_bit rng) (unat (Range_Count rng)) 0 (b @ c)) = Some e)"
    by (intro bits_event [where get = GetDoubleBit and con = TwoBits, OF assms])
      (simp_all add: read_range_double_bit_def value_complete_def bind_Some_map)
  then show "\<exists>e. event_ok h e \<and> (\<forall>c. InvokeRangeDoubleBitfieldType h rng (b @ c) = Some e)"
    by (simp add: InvokeRangeDoubleBitfieldType_def)
qed

text \<open>The octet string parsers have the shape of \<open>Process\<close>.\<close>

lemma handled_range_octets:
  assumes "Range_IsValid rng"
  shows "handled h (ParseRangeOfOctetData h rng) b"
proof (cases "gvr_variation h > 0")
  case False
  then show ?thesis
    by (intro handled_error [of 0 b INVALID_OBJECT]) (simp_all add: ParseRangeOfOctetData_def)
next
  case True
  define n where "n = unat (gvr_variation h)"
  define required where "required = Range_Count rng * of_nat n"
  define invoke where "invoke b = map_option (OnRangeOf h rng) (Foreach (read_range_octets n rng) (unat (Range_Count rng)) 0 b)" for b
  have n: "0 < n" "n \<le> 65535"
    using True unat_u8_less [of "gvr_variation h"] unfolding n_def
    by (simp_all add: word_gt_0 unat_gt_0 del: unat_u8_less)
  have required: "ucast (gvr_variation h) * Range_Count rng = required"
    by (simp add: required_def n_def mult.commute)
  have "ParseRangeOfOctetData h rng hd b = Process required invoke hd b" for hd b
    using True by (simp add: ParseRangeOfOctetData_def Process_def required invoke_def Let_def option.map_comp comp_def
        flip: n_def)
  moreover have "handled h (Process required invoke) b"
  proof (rule handled_Process)
    fix b :: rslice
    assume len: "length b = unat required"
    then have "unat required \<le> length b" by simp
    then have b: "unat (Range_Count rng) * n \<le> length b"
      using unat_required [OF Range_Count_bound n(2), of rng] by (simp add: required_def)
    have "value_complete h (Octets bs)" if "length bs = n" for bs
      using that n(1) by (auto simp: value_complete_def n_def)
    then show "\<exists>e. event_ok h e \<and> (\<forall>c. invoke (b @ c) = Some e)"
      unfolding invoke_def using ranged_octets.Foreach_values [OF b, of rng 0] assms
      by (intro ranged_event [where v = "\<lambda>i. Octets (take n (drop (i * n) b))",
            OF _ assms _ ranged_octets.Foreach_append [OF b]])
        (simp_all add: chunk_length [OF _ b] del: length_take length_drop)
  qed
  ultimately show ?thesis
    by (simp add: handled_def)
qed

lemma handled_range_objects:
  assumes "Range_IsValid rng"
  shows "handled h (ParseRangeOfObjects h rng) b"
proof (cases "map_of range_objects (gvr_enumeration h)")
  case None
  then show ?thesis
    by (intro handled_error [of 0 b INVALID_OBJECT_QUALIFIER]) (simp_all add: ParseRangeOfObjects_def)
next
  case (Some k)
  note some = Some
  show ?thesis
  proof (cases k)
    case BitfieldType
    show ?thesis
      by (rule handled_cong [OF handled_range_bits [OF assms, of h b]]) (simp add: ParseRangeOfObjects_def some BitfieldType)
  next
    case DoubleBitfieldType
    show ?thesis
      by (rule handled_cong [OF handled_range_double_bits [OF assms, of h b]])
        (simp add: ParseRangeOfObjects_def some DoubleBitfieldType)
  next
    case FixedSize
    show ?thesis
      by (rule handled_cong [OF handled_range_fixed [OF assms refl, of h b]]) (simp add: ParseRangeOfObjects_def Let_def some FixedSize)
  next
    case OctetData
    show ?thesis
      by (rule handled_cong [OF handled_range_octets [OF assms, of h b]]) (simp add: ParseRangeOfObjects_def some OctetData)
  qed
qed

lemma ParseRange_cases:
  obtains "\<And>r0. ParseRange p r0 b = Some (NOT_ENOUGH_DATA_FOR_RANGE, r0, b)"
  | rng where "2 * NumBytes p \<le> length b" and "\<not> Range_IsValid rng"
    and "\<And>r0. ParseRange p r0 b = Some (BAD_START_STOP, rng, drop (2 * NumBytes p) b)"
  | rng where "2 * NumBytes p \<le> length b" and "Range_IsValid rng"
    and "\<And>r0 c. ParseRange p r0 (take (2 * NumBytes p) b @ c) = Some (PR_OK, rng, c)"
proof (cases "length b < 2 * NumBytes p")
  case True
  then show ?thesis
    using that(1) by (simp add: ParseRange_def)
next
  case False
  define k where "k = NumBytes p"
  have len: "k \<le> length b" "k \<le> length (drop k b)"
    using False by (simp_all add: k_def)
  define rng where "rng = \<lparr>range_start = num_value p (take k b), range_stop = num_value p (take k (drop k b))\<rparr>"
  have eq: "ParseRange p r0 (take (2 * k) b @ c) = Some (if Range_IsValid rng then PR_OK else BAD_START_STOP, rng, c)" for r0 c
    using False len ReadNum_take [OF len(1) [unfolded k_def], of "take k (drop k b) @ c"]
      ReadNum_take [OF len(2) [unfolded k_def], of c]
    by (simp add: ParseRange_def Let_def mult_2 take_add rng_def flip: k_def)
  show ?thesis
  proof (cases "Range_IsValid rng")
    case True
    then show ?thesis
      using that(3) [of rng] eq False by (simp add: k_def)
  next
    case bad: False
    then show ?thesis
      using that(2) [of rng] eq [of _ "drop (2 * k) b"] False by (simp add: k_def)
  qed
qed

lemma handled_RangeParser: "handled h (RangeParser_ParseHeader p expects h) b"
proof (cases rule: ParseRange_cases [of p b])
  case 1
  then show ?thesis
    by (intro handled_error [of 0 b NOT_ENOUGH_DATA_FOR_RANGE]) (simp_all add: RangeParser_ParseHeader_def)
next
  case (2 rng)
  then show ?thesis
    by (intro handled_error [of "2 * NumBytes p" b BAD_START_STOP]) (simp_all add: RangeParser_ParseHeader_def)
next
  case (3 rng)
  show ?thesis
  proof (cases expects)
    case True
    show ?thesis
      by (rule handled_after [OF handled_range_objects [OF 3(2)] 3(1)]) (simp add: RangeParser_ParseHeader_def True 3(3))
  next
    case False
    with 3 show ?thesis
      by (intro handled_ok [of "2 * NumBytes p" b _ "OnRange h rng"])
        (simp_all add: RangeParser_ParseHeader_def event_ok_def)
  qed
qed


text \<open>Objects with an index prefix.\<close>

lemma prefix_event:
  assumes "0 < count" and "Foreach read (unat count) 0 b = Some vs" and "length vs = unat count"
    and "\<forall>v \<in> set vs. value_complete h (snd v)"
    and "\<And>c. Foreach read (unat count) 0 (b @ c) = Foreach read (unat count) 0 b"
  shows "\<exists>e. event_ok h e \<and> (\<forall>c. map_option (OnPrefixOf h count) (Foreach read (unat count) 0 (b @ c)) = Some e)"
  using assms by (intro exI [of _ "OnPrefixOf h count vs"]) (simp add: event_ok_def)

lemma NumBytes_bound: "NumBytes p \<le> 2"
  by (cases p) (simp_all add: NumBytes_def)

lemma ucast_ucast_count: "ucast (ucast (c :: u16) :: u32) = c"
  by transfer (simp add: take_bit_take_bit)

lemma handled_prefix_objects:
  assumes "0 < count" and "gvr_enumeration h = g"
  shows "handled h (Process (ucast count * (of_nat (Descriptor_Size g) + of_nat (NumBytes p))) (InvokePrefixOf h g count p)) b"
proof (rule handled_Process)
  fix b :: rslice
  assume len: "length b = unat (ucast count * (of_nat (Descriptor_Size g) + of_nat (NumBytes p)) :: u32)"
  then have le: "unat (ucast count * (of_nat (Descriptor_Size g) + of_nat (NumBytes p)) :: u32) \<le> length b" by simp
  have "ucast count * (of_nat (Descriptor_Size g) + of_nat (NumBytes p)) =
      (ucast count * of_nat (NumBytes p + Descriptor_Size g) :: u32)"
    by (simp add: add.commute)
  moreover have "NumBytes p + Descriptor_Size g \<le> 65535"
    using NumBytes_bound [of p] Descriptor_Size_bound [of g] by linarith
  ultimately have b: "unat count * (NumBytes p + Descriptor_Size g) \<le> length b"
    using le unat_required [of "ucast count" "NumBytes p + Descriptor_Size g"] unat_u16_less [of count]
    by (simp add: unat_ucast_u16 del: of_nat_add)
  show "\<exists>e. event_ok h e \<and> (\<forall>c. InvokePrefixOf h g count p (b @ c) = Some e)"
    unfolding InvokePrefixOf_def
  proof (rule prefix_event [OF assms(1) prefixed.Foreach_values [OF b]])
    show "\<forall>v \<in> set (map (\<lambda>i. (\<lambda>bs. (num_value p (take (NumBytes p) bs), object_value g (drop (NumBytes p) bs)))
         (take (NumBytes p + Descriptor_Size g) (drop (i * (NumBytes p + Descriptor_Size g)) b))) [0..<unat count]).
         value_complete h (snd v)"
      by (rule chunks_satisfy [OF b]) (simp add: object_value_complete assms(2))
  qed (simp_all add: prefixed.Foreach_append [OF b])
qed

lemma handled_prefix_octets:
  assumes "0 < count"
  shows "handled h (ParseIndexPrefixedOctetData h p (ucast (count :: u16))) b"
proof (cases "gvr_variation h = 0")
  case True
  then show ?thesis
    by (intro handled_error [of 0 b INVALID_OBJECT]) (simp_all add: ParseIndexPrefixedOctetData_def)
next
  case False
  define n where "n = unat (gvr_variation h)"
  define required where "required = (ucast count * of_nat (NumBytes p + n) :: u32)"
  define invoke where "invoke b = map_option (OnPrefixOf h count) (Foreach (read_prefixed_octets p n) (unat count) 0 b)" for b
  have n: "0 < n" "NumBytes p + n \<le> 65535"
    using False unat_u8_less [of "gvr_variation h"] NumBytes_bound [of p] unfolding n_def
    by (simp_all add: unat_gt_0 del: unat_u8_less)
  have req: "ucast count * (of_nat (NumBytes p) + ucast (gvr_variation h)) = required"
    by (simp add: required_def n_def)
  have shape: "ParseIndexPrefixedOctetData h p (ucast count) hd b = Process required invoke hd b" for hd b
    using False by (simp add: ParseIndexPrefixedOctetData_def Process_def req invoke_def Let_def option.map_comp comp_def
        unat_ucast_u16 ucast_ucast_count flip: n_def)
  have "handled h (Process required invoke) b"
  proof (rule handled_Process)
    fix b :: rslice
    assume len: "length b = unat required"
    then have "unat required \<le> length b" by simp
    then have b: "unat count * (NumBytes p + n) \<le> length b"
      using unat_required [of "ucast count" "NumBytes p + n"] n(2) unat_u16_less [of count]
      by (simp add: required_def unat_ucast_u16 del: of_nat_add)
    show "\<exists>e. event_ok h e \<and> (\<forall>c. invoke (b @ c) = Some e)"
      unfolding invoke_def
    proof (rule prefix_event [OF assms prefixed_octets.Foreach_values [OF b]])
      have "value_complete h (Octets bs)" if "length bs = n" for bs
        using that n(1) by (auto simp: value_complete_def n_def)
      then show "\<forall>v \<in> set (map (\<lambda>i. (\<lambda>bs. (num_value p (take (NumBytes p) bs), Octets (drop (NumBytes p) bs)))
           (take (NumBytes p + n) (drop (i * (NumBytes p + n)) b))) [0..<unat count]). value_complete h (snd v)"
        by (intro chunks_satisfy [OF b]) simp
    qed (simp_all add: prefixed_octets.Foreach_append [OF b])
  qed
  then show ?thesis
    by (rule handled_cong) (rule shape)
qed

lemma handled_CountIndexParser: "handled h (CountIndexParser_ParseHeader p h) b"
proof (cases rule: ParseCount_cases [of b p])
  case 1
  then show ?thesis
    by (intro handled_error [of 0 b NOT_ENOUGH_DATA_FOR_RANGE]) (simp_all add: CountIndexParser_ParseHeader_def)
next
  case 2
  then show ?thesis
    using 2(2) [of 0]
    by (intro handled_error [of "NumBytes p" b COUNT_OF_ZERO]) (simp_all add: CountIndexParser_ParseHeader_def)
next
  case (3 count)
  have "handled h (CountIndex_ParseCountOfObjects h p count) (drop (NumBytes p) b)"
  proof (cases "gvr_enumeration h \<in> set count_index_objects")
    case True
    then show ?thesis
      by (intro handled_cong [OF handled_prefix_objects [OF 3(2) refl, of h p]])
        (simp add: CountIndex_ParseCountOfObjects_def Let_def)
  next
    case no: False
    show ?thesis
    proof (cases "gvr_enumeration h = gv 111 0")
      case True
      with no show ?thesis
        by (intro handled_cong [OF handled_prefix_octets [OF 3(2), of h p]])
          (simp add: CountIndex_ParseCountOfObjects_def Let_def)
    next
      case False
      with no show ?thesis
        by (intro handled_error [of 0 _ INVALID_OBJECT_QUALIFIER])
          (simp_all add: CountIndex_ParseCountOfObjects_def Let_def)
    qed
  qed
  then show ?thesis
    by (rule handled_after) (use 3 in \<open>simp_all add: CountIndexParser_ParseHeader_def\<close>)
qed

end
