(* ===== verification/ApduParser.thy ===== *)
theory ApduParser
  imports HeaderParsers AppHeader
begin

text \<open>
  The fragment parser (\<open>app/parsing/APDUParser\<close>) and the bookkeeping of its handlers
  (\<open>app/parsing/IAPDUHandler\<close>). The parser walks over the fragment twice, without and then with
  the handler; the theorems show that it returns for every fragment, that a handler is called for
  all headers of a fragment or for none, and which fragments are accepted.
\<close>

section \<open>One header\<close>

lemma GetGroupVar_low: "ucast (GetGroupVar grp variation) = variation"
  unfolding GetGroupVar_def by (rule bit_word_eqI) (auto simp: bit_simps)

lemma GetRecord_cases:
  "gvr_enumeration (GetRecord grp variation) \<in> {GetGroupVar grp variation, GV_UNKNOWN, gv 110 0, gv 111 0, gv 112 0, gv 113 0}"
  by (simp add: GetRecord_def GetEnumAndType_def GroupVariationFromType_def Let_def split del: if_split)
    (simp split: if_split)

lemma free_format_layout:
  assumes "gvr_enumeration (GetRecord grp variation) \<in> set free_format_objects"
  shows "\<exists>l. map_of Group120_layouts (unat variation) = Some l"
proof -
  have free: "unat (ucast g :: u8) \<in> fst ` set Group120_layouts \<and>
      g \<notin> {GV_UNKNOWN, gv 110 0, gv 111 0, gv 112 0, gv 113 0}" if "g \<in> set free_format_objects" for g
    using that by (auto simp: free_format_objects_def Group120_layouts_def gv_def GV_UNKNOWN_def)
  have "unat (ucast (GetGroupVar grp variation) :: u8) \<in> fst ` set Group120_layouts"
    using free [OF assms] GetRecord_cases [of grp variation] by auto
  then show ?thesis
    by (simp add: GetGroupVar_low map_of_eq_None_iff [symmetric] del: map_of_eq_None_iff) 
       (metis domIff dom_map_of_conv_image_fst not_None_eq)
qed

lemma handled_FreeFormatParser:
  assumes "gvr_enumeration h = gvr_enumeration (GetRecord grp (gvr_variation h))"
  shows "handled h (FreeFormatParser_ParseHeader h) b"
proof (cases "length b < 3")
  case True
  then show ?thesis
    by (intro handled_error [of 0 b NOT_ENOUGH_DATA_FOR_HEADER]) (simp_all add: FreeFormatParser_ParseHeader_def)
next
  case False
  then obtain x y z t where b: "b = x # y # z # t"
    by (cases b; cases "tl b"; cases "tl (tl b)") simp_all
  define n where "n = fst (the (UInt16_ReadBuffer [y, z]))"
  have reads: "UInt8_ReadBuffer (w # r) = Some (w, r)" "UInt16_ReadBuffer (y # z # r) = Some (n, r)" for w r
    by (simp_all add: n_def UInt8_ReadBuffer_def UInt16_ReadBuffer_def)
  have three: "drop 3 b = t" "drop (3 + k) b = drop k t" "take (3 + k) b = x # y # z # take k t" for k
    by (simp_all add: b numeral_3_eq_3)
  consider (count) "x \<noteq> 1" | (short) "x = 1" "length t < unat n" | (object) "x = 1" "unat n \<le> length t"
    by fastforce
  then show ?thesis
  proof cases
    case count
    then show ?thesis
      by (intro handled_error [of 3 b UNREASONABLE_OBJECT_COUNT])
        (simp_all add: FreeFormatParser_ParseHeader_def b reads)
  next
    case short
    then show ?thesis
      by (intro handled_error [of 3 b NOT_ENOUGH_DATA_FOR_OBJECTS])
        (simp_all add: FreeFormatParser_ParseHeader_def b reads)
  next
    case object
    show ?thesis
    proof (cases "gvr_enumeration h \<in> set free_format_objects")
      case False
      with object show ?thesis
        by (intro handled_error [of "3 + unat n" b INVALID_OBJECT_QUALIFIER])
          (simp_all add: FreeFormatParser_ParseHeader_def three(2), simp_all add: b reads)
    next
      case True
      then obtain l where l: "map_of Group120_layouts (unat (gvr_variation h)) = Some l"
        using free_format_layout assms by metis
      obtain v where v: "Variable_Read l (take (unat n) t) = Some v"
        using Variable_Read_total by blast
      show ?thesis
      proof (cases v)
        case None
        with object True l v show ?thesis
          by (intro handled_error [of "3 + unat n" b NOT_ENOUGH_DATA_FOR_OBJECTS])
            (simp_all add: FreeFormatParser_ParseHeader_def three(2), simp_all add: b reads ParseFreeFormat_def)
      next
        case (Some w)
        with object True l v show ?thesis
          by (intro handled_ok [of "3 + unat n" b _ "OnFreeFormat h 1 w (take (unat n) t)"])
            (simp_all add: FreeFormatParser_ParseHeader_def ParseFreeFormat_def three(3) reads event_ok_def, simp add: b)
      qed
    qed
  qed
qed

lemma handled_ParseQualifier:
  assumes "gvr_enumeration h = gvr_enumeration (GetRecord grp (gvr_variation h))"
  shows "handled h (ParseQualifier ec h) b"
proof (cases "GetQualifierCode h")
  case QC_ALL_OBJECTS
  then show ?thesis
    by (intro handled_ok [of 0 b _ "OnAllObjects h"])
      (simp_all add: ParseQualifier_def HandleAllObjectsHeader_def event_ok_def)
next
  case QC_UNDEFINED
  then show ?thesis
    by (intro handled_error [of 0 b UNKNOWN_QUALIFIER]) (simp_all add: ParseQualifier_def)
next
  case QC_UINT8_CNT
  then show ?thesis
    by (intro handled_cong [OF handled_CountParser [of h OneByte ec b]]) (simp add: ParseQualifier_def)
next
  case QC_UINT16_CNT
  then show ?thesis
    by (intro handled_cong [OF handled_CountParser [of h TwoByte ec b]]) (simp add: ParseQualifier_def)
next
  case QC_UINT8_START_STOP
  then show ?thesis
    by (intro handled_cong [OF handled_RangeParser [of h OneByte ec b]]) (simp add: ParseQualifier_def)
next
  case QC_UINT16_START_STOP
  then show ?thesis
    by (intro handled_cong [OF handled_RangeParser [of h TwoByte ec b]]) (simp add: ParseQualifier_def)
next
  case QC_UINT8_CNT_UINT8_INDEX
  then show ?thesis
    by (intro handled_cong [OF handled_CountIndexParser [of h OneByte b]]) (simp add: ParseQualifier_def)
next
  case QC_UINT16_CNT_UINT16_INDEX
  then show ?thesis
    by (intro handled_cong [OF handled_CountIndexParser [of h TwoByte b]]) (simp add: ParseQualifier_def)
next
  case QC_UINT16_FREE_FORMAT
  then show ?thesis
    by (intro handled_cong [OF handled_FreeFormatParser [OF assms, of b]]) (simp add: ParseQualifier_def)
qed

lemma ParseObjectHeader_ok:
  "3 \<le> length b \<Longrightarrow> \<exists>header. \<forall>c. ParseObjectHeader h (take 3 b @ c) = Some (PR_OK, header, c)"
  by (cases b; cases "tl b"; cases "tl (tl b)")
    (simp_all add: ParseObjectHeader_def UInt8_ReadBuffer_def numeral_3_eq_3)

lemma ParseObjectHeader_taken:
  "3 \<le> length b \<Longrightarrow> \<exists>header. ParseObjectHeader h b = Some (PR_OK, header, drop 3 b)"
  using ParseObjectHeader_ok [of b h] by (metis append_take_drop_id)

text \<open>
  Every header is handled, with and without a white-list. A header the white-list let through
  parses in the same way without the white-list.
\<close>

definition header_allowed :: "white_list \<Rightarrow> HeaderRecord \<Rightarrow> bool" where
  "header_allowed IsAllowed h \<longleftrightarrow> IsAllowed (hr_headerIndex h) (gvr_enumeration h) (GetQualifierCode h)"

definition ParseHeader_record :: "nat \<Rightarrow> rslice \<Rightarrow> HeaderRecord" where
  "ParseHeader_record count b =
     (let header = fst (snd (the (ParseObjectHeader ObjectHeader_default b)))
      in HeaderRecord_of (GetRecord (oh_group header) (oh_variation header)) (oh_qualifier header) count)"

lemma ParseHeader_record_index [simp]: "hr_headerIndex (ParseHeader_record count b) = count"
  by (simp add: ParseHeader_record_def HeaderRecord_of_def Let_def)

lemma handled_ParseHeader: "handled (ParseHeader_record count b) (\<lambda>h. APDUParser_ParseHeader ec wl h count) b"
proof (cases "length b < 3")
  case True
  then show ?thesis
    by (intro handled_error [of 0 b NOT_ENOUGH_DATA_FOR_HEADER])
      (simp_all add: APDUParser_ParseHeader_def ParseObjectHeader_def)
next
  case False
  then obtain oh where oh: "\<And>c. ParseObjectHeader ObjectHeader_default (take 3 b @ c) = Some (PR_OK, oh, c)"
    using ParseObjectHeader_ok [of b ObjectHeader_default] by auto
  note oh0 = oh [of "drop 3 b", simplified]
  define GV where "GV = GetRecord (oh_group oh) (oh_variation oh)"
  define forbidden where "forbidden = (case wl of
      Some IsAllowed \<Rightarrow> \<not> IsAllowed count (gvr_enumeration GV) (QualifierCodeFromType (oh_qualifier oh)) | None \<Rightarrow> False)"
  consider (unknown) "gvr_enumeration GV = GV_UNKNOWN" | (forbid) "gvr_enumeration GV \<noteq> GV_UNKNOWN" forbidden
    | (parse) "gvr_enumeration GV \<noteq> GV_UNKNOWN" "\<not> forbidden"
    by blast
  then show ?thesis
  proof cases
    case unknown
    with False show ?thesis
      by (intro handled_error [of 3 b UNKNOWN_OBJECT]) (simp_all add: APDUParser_ParseHeader_def oh0 Let_def flip: GV_def)
  next
    case forbid
    then have "APDUParser_ParseHeader ec wl h count b = Some (NOT_ON_WHITELIST, drop 3 b, [])" for h
      by (cases wl) (simp_all add: APDUParser_ParseHeader_def oh0 Let_def GV_def forbidden_def)
    then show ?thesis
      using False by (intro handled_error [of 3 b NOT_ON_WHITELIST]) simp_all
  next
    case parse
    have rec: "ParseHeader_record count b = HeaderRecord_of GV (oh_qualifier oh) count"
      by (simp add: ParseHeader_record_def oh0 GV_def)
    have "gvr_enumeration (HeaderRecord_of GV (oh_qualifier oh) count) =
        gvr_enumeration (GetRecord (oh_group oh) (gvr_variation (HeaderRecord_of GV (oh_qualifier oh) count)))"
      by (simp add: HeaderRecord_of_def GV_def) (simp add: GetRecord_def Let_def)
    then have "handled (HeaderRecord_of GV (oh_qualifier oh) count)
        (ParseQualifier ec (HeaderRecord_of GV (oh_qualifier oh) count)) (drop 3 b)"
      by (rule handled_ParseQualifier)
    moreover have "APDUParser_ParseHeader ec wl h count (take 3 b @ c) =
        ParseQualifier ec (HeaderRecord_of GV (oh_qualifier oh) count) h c" for h c
      using parse by (cases wl) (simp_all add: APDUParser_ParseHeader_def oh Let_def GV_def forbidden_def)
    moreover have "3 \<le> length b"
      using False by simp
    ultimately show ?thesis
      unfolding rec by (metis (no_types, lifting) handled_after)
  qed
qed

lemma ParseHeader_white_list:
  assumes "APDUParser_ParseHeader ec (Some IsAllowed) h count b = Some (PR_OK, b', evs)"
  shows "APDUParser_ParseHeader ec None h count b = Some (PR_OK, b', evs)"
    and "header_allowed IsAllowed (ParseHeader_record count b)"
proof -
  have "3 \<le> length b"
    using assms by (cases "length b < 3") (simp_all add: APDUParser_ParseHeader_def ParseObjectHeader_def)
  then obtain oh where oh: "ParseObjectHeader ObjectHeader_default b = Some (PR_OK, oh, drop 3 b)"
    using ParseObjectHeader_taken by blast
  show "APDUParser_ParseHeader ec None h count b = Some (PR_OK, b', evs)"
    using assms by (simp add: APDUParser_ParseHeader_def oh Let_def split: if_splits)
  show "header_allowed IsAllowed (ParseHeader_record count b)"
    using assms by (simp add: APDUParser_ParseHeader_def oh Let_def ParseHeader_record_def header_allowed_def HeaderRecord_of_def
        GetQualifierCode_def split: if_splits)
qed

lemma ParseHeader_white_list_complete:
  assumes "APDUParser_ParseHeader ec None h count b = Some (PR_OK, b', evs)"
    and "header_allowed IsAllowed (ParseHeader_record count b)"
  shows "APDUParser_ParseHeader ec (Some IsAllowed) h count b = Some (PR_OK, b', evs)"
proof -
  have "3 \<le> length b"
    using assms by (cases "length b < 3") (simp_all add: APDUParser_ParseHeader_def ParseObjectHeader_def)
  then obtain oh where oh: "ParseObjectHeader ObjectHeader_default b = Some (PR_OK, oh, drop 3 b)"
    using ParseObjectHeader_taken by blast
  show ?thesis
    using assms by (simp add: APDUParser_ParseHeader_def oh Let_def ParseHeader_record_def header_allowed_def HeaderRecord_of_def
        GetQualifierCode_def split: if_splits)
qed

text \<open>A header that is accepted is not empty.\<close>

lemma ParseHeader_progress:
  assumes "APDUParser_ParseHeader ec wl h count b = Some (PR_OK, b', evs)"
  shows "length b' < length b"
proof -
  have "3 \<le> length b"
    using assms by (cases "length b < 3") (simp_all add: APDUParser_ParseHeader_def ParseObjectHeader_def)
  then obtain oh where oh: "ParseObjectHeader ObjectHeader_default b = Some (PR_OK, oh, drop 3 b)"
    using ParseObjectHeader_taken by blast
  define r where "r = HeaderRecord_of (GetRecord (oh_group oh) (oh_variation oh)) (oh_qualifier oh) count"
  have "ParseQualifier ec r h (drop 3 b) = Some (PR_OK, b', evs)"
    using assms by (auto simp: APDUParser_ParseHeader_def oh Let_def r_def split: if_splits option.splits)
  moreover have "handled r (ParseQualifier ec r) (drop 3 b)"
    by (rule handled_ParseQualifier [of _ "oh_group oh"]) (simp add: r_def HeaderRecord_of_def GetRecord_def Let_def)
  ultimately have "length b' \<le> length (drop 3 b)"
    unfolding handled_def by fastforce
  then show ?thesis
    using \<open>3 \<le> length b\<close> by simp
qed


section \<open>The fragment\<close>

text \<open>\<open>ParseSinglePass\<close>: \<open>count\<close> and \<open>copy\<close> are the variables of its loop.\<close>

function ParseSinglePass_loop ::
    "bool \<Rightarrow> white_list option \<Rightarrow> bool \<Rightarrow> nat \<Rightarrow> rslice \<Rightarrow> (ParseResult \<times> apdu_event list) option" where
  "ParseSinglePass_loop ec wl h count copy =
     (if copy = [] then Some (PR_OK, [])
      else case APDUParser_ParseHeader ec wl h count copy of
          None \<Rightarrow> None
        | Some (result, copy', evs) \<Rightarrow>
            if result \<noteq> PR_OK then Some (result, evs)
            else (case ParseSinglePass_loop ec wl h (count + 1) copy' of
                None \<Rightarrow> None
              | Some (result, evs') \<Rightarrow> Some (result, evs @ evs')))"
  by pat_completeness auto

termination
  by (relation "measure (\<lambda>(_, _, _, _, copy). length copy)") (auto dest: ParseHeader_progress)

declare ParseSinglePass_loop.simps [simp del]

definition ParseSinglePass :: "bool \<Rightarrow> white_list option \<Rightarrow> bool \<Rightarrow> rslice \<Rightarrow> (ParseResult \<times> apdu_event list) option" where
  "ParseSinglePass ec wl h buffer = ParseSinglePass_loop ec wl h 0 buffer"

text \<open>The first pass has the handler as its white-list only, the second pass calls it.\<close>

definition APDUParser_Parse :: "bool \<Rightarrow> white_list \<Rightarrow> rslice \<Rightarrow> (ParseResult \<times> apdu_event list) option" where
  "APDUParser_Parse ec IsAllowed buffer = do {
     (result, evs) \<leftarrow> ParseSinglePass ec (Some IsAllowed) False buffer;
     if result = PR_OK
     then do { (result, evs') \<leftarrow> ParseSinglePass ec None True buffer; Some (result, evs @ evs') }
     else Some (result, evs) }"

definition ParseAndLogAll :: "bool \<Rightarrow> rslice \<Rightarrow> (ParseResult \<times> apdu_event list) option" where
  "ParseAndLogAll ec buffer = ParseSinglePass ec None False buffer"



section \<open>Properties of the fragment parser\<close>

lemma ParseHeader_cases:
  obtains r n evs where "n \<le> length b"
    and "\<And>h. APDUParser_ParseHeader ec wl h count b = Some (r, drop n b, if h then evs else [])"
    and "r \<noteq> PR_OK \<Longrightarrow> evs = []"
    and "r = PR_OK \<Longrightarrow> \<exists>e. evs = [e] \<and> event_ok (ParseHeader_record count b) e"
    and "\<And>c h. r = PR_OK \<Longrightarrow> APDUParser_ParseHeader ec wl h count (take n b @ c) = Some (PR_OK, c, if h then evs else [])"
proof -
  from handled_ParseHeader [of count b ec wl] obtain r n evs where *: "n \<le> length b"
      "\<forall>h. APDUParser_ParseHeader ec wl h count b = Some (r, drop n b, if h then evs else [])"
      "r \<noteq> PR_OK \<longrightarrow> evs = []"
      "r = PR_OK \<longrightarrow> (\<exists>e. evs = [e] \<and> event_ok (ParseHeader_record count b) e) \<and>
        (\<forall>c h. APDUParser_ParseHeader ec wl h count (take n b @ c) = Some (PR_OK, c, if h then evs else []))"
    unfolding handled_def by blast
  show thesis
    by (rule that [of n r evs]) (use * in simp_all)
qed

text \<open>
  \<open>indexed_events IsAllowed count evs\<close>: the headers of \<open>evs\<close> are numbered from \<open>count\<close>, allowed by
  the white-list, and their events are complete.
\<close>

definition indexed_events :: "white_list \<Rightarrow> nat \<Rightarrow> apdu_event list \<Rightarrow> bool" where
  "indexed_events IsAllowed count evs \<longleftrightarrow>
     map (hr_headerIndex \<circ> event_header) evs = [count..<count + length evs] \<and>
     (\<forall>e \<in> set evs. event_ok (event_header e) e \<and> header_allowed IsAllowed (event_header e))"

lemma indexed_events_Nil [simp]: "indexed_events A count []"
  by (simp add: indexed_events_def)

lemma indexed_events_Cons:
  assumes "event_ok r e" and "hr_headerIndex r = count" and "header_allowed A r" and "indexed_events A (Suc count) evs"
  shows "indexed_events A count (e # evs)"
proof -
  have "event_header e = r"
    using assms(1) by (simp add: event_ok_def)
  with assms show ?thesis
    by (simp add: indexed_events_def upt_conv_Cons del: upt_Suc)
qed

text \<open>One pass without the handler decides what the pass with it does.\<close>

lemma ParseSinglePass_loop_spec:
  "\<exists>r. ParseSinglePass_loop ec (Some A) False count b = Some (r, []) \<and>
     (r = PR_OK \<longrightarrow> (\<exists>evs. ParseSinglePass_loop ec None True count b = Some (PR_OK, evs) \<and> indexed_events A count evs))"
proof (induction "length b" arbitrary: count b rule: less_induct)
  case less
  show ?case
  proof (cases "b = []")
    case True
    then show ?thesis
      by (simp add: ParseSinglePass_loop.simps)
  next
    case False
    obtain r n evs where hd: "\<And>h. APDUParser_ParseHeader ec (Some A) h count b = Some (r, drop n b, if h then evs else [])"
        "r = PR_OK \<Longrightarrow> \<exists>e. evs = [e] \<and> event_ok (ParseHeader_record count b) e"
      using ParseHeader_cases [of b ec "Some A" count] by metis
    show ?thesis
    proof (cases "r = PR_OK")
      case error: False
      with False hd(1) [of False] show ?thesis
        by (simp add: ParseSinglePass_loop.simps)
    next
      case True
      obtain e where e: "evs = [e]" "event_ok (ParseHeader_record count b) e"
        using hd(2) True by blast
      have first: "APDUParser_ParseHeader ec (Some A) h count b = Some (PR_OK, drop n b, if h then [e] else [])" for h
        using hd(1) True e(1) by simp
      have "length (drop n b) < length b"
        using ParseHeader_progress [OF first] .
      from less [OF this, of "Suc count"] obtain r' where r':
          "ParseSinglePass_loop ec (Some A) False (Suc count) (drop n b) = Some (r', [])"
          "r' = PR_OK \<Longrightarrow> \<exists>evs. ParseSinglePass_loop ec None True (Suc count) (drop n b) = Some (PR_OK, evs) \<and>
            indexed_events A (Suc count) evs"
        by blast
      note second = ParseHeader_white_list [OF first [of True]]
      have step: "ParseSinglePass_loop ec (Some A) False count b = Some (r', [])"
        using False first [of False] r'(1) by (simp add: ParseSinglePass_loop.simps [of _ _ _ _ b])
      show ?thesis
      proof (cases "r' = PR_OK")
        case bad: False
        with step show ?thesis by simp
      next
        case ok: True
        then obtain evs' where evs': "ParseSinglePass_loop ec None True (Suc count) (drop n b) = Some (PR_OK, evs')"
            "indexed_events A (Suc count) evs'"
          using r'(2) by blast
        have "ParseSinglePass_loop ec None True count b = Some (PR_OK, e # evs')"
          using False second(1) evs'(1) by (simp add: ParseSinglePass_loop.simps [of _ _ _ _ b])
        moreover have "indexed_events A count (e # evs')"
          by (rule indexed_events_Cons [OF e(2) _ second(2) evs'(2)]) simp
        ultimately show ?thesis
          using step ok by blast
      qed
    qed
  qed
qed

text \<open>
  The language of the parser: \<open>accepted ec A count hs evs\<close> says that each of \<open>hs\<close> is a header with
  its objects, numbered from \<open>count\<close>, which parses on its own and leaves no byte.
\<close>

fun accepted :: "bool \<Rightarrow> white_list \<Rightarrow> nat \<Rightarrow> rslice list \<Rightarrow> apdu_event list \<Rightarrow> bool" where
  "accepted ec A count [] evs \<longleftrightarrow> evs = []"
| "accepted ec A count (b # hs) [] \<longleftrightarrow> False"
| "accepted ec A count (b # hs) (e # evs) \<longleftrightarrow>
     APDUParser_ParseHeader ec (Some A) True count b = Some (PR_OK, [], [e]) \<and> accepted ec A (Suc count) hs evs"

lemma ParseHeader_alone:
  assumes "APDUParser_ParseHeader ec (Some A) True count b = Some (PR_OK, [], [e])"
  shows "APDUParser_ParseHeader ec (Some A) h count (b @ c) = Some (PR_OK, c, if h then [e] else [])"
proof -
  obtain r n evs where hd: "n \<le> length b" "\<And>h. APDUParser_ParseHeader ec (Some A) h count b = Some (r, drop n b, if h then evs else [])"
      "\<And>c h. r = PR_OK \<Longrightarrow> APDUParser_ParseHeader ec (Some A) h count (take n b @ c) = Some (PR_OK, c, if h then evs else [])"
    using ParseHeader_cases [of b ec "Some A" count] by metis
  with assms have "r = PR_OK" "n = length b" "evs = [e]"
    using hd(2) [of True] by auto
  with hd(3) [of h c] show ?thesis by simp
qed

lemma ParseHeader_taken:
  assumes "APDUParser_ParseHeader ec (Some A) h count b = Some (PR_OK, b', evs)"
  obtains x e where "b = x @ b'" and "x \<noteq> []" and "APDUParser_ParseHeader ec (Some A) True count x = Some (PR_OK, [], [e])"
proof -
  obtain r n evs' where hd: "n \<le> length b" "\<And>h. APDUParser_ParseHeader ec (Some A) h count b = Some (r, drop n b, if h then evs' else [])"
      "r = PR_OK \<Longrightarrow> \<exists>e. evs' = [e] \<and> event_ok (ParseHeader_record count b) e"
      "\<And>c h. r = PR_OK \<Longrightarrow> APDUParser_ParseHeader ec (Some A) h count (take n b @ c) = Some (PR_OK, c, if h then evs' else [])"
    using ParseHeader_cases [of b ec "Some A" count] by metis
  have r: "r = PR_OK" "b' = drop n b"
    using assms hd(2) [of h] by simp_all
  then obtain e where "evs' = [e]"
    using hd(3) by blast
  then have alone: "APDUParser_ParseHeader ec (Some A) True count (take n b) = Some (PR_OK, [], [e])"
    using hd(4) [OF r(1), of True "[]"] by simp
  moreover from ParseHeader_progress [OF alone] have "take n b \<noteq> []"
    by force
  ultimately show thesis
    using that [of "take n b" e] r(2) by simp
qed

text \<open>Headers in front of a buffer are parsed first, and then the rest, numbered from there.\<close>

lemma accepted_front:
  assumes "accepted ec A count hs evs"
  shows "ParseSinglePass_loop ec (Some A) False count (concat hs @ c) = ParseSinglePass_loop ec (Some A) False (count + length hs) c"
    and "ParseSinglePass_loop ec None True count (concat hs @ c) =
      map_option (map_prod id ((@) evs)) (ParseSinglePass_loop ec None True (count + length hs) c)"
  using assms
proof (induction ec A count hs evs rule: accepted.induct)
  case (1 ec A count evs)
  { case 1 then show ?case by simp }
  { case 2 then show ?case
      by (cases "ParseSinglePass_loop ec None True count c") (auto simp: map_prod_def) }
next
  case (2 ec A count b hs)
  { case 1 then show ?case by simp }
  { case 2 then show ?case by simp }
next
  case (3 ec A count b hs e evs)
  have hdr: "APDUParser_ParseHeader ec (Some A) True count b = Some (PR_OK, [], [e])"
    and rest: "accepted ec A (Suc count) hs evs" if "accepted ec A count (b # hs) (e # evs)"
    using that by simp_all
  { case 1
    have "b \<noteq> []"
      using ParseHeader_progress [OF hdr [OF 1]] by force
    with 1 show ?case
      using 3(1) [OF rest [OF 1]] ParseHeader_alone [OF hdr [OF 1], of False "concat hs @ c"]
      by (subst ParseSinglePass_loop.simps) (simp split: option.split) }
  { case 2
    have "b \<noteq> []"
      using ParseHeader_progress [OF hdr [OF 2]] by force
    moreover have "APDUParser_ParseHeader ec None True count (b @ concat hs @ c) = Some (PR_OK, concat hs @ c, [e])"
      using ParseHeader_white_list(1) [OF ParseHeader_alone [OF hdr [OF 2], of True "concat hs @ c"]] by simp
    ultimately show ?case
      using 3(2) [OF rest [OF 2]]
      by (subst ParseSinglePass_loop.simps) (auto split: option.split simp: map_prod_def) }
qed

lemma ParseSinglePass_loop_split:
  assumes "ParseSinglePass_loop ec (Some A) False count b = Some (r, x)"
  obtains hs evs rest where "b = concat hs @ rest" and "accepted ec A count hs evs"
    and "if r = PR_OK then rest = [] else rest \<noteq> [] \<and> (\<exists>b' y. APDUParser_ParseHeader ec (Some A) False (count + length hs) rest = Some (r, b', y))"
  using assms
proof (induction "length b" arbitrary: b count x thesis rule: less_induct)
  case less
  show ?case
  proof (cases "b = []")
    case True
    then show ?thesis
      using less.prems(1) [of "[]" "[]" "[]"] less.prems(2) by (simp add: ParseSinglePass_loop.simps)
  next
    case False
    then obtain r1 b' y where hd: "APDUParser_ParseHeader ec (Some A) False count b = Some (r1, b', y)"
      using less.prems(2) by (auto simp: ParseSinglePass_loop.simps [of _ _ _ _ b] split: option.splits)
    show ?thesis
    proof (cases "r1 = PR_OK")
      case bad: False
      then have "r = r1"
        using less.prems(2) hd False by (simp add: ParseSinglePass_loop.simps [of _ _ _ _ b])
      with bad hd False show ?thesis
        using less.prems(1) [of "[]" b "[]"] by simp
    next
      case True
      obtain c e where c: "b = c @ b'" "c \<noteq> []" "APDUParser_ParseHeader ec (Some A) True count c = Some (PR_OK, [], [e])"
        using ParseHeader_taken hd True by blast
      obtain x' where x': "ParseSinglePass_loop ec (Some A) False (Suc count) b' = Some (r, x')"
        using less.prems(2) hd False True by (auto simp: ParseSinglePass_loop.simps [of _ _ _ _ b] split: option.splits)
      have "length b' < length b"
        using c by simp
      from less.hyps [OF this _ x'] obtain hs evs rest where hs: "b' = concat hs @ rest" "accepted ec A (Suc count) hs evs"
          "if r = PR_OK then rest = [] else rest \<noteq> [] \<and>
            (\<exists>b' y. APDUParser_ParseHeader ec (Some A) False (Suc count + length hs) rest = Some (r, b', y))"
        by blast
      show ?thesis
        by (rule less.prems(1) [of "c # hs" rest "e # evs"]) (use c hs in \<open>auto split: if_splits\<close>)
    qed
  qed
qed

lemma Parse_spec:
  obtains r where "ParseSinglePass_loop ec (Some A) False 0 b = Some (r, [])"
    and "r \<noteq> PR_OK" and "APDUParser_Parse ec A b = Some (r, [])"
  | evs where "ParseSinglePass_loop ec (Some A) False 0 b = Some (PR_OK, [])"
    and "ParseSinglePass_loop ec None True 0 b = Some (PR_OK, evs)"
    and "APDUParser_Parse ec A b = Some (PR_OK, evs)" and "indexed_events A 0 evs"
proof -
  obtain r where r: "ParseSinglePass_loop ec (Some A) False 0 b = Some (r, [])"
      "r = PR_OK \<Longrightarrow> \<exists>evs. ParseSinglePass_loop ec None True 0 b = Some (PR_OK, evs) \<and> indexed_events A 0 evs"
    using ParseSinglePass_loop_spec [of ec A 0 b] by blast
  show thesis
  proof (cases "r = PR_OK")
    case False
    with r(1) show thesis
      by (intro that(1) [of r]) (simp_all add: APDUParser_Parse_def ParseSinglePass_def)
  next
    case True
    with r obtain evs where "ParseSinglePass_loop ec None True 0 b = Some (PR_OK, evs)" "indexed_events A 0 evs"
      by blast
    with r(1) True show thesis
      by (intro that(2) [of evs]) (simp_all add: APDUParser_Parse_def ParseSinglePass_def)
  qed
qed

text \<open>C9: Parsing returns for every fragment and every white-list. The handler sees all headers of
  the fragment when the result is OK and none otherwise; the headers it sees are numbered from
  zero, each allowed by the white-list under its number, and each event is complete: counts are
  positive and equal to the number of objects, ranges are valid and cover their indices in order,
  and every field of every object was read.\<close>

theorem Parse_all_or_nothing:
  "\<exists>r evs. APDUParser_Parse ec IsAllowed b = Some (r, evs) \<and> (r \<noteq> PR_OK \<longrightarrow> evs = []) \<and>
     indexed_events IsAllowed 0 evs"
  by (rule Parse_spec [of ec IsAllowed b]) simp_all

text \<open>A class 0 read request, and the same followed by a truncated header.\<close>

lemmas parse_eval = ParseSinglePass_def ParseSinglePass_loop.simps APDUParser_ParseHeader_def ParseObjectHeader_def
  UInt8_ReadBuffer_def GetRecord_def GetEnumAndType_def GetGroupVar_def GroupVariationFromType_def GroupVariation_values_def
  gv_def GV_UNKNOWN_def ParseQualifier_def GetQualifierCode_def HeaderRecord_of_def HandleAllObjectsHeader_def

lemma class_0_read:
  "ParseSinglePass_loop ec (Some (\<lambda>_ _ _. True)) False 0 [60, 1, 6] = Some (PR_OK, [])"
  "ParseSinglePass_loop ec (Some (\<lambda>_ _ _. True)) False 0 [60, 1, 6, 1, 2] = Some (NOT_ENOUGH_DATA_FOR_HEADER, [])"
  by (simp_all add: parse_eval QualifierCodeFromType_def)

theorem Parse_all_or_nothing_witness:
  "\<exists>r. APDUParser_Parse True (\<lambda>_ _ _. True) [60, 1, 6, 1, 2] = Some (r, []) \<and> r \<noteq> PR_OK"
proof -
  have "\<exists>evs. APDUParser_Parse True (\<lambda>_ _ _. True) [60, 1, 6, 1, 2] = Some (NOT_ENOUGH_DATA_FOR_HEADER, evs)"
    by (simp add: APDUParser_Parse_def ParseSinglePass_def class_0_read)
  then show ?thesis
    using Parse_all_or_nothing [of True "\<lambda>_ _ _. True" "[60, 1, 6, 1, 2]"] by auto
qed

text \<open>C8: A fragment is accepted exactly when it is a sequence of headers that each parse on
  their own, without a byte left over, under the number of their place; the handler then sees
  their events in that order.\<close>

theorem Parse_accepts:
  "APDUParser_Parse ec IsAllowed b = Some (PR_OK, evs) \<longleftrightarrow>
     (\<exists>hs. b = concat hs \<and> accepted ec IsAllowed 0 hs evs)"
proof
  assume parse: "APDUParser_Parse ec IsAllowed b = Some (PR_OK, evs)"
  then have loops: "ParseSinglePass_loop ec (Some IsAllowed) False 0 b = Some (PR_OK, [])"
      "ParseSinglePass_loop ec None True 0 b = Some (PR_OK, evs)"
    by (cases rule: Parse_spec [of ec IsAllowed b]; simp)+
  obtain hs evs' where hs: "b = concat hs" "accepted ec IsAllowed 0 hs evs'"
    using ParseSinglePass_loop_split [OF loops(1)] by (metis append_Nil2)
  then have "evs' = evs"
    using accepted_front(2) [OF hs(2), of "[]"] loops(2) by (simp add: ParseSinglePass_loop.simps [of _ _ _ _ "[]"])
  with hs show "\<exists>hs. b = concat hs \<and> accepted ec IsAllowed 0 hs evs"
    by blast
next
  assume "\<exists>hs. b = concat hs \<and> accepted ec IsAllowed 0 hs evs"
  then obtain hs where hs: "b = concat hs" "accepted ec IsAllowed 0 hs evs"
    by blast
  show "APDUParser_Parse ec IsAllowed b = Some (PR_OK, evs)"
    using accepted_front [OF hs(2), of "[]"]
    by (simp add: hs(1) APDUParser_Parse_def ParseSinglePass_def ParseSinglePass_loop.simps [of _ _ _ _ "[]"])
qed

text \<open>C27: Parsing fails with a result exactly when, after headers that are accepted, the next
  header fails with that result; nothing has then reached the handler.\<close>

theorem Parse_rejects:
  assumes "r \<noteq> PR_OK"
  shows "(\<exists>evs. APDUParser_Parse ec IsAllowed b = Some (r, evs)) \<longleftrightarrow>
     (\<exists>hs evs rest b' y. b = concat hs @ rest \<and> accepted ec IsAllowed 0 hs evs \<and> rest \<noteq> [] \<and>
        APDUParser_ParseHeader ec (Some IsAllowed) False (length hs) rest = Some (r, b', y))"
    (is "?L \<longleftrightarrow> ?R")
proof
  assume ?L
  then have "ParseSinglePass_loop ec (Some IsAllowed) False 0 b = Some (r, [])"
    using assms by (cases rule: Parse_spec [of ec IsAllowed b]) auto
  from ParseSinglePass_loop_split [OF this] assms show ?R
    by (metis add_0)
next
  assume ?R
  then obtain hs evs rest b' y where hs: "b = concat hs @ rest" "accepted ec IsAllowed 0 hs evs" "rest \<noteq> []"
      "APDUParser_ParseHeader ec (Some IsAllowed) False (length hs) rest = Some (r, b', y)"
    by blast
  have "ParseSinglePass_loop ec (Some IsAllowed) False 0 b = Some (r, y)"
    using accepted_front(1) [OF hs(2), of rest] hs(3,4) assms by (simp add: hs(1) ParseSinglePass_loop.simps [of _ _ _ _ rest])
  then show ?L
    using assms by (simp add: APDUParser_Parse_def ParseSinglePass_def)
qed


theorem Parse_rejects_witness:
  "\<exists>hs evs rest b' y. [60, 1, 6, 1, 2] = concat hs @ rest \<and> accepted False (\<lambda>_ _ _. True) 0 hs evs \<and> rest \<noteq> [] \<and>
     APDUParser_ParseHeader False (Some (\<lambda>_ _ _. True)) False (length hs) rest = Some (NOT_ENOUGH_DATA_FOR_HEADER, b', y)"
proof -
  have "\<exists>evs. APDUParser_Parse False (\<lambda>_ _ _. True) [60, 1, 6, 1, 2] = Some (NOT_ENOUGH_DATA_FOR_HEADER, evs)"
    by (simp add: APDUParser_Parse_def ParseSinglePass_def class_0_read)
  then show ?thesis
    by (subst (asm) Parse_rejects) simp_all
qed


section \<open>Handlers\<close>

text \<open>
  The base class of all handlers. \<open>ProcessHeader\<close> is virtual: a parameter over the state \<open>'s\<close> of
  the derived class, \<^const>\<open>None\<close> where it does not override the function, whose default is
  \<open>ProcessUnsupportedHeader\<close>; \<open>OnHeaderResult\<close> is virtual too.
\<close>

record 's IAPDUHandler =
  errors :: IINField
  numTotalHeaders :: u32
  numIgnoredHeaders :: u32
  derived :: 's

record 's handler_virtuals =
  hv_ProcessHeader :: "apdu_event \<Rightarrow> 's \<Rightarrow> (IINField \<times> 's) option"
  hv_OnHeaderResult :: "HeaderRecord \<Rightarrow> IINField \<Rightarrow> 's \<Rightarrow> 's"

definition IAPDUHandler_init :: "'s \<Rightarrow> 's IAPDUHandler" where
  "IAPDUHandler_init s = \<lparr>errors = IINField_Empty, numTotalHeaders = 0, numIgnoredHeaders = 0, derived = s\<rparr>"

definition IAPDUHandler_Reset :: "'s IAPDUHandler \<Rightarrow> 's IAPDUHandler" where
  "IAPDUHandler_Reset h = h\<lparr>numTotalHeaders := 0, numIgnoredHeaders := 0, errors := IINField_Empty\<rparr>"

definition IAPDUHandler_Record :: "'s handler_virtuals \<Rightarrow> HeaderRecord \<Rightarrow> IINField \<Rightarrow> 's IAPDUHandler \<Rightarrow> 's IAPDUHandler" where
  "IAPDUHandler_Record vt record0 result h =
     (let h = h\<lparr>errors := IINField_or (errors h) result\<rparr>;
          h = h\<lparr>numTotalHeaders := numTotalHeaders h + 1\<rparr>
      in h\<lparr>derived := hv_OnHeaderResult vt record0 result (derived h)\<rparr>)"

definition ProcessUnsupportedHeader :: "'s IAPDUHandler \<Rightarrow> IINField \<times> 's IAPDUHandler" where
  "ProcessUnsupportedHeader h =
     (IINField_of_bit IIN_FUNC_NOT_SUPPORTED, h\<lparr>numIgnoredHeaders := numIgnoredHeaders h + 1\<rparr>)"

definition IAPDUHandler_ProcessHeader :: "'s handler_virtuals \<Rightarrow> apdu_event \<Rightarrow> 's IAPDUHandler \<Rightarrow> IINField \<times> 's IAPDUHandler" where
  "IAPDUHandler_ProcessHeader vt e h =
     (case hv_ProcessHeader vt e (derived h) of
        Some (result, s) \<Rightarrow> (result, h\<lparr>derived := s\<rparr>)
      | None \<Rightarrow> ProcessUnsupportedHeader h)"

definition IAPDUHandler_OnHeader :: "'s handler_virtuals \<Rightarrow> apdu_event \<Rightarrow> 's IAPDUHandler \<Rightarrow> 's IAPDUHandler" where
  "IAPDUHandler_OnHeader vt e h =
     (let (result, h) = IAPDUHandler_ProcessHeader vt e h
      in IAPDUHandler_Record vt (event_header e) result h)"

text \<open>A parse with a handler: the calls to \<open>OnHeader\<close> in the order of the headers.\<close>

definition Parse_with_handler ::
    "bool \<Rightarrow> 's handler_virtuals \<Rightarrow> white_list \<Rightarrow> rslice \<Rightarrow> 's IAPDUHandler \<Rightarrow> (ParseResult \<times> 's IAPDUHandler) option" where
  "Parse_with_handler ec vt IsAllowed b h = do {
     (r, evs) \<leftarrow> APDUParser_Parse ec IsAllowed b;
     Some (r, fold (IAPDUHandler_OnHeader vt) evs h) }"

lemma IAPDUHandler_OnHeader_counts:
  "numTotalHeaders (IAPDUHandler_OnHeader vt e h) = numTotalHeaders h + 1"
  "IINField_or (errors h) (errors (IAPDUHandler_OnHeader vt e h)) = errors (IAPDUHandler_OnHeader vt e h)"
  by (auto simp: IAPDUHandler_OnHeader_def IAPDUHandler_ProcessHeader_def ProcessUnsupportedHeader_def IAPDUHandler_Record_def
      IINField_or_def Let_def or.assoc [symmetric] split: option.split prod.split)

lemma fold_OnHeader_total: "numTotalHeaders (fold (IAPDUHandler_OnHeader vt) evs h) = numTotalHeaders h + of_nat (length evs)"
  by (induction evs arbitrary: h) (simp_all add: IAPDUHandler_OnHeader_counts)

text \<open>Without a hit in the derived class every header is counted as ignored and reported.\<close>

lemma fold_OnHeader_unsupported:
  assumes "\<And>e s. hv_ProcessHeader vt e s = None"
  shows "numIgnoredHeaders (fold (IAPDUHandler_OnHeader vt) evs h) = numIgnoredHeaders h + of_nat (length evs)"
    and "errors (fold (IAPDUHandler_OnHeader vt) evs h) =
      (if evs = [] then errors h else IINField_or (errors h) (IINField_of_bit IIN_FUNC_NOT_SUPPORTED))"
  by (induction evs arbitrary: h)
    (simp_all add: IAPDUHandler_OnHeader_def IAPDUHandler_ProcessHeader_def ProcessUnsupportedHeader_def IAPDUHandler_Record_def
      assms Let_def IINField_or_def or.assoc)

text \<open>A handler counts every header of an accepted fragment once. A handler that overrides
  nothing counts all of them as ignored and reports FUNC_NOT_SUPPORTED as soon as there is one;
  a fragment that is not accepted leaves the handler as it was.\<close>

theorem Parse_unsupported:
  assumes "\<And>e s. hv_ProcessHeader vt e s = None"
  shows "\<exists>r evs h'. APDUParser_Parse ec IsAllowed b = Some (r, evs) \<and> Parse_with_handler ec vt IsAllowed b h = Some (r, h') \<and>
     numTotalHeaders h' = numTotalHeaders h + of_nat (length evs) \<and>
     numIgnoredHeaders h' = numIgnoredHeaders h + of_nat (length evs) \<and>
     (if evs = [] then h' = h else errors h' = IINField_or (errors h) (IINField_of_bit IIN_FUNC_NOT_SUPPORTED))"
  by (rule Parse_spec [of ec IsAllowed b])
    (auto simp: Parse_with_handler_def fold_OnHeader_total fold_OnHeader_unsupported [OF assms])

theorem Parse_unsupported_witness:
  "\<exists>h'. Parse_with_handler False \<lparr>hv_ProcessHeader = \<lambda>e s. None, hv_OnHeaderResult = \<lambda>h r s. s\<rparr> (\<lambda>_ _ _. True)
      [60, 1, 6, 1, 2] (IAPDUHandler_init ()) = Some (NOT_ENOUGH_DATA_FOR_HEADER, h') \<and> numTotalHeaders h' = 0"
proof -
  have parse: "APDUParser_Parse False (\<lambda>_ _ _. True) [60, 1, 6, 1, 2] = Some (NOT_ENOUGH_DATA_FOR_HEADER, [])"
    by (simp add: APDUParser_Parse_def ParseSinglePass_def class_0_read)
  show ?thesis
    using Parse_unsupported [of "\<lparr>hv_ProcessHeader = \<lambda>e s. None, hv_OnHeaderResult = \<lambda>h r s. s\<rparr>"
        False "\<lambda>_ _ _. True" "[60, 1, 6, 1, 2]" "IAPDUHandler_init ()"]
    by (simp add: parse IAPDUHandler_init_def)
qed

end
