(* ===== verification/WriteParse.thy ===== *)
theory WriteParse
  imports HeaderWriter ApduParser
begin

text \<open>
  Writing and parsing together: what the write iterators of \<open>app/HeaderWriter\<close> leave in a fragment
  is what \<open>app/parsing/APDUParser\<close> reports to a handler.
\<close>

section \<open>Headers\<close>

lemma GetGroupVar_gv: "GetGroupVar grp variation = gv (unat grp) (unat variation)"
proof -
  have "push_bit 8 (ucast grp :: u16) AND ucast variation = 0"
    by (rule bit_word_eqI) (auto simp: bit_simps dest: bit_imp_le_length)
  then have "GetGroupVar grp variation = push_bit 8 (ucast grp) + ucast variation"
    by (simp add: GetGroupVar_def disjunctive_add_eq_or)
  then show ?thesis
    by (simp add: gv_def push_bit_eq_mult mult.commute)
qed

lemma known_not_unknown: "g \<in> set GroupVariation_values \<Longrightarrow> g \<noteq> GV_UNKNOWN"
proof -
  have "\<forall>g \<in> set GroupVariation_values. g \<noteq> GV_UNKNOWN"
    unfolding GroupVariation_values_def GV_UNKNOWN_def gv_def list.set ball_simps by simp
  then show "g \<in> set GroupVariation_values \<Longrightarrow> g \<noteq> GV_UNKNOWN" by metis
qed

lemma GetRecord_known:
  "gv (unat grp) (unat variation) \<in> set GroupVariation_values \<Longrightarrow> gvr_enumeration (GetRecord grp variation) = gv (unat grp) (unat variation)"
  using known_not_unknown [of "gv (unat grp) (unat variation)"]
  by (simp add: GetRecord_def GetEnumAndType_def GroupVariationFromType_def GetGroupVar_gv)

lemma known_objects: "set (map fst range_objects) \<union> set count_index_objects \<subseteq> set GroupVariation_values"
  unfolding range_objects_def count_index_objects_def GroupVariation_values_def by simp

lemma ParseObjectHeader_bytes:
  "ParseObjectHeader h0 (grp # variation # q # c) = Some (PR_OK, \<lparr>oh_group = grp, oh_variation = variation, oh_qualifier = q\<rparr>, c)"
  by (simp add: ParseObjectHeader_def UInt8_ReadBuffer_def)

text \<open>The header record under which an object header written with \<open>qc\<close> is reported.\<close>

definition written_header :: "u8 \<Rightarrow> u8 \<Rightarrow> QualifierCode \<Rightarrow> nat \<Rightarrow> HeaderRecord" where
  "written_header grp variation qc count = HeaderRecord_of (GetRecord grp variation) (QualifierCodeToType qc) count"

lemma ParseHeader_bytes:
  assumes "gv (unat grp) (unat variation) \<in> set GroupVariation_values"
  shows "APDUParser_ParseHeader True None True count (grp # variation # QualifierCodeToType qc # c) =
    ParseQualifier True (written_header grp variation qc count) True c"
  unfolding APDUParser_ParseHeader_def ParseObjectHeader_bytes
  using GetRecord_known [OF assms] known_not_unknown [OF assms]
  by (simp add: written_header_def)

lemma written_header_sel:
  "gv (unat grp) (unat variation) \<in> set GroupVariation_values \<Longrightarrow>
     gvr_enumeration (written_header grp variation qc count) = gv (unat grp) (unat variation)"
  by (simp add: written_header_def HeaderRecord_of_def GetRecord_known)

lemma written_header_qualifier: "GetQualifierCode (written_header grp variation qc count) = QualifierCodeFromType (QualifierCodeToType qc)"
  by (simp add: written_header_def HeaderRecord_of_def GetQualifierCode_def)


section \<open>Numbers\<close>

definition IT_parser :: "IndexType \<Rightarrow> NumParser" where
  "IT_parser it = (case it of IT_UInt8 \<Rightarrow> OneByte | IT_UInt16 \<Rightarrow> TwoByte)"

definition IT_range_qualifier :: "IndexType \<Rightarrow> QualifierCode" where
  "IT_range_qualifier it = (case it of IT_UInt8 \<Rightarrow> QC_UINT8_START_STOP | IT_UInt16 \<Rightarrow> QC_UINT16_START_STOP)"

definition IT_prefix_qualifier :: "IndexType \<Rightarrow> QualifierCode" where
  "IT_prefix_qualifier it = (case it of IT_UInt8 \<Rightarrow> QC_UINT8_CNT_UINT8_INDEX | IT_UInt16 \<Rightarrow> QC_UINT16_CNT_UINT16_INDEX)"

lemma ParseQualifier_IT:
  "ParseQualifier True (written_header grp variation (IT_range_qualifier it) count) handling b =
     RangeParser_ParseHeader (IT_parser it) True (written_header grp variation (IT_range_qualifier it) count) handling b"
  "ParseQualifier True (written_header grp variation (IT_prefix_qualifier it) count) handling b =
     CountIndexParser_ParseHeader (IT_parser it) (written_header grp variation (IT_prefix_qualifier it) count) handling b"
  unfolding ParseQualifier_def written_header_qualifier QualifierCode_roundtrip
  by (cases it; simp add: IT_range_qualifier_def IT_prefix_qualifier_def IT_parser_def)+

lemma NumBytes_IT: "NumBytes (IT_parser it) = IT_SIZE it"
  by (cases it) (simp_all add: NumBytes_def IT_parser_def IT_SIZE_def)

lemma ucast_ucast_small: "unat (v :: u16) \<le> 255 \<Longrightarrow> ucast (ucast v :: u8) = v"
  by (simp add: word_unat_eq_iff unsigned_ucast_eq unsigned_take_bit_eq take_bit_nat_eq_self)

lemma ReadNum_IT_bytes: "unat v \<le> IT_Max it \<Longrightarrow> ReadNum (IT_parser it) (IT_bytes it v @ c) = Some (v, c)"
  by (cases it)
    (simp_all add: ReadNum_def IT_parser_def IT_bytes_def IT_Max_def UInt8_ReadBuffer_def UInt16_ReadBuffer_def
      UInt8_roundtrip UInt16_roundtrip ucast_ucast_small)

lemma ParseRange_IT_bytes:
  assumes "start \<le> stop" and "unat stop \<le> IT_Max it"
  shows "ParseRange (IT_parser it) r0 (IT_bytes it start @ IT_bytes it stop @ c) =
    Some (PR_OK, \<lparr>range_start = start, range_stop = stop\<rparr>, c)"
proof -
  have "unat start \<le> IT_Max it"
    using assms by (simp add: word_le_nat_alt)
  then show ?thesis
    using assms by (simp add: ParseRange_def NumBytes_IT ReadNum_IT_bytes Range_IsValid_def)
qed

lemma ParseCount_IT_bytes:
  assumes "0 < count" and "unat count \<le> IT_Max it"
  shows "ParseCount (IT_parser it) c0 (IT_bytes it count @ c) = Some (PR_OK, count, c)"
  using assms by (auto simp: ParseCount_def NumParser_Read_def NumBytes_IT ReadNum_IT_bytes)

lemma Foreach_encoded:
  assumes "\<And>v pos r. v \<in> set vs \<Longrightarrow> readFunc (enc v @ r) pos = Some (val pos v, r)"
  shows "Foreach readFunc (length vs) pos (concat (map enc vs) @ c) = Some (map (\<lambda>i. val (pos + i) (vs ! i)) [0..<length vs])"
  using assms
proof (induction vs arbitrary: pos)
  case Nil
  show ?case by simp
next
  case (Cons v vs)
  have "Foreach readFunc (length vs) (Suc pos) (concat (map enc vs) @ c) =
      Some (map (\<lambda>i. val (Suc pos + i) (vs ! i)) [0..<length vs])"
    using Cons.prems by (intro Cons.IH) simp
  then show ?case
    using Cons.prems [of v] by (simp add: map_upt_Suc del: upt_Suc)
qed


section \<open>Ranges\<close>

lemma ucast_of_nat_u32_u16: "ucast (of_nat k :: u32) = (of_nat k :: u16)"
  by transfer (simp add: take_bit_take_bit)

text \<open>The indices of a range that a writer has filled.\<close>

definition written_range :: "u16 \<Rightarrow> nat \<Rightarrow> Range" where
  "written_range start n = \<lparr>range_start = start, range_stop = of_nat (unat start + n - 1)\<rparr>"

lemma written_range:
  assumes "0 < n" and "unat start + n \<le> 65536"
  shows "Range_IsValid (written_range start n)" and "unat (Range_Count (written_range start n)) = n"
    and "unat (range_stop (written_range start n)) = unat start + n - 1"
proof -
  have stop: "unat (of_nat (unat start + n - 1) :: u16) = unat start + n - 1"
    using assms by (intro unat_of_nat_u16) linarith
  then show "unat (range_stop (written_range start n)) = unat start + n - 1"
    by (simp add: written_range_def)
  show valid: "Range_IsValid (written_range start n)"
    using stop assms(1) by (simp add: Range_IsValid_def written_range_def word_le_nat_alt)
  show "unat (Range_Count (written_range start n)) = n"
    using stop assms(1) valid by (simp add: Range_Count_unat written_range_def)
qed

lemma Range_stop_u32:
  assumes "0 < n"
  shows "ucast (ucast (start :: u16) + of_nat n - 1 :: u32) = (of_nat (unat start + n - 1) :: u16)"
proof -
  have "(ucast start + of_nat n - 1 :: u32) = of_nat (unat start + n - 1)"
    using assms by (simp add: of_nat_diff)
  then show ?thesis by (simp only: ucast_of_nat_u32_u16)
qed

lemma Descriptor_Inst_sel [simp]:
  "ser_group (Descriptor_Inst grp variation conv) = grp" "ser_variation (Descriptor_Inst grp variation conv) = variation"
  "ser_Size (Descriptor_Inst grp variation conv) = Descriptor_Size (gv (unat grp) (unat variation))"
  by (simp_all add: Descriptor_Inst_def)

text \<open>C31: A range of values that is written with a fixed-size object type is parsed back: a handler
  that is given these bytes, whatever follows them, sees one range with the same indices and the
  fields of the same values.\<close>

theorem WriteRange_roundtrip:
  assumes "map_of range_objects (gv (unat grp) (unat variation)) = Some FixedSize"
    and "\<forall>v \<in> set vs. typed (Descriptor_fields (gv (unat grp) (unat variation))) (conv v)"
    and "vs \<noteq> []" and "unat start + length vs \<le> Suc (IT_Max it)"
    and "3 + 2 * IT_SIZE it + length vs * Descriptor_Size (gv (unat grp) (unat variation)) \<le> length view"
  shows "\<exists>bytes. WriteRange it (IT_range_qualifier it) (Descriptor_Inst grp variation conv) start vs (hwm pre view post m) =
      Some (hwm (pre @ bytes) (drop (length bytes) view) post m) \<and>
    APDUParser_ParseHeader True None True count (bytes @ rest) =
      Some (PR_OK, rest, [OnRangeOf (written_header grp variation (IT_range_qualifier it) count) (written_range start (length vs))
        (map (\<lambda>i. (start + of_nat i, Fields (Some (conv (vs ! i))))) [0..<length vs])])"
proof -
  define g where "g = gv (unat grp) (unat variation)"
  define stop where "stop = (of_nat (unat start + length vs - 1) :: u16)"
  define body where "body = concat (map (\<lambda>v. fields_bytes (conv v)) vs)"
  define h where "h = written_header grp variation (IT_range_qualifier it) count"
  define bytes where "bytes = [grp, variation, QualifierCodeToType (IT_range_qualifier it)] @ IT_bytes it start @ IT_bytes it stop @ body"
  have n: "0 < length vs" "unat start + length vs \<le> 65536"
    using assms(3,4) IT_Max_le [of it] by simp_all
  note rng = written_range [OF n]
  have known: "gv (unat grp) (unat variation) \<in> set GroupVariation_values"
    using assms(1) known_objects by (force dest!: map_of_SomeD)
  have len: "length body = length vs * Descriptor_Size g"
    using assms(2) unfolding body_def by (induction vs) (simp_all add: length_fields_bytes Descriptor_Size_fields g_def)
  have len_bytes: "length bytes = 3 + 2 * IT_SIZE it + length vs * Descriptor_Size g"
    by (simp add: bytes_def len)
  have "WriteRange it (IT_range_qualifier it) (Descriptor_Inst grp variation conv) start vs (hwm pre view post m) =
      Some (hwm (pre @ bytes) (drop (length bytes) view) post m)"
    unfolding len_bytes
    using object_writer.WriteRange_hwm [of vs grp variation conv it view "IT_range_qualifier it" start pre post m] assms(2-5)
    by (simp add: object_writer.header_def bytes_def stop_def Range_stop_u32 [OF n(1)] flip: body_def g_def)
  moreover have "ParseRangeOfObjects h (written_range start (length vs)) True (body @ rest) =
      Some (PR_OK, rest, [OnRangeOf h (written_range start (length vs))
        (map (\<lambda>i. (start + of_nat i, Fields (Some (conv (vs ! i))))) [0..<length vs])])"
  proof -
    have "unat (Range_Count (written_range start (length vs)) * of_nat (Descriptor_Size g)) = length body"
      using unat_required [OF Range_Count_bound, of "Descriptor_Size g"] Descriptor_Size_bound [of g] by (simp add: rng(2) len)
    moreover have "Foreach (read_range_object g (written_range start (length vs))) (length vs) 0 (body @ rest) =
        Some (map (\<lambda>i. (start + of_nat i, Fields (Some (conv (vs ! i))))) [0..<length vs])"
      unfolding body_def
      by (subst Foreach_encoded [where val = "\<lambda>pos v. WithIndex (written_range start (length vs)) pos (Fields (Some (conv v)))"])
        (use assms(2) in \<open>auto simp: read_range_object_def Descriptor_Read_def Parse_Many_fields_bytes g_def WithIndex_def written_range_def\<close>)
    ultimately show ?thesis
      using assms(1) written_header_sel [OF known]
      by (simp add: ParseRangeOfObjects_def Process_def InvokeRangeOf_def rng(2) h_def g_def)
  qed
  moreover have "ParseRange (IT_parser it) Range_Invalid (IT_bytes it start @ IT_bytes it stop @ body @ rest) =
      Some (PR_OK, written_range start (length vs), body @ rest)"
    using rng(1,3) assms(3,4) by (subst ParseRange_IT_bytes) (simp_all add: Range_IsValid_def written_range_def stop_def)
  ultimately show ?thesis
    by (intro exI [of _ bytes])
      (simp add: bytes_def ParseHeader_bytes [OF known] ParseQualifier_IT RangeParser_ParseHeader_def h_def)
qed

lemma some_objects:
  "map_of range_objects (gv 30 2) = Some FixedSize" "map_of range_objects (gv (Suc 0) (Suc 0)) = Some BitfieldType"
  "gv 32 4 \<in> set count_index_objects"
  unfolding range_objects_def count_index_objects_def gv_def by simp_all

lemma some_upt: "[0..<2] = [0, 1]" "[0..<3] = [0, 1, 2]"
  by (simp_all add: upt_rec)

lemma some_descriptors:
  "map_of descriptors (gv 30 2) = Some (3, [F_u8, F_i16])" "map_of descriptors (gv 32 4) = Some (9, [F_u8, F_i16, F_time])"
  unfolding descriptors_def Group1_objects_def Group2_objects_def Group3_objects_def Group4_objects_def Group10_objects_def
    Group11_objects_def Group12_objects_def Group13_objects_def Group20_objects_def Group21_objects_def Group22_objects_def
    Group23_objects_def Group30_objects_def Group32_objects_def gv_def
  by simp_all

theorem WriteRange_roundtrip_witness:
  "\<exists>bytes. WriteRange IT_UInt8 (IT_range_qualifier IT_UInt8) (Descriptor_Inst 30 2 (\<lambda>(q, v). [FV_u8 q, FV_i16 v])) 5
        [(1, 7), (1, 0xFFFF)] (hwm [] (replicate 20 0) [] None) =
      Some (hwm bytes (drop (length bytes) (replicate 20 0)) [] None) \<and>
    APDUParser_ParseHeader True None True 0 (bytes @ [60]) =
      Some (PR_OK, [60], [OnRangeOf (written_header 30 2 (IT_range_qualifier IT_UInt8) 0) (written_range 5 2)
        [(5, Fields (Some [FV_u8 1, FV_i16 7])), (6, Fields (Some [FV_u8 1, FV_i16 0xFFFF]))]])"
  using WriteRange_roundtrip [of 30 2 "[(1, 7), (1, 0xFFFF)]" "\<lambda>(q, v). [FV_u8 q, FV_i16 v]" 5 IT_UInt8 "replicate 20 0"
      "[]" "[]" None 0 "[60]"]
  by (simp add: some_objects some_upt some_descriptors Descriptor_Size_def Descriptor_fields_def IT_SIZE_def IT_Max_def has_type_def
      flip: numeral_2_eq_2)


section \<open>Counts with index prefixes\<close>

definition prefixed_bytes :: "IndexType \<Rightarrow> u8 \<Rightarrow> u8 \<Rightarrow> ('a \<Rightarrow> FieldValue list) \<Rightarrow> ('a \<times> u16) list \<Rightarrow> u8 list" where
  "prefixed_bytes it grp variation conv vs =
     [grp, variation, QualifierCodeToType (IT_prefix_qualifier it)] @ IT_bytes it (of_nat (length vs)) @
     concat (map (\<lambda>(v, index). IT_bytes it index @ fields_bytes (conv v)) vs)"

lemma WritePrefixed_bytes:
  assumes "gv (unat grp) (unat variation) \<in> set count_index_objects"
    and "\<forall>(v, index) \<in> set vs. typed (Descriptor_fields (gv (unat grp) (unat variation))) (conv v) \<and> unat index \<le> IT_Max it"
    and "vs \<noteq> []" and "length vs \<le> IT_Max it"
  defines "bytes \<equiv> prefixed_bytes it grp variation conv vs"
  shows "length bytes = 3 + IT_SIZE it + length vs * (IT_SIZE it + Descriptor_Size (gv (unat grp) (unat variation)))"
    and "length bytes \<le> length view \<Longrightarrow>
      WritePrefixed it (IT_prefix_qualifier it) (Descriptor_Inst grp variation conv) vs (hwm pre view post m) =
        Some (hwm (pre @ bytes) (drop (length bytes) view) post m)"
    and "APDUParser_ParseHeader True None True count (bytes @ rest) =
      Some (PR_OK, rest, [OnPrefixOf (written_header grp variation (IT_prefix_qualifier it) count) (of_nat (length vs))
        (map (\<lambda>(v, index). (index, Fields (Some (conv v)))) vs)])"
proof -
  define g where "g = gv (unat grp) (unat variation)"
  define body where "body = concat (map (\<lambda>(v, index). IT_bytes it index @ fields_bytes (conv v)) vs)"
  define h where "h = written_header grp variation (IT_prefix_qualifier it) count"
  define c where "c = (of_nat (length vs) :: u16)"
  have bytes_def: "bytes = [grp, variation, QualifierCodeToType (IT_prefix_qualifier it)] @ IT_bytes it c @ body"
    by (simp add: assms(5) prefixed_bytes_def body_def c_def)
  have c: "unat c = length vs" "0 < c"
    using assms(3,4) IT_Max_le [of it] by (simp_all add: c_def unat_of_nat_u16 word_less_nat_alt)
  have known: "gv (unat grp) (unat variation) \<in> set GroupVariation_values"
    using assms(1) known_objects by auto
  have len: "length body = length vs * (IT_SIZE it + Descriptor_Size g)"
    using assms(2) unfolding body_def
    by (induction vs) (auto simp: length_fields_bytes Descriptor_Size_fields g_def)
  have len_bytes: "length bytes = 3 + IT_SIZE it + length vs * (IT_SIZE it + Descriptor_Size g)"
    by (simp add: bytes_def len)
  then show "length bytes = 3 + IT_SIZE it + length vs * (IT_SIZE it + Descriptor_Size (gv (unat grp) (unat variation)))"
    by (simp add: g_def)
  have valid: "\<forall>(v, index) \<in> set vs. typed (Descriptor_fields (gv (unat grp) (unat variation))) (conv v)"
    using assms(2) by auto
  show "WritePrefixed it (IT_prefix_qualifier it) (Descriptor_Inst grp variation conv) vs (hwm pre view post m) =
      Some (hwm (pre @ bytes) (drop (length bytes) view) post m)" if "length bytes \<le> length view"
    using object_writer.WritePrefixed_hwm [OF valid assms(3,4), of view "IT_prefix_qualifier it" pre post m] that
    unfolding len_bytes by (simp add: object_writer.header_def bytes_def c_def flip: body_def g_def)
  have "CountIndex_ParseCountOfObjects h (IT_parser it) c True (body @ rest) =
      Some (PR_OK, rest, [OnPrefixOf h c (map (\<lambda>(v, index). (index, Fields (Some (conv v)))) vs)])"
  proof -
    have "unat (ucast c * of_nat (IT_SIZE it + Descriptor_Size g) :: u32) = length vs * (IT_SIZE it + Descriptor_Size g)"
      using unat_required [of "ucast c" "IT_SIZE it + Descriptor_Size g"] Descriptor_Size_bound [of g] IT_SIZE_le [of it]
        assms(4) IT_Max_le [of it]
      by (simp add: unat_ucast_u16 c(1) del: of_nat_add)
    then have "unat (ucast c * (of_nat (Descriptor_Size g) + of_nat (NumBytes (IT_parser it))) :: u32) = length body"
      by (simp add: len NumBytes_IT add.commute)
    moreover have "Foreach (read_prefixed_object (IT_parser it) g) (length vs) 0 (body @ rest) =
        Some (map (\<lambda>i. (\<lambda>(v, index). (index, Fields (Some (conv v)))) (vs ! i)) [0..<length vs])"
      unfolding body_def
      by (subst Foreach_encoded [where val = "\<lambda>_ (v, index). (index, Fields (Some (conv v)))"])
        (use assms(2) in \<open>auto simp: read_prefixed_object_def ReadNum_IT_bytes Descriptor_Read_def Parse_Many_fields_bytes g_def\<close>)
    moreover have "map (\<lambda>i. f (vs ! i)) [0..<length vs] = map f vs" for f :: "'a \<times> u16 \<Rightarrow> u16 \<times> ObjectValue"
      by (rule nth_equalityI) simp_all
    ultimately show ?thesis
      using assms(1) written_header_sel [OF known]
      by (simp add: CountIndex_ParseCountOfObjects_def Process_def InvokePrefixOf_def c(1) h_def g_def)
  qed
  moreover have "ParseCount (IT_parser it) 0 (IT_bytes it c @ body @ rest) = Some (PR_OK, c, body @ rest)"
    using assms(4) c by (intro ParseCount_IT_bytes) simp_all
  ultimately show "APDUParser_ParseHeader True None True count (bytes @ rest) =
      Some (PR_OK, rest, [OnPrefixOf (written_header grp variation (IT_prefix_qualifier it) count) (of_nat (length vs))
        (map (\<lambda>(v, index). (index, Fields (Some (conv v)))) vs)])"
    by (simp add: bytes_def ParseHeader_bytes [OF known] ParseQualifier_IT CountIndexParser_ParseHeader_def h_def flip: c_def)
qed

text \<open>C32: Values that are written with their indices are parsed back as the same indices and values
  in the same order.\<close>

theorem WritePrefixed_roundtrip:
  assumes "gv (unat grp) (unat variation) \<in> set count_index_objects"
    and "\<forall>(v, index) \<in> set vs. typed (Descriptor_fields (gv (unat grp) (unat variation))) (conv v) \<and> unat index \<le> IT_Max it"
    and "vs \<noteq> []" and "length vs \<le> IT_Max it"
    and "3 + IT_SIZE it + length vs * (IT_SIZE it + Descriptor_Size (gv (unat grp) (unat variation))) \<le> length view"
  shows "\<exists>bytes. WritePrefixed it (IT_prefix_qualifier it) (Descriptor_Inst grp variation conv) vs (hwm pre view post m) =
      Some (hwm (pre @ bytes) (drop (length bytes) view) post m) \<and>
    APDUParser_ParseHeader True None True count (bytes @ rest) =
      Some (PR_OK, rest, [OnPrefixOf (written_header grp variation (IT_prefix_qualifier it) count) (of_nat (length vs))
        (map (\<lambda>(v, index). (index, Fields (Some (conv v)))) vs)])"
proof -
  note bytes = WritePrefixed_bytes [OF assms(1-4)]
  show ?thesis
    using bytes(2) [OF order_trans [OF eq_refl [OF bytes(1)] assms(5)]] bytes(3)
    by (intro exI [of _ "prefixed_bytes it grp variation conv vs"]) simp
qed

theorem WritePrefixed_roundtrip_witness:
  "\<exists>bytes. WritePrefixed IT_UInt16 (IT_prefix_qualifier IT_UInt16) (Descriptor_Inst 32 4 (\<lambda>(q, v, t). [FV_u8 q, FV_i16 v, FV_time t]))
        [((1, 7, 12), 300)] (hwm [] (replicate 20 0) [] None) =
      Some (hwm bytes (drop (length bytes) (replicate 20 0)) [] None) \<and>
    APDUParser_ParseHeader True None True 0 (bytes @ []) =
      Some (PR_OK, [], [OnPrefixOf (written_header 32 4 (IT_prefix_qualifier IT_UInt16) 0) 1
        [(300, Fields (Some [FV_u8 1, FV_i16 7, FV_time 12]))]])"
  using WritePrefixed_roundtrip [of 32 4 "[((1, 7, 12), 300)]" "\<lambda>(q, v, t). [FV_u8 q, FV_i16 v, FV_time t]" IT_UInt16 "replicate 20 0"
      "[]" "[]" None 0 "[]"]
  by (simp add: some_objects some_upt some_descriptors Descriptor_Size_def Descriptor_fields_def IT_SIZE_def IT_Max_def has_type_def UInt48_MAX_def)


section \<open>Bitfields\<close>

lemma GetBit_packed:
  assumes "packed bytes vs" and "i < length vs" and "length vs \<le> 8 * length bytes"
  shows "GetBit (bytes @ rest) i = Some (vs ! i)"
proof -
  have "i div 8 < length bytes"
    using assms(2,3) by linarith
  then show ?thesis
    using assms(1,2) by (simp add: GetBit_def nth_append packed_def Let_def and_exp_eq_0_iff_not_bit)
qed

lemma bitfield_written:
  assumes "map_of range_objects (gv (unat grp) (unat variation)) = Some BitfieldType"
    and "vs \<noteq> []" and "length vs \<le> IT_Max it" and "unat start + length vs \<le> Suc (IT_Max it)"
    and "length pre + length view < 2 ^ 28"
    and "3 + 2 * IT_SIZE it + (length vs + 7) div 8 \<le> length view"
  shows "\<exists>bytes. length bytes = 3 + 2 * IT_SIZE it + (length vs + 7) div 8 \<and>
    WriteBitfield it grp variation (IT_range_qualifier it) start vs (hwm pre view post m) =
      Some (hwm (pre @ bytes) (drop (length bytes) view) post m) \<and>
    APDUParser_ParseHeader True None True count (bytes @ rest) =
      Some (PR_OK, rest, [OnRangeOf (written_header grp variation (IT_range_qualifier it) count) (written_range start (length vs))
        (map (\<lambda>i. (start + of_nat i, SingleBit (vs ! i))) [0..<length vs])])"
proof -
  define stop where "stop = (of_nat (unat start + length vs - 1) :: u16)"
  define h where "h = written_header grp variation (IT_range_qualifier it) count"
  have n: "0 < length vs" "unat start + length vs \<le> 65536"
    using assms(2,4) IT_Max_le [of it] by simp_all
  note rng = written_range [OF n]
  have known: "gv (unat grp) (unat variation) \<in> set GroupVariation_values"
    using assms(1) known_objects by (force dest!: map_of_SomeD)
  have "unat stop \<le> IT_Max it"
    using rng(3) assms(4) by (simp add: stop_def written_range_def)
  then have "IT_cast it (start + of_nat (length vs) - 1) = stop"
  proof -
    have "1 \<le> unat start + length vs"
      using n(1) by linarith
    then have "start + of_nat (length vs) - 1 = stop"
      by (simp only: stop_def of_nat_diff) simp
    then show ?thesis
      using \<open>unat stop \<le> IT_Max it\<close> by (simp add: IT_cast_small)
  qed
  then obtain bits where bits: "length bits = (length vs + 7) div 8" "packed bits vs"
      "WriteBitfield it grp variation (IT_range_qualifier it) start vs (hwm pre view post m) =
        Some (hwm (pre @ [grp, variation, QualifierCodeToType (IT_range_qualifier it)] @ IT_bytes it start @ IT_bytes it stop @ bits)
          (drop (3 + 2 * IT_SIZE it + (length vs + 7) div 8) view) post m)"
    using WriteBitfield_hwm [OF n(1) assms(3,5,6)] by metis
  define bytes where "bytes = [grp, variation, QualifierCodeToType (IT_range_qualifier it)] @ IT_bytes it start @ IT_bytes it stop @ bits"
  have len: "length bytes = 3 + 2 * IT_SIZE it + (length vs + 7) div 8"
    by (simp add: bytes_def bits(1))
  then have "WriteBitfield it grp variation (IT_range_qualifier it) start vs (hwm pre view post m) =
      Some (hwm (pre @ bytes) (drop (length bytes) view) post m)"
    using bits(3) by (simp only: bytes_def)
  moreover have "ParseRangeOfObjects h (written_range start (length vs)) True (bits @ rest) =
      Some (PR_OK, rest, [OnRangeOf h (written_range start (length vs))
        (map (\<lambda>i. (start + of_nat i, SingleBit (vs ! i))) [0..<length vs])])"
  proof -
    have "length vs \<le> 8 * length bits"
      unfolding bits(1) by linarith
    then have "Foreach (read_range_bit (written_range start (length vs))) (length vs) 0 (bits @ rest) =
        Some (map (\<lambda>i. (start + of_nat i, SingleBit (vs ! i))) [0..<0 + length vs])"
      by (intro Foreach_positions)
        (simp add: read_range_bit_def GetBit_packed [OF bits(2)] WithIndex_def written_range_def)
    then show ?thesis
      using assms(1) written_header_sel [OF known]
      by (simp add: ParseRangeOfObjects_def Process_def InvokeRangeBitfieldType_def rng(2) h_def unat_NumBytesInBits bits(1))
  qed
  moreover have "ParseRange (IT_parser it) Range_Invalid (IT_bytes it start @ IT_bytes it stop @ bits @ rest) =
      Some (PR_OK, written_range start (length vs), bits @ rest)"
    using rng(1,3) assms(4) \<open>unat stop \<le> IT_Max it\<close>
    by (subst ParseRange_IT_bytes) (simp_all add: Range_IsValid_def written_range_def stop_def)
  ultimately show ?thesis
    using len
    by (intro exI [of _ bytes])
      (simp add: bytes_def ParseHeader_bytes [OF known] ParseQualifier_IT RangeParser_ParseHeader_def h_def)
qed

text \<open>C33: Fewer bits than the index type can count, written from a start index, are parsed back as
  the same bits under consecutive indices.\<close>

theorem WriteBitfield_roundtrip:
  assumes "map_of range_objects (gv (unat grp) (unat variation)) = Some BitfieldType"
    and "vs \<noteq> []" and "length vs \<le> IT_Max it" and "unat start + length vs \<le> Suc (IT_Max it)"
    and "length pre + length view < 2 ^ 28"
    and "3 + 2 * IT_SIZE it + (length vs + 7) div 8 \<le> length view"
  shows "\<exists>bytes. WriteBitfield it grp variation (IT_range_qualifier it) start vs (hwm pre view post m) =
      Some (hwm (pre @ bytes) (drop (length bytes) view) post m) \<and>
    APDUParser_ParseHeader True None True count (bytes @ rest) =
      Some (PR_OK, rest, [OnRangeOf (written_header grp variation (IT_range_qualifier it) count) (written_range start (length vs))
        (map (\<lambda>i. (start + of_nat i, SingleBit (vs ! i))) [0..<length vs])])"
  using bitfield_written [OF assms] by blast

theorem WriteBitfield_roundtrip_witness:
  "\<exists>bytes. WriteBitfield IT_UInt8 1 1 (IT_range_qualifier IT_UInt8) 250 [True, False, True] (hwm [] (replicate 20 0) [] None) =
      Some (hwm bytes (drop (length bytes) (replicate 20 0)) [] None) \<and>
    APDUParser_ParseHeader True None True 0 (bytes @ []) =
      Some (PR_OK, [], [OnRangeOf (written_header 1 1 (IT_range_qualifier IT_UInt8) 0) (written_range 250 3)
        [(250, SingleBit True), (251, SingleBit False), (252, SingleBit True)]])"
  using WriteBitfield_roundtrip [of 1 1 "[True, False, True]" IT_UInt8 250 "[]" "replicate 20 0" "[]" None 0 "[]"]
  by (simp add: some_objects some_upt IT_SIZE_def IT_Max_def flip: numeral_2_eq_2 numeral_3_eq_3)

end
