(* ===== verification/WriterBounds.thy ===== *)
theory WriterBounds
  imports WriteParse
begin

text \<open>
  Bounds of the header writer: every operation of \<open>HeaderWriter\<close> and of its iterators succeeds
  on a well-formed writer, stores only into the room that the writer had, and keeps what was
  written before. \<open>grown hw hw'\<close> is that relation; the results carry over to every handler
  and loader that writes through a header writer.
\<close>

section \<open>Fallible steps\<close>

definition succeeds :: "'a option \<Rightarrow> ('a \<Rightarrow> bool) \<Rightarrow> bool" where
  "succeeds r P \<longleftrightarrow> (\<exists>x. r = Some x \<and> P x)"

lemma succeeds_simps [simp]: "succeeds (Some x) P \<longleftrightarrow> P x" "\<not> succeeds None P"
  by (simp_all add: succeeds_def)

lemma succeeds_bind: "succeeds r P \<Longrightarrow> (\<And>x. P x \<Longrightarrow> succeeds (f x) Q) \<Longrightarrow> succeeds (Option.bind r f) Q"
  by (auto simp: succeeds_def)

lemma succeeds_map [simp]: "succeeds (map_option f r) P \<longleftrightarrow> succeeds r (\<lambda>x. P (f x))"
  by (cases r) simp_all

lemma succeeds_mono: "succeeds r P \<Longrightarrow> (\<And>x. P x \<Longrightarrow> Q x) \<Longrightarrow> succeeds r Q"
  by (auto simp: succeeds_def)

lemma succeedsE: "succeeds r P \<Longrightarrow> (\<And>x. r = Some x \<Longrightarrow> P x \<Longrightarrow> thesis) \<Longrightarrow> thesis"
  by (auto simp: succeeds_def)


section \<open>Growth\<close>

definition writer_wf :: "HeaderWriter \<Rightarrow> bool" where
  "writer_wf hw \<longleftrightarrow> wslice_wf (hw_position hw)"

definition grown :: "HeaderWriter \<Rightarrow> HeaderWriter \<Rightarrow> bool" where
  "grown hw hw' \<longleftrightarrow>
     (let p = hw_position hw; p' = hw_position hw' in
      wslice_wf p \<and> wpos p \<le> wpos p' \<and> wpos p' + wsize p' = wpos p + wsize p \<and> length (wbuf p') = length (wbuf p) \<and>
      take (wpos p) (wbuf p') = take (wpos p) (wbuf p) \<and>
      drop (wpos p + wsize p) (wbuf p') = drop (wpos p + wsize p) (wbuf p))"

lemma grown_wf: "grown hw hw' \<Longrightarrow> writer_wf hw" "grown hw hw' \<Longrightarrow> writer_wf hw'"
  by (simp_all add: grown_def writer_wf_def Let_def wslice_wf_def)

lemma grown_refl [simp]: "grown hw hw \<longleftrightarrow> writer_wf hw"
  by (simp add: grown_def writer_wf_def Let_def)

lemma take_eq_less: "take n xs = take n ys \<Longrightarrow> m \<le> n \<Longrightarrow> take m xs = take m ys"
  by (metis min.absorb1 take_take)

lemma grown_trans [trans]: "grown a b \<Longrightarrow> grown b c \<Longrightarrow> grown a c"
  unfolding grown_def Let_def
  by (elim conjE, intro conjI) (auto intro: take_eq_less [THEN trans])

lemma grown_mark [simp]: "grown hw (hw'\<lparr>hw_mark := m\<rparr>) = grown hw hw'" "grown (hw\<lparr>hw_mark := m\<rparr>) hw' = grown hw hw'"
    "writer_wf (hw\<lparr>hw_mark := m\<rparr>) = writer_wf hw"
  by (simp_all add: grown_def writer_wf_def)

text \<open>A store that lies behind the position of the first writer and in front of that of the second.\<close>

lemma copy_store_grown:
  assumes "grown base hw" and "wpos (hw_position base) \<le> fst c" and "fst c + length bs \<le> wpos (hw_position base) + wsize (hw_position base)"
    and "length bs \<le> snd c"
  shows "succeeds (copy_store c bs hw) (\<lambda>hw'. grown base hw' \<and> copy_position hw' = copy_position hw)"
proof -
  define p where "p = hw_position hw"
  define q where "q = hw_position base"
  have len: "fst c + length bs \<le> length (wbuf p)" "wslice_wf q"
    using assms(1,3) by (simp_all add: grown_def Let_def wslice_wf_def p_def q_def)
  define m where "m = take (fst c) (wbuf p) @ bs @ drop (fst c + length bs) (wbuf p)"
  have "copy_store c bs hw = Some (hw\<lparr>hw_position := p\<lparr>wbuf := m\<rparr>\<rparr>)"
    using len assms(4) by (simp add: copy_store_def slice_copy_def wslice_store_def mem_write_def m_def flip: p_def)
  moreover have "take (wpos q) m = take (wpos q) (wbuf p)" "length m = length (wbuf p)"
      "drop (wpos q + wsize q) m = drop (wpos q + wsize q) (wbuf p)"
    using assms(2,3) len by (simp_all add: m_def flip: q_def)
  ultimately show ?thesis
    using assms(1) by (simp add: grown_def Let_def copy_position_def flip: p_def q_def)
qed


lemma store_front:
  assumes "wslice_wf p" and "length bs \<le> wsize p"
  shows "wslice_store p 0 bs = Some (p\<lparr>wbuf := take (wpos p) (wbuf p) @ bs @ drop (wpos p + length bs) (wbuf p)\<rparr>)"
  using assms by (simp add: wslice_store_succeeds)

lemma hw_put_grown:
  assumes "writer_wf hw" and "length bs \<le> HW_Remaining hw"
  shows "succeeds (hw_put bs hw) (\<lambda>hw'. grown hw hw' \<and> wpos (hw_position hw') = wpos (hw_position hw) + length bs \<and>
    hw_mark hw' = hw_mark hw)"
  using assms
  by (auto simp: hw_put_def WriteBuffer_def store_front writer_wf_def HW_Remaining_def WSlice_Advance_def Let_def grown_def wslice_wf_def
      add.commute)

lemma hw_advance_grown:
  assumes "writer_wf hw"
  shows "grown hw (hw_advance n hw)" "hw_mark (hw_advance n hw) = hw_mark hw"
  using assms by (auto simp: hw_advance_def writer_wf_def HW_Remaining_def WSlice_Advance_def Let_def grown_def wslice_wf_def)

lemma grown_Remaining:
  assumes "grown hw hw'"
  shows "wpos (hw_position hw') + HW_Remaining hw' = wpos (hw_position hw) + HW_Remaining hw" "HW_Remaining hw' \<le> HW_Remaining hw"
  using assms by (auto simp: grown_def HW_Remaining_def Let_def)

lemma hw_put_byte:
  assumes "writer_wf hw" and "0 < HW_Remaining hw"
  obtains hw' where "hw_put (UInt8_bytes b) hw = Some hw'" "grown hw hw'" "HW_Remaining hw = Suc (HW_Remaining hw')" "hw_mark hw' = hw_mark hw"
proof -
  obtain hw' where "hw_put (UInt8_bytes b) hw = Some hw'" "grown hw hw'" "wpos (hw_position hw') = wpos (hw_position hw) + 1" "hw_mark hw' = hw_mark hw"
    by (rule succeedsE [OF hw_put_grown [OF assms(1), of "UInt8_bytes b"]]) (use assms(2) in \<open>auto simp: UInt8_bytes_def\<close>)
  then show ?thesis
    using that grown_Remaining(1) [of hw hw'] by simp
qed

lemma WriteHeaderWithReserve_grown:
  assumes "writer_wf hw"
  shows "succeeds (WriteHeaderWithReserve grp variation qc reserve hw)
    (\<lambda>(ok, hw'). grown hw hw' \<and> hw_mark hw' = hw_mark hw \<and> (ok \<longrightarrow> reserve \<le> HW_Remaining hw' \<and> HW_Remaining hw' + 3 = HW_Remaining hw))"
proof (cases "HW_Remaining hw < 3 + reserve")
  case True
  then show ?thesis
    using assms by (simp add: WriteHeaderWithReserve_def HW_Remaining_def)
next
  case False
  then have room: "3 \<le> HW_Remaining hw"
    by simp
  obtain h1 where h1: "hw_put (UInt8_bytes grp) hw = Some h1" "grown hw h1" "HW_Remaining hw = Suc (HW_Remaining h1)" "hw_mark h1 = hw_mark hw"
    by (rule hw_put_byte [OF assms]) (use room in auto)
  obtain h2 where h2: "hw_put (UInt8_bytes variation) h1 = Some h2" "grown h1 h2" "HW_Remaining h1 = Suc (HW_Remaining h2)" "hw_mark h2 = hw_mark h1"
    by (rule hw_put_byte [OF grown_wf(2) [OF h1(2)]]) (use room h1(3) in auto)
  obtain h3 where h3: "hw_put (UInt8_bytes (QualifierCodeToType qc)) h2 = Some h3" "grown h2 h3" "HW_Remaining h2 = Suc (HW_Remaining h3)"
      "hw_mark h3 = hw_mark h2"
    by (rule hw_put_byte [OF grown_wf(2) [OF h2(2)]]) (use room h1(3) h2(3) in auto)
  have "WriteHeaderWithReserve grp variation qc reserve hw = Some (True, h3)"
    using False h1(1) h2(1) h3(1) by (simp add: WriteHeaderWithReserve_def WriteHeader_def HW_Remaining_def)
  then show ?thesis
    using grown_trans [OF grown_trans [OF h1(2) h2(2)] h3(2)] h1(3,4) h2(3,4) h3(3,4) False by simp
qed

text \<open>A serializer that succeeds on every writer. It may report failure, but it stays in the room it is given.\<close>

definition ser_total :: "'a DNP3Serializer \<Rightarrow> bool" where
  "ser_total ser \<longleftrightarrow> (\<forall>v hw. writer_wf hw \<longrightarrow> succeeds (ser_put ser v hw) (\<lambda>hw'. grown hw hw' \<and> hw_mark hw' = hw_mark hw))"

lemma ser_putD: "ser_total ser \<Longrightarrow> writer_wf hw \<Longrightarrow> succeeds (ser_put ser v hw) (\<lambda>hw'. grown hw hw' \<and> hw_mark hw' = hw_mark hw)"
  by (simp add: ser_total_def)

lemma ser_totalI:
  assumes "\<And>v hw. writer_wf hw \<Longrightarrow> succeeds (ser_Write ser v (hw_position hw)) (\<lambda>(_, p). grown hw (hw\<lparr>hw_position := p\<rparr>))"
  shows "ser_total ser"
  unfolding ser_total_def ser_put_def
  by (intro allI impI, rule succeeds_bind, rule assms) auto

lemma Format_Many_grown:
  "writer_wf hw \<Longrightarrow> succeeds (Format_Many vs (hw_position hw)) (\<lambda>(_, p). grown hw (hw\<lparr>hw_position := p\<rparr>))"
proof (induction vs arbitrary: hw)
  case (Cons v vs)
  show ?case
  proof (cases "wsize (hw_position hw) < length (field_bytes v)")
    case True
    with Cons.prems show ?thesis
      by (simp add: Format_Write_def Format_WriteType_def)
  next
    case False
    then obtain hw' where hw': "hw_put (field_bytes v) hw = Some hw'" "grown hw hw'"
      using hw_put_grown [OF Cons.prems, of "field_bytes v"] by (auto simp: HW_Remaining_def elim: succeedsE)
    then obtain p where p: "WriteBuffer (field_bytes v) (hw_position hw) = Some p" "hw' = hw\<lparr>hw_position := p\<rparr>"
      by (cases "WriteBuffer (field_bytes v) (hw_position hw)") (auto simp: hw_put_def)
    have "succeeds (Format_Many vs p) (\<lambda>(_, p'). grown hw' (hw'\<lparr>hw_position := p'\<rparr>))"
      using Cons.IH [OF grown_wf(2) [OF hw'(2)]] by (simp add: p(2))
    then show ?thesis
      using hw'(2) False
      by (auto simp: Format_Write_def Format_WriteType_def p elim!: succeeds_mono intro: grown_trans)
  qed
qed simp

lemma Descriptor_total: "ser_total (Descriptor_Inst grp variation conv)"
  by (rule ser_totalI) (simp add: Descriptor_Inst_def Format_Many_grown)

lemma OctetString_total: "ser_total (OctetStringSerializer isEvent sz)"
proof (rule ser_totalI)
  fix v and hw
  assume wf: "writer_wf hw"
  show "succeeds (ser_Write (OctetStringSerializer isEvent sz) v (hw_position hw)) (\<lambda>(_, p). grown hw (hw\<lparr>hw_position := p\<rparr>))"
    using wf by (auto simp: OctetStringSerializer_def RSlice_CopyTo_def store_front writer_wf_def Let_def WSlice_Advance_def grown_def
        wslice_wf_def add.commute)
qed



section \<open>Iterators\<close>

text \<open>The count or range position of an iterator lies in the room of the writer \<open>base\<close>.\<close>

definition reserved :: "HeaderWriter \<Rightarrow> nat \<Rightarrow> nat \<times> nat \<Rightarrow> bool" where
  "reserved base n c \<longleftrightarrow> wpos (hw_position base) \<le> fst c \<and>
     fst c + n \<le> wpos (hw_position base) + wsize (hw_position base) \<and> n \<le> snd c"

lemma reserved_here: "grown base hw \<Longrightarrow> n \<le> wsize (hw_position hw) \<Longrightarrow> reserved base n (copy_position hw)"
  by (simp add: reserved_def copy_position_def grown_def Let_def)

lemma reserved_advance: "reserved base (m + n) c \<Longrightarrow> reserved base n (copy_advance m c)"
  by (auto simp: reserved_def copy_advance_def)

lemma reserved_store:
  "grown base hw \<Longrightarrow> reserved base (length bs) c \<Longrightarrow>
     succeeds (copy_store c bs hw) (\<lambda>hw'. grown base hw' \<and> copy_position hw' = copy_position hw)"
  using copy_store_grown [of base hw c bs] by (simp add: reserved_def)

lemma reserved_Format:
  assumes "grown base hw" and "reserved base (length bs + n) c"
  shows "succeeds (copy_Format c bs hw) (\<lambda>(c', hw'). grown base hw' \<and> reserved base n c' \<and> copy_position hw' = copy_position hw)"
proof -
  have "reserved base (length bs) c" "length bs \<le> snd c"
    using assms(2) by (simp_all add: reserved_def)
  then show ?thesis
    using reserved_store [OF assms(1), of bs c] reserved_advance [OF assms(2)]
    by (auto simp: copy_Format_def elim!: succeeds_bind)
qed

definition Prefixed_ok :: "HeaderWriter \<Rightarrow> 'a PrefixedWriteIterator \<Rightarrow> HeaderWriter \<Rightarrow> bool" where
  "Prefixed_ok base iter hw \<longleftrightarrow> grown base hw \<and> (pwi_isValid iter \<longrightarrow>
     ser_total (pwi_serializer iter) \<and> IT_SIZE (pwi_index iter) \<le> pwi_sizeOfTypePlusIndex iter \<and>
     reserved base (IT_SIZE (pwi_index iter)) (pwi_countPosition iter))"

lemma IterateOverCountWithPrefix_ok:
  assumes "grown base hw" and "ser_total ser"
  shows "succeeds (IterateOverCountWithPrefix it qc ser hw) (\<lambda>(iter, hw'). Prefixed_ok base iter hw' \<and> hw_mark hw' = hw_mark hw)"
  unfolding IterateOverCountWithPrefix_def
proof (rule succeeds_bind [OF WriteHeaderWithReserve_grown [OF grown_wf(2) [OF assms(1)]]])
  fix r
  assume r: "case r of (ok, hw') \<Rightarrow> grown hw hw' \<and> hw_mark hw' = hw_mark hw \<and>
    (ok \<longrightarrow> 2 * IT_SIZE it + ser_Size ser \<le> HW_Remaining hw' \<and> HW_Remaining hw' + 3 = HW_Remaining hw)"
  obtain ok hw' where [simp]: "r = (ok, hw')"
    by (cases r)
  have g: "grown base hw'"
    using grown_trans [OF assms(1)] r by auto
  have "Prefixed_ok base (fst (PrefixedWriteIterator_of it ser hw')) (snd (PrefixedWriteIterator_of it ser hw'))"
    using g assms(2) reserved_here [OF g, of "IT_SIZE it"] grown_trans [OF g hw_advance_grown(1) [OF grown_wf(2) [OF g]]]
    by (simp add: Prefixed_ok_def PrefixedWriteIterator_of_def Let_def)
  then show "succeeds (case r of (ok, hw) \<Rightarrow> Some (if ok then PrefixedWriteIterator_of it ser hw else (PrefixedWriteIterator_Null it, hw)))
      (\<lambda>(iter, hw'). Prefixed_ok base iter hw' \<and> hw_mark hw' = hw_mark hw)"
    using g r hw_advance_grown(2) [OF grown_wf(2) [OF g]]
    by (auto simp: Prefixed_ok_def PrefixedWriteIterator_Null_def PrefixedWriteIterator_of_def Let_def)
qed

lemma Prefixed_Write_ok:
  assumes "Prefixed_ok base iter hw"
  shows "succeeds (Prefixed_Write v index iter hw) (\<lambda>(_, iter', hw'). Prefixed_ok base iter' hw' \<and> pwi_isValid iter' = pwi_isValid iter)"
proof (cases "pwi_isValid iter \<and> pwi_sizeOfTypePlusIndex iter \<le> wsize (hw_position hw)")
  case True
  then have iter: "ser_total (pwi_serializer iter)" "IT_SIZE (pwi_index iter) \<le> HW_Remaining hw" "grown base hw"
    using assms by (auto simp: Prefixed_ok_def HW_Remaining_def)
  obtain h1 where h1: "hw_put (IT_bytes (pwi_index iter) index) hw = Some h1" "grown hw h1"
    by (rule succeedsE [OF hw_put_grown [OF grown_wf(2) [OF iter(3)]]]) (use iter(2) in auto)
  obtain h2 where h2: "ser_put (pwi_serializer iter) v h1 = Some h2" "grown h1 h2"
    by (rule succeedsE [OF ser_putD [OF iter(1) grown_wf(2) [OF h1(2)]]]) auto
  show ?thesis
    using True assms grown_trans [OF iter(3) grown_trans [OF h1(2) h2(2)]] by (simp add: Prefixed_Write_def h1(1) h2(1) Prefixed_ok_def)
qed (use assms in \<open>auto simp: Prefixed_Write_def\<close>)

lemma Prefixed_finish_ok: "Prefixed_ok base iter hw \<Longrightarrow> succeeds (Prefixed_finish iter hw) (grown base)"
  using reserved_store [of base hw "IT_bytes (pwi_index iter) (pwi_count iter)" "pwi_countPosition iter"]
  by (auto simp: Prefixed_finish_def Prefixed_ok_def elim!: succeeds_mono)


definition Range_ok :: "HeaderWriter \<Rightarrow> 'a RangeWriteIterator \<Rightarrow> HeaderWriter \<Rightarrow> bool" where
  "Range_ok base iter hw \<longleftrightarrow> grown base hw \<and> (rwi_isValid iter \<longrightarrow>
     ser_total (rwi_serializer iter) \<and> reserved base (IT_SIZE (rwi_index iter)) (rwi_range iter))"

lemma RangeWriteIterator_of_ok:
  assumes "grown base hw" and "ser_total ser"
  shows "succeeds (RangeWriteIterator_of it start ser hw) (\<lambda>(iter, hw'). Range_ok base iter hw')"
proof (cases "2 * IT_SIZE it \<le> wsize (hw_position hw)")
  case True
  have res: "reserved base (length (IT_bytes it start) + IT_SIZE it) (copy_position hw)"
    using reserved_here [OF assms(1) True] by (simp add: mult_2)
  obtain c h1 where h1: "copy_Format (copy_position hw) (IT_bytes it start) hw = Some (c, h1)" "grown base h1" "reserved base (IT_SIZE it) c"
    using reserved_Format [OF assms(1) res] by (auto elim!: succeedsE)
  show ?thesis
    using True assms(2) h1(2,3) grown_trans [OF h1(2) hw_advance_grown(1) [OF grown_wf(2) [OF h1(2)]]]
    by (simp add: RangeWriteIterator_of_def Let_def h1(1) Range_ok_def)
qed (use assms in \<open>auto simp: RangeWriteIterator_of_def Let_def Range_ok_def\<close>)

lemma IterateOverRange_ok:
  assumes "grown base hw" and "ser_total ser"
  shows "succeeds (IterateOverRange it qc ser start hw) (\<lambda>(iter, hw'). Range_ok base iter hw')"
  unfolding IterateOverRange_def
proof (rule succeeds_bind [OF WriteHeaderWithReserve_grown [OF grown_wf(2) [OF assms(1)]]])
  fix r
  assume r: "case r of (ok, hw') \<Rightarrow> grown hw hw' \<and> hw_mark hw' = hw_mark hw \<and>
    (ok \<longrightarrow> 2 * IT_SIZE it + ser_Size ser \<le> HW_Remaining hw' \<and> HW_Remaining hw' + 3 = HW_Remaining hw)"
  obtain ok hw' where [simp]: "r = (ok, hw')"
    by (cases r)
  have g: "grown base hw'"
    using grown_trans [OF assms(1)] r by auto
  then show "succeeds (case r of (ok, hw) \<Rightarrow> if ok then RangeWriteIterator_of it start ser hw else Some (RangeWriteIterator_Null it, hw))
      (\<lambda>(iter, hw'). Range_ok base iter hw')"
    using RangeWriteIterator_of_ok [OF g assms(2)] by (simp add: Range_ok_def RangeWriteIterator_Null_def)
qed

lemma Range_Write_ok:
  assumes "Range_ok base iter hw"
  shows "succeeds (Range_Write v iter hw) (\<lambda>(_, iter', hw'). Range_ok base iter' hw')"
proof (cases "rwi_isValid iter")
  case True
  then have iter: "ser_total (rwi_serializer iter)" "grown base hw"
    using assms by (auto simp: Range_ok_def)
  obtain h1 where h1: "ser_put (rwi_serializer iter) v hw = Some h1" "grown hw h1"
    by (rule succeedsE [OF ser_putD [OF iter(1) grown_wf(2) [OF iter(2)]]]) auto
  show ?thesis
    using assms grown_trans [OF iter(2) h1(2)] by (simp add: Range_Write_def h1(1) Range_ok_def)
qed (use assms in \<open>auto simp: Range_Write_def\<close>)

lemma Range_finish_ok: "Range_ok base iter hw \<Longrightarrow> succeeds (Range_finish iter hw) (grown base)"
  by (auto simp: Range_finish_def Range_ok_def Let_def intro: succeeds_mono [OF reserved_store])

text \<open>The bitfield is written behind the position, which moves when the iterator is finished.\<close>

definition Bitfield_ok :: "HeaderWriter \<Rightarrow> BitfieldRangeWriteIterator \<Rightarrow> HeaderWriter \<Rightarrow> bool" where
  "Bitfield_ok base iter hw \<longleftrightarrow> grown base hw \<and> (bwi_isValid iter \<longrightarrow>
     bwi_maxCount iter = of_nat (wsize (hw_position hw)) * 8 \<and> reserved base (IT_SIZE (bwi_index iter)) (bwi_range iter))"

lemma BitfieldRangeWriteIterator_of_ok:
  assumes "grown base hw"
  shows "succeeds (BitfieldRangeWriteIterator_of it start hw) (\<lambda>(iter, hw'). Bitfield_ok base iter hw')"
proof (cases "2 * IT_SIZE it \<le> wsize (hw_position hw)")
  case True
  have res: "reserved base (length (IT_bytes it start) + IT_SIZE it) (copy_position hw)"
    using reserved_here [OF assms(1) True] by (simp add: mult_2)
  obtain c h1 where h1: "copy_Format (copy_position hw) (IT_bytes it start) hw = Some (c, h1)" "grown base h1" "reserved base (IT_SIZE it) c"
    using reserved_Format [OF assms(1) res] by (auto elim!: succeedsE)
  show ?thesis
    using True h1(2,3) grown_trans [OF h1(2) hw_advance_grown(1) [OF grown_wf(2) [OF h1(2)]]]
    by (simp add: BitfieldRangeWriteIterator_of_def Let_def h1(1) Bitfield_ok_def)
qed (use assms in \<open>auto simp: BitfieldRangeWriteIterator_of_def Let_def Bitfield_ok_def\<close>)

lemma IterateOverSingleBitfield_ok:
  assumes "grown base hw"
  shows "succeeds (IterateOverSingleBitfield it grp variation qc start hw) (\<lambda>(iter, hw'). Bitfield_ok base iter hw')"
  unfolding IterateOverSingleBitfield_def
proof (rule succeeds_bind [OF WriteHeaderWithReserve_grown [OF grown_wf(2) [OF assms(1)]]])
  fix r
  assume r: "case r of (ok, hw') \<Rightarrow> grown hw hw' \<and> hw_mark hw' = hw_mark hw \<and>
    (ok \<longrightarrow> 2 * IT_SIZE it + 1 \<le> HW_Remaining hw' \<and> HW_Remaining hw' + 3 = HW_Remaining hw)"
  obtain ok hw' where [simp]: "r = (ok, hw')"
    by (cases r)
  have g: "grown base hw'"
    using grown_trans [OF assms(1)] r by auto
  then show "succeeds (case r of (ok, hw) \<Rightarrow> if ok then BitfieldRangeWriteIterator_of it start hw
      else Some (BitfieldRangeWriteIterator_Null it, hw)) (\<lambda>(iter, hw'). Bitfield_ok base iter hw')"
    using BitfieldRangeWriteIterator_of_ok [OF g] by (simp add: Bitfield_ok_def BitfieldRangeWriteIterator_Null_def)
qed

lemma hw_set_grown:
  assumes "grown base hw" and "i < wsize (hw_position hw)"
  shows "succeeds (hw_set i b hw) (\<lambda>hw'. grown base hw' \<and> wsize (hw_position hw') = wsize (hw_position hw))"
proof -
  define p where "p = hw_position hw"
  define q where "q = hw_position base"
  have g: "wslice_wf q" "wslice_wf p" "wpos q \<le> wpos p" "wpos p + wsize p = wpos q + wsize q" "length (wbuf p) = length (wbuf q)"
      "take (wpos q) (wbuf p) = take (wpos q) (wbuf q)" "drop (wpos q + wsize q) (wbuf p) = drop (wpos q + wsize q) (wbuf q)"
    using assms(1) grown_wf(2) [OF assms(1)] by (simp_all add: grown_def writer_wf_def Let_def p_def q_def)
  have "wpos p + i < length (wbuf p)"
    using assms(2) g(2) by (simp add: wslice_wf_def flip: p_def)
  then have "hw_set i b hw = Some (hw\<lparr>hw_position := p\<lparr>wbuf := (wbuf p)[wpos p + i := b]\<rparr>\<rparr>)"
    using assms(2) g(2) by (simp add: hw_set_def wslice_store_succeeds upd_conv_take_nth_drop flip: p_def)
  then show ?thesis
    using g assms(2) by (simp add: grown_def Let_def flip: p_def q_def)
qed


lemma Bitfield_Write_ok:
  assumes "Bitfield_ok base iter hw"
  shows "succeeds (Bitfield_Write v iter hw) (\<lambda>(_, iter', hw'). Bitfield_ok base iter' hw')"
proof (cases "bwi_isValid iter \<and> ucast (bwi_count iter) < bwi_maxCount iter")
  case True
  define byte where "byte = unat (bwi_count iter) div 8"
  have g: "grown base hw" and maxc: "bwi_maxCount iter = of_nat (wsize (hw_position hw)) * 8"
      and res: "reserved base (IT_SIZE (bwi_index iter)) (bwi_range iter)"
    using assms True by (auto simp: Bitfield_ok_def)
  have "unat (bwi_count iter) < unat (of_nat (wsize (hw_position hw) * 8) :: u32)"
    using True maxc by (simp add: word_less_nat_alt unat_ucast_u16)
  also have "\<dots> \<le> wsize (hw_position hw) * 8"
    by (simp only: unat_of_nat mod_less_eq_dividend)
  finally have byte: "byte < wsize (hw_position hw)"
    by (simp add: byte_def less_mult_imp_div_less)
  obtain h1 where h1: "(if unat (bwi_count iter) mod 8 = 0 then hw_set byte 0 hw else Some hw) = Some h1" "grown base h1"
      "wsize (hw_position h1) = wsize (hw_position hw)"
    using hw_set_grown [OF g byte, of 0] g by (cases "unat (bwi_count iter) mod 8 = 0") (auto elim!: succeedsE)
  have "hw_get byte h1 \<noteq> None"
    using byte h1(3) grown_wf(2) [OF h1(2)] by (auto simp: hw_get_def Let_def WSlice_ToRSlice_def writer_wf_def wslice_wf_def)
  then obtain old where old: "hw_get byte h1 = Some old"
    by blast
  obtain h2 where h2: "(if v then hw_set byte (old OR push_bit (unat (bwi_count iter) mod 8) 1) h1 else Some h1) = Some h2" "grown base h2"
      "wsize (hw_position h2) = wsize (hw_position hw)"
    using hw_set_grown [OF h1(2), of byte "old OR push_bit (unat (bwi_count iter) mod 8) 1"] h1(2,3) byte
    by (cases v) (auto elim!: succeedsE)
  have "Bitfield_Write v iter hw = Some (True, iter\<lparr>bwi_count := IT_cast (bwi_index iter) (bwi_count iter + 1)\<rparr>, h2)"
    using True h1(1) old h2(1) by (cases v) (simp_all add: Bitfield_Write_def Let_def flip: byte_def)
  then show ?thesis
    using h2(2,3) maxc res by (simp add: Bitfield_ok_def)
qed (use assms in \<open>auto simp: Bitfield_Write_def\<close>)

lemma Bitfield_finish_ok:
  assumes "Bitfield_ok base iter hw"
  shows "succeeds (Bitfield_finish iter hw) (grown base)"
proof (cases "bwi_isValid iter \<and> bwi_count iter > 0")
  case True
  define stop where "stop = IT_cast (bwi_index iter) (bwi_start iter + bwi_count iter - 1)"
  have res: "reserved base (length (IT_bytes (bwi_index iter) stop) + 0) (bwi_range iter)" and g: "grown base hw"
    using assms True by (simp_all add: Bitfield_ok_def)
  obtain c h1 where h1: "copy_Format (bwi_range iter) (IT_bytes (bwi_index iter) stop) hw = Some (c, h1)" "grown base h1"
    using reserved_Format [OF g res] by (auto elim!: succeedsE)
  show ?thesis
    using True h1 grown_trans [OF h1(2) hw_advance_grown(1) [OF grown_wf(2) [OF h1(2)]]]
    by (simp add: Bitfield_finish_def Let_def flip: stop_def)
qed (use assms in \<open>auto simp: Bitfield_finish_def Bitfield_ok_def\<close>)


section \<open>Single values\<close>

lemma WriteSingleValue_grown:
  assumes "writer_wf hw" and "ser_total ser"
  shows "succeeds (WriteSingleValue it qc ser v hw) (\<lambda>(_, hw'). grown hw hw' \<and> hw_mark hw' = hw_mark hw)"
  unfolding WriteSingleValue_def
proof (rule succeeds_bind [OF WriteHeaderWithReserve_grown [OF assms(1)]])
  fix r
  assume r: "case r of (ok, hw') \<Rightarrow> grown hw hw' \<and> hw_mark hw' = hw_mark hw \<and>
    (ok \<longrightarrow> IT_SIZE it + ser_Size ser \<le> HW_Remaining hw' \<and> HW_Remaining hw' + 3 = HW_Remaining hw)"
  obtain ok h1 where [simp]: "r = (ok, h1)"
    by (cases r)
  show "succeeds (case r of (ok, hw) \<Rightarrow>
      if ok then do { hw \<leftarrow> hw_put (IT_bytes it 1) hw; hw \<leftarrow> ser_put ser v hw; Some (True, hw) } else Some (False, hw))
      (\<lambda>(_, hw'). grown hw hw' \<and> hw_mark hw' = hw_mark hw)"
  proof (cases ok)
    case True
    then have g: "grown hw h1" "IT_SIZE it \<le> HW_Remaining h1"
      using r by auto
    obtain h2 where h2: "hw_put (IT_bytes it 1) h1 = Some h2" "grown h1 h2" "hw_mark h2 = hw_mark h1"
      by (rule succeedsE [OF hw_put_grown [OF grown_wf(2) [OF g(1)]]]) (use g(2) in auto)
    obtain h3 where h3: "ser_put ser v h2 = Some h3" "grown h2 h3" "hw_mark h3 = hw_mark h2"
      by (rule succeedsE [OF ser_putD [OF assms(2) grown_wf(2) [OF h2(2)]]]) auto
    show ?thesis
      using True r grown_trans [OF g(1) grown_trans [OF h2(2) h3(2)]] by (simp add: h2(1,3) h3(1,3))
  qed (use r in auto)
qed

text \<open>The roll-back of a header whose iterator turned out not to be valid.\<close>

lemma Rollback_grown:
  assumes "grown hw hw'" and "hw_mark hw' = Some (wpos (hw_position hw), wsize (hw_position hw))"
  shows "grown hw (snd (HW_Rollback hw'))"
  using assms by (simp add: HW_Rollback_def grown_def Let_def)

lemma IterateOverCountWithPrefixAndCTO_ok:
  assumes "writer_wf hw" and "ser_total ser" and "ser_total cto_ser"
  shows "succeeds (IterateOverCountWithPrefixAndCTO it qc ser cto_ser cto hw) (\<lambda>(iter, hw'). Prefixed_ok hw iter hw')"
  unfolding IterateOverCountWithPrefixAndCTO_def
proof (rule succeeds_bind)
  have wf: "writer_wf (HW_Mark hw)"
    using assms(1) by (simp add: HW_Mark_def)
  show "succeeds (WriteSingleValue IT_UInt8 QC_UINT8_CNT cto_ser cto (HW_Mark hw))
      (\<lambda>(_, h). grown hw h \<and> hw_mark h = Some (wpos (hw_position hw), wsize (hw_position hw)))"
    by (rule succeeds_mono [OF WriteSingleValue_grown [OF wf assms(3)]]) (auto simp: HW_Mark_def)
next
  fix r :: "bool \<times> HeaderWriter"
  assume r: "case r of (_, h) \<Rightarrow> grown hw h \<and> hw_mark h = Some (wpos (hw_position hw), wsize (hw_position hw))"
  obtain ok h1 where [simp]: "r = (ok, h1)"
    by (cases r)
  have h1: "grown hw h1" "hw_mark h1 = Some (wpos (hw_position hw), wsize (hw_position hw))"
    using r by auto
  obtain iter h2 where h2: "IterateOverCountWithPrefix it qc ser h1 = Some (iter, h2)" "Prefixed_ok hw iter h2" "hw_mark h2 = hw_mark h1"
    using IterateOverCountWithPrefix_ok [OF h1(1) assms(2), of it qc] by (auto elim!: succeedsE)
  show "succeeds (case r of (ok, hw) \<Rightarrow>
      if ok then do { (iter, hw) \<leftarrow> IterateOverCountWithPrefix it qc ser hw;
        Some (iter, if pwi_isValid iter then hw else snd (HW_Rollback hw)) }
      else Some (PrefixedWriteIterator_Null it, hw)) (\<lambda>(iter, hw'). Prefixed_ok hw iter hw')"
    using h1(1) h2 Rollback_grown [of hw h2] h1(2)
    by (auto simp: Prefixed_ok_def PrefixedWriteIterator_Null_def)
qed

end
