(* ===== verification/NodeList.thy ===== *)
theory NodeList
  imports Prelude
begin

text \<open>
  The doubly linked list in a fixed array of nodes (\<open>outstation/event/List.h\<close>): the used nodes are
  linked from \<open>head\<close> to \<open>tail\<close>, the others from \<open>free\<close>. A pointer to a node is its index in the
  array. The loops are given the state \<open>'s\<close> that their lambdas change, and read \<open>next\<close> from it.
\<close>

section \<open>The list\<close>

record 'a Node =
  nd_value :: 'a
  nd_prev :: "nat option"
  nd_next :: "nat option"

record 'a List =
  ls_head :: "nat option"
  ls_tail :: "nat option"
  ls_free :: "nat option"
  ls_size :: u32
  ls_capacity :: nat
  ls_node :: "nat \<Rightarrow> 'a Node"

definition set_next :: "nat \<Rightarrow> nat option \<Rightarrow> 'a List \<Rightarrow> 'a List" where
  "set_next p q l = l\<lparr>ls_node := (ls_node l)(p := (ls_node l p)\<lparr>nd_next := q\<rparr>)\<rparr>"

definition set_prev :: "nat \<Rightarrow> nat option \<Rightarrow> 'a List \<Rightarrow> 'a List" where
  "set_prev p q l = l\<lparr>ls_node := (ls_node l)(p := (ls_node l p)\<lparr>nd_prev := q\<rparr>)\<rparr>"

definition set_value :: "nat \<Rightarrow> 'a \<Rightarrow> 'a List \<Rightarrow> 'a List" where
  "set_value p v l = l\<lparr>ls_node := (ls_node l)(p := (ls_node l p)\<lparr>nd_value := v\<rparr>)\<rparr>"

abbreviation value_at :: "'a List \<Rightarrow> nat \<Rightarrow> 'a" where
  "value_at l n \<equiv> nd_value (ls_node l n)"

abbreviation next_of :: "'a List \<Rightarrow> nat \<Rightarrow> nat option" where
  "next_of l n \<equiv> nd_next (ls_node l n)"

definition Link :: "nat option \<Rightarrow> nat option \<Rightarrow> 'a List \<Rightarrow> 'a List" where
  "Link first second l =
     (let l = (case first of Some p \<Rightarrow> set_next p second l | None \<Rightarrow> l)
      in case second of Some q \<Rightarrow> set_prev q first l | None \<Rightarrow> l)"

definition List_Initialize :: "'a List \<Rightarrow> 'a List" where
  "List_Initialize l =
     (if ls_capacity l = 0 then l
      else fold (\<lambda>i. Link (Some (i - 1)) (Some i)) [1..<ls_capacity l] (l\<lparr>ls_free := Some 0\<rparr>))"

text \<open>The constructor; \<open>v\<close> is the default-constructed value of a node.\<close>

definition List_of :: "'a \<Rightarrow> nat \<Rightarrow> 'a List" where
  "List_of v maxSize = List_Initialize
     \<lparr>ls_head = None, ls_tail = None, ls_free = None, ls_size = 0, ls_capacity = maxSize,
      ls_node = (\<lambda>_. \<lparr>nd_value = v, nd_prev = None, nd_next = None\<rparr>)\<rparr>"

definition List_Insert :: "'a \<Rightarrow> nat option \<Rightarrow> nat option \<Rightarrow> 'a List \<Rightarrow> nat option \<times> 'a List" where
  "List_Insert v left right l =
     (case ls_free l of
        None \<Rightarrow> (None, l)
      | Some new_node \<Rightarrow>
          let l = l\<lparr>ls_free := next_of l new_node\<rparr>;
              l = set_value new_node v l;
              l = l\<lparr>ls_size := ls_size l + 1\<rparr>;
              l = Link left (Some new_node) l;
              l = Link (Some new_node) right l;
              l = (if left = None then l\<lparr>ls_head := Some new_node\<rparr> else l);
              l = (if right = None then l\<lparr>ls_tail := Some new_node\<rparr> else l)
          in (Some new_node, l))"

definition List_Add :: "'a \<Rightarrow> 'a List \<Rightarrow> nat option \<times> 'a List" where
  "List_Add v l = List_Insert v (ls_tail l) None l"

definition List_Remove :: "nat \<Rightarrow> 'a List \<Rightarrow> 'a List" where
  "List_Remove node l =
     (let l = (if Some node = ls_head l then l\<lparr>ls_head := next_of l node\<rparr> else l);
          l = (if Some node = ls_tail l then l\<lparr>ls_tail := nd_prev (ls_node l node)\<rparr> else l);
          l = Link (nd_prev (ls_node l node)) (next_of l node) l;
          l = set_prev node None l;
          l = Link (Some node) (ls_free l) l
      in l\<lparr>ls_free := Some node, ls_size := ls_size l - 1\<rparr>)"

definition IsFullAndCapacityNotZero :: "'a List \<Rightarrow> bool" where
  "IsFullAndCapacityNotZero l \<longleftrightarrow> ls_free l = None \<and> ls_capacity l > 0"


section \<open>Loops\<close>

partial_function (option) ForeachWhile ::
    "('s \<Rightarrow> nat \<Rightarrow> nat option) \<Rightarrow> (nat \<Rightarrow> 's \<Rightarrow> (bool \<times> 's) option) \<Rightarrow> nat option \<Rightarrow> 's \<Rightarrow> 's option" where
  "ForeachWhile nxt select iter s =
     (case iter of
        None \<Rightarrow> Some s
      | Some n \<Rightarrow> do {
          let iter = nxt s n;
          (result, s) \<leftarrow> select n s;
          if result then ForeachWhile nxt select iter s else Some s })"

declare ForeachWhile.simps [code]

partial_function (option) List_Foreach ::
    "('s \<Rightarrow> nat \<Rightarrow> nat option) \<Rightarrow> (nat \<Rightarrow> 's \<Rightarrow> 's option) \<Rightarrow> nat option \<Rightarrow> 's \<Rightarrow> 's option" where
  "List_Foreach nxt action iter s =
     (case iter of
        None \<Rightarrow> Some s
      | Some n \<Rightarrow> do {
          let iter = nxt s n;
          s \<leftarrow> action n s;
          List_Foreach nxt action iter s })"

declare List_Foreach.simps [code]

text \<open>\<open>current\<close> is one node behind the iterator.\<close>

partial_function (option) RemoveAll_loop ::
    "('s \<Rightarrow> nat \<Rightarrow> nat option) \<Rightarrow> (nat \<Rightarrow> 's \<Rightarrow> (bool \<times> 's) option) \<Rightarrow> (nat \<Rightarrow> 's \<Rightarrow> 's) \<Rightarrow> nat option \<Rightarrow> nat option \<Rightarrow> u32 \<Rightarrow> 's \<Rightarrow>
     (u32 \<times> 's) option" where
  "RemoveAll_loop nxt matches remove current iter count s =
     (case current of
        None \<Rightarrow> Some (count, s)
      | Some n \<Rightarrow> do {
          (hit, s) \<leftarrow> matches n s;
          let following = (case iter of None \<Rightarrow> None | Some m \<Rightarrow> nxt s m);
          if hit then RemoveAll_loop nxt matches remove iter following (count + 1) (remove n s)
          else RemoveAll_loop nxt matches remove iter following count s })"

declare RemoveAll_loop.simps [code]

definition RemoveAll ::
    "('s \<Rightarrow> nat \<Rightarrow> nat option) \<Rightarrow> (nat \<Rightarrow> 's \<Rightarrow> (bool \<times> 's) option) \<Rightarrow> (nat \<Rightarrow> 's \<Rightarrow> 's) \<Rightarrow> nat option \<Rightarrow> 's \<Rightarrow>
     (u32 \<times> 's) option" where
  "RemoveAll nxt matches remove hd_node s =
     RemoveAll_loop nxt matches remove hd_node (case hd_node of None \<Rightarrow> None | Some n \<Rightarrow> nxt s n) 0 s"


section \<open>The nodes in order\<close>

definition hd_opt :: "'b list \<Rightarrow> 'b option" where
  "hd_opt xs = (case xs of [] \<Rightarrow> None | x # _ \<Rightarrow> Some x)"

definition last_opt :: "'b list \<Rightarrow> 'b option" where
  "last_opt xs = (if xs = [] then None else Some (last xs))"

lemma hd_opt_simps [simp]: "hd_opt [] = None" "hd_opt (x # xs) = Some x"
  by (simp_all add: hd_opt_def)

lemma last_opt_simps [simp]: "last_opt [] = None" "last_opt [x] = Some x" "last_opt (xs @ [x]) = Some x"
  by (simp_all add: last_opt_def)

lemma hd_opt_append: "hd_opt (xs @ ys) = (if xs = [] then hd_opt ys else hd_opt xs)"
  by (cases xs) simp_all

lemma last_opt_append: "last_opt (xs @ ys) = (if ys = [] then last_opt xs else last_opt ys)"
  by (simp add: last_opt_def)

lemma hd_opt_in: "hd_opt xs = Some x \<Longrightarrow> x \<in> set xs" and last_opt_in: "last_opt xs = Some x \<Longrightarrow> x \<in> set xs"
  by (auto simp: hd_opt_def last_opt_def split: list.splits if_splits)

lemma if_opt_simps [simp]:
  "(if xs = [] then None else hd_opt xs) = hd_opt xs" "(if xs = [] then None else last_opt xs) = last_opt xs"
  by simp_all

text \<open>The nodes are linked one after the other, the last one to \<open>right\<close>; back, the first one to \<open>left\<close>.\<close>

fun nchain :: "(nat \<Rightarrow> 'a Node) \<Rightarrow> nat list \<Rightarrow> nat option \<Rightarrow> bool" where
  "nchain h [] right \<longleftrightarrow> True"
| "nchain h (n # ns) right \<longleftrightarrow> nd_next (h n) = (if ns = [] then right else hd_opt ns) \<and> nchain h ns right"

fun pchain :: "(nat \<Rightarrow> 'a Node) \<Rightarrow> nat option \<Rightarrow> nat list \<Rightarrow> bool" where
  "pchain h left [] \<longleftrightarrow> True"
| "pchain h left (n # ns) \<longleftrightarrow> nd_prev (h n) = left \<and> pchain h (Some n) ns"

fun walk :: "(nat \<Rightarrow> 'a Node) \<Rightarrow> nat \<Rightarrow> nat option \<Rightarrow> nat list" where
  "walk h k None = []"
| "walk h 0 p = []"
| "walk h (Suc k) (Some n) = n # walk h k (nd_next (h n))"

definition nodes :: "'a List \<Rightarrow> nat list" where
  "nodes l = walk (ls_node l) (ls_capacity l) (ls_head l)"

text \<open>The used nodes \<open>ns\<close> and the free nodes \<open>fs\<close> are all nodes of the array, each exactly once.\<close>

definition shape :: "'a List \<Rightarrow> nat list \<Rightarrow> nat list \<Rightarrow> bool" where
  "shape l ns fs \<longleftrightarrow>
     distinct (ns @ fs) \<and> set (ns @ fs) = {..<ls_capacity l} \<and>
     ls_head l = hd_opt ns \<and> ls_tail l = last_opt ns \<and> ls_free l = hd_opt fs \<and>
     nchain (ls_node l) ns None \<and> pchain (ls_node l) None ns \<and> nchain (ls_node l) fs None \<and>
     ls_size l = of_nat (length ns)"

definition list_ok :: "'a List \<Rightarrow> bool" where
  "list_ok l \<longleftrightarrow> (\<exists>fs. shape l (nodes l) fs)"

lemma nchain_cong: "(\<And>n. n \<in> set ns \<Longrightarrow> nd_next (h n) = nd_next (h' n)) \<Longrightarrow> nchain h ns right = nchain h' ns right"
  by (induction ns) simp_all

lemma pchain_cong: "(\<And>n. n \<in> set ns \<Longrightarrow> nd_prev (h n) = nd_prev (h' n)) \<Longrightarrow> pchain h left ns = pchain h' left ns"
  by (induction ns arbitrary: left) simp_all

lemma nchain_append: "nchain h (xs @ ys) right \<longleftrightarrow> nchain h xs (if ys = [] then right else hd_opt ys) \<and> nchain h ys right"
  by (induction xs) (auto simp: hd_opt_def split: list.splits)

lemma pchain_append: "pchain h left (xs @ ys) \<longleftrightarrow> pchain h left xs \<and> pchain h (if xs = [] then left else last_opt xs) ys"
  by (induction xs arbitrary: left) (auto simp: last_opt_def)

lemma walk_nchain: "nchain h ns None \<Longrightarrow> length ns \<le> k \<Longrightarrow> walk h k (hd_opt ns) = ns"
proof (induction ns arbitrary: k)
  case (Cons n ns)
  then obtain k' where "k = Suc k'" "length ns \<le> k'"
    by (cases k) auto
  moreover have "nd_next (h n) = hd_opt ns"
    using Cons.prems by (cases ns) simp_all
  ultimately show ?case
    using Cons by simp
qed simp

lemma shape_length: "shape l ns fs \<Longrightarrow> length ns + length fs = ls_capacity l"
proof -
  assume s: "shape l ns fs"
  then have "length (ns @ fs) = card (set (ns @ fs))"
    by (metis distinct_card shape_def)
  with s show ?thesis
    by (simp add: shape_def)
qed

lemma shape_nodes: "shape l ns fs \<Longrightarrow> nodes l = ns"
  using shape_length [of l ns fs] unfolding nodes_def shape_def by (metis le_add1 walk_nchain)

lemma list_okI: "shape l ns fs \<Longrightarrow> list_ok l"
  using shape_nodes unfolding list_ok_def by metis

lemma list_okE:
  assumes "list_ok l"
  obtains fs where "shape l (nodes l) fs"
  using assms unfolding list_ok_def by blast

lemmas link_simps = set_next_def set_prev_def set_value_def Link_def Let_def

lemma nchain_upd [simp]:
  "n \<notin> set ns \<Longrightarrow> nchain (h(n := x)) ns right = nchain h ns right"
  "nd_next x = nd_next (h n) \<Longrightarrow> nchain (h(n := x)) ns right = nchain h ns right"
  by (rule nchain_cong; auto)+

lemma pchain_upd [simp]:
  "n \<notin> set ns \<Longrightarrow> pchain (h(n := x)) left ns = pchain h left ns"
  "nd_prev x = nd_prev (h n) \<Longrightarrow> pchain (h(n := x)) left ns = pchain h left ns"
  by (rule pchain_cong; auto)+

lemma shape_Add:
  fixes v :: 'a
  assumes "shape l ns (n # fs)"
  defines "l' \<equiv> snd (List_Add v l)"
  shows "List_Add v l = (Some n, l')" and "shape l' (ns @ [n]) fs" and "ls_capacity l' = ls_capacity l"
    and "value_at l' = (value_at l)(n := v)"
proof -
  have free: "ls_free l = Some n" and tail: "ls_tail l = last_opt ns" and head: "ls_head l = hd_opt ns"
    and next_n: "nd_next (ls_node l n) = hd_opt fs"
    and dist: "distinct (ns @ n # fs)" and set: "set (ns @ n # fs) = {..<ls_capacity l}"
    and chains: "nchain (ls_node l) ns None" "pchain (ls_node l) None ns" "nchain (ls_node l) fs None"
    and size: "ls_size l = of_nat (length ns)"
    using assms(1) by (auto simp: shape_def)
  show "List_Add v l = (Some n, l')"
    by (simp add: l'_def List_Add_def List_Insert_def free Let_def)
  show "ls_capacity l' = ls_capacity l"
    by (simp add: l'_def List_Add_def List_Insert_def free link_simps split: option.splits)
  show "value_at l' = (value_at l)(n := v)"
    by (auto simp: l'_def List_Add_def List_Insert_def free link_simps split: option.splits)
  show "shape l' (ns @ [n]) fs"
  proof (cases ns rule: rev_cases)
    case Nil
    then show ?thesis
      using dist set chains size next_n
      by (simp add: shape_def l'_def List_Add_def List_Insert_def free tail head link_simps)
  next
    case (snoc xs t)
    have neq: "t \<noteq> n" "t \<notin> set xs" "n \<notin> set xs" "t \<notin> set fs" "n \<notin> set fs"
      using dist by (auto simp: snoc)
    have sets: "insert n (set ns \<union> set fs) = {..<ls_capacity l}"
      using set by auto
    show ?thesis
      using dist sets chains size neq
      by (simp add: shape_def l'_def List_Add_def List_Insert_def free tail head next_n link_simps snoc nchain_append pchain_append
          hd_opt_append last_opt_def insert_commute)
  qed
qed


lemma Link_sel [simp]:
  "ls_head (Link p q l) = ls_head l" "ls_tail (Link p q l) = ls_tail l" "ls_free (Link p q l) = ls_free l"
  "ls_size (Link p q l) = ls_size l" "ls_capacity (Link p q l) = ls_capacity l"
  "value_at (Link p q l) m = value_at l m"
  "next_of (Link p q l) m = (if p = Some m then q else next_of l m)"
  "nd_prev (ls_node (Link p q l) m) = (if q = Some m then p else nd_prev (ls_node l m))"
  by (auto simp: link_simps split: option.splits)

lemma set_prev_sel [simp]:
  "ls_head (set_prev p q l) = ls_head l" "ls_tail (set_prev p q l) = ls_tail l" "ls_free (set_prev p q l) = ls_free l"
  "ls_size (set_prev p q l) = ls_size l" "ls_capacity (set_prev p q l) = ls_capacity l"
  "value_at (set_prev p q l) m = value_at l m" "next_of (set_prev p q l) m = next_of l m"
  "nd_prev (ls_node (set_prev p q l) m) = (if m = p then q else nd_prev (ls_node l m))"
  by (simp_all add: set_prev_def)

lemma Remove_sel:
  "ls_capacity (List_Remove n l) = ls_capacity l"
  "value_at (List_Remove n l) m = value_at l m"
  "ls_free (List_Remove n l) = Some n" "ls_size (List_Remove n l) = ls_size l - 1"
  "ls_head (List_Remove n l) = (if Some n = ls_head l then next_of l n else ls_head l)"
  "ls_tail (List_Remove n l) = (if Some n = ls_tail l then nd_prev (ls_node l n) else ls_tail l)"
  "next_of (List_Remove n l) m =
     (if m = n then ls_free l else if nd_prev (ls_node l n) = Some m then next_of l n else next_of l m)"
  "nd_prev (ls_node (List_Remove n l) m) =
     (if ls_free l = Some m then Some n else if m = n then None else if next_of l n = Some m then nd_prev (ls_node l n)
      else nd_prev (ls_node l m))"
  by (simp_all add: List_Remove_def Let_def)

lemma shape_Remove:
  assumes "shape l (xs @ n # ys) fs"
  shows "shape (List_Remove n l) (xs @ ys) (n # fs)" and "ls_capacity (List_Remove n l) = ls_capacity l"
    and "value_at (List_Remove n l) = value_at l"
proof -
  define h where "h = ls_node l"
  have dist: "distinct (xs @ n # ys @ fs)" and set: "insert n (set xs \<union> set ys \<union> set fs) = {..<ls_capacity l}"
    and head: "ls_head l = (if xs = [] then Some n else hd_opt xs)"
    and tail: "ls_tail l = (if ys = [] then Some n else last_opt ys)"
    and free: "ls_free l = hd_opt fs"
    and chains: "nchain h xs (Some n)" "nd_next (h n) = hd_opt ys" "nchain h ys None"
      "pchain h None xs" "nd_prev (h n) = last_opt xs" "pchain h (Some n) ys" "nchain h fs None"
    and size: "ls_size l = of_nat (length xs + length ys) + 1"
  proof -
    have s: "distinct (xs @ n # ys @ fs)" "set ((xs @ n # ys) @ fs) = {..<ls_capacity l}" "ls_head l = hd_opt (xs @ n # ys)"
        "ls_tail l = last_opt (xs @ n # ys)" "ls_free l = hd_opt fs" "nchain h (xs @ n # ys) None" "pchain h None (xs @ n # ys)"
        "nchain h fs None" "ls_size l = of_nat (length (xs @ n # ys))"
      using assms by (simp_all add: shape_def h_def)
    show "distinct (xs @ n # ys @ fs)" "ls_free l = hd_opt fs" "nchain h fs None"
      by fact+
    show "insert n (set xs \<union> set ys \<union> set fs) = {..<ls_capacity l}"
      using s(2) by auto
    show "ls_head l = (if xs = [] then Some n else hd_opt xs)" "ls_tail l = (if ys = [] then Some n else last_opt ys)"
      using s(3,4) by (simp_all add: hd_opt_append last_opt_append) (cases ys; simp add: last_opt_def)
    show "nchain h xs (Some n)" "nd_next (h n) = hd_opt ys" "nchain h ys None"
      using s(6) by (simp_all add: nchain_append)
    show "pchain h None xs" "nd_prev (h n) = last_opt xs" "pchain h (Some n) ys"
      using s(7) by (simp_all add: pchain_append)
    show "ls_size l = of_nat (length xs + length ys) + 1"
      using s(9) by simp
  qed
  show "ls_capacity (List_Remove n l) = ls_capacity l" "value_at (List_Remove n l) = value_at l"
    by (simp_all add: Remove_sel fun_eq_iff)
  let ?h = "ls_node (List_Remove n l)"
  have ends: "hd_opt (xs @ ys) = (if xs = [] then hd_opt ys else hd_opt xs)" "last_opt (xs @ ys) = (if ys = [] then last_opt xs else last_opt ys)"
    by (simp_all add: hd_opt_append last_opt_append)
  have "nchain ?h xs (hd_opt ys)"
  proof (cases xs rule: rev_cases)
    case (snoc xs' t)
    then have "nchain h xs' (Some t)" "nd_prev (h n) = Some t" "t \<noteq> n" "t \<notin> set xs'" "n \<notin> set xs'"
      using chains(1,5) dist by (auto simp: nchain_append)
    moreover from this have "nchain ?h xs' (Some t) = nchain h xs' (Some t)"
      by (intro nchain_cong) (auto simp: Remove_sel h_def)
    ultimately show ?thesis
      using chains(2) by (simp add: snoc nchain_append Remove_sel h_def)
  qed simp
  moreover have "nchain ?h ys None = nchain h ys None"
    using dist chains(5) by (intro nchain_cong) (auto simp: Remove_sel h_def dest!: last_opt_in)
  moreover have "nchain ?h fs None = nchain h fs None"
    using dist chains(5) by (intro nchain_cong) (auto simp: Remove_sel h_def dest!: last_opt_in)
  moreover have "pchain ?h None xs = pchain h None xs"
    using dist chains(2) by (intro pchain_cong) (auto simp: Remove_sel free h_def dest!: hd_opt_in)
  moreover have "pchain ?h (last_opt xs) ys"
  proof (cases ys)
    case (Cons t ys')
    then have "pchain h (Some t) ys'" "nd_next (h n) = Some t"
      using chains(2,6) by simp_all
    moreover have "pchain ?h (Some t) ys' = pchain h (Some t) ys'"
      using dist chains(2) by (intro pchain_cong) (auto simp: Remove_sel free h_def Cons dest!: hd_opt_in)
    moreover have "hd_opt fs \<noteq> Some t" "t \<noteq> n"
      using dist by (auto simp: Cons hd_opt_def split: list.splits)
    ultimately show ?thesis
      using chains(5) by (simp add: Cons Remove_sel free h_def)
  qed simp
  ultimately have "nchain ?h (xs @ ys) None" "pchain ?h None (xs @ ys)" "nchain ?h (n # fs) None"
    using chains by (auto simp: nchain_append pchain_append Remove_sel free)
  moreover have "Some n \<noteq> hd_opt xs" "Some n \<noteq> last_opt ys"
    using dist by (auto dest: hd_opt_in [OF sym] last_opt_in [OF sym])
  then have "ls_head (List_Remove n l) = hd_opt (xs @ ys)" "ls_tail (List_Remove n l) = last_opt (xs @ ys)"
    using chains(2,5) by (simp_all add: Remove_sel head tail ends flip: h_def)
  moreover have "distinct ((xs @ ys) @ n # fs)" "set ((xs @ ys) @ n # fs) = {..<ls_capacity (List_Remove n l)}"
    using dist set by (auto simp: Remove_sel)
  moreover have "ls_free (List_Remove n l) = hd_opt (n # fs)" "ls_size (List_Remove n l) = of_nat (length (xs @ ys))"
    using size by (simp_all add: Remove_sel)
  ultimately show "shape (List_Remove n l) (xs @ ys) (n # fs)"
    unfolding shape_def by blast
qed


lemma fold_Link:
  "ls_node l' = ls_node l0 \<Longrightarrow> \<forall>i. next_of l0 i = None \<Longrightarrow>
     let l = fold (\<lambda>i. Link (Some (i - 1)) (Some i)) [1..<m] l' in
     (\<forall>i. next_of l i = (if Suc i < m then Some (Suc i) else None)) \<and>
     ls_head l = ls_head l' \<and> ls_tail l = ls_tail l' \<and> ls_free l = ls_free l' \<and> ls_size l = ls_size l' \<and> ls_capacity l = ls_capacity l'"
proof (induction m)
  case (Suc m)
  then show ?case
    by (cases "m = 0") (auto simp: Let_def less_Suc_eq)
qed (simp add: Let_def)

lemma nchain_upt: "(\<And>i. next_of l i = (if Suc i < m then Some (Suc i) else None)) \<Longrightarrow> nchain (ls_node l) [k..<m] None"
proof (induction "m - k" arbitrary: k)
  case (Suc d)
  then have "[k..<m] = k # [Suc k..<m]" "nchain (ls_node l) [Suc k..<m] None"
    by (simp_all add: upt_conv_Cons)
  moreover have "next_of l k = hd_opt [Suc k..<m]"
    using Suc.prems [of k] by (auto simp: hd_opt_def upt_conv_Cons)
  ultimately show ?case
    by simp
qed simp

lemma List_of_shape: "shape (List_of v k) [] [0..<k]"
  and List_of_capacity: "ls_capacity (List_of v k) = k"
proof -
  define l0 where "l0 = \<lparr>ls_head = None, ls_tail = None, ls_free = None, ls_size = 0, ls_capacity = k,
      ls_node = (\<lambda>_. \<lparr>nd_value = v, nd_prev = None, nd_next = None\<rparr>)\<rparr>"
  have l: "List_of v k = List_Initialize l0"
    by (simp add: List_of_def l0_def)
  have "shape (List_Initialize l0) [] [0..<k] \<and> ls_capacity (List_Initialize l0) = k"
  proof (cases "k = 0")
    case True
    then show ?thesis
      by (simp add: List_Initialize_def l0_def shape_def)
  next
    case False
    define l1 where "l1 = fold (\<lambda>i. Link (Some (i - 1)) (Some i)) [1..<k] (l0\<lparr>ls_free := Some 0\<rparr>)"
    have "next_of l1 i = (if Suc i < k then Some (Suc i) else None)" for i
      using fold_Link [of "l0\<lparr>ls_free := Some 0\<rparr>" l0 k] by (simp add: l1_def l0_def Let_def)
    then have "nchain (ls_node l1) [0..<k] None"
      by (rule nchain_upt)
    moreover have "ls_head l1 = None" "ls_tail l1 = None" "ls_free l1 = Some 0" "ls_size l1 = 0" "ls_capacity l1 = k"
      using fold_Link [of "l0\<lparr>ls_free := Some 0\<rparr>" l0 k] by (simp_all add: l1_def l0_def Let_def)
    moreover have "List_Initialize l0 = l1" "hd_opt [0..<k] = Some 0"
      using False by (simp_all add: List_Initialize_def l1_def) (simp_all add: l0_def upt_conv_Cons)
    ultimately show ?thesis
      by (simp add: shape_def lessThan_atLeast0)
  qed
  then show "shape (List_of v k) [] [0..<k]" "ls_capacity (List_of v k) = k"
    by (simp_all add: l)
qed


section \<open>The contract of the list\<close>

lemma nodes_List_of [simp]: "nodes (List_of v k) = []" and list_ok_List_of [simp]: "list_ok (List_of v k)"
  by (simp_all add: shape_nodes [OF List_of_shape] list_okI [OF List_of_shape])

lemma list_ok_distinct: "list_ok l \<Longrightarrow> distinct (nodes l)"
  by (auto simp: shape_def elim!: list_okE)

lemma list_ok_length: "list_ok l \<Longrightarrow> length (nodes l) \<le> ls_capacity l"
  using shape_length by (fastforce elim!: list_okE)

lemma list_ok_head: "list_ok l \<Longrightarrow> ls_head l = hd_opt (nodes l)"
  by (auto simp: shape_def elim!: list_okE)

lemma list_ok_next: "list_ok l \<Longrightarrow> nodes l = xs @ n # ys \<Longrightarrow> next_of l n = hd_opt ys"
  by (auto simp: shape_def nchain_append elim!: list_okE)

lemma list_ok_full: "list_ok l \<Longrightarrow> ls_free l = None \<longleftrightarrow> length (nodes l) = ls_capacity l"
proof -
  assume "list_ok l"
  then obtain fs where fs: "shape l (nodes l) fs"
    by (rule list_okE)
  then have "ls_free l = hd_opt fs"
    by (simp add: shape_def)
  with shape_length [OF fs] show ?thesis
    by (cases fs) auto
qed

lemma list_ok_Add:
  assumes "list_ok l" and "length (nodes l) < ls_capacity l"
  obtains n l' where "List_Add v l = (Some n, l')" "list_ok l'" "nodes l' = nodes l @ [n]" "n \<notin> set (nodes l)"
    "ls_capacity l' = ls_capacity l" "value_at l' = (value_at l)(n := v)"
proof -
  obtain fs' where fs': "shape l (nodes l) fs'"
    using assms(1) by (rule list_okE)
  then obtain n fs where "fs' = n # fs"
    using assms(2) shape_length [OF fs'] by (cases fs') auto
  with fs' have fs: "shape l (nodes l) (n # fs)"
    by simp
  then have "n \<notin> set (nodes l)"
    by (simp add: shape_def)
  with shape_Add [OF fs, of v] show ?thesis
    using that list_okI shape_nodes by metis
qed

lemma list_ok_Remove:
  assumes "list_ok l" and "n \<in> set (nodes l)"
  shows "list_ok (List_Remove n l)" and "nodes (List_Remove n l) = remove1 n (nodes l)"
proof -
  obtain fs xs ys where fs: "shape l (nodes l) fs" and ns: "nodes l = xs @ n # ys" and "n \<notin> set xs"
    using assms by (metis list_okE split_list_first)
  then have "shape (List_Remove n l) (xs @ ys) (n # fs)"
    using shape_Remove(1) [of l xs n ys fs] by simp
  then show "list_ok (List_Remove n l)" "nodes (List_Remove n l) = remove1 n (nodes l)"
    using \<open>n \<notin> set xs\<close> by (auto intro: list_okI simp: shape_nodes ns remove1_append)
qed

lemma set_value_shape: "shape (set_value n v l) ns fs = shape l ns fs"
proof -
  have "nchain (ls_node (set_value n v l)) xs r = nchain (ls_node l) xs r" "pchain (ls_node (set_value n v l)) p xs = pchain (ls_node l) p xs"
    for xs r p by (auto simp: set_value_def)
  then show ?thesis
    by (simp add: shape_def set_value_def)
qed

lemma nodes_set_value [simp]: "list_ok l \<Longrightarrow> nodes (set_value n v l) = nodes l"
  and list_ok_set_value [simp]: "list_ok l \<Longrightarrow> list_ok (set_value n v l)"
  by (metis list_okE set_value_shape shape_nodes) (metis list_okE list_okI set_value_shape)

lemma set_value_sel [simp]:
  "value_at (set_value n v l) m = (if m = n then v else value_at l m)" "ls_capacity (set_value n v l) = ls_capacity l"
  "next_of (set_value n v l) m = next_of l m" "ls_head (set_value n v l) = ls_head l" "ls_free (set_value n v l) = ls_free l"
  by (simp_all add: set_value_def)


section \<open>The loops are folds\<close>

fun fold_while :: "('b \<Rightarrow> 's \<Rightarrow> bool \<times> 's) \<Rightarrow> 'b list \<Rightarrow> 's \<Rightarrow> 's" where
  "fold_while f [] s = s"
| "fold_while f (n # ns) s = (if fst (f n s) then fold_while f ns (snd (f n s)) else snd (f n s))"

text \<open>A state with a list whose \<open>next\<close> pointers the loops follow.\<close>

locale linked_state =
  fixes inv :: "'s \<Rightarrow> bool" and ns :: "'s \<Rightarrow> nat list" and nxt :: "'s \<Rightarrow> nat \<Rightarrow> nat option"
  assumes next_node: "inv s \<Longrightarrow> ns s = xs @ n # ys \<Longrightarrow> nxt s n = hd_opt ys"
    and distinct_nodes: "inv s \<Longrightarrow> distinct (ns s)"
begin

lemma ForeachWhile_fold:
  assumes step: "\<And>n s. inv s \<Longrightarrow> n \<in> set (ns s) \<Longrightarrow> select n s = Some (f n s) \<and> inv (snd (f n s)) \<and> ns (snd (f n s)) = ns s"
  shows "inv s \<Longrightarrow> ns s = xs @ ys \<Longrightarrow>
    ForeachWhile nxt select (hd_opt ys) s = Some (fold_while f ys s) \<and> inv (fold_while f ys s) \<and> ns (fold_while f ys s) = ns s"
proof (induction ys arbitrary: xs s)
  case Nil
  then show ?case by (simp add: ForeachWhile.simps)
next
  case (Cons n ys)
  then have n: "n \<in> set (ns s)" "nxt s n = hd_opt ys"
    using next_node by auto
  note st = step [OF Cons.prems(1) n(1)]
  have "ForeachWhile nxt select (hd_opt ys) (snd (f n s)) = Some (fold_while f ys (snd (f n s))) \<and>
      inv (fold_while f ys (snd (f n s))) \<and> ns (fold_while f ys (snd (f n s))) = ns (snd (f n s))"
    using st Cons.prems by (intro Cons.IH [of _ "xs @ [n]"]) simp_all
  then show ?case
    using st n(2) by (subst ForeachWhile.simps) (auto simp: split: prod.splits)
qed

lemma Foreach_fold:
  assumes step: "\<And>n s. inv s \<Longrightarrow> n \<in> set (ns s) \<Longrightarrow> action n s = Some (f n s) \<and> inv (f n s) \<and> ns (f n s) = ns s"
  shows "inv s \<Longrightarrow> ns s = xs @ ys \<Longrightarrow>
    List_Foreach nxt action (hd_opt ys) s = Some (fold f ys s) \<and> inv (fold f ys s) \<and> ns (fold f ys s) = ns s"
proof (induction ys arbitrary: xs s)
  case Nil
  then show ?case by (simp add: List_Foreach.simps)
next
  case (Cons n ys)
  then have n: "n \<in> set (ns s)" "nxt s n = hd_opt ys"
    using next_node by auto
  note st = step [OF Cons.prems(1) n(1)]
  have "List_Foreach nxt action (hd_opt ys) (f n s) = Some (fold f ys (f n s)) \<and> inv (fold f ys (f n s)) \<and> ns (fold f ys (f n s)) = ns (f n s)"
    using st Cons.prems by (intro Cons.IH [of _ "xs @ [n]"]) simp_all
  then show ?case
    using st n(2) by (subst List_Foreach.simps) auto
qed

lemma RemoveAll_fold:
  fixes hit :: "nat \<Rightarrow> 's \<Rightarrow> bool" and m :: "nat \<Rightarrow> 's \<Rightarrow> 's" and remove :: "nat \<Rightarrow> 's \<Rightarrow> 's"
  defines "after n s \<equiv> (if hit n s then remove n (m n s) else m n s)"
  assumes step: "\<And>n s. inv s \<Longrightarrow> n \<in> set (ns s) \<Longrightarrow> matches n s = Some (hit n s, m n s) \<and> (\<forall>k. nxt (m n s) k = nxt s k) \<and>
      inv (after n s) \<and> ns (after n s) = (if hit n s then remove1 n (ns s) else ns s)"
  shows "inv s \<Longrightarrow> ns s = xs @ ys \<Longrightarrow>
    RemoveAll_loop nxt matches remove (hd_opt ys) (hd_opt (tl ys)) c s =
      Some (fold (\<lambda>n (c, s). (if hit n s then c + 1 else c, after n s)) ys (c, s)) \<and>
    inv (snd (fold (\<lambda>n (c, s). (if hit n s then c + 1 else c, after n s)) ys (c, s)))"
proof (induction ys arbitrary: xs s c)
  case Nil
  then show ?case by (simp add: RemoveAll_loop.simps)
next
  case (Cons n ys)
  then have n: "n \<in> set (ns s)" "n \<notin> set xs"
    using distinct_nodes [OF Cons.prems(1)] by auto
  have following: "(case hd_opt ys of None \<Rightarrow> None | Some k \<Rightarrow> nxt (m n s) k) = hd_opt (tl ys)"
    using next_node [OF Cons.prems(1), of "xs @ [n]" "hd ys" "tl ys"] step [OF Cons.prems(1) n(1)] Cons.prems(2)
    by (cases ys) auto
  have "ns (after n s) = (if hit n s then xs else xs @ [n]) @ ys"
    using step [OF Cons.prems(1) n(1)] Cons.prems(2) n(2) by (simp add: remove1_append)
  then show ?case
    using step [OF Cons.prems(1) n(1)] following
      Cons.IH [of "after n s" "if hit n s then xs else xs @ [n]" "if hit n s then c + 1 else c"]
    by (subst RemoveAll_loop.simps) (simp add: after_def split: if_splits)
qed

end

end
