(* ===== verification/EventStorage.thy ===== *)
theory EventStorage
  imports NodeList ObjectHeader
begin

text \<open>
  The storage of events (\<open>outstation/event/\<close>: \<open>EventRecord\<close>, \<open>TypedEventRecord\<close>, \<open>ClazzCount\<close>,
  \<open>EventLists\<close>, \<open>EventUpdate\<close>, \<open>EventSelection\<close>, \<open>EventStorage\<close>; \<open>app/ClassField\<close>,
  \<open>outstation/EventBufferConfig\<close>): a list of generic records in the order of occurrence, a list of
  typed records per event type, pointers between the two, and counters. \<open>'v\<close> is the type of the
  measurements; a variation is the group and variation that its enumeration constant names.
\<close>

section \<open>Records and counters\<close>

datatype EventType =
    ET_Binary | ET_Analog | ET_Counter | ET_FrozenCounter | ET_DoubleBitBinary | ET_BinaryOutputStatus
  | ET_AnalogOutputStatus | ET_OctetString

datatype EventClass = EC1 | EC2 | EC3

datatype EventState = ES_unselected | ES_selected | ES_written

instantiation EventType :: enum
begin

definition enum_EventType :: "EventType list" where
  "enum_EventType =
     [ET_Binary, ET_Analog, ET_Counter, ET_FrozenCounter, ET_DoubleBitBinary, ET_BinaryOutputStatus,
      ET_AnalogOutputStatus, ET_OctetString]"

definition enum_all_EventType :: "(EventType \<Rightarrow> bool) \<Rightarrow> bool" where
  "enum_all_EventType P \<longleftrightarrow> list_all P enum_class.enum"

definition enum_ex_EventType :: "(EventType \<Rightarrow> bool) \<Rightarrow> bool" where
  "enum_ex_EventType P \<longleftrightarrow> list_ex P enum_class.enum"

instance
proof
  show UNIV: "(UNIV :: EventType set) = set enum_class.enum"
    by (auto simp: enum_EventType_def intro: EventType.exhaust)
  show "distinct (enum_class.enum :: EventType list)"
    by (simp add: enum_EventType_def)
  show "enum_class.enum_all P \<longleftrightarrow> Ball UNIV P" "enum_class.enum_ex P \<longleftrightarrow> Bex UNIV P" for P :: "EventType \<Rightarrow> bool"
    by (simp_all add: UNIV enum_all_EventType_def enum_ex_EventType_def list_all_iff list_ex_iff)
qed

end

record EventRecord =
  er_index :: u16
  er_clazz :: EventClass
  er_state :: EventState
  er_type :: "EventType option"
  er_storage_node :: "nat option"

definition EventRecord_of :: "u16 \<Rightarrow> EventClass \<Rightarrow> EventRecord" where
  "EventRecord_of index clazz =
     \<lparr>er_index = index, er_clazz = clazz, er_state = ES_unselected, er_type = None, er_storage_node = None\<rparr>"

record 'v TypedEventRecord =
  te_value :: 'v
  te_defaultVariation :: GroupVariation
  te_selectedVariation :: GroupVariation
  te_record :: "nat option"

record ClazzCount =
  num_class_1 :: u32
  num_class_2 :: u32
  num_class_3 :: u32

definition ClazzCount_Reset :: ClazzCount where
  "ClazzCount_Reset = \<lparr>num_class_1 = 0, num_class_2 = 0, num_class_3 = 0\<rparr>"

definition ClazzCount_Get :: "EventClass \<Rightarrow> ClazzCount \<Rightarrow> u32" where
  "ClazzCount_Get clazz c = (case clazz of EC1 \<Rightarrow> num_class_1 c | EC2 \<Rightarrow> num_class_2 c | EC3 \<Rightarrow> num_class_3 c)"

definition ClazzCount_Increment :: "EventClass \<Rightarrow> ClazzCount \<Rightarrow> ClazzCount" where
  "ClazzCount_Increment clazz c =
     (case clazz of
        EC1 \<Rightarrow> c\<lparr>num_class_1 := num_class_1 c + 1\<rparr>
      | EC2 \<Rightarrow> c\<lparr>num_class_2 := num_class_2 c + 1\<rparr>
      | EC3 \<Rightarrow> c\<lparr>num_class_3 := num_class_3 c + 1\<rparr>)"

definition ClazzCount_Decrement :: "EventClass \<Rightarrow> ClazzCount \<Rightarrow> ClazzCount" where
  "ClazzCount_Decrement clazz c =
     (case clazz of
        EC1 \<Rightarrow> c\<lparr>num_class_1 := num_class_1 c - 1\<rparr>
      | EC2 \<Rightarrow> c\<lparr>num_class_2 := num_class_2 c - 1\<rparr>
      | EC3 \<Rightarrow> c\<lparr>num_class_3 := num_class_3 c - 1\<rparr>)"

definition ClazzCount_Any :: "ClazzCount \<Rightarrow> bool" where
  "ClazzCount_Any c \<longleftrightarrow> num_class_1 c > 0 \<or> num_class_2 c > 0 \<or> num_class_3 c > 0"

record EventClassCounters =
  ecc_total :: ClazzCount
  ecc_written :: ClazzCount
  ecc_selected :: u32

definition EventClassCounters_init :: EventClassCounters where
  "EventClassCounters_init = \<lparr>ecc_total = ClazzCount_Reset, ecc_written = ClazzCount_Reset, ecc_selected = 0\<rparr>"

definition OnAdd :: "EventClass \<Rightarrow> EventClassCounters \<Rightarrow> EventClassCounters" where
  "OnAdd clazz c = c\<lparr>ecc_total := ClazzCount_Increment clazz (ecc_total c)\<rparr>"

definition OnSelect :: "EventClassCounters \<Rightarrow> EventClassCounters" where
  "OnSelect c = c\<lparr>ecc_selected := ecc_selected c + 1\<rparr>"

definition OnWrite :: "EventClass \<Rightarrow> EventClassCounters \<Rightarrow> EventClassCounters" where
  "OnWrite clazz c = c\<lparr>ecc_selected := ecc_selected c - 1, ecc_written := ClazzCount_Increment clazz (ecc_written c)\<rparr>"

definition ResetOnFail :: "EventClassCounters \<Rightarrow> EventClassCounters" where
  "ResetOnFail c = c\<lparr>ecc_selected := 0, ecc_written := ClazzCount_Reset\<rparr>"

definition OnRemove :: "EventClass \<Rightarrow> EventState \<Rightarrow> EventClassCounters \<Rightarrow> EventClassCounters" where
  "OnRemove clazz state c =
     (let c = (case state of
                 ES_selected \<Rightarrow> c\<lparr>ecc_selected := ecc_selected c - 1\<rparr>
               | ES_written \<Rightarrow> c\<lparr>ecc_written := ClazzCount_Decrement clazz (ecc_written c)\<rparr>
               | ES_unselected \<Rightarrow> c)
      in c\<lparr>ecc_total := ClazzCount_Decrement clazz (ecc_total c)\<rparr>)"


section \<open>Class fields\<close>

type_synonym ClassField = u8

definition CLASS_0 :: u8 where "CLASS_0 = 0x1"
definition CLASS_1 :: u8 where "CLASS_1 = 0x2"
definition CLASS_2 :: u8 where "CLASS_2 = 0x4"
definition CLASS_3 :: u8 where "CLASS_3 = 0x8"
definition EVENT_CLASSES :: u8 where "EVENT_CLASSES = CLASS_1 OR CLASS_2 OR CLASS_3"
definition ALL_CLASSES :: u8 where "ALL_CLASSES = EVENT_CLASSES OR CLASS_0"

definition ClassField_of_mask :: "u8 \<Rightarrow> ClassField" where
  "ClassField_of_mask mask' = mask' AND ALL_CLASSES"

definition ClassField_of :: "bool \<Rightarrow> bool \<Rightarrow> bool \<Rightarrow> bool \<Rightarrow> ClassField" where
  "ClassField_of class0 class1 class2 class3 =
     (if class0 then CLASS_0 else 0) OR (if class1 then CLASS_1 else 0) OR (if class2 then CLASS_2 else 0)
       OR (if class3 then CLASS_3 else 0)"

definition ClassField_of_event :: "EventClass \<Rightarrow> ClassField" where
  "ClassField_of_event ec = ClassField_of False (ec = EC1) (ec = EC2) (ec = EC3)"

definition ClassField_IsEmpty :: "ClassField \<Rightarrow> bool" where
  "ClassField_IsEmpty f \<longleftrightarrow> f = 0"

definition ClassField_Intersects :: "ClassField \<Rightarrow> ClassField \<Rightarrow> bool" where
  "ClassField_Intersects f other \<longleftrightarrow> f AND other > 0"

definition OnlyEventClasses :: "ClassField \<Rightarrow> ClassField" where
  "OnlyEventClasses f = ClassField_of_mask (f AND EVENT_CLASSES)"

definition ClassField_Set :: "ClassField \<Rightarrow> ClassField \<Rightarrow> ClassField" where
  "ClassField_Set field f = f OR field"

definition ClassField_Clear :: "ClassField \<Rightarrow> ClassField \<Rightarrow> ClassField" where
  "ClassField_Clear field f = f AND NOT field"

definition HasClass0 :: "ClassField \<Rightarrow> bool" where "HasClass0 f \<longleftrightarrow> f AND CLASS_0 \<noteq> 0"
definition HasClass1 :: "ClassField \<Rightarrow> bool" where "HasClass1 f \<longleftrightarrow> f AND CLASS_1 \<noteq> 0"
definition HasClass2 :: "ClassField \<Rightarrow> bool" where "HasClass2 f \<longleftrightarrow> f AND CLASS_2 \<noteq> 0"
definition HasClass3 :: "ClassField \<Rightarrow> bool" where "HasClass3 f \<longleftrightarrow> f AND CLASS_3 \<noteq> 0"

definition HasEventType :: "EventClass \<Rightarrow> ClassField \<Rightarrow> bool" where
  "HasEventType ec f = (case ec of EC1 \<Rightarrow> HasClass1 f | EC2 \<Rightarrow> HasClass2 f | EC3 \<Rightarrow> HasClass3 f)"

definition HasEventClass :: "ClassField \<Rightarrow> bool" where
  "HasEventClass f \<longleftrightarrow> f AND EVENT_CLASSES \<noteq> 0"

definition HasAnyClass :: "ClassField \<Rightarrow> bool" where
  "HasAnyClass f \<longleftrightarrow> f \<noteq> 0"

lemmas class_masks = CLASS_0_def CLASS_1_def CLASS_2_def CLASS_3_def EVENT_CLASSES_def ALL_CLASSES_def


section \<open>The lists\<close>

record EventBufferConfig =
  maxBinaryEvents :: u16
  maxDoubleBinaryEvents :: u16
  maxAnalogEvents :: u16
  maxCounterEvents :: u16
  maxFrozenCounterEvents :: u16
  maxBinaryOutputStatusEvents :: u16
  maxAnalogOutputStatusEvents :: u16
  maxOctetStringEvents :: u16

definition TotalEvents :: "EventBufferConfig \<Rightarrow> nat" where
  "TotalEvents c =
     unat (maxBinaryEvents c) + unat (maxDoubleBinaryEvents c) + unat (maxAnalogEvents c) + unat (maxCounterEvents c)
       + unat (maxFrozenCounterEvents c) + unat (maxBinaryOutputStatusEvents c) + unat (maxAnalogOutputStatusEvents c)
       + unat (maxOctetStringEvents c)"

text \<open>The eight list members, each reached by \<open>GetList\<close> with its type.\<close>

record 'v EventLists =
  el_events :: "EventRecord List"
  el_counters :: EventClassCounters
  el_typed :: "EventType \<Rightarrow> 'v TypedEventRecord List"

definition max_events :: "EventBufferConfig \<Rightarrow> EventType \<Rightarrow> nat" where
  "max_events c t = unat
     (case t of
        ET_Binary \<Rightarrow> maxBinaryEvents c
      | ET_DoubleBitBinary \<Rightarrow> maxDoubleBinaryEvents c
      | ET_Analog \<Rightarrow> maxAnalogEvents c
      | ET_Counter \<Rightarrow> maxCounterEvents c
      | ET_FrozenCounter \<Rightarrow> maxFrozenCounterEvents c
      | ET_BinaryOutputStatus \<Rightarrow> maxBinaryOutputStatusEvents c
      | ET_AnalogOutputStatus \<Rightarrow> maxAnalogOutputStatusEvents c
      | ET_OctetString \<Rightarrow> maxOctetStringEvents c)"

text \<open>\<open>v0\<close> is a default-constructed measurement.\<close>

definition EventLists_of :: "'v \<Rightarrow> EventBufferConfig \<Rightarrow> 'v EventLists" where
  "EventLists_of v0 config =
     \<lparr>el_events = List_of (EventRecord_of 0 EC1) (TotalEvents config),
      el_counters = EventClassCounters_init,
      el_typed = (\<lambda>t. List_of \<lparr>te_value = v0, te_defaultVariation = 0, te_selectedVariation = 0, te_record = None\<rparr> (max_events config t))\<rparr>"

definition EventLists_IsAnyTypeFull :: "'v EventLists \<Rightarrow> bool" where
  "EventLists_IsAnyTypeFull ls \<longleftrightarrow> (\<exists>t. IsFullAndCapacityNotZero (el_typed ls t))"

abbreviation event_record :: "'v EventLists \<Rightarrow> nat \<Rightarrow> EventRecord" where
  "event_record ls n \<equiv> value_at (el_events ls) n"

abbreviation typed_record :: "'v EventLists \<Rightarrow> EventType \<Rightarrow> nat \<Rightarrow> 'v TypedEventRecord" where
  "typed_record ls t m \<equiv> value_at (el_typed ls t) m"

definition set_record :: "nat \<Rightarrow> EventRecord \<Rightarrow> 'v EventLists \<Rightarrow> 'v EventLists" where
  "set_record n r ls = ls\<lparr>el_events := set_value n r (el_events ls)\<rparr>"

definition set_typed :: "EventType \<Rightarrow> nat \<Rightarrow> 'v TypedEventRecord \<Rightarrow> 'v EventLists \<Rightarrow> 'v EventLists" where
  "set_typed t m x ls = ls\<lparr>el_typed := (el_typed ls)(t := set_value m x (el_typed ls t))\<rparr>"

definition Remove_event :: "nat \<Rightarrow> 'v EventLists \<Rightarrow> 'v EventLists" where
  "Remove_event n ls = ls\<lparr>el_events := List_Remove n (el_events ls)\<rparr>"

definition Remove_typed :: "EventType \<Rightarrow> nat \<Rightarrow> 'v EventLists \<Rightarrow> 'v EventLists" where
  "Remove_typed t m ls = ls\<lparr>el_typed := (el_typed ls)(t := List_Remove m (el_typed ls t))\<rparr>"


section \<open>Update\<close>

record 'v Event =
  ev_index :: u16
  ev_clazz :: EventClass
  ev_value :: 'v
  ev_variation :: GroupVariation

text \<open>The part of \<open>Update\<close> that makes room: it drops the oldest event of the type.\<close>

definition Update_overflow :: "EventType \<Rightarrow> 'v EventLists \<Rightarrow> 'v EventLists option" where
  "Update_overflow t ls = do {
     first \<leftarrow> ls_head (el_typed ls t);
     record_node \<leftarrow> te_record (typed_record ls t first);
     let r = event_record ls record_node;
     let ls = ls\<lparr>el_counters := OnRemove (er_clazz r) (er_state r) (el_counters ls)\<rparr>;
     let ls = Remove_event record_node ls;
     Some (Remove_typed t first ls) }"

text \<open>The part that stores the event.\<close>

definition Update_add :: "EventType \<Rightarrow> 'v Event \<Rightarrow> 'v EventLists \<Rightarrow> 'v EventLists option" where
  "Update_add t event ls = do {
     let (node, es) = List_Add (EventRecord_of (ev_index event) (ev_clazz event)) (el_events ls);
     let ls = ls\<lparr>el_events := es\<rparr>;
     let (typed_node, ts) = List_Add \<lparr>te_value = ev_value event, te_defaultVariation = ev_variation event,
       te_selectedVariation = ev_variation event, te_record = node\<rparr> (el_typed ls t);
     let ls = ls\<lparr>el_typed := (el_typed ls)(t := ts)\<rparr>;
     record_node \<leftarrow> node;
     let ls = set_record record_node ((event_record ls record_node)\<lparr>er_type := Some t, er_storage_node := typed_node\<rparr>) ls;
     Some (ls\<lparr>el_counters := OnAdd (ev_clazz event) (el_counters ls)\<rparr>) }"

definition EventUpdate_Update :: "EventType \<Rightarrow> 'v Event \<Rightarrow> 'v EventLists \<Rightarrow> (bool \<times> 'v EventLists) option" where
  "EventUpdate_Update t event ls =
     (if ls_capacity (el_typed ls t) = 0 then Some (False, ls)
      else do {
        let overflow = IsFullAndCapacityNotZero (el_typed ls t);
        ls \<leftarrow> (if overflow then Update_overflow t ls else Some ls);
        ls \<leftarrow> Update_add t event ls;
        Some (overflow, ls) })"


section \<open>Selection\<close>

definition select_typed :: "EventType \<Rightarrow> bool \<Rightarrow> GroupVariation \<Rightarrow> u32 \<Rightarrow> nat \<Rightarrow> u32 \<times> 'v EventLists \<Rightarrow> (bool \<times> u32 \<times> 'v EventLists) option" where
  "select_typed t useDefaultVariation variation max_selected m s =
     (let (num_selected, ls) = s; node = typed_record ls t m
      in if num_selected = max_selected then Some (False, num_selected, ls)
         else do {
           n \<leftarrow> te_record node;
           let r = event_record ls n;
           Some (True,
             if er_state r = ES_unselected
             then (let ls = set_record n (r\<lparr>er_state := ES_selected\<rparr>) ls;
                       ls = set_typed t m (node\<lparr>te_selectedVariation := if useDefaultVariation then te_defaultVariation node else variation\<rparr>) ls;
                       ls = ls\<lparr>el_counters := OnSelect (el_counters ls)\<rparr>
                   in (num_selected + 1, ls))
             else (num_selected, ls)) })"

definition SelectByTypeGeneric :: "EventType \<Rightarrow> bool \<Rightarrow> GroupVariation \<Rightarrow> u32 \<Rightarrow> 'v EventLists \<Rightarrow> (u32 \<times> 'v EventLists) option" where
  "SelectByTypeGeneric t useDefaultVariation variation max_selected ls =
     ForeachWhile (\<lambda>(_, ls). next_of (el_typed ls t)) (select_typed t useDefaultVariation variation max_selected)
       (ls_head (el_typed ls t)) (0, ls)"

text \<open>The condition of the \<open>while\<close> loop is evaluated before each node.\<close>

definition select_class :: "ClassField \<Rightarrow> u32 \<Rightarrow> nat \<Rightarrow> u32 \<times> 'v EventLists \<Rightarrow> (bool \<times> u32 \<times> 'v EventLists) option" where
  "select_class clazz max_selected n s =
     (let (num_selected, ls) = s; r = event_record ls n
      in if \<not> num_selected < max_selected then Some (False, num_selected, ls)
         else Some (True,
           if er_state r = ES_unselected \<and> HasEventType (er_clazz r) clazz
           then (let ls = set_record n (r\<lparr>er_state := ES_selected\<rparr>) ls
                 in (num_selected + 1, ls\<lparr>el_counters := OnSelect (el_counters ls)\<rparr>))
           else (num_selected, ls)))"

definition EventSelection_SelectByClass :: "ClassField \<Rightarrow> u32 \<Rightarrow> 'v EventLists \<Rightarrow> (u32 \<times> 'v EventLists) option" where
  "EventSelection_SelectByClass clazz max_selected ls =
     ForeachWhile (\<lambda>(_, ls). next_of (el_events ls)) (select_class clazz max_selected) (ls_head (el_events ls)) (0, ls)"


section \<open>The storage\<close>

definition NumSelected :: "'v EventLists \<Rightarrow> u32" where
  "NumSelected state = ecc_selected (el_counters state)"

definition NumUnwritten :: "EventClass \<Rightarrow> 'v EventLists \<Rightarrow> u32" where
  "NumUnwritten clazz state =
     ClazzCount_Get clazz (ecc_total (el_counters state)) - ClazzCount_Get clazz (ecc_written (el_counters state))"

definition RemoveTypeFromStorage :: "EventRecord \<Rightarrow> 'v EventLists \<Rightarrow> 'v EventLists option" where
  "RemoveTypeFromStorage r ls = do { t \<leftarrow> er_type r; m \<leftarrow> er_storage_node r; Some (Remove_typed t m ls) }"

definition clear_written :: "nat \<Rightarrow> 'v EventLists \<Rightarrow> (bool \<times> 'v EventLists) option" where
  "clear_written n state =
     (let r = event_record state n
      in if er_state r = ES_written
         then do {
           state \<leftarrow> RemoveTypeFromStorage r state;
           Some (True, state\<lparr>el_counters := OnRemove (er_clazz r) (er_state r) (el_counters state)\<rparr>) }
         else Some (False, state))"

definition EventStorage_ClearWritten :: "'v EventLists \<Rightarrow> (u32 \<times> 'v EventLists) option" where
  "EventStorage_ClearWritten state =
     RemoveAll (\<lambda>s. next_of (el_events s)) clear_written Remove_event (ls_head (el_events state)) state"

definition clear_state :: "nat \<Rightarrow> 'v EventLists \<Rightarrow> 'v EventLists option" where
  "clear_state n state = Some (set_record n ((event_record state n)\<lparr>er_state := ES_unselected\<rparr>) state)"

definition EventStorage_Unselect :: "'v EventLists \<Rightarrow> 'v EventLists option" where
  "EventStorage_Unselect state = do {
     state \<leftarrow> List_Foreach (\<lambda>s. next_of (el_events s)) clear_state (ls_head (el_events state)) state;
     Some (state\<lparr>el_counters := ResetOnFail (el_counters state)\<rparr>) }"


section \<open>What is stored\<close>

text \<open>The abstract content: the events in order of occurrence.\<close>

record 'v stored =
  st_type :: EventType
  st_index :: u16
  st_clazz :: EventClass
  st_state :: EventState
  st_value :: 'v
  st_default :: GroupVariation
  st_selected :: GroupVariation

definition view :: "'v EventLists \<Rightarrow> nat \<Rightarrow> 'v stored" where
  "view ls n =
     (let r = event_record ls n; t = the (er_type r); x = typed_record ls t (the (er_storage_node r))
      in \<lparr>st_type = t, st_index = er_index r, st_clazz = er_clazz r, st_state = er_state r,
          st_value = te_value x, st_default = te_defaultVariation x, st_selected = te_selectedVariation x\<rparr>)"

definition stored_events :: "'v EventLists \<Rightarrow> 'v stored list" where
  "stored_events ls = map (view ls) (nodes (el_events ls))"

definition of_type :: "EventType \<Rightarrow> 'v EventLists \<Rightarrow> nat list" where
  "of_type t ls = filter (\<lambda>n. er_type (event_record ls n) = Some t) (nodes (el_events ls))"

text \<open>The generic and the typed records of each type correspond, in the same order.\<close>

definition lists_ok :: "'v EventLists \<Rightarrow> bool" where
  "lists_ok ls \<longleftrightarrow>
     list_ok (el_events ls) \<and> (\<forall>t. list_ok (el_typed ls t)) \<and>
     ls_capacity (el_events ls) = (\<Sum>t\<in>UNIV. ls_capacity (el_typed ls t)) \<and> ls_capacity (el_events ls) < 2 ^ 32 \<and>
     (\<forall>n \<in> set (nodes (el_events ls)). er_type (event_record ls n) \<noteq> None) \<and>
     (\<forall>t. map (\<lambda>n. er_storage_node (event_record ls n)) (of_type t ls) = map Some (nodes (el_typed ls t)) \<and>
          map (\<lambda>m. te_record (typed_record ls t m)) (nodes (el_typed ls t)) = map Some (of_type t ls))"

definition counted :: "('v stored \<Rightarrow> bool) \<Rightarrow> 'v stored list \<Rightarrow> u32" where
  "counted P es = of_nat (length (filter P es))"

definition counters_ok :: "EventClassCounters \<Rightarrow> 'v stored list \<Rightarrow> bool" where
  "counters_ok c es \<longleftrightarrow>
     ecc_selected c = counted (\<lambda>e. st_state e = ES_selected) es \<and>
     (\<forall>k. ClazzCount_Get k (ecc_total c) = counted (\<lambda>e. st_clazz e = k) es \<and>
          ClazzCount_Get k (ecc_written c) = counted (\<lambda>e. st_clazz e = k \<and> st_state e = ES_written) es)"

definition storage_ok :: "'v EventLists \<Rightarrow> bool" where
  "storage_ok ls \<longleftrightarrow> lists_ok ls \<and> counters_ok (el_counters ls) (stored_events ls)"


section \<open>Generic and typed records\<close>

lemma map_Some_nth: "map f xs = map Some ys \<Longrightarrow> length xs = length ys \<and> (\<forall>i < length ys. f (xs ! i) = Some (ys ! i))"
  by (metis length_map nth_map)

lemma typed_partner:
  assumes "lists_ok ls" and "m \<in> set (nodes (el_typed ls t))"
  obtains n where "n \<in> set (of_type t ls)" "te_record (typed_record ls t m) = Some n" "er_storage_node (event_record ls n) = Some m"
proof -
  obtain i where i: "i < length (nodes (el_typed ls t))" "m = nodes (el_typed ls t) ! i"
    using assms(2) by (metis in_set_conv_nth)
  have eqs: "map (\<lambda>n. er_storage_node (event_record ls n)) (of_type t ls) = map Some (nodes (el_typed ls t))"
      "map (\<lambda>m. te_record (typed_record ls t m)) (nodes (el_typed ls t)) = map Some (of_type t ls)"
    using assms(1) by (simp_all add: lists_ok_def)
  show ?thesis
    using map_Some_nth [OF eqs(1)] map_Some_nth [OF eqs(2)] i by (intro that [of "of_type t ls ! i"]) simp_all
qed

lemma event_partner:
  assumes "lists_ok ls" and "n \<in> set (nodes (el_events ls))"
  obtains t m where "er_type (event_record ls n) = Some t" "er_storage_node (event_record ls n) = Some m"
    "m \<in> set (nodes (el_typed ls t))" "te_record (typed_record ls t m) = Some n" "n \<in> set (of_type t ls)"
proof -
  obtain t where t: "er_type (event_record ls n) = Some t"
    using assms by (auto simp: lists_ok_def)
  then have n: "n \<in> set (of_type t ls)"
    using assms(2) by (simp add: of_type_def)
  then obtain i where i: "i < length (of_type t ls)" "n = of_type t ls ! i"
    by (metis in_set_conv_nth)
  have eqs: "map (\<lambda>n. er_storage_node (event_record ls n)) (of_type t ls) = map Some (nodes (el_typed ls t))"
      "map (\<lambda>m. te_record (typed_record ls t m)) (nodes (el_typed ls t)) = map Some (of_type t ls)"
    using assms(1) by (simp_all add: lists_ok_def)
  show ?thesis
    using map_Some_nth [OF eqs(1)] map_Some_nth [OF eqs(2)] i t n
    by (intro that [of t "nodes (el_typed ls t) ! i"]) simp_all
qed

lemma of_type_sub: "set (of_type t ls) \<subseteq> set (nodes (el_events ls))"
  by (auto simp: of_type_def)

lemma of_type_distinct: "lists_ok ls \<Longrightarrow> distinct (of_type t ls)"
  by (simp add: of_type_def lists_ok_def list_ok_distinct)

text \<open>Changes of a record that keep its pointers.\<close>

lemma set_record_ok:
  assumes "lists_ok ls" and "er_type r = er_type (event_record ls n)" and "er_storage_node r = er_storage_node (event_record ls n)"
  shows "lists_ok (set_record n r ls)" and "of_type t (set_record n r ls) = of_type t ls"
proof -
  have ev: "list_ok (el_events ls)"
    using assms(1) by (simp add: lists_ok_def)
  have same: "er_type (event_record (set_record n r ls) k) = er_type (event_record ls k)"
      "er_storage_node (event_record (set_record n r ls) k) = er_storage_node (event_record ls k)" for k
    using assms(2,3) by (simp_all add: set_record_def)
  then show *: "of_type t (set_record n r ls) = of_type t ls" for t
    using ev by (simp add: of_type_def set_record_def)
  have "el_typed (set_record n r ls) = el_typed ls" "nodes (el_events (set_record n r ls)) = nodes (el_events ls)"
      "list_ok (el_events (set_record n r ls))" "ls_capacity (el_events (set_record n r ls)) = ls_capacity (el_events ls)"
    using ev by (simp_all add: set_record_def)
  then show "lists_ok (set_record n r ls)"
    using assms(1) unfolding lists_ok_def * same by simp
qed

lemma set_typed_ok:
  assumes "lists_ok ls" and "te_record x = te_record (typed_record ls t m)"
  shows "lists_ok (set_typed t m x ls)" and "of_type t' (set_typed t m x ls) = of_type t' ls"
proof -
  have ty: "list_ok (el_typed ls t)" for t
    using assms(1) by (simp add: lists_ok_def)
  show *: "of_type t' (set_typed t m x ls) = of_type t' ls" for t'
    by (simp add: of_type_def set_typed_def)
  have "te_record (typed_record (set_typed t m x ls) t' k) = te_record (typed_record ls t' k)"
      "nodes (el_typed (set_typed t m x ls) t') = nodes (el_typed ls t')" "list_ok (el_typed (set_typed t m x ls) t')"
      "ls_capacity (el_typed (set_typed t m x ls) t') = ls_capacity (el_typed ls t')" for t' k
    using assms(2) ty by (simp_all add: set_typed_def)
  moreover have "el_events (set_typed t m x ls) = el_events ls"
    by (simp add: set_typed_def)
  ultimately show "lists_ok (set_typed t m x ls)"
    using assms(1) unfolding lists_ok_def * by simp
qed

lemma lists_ok_counters [simp]: "lists_ok (ls\<lparr>el_counters := c\<rparr>) = lists_ok ls"
  by (simp add: lists_ok_def of_type_def)

lemma view_counters [simp]: "view (ls\<lparr>el_counters := c\<rparr>) = view ls"
  by (simp add: view_def fun_eq_iff)

lemma view_set_record:
  "er_type r = er_type (event_record ls n) \<Longrightarrow> er_storage_node r = er_storage_node (event_record ls n) \<Longrightarrow>
     view (set_record n r ls) k =
       (if k = n then (view ls n)\<lparr>st_index := er_index r, st_clazz := er_clazz r, st_state := er_state r\<rparr> else view ls k)"
  by (simp add: view_def set_record_def Let_def)

lemma view_set_typed:
  assumes "lists_ok ls" and "m \<in> set (nodes (el_typed ls t))" and "te_record (typed_record ls t m) = Some n"
    and "k \<in> set (nodes (el_events ls))" and "te_record x = te_record (typed_record ls t m)"
  shows "view (set_typed t m x ls) k =
    (if k = n then (view ls n)\<lparr>st_value := te_value x, st_default := te_defaultVariation x, st_selected := te_selectedVariation x\<rparr>
     else view ls k)"
proof -
  obtain n' where n': "n' \<in> set (of_type t ls)" "te_record (typed_record ls t m) = Some n'" "er_storage_node (event_record ls n') = Some m"
    using typed_partner [OF assms(1,2)] by metis
  then have n: "er_type (event_record ls n) = Some t" "er_storage_node (event_record ls n) = Some m"
    using assms(3) by (auto simp: of_type_def)
  obtain t' m' where k: "er_type (event_record ls k) = Some t'" "er_storage_node (event_record ls k) = Some m'"
      "te_record (typed_record ls t' m') = Some k"
    using event_partner [OF assms(1,4)] by metis
  have "k = n \<longleftrightarrow> t' = t \<and> m' = m"
    using n k assms(3) by auto
  then show ?thesis
    using n k by (auto simp: view_def set_typed_def Let_def)
qed


section \<open>Marking events\<close>

text \<open>The first \<open>k\<close> elements with a property are changed.\<close>

fun mark_first :: "('e \<Rightarrow> bool) \<Rightarrow> ('e \<Rightarrow> 'e) \<Rightarrow> nat \<Rightarrow> 'e list \<Rightarrow> 'e list" where
  "mark_first P f k [] = []"
| "mark_first P f k (e # es) =
     (if P e \<and> 0 < k then f e # mark_first P f (k - 1) es else e # mark_first P f k es)"

lemma mark_first_0 [simp]: "mark_first P f 0 es = es"
  by (induction es) simp_all

lemma mark_first_map:
  "distinct ns \<Longrightarrow>
     map (\<lambda>n. if n \<in> set (take k (filter (\<lambda>n. P (v n)) ns)) then f (v n) else v n) ns = mark_first P f k (map v ns)"
proof (induction ns arbitrary: k)
  case (Cons n ns)
  have notin: "n \<notin> set (take j (filter (\<lambda>n. P (v n)) ns))" for j
    using Cons.prems by (auto dest: in_set_takeD)
  show ?case
  proof (cases "P (v n) \<and> 0 < k")
    case True
    then obtain j where k: "k = Suc j"
      by (cases k) auto
    have "map (\<lambda>i. if i \<in> set (n # take j (filter (\<lambda>n. P (v n)) ns)) then f (v i) else v i) ns =
        map (\<lambda>i. if i \<in> set (take j (filter (\<lambda>n. P (v n)) ns)) then f (v i) else v i) ns"
      using Cons.prems by (intro map_cong) auto
    with True Cons k show ?thesis
      by simp
  next
    case False
    with Cons notin show ?thesis
      by auto
  qed
qed simp

lemma mark_loop:
  fixes mx :: u32 and ls :: "'v EventLists"
  assumes step: "\<And>p num ls. I ls \<Longrightarrow> p \<in> set ps0 \<Longrightarrow> num \<le> mx \<Longrightarrow>
      if num = mx then f p (num, ls) = (False, num, ls)
      else if U (view ls (ev p))
      then \<exists>ls'. f p (num, ls) = (True, num + 1, ls') \<and> I ls' \<and> nodes (el_events ls') = nodes (el_events ls) \<and>
        (\<forall>n \<in> set (nodes (el_events ls)). view ls' n = (if n = ev p then g (view ls n) else view ls n)) \<and>
        el_counters ls' = OnSelect (el_counters ls)
      else f p (num, ls) = (True, num, ls)"
    and "set ps \<subseteq> set ps0" and "distinct (map ev ps)" and "I ls" and "set (map ev ps) \<subseteq> set (nodes (el_events ls))"
    and "num \<le> mx" and "length ps + unat num < 2 ^ 32"
  shows "\<exists>ls' ch. ch = take (unat mx - unat num) (filter (\<lambda>n. U (view ls n)) (map ev ps)) \<and>
    fold_while f ps (num, ls) = (num + of_nat (length ch), ls') \<and> I ls' \<and> nodes (el_events ls') = nodes (el_events ls) \<and>
    (\<forall>n \<in> set (nodes (el_events ls)). view ls' n = (if n \<in> set ch then g (view ls n) else view ls n)) \<and>
    el_counters ls' = (OnSelect ^^ length ch) (el_counters ls)"
  using assms(2-)
proof (induction ps arbitrary: num ls)
  case Nil
  then show ?case by simp
next
  case (Cons p ps)
  then have p: "p \<in> set ps0" "ev p \<in> set (nodes (el_events ls))" "I ls"
    by simp_all
  consider "num = mx" | "num \<noteq> mx" "U (view ls (ev p))" | "num \<noteq> mx" "\<not> U (view ls (ev p))"
    by blast
  then show ?case
  proof cases
    case 1
    then show ?thesis
      using step [OF p(3,1) Cons.prems(5)] Cons.prems by simp
  next
    case 2
    obtain ls1 where ls1: "f p (num, ls) = (True, num + 1, ls1)" "I ls1" "nodes (el_events ls1) = nodes (el_events ls)"
        "\<forall>n \<in> set (nodes (el_events ls)). view ls1 n = (if n = ev p then g (view ls n) else view ls n)"
        "el_counters ls1 = OnSelect (el_counters ls)"
      using step [OF p(3,1) Cons.prems(5)] 2 by auto
    have num: "unat (num + 1) = unat num + 1" "num + 1 \<le> mx" "unat mx - unat num = Suc (unat mx - unat (num + 1))"
    proof -
      have "unat num < unat mx"
        using Cons.prems(5) 2(1) by (metis order_le_imp_less_or_eq word_less_nat_alt)
      moreover show "unat (num + 1) = unat num + 1"
        using Cons.prems(6) by (intro unat_Suc_u32) simp
      ultimately show "num + 1 \<le> mx" "unat mx - unat num = Suc (unat mx - unat (num + 1))"
        by (simp_all add: word_le_nat_alt)
    qed
    have same: "filter (\<lambda>n. U (view ls1 n)) (map ev ps) = filter (\<lambda>n. U (view ls n)) (map ev ps)"
    proof (rule filter_cong)
      fix q assume q: "q \<in> set (map ev ps)"
      moreover have "ev p \<notin> set (map ev ps)" "set (map ev ps) \<subseteq> set (nodes (el_events ls))"
        using Cons.prems(2,4) by simp_all
      ultimately have "q \<noteq> ev p" "q \<in> set (nodes (el_events ls))"
        by blast+
      then show "U (view ls1 q) = U (view ls q)"
        using ls1(4) by simp
    qed simp
    define ch where "ch = take (unat mx - unat (num + 1)) (filter (\<lambda>n. U (view ls n)) (map ev ps))"
    obtain ls' where ls': "fold_while f ps (num + 1, ls1) = (num + 1 + of_nat (length ch), ls')" "I ls'"
        "nodes (el_events ls') = nodes (el_events ls)"
        "\<forall>n \<in> set (nodes (el_events ls)). view ls' n = (if n \<in> set ch then g (view ls1 n) else view ls1 n)"
        "el_counters ls' = (OnSelect ^^ length ch) (OnSelect (el_counters ls))"
      using Cons.IH [of ls1 "num + 1"] Cons.prems num ls1 same by (auto simp: ch_def)
    have "ev p \<notin> set ch"
      using Cons.prems(2) by (auto simp: ch_def dest!: in_set_takeD)
    then have "\<forall>n \<in> set (nodes (el_events ls)). view ls' n = (if n \<in> set (ev p # ch) then g (view ls n) else view ls n)"
      using ls1(4) ls'(4) by auto
    moreover have "el_counters ls' = (OnSelect ^^ length (ev p # ch)) (el_counters ls)"
      using ls'(5) by (simp add: funpow_swap1)
    moreover have "ev p # ch = take (unat mx - unat num) (filter (\<lambda>n. U (view ls n)) (map ev (p # ps)))"
      using 2 by (simp add: num(3) ch_def)
    moreover have "fold_while f (p # ps) (num, ls) = (num + of_nat (length (ev p # ch)), ls')"
      using ls1(1) ls'(1) by (simp add: add.assoc)
    ultimately show ?thesis
      using ls'(2,3) by blast
  next
    case 3
    then have "f p (num, ls) = (True, num, ls)"
      using step [OF p(3,1) Cons.prems(5)] by simp
    with 3 Cons.IH [of ls num] Cons.prems show ?thesis
      by simp
  qed
qed


section \<open>Selection refines marking\<close>

lemma OnSelect_pow: "(OnSelect ^^ j) c = c\<lparr>ecc_selected := ecc_selected c + of_nat j\<rparr>"
  by (induction j) (simp_all add: OnSelect_def)

lemma counted_Cons: "counted P (e # es) = (if P e then 1 else 0) + counted P es"
  by (simp add: counted_def)

lemma counted_append: "counted P (es @ fs) = counted P es + counted P fs"
  by (simp add: counted_def)

lemma counted_mark_first:
  assumes "\<And>e. P e \<Longrightarrow> Q (f e) = Q e"
  shows "counted Q (mark_first P f k es) = counted Q es"
  using assms by (induction es arbitrary: k) (simp_all add: counted_Cons)

lemma counted_mark_first_new:
  assumes "\<And>e. P e \<Longrightarrow> \<not> Q e" and "\<And>e. Q (f e)"
  shows "counted Q (mark_first P f k es) = counted Q es + of_nat (min k (length (filter P es)))"
proof (induction es arbitrary: k)
  case (Cons e es)
  show ?case
    using Cons [of k] Cons [of "k - 1"] assms(1) [of e] assms(2) [of e]
    by (cases k) (simp_all add: counted_Cons)
qed (simp add: counted_def)

lemma counters_mark_first:
  assumes "counters_ok c es" and "\<And>e. P e \<Longrightarrow> st_state e = ES_unselected"
    and "\<And>e. st_state (f e) = ES_selected" and "\<And>e. st_clazz (f e) = st_clazz e"
    and "j = min k (length (filter P es))"
  shows "counters_ok ((OnSelect ^^ j) c) (mark_first P f k es)"
proof -
  have sel: "counted (\<lambda>e. st_state e = ES_selected) (mark_first P f k es) =
      counted (\<lambda>e. st_state e = ES_selected) es + of_nat (min k (length (filter P es)))"
    by (rule counted_mark_first_new) (auto simp: assms dest!: assms(2))
  have "counted (\<lambda>e. st_clazz e = c) (mark_first P f k es) = counted (\<lambda>e. st_clazz e = c) es" for c
    by (rule counted_mark_first) (simp add: assms(4))
  moreover have "counted (\<lambda>e. st_clazz e = c \<and> st_state e = ES_written) (mark_first P f k es) =
      counted (\<lambda>e. st_clazz e = c \<and> st_state e = ES_written) es" for c
    by (rule counted_mark_first) (auto simp: assms(3) dest!: assms(2))
  ultimately show ?thesis
    using assms(1) sel by (simp add: counters_ok_def OnSelect_pow assms(5))
qed

interpretation typed_loop: linked_state "\<lambda>(num :: u32, ls). lists_ok ls" "\<lambda>(num, ls). nodes (el_typed ls t)"
    "\<lambda>(num, ls). next_of (el_typed ls t)" for t
  by unfold_locales (auto simp: lists_ok_def intro: list_ok_next list_ok_distinct)

interpretation event_loop: linked_state "\<lambda>(num :: u32, ls). lists_ok ls" "\<lambda>(num, ls). nodes (el_events ls)"
    "\<lambda>(num, ls). next_of (el_events ls)"
  by unfold_locales (auto simp: lists_ok_def intro: list_ok_next list_ok_distinct)

interpretation storage_loop: linked_state lists_ok "\<lambda>ls. nodes (el_events ls)" "\<lambda>ls. next_of (el_events ls)"
  by unfold_locales (auto simp: lists_ok_def intro: list_ok_next list_ok_distinct)

lemma lists_ok_length: "lists_ok ls \<Longrightarrow> length (nodes (el_events ls)) < 2 ^ 32"
  using list_ok_length [of "el_events ls"] by (simp add: lists_ok_def)

lemma select_typed_step:
  assumes "lists_ok ls" and "m \<in> set (nodes (el_typed ls t))" and "te_record (typed_record ls t m) = Some n" and "num \<noteq> mx"
    and "er_state (event_record ls n) = ES_unselected"
  shows "\<exists>ls'. select_typed t d v mx m (num, ls) = Some (True, num + 1, ls') \<and> lists_ok ls' \<and>
    nodes (el_events ls') = nodes (el_events ls) \<and> nodes (el_typed ls' t) = nodes (el_typed ls t) \<and>
    (\<forall>m'. te_record (typed_record ls' t m') = te_record (typed_record ls t m')) \<and>
    (\<forall>k \<in> set (nodes (el_events ls)). view ls' k =
      (if k = n then (view ls n)\<lparr>st_state := ES_selected, st_selected := if d then st_default (view ls n) else v\<rparr> else view ls k)) \<and>
    el_counters ls' = OnSelect (el_counters ls) \<and> (\<forall>t. ls_capacity (el_typed ls' t) = ls_capacity (el_typed ls t))"
proof -
  define ls1 where "ls1 = set_record n ((event_record ls n)\<lparr>er_state := ES_selected\<rparr>) ls"
  define x where "x = (typed_record ls t m)\<lparr>te_selectedVariation := if d then te_defaultVariation (typed_record ls t m) else v\<rparr>"
  define ls2 where "ls2 = set_typed t m x ls1"
  have ok: "list_ok (el_events ls)" "list_ok (el_typed ls t)" for t
    using assms(1) by (simp_all add: lists_ok_def)
  have ok1: "lists_ok ls1"
    using assms(1) by (simp add: ls1_def set_record_ok)
  have same1: "nodes (el_events ls1) = nodes (el_events ls)" "el_typed ls1 = el_typed ls" "el_counters ls1 = el_counters ls"
    using ok by (simp_all add: ls1_def set_record_def)
  have ok2: "lists_ok ls2"
    using set_typed_ok(1) [OF ok1, of x t m] by (simp add: ls2_def x_def same1)
  have same2: "nodes (el_events ls2) = nodes (el_events ls)" "nodes (el_typed ls2 t) = nodes (el_typed ls t)"
      "el_counters ls2 = el_counters ls" "te_record (typed_record ls2 t m') = te_record (typed_record ls t m')" for m'
    using same1 ok by (simp_all add: ls2_def set_typed_def x_def)
  have n: "er_type (event_record ls n) = Some t" "er_storage_node (event_record ls n) = Some m"
    using typed_partner [OF assms(1,2)] assms(3) by (auto simp: of_type_def)
  have "view ls2 k = (if k = n then (view ls n)\<lparr>st_state := ES_selected, st_selected := if d then st_default (view ls n) else v\<rparr> else view ls k)"
      if k: "k \<in> set (nodes (el_events ls))" for k
  proof -
    have "view ls1 k = (if k = n then (view ls n)\<lparr>st_state := ES_selected\<rparr> else view ls k)" for k
      by (simp add: ls1_def view_set_record) (simp add: view_def Let_def)
    moreover have "te_value (typed_record ls t m) = st_value (view ls n)" "te_defaultVariation (typed_record ls t m) = st_default (view ls n)"
      using n by (simp_all add: view_def Let_def)
    ultimately show ?thesis
      using view_set_typed [OF ok1, of m t n k x] assms(2,3) k
      by (simp add: ls2_def same1 x_def)
  qed
  moreover have "ls_capacity (el_typed ls2 t') = ls_capacity (el_typed ls t')" for t'
    by (simp add: ls2_def set_typed_def same1)
  moreover have "select_typed t d v mx m (num, ls) = Some (True, num + 1, ls2\<lparr>el_counters := OnSelect (el_counters ls2)\<rparr>)"
    using assms(3-5) by (simp add: select_typed_def ls2_def ls1_def x_def Let_def)
  ultimately show ?thesis
    using ok2 same2 by (intro exI [of _ "ls2\<lparr>el_counters := OnSelect (el_counters ls2)\<rparr>"]) simp
qed


abbreviation same_capacity :: "'v EventLists \<Rightarrow> 'v EventLists \<Rightarrow> bool" where
  "same_capacity ls' ls \<equiv> \<forall>t. ls_capacity (el_typed ls' t) = ls_capacity (el_typed ls t)"

lemma stored_marked:
  assumes "lists_ok ls" and "nodes (el_events ls') = nodes (el_events ls)"
    and "\<forall>k \<in> set (nodes (el_events ls)). view ls' k = (if k \<in> set (take j (filter (\<lambda>n. P (view ls n)) (nodes (el_events ls)))) then g (view ls k) else view ls k)"
  shows "stored_events ls' = mark_first P g j (stored_events ls)"
proof -
  have "stored_events ls' = map (\<lambda>n. if n \<in> set (take j (filter (\<lambda>n. P (view ls n)) (nodes (el_events ls)))) then g (view ls n) else view ls n)
      (nodes (el_events ls))"
    using assms(2,3) by (simp add: stored_events_def)
  also have "\<dots> = mark_first P g j (stored_events ls)"
    using assms(1) unfolding stored_events_def by (intro mark_first_map) (simp add: lists_ok_def list_ok_distinct)
  finally show ?thesis .
qed

lemma of_type_view:
  assumes "lists_ok ls"
  shows "of_type t ls = filter (\<lambda>n. st_type (view ls n) = t) (nodes (el_events ls))"
  unfolding of_type_def
proof (rule filter_cong [OF refl])
  fix n assume "n \<in> set (nodes (el_events ls))"
  then obtain t' where "er_type (event_record ls n) = Some t'"
    using assms by (auto simp: lists_ok_def)
  then show "er_type (event_record ls n) = Some t \<longleftrightarrow> st_type (view ls n) = t"
    by (simp add: view_def Let_def)
qed

text \<open>One step of the selection by type, as a function.\<close>

definition select_typed_fun :: "EventType \<Rightarrow> bool \<Rightarrow> GroupVariation \<Rightarrow> u32 \<Rightarrow> nat \<Rightarrow> u32 \<times> 'v EventLists \<Rightarrow> bool \<times> u32 \<times> 'v EventLists" where
  "select_typed_fun t d v mx m s = the (select_typed t d v mx m s)"

lemma select_typed_cases:
  fixes d :: bool and v :: GroupVariation and mx num :: u32
  assumes "lists_ok ls" and "m \<in> set (nodes (el_typed ls t))" and "te_record (typed_record ls t m) = Some n"
  defines "f \<equiv> select_typed_fun t d v mx m (num, ls)"
  shows "select_typed t d v mx m (num, ls) = Some f \<and>
    (if num = mx then f = (False, num, ls)
     else if st_state (view ls n) = ES_unselected
     then \<exists>ls'. f = (True, num + 1, ls') \<and> lists_ok ls' \<and> nodes (el_events ls') = nodes (el_events ls) \<and>
       nodes (el_typed ls' t) = nodes (el_typed ls t) \<and> (\<forall>m'. te_record (typed_record ls' t m') = te_record (typed_record ls t m')) \<and>
       (\<forall>k \<in> set (nodes (el_events ls)). view ls' k =
         (if k = n then (view ls k)\<lparr>st_state := ES_selected, st_selected := if d then st_default (view ls k) else v\<rparr> else view ls k)) \<and>
       el_counters ls' = OnSelect (el_counters ls) \<and> same_capacity ls' ls
     else f = (True, num, ls))"
proof -
  consider "num = mx" | "num \<noteq> mx" "er_state (event_record ls n) = ES_unselected"
    | "num \<noteq> mx" "er_state (event_record ls n) \<noteq> ES_unselected" by blast
  then show ?thesis
  proof cases
    case 2
    obtain ls' where "select_typed t d v mx m (num, ls) = Some (True, num + 1, ls')" "lists_ok ls'"
        "nodes (el_events ls') = nodes (el_events ls)" "nodes (el_typed ls' t) = nodes (el_typed ls t)"
        "\<forall>m'. te_record (typed_record ls' t m') = te_record (typed_record ls t m')"
        "\<forall>k \<in> set (nodes (el_events ls)). view ls' k =
          (if k = n then (view ls n)\<lparr>st_state := ES_selected, st_selected := if d then st_default (view ls n) else v\<rparr> else view ls k)"
        "el_counters ls' = OnSelect (el_counters ls)" "same_capacity ls' ls"
      using select_typed_step [OF assms(1-3) 2, of d v] by blast
    moreover have "st_state (view ls n) = ES_unselected"
      using 2 by (simp add: view_def Let_def)
    ultimately show ?thesis
      using 2(1) by (auto simp: f_def select_typed_fun_def)
  qed (use assms(3) in \<open>simp_all add: select_typed_def select_typed_fun_def f_def view_def Let_def\<close>)
qed

lemma typed_records:
  assumes "lists_ok ls"
  shows "map (\<lambda>m. the (te_record (typed_record ls t m))) (nodes (el_typed ls t)) = of_type t ls"
proof -
  have "map (\<lambda>m. te_record (typed_record ls t m)) (nodes (el_typed ls t)) = map Some (of_type t ls)"
    using assms by (simp add: lists_ok_def)
  then have "map the (map (\<lambda>m. te_record (typed_record ls t m)) (nodes (el_typed ls t))) = map the (map Some (of_type t ls))"
    by (rule arg_cong)
  then show ?thesis
    by (simp add: comp_def)
qed

lemma SelectByTypeGeneric_fold:
  assumes "lists_ok ls"
  shows "SelectByTypeGeneric t d v mx ls = Some (fold_while (select_typed_fun t d v mx) (nodes (el_typed ls t)) (0, ls))"
proof -
  have "ls_head (el_typed ls t) = hd_opt (nodes (el_typed ls t))"
    using assms by (simp add: lists_ok_def list_ok_head)
  moreover have "ForeachWhile (\<lambda>(num, ls). next_of (el_typed ls t)) (select_typed t d v mx) (hd_opt (nodes (el_typed ls t))) (0, ls) =
      Some (fold_while (select_typed_fun t d v mx) (nodes (el_typed ls t)) (0, ls))"
  proof (rule conjunct1 [OF typed_loop.ForeachWhile_fold [where xs = "[]"]])
    fix m and s :: "u32 \<times> 'a EventLists"
    assume a: "case s of (num, ls) \<Rightarrow> lists_ok ls" "m \<in> set (case s of (num, ls) \<Rightarrow> nodes (el_typed ls t))"
    obtain num ls where s: "s = (num, ls)" by (cases s)
    obtain n where "te_record (typed_record ls t m) = Some n"
      using a typed_partner [of ls m t] by (auto simp: s)
    from select_typed_cases [OF _ _ this, of d v mx num] a
    show "select_typed t d v mx m s = Some (select_typed_fun t d v mx m s) \<and>
        (case snd (select_typed_fun t d v mx m s) of (num, ls) \<Rightarrow> lists_ok ls) \<and>
        (case snd (select_typed_fun t d v mx m s) of (num, ls) \<Rightarrow> nodes (el_typed ls t)) = (case s of (num, ls) \<Rightarrow> nodes (el_typed ls t))"
      by (auto simp: s split: if_splits)
  qed (use assms in simp_all)
  ultimately show ?thesis
    by (simp add: SelectByTypeGeneric_def)
qed

lemma SelectByType_abs:
  fixes ls :: "'v EventLists" and t :: EventType
  assumes "storage_ok ls"
  defines "P \<equiv> \<lambda>e. st_type e = t \<and> st_state e = ES_unselected"
  shows "\<exists>ls'. SelectByTypeGeneric t d v mx ls = Some (of_nat (min (unat mx) (length (filter P (stored_events ls)))), ls') \<and>
    storage_ok ls' \<and> same_capacity ls' ls \<and>
    stored_events ls' = mark_first P (\<lambda>e. e\<lparr>st_state := ES_selected, st_selected := if d then st_default e else v\<rparr>) (unat mx) (stored_events ls)"
proof -
  have ok: "lists_ok ls" and cnt: "counters_ok (el_counters ls) (stored_events ls)"
    using assms(1) by (simp_all add: storage_ok_def)
  define ms where "ms = nodes (el_typed ls t)"
  define ev where "ev m = the (te_record (typed_record ls t m))" for m
  define g where "g = (\<lambda>e :: 'v stored. e\<lparr>st_state := ES_selected, st_selected := if d then st_default e else v\<rparr>)"
  define I where "I ls1 \<longleftrightarrow> lists_ok ls1 \<and> nodes (el_typed ls1 t) = ms \<and> same_capacity ls1 ls \<and>
      (\<forall>m. te_record (typed_record ls1 t m) = te_record (typed_record ls t m))" for ls1 :: "'v EventLists"
  have rec: "te_record (typed_record ls t m) = Some (ev m)" if m: "m \<in> set ms" for m
  proof -
    obtain n where "te_record (typed_record ls t m) = Some n"
      using typed_partner [OF ok m [unfolded ms_def]] by blast
    then show ?thesis by (simp add: ev_def)
  qed
  have map_ev: "map ev ms = of_type t ls"
    using typed_records [OF ok, of t] by (simp add: ms_def ev_def [abs_def])
  have step: "if num = mx then select_typed_fun t d v mx m (num, ls1) = (False, num, ls1)
       else if st_state (view ls1 (ev m)) = ES_unselected
       then \<exists>ls'. select_typed_fun t d v mx m (num, ls1) = (True, num + 1, ls') \<and> I ls' \<and> nodes (el_events ls') = nodes (el_events ls1) \<and>
         (\<forall>n \<in> set (nodes (el_events ls1)). view ls' n = (if n = ev m then g (view ls1 n) else view ls1 n)) \<and>
         el_counters ls' = OnSelect (el_counters ls1)
       else select_typed_fun t d v mx m (num, ls1) = (True, num, ls1)" if "I ls1" and "m \<in> set ms" for ls1 m num
  proof -
    have "lists_ok ls1" "m \<in> set (nodes (el_typed ls1 t))" "te_record (typed_record ls1 t m) = Some (ev m)"
      using that rec by (simp_all add: I_def)
    note c = select_typed_cases [OF this, of d v mx num, THEN conjunct2]
    show ?thesis
    proof (cases "num \<noteq> mx \<and> st_state (view ls1 (ev m)) = ES_unselected")
      case True
      then have T: "(num = mx) = False" "(st_state (view ls1 (ev m)) = ES_unselected) = True"
        by simp_all
      obtain ls' where "select_typed_fun t d v mx m (num, ls1) = (True, num + 1, ls')" "lists_ok ls'"
          "nodes (el_events ls') = nodes (el_events ls1)" "nodes (el_typed ls' t) = nodes (el_typed ls1 t)"
          "\<forall>m'. te_record (typed_record ls' t m') = te_record (typed_record ls1 t m')"
          "\<forall>k \<in> set (nodes (el_events ls1)). view ls' k = (if k = ev m then g (view ls1 k) else view ls1 k)"
          "el_counters ls' = OnSelect (el_counters ls1)" "same_capacity ls' ls1"
        using c unfolding g_def T if_True if_False by blast
      moreover from this have "I ls'"
        using that(1) by (simp add: I_def)
      ultimately show ?thesis
        using True by simp
    next
      case False
      then consider "num = mx" | "num \<noteq> mx" "st_state (view ls1 (ev m)) \<noteq> ES_unselected"
        by blast
      then show ?thesis
        using c by cases simp_all
    qed
  qed
  have I0: "I ls"
    using ok by (simp add: I_def ms_def)
  have "distinct (map ev ms)" "set (map ev ms) \<subseteq> set (nodes (el_events ls))"
    using map_ev of_type_distinct [OF ok] of_type_sub by simp_all
  moreover have "length ms + unat (0 :: u32) < 2 ^ 32"
    using lists_ok_length [OF ok] arg_cong [OF map_ev, of length]
    by (simp add: of_type_def order.strict_trans1 [OF length_filter_le])
  ultimately obtain ls' ch where ls': "ch = take (unat mx - unat (0 :: u32)) (filter (\<lambda>n. st_state (view ls n) = ES_unselected) (map ev ms))"
      "fold_while (select_typed_fun t d v mx) ms (0, ls) = (0 + of_nat (length ch), ls')" "I ls'"
      "nodes (el_events ls') = nodes (el_events ls)"
      "\<forall>n \<in> set (nodes (el_events ls)). view ls' n = (if n \<in> set ch then g (view ls n) else view ls n)"
      "el_counters ls' = (OnSelect ^^ length ch) (el_counters ls)"
    using mark_loop [of I ms mx "select_typed_fun t d v mx" "\<lambda>e. st_state e = ES_unselected" ev g ms ls 0, OF step] I0 by auto
  have filters: "filter (\<lambda>n. st_state (view ls n) = ES_unselected) (map ev ms) = filter (\<lambda>n. P (view ls n)) (nodes (el_events ls))"
    by (simp add: map_ev of_type_view [OF ok] P_def conj_commute)
  have len: "length (filter (\<lambda>n. P (view ls n)) (nodes (el_events ls))) = length (filter P (stored_events ls))"
    by (simp add: stored_events_def filter_map comp_def)
  have stored: "stored_events ls' = mark_first P g (unat mx) (stored_events ls)"
    using ls'(1,4,5) filters by (intro stored_marked [OF ok]) simp_all
  have "length ch = min (unat mx) (length (filter P (stored_events ls)))"
    using ls'(1) filters len by (simp add: min.commute)
  moreover have "counters_ok (el_counters ls') (stored_events ls')"
    unfolding stored ls'(6) by (rule counters_mark_first [OF cnt]) (simp_all add: P_def g_def calculation)
  ultimately show ?thesis
    using ls'(2,3) stored SelectByTypeGeneric_fold [OF ok, of t d v mx]
    by (intro exI [of _ ls']) (simp add: I_def storage_ok_def g_def ms_def)
qed


lemma SelectByClass_abs:
  fixes ls :: "'v EventLists" and clazz :: ClassField
  assumes "storage_ok ls"
  defines "P \<equiv> \<lambda>e. st_state e = ES_unselected \<and> HasEventType (st_clazz e) clazz"
  shows "\<exists>ls'. EventSelection_SelectByClass clazz mx ls = Some (of_nat (min (unat mx) (length (filter P (stored_events ls)))), ls') \<and>
    storage_ok ls' \<and> same_capacity ls' ls \<and>
    stored_events ls' = mark_first P (\<lambda>e. e\<lparr>st_state := ES_selected\<rparr>) (unat mx) (stored_events ls)"
proof -
  have ok: "lists_ok ls" and cnt: "counters_ok (el_counters ls) (stored_events ls)"
    using assms(1) by (simp_all add: storage_ok_def)
  define ns where "ns = nodes (el_events ls)"
  define g where "g = (\<lambda>e :: 'v stored. e\<lparr>st_state := ES_selected\<rparr>)"
  define f where "f n s = the (select_class clazz mx n s)" for n and s :: "u32 \<times> 'v EventLists"
  define I where "I ls1 \<longleftrightarrow> lists_ok ls1 \<and> same_capacity ls1 ls" for ls1 :: "'v EventLists"
  have select: "select_class clazz mx n s = Some (f n s)" for n s
    by (cases s) (simp add: f_def select_class_def Let_def)
  have marked: "I (set_record n ((event_record ls1 n)\<lparr>er_state := ES_selected\<rparr>) ls1)"
      "nodes (el_events (set_record n ((event_record ls1 n)\<lparr>er_state := ES_selected\<rparr>) ls1)) = nodes (el_events ls1)"
      "view (set_record n ((event_record ls1 n)\<lparr>er_state := ES_selected\<rparr>) ls1) k = (if k = n then g (view ls1 k) else view ls1 k)"
      "el_counters (set_record n ((event_record ls1 n)\<lparr>er_state := ES_selected\<rparr>) ls1) = el_counters ls1" if "I ls1" for ls1 n k
  proof -
    have "lists_ok ls1"
      using that by (simp add: I_def)
    moreover from this have "list_ok (el_events ls1)"
      by (simp add: lists_ok_def)
    ultimately show "I (set_record n ((event_record ls1 n)\<lparr>er_state := ES_selected\<rparr>) ls1)"
        "nodes (el_events (set_record n ((event_record ls1 n)\<lparr>er_state := ES_selected\<rparr>) ls1)) = nodes (el_events ls1)"
        "el_counters (set_record n ((event_record ls1 n)\<lparr>er_state := ES_selected\<rparr>) ls1) = el_counters ls1"
      using that by (simp_all add: I_def set_record_ok) (simp_all add: set_record_def)
    show "view (set_record n ((event_record ls1 n)\<lparr>er_state := ES_selected\<rparr>) ls1) k = (if k = n then g (view ls1 k) else view ls1 k)"
      by (simp add: view_set_record g_def) (simp add: view_def Let_def)
  qed
  have I_counters: "I (ls1\<lparr>el_counters := c\<rparr>) = I ls1" for ls1 c
    by (simp add: I_def)
  have step: "if num = mx then f n (num, ls1) = (False, num, ls1)
       else if P (view ls1 n)
       then \<exists>ls'. f n (num, ls1) = (True, num + 1, ls') \<and> I ls' \<and> nodes (el_events ls') = nodes (el_events ls1) \<and>
         (\<forall>k \<in> set (nodes (el_events ls1)). view ls' k = (if k = n then g (view ls1 k) else view ls1 k)) \<and>
         el_counters ls' = OnSelect (el_counters ls1)
       else f n (num, ls1) = (True, num, ls1)" if "I ls1" "num \<le> mx" for ls1 n num
    using marked [OF that(1), of n] that(2)
    by (auto simp: f_def select_class_def Let_def P_def I_counters view_def [of ls1 n])
  have "ForeachWhile (\<lambda>(num, ls). next_of (el_events ls)) (select_class clazz mx) (hd_opt ns) (0, ls) = Some (fold_while f ns (0, ls))"
  proof (rule conjunct1 [OF event_loop.ForeachWhile_fold [where xs = "[]"]])
    fix n and s :: "u32 \<times> 'v EventLists"
    assume a: "case s of (num, ls) \<Rightarrow> lists_ok ls"
    obtain num ls1 where s: "s = (num, ls1)" by (cases s)
    have "lists_ok ls1"
      using a by (simp add: s)
    moreover from this have "list_ok (el_events ls1)"
      by (simp add: lists_ok_def)
    ultimately show "select_class clazz mx n s = Some (f n s) \<and> (case snd (f n s) of (num, ls) \<Rightarrow> lists_ok ls) \<and>
        (case snd (f n s) of (num, ls) \<Rightarrow> nodes (el_events ls)) = (case s of (num, ls) \<Rightarrow> nodes (el_events ls))"
      by (simp add: select) (simp add: f_def select_class_def s Let_def set_record_ok, simp add: set_record_def)
  qed (use ok in \<open>simp_all add: ns_def\<close>)
  then have fold: "EventSelection_SelectByClass clazz mx ls = Some (fold_while f ns (0, ls))"
    using ok by (simp add: EventSelection_SelectByClass_def lists_ok_def list_ok_head ns_def)
  have "distinct ns" "length ns < 2 ^ 32"
    using ok lists_ok_length [OF ok] by (simp_all add: ns_def lists_ok_def list_ok_distinct)
  then obtain ls' ch where ls': "ch = take (unat mx - unat (0 :: u32)) (filter (\<lambda>n. P (view ls n)) (map (\<lambda>n. n) ns))"
      "fold_while f ns (0, ls) = (0 + of_nat (length ch), ls')" "I ls'" "nodes (el_events ls') = nodes (el_events ls)"
      "\<forall>n \<in> set (nodes (el_events ls)). view ls' n = (if n \<in> set ch then g (view ls n) else view ls n)"
      "el_counters ls' = (OnSelect ^^ length ch) (el_counters ls)"
    using mark_loop [of I ns mx f P "\<lambda>n. n" g ns ls 0, OF step] ok by (auto simp: I_def ns_def)
  have len: "length (filter (\<lambda>n. P (view ls n)) ns) = length (filter P (stored_events ls))"
    by (simp add: stored_events_def ns_def filter_map comp_def)
  have stored: "stored_events ls' = mark_first P g (unat mx) (stored_events ls)"
    using ls'(1,4,5) by (intro stored_marked [OF ok]) (simp_all add: ns_def)
  have "length ch = min (unat mx) (length (filter P (stored_events ls)))"
    using ls'(1) len by (simp add: min.commute)
  moreover have "counters_ok (el_counters ls') (stored_events ls')"
    unfolding stored ls'(6) by (rule counters_mark_first [OF cnt]) (simp_all add: P_def g_def calculation)
  ultimately show ?thesis
    using ls'(2,3) stored fold
    by (intro exI [of _ ls']) (simp add: I_def storage_ok_def g_def)
qed


section \<open>Removing events\<close>

lemma map_Some_filter:
  "map f xs = map Some ys \<Longrightarrow> (\<And>x y. x \<in> set xs \<Longrightarrow> f x = Some y \<Longrightarrow> P x = Q y) \<Longrightarrow> map f (filter P xs) = map Some (filter Q ys)"
proof (induction xs arbitrary: ys)
  case (Cons x xs)
  then obtain y ys' where "ys = y # ys'" "f x = Some y" "map f xs = map Some ys'"
    by (cases ys) auto
  with Cons show ?case by auto
qed simp

lemma Remove_event_sel [simp]:
  "el_typed (Remove_event n ls) = el_typed ls" "el_counters (Remove_event n ls) = el_counters ls"
  "event_record (Remove_event n ls) k = event_record ls k" "ls_capacity (el_events (Remove_event n ls)) = ls_capacity (el_events ls)"
  by (simp_all add: Remove_event_def Remove_sel)

lemma Remove_typed_sel [simp]:
  "el_events (Remove_typed t m ls) = el_events ls" "el_counters (Remove_typed t m ls) = el_counters ls"
  "typed_record (Remove_typed t m ls) t' k = typed_record ls t' k"
  "ls_capacity (el_typed (Remove_typed t m ls) t') = ls_capacity (el_typed ls t')"
  by (simp_all add: Remove_typed_def Remove_sel)

lemma distinct_remove1_filter: "distinct xs \<Longrightarrow> remove1 x xs = filter (\<lambda>k. k \<noteq> x) xs"
  by (induction xs) (auto intro!: filter_True [symmetric])

lemma remove_pair:
  assumes "lists_ok ls" and "n \<in> set (nodes (el_events ls))"
    and "er_type (event_record ls n) = Some t" and "er_storage_node (event_record ls n) = Some m"
  defines "ls' \<equiv> Remove_event n (Remove_typed t m ls)"
  shows "lists_ok ls'" and "nodes (el_events ls') = remove1 n (nodes (el_events ls))" and "view ls' = view ls"
proof -
  have m: "m \<in> set (nodes (el_typed ls t))" "te_record (typed_record ls t m) = Some n"
    using event_partner [OF assms(1,2)] assms(3,4) by auto
  have ok: "list_ok (el_events ls)" "list_ok (el_typed ls t')" for t'
    using assms(1) by (simp_all add: lists_ok_def)
  have ev: "list_ok (el_events ls')" and ns: "nodes (el_events ls') = remove1 n (nodes (el_events ls))"
    using list_ok_Remove [OF ok(1) assms(2)] by (simp_all add: ls'_def Remove_event_def Remove_typed_def)
  have ty: "list_ok (el_typed ls' t')"
      "nodes (el_typed ls' t') = (if t' = t then remove1 m (nodes (el_typed ls t)) else nodes (el_typed ls t'))" for t'
    using list_ok_Remove [OF ok(2) m(1)] ok(2) by (simp_all add: ls'_def Remove_event_def Remove_typed_def)
  have sel: "event_record ls' k = event_record ls k" "typed_record ls' t' k = typed_record ls t' k"
      "ls_capacity (el_typed ls' t') = ls_capacity (el_typed ls t')" "ls_capacity (el_events ls') = ls_capacity (el_events ls)" for k t'
    by (simp_all add: ls'_def)
  show "view ls' = view ls"
    by (simp add: view_def fun_eq_iff sel)
  show "nodes (el_events ls') = remove1 n (nodes (el_events ls))" by (rule ns)
  have rem: "remove1 n (nodes (el_events ls)) = filter (\<lambda>k. k \<noteq> n) (nodes (el_events ls))"
      "remove1 m (nodes (el_typed ls t)) = filter (\<lambda>k. k \<noteq> m) (nodes (el_typed ls t))"
    by (rule distinct_remove1_filter, rule list_ok_distinct, rule ok)+
  have of_t: "of_type t' ls' = filter (\<lambda>k. k \<noteq> n) (of_type t' ls)" for t'
    by (simp add: of_type_def ns rem sel conj_commute)
  have maps: "map (\<lambda>k. er_storage_node (event_record ls' k)) (of_type t' ls') = map Some (nodes (el_typed ls' t')) \<and>
      map (\<lambda>k. te_record (typed_record ls' t' k)) (nodes (el_typed ls' t')) = map Some (of_type t' ls')" for t'
  proof -
    have old: "map (\<lambda>k. er_storage_node (event_record ls k)) (of_type t' ls) = map Some (nodes (el_typed ls t'))"
        "map (\<lambda>k. te_record (typed_record ls t' k)) (nodes (el_typed ls t')) = map Some (of_type t' ls)"
      using assms(1) by (simp_all add: lists_ok_def)
    show ?thesis
    proof (cases "t' = t")
      case True
      have "map (\<lambda>k. er_storage_node (event_record ls k)) (filter (\<lambda>k. k \<noteq> n) (of_type t ls)) = map Some (filter (\<lambda>k. k \<noteq> m) (nodes (el_typed ls t)))"
      proof (rule map_Some_filter)
        fix k y assume k: "k \<in> set (of_type t ls)" "er_storage_node (event_record ls k) = Some y"
        then have "te_record (typed_record ls t y) = Some k"
          using event_partner [OF assms(1), of k] by (auto simp: of_type_def)
        then show "(k \<noteq> n) = (y \<noteq> m)"
          using k(2) m(2) assms(4) by auto
      qed (use old(1) True in simp)
      moreover have "map (\<lambda>k. te_record (typed_record ls t k)) (filter (\<lambda>k. k \<noteq> m) (nodes (el_typed ls t))) = map Some (filter (\<lambda>k. k \<noteq> n) (of_type t ls))"
      proof (rule map_Some_filter)
        fix k y assume k: "k \<in> set (nodes (el_typed ls t))" "te_record (typed_record ls t k) = Some y"
        then have "er_storage_node (event_record ls y) = Some k"
          using typed_partner [OF assms(1), of k t] by auto
        then show "(k \<noteq> m) = (y \<noteq> n)"
          using k(2) m(2) assms(4) by auto
      qed (use old(2) True in simp)
      ultimately show ?thesis
        using True by (simp add: of_t ty(2) sel rem)
    next
      case False
      then have "filter (\<lambda>k. k \<noteq> n) (of_type t' ls) = of_type t' ls"
        using assms(3) by (intro filter_True) (auto simp: of_type_def)
      with False old show ?thesis
        by (simp add: of_t ty(2) sel)
    qed
  qed
  show "lists_ok ls'"
    using assms(1) ev ty(1) maps ns unfolding lists_ok_def sel by (auto dest: notin_set_remove1)
qed

lemma ClazzCount_Get_simps [simp]:
  "ClazzCount_Get k ClazzCount_Reset = 0"
  "ClazzCount_Get k (ClazzCount_Increment k' c) = ClazzCount_Get k c + (if k = k' then 1 else 0)"
  "ClazzCount_Get k (ClazzCount_Decrement k' c) = ClazzCount_Get k c - (if k = k' then 1 else 0)"
  by (cases k; cases k'; simp add: ClazzCount_Get_def ClazzCount_Reset_def ClazzCount_Increment_def ClazzCount_Decrement_def)+

lemma counters_remove:
  assumes "counters_ok c (es1 @ e # es2)"
  shows "counters_ok (OnRemove (st_clazz e) (st_state e) c) (es1 @ es2)"
  using assms by (cases "st_state e") (simp_all add: counters_ok_def OnRemove_def counted_append counted_Cons)

text \<open>An event that is removed from both lists and from the counters.\<close>

lemma remove_event_ok:
  assumes "storage_ok ls" and "nodes (el_events ls) = xs @ n # ys"
    and "er_type (event_record ls n) = Some t" and "er_storage_node (event_record ls n) = Some m"
    and "ls' = (Remove_event n (Remove_typed t m ls))\<lparr>el_counters := OnRemove (er_clazz (event_record ls n)) (er_state (event_record ls n)) (el_counters ls)\<rparr>"
  shows "storage_ok ls'" and "nodes (el_events ls') = xs @ ys" and "view ls' = view ls" and "same_capacity ls' ls"
proof -
  have ok: "lists_ok ls" and "n \<in> set (nodes (el_events ls))"
    using assms(1,2) by (simp_all add: storage_ok_def)
  note r = remove_pair [OF this assms(3,4)]
  have "n \<notin> set xs"
    using ok assms(2) list_ok_distinct [of "el_events ls"] by (simp add: lists_ok_def)
  then show ns: "nodes (el_events ls') = xs @ ys"
    using r(2) by (simp add: assms(2,5) remove1_append)
  show vw: "view ls' = view ls"
    using r(3) by (simp add: assms(5))
  show "same_capacity ls' ls"
    by (simp add: assms(5))
  have "er_clazz (event_record ls n) = st_clazz (view ls n)" "er_state (event_record ls n) = st_state (view ls n)"
    by (simp_all add: view_def Let_def)
  then have "counters_ok (el_counters ls') (stored_events ls')"
    using assms(1) counters_remove [of "el_counters ls" "map (view ls) xs" "view ls n" "map (view ls) ys"]
    by (simp add: storage_ok_def stored_events_def ns vw assms(2)) (simp add: assms(5))
  then show "storage_ok ls'"
    using r(1) by (simp add: storage_ok_def assms(5))
qed

definition clear_written_fun :: "nat \<Rightarrow> 'v EventLists \<Rightarrow> 'v EventLists" where
  "clear_written_fun n ls =
     (let r = event_record ls n
      in (Remove_event n (Remove_typed (the (er_type r)) (the (er_storage_node r)) ls))
        \<lparr>el_counters := OnRemove (er_clazz r) (er_state r) (el_counters ls)\<rparr>)"

lemma clear_written_fold:
  assumes "storage_ok ls" and "nodes (el_events ls) = xs @ ys"
  defines "written \<equiv> \<lambda>n. st_state (view ls n) = ES_written"
  shows "\<exists>ls'. fold (\<lambda>n (c, s). (if er_state (event_record s n) = ES_written then c + 1 else c,
        if er_state (event_record s n) = ES_written then clear_written_fun n s else s)) ys (c, ls) =
      (c + of_nat (length (filter written ys)) :: u32, ls') \<and>
    storage_ok ls' \<and> view ls' = view ls \<and> nodes (el_events ls') = xs @ filter (\<lambda>n. \<not> written n) ys \<and> same_capacity ls' ls"
  using assms(1,2) unfolding written_def
proof (induction ys arbitrary: xs ls c)
  case Nil
  then show ?case by simp
next
  case (Cons n ys)
  have st: "er_state (event_record ls n) = st_state (view ls n)"
    by (simp add: view_def Let_def)
  show ?case
  proof (cases "st_state (view ls n) = ES_written")
    case True
    have "lists_ok ls" "n \<in> set (nodes (el_events ls))"
      using Cons.prems by (simp_all add: storage_ok_def)
    then obtain t m where "er_type (event_record ls n) = Some t" "er_storage_node (event_record ls n) = Some m"
      by (rule event_partner)
    then have r: "storage_ok (clear_written_fun n ls)" "nodes (el_events (clear_written_fun n ls)) = xs @ ys"
        "view (clear_written_fun n ls) = view ls" "same_capacity (clear_written_fun n ls) ls"
      using remove_event_ok [OF Cons.prems] by (simp_all add: clear_written_fun_def Let_def)
    with Cons.IH [OF r(1,2), of "c + 1"] True show ?thesis
      by (auto simp: st add.assoc)
  next
    case False
    with Cons.IH [of ls "xs @ [n]" c] Cons.prems show ?thesis
      by (simp add: st)
  qed
qed

lemma ClearWritten_abs:
  assumes "storage_ok ls"
  shows "\<exists>ls'. EventStorage_ClearWritten ls = Some (of_nat (length (filter (\<lambda>e. st_state e = ES_written) (stored_events ls))), ls') \<and>
    storage_ok ls' \<and> same_capacity ls' ls \<and> stored_events ls' = filter (\<lambda>e. st_state e \<noteq> ES_written) (stored_events ls)"
proof -
  define hit where "hit n s \<longleftrightarrow> er_state (event_record s n) = ES_written" for n and s :: "'a EventLists"
  define m where "m n s = (if hit n s then (Remove_typed (the (er_type (event_record s n))) (the (er_storage_node (event_record s n))) s)
      \<lparr>el_counters := OnRemove (er_clazz (event_record s n)) (er_state (event_record s n)) (el_counters s)\<rparr> else s)" for n and s :: "'a EventLists"
  define ns where "ns = nodes (el_events ls)"
  have ok: "lists_ok ls"
    using assms by (simp add: storage_ok_def)
  have after: "(if hit n s then Remove_event n (m n s) else m n s) = (if hit n s then clear_written_fun n s else s)" for n s
    by (simp add: m_def clear_written_fun_def Let_def) (simp add: Remove_event_def)
  have step: "clear_written n s = Some (hit n s, m n s) \<and> (\<forall>k. next_of (el_events (m n s)) k = next_of (el_events s) k) \<and>
      lists_ok (if hit n s then Remove_event n (m n s) else m n s) \<and>
      nodes (el_events (if hit n s then Remove_event n (m n s) else m n s)) = (if hit n s then remove1 n (nodes (el_events s)) else nodes (el_events s))"
    if s: "lists_ok s" and n: "n \<in> set (nodes (el_events s))" for n and s :: "'a EventLists"
  proof -
    obtain t k where tk: "er_type (event_record s n) = Some t" "er_storage_node (event_record s n) = Some k"
      using s n by (rule event_partner)
    note r = remove_pair [OF s n tk]
    show ?thesis
      using tk r(1,2) s unfolding after
      by (simp add: clear_written_def RemoveTypeFromStorage_def hit_def m_def clear_written_fun_def Let_def)
  qed
  have "RemoveAll (\<lambda>s. next_of (el_events s)) clear_written Remove_event (hd_opt ns) ls =
      RemoveAll_loop (\<lambda>s. next_of (el_events s)) clear_written Remove_event (hd_opt ns) (hd_opt (tl ns)) 0 ls"
    using list_ok_next [of "el_events ls" "[]" "hd ns" "tl ns"] ok
    by (cases ns) (simp_all add: RemoveAll_def ns_def lists_ok_def)
  also have "\<dots> = Some (fold (\<lambda>n (c, s). (if hit n s then c + 1 else c, if hit n s then Remove_event n (m n s) else m n s)) ns (0, ls))"
    by (rule conjunct1 [OF storage_loop.RemoveAll_fold [where xs = "[]", OF step]]) (simp_all add: ok ns_def)
  finally have run: "EventStorage_ClearWritten ls =
      Some (fold (\<lambda>n (c, s). (if hit n s then c + 1 else c, if hit n s then clear_written_fun n s else s)) ns (0, ls))"
    using ok unfolding after by (simp add: EventStorage_ClearWritten_def ns_def lists_ok_def list_ok_head)
  have "nodes (el_events ls) = [] @ ns"
    by (simp add: ns_def)
  from clear_written_fold [OF assms this, of 0] run show ?thesis
    by (auto simp: hit_def stored_events_def ns_def filter_map comp_def)
qed

lemma clear_state_fold:
  fixes ls :: "'v EventLists"
  defines "f \<equiv> \<lambda>n s. set_record n ((event_record s n)\<lparr>er_state := ES_unselected\<rparr>) s"
  assumes "lists_ok ls"
  shows "lists_ok (fold f ys ls) \<and> nodes (el_events (fold f ys ls)) = nodes (el_events ls) \<and>
    view (fold f ys ls) = (\<lambda>k. if k \<in> set ys then (view ls k)\<lparr>st_state := ES_unselected\<rparr> else view ls k) \<and>
    el_counters (fold f ys ls) = el_counters ls \<and> same_capacity (fold f ys ls) ls"
  using assms(2)
proof (induction ys arbitrary: ls)
  case (Cons n ys)
  have "list_ok (el_events ls)"
    using Cons.prems by (simp add: lists_ok_def)
  then have 1: "lists_ok (f n ls)" "nodes (el_events (f n ls)) = nodes (el_events ls)" "el_counters (f n ls) = el_counters ls"
      "same_capacity (f n ls) ls"
    using Cons.prems by (simp_all add: f_def set_record_ok) (simp_all add: set_record_def)
  have "view (f n ls) = (\<lambda>k. if k = n then (view ls k)\<lparr>st_state := ES_unselected\<rparr> else view ls k)"
    by (rule ext) (simp add: f_def view_set_record, simp add: view_def Let_def)
  then show ?case
    using Cons.IH [OF 1(1)] 1 by (auto simp: fun_eq_iff)
qed simp

lemma Unselect_abs:
  assumes "storage_ok ls"
  shows "\<exists>ls'. EventStorage_Unselect ls = Some ls' \<and> storage_ok ls' \<and> same_capacity ls' ls \<and>
    stored_events ls' = map (\<lambda>e. e\<lparr>st_state := ES_unselected\<rparr>) (stored_events ls)"
proof -
  define f where "f n s = set_record n ((event_record s n)\<lparr>er_state := ES_unselected\<rparr>) s" for n and s :: "'a EventLists"
  define ns where "ns = nodes (el_events ls)"
  define ls1 where "ls1 = fold f ns ls"
  have ok: "lists_ok ls"
    using assms by (simp add: storage_ok_def)
  have c: "lists_ok ls1" "nodes (el_events ls1) = nodes (el_events ls)"
      "view ls1 = (\<lambda>k. if k \<in> set ns then (view ls k)\<lparr>st_state := ES_unselected\<rparr> else view ls k)"
      "el_counters ls1 = el_counters ls" "same_capacity ls1 ls"
    using clear_state_fold [OF ok, of ns] by (simp_all add: ls1_def f_def [abs_def])
  have "clear_state n s = Some (f n s) \<and> lists_ok (f n s) \<and> nodes (el_events (f n s)) = nodes (el_events s)"
    if "lists_ok s" for n s
    using clear_state_fold [OF that, of "[n]"] by (simp add: clear_state_def f_def)
  then have "List_Foreach (\<lambda>s. next_of (el_events s)) clear_state (hd_opt ns) ls = Some ls1"
    unfolding ls1_def by (intro conjunct1 [OF storage_loop.Foreach_fold [where xs = "[]"]]) (simp_all add: ok ns_def)
  then have run: "EventStorage_Unselect ls = Some (ls1\<lparr>el_counters := ResetOnFail (el_counters ls1)\<rparr>)"
    using ok by (simp add: EventStorage_Unselect_def ns_def lists_ok_def list_ok_head)
  have st: "stored_events (ls1\<lparr>el_counters := ResetOnFail (el_counters ls1)\<rparr>) = map (\<lambda>e. e\<lparr>st_state := ES_unselected\<rparr>) (stored_events ls)"
    using c(2,3) by (simp add: stored_events_def ns_def)
  have "counted P (map (\<lambda>e. e\<lparr>st_state := ES_unselected\<rparr>) es) = counted (\<lambda>e. P (e\<lparr>st_state := ES_unselected\<rparr>)) es" for P and es :: "'a stored list"
    by (simp add: counted_def filter_map comp_def)
  then have "counters_ok (ResetOnFail (el_counters ls1)) (map (\<lambda>e. e\<lparr>st_state := ES_unselected\<rparr>) (stored_events ls))"
    using assms c(4) by (simp add: storage_ok_def counters_ok_def ResetOnFail_def) (simp add: counted_def)
  then show ?thesis
    using run st c(1,5) by (intro exI [of _ "ls1\<lparr>el_counters := ResetOnFail (el_counters ls1)\<rparr>"]) (simp add: storage_ok_def)
qed


section \<open>Adding events\<close>

lemma of_type_length: "lists_ok ls \<Longrightarrow> length (of_type t ls) = length (nodes (el_typed ls t))"
  unfolding lists_ok_def by (metis length_map)

lemma lists_ok_total:
  assumes "lists_ok ls"
  shows "length (nodes (el_events ls)) = (\<Sum>t\<in>UNIV. length (nodes (el_typed ls t)))"
proof -
  have "\<forall>n \<in> set ns. f n \<noteq> None \<Longrightarrow> length ns = (\<Sum>t\<in>UNIV. length (filter (\<lambda>n. f n = Some t) ns))" for f :: "nat \<Rightarrow> EventType option" and ns
  proof (induction ns)
    case (Cons n ns)
    then obtain t where t: "f n = Some t"
      by auto
    have "(\<Sum>t'\<in>UNIV. length (filter (\<lambda>n. f n = Some t') (n # ns))) =
        (\<Sum>t'\<in>UNIV. (if t' = t then 1 else 0) + length (filter (\<lambda>n. f n = Some t') ns))"
      by (rule sum.cong) (auto simp: t)
    also have "\<dots> = 1 + length ns"
      using Cons by (simp add: sum.distrib)
    finally show ?case by simp
  qed simp
  from this [of "nodes (el_events ls)" "\<lambda>n. er_type (event_record ls n)"] assms show ?thesis
    by (simp flip: of_type_length [OF assms]) (simp add: of_type_def lists_ok_def)
qed

lemma lists_ok_room:
  assumes "lists_ok ls" and "length (nodes (el_typed ls t)) < ls_capacity (el_typed ls t)"
  shows "length (nodes (el_events ls)) < ls_capacity (el_events ls)"
proof -
  have "(\<Sum>t\<in>UNIV. length (nodes (el_typed ls t))) < (\<Sum>t\<in>UNIV. ls_capacity (el_typed ls t))"
    using assms list_ok_length by (intro sum_strict_mono_ex1) (auto simp: lists_ok_def)
  then show ?thesis
    using assms(1) lists_ok_total [OF assms(1)] by (simp add: lists_ok_def)
qed

definition new_stored :: "EventType \<Rightarrow> 'v Event \<Rightarrow> 'v stored" where
  "new_stored t event =
     \<lparr>st_type = t, st_index = ev_index event, st_clazz = ev_clazz event, st_state = ES_unselected, st_value = ev_value event,
      st_default = ev_variation event, st_selected = ev_variation event\<rparr>"

lemma Update_add_abs:
  assumes "storage_ok ls" and "length (nodes (el_typed ls t)) < ls_capacity (el_typed ls t)"
  shows "\<exists>ls'. Update_add t event ls = Some ls' \<and> storage_ok ls' \<and> same_capacity ls' ls \<and>
    stored_events ls' = stored_events ls @ [new_stored t event]"
proof -
  have ok: "lists_ok ls" and lok: "list_ok (el_events ls)" "list_ok (el_typed ls t)" for t
    using assms(1) by (simp_all add: storage_ok_def lists_ok_def)
  define r where "r = EventRecord_of (ev_index event) (ev_clazz event)"
  obtain n es where es: "List_Add r (el_events ls) = (Some n, es)" "list_ok es" "nodes es = nodes (el_events ls) @ [n]"
      "n \<notin> set (nodes (el_events ls))" "ls_capacity es = ls_capacity (el_events ls)" "value_at es = (event_record ls)(n := r)"
    using list_ok_Add [OF lok(1) lists_ok_room [OF ok assms(2)], of r] by metis
  define x where "x = \<lparr>te_value = ev_value event, te_defaultVariation = ev_variation event,
      te_selectedVariation = ev_variation event, te_record = Some n\<rparr>"
  obtain m ts where ts: "List_Add x (el_typed ls t) = (Some m, ts)" "list_ok ts" "nodes ts = nodes (el_typed ls t) @ [m]"
      "m \<notin> set (nodes (el_typed ls t))" "ls_capacity ts = ls_capacity (el_typed ls t)" "value_at ts = (typed_record ls t)(m := x)"
    using list_ok_Add [OF lok(2) assms(2), of x] by metis
  define r' where "r' = r\<lparr>er_type := Some t, er_storage_node := Some m\<rparr>"
  define ls' where "ls' = ls\<lparr>el_events := set_value n r' es, el_typed := (el_typed ls)(t := ts), el_counters := OnAdd (ev_clazz event) (el_counters ls)\<rparr>"
  have "value_at es n = r"
    by (simp add: fun_cong [OF es(6)])
  then have run: "Update_add t event ls = Some ls'"
    using es(1) ts(1) by (simp add: Update_add_def Let_def set_record_def ls'_def r'_def flip: r_def x_def)
  have ev: "event_record ls' k = (if k = n then r' else event_record ls k)"
      and ty: "typed_record ls' t' k = (if t' = t \<and> k = m then x else typed_record ls t' k)" for k t'
    by (simp_all add: ls'_def fun_cong [OF es(6)] fun_cong [OF ts(6)])
  have ns: "nodes (el_events ls') = nodes (el_events ls) @ [n]" "list_ok (el_events ls')"
      "nodes (el_typed ls' t') = nodes (el_typed ls t') @ (if t' = t then [m] else [])" "list_ok (el_typed ls' t')" for t'
    using es ts lok(2) by (simp_all add: ls'_def)
  have caps: "same_capacity ls' ls" "ls_capacity (el_events ls') = ls_capacity (el_events ls)"
    by (simp_all add: ls'_def es(5) ts(5))
  have of_t: "of_type t' ls' = of_type t' ls @ (if t' = t then [n] else [])" for t'
  proof -
    have "filter (\<lambda>k. er_type (event_record ls' k) = Some t') (nodes (el_events ls)) = of_type t' ls"
      unfolding of_type_def using es(4) by (intro filter_cong) (auto simp: ev)
    then show ?thesis
      by (simp add: of_type_def [of t' ls'] ns(1) ev) (simp add: r'_def)
  qed
  have maps: "map (\<lambda>k. er_storage_node (event_record ls' k)) (of_type t' ls') = map Some (nodes (el_typed ls' t')) \<and>
      map (\<lambda>k. te_record (typed_record ls' t' k)) (nodes (el_typed ls' t')) = map Some (of_type t' ls')" for t'
  proof -
    have old: "map (\<lambda>k. er_storage_node (event_record ls k)) (of_type t' ls) = map Some (nodes (el_typed ls t'))"
        "map (\<lambda>k. te_record (typed_record ls t' k)) (nodes (el_typed ls t')) = map Some (of_type t' ls)"
      using ok by (simp_all add: lists_ok_def)
    have "map (\<lambda>k. er_storage_node (event_record ls' k)) (of_type t' ls) = map Some (nodes (el_typed ls t'))"
      using es(4) of_type_sub [of t' ls] by (intro trans [OF _ old(1)] map_cong) (auto simp: ev)
    moreover have "map (\<lambda>k. te_record (typed_record ls' t' k)) (nodes (el_typed ls t')) = map Some (of_type t' ls)"
      using ts(4) by (intro trans [OF _ old(2)] map_cong) (auto simp: ty)
    ultimately show ?thesis
      unfolding of_t ns(3) map_append by (simp add: ev ty r'_def x_def del: map_eq_conv)
  qed
  have lists: "lists_ok ls'"
    using ok ns(2,4) caps maps es(4) unfolding lists_ok_def by (simp add: ns(1) ev) (auto simp: r'_def)
  have old: "view ls' k = view ls k" if k: "k \<in> set (nodes (el_events ls))" for k
  proof -
    obtain t' m' where "er_type (event_record ls k) = Some t'" "er_storage_node (event_record ls k) = Some m'"
        "m' \<in> set (nodes (el_typed ls t'))"
      using ok k by (rule event_partner)
    then show ?thesis
      using k es(4) ts(4) by (auto simp: view_def Let_def ev ty)
  qed
  have "view ls' n = new_stored t event"
    by (simp add: view_def Let_def ev ty new_stored_def) (simp add: r'_def x_def r_def EventRecord_of_def)
  then have st: "stored_events ls' = stored_events ls @ [new_stored t event]"
    using old by (simp add: stored_events_def ns(1))
  have cnt: "el_counters ls' = OnAdd (ev_clazz event) (el_counters ls)"
    by (simp add: ls'_def)
  have "counters_ok (el_counters ls') (stored_events ls')"
    using assms(1) by (simp add: storage_ok_def counters_ok_def st cnt counted_append OnAdd_def) (simp add: counted_def new_stored_def)
  then show ?thesis
    using run lists st caps by (simp add: storage_ok_def)
qed

text \<open>An update of the abstract content: a type without capacity is ignored, a full type loses its oldest event.\<close>

fun remove_first :: "EventType \<Rightarrow> 'v stored list \<Rightarrow> 'v stored list" where
  "remove_first t [] = []"
| "remove_first t (e # es) = (if st_type e = t then es else e # remove_first t es)"

definition of_kind :: "EventType \<Rightarrow> 'v stored list \<Rightarrow> nat" where
  "of_kind t es = length (filter (\<lambda>e. st_type e = t) es)"

definition update_stored :: "nat \<Rightarrow> EventType \<Rightarrow> 'v Event \<Rightarrow> 'v stored list \<Rightarrow> bool \<times> 'v stored list" where
  "update_stored capacity t event es =
     (if capacity = 0 then (False, es)
      else if of_kind t es = capacity then (True, remove_first t es @ [new_stored t event])
      else (False, es @ [new_stored t event]))"

lemma of_kind_nodes: "lists_ok ls \<Longrightarrow> of_kind t (stored_events ls) = length (nodes (el_typed ls t))"
  by (simp add: of_kind_def stored_events_def filter_map comp_def of_type_view flip: of_type_length)

lemma Update_overflow_abs:
  assumes "storage_ok ls" and "length (nodes (el_typed ls t)) = ls_capacity (el_typed ls t)" and "0 < ls_capacity (el_typed ls t)"
  shows "\<exists>ls'. Update_overflow t ls = Some ls' \<and> storage_ok ls' \<and> same_capacity ls' ls \<and>
    stored_events ls' = remove_first t (stored_events ls) \<and> length (nodes (el_typed ls' t)) < ls_capacity (el_typed ls' t)"
proof -
  have ok: "lists_ok ls" and lok: "list_ok (el_events ls)" "list_ok (el_typed ls t)" for t
    using assms(1) by (simp_all add: storage_ok_def lists_ok_def)
  obtain m ms where ms: "nodes (el_typed ls t) = m # ms"
    using assms(2,3) by (cases "nodes (el_typed ls t)") auto
  have "map (\<lambda>m. te_record (typed_record ls t m)) (nodes (el_typed ls t)) = map Some (of_type t ls)"
    using ok by (simp add: lists_ok_def)
  then obtain n rest where n: "of_type t ls = n # rest" "te_record (typed_record ls t m) = Some n"
    by (auto simp: ms)
  then obtain xs ys where ns: "nodes (el_events ls) = xs @ n # ys" and "\<forall>k \<in> set xs. er_type (event_record ls k) \<noteq> Some t"
      and type: "er_type (event_record ls n) = Some t"
    unfolding of_type_def by (auto dest: filter_eq_ConsD)
  then have xs: "\<forall>k \<in> set xs. st_type (view ls k) \<noteq> t"
    using ok by (auto simp: view_def Let_def lists_ok_def)
  have storage: "er_storage_node (event_record ls n) = Some m"
    using typed_partner [OF ok, of m t] ms n(2) by force
  define ls' where "ls' = (Remove_event n (Remove_typed t m ls))\<lparr>el_counters := OnRemove (er_clazz (event_record ls n)) (er_state (event_record ls n)) (el_counters ls)\<rparr>"
  note r = remove_event_ok [OF assms(1) ns type storage ls'_def]
  have "Update_overflow t ls = Some ls'"
    using n(2) list_ok_head [OF lok(2) [of t]]
    by (simp add: Update_overflow_def ms Let_def ls'_def) (simp add: Remove_event_def Remove_typed_def)
  moreover have "stored_events ls' = remove_first t (stored_events ls)"
  proof -
    have "remove_first t (map (view ls) xs @ view ls n # es) = map (view ls) xs @ es" for es
      using xs by (induction xs) (use type in \<open>simp_all add: view_def Let_def\<close>)
    then show ?thesis
      by (simp add: stored_events_def r(2,3) ns)
  qed
  moreover have "length (nodes (el_typed ls' t)) < ls_capacity (el_typed ls' t)"
  proof -
    have "nodes (el_typed ls' t) = remove1 m (nodes (el_typed ls t))"
      using list_ok_Remove(2) [OF lok(2), of m t] by (simp add: ls'_def ms) (simp add: Remove_event_def Remove_typed_def ms)
    then show ?thesis
      using assms(2,3) r(4) by (simp add: ms)
  qed
  ultimately show ?thesis
    using r(1,4) by blast
qed

lemma Update_abs:
  fixes t :: EventType and event :: "'v Event"
  assumes "storage_ok ls"
  defines "u \<equiv> update_stored (ls_capacity (el_typed ls t)) t event (stored_events ls)"
  shows "\<exists>ls'. EventUpdate_Update t event ls = Some (fst u, ls') \<and> storage_ok ls' \<and> same_capacity ls' ls \<and> stored_events ls' = snd u"
proof -
  have ok: "lists_ok ls" "list_ok (el_typed ls t)"
    using assms(1) by (simp_all add: storage_ok_def lists_ok_def)
  define cap where "cap = ls_capacity (el_typed ls t)"
  have full: "IsFullAndCapacityNotZero (el_typed ls t) \<longleftrightarrow> of_kind t (stored_events ls) = cap" if "0 < cap"
    using that by (simp add: IsFullAndCapacityNotZero_def of_kind_nodes [OF ok(1)] list_ok_full [OF ok(2)] cap_def)
  have le: "length (nodes (el_typed ls t)) \<le> cap"
    using list_ok_length [OF ok(2)] by (simp add: cap_def)
  consider "cap = 0" | "0 < cap" "of_kind t (stored_events ls) = cap" | "0 < cap" "of_kind t (stored_events ls) < cap"
    using le by (fastforce simp: of_kind_nodes [OF ok(1)])
  then show ?thesis
  proof cases
    case 1
    then show ?thesis
      using assms(1) by (simp add: EventUpdate_Update_def u_def update_stored_def cap_def)
  next
    case 2
    then obtain ls1 where ls1: "Update_overflow t ls = Some ls1" "storage_ok ls1" "same_capacity ls1 ls"
        "stored_events ls1 = remove_first t (stored_events ls)" "length (nodes (el_typed ls1 t)) < ls_capacity (el_typed ls1 t)"
      using Update_overflow_abs [OF assms(1), of t] by (auto simp: of_kind_nodes [OF ok(1)] cap_def)
    with Update_add_abs [OF ls1(2,5), of event] 2 full show ?thesis
      by (auto simp: EventUpdate_Update_def u_def update_stored_def cap_def)
  next
    case 3
    then have "length (nodes (el_typed ls t)) < ls_capacity (el_typed ls t)"
      by (simp add: of_kind_nodes [OF ok(1)] cap_def)
    from Update_add_abs [OF assms(1) this, of event] 3 full show ?thesis
      by (auto simp: EventUpdate_Update_def u_def update_stored_def cap_def)
  qed
qed

end
