(* ===== verification/EventWriting.thy ===== *)
theory EventWriting
  imports EventStorage
begin

text \<open>
  Writing the selected events (\<open>outstation/event/EventWriting\<close>, \<open>EventCollection\<close>,
  \<open>EventTypeImpl\<close>): runs of selected events of one type and one variation are handed to a writer
  that the handler opens for each run. An iterator is the node it stands on.
\<close>

section \<open>The interfaces\<close>

text \<open>
  \<open>IEventWriteHandler::Write\<close> creates a writer from its own state \<open>'h\<close>, hands it to the collection
  and destroys it: \<open>eh_open\<close> (\<open>Some None\<close> when it returns 0 without a writer), \<open>eh_Write\<close>
  for each event and \<open>eh_close\<close>.
\<close>

record ('v, 'h, 'w) IEventWriteHandler =
  eh_open :: "EventType \<Rightarrow> GroupVariation \<Rightarrow> 'v \<Rightarrow> 'h \<Rightarrow> 'w option option"
  eh_Write :: "'v \<Rightarrow> u16 \<Rightarrow> 'w \<Rightarrow> (bool \<times> 'w) option"
  eh_close :: "'w \<Rightarrow> 'h option"

partial_function (option) Iterator_Find :: "('a \<Rightarrow> bool) \<Rightarrow> 'a List \<Rightarrow> nat option \<Rightarrow> nat option option" where
  "Iterator_Find matches l current =
     (case current of
        None \<Rightarrow> Some None
      | Some n \<Rightarrow> if matches (value_at l n) then Some (Some n) else Iterator_Find matches l (next_of l n))"

declare Iterator_Find.simps [code]

definition Iterator_Next :: "'a List \<Rightarrow> nat option \<Rightarrow> nat option" where
  "Iterator_Next l current = (case current of None \<Rightarrow> None | Some n \<Rightarrow> next_of l n)"

text \<open>The record found, if any, and the iterator.\<close>

partial_function (option) FindNextSelected ::
    "EventType \<Rightarrow> 'v EventLists \<Rightarrow> nat option \<Rightarrow> (nat option \<times> nat option) option" where
  "FindNextSelected type ls iter =
     (case iter of
        None \<Rightarrow> Some (None, None)
      | Some n \<Rightarrow>
          if er_state (event_record ls n) = ES_selected
          then do { t \<leftarrow> er_type (event_record ls n); Some (if t = type then Some n else None, iter) }
          else FindNextSelected type ls (next_of (el_events ls) n))"

declare FindNextSelected.simps [code]

section \<open>A run of events\<close>

definition EventCollection_WriteOne ::
    "EventType \<Rightarrow> GroupVariation \<Rightarrow> ('v \<Rightarrow> u16 \<Rightarrow> 'w \<Rightarrow> (bool \<times> 'w) option) \<Rightarrow> nat option \<Rightarrow> 'v EventLists \<Rightarrow> 'w \<Rightarrow>
     (bool \<times> nat option \<times> 'v EventLists \<times> 'w) option" where
  "EventCollection_WriteOne type variation writer_Write iter ls w =
     (if ecc_selected (el_counters ls) = 0 then Some (False, iter, ls, w)
      else do {
        (found, iter) \<leftarrow> FindNextSelected type ls iter;
        case found of
          None \<Rightarrow> Some (False, iter, ls, w)
        | Some n \<Rightarrow> do {
            let r = event_record ls n;
            m \<leftarrow> er_storage_node r;
            let data = typed_record ls type m;
            if te_selectedVariation data \<noteq> variation then Some (False, iter, ls, w)
            else do {
              (ok, w) \<leftarrow> writer_Write (te_value data) (er_index r) w;
              if \<not> ok then Some (False, iter, ls, w)
              else do {
                let ls = ls\<lparr>el_counters := OnWrite (er_clazz r) (el_counters ls)\<rparr>;
                let ls = set_record n (r\<lparr>er_state := ES_written\<rparr>) ls;
                Some (True, Iterator_Next (el_events ls) iter, ls, w) }}}})"

partial_function (option) EventCollection_WriteSome ::
    "EventType \<Rightarrow> GroupVariation \<Rightarrow> ('v \<Rightarrow> u16 \<Rightarrow> 'w \<Rightarrow> (bool \<times> 'w) option) \<Rightarrow> u16 \<Rightarrow> nat option \<Rightarrow> 'v EventLists \<Rightarrow> 'w \<Rightarrow>
     (u16 \<times> nat option \<times> 'v EventLists \<times> 'w) option" where
  "EventCollection_WriteSome type variation writer_Write num_written iter ls w = do {
     (ok, iter, ls, w) \<leftarrow> EventCollection_WriteOne type variation writer_Write iter ls w;
     if ok then EventCollection_WriteSome type variation writer_Write (num_written + 1) iter ls w
     else Some (num_written, iter, ls, w) }"

declare EventCollection_WriteSome.simps [code]

definition EventTypeImpl_WriteSome ::
    "('v, 'h, 'w) IEventWriteHandler \<Rightarrow> EventType \<Rightarrow> nat option \<Rightarrow> 'v EventLists \<Rightarrow> 'h \<Rightarrow> (u16 \<times> nat option \<times> 'v EventLists \<times> 'h) option" where
  "EventTypeImpl_WriteSome handler t iter ls h = do {
     pos \<leftarrow> iter;
     m \<leftarrow> er_storage_node (event_record ls pos);
     let x = typed_record ls t m;
     opened \<leftarrow> eh_open handler t (te_selectedVariation x) (te_value x) h;
     case opened of
       None \<Rightarrow> Some (0, iter, ls, h)
     | Some w \<Rightarrow> do {
         (num, iter, ls, w) \<leftarrow> EventCollection_WriteSome t (te_selectedVariation x) (eh_Write handler) 0 iter ls w;
         h \<leftarrow> eh_close handler w;
         Some (num, iter, ls, h) }}"


section \<open>All runs\<close>

definition EventWriting_WriteSome ::
    "('v, 'h, 'w) IEventWriteHandler \<Rightarrow> nat option \<Rightarrow> 'v EventLists \<Rightarrow> 'h \<Rightarrow> (u16 \<times> nat option \<times> 'v EventLists \<times> 'h) option" where
  "EventWriting_WriteSome handler iter ls h =
     (if ecc_selected (el_counters ls) = 0 then Some (0, iter, ls, h)
      else do {
        iter \<leftarrow> Iterator_Find (\<lambda>r. er_state r = ES_selected) (el_events ls) iter;
        case iter of
          None \<Rightarrow> Some (0, iter, ls, h)
        | Some n \<Rightarrow> do { t \<leftarrow> er_type (event_record ls n); EventTypeImpl_WriteSome handler t iter ls h } })"

partial_function (option) EventWriting_loop ::
    "('v, 'h, 'w) IEventWriteHandler \<Rightarrow> u32 \<Rightarrow> nat option \<Rightarrow> 'v EventLists \<Rightarrow> 'h \<Rightarrow> (u32 \<times> 'v EventLists \<times> 'h) option" where
  "EventWriting_loop handler total_num_written iter ls h = do {
     (num_written, iter, ls, h) \<leftarrow> EventWriting_WriteSome handler iter ls h;
     if num_written = 0 then Some (total_num_written, ls, h)
     else EventWriting_loop handler (total_num_written + ucast num_written) iter ls h }"

declare EventWriting_loop.simps [code]

definition EventWriting_Write :: "('v, 'h, 'w) IEventWriteHandler \<Rightarrow> 'v EventLists \<Rightarrow> 'h \<Rightarrow> (u32 \<times> 'v EventLists \<times> 'h) option" where
  "EventWriting_Write handler ls h = EventWriting_loop handler 0 (ls_head (el_events ls)) ls h"


section \<open>What is written\<close>

text \<open>On the list of selected events: how many of its first events form a run that the writer accepts.\<close>

fun write_items :: "EventType \<Rightarrow> GroupVariation \<Rightarrow> ('v \<Rightarrow> u16 \<Rightarrow> 'w \<Rightarrow> (bool \<times> 'w) option) \<Rightarrow> 'v stored list \<Rightarrow> 'w \<Rightarrow> (nat \<times> 'w) option" where
  "write_items t v wr [] w = Some (0, w)"
| "write_items t v wr (e # es) w =
     (if st_type e = t \<and> st_selected e = v
      then do {
        (ok, w) \<leftarrow> wr (st_value e) (st_index e) w;
        if ok then map_option (\<lambda>(k, w). (Suc k, w)) (write_items t v wr es w) else Some (0, w) }
      else Some (0, w))"

text \<open>The runs, until one makes no progress.\<close>

function write_selected :: "('v, 'h, 'w) IEventWriteHandler \<Rightarrow> 'v stored list \<Rightarrow> 'h \<Rightarrow> (nat \<times> 'h) option" where
  "write_selected handler [] h = Some (0, h)"
| "write_selected handler (e # es) h =
     (case eh_open handler (st_type e) (st_selected e) (st_value e) h of
        None \<Rightarrow> None
      | Some None \<Rightarrow> Some (0, h)
      | Some (Some w) \<Rightarrow>
          (case write_items (st_type e) (st_selected e) (eh_Write handler) (e # es) w of
             None \<Rightarrow> None
           | Some (k, w) \<Rightarrow>
               (case eh_close handler w of
                  None \<Rightarrow> None
                | Some h \<Rightarrow>
                    if k = 0 then Some (0, h)
                    else map_option (\<lambda>(j, h). (k + j, h)) (write_selected handler (drop k (e # es)) h))))"
  by pat_completeness auto

termination by (relation "measure (\<lambda>(_, es, _). length es)") auto

lemma write_items_Cons:
  assumes "write_items t v wr (e # es) w = Some (k, w')"
  obtains "k = 0" | j w1 where "k = Suc j" "st_type e = t" "st_selected e = v" "wr (st_value e) (st_index e) w = Some (True, w1)"
    "write_items t v wr es w1 = Some (j, w')"
proof (cases "st_type e = t \<and> st_selected e = v")
  case True
  obtain ok w1 where w1: "wr (st_value e) (st_index e) w = Some (ok, w1)"
    using assms True by (cases "wr (st_value e) (st_index e) w") auto
  show ?thesis
    using assms True w1 that by (cases ok; cases "write_items t v wr es w1") auto
qed (use assms that(1) in auto)

lemma write_items_le: "write_items t v wr es w = Some (k, w') \<Longrightarrow> k \<le> length es \<and> (\<forall>e \<in> set (take k es). st_type e = t \<and> st_selected e = v)"
proof (induction es arbitrary: k w)
  case (Cons e es)
  from Cons.prems show ?case
  proof (rule write_items_Cons)
    fix j w1 assume *: "k = Suc j" "st_type e = t" "st_selected e = v" "write_items t v wr es w1 = Some (j, w')"
    from *(1-3) Cons.IH [OF *(4)] show ?case
      by simp
  qed simp
qed simp

lemma write_selected_Cons:
  assumes "write_selected handler (e # es) h = Some (k, h')"
  obtains "k = 0" | i j w w1 h1 where "k = i + j" "0 < i" "eh_open handler (st_type e) (st_selected e) (st_value e) h = Some (Some w)"
    "write_items (st_type e) (st_selected e) (eh_Write handler) (e # es) w = Some (i, w1)" "eh_close handler w1 = Some h1"
    "write_selected handler (drop i (e # es)) h1 = Some (j, h')"
proof -
  obtain o' where o: "eh_open handler (st_type e) (st_selected e) (st_value e) h = Some o'"
    using assms by (auto split: option.splits)
  show ?thesis
  proof (cases o')
    case None
    then show ?thesis using assms o that(1) by simp
  next
    case (Some w)
    then obtain i w1 where i: "write_items (st_type e) (st_selected e) (eh_Write handler) (e # es) w = Some (i, w1)"
      using assms o by (auto simp del: write_items.simps split: option.splits)
    then obtain h1 where h1: "eh_close handler w1 = Some h1"
      using assms o Some by (auto simp del: write_items.simps split: option.splits)
    show ?thesis
      using assms o Some i h1 that by (cases "i = 0") (auto simp del: write_items.simps drop_Suc_Cons)
  qed
qed

lemma write_selected_le: "write_selected handler es h = Some (k, h') \<Longrightarrow> k \<le> length es"
proof (induction "length es" arbitrary: es h k rule: less_induct)
  case less
  show ?case
  proof (cases es)
    case Nil
    then show ?thesis using less.prems by simp
  next
    case (Cons e es')
    from less.prems [unfolded Cons] show ?thesis
    proof (rule write_selected_Cons)
      fix i j w w1 h1
      assume *: "k = i + j" "0 < i" "write_items (st_type e) (st_selected e) (eh_Write handler) (e # es') w = Some (i, w1)"
        "write_selected handler (drop i (e # es')) h1 = Some (j, h')"
      then have "i \<le> length es"
        using write_items_le by (fastforce simp: Cons simp del: write_items.simps)
      moreover have "j \<le> length (drop i es)"
        using * Cons by (intro less.hyps [of _ h1]) simp_all
      ultimately show ?thesis
        using *(1) by simp
    qed simp
  qed
qed


section \<open>The iterator\<close>

abbreviation selected :: "'v stored \<Rightarrow> bool" where
  "selected e \<equiv> st_state e = ES_selected"

abbreviation to_written :: "'v stored \<Rightarrow> 'v stored" where
  "to_written e \<equiv> e\<lparr>st_state := ES_written\<rparr>"

lemma view_state [simp]: "st_state (view ls n) = er_state (event_record ls n)" "st_index (view ls n) = er_index (event_record ls n)"
    "st_clazz (view ls n) = er_clazz (event_record ls n)"
  by (simp_all add: view_def Let_def)

lemma lists_ok_next: "lists_ok ls \<Longrightarrow> nodes (el_events ls) = xs @ n # ys \<Longrightarrow> next_of (el_events ls) n = hd_opt ys"
  by (simp add: lists_ok_def list_ok_next)

text \<open>The iterator at \<open>ys\<close> stops at the first selected event.\<close>

lemma stops_none:
  assumes "lists_ok ls"
  shows "nodes (el_events ls) = xs @ ys \<Longrightarrow> \<forall>k \<in> set ys. er_state (event_record ls k) \<noteq> ES_selected \<Longrightarrow>
    Iterator_Find (\<lambda>r. er_state r = ES_selected) (el_events ls) (hd_opt ys) = Some None \<and>
    FindNextSelected t ls (hd_opt ys) = Some (None, None)"
proof (induction ys arbitrary: xs)
  case (Cons y ys)
  then show ?case
    using lists_ok_next [OF assms Cons.prems(1)] Cons.IH [of "xs @ [y]"]
    by (simp add: Iterator_Find.simps [of _ _ "Some y"] FindNextSelected.simps [of _ _ "Some y"])
qed (simp add: Iterator_Find.simps FindNextSelected.simps)

lemma stops_at:
  assumes "lists_ok ls" and "er_state (event_record ls n) = ES_selected" and "er_type (event_record ls n) = Some t'"
  shows "nodes (el_events ls) = xs @ zs @ n # ys \<Longrightarrow> \<forall>k \<in> set zs. er_state (event_record ls k) \<noteq> ES_selected \<Longrightarrow>
    Iterator_Find (\<lambda>r. er_state r = ES_selected) (el_events ls) (hd_opt (zs @ n # ys)) = Some (Some n) \<and>
    FindNextSelected t ls (hd_opt (zs @ n # ys)) = Some (if t' = t then Some n else None, Some n)"
proof (induction zs arbitrary: xs)
  case (Cons z zs)
  then show ?case
    using lists_ok_next [OF assms(1), of xs z "zs @ n # ys"] Cons.IH [of "xs @ [z]"]
    by (simp add: Iterator_Find.simps [of _ _ "Some z"] FindNextSelected.simps [of _ _ "Some z"])
qed (simp add: Iterator_Find.simps [of _ _ "Some n"] FindNextSelected.simps [of _ _ "Some n"] assms(2,3))

lemma first_selected:
  assumes "filter (\<lambda>k. er_state (event_record ls k) = ES_selected) ys = n # ns"
  obtains zs ys' where "ys = zs @ n # ys'" "\<forall>k \<in> set zs. er_state (event_record ls k) \<noteq> ES_selected"
    "er_state (event_record ls n) = ES_selected" "filter (\<lambda>k. er_state (event_record ls k) = ES_selected) ys' = ns"
  using assms by (auto dest: filter_eq_ConsD)



section \<open>One event\<close>

definition written_at :: "nat \<Rightarrow> 'v EventLists \<Rightarrow> 'v EventLists" where
  "written_at n ls =
     set_record n ((event_record ls n)\<lparr>er_state := ES_written\<rparr>)
       (ls\<lparr>el_counters := OnWrite (er_clazz (event_record ls n)) (el_counters ls)\<rparr>)"

lemma counters_written:
  assumes "counters_ok c (es1 @ e # es2)" and "selected e"
  shows "counters_ok (OnWrite (st_clazz e) c) (es1 @ to_written e # es2)"
  using assms by (simp add: counters_ok_def OnWrite_def counted_append counted_Cons)

lemma written_at_ok:
  assumes "storage_ok ls" and "nodes (el_events ls) = xs @ n # ys" and "er_state (event_record ls n) = ES_selected"
  shows "storage_ok (written_at n ls)" and "nodes (el_events (written_at n ls)) = nodes (el_events ls)"
    and "same_capacity (written_at n ls) ls"
    and "view (written_at n ls) k = (if k = n then to_written (view ls n) else view ls k)"
    and "stored_events (written_at n ls) = map (view ls) xs @ to_written (view ls n) # map (view ls) ys"
proof -
  define ls1 where "ls1 = ls\<lparr>el_counters := OnWrite (er_clazz (event_record ls n)) (el_counters ls)\<rparr>"
  have ls1: "written_at n ls = set_record n ((event_record ls1 n)\<lparr>er_state := ES_written\<rparr>) ls1"
    by (simp add: written_at_def ls1_def)
  have ok: "lists_ok ls" and lok: "list_ok (el_events ls)" "distinct (nodes (el_events ls))"
    using assms(1) by (simp_all add: storage_ok_def lists_ok_def list_ok_distinct)
  have ok1: "lists_ok ls1"
    using ok by (simp add: ls1_def)
  show ns: "nodes (el_events (written_at n ls)) = nodes (el_events ls)"
    using lok by (simp add: ls1 ls1_def set_record_def)
  show "same_capacity (written_at n ls) ls"
    by (simp add: ls1 ls1_def set_record_def)
  have v: "view (written_at n ls) k = (if k = n then to_written (view ls n) else view ls k)" for k
    by (simp add: ls1 view_set_record) (simp add: ls1_def view_def Let_def)
  then show "view (written_at n ls) k = (if k = n then to_written (view ls n) else view ls k)" .
  show st: "stored_events (written_at n ls) = map (view ls) xs @ to_written (view ls n) # map (view ls) ys"
    using lok(2) by (auto simp: stored_events_def ns assms(2) v)
  have "counters_ok (el_counters ls) (map (view ls) xs @ view ls n # map (view ls) ys)"
    using assms(1,2) by (simp add: storage_ok_def stored_events_def)
  from counters_written [OF this] assms(3)
  have "counters_ok (el_counters (written_at n ls)) (stored_events (written_at n ls))"
    by (simp add: st) (simp add: ls1 ls1_def set_record_def)
  moreover have "lists_ok (written_at n ls)"
    using set_record_ok(1) [OF ok1] by (simp add: ls1)
  ultimately show "storage_ok (written_at n ls)"
    by (simp add: storage_ok_def)
qed

lemma stored_length: "lists_ok ls \<Longrightarrow> length (stored_events ls) < 2 ^ 32"
  using lists_ok_length by (simp add: stored_events_def)

lemma selected_count:
  assumes "storage_ok ls"
  shows "ecc_selected (el_counters ls) = 0 \<longleftrightarrow> filter selected (stored_events ls) = []"
proof -
  have "length (filter selected (stored_events ls)) < 2 ^ 32"
    using assms by (intro le_less_trans [OF length_filter_le stored_length]) (simp add: storage_ok_def)
  then have "counted selected (stored_events ls) = 0 \<longleftrightarrow> length (filter selected (stored_events ls)) = 0"
    unfolding counted_def word_unat_eq_iff by (subst unat_of_nat_u32) simp_all
  then show ?thesis
    using assms by (simp add: storage_ok_def counters_ok_def)
qed

text \<open>The iterator at \<open>ys\<close>, with no selected event before it.\<close>

definition at_events :: "'v EventLists \<Rightarrow> nat list \<Rightarrow> 'v stored list \<Rightarrow> bool" where
  "at_events ls ys es \<longleftrightarrow>
     storage_ok ls \<and> es = filter selected (map (view ls) ys) \<and>
     (\<exists>xs. nodes (el_events ls) = xs @ ys \<and> (\<forall>k \<in> set xs. er_state (event_record ls k) \<noteq> ES_selected))"

lemma at_events_selected: "at_events ls ys es \<Longrightarrow> filter selected (stored_events ls) = es"
  by (auto simp: at_events_def stored_events_def filter_empty_conv)

lemma at_events_counter: "at_events ls ys es \<Longrightarrow> ecc_selected (el_counters ls) = 0 \<longleftrightarrow> es = []"
  using selected_count [of ls] at_events_selected [of ls ys es] by (simp add: at_events_def)

lemma at_events_first:
  assumes "at_events ls ys (e # es)"
  obtains n ys' m where "at_events ls (n # ys') (e # es)" "view ls n = e" "er_state (event_record ls n) = ES_selected"
    "er_type (event_record ls n) = Some (st_type e)" "er_storage_node (event_record ls n) = Some m"
    "te_value (typed_record ls (st_type e) m) = st_value e" "te_selectedVariation (typed_record ls (st_type e) m) = st_selected e"
    "at_events (written_at n ls) ys' es"
    "Iterator_Find (\<lambda>r. er_state r = ES_selected) (el_events ls) (hd_opt ys) = Some (Some n)"
    "\<And>t. FindNextSelected t ls (hd_opt ys) = Some (if st_type e = t then Some n else None, Some n)"
    "same_capacity (written_at n ls) ls" "next_of (el_events (written_at n ls)) n = hd_opt ys'"
    "stored_events (written_at n ls) = mark_first selected to_written 1 (stored_events ls)"
proof -
  obtain xs where xs: "nodes (el_events ls) = xs @ ys" "\<forall>k \<in> set xs. er_state (event_record ls k) \<noteq> ES_selected"
      and ok: "storage_ok ls" "lists_ok ls" and es: "filter selected (map (view ls) ys) = e # es"
    using assms by (auto simp: at_events_def storage_ok_def)
  then obtain zs n ys' where zs: "ys = zs @ n # ys'" "\<forall>k \<in> set zs. er_state (event_record ls k) \<noteq> ES_selected"
      "er_state (event_record ls n) = ES_selected" "view ls n = e" "filter selected (map (view ls) ys') = es"
    by (auto simp: filter_map comp_def dest!: filter_eq_ConsD)
  have ns: "nodes (el_events ls) = (xs @ zs) @ n # ys'"
    using xs(1) zs(1) by simp
  obtain t m where t: "er_type (event_record ls n) = Some t" "er_storage_node (event_record ls n) = Some m"
    using event_partner [OF ok(2), of n] ns by (metis in_set_conv_decomp)
  then have e: "st_type e = t" "te_value (typed_record ls t m) = st_value e" "te_selectedVariation (typed_record ls t m) = st_selected e"
    using zs(4) by (auto simp: view_def Let_def)
  have dist: "distinct (nodes (el_events ls))"
    using ok(2) by (simp add: lists_ok_def list_ok_distinct)
  note w = written_at_ok [OF ok(1) ns zs(3)]
  have rest: "at_events (written_at n ls) ys' es"
  proof -
    have "map (view (written_at n ls)) ys' = map (view ls) ys'"
      using dist by (auto simp: w(4) ns)
    then have "es = filter selected (map (view (written_at n ls)) ys')"
      using zs(5) by (simp only:)
    moreover have "\<forall>k \<in> set (xs @ zs @ [n]). er_state (event_record (written_at n ls) k) \<noteq> ES_selected"
      using xs(2) zs(2) by (auto simp: w(4) simp flip: view_state)
    ultimately show ?thesis
      using w(1,2) zs(5) ns unfolding at_events_def by (intro conjI exI [of _ "xs @ zs @ [n]"]) simp_all
  qed
  have here: "at_events ls (n # ys') (e # es)"
    using ok ns xs(2) zs by (auto simp: at_events_def intro!: exI [of _ "xs @ zs"])
  have next': "next_of (el_events (written_at n ls)) n = hd_opt ys'"
    using lists_ok_next [of "written_at n ls" "xs @ zs" n ys'] w(1,2) ns by (simp add: storage_ok_def)
  have "mark_first selected to_written 1 (map (view ls) (xs @ zs) @ view ls n # map (view ls) ys') =
      map (view ls) (xs @ zs) @ to_written (view ls n) # map (view ls) ys'"
  proof -
    have skip: "\<forall>a \<in> set as. \<not> selected a \<Longrightarrow> mark_first selected to_written k (as @ bs) = as @ mark_first selected to_written k bs" for as bs k
      by (induction as) simp_all
    show ?thesis
      using xs(2) zs(2,3) by (subst skip) auto
  qed
  then have "stored_events (written_at n ls) = mark_first selected to_written 1 (stored_events ls)"
    by (simp add: w(5)) (simp add: stored_events_def ns)
  with that [OF here zs(4,3) _ t(2) _ _ rest _ _ w(3) next'] t e stops_at [OF ok(2) zs(3) t(1), of xs zs ys'] xs(1) zs(1,2) show ?thesis
    by simp
qed



section \<open>Runs\<close>

lemma mark_first_add:
  assumes "\<And>e. \<not> P (f e)"
  shows "mark_first P f j (mark_first P f k es) = mark_first P f (k + j) es"
  using assms by (induction es arbitrary: j k) auto

lemma WriteSome_abs:
  assumes "at_events ls ys es"
  shows "case write_items t v wr es w of
      None \<Rightarrow> EventCollection_WriteSome t v wr num (hd_opt ys) ls w = None
    | Some (k, w') \<Rightarrow> \<exists>ls' ys'. EventCollection_WriteSome t v wr num (hd_opt ys) ls w = Some (num + of_nat k, hd_opt ys', ls', w') \<and>
        at_events ls' ys' (drop k es) \<and> same_capacity ls' ls \<and>
        stored_events ls' = mark_first selected to_written k (stored_events ls)"
  using assms
proof (induction es arbitrary: ls ys num w)
  case Nil
  then have "EventCollection_WriteOne t v wr (hd_opt ys) ls w = Some (False, hd_opt ys, ls, w)"
    using at_events_counter [OF Nil] by (simp add: EventCollection_WriteOne_def)
  then show ?case
    using Nil by (auto simp: EventCollection_WriteSome.simps)
next
  case (Cons e es)
  have nonzero: "ecc_selected (el_counters ls) \<noteq> 0"
    using at_events_counter [OF Cons.prems] by simp
  obtain n ys' m where n: "at_events ls (n # ys') (e # es)" "view ls n = e"
      "er_type (event_record ls n) = Some (st_type e)" "er_storage_node (event_record ls n) = Some m"
      "te_value (typed_record ls (st_type e) m) = st_value e" "te_selectedVariation (typed_record ls (st_type e) m) = st_selected e"
      "at_events (written_at n ls) ys' es"
      "\<And>t. FindNextSelected t ls (hd_opt ys) = Some (if st_type e = t then Some n else None, Some n)"
      "same_capacity (written_at n ls) ls" "next_of (el_events (written_at n ls)) n = hd_opt ys'"
      "stored_events (written_at n ls) = mark_first selected to_written 1 (stored_events ls)"
    by (rule at_events_first [OF Cons.prems]) (rule that; assumption)
  have index: "er_index (event_record ls n) = st_index e"
    unfolding n(2) [symmetric] by (rule view_state(2) [symmetric])
  note unfold = EventCollection_WriteOne_def nonzero n(4-6,8) index Let_def
  have stop: ?case if "write_items t v wr (e # es) w = Some (0, w')"
      and "EventCollection_WriteOne t v wr (hd_opt ys) ls w = Some (False, Some n, ls, w')" for w'
  proof -
    have "EventCollection_WriteSome t v wr num (hd_opt ys) ls w = Some (num, hd_opt (n # ys'), ls, w')"
      by (subst EventCollection_WriteSome.simps) (simp add: that(2))
    then show ?thesis
      using n(1) by (simp only: that(1) option.case prod.case) fastforce
  qed
  show ?case
  proof (cases "st_type e = t \<and> st_selected e = v")
    case False
    then show ?thesis
      by (intro stop) (auto simp: unfold)
  next
    case True
    show ?thesis
    proof (cases "wr (st_value e) (st_index e) w")
      case None
      then show ?thesis
        using True by (subst EventCollection_WriteSome.simps) (auto simp: unfold)
    next
      case (Some r)
      then obtain ok w1 where w1: "wr (st_value e) (st_index e) w = Some (ok, w1)"
        by (cases r) simp
      show ?thesis
      proof (cases ok)
        case False
        then show ?thesis
          using True w1 by (intro stop) (auto simp: unfold)
      next
        case ok: True
        have "set_record n ((event_record ls n)\<lparr>er_state := ES_written\<rparr>)
            (ls\<lparr>el_counters := OnWrite (er_clazz (event_record ls n)) (el_counters ls)\<rparr>) = written_at n ls"
          by (simp add: written_at_def)
        then have one: "EventCollection_WriteOne t v wr (hd_opt ys) ls w = Some (True, hd_opt ys', written_at n ls, w1)"
          using True w1 ok n(10) by (auto simp: unfold Iterator_Next_def)
        have run: "EventCollection_WriteSome t v wr num (hd_opt ys) ls w =
            EventCollection_WriteSome t v wr (num + 1) (hd_opt ys') (written_at n ls) w1"
          by (subst EventCollection_WriteSome.simps) (simp add: one)
        show ?thesis
          using Cons.IH [OF n(7), of "num + 1" w1] True w1 ok n(9)
          by (cases "write_items t v wr es w1")
            (auto simp: run n(11) mark_first_add add.assoc simp del: EventCollection_WriteSome.simps)
      qed
    qed
  qed
qed

lemma run_bounded:
  assumes "at_events ls ys es" and "\<forall>e \<in> set (take k es). st_type e = t" and "k \<le> length es" and "ls_capacity (el_typed ls t) < c"
  shows "k < c"
proof -
  have "k = length (filter (\<lambda>e. st_type e = t) (take k es))"
    using assms(2,3) by (simp add: filter_id_conv [THEN iffD2])
  also have "\<dots> \<le> length (filter (\<lambda>e. st_type e = t) es)"
    by (metis append_take_drop_id filter_append length_append le_add1)
  also have "\<dots> = length (filter selected (filter (\<lambda>e. st_type e = t) (stored_events ls)))"
    by (simp add: at_events_selected [OF assms(1), symmetric] conj_commute)
  also have "\<dots> \<le> of_kind t (stored_events ls)"
    unfolding of_kind_def by (rule length_filter_le)
  also have "\<dots> \<le> ls_capacity (el_typed ls t)"
    using assms(1) by (simp add: at_events_def storage_ok_def of_kind_nodes list_ok_length lists_ok_def)
  finally show ?thesis
    using assms(4) by simp
qed


section \<open>The whole response\<close>

lemma EventWriting_loop_abs:
  assumes "at_events ls ys es" and "\<forall>t. ls_capacity (el_typed ls t) < 2 ^ 16"
  shows "case write_selected handler es h of
      None \<Rightarrow> EventWriting_loop handler tot (hd_opt ys) ls h = None
    | Some (k, h') \<Rightarrow> \<exists>ls'. EventWriting_loop handler tot (hd_opt ys) ls h = Some (tot + of_nat k, ls', h') \<and>
        storage_ok ls' \<and> same_capacity ls' ls \<and> stored_events ls' = mark_first selected to_written k (stored_events ls)"
  using assms
proof (induction handler es h arbitrary: ls ys tot rule: write_selected.induct)
  case (1 handler h)
  then have "EventWriting_WriteSome handler (hd_opt ys) ls h = Some (0, hd_opt ys, ls, h)"
    using at_events_counter [OF 1(1)] by (simp add: EventWriting_WriteSome_def)
  then show ?case
    using 1 by (auto simp: EventWriting_loop.simps at_events_def)
next
  case (2 handler e es h)
  have nonzero: "ecc_selected (el_counters ls) \<noteq> 0"
    using at_events_counter [OF 2(2)] by simp
  obtain n ys1 m where n: "at_events ls (n # ys1) (e # es)"
      "er_type (event_record ls n) = Some (st_type e)" "er_storage_node (event_record ls n) = Some m"
      "te_value (typed_record ls (st_type e) m) = st_value e" "te_selectedVariation (typed_record ls (st_type e) m) = st_selected e"
      "Iterator_Find (\<lambda>r. er_state r = ES_selected) (el_events ls) (hd_opt ys) = Some (Some n)"
    using at_events_first [OF 2(2)] by metis
  note unfold = EventWriting_WriteSome_def EventTypeImpl_WriteSome_def nonzero n(2-6) Let_def
  have ok: "storage_ok ls"
    using n(1) by (simp add: at_events_def)
  have stop: ?case if "write_selected handler (e # es) h = Some (0, h')"
      and "EventWriting_WriteSome handler (hd_opt ys) ls h = Some (0, iter, ls', h')"
      and "storage_ok ls' \<and> same_capacity ls' ls \<and> stored_events ls' = stored_events ls" for h' iter ls'
    using that by (subst (2) EventWriting_loop.simps, subst (1) EventWriting_loop.simps) (auto simp del: write_selected.simps)
  define t v where "t = st_type e" and "v = st_selected e"
  show ?case
  proof (cases "eh_open handler t v (st_value e) h")
    case None
    then show ?thesis
      by (subst (2) EventWriting_loop.simps, subst (1) EventWriting_loop.simps) (auto simp: unfold t_def v_def)
  next
    case (Some opened)
    show ?thesis
    proof (cases opened)
      case None
      then show ?thesis
        using Some ok by (intro stop [of h "Some n" ls]) (auto simp: unfold t_def v_def)
    next
      case (Some w)
      note opened = \<open>eh_open handler t v (st_value e) h = Some opened\<close> [unfolded Some]
      show ?thesis
      proof (cases "write_items t v (eh_Write handler) (e # es) w")
        case None
        then show ?thesis
          using WriteSome_abs [OF n(1), of t v "eh_Write handler" 0 w] opened
          by (subst (2) EventWriting_loop.simps, subst (1) EventWriting_loop.simps)
            (auto simp: unfold t_def v_def simp del: write_items.simps)
      next
        case (Some r)
        then obtain k w1 where k: "write_items t v (eh_Write handler) (e # es) w = Some (k, w1)"
          by (cases r) simp
        obtain ls1 ys2 where ls1: "EventCollection_WriteSome t v (eh_Write handler) 0 (Some n) ls w = Some (of_nat k, hd_opt ys2, ls1, w1)"
            "at_events ls1 ys2 (drop k (e # es))" "same_capacity ls1 ls"
            "stored_events ls1 = mark_first selected to_written k (stored_events ls)"
          using WriteSome_abs [OF n(1), of t v "eh_Write handler" 0 w] k by (auto simp del: write_items.simps)
        have ok1: "storage_ok ls1"
          using ls1(2) by (simp add: at_events_def)
        have "k < 2 ^ 16"
          using write_items_le [OF k] 2(3) by (intro run_bounded [OF n(1), of k t]) auto
        then have small: "unat (of_nat k :: u16) = k"
          by (simp add: unat_of_nat_u16)
        show ?thesis
        proof (cases "eh_close handler w1")
          case None
          then show ?thesis
            using k opened ls1(1)
            by (subst (2) EventWriting_loop.simps, subst (1) EventWriting_loop.simps)
              (auto simp: unfold t_def v_def simp del: write_items.simps)
        next
          case (Some h1)
          have some: "EventWriting_WriteSome handler (hd_opt ys) ls h = Some (of_nat k, hd_opt ys2, ls1, h1)"
            using opened ls1(1) Some by (simp add: unfold t_def v_def)
          show ?thesis
          proof (cases "k = 0")
            case True
            then show ?thesis
              using some ls1(3,4) opened k Some ok1
              by (intro stop [of h1 "hd_opt ys2" ls1]) (auto simp: t_def v_def simp del: write_items.simps)
          next
            case False
            have "of_nat k \<noteq> (0 :: u16)"
              using False small by (metis unat_0)
            then have run: "EventWriting_loop handler tot (hd_opt ys) ls h =
                EventWriting_loop handler (tot + ucast (of_nat k :: u16)) (hd_opt ys2) ls1 h1"
              by (subst EventWriting_loop.simps) (simp add: some)
            have cast: "ucast (of_nat k :: u16) = (of_nat k :: u32)"
              using \<open>k < 2 ^ 16\<close> small by (simp add: word_unat_eq_iff unsigned_ucast_eq unat_of_nat_u32 take_bit_nat_eq_self)
            have caps: "\<forall>t. ls_capacity (el_typed ls1 t) < 2 ^ 16"
              using 2(3) ls1(3) by simp
            have abs: "write_selected handler (e # es) h = map_option (\<lambda>(j, h). (k + j, h)) (write_selected handler (drop k (e # es)) h1)"
              using opened k Some False by (simp add: t_def v_def del: write_items.simps drop_Suc_Cons)
            show ?thesis
              using 2(1) [OF opened [unfolded t_def v_def] refl k [unfolded t_def v_def] refl Some False ls1(2) caps, of "tot + of_nat k"] ls1(3,4)
              by (cases "write_selected handler (drop k (e # es)) h1")
                (auto simp: abs run cast mark_first_add add.assoc simp del: write_items.simps write_selected.simps drop_Suc_Cons)
          qed
        qed
      qed
    qed
  qed
qed


lemma EventWriting_Write_abs:
  assumes "storage_ok ls" and "\<forall>t. ls_capacity (el_typed ls t) < 2 ^ 16"
  shows "case write_selected handler (filter selected (stored_events ls)) h of
      None \<Rightarrow> EventWriting_Write handler ls h = None
    | Some (k, h') \<Rightarrow> \<exists>ls'. EventWriting_Write handler ls h = Some (of_nat k, ls', h') \<and>
        storage_ok ls' \<and> same_capacity ls' ls \<and> stored_events ls' = mark_first selected to_written k (stored_events ls)"
proof -
  have "at_events ls (nodes (el_events ls)) (filter selected (stored_events ls))"
    using assms(1) by (simp add: at_events_def stored_events_def)
  moreover have "ls_head (el_events ls) = hd_opt (nodes (el_events ls))"
    using assms(1) by (simp add: list_ok_head storage_ok_def lists_ok_def)
  ultimately show ?thesis
    using EventWriting_loop_abs [OF _ assms(2), of "nodes (el_events ls)" "filter selected (stored_events ls)" handler 0 h]
    by (cases "write_selected handler (filter selected (stored_events ls)) h") (auto simp: EventWriting_Write_def)
qed

end
