(* ===== verification/EventWriters.thy ===== *)
theory EventWriters
  imports EventWriting HeaderWriter
begin

text \<open>
  The writers of events into a response (\<open>outstation/event/EventWriters\<close>,
  \<open>ASDUEventWriteHandler\<close>): each run of events becomes one object header with a count and index
  prefixes. Events with a relative time are preceded by a header with the common time of occurrence
  (CTO); octet strings of one run have the same size.
\<close>

section \<open>Measurements\<close>

text \<open>
  The measurement types: flags, time and a value, or an octet string of at most 255 bytes. The
  conversion of a measurement to the fields of an object is the parameter \<open>conv\<close>
  (\<open>WriteConversions\<close>).
\<close>

datatype 'x Measurement = Meas (ms_flags: u8) (ms_time: i64) (ms_value: 'x) | OctetString (ms_octets: "u8 list")

type_synonym 'x conversions = "GroupVariation \<Rightarrow> 'x Measurement \<Rightarrow> FieldValue list"

definition OctetData_Size :: "u8 list \<Rightarrow> u8" where
  "OctetData_Size bs = of_nat (length bs)"

text \<open>The switch over the event variations of a type, with its default case.\<close>

definition object_case :: "nat \<Rightarrow> nat list \<Rightarrow> (nat \<times> nat) option \<Rightarrow> GroupVariation \<Rightarrow> (nat \<times> nat) option" where
  "object_case grp variations dflt v =
     (case find (\<lambda>k. v = gv grp k) variations of Some k \<Rightarrow> Some (grp, k) | None \<Rightarrow> dflt)"

definition event_object :: "EventType \<Rightarrow> GroupVariation \<Rightarrow> (nat \<times> nat) option" where
  "event_object t v =
     (case t of
        ET_Binary \<Rightarrow> object_case 2 [1, 2, 3] (Some (2, 1)) v
      | ET_DoubleBitBinary \<Rightarrow> object_case 4 [1, 2, 3] (Some (4, 1)) v
      | ET_Counter \<Rightarrow> object_case 22 [1, 2, 5, 6] (Some (22, 1)) v
      | ET_FrozenCounter \<Rightarrow> object_case 23 [1, 2, 5, 6] None v
      | ET_Analog \<Rightarrow> object_case 32 [1, 2, 3, 4, 5, 6, 7, 8] (Some (32, 1)) v
      | ET_BinaryOutputStatus \<Rightarrow> object_case 11 [1, 2] (Some (11, 1)) v
      | ET_AnalogOutputStatus \<Rightarrow> object_case 42 [1, 2, 3, 4, 5, 6, 7, 8] (Some (42, 1)) v
      | ET_OctetString \<Rightarrow> None)"

definition event_serializer :: "'x conversions \<Rightarrow> nat \<times> nat \<Rightarrow> 'x Measurement DNP3Serializer" where
  "event_serializer conv gk = Descriptor_Inst (of_nat (fst gk)) (of_nat (snd gk)) (conv (gv (fst gk) (snd gk)))"

definition cto_serializer :: "i64 DNP3Serializer" where
  "cto_serializer = Descriptor_Inst 51 1 (\<lambda>t. [FV_time t])"

text \<open>\<open>Group2Var3\<close> and \<open>Group4Var3\<close> are written by \<open>WriteWithCTO\<close>.\<close>

definition uses_cto :: "nat \<times> nat \<Rightarrow> bool" where
  "uses_cto gk \<longleftrightarrow> gk = (2, 3) \<or> gk = (4, 3)"


section \<open>The writers\<close>

text \<open>A writer holds its iterator and, through it, the header writer.\<close>

datatype 'x EventWriter =
    BasicEventWriter "'x Measurement PrefixedWriteIterator" HeaderWriter
  | CTOEventWriter i64 "'x Measurement PrefixedWriteIterator" HeaderWriter
  | OctetStringEventWriter u8 "u8 list PrefixedWriteIterator" HeaderWriter

definition BasicEventWriter_of :: "'x Measurement DNP3Serializer \<Rightarrow> HeaderWriter \<Rightarrow> 'x EventWriter option" where
  "BasicEventWriter_of ser hw = do {
     (iter, hw) \<leftarrow> IterateOverCountWithPrefix IT_UInt16 QC_UINT16_CNT_UINT16_INDEX ser hw;
     Some (BasicEventWriter iter hw) }"

definition CTOEventWriter_of :: "i64 \<Rightarrow> 'x Measurement DNP3Serializer \<Rightarrow> HeaderWriter \<Rightarrow> 'x EventWriter option" where
  "CTOEventWriter_of cto ser hw = do {
     (iter, hw) \<leftarrow> IterateOverCountWithPrefixAndCTO IT_UInt16 QC_UINT16_CNT_UINT16_INDEX ser cto_serializer cto hw;
     Some (CTOEventWriter cto iter hw) }"

definition OctetStringEventWriter_of :: "u8 \<Rightarrow> HeaderWriter \<Rightarrow> 'x EventWriter option" where
  "OctetStringEventWriter_of sz hw = do {
     (iter, hw) \<leftarrow> IterateOverCountWithPrefix IT_UInt16 QC_UINT16_CNT_UINT16_INDEX (OctetStringSerializer True sz) hw;
     Some (OctetStringEventWriter sz iter hw) }"

text \<open>The difference of two times as signed 64 bit integers; an overflow is undefined.\<close>

definition time_difference :: "i64 \<Rightarrow> i64 \<Rightarrow> i64 option" where
  "time_difference a b = (if sint a - sint b < 2 ^ 63 then Some (a - b) else None)"

fun EventWriter_Write :: "'x Measurement \<Rightarrow> u16 \<Rightarrow> 'x EventWriter \<Rightarrow> (bool \<times> 'x EventWriter) option" where
  "EventWriter_Write meas index (BasicEventWriter iter hw) =
     (if \<not> pwi_isValid iter then Some (False, BasicEventWriter iter hw)
      else do {
        (ok, iter, hw) \<leftarrow> Prefixed_Write meas index iter hw;
        Some (ok, BasicEventWriter iter hw) })"
| "EventWriter_Write meas index (CTOEventWriter cto iter hw) =
     (if \<not> pwi_isValid iter then Some (False, CTOEventWriter cto iter hw)
      else (case meas of
        OctetString _ \<Rightarrow> None
      | Meas flags time v \<Rightarrow>
          if sint time < sint cto then Some (False, CTOEventWriter cto iter hw)
          else do {
            d \<leftarrow> time_difference time cto;
            if sint d > 65535 then Some (False, CTOEventWriter cto iter hw)
            else do {
              (ok, iter, hw) \<leftarrow> Prefixed_Write (Meas flags d v) index iter hw;
              Some (ok, CTOEventWriter cto iter hw) }}))"
| "EventWriter_Write meas index (OctetStringEventWriter sz iter hw) =
     (case meas of
        Meas _ _ _ \<Rightarrow> None
      | OctetString bs \<Rightarrow>
          if OctetData_Size bs \<noteq> sz then Some (False, OctetStringEventWriter sz iter hw)
          else do {
            (ok, iter, hw) \<leftarrow> Prefixed_Write bs index iter hw;
            Some (ok, OctetStringEventWriter sz iter hw) })"

fun EventWriter_finish :: "'x EventWriter \<Rightarrow> HeaderWriter option" where
  "EventWriter_finish (BasicEventWriter iter hw) = Prefixed_finish iter hw"
| "EventWriter_finish (CTOEventWriter _ iter hw) = Prefixed_finish iter hw"
| "EventWriter_finish (OctetStringEventWriter _ iter hw) = Prefixed_finish iter hw"


section \<open>The handler\<close>

text \<open>\<open>Some None\<close>: the default case of frozen counters returns 0. The type of \<open>first\<close> is that of \<open>t\<close>.\<close>

definition ASDUEventWriteHandler_open ::
    "'x conversions \<Rightarrow> EventType \<Rightarrow> GroupVariation \<Rightarrow> 'x Measurement \<Rightarrow> HeaderWriter \<Rightarrow> 'x EventWriter option option" where
  "ASDUEventWriteHandler_open conv t v first hw =
     (if t = ET_OctetString
      then (case first of
        Meas _ _ _ \<Rightarrow> None
      | OctetString bs \<Rightarrow> map_option Some (OctetStringEventWriter_of (OctetData_Size bs) hw))
      else (case event_object t v of
        None \<Rightarrow> Some None
      | Some gk \<Rightarrow>
          if uses_cto gk
          then (case first of
            OctetString _ \<Rightarrow> None
          | Meas _ time _ \<Rightarrow> map_option Some (CTOEventWriter_of time (event_serializer conv gk) hw))
          else map_option Some (BasicEventWriter_of (event_serializer conv gk) hw)))"

definition ASDUEventWriteHandler :: "'x conversions \<Rightarrow> ('x Measurement, HeaderWriter, 'x EventWriter) IEventWriteHandler" where
  "ASDUEventWriteHandler conv =
     \<lparr>eh_open = ASDUEventWriteHandler_open conv, eh_Write = EventWriter_Write, eh_close = EventWriter_finish\<rparr>"

end
