(* ===== verification/EventBuffer.thy ===== *)
theory EventBuffer
  imports EventWriters AppHeader
begin

text \<open>
  The event buffer (\<open>outstation/event/EventStorage\<close>, \<open>EventBuffer\<close>): the storage with an
  overflow flag, and the selection by a requested group and variation.
\<close>

section \<open>The storage interface\<close>

definition EventStorage_SelectByVariation :: "EventType \<Rightarrow> GroupVariation \<Rightarrow> u32 \<Rightarrow> 'v EventLists \<Rightarrow> (u32 \<times> 'v EventLists) option" where
  "EventStorage_SelectByVariation t variation max_selected ls = SelectByTypeGeneric t False variation max_selected ls"

definition EventStorage_SelectByType :: "EventType \<Rightarrow> u32 \<Rightarrow> 'v EventLists \<Rightarrow> (u32 \<times> 'v EventLists) option" where
  "EventStorage_SelectByType t max_selected ls = SelectByTypeGeneric t True 0 max_selected ls"

definition EventStorage_SelectByEventClass :: "EventClass \<Rightarrow> u32 \<Rightarrow> 'v EventLists \<Rightarrow> (u32 \<times> 'v EventLists) option" where
  "EventStorage_SelectByEventClass clazz max_selected ls = EventSelection_SelectByClass (ClassField_of_event clazz) max_selected ls"

definition EventStorage_SelectByClass :: "ClassField \<Rightarrow> 'v EventLists \<Rightarrow> (u32 \<times> 'v EventLists) option" where
  "EventStorage_SelectByClass clazz ls = EventSelection_SelectByClass clazz 0xFFFFFFFF ls"


section \<open>The buffer\<close>

record 'v EventBuffer =
  eb_overflow :: bool
  eb_storage :: "'v EventLists"

definition EventBuffer_of :: "'v \<Rightarrow> EventBufferConfig \<Rightarrow> 'v EventBuffer" where
  "EventBuffer_of v0 config = \<lparr>eb_overflow = False, eb_storage = EventLists_of v0 config\<rparr>"

definition EventBuffer_Update :: "EventType \<Rightarrow> 'v Event \<Rightarrow> 'v EventBuffer \<Rightarrow> 'v EventBuffer option" where
  "EventBuffer_Update t event eb = do {
     (lost, ls) \<leftarrow> EventUpdate_Update t event (eb_storage eb);
     let eb = eb\<lparr>eb_storage := ls\<rparr>;
     Some (if lost then eb\<lparr>eb_overflow := True\<rparr> else eb) }"

definition EventBuffer_Unselect :: "'v EventBuffer \<Rightarrow> 'v EventBuffer option" where
  "EventBuffer_Unselect eb = do { ls \<leftarrow> EventStorage_Unselect (eb_storage eb); Some (eb\<lparr>eb_storage := ls\<rparr>) }"

text \<open>What the cases of \<open>SelectMaxCount\<close> select: all events of a type, a variation of a type, a class.\<close>

datatype Selection = SelectType EventType | SelectVariation EventType | SelectClass EventClass

definition selection_table :: "(GroupVariation \<times> Selection) list" where
  "selection_table =
     [(gv 2 0, SelectType ET_Binary), (gv 2 1, SelectVariation ET_Binary), (gv 2 2, SelectVariation ET_Binary),
      (gv 2 3, SelectVariation ET_Binary),
      (gv 4 0, SelectType ET_DoubleBitBinary), (gv 4 1, SelectVariation ET_DoubleBitBinary),
      (gv 4 2, SelectVariation ET_DoubleBitBinary), (gv 4 3, SelectVariation ET_DoubleBitBinary),
      (gv 11 0, SelectType ET_BinaryOutputStatus), (gv 11 1, SelectVariation ET_BinaryOutputStatus),
      (gv 11 2, SelectVariation ET_BinaryOutputStatus),
      (gv 22 0, SelectType ET_Counter), (gv 22 1, SelectVariation ET_Counter), (gv 22 2, SelectVariation ET_Counter),
      (gv 22 5, SelectVariation ET_Counter), (gv 22 6, SelectVariation ET_Counter),
      (gv 23 0, SelectType ET_FrozenCounter), (gv 23 1, SelectVariation ET_FrozenCounter),
      (gv 23 2, SelectVariation ET_FrozenCounter), (gv 23 5, SelectVariation ET_FrozenCounter),
      (gv 23 6, SelectVariation ET_FrozenCounter),
      (gv 32 0, SelectType ET_Analog), (gv 32 1, SelectVariation ET_Analog), (gv 32 2, SelectVariation ET_Analog),
      (gv 32 3, SelectVariation ET_Analog), (gv 32 4, SelectVariation ET_Analog), (gv 32 5, SelectVariation ET_Analog),
      (gv 32 6, SelectVariation ET_Analog), (gv 32 7, SelectVariation ET_Analog), (gv 32 8, SelectVariation ET_Analog),
      (gv 42 0, SelectType ET_AnalogOutputStatus), (gv 42 1, SelectVariation ET_AnalogOutputStatus),
      (gv 42 2, SelectVariation ET_AnalogOutputStatus), (gv 42 3, SelectVariation ET_AnalogOutputStatus),
      (gv 42 4, SelectVariation ET_AnalogOutputStatus), (gv 42 5, SelectVariation ET_AnalogOutputStatus),
      (gv 42 6, SelectVariation ET_AnalogOutputStatus), (gv 42 7, SelectVariation ET_AnalogOutputStatus),
      (gv 42 8, SelectVariation ET_AnalogOutputStatus),
      (gv 60 2, SelectClass EC1), (gv 60 3, SelectClass EC2), (gv 60 4, SelectClass EC3),
      (gv 111 0, SelectVariation ET_OctetString)]"

definition SelectMaxCount :: "GroupVariation \<Rightarrow> u32 \<Rightarrow> 'v EventBuffer \<Rightarrow> (IINField \<times> 'v EventBuffer) option" where
  "SelectMaxCount g maximum eb =
     (case map_of selection_table g of
        None \<Rightarrow> Some (IINField_of_bit IIN_FUNC_NOT_SUPPORTED, eb)
      | Some sel \<Rightarrow> do {
          (_, ls) \<leftarrow> (case sel of
             SelectType t \<Rightarrow> EventStorage_SelectByType t maximum (eb_storage eb)
           | SelectVariation t \<Rightarrow> EventStorage_SelectByVariation t g maximum (eb_storage eb)
           | SelectClass c \<Rightarrow> EventStorage_SelectByEventClass c maximum (eb_storage eb));
          Some (IINField_Empty, eb\<lparr>eb_storage := ls\<rparr>) })"

definition EventBuffer_SelectAll :: "GroupVariation \<Rightarrow> 'v EventBuffer \<Rightarrow> (IINField \<times> 'v EventBuffer) option" where
  "EventBuffer_SelectAll g eb = SelectMaxCount g 0xFFFFFFFF eb"

definition EventBuffer_SelectCount :: "GroupVariation \<Rightarrow> u16 \<Rightarrow> 'v EventBuffer \<Rightarrow> (IINField \<times> 'v EventBuffer) option" where
  "EventBuffer_SelectCount g count eb = SelectMaxCount g (ucast count) eb"

definition HasAnySelection :: "'v EventBuffer \<Rightarrow> bool" where
  "HasAnySelection eb \<longleftrightarrow> NumSelected (eb_storage eb) > 0"

text \<open>The handler copies the header writer: they share the position, not the mark.\<close>

definition EventBuffer_Load ::
    "'x conversions \<Rightarrow> HeaderWriter \<Rightarrow> 'x Measurement EventBuffer \<Rightarrow> (bool \<times> HeaderWriter \<times> 'x Measurement EventBuffer) option" where
  "EventBuffer_Load conv hw eb = do {
     (_, ls, hw') \<leftarrow> EventWriting_Write (ASDUEventWriteHandler conv) (eb_storage eb) hw;
     Some (NumSelected ls = 0, hw'\<lparr>hw_mark := hw_mark hw\<rparr>, eb\<lparr>eb_storage := ls\<rparr>) }"

definition UnwrittenClassField :: "'v EventBuffer \<Rightarrow> ClassField" where
  "UnwrittenClassField eb =
     ClassField_of False (NumUnwritten EC1 (eb_storage eb) > 0) (NumUnwritten EC2 (eb_storage eb) > 0)
       (NumUnwritten EC3 (eb_storage eb) > 0)"

definition IsOverflown :: "'v EventBuffer \<Rightarrow> bool \<times> 'v EventBuffer" where
  "IsOverflown eb =
     (let eb = (if eb_overflow eb \<and> \<not> EventLists_IsAnyTypeFull (eb_storage eb) then eb\<lparr>eb_overflow := False\<rparr> else eb)
      in (eb_overflow eb, eb))"

definition SelectAllByClass :: "ClassField \<Rightarrow> 'v EventBuffer \<Rightarrow> 'v EventBuffer option" where
  "SelectAllByClass clazz eb = do {
     (_, ls) \<leftarrow> EventStorage_SelectByClass clazz (eb_storage eb);
     Some (eb\<lparr>eb_storage := ls\<rparr>) }"

definition EventBuffer_ClearWritten :: "'v EventBuffer \<Rightarrow> 'v EventBuffer option" where
  "EventBuffer_ClearWritten eb = do {
     (_, ls) \<leftarrow> EventStorage_ClearWritten (eb_storage eb);
     Some (eb\<lparr>eb_storage := ls\<rparr>) }"



section \<open>The specification of the buffer\<close>

text \<open>
  The calls of the outstation on its event buffer with their results, the state of the
  specification (whether events were lost, the stored events in order of occurrence), and what
  each call does. \<open>cap\<close> is the number of events that are kept of each type.
\<close>

datatype 'x buffer_op =
    Op_Update EventType "'x Measurement Event"
  | Op_Unselect
  | Op_SelectAll GroupVariation
  | Op_SelectCount GroupVariation u16
  | Op_SelectAllByClass ClassField
  | Op_Load HeaderWriter
  | Op_ClearWritten
  | Op_HasAnySelection
  | Op_UnwrittenClassField
  | Op_IsOverflown

datatype buffer_result =
  Res_done | Res_iin IINField | Res_bool bool | Res_class ClassField | Res_loaded bool HeaderWriter

fun buffer_step :: "'x conversions \<Rightarrow> 'x buffer_op \<Rightarrow> 'x Measurement EventBuffer \<Rightarrow> (buffer_result \<times> 'x Measurement EventBuffer) option" where
  "buffer_step conv (Op_Update t event) eb = map_option (Pair Res_done) (EventBuffer_Update t event eb)"
| "buffer_step conv Op_Unselect eb = map_option (Pair Res_done) (EventBuffer_Unselect eb)"
| "buffer_step conv (Op_SelectAll g) eb = map_option (apfst Res_iin) (EventBuffer_SelectAll g eb)"
| "buffer_step conv (Op_SelectCount g n) eb = map_option (apfst Res_iin) (EventBuffer_SelectCount g n eb)"
| "buffer_step conv (Op_SelectAllByClass c) eb = map_option (Pair Res_done) (SelectAllByClass c eb)"
| "buffer_step conv (Op_Load hw) eb = map_option (\<lambda>(ok, hw, eb). (Res_loaded ok hw, eb)) (EventBuffer_Load conv hw eb)"
| "buffer_step conv Op_ClearWritten eb = map_option (Pair Res_done) (EventBuffer_ClearWritten eb)"
| "buffer_step conv Op_HasAnySelection eb = Some (Res_bool (HasAnySelection eb), eb)"
| "buffer_step conv Op_UnwrittenClassField eb = Some (Res_class (UnwrittenClassField eb), eb)"
| "buffer_step conv Op_IsOverflown eb = Some (apfst Res_bool (IsOverflown eb))"

definition spec_select :: "GroupVariation \<Rightarrow> nat \<Rightarrow> 'v stored list \<Rightarrow> 'v stored list" where
  "spec_select g n es =
     (case map_of selection_table g of
        None \<Rightarrow> es
      | Some (SelectType t) \<Rightarrow> mark_first (\<lambda>e. st_type e = t \<and> st_state e = ES_unselected)
          (\<lambda>e. e\<lparr>st_state := ES_selected, st_selected := st_default e\<rparr>) n es
      | Some (SelectVariation t) \<Rightarrow> mark_first (\<lambda>e. st_type e = t \<and> st_state e = ES_unselected)
          (\<lambda>e. e\<lparr>st_state := ES_selected, st_selected := g\<rparr>) n es
      | Some (SelectClass c) \<Rightarrow> mark_first (\<lambda>e. st_clazz e = c \<and> st_state e = ES_unselected) (\<lambda>e. e\<lparr>st_state := ES_selected\<rparr>) n es)"

definition spec_iin :: "GroupVariation \<Rightarrow> IINField" where
  "spec_iin g = (if g \<in> fst ` set selection_table then IINField_Empty else IINField_of_bit IIN_FUNC_NOT_SUPPORTED)"

definition unwritten :: "EventClass \<Rightarrow> 'v stored list \<Rightarrow> bool" where
  "unwritten c es \<longleftrightarrow> (\<exists>e \<in> set es. st_clazz e = c \<and> st_state e \<noteq> ES_written)"

definition any_full :: "(EventType \<Rightarrow> nat) \<Rightarrow> 'v stored list \<Rightarrow> bool" where
  "any_full cap es \<longleftrightarrow> (\<exists>t. 0 < cap t \<and> of_kind t es = cap t)"

type_synonym 'x buffer_spec = "bool \<times> 'x Measurement stored list"

fun spec_step :: "(EventType \<Rightarrow> nat) \<Rightarrow> 'x conversions \<Rightarrow> 'x buffer_op \<Rightarrow> 'x buffer_spec \<Rightarrow> (buffer_result \<times> 'x buffer_spec) option" where
  "spec_step cap conv (Op_Update t event) (lost, es) =
     (let (overflow, es) = update_stored (cap t) t event es in Some (Res_done, lost \<or> overflow, es))"
| "spec_step cap conv Op_Unselect (lost, es) = Some (Res_done, lost, map (\<lambda>e. e\<lparr>st_state := ES_unselected\<rparr>) es)"
| "spec_step cap conv (Op_SelectAll g) (lost, es) = Some (Res_iin (spec_iin g), lost, spec_select g (length es) es)"
| "spec_step cap conv (Op_SelectCount g n) (lost, es) = Some (Res_iin (spec_iin g), lost, spec_select g (unat n) es)"
| "spec_step cap conv (Op_SelectAllByClass c) (lost, es) =
     Some (Res_done, lost, map (\<lambda>e. if st_state e = ES_unselected \<and> HasEventType (st_clazz e) c then e\<lparr>st_state := ES_selected\<rparr> else e) es)"
| "spec_step cap conv (Op_Load hw) (lost, es) =
     map_option (\<lambda>(k, hw').
        (Res_loaded (k = length (filter selected es)) (hw'\<lparr>hw_mark := hw_mark hw\<rparr>), lost, mark_first selected to_written k es))
       (write_selected (ASDUEventWriteHandler conv) (filter selected es) hw)"
| "spec_step cap conv Op_ClearWritten (lost, es) = Some (Res_done, lost, filter (\<lambda>e. st_state e \<noteq> ES_written) es)"
| "spec_step cap conv Op_HasAnySelection (lost, es) = Some (Res_bool (\<exists>e \<in> set es. selected e), lost, es)"
| "spec_step cap conv Op_UnwrittenClassField (lost, es) =
     Some (Res_class (ClassField_of False (unwritten EC1 es) (unwritten EC2 es) (unwritten EC3 es)), lost, es)"
| "spec_step cap conv Op_IsOverflown (lost, es) = Some (Res_bool (lost \<and> any_full cap es), lost \<and> any_full cap es, es)"

text \<open>A sequence of calls, with the list of results.\<close>

fun run_ops :: "('o \<Rightarrow> 's \<Rightarrow> ('r \<times> 's) option) \<Rightarrow> 'o list \<Rightarrow> 's \<Rightarrow> ('r list \<times> 's) option" where
  "run_ops step [] s = Some ([], s)"
| "run_ops step (op # ops) s = do {
     (r, s) \<leftarrow> step op s;
     (rs, s) \<leftarrow> run_ops step ops s;
     Some (r # rs, s) }"


section \<open>The buffer refines its specification\<close>

definition buffer_ok :: "(EventType \<Rightarrow> nat) \<Rightarrow> 'v EventBuffer \<Rightarrow> bool" where
  "buffer_ok cap eb \<longleftrightarrow>
     storage_ok (eb_storage eb) \<and> (\<forall>t. ls_capacity (el_typed (eb_storage eb) t) = cap t) \<and> (\<forall>t. cap t < 2 ^ 16)"

definition buffer_abs :: "'v EventBuffer \<Rightarrow> bool \<times> 'v stored list" where
  "buffer_abs eb = (eb_overflow eb, stored_events (eb_storage eb))"

text \<open>A concrete result that agrees with that of the specification.\<close>

definition simulates :: "(EventType \<Rightarrow> nat) \<Rightarrow> ('r \<times> bool \<times> 'v stored list) option \<Rightarrow> ('r \<times> 'v EventBuffer) option \<Rightarrow> bool" where
  "simulates cap a c \<longleftrightarrow>
     (case a of
        None \<Rightarrow> c = None
      | Some (r, s) \<Rightarrow> (case c of None \<Rightarrow> False | Some (r', eb) \<Rightarrow> r' = r \<and> buffer_ok cap eb \<and> buffer_abs eb = s))"

lemma mark_first_all: "length (filter P es) \<le> k \<Longrightarrow> mark_first P f k es = map (\<lambda>e. if P e then f e else e) es"
  by (induction es arbitrary: k) auto

lemma mark_first_enough: "length es \<le> k \<Longrightarrow> mark_first P f k es = mark_first P f (length es) es"
  by (simp add: mark_first_all order_trans [OF length_filter_le])

lemma HasEventType_of_event: "HasEventType c (ClassField_of_event c') \<longleftrightarrow> c = c'"
  by (cases c; cases c') (simp_all add: HasEventType_def ClassField_of_event_def ClassField_of_def HasClass1_def HasClass2_def
    HasClass3_def class_masks)

lemma EventLists_of_ok:
  "storage_ok (EventLists_of v0 config)" "stored_events (EventLists_of v0 config) = []"
  "ls_capacity (el_typed (EventLists_of v0 config) t) = max_events config t"
proof -
  have small: "max_events config t < 2 ^ 16" for t
    by (simp add: max_events_def)
  have sum: "TotalEvents config = (\<Sum>t\<in>UNIV. max_events config t)"
    by (simp add: TotalEvents_def max_events_def UNIV_enum enum_EventType_def)
  have "(\<Sum>t\<in>UNIV. max_events config t) \<le> (\<Sum>t\<in>(UNIV :: EventType set). 2 ^ 16)"
    using small by (intro sum_mono) (simp add: less_imp_le)
  then have bound: "TotalEvents config < 2 ^ 32"
    by (simp add: sum UNIV_enum enum_EventType_def)
  have cap: "ls_capacity (List_of v k) = k" for v :: 'b and k
    using shape_length [OF List_of_shape [of v k]] by simp
  show "stored_events (EventLists_of v0 config) = []" "ls_capacity (el_typed (EventLists_of v0 config) t) = max_events config t" for t
    by (simp_all add: stored_events_def EventLists_of_def cap)
  then show "storage_ok (EventLists_of v0 config)"
    using bound
    by (simp add: storage_ok_def lists_ok_def counters_ok_def counted_def of_type_def EventLists_of_def cap sum EventClassCounters_init_def)
qed

lemma counted_zero:
  assumes "length es < 2 ^ 32"
  shows "counted P es > 0 \<longleftrightarrow> (\<exists>e \<in> set es. P e)"
proof -
  have "length (filter P es) < 2 ^ 32"
    using assms le_less_trans length_filter_le by blast
  then have "unat (counted P es) = length (filter P es)"
    unfolding counted_def by (subst unat_of_nat_u32) simp_all
  then have "counted P es > 0 \<longleftrightarrow> length (filter P es) > 0"
    by (simp add: word_less_nat_alt)
  then show ?thesis
    by (auto simp: filter_empty_conv)
qed


lemma simulatesI:
  assumes "c = Some (r, eb)" and "buffer_ok cap eb" and "buffer_abs eb = s"
  shows "simulates cap (Some (r, s)) c"
  using assms by (simp add: simulates_def)

lemma buffer_ok_step:
  assumes "buffer_ok cap eb" and "storage_ok ls" and "same_capacity ls (eb_storage eb)"
  shows "buffer_ok cap (eb\<lparr>eb_storage := ls\<rparr>)" and "buffer_ok cap (eb\<lparr>eb_storage := ls, eb_overflow := b\<rparr>)"
  using assms by (simp_all add: buffer_ok_def)

lemma buffer_ok_length: "buffer_ok cap eb \<Longrightarrow> length (stored_events (eb_storage eb)) < 2 ^ 32"
  using stored_length [of "eb_storage eb"] by (simp add: buffer_ok_def storage_ok_def)

lemma sim_Update:
  assumes "buffer_ok cap eb"
  shows "simulates cap (spec_step cap conv (Op_Update t event) (buffer_abs eb)) (buffer_step conv (Op_Update t event) eb)"
proof -
  define u where "u = update_stored (cap t) t event (stored_events (eb_storage eb))"
  obtain ls where ls: "EventUpdate_Update t event (eb_storage eb) = Some (fst u, ls)" "storage_ok ls"
      "same_capacity ls (eb_storage eb)" "stored_events ls = snd u"
    using Update_abs [of "eb_storage eb" t event] assms by (auto simp: buffer_ok_def u_def)
  show ?thesis
    using buffer_ok_step [OF assms ls(2,3)] ls(1,4)
    by (auto simp: EventBuffer_Update_def buffer_abs_def Let_def simulates_def split_beta simp flip: u_def)
qed

lemma sim_Select:
  assumes "buffer_ok cap eb" and "length (stored_events (eb_storage eb)) \<le> n \<or> unat mx = n" and "n \<le> unat mx"
  shows "simulates cap (Some (spec_iin g, eb_overflow eb, spec_select g n (stored_events (eb_storage eb)))) (SelectMaxCount g mx eb)"
proof -
  define es where "es = stored_events (eb_storage eb)"
  have ok: "storage_ok (eb_storage eb)"
    using assms(1) by (simp add: buffer_ok_def)
  have n: "mark_first P f (unat mx) es = mark_first P f n es" for P :: "'a stored \<Rightarrow> bool" and f
    using assms(2,3) mark_first_enough [of es n P f] mark_first_enough [of es "unat mx" P f] by (auto simp: es_def)
  have known: "spec_iin g = IINField_Empty" if "map_of selection_table g = Some sel" for sel
    using that by (force simp: spec_iin_def dest: map_of_SomeD)
  show ?thesis
  proof (cases "map_of selection_table g")
    case None
    then have iin: "spec_iin g = IINField_of_bit IIN_FUNC_NOT_SUPPORTED"
      by (simp add: spec_iin_def map_of_eq_None_iff)
    from None show ?thesis
      using assms(1) iin by (intro simulatesI) (simp_all add: SelectMaxCount_def spec_select_def buffer_abs_def)
  next
    case (Some sel)
    note known = known [OF Some]
    have step: ?thesis
      if "(case sel of SelectType t \<Rightarrow> EventStorage_SelectByType t mx (eb_storage eb)
            | SelectVariation t \<Rightarrow> EventStorage_SelectByVariation t g mx (eb_storage eb)
            | SelectClass c \<Rightarrow> EventStorage_SelectByEventClass c mx (eb_storage eb)) = Some (k, ls)"
        and "storage_ok ls" "same_capacity ls (eb_storage eb)" "stored_events ls = spec_select g n es" for k ls
      using that buffer_ok_step(1) [OF assms(1) that(2,3)]
      by (intro simulatesI [of _ _ "eb\<lparr>eb_storage := ls\<rparr>"]) (simp_all add: SelectMaxCount_def Some known buffer_abs_def es_def)
    show ?thesis
    proof (cases sel)
      case (SelectType t)
      obtain ls where "SelectByTypeGeneric t True 0 mx (eb_storage eb) = Some
          (of_nat (min (unat mx) (length (filter (\<lambda>e. st_type e = t \<and> st_state e = ES_unselected) es))), ls)"
          "storage_ok ls" "same_capacity ls (eb_storage eb)"
          "stored_events ls = mark_first (\<lambda>e. st_type e = t \<and> st_state e = ES_unselected)
            (\<lambda>e. e\<lparr>st_state := ES_selected, st_selected := if True then st_default e else 0\<rparr>) (unat mx) es"
        using SelectByType_abs [OF ok, where t = t and d = True and v = 0 and mx = mx, folded es_def] by (elim exE conjE) (rule that; assumption)
      then show ?thesis
        by (intro step) (simp_all add: SelectType EventStorage_SelectByType_def spec_select_def Some n)
    next
      case (SelectVariation t)
      obtain ls where "SelectByTypeGeneric t False g mx (eb_storage eb) = Some
          (of_nat (min (unat mx) (length (filter (\<lambda>e. st_type e = t \<and> st_state e = ES_unselected) es))), ls)"
          "storage_ok ls" "same_capacity ls (eb_storage eb)"
          "stored_events ls = mark_first (\<lambda>e. st_type e = t \<and> st_state e = ES_unselected)
            (\<lambda>e. e\<lparr>st_state := ES_selected, st_selected := if False then st_default e else g\<rparr>) (unat mx) es"
        using SelectByType_abs [OF ok, where t = t and d = False and v = g and mx = mx, folded es_def] by (elim exE conjE) (rule that; assumption)
      then show ?thesis
        by (intro step) (simp_all add: SelectVariation EventStorage_SelectByVariation_def spec_select_def Some n)
    next
      case (SelectClass c)
      obtain ls where "EventSelection_SelectByClass (ClassField_of_event c) mx (eb_storage eb) = Some
          (of_nat (min (unat mx) (length (filter (\<lambda>e. st_state e = ES_unselected \<and> HasEventType (st_clazz e) (ClassField_of_event c)) es))), ls)"
          "storage_ok ls" "same_capacity ls (eb_storage eb)"
          "stored_events ls = mark_first (\<lambda>e. st_state e = ES_unselected \<and> HasEventType (st_clazz e) (ClassField_of_event c))
            (\<lambda>e. e\<lparr>st_state := ES_selected\<rparr>) (unat mx) es"
        using SelectByClass_abs [OF ok, where mx = mx and clazz = "ClassField_of_event c", folded es_def] by (elim exE conjE) (rule that; assumption)
      then show ?thesis
        by (intro step)
          (simp_all add: SelectClass EventStorage_SelectByEventClass_def spec_select_def Some n HasEventType_of_event conj_commute)
    qed
  qed
qed

lemma sim_Load:
  assumes "buffer_ok cap eb"
  shows "simulates cap (spec_step cap conv (Op_Load hw) (buffer_abs eb)) (buffer_step conv (Op_Load hw) eb)"
proof -
  define es where "es = stored_events (eb_storage eb)"
  have ok: "storage_ok (eb_storage eb)" "\<forall>t. ls_capacity (el_typed (eb_storage eb) t) < 2 ^ 16"
    using assms by (simp_all add: buffer_ok_def)
  note w = EventWriting_Write_abs [OF ok, of "ASDUEventWriteHandler conv" hw, folded es_def]
  show ?thesis
  proof (cases "write_selected (ASDUEventWriteHandler conv) (filter selected es) hw")
    case None
    then show ?thesis
      using w by (simp add: simulates_def buffer_abs_def EventBuffer_Load_def es_def)
  next
    case (Some r)
    then obtain k hw' where k: "write_selected (ASDUEventWriteHandler conv) (filter selected es) hw = Some (k, hw')"
      by (cases r) simp
    then obtain ls where ls: "EventWriting_Write (ASDUEventWriteHandler conv) (eb_storage eb) hw = Some (of_nat k, ls, hw')"
        "storage_ok ls" "same_capacity ls (eb_storage eb)" "stored_events ls = mark_first selected to_written k es"
      using w by auto
    have le: "k \<le> length (filter selected es)"
      using write_selected_le [OF k] .
    have "length (filter selected (mark_first selected to_written k es)) = length (filter selected es) - k"
      by (induction es arbitrary: k) auto
    then have "NumSelected ls = 0 \<longleftrightarrow> k = length (filter selected es)"
      using selected_count [OF ls(2)] le by (auto simp: NumSelected_def ls(4) simp flip: length_0_conv)
    then show ?thesis
      using buffer_ok_step(1) [OF assms ls(2,3)] k ls(1,4)
      by (simp add: buffer_abs_def EventBuffer_Load_def simulates_def flip: es_def)
  qed
qed

lemma sim_observe:
  assumes "buffer_ok cap eb"
  shows "HasAnySelection eb \<longleftrightarrow> (\<exists>e \<in> set (stored_events (eb_storage eb)). selected e)"
    and "NumUnwritten c (eb_storage eb) > 0 \<longleftrightarrow> unwritten c (stored_events (eb_storage eb))"
    and "EventLists_IsAnyTypeFull (eb_storage eb) \<longleftrightarrow> any_full cap (stored_events (eb_storage eb))"
proof -
  define es where "es = stored_events (eb_storage eb)"
  have cnt: "counters_ok (el_counters (eb_storage eb)) es" and lists: "lists_ok (eb_storage eb)"
    using assms by (simp_all add: buffer_ok_def storage_ok_def es_def)
  have len: "length es < 2 ^ 32"
    using buffer_ok_length [OF assms] by (simp add: es_def)
  show "HasAnySelection eb \<longleftrightarrow> (\<exists>e \<in> set (stored_events (eb_storage eb)). selected e)"
    using cnt counted_zero [OF len, of selected] by (simp add: HasAnySelection_def NumSelected_def counters_ok_def flip: es_def)
  have "counted (\<lambda>e. st_clazz e = c) es = counted (\<lambda>e. st_clazz e = c \<and> st_state e = ES_written) es
      + counted (\<lambda>e. st_clazz e = c \<and> st_state e \<noteq> ES_written) es"
    by (induction es) (auto simp: counted_Cons counted_def)
  then have "NumUnwritten c (eb_storage eb) = counted (\<lambda>e. st_clazz e = c \<and> st_state e \<noteq> ES_written) es"
    using cnt by (simp add: NumUnwritten_def counters_ok_def)
  then show "NumUnwritten c (eb_storage eb) > 0 \<longleftrightarrow> unwritten c (stored_events (eb_storage eb))"
    using counted_zero [OF len, of "\<lambda>e. st_clazz e = c \<and> st_state e \<noteq> ES_written"] by (auto simp: unwritten_def es_def)
  have "IsFullAndCapacityNotZero (el_typed (eb_storage eb) t) \<longleftrightarrow> 0 < cap t \<and> of_kind t es = cap t" for t
    using assms lists by (auto simp: IsFullAndCapacityNotZero_def buffer_ok_def es_def of_kind_nodes list_ok_full lists_ok_def)
  then show "EventLists_IsAnyTypeFull (eb_storage eb) \<longleftrightarrow> any_full cap (stored_events (eb_storage eb))"
    by (simp add: EventLists_IsAnyTypeFull_def any_full_def es_def)
qed

lemma buffer_sim:
  assumes "buffer_ok cap eb"
  shows "simulates cap (spec_step cap conv op (buffer_abs eb)) (buffer_step conv op eb)"
proof -
  define es where "es = stored_events (eb_storage eb)"
  have ok: "storage_ok (eb_storage eb)"
    using assms by (simp add: buffer_ok_def)
  have len: "length es < 2 ^ 32"
    using buffer_ok_length [OF assms] by (simp add: es_def)
  have max32: "unat (0xFFFFFFFF :: u32) = 2 ^ 32 - 1"
    by simp
  show ?thesis
  proof (cases op)
    case (Op_SelectAll g)
    have "simulates cap (Some (spec_iin g, eb_overflow eb, spec_select g (length es) es)) (SelectMaxCount g 0xFFFFFFFF eb)"
      unfolding es_def using len max32 by (intro sim_Select [OF assms]) (simp_all add: es_def)
    then show ?thesis
      by (auto simp: Op_SelectAll simulates_def buffer_abs_def EventBuffer_SelectAll_def es_def split: option.splits)
  next
    case (Op_SelectCount g n)
    have "simulates cap (Some (spec_iin g, eb_overflow eb, spec_select g (unat n) es)) (SelectMaxCount g (ucast n) eb)"
      unfolding es_def by (intro sim_Select [OF assms]) (simp_all add: unat_ucast_u16)
    then show ?thesis
      by (auto simp: Op_SelectCount simulates_def buffer_abs_def EventBuffer_SelectCount_def es_def split: option.splits)
  next
    case (Op_SelectAllByClass c)
    define P where "P = (\<lambda>e :: 'a Measurement stored. st_state e = ES_unselected \<and> HasEventType (st_clazz e) c)"
    obtain k ls where ls: "EventSelection_SelectByClass c 0xFFFFFFFF (eb_storage eb) = Some (k, ls)" "storage_ok ls"
        "same_capacity ls (eb_storage eb)" "stored_events ls = mark_first P (\<lambda>e. e\<lparr>st_state := ES_selected\<rparr>) (unat (0xFFFFFFFF :: u32)) es"
      using SelectByClass_abs [OF ok, where mx = "0xFFFFFFFF" and clazz = c, folded es_def, folded P_def] by (elim exE conjE) (rule that; assumption)
    have "length (filter P es) \<le> unat (0xFFFFFFFF :: u32)"
      using len by (intro order_trans [OF length_filter_le]) simp
    from mark_first_all [OF this] ls(4)
    have "stored_events ls = map (\<lambda>e. if P e then e\<lparr>st_state := ES_selected\<rparr> else e) es"
      by simp
    then show ?thesis
      using buffer_ok_step(1) [OF assms ls(2,3)] ls(1)
      by (simp add: Op_SelectAllByClass SelectAllByClass_def EventStorage_SelectByClass_def simulates_def buffer_abs_def P_def es_def)
  next
    case Op_Unselect
    then show ?thesis
      using Unselect_abs [OF ok] buffer_ok_step(1) [OF assms]
      by (auto simp: simulates_def buffer_abs_def EventBuffer_Unselect_def)
  next
    case Op_ClearWritten
    then show ?thesis
      using ClearWritten_abs [OF ok] buffer_ok_step(1) [OF assms]
      by (auto simp: simulates_def buffer_abs_def EventBuffer_ClearWritten_def)
  next
    case Op_IsOverflown
    have "buffer_ok cap (eb\<lparr>eb_overflow := False\<rparr>)"
      using assms by (simp add: buffer_ok_def)
    then show ?thesis
      using assms by (auto simp: Op_IsOverflown IsOverflown_def Let_def sim_observe [OF assms] simulates_def buffer_abs_def)
  next
    case (Op_Update t event)
    then show ?thesis
      using sim_Update [OF assms] by (simp only:)
  next
    case (Op_Load hw)
    then show ?thesis
      using sim_Load [OF assms] by (simp only:)
  qed (use assms in \<open>simp_all add: sim_observe [OF assms] UnwrittenClassField_def simulates_def buffer_abs_def\<close>)
qed

lemma run_sim:
  assumes "buffer_ok cap eb"
  shows "simulates cap (run_ops (spec_step cap conv) ops (buffer_abs eb)) (run_ops (buffer_step conv) ops eb)"
  using assms
proof (induction ops arbitrary: eb)
  case (Cons op ops)
  note s = buffer_sim [OF Cons.prems, of conv op]
  show ?case
  proof (cases "spec_step cap conv op (buffer_abs eb)")
    case None
    then show ?thesis
      using s by (simp add: simulates_def)
  next
    case (Some rs)
    then obtain r lost es where rs: "spec_step cap conv op (buffer_abs eb) = Some (r, lost, es)"
      by (cases rs) auto
    then obtain eb' where eb': "buffer_step conv op eb = Some (r, eb')" "buffer_ok cap eb'" "buffer_abs eb' = (lost, es)"
      using s by (auto simp: simulates_def split: option.splits)
    show ?thesis
      using Cons.IH [OF eb'(2)] rs eb'
      by (cases "run_ops (spec_step cap conv) ops (lost, es)") (auto simp: simulates_def split: option.splits)
  qed
qed (simp add: simulates_def)



section \<open>Properties\<close>

lemma EventBuffer_of_ok: "buffer_ok (max_events config) (EventBuffer_of v0 config)" "buffer_abs (EventBuffer_of v0 config) = (False, [])"
  using EventLists_of_ok [of v0 config] by (simp_all add: buffer_ok_def buffer_abs_def EventBuffer_of_def) (simp add: max_events_def)

text \<open>C6: The event buffer, with its linked lists, pointers and counters, behaves on every sequence of calls
  like its specification on the plain sequence of stored events: the results are the same and so is the content.
  A full type loses its oldest event, a selection marks the oldest events that match, writing marks what the
  writer accepted, confirmation removes what was written.\<close>

theorem event_buffer_refines:
  "case run_ops (spec_step (max_events config) conv) ops (False, []) of
     None \<Rightarrow> run_ops (buffer_step conv) ops (EventBuffer_of v0 config) = None
   | Some (rs, lost, es) \<Rightarrow>
       \<exists>eb. run_ops (buffer_step conv) ops (EventBuffer_of v0 config) = Some (rs, eb) \<and>
         eb_overflow eb = lost \<and> stored_events (eb_storage eb) = es"
  using run_sim [OF EventBuffer_of_ok(1) [of config v0], of conv ops] EventBuffer_of_ok(2) [of v0 config]
  by (auto simp: simulates_def buffer_abs_def split: option.splits)

lemma reachable_buffer_ok:
  assumes "run_ops (buffer_step conv) ops (EventBuffer_of v0 config) = Some (rs, eb)"
  shows "buffer_ok (max_events config) eb"
  using run_sim [OF EventBuffer_of_ok(1) [of config v0], of conv ops] assms
  by (auto simp: simulates_def split: option.splits)

end
