(* ===== verification/EventBounds.thy ===== *)
theory EventBounds
  imports WriterBounds EventBuffer
begin

text \<open>
  Every call on the event buffer returns, as long as the events that were given to it have the
  measurement their type says: loading events stays in the room of the header writer, and the
  buffer stays well-formed.
\<close>

section \<open>Event writers\<close>

definition measurement_ok :: "EventType \<Rightarrow> 'x Measurement \<Rightarrow> bool" where
  "measurement_ok t m \<longleftrightarrow>
     (case m of
        OctetString bs \<Rightarrow> t = ET_OctetString
      | Meas flags time v \<Rightarrow> t \<noteq> ET_OctetString \<and> 0 \<le> sint time)"

fun EventWriter_ok :: "HeaderWriter \<Rightarrow> EventType \<Rightarrow> 'x EventWriter \<Rightarrow> bool" where
  "EventWriter_ok base t (BasicEventWriter iter hw) \<longleftrightarrow> t \<noteq> ET_OctetString \<and> Prefixed_ok base iter hw"
| "EventWriter_ok base t (CTOEventWriter cto iter hw) \<longleftrightarrow> t \<noteq> ET_OctetString \<and> 0 \<le> sint cto \<and> Prefixed_ok base iter hw"
| "EventWriter_ok base t (OctetStringEventWriter sz iter hw) \<longleftrightarrow> t = ET_OctetString \<and> Prefixed_ok base iter hw"

lemma measurement_okE:
  assumes "measurement_ok t m" and "t \<noteq> ET_OctetString"
  obtains flags time v where "m = Meas flags time v" "0 \<le> sint time"
  using assms by (cases m) (auto simp: measurement_ok_def)

lemma octet_measurement: "measurement_ok ET_OctetString m \<Longrightarrow> \<exists>bs. m = OctetString bs"
  by (cases m) (auto simp: measurement_ok_def)

lemma EventWriter_Write_ok:
  assumes "EventWriter_ok base t w" and "measurement_ok t m"
  shows "succeeds (EventWriter_Write m index w) (\<lambda>(_, w'). EventWriter_ok base t w')"
proof (cases w)
  case (BasicEventWriter iter hw)
  then show ?thesis
    using assms(1) Prefixed_Write_ok [of base iter hw m index] by (auto elim!: succeeds_bind)
next
  case (CTOEventWriter cto iter hw)
  then obtain flags time v where m: "m = Meas flags time v" "0 \<le> sint time"
    using assms by (auto elim: measurement_okE)
  have "sint time < 2 ^ 63"
    using sint_lt [of time] by simp
  then have "time_difference time cto = Some (time - cto)"
    using assms(1) by (simp add: time_difference_def CTOEventWriter)
  then show ?thesis
    using assms(1) m Prefixed_Write_ok [of base iter hw "Meas flags (time - cto) v" index]
    by (auto simp: CTOEventWriter elim!: succeeds_bind)
next
  case (OctetStringEventWriter sz iter hw)
  then obtain bs where "m = OctetString bs"
    using assms octet_measurement by auto
  then show ?thesis
    using assms(1) Prefixed_Write_ok [of base iter hw bs index] by (auto simp: OctetStringEventWriter elim!: succeeds_bind)
qed

lemma EventWriter_finish_ok: "EventWriter_ok base t w \<Longrightarrow> succeeds (EventWriter_finish w) (grown base)"
  by (cases w) (simp_all add: Prefixed_finish_ok)

lemma EventWriter_of_ok:
  assumes "writer_wf hw" and "ser_total ser" and "t \<noteq> ET_OctetString"
  shows "succeeds (BasicEventWriter_of ser hw) (EventWriter_ok hw t)"
    and "0 \<le> sint cto \<Longrightarrow> succeeds (CTOEventWriter_of cto ser hw) (EventWriter_ok hw t)"
    and "succeeds (OctetStringEventWriter_of sz hw) (EventWriter_ok hw ET_OctetString)"
proof -
  have g: "grown hw hw"
    using assms(1) by simp
  show "succeeds (BasicEventWriter_of ser hw) (EventWriter_ok hw t)"
    unfolding BasicEventWriter_of_def
    by (rule succeeds_bind [OF IterateOverCountWithPrefix_ok [OF g assms(2)]]) (use assms(3) in auto)
  show "succeeds (OctetStringEventWriter_of sz hw) (EventWriter_ok hw ET_OctetString)"
    unfolding OctetStringEventWriter_of_def
    by (rule succeeds_bind [OF IterateOverCountWithPrefix_ok [OF g OctetString_total]]) auto
  have "ser_total cto_serializer"
    by (simp add: cto_serializer_def Descriptor_total)
  then show "0 \<le> sint cto \<Longrightarrow> succeeds (CTOEventWriter_of cto ser hw) (EventWriter_ok hw t)"
    unfolding CTOEventWriter_of_def
    by (intro succeeds_bind [OF IterateOverCountWithPrefixAndCTO_ok [OF assms(1,2)]]) (use assms(3) in auto)
qed

lemma ASDUEventWriteHandler_open_ok:
  assumes "writer_wf hw" and "measurement_ok t m"
  shows "succeeds (ASDUEventWriteHandler_open conv t v m hw) (\<lambda>w. case w of None \<Rightarrow> True | Some w \<Rightarrow> EventWriter_ok hw t w)"
proof (cases "t = ET_OctetString")
  case True
  then obtain bs where "m = OctetString bs"
    using assms(2) octet_measurement by auto
  then show ?thesis
    using True EventWriter_of_ok(3) [OF assms(1) Descriptor_total, of ET_Binary] by (simp add: ASDUEventWriteHandler_open_def)
next
  case False
  obtain flags time x where m: "m = Meas flags time x" "0 \<le> sint time"
    by (rule measurement_okE [OF assms(2) False]) (rule that; assumption)
  have ser: "ser_total (event_serializer conv gk)" for gk
    by (simp add: event_serializer_def Descriptor_total)
  show ?thesis
    using False EventWriter_of_ok(1) [OF assms(1) ser False] EventWriter_of_ok(2) [OF assms(1) ser False m(2)]
    by (simp add: ASDUEventWriteHandler_open_def m(1) split: option.split)
qed


section \<open>Loading\<close>

definition events_ok :: "'x Measurement stored list \<Rightarrow> bool" where
  "events_ok es \<longleftrightarrow> (\<forall>e \<in> set es. measurement_ok (st_type e) (st_value e))"

lemma events_ok_drop: "events_ok es \<Longrightarrow> events_ok (drop k es)"
  using set_drop_subset [of k es] by (auto simp: events_ok_def)

lemma write_items_ok:
  "EventWriter_ok base t w \<Longrightarrow> events_ok es \<Longrightarrow> succeeds (write_items t v EventWriter_Write es w) (\<lambda>(_, w'). EventWriter_ok base t w')"
proof (induction es arbitrary: w)
  case (Cons e es)
  show ?case
  proof (cases "st_type e = t \<and> st_selected e = v")
    case True
    then obtain ok w1 where w1: "EventWriter_Write (st_value e) (st_index e) w = Some (ok, w1)" "EventWriter_ok base t w1"
      using EventWriter_Write_ok [OF Cons.prems(1), of "st_value e" "st_index e"] Cons.prems(2)
      by (auto simp: events_ok_def elim!: succeedsE)
    show ?thesis
      using True w1 Cons.IH [OF w1(2)] Cons.prems(2) by (auto simp: events_ok_def elim!: succeedsE)
  qed (use Cons.prems in auto)
qed simp

lemma write_selected_ok:
  "writer_wf hw \<Longrightarrow> events_ok es \<Longrightarrow> succeeds (write_selected (ASDUEventWriteHandler conv) es hw) (\<lambda>(_, hw'). grown hw hw')"
proof (induction "length es" arbitrary: es hw rule: less_induct)
  case less
  show ?case
  proof (cases es)
    case (Cons e rest)
    have e: "measurement_ok (st_type e) (st_value e)"
      using less.prems(2) by (simp add: Cons events_ok_def)
    obtain o' where o': "ASDUEventWriteHandler_open conv (st_type e) (st_selected e) (st_value e) hw = Some o'"
        "case o' of None \<Rightarrow> True | Some w \<Rightarrow> EventWriter_ok hw (st_type e) w"
      by (rule succeedsE [OF ASDUEventWriteHandler_open_ok [OF less.prems(1) e]])
    show ?thesis
    proof (cases o')
      case None
      then show ?thesis
        using o' less.prems(1) by (simp add: Cons ASDUEventWriteHandler_def)
    next
      case (Some w)
      obtain k w1 where k: "write_items (st_type e) (st_selected e) EventWriter_Write (e # rest) w = Some (k, w1)" "EventWriter_ok hw (st_type e) w1"
        using write_items_ok [of hw "st_type e" w es "st_selected e"] o' Some less.prems(2) by (auto simp: Cons elim!: succeedsE)
      obtain h1 where h1: "EventWriter_finish w1 = Some h1" "grown hw h1"
        by (rule succeedsE [OF EventWriter_finish_ok [OF k(2)]])
      have "succeeds (write_selected (ASDUEventWriteHandler conv) (drop k es) h1) (\<lambda>(_, hw'). grown h1 hw')" if "k \<noteq> 0"
        using that less.prems(2) grown_wf(2) [OF h1(2)] by (intro less.hyps events_ok_drop) (simp_all add: Cons)
      then show ?thesis
        using o'(1) Some k(1) h1 by (auto simp: Cons ASDUEventWriteHandler_def simp del: write_items.simps
            elim!: succeeds_mono intro: grown_trans)
    qed
  qed (use less.prems in simp)
qed


section \<open>The invariant of the buffer\<close>

definition buffer_inv :: "(EventType \<Rightarrow> nat) \<Rightarrow> 'x Measurement EventBuffer \<Rightarrow> bool" where
  "buffer_inv cap eb \<longleftrightarrow> buffer_ok cap eb \<and> events_ok (stored_events (eb_storage eb))"

definition op_ok :: "'x buffer_op \<Rightarrow> bool" where
  "op_ok op \<longleftrightarrow>
     (case op of
        Op_Update t event \<Rightarrow> measurement_ok t (ev_value event)
      | Op_Load hw \<Rightarrow> writer_wf hw
      | _ \<Rightarrow> True)"

definition result_ok :: "'x buffer_op \<Rightarrow> buffer_result \<Rightarrow> bool" where
  "result_ok op r \<longleftrightarrow>
     (case op of
        Op_Load hw \<Rightarrow> (\<exists>ok hw'. r = Res_loaded ok hw' \<and> grown hw hw')
      | _ \<Rightarrow> True)"


lemma events_ok_same:
  assumes "map (\<lambda>e. (st_type e, st_value e)) es' = map (\<lambda>e. (st_type e, st_value e)) es"
  shows "events_ok es' \<longleftrightarrow> events_ok es"
proof -
  have "events_ok xs \<longleftrightarrow> list_all (\<lambda>(t, v). measurement_ok t v) (map (\<lambda>e. (st_type e, st_value e)) xs)" for xs :: "'a Measurement stored list"
    by (simp add: events_ok_def list_all_iff)
  with assms show ?thesis
    by simp
qed

lemma mark_first_same: "(\<And>e. (st_type (f e), st_value (f e)) = (st_type e, st_value e)) \<Longrightarrow>
    map (\<lambda>e. (st_type e, st_value e)) (mark_first P f k es) = map (\<lambda>e. (st_type e, st_value e)) es"
  by (induction P f k es rule: mark_first.induct) auto

lemma remove_first_ok: "events_ok es \<Longrightarrow> events_ok (remove_first t es)"
  by (induction es) (auto simp: events_ok_def)

lemma update_stored_ok: "events_ok es \<Longrightarrow> measurement_ok t (ev_value event) \<Longrightarrow> events_ok (snd (update_stored c t event es))"
  using remove_first_ok [of es t] by (auto simp: update_stored_def events_ok_def new_stored_def)

lemma spec_select_ok: "events_ok (spec_select g n es) \<longleftrightarrow> events_ok es"
  by (rule events_ok_same) (auto simp: spec_select_def mark_first_same split: option.split Selection.split)

lemma spec_step_ok:
  assumes "events_ok es" and "op_ok op"
  shows "succeeds (spec_step cap conv op (lost, es)) (\<lambda>(r, lost, es'). events_ok es' \<and> result_ok op r)"
proof (cases op)
  case (Op_Update t event)
  then show ?thesis
    using assms update_stored_ok [of es t event "cap t"] by (simp add: op_ok_def result_ok_def split_beta)
next
  case (Op_Load hw)
  have "events_ok (filter selected es)" "writer_wf hw"
    using assms by (auto simp: events_ok_def op_ok_def Op_Load)
  then obtain k hw' where "write_selected (ASDUEventWriteHandler conv) (filter selected es) hw = Some (k, hw')" "grown hw hw'"
    using write_selected_ok by (fastforce elim!: succeedsE)
  moreover have "events_ok (mark_first selected to_written k es)"
    using assms(1) by (subst events_ok_same [OF mark_first_same]) simp_all
  ultimately show ?thesis
    by (simp add: Op_Load result_ok_def)
next
  case Op_Unselect
  then show ?thesis
    using assms(1) by (simp add: result_ok_def events_ok_def)
next
  case (Op_SelectAllByClass c)
  then show ?thesis
    using assms(1) by (auto simp: result_ok_def events_ok_def)
next
  case Op_ClearWritten
  then show ?thesis
    using assms(1) by (simp add: result_ok_def events_ok_def)
qed (use assms(1) in \<open>simp_all add: result_ok_def spec_select_ok\<close>)

lemma buffer_step_ok:
  assumes "buffer_inv cap eb" and "op_ok op"
  shows "succeeds (buffer_step conv op eb) (\<lambda>(r, eb'). buffer_inv cap eb' \<and> result_ok op r \<and>
    spec_step cap conv op (buffer_abs eb) = Some (r, buffer_abs eb'))"
proof -
  have "events_ok (stored_events (eb_storage eb))"
    using assms(1) by (simp add: buffer_inv_def)
  from spec_step_ok [OF this assms(2), of cap conv "eb_overflow eb"]
  obtain r lost es where "spec_step cap conv op (buffer_abs eb) = Some (r, lost, es)" "events_ok es" "result_ok op r"
    by (auto simp: buffer_abs_def elim!: succeedsE)
  then show ?thesis
    using buffer_sim [of cap eb conv op] assms(1)
    by (auto simp: simulates_def buffer_inv_def buffer_abs_def split: option.splits)
qed

lemma EventBuffer_of_inv: "buffer_inv (max_events config) (EventBuffer_of v0 config)"
  using EventBuffer_of_ok(2) [of v0 config] by (simp add: buffer_inv_def buffer_abs_def events_ok_def EventBuffer_of_ok)

end
