(* ===== verification/ResponseEvents.thy ===== *)
theory ResponseEvents
  imports EventBounds
begin

text \<open>
  The events in a response: what loading the selected events puts into the fragment, byte by byte, and
  which events a confirmation of this fragment then removes from the buffer.
\<close>

section \<open>The bytes of the selected events\<close>




abbreviation "counted_header grp variation \<equiv> [grp, variation, QualifierCodeToType QC_UINT16_CNT_UINT16_INDEX]"






section \<open>One header\<close>




lemma IT16 [simp]: "IT_SIZE IT_UInt16 = 2" "IT_Max IT_UInt16 = 65535" "IT_cast IT_UInt16 v = v"
  by (simp_all add: IT_SIZE_def IT_Max_def IT_cast_def)

lemma HW_Remaining_hwm [simp]: "HW_Remaining (hwm pre space post m) = length space"
  by (simp add: HW_Remaining_def mkw_def)

lemma wsize_hwm [simp]: "wsize (mkw pre space post) = length space"
  by (simp add: mkw_def)



section \<open>One run\<close>


































section \<open>All runs\<close>

lemma handler_sel [simp]:
  "eh_open (ASDUEventWriteHandler conv) = ASDUEventWriteHandler_open conv"
  "eh_Write (ASDUEventWriteHandler conv) = EventWriter_Write" "eh_close (ASDUEventWriteHandler conv) = EventWriter_finish"
  by (simp_all add: ASDUEventWriteHandler_def)




section \<open>Properties\<close>















end
