(* ===== verification/RequestParsing.thy ===== *)
theory RequestParsing
  imports WriterBounds
begin

text \<open>
  Parsing the objects of a request with a handler (\<open>app/parsing/APDUParser\<close> and
  \<open>IAPDUHandler\<close> as \<open>outstation/OutstationContext\<close> uses them), and \<open>outstation/IINHelpers\<close>.
\<close>

section \<open>Handlers that may fail\<close>

text \<open>
  A handler whose operations may be undefined keeps \<^const>\<open>None\<close> from the first such operation on.
  \<open>process\<close> gives \<^const>\<open>None\<close> for a header that the class does not override.
\<close>

definition fallible :: "(apdu_event \<Rightarrow> 's \<Rightarrow> (IINField \<times> 's) option option) \<Rightarrow> 's option handler_virtuals" where
  "fallible process =
     \<lparr>hv_ProcessHeader = (\<lambda>e so. case so of
          None \<Rightarrow> Some (IINField_Empty, None)
        | Some s \<Rightarrow> (case process e s of
            None \<Rightarrow> None
          | Some None \<Rightarrow> Some (IINField_Empty, None)
          | Some (Some (iin, s)) \<Rightarrow> Some (iin, Some s))),
      hv_OnHeaderResult = (\<lambda>_ _ so. so)\<rparr>"

text \<open>\<open>APDUParser::Parse\<close> with a new handler: the result, \<open>Errors()\<close> and the state of the handler.\<close>

definition parse_request ::
    "bool \<Rightarrow> (apdu_event \<Rightarrow> 's \<Rightarrow> (IINField \<times> 's) option option) \<Rightarrow> white_list \<Rightarrow> rslice \<Rightarrow> 's \<Rightarrow>
     (ParseResult \<times> IINField \<times> 's) option" where
  "parse_request expectsContents process IsAllowed objects s = do {
     (result, h) \<leftarrow> Parse_with_handler expectsContents (fallible process) IsAllowed objects (IAPDUHandler_init (Some s));
     s \<leftarrow> derived h;
     Some (result, errors h, s) }"

definition allow_all :: white_list where
  "allow_all headerCount g qc \<longleftrightarrow> True"

definition IINFromParseResult :: "ParseResult \<Rightarrow> IINField" where
  "IINFromParseResult result =
     (case result of
        PR_OK \<Rightarrow> IINField_Empty
      | UNKNOWN_OBJECT \<Rightarrow> IINField_of_bit IIN_OBJECT_UNKNOWN
      | _ \<Rightarrow> IINField_of_bit IIN_PARAM_ERROR)"


section \<open>The headers of a request, one after the other\<close>

fun handle_events ::
    "(apdu_event \<Rightarrow> 's \<Rightarrow> (IINField \<times> 's) option option) \<Rightarrow> apdu_event list \<Rightarrow> 's \<Rightarrow> (IINField \<times> 's) option" where
  "handle_events process [] s = Some (IINField_Empty, s)"
| "handle_events process (e # evs) s = do {
     (iin, s) \<leftarrow> (case process e s of None \<Rightarrow> Some (IINField_of_bit IIN_FUNC_NOT_SUPPORTED, s) | Some r \<Rightarrow> r);
     (iins, s) \<leftarrow> handle_events process evs s;
     Some (IINField_or iin iins, s) }"

lemma IINField_or_assoc: "IINField_or (IINField_or a b) c = IINField_or a (IINField_or b c)"
  by (simp add: IINField_or_def or.assoc)

lemma IINField_or_Empty [simp]: "IINField_or IINField_Empty a = a" "IINField_or a IINField_Empty = a"
  by (cases a; simp add: IINField_or_def IINField_Empty_def)+

lemma fold_fallible:
  "derived h = None \<Longrightarrow> derived (fold (IAPDUHandler_OnHeader (fallible process)) evs h) = None"
  "derived h = Some s \<Longrightarrow>
     (case handle_events process evs s of
        None \<Rightarrow> derived (fold (IAPDUHandler_OnHeader (fallible process)) evs h) = None
      | Some (iin, s') \<Rightarrow> derived (fold (IAPDUHandler_OnHeader (fallible process)) evs h) = Some s' \<and>
          errors (fold (IAPDUHandler_OnHeader (fallible process)) evs h) = IINField_or (errors h) iin)"
proof -
  show failed: "derived (fold (IAPDUHandler_OnHeader (fallible process)) evs h) = None" if "derived h = None" for evs h
    using that
    by (induction evs arbitrary: h)
      (simp_all add: IAPDUHandler_OnHeader_def IAPDUHandler_ProcessHeader_def fallible_def IAPDUHandler_Record_def)
  show "derived h = Some s \<Longrightarrow>
     (case handle_events process evs s of
        None \<Rightarrow> derived (fold (IAPDUHandler_OnHeader (fallible process)) evs h) = None
      | Some (iin, s') \<Rightarrow> derived (fold (IAPDUHandler_OnHeader (fallible process)) evs h) = Some s' \<and>
          errors (fold (IAPDUHandler_OnHeader (fallible process)) evs h) = IINField_or (errors h) iin)"
  proof (induction evs arbitrary: h s)
    case (Cons e evs)
    define h' where "h' = IAPDUHandler_OnHeader (fallible process) e h"
    define r where "r = (case process e s of None \<Rightarrow> Some (IINField_of_bit IIN_FUNC_NOT_SUPPORTED, s) | Some r \<Rightarrow> r)"
    show ?case
    proof (cases r)
      case None
      then have "derived h' = None"
        using Cons.prems by (auto simp: h'_def r_def IAPDUHandler_OnHeader_def IAPDUHandler_ProcessHeader_def fallible_def
            IAPDUHandler_Record_def split: option.splits)
      then show ?thesis
        using failed None by (simp flip: h'_def r_def)
    next
      case (Some x)
      obtain iin s' where x: "x = (iin, s')"
        by fastforce
      have h': "derived h' = Some s'" "errors h' = IINField_or (errors h) iin"
        using Cons.prems Some x by (auto simp: h'_def r_def IAPDUHandler_OnHeader_def IAPDUHandler_ProcessHeader_def fallible_def
            IAPDUHandler_Record_def ProcessUnsupportedHeader_def Let_def split: option.splits)
      show ?thesis
        using Cons.IH [OF h'(1)] Some x h'(2)
        by (cases "handle_events process evs s'") (auto simp: IINField_or_assoc simp flip: h'_def r_def)
    qed
  qed simp
qed

lemma parse_request_events:
  "parse_request ec process A b s = do {
     (r, evs) \<leftarrow> APDUParser_Parse ec A b;
     (iin, s) \<leftarrow> handle_events process evs s;
     Some (r, iin, s) }"
proof (cases "APDUParser_Parse ec A b")
  case (Some x)
  obtain r evs where x: "x = (r, evs)"
    by fastforce
  have "derived (IAPDUHandler_init (Some s)) = Some s" "errors (IAPDUHandler_init (Some s)) = IINField_Empty"
    by (simp_all add: IAPDUHandler_init_def)
  then show ?thesis
    using fold_fallible(2) [of "IAPDUHandler_init (Some s)" s process evs] Some x
    by (cases "handle_events process evs s") (auto simp: parse_request_def Parse_with_handler_def)
qed (simp add: parse_request_def Parse_with_handler_def)

text \<open>A handler that keeps \<open>P\<close> at every header returns with \<open>P\<close>.\<close>

lemma handle_events_ok:
  assumes "P s" and "\<And>e s. e \<in> set evs \<Longrightarrow> P s \<Longrightarrow> (case process e s of None \<Rightarrow> True | Some r \<Rightarrow> succeeds r (\<lambda>(_, s'). P s'))"
  shows "succeeds (handle_events process evs s) (\<lambda>(_, s'). P s')"
  using assms
proof (induction evs arbitrary: s)
  case (Cons e evs)
  have step: "succeeds (case process e s of None \<Rightarrow> Some (IINField_of_bit IIN_FUNC_NOT_SUPPORTED, s) | Some r \<Rightarrow> r) (\<lambda>(_, s'). P s')"
    using Cons.prems(1) Cons.prems(2) [of e s] by (simp split: option.splits)
  have rest: "succeeds (handle_events process evs s') (\<lambda>(_, s'). P s')" if "P s'" for s'
    using that Cons.prems(2) by (intro Cons.IH) simp_all
  show ?case
    by (auto intro!: succeeds_bind [OF step] succeeds_bind [OF rest])
qed simp

lemma Parse_total: obtains r evs where "APDUParser_Parse ec A b = Some (r, evs)"
  by (rule Parse_spec [of ec A b]) (use that in auto)

lemma parse_request_ok:
  assumes "P s" and "\<And>e s. P s \<Longrightarrow> (case process e s of None \<Rightarrow> True | Some r \<Rightarrow> succeeds r (\<lambda>(_, s'). P s'))"
  shows "succeeds (parse_request ec process A b s) (\<lambda>(_, _, s'). P s')"
proof -
  obtain r evs where "APDUParser_Parse ec A b = Some (r, evs)"
    by (rule Parse_total)
  with handle_events_ok [of P s evs process, OF assms] show ?thesis
    by (auto simp: parse_request_events elim: succeedsE)
qed

lemma accepted_Parse:
  assumes "accepted ec A 0 hs evs"
  shows "APDUParser_Parse ec A (concat hs) = Some (PR_OK, evs)"
  using accepted_front [OF assms, of "[]"]
  by (simp add: APDUParser_Parse_def ParseSinglePass_def ParseSinglePass_loop.simps map_prod_def)

end
