(* ===== verification/Commands.thy ===== *)
theory Commands
  imports RequestParsing
begin

text \<open>
  Control commands at the outstation: \<open>gen/CommandStatus\<close>, the command types and their
  conversion from and to groups 12 and 41, \<open>outstation/CommandActionAdapter\<close>,
  \<open>ConstantCommandAction.h\<close> and \<open>outstation/CommandResponseHandler\<close>. The application
  (\<open>ICommandHandler\<close>) is a record of functions on its state.
\<close>

section \<open>Command status and operate type\<close>

datatype CommandStatus =
    CS_SUCCESS | CS_TIMEOUT | CS_NO_SELECT | CS_FORMAT_ERROR | CS_NOT_SUPPORTED | CS_ALREADY_ACTIVE
  | CS_HARDWARE_ERROR | CS_LOCAL | CS_TOO_MANY_OPS | CS_NOT_AUTHORIZED | CS_AUTOMATION_INHIBIT
  | CS_PROCESSING_LIMITED | CS_OUT_OF_RANGE | CS_DOWNSTREAM_LOCAL | CS_ALREADY_COMPLETE | CS_BLOCKED
  | CS_CANCELLED | CS_BLOCKED_OTHER_MASTER | CS_DOWNSTREAM_FAIL | CS_NON_PARTICIPATING | CS_UNDEFINED

primrec CommandStatusToType :: "CommandStatus \<Rightarrow> u8" where
  "CommandStatusToType CS_SUCCESS = 0"
| "CommandStatusToType CS_TIMEOUT = 1"
| "CommandStatusToType CS_NO_SELECT = 2"
| "CommandStatusToType CS_FORMAT_ERROR = 3"
| "CommandStatusToType CS_NOT_SUPPORTED = 4"
| "CommandStatusToType CS_ALREADY_ACTIVE = 5"
| "CommandStatusToType CS_HARDWARE_ERROR = 6"
| "CommandStatusToType CS_LOCAL = 7"
| "CommandStatusToType CS_TOO_MANY_OPS = 8"
| "CommandStatusToType CS_NOT_AUTHORIZED = 9"
| "CommandStatusToType CS_AUTOMATION_INHIBIT = 10"
| "CommandStatusToType CS_PROCESSING_LIMITED = 11"
| "CommandStatusToType CS_OUT_OF_RANGE = 12"
| "CommandStatusToType CS_DOWNSTREAM_LOCAL = 13"
| "CommandStatusToType CS_ALREADY_COMPLETE = 14"
| "CommandStatusToType CS_BLOCKED = 15"
| "CommandStatusToType CS_CANCELLED = 16"
| "CommandStatusToType CS_BLOCKED_OTHER_MASTER = 17"
| "CommandStatusToType CS_DOWNSTREAM_FAIL = 18"
| "CommandStatusToType CS_NON_PARTICIPATING = 126"
| "CommandStatusToType CS_UNDEFINED = 127"

definition CommandStatusFromType :: "u8 \<Rightarrow> CommandStatus" where
  "CommandStatusFromType arg =
     (if arg = 0 then CS_SUCCESS
      else if arg = 1 then CS_TIMEOUT
      else if arg = 2 then CS_NO_SELECT
      else if arg = 3 then CS_FORMAT_ERROR
      else if arg = 4 then CS_NOT_SUPPORTED
      else if arg = 5 then CS_ALREADY_ACTIVE
      else if arg = 6 then CS_HARDWARE_ERROR
      else if arg = 7 then CS_LOCAL
      else if arg = 8 then CS_TOO_MANY_OPS
      else if arg = 9 then CS_NOT_AUTHORIZED
      else if arg = 10 then CS_AUTOMATION_INHIBIT
      else if arg = 11 then CS_PROCESSING_LIMITED
      else if arg = 12 then CS_OUT_OF_RANGE
      else if arg = 13 then CS_DOWNSTREAM_LOCAL
      else if arg = 14 then CS_ALREADY_COMPLETE
      else if arg = 15 then CS_BLOCKED
      else if arg = 16 then CS_CANCELLED
      else if arg = 17 then CS_BLOCKED_OTHER_MASTER
      else if arg = 18 then CS_DOWNSTREAM_FAIL
      else if arg = 126 then CS_NON_PARTICIPATING
      else CS_UNDEFINED)"

lemma CommandStatus_roundtrip: "CommandStatusFromType (CommandStatusToType s) = s"
  by (cases s) (simp_all add: CommandStatusFromType_def)

datatype OperateType = DirectOperate | SelectBeforeOperate | DirectOperateNoAck


section \<open>Commands\<close>

text \<open>
  The function code of a \<open>ControlRelayOutputBlock\<close> is computed from its raw code. A signed value
  has the bits of the unsigned one, a floating-point value its bytes.
\<close>

datatype Command =
    ControlRelayOutputBlock u8 u8 u32 u32 CommandStatus
  | AnalogOutputInt16 u16 CommandStatus
  | AnalogOutputInt32 u32 CommandStatus
  | AnalogOutputFloat32 "u8 list" CommandStatus
  | AnalogOutputDouble64 "u8 list" CommandStatus

primrec command_status :: "Command \<Rightarrow> CommandStatus" where
  "command_status (ControlRelayOutputBlock rawCode count onTime offTime status) = status"
| "command_status (AnalogOutputInt16 value status) = status"
| "command_status (AnalogOutputInt32 value status) = status"
| "command_status (AnalogOutputFloat32 value status) = status"
| "command_status (AnalogOutputDouble64 value status) = status"

primrec set_command_status :: "CommandStatus \<Rightarrow> Command \<Rightarrow> Command" where
  "set_command_status s (ControlRelayOutputBlock rawCode count onTime offTime status) = ControlRelayOutputBlock rawCode count onTime offTime s"
| "set_command_status s (AnalogOutputInt16 value status) = AnalogOutputInt16 value s"
| "set_command_status s (AnalogOutputInt32 value status) = AnalogOutputInt32 value s"
| "set_command_status s (AnalogOutputFloat32 value status) = AnalogOutputFloat32 value s"
| "set_command_status s (AnalogOutputDouble64 value status) = AnalogOutputDouble64 value s"

text \<open>The object a command is written as, and the fields of that object.\<close>

primrec command_object :: "Command \<Rightarrow> u8 \<times> u8" where
  "command_object (ControlRelayOutputBlock rawCode count onTime offTime status) = (12, 1)"
| "command_object (AnalogOutputInt16 value status) = (41, 2)"
| "command_object (AnalogOutputInt32 value status) = (41, 1)"
| "command_object (AnalogOutputFloat32 value status) = (41, 3)"
| "command_object (AnalogOutputDouble64 value status) = (41, 4)"

primrec command_fields :: "Command \<Rightarrow> FieldValue list" where
  "command_fields (ControlRelayOutputBlock rawCode count onTime offTime status) =
     [FV_u8 rawCode, FV_u8 count, FV_u32 onTime, FV_u32 offTime, FV_u8 (CommandStatusToType status)]"
| "command_fields (AnalogOutputInt16 value status) = [FV_i16 value, FV_u8 (CommandStatusToType status)]"
| "command_fields (AnalogOutputInt32 value status) = [FV_i32 value, FV_u8 (CommandStatusToType status)]"
| "command_fields (AnalogOutputFloat32 value status) = [FV_float value, FV_u8 (CommandStatusToType status)]"
| "command_fields (AnalogOutputDouble64 value status) = [FV_double value, FV_u8 (CommandStatusToType status)]"

text \<open>The factories applied to the fields of an object.\<close>

definition u8_field :: "FieldValue \<Rightarrow> u8 option" where
  "u8_field v = (case v of FV_u8 a \<Rightarrow> Some a | _ \<Rightarrow> None)"

definition u32_field :: "FieldValue \<Rightarrow> u32 option" where
  "u32_field v = (case v of FV_u32 a \<Rightarrow> Some a | _ \<Rightarrow> None)"

definition analog_of_field :: "FieldValue \<Rightarrow> CommandStatus \<Rightarrow> Command option" where
  "analog_of_field v status =
     (case v of
        FV_i16 a \<Rightarrow> Some (AnalogOutputInt16 a status)
      | FV_i32 a \<Rightarrow> Some (AnalogOutputInt32 a status)
      | FV_float a \<Rightarrow> Some (AnalogOutputFloat32 a status)
      | FV_double a \<Rightarrow> Some (AnalogOutputDouble64 a status)
      | _ \<Rightarrow> None)"

definition command_of_fields :: "FieldValue list \<Rightarrow> Command option" where
  "command_of_fields fs =
     (case fs of
        [code, count, onTime, offTime, status] \<Rightarrow> do {
          code \<leftarrow> u8_field code;
          count \<leftarrow> u8_field count;
          onTime \<leftarrow> u32_field onTime;
          offTime \<leftarrow> u32_field offTime;
          status \<leftarrow> u8_field status;
          Some (ControlRelayOutputBlock code count onTime offTime (CommandStatusFromType status)) }
      | [v, status] \<Rightarrow> do {
          status \<leftarrow> u8_field status;
          analog_of_field v (CommandStatusFromType status) }
      | _ \<Rightarrow> None)"

text \<open>The default constructors: what a failed read leaves.\<close>

definition default_command :: "u8 \<times> u8 \<Rightarrow> Command" where
  "default_command obj =
     (if obj = (41, 1) then AnalogOutputInt32 0 CS_SUCCESS
      else if obj = (41, 2) then AnalogOutputInt16 0 CS_SUCCESS
      else if obj = (41, 3) then AnalogOutputFloat32 [0, 0, 0, 0] CS_SUCCESS
      else if obj = (41, 4) then AnalogOutputDouble64 [0, 0, 0, 0, 0, 0, 0, 0] CS_SUCCESS
      else ControlRelayOutputBlock 0x03 1 100 100 CS_SUCCESS)"

definition command_of :: "u8 \<times> u8 \<Rightarrow> ObjectValue \<Rightarrow> Command" where
  "command_of obj v =
     (case v of
        Fields (Some fs) \<Rightarrow> (case command_of_fields fs of Some c \<Rightarrow> c | None \<Rightarrow> default_command obj)
      | _ \<Rightarrow> default_command obj)"

text \<open>\<open>Group12Var1::Inst()\<close>, \<open>Group41Var1::Inst()\<close> and so on.\<close>

definition command_serializer :: "u8 \<times> u8 \<Rightarrow> Command DNP3Serializer" where
  "command_serializer obj = Descriptor_Inst (fst obj) (snd obj) command_fields"


section \<open>Actions\<close>

record 'u ICommandHandler =
  ch_Start :: "'u \<Rightarrow> 'u"
  ch_End :: "'u \<Rightarrow> 'u"
  ch_Select :: "Command \<Rightarrow> u16 \<Rightarrow> 'u \<Rightarrow> CommandStatus \<times> 'u"
  ch_Operate :: "Command \<Rightarrow> u16 \<Rightarrow> OperateType \<Rightarrow> 'u \<Rightarrow> CommandStatus \<times> 'u"

type_synonym 'a ICommandAction = "Command \<Rightarrow> u16 \<Rightarrow> 'a \<Rightarrow> CommandStatus \<times> 'a"

text \<open>The state of the adapter: whether the transaction is started, and that of the application.\<close>

definition CheckStart :: "'u ICommandHandler \<Rightarrow> bool \<times> 'u \<Rightarrow> bool \<times> 'u" where
  "CheckStart handler s = (if \<not> fst s then (True, ch_Start handler (snd s)) else s)"

definition ActionT :: "'u ICommandHandler \<Rightarrow> bool \<Rightarrow> OperateType \<Rightarrow> (bool \<times> 'u) ICommandAction" where
  "ActionT handler isSelect opType command index s =
     (let (started, u) = CheckStart handler s;
          (status, u) = (if isSelect then ch_Select handler command index u else ch_Operate handler command index opType u)
      in (status, started, u))"

definition CommandActionAdapter_finish :: "'u ICommandHandler \<Rightarrow> bool \<times> 'u \<Rightarrow> 'u" where
  "CommandActionAdapter_finish handler s = (if fst s then ch_End handler (snd s) else snd s)"

definition ConstantCommandAction :: "CommandStatus \<Rightarrow> 'a ICommandAction" where
  "ConstantCommandAction status command index s = (status, s)"


section \<open>The command response handler\<close>

record 'a CommandResponseHandler =
  crh_action :: 'a
  crh_numRequests :: u32
  crh_numSuccess :: u32
  crh_maxCommands :: u8
  crh_pWriter :: "HeaderWriter option"

definition CommandResponseHandler_of :: "u8 \<Rightarrow> 'a \<Rightarrow> HeaderWriter option \<Rightarrow> 'a CommandResponseHandler" where
  "CommandResponseHandler_of maxCommands action pWriter =
     \<lparr>crh_action = action, crh_numRequests = 0, crh_numSuccess = 0, crh_maxCommands = maxCommands, crh_pWriter = pWriter\<rparr>"

definition AllCommandsSuccessful :: "'a CommandResponseHandler \<Rightarrow> bool" where
  "AllCommandsSuccessful h \<longleftrightarrow> crh_numRequests h = crh_numSuccess h"

definition command_objects :: "GroupVariation list" where
  "command_objects = [gv 12 1, gv 41 1, gv 41 2, gv 41 3, gv 41 4]"

definition CommandResponseHandler_IsAllowed :: white_list where
  "CommandResponseHandler_IsAllowed headerCount g qc \<longleftrightarrow>
     (qc = QC_UINT8_CNT_UINT8_INDEX \<or> qc = QC_UINT16_CNT_UINT16_INDEX) \<and> g \<in> set command_objects"

definition ProcessCommand :: "'a ICommandAction \<Rightarrow> Command \<Rightarrow> u16 \<Rightarrow> 'a CommandResponseHandler \<Rightarrow> CommandStatus \<times> 'a CommandResponseHandler" where
  "ProcessCommand Action command index h =
     (if crh_numRequests h < ucast (crh_maxCommands h)
      then (let h = h\<lparr>crh_numRequests := crh_numRequests h + 1\<rparr>;
                (status, a) = Action command index (crh_action h)
            in (status, h\<lparr>crh_action := a\<rparr>))
      else (CS_TOO_MANY_OPS, h))"

text \<open>The loop of \<open>RespondToHeaderWithIterator\<close> over the commands of a header.\<close>

fun RespondToHeaderWithIterator ::
    "'a ICommandAction \<Rightarrow> (u16 \<times> Command) list \<Rightarrow> Command PrefixedWriteIterator option \<Rightarrow> IINField \<Rightarrow> 'a CommandResponseHandler \<Rightarrow>
     (IINField \<times> Command PrefixedWriteIterator option \<times> 'a CommandResponseHandler) option" where
  "RespondToHeaderWithIterator Action [] pIterator ret h = Some (ret, pIterator, h)"
| "RespondToHeaderWithIterator Action ((index, command) # values) pIterator ret h = do {
     let (status, h) = ProcessCommand Action command index h;
     let response = set_command_status status command;
     let h = (if status = CS_SUCCESS then h\<lparr>crh_numSuccess := crh_numSuccess h + 1\<rparr> else h);
     let ret = (if status = CS_NOT_SUPPORTED then IINField_SetBit IIN_PARAM_ERROR ret else ret);
     (pIterator, pWriter) \<leftarrow> (case (pIterator, crh_pWriter h) of
         (Some iter, Some hw) \<Rightarrow> do { (_, iter, hw) \<leftarrow> Prefixed_Write response index iter hw; Some (Some iter, Some hw) }
       | _ \<Rightarrow> Some (pIterator, crh_pWriter h));
     RespondToHeaderWithIterator Action values pIterator ret (h\<lparr>crh_pWriter := pWriter\<rparr>) }"

definition RespondToHeader ::
    "IndexType \<Rightarrow> QualifierCode \<Rightarrow> Command DNP3Serializer \<Rightarrow> 'a ICommandAction \<Rightarrow> (u16 \<times> Command) list \<Rightarrow> 'a CommandResponseHandler \<Rightarrow>
     (IINField \<times> 'a CommandResponseHandler) option" where
  "RespondToHeader it qualifier ser Action values h =
     (case crh_pWriter h of
        Some hw \<Rightarrow> do {
          (iter, hw) \<leftarrow> IterateOverCountWithPrefix it qualifier ser hw;
          (ret, pIterator, h) \<leftarrow> RespondToHeaderWithIterator Action values (Some iter) IINField_Empty (h\<lparr>crh_pWriter := Some hw\<rparr>);
          case (pIterator, crh_pWriter h) of
            (Some iter, Some hw) \<Rightarrow> do { hw \<leftarrow> Prefixed_finish iter hw; Some (ret, h\<lparr>crh_pWriter := Some hw\<rparr>) }
          | _ \<Rightarrow> None }
      | None \<Rightarrow> do {
          (ret, _, h) \<leftarrow> RespondToHeaderWithIterator Action values None IINField_Empty h;
          Some (ret, h) })"

definition ProcessAny ::
    "u8 \<times> u8 \<Rightarrow> 'a ICommandAction \<Rightarrow> HeaderRecord \<Rightarrow> (u16 \<times> Command) list \<Rightarrow> 'a CommandResponseHandler \<Rightarrow>
     (IINField \<times> 'a CommandResponseHandler) option" where
  "ProcessAny obj Action record0 values h =
     (if GetQualifierCode record0 = QC_UINT8_CNT_UINT8_INDEX
      then RespondToHeader IT_UInt8 QC_UINT8_CNT_UINT8_INDEX (command_serializer obj) Action values h
      else RespondToHeader IT_UInt16 QC_UINT16_CNT_UINT16_INDEX (command_serializer obj) Action values h)"

text \<open>
  The overloads of \<open>ProcessHeader\<close> that the class overrides are those for the commands with
  index prefixes; which one is called depends on the object.
\<close>

definition command_overloads :: "(GroupVariation \<times> u8 \<times> u8) list" where
  "command_overloads = [(gv 12 1, 12, 1), (gv 41 1, 41, 1), (gv 41 2, 41, 2), (gv 41 3, 41, 3), (gv 41 4, 41, 4)]"

definition CommandResponseHandler_ProcessHeader ::
    "'a ICommandAction \<Rightarrow> apdu_event \<Rightarrow> 'a CommandResponseHandler \<Rightarrow> (IINField \<times> 'a CommandResponseHandler) option option" where
  "CommandResponseHandler_ProcessHeader Action e h =
     (case e of
        OnPrefixOf record0 count values \<Rightarrow>
          (case map_of command_overloads (gvr_enumeration record0) of
             Some obj \<Rightarrow> Some (ProcessAny obj Action record0 (map (apsnd (command_of obj)) values) h)
           | None \<Rightarrow> None)
      | _ \<Rightarrow> None)"



section \<open>What a command request does\<close>

lemma CommandStatus_of_set [simp]: "command_status (set_command_status s c) = s"
  and command_object_set [simp]: "command_object (set_command_status s c) = command_object c"
  by (cases c; simp)+

text \<open>The fields of a command give the command back.\<close>

lemma command_of_fields_roundtrip: "command_of obj (Fields (Some (command_fields c))) = c"
  by (cases c) (simp_all add: command_of_def command_of_fields_def u8_field_def u32_field_def analog_of_field_def CommandStatus_roundtrip)

text \<open>
  The answers to a list of commands: the first \<open>room\<close> commands are given to the action in
  order, each once; the others are refused without reaching it.
\<close>

fun command_answers :: "'a ICommandAction \<Rightarrow> nat \<Rightarrow> (u16 \<times> Command) list \<Rightarrow> 'a \<Rightarrow> CommandStatus list \<times> 'a" where
  "command_answers Action room [] a = ([], a)"
| "command_answers Action 0 (_ # values) a = (let (sts, a) = command_answers Action 0 values a in (CS_TOO_MANY_OPS # sts, a))"
| "command_answers Action (Suc room) ((index, command) # values) a =
     (let (status, a) = Action command index a; (sts, a) = command_answers Action room values a in (status # sts, a))"

definition command_room :: "'a CommandResponseHandler \<Rightarrow> nat" where
  "command_room h = unat (crh_maxCommands h) - unat (crh_numRequests h)"

lemma command_answers_full [simp]: "command_answers Action 0 values a = (replicate (length values) CS_TOO_MANY_OPS, a)"
  by (induction "values") simp_all

lemma length_command_answers [simp]: "length (fst (command_answers Action room values a)) = length values"
proof (induction "values" arbitrary: room a)
  case (Cons v vs)
  then show ?case
    by (cases room; cases v) (simp_all add: split_beta)
qed simp

definition command_responses :: "CommandStatus list \<Rightarrow> (u16 \<times> Command) list \<Rightarrow> (Command \<times> u16) list" where
  "command_responses sts values = map (\<lambda>(s, index, c). (set_command_status s c, index)) (zip sts values)"


lemma command_responses_simps [simp]:
  "command_responses [] [] = []"
  "command_responses (s # sts) ((index, c) # values) = (set_command_status s c, index) # command_responses sts values"
  by (simp_all add: command_responses_def)

text \<open>A writer that is full stays full.\<close>

lemma Prefixed_Writes_full:
  assumes "Prefixed_Write v index iter hw = Some (False, iter', hw')"
  shows "iter' = iter \<and> hw' = hw \<and> Prefixed_Writes vs iter hw = Some (iter, hw)"
  using assms by (cases vs) (auto simp: Prefixed_Write_def bind_eq_Some_conv split: if_splits)

lemma Prefixed_Writes_Cons:
  "Prefixed_Writes ((v, index) # vs) iter hw =
     do { (_, iter, hw) \<leftarrow> Prefixed_Write v index iter hw; Prefixed_Writes vs iter hw }"
proof (cases "Prefixed_Write v index iter hw")
  case (Some r)
  obtain ok iter' hw' where "r = (ok, iter', hw')"
    by (cases r) auto
  with Some show ?thesis
    using Prefixed_Writes_full [of v index iter hw iter' hw' vs] by (cases ok) auto
qed simp

definition answers_iin :: "CommandStatus list \<Rightarrow> IINField \<Rightarrow> IINField" where
  "answers_iin sts ret = (if CS_NOT_SUPPORTED \<in> set sts then IINField_SetBit IIN_PARAM_ERROR ret else ret)"

definition answered :: "CommandStatus list \<Rightarrow> 'a \<Rightarrow> 'a CommandResponseHandler \<Rightarrow> 'a CommandResponseHandler" where
  "answered sts a h =
     h\<lparr>crh_action := a, crh_numRequests := crh_numRequests h + of_nat (min (command_room h) (length sts)),
       crh_numSuccess := crh_numSuccess h + of_nat (count_list sts CS_SUCCESS)\<rparr>"

lemma SetBit_idem [simp]: "IINField_SetBit b (IINField_SetBit b f) = IINField_SetBit b f"
  by (auto simp: IINField_SetBit_def IINField_Set_def or.assoc split: IINMask.split)

lemma unat_ucast_u8: "unat (ucast (c :: u8) :: u32) = unat c"
  by (simp add: unsigned_ucast_eq take_bit_nat_eq_self_iff order_less_trans [OF unsigned_less])

lemma ProcessCommand_cases:
  obtains "command_room h = 0" "ProcessCommand Action c index h = (CS_TOO_MANY_OPS, h)"
  | room s a where "command_room h = Suc room" "Action c index (crh_action h) = (s, a)"
    "ProcessCommand Action c index h = (s, h\<lparr>crh_action := a, crh_numRequests := crh_numRequests h + 1\<rparr>)"
    "command_room (h\<lparr>crh_action := a, crh_numRequests := crh_numRequests h + 1\<rparr>) = room"
proof (cases "crh_numRequests h < ucast (crh_maxCommands h)")
  case True
  obtain s a where a: "Action c index (crh_action h) = (s, a)"
    by fastforce
  have less: "unat (crh_numRequests h) < unat (crh_maxCommands h)"
    using True by (simp add: word_less_nat_alt unat_ucast_u8)
  have "unat (crh_maxCommands h) < 256"
    using unsigned_less [of "crh_maxCommands h"] by simp
  then have "unat (crh_numRequests h + 1) = unat (crh_numRequests h) + 1"
    using less by (intro unat_Suc_u32 order.strict_trans2 [of _ 257 "2 ^ 32"]) (linarith, simp)
  then show ?thesis
    using that(2) [of "command_room h - 1" s a] True a less by (simp add: ProcessCommand_def command_room_def Let_def)
next
  case False
  then show ?thesis
    using that(1) by (simp add: ProcessCommand_def command_room_def word_less_nat_alt unat_ucast_u8)
qed


lemma RespondToHeaderWithIterator_step:
  assumes "ProcessCommand Action c index h = (status, h')" and "crh_pWriter h' = Some hw"
  shows "RespondToHeaderWithIterator Action ((index, c) # values) (Some iter) ret h =
    do { (_, iter, hw) \<leftarrow> Prefixed_Write (set_command_status status c) index iter hw;
         RespondToHeaderWithIterator Action values (Some iter) (answers_iin [status] ret)
           (h'\<lparr>crh_numSuccess := crh_numSuccess h' + (if status = CS_SUCCESS then 1 else 0), crh_pWriter := Some hw\<rparr>) }"
  using assms by (cases "Prefixed_Write (set_command_status status c) index iter hw") (auto simp: answers_iin_def)

lemma command_room_update [simp]:
  "command_room (h\<lparr>crh_numSuccess := n\<rparr>) = command_room h" "command_room (h\<lparr>crh_pWriter := w\<rparr>) = command_room h"
  by (simp_all add: command_room_def)

lemma ProcessCommand_answers:
  obtains status h' where "ProcessCommand Action c index h = (status, h')" "crh_pWriter h' = crh_pWriter h"
    "\<And>vs. command_answers Action (command_room h) ((index, c) # vs) (crh_action h) =
       apfst ((#) status) (command_answers Action (command_room h') vs (crh_action h'))"
    "\<And>sts a. answered (status # sts) a h = answered sts a (h'\<lparr>crh_numSuccess := crh_numSuccess h' + (if status = CS_SUCCESS then 1 else 0)\<rparr>)"
proof (rule ProcessCommand_cases [where Action = Action and c = c and index = index and h = h])
  assume *: "command_room h = 0" "ProcessCommand Action c index h = (CS_TOO_MANY_OPS, h)"
  show ?thesis
    by (rule that [OF *(2)]) (use *(1) in \<open>simp_all add: answered_def\<close>)
next
  fix room s a
  assume *: "command_room h = Suc room" "Action c index (crh_action h) = (s, a)"
    "ProcessCommand Action c index h = (s, h\<lparr>crh_action := a, crh_numRequests := crh_numRequests h + 1\<rparr>)"
    "command_room (h\<lparr>crh_action := a, crh_numRequests := crh_numRequests h + 1\<rparr>) = room"
  show ?thesis
    by (rule that [OF *(3)]) (use *(1,2,4) in \<open>simp_all add: answered_def split_beta apfst_def map_prod_def\<close>)
qed

text \<open>The loop answers the commands in order and writes each command back with its answer.\<close>

lemma RespondToHeaderWithIterator_writes:
  assumes "crh_pWriter h = Some hw"
  shows "RespondToHeaderWithIterator Action values (Some iter) ret h =
    (let (sts, a) = command_answers Action (command_room h) values (crh_action h) in
       map_option (\<lambda>(iter, hw). (answers_iin sts ret, Some iter, (answered sts a h)\<lparr>crh_pWriter := Some hw\<rparr>))
         (Prefixed_Writes (command_responses sts values) iter hw))"
  using assms
proof (induction "values" arbitrary: iter ret h hw)
  case Nil
  then show ?case
    by (cases h) (simp add: answers_iin_def answered_def)
next
  case (Cons v vs)
  obtain index c where v: "v = (index, c)"
    by fastforce
  obtain status h' where h': "ProcessCommand Action c index h = (status, h')" "crh_pWriter h' = Some hw"
      "command_answers Action (command_room h) ((index, c) # vs) (crh_action h) =
         apfst ((#) status) (command_answers Action (command_room h') vs (crh_action h'))"
      "\<And>sts a. answered (status # sts) a h = answered sts a (h'\<lparr>crh_numSuccess := crh_numSuccess h' + (if status = CS_SUCCESS then 1 else 0)\<rparr>)"
    using Cons.prems by (auto intro: ProcessCommand_answers [of Action c index h])
  obtain sts a where sts: "command_answers Action (command_room h') vs (crh_action h') = (sts, a)"
    by fastforce
  show ?case
  proof (cases "Prefixed_Write (set_command_status status c) index iter hw")
    case None
    then show ?thesis
      by (simp add: v h'(3) sts RespondToHeaderWithIterator_step [OF h'(1,2)] Prefixed_Writes_Cons
          del: RespondToHeaderWithIterator.simps Prefixed_Writes.simps)
  next
    case (Some r)
    obtain ok iter' hw' where r: "r = (ok, iter', hw')"
      by (cases r) auto
    define h2 where "h2 = h'\<lparr>crh_numSuccess := crh_numSuccess h' + (if status = CS_SUCCESS then 1 else 0), crh_pWriter := Some hw'\<rparr>"
    have "answers_iin sts (answers_iin [status] ret) = answers_iin (status # sts) ret"
      by (simp add: answers_iin_def)
    moreover have "(answered (status # sts) a h)\<lparr>crh_pWriter := x\<rparr> = (answered sts a h2)\<lparr>crh_pWriter := x\<rparr>" for x
      by (simp add: h'(4) h2_def) (simp add: answered_def)
    moreover have "RespondToHeaderWithIterator Action vs (Some iter') (answers_iin [status] ret) h2 =
      (let (sts, a) = command_answers Action (command_room h2) vs (crh_action h2) in
       map_option (\<lambda>(iter, hw). (answers_iin sts (answers_iin [status] ret), Some iter, (answered sts a h2)\<lparr>crh_pWriter := Some hw\<rparr>))
         (Prefixed_Writes (command_responses sts vs) iter' hw'))"
      by (rule Cons.IH) (simp add: h2_def)
    moreover have "command_room h2 = command_room h'" "crh_action h2 = crh_action h'"
      by (simp_all add: h2_def)
    ultimately show ?thesis
      using Some by (simp add: v r h'(3) sts RespondToHeaderWithIterator_step [OF h'(1,2)] Prefixed_Writes_Cons
          del: RespondToHeaderWithIterator.simps Prefixed_Writes.simps flip: h2_def)
  qed
qed


lemma RespondToHeader_writes:
  assumes "crh_pWriter h = Some hw"
  shows "RespondToHeader it qualifier ser Action values h =
    (let (sts, a) = command_answers Action (command_room h) values (crh_action h) in
       map_option (\<lambda>hw. (answers_iin sts IINField_Empty, (answered sts a h)\<lparr>crh_pWriter := Some hw\<rparr>))
         (WritePrefixed it qualifier ser (command_responses sts values) hw))"
proof -
  obtain sts a where sts: "command_answers Action (command_room h) values (crh_action h) = (sts, a)"
    by fastforce
  have loop: "RespondToHeaderWithIterator Action values (Some iter) IINField_Empty (h\<lparr>crh_pWriter := Some hw'\<rparr>) =
      map_option (\<lambda>(iter, hw). (answers_iin sts IINField_Empty, Some iter, (answered sts a h)\<lparr>crh_pWriter := Some hw\<rparr>))
         (Prefixed_Writes (command_responses sts values) iter hw')" for iter hw'
    by (subst RespondToHeaderWithIterator_writes) (simp_all add: sts answered_def)
  show ?thesis
  proof (cases "IterateOverCountWithPrefix it qualifier ser hw")
    case (Some r)
    obtain iter hw1 where r: "r = (iter, hw1)"
      by fastforce
    show ?thesis
    proof (cases "Prefixed_Writes (command_responses sts values) iter hw1")
      case (Some r2)
      obtain iter2 hw2 where r2: "r2 = (iter2, hw2)"
        by fastforce
      show ?thesis
        using \<open>IterateOverCountWithPrefix it qualifier ser hw = Some r\<close> Some
        by (cases "Prefixed_finish iter2 hw2") (simp_all add: r r2 RespondToHeader_def WritePrefixed_def assms sts loop)
    qed (use Some in \<open>simp add: r RespondToHeader_def WritePrefixed_def assms sts loop\<close>)
  qed (simp add: RespondToHeader_def WritePrefixed_def assms sts)
qed

text \<open>Without a writer the commands are answered all the same.\<close>

lemma RespondToHeaderWithIterator_silent:
  assumes "crh_pWriter h = None"
  shows "RespondToHeaderWithIterator Action values None ret h =
    (let (sts, a) = command_answers Action (command_room h) values (crh_action h) in
       Some (answers_iin sts ret, None, answered sts a h))"
  using assms
proof (induction "values" arbitrary: ret h)
  case Nil
  then show ?case
    by (cases h) (simp add: answers_iin_def answered_def)
next
  case (Cons v vs)
  obtain index c where v: "v = (index, c)"
    by fastforce
  obtain status h' where h': "ProcessCommand Action c index h = (status, h')" "crh_pWriter h' = None"
      "command_answers Action (command_room h) ((index, c) # vs) (crh_action h) =
         apfst ((#) status) (command_answers Action (command_room h') vs (crh_action h'))"
      "\<And>sts a. answered (status # sts) a h = answered sts a (h'\<lparr>crh_numSuccess := crh_numSuccess h' + (if status = CS_SUCCESS then 1 else 0)\<rparr>)"
    using Cons.prems by (auto intro: ProcessCommand_answers [of Action c index h])
  obtain sts a where sts: "command_answers Action (command_room h') vs (crh_action h') = (sts, a)"
    by fastforce
  define h2 where "h2 = h'\<lparr>crh_numSuccess := crh_numSuccess h' + (if status = CS_SUCCESS then 1 else 0)\<rparr>"
  have h2: "crh_pWriter h2 = None" "command_room h2 = command_room h'" "crh_action h2 = crh_action h'"
    by (simp_all add: h2_def h'(2))
  have "RespondToHeaderWithIterator Action ((index, c) # vs) None ret h =
      RespondToHeaderWithIterator Action vs None (answers_iin [status] ret) h2"
    using h'(1,2) by (cases h2) (auto simp: answers_iin_def h2_def)
  moreover have "answers_iin sts (answers_iin [status] ret) = answers_iin (status # sts) ret"
    by (simp add: answers_iin_def)
  ultimately show ?case
    by (simp add: v h'(3,4) sts Cons.IH [OF h2(1)] h2(2,3) del: RespondToHeaderWithIterator.simps flip: h2_def)
qed



section \<open>The bounds of a response to commands\<close>

lemma Prefixed_Writes_ok: "Prefixed_ok base iter hw \<Longrightarrow> succeeds (Prefixed_Writes vs iter hw) (\<lambda>(iter, hw). Prefixed_ok base iter hw)"
proof (induction vs arbitrary: iter hw)
  case (Cons v vs)
  obtain x index where v: "v = (x, index)"
    by fastforce
  obtain ok iter' hw' where "Prefixed_Write x index iter hw = Some (ok, iter', hw')" "Prefixed_ok base iter' hw'"
    using Prefixed_Write_ok [OF Cons.prems, of x index] by (auto elim!: succeedsE)
  then show ?case
    using Cons.IH [of iter' hw'] by (simp add: v)
qed simp

lemma WritePrefixed_grown:
  assumes "writer_wf hw" and "ser_total ser"
  shows "succeeds (WritePrefixed it qc ser vs hw) (grown hw)"
proof -
  have "grown hw hw"
    using assms(1) by simp
  then obtain iter hw1 where 1: "IterateOverCountWithPrefix it qc ser hw = Some (iter, hw1)" "Prefixed_ok hw iter hw1"
    using IterateOverCountWithPrefix_ok [OF _ assms(2), of hw hw it qc] by (auto elim!: succeedsE)
  obtain iter2 hw2 where 2: "Prefixed_Writes vs iter hw1 = Some (iter2, hw2)" "Prefixed_ok hw iter2 hw2"
    using Prefixed_Writes_ok [OF 1(2), of vs] by (auto elim!: succeedsE)
  show ?thesis
    using Prefixed_finish_ok [OF 2(2)] by (simp add: WritePrefixed_def 1(1) 2(1))
qed

text \<open>The writer of a handler has grown from the one it was given, if it was given one.\<close>

definition crh_ok :: "HeaderWriter option \<Rightarrow> 'a CommandResponseHandler \<Rightarrow> bool" where
  "crh_ok base h \<longleftrightarrow> (case base of None \<Rightarrow> crh_pWriter h = None | Some hw \<Rightarrow> \<exists>hw'. crh_pWriter h = Some hw' \<and> grown hw hw')"

lemma RespondToHeader_ok:
  assumes "crh_ok base h" and "ser_total ser"
  shows "succeeds (RespondToHeader it qualifier ser Action values h) (\<lambda>(_, h'). crh_ok base h')"
proof (cases "crh_pWriter h")
  case None
  then show ?thesis
    using assms(1)
    by (auto simp: RespondToHeader_def RespondToHeaderWithIterator_silent crh_ok_def split_beta answered_def Let_def split: option.splits)
next
  case (Some hw')
  then obtain hw where base: "base = Some hw" "grown hw hw'"
    using assms(1) by (auto simp: crh_ok_def split: option.splits)
  show ?thesis
    by (auto simp: RespondToHeader_writes [OF Some] Let_def split_beta crh_ok_def base(1)
        intro!: succeeds_mono [OF WritePrefixed_grown [OF grown_wf(2) [OF base(2)] assms(2)]] intro: grown_trans [OF base(2)])
qed

lemma CommandResponseHandler_ok:
  assumes "crh_ok base h"
  shows "case CommandResponseHandler_ProcessHeader Action e h of None \<Rightarrow> True | Some r \<Rightarrow> succeeds r (\<lambda>(_, h'). crh_ok base h')"
  using RespondToHeader_ok [OF assms, of "command_serializer obj" for obj]
  by (auto simp: CommandResponseHandler_ProcessHeader_def ProcessAny_def command_serializer_def Descriptor_total split: apdu_event.split option.split)


section \<open>The response to a command request\<close>

text \<open>A header of commands: index type, object, and the commands with their indices.\<close>

type_synonym command_header = "IndexType \<times> (u8 \<times> u8) \<times> (Command \<times> u16) list"

primrec command_value_ok :: "Command \<Rightarrow> bool" where
  "command_value_ok (ControlRelayOutputBlock rawCode count onTime offTime status) \<longleftrightarrow> True"
| "command_value_ok (AnalogOutputInt16 value status) \<longleftrightarrow> True"
| "command_value_ok (AnalogOutputInt32 value status) \<longleftrightarrow> True"
| "command_value_ok (AnalogOutputFloat32 value status) \<longleftrightarrow> length value = 4"
| "command_value_ok (AnalogOutputDouble64 value status) \<longleftrightarrow> length value = 8"

fun command_header_ok :: "command_header \<Rightarrow> bool" where
  "command_header_ok (it, obj, cs) \<longleftrightarrow> cs \<noteq> [] \<and> length cs \<le> IT_Max it \<and>
     (\<forall>(c, index) \<in> set cs. command_object c = obj \<and> command_value_ok c \<and> unat index \<le> IT_Max it)"

fun command_header_bytes :: "command_header \<Rightarrow> u8 list" where
  "command_header_bytes (it, obj, cs) = prefixed_bytes it (fst obj) (snd obj) command_fields cs"

definition command_request_bytes :: "command_header list \<Rightarrow> u8 list" where
  "command_request_bytes hs = concat (map command_header_bytes hs)"

text \<open>The answers to all headers, with the headers that report them.\<close>

fun answer_headers :: "'a ICommandAction \<Rightarrow> nat \<Rightarrow> command_header list \<Rightarrow> 'a \<Rightarrow> command_header list \<times> CommandStatus list \<times> 'a" where
  "answer_headers Action room [] a = ([], [], a)"
| "answer_headers Action room ((it, obj, cs) # hs) a =
     (let values = map prod.swap cs;
          (sts, a) = command_answers Action room values a;
          (hs, stss, a) = answer_headers Action (room - length cs) hs a
      in ((it, obj, command_responses sts values) # hs, sts @ stss, a))"


lemma command_objects_known:
  assumes "command_object c = obj"
  shows "gv (unat (fst obj)) (unat (snd obj)) \<in> set count_index_objects"
    and "gv (unat (fst obj)) (unat (snd obj)) \<in> set command_objects"
    and "map_of command_overloads (gv (unat (fst obj)) (unat (snd obj))) = Some obj"
proof -
  have "obj \<in> {(12, 1), (41, 1), (41, 2), (41, 3), (41, 4)}"
    using assms by (cases c) auto
  then show "gv (unat (fst obj)) (unat (snd obj)) \<in> set count_index_objects"
    and "gv (unat (fst obj)) (unat (snd obj)) \<in> set command_objects"
    and "map_of command_overloads (gv (unat (fst obj)) (unat (snd obj))) = Some obj"
    unfolding count_index_objects_def command_objects_def command_overloads_def gv_def by auto
qed

lemma command_descriptors:
  "map_of descriptors (gv 12 1) = Some (11, [F_u8, F_u8, F_u32, F_u32, F_u8])" "map_of descriptors (gv 41 1) = Some (5, [F_i32, F_u8])"
  "map_of descriptors (gv 41 2) = Some (3, [F_i16, F_u8])" "map_of descriptors (gv 41 3) = Some (5, [F_float, F_u8])"
  "map_of descriptors (gv 41 4) = Some (9, [F_double, F_u8])"
  by (simp_all add: descriptors_def Group1_objects_def Group2_objects_def Group3_objects_def Group4_objects_def Group10_objects_def
    Group11_objects_def Group12_objects_def Group13_objects_def Group20_objects_def Group21_objects_def Group22_objects_def
    Group23_objects_def Group30_objects_def Group32_objects_def Group40_objects_def Group41_objects_def gv_def)

lemma command_typed:
  assumes "command_object c = obj" and "command_value_ok c"
  shows "typed (Descriptor_fields (gv (unat (fst obj)) (unat (snd obj)))) (command_fields c)"
  using assms by (cases c) (auto simp: Descriptor_fields_def command_descriptors [unfolded One_nat_def] command_descriptors has_type_def)


lemma command_header_premises:
  assumes "command_header_ok (it, obj, cs)"
  shows "gv (unat (fst obj)) (unat (snd obj)) \<in> set count_index_objects"
    and "\<forall>(c, index) \<in> set cs. typed (Descriptor_fields (gv (unat (fst obj)) (unat (snd obj)))) (command_fields c) \<and> unat index \<le> IT_Max it"
    and "cs \<noteq> []" and "length cs \<le> IT_Max it"
    and "gv (unat (fst obj)) (unat (snd obj)) \<in> set command_objects"
    and "map_of command_overloads (gv (unat (fst obj)) (unat (snd obj))) = Some obj"
proof -
  obtain c where "command_object c = obj"
    using assms by (cases cs) auto
  from command_objects_known [OF this] show "gv (unat (fst obj)) (unat (snd obj)) \<in> set count_index_objects"
    "gv (unat (fst obj)) (unat (snd obj)) \<in> set command_objects"
    "map_of command_overloads (gv (unat (fst obj)) (unat (snd obj))) = Some obj" .
  show "\<forall>(c, index) \<in> set cs. typed (Descriptor_fields (gv (unat (fst obj)) (unat (snd obj)))) (command_fields c) \<and> unat index \<le> IT_Max it"
    using assms command_typed by fastforce
qed (use assms in simp_all)

lemma command_header_written:
  assumes "command_header_ok (it, obj, cs)"
  shows "length (command_header_bytes (it, obj, cs)) =
      3 + IT_SIZE it + length cs * (IT_SIZE it + Descriptor_Size (gv (unat (fst obj)) (unat (snd obj))))"
    and "length (command_header_bytes (it, obj, cs)) \<le> length view \<Longrightarrow>
      WritePrefixed it (IT_prefix_qualifier it) (command_serializer obj) cs (hwm pre view post m) =
        Some (hwm (pre @ command_header_bytes (it, obj, cs)) (drop (length (command_header_bytes (it, obj, cs))) view) post m)"
    and "APDUParser_ParseHeader True None True count (command_header_bytes (it, obj, cs)) =
      Some (PR_OK, [], [OnPrefixOf (written_header (fst obj) (snd obj) (IT_prefix_qualifier it) count) (of_nat (length cs))
        (map (\<lambda>(c, index). (index, Fields (Some (command_fields c)))) cs)])"
  using WritePrefixed_bytes [OF command_header_premises(1) [OF assms] command_header_premises(2) [OF assms] command_header_premises(3) [OF assms] command_header_premises(4) [OF assms]]
    WritePrefixed_bytes(3) [OF command_header_premises(1) [OF assms] command_header_premises(2) [OF assms] command_header_premises(3) [OF assms] command_header_premises(4) [OF assms], of count "[]"]
  by (simp_all add: command_serializer_def)

lemma command_header_parsed:
  assumes "command_header_ok (it, obj, cs)"
  shows "APDUParser_ParseHeader True (Some CommandResponseHandler_IsAllowed) True count (command_header_bytes (it, obj, cs)) =
    Some (PR_OK, [], [OnPrefixOf (written_header (fst obj) (snd obj) (IT_prefix_qualifier it) count) (of_nat (length cs))
      (map (\<lambda>(c, index). (index, Fields (Some (command_fields c)))) cs)])"
proof (rule ParseHeader_white_list_complete)
  show "APDUParser_ParseHeader True None True count (command_header_bytes (it, obj, cs)) =
    Some (PR_OK, [], [OnPrefixOf (written_header (fst obj) (snd obj) (IT_prefix_qualifier it) count) (of_nat (length cs))
      (map (\<lambda>(c, index). (index, Fields (Some (command_fields c)))) cs)])"
    by (rule command_header_written(3) [OF assms])
  have "ParseHeader_record count (command_header_bytes (it, obj, cs)) = written_header (fst obj) (snd obj) (IT_prefix_qualifier it) count"
    by (simp add: prefixed_bytes_def ParseHeader_record_def ParseObjectHeader_bytes written_header_def)
  moreover have "gv (unat (fst obj)) (unat (snd obj)) \<in> set GroupVariation_values"
    using command_header_premises(1) [OF assms] known_objects by auto
  ultimately show "header_allowed CommandResponseHandler_IsAllowed (ParseHeader_record count (command_header_bytes (it, obj, cs)))"
    using command_header_premises(5) [OF assms]
    by (simp add: header_allowed_def written_header_sel written_header_qualifier CommandResponseHandler_IsAllowed_def
        QualifierCode_roundtrip) (simp add: IT_prefix_qualifier_def split: IndexType.split)
qed

definition command_events :: "nat \<Rightarrow> command_header list \<Rightarrow> apdu_event list" where
  "command_events count hs =
     map (\<lambda>(i, it, obj, cs). OnPrefixOf (written_header (fst obj) (snd obj) (IT_prefix_qualifier it) i) (of_nat (length cs))
       (map (\<lambda>(c, index). (index, Fields (Some (command_fields c)))) cs)) (enumerate count hs)"

lemma command_request_accepted:
  "\<forall>h \<in> set hs. command_header_ok h \<Longrightarrow>
     accepted True CommandResponseHandler_IsAllowed count (map command_header_bytes hs) (command_events count hs)"
proof (induction hs arbitrary: count)
  case (Cons h hs)
  obtain it obj cs where h: "h = (it, obj, cs)"
    by (cases h) auto
  show ?case
    using Cons.prems command_header_parsed [of it obj cs count] Cons.IH [of "Suc count"]
    by (simp add: h command_events_def)
qed (simp add: command_events_def)

text \<open>The answers are written under the headers they were received under.\<close>

lemma command_responses_header_ok:
  assumes "command_header_ok (it, obj, cs)" and "length sts = length cs"
  shows "command_header_ok (it, obj, command_responses sts (map prod.swap cs))"
proof -
  have "command_value_ok (set_command_status s c) = command_value_ok c" for s c
    by (cases c) simp_all
  then have "\<forall>(c, index) \<in> set (command_responses sts (map prod.swap cs)). command_object c = obj \<and> command_value_ok c \<and> unat index \<le> IT_Max it"
    using assms(1) by (force simp: command_responses_def dest!: set_zip_rightD)
  then show ?thesis
    using assms by (auto simp: command_responses_def)
qed

lemma ProcessAny_writes:
  assumes "command_header_ok (it, obj, cs)" and "crh_pWriter h = Some (hwm pre view post m)"
    and "length (command_header_bytes (it, obj, cs)) \<le> length view"
    and "command_answers Action (command_room h) (map prod.swap cs) (crh_action h) = (sts, a)"
  shows "ProcessAny obj Action (written_header (fst obj) (snd obj) (IT_prefix_qualifier it) i) (map prod.swap cs) h =
    Some (answers_iin sts IINField_Empty, (answered sts a h)\<lparr>crh_pWriter :=
      Some (hwm (pre @ command_header_bytes (it, obj, command_responses sts (map prod.swap cs)))
        (drop (length (command_header_bytes (it, obj, cs))) view) post m)\<rparr>)"
proof -
  define rs where "rs = command_responses sts (map prod.swap cs)"
  have len: "length sts = length cs"
    using length_command_answers [of Action "command_room h" "map prod.swap cs" "crh_action h"] assms(4) by simp
  have ok: "command_header_ok (it, obj, rs)"
    unfolding rs_def by (rule command_responses_header_ok [OF assms(1) len])
  have eq_len: "length (command_header_bytes (it, obj, rs)) = length (command_header_bytes (it, obj, cs))"
    using command_header_written(1) [OF ok] command_header_written(1) [OF assms(1)] len by (simp add: rs_def command_responses_def)
  have "WritePrefixed it (IT_prefix_qualifier it) (command_serializer obj) rs (hwm pre view post m) =
      Some (hwm (pre @ command_header_bytes (it, obj, rs)) (drop (length (command_header_bytes (it, obj, rs))) view) post m)"
    using command_header_written(2) [OF ok, of view pre post m] eq_len assms(3) by simp
  then have "RespondToHeader it (IT_prefix_qualifier it) (command_serializer obj) Action (map prod.swap cs) h =
    Some (answers_iin sts IINField_Empty, (answered sts a h)\<lparr>crh_pWriter :=
      Some (hwm (pre @ command_header_bytes (it, obj, rs)) (drop (length (command_header_bytes (it, obj, cs))) view) post m)\<rparr>)"
    using RespondToHeader_writes [OF assms(2), of it "IT_prefix_qualifier it" "command_serializer obj" Action "map prod.swap cs"] assms(4)
    by (simp add: eq_len del: command_header_bytes.simps flip: rs_def)
  then show ?thesis
    unfolding ProcessAny_def written_header_qualifier QualifierCode_roundtrip rs_def
    by (cases it) (simp_all add: IT_prefix_qualifier_def del: command_header_bytes.simps)
qed


lemma command_room_answered: "command_room (answered sts a h) = command_room h - length sts"
proof (cases "unat (crh_numRequests h) < unat (crh_maxCommands h)")
  case True
  define n where "n = min (command_room h) (length sts)"
  have "unat (crh_numRequests h) + n \<le> unat (crh_maxCommands h)"
    using True by (simp add: n_def command_room_def)
  also have "\<dots> < 256"
    using unsigned_less [of "crh_maxCommands h"] by simp
  finally have n: "unat (crh_numRequests h) + n < 256" .
  then have "unat (crh_numRequests h + of_nat n) = unat (crh_numRequests h) + n"
    by (simp add: unat_word_ariths unat_of_nat)
  then show ?thesis
    by (simp add: answered_def command_room_def flip: n_def) (simp add: n_def command_room_def)
next
  case False
  then have "command_room h = 0"
    by (simp add: command_room_def)
  then show ?thesis
    by (simp add: answered_def) (simp add: command_room_def)
qed

lemma answered_append: "answered sts' a' (answered sts a h) = answered (sts @ sts') a' h"
proof -
  have "min (command_room h) (length sts) + min (command_room h - length sts) (length sts') = min (command_room h) (length sts + length sts')"
    by linarith
  then have "of_nat (min (command_room h) (length sts)) + of_nat (min (command_room h - length sts) (length sts')) =
      (of_nat (min (command_room h) (length sts + length sts')) :: u32)"
    by (metis of_nat_add)
  then show ?thesis
    using command_room_answered [of sts a h] by (simp add: answered_def add.assoc)
qed

lemma answers_iin_append: "IINField_or (answers_iin sts IINField_Empty) (answers_iin sts' IINField_Empty) = answers_iin (sts @ sts') IINField_Empty"
proof -
  have "IINField_or x x = x" for x
    by (simp add: IINField_or_def)
  then show ?thesis
    by (auto simp: answers_iin_def)
qed

lemma handle_command_events:
  assumes "\<forall>h \<in> set hs. command_header_ok h" and "crh_pWriter h = Some (hwm pre view post m)"
    and "length (command_request_bytes hs) \<le> length view"
    and "answer_headers Action (command_room h) hs (crh_action h) = (hs', sts, a')"
  shows "handle_events (CommandResponseHandler_ProcessHeader Action) (command_events count hs) h =
      Some (answers_iin sts IINField_Empty, (answered sts a' h)\<lparr>crh_pWriter :=
        Some (hwm (pre @ command_request_bytes hs') (drop (length (command_request_bytes hs)) view) post m)\<rparr>) \<and>
    length (command_request_bytes hs') = length (command_request_bytes hs)"
  using assms
proof (induction hs arbitrary: h pre view hs' sts a' count)
  case Nil
  then show ?case
    by (cases h) (simp add: command_events_def command_request_bytes_def answers_iin_def answered_def)
next
  case (Cons hd hs)
  obtain it obj cs where hd: "hd = (it, obj, cs)"
    by (cases hd) auto
  obtain sts1 a1 where a1: "command_answers Action (command_room h) (map prod.swap cs) (crh_action h) = (sts1, a1)"
    by fastforce
  have len: "length sts1 = length cs"
    using length_command_answers [of Action "command_room h" "map prod.swap cs" "crh_action h"] a1 by simp
  obtain hs2 sts2 where rest: "answer_headers Action (command_room h - length cs) hs a1 = (hs2, sts2, a')"
      "hs' = (it, obj, command_responses sts1 (map prod.swap cs)) # hs2" "sts = sts1 @ sts2"
    using Cons.prems(4) by (auto simp: hd a1 split: prod.splits)
  define b where "b = command_header_bytes (it, obj, cs)"
  define b' where "b' = command_header_bytes (it, obj, command_responses sts1 (map prod.swap cs))"
  have ok: "command_header_ok (it, obj, cs)"
    using Cons.prems(1) by (simp add: hd)
  have fits: "length b \<le> length view" "length (command_request_bytes hs) \<le> length (drop (length b) view)"
    using Cons.prems(3) by (simp_all add: command_request_bytes_def hd b_def del: command_header_bytes.simps)
  have eq_len: "length b' = length b"
    using command_header_written(1) [OF command_responses_header_ok [OF ok len]] command_header_written(1) [OF ok] len
    by (simp add: b_def b'_def command_responses_def del: command_header_bytes.simps)
  define h1 where "h1 = (answered sts1 a1 h)\<lparr>crh_pWriter := Some (hwm (pre @ b') (drop (length b) view) post m)\<rparr>"
  have h1: "ProcessAny obj Action (written_header (fst obj) (snd obj) (IT_prefix_qualifier it) count) (map prod.swap cs) h =
      Some (answers_iin sts1 IINField_Empty, h1)"
    using ProcessAny_writes [OF ok Cons.prems(2) fits(1) [unfolded b_def] a1, of count] by (simp only: h1_def b_def b'_def)
  have "map (apsnd (command_of obj)) (map (\<lambda>(c, index). (index, Fields (Some (command_fields c)))) cs) = map prod.swap cs"
    by (simp add: comp_def split_beta command_of_fields_roundtrip prod.swap_def)
  moreover have "gv (unat (fst obj)) (unat (snd obj)) \<in> set GroupVariation_values"
    using command_header_premises(1) [OF ok] known_objects by auto
  ultimately have step: "CommandResponseHandler_ProcessHeader Action
      (OnPrefixOf (written_header (fst obj) (snd obj) (IT_prefix_qualifier it) count) (of_nat (length cs))
        (map (\<lambda>(c, index). (index, Fields (Some (command_fields c)))) cs)) h = Some (Some (answers_iin sts1 IINField_Empty, h1))"
    using h1 command_header_premises(6) [OF ok] by (simp add: CommandResponseHandler_ProcessHeader_def written_header_sel del: map_map)
  have "command_room h1 = command_room h - length cs" "crh_action h1 = a1"
    using command_room_answered [of sts1 a1 h] len by (simp_all add: h1_def) (simp add: answered_def)
  then have "handle_events (CommandResponseHandler_ProcessHeader Action) (command_events (Suc count) hs) h1 =
      Some (answers_iin sts2 IINField_Empty, (answered sts2 a' h1)\<lparr>crh_pWriter :=
        Some (hwm ((pre @ b') @ command_request_bytes hs2) (drop (length (command_request_bytes hs)) (drop (length b) view)) post m)\<rparr>) \<and>
    length (command_request_bytes hs2) = length (command_request_bytes hs)"
    using Cons.prems(1) rest(1) fits(2) by (intro Cons.IH) (simp_all add: h1_def)
  moreover have "(answered sts2 a' h1)\<lparr>crh_pWriter := w\<rparr> = (answered sts a' h)\<lparr>crh_pWriter := w\<rparr>" for w
    using answered_append [of sts2 a' sts1 a1 h] by (simp add: h1_def rest(3)) (simp add: answered_def)
  ultimately show ?case
    using eq_len by (simp add: command_events_def command_request_bytes_def hd step answers_iin_append rest(2,3) add.commute
        flip: b_def b'_def del: command_header_bytes.simps)
qed


lemma command_answers_refused: "\<forall>s \<in> set (drop room (fst (command_answers Action room values a))). s = CS_TOO_MANY_OPS"
proof (induction "values" arbitrary: room a)
  case (Cons v vs)
  then show ?case
    by (cases room; cases v) (auto simp: split_beta)
qed simp

lemma answer_headers_refused: "\<forall>s \<in> set (drop room (fst (snd (answer_headers Action room hs a)))). s = CS_TOO_MANY_OPS"
proof (induction hs arbitrary: room a)
  case (Cons h hs)
  obtain it obj cs where h: "h = (it, obj, cs)"
    by (cases h) auto
  obtain sts1 a1 where a1: "command_answers Action room (map prod.swap cs) a = (sts1, a1)"
    by fastforce
  have "length sts1 = length cs"
    using length_command_answers [of Action room "map prod.swap cs" a] a1 by simp
  then show ?case
    using command_answers_refused [of room Action "map prod.swap cs" a] Cons.IH [of "room - length cs" a1] a1
    by (auto simp: h split_beta)
qed simp

lemma all_successful:
  assumes "\<forall>s \<in> set (drop room sts). s = CS_TOO_MANY_OPS"
  shows "min room (length sts) = count_list sts CS_SUCCESS \<longleftrightarrow> (\<forall>s \<in> set (take room sts). s = CS_SUCCESS)"
    and "count_list sts CS_SUCCESS \<le> room"
proof -
  have "count_list (drop room sts) CS_SUCCESS = 0"
    using assms by (auto simp: count_list_0_iff)
  then have "count_list sts CS_SUCCESS = count_list (take room sts) CS_SUCCESS"
    by (metis add.right_neutral append_take_drop_id count_list_append)
  then show "count_list sts CS_SUCCESS \<le> room"
    using count_le_length [of "take room sts" CS_SUCCESS] by simp
  have "length ss = count_list ss x \<longleftrightarrow> (\<forall>s \<in> set ss. s = x)" for ss and x :: CommandStatus
  proof (induction ss)
    case (Cons s ss)
    then show ?case
      using count_le_length [of ss x] by auto
  qed simp
  then show "min room (length sts) = count_list sts CS_SUCCESS \<longleftrightarrow> (\<forall>s \<in> set (take room sts). s = CS_SUCCESS)"
    using \<open>count_list sts CS_SUCCESS = count_list (take room sts) CS_SUCCESS\<close> by (metis length_take min.commute)
qed

text \<open>C16: The response to a well-formed command request is the request with the status of every command replaced by
  its answer: the commands are given to the action once each and in order, as many as \<open>maxCommands\<close> allows, the
  others are refused with TOO_MANY_OPS, and the objects written are as long as those received. A status NOT_SUPPORTED
  is reported as PARAM_ERROR. Whether all commands count as successful depends on the ones that were not refused only.\<close>

theorem command_request_echoed:
  assumes "\<forall>h \<in> set hs. command_header_ok h" and "length (command_request_bytes hs) \<le> length view"
    and "answer_headers Action (unat maxCommands) hs a = (hs', sts, a')"
  shows "\<exists>h'. parse_request True (CommandResponseHandler_ProcessHeader Action) CommandResponseHandler_IsAllowed
        (command_request_bytes hs) (CommandResponseHandler_of maxCommands a (Some (hwm pre view post m))) =
      Some (PR_OK, if CS_NOT_SUPPORTED \<in> set sts then IINField_of_bit IIN_PARAM_ERROR else IINField_Empty, h') \<and>
    crh_action h' = a' \<and>
    crh_pWriter h' = Some (hwm (pre @ command_request_bytes hs') (drop (length (command_request_bytes hs)) view) post m) \<and>
    length (command_request_bytes hs') = length (command_request_bytes hs) \<and>
    (AllCommandsSuccessful h' \<longleftrightarrow> (\<forall>s \<in> set (take (unat maxCommands) sts). s = CS_SUCCESS))"
proof -
  define h where "h = CommandResponseHandler_of maxCommands a (Some (hwm pre view post m))"
  define h' where "h' = (answered sts a' h)\<lparr>crh_pWriter :=
    Some (hwm (pre @ command_request_bytes hs') (drop (length (command_request_bytes hs)) view) post m)\<rparr>"
  have room: "command_room h = unat maxCommands" "crh_action h = a"
    by (simp_all add: h_def CommandResponseHandler_of_def command_room_def)
  have parsed: "APDUParser_Parse True CommandResponseHandler_IsAllowed (command_request_bytes hs) = Some (PR_OK, command_events 0 hs)"
    using accepted_Parse [OF command_request_accepted [OF assms(1)]] by (simp add: command_request_bytes_def)
  have "handle_events (CommandResponseHandler_ProcessHeader Action) (command_events 0 hs) h = Some (answers_iin sts IINField_Empty, h')"
    and len: "length (command_request_bytes hs') = length (command_request_bytes hs)"
    using handle_command_events [OF assms(1) _ assms(2), of h pre post m Action hs' sts a' 0] assms(3) room
    by (simp_all add: h'_def) (simp_all add: h_def CommandResponseHandler_of_def)
  moreover have "answers_iin sts IINField_Empty = (if CS_NOT_SUPPORTED \<in> set sts then IINField_of_bit IIN_PARAM_ERROR else IINField_Empty)"
    by (simp add: answers_iin_def IINField_of_bit_def)
  moreover have "AllCommandsSuccessful h' \<longleftrightarrow> (\<forall>s \<in> set (take (unat maxCommands) sts). s = CS_SUCCESS)"
  proof -
    have refused: "\<forall>s \<in> set (drop (unat maxCommands) sts). s = CS_TOO_MANY_OPS"
      using answer_headers_refused [of "unat maxCommands" Action hs a] assms(3) by simp
    have "k < 2 ^ 32" if "k \<le> unat maxCommands" for k
    proof -
      have "unat maxCommands < 2 ^ 8"
        using unsigned_less [of maxCommands] by (simp del: power_numeral One_nat_def)
      with that have "k < 2 ^ 8"
        by linarith
      also have "(2::nat) ^ 8 \<le> 2 ^ 32"
        by (rule power_increasing) simp_all
      finally show ?thesis .
    qed
    then have small: "min (unat maxCommands) (length sts) < 2 ^ 32" "count_list sts CS_SUCCESS < 2 ^ 32"
      using all_successful(2) [OF refused] by (blast intro: min.cobounded1)+
    have "AllCommandsSuccessful h' \<longleftrightarrow> (of_nat (min (unat maxCommands) (length sts)) :: u32) = of_nat (count_list sts CS_SUCCESS)"
      using room by (simp add: AllCommandsSuccessful_def h'_def) (simp add: answered_def h_def CommandResponseHandler_of_def)
    also have "\<dots> \<longleftrightarrow> min (unat maxCommands) (length sts) = count_list sts CS_SUCCESS"
      using small by (auto dest: arg_cong [where f = unat] simp: unat_of_nat_u32)
    finally show ?thesis
      using all_successful(1) [OF refused] by simp
  qed
  moreover have "crh_action h' = a'"
    by (simp add: h'_def) (simp add: answered_def)
  ultimately show ?thesis
    by (intro exI [of _ h']) (simp add: parse_request_events parsed h'_def flip: h_def)
qed

definition switch_on :: Command where
  "switch_on = ControlRelayOutputBlock 3 1 100 100 CS_SUCCESS"

theorem command_request_echoed_witness:
  "\<exists>h'. parse_request True (CommandResponseHandler_ProcessHeader (\<lambda>c i s. (CS_BLOCKED, s @ [(i, c)]))) CommandResponseHandler_IsAllowed
      (command_request_bytes [(IT_UInt8, (12, 1), [(switch_on, 7), (switch_on, 9)])])
      (CommandResponseHandler_of 1 [] (Some (hwm [] (replicate 30 0) [] None))) = Some (PR_OK, IINField_Empty, h') \<and>
    crh_action h' = [(7, switch_on)] \<and>
    crh_pWriter h' = Some (hwm (command_request_bytes [(IT_UInt8, (12, 1),
        [(set_command_status CS_BLOCKED switch_on, 7), (set_command_status CS_TOO_MANY_OPS switch_on, 9)])])
      (replicate 2 0) [] None) \<and>
    \<not> AllCommandsSuccessful h'"
  using command_request_echoed [of "[(IT_UInt8, (12, 1), [(switch_on, 7), (switch_on, 9)])]" "replicate 30 0"
      "\<lambda>c i s. (CS_BLOCKED, s @ [(i, c)])" 1 "[]"
      "[(IT_UInt8, (12, 1), [(set_command_status CS_BLOCKED switch_on, 7), (set_command_status CS_TOO_MANY_OPS switch_on, 9)])]"
      "[CS_BLOCKED, CS_TOO_MANY_OPS]" "[(7, switch_on)]" "[]" "[]" None]
  by (simp add: switch_on_def command_request_bytes_def prefixed_bytes_def IT_SIZE_def IT_Max_def fields_bytes_def field_bytes_def)

end
