(* ===== verification/RequestHandlers.thy ===== *)
theory RequestHandlers
  imports EventBounds Commands Timing
begin

text \<open>
  The handlers for the objects of a request (\<open>outstation/ReadHandler\<close>, \<open>WriteHandler\<close>,
  \<open>ClassBasedRequestHandler\<close>, \<open>AssignClassHandler\<close>), the interfaces they call
  (\<open>IStaticSelector.h\<close>, \<open>IClassAssigner.h\<close>, \<open>IResponseLoader.h\<close>,
  \<open>IOutstationApplication.h\<close>), \<open>TimeSyncState.h\<close>, \<open>ApplicationIIN\<close> and
  \<open>ResponseContext\<close>. An interface is a record of functions on the state behind it.
\<close>

section \<open>The application\<close>

record ApplicationIIN =
  aiin_needTime :: bool
  aiin_localControl :: bool
  aiin_deviceTrouble :: bool
  aiin_configCorrupt :: bool
  aiin_eventBufferOverflow :: bool

definition ToIIN :: "ApplicationIIN \<Rightarrow> IINField" where
  "ToIIN a =
     IINField_SetBitToValue IIN_EVENT_BUFFER_OVERFLOW (aiin_eventBufferOverflow a)
      (IINField_SetBitToValue IIN_DEVICE_TROUBLE (aiin_deviceTrouble a)
        (IINField_SetBitToValue IIN_CONFIG_CORRUPT (aiin_configCorrupt a)
          (IINField_SetBitToValue IIN_LOCAL_CONTROL (aiin_localControl a)
            (IINField_SetBitToValue IIN_NEED_TIME (aiin_needTime a) IINField_Empty))))"

datatype RestartMode = UNSUPPORTED | SUPPORTED_DELAY_FINE | SUPPORTED_DELAY_COARSE

datatype PointClass = Class0 | Class1 | Class2 | Class3

primrec PointClassToType :: "PointClass \<Rightarrow> u8" where
  "PointClassToType Class0 = 0x01"
| "PointClassToType Class1 = 0x02"
| "PointClassToType Class2 = 0x04"
| "PointClassToType Class3 = 0x08"

datatype AssignClassType =
    ACT_BinaryInput | ACT_DoubleBinaryInput | ACT_Counter | ACT_FrozenCounter | ACT_AnalogInput
  | ACT_BinaryOutputStatus | ACT_AnalogOutputStatus

record TimeAndInterval =
  tai_time :: i64
  tai_interval :: u32
  tai_units :: u8

text \<open>A timestamp is an unsigned 64 bit number; the callbacks that are not \<open>const\<close> may change the state.\<close>

record 'u IOutstationApplication =
  oa_SupportsWriteAbsoluteTime :: "'u \<Rightarrow> bool \<times> 'u"
  oa_WriteAbsoluteTime :: "i64 \<Rightarrow> 'u \<Rightarrow> bool \<times> 'u"
  oa_SupportsWriteTimeAndInterval :: "'u \<Rightarrow> bool \<times> 'u"
  oa_WriteTimeAndInterval :: "(u16 \<times> TimeAndInterval) list \<Rightarrow> 'u \<Rightarrow> bool \<times> 'u"
  oa_SupportsAssignClass :: "'u \<Rightarrow> bool \<times> 'u"
  oa_RecordClassAssignment :: "AssignClassType \<Rightarrow> PointClass \<Rightarrow> u16 \<Rightarrow> u16 \<Rightarrow> 'u \<Rightarrow> 'u"
  oa_GetApplicationIIN :: "'u \<Rightarrow> ApplicationIIN"
  oa_ColdRestartSupport :: "'u \<Rightarrow> RestartMode"
  oa_WarmRestartSupport :: "'u \<Rightarrow> RestartMode"
  oa_ColdRestart :: "'u \<Rightarrow> u16 \<times> 'u"
  oa_WarmRestart :: "'u \<Rightarrow> u16 \<times> 'u"


section \<open>The static database\<close>

record 'd IStaticDatabase =
  sd_SelectAll :: "GroupVariation \<Rightarrow> 'd \<Rightarrow> (IINField \<times> 'd) option"
  sd_SelectRange :: "GroupVariation \<Rightarrow> Range \<Rightarrow> 'd \<Rightarrow> (IINField \<times> 'd) option"
  sd_Unselect :: "'d \<Rightarrow> 'd option"
  sd_HasAnySelection :: "'d \<Rightarrow> bool"
  sd_Load :: "HeaderWriter \<Rightarrow> 'd \<Rightarrow> (bool \<times> HeaderWriter \<times> 'd) option"
  sd_AssignClassToAll :: "AssignClassType \<Rightarrow> PointClass \<Rightarrow> 'd \<Rightarrow> (Range \<times> 'd) option"
  sd_AssignClassToRange :: "AssignClassType \<Rightarrow> PointClass \<Rightarrow> Range \<Rightarrow> 'd \<Rightarrow> (Range \<times> 'd) option"


section \<open>Read requests\<close>

fun ReadHandler_ProcessHeader ::
    "'d IStaticDatabase \<Rightarrow> apdu_event \<Rightarrow> 'd \<times> 'v EventBuffer \<Rightarrow> (IINField \<times> 'd \<times> 'v EventBuffer) option option" where
  "ReadHandler_ProcessHeader sd (OnAllObjects header0) (db, eb) =
     Some (case gvr_type header0 of
        GVT_STATIC \<Rightarrow> do { (iin, db) \<leftarrow> sd_SelectAll sd (gvr_enumeration header0) db; Some (iin, db, eb) }
      | GVT_EVENT \<Rightarrow> do { (iin, eb) \<leftarrow> EventBuffer_SelectAll (gvr_enumeration header0) eb; Some (iin, db, eb) }
      | GVT_OTHER \<Rightarrow> Some (IINField_of_bit IIN_FUNC_NOT_SUPPORTED, db, eb))"
| "ReadHandler_ProcessHeader sd (OnRange header0 rng) (db, eb) =
     Some (do { (iin, db) \<leftarrow> sd_SelectRange sd (gvr_enumeration header0) rng db; Some (iin, db, eb) })"
| "ReadHandler_ProcessHeader sd (OnCount header0 count) (db, eb) =
     Some (do { (iin, eb) \<leftarrow> EventBuffer_SelectCount (gvr_enumeration header0) count eb; Some (iin, db, eb) })"
| "ReadHandler_ProcessHeader sd _ s = None"


section \<open>Responses in several fragments\<close>


text \<open>\<open>LoadResponse\<close> gives the control field, whose sequence number is 0.\<close>

definition AppControlField_init :: "bool \<Rightarrow> bool \<Rightarrow> bool \<Rightarrow> bool \<Rightarrow> AppControlField" where
  "AppControlField_init fir fin con uns = \<lparr>acf_FIR = fir, acf_FIN = fin, acf_CON = con, acf_UNS = uns, acf_SEQ = 0\<rparr>"

definition LoadResponse ::
    "'x conversions \<Rightarrow> 'd IStaticDatabase \<Rightarrow> u16 \<Rightarrow> HeaderWriter \<Rightarrow> 'd \<Rightarrow> 'x Measurement EventBuffer \<Rightarrow>
     (AppControlField \<times> u16 \<times> HeaderWriter \<times> 'd \<times> 'x Measurement EventBuffer) option" where
  "LoadResponse conv sd fragmentCount writer db eb = do {
     let fir = (fragmentCount = 0);
     let fragmentCount = fragmentCount + 1;
     let startingSize = HW_Remaining writer;
     (notFull, writer, eb) \<leftarrow> EventBuffer_Load conv writer eb;
     let someEventsWritten = (HW_Remaining writer < startingSize);
     if notFull
     then do {
       (fin, writer, db) \<leftarrow> sd_Load sd writer db;
       let con = (\<not> fin \<or> someEventsWritten);
       Some (AppControlField_init fir fin con False, fragmentCount, writer, db, eb) }
     else Some (AppControlField_init fir False True False, fragmentCount, writer, db, eb) }"

definition HasSelection :: "'d IStaticDatabase \<Rightarrow> 'd \<Rightarrow> 'v EventBuffer \<Rightarrow> bool" where
  "HasSelection sd db eb \<longleftrightarrow> sd_HasAnySelection sd db \<or> HasAnySelection eb"


section \<open>Write requests\<close>

record TimeSyncState =
  ts_valid :: bool
  ts_time :: MonotonicTimestamp
  ts_difference :: TimeDuration
  ts_expectedSeqNum :: u8

definition TimeSyncState_init :: TimeSyncState where
  "TimeSyncState_init = \<lparr>ts_valid = False, ts_time = 0, ts_difference = 0, ts_expectedSeqNum = 0\<rparr>"

definition AppSeqNum_Next :: "u8 \<Rightarrow> u8" where
  "AppSeqNum_Next = SequenceNum_Next 16"

definition TimeSyncState_RecordCurrentTime :: "u8 \<Rightarrow> MonotonicTimestamp \<Rightarrow> TimeSyncState \<Rightarrow> TimeSyncState" where
  "TimeSyncState_RecordCurrentTime seq now t = t\<lparr>ts_valid := True, ts_time := now, ts_expectedSeqNum := AppSeqNum_Next seq\<rparr>"

definition CalcTimeDifference :: "u8 \<Rightarrow> MonotonicTimestamp \<Rightarrow> TimeSyncState \<Rightarrow> bool \<times> TimeSyncState" where
  "CalcTimeDifference seq now t =
     (if \<not> ts_valid t then (False, t)
      else if ts_expectedSeqNum t \<noteq> seq then (False, t)
      else if now < ts_time t then (False, t)
      else (True, t\<lparr>ts_difference := now - ts_time t, ts_valid := False\<rparr>))"

text \<open>The state a write request works on, with the two flags of the handler.\<close>

record 'u WriteHandler =
  wh_app :: 'u
  wh_time :: TimeSyncState
  wh_IIN :: IINField
  wh_wroteTime :: bool
  wh_wroteIIN :: bool

definition WriteHandler_of :: "'u \<Rightarrow> TimeSyncState \<Rightarrow> IINField \<Rightarrow> 'u WriteHandler" where
  "WriteHandler_of u t iin = \<lparr>wh_app = u, wh_time = t, wh_IIN = iin, wh_wroteTime = False, wh_wroteIIN = False\<rparr>"

definition PARAM_ERROR :: IINField where
  "PARAM_ERROR = IINField_of_bit IIN_PARAM_ERROR"

definition FUNC_NOT_SUPPORTED :: IINField where
  "FUNC_NOT_SUPPORTED = IINField_of_bit IIN_FUNC_NOT_SUPPORTED"

definition Write_IIN :: "(u16 \<times> ObjectValue) list \<Rightarrow> 'u WriteHandler \<Rightarrow> IINField \<times> 'u WriteHandler" where
  "Write_IIN values h =
     (case values of
        [(index, v)] \<Rightarrow>
          if wh_wroteIIN h then (PARAM_ERROR, h)
          else if index \<noteq> 7 then (PARAM_ERROR, h)
          else if v = SingleBit True then (PARAM_ERROR, h)
          else (IINField_Empty, h\<lparr>wh_wroteIIN := True, wh_IIN := IINField_ClearBit IIN_DEVICE_RESTART (wh_IIN h)\<rparr>)
      | _ \<Rightarrow> (PARAM_ERROR, h))"

text \<open>The time of a value of group 50; a failed read leaves 0.\<close>

definition time_of :: "ObjectValue \<Rightarrow> i64" where
  "time_of v = (case v of Fields (Some (FV_time t # _)) \<Rightarrow> t | _ \<Rightarrow> 0)"

definition WriteTime :: "'u IOutstationApplication \<Rightarrow> i64 \<Rightarrow> 'u WriteHandler \<Rightarrow> IINField \<times> 'u WriteHandler" where
  "WriteTime app time h =
     (let h = h\<lparr>wh_wroteTime := True\<rparr>;
          (ok, u) = oa_WriteAbsoluteTime app time (wh_app h)
      in (if ok then IINField_Empty else PARAM_ERROR, h\<lparr>wh_app := u\<rparr>))"

definition Write_Group50Var1 :: "'u IOutstationApplication \<Rightarrow> ObjectValue list \<Rightarrow> 'u WriteHandler \<Rightarrow> IINField \<times> 'u WriteHandler" where
  "Write_Group50Var1 app values h =
     (if wh_wroteTime h then (PARAM_ERROR, h)
      else (let (supported, u) = oa_SupportsWriteAbsoluteTime app (wh_app h); h = h\<lparr>wh_app := u\<rparr>
            in if \<not> supported then (FUNC_NOT_SUPPORTED, h)
               else (case values of [v] \<Rightarrow> WriteTime app (time_of v) h | _ \<Rightarrow> (PARAM_ERROR, h))))"

definition Write_Group50Var3 ::
    "'u IOutstationApplication \<Rightarrow> u8 \<Rightarrow> MonotonicTimestamp \<Rightarrow> ObjectValue list \<Rightarrow> 'u WriteHandler \<Rightarrow> IINField \<times> 'u WriteHandler" where
  "Write_Group50Var3 app seq now values h =
     (if wh_wroteTime h then (PARAM_ERROR, h)
      else (let (supported, u) = oa_SupportsWriteAbsoluteTime app (wh_app h); h = h\<lparr>wh_app := u\<rparr>
            in if \<not> supported then (FUNC_NOT_SUPPORTED, h)
               else (case values of
                  [v] \<Rightarrow>
                    (let (ok, t) = CalcTimeDifference seq now (wh_time h); h = h\<lparr>wh_time := t\<rparr>
                     in if \<not> ok then (PARAM_ERROR, h)
                        else WriteTime app (time_of v + of_int (ts_difference t)) h)
                | _ \<Rightarrow> (PARAM_ERROR, h))))"

definition TimeAndInterval_of :: "ObjectValue \<Rightarrow> TimeAndInterval" where
  "TimeAndInterval_of v =
     (case v of
        Fields (Some [FV_time time, FV_u32 interval, FV_u8 units]) \<Rightarrow> \<lparr>tai_time = time, tai_interval = interval, tai_units = units\<rparr>
      | _ \<Rightarrow> \<lparr>tai_time = 0, tai_interval = 0, tai_units = 0\<rparr>)"

definition Write_TimeAndInterval ::
    "'u IOutstationApplication \<Rightarrow> (u16 \<times> ObjectValue) list \<Rightarrow> 'u WriteHandler \<Rightarrow> IINField \<times> 'u WriteHandler" where
  "Write_TimeAndInterval app values h =
     (let (supported, u) = oa_SupportsWriteTimeAndInterval app (wh_app h); h = h\<lparr>wh_app := u\<rparr>
      in if \<not> supported then (FUNC_NOT_SUPPORTED, h)
         else (let (ok, u) = oa_WriteTimeAndInterval app (map (apsnd TimeAndInterval_of) values) (wh_app h)
               in (if ok then IINField_Empty else PARAM_ERROR, h\<lparr>wh_app := u\<rparr>)))"

definition WriteHandler_ProcessHeader ::
    "'u IOutstationApplication \<Rightarrow> u8 \<Rightarrow> MonotonicTimestamp \<Rightarrow> apdu_event \<Rightarrow> 'u WriteHandler \<Rightarrow> (IINField \<times> 'u WriteHandler) option option" where
  "WriteHandler_ProcessHeader app seq now e h =
     (case e of
        OnRangeOf header0 rng values \<Rightarrow>
          if gvr_enumeration header0 = gv 80 1 then Some (Some (Write_IIN values h)) else None
      | OnCountOf header0 count values \<Rightarrow>
          if gvr_enumeration header0 = gv 50 1 then Some (Some (Write_Group50Var1 app values h))
          else if gvr_enumeration header0 = gv 50 3 then Some (Some (Write_Group50Var3 app seq now values h))
          else None
      | OnPrefixOf header0 count values \<Rightarrow>
          if gvr_enumeration header0 = gv 50 4 then Some (Some (Write_TimeAndInterval app values h)) else None
      | _ \<Rightarrow> None)"


section \<open>Requests that name classes\<close>

definition class_of_object :: "GroupVariation \<Rightarrow> PointClass option" where
  "class_of_object g =
     (if g = gv 60 2 then Some Class1 else if g = gv 60 3 then Some Class2 else if g = gv 60 4 then Some Class3 else None)"

definition ClassBasedRequestHandler_ProcessHeader :: "apdu_event \<Rightarrow> ClassField \<Rightarrow> (IINField \<times> ClassField) option option" where
  "ClassBasedRequestHandler_ProcessHeader e classField =
     (case e of
        OnAllObjects header0 \<Rightarrow>
          (case class_of_object (gvr_enumeration header0) of
             Some pc \<Rightarrow> Some (Some (IINField_Empty, ClassField_Set (PointClassToType pc) classField))
           | None \<Rightarrow> Some (Some (FUNC_NOT_SUPPORTED, classField)))
      | _ \<Rightarrow> None)"

text \<open>
  \<open>AssignClassHandler\<close>: \<open>classHeader\<close> is \<^const>\<open>None\<close> for -1. The calls to the application are posted
  to the executor: they are collected in \<open>ah_posted\<close>.
\<close>

record 'd AssignClassHandler =
  ah_classHeader :: "nat option"
  ah_clazz :: PointClass
  ah_database :: 'd
  ah_posted :: "(AssignClassType \<times> PointClass \<times> u16 \<times> u16) list"

definition AssignClassHandler_of :: "'d \<Rightarrow> 'd AssignClassHandler" where
  "AssignClassHandler_of db = \<lparr>ah_classHeader = None, ah_clazz = Class0, ah_database = db, ah_posted = []\<rparr>"

definition IsExpectingAssignment :: "nat \<Rightarrow> 'd AssignClassHandler \<Rightarrow> bool \<times> 'd AssignClassHandler" where
  "IsExpectingAssignment current h =
     (if current > 0 \<and> ah_classHeader h = Some (current - 1) then (True, h\<lparr>ah_classHeader := None\<rparr>) else (False, h))"

definition NotifyApplicationOfAssignment :: "AssignClassType \<Rightarrow> PointClass \<Rightarrow> Range \<Rightarrow> 'd AssignClassHandler \<Rightarrow> 'd AssignClassHandler" where
  "NotifyApplicationOfAssignment type clazz rng h =
     (if Range_IsValid rng then h\<lparr>ah_posted := ah_posted h @ [(type, clazz, range_start rng, range_stop rng)]\<rparr> else h)"

definition ProcessAssignAll :: "'d IStaticDatabase \<Rightarrow> AssignClassType \<Rightarrow> 'd AssignClassHandler \<Rightarrow> (IINField \<times> 'd AssignClassHandler) option" where
  "ProcessAssignAll sd type h = do {
     (full, db) \<leftarrow> sd_AssignClassToAll sd type (ah_clazz h) (ah_database h);
     let h = NotifyApplicationOfAssignment type (ah_clazz h) full (h\<lparr>ah_database := db\<rparr>);
     Some (if Range_IsValid full then IINField_Empty else PARAM_ERROR, h) }"

definition ProcessAssignRange :: "'d IStaticDatabase \<Rightarrow> AssignClassType \<Rightarrow> Range \<Rightarrow> 'd AssignClassHandler \<Rightarrow> (IINField \<times> 'd AssignClassHandler) option" where
  "ProcessAssignRange sd type rng h = do {
     (actual, db) \<leftarrow> sd_AssignClassToRange sd type (ah_clazz h) rng (ah_database h);
     let h = NotifyApplicationOfAssignment type (ah_clazz h) actual (h\<lparr>ah_database := db\<rparr>);
     Some (if Range_Equals actual rng then IINField_Empty else PARAM_ERROR, h) }"

definition RecordClass :: "nat \<Rightarrow> GroupVariation \<Rightarrow> 'd AssignClassHandler \<Rightarrow> IINField \<times> 'd AssignClassHandler" where
  "RecordClass current g h =
     (let h = h\<lparr>ah_classHeader := Some current\<rparr>
      in if g = gv 60 1 then (IINField_Empty, h\<lparr>ah_clazz := Class0\<rparr>)
         else if g = gv 60 2 then (IINField_Empty, h\<lparr>ah_clazz := Class1\<rparr>)
         else if g = gv 60 3 then (IINField_Empty, h\<lparr>ah_clazz := Class2\<rparr>)
         else if g = gv 60 4 then (IINField_Empty, h\<lparr>ah_clazz := Class3\<rparr>)
         else (PARAM_ERROR, h\<lparr>ah_classHeader := None\<rparr>))"

text \<open>The objects whose class can be assigned.\<close>

definition assign_objects :: "(GroupVariation \<times> AssignClassType) list" where
  "assign_objects =
     [(gv 1 0, ACT_BinaryInput), (gv 3 0, ACT_DoubleBinaryInput), (gv 10 0, ACT_BinaryOutputStatus), (gv 20 0, ACT_Counter),
      (gv 21 0, ACT_FrozenCounter), (gv 30 0, ACT_AnalogInput), (gv 40 0, ACT_AnalogOutputStatus)]"

definition AssignClassHandler_AllObjects :: "'d IStaticDatabase \<Rightarrow> HeaderRecord \<Rightarrow> 'd AssignClassHandler \<Rightarrow> (IINField \<times> 'd AssignClassHandler) option" where
  "AssignClassHandler_AllObjects sd header0 h =
     (let (expecting, h) = IsExpectingAssignment (hr_headerIndex header0) h
      in if expecting
         then (case map_of assign_objects (gvr_enumeration header0) of
            Some type \<Rightarrow> ProcessAssignAll sd type h
          | None \<Rightarrow> Some (FUNC_NOT_SUPPORTED, h))
         else Some (RecordClass (hr_headerIndex header0) (gvr_enumeration header0) h))"

definition AssignClassHandler_Range :: "'d IStaticDatabase \<Rightarrow> HeaderRecord \<Rightarrow> Range \<Rightarrow> 'd AssignClassHandler \<Rightarrow> (IINField \<times> 'd AssignClassHandler) option" where
  "AssignClassHandler_Range sd header0 rng h =
     (let (expecting, h) = IsExpectingAssignment (hr_headerIndex header0) h
      in if expecting
         then (case map_of assign_objects (gvr_enumeration header0) of
            Some type \<Rightarrow> ProcessAssignRange sd type rng h
          | None \<Rightarrow> Some (FUNC_NOT_SUPPORTED, h))
         else Some (PARAM_ERROR, h))"

definition AssignClassHandler_ProcessHeader ::
    "'d IStaticDatabase \<Rightarrow> apdu_event \<Rightarrow> 'd AssignClassHandler \<Rightarrow> (IINField \<times> 'd AssignClassHandler) option option" where
  "AssignClassHandler_ProcessHeader sd e h =
     (case e of
        OnAllObjects header0 \<Rightarrow> Some (AssignClassHandler_AllObjects sd header0 h)
      | OnRange header0 rng \<Rightarrow> Some (AssignClassHandler_Range sd header0 rng h)
      | _ \<Rightarrow> None)"

end
