(* ===== verification/OutstationState.thy ===== *)
theory OutstationState
  imports RequestHandlers Transport
begin

text \<open>
  The state of an outstation: \<open>outstation/OutstationParams.h\<close>, \<open>RequestHistory\<close>,
  \<open>DeferredRequest\<close>, \<open>ControlState.h\<close>, \<open>OutstationSeqNum.h\<close>, \<open>OutstationChannelStates.h\<close>,
  \<open>app/TxBuffer.h\<close>, and the members of \<open>OContext\<close>.
\<close>

section \<open>Requests\<close>

record ParsedRequest =
  req_addresses :: Addresses
  req_header :: APDUHeader
  req_objects :: rslice

definition APDUHeader_init :: APDUHeader where
  "APDUHeader_init = \<lparr>apdu_control = AppControlField_DEFAULT, apdu_function = FC_UNKNOWN\<rparr>"

record RequestHistory =
  rh_hasLast :: bool
  rh_lastHeader :: APDUHeader
  rh_lastDigest :: u16
  rh_lastObjectsLength :: nat

definition RequestHistory_init :: RequestHistory where
  "RequestHistory_init = \<lparr>rh_hasLast = False, rh_lastHeader = APDUHeader_init, rh_lastDigest = 0, rh_lastObjectsLength = 0\<rparr>"

definition RequestHistory_Reset :: "RequestHistory \<Rightarrow> RequestHistory" where
  "RequestHistory_Reset h = h\<lparr>rh_hasLast := False\<rparr>"

definition RecordLastProcessedRequest :: "APDUHeader \<Rightarrow> rslice \<Rightarrow> RequestHistory \<Rightarrow> RequestHistory" where
  "RecordLastProcessedRequest header0 objects h =
     h\<lparr>rh_hasLast := True, rh_lastHeader := header0, rh_lastObjectsLength := length objects, rh_lastDigest := CalcCrc objects\<rparr>"

definition GetLastHeader :: "RequestHistory \<Rightarrow> APDUHeader" where
  "GetLastHeader h = (if rh_hasLast h then rh_lastHeader h else APDUHeader_init)"

definition EqualsLastObjects :: "RequestHistory \<Rightarrow> rslice \<Rightarrow> bool" where
  "EqualsLastObjects h objects \<longleftrightarrow> rh_hasLast h \<and> rh_lastObjectsLength h = length objects \<and> rh_lastDigest h = CalcCrc objects"

definition FullyEqualsLastRequest :: "RequestHistory \<Rightarrow> APDUHeader \<Rightarrow> rslice \<Rightarrow> bool" where
  "FullyEqualsLastRequest h header0 objects \<longleftrightarrow> APDUHeader_Equals (rh_lastHeader h) header0 \<and> EqualsLastObjects h objects"

text \<open>The objects of a deferred request are copied into \<open>buffer\<close>; a request that does not fit loses them.\<close>

record DeferredRequest =
  dr_isSet :: bool
  dr_addresses :: Addresses
  dr_header :: APDUHeader
  dr_objects :: rslice
  dr_buffer :: "u8 list"

definition DeferredRequest_of :: "nat \<Rightarrow> DeferredRequest" where
  "DeferredRequest_of maxAPDUSize =
     \<lparr>dr_isSet = False, dr_addresses = \<lparr>addr_source = 0, addr_destination = 0\<rparr>, dr_header = APDUHeader_init,
      dr_objects = [], dr_buffer = replicate maxAPDUSize 0\<rparr>"

definition DeferredRequest_Reset :: "DeferredRequest \<Rightarrow> DeferredRequest" where
  "DeferredRequest_Reset d = d\<lparr>dr_isSet := False\<rparr>"

definition DeferredRequest_Set :: "ParsedRequest \<Rightarrow> DeferredRequest \<Rightarrow> DeferredRequest option" where
  "DeferredRequest_Set request d = do {
     (objects, dest) \<leftarrow> RSlice_CopyTo (req_objects request) (GetWSlice (dr_buffer d));
     Some (d\<lparr>dr_isSet := True, dr_addresses := req_addresses request, dr_header := req_header request,
            dr_objects := objects, dr_buffer := wbuf dest\<rparr>) }"

definition deferred_request :: "DeferredRequest \<Rightarrow> ParsedRequest" where
  "deferred_request d = \<lparr>req_addresses = dr_addresses d, req_header = dr_header d, req_objects = dr_objects d\<rparr>"


section \<open>Select before operate\<close>

record ControlState =
  cs_expectedSeq :: u8
  cs_selectTime :: MonotonicTimestamp
  cs_digest :: u16
  cs_length :: nat

definition ControlState_init :: ControlState where
  "ControlState_init = \<lparr>cs_expectedSeq = 0, cs_selectTime = 0, cs_digest = 0, cs_length = 0\<rparr>"

definition ValidateSelection :: "u8 \<Rightarrow> MonotonicTimestamp \<Rightarrow> TimeDuration \<Rightarrow> rslice \<Rightarrow> ControlState \<Rightarrow> CommandStatus" where
  "ValidateSelection seq now timeout objects c =
     (if cs_expectedSeq c = seq
      then if cs_selectTime c \<le> now
        then let elapsed = now - cs_selectTime c in
          if elapsed < timeout
          then if cs_length c = length objects \<and> cs_digest c = CalcCrc objects then CS_SUCCESS else CS_NO_SELECT
          else CS_TIMEOUT
        else CS_TIMEOUT
      else CS_NO_SELECT)"

definition ControlState_Select :: "u8 \<Rightarrow> MonotonicTimestamp \<Rightarrow> rslice \<Rightarrow> ControlState \<Rightarrow> ControlState" where
  "ControlState_Select currentSeqN now objects c =
     c\<lparr>cs_selectTime := now, cs_expectedSeq := AppSeqNum_Next currentSeqN, cs_digest := CalcCrc objects, cs_length := length objects\<rparr>"


section \<open>Transmit buffers and channels\<close>

text \<open>\<open>lastResponse\<close> views a prefix of the buffer: the model keeps its length.\<close>

record TxBuffer =
  tx_buffer :: "u8 list"
  tx_last :: nat
  tx_control :: AppControlField

definition TxBuffer_of :: "nat \<Rightarrow> TxBuffer" where
  "TxBuffer_of maxTxSize = \<lparr>tx_buffer = replicate maxTxSize 0, tx_last = 0, tx_control = AppControlField_DEFAULT\<rparr>"

definition TxBuffer_Start :: "TxBuffer \<Rightarrow> APDUWrapper option" where
  "TxBuffer_Start tx = APDUResponse_of (GetWSlice (tx_buffer tx))"

text \<open>The response is written in place: its memory is that of the buffer.\<close>

definition tx_written :: "APDUWrapper \<Rightarrow> TxBuffer \<Rightarrow> TxBuffer" where
  "tx_written response tx = tx\<lparr>tx_buffer := wbuf (apw_buffer response)\<rparr>"

definition TxBuffer_Record :: "AppControlField \<Rightarrow> rslice \<Rightarrow> TxBuffer \<Rightarrow> TxBuffer" where
  "TxBuffer_Record control view0 tx = tx\<lparr>tx_control := control, tx_last := length view0\<rparr>"

definition GetLastResponse :: "TxBuffer \<Rightarrow> rslice" where
  "GetLastResponse tx = take (tx_last tx) (tx_buffer tx)"

record OutstationSeqNum =
  sn_num :: u8
  sn_confirmNum :: u8

record OutstationSolState =
  sol_seq :: OutstationSeqNum
  sol_tx :: TxBuffer

record OutstationUnsolState =
  uns_completedNull :: bool
  uns_seq :: OutstationSeqNum
  uns_tx :: TxBuffer

definition OutstationSeqNum_init :: OutstationSeqNum where
  "OutstationSeqNum_init = \<lparr>sn_num = 0, sn_confirmNum = 0\<rparr>"

definition OutstationSolState_of :: "nat \<Rightarrow> OutstationSolState" where
  "OutstationSolState_of maxTxSize = \<lparr>sol_seq = OutstationSeqNum_init, sol_tx = TxBuffer_of maxTxSize\<rparr>"

definition OutstationUnsolState_of :: "nat \<Rightarrow> OutstationUnsolState" where
  "OutstationUnsolState_of maxTxSize =
     \<lparr>uns_completedNull = False, uns_seq = OutstationSeqNum_init, uns_tx = TxBuffer_of maxTxSize\<rparr>"

definition OutstationSolState_Reset :: "OutstationSolState \<Rightarrow> OutstationSolState" where
  "OutstationSolState_Reset s = s"

definition OutstationUnsolState_Reset :: "OutstationUnsolState \<Rightarrow> OutstationUnsolState" where
  "OutstationUnsolState_Reset s = s\<lparr>uns_completedNull := False\<rparr>"

text \<open>The header writer of a response works on the memory and the remaining room of the response.\<close>

definition GetWriter :: "APDUWrapper \<Rightarrow> HeaderWriter" where
  "GetWriter w = HeaderWriter_of ((apw_buffer w)\<lparr>wpos := apw_rem_pos w, wsize := apw_rem_size w\<rparr>)"

definition put_writer :: "HeaderWriter \<Rightarrow> APDUWrapper \<Rightarrow> APDUWrapper" where
  "put_writer writer w =
     w\<lparr>apw_buffer := (apw_buffer w)\<lparr>wbuf := wbuf (hw_position writer)\<rparr>,
       apw_rem_pos := wpos (hw_position writer), apw_rem_size := wsize (hw_position writer)\<rparr>"


section \<open>The outstation\<close>

record OutstationParams =
  op_maxControlsPerRequest :: u8
  op_selectTimeout :: TimeDuration
  op_unsolConfirmTimeout :: TimeDuration
  op_maxTxFragSize :: nat
  op_maxRxFragSize :: nat
  op_allowUnsolicited :: bool
  op_unsolClassMask :: ClassField
  op_respondToAnyMaster :: bool

datatype OutstationStateKind = StateIdle | StateSolicitedConfirmWait | StateUnsolicitedConfirmWait

datatype outstation_output =
    Begin_transmit Message
  | Post_class_assignment AssignClassType PointClass u16 u16

text \<open>
  \<open>OContext\<close>. The clock of the executor is \<open>oc_now\<close>, the state of the user's callbacks
  \<open>oc_application\<close>; \<open>rspContext\<close> is its fragment count. The calls to the lower layer and the
  actions posted to the executor are collected in \<open>oc_outputs\<close>, the latest first.
\<close>

record ('x, 'd, 'u) OContext =
  oc_now :: MonotonicTimestamp
  oc_application :: 'u
  oc_addresses :: Addresses
  oc_eventBuffer :: "'x Measurement EventBuffer"
  oc_database :: 'd
  oc_fragmentCount :: u16
  oc_params :: OutstationParams
  oc_isOnline :: bool
  oc_isTransmitting :: bool
  oc_staticIIN :: IINField
  oc_confirmTimer :: TimerRef
  oc_history :: RequestHistory
  oc_deferred :: DeferredRequest
  oc_control :: ControlState
  oc_time :: TimeSyncState
  oc_sol :: OutstationSolState
  oc_unsol :: OutstationUnsolState
  oc_state :: OutstationStateKind
  oc_outputs :: "outstation_output list"

text \<open>The code around the outstation: the conversion of measurements, the database, the callbacks.\<close>

record ('x, 'd, 'u) environment =
  env_conv :: "'x conversions"
  env_database :: "'d IStaticDatabase"
  env_commandHandler :: "'u ICommandHandler"
  env_application :: "'u IOutstationApplication"

definition OContext_of ::
    "Addresses \<Rightarrow> OutstationParams \<Rightarrow> 'x Measurement EventBuffer \<Rightarrow> 'd \<Rightarrow> 'u \<Rightarrow> ('x, 'd, 'u) OContext" where
  "OContext_of addresses params eventBuffer database application =
     \<lparr>oc_now = 0, oc_application = application, oc_addresses = addresses, oc_eventBuffer = eventBuffer,
      oc_database = database, oc_fragmentCount = 0, oc_params = params, oc_isOnline = False, oc_isTransmitting = False,
      oc_staticIIN = IINField_of_bit IIN_DEVICE_RESTART, oc_confirmTimer = None, oc_history = RequestHistory_init,
      oc_deferred = DeferredRequest_of (op_maxRxFragSize params), oc_control = ControlState_init,
      oc_time = TimeSyncState_init, oc_sol = OutstationSolState_of (op_maxTxFragSize params),
      oc_unsol = OutstationUnsolState_of (op_maxTxFragSize params), oc_state = StateIdle, oc_outputs = []\<rparr>"

end
