(* ===== verification/OutstationContext.thy ===== *)
theory OutstationContext
  imports OutstationState
begin

text \<open>
  The outstation (\<open>outstation/OutstationContext.cpp\<close>) and its states (\<open>OutstationStates.cpp\<close>):
  the handling of each function code, solicited and unsolicited responses, and the events the
  layer below, the timer and the application raise. A state handler returns the new state with
  the context; an undefined operation is \<^const>\<open>None\<close>.
\<close>

section \<open>Indications\<close>

definition GetDynamicIIN :: "('x, 'd, 'u) OContext \<Rightarrow> IINField \<times> ('x, 'd, 'u) OContext" where
  "GetDynamicIIN ctx =
     (let classField = UnwrittenClassField (oc_eventBuffer ctx);
          ret = IINField_SetBitToValue IIN_CLASS1_EVENTS (HasClass1 classField) IINField_Empty;
          ret = IINField_SetBitToValue IIN_CLASS2_EVENTS (HasClass2 classField) ret;
          ret = IINField_SetBitToValue IIN_CLASS3_EVENTS (HasClass3 classField) ret;
          (overflown, eb) = IsOverflown (oc_eventBuffer ctx)
      in (IINField_SetBitToValue IIN_EVENT_BUFFER_OVERFLOW overflown ret, ctx\<lparr>oc_eventBuffer := eb\<rparr>))"

definition GetResponseIIN :: "('x, 'd, 'u) environment \<Rightarrow> ('x, 'd, 'u) OContext \<Rightarrow> IINField \<times> ('x, 'd, 'u) OContext" where
  "GetResponseIIN env ctx =
     (let (dynamic, ctx) = GetDynamicIIN ctx
      in (IINField_or (IINField_or (oc_staticIIN ctx) dynamic) (ToIIN (oa_GetApplicationIIN (env_application env) (oc_application ctx))), ctx))"


section \<open>Transmission\<close>

definition CanTransmit :: "('x, 'd, 'u) OContext \<Rightarrow> bool" where
  "CanTransmit ctx \<longleftrightarrow> oc_isOnline ctx \<and> \<not> oc_isTransmitting ctx"

definition outstation_emit :: "outstation_output \<Rightarrow> ('x, 'd, 'u) OContext \<Rightarrow> ('x, 'd, 'u) OContext" where
  "outstation_emit out ctx = ctx\<lparr>oc_outputs := out # oc_outputs ctx\<rparr>"

definition BeginTx :: "u16 \<Rightarrow> rslice \<Rightarrow> ('x, 'd, 'u) OContext \<Rightarrow> ('x, 'd, 'u) OContext" where
  "BeginTx destination message ctx =
     outstation_emit (Begin_transmit \<lparr>msg_addresses = \<lparr>addr_source = addr_source (oc_addresses ctx), addr_destination = destination\<rparr>,
         msg_payload = message\<rparr>)
       (ctx\<lparr>oc_isTransmitting := True\<rparr>)"

definition BeginResponseTx :: "u16 \<Rightarrow> rslice \<Rightarrow> AppControlField \<Rightarrow> ('x, 'd, 'u) OContext \<Rightarrow> ('x, 'd, 'u) OContext" where
  "BeginResponseTx destination data control ctx =
     BeginTx destination data
       (ctx\<lparr>oc_sol := (oc_sol ctx)\<lparr>sol_tx := TxBuffer_Record control data (sol_tx (oc_sol ctx))\<rparr>\<rparr>)"

definition BeginUnsolTx :: "AppControlField \<Rightarrow> rslice \<Rightarrow> ('x, 'd, 'u) OContext \<Rightarrow> ('x, 'd, 'u) OContext" where
  "BeginUnsolTx control response ctx =
     (let unsol = oc_unsol ctx;
          seq = uns_seq unsol;
          unsol = unsol\<lparr>uns_tx := TxBuffer_Record control response (uns_tx unsol),
                        uns_seq := \<lparr>sn_num = AppSeqNum_Next (sn_num seq), sn_confirmNum = sn_num seq\<rparr>\<rparr>
      in BeginTx (addr_destination (oc_addresses ctx)) response (ctx\<lparr>oc_unsol := unsol\<rparr>))"

definition RestartConfirmTimer :: "('x, 'd, 'u) OContext \<Rightarrow> ('x, 'd, 'u) OContext" where
  "RestartConfirmTimer ctx =
     ctx\<lparr>oc_confirmTimer := TimerRef_Restart
       (MonotonicTimestamp_Add (oc_now ctx) (op_unsolConfirmTimeout (oc_params ctx))) (oc_confirmTimer ctx)\<rparr>"

definition CancelConfirmTimer :: "('x, 'd, 'u) OContext \<Rightarrow> ('x, 'd, 'u) OContext" where
  "CancelConfirmTimer ctx = ctx\<lparr>oc_confirmTimer := snd (TimerRef_Cancel (oc_confirmTimer ctx))\<rparr>"

definition send_response :: "u16 \<Rightarrow> APDUWrapper \<Rightarrow> ('x, 'd, 'u) OContext \<Rightarrow> ('x, 'd, 'u) OContext option" where
  "send_response destination response ctx = do {
     control \<leftarrow> GetControl response;
     let ctx = ctx\<lparr>oc_sol := (oc_sol ctx)\<lparr>sol_tx := tx_written response (sol_tx (oc_sol ctx))\<rparr>\<rparr>;
     Some (BeginResponseTx destination (APDU_ToRSlice response) control ctx) }"

definition send_unsolicited :: "APDUWrapper \<Rightarrow> ('x, 'd, 'u) OContext \<Rightarrow> ('x, 'd, 'u) OContext option" where
  "send_unsolicited response ctx = do {
     control \<leftarrow> GetControl response;
     let ctx = ctx\<lparr>oc_unsol := (oc_unsol ctx)\<lparr>uns_tx := tx_written response (uns_tx (oc_unsol ctx))\<rparr>\<rparr>;
     Some (BeginUnsolTx control (APDU_ToRSlice response) ctx) }"


section \<open>Reading and writing\<close>

definition HandleRead ::
    "('x, 'd, 'u) environment \<Rightarrow> rslice \<Rightarrow> HeaderWriter \<Rightarrow> ('x, 'd, 'u) OContext \<Rightarrow>
     (IINField \<times> AppControlField \<times> HeaderWriter \<times> ('x, 'd, 'u) OContext) option" where
  "HandleRead env objects writer ctx = do {
     eb \<leftarrow> EventBuffer_Unselect (oc_eventBuffer ctx);
     db \<leftarrow> sd_Unselect (env_database env) (oc_database ctx);
     (result, err, db, eb) \<leftarrow> parse_request False (ReadHandler_ProcessHeader (env_database env)) allow_all objects (db, eb);
     if result = PR_OK
     then do {
       (control, count, writer, db, eb) \<leftarrow> LoadResponse (env_conv env) (env_database env) 0 writer db eb;
       Some (err, control, writer, ctx\<lparr>oc_eventBuffer := eb, oc_database := db, oc_fragmentCount := count\<rparr>) }
     else Some (IINFromParseResult result, AppControlField_init True True False False, writer,
            ctx\<lparr>oc_eventBuffer := eb, oc_database := db, oc_fragmentCount := 0\<rparr>) }"

definition HandleWrite ::
    "('x, 'd, 'u) environment \<Rightarrow> rslice \<Rightarrow> ('x, 'd, 'u) OContext \<Rightarrow> (IINField \<times> ('x, 'd, 'u) OContext) option" where
  "HandleWrite env objects ctx = do {
     (result, err, h) \<leftarrow> parse_request True
        (WriteHandler_ProcessHeader (env_application env) (sn_num (sol_seq (oc_sol ctx))) (oc_now ctx)) allow_all objects
        (WriteHandler_of (oc_application ctx) (oc_time ctx) (oc_staticIIN ctx));
     Some (if result = PR_OK then err else IINFromParseResult result,
       ctx\<lparr>oc_application := wh_app h, oc_time := wh_time h, oc_staticIIN := wh_IIN h\<rparr>) }"


section \<open>Controls\<close>

text \<open>The parse of a command request with an adapter for the application, which is destroyed at the end.\<close>

definition process_commands ::
    "('x, 'd, 'u) environment \<Rightarrow> bool \<Rightarrow> OperateType \<Rightarrow> rslice \<Rightarrow> HeaderWriter option \<Rightarrow> ('x, 'd, 'u) OContext \<Rightarrow>
     (ParseResult \<times> IINField \<times> bool \<times> HeaderWriter option \<times> ('x, 'd, 'u) OContext) option" where
  "process_commands env isSelect opType objects pWriter ctx = do {
     (result, err, h) \<leftarrow> parse_request True
        (CommandResponseHandler_ProcessHeader (ActionT (env_commandHandler env) isSelect opType))
        CommandResponseHandler_IsAllowed objects
        (CommandResponseHandler_of (op_maxControlsPerRequest (oc_params ctx)) (False, oc_application ctx) pWriter);
     Some (result, err, AllCommandsSuccessful h, crh_pWriter h,
       ctx\<lparr>oc_application := CommandActionAdapter_finish (env_commandHandler env) (crh_action h)\<rparr>) }"

definition command_iin :: "ParseResult \<Rightarrow> IINField \<Rightarrow> IINField" where
  "command_iin result err = (if result = PR_OK then err else IINFromParseResult result)"

definition HandleDirectOperate ::
    "('x, 'd, 'u) environment \<Rightarrow> rslice \<Rightarrow> OperateType \<Rightarrow> HeaderWriter option \<Rightarrow> ('x, 'd, 'u) OContext \<Rightarrow>
     (IINField \<times> HeaderWriter option \<times> ('x, 'd, 'u) OContext) option" where
  "HandleDirectOperate env objects opType pWriter ctx =
     (if (case pWriter of Some writer \<Rightarrow> length objects > HW_Remaining writer | None \<Rightarrow> False)
      then Some (PARAM_ERROR, pWriter, ctx)
      else do {
        (result, err, _, pWriter, ctx) \<leftarrow> process_commands env False opType objects pWriter ctx;
        Some (command_iin result err, pWriter, ctx) })"

definition HandleSelect ::
    "('x, 'd, 'u) environment \<Rightarrow> rslice \<Rightarrow> HeaderWriter \<Rightarrow> ('x, 'd, 'u) OContext \<Rightarrow>
     (IINField \<times> HeaderWriter \<times> ('x, 'd, 'u) OContext) option" where
  "HandleSelect env objects writer ctx =
     (if length objects > HW_Remaining writer then Some (PARAM_ERROR, writer, ctx)
      else do {
        (result, err, allSuccessful, pWriter, ctx) \<leftarrow> process_commands env True DirectOperate objects (Some writer) ctx;
        writer \<leftarrow> pWriter;
        if result = PR_OK
        then (let ctx = (if allSuccessful
                then ctx\<lparr>oc_control := ControlState_Select (sn_num (sol_seq (oc_sol ctx))) (oc_now ctx) objects (oc_control ctx)\<rparr>
                else ctx)
              in Some (err, writer, ctx))
        else Some (IINFromParseResult result, writer, ctx) })"

definition HandleCommandWithConstant ::
    "rslice \<Rightarrow> HeaderWriter \<Rightarrow> CommandStatus \<Rightarrow> ('x, 'd, 'u) OContext \<Rightarrow> (IINField \<times> HeaderWriter \<times> ('x, 'd, 'u) OContext) option" where
  "HandleCommandWithConstant objects writer status ctx = do {
     (result, _, h) \<leftarrow> parse_request True (CommandResponseHandler_ProcessHeader (ConstantCommandAction status))
        CommandResponseHandler_IsAllowed objects
        (CommandResponseHandler_of (op_maxControlsPerRequest (oc_params ctx)) () (Some writer));
     writer \<leftarrow> crh_pWriter h;
     Some (IINFromParseResult result, writer, ctx) }"

definition HandleOperate ::
    "('x, 'd, 'u) environment \<Rightarrow> rslice \<Rightarrow> HeaderWriter \<Rightarrow> ('x, 'd, 'u) OContext \<Rightarrow>
     (IINField \<times> HeaderWriter \<times> ('x, 'd, 'u) OContext) option" where
  "HandleOperate env objects writer ctx =
     (if length objects > HW_Remaining writer then Some (PARAM_ERROR, writer, ctx)
      else
        let result = ValidateSelection (sn_num (sol_seq (oc_sol ctx))) (oc_now ctx) (op_selectTimeout (oc_params ctx)) objects (oc_control ctx)
        in if result = CS_SUCCESS
           then do {
             (result, err, _, pWriter, ctx) \<leftarrow> process_commands env False SelectBeforeOperate objects (Some writer) ctx;
             writer \<leftarrow> pWriter;
             Some (command_iin result err, writer, ctx) }
           else HandleCommandWithConstant objects writer result ctx)"


section \<open>Other functions\<close>

definition Group52_serializer :: "u8 \<Rightarrow> u16 DNP3Serializer" where
  "Group52_serializer variation = Descriptor_Inst 52 variation (\<lambda>time. [FV_u16 time])"

definition HandleDelayMeasure :: "rslice \<Rightarrow> HeaderWriter \<Rightarrow> (IINField \<times> HeaderWriter) option" where
  "HandleDelayMeasure objects writer =
     (if objects = [] then do {
        (_, writer) \<leftarrow> WriteSingleValue IT_UInt8 QC_UINT8_CNT (Group52_serializer 2) 0 writer;
        Some (IINField_Empty, writer) }
      else Some (PARAM_ERROR, writer))"

definition HandleRecordCurrentTime :: "('x, 'd, 'u) OContext \<Rightarrow> IINField \<times> ('x, 'd, 'u) OContext" where
  "HandleRecordCurrentTime ctx =
     (IINField_Empty, ctx\<lparr>oc_time := TimeSyncState_RecordCurrentTime (sn_num (sol_seq (oc_sol ctx))) (oc_now ctx) (oc_time ctx)\<rparr>)"

definition HandleRestart ::
    "('x, 'd, 'u) environment \<Rightarrow> rslice \<Rightarrow> bool \<Rightarrow> HeaderWriter \<Rightarrow> ('x, 'd, 'u) OContext \<Rightarrow>
     (IINField \<times> HeaderWriter \<times> ('x, 'd, 'u) OContext) option" where
  "HandleRestart env objects isWarmRestart writer ctx =
     (if objects \<noteq> [] then Some (PARAM_ERROR, writer, ctx)
      else
        let app = env_application env;
            u = oc_application ctx;
            mode = (if isWarmRestart then oa_WarmRestartSupport app u else oa_ColdRestartSupport app u);
            (delay, u) = (if isWarmRestart then oa_WarmRestart app u else oa_ColdRestart app u);
            variation = (if mode = SUPPORTED_DELAY_COARSE then 1 else 2)
        in if mode = UNSUPPORTED then Some (FUNC_NOT_SUPPORTED, writer, ctx)
           else do {
             (_, writer) \<leftarrow> WriteSingleValue IT_UInt8 QC_UINT8_CNT (Group52_serializer variation) delay writer;
             Some (IINField_Empty, writer, ctx\<lparr>oc_application := u\<rparr>) })"

definition post_assignments :: "(AssignClassType \<times> PointClass \<times> u16 \<times> u16) list \<Rightarrow> ('x, 'd, 'u) OContext \<Rightarrow> ('x, 'd, 'u) OContext" where
  "post_assignments posted ctx = fold (\<lambda>(type, clazz, start, stop). outstation_emit (Post_class_assignment type clazz start stop)) posted ctx"

definition HandleAssignClass ::
    "('x, 'd, 'u) environment \<Rightarrow> rslice \<Rightarrow> ('x, 'd, 'u) OContext \<Rightarrow> (IINField \<times> ('x, 'd, 'u) OContext) option" where
  "HandleAssignClass env objects ctx =
     (let (supported, u) = oa_SupportsAssignClass (env_application env) (oc_application ctx);
          ctx = ctx\<lparr>oc_application := u\<rparr>
      in if supported
         then do {
           (result, err, h) \<leftarrow> parse_request False (AssignClassHandler_ProcessHeader (env_database env)) allow_all objects
              (AssignClassHandler_of (oc_database ctx));
           Some (command_iin result err, post_assignments (ah_posted h) (ctx\<lparr>oc_database := ah_database h\<rparr>)) }
         else Some (FUNC_NOT_SUPPORTED, ctx))"

definition HandleDisableUnsolicited :: "rslice \<Rightarrow> ('x, 'd, 'u) OContext \<Rightarrow> (IINField \<times> ('x, 'd, 'u) OContext) option" where
  "HandleDisableUnsolicited objects ctx = do {
     (result, err, classField) \<leftarrow> parse_request True ClassBasedRequestHandler_ProcessHeader allow_all objects 0;
     Some (if result = PR_OK
       then (err, ctx\<lparr>oc_params := (oc_params ctx)\<lparr>op_unsolClassMask := ClassField_Clear classField (op_unsolClassMask (oc_params ctx))\<rparr>\<rparr>)
       else (IINFromParseResult result, ctx)) }"

definition HandleEnableUnsolicited :: "rslice \<Rightarrow> ('x, 'd, 'u) OContext \<Rightarrow> (IINField \<times> ('x, 'd, 'u) OContext) option" where
  "HandleEnableUnsolicited objects ctx = do {
     (result, err, classField) \<leftarrow> parse_request True ClassBasedRequestHandler_ProcessHeader allow_all objects 0;
     Some (if result = PR_OK
       then (err, ctx\<lparr>oc_params := (oc_params ctx)\<lparr>op_unsolClassMask := ClassField_Set classField (op_unsolClassMask (oc_params ctx))\<rparr>\<rparr>)
       else (IINFromParseResult result, ctx)) }"

definition HandleNonReadResponse ::
    "('x, 'd, 'u) environment \<Rightarrow> APDUHeader \<Rightarrow> rslice \<Rightarrow> HeaderWriter \<Rightarrow> ('x, 'd, 'u) OContext \<Rightarrow>
     (IINField \<times> HeaderWriter \<times> ('x, 'd, 'u) OContext) option" where
  "HandleNonReadResponse env header0 objects writer ctx =
     (case apdu_function header0 of
        FC_WRITE \<Rightarrow> do { (iin, ctx) \<leftarrow> HandleWrite env objects ctx; Some (iin, writer, ctx) }
      | FC_SELECT \<Rightarrow> HandleSelect env objects writer ctx
      | FC_OPERATE \<Rightarrow> HandleOperate env objects writer ctx
      | FC_DIRECT_OPERATE \<Rightarrow> do {
          (iin, pWriter, ctx) \<leftarrow> HandleDirectOperate env objects DirectOperate (Some writer) ctx;
          writer \<leftarrow> pWriter;
          Some (iin, writer, ctx) }
      | FC_COLD_RESTART \<Rightarrow> HandleRestart env objects False writer ctx
      | FC_WARM_RESTART \<Rightarrow> HandleRestart env objects True writer ctx
      | FC_ASSIGN_CLASS \<Rightarrow> do { (iin, ctx) \<leftarrow> HandleAssignClass env objects ctx; Some (iin, writer, ctx) }
      | FC_DELAY_MEASURE \<Rightarrow> do { (iin, writer) \<leftarrow> HandleDelayMeasure objects writer; Some (iin, writer, ctx) }
      | FC_RECORD_CURRENT_TIME \<Rightarrow>
          (let (iin, ctx) = (if objects = [] then HandleRecordCurrentTime ctx else (PARAM_ERROR, ctx)) in Some (iin, writer, ctx))
      | FC_DISABLE_UNSOLICITED \<Rightarrow>
          (if op_allowUnsolicited (oc_params ctx)
           then do { (iin, ctx) \<leftarrow> HandleDisableUnsolicited objects ctx; Some (iin, writer, ctx) }
           else Some (FUNC_NOT_SUPPORTED, writer, ctx))
      | FC_ENABLE_UNSOLICITED \<Rightarrow>
          (if op_allowUnsolicited (oc_params ctx)
           then do { (iin, ctx) \<leftarrow> HandleEnableUnsolicited objects ctx; Some (iin, writer, ctx) }
           else Some (FUNC_NOT_SUPPORTED, writer, ctx))
      | _ \<Rightarrow> Some (FUNC_NOT_SUPPORTED, writer, ctx))"


section \<open>Responses\<close>

definition RespondToNonReadRequest ::
    "('x, 'd, 'u) environment \<Rightarrow> ParsedRequest \<Rightarrow> ('x, 'd, 'u) OContext \<Rightarrow> ('x, 'd, 'u) OContext option" where
  "RespondToNonReadRequest env request ctx = do {
     let ctx = ctx\<lparr>oc_history := RecordLastProcessedRequest (req_header request) (req_objects request) (oc_history ctx)\<rparr>;
     response \<leftarrow> TxBuffer_Start (sol_tx (oc_sol ctx));
     response \<leftarrow> SetFunction FC_RESPONSE response;
     response \<leftarrow> SetControl ((AppControlField_init True True False False)\<lparr>acf_SEQ := acf_SEQ (apdu_control (req_header request))\<rparr>) response;
     (iin, writer, ctx) \<leftarrow> HandleNonReadResponse env (req_header request) (req_objects request) (GetWriter response) ctx;
     let (responseIIN, ctx) = GetResponseIIN env ctx;
     response \<leftarrow> SetIIN (IINField_or iin responseIIN) (put_writer writer response);
     send_response (addr_source (req_addresses request)) response ctx }"

text \<open>The end of a response that reports data: transmission, and waiting for a confirmation if it is requested.\<close>

definition finish_read_response ::
    "u16 \<Rightarrow> u8 \<Rightarrow> AppControlField \<Rightarrow> IINField \<Rightarrow> APDUWrapper \<Rightarrow> ('x, 'd, 'u) OContext \<Rightarrow>
     (OutstationStateKind \<times> ('x, 'd, 'u) OContext) option" where
  "finish_read_response destination seq control iin response ctx = do {
     let control = control\<lparr>acf_SEQ := seq\<rparr>;
     let ctx = ctx\<lparr>oc_sol := (oc_sol ctx)\<lparr>sol_seq := (sol_seq (oc_sol ctx))\<lparr>sn_confirmNum := seq\<rparr>\<rparr>\<rparr>;
     response \<leftarrow> SetControl control response;
     response \<leftarrow> SetIIN iin response;
     ctx \<leftarrow> send_response destination response ctx;
     Some (if acf_CON control then (StateSolicitedConfirmWait, RestartConfirmTimer ctx) else (StateIdle, ctx)) }"

definition RespondToReadRequest ::
    "('x, 'd, 'u) environment \<Rightarrow> ParsedRequest \<Rightarrow> ('x, 'd, 'u) OContext \<Rightarrow> (OutstationStateKind \<times> ('x, 'd, 'u) OContext) option" where
  "RespondToReadRequest env request ctx = do {
     let ctx = ctx\<lparr>oc_history := RecordLastProcessedRequest (req_header request) (req_objects request) (oc_history ctx)\<rparr>;
     response \<leftarrow> TxBuffer_Start (sol_tx (oc_sol ctx));
     response \<leftarrow> SetFunction FC_RESPONSE response;
     (err, control, writer, ctx) \<leftarrow> HandleRead env (req_objects request) (GetWriter response) ctx;
     let (responseIIN, ctx) = GetResponseIIN env ctx;
     finish_read_response (addr_source (req_addresses request)) (acf_SEQ (apdu_control (req_header request))) control
       (IINField_or err responseIIN) (put_writer writer response) ctx }"

definition ContinueMultiFragResponse ::
    "('x, 'd, 'u) environment \<Rightarrow> Addresses \<Rightarrow> u8 \<Rightarrow> ('x, 'd, 'u) OContext \<Rightarrow> (OutstationStateKind \<times> ('x, 'd, 'u) OContext) option" where
  "ContinueMultiFragResponse env addresses seq ctx = do {
     response \<leftarrow> TxBuffer_Start (sol_tx (oc_sol ctx));
     response \<leftarrow> SetFunction FC_RESPONSE response;
     (control, count, writer, db, eb) \<leftarrow> LoadResponse (env_conv env) (env_database env) (oc_fragmentCount ctx) (GetWriter response)
        (oc_database ctx) (oc_eventBuffer ctx);
     let ctx = ctx\<lparr>oc_eventBuffer := eb, oc_database := db, oc_fragmentCount := count\<rparr>;
     let (responseIIN, ctx) = GetResponseIIN env ctx;
     finish_read_response (addr_source addresses) seq control responseIIN (put_writer writer response) ctx }"

end
