(* ===== verification/Outstation.thy ===== *)
theory Outstation
  imports OutstationContext
begin

text \<open>
  The states of the outstation (\<open>OutstationStates.cpp\<close>), the processing of messages and deferred
  requests, unsolicited reporting and the events of the outstation (\<open>OutstationContext.cpp\<close>).
\<close>

section \<open>The states\<close>

type_synonym ('x, 'd, 'u) state_handler =
  "('x, 'd, 'u) environment \<Rightarrow> ParsedRequest \<Rightarrow> ('x, 'd, 'u) OContext \<Rightarrow> (OutstationStateKind \<times> ('x, 'd, 'u) OContext) option"

definition request_seq :: "ParsedRequest \<Rightarrow> u8" where
  "request_seq request = acf_SEQ (apdu_control (req_header request))"

definition request_UNS :: "ParsedRequest \<Rightarrow> bool" where
  "request_UNS request = acf_UNS (apdu_control (req_header request))"

definition resend_last :: "ParsedRequest \<Rightarrow> ('x, 'd, 'u) OContext \<Rightarrow> ('x, 'd, 'u) OContext" where
  "resend_last request ctx =
     BeginResponseTx (addr_source (req_addresses request)) (GetLastResponse (sol_tx (oc_sol ctx))) (tx_control (sol_tx (oc_sol ctx))) ctx"

definition set_deferred :: "ParsedRequest \<Rightarrow> ('x, 'd, 'u) OContext \<Rightarrow> ('x, 'd, 'u) OContext option" where
  "set_deferred request ctx = do {
     d \<leftarrow> DeferredRequest_Set request (oc_deferred ctx);
     Some (ctx\<lparr>oc_deferred := d\<rparr>) }"

definition confirmed :: "('x, 'd, 'u) OContext \<Rightarrow> ('x, 'd, 'u) OContext" where
  "confirmed ctx = CancelConfirmTimer (ctx\<lparr>oc_history := RequestHistory_Reset (oc_history ctx)\<rparr>)"

definition outstation_clear_written :: "('x, 'd, 'u) OContext \<Rightarrow> ('x, 'd, 'u) OContext option" where
  "outstation_clear_written ctx = do {
     eb \<leftarrow> EventBuffer_ClearWritten (oc_eventBuffer ctx);
     Some (ctx\<lparr>oc_eventBuffer := eb\<rparr>) }"

definition SolicitedConfirmWait_OnConfirm :: "('x, 'd, 'u) state_handler" where
  "SolicitedConfirmWait_OnConfirm env request ctx =
     (if request_UNS request then Some (StateSolicitedConfirmWait, ctx)
      else if sn_confirmNum (sol_seq (oc_sol ctx)) \<noteq> request_seq request then Some (StateSolicitedConfirmWait, ctx)
      else do {
        ctx \<leftarrow> outstation_clear_written (confirmed ctx);
        if HasSelection (env_database env) (oc_database ctx) (oc_eventBuffer ctx)
        then ContinueMultiFragResponse env (req_addresses request) (AppSeqNum_Next (request_seq request)) ctx
        else Some (StateIdle, ctx) })"

definition UnsolicitedConfirmWait_OnConfirm :: "('x, 'd, 'u) state_handler" where
  "UnsolicitedConfirmWait_OnConfirm env request ctx =
     (if \<not> request_UNS request then Some (StateUnsolicitedConfirmWait, ctx)
      else if sn_confirmNum (uns_seq (oc_unsol ctx)) \<noteq> request_seq request then Some (StateUnsolicitedConfirmWait, ctx)
      else do {
        let ctx = confirmed ctx;
        ctx \<leftarrow> (if uns_completedNull (oc_unsol ctx) then outstation_clear_written ctx
                 else Some (ctx\<lparr>oc_unsol := (oc_unsol ctx)\<lparr>uns_completedNull := True\<rparr>\<rparr>));
        Some (StateIdle, ctx) })"

definition OnConfirm :: "('x, 'd, 'u) state_handler" where
  "OnConfirm env request ctx =
     (case oc_state ctx of
        StateIdle \<Rightarrow> Some (StateIdle, ctx)
      | StateSolicitedConfirmWait \<Rightarrow> SolicitedConfirmWait_OnConfirm env request ctx
      | StateUnsolicitedConfirmWait \<Rightarrow> UnsolicitedConfirmWait_OnConfirm env request ctx)"

definition OnConfirmTimeout :: "('x, 'd, 'u) OContext \<Rightarrow> (OutstationStateKind \<times> ('x, 'd, 'u) OContext) option" where
  "OnConfirmTimeout ctx =
     (case oc_state ctx of
        StateIdle \<Rightarrow> Some (StateIdle, ctx)
      | StateSolicitedConfirmWait \<Rightarrow> Some (StateIdle, ctx)
      | StateUnsolicitedConfirmWait \<Rightarrow>
          if uns_completedNull (oc_unsol ctx) then do {
            eb \<leftarrow> EventBuffer_Unselect (oc_eventBuffer ctx);
            Some (StateIdle, ctx\<lparr>oc_eventBuffer := eb\<rparr>) }
          else Some (StateIdle, ctx))"

definition OnNewReadRequest :: "('x, 'd, 'u) state_handler" where
  "OnNewReadRequest env request ctx =
     (case oc_state ctx of
        StateIdle \<Rightarrow> RespondToReadRequest env request ctx
      | StateSolicitedConfirmWait \<Rightarrow> RespondToReadRequest env request (CancelConfirmTimer ctx)
      | StateUnsolicitedConfirmWait \<Rightarrow> map_option (Pair StateUnsolicitedConfirmWait) (set_deferred request ctx))"

definition OnNewNonReadRequest :: "('x, 'd, 'u) state_handler" where
  "OnNewNonReadRequest env request ctx =
     (case oc_state ctx of
        StateIdle \<Rightarrow> map_option (Pair StateIdle) (RespondToNonReadRequest env request ctx)
      | StateSolicitedConfirmWait \<Rightarrow> map_option (Pair StateIdle) (RespondToNonReadRequest env request (CancelConfirmTimer ctx))
      | StateUnsolicitedConfirmWait \<Rightarrow>
          map_option (Pair StateUnsolicitedConfirmWait)
            (RespondToNonReadRequest env request (ctx\<lparr>oc_deferred := DeferredRequest_Reset (oc_deferred ctx)\<rparr>)))"

definition OnRepeatNonReadRequest :: "('x, 'd, 'u) state_handler" where
  "OnRepeatNonReadRequest env request ctx =
     (case oc_state ctx of
        StateIdle \<Rightarrow> Some (StateIdle, resend_last request ctx)
      | StateSolicitedConfirmWait \<Rightarrow> Some (StateSolicitedConfirmWait, resend_last request (CancelConfirmTimer ctx))
      | StateUnsolicitedConfirmWait \<Rightarrow> Some (StateUnsolicitedConfirmWait, resend_last request ctx))"

definition OnRepeatReadRequest :: "('x, 'd, 'u) state_handler" where
  "OnRepeatReadRequest env request ctx =
     (case oc_state ctx of
        StateIdle \<Rightarrow> Some (StateIdle, resend_last request ctx)
      | StateSolicitedConfirmWait \<Rightarrow> Some (StateSolicitedConfirmWait, resend_last request (RestartConfirmTimer ctx))
      | StateUnsolicitedConfirmWait \<Rightarrow> map_option (Pair StateUnsolicitedConfirmWait) (set_deferred request ctx))"


section \<open>Requests\<close>

definition ProcessNewRequest :: "('x, 'd, 'u) state_handler" where
  "ProcessNewRequest env request ctx =
     (let ctx = ctx\<lparr>oc_sol := (oc_sol ctx)\<lparr>sol_seq := (sol_seq (oc_sol ctx))\<lparr>sn_num := request_seq request\<rparr>\<rparr>\<rparr>
      in if apdu_function (req_header request) = FC_READ then OnNewReadRequest env request ctx else OnNewNonReadRequest env request ctx)"

definition OnReceiveSolRequest :: "('x, 'd, 'u) state_handler" where
  "OnReceiveSolRequest env request ctx =
     (if rh_hasLast (oc_history ctx)
      then if sn_num (sol_seq (oc_sol ctx)) = request_seq request
        then if FullyEqualsLastRequest (oc_history ctx) (req_header request) (req_objects request)
          then if apdu_function (req_header request) = FC_READ then OnRepeatReadRequest env request ctx
            else OnRepeatNonReadRequest env request ctx
          else ProcessNewRequest env request ctx
        else ProcessNewRequest env request ctx
      else ProcessNewRequest env request ctx)"

definition set_state :: "OutstationStateKind \<times> ('x, 'd, 'u) OContext \<Rightarrow> ('x, 'd, 'u) OContext" where
  "set_state r = (snd r)\<lparr>oc_state := fst r\<rparr>"

definition ProcessRequest ::
    "('x, 'd, 'u) environment \<Rightarrow> ParsedRequest \<Rightarrow> ('x, 'd, 'u) OContext \<Rightarrow> (bool \<times> ('x, 'd, 'u) OContext) option" where
  "ProcessRequest env request ctx =
     (if request_UNS request then Some (False, ctx)
      else map_option (\<lambda>r. (True, set_state r)) (OnReceiveSolRequest env request ctx))"

definition ProcessConfirm ::
    "('x, 'd, 'u) environment \<Rightarrow> ParsedRequest \<Rightarrow> ('x, 'd, 'u) OContext \<Rightarrow> (bool \<times> ('x, 'd, 'u) OContext) option" where
  "ProcessConfirm env request ctx = map_option (\<lambda>r. (True, set_state r)) (OnConfirm env request ctx)"

definition ProcessRequestNoAck ::
    "('x, 'd, 'u) environment \<Rightarrow> ParsedRequest \<Rightarrow> ('x, 'd, 'u) OContext \<Rightarrow> (bool \<times> ('x, 'd, 'u) OContext) option" where
  "ProcessRequestNoAck env request ctx =
     (if apdu_function (req_header request) = FC_DIRECT_OPERATE_NR
      then do {
        (_, _, ctx) \<leftarrow> HandleDirectOperate env (req_objects request) DirectOperateNoAck None ctx;
        Some (True, ctx) }
      else Some (False, ctx))"

definition ProcessObjects ::
    "('x, 'd, 'u) environment \<Rightarrow> ParsedRequest \<Rightarrow> ('x, 'd, 'u) OContext \<Rightarrow> (bool \<times> ('x, 'd, 'u) OContext) option" where
  "ProcessObjects env request ctx =
     (if IsNoAckFuncCode (apdu_function (req_header request)) then ProcessRequestNoAck env request ctx
      else if oc_isTransmitting ctx then map_option (Pair True) (set_deferred request ctx)
      else if apdu_function (req_header request) = FC_CONFIRM then ProcessConfirm env request ctx
      else ProcessRequest env request ctx)"

definition ProcessMessage ::
    "('x, 'd, 'u) environment \<Rightarrow> Message \<Rightarrow> ('x, 'd, 'u) OContext \<Rightarrow> (bool \<times> ('x, 'd, 'u) OContext) option" where
  "ProcessMessage env message ctx =
     (let addr = msg_addresses message in
      if addr_destination addr \<noteq> addr_source (oc_addresses ctx) then Some (False, ctx)
      else if \<not> op_respondToAnyMaster (oc_params ctx) \<and> addr_source addr \<noteq> addr_destination (oc_addresses ctx) then Some (False, ctx)
      else do {
        result \<leftarrow> ParseRequest (msg_payload message);
        case result of
          None \<Rightarrow> Some (False, ctx)
        | Some (header0, objects) \<Rightarrow>
            if \<not> IsFirAndFin (apdu_control header0) then Some (False, ctx)
            else if acf_CON (apdu_control header0) then Some (False, ctx)
            else ProcessObjects env \<lparr>req_addresses = addr, req_header = header0, req_objects = objects\<rparr> ctx })"


section \<open>Deferred requests and unsolicited responses\<close>

definition ProcessDeferredRequest ::
    "('x, 'd, 'u) environment \<Rightarrow> ParsedRequest \<Rightarrow> ('x, 'd, 'u) OContext \<Rightarrow> (bool \<times> ('x, 'd, 'u) OContext) option" where
  "ProcessDeferredRequest env request ctx =
     (if apdu_function (req_header request) = FC_CONFIRM
      then do { (_, ctx) \<leftarrow> ProcessConfirm env request ctx; Some (True, ctx) }
      else if apdu_function (req_header request) = FC_READ
      then if oc_state ctx = StateIdle
        then do { (_, ctx) \<leftarrow> ProcessRequest env request ctx; Some (True, ctx) }
        else Some (False, ctx)
      else do { (_, ctx) \<leftarrow> ProcessRequest env request ctx; Some (True, ctx) })"

text \<open>\<open>DeferredRequest::Process\<close>.\<close>

definition CheckForDeferredRequest ::
    "('x, 'd, 'u) environment \<Rightarrow> ('x, 'd, 'u) OContext \<Rightarrow> ('x, 'd, 'u) OContext option" where
  "CheckForDeferredRequest env ctx =
     (if CanTransmit ctx \<and> dr_isSet (oc_deferred ctx)
      then do {
        (processed, ctx) \<leftarrow> ProcessDeferredRequest env (deferred_request (oc_deferred ctx)) ctx;
        Some (ctx\<lparr>oc_deferred := (oc_deferred ctx)\<lparr>dr_isSet := \<not> processed\<rparr>\<rparr>) }
      else Some ctx)"

text \<open>The common end of both unsolicited responses.\<close>

definition finish_unsolicited ::
    "('x, 'd, 'u) environment \<Rightarrow> APDUWrapper \<Rightarrow> ('x, 'd, 'u) OContext \<Rightarrow> ('x, 'd, 'u) OContext option" where
  "finish_unsolicited env response ctx = do {
     let (iin, ctx) = GetResponseIIN env ctx;
     response \<leftarrow> NullUnsolicited (sn_num (uns_seq (oc_unsol ctx))) iin response;
     let ctx = (RestartConfirmTimer ctx)\<lparr>oc_state := StateUnsolicitedConfirmWait\<rparr>;
     send_unsolicited response ctx }"

definition CheckForUnsolicited ::
    "('x, 'd, 'u) environment \<Rightarrow> ('x, 'd, 'u) OContext \<Rightarrow> ('x, 'd, 'u) OContext option" where
  "CheckForUnsolicited env ctx =
     (if CanTransmit ctx \<and> oc_state ctx = StateIdle \<and> op_allowUnsolicited (oc_params ctx)
      then if uns_completedNull (oc_unsol ctx)
        then if ClassField_Intersects (op_unsolClassMask (oc_params ctx)) (UnwrittenClassField (oc_eventBuffer ctx))
          then do {
            response \<leftarrow> TxBuffer_Start (uns_tx (oc_unsol ctx));
            eb \<leftarrow> EventBuffer_Unselect (oc_eventBuffer ctx);
            eb \<leftarrow> SelectAllByClass (op_unsolClassMask (oc_params ctx)) eb;
            (_, writer, eb) \<leftarrow> EventBuffer_Load (env_conv env) (GetWriter response) eb;
            finish_unsolicited env (put_writer writer response) (ctx\<lparr>oc_eventBuffer := eb\<rparr>) }
          else Some ctx
        else do {
          response \<leftarrow> TxBuffer_Start (uns_tx (oc_unsol ctx));
          finish_unsolicited env response ctx }
      else Some ctx)"

definition CheckForTaskStart ::
    "('x, 'd, 'u) environment \<Rightarrow> ('x, 'd, 'u) OContext \<Rightarrow> ('x, 'd, 'u) OContext option" where
  "CheckForTaskStart env ctx = do {
     ctx \<leftarrow> CheckForDeferredRequest env ctx;
     CheckForUnsolicited env ctx }"


section \<open>Events\<close>

definition OnLowerLayerUp ::
    "('x, 'd, 'u) environment \<Rightarrow> ('x, 'd, 'u) OContext \<Rightarrow> (bool \<times> ('x, 'd, 'u) OContext) option" where
  "OnLowerLayerUp env ctx =
     (if oc_isOnline ctx then Some (False, ctx)
      else map_option (Pair True) (CheckForTaskStart env (ctx\<lparr>oc_isOnline := True\<rparr>)))"

definition OnLowerLayerDown :: "('x, 'd, 'u) OContext \<Rightarrow> (bool \<times> ('x, 'd, 'u) OContext) option" where
  "OnLowerLayerDown ctx =
     (if \<not> oc_isOnline ctx then Some (False, ctx)
      else do {
        eb \<leftarrow> EventBuffer_Unselect (oc_eventBuffer ctx);
        Some (True, CancelConfirmTimer (ctx\<lparr>oc_state := StateIdle, oc_isOnline := False, oc_isTransmitting := False,
          oc_sol := OutstationSolState_Reset (oc_sol ctx), oc_unsol := OutstationUnsolState_Reset (oc_unsol ctx),
          oc_history := RequestHistory_Reset (oc_history ctx), oc_deferred := DeferredRequest_Reset (oc_deferred ctx),
          oc_eventBuffer := eb, oc_fragmentCount := 0\<rparr>)) })"

definition OnTxReady ::
    "('x, 'd, 'u) environment \<Rightarrow> ('x, 'd, 'u) OContext \<Rightarrow> (bool \<times> ('x, 'd, 'u) OContext) option" where
  "OnTxReady env ctx =
     (if \<not> oc_isOnline ctx \<or> \<not> oc_isTransmitting ctx then Some (False, ctx)
      else map_option (Pair True) (CheckForTaskStart env (ctx\<lparr>oc_isTransmitting := False\<rparr>)))"

definition OnReceive ::
    "('x, 'd, 'u) environment \<Rightarrow> Message \<Rightarrow> ('x, 'd, 'u) OContext \<Rightarrow> (bool \<times> ('x, 'd, 'u) OContext) option" where
  "OnReceive env message ctx =
     (if \<not> oc_isOnline ctx then Some (False, ctx)
      else do {
        (_, ctx) \<leftarrow> ProcessMessage env message ctx;
        map_option (Pair True) (CheckForTaskStart env ctx) })"

text \<open>The action of the confirm timer, run by the executor when the timer has expired.\<close>

definition ConfirmTimer_fires ::
    "('x, 'd, 'u) environment \<Rightarrow> ('x, 'd, 'u) OContext \<Rightarrow> ('x, 'd, 'u) OContext option" where
  "ConfirmTimer_fires env ctx = do {
     r \<leftarrow> OnConfirmTimeout (ctx\<lparr>oc_confirmTimer := TimerRef_fire (oc_confirmTimer ctx)\<rparr>);
     CheckForTaskStart env (set_state r) }"

definition SetRestartIIN :: "('x, 'd, 'u) OContext \<Rightarrow> ('x, 'd, 'u) OContext" where
  "SetRestartIIN ctx = ctx\<lparr>oc_staticIIN := IINField_SetBit IIN_DEVICE_RESTART (oc_staticIIN ctx)\<rparr>"

end
