(* ===== verification/ReadRequests.thy ===== *)
theory ReadRequests
  imports RequestHandlers
begin

text \<open>
  The handlers of a request never fail, given a static database whose operations do not: the
  interface of the static database as a locale, and the read handler, the responses in several
  fragments, the write handler and the assignment of classes over it.
\<close>

section \<open>Stored events\<close>

text \<open>What an event is, apart from its selection.\<close>

definition event_id :: "'v stored \<Rightarrow> EventType \<times> u16 \<times> EventClass \<times> 'v" where
  "event_id e = (st_type e, st_index e, st_clazz e, st_value e)"

definition event_ids :: "'v EventBuffer \<Rightarrow> (EventType \<times> u16 \<times> EventClass \<times> 'v) list" where
  "event_ids eb = map event_id (stored_events (eb_storage eb))"

definition kept :: "(EventType \<Rightarrow> nat) \<Rightarrow> 'x Measurement EventBuffer \<Rightarrow> 'x Measurement EventBuffer \<Rightarrow> bool" where
  "kept cap eb eb' \<longleftrightarrow> buffer_inv cap eb' \<and> event_ids eb' = event_ids eb"

lemma mark_first_ids: "(\<And>e. event_id (f e) = event_id e) \<Longrightarrow> map event_id (mark_first P f k es) = map event_id es"
  by (induction P f k es rule: mark_first.induct) auto

lemma map_event_id: "(\<And>e. event_id (f e) = event_id e) \<Longrightarrow> map event_id (map f es) = map event_id es"
  by (induction es) auto

lemma spec_step_ids:
  assumes "spec_step cap conv op (lost, es) = Some (r, lost', es')" and "\<And>t ev. op \<noteq> Op_Update t ev" and "op \<noteq> Op_ClearWritten"
  shows "map event_id es' = map event_id es"
proof -
  have select: "map event_id (spec_select g n es) = map event_id es" for g n
    by (auto simp: spec_select_def event_id_def mark_first_ids split: option.split Selection.split)
  have "map event_id (map (\<lambda>e. e\<lparr>st_state := ES_unselected\<rparr>) es) = map event_id es"
      "map event_id (map (\<lambda>e. if st_state e = ES_unselected \<and> HasEventType (st_clazz e) c then e\<lparr>st_state := ES_selected\<rparr> else e) es) =
        map event_id es" for c
    by (intro map_event_id; simp add: event_id_def)+
  then show ?thesis
    using assms select by (cases op) (auto simp: mark_first_ids event_id_def)
qed

lemma events_kept:
  assumes "buffer_inv cap eb"
  shows "succeeds (EventBuffer_Unselect eb) (kept cap eb)"
    and "succeeds (EventBuffer_SelectAll g eb) (\<lambda>(_, eb'). kept cap eb eb')"
    and "succeeds (EventBuffer_SelectCount g n eb) (\<lambda>(_, eb'). kept cap eb eb')"
    and "succeeds (SelectAllByClass c eb) (kept cap eb)"
    and "writer_wf hw \<Longrightarrow> succeeds (EventBuffer_Load conv hw eb) (\<lambda>(_, hw', eb'). grown hw hw' \<and> kept cap eb eb')"
    and "kept cap eb (snd (IsOverflown eb))"
proof -
  note step = buffer_step_ok [OF assms]
  have kept: "kept cap eb eb'"
    if "buffer_inv cap eb'" "spec_step cap conv op (buffer_abs eb) = Some (r, buffer_abs eb')" "\<And>t ev. op \<noteq> Op_Update t ev" "op \<noteq> Op_ClearWritten"
    for eb' op conv r
    using spec_step_ids [OF that(2) [unfolded buffer_abs_def] that(3,4)] that(1) by (simp add: kept_def event_ids_def)
  show "succeeds (EventBuffer_Unselect eb) (kept cap eb)"
    using step [of Op_Unselect "\<lambda>_ _. []"] by (auto simp: op_ok_def elim!: succeeds_mono intro: kept)
  show "succeeds (EventBuffer_SelectAll g eb) (\<lambda>(_, eb'). kept cap eb eb')"
    using step [of "Op_SelectAll g" "\<lambda>_ _. []"] by (auto simp: op_ok_def elim!: succeeds_mono intro: kept)
  show "succeeds (EventBuffer_SelectCount g n eb) (\<lambda>(_, eb'). kept cap eb eb')"
    using step [of "Op_SelectCount g n" "\<lambda>_ _. []"] by (auto simp: op_ok_def elim!: succeeds_mono intro: kept)
  show "succeeds (SelectAllByClass c eb) (kept cap eb)"
    using step [of "Op_SelectAllByClass c" "\<lambda>_ _. []"] by (auto simp: op_ok_def elim!: succeeds_mono intro: kept)
  show "writer_wf hw \<Longrightarrow> succeeds (EventBuffer_Load conv hw eb) (\<lambda>(_, hw', eb'). grown hw hw' \<and> kept cap eb eb')"
    using step [of "Op_Load hw" conv] by (auto simp: op_ok_def result_ok_def elim!: succeeds_mono intro: kept)
  show "kept cap eb (snd (IsOverflown eb))"
    using step [of Op_IsOverflown "\<lambda>_ _. []"] by (cases "IsOverflown eb") (auto simp: op_ok_def intro: kept)
qed

lemma kept_inv: "kept cap eb eb' \<Longrightarrow> buffer_inv cap eb'"
  by (simp add: kept_def)

lemma kept_refl: "buffer_inv cap eb \<Longrightarrow> kept cap eb eb"
  by (simp add: kept_def)

lemma kept_trans: "kept cap a b \<Longrightarrow> kept cap b c \<Longrightarrow> kept cap a c"
  by (simp add: kept_def)

text \<open>A confirmation removes the events that have been written, and only those.\<close>

lemma ClearWritten_ids:
  assumes "buffer_inv cap eb"
  shows "succeeds (EventBuffer_ClearWritten eb) (\<lambda>eb'. buffer_inv cap eb' \<and>
    event_ids eb' = map event_id (filter (\<lambda>e. st_state e \<noteq> ES_written) (stored_events (eb_storage eb))))"
  using buffer_step_ok [OF assms, of Op_ClearWritten "\<lambda>_ _. []"]
  by (auto simp: op_ok_def buffer_abs_def event_ids_def elim!: succeeds_mono)

lemma EventBuffer_Update_ok:
  assumes "buffer_inv cap eb" and "measurement_ok t (ev_value event)"
  shows "succeeds (EventBuffer_Update t event eb) (buffer_inv cap)"
  using buffer_step_ok [OF assms(1), of "Op_Update t event" "\<lambda>_ _. []"] assms(2) by (auto simp: op_ok_def elim!: succeeds_mono)


section \<open>The static database\<close>

locale static_database =
  fixes sd :: "'d IStaticDatabase" and db_ok :: "'d \<Rightarrow> bool"
  assumes SelectAll_ok: "db_ok db \<Longrightarrow> succeeds (sd_SelectAll sd g db) (\<lambda>(_, db'). db_ok db')"
    and SelectRange_ok: "db_ok db \<Longrightarrow> succeeds (sd_SelectRange sd g rng db) (\<lambda>(_, db'). db_ok db')"
    and Unselect_ok: "db_ok db \<Longrightarrow> succeeds (sd_Unselect sd db) db_ok"
    and Load_ok: "db_ok db \<Longrightarrow> writer_wf hw \<Longrightarrow> succeeds (sd_Load sd hw db) (\<lambda>(fin, hw', db'). grown hw hw' \<and> db_ok db' \<and>
      (fin \<longrightarrow> \<not> sd_HasAnySelection sd db'))"
    and AssignClassToAll_ok: "db_ok db \<Longrightarrow> succeeds (sd_AssignClassToAll sd type clazz db) (\<lambda>(_, db'). db_ok db')"
    and AssignClassToRange_ok: "db_ok db \<Longrightarrow> succeeds (sd_AssignClassToRange sd type clazz rng db) (\<lambda>(_, db'). db_ok db')"
begin

lemma ReadHandler_ok:
  assumes "db_ok db" and "kept cap eb0 eb"
  shows "case ReadHandler_ProcessHeader sd e (db, eb) of
      None \<Rightarrow> True
    | Some r \<Rightarrow> succeeds r (\<lambda>(_, db', eb'). db_ok db' \<and> kept cap eb0 eb')"
proof -
  have "kept cap eb eb' \<Longrightarrow> kept cap eb0 eb'" for eb'
    using assms(2) by (rule kept_trans)
  then show ?thesis
    using assms SelectAll_ok [OF assms(1)] SelectRange_ok [OF assms(1)] events_kept(2,3) [OF kept_inv [OF assms(2)]]
    by (cases e) (fastforce elim!: succeeds_bind split: GroupVariationType.split)+
qed

text \<open>The last response leaves no selection; every other one asks for a confirmation.\<close>

lemma LoadResponse_ok:
  assumes "db_ok db" and "buffer_inv cap eb" and "writer_wf hw"
  shows "succeeds (LoadResponse conv sd count hw db eb) (\<lambda>(control, count', hw', db', eb'). grown hw hw' \<and> db_ok db' \<and> kept cap eb eb' \<and>
    count' = count + 1 \<and> acf_FIR control = (count = 0) \<and> (acf_FIN control \<longrightarrow> \<not> HasSelection sd db' eb') \<and>
    (\<not> acf_FIN control \<longrightarrow> acf_CON control))"
proof -
  obtain notFull hw1 eb1 where 1: "EventBuffer_Load conv hw eb = Some (notFull, hw1, eb1)" "grown hw hw1" "kept cap eb eb1"
    using events_kept(5) [OF assms(2,3), of conv] by (auto elim!: succeedsE)
  have "notFull \<longrightarrow> \<not> HasAnySelection eb1"
    using 1(1) by (auto simp: EventBuffer_Load_def HasAnySelection_def split: bind_splits)
  then show ?thesis
    using 1 assms(1) Load_ok [OF assms(1) grown_wf(2) [OF 1(2)]]
    by (cases notFull)
      (auto simp: LoadResponse_def Let_def AppControlField_init_def HasSelection_def elim!: succeeds_bind intro: grown_trans)
qed

lemma AssignClassHandler_ok:
  assumes "db_ok (ah_database h)"
  shows "case AssignClassHandler_ProcessHeader sd e h of
      None \<Rightarrow> True
    | Some r \<Rightarrow> succeeds r (\<lambda>(_, h'). db_ok (ah_database h'))"
proof -
  have database: "ah_database (NotifyApplicationOfAssignment type clazz rng h) = ah_database h"
      "ah_database (snd (IsExpectingAssignment k h)) = ah_database h" "ah_database (snd (RecordClass k g h)) = ah_database h"
    for type clazz rng k g and h :: "'d AssignClassHandler"
    by (simp_all add: NotifyApplicationOfAssignment_def IsExpectingAssignment_def RecordClass_def Let_def)
  have assign: "succeeds (ProcessAssignAll sd type h) (\<lambda>(_, h'). db_ok (ah_database h'))"
      "succeeds (ProcessAssignRange sd type rng h) (\<lambda>(_, h'). db_ok (ah_database h'))"
    if "db_ok (ah_database h)" for type rng h
    using AssignClassToAll_ok [OF that, of type "ah_clazz h"] AssignClassToRange_ok [OF that, of type "ah_clazz h" rng]
    by (auto simp: ProcessAssignAll_def ProcessAssignRange_def Let_def database elim!: succeeds_bind)
  have expecting: "db_ok (ah_database h1)" if "IsExpectingAssignment k h = (ex, h1)" for k ex h1
    using assms database(2) [of k h] that by simp
  show ?thesis
  proof (cases e)
    case (OnAllObjects header0)
    obtain ex h1 where 1: "IsExpectingAssignment (hr_headerIndex header0) h = (ex, h1)"
      by fastforce
    show ?thesis
      using 1 expecting [OF 1] assign(1) [OF expecting [OF 1]]
        database(3) [of "hr_headerIndex header0" "gvr_enumeration header0" h1]
      by (auto simp: AssignClassHandler_ProcessHeader_def AssignClassHandler_AllObjects_def OnAllObjects split_beta
          split: option.split)
  next
    case (OnRange header0 rng)
    obtain ex h1 where 1: "IsExpectingAssignment (hr_headerIndex header0) h = (ex, h1)"
      by fastforce
    show ?thesis
      using 1 expecting [OF 1] assign(2) [OF expecting [OF 1]]
      by (auto simp: AssignClassHandler_ProcessHeader_def AssignClassHandler_Range_def OnRange split: option.split)
  qed (simp_all add: AssignClassHandler_ProcessHeader_def)
qed

end

end
