(* ===== verification/OutstationBounds.thy ===== *)
theory OutstationBounds
  imports Outstation ReadRequests
begin

text \<open>
  Every operation of the outstation returns and keeps its resources well-formed: the transmit
  buffers, the event buffer and the static database. \<open>served\<close> says in addition what the handling
  of a request leaves alone: the session, that is everything the states depend on, and the events
  that are stored.
\<close>

section \<open>Responses\<close>

definition resp_ok :: "nat \<Rightarrow> APDUWrapper \<Rightarrow> bool" where
  "resp_ok n w \<longleftrightarrow> length (wbuf (apw_buffer w)) = n \<and> wpos (apw_buffer w) = 0 \<and> wsize (apw_buffer w) = n \<and>
     4 \<le> apw_rem_pos w \<and> apw_rem_pos w + apw_rem_size w = n"

definition tx_ok :: "nat \<Rightarrow> TxBuffer \<Rightarrow> bool" where
  "tx_ok n tx \<longleftrightarrow> length (tx_buffer tx) = n \<and> tx_last tx \<le> n"

lemma TxBuffer_Start_ok: "tx_ok n tx \<Longrightarrow> 4 \<le> n \<Longrightarrow> succeeds (TxBuffer_Start tx) (resp_ok n)"
  by (auto simp: TxBuffer_Start_def APDUResponse_of_def APDUWrapper_of_def GetWSlice_def remaining_advance_def Let_def resp_ok_def tx_ok_def)

lemma resp_store:
  assumes "resp_ok n w" and "k < 4"
  shows "succeeds (wslice_store (apw_buffer w) k [b]) (\<lambda>buf. resp_ok n (w\<lparr>apw_buffer := buf\<rparr>))"
proof -
  have "wslice_wf (apw_buffer w)" "k + length [b] \<le> wsize (apw_buffer w)"
    using assms by (auto simp: resp_ok_def wslice_wf_def)
  from wslice_store_succeeds [OF this] show ?thesis
    using assms by (auto simp: resp_ok_def)
qed

lemma response_setters_ok:
  assumes "resp_ok n w"
  shows "succeeds (SetFunction code w) (resp_ok n)" and "succeeds (SetControl control w) (resp_ok n)"
    and "succeeds (SetIIN iin w) (resp_ok n)" and "succeeds (GetControl w) (\<lambda>_. True)"
    and "succeeds (NullUnsolicited seq iin w) (resp_ok n)"
proof -
  have set_fun: "succeeds (SetFunction code w) (resp_ok n)" if "resp_ok n w" for code w
  proof -
    have "0 < wsize (apw_buffer w)"
      using that by (auto simp: resp_ok_def)
    then show ?thesis
      using resp_store [OF that, of 1 "FunctionCodeToType code"] by (auto simp: SetFunction_def elim!: succeeds_bind)
  qed
  have control: "succeeds (SetControl control w) (resp_ok n)" if "resp_ok n w" for control w
    using resp_store [OF that, of 0 "AppControlField_ToByte control"] by (auto simp: SetControl_def elim!: succeeds_bind)
  have iin: "succeeds (SetIIN iin w) (resp_ok n)" if w: "resp_ok n w" for iin w
    unfolding SetIIN_def
  proof (rule succeeds_bind [OF resp_store [OF w, of 2]])
    fix b assume b: "resp_ok n (w\<lparr>apw_buffer := b\<rparr>)"
    show "succeeds (do { b \<leftarrow> wslice_store b 3 [iin_MSB iin]; Some (w\<lparr>apw_buffer := b\<rparr>) }) (resp_ok n)"
      using resp_store [OF b, of 3 "iin_MSB iin"] by (auto elim!: succeeds_bind)
  qed simp
  show "succeeds (SetFunction code w) (resp_ok n)" "succeeds (SetControl control w) (resp_ok n)" "succeeds (SetIIN iin w) (resp_ok n)"
    using assms by (rule set_fun control iin)+
  show "succeeds (GetControl w) (\<lambda>_. True)"
    using assms by (auto simp: GetControl_def rslice_at_def WSlice_ToRSlice_def resp_ok_def)
  show "succeeds (NullUnsolicited seq iin w) (resp_ok n)"
    unfolding NullUnsolicited_def
    by (intro succeeds_bind [OF control [OF assms]] succeeds_bind [OF set_fun] iin)
qed

lemma GetWriter_wf: "resp_ok n w \<Longrightarrow> writer_wf (GetWriter w)"
  by (auto simp: GetWriter_def writer_wf_def HeaderWriter_of_def wslice_wf_def resp_ok_def)

lemma put_writer_ok: "resp_ok n w \<Longrightarrow> grown (GetWriter w) hw \<Longrightarrow> resp_ok n (put_writer hw w)"
  by (auto simp: put_writer_def GetWriter_def HeaderWriter_of_def grown_def Let_def resp_ok_def)

lemma APDU_ToRSlice_length: "resp_ok n w \<Longrightarrow> length (APDU_ToRSlice w) \<le> n"
  by (auto simp: APDU_ToRSlice_def RSlice_Take_def WSlice_ToRSlice_def resp_ok_def)


section \<open>The context\<close>

definition resources_ok :: "(EventType \<Rightarrow> nat) \<Rightarrow> ('d \<Rightarrow> bool) \<Rightarrow> ('x, 'd, 'u) OContext \<Rightarrow> bool" where
  "resources_ok cap db_ok ctx \<longleftrightarrow>
     (let n = op_maxTxFragSize (oc_params ctx)
      in 4 \<le> n \<and> tx_ok n (sol_tx (oc_sol ctx)) \<and> tx_ok n (uns_tx (oc_unsol ctx)) \<and> buffer_inv cap (oc_eventBuffer ctx) \<and>
         db_ok (oc_database ctx))"

text \<open>What the handling of a request, apart from its response, does not change.\<close>

definition session ::
    "('x, 'd, 'u) OContext \<Rightarrow> (nat \<times> bool) \<times> (bool \<times> bool) \<times> TimerRef \<times> RequestHistory \<times> DeferredRequest \<times> OutstationSolState \<times>
       OutstationUnsolState \<times> OutstationStateKind \<times> Addresses \<times> MonotonicTimestamp" where
  "session ctx =
     ((op_maxTxFragSize (oc_params ctx), op_allowUnsolicited (oc_params ctx)), (oc_isOnline ctx, oc_isTransmitting ctx), oc_confirmTimer ctx,
      oc_history ctx, oc_deferred ctx, oc_sol ctx, oc_unsol ctx, oc_state ctx, oc_addresses ctx, oc_now ctx)"

text \<open>The messages handed to the lower layer, the latest first.\<close>

definition transmitted :: "('x, 'd, 'u) OContext \<Rightarrow> Message list" where
  "transmitted ctx = List.map_filter (\<lambda>out. case out of Begin_transmit m \<Rightarrow> Some m | _ \<Rightarrow> None) (oc_outputs ctx)"

definition served :: "(EventType \<Rightarrow> nat) \<Rightarrow> ('d \<Rightarrow> bool) \<Rightarrow> ('x, 'd, 'u) OContext \<Rightarrow> ('x, 'd, 'u) OContext \<Rightarrow> bool" where
  "served cap db_ok ctx ctx' \<longleftrightarrow>
     resources_ok cap db_ok ctx' \<and> session ctx' = session ctx \<and> transmitted ctx' = transmitted ctx \<and>
     kept cap (oc_eventBuffer ctx) (oc_eventBuffer ctx')"

lemma served_trans: "served cap db_ok a b \<Longrightarrow> served cap db_ok b c \<Longrightarrow> served cap db_ok a c"
  by (auto simp: served_def intro: kept_trans)

lemma resources_inv: "resources_ok cap db_ok ctx \<Longrightarrow> buffer_inv cap (oc_eventBuffer ctx)"
  by (simp add: resources_ok_def Let_def)

lemma served_refl: "resources_ok cap db_ok ctx \<Longrightarrow> served cap db_ok ctx ctx"
  by (simp add: served_def kept_refl resources_inv)

text \<open>A context that differs in these members only has been served.\<close>

lemma servedI:
  assumes "resources_ok cap db_ok ctx" and "session ctx' = session ctx" and "oc_outputs ctx' = oc_outputs ctx"
    and "kept cap (oc_eventBuffer ctx) (oc_eventBuffer ctx')" and "db_ok (oc_database ctx')"
  shows "served cap db_ok ctx ctx'"
  using assms by (auto simp: served_def resources_ok_def session_def transmitted_def Let_def kept_def)


section \<open>Controls, writes and other functions\<close>

lemma process_commands_ok:
  assumes "resources_ok cap db_ok ctx" and "\<And>hw. pWriter = Some hw \<Longrightarrow> writer_wf hw"
  shows "succeeds (process_commands env isSelect opType objects pWriter ctx) (\<lambda>(_, _, _, pWriter', ctx'). served cap db_ok ctx ctx' \<and>
    (case pWriter of None \<Rightarrow> pWriter' = None | Some hw \<Rightarrow> \<exists>hw'. pWriter' = Some hw' \<and> grown hw hw'))"
proof -
  define h0 where "h0 = CommandResponseHandler_of (op_maxControlsPerRequest (oc_params ctx)) (False, oc_application ctx) pWriter"
  have h0: "crh_ok pWriter h0"
    using assms(2) by (auto simp: crh_ok_def h0_def CommandResponseHandler_of_def split: option.split)
  obtain r err h where "parse_request True (CommandResponseHandler_ProcessHeader (ActionT (env_commandHandler env) isSelect opType))
        CommandResponseHandler_IsAllowed objects h0 = Some (r, err, h)" "crh_ok pWriter h"
    by (rule succeedsE [OF parse_request_ok [of "crh_ok pWriter" h0
            "CommandResponseHandler_ProcessHeader (ActionT (env_commandHandler env) isSelect opType)" True
            CommandResponseHandler_IsAllowed objects, OF h0 CommandResponseHandler_ok]]) auto
  then show ?thesis
    using assms(1) resources_inv [OF assms(1)]
    by (auto simp: process_commands_def crh_ok_def session_def kept_refl resources_ok_def Let_def simp flip: h0_def intro!: servedI)
qed

lemma HandleWrite_ok:
  assumes "resources_ok cap db_ok ctx"
  shows "succeeds (HandleWrite env objects ctx) (\<lambda>(_, ctx'). served cap db_ok ctx ctx')"
proof -
  have "case WriteHandler_ProcessHeader app seq now e h of None \<Rightarrow> True | Some r \<Rightarrow> succeeds r (\<lambda>(_, h'). True)" for app seq now e and h :: "'u WriteHandler"
    by (auto simp: WriteHandler_ProcessHeader_def split: apdu_event.split)
  note parse = parse_request_ok [of "\<lambda>_. True", OF TrueI this]
  show ?thesis
    unfolding HandleWrite_def
    by (rule succeeds_bind [OF parse])
      (use assms resources_inv [OF assms] in \<open>auto simp: session_def kept_refl resources_ok_def Let_def intro!: servedI\<close>)
qed


lemma parse_any_ok: "(\<And>e s. case process e s of None \<Rightarrow> True | Some r \<Rightarrow> succeeds r (\<lambda>_. True)) \<Longrightarrow>
    succeeds (parse_request ec process A b s) (\<lambda>_. True)"
  using parse_request_ok [of "\<lambda>_. True" s process ec A b] unfolding case_prod_unfold by blast

lemma HandleUnsolicited_ok:
  assumes "resources_ok cap db_ok ctx"
  shows "succeeds (HandleDisableUnsolicited objects ctx) (\<lambda>(_, ctx'). served cap db_ok ctx ctx')"
    and "succeeds (HandleEnableUnsolicited objects ctx) (\<lambda>(_, ctx'). served cap db_ok ctx ctx')"
proof -
  have "case ClassBasedRequestHandler_ProcessHeader e c of None \<Rightarrow> True | Some r \<Rightarrow> succeeds r (\<lambda>_. True)" for e c
    by (auto simp: ClassBasedRequestHandler_ProcessHeader_def split: apdu_event.split option.split)
  then have parse: "succeeds (parse_request True ClassBasedRequestHandler_ProcessHeader allow_all objects 0) (\<lambda>_. True)"
    by (rule parse_any_ok)
  show "succeeds (HandleDisableUnsolicited objects ctx) (\<lambda>(_, ctx'). served cap db_ok ctx ctx')"
    unfolding HandleDisableUnsolicited_def
    by (rule succeeds_bind [OF parse])
      (use assms resources_inv [OF assms] in \<open>auto simp: session_def kept_refl resources_ok_def Let_def intro!: servedI\<close>)
  show "succeeds (HandleEnableUnsolicited objects ctx) (\<lambda>(_, ctx'). served cap db_ok ctx ctx')"
    unfolding HandleEnableUnsolicited_def
    by (rule succeeds_bind [OF parse])
      (use assms resources_inv [OF assms] in \<open>auto simp: session_def kept_refl resources_ok_def Let_def intro!: servedI\<close>)
qed

text \<open>The handlers that write into the response.\<close>

abbreviation responded :: "(EventType \<Rightarrow> nat) \<Rightarrow> ('d \<Rightarrow> bool) \<Rightarrow> HeaderWriter \<Rightarrow> ('x, 'd, 'u) OContext \<Rightarrow>
    IINField \<times> HeaderWriter \<times> ('x, 'd, 'u) OContext \<Rightarrow> bool" where
  "responded cap db_ok hw ctx r \<equiv> (case r of (_, hw', ctx') \<Rightarrow> grown hw hw' \<and> served cap db_ok ctx ctx')"

lemma HandleDirectOperate_ok:
  assumes "resources_ok cap db_ok ctx" and "\<And>hw. pWriter = Some hw \<Longrightarrow> writer_wf hw"
  shows "succeeds (HandleDirectOperate env objects opType pWriter ctx) (\<lambda>(_, pWriter', ctx'). served cap db_ok ctx ctx' \<and>
    (case pWriter of None \<Rightarrow> pWriter' = None | Some hw \<Rightarrow> \<exists>hw'. pWriter' = Some hw' \<and> grown hw hw'))"
proof -
  have "succeeds (do { (result, err, _, pWriter, ctx) \<leftarrow> process_commands env False opType objects pWriter ctx;
      Some (command_iin result err, pWriter, ctx) }) (\<lambda>(_, pWriter', ctx'). served cap db_ok ctx ctx' \<and>
    (case pWriter of None \<Rightarrow> pWriter' = None | Some hw \<Rightarrow> \<exists>hw'. pWriter' = Some hw' \<and> grown hw hw'))"
    by (rule succeeds_bind [OF process_commands_ok [OF assms]]) auto
  then show ?thesis
    using assms served_refl [OF assms(1)] by (auto simp: HandleDirectOperate_def split: option.split)
qed

lemma served_control: "served cap db_ok ctx ctx' \<Longrightarrow> served cap db_ok ctx (ctx'\<lparr>oc_control := c\<rparr>)"
  by (auto simp: served_def resources_ok_def session_def transmitted_def)

lemma HandleSelect_ok:
  assumes "resources_ok cap db_ok ctx" and "writer_wf hw"
  shows "succeeds (HandleSelect env objects hw ctx) (responded cap db_ok hw ctx)"
proof (cases "length objects > HW_Remaining hw")
  case False
  obtain r err ok hw' ctx' where "process_commands env True DirectOperate objects (Some hw) ctx = Some (r, err, ok, Some hw', ctx')"
      "served cap db_ok ctx ctx'" "grown hw hw'"
    using process_commands_ok [OF assms(1), of "Some hw" env True DirectOperate objects] assms(2) by (auto elim!: succeedsE)
  then show ?thesis
    using False by (auto simp: HandleSelect_def Let_def intro: served_control)
qed (use assms served_refl [OF assms(1)] in \<open>simp add: HandleSelect_def\<close>)

lemma HandleOperate_ok:
  assumes "resources_ok cap db_ok ctx" and "writer_wf hw"
  shows "succeeds (HandleOperate env objects hw ctx) (responded cap db_ok hw ctx)"
proof -
  have operate: "succeeds (do {
      (result, err, _, pWriter, ctx) \<leftarrow> process_commands env False SelectBeforeOperate objects (Some hw) ctx;
      writer \<leftarrow> pWriter;
      Some (command_iin result err, writer, ctx) }) (responded cap db_ok hw ctx)"
    using process_commands_ok [OF assms(1), of "Some hw" env False SelectBeforeOperate objects] assms(2) by (auto elim!: succeedsE)
  have refuse: "succeeds (HandleCommandWithConstant objects hw status ctx) (responded cap db_ok hw ctx)" for status
  proof -
    define h0 where "h0 = CommandResponseHandler_of (op_maxControlsPerRequest (oc_params ctx)) () (Some hw)"
    have h0: "crh_ok (Some hw) h0"
      using assms(2) by (simp add: crh_ok_def h0_def CommandResponseHandler_of_def)
    obtain r err h where "parse_request True (CommandResponseHandler_ProcessHeader (ConstantCommandAction status))
        CommandResponseHandler_IsAllowed objects h0 = Some (r, err, h)" "crh_ok (Some hw) h"
      by (rule succeedsE [OF parse_request_ok [of "crh_ok (Some hw)" h0
              "CommandResponseHandler_ProcessHeader (ConstantCommandAction status)" True
              CommandResponseHandler_IsAllowed objects, OF h0 CommandResponseHandler_ok]]) auto
    then show ?thesis
      using served_refl [OF assms(1)] by (auto simp: HandleCommandWithConstant_def crh_ok_def simp flip: h0_def)
  qed
  show ?thesis
    using assms served_refl [OF assms(1)] operate refuse by (simp add: HandleOperate_def Let_def)
qed

lemma Group52_grown:
  assumes "writer_wf hw"
  shows "succeeds (WriteSingleValue IT_UInt8 QC_UINT8_CNT (Group52_serializer variation) v hw) (\<lambda>(_, hw'). grown hw hw')"
  by (rule succeeds_mono [OF WriteSingleValue_grown [OF assms]]) (auto simp: Group52_serializer_def Descriptor_total)

lemma HandleRestart_ok:
  assumes "resources_ok cap db_ok ctx" and "writer_wf hw"
  shows "succeeds (HandleRestart env objects isWarm hw ctx) (responded cap db_ok hw ctx)"
proof -
  have app: "served cap db_ok ctx (ctx\<lparr>oc_application := u\<rparr>)" for u
    using assms(1) by (intro servedI) (auto simp: session_def kept_refl resources_ok_def Let_def)
  show ?thesis
    using assms(2) served_refl [OF assms(1)]
    by (auto simp: HandleRestart_def Let_def split_beta intro!: succeeds_bind [OF Group52_grown [OF assms(2)]] app)
qed

lemma HandleDelayMeasure_ok: "writer_wf hw \<Longrightarrow> succeeds (HandleDelayMeasure objects hw) (\<lambda>(_, hw'). grown hw hw')"
  by (auto simp: HandleDelayMeasure_def elim!: succeeds_bind [OF Group52_grown])

lemma outstation_emit_simps:
  "session (outstation_emit out ctx) = session ctx" "resources_ok cap db_ok (outstation_emit out ctx) = resources_ok cap db_ok ctx"
  "oc_eventBuffer (outstation_emit out ctx) = oc_eventBuffer ctx"
  "transmitted (outstation_emit (Post_class_assignment type clazz start stop) ctx) = transmitted ctx"
  "transmitted (outstation_emit (Begin_transmit m) ctx) = m # transmitted ctx"
  by (simp_all add: outstation_emit_def session_def transmitted_def resources_ok_def List.map_filter_simps)

lemma post_assignments_simps:
  "session (post_assignments posted ctx) = session ctx" "transmitted (post_assignments posted ctx) = transmitted ctx"
  "resources_ok cap db_ok (post_assignments posted ctx) = resources_ok cap db_ok ctx"
  "oc_eventBuffer (post_assignments posted ctx) = oc_eventBuffer ctx"
  by (induction posted arbitrary: ctx) (simp_all add: post_assignments_def outstation_emit_simps split_beta)

lemma GetResponseIIN_ok:
  assumes "resources_ok cap db_ok ctx"
  shows "served cap db_ok ctx (snd (GetResponseIIN env ctx))"
proof -
  have "snd (GetResponseIIN env ctx) = ctx\<lparr>oc_eventBuffer := snd (IsOverflown (oc_eventBuffer ctx))\<rparr>"
    by (simp add: GetResponseIIN_def GetDynamicIIN_def Let_def split_beta)
  then show ?thesis
    using assms events_kept(6) [OF resources_inv [OF assms]]
    by (auto simp: session_def resources_ok_def Let_def intro!: servedI)
qed



section \<open>Responses to requests\<close>

text \<open>Members that no handler changes, and the transmissions of a handler: at most one, which is then outstanding.\<close>

definition setting :: "('x, 'd, 'u) OContext \<Rightarrow> nat \<times> bool \<times> bool \<times> Addresses \<times> MonotonicTimestamp" where
  "setting ctx = (op_maxTxFragSize (oc_params ctx), op_allowUnsolicited (oc_params ctx), oc_isOnline ctx, oc_addresses ctx, oc_now ctx)"

definition tx_step :: "('x, 'd, 'u) OContext \<Rightarrow> ('x, 'd, 'u) OContext \<Rightarrow> bool" where
  "tx_step ctx ctx' \<longleftrightarrow>
     oc_isTransmitting ctx' = oc_isTransmitting ctx \<and> transmitted ctx' = transmitted ctx \<or>
     \<not> oc_isTransmitting ctx \<and> oc_isTransmitting ctx' \<and> (\<exists>m. transmitted ctx' = m # transmitted ctx)"

lemma tx_step_refl [simp]: "tx_step ctx ctx"
  by (simp add: tx_step_def)

lemma tx_step_trans: "tx_step a b \<Longrightarrow> tx_step b c \<Longrightarrow> tx_step a c"
  by (auto simp: tx_step_def)

definition stepped :: "(EventType \<Rightarrow> nat) \<Rightarrow> ('d \<Rightarrow> bool) \<Rightarrow> ('x, 'd, 'u) OContext \<Rightarrow> ('x, 'd, 'u) OContext \<Rightarrow> bool" where
  "stepped cap db_ok ctx ctx' \<longleftrightarrow> resources_ok cap db_ok ctx' \<and> setting ctx' = setting ctx \<and> tx_step ctx ctx'"

lemma stepped_trans: "stepped cap db_ok a b \<Longrightarrow> stepped cap db_ok b c \<Longrightarrow> stepped cap db_ok a c"
  by (auto simp: stepped_def intro: tx_step_trans)

lemma stepped_refl: "resources_ok cap db_ok ctx \<Longrightarrow> stepped cap db_ok ctx ctx"
  by (simp add: stepped_def)

lemma served_step: "served cap db_ok ctx ctx' \<Longrightarrow> stepped cap db_ok ctx ctx'"
  by (simp add: served_def stepped_def setting_def session_def tx_step_def)

text \<open>A transmission: the events are those stored before.\<close>

definition sent :: "(EventType \<Rightarrow> nat) \<Rightarrow> ('d \<Rightarrow> bool) \<Rightarrow> ('x, 'd, 'u) OContext \<Rightarrow> ('x, 'd, 'u) OContext \<Rightarrow> bool" where
  "sent cap db_ok ctx ctx' \<longleftrightarrow> resources_ok cap db_ok ctx' \<and> setting ctx' = setting ctx \<and>
     event_ids (oc_eventBuffer ctx') = event_ids (oc_eventBuffer ctx) \<and> oc_isTransmitting ctx' \<and>
     (\<exists>m. transmitted ctx' = m # transmitted ctx) \<and> oc_deferred ctx' = oc_deferred ctx"

lemma served_sent: "served cap db_ok a b \<Longrightarrow> sent cap db_ok b c \<Longrightarrow> sent cap db_ok a c"
  by (simp add: served_def sent_def setting_def session_def kept_def)

lemma sent_step: "sent cap db_ok ctx ctx' \<Longrightarrow> \<not> oc_isTransmitting ctx \<Longrightarrow> stepped cap db_ok ctx ctx'"
  by (simp add: sent_def stepped_def tx_step_def)

lemma outstation_emit_fields [simp]:
  "setting (outstation_emit out ctx) = setting ctx" "oc_params (outstation_emit out ctx) = oc_params ctx"
  "oc_confirmTimer (outstation_emit out ctx) = oc_confirmTimer ctx" "oc_unsol (outstation_emit out ctx) = oc_unsol ctx"
  "oc_history (outstation_emit out ctx) = oc_history ctx" "oc_state (outstation_emit out ctx) = oc_state ctx"
  "oc_deferred (outstation_emit out ctx) = oc_deferred ctx" "oc_isTransmitting (outstation_emit out ctx) = oc_isTransmitting ctx"
  by (simp_all add: outstation_emit_def setting_def)

text \<open>The transmission of a solicited response, which is also the last response of the channel.\<close>

definition replied :: "u16 \<Rightarrow> ('x, 'd, 'u) OContext \<Rightarrow> ('x, 'd, 'u) OContext \<Rightarrow> bool" where
  "replied destination ctx ctx' \<longleftrightarrow>
     transmitted ctx' = \<lparr>msg_addresses = \<lparr>addr_source = addr_source (oc_addresses ctx), addr_destination = destination\<rparr>,
       msg_payload = GetLastResponse (sol_tx (oc_sol ctx'))\<rparr> # transmitted ctx \<and>
     sol_seq (oc_sol ctx') = sol_seq (oc_sol ctx)"

lemma send_response_ok:
  assumes "resources_ok cap db_ok ctx" and "resp_ok (op_maxTxFragSize (oc_params ctx)) response"
  shows "succeeds (send_response destination response ctx) (\<lambda>ctx'. sent cap db_ok ctx ctx' \<and> oc_confirmTimer ctx' = oc_confirmTimer ctx \<and>
    oc_unsol ctx' = oc_unsol ctx \<and> oc_history ctx' = oc_history ctx \<and> oc_state ctx' = oc_state ctx \<and> replied destination ctx ctx')"
proof -
  obtain control where control: "GetControl response = Some control"
    using response_setters_ok(4) [OF assms(2)] by (auto elim!: succeedsE)
  define ctx' where "ctx' = BeginResponseTx destination (APDU_ToRSlice response) control
    (ctx\<lparr>oc_sol := (oc_sol ctx)\<lparr>sol_tx := tx_written response (sol_tx (oc_sol ctx))\<rparr>\<rparr>)"
  have "GetLastResponse (sol_tx (oc_sol ctx')) = APDU_ToRSlice response"
    using assms(2)
    by (auto simp: ctx'_def BeginResponseTx_def BeginTx_def outstation_emit_def GetLastResponse_def TxBuffer_Record_def tx_written_def
        APDU_ToRSlice_def RSlice_Take_def WSlice_ToRSlice_def resp_ok_def min_def)
  then have "replied destination ctx ctx'"
    by (simp add: replied_def) (simp add: ctx'_def BeginResponseTx_def BeginTx_def outstation_emit_simps, simp add: transmitted_def outstation_emit_def)
  moreover have "sent cap db_ok ctx ctx' \<and> oc_confirmTimer ctx' = oc_confirmTimer ctx \<and> oc_unsol ctx' = oc_unsol ctx \<and>
      oc_history ctx' = oc_history ctx \<and> oc_state ctx' = oc_state ctx"
    using assms APDU_ToRSlice_length [OF assms(2)]
    by (simp add: ctx'_def BeginResponseTx_def BeginTx_def sent_def outstation_emit_simps)
      (simp add: resources_ok_def tx_ok_def tx_written_def TxBuffer_Record_def resp_ok_def setting_def transmitted_def Let_def)
  ultimately show ?thesis
    using control by (simp add: send_response_def Let_def flip: ctx'_def)
qed

lemma send_unsolicited_ok:
  assumes "resources_ok cap db_ok ctx" and "resp_ok (op_maxTxFragSize (oc_params ctx)) response"
  shows "succeeds (send_unsolicited response ctx) (\<lambda>ctx'. sent cap db_ok ctx ctx' \<and> oc_confirmTimer ctx' = oc_confirmTimer ctx \<and>
    uns_completedNull (oc_unsol ctx') = uns_completedNull (oc_unsol ctx) \<and> oc_history ctx' = oc_history ctx \<and> oc_state ctx' = oc_state ctx)"
proof -
  obtain control where "GetControl response = Some control"
    using response_setters_ok(4) [OF assms(2)] by (auto elim!: succeedsE)
  then show ?thesis
    using assms APDU_ToRSlice_length [OF assms(2)]
    by (simp add: send_unsolicited_def Let_def BeginUnsolTx_def BeginTx_def sent_def outstation_emit_simps)
      (simp add: resources_ok_def tx_ok_def tx_written_def TxBuffer_Record_def resp_ok_def setting_def transmitted_def Let_def)
qed

lemma resources_sol: "resources_ok cap db_ok (ctx\<lparr>oc_sol := (oc_sol ctx)\<lparr>sol_seq := q\<rparr>\<rparr>) = resources_ok cap db_ok ctx"
  by (simp add: resources_ok_def)

lemma finish_read_response_ok:
  assumes "resources_ok cap db_ok ctx" and "resp_ok (op_maxTxFragSize (oc_params ctx)) response"
  shows "succeeds (finish_read_response destination seq control iin response ctx) (\<lambda>(k, ctx'). sent cap db_ok ctx ctx' \<and>
    oc_unsol ctx' = oc_unsol ctx \<and> oc_history ctx' = oc_history ctx \<and>
    (if acf_CON control then k = StateSolicitedConfirmWait \<and> oc_confirmTimer ctx' \<noteq> None
     else k = StateIdle \<and> oc_confirmTimer ctx' = oc_confirmTimer ctx))"
proof -
  define ctx1 where "ctx1 = ctx\<lparr>oc_sol := (oc_sol ctx)\<lparr>sol_seq := (sol_seq (oc_sol ctx))\<lparr>sn_confirmNum := seq\<rparr>\<rparr>\<rparr>"
  have ctx1: "resources_ok cap db_ok ctx1" "op_maxTxFragSize (oc_params ctx1) = op_maxTxFragSize (oc_params ctx)"
    using assms(1) by (simp_all add: ctx1_def resources_sol)
  obtain r1 where r1: "SetControl (control\<lparr>acf_SEQ := seq\<rparr>) response = Some r1" "resp_ok (op_maxTxFragSize (oc_params ctx)) r1"
    using response_setters_ok(2) [OF assms(2)] by (auto elim!: succeedsE)
  obtain r2 where r2: "SetIIN iin r1 = Some r2" "resp_ok (op_maxTxFragSize (oc_params ctx)) r2"
    using response_setters_ok(3) [OF r1(2)] by (auto elim!: succeedsE)
  obtain ctx2 where ctx2: "send_response destination r2 ctx1 = Some ctx2" "sent cap db_ok ctx1 ctx2" "oc_confirmTimer ctx2 = oc_confirmTimer ctx1"
      "oc_unsol ctx2 = oc_unsol ctx1" "oc_history ctx2 = oc_history ctx1"
    using send_response_ok [OF ctx1(1), of r2 destination] r2(2) ctx1(2) by (auto elim!: succeedsE)
  have "sent cap db_ok ctx ctx2" "oc_confirmTimer ctx2 = oc_confirmTimer ctx" "oc_unsol ctx2 = oc_unsol ctx" "oc_history ctx2 = oc_history ctx"
    using ctx2(2-5) by (simp_all add: ctx1_def sent_def setting_def transmitted_def)
  moreover have "sent cap db_ok ctx (RestartConfirmTimer ctx2)" if "sent cap db_ok ctx ctx2"
    using that by (auto simp: sent_def RestartConfirmTimer_def setting_def resources_ok_def transmitted_def Let_def)
  ultimately show ?thesis
    using r1(1) r2(1) ctx2(1)
    by (simp add: finish_read_response_def Let_def RestartConfirmTimer_def TimerRef_Restart_def flip: ctx1_def)
qed

locale outstation = static_database "env_database env" db_ok
  for env :: "('x, 'd, 'u) environment" and db_ok :: "'d \<Rightarrow> bool" +
  fixes cap :: "EventType \<Rightarrow> nat"
begin

lemma HandleAssignClass_ok:
  assumes "resources_ok cap db_ok ctx"
  shows "succeeds (HandleAssignClass env objects ctx) (\<lambda>(_, ctx'). served cap db_ok ctx ctx')"
proof -
  obtain supported u where app: "oa_SupportsAssignClass (env_application env) (oc_application ctx) = (supported, u)"
    by fastforce
  have db: "db_ok (ah_database (AssignClassHandler_of (oc_database ctx)))"
    using assms by (simp add: AssignClassHandler_of_def resources_ok_def Let_def)
  obtain r err h where "parse_request False (AssignClassHandler_ProcessHeader (env_database env)) allow_all objects
      (AssignClassHandler_of (oc_database ctx)) = Some (r, err, h)" "db_ok (ah_database h)"
    by (rule succeedsE [OF parse_request_ok [of "\<lambda>h. db_ok (ah_database h)" "AssignClassHandler_of (oc_database ctx)"
            "AssignClassHandler_ProcessHeader (env_database env)" False allow_all objects, OF db AssignClassHandler_ok]]) auto
  moreover have "served cap db_ok ctx (ctx\<lparr>oc_application := u\<rparr>)"
      "db_ok d \<Longrightarrow> served cap db_ok ctx (post_assignments posted (ctx\<lparr>oc_application := u, oc_database := d\<rparr>))" for d posted
    using assms resources_inv [OF assms]
    by (simp_all add: served_def post_assignments_simps kept_refl) (simp_all add: session_def transmitted_def resources_ok_def Let_def)
  ultimately show ?thesis
    by (simp add: HandleAssignClass_def app Let_def)
qed

lemma HandleNonReadResponse_ok:
  assumes "resources_ok cap db_ok ctx" and "writer_wf hw"
  shows "succeeds (HandleNonReadResponse env header0 objects hw ctx) (responded cap db_ok hw ctx)"
proof -
  have refl: "responded cap db_ok hw ctx (iin, hw, ctx)" for iin
    using assms(2) served_refl [OF assms(1)] by simp
  have keep: "succeeds (do { (iin, ctx) \<leftarrow> r; Some (iin, hw, ctx) }) (responded cap db_ok hw ctx)"
    if "succeeds r (\<lambda>(_, ctx'). served cap db_ok ctx ctx')" for r
    using that assms(2) by (auto elim!: succeeds_bind)
  have direct: "succeeds (do {
      (iin, pWriter, ctx) \<leftarrow> HandleDirectOperate env objects DirectOperate (Some hw) ctx;
      writer \<leftarrow> pWriter;
      Some (iin, writer, ctx) }) (responded cap db_ok hw ctx)"
    using HandleDirectOperate_ok [OF assms(1), of "Some hw" env objects DirectOperate] assms(2) by (auto elim!: succeedsE)
  have delay: "succeeds (do { (iin, writer) \<leftarrow> HandleDelayMeasure objects hw; Some (iin, writer, ctx) }) (responded cap db_ok hw ctx)"
    using HandleDelayMeasure_ok [OF assms(2), of objects] served_refl [OF assms(1)] by (auto elim!: succeeds_bind)
  have time: "served cap db_ok ctx (ctx\<lparr>oc_time := t\<rparr>)" for t
    using assms(1) resources_inv [OF assms(1)]
    by (auto simp: session_def kept_refl resources_ok_def Let_def intro!: servedI)
  show ?thesis
    using refl time assms(2)
    by (cases "apdu_function header0")
      (simp_all add: HandleNonReadResponse_def HandleRecordCurrentTime_def keep direct delay HandleWrite_ok [OF assms(1)] HandleSelect_ok [OF assms]
        HandleOperate_ok [OF assms] HandleRestart_ok [OF assms] HandleAssignClass_ok [OF assms(1)] HandleUnsolicited_ok [OF assms(1)])
qed

lemma HandleRead_ok:
  assumes "resources_ok cap db_ok ctx" and "writer_wf hw"
  shows "succeeds (HandleRead env objects hw ctx) (\<lambda>(_, control, hw', ctx'). grown hw hw' \<and> served cap db_ok ctx ctx')"
proof -
  note eb0 = resources_inv [OF assms(1)]
  have db0: "db_ok (oc_database ctx)"
    using assms(1) by (simp add: resources_ok_def Let_def)
  obtain eb1 where eb1: "EventBuffer_Unselect (oc_eventBuffer ctx) = Some eb1" "kept cap (oc_eventBuffer ctx) eb1"
    using events_kept(1) [OF eb0] by (auto elim!: succeedsE)
  obtain db1 where db1: "sd_Unselect (env_database env) (oc_database ctx) = Some db1" "db_ok db1"
    using Unselect_ok [OF db0] by (auto elim!: succeedsE)
  have start: "case (db1, eb1) of (d, b) \<Rightarrow> db_ok d \<and> kept cap (oc_eventBuffer ctx) b"
    using eb1 db1 by simp
  obtain r err db2 eb2 where parse: "parse_request False (ReadHandler_ProcessHeader (env_database env)) allow_all objects (db1, eb1) = Some (r, err, db2, eb2)"
      "db_ok db2" "kept cap (oc_eventBuffer ctx) eb2"
    by (rule succeedsE [OF parse_request_ok [of "\<lambda>(d, b). db_ok d \<and> kept cap (oc_eventBuffer ctx) b" "(db1, eb1)"
            "ReadHandler_ProcessHeader (env_database env)" False allow_all objects, OF start]]) (auto simp: ReadHandler_ok)
  have served: "served cap db_ok ctx (ctx\<lparr>oc_eventBuffer := eb, oc_database := db, oc_fragmentCount := c\<rparr>)"
    if "db_ok db" "kept cap (oc_eventBuffer ctx) eb" for eb db c
    using that assms(1) kept_inv [OF that(2)] by (intro servedI) (simp_all add: session_def)
  show ?thesis
  proof (cases "r = PR_OK")
    case True
    obtain control count hw' db3 eb3 where "LoadResponse (env_conv env) (env_database env) 0 hw db2 eb2 = Some (control, count, hw', db3, eb3)"
        "grown hw hw'" "db_ok db3" "kept cap eb2 eb3"
      using LoadResponse_ok [OF parse(2) kept_inv [OF parse(3)] assms(2), of "env_conv env" 0] by (auto elim!: succeedsE)
    then show ?thesis
      using True eb1(1) db1(1) parse served kept_trans [OF parse(3)] by (simp add: HandleRead_def)
  next
    case False
    then show ?thesis
      using eb1(1) db1(1) parse served assms(2) by (simp add: HandleRead_def)
  qed
qed

end

end
