(* ===== verification/OutstationInvariant.thy ===== *)
theory OutstationInvariant
  imports OutstationBounds
begin

text \<open>
  The invariant of the outstation: the confirm timer runs exactly in the states that wait for a
  confirmation, an offline outstation is idle, a solicited confirmation is awaited for read requests
  only, and nothing that could be done is left undone when an event has been handled.
\<close>

section \<open>Invariants\<close>

text \<open>Of a context whose state is, or is about to become, \<open>k\<close>.\<close>

definition control_ok :: "OutstationStateKind \<Rightarrow> ('x, 'd, 'u) OContext \<Rightarrow> bool" where
  "control_ok k ctx \<longleftrightarrow>
     (oc_confirmTimer ctx \<noteq> None \<longleftrightarrow> k \<noteq> StateIdle) \<and>
     (\<not> oc_isOnline ctx \<longrightarrow> k = StateIdle \<and> \<not> oc_isTransmitting ctx \<and> \<not> dr_isSet (oc_deferred ctx) \<and>
        \<not> uns_completedNull (oc_unsol ctx)) \<and>
     (k = StateSolicitedConfirmWait \<and> rh_hasLast (oc_history ctx) \<longrightarrow> apdu_function (rh_lastHeader (oc_history ctx)) = FC_READ)"

text \<open>Nothing is left to do: no deferred request could be processed, no unsolicited response could be sent.\<close>

definition settled :: "('x, 'd, 'u) OContext \<Rightarrow> bool" where
  "settled ctx \<longleftrightarrow> (CanTransmit ctx \<longrightarrow>
     (dr_isSet (oc_deferred ctx) \<longrightarrow> apdu_function (dr_header (oc_deferred ctx)) = FC_READ \<and> oc_state ctx \<noteq> StateIdle) \<and>
     (oc_state ctx = StateIdle \<and> op_allowUnsolicited (oc_params ctx) \<longrightarrow> uns_completedNull (oc_unsol ctx) \<and>
        \<not> ClassField_Intersects (op_unsolClassMask (oc_params ctx)) (UnwrittenClassField (oc_eventBuffer ctx))))"

definition outstation_inv :: "(EventType \<Rightarrow> nat) \<Rightarrow> ('d \<Rightarrow> bool) \<Rightarrow> ('x, 'd, 'u) OContext \<Rightarrow> bool" where
  "outstation_inv cap db_ok ctx \<longleftrightarrow> resources_ok cap db_ok ctx \<and> control_ok (oc_state ctx) ctx \<and> settled ctx"

text \<open>A confirmation that is awaited.\<close>

definition confirms :: "ParsedRequest \<Rightarrow> ('x, 'd, 'u) OContext \<Rightarrow> bool" where
  "confirms request ctx \<longleftrightarrow> apdu_function (req_header request) = FC_CONFIRM \<and>
     (oc_state ctx = StateSolicitedConfirmWait \<and> \<not> request_UNS request \<and> request_seq request = sn_confirmNum (sol_seq (oc_sol ctx)) \<or>
      oc_state ctx = StateUnsolicitedConfirmWait \<and> request_UNS request \<and> request_seq request = sn_confirmNum (uns_seq (oc_unsol ctx)))"

text \<open>The events after a request: those before, less the written ones if the request is such a confirmation.\<close>

definition events_after :: "ParsedRequest \<Rightarrow> ('x, 'd, 'u) OContext \<Rightarrow> ('x, 'd, 'u) OContext \<Rightarrow> bool" where
  "events_after request ctx ctx' \<longleftrightarrow>
     event_ids (oc_eventBuffer ctx') = event_ids (oc_eventBuffer ctx) \<or>
     confirms request ctx \<and> event_ids (oc_eventBuffer ctx') =
       map event_id (filter (\<lambda>e. st_state e \<noteq> ES_written) (stored_events (eb_storage (oc_eventBuffer ctx))))"

definition deferred_read :: "('x, 'd, 'u) OContext \<Rightarrow> bool" where
  "deferred_read ctx \<longleftrightarrow> (dr_isSet (oc_deferred ctx) \<longrightarrow> apdu_function (dr_header (oc_deferred ctx)) = FC_READ)"

text \<open>A context in which a request can be processed, and what its processing gives: the next state and the context.\<close>

definition ready :: "(EventType \<Rightarrow> nat) \<Rightarrow> ('d \<Rightarrow> bool) \<Rightarrow> ('x, 'd, 'u) OContext \<Rightarrow> bool" where
  "ready cap db_ok ctx \<longleftrightarrow> resources_ok cap db_ok ctx \<and> control_ok (oc_state ctx) ctx \<and> CanTransmit ctx"

definition processed :: "(EventType \<Rightarrow> nat) \<Rightarrow> ('d \<Rightarrow> bool) \<Rightarrow> ParsedRequest \<Rightarrow> ('x, 'd, 'u) OContext \<Rightarrow>
    OutstationStateKind \<times> ('x, 'd, 'u) OContext \<Rightarrow> bool" where
  "processed cap db_ok request ctx r \<longleftrightarrow>
     (case r of (k, ctx') \<Rightarrow> stepped cap db_ok ctx ctx' \<and> control_ok k ctx' \<and> events_after request ctx ctx' \<and>
        (deferred_read ctx \<longrightarrow> deferred_read ctx') \<and> (oc_isTransmitting ctx' \<or> k = oc_state ctx \<or> k = StateIdle))"

lemma control_ok_online: "oc_isOnline ctx \<Longrightarrow> control_ok k ctx \<longleftrightarrow>
    (oc_confirmTimer ctx \<noteq> None \<longleftrightarrow> k \<noteq> StateIdle) \<and>
    (k = StateSolicitedConfirmWait \<and> rh_hasLast (oc_history ctx) \<longrightarrow> apdu_function (rh_lastHeader (oc_history ctx)) = FC_READ)"
  by (simp add: control_ok_def)

lemma ready_online: "ready cap db_ok ctx \<Longrightarrow> oc_isOnline ctx \<and> \<not> oc_isTransmitting ctx \<and> resources_ok cap db_ok ctx"
  by (simp add: ready_def CanTransmit_def)

lemmas context_defs = resources_ok_def setting_def tx_step_def transmitted_def Let_def

lemma sent_processed:
  assumes "sent cap db_ok ctx0 ctx'" and "\<not> oc_isTransmitting ctx0" and "stepped cap db_ok ctx ctx0"
    and "events_after request ctx ctx0" and "control_ok k ctx'" and "deferred_read ctx \<longrightarrow> deferred_read ctx0"
  shows "processed cap db_ok request ctx (k, ctx')"
  using assms stepped_trans [OF assms(3) sent_step [OF assms(1,2)]]
  by (simp add: processed_def events_after_def sent_def deferred_read_def)

lemma sent_online: "sent cap db_ok ctx ctx' \<Longrightarrow> oc_isOnline ctx' = oc_isOnline ctx"
  by (simp add: sent_def setting_def)

lemma resp_start:
  assumes "resources_ok cap db_ok ctx"
  shows "succeeds (TxBuffer_Start (sol_tx (oc_sol ctx))) (resp_ok (op_maxTxFragSize (oc_params ctx)))"
    and "succeeds (TxBuffer_Start (uns_tx (oc_unsol ctx))) (resp_ok (op_maxTxFragSize (oc_params ctx)))"
  using assms by (auto simp: resources_ok_def Let_def intro: TxBuffer_Start_ok)

lemma served_session:
  assumes "served cap db_ok ctx ctx'"
  shows "op_maxTxFragSize (oc_params ctx') = op_maxTxFragSize (oc_params ctx)" "oc_isTransmitting ctx' = oc_isTransmitting ctx"
    "oc_confirmTimer ctx' = oc_confirmTimer ctx" "oc_history ctx' = oc_history ctx" "oc_unsol ctx' = oc_unsol ctx" "oc_state ctx' = oc_state ctx"
    "oc_deferred ctx' = oc_deferred ctx" "oc_isOnline ctx' = oc_isOnline ctx" "resources_ok cap db_ok ctx'"
  using assms by (simp_all add: served_def session_def)


section \<open>Responses\<close>

context outstation
begin

lemma RespondToNonReadRequest_ok:
  assumes "resources_ok cap db_ok ctx"
  shows "succeeds (RespondToNonReadRequest env request ctx) (\<lambda>ctx'. sent cap db_ok ctx ctx' \<and> oc_confirmTimer ctx' = oc_confirmTimer ctx \<and>
    oc_unsol ctx' = oc_unsol ctx \<and> oc_state ctx' = oc_state ctx \<and>
    oc_history ctx' = RecordLastProcessedRequest (req_header request) (req_objects request) (oc_history ctx) \<and>
    replied (addr_source (req_addresses request)) ctx ctx')"
proof -
  define n where "n = op_maxTxFragSize (oc_params ctx)"
  define ctx1 where "ctx1 = ctx\<lparr>oc_history := RecordLastProcessedRequest (req_header request) (req_objects request) (oc_history ctx)\<rparr>"
  have ctx1: "resources_ok cap db_ok ctx1"
    using assms by (simp add: ctx1_def resources_ok_def)
  obtain r1 where r1: "TxBuffer_Start (sol_tx (oc_sol ctx1)) = Some r1" "resp_ok n r1"
    using resp_start(1) [OF ctx1] by (auto simp: ctx1_def n_def elim!: succeedsE)
  obtain r2 where r2: "SetFunction FC_RESPONSE r1 = Some r2" "resp_ok n r2"
    using response_setters_ok(1) [OF r1(2)] by (auto elim!: succeedsE)
  obtain r3 where r3: "SetControl ((AppControlField_init True True False False)\<lparr>acf_SEQ := acf_SEQ (apdu_control (req_header request))\<rparr>) r2 = Some r3" "resp_ok n r3"
    using response_setters_ok(2) [OF r2(2)] by (auto elim!: succeedsE)
  obtain iin hw ctx2 where hw: "HandleNonReadResponse env (req_header request) (req_objects request) (GetWriter r3) ctx1 = Some (iin, hw, ctx2)"
      "grown (GetWriter r3) hw" "served cap db_ok ctx1 ctx2"
    using HandleNonReadResponse_ok [OF ctx1 GetWriter_wf [OF r3(2)], of "req_header request" "req_objects request"] by (auto elim!: succeedsE)
  obtain riin ctx3 where ctx3: "GetResponseIIN env ctx2 = (riin, ctx3)" "served cap db_ok ctx2 ctx3"
    using GetResponseIIN_ok [OF served_session(9) [OF hw(3)], of env] by (cases "GetResponseIIN env ctx2") auto
  have served: "served cap db_ok ctx1 ctx3"
    using hw(3) ctx3(2) by (rule served_trans)
  obtain r4 where r4: "SetIIN (IINField_or iin riin) (put_writer hw r3) = Some r4" "resp_ok n r4"
    using response_setters_ok(3) [OF put_writer_ok [OF r3(2) hw(2)]] by (auto elim!: succeedsE)
  have n: "op_maxTxFragSize (oc_params ctx3) = n"
    using served_session(1) [OF served] by (simp add: ctx1_def n_def)
  obtain ctx4 where ctx4: "send_response (addr_source (req_addresses request)) r4 ctx3 = Some ctx4" "sent cap db_ok ctx3 ctx4"
      "oc_confirmTimer ctx4 = oc_confirmTimer ctx3" "oc_unsol ctx4 = oc_unsol ctx3" "oc_history ctx4 = oc_history ctx3" "oc_state ctx4 = oc_state ctx3"
      "replied (addr_source (req_addresses request)) ctx3 ctx4"
    using send_response_ok [OF served_session(9) [OF served], of r4 "addr_source (req_addresses request)"] r4(2) n by (auto elim!: succeedsE)
  have "sent cap db_ok ctx1 ctx4"
    by (rule served_sent [OF served ctx4(2)])
  then have "sent cap db_ok ctx ctx4"
    by (auto simp: sent_def ctx1_def setting_def transmitted_def)
  moreover have "RespondToNonReadRequest env request ctx = Some ctx4"
    using r1(1) r2(1) r3(1) hw(1) ctx3(1) r4(1) ctx4(1) by (simp add: RespondToNonReadRequest_def Let_def flip: ctx1_def)
  moreover have "replied (addr_source (req_addresses request)) ctx ctx4"
    using ctx4(7) served by (simp add: replied_def served_def session_def) (simp add: ctx1_def transmitted_def)
  ultimately show ?thesis
    using ctx4 served_session [OF served] by (simp add: ctx1_def)
qed

lemma RespondToReadRequest_ok:
  assumes "resources_ok cap db_ok ctx"
  shows "succeeds (RespondToReadRequest env request ctx) (\<lambda>(k, ctx'). sent cap db_ok ctx ctx' \<and> oc_unsol ctx' = oc_unsol ctx \<and>
    oc_history ctx' = RecordLastProcessedRequest (req_header request) (req_objects request) (oc_history ctx) \<and>
    (k = StateSolicitedConfirmWait \<and> oc_confirmTimer ctx' \<noteq> None \<or> k = StateIdle \<and> oc_confirmTimer ctx' = oc_confirmTimer ctx))"
proof -
  define n where "n = op_maxTxFragSize (oc_params ctx)"
  define ctx1 where "ctx1 = ctx\<lparr>oc_history := RecordLastProcessedRequest (req_header request) (req_objects request) (oc_history ctx)\<rparr>"
  have ctx1: "resources_ok cap db_ok ctx1"
    using assms by (simp add: ctx1_def resources_ok_def)
  obtain r1 where r1: "TxBuffer_Start (sol_tx (oc_sol ctx1)) = Some r1" "resp_ok n r1"
    using resp_start(1) [OF ctx1] by (auto simp: ctx1_def n_def elim!: succeedsE)
  obtain r2 where r2: "SetFunction FC_RESPONSE r1 = Some r2" "resp_ok n r2"
    using response_setters_ok(1) [OF r1(2)] by (auto elim!: succeedsE)
  obtain err control hw ctx2 where hw: "HandleRead env (req_objects request) (GetWriter r2) ctx1 = Some (err, control, hw, ctx2)"
      "grown (GetWriter r2) hw" "served cap db_ok ctx1 ctx2"
    using HandleRead_ok [OF ctx1 GetWriter_wf [OF r2(2)], of "req_objects request"] by (auto elim!: succeedsE)
  obtain riin ctx3 where ctx3: "GetResponseIIN env ctx2 = (riin, ctx3)" "served cap db_ok ctx2 ctx3"
    using GetResponseIIN_ok [OF served_session(9) [OF hw(3)], of env] by (cases "GetResponseIIN env ctx2") auto
  have served: "served cap db_ok ctx1 ctx3"
    using hw(3) ctx3(2) by (rule served_trans)
  have r3: "resp_ok (op_maxTxFragSize (oc_params ctx3)) (put_writer hw r2)"
    using served_session(1) [OF served] put_writer_ok [OF r2(2) hw(2)] by (simp add: ctx1_def n_def)
  obtain k ctx4 where ctx4: "finish_read_response (addr_source (req_addresses request)) (acf_SEQ (apdu_control (req_header request))) control
        (IINField_or err riin) (put_writer hw r2) ctx3 = Some (k, ctx4)" "sent cap db_ok ctx3 ctx4" "oc_unsol ctx4 = oc_unsol ctx3"
      "oc_history ctx4 = oc_history ctx3"
      "if acf_CON control then k = StateSolicitedConfirmWait \<and> oc_confirmTimer ctx4 \<noteq> None else k = StateIdle \<and> oc_confirmTimer ctx4 = oc_confirmTimer ctx3"
    using finish_read_response_ok [OF served_session(9) [OF served] r3, of "addr_source (req_addresses request)" "acf_SEQ (apdu_control (req_header request))" control "IINField_or err riin"] by (auto elim!: succeedsE)
  have "sent cap db_ok ctx1 ctx4"
    by (rule served_sent [OF served ctx4(2)])
  then have "sent cap db_ok ctx ctx4"
    by (auto simp: sent_def ctx1_def setting_def transmitted_def)
  moreover have "RespondToReadRequest env request ctx = Some (k, ctx4)"
    using r1(1) r2(1) hw(1) ctx3(1) ctx4(1) by (simp add: RespondToReadRequest_def Let_def flip: ctx1_def)
  ultimately show ?thesis
    using ctx4(3-5) served_session [OF served] by (auto simp: ctx1_def split: if_splits)
qed

lemma ContinueMultiFragResponse_ok:
  assumes "resources_ok cap db_ok ctx"
  shows "succeeds (ContinueMultiFragResponse env addresses seq ctx) (\<lambda>(k, ctx'). sent cap db_ok ctx ctx' \<and> oc_unsol ctx' = oc_unsol ctx \<and>
    oc_history ctx' = oc_history ctx \<and>
    (k = StateSolicitedConfirmWait \<and> oc_confirmTimer ctx' \<noteq> None \<or> k = StateIdle \<and> oc_confirmTimer ctx' = oc_confirmTimer ctx))"
proof -
  define n where "n = op_maxTxFragSize (oc_params ctx)"
  have db: "db_ok (oc_database ctx)" and eb: "buffer_inv cap (oc_eventBuffer ctx)"
    using assms by (simp_all add: resources_ok_def Let_def)
  obtain r1 where r1: "TxBuffer_Start (sol_tx (oc_sol ctx)) = Some r1" "resp_ok n r1"
    using resp_start(1) [OF assms] by (auto simp: n_def elim!: succeedsE)
  obtain r2 where r2: "SetFunction FC_RESPONSE r1 = Some r2" "resp_ok n r2"
    using response_setters_ok(1) [OF r1(2)] by (auto elim!: succeedsE)
  obtain control count hw db1 eb1 where load: "LoadResponse (env_conv env) (env_database env) (oc_fragmentCount ctx) (GetWriter r2) (oc_database ctx) (oc_eventBuffer ctx) =
        Some (control, count, hw, db1, eb1)" "grown (GetWriter r2) hw" "db_ok db1" "kept cap (oc_eventBuffer ctx) eb1"
    using LoadResponse_ok [OF db eb GetWriter_wf [OF r2(2)], of "env_conv env" "oc_fragmentCount ctx"] by (auto elim!: succeedsE)
  define ctx1 where "ctx1 = ctx\<lparr>oc_eventBuffer := eb1, oc_database := db1, oc_fragmentCount := count\<rparr>"
  have ctx1: "served cap db_ok ctx ctx1"
    using assms load(3,4) by (intro servedI) (simp_all add: ctx1_def session_def)
  obtain riin ctx3 where ctx3: "GetResponseIIN env ctx1 = (riin, ctx3)" "served cap db_ok ctx1 ctx3"
    using GetResponseIIN_ok [OF served_session(9) [OF ctx1], of env] by (cases "GetResponseIIN env ctx1") auto
  have served: "served cap db_ok ctx ctx3"
    using ctx1 ctx3(2) by (rule served_trans)
  have r3: "resp_ok (op_maxTxFragSize (oc_params ctx3)) (put_writer hw r2)"
    using served_session(1) [OF served] put_writer_ok [OF r2(2) load(2)] by (simp add: n_def)
  obtain k ctx4 where ctx4: "finish_read_response (addr_source addresses) seq control riin (put_writer hw r2) ctx3 = Some (k, ctx4)"
      "sent cap db_ok ctx3 ctx4" "oc_unsol ctx4 = oc_unsol ctx3" "oc_history ctx4 = oc_history ctx3"
      "if acf_CON control then k = StateSolicitedConfirmWait \<and> oc_confirmTimer ctx4 \<noteq> None else k = StateIdle \<and> oc_confirmTimer ctx4 = oc_confirmTimer ctx3"
    using finish_read_response_ok [OF served_session(9) [OF served] r3, of "addr_source addresses" seq control riin] by (auto elim!: succeedsE)
  have "sent cap db_ok ctx ctx4"
    by (rule served_sent [OF served ctx4(2)])
  moreover have "ContinueMultiFragResponse env addresses seq ctx = Some (k, ctx4)"
    using r1(1) r2(1) load(1) ctx3(1) ctx4(1) by (simp add: ContinueMultiFragResponse_def Let_def flip: ctx1_def)
  ultimately show ?thesis
    using ctx4(3-5) served_session [OF served] by (auto split: if_splits)
qed

end

end
