(* ===== verification/OutstationEvents.thy ===== *)
theory OutstationEvents
  imports OutstationInvariant
begin

text \<open>
  The state handlers and the events of the outstation: each returns, keeps the invariant, transmits
  at most once, and removes stored events for a matching confirmation only.
\<close>

section \<open>State handlers\<close>

lemma resend_last_ok:
  assumes "resources_ok cap db_ok ctx"
  shows "sent cap db_ok ctx (resend_last request ctx) \<and> oc_confirmTimer (resend_last request ctx) = oc_confirmTimer ctx \<and>
    oc_history (resend_last request ctx) = oc_history ctx \<and> oc_state (resend_last request ctx) = oc_state ctx"
proof -
  have "length (GetLastResponse (sol_tx (oc_sol ctx))) \<le> op_maxTxFragSize (oc_params ctx)"
    using assms by (simp add: GetLastResponse_def tx_ok_def context_defs)
  then show ?thesis
    using assms
    by (simp add: resend_last_def BeginResponseTx_def BeginTx_def sent_def outstation_emit_simps)
      (simp add: context_defs tx_ok_def TxBuffer_Record_def)
qed

lemma set_deferred_ok:
  "\<exists>objects buffer. set_deferred request ctx = Some (ctx\<lparr>oc_deferred := \<lparr>dr_isSet = True, dr_addresses = req_addresses request,
     dr_header = req_header request, dr_objects = objects, dr_buffer = buffer\<rparr>\<rparr>)"
proof -
  have "succeeds (RSlice_CopyTo (req_objects request) (GetWSlice (dr_buffer (oc_deferred ctx)))) (\<lambda>_. True)"
  proof (cases "length (dr_buffer (oc_deferred ctx)) < length (req_objects request)")
    case False
    then have "wslice_wf (GetWSlice (dr_buffer (oc_deferred ctx)))"
        "0 + length (req_objects request) \<le> wsize (GetWSlice (dr_buffer (oc_deferred ctx)))"
      by (simp_all add: GetWSlice_def wslice_wf_def)
    from wslice_store_succeeds [OF this] show ?thesis
      using False by (auto simp: RSlice_CopyTo_def GetWSlice_def Let_def elim!: succeedsE)
  qed (simp add: RSlice_CopyTo_def GetWSlice_def)
  then obtain objects dest where "RSlice_CopyTo (req_objects request) (GetWSlice (dr_buffer (oc_deferred ctx))) = Some (objects, dest)"
    by (auto elim!: succeedsE)
  then show ?thesis
    by (cases "oc_deferred ctx") (auto simp: set_deferred_def DeferredRequest_Set_def)
qed

lemma deferred_processed:
  assumes "ready cap db_ok ctx" and "apdu_function (req_header request) = FC_READ"
  shows "succeeds (map_option (Pair (oc_state ctx)) (set_deferred request ctx)) (processed cap db_ok request ctx)"
  using assms set_deferred_ok [of request ctx]
  by (auto simp: processed_def ready_def stepped_def context_defs control_ok_def events_after_def deferred_read_def CanTransmit_def)

lemma succeeds_map_Pair: "succeeds m P \<Longrightarrow> (\<And>x. P x \<Longrightarrow> Q (k, x)) \<Longrightarrow> succeeds (map_option (Pair k) m) Q"
  by (cases m) auto

lemma clear_written_ok:
  assumes "resources_ok cap db_ok ctx"
  shows "\<exists>eb'. outstation_clear_written ctx = Some (ctx\<lparr>oc_eventBuffer := eb'\<rparr>) \<and> buffer_inv cap eb' \<and>
    event_ids eb' = map event_id (filter (\<lambda>e. st_state e \<noteq> ES_written) (stored_events (eb_storage (oc_eventBuffer ctx))))"
  using ClearWritten_ids [OF resources_inv [OF assms]] by (auto simp: outstation_clear_written_def elim!: succeedsE)

context outstation
begin

lemma SolicitedConfirmWait_OnConfirm_ok:
  assumes "ready cap db_ok ctx" and "oc_state ctx = StateSolicitedConfirmWait" and "apdu_function (req_header request) = FC_CONFIRM"
  shows "succeeds (SolicitedConfirmWait_OnConfirm env request ctx) (processed cap db_ok request ctx)"
proof (cases "request_UNS request \<or> sn_confirmNum (sol_seq (oc_sol ctx)) \<noteq> request_seq request")
  case True
  then show ?thesis
    using assms by (auto simp: SolicitedConfirmWait_OnConfirm_def processed_def ready_def stepped_refl events_after_def)
next
  case False
  have res: "resources_ok cap db_ok (confirmed ctx)"
    using assms(1) by (simp add: confirmed_def CancelConfirmTimer_def ready_def context_defs)
  obtain eb where eb: "outstation_clear_written (confirmed ctx) = Some ((confirmed ctx)\<lparr>oc_eventBuffer := eb\<rparr>)" "buffer_inv cap eb"
      "event_ids eb = map event_id (filter (\<lambda>e. st_state e \<noteq> ES_written) (stored_events (eb_storage (oc_eventBuffer ctx))))"
    using clear_written_ok [OF res] by (auto simp: confirmed_def CancelConfirmTimer_def)
  define ctx1 where "ctx1 = (confirmed ctx)\<lparr>oc_eventBuffer := eb\<rparr>"
  have step: "stepped cap db_ok ctx ctx1"
    using assms(1) eb(2) by (simp add: ctx1_def confirmed_def CancelConfirmTimer_def ready_def stepped_def context_defs)
  have "confirms request ctx"
    using False assms(2,3) by (simp add: confirms_def)
  then have events: "events_after request ctx ctx1"
    using eb(3) by (simp add: events_after_def ctx1_def)
  have same: "oc_isOnline ctx1" "\<not> oc_isTransmitting ctx1" "oc_confirmTimer ctx1 = None" "\<not> rh_hasLast (oc_history ctx1)"
      "oc_deferred ctx1 = oc_deferred ctx"
    using ready_online [OF assms(1)] by (simp_all add: ctx1_def confirmed_def CancelConfirmTimer_def RequestHistory_Reset_def)
  have res1: "resources_ok cap db_ok ctx1"
    using step by (simp add: stepped_def)
  have continue: "succeeds (ContinueMultiFragResponse env addresses seq ctx1) (processed cap db_ok request ctx)" for addresses seq
    by (rule succeeds_mono [OF ContinueMultiFragResponse_ok [OF res1]])
      (auto intro!: sent_processed [OF _ same(2) step events] simp: control_ok_online sent_online same deferred_read_def)
  have idle: "processed cap db_ok request ctx (StateIdle, ctx1)"
    using step events same by (simp add: processed_def control_ok_online deferred_read_def)
  show ?thesis
    using False eb(1) continue idle by (simp add: SolicitedConfirmWait_OnConfirm_def flip: ctx1_def)
qed

lemma UnsolicitedConfirmWait_OnConfirm_ok:
  assumes "ready cap db_ok ctx" and "oc_state ctx = StateUnsolicitedConfirmWait" and "apdu_function (req_header request) = FC_CONFIRM"
  shows "succeeds (UnsolicitedConfirmWait_OnConfirm env request ctx) (processed cap db_ok request ctx)"
proof (cases "\<not> request_UNS request \<or> sn_confirmNum (uns_seq (oc_unsol ctx)) \<noteq> request_seq request")
  case True
  then show ?thesis
    using assms by (auto simp: UnsolicitedConfirmWait_OnConfirm_def processed_def ready_def stepped_refl events_after_def)
next
  case False
  have res: "resources_ok cap db_ok (confirmed ctx)"
    using assms(1) by (simp add: confirmed_def CancelConfirmTimer_def ready_def context_defs)
  obtain eb where eb: "outstation_clear_written (confirmed ctx) = Some ((confirmed ctx)\<lparr>oc_eventBuffer := eb\<rparr>)" "buffer_inv cap eb"
      "event_ids eb = map event_id (filter (\<lambda>e. st_state e \<noteq> ES_written) (stored_events (eb_storage (oc_eventBuffer ctx))))"
    using clear_written_ok [OF res] by (auto simp: confirmed_def CancelConfirmTimer_def)
  have confirms: "confirms request ctx"
    using False assms(2,3) by (simp add: confirms_def)
  have "processed cap db_ok request ctx (StateIdle, (confirmed ctx)\<lparr>oc_eventBuffer := eb\<rparr>)"
      "processed cap db_ok request ctx (StateIdle, (confirmed ctx)\<lparr>oc_unsol := (oc_unsol ctx)\<lparr>uns_completedNull := True\<rparr>\<rparr>)"
    using assms(1) eb(2,3) confirms
    by (simp_all add: processed_def stepped_def context_defs confirmed_def CancelConfirmTimer_def control_ok_def ready_def CanTransmit_def
        events_after_def deferred_read_def)
  then show ?thesis
    using False eb(1) by (simp add: UnsolicitedConfirmWait_OnConfirm_def Let_def) (simp add: confirmed_def CancelConfirmTimer_def)
qed

lemma OnConfirm_ok:
  assumes "ready cap db_ok ctx" and "apdu_function (req_header request) = FC_CONFIRM"
  shows "succeeds (OnConfirm env request ctx) (processed cap db_ok request ctx)"
proof (cases "oc_state ctx")
  case StateIdle
  then show ?thesis
    using assms by (auto simp: OnConfirm_def processed_def ready_def stepped_refl events_after_def)
qed (use assms SolicitedConfirmWait_OnConfirm_ok UnsolicitedConfirmWait_OnConfirm_ok in \<open>simp_all add: OnConfirm_def\<close>)

end

definition progress :: "(EventType \<Rightarrow> nat) \<Rightarrow> ('d \<Rightarrow> bool) \<Rightarrow> ParsedRequest \<Rightarrow> ('x, 'd, 'u) OContext \<Rightarrow> ('x, 'd, 'u) OContext \<Rightarrow> bool" where
  "progress cap db_ok request ctx ctx' \<longleftrightarrow> stepped cap db_ok ctx ctx' \<and> control_ok (oc_state ctx') ctx' \<and>
     events_after request ctx ctx' \<and> (deferred_read ctx \<longrightarrow> deferred_read ctx') \<and>
     (oc_isTransmitting ctx' \<or> oc_state ctx' = oc_state ctx \<or> oc_state ctx' = StateIdle)"

context outstation
begin

lemma OnNewReadRequest_ok:
  assumes "ready cap db_ok ctx" and "apdu_function (req_header request) = FC_READ"
  shows "succeeds (OnNewReadRequest env request ctx) (processed cap db_ok request ctx)"
proof -
  have respond: "succeeds (RespondToReadRequest env request ctx1) (processed cap db_ok request ctx)"
    if "stepped cap db_ok ctx ctx1" "oc_isOnline ctx1" "\<not> oc_isTransmitting ctx1" "oc_confirmTimer ctx1 = None"
      "oc_eventBuffer ctx1 = oc_eventBuffer ctx" "oc_deferred ctx1 = oc_deferred ctx" for ctx1
  proof -
    have res1: "resources_ok cap db_ok ctx1"
      using that(1) by (simp add: stepped_def)
    show ?thesis
      by (rule succeeds_mono [OF RespondToReadRequest_ok [OF res1]])
        (auto intro!: sent_processed [OF _ that(3,1)] simp: control_ok_online sent_online that(2,4-6) deferred_read_def events_after_def
          RecordLastProcessedRequest_def assms(2))
  qed
  have "stepped cap db_ok ctx ctx" "stepped cap db_ok ctx (CancelConfirmTimer ctx)"
    using assms(1) by (simp_all add: stepped_def CancelConfirmTimer_def ready_def context_defs)
  then show ?thesis
    using assms(1) ready_online [OF assms(1)] respond [of ctx] respond [of "CancelConfirmTimer ctx"] deferred_processed [OF assms]
    by (cases "oc_state ctx") (simp_all add: OnNewReadRequest_def CancelConfirmTimer_def ready_def control_ok_def)
qed

lemma OnNewNonReadRequest_ok:
  assumes "ready cap db_ok ctx"
  shows "succeeds (OnNewNonReadRequest env request ctx) (processed cap db_ok request ctx)"
proof -
  have respond: "succeeds (map_option (Pair k) (RespondToNonReadRequest env request ctx1)) (processed cap db_ok request ctx)"
    if "stepped cap db_ok ctx ctx1" "oc_isOnline ctx1" "\<not> oc_isTransmitting ctx1" "oc_confirmTimer ctx1 \<noteq> None \<longleftrightarrow> k \<noteq> StateIdle"
      "k \<noteq> StateSolicitedConfirmWait" "oc_eventBuffer ctx1 = oc_eventBuffer ctx" "deferred_read ctx \<longrightarrow> deferred_read ctx1" for ctx1 k
  proof -
    have res1: "resources_ok cap db_ok ctx1"
      using that(1) by (simp add: stepped_def)
    show ?thesis
      by (rule succeeds_map_Pair [OF RespondToNonReadRequest_ok [OF res1]])
        (use that(4,5) in \<open>auto intro!: sent_processed [OF _ that(3,1) _ _ that(7)] simp: control_ok_online sent_online that(2,6) events_after_def\<close>)
  qed
  have "stepped cap db_ok ctx ctx" "stepped cap db_ok ctx (CancelConfirmTimer ctx)"
      "stepped cap db_ok ctx (ctx\<lparr>oc_deferred := DeferredRequest_Reset (oc_deferred ctx)\<rparr>)"
    using assms(1) by (simp_all add: stepped_def CancelConfirmTimer_def ready_def context_defs)
  then show ?thesis
    using assms(1) ready_online [OF assms(1)] respond [of ctx StateIdle] respond [of "CancelConfirmTimer ctx" StateIdle]
      respond [of "ctx\<lparr>oc_deferred := DeferredRequest_Reset (oc_deferred ctx)\<rparr>" StateUnsolicitedConfirmWait]
    by (cases "oc_state ctx")
      (simp_all add: OnNewNonReadRequest_def CancelConfirmTimer_def ready_def control_ok_def deferred_read_def DeferredRequest_Reset_def)
qed

lemma resend_processed:
  assumes "ready cap db_ok ctx" and "stepped cap db_ok ctx ctx1" and "\<not> oc_isTransmitting ctx1" and "oc_eventBuffer ctx1 = oc_eventBuffer ctx"
    and "oc_deferred ctx1 = oc_deferred ctx" and "oc_history ctx1 = oc_history ctx" and "oc_confirmTimer ctx1 \<noteq> None \<longleftrightarrow> k \<noteq> StateIdle"
    and "k = StateSolicitedConfirmWait \<longrightarrow> oc_state ctx = k"
  shows "processed cap db_ok request ctx (k, resend_last request ctx1)"
proof (rule sent_processed [OF _ assms(3,2)])
  have sent: "sent cap db_ok ctx1 (resend_last request ctx1)" "oc_confirmTimer (resend_last request ctx1) = oc_confirmTimer ctx1"
      "oc_history (resend_last request ctx1) = oc_history ctx1"
    using resend_last_ok [of cap db_ok ctx1 request] assms(2) by (simp_all add: stepped_def)
  show "sent cap db_ok ctx1 (resend_last request ctx1)"
    by (rule sent(1))
  have "oc_isOnline ctx1"
    using assms(1,2) by (simp add: stepped_def setting_def ready_def CanTransmit_def)
  then show "control_ok k (resend_last request ctx1)"
    using assms(1,6-8) sent by (auto simp: control_ok_online sent_online) (auto simp: ready_def control_ok_def)
qed (use assms(4,5) in \<open>simp_all add: events_after_def deferred_read_def\<close>)

lemma OnRepeatRequest_ok:
  assumes "ready cap db_ok ctx"
  shows "apdu_function (req_header request) = FC_READ \<Longrightarrow>
      succeeds (OnRepeatReadRequest env request ctx) (processed cap db_ok request ctx)"
    and "apdu_function (req_header request) \<noteq> FC_READ \<Longrightarrow> FullyEqualsLastRequest (oc_history ctx) (req_header request) (req_objects request) \<Longrightarrow>
      succeeds (OnRepeatNonReadRequest env request ctx) (processed cap db_ok request ctx)"
proof -
  have "stepped cap db_ok ctx ctx" "stepped cap db_ok ctx (RestartConfirmTimer ctx)"
    using assms by (simp_all add: stepped_def RestartConfirmTimer_def ready_def context_defs)
  note resend = resend_processed [OF assms this(1)] resend_processed [OF assms this(2)]
  show "apdu_function (req_header request) = FC_READ \<Longrightarrow>
      succeeds (OnRepeatReadRequest env request ctx) (processed cap db_ok request ctx)"
    using assms resend deferred_processed [OF assms, of request]
    by (cases "oc_state ctx")
      (auto simp: OnRepeatReadRequest_def RestartConfirmTimer_def TimerRef_Restart_def ready_def control_ok_def CanTransmit_def)
  show "apdu_function (req_header request) \<noteq> FC_READ \<Longrightarrow> FullyEqualsLastRequest (oc_history ctx) (req_header request) (req_objects request) \<Longrightarrow>
      succeeds (OnRepeatNonReadRequest env request ctx) (processed cap db_ok request ctx)"
    using assms resend
    by (cases "oc_state ctx")
      (auto simp: OnRepeatNonReadRequest_def ready_def control_ok_def CanTransmit_def FullyEqualsLastRequest_def EqualsLastObjects_def
        APDUHeader_Equals_def)
qed

lemma OnReceiveSolRequest_ok:
  assumes "ready cap db_ok ctx"
  shows "succeeds (OnReceiveSolRequest env request ctx) (processed cap db_ok request ctx)"
proof -
  define ctx1 where "ctx1 = ctx\<lparr>oc_sol := (oc_sol ctx)\<lparr>sol_seq := (sol_seq (oc_sol ctx))\<lparr>sn_num := request_seq request\<rparr>\<rparr>\<rparr>"
  have ready1: "ready cap db_ok ctx1"
    using assms by (simp add: ctx1_def ready_def control_ok_def CanTransmit_def context_defs)
  have transfer: "processed cap db_ok request ctx1 r \<Longrightarrow> processed cap db_ok request ctx r" for r
    by (auto simp: ctx1_def processed_def stepped_def context_defs events_after_def confirms_def deferred_read_def)
  have "succeeds (ProcessNewRequest env request ctx) (processed cap db_ok request ctx)"
    using OnNewReadRequest_ok [OF ready1, of request] OnNewNonReadRequest_ok [OF ready1, of request]
    by (auto simp: ProcessNewRequest_def simp flip: ctx1_def elim!: succeeds_mono intro: transfer)
  then show ?thesis
    using OnRepeatRequest_ok [OF assms, of request] by (simp add: OnReceiveSolRequest_def)
qed

text \<open>The outcome of a request for the context, after its new state has been set.\<close>

lemma ProcessRequest_ok:
  assumes "ready cap db_ok ctx"
  shows "succeeds (ProcessRequest env request ctx) (\<lambda>(_, ctx'). progress cap db_ok request ctx ctx')"
    and "apdu_function (req_header request) = FC_CONFIRM \<Longrightarrow> succeeds (ProcessConfirm env request ctx) (\<lambda>(_, ctx'). progress cap db_ok request ctx ctx')"
proof -
  have set_state: "progress cap db_ok request ctx (set_state r)" if "processed cap db_ok request ctx r" for r
  proof -
    obtain k ctx' where r: "r = (k, ctx')"
      by (cases r)
    have "stepped cap db_ok ctx (set_state r) = stepped cap db_ok ctx ctx'" "control_ok (oc_state (set_state r)) (set_state r) = control_ok k ctx'"
        "events_after request ctx (set_state r) = events_after request ctx ctx'" "deferred_read (set_state r) = deferred_read ctx'"
        "oc_isTransmitting (set_state r) = oc_isTransmitting ctx'" "oc_state (set_state r) = k"
      by (simp_all add: r set_state_def stepped_def context_defs control_ok_def events_after_def deferred_read_def)
    then show ?thesis
      using that by (simp add: r processed_def progress_def)
  qed
  show "succeeds (ProcessRequest env request ctx) (\<lambda>(_, ctx'). progress cap db_ok request ctx ctx')"
  proof (cases "request_UNS request")
    case True
    then show ?thesis
      using assms by (simp add: ProcessRequest_def progress_def stepped_refl ready_def events_after_def)
  next
    case False
    obtain r where "OnReceiveSolRequest env request ctx = Some r" "processed cap db_ok request ctx r"
      by (rule succeedsE [OF OnReceiveSolRequest_ok [OF assms, of request]])
    then show ?thesis
      using False set_state by (simp add: ProcessRequest_def)
  qed
  show "apdu_function (req_header request) = FC_CONFIRM \<Longrightarrow> succeeds (ProcessConfirm env request ctx) (\<lambda>(_, ctx'). progress cap db_ok request ctx ctx')"
    using OnConfirm_ok [OF assms, of request] set_state by (cases "OnConfirm env request ctx") (auto simp: ProcessConfirm_def)
qed

end

section \<open>Messages\<close>

lemma ParseRequest_ok: "\<exists>r. ParseRequest apdu = Some r"
  by (simp add: ParseRequest_def rslice_at_def REQUEST_SIZE_def)

definition received_request :: "Message \<Rightarrow> ParsedRequest option" where
  "received_request m =
     (case ParseRequest (msg_payload m) of
        Some (Some (header0, objects)) \<Rightarrow> Some \<lparr>req_addresses = msg_addresses m, req_header = header0, req_objects = objects\<rparr>
      | _ \<Rightarrow> None)"

text \<open>What the events do, whether a request is processed or not.\<close>

definition moved :: "(EventType \<Rightarrow> nat) \<Rightarrow> ('d \<Rightarrow> bool) \<Rightarrow> ('x, 'd, 'u) OContext \<Rightarrow> ('x, 'd, 'u) OContext \<Rightarrow> bool" where
  "moved cap db_ok ctx ctx' \<longleftrightarrow> stepped cap db_ok ctx ctx' \<and> control_ok (oc_state ctx') ctx' \<and>
     (oc_isTransmitting ctx' \<or> oc_state ctx' = oc_state ctx \<or> oc_state ctx' = StateIdle)"

lemma moved_refl: "resources_ok cap db_ok ctx \<Longrightarrow> control_ok (oc_state ctx) ctx \<Longrightarrow> moved cap db_ok ctx ctx"
  by (simp add: moved_def stepped_refl)

lemma moved_trans: "moved cap db_ok a b \<Longrightarrow> moved cap db_ok b c \<Longrightarrow> moved cap db_ok a c"
  unfolding moved_def by (auto intro: stepped_trans) (auto simp: stepped_def tx_step_def)

lemma moved_ok: "moved cap db_ok a b \<Longrightarrow> resources_ok cap db_ok b \<and> control_ok (oc_state b) b \<and> setting b = setting a"
  by (simp add: moved_def stepped_def)

lemma progress_moved: "progress cap db_ok request ctx ctx' \<Longrightarrow> moved cap db_ok ctx ctx'"
  by (simp add: progress_def moved_def)

abbreviation same_events :: "('x, 'd, 'u) OContext \<Rightarrow> ('x, 'd, 'u) OContext \<Rightarrow> bool" where
  "same_events ctx ctx' \<equiv> event_ids (oc_eventBuffer ctx') = event_ids (oc_eventBuffer ctx)"

context outstation
begin

lemma ProcessObjects_ok:
  assumes "resources_ok cap db_ok ctx" and "control_ok (oc_state ctx) ctx" and "oc_isOnline ctx"
  shows "succeeds (ProcessObjects env request ctx) (\<lambda>(_, ctx'). moved cap db_ok ctx ctx' \<and>
    (if oc_isTransmitting ctx then same_events ctx ctx' else events_after request ctx ctx' \<and> (deferred_read ctx \<longrightarrow> deferred_read ctx')))"
proof -
  have served: "moved cap db_ok ctx ctx' \<and> same_events ctx ctx' \<and> (deferred_read ctx \<longrightarrow> deferred_read ctx')"
    if "served cap db_ok ctx ctx'" for ctx'
    using served_step [OF that] served_session [OF that] assms(2) that
    by (simp add: moved_def control_ok_def deferred_read_def) (simp add: served_def kept_def)
  consider (noack) "IsNoAckFuncCode (apdu_function (req_header request))"
    | (wait) "\<not> IsNoAckFuncCode (apdu_function (req_header request))" "oc_isTransmitting ctx"
    | (process) "\<not> IsNoAckFuncCode (apdu_function (req_header request))" "\<not> oc_isTransmitting ctx"
    by blast
  then show ?thesis
  proof cases
    case noack
    have "succeeds (ProcessRequestNoAck env request ctx) (\<lambda>(_, ctx'). moved cap db_ok ctx ctx' \<and> same_events ctx ctx' \<and>
        (deferred_read ctx \<longrightarrow> deferred_read ctx'))"
    proof (cases "apdu_function (req_header request) = FC_DIRECT_OPERATE_NR")
      case True
      obtain iin pWriter ctx' where "HandleDirectOperate env (req_objects request) DirectOperateNoAck None ctx = Some (iin, pWriter, ctx')"
          "served cap db_ok ctx ctx'"
        using HandleDirectOperate_ok [OF assms(1), of None env "req_objects request" DirectOperateNoAck] by (auto elim!: succeedsE)
      then show ?thesis
        using True served by (simp add: ProcessRequestNoAck_def)
    qed (use moved_refl [OF assms(1,2)] in \<open>simp add: ProcessRequestNoAck_def\<close>)
    then show ?thesis
      using noack by (auto simp: ProcessObjects_def events_after_def elim!: succeeds_mono)
  next
    case wait
    then show ?thesis
      using set_deferred_ok [of request ctx] assms
      by (auto simp: ProcessObjects_def moved_def stepped_def context_defs control_ok_def)
  next
    case process
    then have "ready cap db_ok ctx"
      using assms by (simp add: ready_def CanTransmit_def)
    note steps = ProcessRequest_ok [OF this, of request]
    show ?thesis
    proof (cases "apdu_function (req_header request) = FC_CONFIRM")
      case True
      show ?thesis
        using succeeds_mono [OF steps(2) [OF True]] process True by (auto simp: ProcessObjects_def progress_def moved_def)
    next
      case False
      show ?thesis
        using succeeds_mono [OF steps(1)] process False by (auto simp: ProcessObjects_def progress_def moved_def)
    qed
  qed
qed

lemma ProcessMessage_ok:
  assumes "resources_ok cap db_ok ctx" and "control_ok (oc_state ctx) ctx" and "oc_isOnline ctx"
  shows "succeeds (ProcessMessage env m ctx) (\<lambda>(_, ctx'). moved cap db_ok ctx ctx' \<and>
    (same_events ctx ctx' \<or> \<not> oc_isTransmitting ctx \<and> (\<exists>request. received_request m = Some request \<and> events_after request ctx ctx')) \<and>
    (\<not> oc_isTransmitting ctx \<and> deferred_read ctx \<longrightarrow> deferred_read ctx'))"
    (is "succeeds _ ?P")
proof -
  have stay: "?P (b, ctx)" for b
    using moved_refl [OF assms(1,2)] by simp
  obtain r where r: "ParseRequest (msg_payload m) = Some r"
    using ParseRequest_ok by blast
  show ?thesis
  proof (cases r)
    case None
    then show ?thesis
      using r stay by (simp add: ProcessMessage_def Let_def)
  next
    case (Some h)
    obtain header0 objects where h: "h = (header0, objects)"
      by (cases h)
    define request where "request = \<lparr>req_addresses = msg_addresses m, req_header = header0, req_objects = objects\<rparr>"
    have request: "received_request m = Some request"
      using r by (simp add: received_request_def request_def Some h)
    have "succeeds (ProcessObjects env request ctx) ?P"
      by (rule succeeds_mono [OF ProcessObjects_ok [OF assms]]) (use request in \<open>auto split: if_splits\<close>)
    then show ?thesis
      using r stay by (simp add: ProcessMessage_def Let_def Some h flip: request_def)
  qed
qed


section \<open>Deferred requests\<close>

lemma CheckForDeferredRequest_ok:
  assumes "resources_ok cap db_ok ctx" and "control_ok (oc_state ctx) ctx"
  shows "succeeds (CheckForDeferredRequest env ctx) (\<lambda>ctx'. moved cap db_ok ctx ctx' \<and>
    (same_events ctx ctx' \<or> CanTransmit ctx \<and> dr_isSet (oc_deferred ctx) \<and> events_after (deferred_request (oc_deferred ctx)) ctx ctx') \<and>
    (CanTransmit ctx' \<and> dr_isSet (oc_deferred ctx') \<longrightarrow> deferred_read ctx' \<and> oc_state ctx' \<noteq> StateIdle))"
proof (cases "CanTransmit ctx \<and> dr_isSet (oc_deferred ctx)")
  case True
  define request where "request = deferred_request (oc_deferred ctx)"
  define Q where "Q = (\<lambda>(fin, ctx'). progress cap db_ok request ctx ctx' \<and> (\<not> fin \<longrightarrow> apdu_function (dr_header (oc_deferred ctx')) = FC_READ \<and> oc_state ctx' \<noteq> StateIdle))"
  have ready: "ready cap db_ok ctx"
    using assms True by (simp add: ready_def)
  note steps = ProcessRequest_ok [OF ready, of request]
  have stay: "progress cap db_ok request ctx ctx"
    using ready by (simp add: progress_def stepped_refl ready_def events_after_def)
  have request: "succeeds (do { (_, ctx) \<leftarrow> ProcessRequest env request ctx; Some (True, ctx) }) Q"
    by (rule succeeds_bind [OF steps(1)]) (auto simp: Q_def)
  have confirm: "succeeds (do { (_, ctx) \<leftarrow> ProcessConfirm env request ctx; Some (True, ctx) }) Q" if "apdu_function (req_header request) = FC_CONFIRM"
    by (rule succeeds_bind [OF steps(2) [OF that]]) (auto simp: Q_def)
  have "succeeds (ProcessDeferredRequest env request ctx) Q"
    using request confirm stay
    by (auto simp: ProcessDeferredRequest_def Q_def request_def deferred_request_def deferred_read_def)
  then obtain fin ctx1 where 1: "ProcessDeferredRequest env request ctx = Some (fin, ctx1)" "progress cap db_ok request ctx ctx1"
      "\<not> fin \<longrightarrow> apdu_function (dr_header (oc_deferred ctx1)) = FC_READ \<and> oc_state ctx1 \<noteq> StateIdle"
    by (auto simp: Q_def elim!: succeedsE)
  define ctx2 where "ctx2 = ctx1\<lparr>oc_deferred := (oc_deferred ctx1)\<lparr>dr_isSet := \<not> fin\<rparr>\<rparr>"
  have online: "oc_isOnline ctx1"
    using 1(2) True by (simp add: progress_def stepped_def setting_def CanTransmit_def)
  have "stepped cap db_ok ctx ctx2 = stepped cap db_ok ctx ctx1" "control_ok (oc_state ctx2) ctx2 = control_ok (oc_state ctx1) ctx1"
      "events_after request ctx ctx2 = events_after request ctx ctx1" "oc_state ctx2 = oc_state ctx1" "oc_isTransmitting ctx2 = oc_isTransmitting ctx1"
    using online by (simp_all add: ctx2_def stepped_def context_defs control_ok_def events_after_def)
  then have "moved cap db_ok ctx ctx2" "events_after request ctx ctx2"
    using 1(2) by (simp_all add: progress_def moved_def)
  moreover have "dr_isSet (oc_deferred ctx2) \<longrightarrow> deferred_read ctx2 \<and> oc_state ctx2 \<noteq> StateIdle"
    using 1(3) by (cases fin) (simp_all add: ctx2_def deferred_read_def)
  ultimately show ?thesis
    using True 1(1) by (simp add: CheckForDeferredRequest_def flip: request_def ctx2_def)
next
  case False
  then show ?thesis
    using moved_refl [OF assms] by (auto simp: CheckForDeferredRequest_def)
qed


section \<open>Unsolicited responses\<close>

lemma finish_unsolicited_ok:
  assumes "resources_ok cap db_ok ctx" and "control_ok (oc_state ctx) ctx" and "CanTransmit ctx"
    and "resp_ok (op_maxTxFragSize (oc_params ctx)) response"
  shows "succeeds (finish_unsolicited env response ctx) (\<lambda>ctx'. moved cap db_ok ctx ctx' \<and> same_events ctx ctx' \<and> oc_isTransmitting ctx')"
proof -
  obtain riin ctx1 where 1: "GetResponseIIN env ctx = (riin, ctx1)" "served cap db_ok ctx ctx1"
    using GetResponseIIN_ok [OF assms(1), of env] by (cases "GetResponseIIN env ctx") auto
  note same = served_session [OF 1(2)]
  obtain r where r: "NullUnsolicited (sn_num (uns_seq (oc_unsol ctx1))) riin response = Some r" "resp_ok (op_maxTxFragSize (oc_params ctx)) r"
    using response_setters_ok(5) [OF assms(4), of "sn_num (uns_seq (oc_unsol ctx1))" riin] by (auto elim!: succeedsE)
  define ctx2 where "ctx2 = (RestartConfirmTimer ctx1)\<lparr>oc_state := StateUnsolicitedConfirmWait\<rparr>"
  have ctx2: "resources_ok cap db_ok ctx2" "resp_ok (op_maxTxFragSize (oc_params ctx2)) r"
    using same(1,9) r(2) by (simp_all add: ctx2_def RestartConfirmTimer_def context_defs)
  obtain ctx3 where 3: "send_unsolicited r ctx2 = Some ctx3" "sent cap db_ok ctx2 ctx3" "oc_confirmTimer ctx3 = oc_confirmTimer ctx2"
      "oc_state ctx3 = oc_state ctx2"
    using send_unsolicited_ok [OF ctx2] by (auto elim!: succeedsE)
  have step: "stepped cap db_ok ctx ctx2" "same_events ctx ctx2" "\<not> oc_isTransmitting ctx2" "oc_isOnline ctx2"
    using 1(2) same assms(3)
    by (simp_all add: ctx2_def RestartConfirmTimer_def stepped_def served_def session_def context_defs kept_def CanTransmit_def)
  have "stepped cap db_ok ctx ctx3"
    by (rule stepped_trans [OF step(1) sent_step [OF 3(2) step(3)]])
  moreover have "control_ok (oc_state ctx3) ctx3"
    using 3 step(4) by (simp add: control_ok_online sent_online) (simp add: ctx2_def RestartConfirmTimer_def TimerRef_Restart_def)
  ultimately show ?thesis
    using 1(1) r(1) 3(1,2) step(2)
    by (simp add: finish_unsolicited_def Let_def moved_def flip: ctx2_def) (simp add: sent_def)
qed

lemma CheckForUnsolicited_ok:
  assumes "resources_ok cap db_ok ctx" and "control_ok (oc_state ctx) ctx"
    and "CanTransmit ctx \<and> dr_isSet (oc_deferred ctx) \<longrightarrow> deferred_read ctx \<and> oc_state ctx \<noteq> StateIdle"
  shows "succeeds (CheckForUnsolicited env ctx) (\<lambda>ctx'. moved cap db_ok ctx ctx' \<and> same_events ctx ctx' \<and> settled ctx')"
proof (cases "CanTransmit ctx \<and> oc_state ctx = StateIdle \<and> op_allowUnsolicited (oc_params ctx) \<and> (uns_completedNull (oc_unsol ctx) \<longrightarrow>
    ClassField_Intersects (op_unsolClassMask (oc_params ctx)) (UnwrittenClassField (oc_eventBuffer ctx)))")
  case True
  have send: "succeeds (finish_unsolicited env response ctx1) (\<lambda>ctx'. moved cap db_ok ctx ctx' \<and> same_events ctx ctx' \<and> settled ctx')"
    if ctx1: "served cap db_ok ctx ctx1" "resp_ok (op_maxTxFragSize (oc_params ctx)) response" for ctx1 response
  proof -
    note same = served_session [OF ctx1(1)]
    have 1: "control_ok (oc_state ctx1) ctx1" "CanTransmit ctx1" "moved cap db_ok ctx ctx1" "same_events ctx ctx1"
      using assms(2) True same served_step [OF ctx1(1)] ctx1(1)
      by (simp_all add: control_ok_def CanTransmit_def moved_def served_def kept_def)
    show ?thesis
      by (rule succeeds_mono [OF finish_unsolicited_ok [OF same(9) 1(1,2)]])
        (use ctx1(2) same(1) 1(3,4) in \<open>auto simp: settled_def CanTransmit_def intro: moved_trans\<close>)
  qed
  obtain response where response: "TxBuffer_Start (uns_tx (oc_unsol ctx)) = Some response" "resp_ok (op_maxTxFragSize (oc_params ctx)) response"
    using resp_start(2) [OF assms(1)] by (auto elim!: succeedsE)
  show ?thesis
  proof (cases "uns_completedNull (oc_unsol ctx)")
    case False
    then show ?thesis
      using True response send [OF served_refl [OF assms(1)] response(2)] by (simp add: CheckForUnsolicited_def)
  next
    case null: True
    obtain eb1 where eb1: "EventBuffer_Unselect (oc_eventBuffer ctx) = Some eb1" "kept cap (oc_eventBuffer ctx) eb1"
      using events_kept(1) [OF resources_inv [OF assms(1)]] by (auto elim!: succeedsE)
    obtain eb2 where eb2: "SelectAllByClass (op_unsolClassMask (oc_params ctx)) eb1 = Some eb2" "kept cap eb1 eb2"
      using events_kept(4) [OF kept_inv [OF eb1(2)], of "op_unsolClassMask (oc_params ctx)"] by (auto elim!: succeedsE)
    obtain full hw eb3 where eb3: "EventBuffer_Load (env_conv env) (GetWriter response) eb2 = Some (full, hw, eb3)" "grown (GetWriter response) hw"
        "kept cap eb2 eb3"
      using events_kept(5) [OF kept_inv [OF eb2(2)] GetWriter_wf [OF response(2)], of "env_conv env"] by (auto elim!: succeedsE)
    have "kept cap (oc_eventBuffer ctx) eb3"
      by (rule kept_trans [OF kept_trans [OF eb1(2) eb2(2)] eb3(3)])
    then have "served cap db_ok ctx (ctx\<lparr>oc_eventBuffer := eb3\<rparr>)"
      using assms(1) by (intro servedI) (simp_all add: session_def resources_ok_def Let_def)
    from send [OF this put_writer_ok [OF response(2) eb3(2)]] show ?thesis
      using True null response(1) eb1(1) eb2(1) eb3(1) by (simp add: CheckForUnsolicited_def)
  qed
next
  case False
  then show ?thesis
    using moved_refl [OF assms(1,2)] assms(3) by (auto simp: CheckForUnsolicited_def settled_def deferred_read_def)
qed

lemma CheckForTaskStart_ok:
  assumes "resources_ok cap db_ok ctx" and "control_ok (oc_state ctx) ctx"
  shows "succeeds (CheckForTaskStart env ctx) (\<lambda>ctx'. moved cap db_ok ctx ctx' \<and> settled ctx' \<and>
    (same_events ctx ctx' \<or> CanTransmit ctx \<and> dr_isSet (oc_deferred ctx) \<and> events_after (deferred_request (oc_deferred ctx)) ctx ctx'))"
proof -
  obtain ctx1 where 1: "CheckForDeferredRequest env ctx = Some ctx1" "moved cap db_ok ctx ctx1"
      "same_events ctx ctx1 \<or> CanTransmit ctx \<and> dr_isSet (oc_deferred ctx) \<and> events_after (deferred_request (oc_deferred ctx)) ctx ctx1"
      "CanTransmit ctx1 \<and> dr_isSet (oc_deferred ctx1) \<longrightarrow> deferred_read ctx1 \<and> oc_state ctx1 \<noteq> StateIdle"
    using CheckForDeferredRequest_ok [OF assms] by (auto elim!: succeedsE)
  have ctx1: "resources_ok cap db_ok ctx1" "control_ok (oc_state ctx1) ctx1"
    using moved_ok [OF 1(2)] by simp_all
  obtain ctx2 where 2: "CheckForUnsolicited env ctx1 = Some ctx2" "moved cap db_ok ctx1 ctx2" "same_events ctx1 ctx2" "settled ctx2"
    using CheckForUnsolicited_ok [OF ctx1 1(4)] by (auto elim!: succeedsE)
  show ?thesis
    using 1 2 moved_trans [OF 1(2) 2(2)] by (simp add: CheckForTaskStart_def events_after_def)
qed

end

end
