(* ===== verification/OutstationSafety.thy ===== *)
theory OutstationSafety
  imports OutstationEvents
begin

text \<open>
  Every event of the outstation keeps its invariant; what each event may do to the stored events and
  to the confirm timer.
\<close>

lemma CheckForTaskStart_blocked: "\<not> CanTransmit ctx \<Longrightarrow> CheckForTaskStart env ctx = Some ctx"
  by (simp add: CheckForTaskStart_def CheckForDeferredRequest_def CheckForUnsolicited_def)

lemma outstation_invD:
  "outstation_inv cap db_ok ctx \<Longrightarrow> resources_ok cap db_ok ctx \<and> control_ok (oc_state ctx) ctx"
  by (simp add: outstation_inv_def)

lemma settled_deferred: "settled ctx \<Longrightarrow> CanTransmit ctx \<Longrightarrow> deferred_read ctx"
  by (simp add: settled_def deferred_read_def)

lemma events_after_deferred: "deferred_read ctx \<Longrightarrow> dr_isSet (oc_deferred ctx) \<Longrightarrow>
    events_after (deferred_request (oc_deferred ctx)) ctx ctx' \<Longrightarrow> same_events ctx ctx'"
  by (auto simp: events_after_def confirms_def deferred_read_def deferred_request_def)

context outstation
begin

lemma OnLowerLayerUp_ok:
  assumes "outstation_inv cap db_ok ctx"
  shows "succeeds (OnLowerLayerUp env ctx) (\<lambda>(_, ctx'). outstation_inv cap db_ok ctx' \<and> same_events ctx ctx')"
proof (cases "oc_isOnline ctx")
  case False
  define ctx1 where "ctx1 = ctx\<lparr>oc_isOnline := True\<rparr>"
  have ctx1: "resources_ok cap db_ok ctx1" "control_ok (oc_state ctx1) ctx1"
    using assms False by (simp_all add: ctx1_def outstation_inv_def context_defs control_ok_def)
  have "\<not> dr_isSet (oc_deferred ctx1)" "oc_eventBuffer ctx1 = oc_eventBuffer ctx"
    using assms False by (simp_all add: ctx1_def outstation_inv_def control_ok_def)
  then show ?thesis
    using CheckForTaskStart_ok [OF ctx1] False
    by (auto simp: OnLowerLayerUp_def outstation_inv_def simp flip: ctx1_def elim!: succeedsE dest: moved_ok)
qed (use assms in \<open>simp add: OnLowerLayerUp_def\<close>)

lemma OnLowerLayerDown_ok:
  assumes "outstation_inv cap db_ok ctx"
  shows "succeeds (OnLowerLayerDown ctx) (\<lambda>(_, ctx'). outstation_inv cap db_ok ctx' \<and> same_events ctx ctx')"
proof (cases "oc_isOnline ctx")
  case True
  have "buffer_inv cap (oc_eventBuffer ctx)"
    using assms by (auto simp: outstation_inv_def intro: resources_inv)
  then obtain eb where "EventBuffer_Unselect (oc_eventBuffer ctx) = Some eb" "kept cap (oc_eventBuffer ctx) eb"
    using events_kept(1) by (auto elim!: succeedsE)
  then show ?thesis
    using assms True
    by (simp add: OnLowerLayerDown_def CancelConfirmTimer_def outstation_inv_def context_defs control_ok_def settled_def CanTransmit_def kept_def
        OutstationSolState_Reset_def OutstationUnsolState_Reset_def DeferredRequest_Reset_def)
qed (use assms in \<open>simp add: OnLowerLayerDown_def\<close>)

lemma OnTxReady_ok:
  assumes "outstation_inv cap db_ok ctx"
  shows "succeeds (OnTxReady env ctx) (\<lambda>(_, ctx'). outstation_inv cap db_ok ctx' \<and>
    (same_events ctx ctx' \<or> oc_isTransmitting ctx \<and> dr_isSet (oc_deferred ctx) \<and> events_after (deferred_request (oc_deferred ctx)) ctx ctx'))"
proof (cases "oc_isOnline ctx \<and> oc_isTransmitting ctx")
  case True
  define ctx1 where "ctx1 = ctx\<lparr>oc_isTransmitting := False\<rparr>"
  have ctx1: "resources_ok cap db_ok ctx1" "control_ok (oc_state ctx1) ctx1"
    using assms True by (simp_all add: ctx1_def outstation_inv_def context_defs control_ok_def)
  have same: "same_events ctx ctx' = same_events ctx1 ctx'" "oc_deferred ctx1 = oc_deferred ctx"
      "events_after request ctx1 ctx' = events_after request ctx ctx'" for ctx' :: "('x, 'd, 'u) OContext" and request
    by (simp_all add: ctx1_def events_after_def confirms_def)
  show ?thesis
    using CheckForTaskStart_ok [OF ctx1] True
    by (auto simp: OnTxReady_def outstation_inv_def same simp flip: ctx1_def elim!: succeedsE dest: moved_ok)
qed (use assms in \<open>auto simp: OnTxReady_def\<close>)

lemma OnReceive_ok:
  assumes "outstation_inv cap db_ok ctx"
  shows "succeeds (OnReceive env m ctx) (\<lambda>(_, ctx'). outstation_inv cap db_ok ctx' \<and>
    (same_events ctx ctx' \<or> \<not> oc_isTransmitting ctx \<and> (\<exists>request. received_request m = Some request \<and> events_after request ctx ctx')))"
proof (cases "oc_isOnline ctx")
  case True
  obtain b ctx1 where 1: "ProcessMessage env m ctx = Some (b, ctx1)" "moved cap db_ok ctx ctx1"
      "same_events ctx ctx1 \<or> \<not> oc_isTransmitting ctx \<and> (\<exists>request. received_request m = Some request \<and> events_after request ctx ctx1)"
      "\<not> oc_isTransmitting ctx \<and> deferred_read ctx \<longrightarrow> deferred_read ctx1"
    using ProcessMessage_ok [of ctx m] assms True by (auto simp: outstation_inv_def elim!: succeedsE)
  have ctx1: "resources_ok cap db_ok ctx1" "control_ok (oc_state ctx1) ctx1"
    using moved_ok [OF 1(2)] by simp_all
  obtain ctx2 where 2: "CheckForTaskStart env ctx1 = Some ctx2" "moved cap db_ok ctx1 ctx2" "settled ctx2"
      "same_events ctx1 ctx2 \<or> CanTransmit ctx1 \<and> dr_isSet (oc_deferred ctx1) \<and> events_after (deferred_request (oc_deferred ctx1)) ctx1 ctx2"
    using CheckForTaskStart_ok [OF ctx1] by (auto elim!: succeedsE)
  have "CanTransmit ctx1 \<Longrightarrow> \<not> oc_isTransmitting ctx"
    using 1(2) by (auto simp: moved_def stepped_def tx_step_def CanTransmit_def)
  then have "CanTransmit ctx1 \<Longrightarrow> deferred_read ctx1"
    using 1(4) assms True settled_deferred [of ctx] by (simp add: outstation_inv_def CanTransmit_def)
  then have same: "same_events ctx1 ctx2"
    using 2(4) events_after_deferred [of ctx1 ctx2] by blast
  then have "events_after request ctx ctx1 \<Longrightarrow> events_after request ctx ctx2" for request
    by (simp add: events_after_def)
  then show ?thesis
    using True 1(1,3) 2(1,3) same moved_ok [OF 2(2)] by (auto simp: OnReceive_def outstation_inv_def)
qed (use assms in \<open>simp add: OnReceive_def\<close>)

lemma ConfirmTimer_fires_ok:
  assumes "outstation_inv cap db_ok ctx" and "oc_confirmTimer ctx \<noteq> None"
  shows "succeeds (ConfirmTimer_fires env ctx) (\<lambda>ctx'. outstation_inv cap db_ok ctx' \<and> same_events ctx ctx' \<and>
    (oc_state ctx' = StateIdle \<or> \<not> oc_isTransmitting ctx \<and> (\<exists>message. transmitted ctx' = message # transmitted ctx)))"
proof -
  have online: "oc_isOnline ctx" "oc_state ctx \<noteq> StateIdle"
    using assms by (auto simp: outstation_inv_def control_ok_def)
  have eb: "buffer_inv cap (oc_eventBuffer ctx)"
    using assms(1) by (auto simp: outstation_inv_def intro: resources_inv)
  obtain eb1 where eb1: "EventBuffer_Unselect (oc_eventBuffer ctx) = Some eb1" "kept cap (oc_eventBuffer ctx) eb1"
    using events_kept(1) [OF eb] by (auto elim!: succeedsE)
  have "\<exists>eb'. OnConfirmTimeout (ctx\<lparr>oc_confirmTimer := TimerRef_fire (oc_confirmTimer ctx)\<rparr>) =
      Some (StateIdle, ctx\<lparr>oc_confirmTimer := None, oc_eventBuffer := eb'\<rparr>) \<and> kept cap (oc_eventBuffer ctx) eb'"
  proof (cases "oc_state ctx = StateUnsolicitedConfirmWait \<and> uns_completedNull (oc_unsol ctx)")
    case True
    then show ?thesis
      using eb1 by (intro exI [of _ eb1]) (simp add: OnConfirmTimeout_def TimerRef_fire_def)
  next
    case False
    then show ?thesis
      using kept_refl [OF eb]
      by (intro exI [of _ "oc_eventBuffer ctx"]) (simp add: OnConfirmTimeout_def TimerRef_fire_def split: OutstationStateKind.split)
  qed
  then obtain eb' where eb': "OnConfirmTimeout (ctx\<lparr>oc_confirmTimer := TimerRef_fire (oc_confirmTimer ctx)\<rparr>) =
      Some (StateIdle, ctx\<lparr>oc_confirmTimer := None, oc_eventBuffer := eb'\<rparr>)" "kept cap (oc_eventBuffer ctx) eb'"
    by blast
  define ctx1 where "ctx1 = ctx\<lparr>oc_confirmTimer := None, oc_eventBuffer := eb', oc_state := StateIdle\<rparr>"
  have ctx1: "resources_ok cap db_ok ctx1" "control_ok (oc_state ctx1) ctx1" "same_events ctx ctx1"
      "oc_isTransmitting ctx1 = oc_isTransmitting ctx" "transmitted ctx1 = transmitted ctx" "CanTransmit ctx1 = CanTransmit ctx"
      "deferred_read ctx1 = deferred_read ctx" "oc_state ctx1 = StateIdle"
    using assms(1) online eb'(2)
    by (simp_all add: ctx1_def outstation_inv_def context_defs control_ok_def kept_def CanTransmit_def deferred_read_def)
  obtain ctx2 where 2: "CheckForTaskStart env ctx1 = Some ctx2" "moved cap db_ok ctx1 ctx2" "settled ctx2"
      "same_events ctx1 ctx2 \<or> CanTransmit ctx1 \<and> dr_isSet (oc_deferred ctx1) \<and> events_after (deferred_request (oc_deferred ctx1)) ctx1 ctx2"
    using CheckForTaskStart_ok [OF ctx1(1,2)] by (auto elim!: succeedsE)
  have "CanTransmit ctx1 \<Longrightarrow> deferred_read ctx1"
    using assms(1) ctx1(6,7) settled_deferred [of ctx] by (simp add: outstation_inv_def)
  then have same: "same_events ctx1 ctx2"
    using 2(4) events_after_deferred [of ctx1 ctx2] by blast
  have "oc_state ctx2 = StateIdle \<or> \<not> oc_isTransmitting ctx1 \<and> (\<exists>message. transmitted ctx2 = message # transmitted ctx1)"
  proof (cases "oc_isTransmitting ctx1")
    case True
    then show ?thesis
      using 2(1) CheckForTaskStart_blocked [of ctx1 env] ctx1(8) by (simp add: CanTransmit_def)
  next
    case False
    then show ?thesis
      using 2(2) ctx1(8) by (auto simp: moved_def stepped_def tx_step_def)
  qed
  moreover have "set_state (StateIdle, ctx\<lparr>oc_confirmTimer := None, oc_eventBuffer := eb'\<rparr>) = ctx1"
    by (simp add: set_state_def ctx1_def)
  ultimately show ?thesis
    using eb'(1) 2(1,3) same ctx1(3-5) moved_ok [OF 2(2)] by (simp add: ConfirmTimer_fires_def outstation_inv_def)
qed

lemma update_then_start_ok:
  assumes "outstation_inv cap db_ok ctx" and "db_ok db" and "buffer_inv cap eb"
  shows "succeeds (CheckForTaskStart env (ctx\<lparr>oc_database := db, oc_eventBuffer := eb\<rparr>)) (outstation_inv cap db_ok)"
proof -
  define ctx1 where "ctx1 = ctx\<lparr>oc_database := db, oc_eventBuffer := eb\<rparr>"
  have "resources_ok cap db_ok ctx1" "control_ok (oc_state ctx1) ctx1"
    using assms by (simp_all add: ctx1_def outstation_inv_def context_defs control_ok_def)
  then show ?thesis
    unfolding ctx1_def [symmetric]
    by (rule succeeds_mono [OF CheckForTaskStart_ok]) (auto simp: outstation_inv_def dest: moved_ok)
qed

end

end
