(* ===== verification/StaticDatabase.thy ===== *)
theory StaticDatabase
  imports RequestHandlers
begin

text \<open>
  The static database of an outstation and the selection of its points
  (\<open>outstation/DatabaseBuffers\<close>, \<open>StaticBuffers\<close>, \<open>SelectedRanges\<close>, \<open>IndexSearch.h\<close>,
  \<open>Cell.h\<close>, \<open>MeasurementConfig.h\<close>). The arrays and the ranges of the nine static types are
  functions of the type; an index that is out of range is undefined.
\<close>

section \<open>Points\<close>

datatype StaticType =
    ST_Binary | ST_DoubleBitBinary | ST_Counter | ST_FrozenCounter | ST_Analog | ST_BinaryOutputStatus
  | ST_AnalogOutputStatus | ST_TimeAndInterval | ST_OctetString

text \<open>\<open>StaticTypeBitmask\<close>.\<close>

primrec StaticTypeEnum :: "StaticType \<Rightarrow> u16" where
  "StaticTypeEnum ST_Binary = 0x1"
| "StaticTypeEnum ST_DoubleBitBinary = 0x2"
| "StaticTypeEnum ST_Counter = 0x4"
| "StaticTypeEnum ST_FrozenCounter = 0x8"
| "StaticTypeEnum ST_Analog = 0x10"
| "StaticTypeEnum ST_BinaryOutputStatus = 0x20"
| "StaticTypeEnum ST_AnalogOutputStatus = 0x40"
| "StaticTypeEnum ST_TimeAndInterval = 0x80"
| "StaticTypeEnum ST_OctetString = 0x100"

text \<open>The value of a measurement; a double is kept as its bytes.\<close>

datatype MeasValue = VBool bool | VDoubleBit u8 | VCounter u32 | VAnalog "u8 list"

datatype StaticMeas = SM_Meas "MeasValue Measurement" | SM_TimeAndInterval TimeAndInterval

text \<open>
  A point: the current value, the configuration, the last event and the selection. A variation is
  the object it stands for; the members that a type does not have are not used.
\<close>

record Cell =
  cell_value :: StaticMeas
  cell_vIndex :: u16
  cell_svariation :: GroupVariation
  cell_clazz :: PointClass
  cell_evariation :: GroupVariation
  cell_deadband :: MeasValue
  cell_lastEvent :: "MeasValue Measurement"
  cell_selected :: bool
  cell_selvalue :: StaticMeas
  cell_selvariation :: GroupVariation

datatype IndexMode = Contiguous | Discontiguous

record DatabaseBuffers =
  db_buffers :: "StaticType \<Rightarrow> Cell list"
  db_ranges :: "StaticType \<Rightarrow> Range"
  db_class0 :: u16
  db_indexMode :: IndexMode

definition GetArrayView :: "StaticType \<Rightarrow> DatabaseBuffers \<Rightarrow> Cell list" where
  "GetArrayView t db = db_buffers db t"

definition set_view :: "StaticType \<Rightarrow> Cell list \<Rightarrow> DatabaseBuffers \<Rightarrow> DatabaseBuffers" where
  "set_view t arr db = db\<lparr>db_buffers := (db_buffers db)(t := arr)\<rparr>"

definition ranges_Get :: "StaticType \<Rightarrow> DatabaseBuffers \<Rightarrow> Range" where
  "ranges_Get t db = db_ranges db t"

definition ranges_Set :: "StaticType \<Rightarrow> Range \<Rightarrow> DatabaseBuffers \<Rightarrow> DatabaseBuffers" where
  "ranges_Set t rng db = db\<lparr>db_ranges := (db_ranges db)(t := rng)\<rparr>"

definition ranges_Merge :: "StaticType \<Rightarrow> Range \<Rightarrow> DatabaseBuffers \<Rightarrow> DatabaseBuffers" where
  "ranges_Merge t rng db = ranges_Set t (Range_Union (ranges_Get t db) rng) db"

definition ranges_Clear :: "StaticType \<Rightarrow> DatabaseBuffers \<Rightarrow> DatabaseBuffers" where
  "ranges_Clear t = ranges_Set t Range_Invalid"

definition DatabaseBuffers_HasAnySelection :: "DatabaseBuffers \<Rightarrow> bool" where
  "DatabaseBuffers_HasAnySelection db \<longleftrightarrow>
     list_ex (\<lambda>t. Range_IsValid (ranges_Get t db))
       [ST_Binary, ST_DoubleBitBinary, ST_Analog, ST_Counter, ST_FrozenCounter, ST_BinaryOutputStatus, ST_AnalogOutputStatus,
        ST_TimeAndInterval, ST_OctetString]"

text \<open>\<open>SetDefaultIndices\<close>, and the buffers for arrays of cells.\<close>

definition SetDefaultIndices :: "Cell list \<Rightarrow> Cell list" where
  "SetDefaultIndices arr = map (\<lambda>(i, c). c\<lparr>cell_vIndex := of_nat i\<rparr>) (enumerate 0 arr)"

definition DatabaseBuffers_of :: "(StaticType \<Rightarrow> Cell list) \<Rightarrow> u16 \<Rightarrow> IndexMode \<Rightarrow> DatabaseBuffers" where
  "DatabaseBuffers_of cells allowedClass0Types indexMode =
     \<lparr>db_buffers = (\<lambda>t. SetDefaultIndices (cells t)), db_ranges = (\<lambda>_. Range_Invalid), db_class0 = allowedClass0Types,
      db_indexMode = indexMode\<rparr>"

text \<open>The subscript operator, with its assertion.\<close>

definition cell_at :: "u16 \<Rightarrow> Cell list \<Rightarrow> Cell option" where
  "cell_at i arr = (if unat i < length arr then Some (arr ! unat i) else None)"

definition set_cell :: "u16 \<Rightarrow> Cell \<Rightarrow> Cell list \<Rightarrow> Cell list" where
  "set_cell i c arr = arr[unat i := c]"

text \<open>\<open>for (uint16_t i = start; i <= stop; ++i)\<close>: it does not end when \<open>stop\<close> is 65535.\<close>

partial_function (option) for_range :: "(u16 \<Rightarrow> 's \<Rightarrow> 's option) \<Rightarrow> u16 \<Rightarrow> u16 \<Rightarrow> 's \<Rightarrow> 's option" where
  "for_range body i stop s =
     (if i \<le> stop then do { s \<leftarrow> body i s; for_range body (i + 1) stop s } else Some s)"

declare for_range.simps [code]

section \<open>Searching an index\<close>

text \<open>\<open>FindClosestRawIndex\<close>: \<open>match\<close> and \<open>index\<close>. The size of an array is a 16 bit number.\<close>

definition view_size :: "Cell list \<Rightarrow> u16" where
  "view_size arr = of_nat (length arr)"

definition GetMidpoint :: "u16 \<Rightarrow> u16 \<Rightarrow> u16" where
  "GetMidpoint lower upper = (upper - lower) div 2 + lower"

partial_function (option) FindClosestRawIndex_loop :: "Cell list \<Rightarrow> u16 \<Rightarrow> u16 \<Rightarrow> u16 \<Rightarrow> u16 \<Rightarrow> (bool \<times> u16) option" where
  "FindClosestRawIndex_loop arr vIndex lower upper midpoint =
     (if lower \<le> upper
      then do {
        let midpoint = GetMidpoint lower upper;
        c \<leftarrow> cell_at midpoint arr;
        let index = cell_vIndex c;
        if index = vIndex then Some (True, midpoint)
        else if index < vIndex
        then if lower < 0xFFFF then FindClosestRawIndex_loop arr vIndex (midpoint + 1) upper midpoint else Some (False, midpoint)
        else if upper > 0 \<and> midpoint > 0 then FindClosestRawIndex_loop arr vIndex lower (midpoint - 1) midpoint
        else Some (False, midpoint) }
      else Some (False, midpoint))"

declare FindClosestRawIndex_loop.simps [code]

definition FindClosestRawIndex :: "Cell list \<Rightarrow> u16 \<Rightarrow> (bool \<times> u16) option" where
  "FindClosestRawIndex arr vIndex =
     (if arr = [] then Some (False, 0) else FindClosestRawIndex_loop arr vIndex 0 (view_size arr - 1) 0)"

definition FindRawRange :: "Cell list \<Rightarrow> Range \<Rightarrow> Range option" where
  "FindRawRange arr rng =
     (if Range_IsValid rng \<and> arr \<noteq> []
      then do {
        (_, start) \<leftarrow> FindClosestRawIndex arr (range_start rng);
        (_, stop) \<leftarrow> FindClosestRawIndex arr (range_stop rng);
        c \<leftarrow> cell_at start arr;
        if cell_vIndex c < range_start rng \<and> \<not> start < 0xFFFF then Some Range_Invalid
        else do {
          let start = (if cell_vIndex c < range_start rng then start + 1 else start);
          c \<leftarrow> cell_at stop arr;
          if cell_vIndex c > range_stop rng \<and> \<not> stop > 0 then Some Range_Invalid
          else do {
            let stop = (if cell_vIndex c > range_stop rng then stop - 1 else stop);
            Some (if start < view_size arr \<and> stop < view_size arr then Range_From start stop else Range_Invalid) }}}
      else Some Range_Invalid)"


section \<open>Selection\<close>

definition RangeOf :: "u16 \<Rightarrow> Range" where
  "RangeOf size0 = (if size0 > 0 then Range_From 0 (size0 - 1) else Range_Invalid)"

text \<open>\<open>BinarySpec::IsQualityOnlineOnly\<close>: ONLINE is the first bit of the flags.\<close>

definition IsQualityOnlineOnly :: "StaticMeas \<Rightarrow> bool" where
  "IsQualityOnlineOnly m = (case m of SM_Meas (Meas flags _ _) \<Rightarrow> flags AND 0x7F = 0x01 | _ \<Rightarrow> False)"

definition CheckForPromotion :: "StaticType \<Rightarrow> StaticMeas \<Rightarrow> GroupVariation \<Rightarrow> GroupVariation" where
  "CheckForPromotion t value0 variation =
     (if t = ST_Binary \<and> variation = gv 1 1 then (if IsQualityOnlineOnly value0 then variation else gv 1 2) else variation)"

text \<open>The variation to report: \<^const>\<open>None\<close> for the default of each point.\<close>

definition select_cell :: "StaticType \<Rightarrow> GroupVariation option \<Rightarrow> Cell \<Rightarrow> Cell" where
  "select_cell t variation c =
     c\<lparr>cell_selected := True, cell_selvalue := cell_value c,
       cell_selvariation := CheckForPromotion t (cell_value c) (case variation of None \<Rightarrow> cell_svariation c | Some v \<Rightarrow> v)\<rparr>"

definition GenericSelect_body ::
    "StaticType \<Rightarrow> GroupVariation option \<Rightarrow> u16 \<Rightarrow> IINField \<times> Cell list \<Rightarrow> (IINField \<times> Cell list) option" where
  "GenericSelect_body t variation i s = (case s of (ret, arr) \<Rightarrow> do {
     c \<leftarrow> cell_at i arr;
     Some (if cell_selected c then (IINField_or ret PARAM_ERROR, arr)
           else (ret, set_cell i (select_cell t variation c) arr)) })"

definition GenericSelect ::
    "StaticType \<Rightarrow> Range \<Rightarrow> GroupVariation option \<Rightarrow> DatabaseBuffers \<Rightarrow> (IINField \<times> DatabaseBuffers) option" where
  "GenericSelect t rng variation db =
     (let arr = GetArrayView t db in
      if Range_IsValid rng
      then (let allowed = Range_Intersection rng (RangeOf (view_size arr)) in
        if Range_IsValid allowed
        then do {
          let ret = (if Range_Equals allowed rng then IINField_Empty else PARAM_ERROR);
          (ret, arr) \<leftarrow> for_range (GenericSelect_body t variation) (range_start allowed) (range_stop allowed) (ret, arr);
          Some (ret, ranges_Merge t allowed (set_view t arr db)) }
        else Some (PARAM_ERROR, db))
      else Some (IINField_Empty, db))"

definition SelectAllOf :: "StaticType \<Rightarrow> GroupVariation option \<Rightarrow> DatabaseBuffers \<Rightarrow> (IINField \<times> DatabaseBuffers) option" where
  "SelectAllOf t variation db = GenericSelect t (RangeOf (view_size (GetArrayView t db))) variation db"

definition SelectVirtualRange ::
    "StaticType \<Rightarrow> Range \<Rightarrow> GroupVariation option \<Rightarrow> DatabaseBuffers \<Rightarrow> (IINField \<times> DatabaseBuffers) option" where
  "SelectVirtualRange t rng variation db =
     (if db_indexMode db = Discontiguous
      then do {
        mapped \<leftarrow> FindRawRange (GetArrayView t db) rng;
        if Range_IsValid mapped
        then do {
          let clipped = (if Range_Count rng = Range_Count mapped then IINField_Empty else PARAM_ERROR);
          (iin, db) \<leftarrow> GenericSelect t mapped variation db;
          Some (IINField_or clipped iin, db) }
        else Some (PARAM_ERROR, db) }
      else GenericSelect t rng variation db)"

text \<open>The two switches over the object: its type, and the variation unless the default is asked for.\<close>

definition static_selections :: "(GroupVariation \<times> StaticType \<times> GroupVariation option) list" where
  "static_selections =
     [(gv 1 0, ST_Binary, None), (gv 1 1, ST_Binary, Some (gv 1 1)), (gv 1 2, ST_Binary, Some (gv 1 2)),
      (gv 3 0, ST_DoubleBitBinary, None), (gv 3 2, ST_DoubleBitBinary, Some (gv 3 2)),
      (gv 10 0, ST_BinaryOutputStatus, None), (gv 10 2, ST_BinaryOutputStatus, Some (gv 10 2)),
      (gv 20 0, ST_Counter, None), (gv 20 1, ST_Counter, Some (gv 20 1)), (gv 20 2, ST_Counter, Some (gv 20 2)),
      (gv 20 5, ST_Counter, Some (gv 20 5)), (gv 20 6, ST_Counter, Some (gv 20 6)),
      (gv 21 0, ST_FrozenCounter, None), (gv 21 1, ST_FrozenCounter, Some (gv 21 1)), (gv 21 2, ST_FrozenCounter, Some (gv 21 2)),
      (gv 21 5, ST_FrozenCounter, Some (gv 21 5)), (gv 21 6, ST_FrozenCounter, Some (gv 21 6)),
      (gv 21 9, ST_FrozenCounter, Some (gv 21 9)), (gv 21 10, ST_FrozenCounter, Some (gv 21 10)),
      (gv 30 0, ST_Analog, None), (gv 30 1, ST_Analog, Some (gv 30 1)), (gv 30 2, ST_Analog, Some (gv 30 2)),
      (gv 30 3, ST_Analog, Some (gv 30 3)), (gv 30 4, ST_Analog, Some (gv 30 4)), (gv 30 5, ST_Analog, Some (gv 30 5)),
      (gv 30 6, ST_Analog, Some (gv 30 6)),
      (gv 40 0, ST_AnalogOutputStatus, None), (gv 40 1, ST_AnalogOutputStatus, Some (gv 40 1)),
      (gv 40 2, ST_AnalogOutputStatus, Some (gv 40 2)), (gv 40 3, ST_AnalogOutputStatus, Some (gv 40 3)),
      (gv 40 4, ST_AnalogOutputStatus, Some (gv 40 4)),
      (gv 50 4, ST_TimeAndInterval, Some (gv 50 4))]"

definition select_all_table :: "(GroupVariation \<times> StaticType \<times> GroupVariation option) list" where
  "select_all_table = static_selections @ [(gv 110 0, ST_OctetString, None)]"

definition select_range_table :: "(GroupVariation \<times> StaticType \<times> GroupVariation option) list" where
  "select_range_table = static_selections @ [(gv 110 0, ST_OctetString, Some (gv 110 0))]"

definition SelectAllClass0 :: "StaticType \<Rightarrow> DatabaseBuffers \<Rightarrow> DatabaseBuffers option" where
  "SelectAllClass0 t db = (if db_class0 db AND StaticTypeEnum t \<noteq> 0 then map_option snd (SelectAllOf t None db) else Some db)"

fun each_type :: "(StaticType \<Rightarrow> 's \<Rightarrow> 's option) \<Rightarrow> StaticType list \<Rightarrow> 's \<Rightarrow> 's option" where
  "each_type f [] s = Some s"
| "each_type f (t # ts) s = do { s \<leftarrow> f t s; each_type f ts s }"

definition class0_types :: "StaticType list" where
  "class0_types =
     [ST_Binary, ST_DoubleBitBinary, ST_Counter, ST_FrozenCounter, ST_Analog, ST_BinaryOutputStatus, ST_AnalogOutputStatus,
      ST_OctetString, ST_TimeAndInterval]"

definition DatabaseBuffers_SelectAll :: "GroupVariation \<Rightarrow> DatabaseBuffers \<Rightarrow> (IINField \<times> DatabaseBuffers) option" where
  "DatabaseBuffers_SelectAll g db =
     (if g = gv 60 1 then map_option (Pair IINField_Empty) (each_type SelectAllClass0 class0_types db)
      else case map_of select_all_table g of
        Some (t, variation) \<Rightarrow> SelectAllOf t variation db
      | None \<Rightarrow> Some (FUNC_NOT_SUPPORTED, db))"

definition DatabaseBuffers_SelectRange :: "GroupVariation \<Rightarrow> Range \<Rightarrow> DatabaseBuffers \<Rightarrow> (IINField \<times> DatabaseBuffers) option" where
  "DatabaseBuffers_SelectRange g rng db =
     (case map_of select_range_table g of
        Some (t, variation) \<Rightarrow> SelectVirtualRange t rng variation db
      | None \<Rightarrow> Some (FUNC_NOT_SUPPORTED, db))"

text \<open>\<open>Unselect\<close> does not deselect octet strings.\<close>

definition update_cell :: "(Cell \<Rightarrow> Cell) \<Rightarrow> u16 \<Rightarrow> Cell list \<Rightarrow> Cell list option" where
  "update_cell f i arr = do { c \<leftarrow> cell_at i arr; Some (set_cell i (f c) arr) }"

definition Deselect :: "StaticType \<Rightarrow> DatabaseBuffers \<Rightarrow> DatabaseBuffers option" where
  "Deselect t db =
     (let rng = ranges_Get t db in
      if Range_IsValid rng
      then do {
        arr \<leftarrow> for_range (update_cell (\<lambda>c. c\<lparr>cell_selected := False\<rparr>)) (range_start rng) (range_stop rng) (GetArrayView t db);
        Some (ranges_Clear t (set_view t arr db)) }
      else Some db)"

definition deselected_types :: "StaticType list" where
  "deselected_types =
     [ST_Binary, ST_DoubleBitBinary, ST_Counter, ST_FrozenCounter, ST_Analog, ST_BinaryOutputStatus, ST_AnalogOutputStatus,
      ST_TimeAndInterval]"

definition DatabaseBuffers_Unselect :: "DatabaseBuffers \<Rightarrow> DatabaseBuffers option" where
  "DatabaseBuffers_Unselect = each_type Deselect deselected_types"


section \<open>Assignment of classes\<close>

primrec static_type_of :: "AssignClassType \<Rightarrow> StaticType" where
  "static_type_of ACT_BinaryInput = ST_Binary"
| "static_type_of ACT_DoubleBinaryInput = ST_DoubleBitBinary"
| "static_type_of ACT_Counter = ST_Counter"
| "static_type_of ACT_FrozenCounter = ST_FrozenCounter"
| "static_type_of ACT_AnalogInput = ST_Analog"
| "static_type_of ACT_BinaryOutputStatus = ST_BinaryOutputStatus"
| "static_type_of ACT_AnalogOutputStatus = ST_AnalogOutputStatus"

definition AssignClassTo :: "StaticType \<Rightarrow> PointClass \<Rightarrow> Range \<Rightarrow> DatabaseBuffers \<Rightarrow> (Range \<times> DatabaseBuffers) option" where
  "AssignClassTo t clazz rng db = do {
     let arr = GetArrayView t db;
     let clipped = Range_Intersection rng (RangeOf (view_size arr));
     arr \<leftarrow> for_range (update_cell (\<lambda>c. c\<lparr>cell_clazz := clazz\<rparr>)) (range_start clipped) (range_stop clipped) arr;
     Some (clipped, set_view t arr db) }"

definition DatabaseBuffers_AssignClassToRange ::
    "AssignClassType \<Rightarrow> PointClass \<Rightarrow> Range \<Rightarrow> DatabaseBuffers \<Rightarrow> (Range \<times> DatabaseBuffers) option" where
  "DatabaseBuffers_AssignClassToRange type clazz rng db = AssignClassTo (static_type_of type) clazz rng db"

definition DatabaseBuffers_AssignClassToAll :: "AssignClassType \<Rightarrow> PointClass \<Rightarrow> DatabaseBuffers \<Rightarrow> (Range \<times> DatabaseBuffers) option" where
  "DatabaseBuffers_AssignClassToAll type clazz db =
     DatabaseBuffers_AssignClassToRange type clazz (RangeOf (view_size (GetArrayView (static_type_of type) db))) db"

end
