(* ===== verification/StaticWriting.thy ===== *)
theory StaticWriting
  imports StaticDatabase
begin

text \<open>
  Writing the selected points into a response (\<open>outstation/StaticWriters\<close> and the \<open>Load\<close>
  operation of \<open>DatabaseBuffers\<close>), and the updates of the database by the application
  (\<open>outstation/Database\<close>, \<open>app/EventTriggers\<close>, the specs of \<open>app/MeasurementTypeSpecs.h\<close>).
\<close>

section \<open>Objects\<close>

text \<open>The object that a variation is written as, with the default cases of the switches.\<close>

definition static_object :: "StaticType \<Rightarrow> GroupVariation \<Rightarrow> nat \<times> nat" where
  "static_object t v =
     (case t of
        ST_Binary \<Rightarrow> the (object_case 1 [1] (Some (1, 2)) v)
      | ST_DoubleBitBinary \<Rightarrow> (3, 2)
      | ST_Counter \<Rightarrow> the (object_case 20 [1, 2, 5, 6] (Some (20, 1)) v)
      | ST_FrozenCounter \<Rightarrow> the (object_case 21 [1, 2, 5, 6, 9, 10] (Some (21, 1)) v)
      | ST_Analog \<Rightarrow> the (object_case 30 [1, 2, 3, 4, 5, 6] (Some (30, 1)) v)
      | ST_BinaryOutputStatus \<Rightarrow> (10, 2)
      | ST_AnalogOutputStatus \<Rightarrow> the (object_case 40 [1, 2, 3, 4] (Some (40, 1)) v)
      | ST_TimeAndInterval \<Rightarrow> (50, 4)
      | ST_OctetString \<Rightarrow> (110, 0))"

definition static_fields :: "MeasValue conversions \<Rightarrow> nat \<times> nat \<Rightarrow> StaticMeas \<Rightarrow> FieldValue list" where
  "static_fields conv gk m =
     (case m of
        SM_Meas x \<Rightarrow> conv (gv (fst gk) (snd gk)) x
      | SM_TimeAndInterval t \<Rightarrow> [FV_time (tai_time t), FV_u32 (tai_interval t), FV_u8 (tai_units t)])"

definition static_serializer :: "MeasValue conversions \<Rightarrow> nat \<times> nat \<Rightarrow> StaticMeas DNP3Serializer" where
  "static_serializer conv gk = Descriptor_Inst (of_nat (fst gk)) (of_nat (snd gk)) (static_fields conv gk)"

definition binary_value :: "StaticMeas \<Rightarrow> bool option" where
  "binary_value m = (case m of SM_Meas (Meas _ _ (VBool b)) \<Rightarrow> Some b | _ \<Rightarrow> None)"

definition octets_of :: "StaticMeas \<Rightarrow> u8 list option" where
  "octets_of m = (case m of SM_Meas (OctetString bs) \<Rightarrow> Some bs | _ \<Rightarrow> None)"


section \<open>Runs of points\<close>

text \<open>The condition of the loops: the first point of the range continues the run.\<close>

definition continues :: "GroupVariation \<Rightarrow> u16 \<Rightarrow> Cell \<Rightarrow> bool" where
  "continues variation nextIndex c \<longleftrightarrow>
     cell_selected c \<and> cell_selvariation c = variation \<and> cell_vIndex c = nextIndex"

definition deselect_cell :: "Cell \<Rightarrow> Cell" where
  "deselect_cell c = c\<lparr>cell_selected := False\<rparr>"

text \<open>
  A loop writes with \<open>put\<close>, which works on the iterator and the header writer. The result: false
  when a write failed; the number of points written, the points, the writer state and the range.
\<close>

partial_function (option) load_loop ::
    "(StaticMeas \<Rightarrow> 'w \<Rightarrow> (bool \<times> 'w) option) \<Rightarrow> (Cell \<Rightarrow> bool) \<Rightarrow> GroupVariation \<Rightarrow> u16 \<Rightarrow> u16 \<Rightarrow> Cell list \<Rightarrow> 'w \<Rightarrow> Range \<Rightarrow>
     (bool \<times> u16 \<times> Cell list \<times> 'w \<times> Range) option" where
  "load_loop put extra variation nextIndex num arr w rng =
     (if Range_IsValid rng
      then do {
        c \<leftarrow> cell_at (range_start rng) arr;
        if extra c \<and> continues variation nextIndex c
        then do {
          (ok, w) \<leftarrow> put (cell_selvalue c) w;
          if ok
          then load_loop put extra variation (nextIndex + 1) (num + 1) (set_cell (range_start rng) (deselect_cell c) arr) w
                 (snd (Range_Advance rng))
          else Some (False, num, arr, w, rng) }
        else Some (True, num, arr, w, rng) }
      else Some (True, num, arr, w, rng))"

declare load_loop.simps [code]

definition LoadWithRangeIterator ::
    "Cell list \<Rightarrow> StaticMeas RangeWriteIterator \<Rightarrow> HeaderWriter \<Rightarrow> Range \<Rightarrow>
     (bool \<times> Cell list \<times> (StaticMeas RangeWriteIterator \<times> HeaderWriter) \<times> Range) option" where
  "LoadWithRangeIterator arr iter hw rng = do {
     start \<leftarrow> cell_at (range_start rng) arr;
     (ok, _, arr, w, rng) \<leftarrow> load_loop (\<lambda>v (iter, hw). Range_Write v iter hw) (\<lambda>_. True) (cell_selvariation start) (cell_vIndex start) 0
        arr (iter, hw) rng;
     Some (ok, arr, w, rng) }"

definition LoadWithBitfieldIterator ::
    "Cell list \<Rightarrow> BitfieldRangeWriteIterator \<Rightarrow> HeaderWriter \<Rightarrow> Range \<Rightarrow>
     (bool \<times> Cell list \<times> (BitfieldRangeWriteIterator \<times> HeaderWriter) \<times> Range) option" where
  "LoadWithBitfieldIterator arr iter hw rng = do {
     start \<leftarrow> cell_at (range_start rng) arr;
     (ok, _, arr, w, rng) \<leftarrow> load_loop (\<lambda>v (iter, hw). do { b \<leftarrow> binary_value v; Bitfield_Write b iter hw }) (\<lambda>_. True)
        (cell_selvariation start) (cell_vIndex start) 0 arr (iter, hw) rng;
     Some (ok, arr, w, rng) }"

text \<open>The virtual indices at the ends of the range.\<close>

definition mapped_range :: "Cell list \<Rightarrow> Range \<Rightarrow> Range option" where
  "mapped_range arr rng = do {
     start \<leftarrow> cell_at (range_start rng) arr;
     stop \<leftarrow> cell_at (range_stop rng) arr;
     Some (Range_From (cell_vIndex start) (cell_vIndex stop)) }"

text \<open>The index type of a header, its qualifier, and the first index as that type.\<close>

definition range_header :: "Range \<Rightarrow> IndexType \<times> QualifierCode \<times> u16" where
  "range_header mapped =
     (if Range_IsOneByte mapped then (IT_UInt8, QC_UINT8_START_STOP, IT_cast IT_UInt8 (range_start mapped))
      else (IT_UInt16, QC_UINT16_START_STOP, range_start mapped))"

type_synonym static_write = "Cell list \<Rightarrow> HeaderWriter \<Rightarrow> Range \<Rightarrow> (bool \<times> Cell list \<times> HeaderWriter \<times> Range) option"

definition WriteSingleBitfield :: "nat \<times> nat \<Rightarrow> static_write" where
  "WriteSingleBitfield gk arr writer rng = do {
     mapped \<leftarrow> mapped_range arr rng;
     let (it, qc, start) = range_header mapped;
     (iter, writer) \<leftarrow> IterateOverSingleBitfield it (of_nat (fst gk)) (of_nat (snd gk)) qc start writer;
     (ok, arr, (iter, writer), rng) \<leftarrow> LoadWithBitfieldIterator arr iter writer rng;
     writer \<leftarrow> Bitfield_finish iter writer;
     Some (ok, arr, writer, rng) }"

definition WriteWithSerializer :: "StaticMeas DNP3Serializer \<Rightarrow> static_write" where
  "WriteWithSerializer ser arr writer rng = do {
     mapped \<leftarrow> mapped_range arr rng;
     let (it, qc, start) = range_header mapped;
     (iter, writer) \<leftarrow> IterateOverRange it qc ser start writer;
     (ok, arr, (iter, writer), rng) \<leftarrow> LoadWithRangeIterator arr iter writer rng;
     writer \<leftarrow> Range_finish iter writer;
     Some (ok, arr, writer, rng) }"

text \<open>\<open>WriteSomeOctetString\<close>: a failed write makes the number 0, whatever has been written.\<close>

definition WriteSomeOctetString ::
    "Cell list \<Rightarrow> u8 list RangeWriteIterator \<Rightarrow> HeaderWriter \<Rightarrow> Range \<Rightarrow> u8 \<Rightarrow>
     (u16 \<times> Cell list \<times> (u8 list RangeWriteIterator \<times> HeaderWriter) \<times> Range) option" where
  "WriteSomeOctetString arr iter hw rng sz = do {
     start \<leftarrow> cell_at (range_start rng) arr;
     (ok, num, arr, w, rng) \<leftarrow> load_loop (\<lambda>v (iter, hw). do { bs \<leftarrow> octets_of v; Range_Write bs iter hw })
        (\<lambda>c. map_option OctetData_Size (octets_of (cell_selvalue c)) = Some sz) (cell_selvariation start) (cell_vIndex start) 0
        arr (iter, hw) rng;
     Some (if ok then num else 0, arr, w, rng) }"

definition StaticWriters_Write :: static_write where
  "StaticWriters_Write arr writer rng = do {
     mapped \<leftarrow> mapped_range arr rng;
     if Range_IsValid mapped
     then do {
       c \<leftarrow> cell_at (range_start rng) arr;
       bs \<leftarrow> octets_of (cell_selvalue c);
       let sz = OctetData_Size bs;
       let (it, qc, start) = range_header mapped;
       (iter, writer) \<leftarrow> IterateOverRange it qc (OctetStringSerializer False sz) start writer;
       (num, arr, (iter, writer), rng) \<leftarrow> WriteSomeOctetString arr iter writer rng sz;
       writer \<leftarrow> Range_finish iter writer;
       Some (num \<noteq> 0, arr, writer, rng) }
     else Some (True, arr, writer, rng) }"

definition StaticWriters_Get :: "MeasValue conversions \<Rightarrow> StaticType \<Rightarrow> GroupVariation \<Rightarrow> static_write" where
  "StaticWriters_Get conv t v =
     (if t = ST_OctetString then StaticWriters_Write
      else if static_object t v = (1, 1) then WriteSingleBitfield (1, 1)
      else WriteWithSerializer (static_serializer conv (static_object t v)))"


section \<open>Loading\<close>

partial_function (option) LoadType_loop ::
    "MeasValue conversions \<Rightarrow> StaticType \<Rightarrow> bool \<Rightarrow> Cell list \<Rightarrow> HeaderWriter \<Rightarrow> Range \<Rightarrow>
     (bool \<times> Cell list \<times> HeaderWriter \<times> Range) option" where
  "LoadType_loop conv t spaceRemaining arr writer rng =
     (if spaceRemaining \<and> Range_IsValid rng
      then do {
        c \<leftarrow> cell_at (range_start rng) arr;
        if cell_selected c
        then do {
          (spaceRemaining, arr, writer, rng) \<leftarrow> StaticWriters_Get conv t (cell_selvariation c) arr writer rng;
          LoadType_loop conv t spaceRemaining arr writer rng }
        else LoadType_loop conv t spaceRemaining arr writer (snd (Range_Advance rng)) }
      else Some (spaceRemaining, arr, writer, rng))"

declare LoadType_loop.simps [code]

definition LoadType :: "MeasValue conversions \<Rightarrow> StaticType \<Rightarrow> HeaderWriter \<Rightarrow> DatabaseBuffers \<Rightarrow> (bool \<times> HeaderWriter \<times> DatabaseBuffers) option" where
  "LoadType conv t writer db =
     (let rng = ranges_Get t db in
      if \<not> Range_IsValid rng then Some (True, writer, db)
      else do {
        (spaceRemaining, arr, writer, rng) \<leftarrow> LoadType_loop conv t True (GetArrayView t db) writer rng;
        Some (spaceRemaining, writer, ranges_Set t rng (set_view t arr db)) })"

fun Load_types :: "MeasValue conversions \<Rightarrow> StaticType list \<Rightarrow> HeaderWriter \<Rightarrow> DatabaseBuffers \<Rightarrow> (bool \<times> HeaderWriter \<times> DatabaseBuffers) option" where
  "Load_types conv [] writer db = Some (True, writer, db)"
| "Load_types conv (t # ts) writer db = do {
     (ok, writer, db) \<leftarrow> LoadType conv t writer db;
     if ok then Load_types conv ts writer db else Some (False, writer, db) }"

definition loaded_types :: "StaticType list" where
  "loaded_types =
     [ST_Binary, ST_DoubleBitBinary, ST_Counter, ST_FrozenCounter, ST_Analog, ST_BinaryOutputStatus, ST_AnalogOutputStatus,
      ST_TimeAndInterval, ST_OctetString]"

definition DatabaseBuffers_Load :: "MeasValue conversions \<Rightarrow> HeaderWriter \<Rightarrow> DatabaseBuffers \<Rightarrow> (bool \<times> HeaderWriter \<times> DatabaseBuffers) option" where
  "DatabaseBuffers_Load conv = Load_types conv loaded_types"

text \<open>The database behind the interface of the outstation.\<close>

definition static_database_of :: "MeasValue conversions \<Rightarrow> DatabaseBuffers IStaticDatabase" where
  "static_database_of conv =
     \<lparr>sd_SelectAll = DatabaseBuffers_SelectAll, sd_SelectRange = DatabaseBuffers_SelectRange, sd_Unselect = DatabaseBuffers_Unselect,
      sd_HasAnySelection = DatabaseBuffers_HasAnySelection, sd_Load = DatabaseBuffers_Load conv,
      sd_AssignClassToAll = DatabaseBuffers_AssignClassToAll, sd_AssignClassToRange = DatabaseBuffers_AssignClassToRange\<rparr>"


section \<open>Updates\<close>

datatype EventMode = EM_Detect | EM_Force | EM_Suppress | EM_EventOnly

primrec static_type :: "EventType \<Rightarrow> StaticType" where
  "static_type ET_Binary = ST_Binary"
| "static_type ET_DoubleBitBinary = ST_DoubleBitBinary"
| "static_type ET_Counter = ST_Counter"
| "static_type ET_FrozenCounter = ST_FrozenCounter"
| "static_type ET_Analog = ST_Analog"
| "static_type ET_BinaryOutputStatus = ST_BinaryOutputStatus"
| "static_type ET_AnalogOutputStatus = ST_AnalogOutputStatus"
| "static_type ET_OctetString = ST_OctetString"

definition ConvertToEventClass :: "PointClass \<Rightarrow> EventClass option" where
  "ConvertToEventClass pc = (case pc of Class1 \<Rightarrow> Some EC1 | Class2 \<Rightarrow> Some EC2 | Class3 \<Rightarrow> Some EC3 | Class0 \<Rightarrow> None)"

text \<open>
  \<open>IsEvent\<close> of the specs: the old value, the new one and the deadband. The difference of two
  counters is computed with 64 bits; \<open>exceeds\<close> is the comparison of doubles in
  \<open>EventTriggers.cpp\<close>, whose arguments are the new value, the old one and the deadband.
\<close>

definition counter_exceeds :: "u32 \<Rightarrow> u32 \<Rightarrow> u32 \<Rightarrow> bool" where
  "counter_exceeds val1 val2 deadband \<longleftrightarrow>
     (let diff = (if val2 > val1 then ucast val2 - ucast val1 else ucast val1 - ucast val2 :: 64 word) in diff > ucast deadband)"

definition IsEvent :: "(u8 list \<Rightarrow> u8 list \<Rightarrow> u8 list \<Rightarrow> bool) \<Rightarrow> MeasValue Measurement \<Rightarrow> MeasValue Measurement \<Rightarrow> MeasValue \<Rightarrow> bool" where
  "IsEvent exceeds oldValue newValue deadband =
     (case (oldValue, newValue) of
        (OctetString a, OctetString b) \<Rightarrow> a \<noteq> b
      | (Meas flags1 _ v1, Meas flags2 _ v2) \<Rightarrow>
          flags1 \<noteq> flags2 \<or>
          (case (v1, v2, deadband) of
             (VCounter a, VCounter b, VCounter d) \<Rightarrow> counter_exceeds a b d
           | (VAnalog a, VAnalog b, VAnalog d) \<Rightarrow> exceeds b a d
           | _ \<Rightarrow> False)
      | _ \<Rightarrow> False)"

type_synonym database = "DatabaseBuffers \<times> MeasValue Measurement EventBuffer"

definition GetRawIndex :: "StaticType \<Rightarrow> u16 \<Rightarrow> DatabaseBuffers \<Rightarrow> u16 option" where
  "GetRawIndex t index db =
     (if db_indexMode db = Contiguous then Some index
      else do {
        (match, i) \<leftarrow> FindClosestRawIndex (GetArrayView t db) index;
        Some (if match then i else 0xFFFF) })"

text \<open>The point, and the event that is given to the event buffer.\<close>

definition TryCreateEvent ::
    "EventType \<Rightarrow> MeasValue Measurement \<Rightarrow> Cell \<Rightarrow> MeasValue Measurement EventBuffer \<Rightarrow> (Cell \<times> MeasValue Measurement EventBuffer) option" where
  "TryCreateEvent t v c eb =
     (case ConvertToEventClass (cell_clazz c) of
        None \<Rightarrow> Some (c, eb)
      | Some ec \<Rightarrow> do {
          let c = c\<lparr>cell_lastEvent := v\<rparr>;
          eb \<leftarrow> EventBuffer_Update t \<lparr>ev_index = cell_vIndex c, ev_clazz = ec, ev_value = v, ev_variation = cell_evariation c\<rparr> eb;
          Some (c, eb) })"

definition UpdateAny ::
    "(u8 list \<Rightarrow> u8 list \<Rightarrow> u8 list \<Rightarrow> bool) \<Rightarrow> EventType \<Rightarrow> MeasValue Measurement \<Rightarrow> EventMode \<Rightarrow> Cell \<Rightarrow>
     MeasValue Measurement EventBuffer \<Rightarrow> (Cell \<times> MeasValue Measurement EventBuffer) option" where
  "UpdateAny exceeds t v mode c eb = do {
     (c, eb) \<leftarrow> (if mode = EM_Force \<or> mode = EM_EventOnly then TryCreateEvent t v c eb
        else if mode = EM_Detect \<and> IsEvent exceeds (cell_lastEvent c) v (cell_deadband c) then TryCreateEvent t v c eb
        else Some (c, eb));
     Some (if mode \<noteq> EM_EventOnly then c\<lparr>cell_value := SM_Meas v\<rparr> else c, eb) }"

definition UpdateEvent ::
    "(u8 list \<Rightarrow> u8 list \<Rightarrow> u8 list \<Rightarrow> bool) \<Rightarrow> EventType \<Rightarrow> MeasValue Measurement \<Rightarrow> u16 \<Rightarrow> EventMode \<Rightarrow> database \<Rightarrow> (bool \<times> database) option" where
  "UpdateEvent exceeds t v index mode s = (case s of (db, eb) \<Rightarrow> do {
     rawIndex \<leftarrow> GetRawIndex (static_type t) index db;
     let arr = GetArrayView (static_type t) db;
     case cell_at rawIndex arr of
       None \<Rightarrow> Some (False, db, eb)
     | Some c \<Rightarrow> do {
         (c, eb) \<leftarrow> UpdateAny exceeds t v mode c eb;
         Some (True, set_view (static_type t) (set_cell rawIndex c arr) db, eb) } })"

definition Update_TimeAndInterval :: "TimeAndInterval \<Rightarrow> u16 \<Rightarrow> DatabaseBuffers \<Rightarrow> (bool \<times> DatabaseBuffers) option" where
  "Update_TimeAndInterval v index db = do {
     rawIndex \<leftarrow> GetRawIndex ST_TimeAndInterval index db;
     let arr = GetArrayView ST_TimeAndInterval db;
     case cell_at rawIndex arr of
       None \<Rightarrow> Some (False, db)
     | Some c \<Rightarrow> Some (True, set_view ST_TimeAndInterval (set_cell rawIndex (c\<lparr>cell_value := SM_TimeAndInterval v\<rparr>) arr) db) }"

text \<open>\<open>Modify\<close>, for the types that have flags.\<close>

definition with_flags :: "u8 \<Rightarrow> StaticMeas \<Rightarrow> MeasValue Measurement option" where
  "with_flags flags m = (case m of SM_Meas (Meas _ time v) \<Rightarrow> Some (Meas flags time v) | _ \<Rightarrow> None)"

definition Modify_body ::
    "(u8 list \<Rightarrow> u8 list \<Rightarrow> u8 list \<Rightarrow> bool) \<Rightarrow> EventType \<Rightarrow> u8 \<Rightarrow> u16 \<Rightarrow> Cell list \<times> MeasValue Measurement EventBuffer \<Rightarrow>
     (Cell list \<times> MeasValue Measurement EventBuffer) option" where
  "Modify_body exceeds t flags i s = (case s of (arr, eb) \<Rightarrow> do {
     c \<leftarrow> cell_at i arr;
     copy \<leftarrow> with_flags flags (cell_value c);
     (c, eb) \<leftarrow> UpdateAny exceeds t copy EM_Detect c eb;
     Some (set_cell i c arr, eb) })"

definition Modify ::
    "(u8 list \<Rightarrow> u8 list \<Rightarrow> u8 list \<Rightarrow> bool) \<Rightarrow> EventType \<Rightarrow> u16 \<Rightarrow> u16 \<Rightarrow> u8 \<Rightarrow> database \<Rightarrow> (bool \<times> database) option" where
  "Modify exceeds t start stop flags s = (case s of (db, eb) \<Rightarrow> do {
     rawStart \<leftarrow> GetRawIndex (static_type t) start db;
     rawStop \<leftarrow> GetRawIndex (static_type t) stop db;
     let arr = GetArrayView (static_type t) db;
     if rawStart < view_size arr \<and> rawStop < view_size arr \<and> rawStart \<le> rawStop
     then do {
       (arr, eb) \<leftarrow> for_range (Modify_body exceeds t flags) rawStart rawStop (arr, eb);
       Some (True, set_view (static_type t) arr db, eb) }
     else Some (False, db, eb) })"

end
