(* ===== verification/DatabaseBounds.thy ===== *)
theory DatabaseBounds
  imports StaticWriting
begin

text \<open>
  The operations of the static database return and keep its invariant: the ranges lie in the arrays,
  the selected points lie in the ranges, and the virtual indices are sorted. What they do to the
  arrays is given by \<open>update_between\<close>.
\<close>

section \<open>Loops over an array\<close>

lemma for_range_ok:
  assumes "unat stop < 65535" and "P (unat i) s"
    and "\<And>j s. unat i \<le> j \<Longrightarrow> j \<le> unat stop \<Longrightarrow> P j s \<Longrightarrow> succeeds (body (of_nat j) s) (P (Suc j))"
  shows "succeeds (for_range body i stop s) (P (max (unat i) (Suc (unat stop))))"
  using assms
proof (induction "Suc (unat stop) - unat i" arbitrary: i s)
  case 0
  then have "\<not> i \<le> stop"
    by (simp add: word_le_nat_alt)
  then show ?case
    using 0 by (simp add: for_range.simps [of body i] max_def)
next
  case (Suc n)
  then have le: "i \<le> stop" "unat i \<le> unat stop"
    by (simp_all add: word_le_nat_alt)
  then have next0: "unat (i + 1) = Suc (unat i)"
    using Suc.prems(1) by (simp add: unat_word_ariths)
  obtain s' where s': "body i s = Some s'" "P (Suc (unat i)) s'"
    using Suc.prems(2) Suc.prems(3) [of "unat i" s] le by (auto elim!: succeedsE)
  have "succeeds (for_range body (i + 1) stop s') (P (max (unat (i + 1)) (Suc (unat stop))))"
    using Suc.prems s' next0 Suc.hyps(2) by (intro Suc.hyps(1)) auto
  then show ?case
    using le s'(1) next0 by (simp add: for_range.simps [of body i] max_def)
qed

definition update_between :: "('a \<Rightarrow> 'a) \<Rightarrow> nat \<Rightarrow> nat \<Rightarrow> 'a list \<Rightarrow> 'a list" where
  "update_between f lo hi xs = map (\<lambda>k. if lo \<le> k \<and> k < hi then f (xs ! k) else xs ! k) [0..<length xs]"

lemma length_update_between [simp]: "length (update_between f lo hi xs) = length xs"
  by (simp add: update_between_def)

lemma nth_update_between [simp]:
  "k < length xs \<Longrightarrow> update_between f lo hi xs ! k = (if lo \<le> k \<and> k < hi then f (xs ! k) else xs ! k)"
  by (simp add: update_between_def)

lemma update_between_empty [simp]: "hi \<le> lo \<Longrightarrow> update_between f lo hi xs = xs"
  by (rule nth_equalityI) auto

lemma update_between_Suc: "lo \<le> j \<Longrightarrow> j < length xs \<Longrightarrow> (update_between f lo j xs)[j := f (xs ! j)] = update_between f lo (Suc j) xs"
  by (rule nth_equalityI) (auto simp: nth_list_update less_Suc_eq)

lemma update_between_trans: "lo \<le> mid \<Longrightarrow> mid \<le> hi \<Longrightarrow> update_between f mid hi (update_between f lo mid xs) = update_between f lo hi xs"
  by (rule nth_equalityI) auto

lemma update_between_first: "lo < hi \<Longrightarrow> lo < length xs \<Longrightarrow> update_between f (Suc lo) hi (xs[lo := f (xs ! lo)]) = update_between f lo hi xs"
  by (rule nth_equalityI) (auto simp: nth_list_update)

lemma set_update_between: "(\<And>x. x \<in> set xs \<Longrightarrow> P x) \<Longrightarrow> (\<And>x. x \<in> set xs \<Longrightarrow> P (f x)) \<Longrightarrow> x \<in> set (update_between f lo hi xs) \<Longrightarrow> P x"
  unfolding update_between_def by (auto split: if_splits)

lemma cell_at_nth: "k < length arr \<Longrightarrow> length arr \<le> 65535 \<Longrightarrow> cell_at (of_nat k) arr = Some (arr ! k)"
  by (simp add: cell_at_def unat_of_nat_u16)

lemma set_cell_nth: "k < length arr \<Longrightarrow> length arr \<le> 65535 \<Longrightarrow> set_cell (of_nat k) c arr = arr[k := c]"
  by (simp add: set_cell_def unat_of_nat_u16)

lemma for_range_update_cell:
  assumes "unat stop < length arr" and "length arr \<le> 65535"
  shows "for_range (update_cell f) start stop arr = Some (update_between f (unat start) (Suc (unat stop)) arr)"
proof -
  have "succeeds (for_range (update_cell f) start stop arr)
      (\<lambda>arr'. arr' = update_between f (unat start) (max (unat start) (Suc (unat stop))) arr)"
  proof (rule for_range_ok)
    fix j arr'
    assume "unat start \<le> j" "j \<le> unat stop" "arr' = update_between f (unat start) j arr"
    then show "succeeds (update_cell f (of_nat j) arr') (\<lambda>a. a = update_between f (unat start) (Suc j) arr)"
      using assms by (simp add: update_cell_def cell_at_nth set_cell_nth update_between_Suc)
  qed (use assms in simp_all)
  moreover have "update_between f (unat start) (max (unat start) (Suc (unat stop))) arr = update_between f (unat start) (Suc (unat stop)) arr"
    by (simp add: max_def)
  ultimately show ?thesis
    by (auto elim!: succeedsE)
qed


section \<open>The invariant\<close>

text \<open>The kind of value that the measurements of an array hold.\<close>

fun value_kind :: "StaticType \<Rightarrow> MeasValue \<Rightarrow> bool" where
  "value_kind ST_Binary (VBool _) = True"
| "value_kind ST_BinaryOutputStatus (VBool _) = True"
| "value_kind ST_DoubleBitBinary (VDoubleBit _) = True"
| "value_kind ST_Counter (VCounter _) = True"
| "value_kind ST_FrozenCounter (VCounter _) = True"
| "value_kind ST_Analog (VAnalog _) = True"
| "value_kind ST_AnalogOutputStatus (VAnalog _) = True"
| "value_kind _ _ = False"

definition static_ok :: "StaticType \<Rightarrow> StaticMeas \<Rightarrow> bool" where
  "static_ok t m \<longleftrightarrow>
     (case m of
        SM_TimeAndInterval _ \<Rightarrow> t = ST_TimeAndInterval
      | SM_Meas (OctetString _) \<Rightarrow> t = ST_OctetString
      | SM_Meas (Meas _ time v) \<Rightarrow> value_kind t v \<and> 0 \<le> sint time)"

lemma static_okD:
  "static_ok ST_Binary m \<Longrightarrow> binary_value m \<noteq> None"
  "static_ok ST_OctetString m \<Longrightarrow> octets_of m \<noteq> None"
  by (auto simp: static_ok_def binary_value_def octets_of_def split: StaticMeas.splits Measurement.splits MeasValue.splits)

definition cell_ok :: "StaticType \<Rightarrow> Cell \<Rightarrow> bool" where
  "cell_ok t c \<longleftrightarrow> static_ok t (cell_value c) \<and> (cell_selected c \<longrightarrow> static_ok t (cell_selvalue c))"

text \<open>The points of an array, and how its range relates to it: every selected point lies in the range.\<close>

definition array_ok :: "StaticType \<Rightarrow> Cell list \<Rightarrow> bool" where
  "array_ok t arr \<longleftrightarrow> length arr \<le> 65535 \<and> sorted_wrt (<) (map cell_vIndex arr) \<and> (\<forall>c \<in> set arr. cell_ok t c)"

definition range_ok :: "Cell list \<Rightarrow> Range \<Rightarrow> bool" where
  "range_ok arr rng \<longleftrightarrow>
     (rng = Range_Invalid \<or> Range_IsValid rng) \<and> (Range_IsValid rng \<longrightarrow> unat (range_stop rng) < length arr) \<and>
     (\<forall>k < length arr. cell_selected (arr ! k) \<longrightarrow> unat (range_start rng) \<le> k \<and> k \<le> unat (range_stop rng))"

definition db_inv :: "DatabaseBuffers \<Rightarrow> bool" where
  "db_inv db \<longleftrightarrow> (\<forall>t. array_ok t (GetArrayView t db) \<and> range_ok (GetArrayView t db) (ranges_Get t db))"

lemma GetArrayView_simps [simp]:
  "GetArrayView t' (set_view t arr db) = (if t' = t then arr else GetArrayView t' db)"
  "GetArrayView t' (ranges_Set t rng db) = GetArrayView t' db"
  "ranges_Get t' (ranges_Set t rng db) = (if t' = t then rng else ranges_Get t' db)"
  "ranges_Get t' (set_view t arr db) = ranges_Get t' db"
  by (simp_all add: GetArrayView_def set_view_def ranges_Set_def ranges_Get_def)

lemma db_inv_update:
  assumes "db_inv db" and "array_ok t arr" and "range_ok arr rng"
  shows "db_inv (ranges_Set t rng (set_view t arr db))"
  using assms by (simp add: db_inv_def)

lemma array_ok_update:
  assumes "array_ok t arr" and "\<And>c. cell_ok t c \<Longrightarrow> cell_ok t (f c)" and "\<And>c. cell_vIndex (f c) = cell_vIndex c"
  shows "array_ok t (update_between f lo hi arr)"
proof -
  have "map cell_vIndex (update_between f lo hi arr) = map cell_vIndex arr"
    by (rule nth_equalityI) (simp_all add: assms(3))
  moreover have "\<forall>c \<in> set (update_between f lo hi arr). cell_ok t c"
    using assms(1,2) set_update_between [of arr "cell_ok t" f] by (auto simp: array_ok_def)
  ultimately show ?thesis
    using assms(1) by (simp add: array_ok_def)
qed

lemma not_Range_IsValid_Invalid [simp]: "\<not> Range_IsValid Range_Invalid"
  by (simp add: Range_Invalid_def Range_IsValid_def)

lemma range_ok_none: "range_ok arr Range_Invalid \<longleftrightarrow> (\<forall>k < length arr. \<not> cell_selected (arr ! k))"
  by (auto simp: range_ok_def Range_Invalid_def Range_IsValid_def)

lemma RangeOf_simps:
  assumes "length arr \<le> 65535"
  shows "Range_IsValid (RangeOf (view_size arr)) \<longleftrightarrow> arr \<noteq> []"
    and "arr \<noteq> [] \<Longrightarrow> unat (range_start (RangeOf (view_size arr))) = 0"
    and "arr \<noteq> [] \<Longrightarrow> unat (range_stop (RangeOf (view_size arr))) = length arr - 1"
proof -
  have n: "unat (view_size arr) = length arr"
    using assms by (simp add: view_size_def unat_of_nat_u16)
  then have "view_size arr > 0 \<longleftrightarrow> arr \<noteq> []"
    by (simp add: word_less_nat_alt)
  moreover have "unat (view_size arr - 1) = length arr - 1" if "arr \<noteq> []"
    using that n by (subst unat_minus_one) (auto simp: word_unat_eq_iff)
  ultimately show "Range_IsValid (RangeOf (view_size arr)) \<longleftrightarrow> arr \<noteq> []"
    and "arr \<noteq> [] \<Longrightarrow> unat (range_start (RangeOf (view_size arr))) = 0"
    and "arr \<noteq> [] \<Longrightarrow> unat (range_stop (RangeOf (view_size arr))) = length arr - 1"
    by (simp_all add: RangeOf_def Range_IsValid_def Range_From_def Range_Invalid_def)
qed

lemma Intersection_RangeOf:
  assumes "length arr \<le> 65535" and "Range_IsValid (Range_Intersection rng (RangeOf (view_size arr)))"
  shows "unat (range_stop (Range_Intersection rng (RangeOf (view_size arr)))) < length arr"
    and "range_start (Range_Intersection rng (RangeOf (view_size arr))) = range_start rng"
    and "unat (range_stop (Range_Intersection rng (RangeOf (view_size arr)))) = min (unat (range_stop rng)) (length arr - 1)"
proof -
  have "arr \<noteq> []"
    using assms by (auto simp: Range_IsValid_def Range_Intersection_def RangeOf_def view_size_def Range_Invalid_def)
  note * = RangeOf_simps [OF assms(1)] this
  have "range_start (RangeOf (view_size arr)) = 0"
    using *(2) \<open>arr \<noteq> []\<close> by (simp add: word_unat_eq_iff)
  then show "range_start (Range_Intersection rng (RangeOf (view_size arr))) = range_start rng"
    by (simp add: Range_Intersection_def max_def)
  have "unat (min a b) = min (unat a) (unat b)" for a b :: u16
    by (simp add: min_def word_le_nat_alt)
  then show "unat (range_stop (Range_Intersection rng (RangeOf (view_size arr)))) = min (unat (range_stop rng)) (length arr - 1)"
    using *(3) \<open>arr \<noteq> []\<close> by (simp add: Range_Intersection_def)
  then show "unat (range_stop (Range_Intersection rng (RangeOf (view_size arr)))) < length arr"
    using \<open>arr \<noteq> []\<close> by (simp add: min_less_iff_disj)
qed


section \<open>Selection\<close>

lemma cell_ok_select: "cell_ok t c \<Longrightarrow> cell_ok t (select_cell t variation c)"
  by (simp add: cell_ok_def select_cell_def)

definition select_if_not :: "StaticType \<Rightarrow> GroupVariation option \<Rightarrow> Cell \<Rightarrow> Cell" where
  "select_if_not t variation c = (if cell_selected c then c else select_cell t variation c)"

lemma GenericSelect_loop:
  assumes "unat stop < length arr" and "length arr \<le> 65535"
  shows "for_range (GenericSelect_body t variation) start stop (ret, arr) =
    Some (if \<exists>k < length arr. unat start \<le> k \<and> k \<le> unat stop \<and> cell_selected (arr ! k) then IINField_or ret PARAM_ERROR else ret,
      update_between (select_if_not t variation) (unat start) (Suc (unat stop)) arr)"
proof -
  define repeated where "repeated j \<longleftrightarrow> (\<exists>k < length arr. unat start \<le> k \<and> k < j \<and> cell_selected (arr ! k))" for j
  define R where "R j = (if repeated j then IINField_or ret PARAM_ERROR else ret, update_between (select_if_not t variation) (unat start) j arr)" for j
  have idem: "IINField_or (IINField_or ret PARAM_ERROR) PARAM_ERROR = IINField_or ret PARAM_ERROR"
    by (simp add: IINField_or_def or.assoc)
  have "succeeds (for_range (GenericSelect_body t variation) start stop (ret, arr)) (\<lambda>s. s = R (max (unat start) (Suc (unat stop))))"
  proof (rule for_range_ok)
    show "(ret, arr) = R (unat start)"
      by (auto simp: R_def repeated_def)
    fix j s
    assume j: "unat start \<le> j" "j \<le> unat stop" and s: "s = R j"
    have c: "cell_at (of_nat j) (update_between (select_if_not t variation) (unat start) j arr) = Some (arr ! j)" "j < length arr"
      using j assms by (simp_all add: cell_at_nth)
    have R: "repeated (Suc j) \<longleftrightarrow> repeated j \<or> cell_selected (arr ! j)"
      using j c(2) by (auto simp: repeated_def less_Suc_eq)
    have "select_if_not t variation (arr ! j) = arr ! j" if "cell_selected (arr ! j)"
      using that by (simp add: select_if_not_def)
    then have "update_between (select_if_not t variation) (unat start) (Suc j) arr =
        (if cell_selected (arr ! j) then update_between (select_if_not t variation) (unat start) j arr
         else (update_between (select_if_not t variation) (unat start) j arr)[j := select_cell t variation (arr ! j)])"
      using update_between_Suc [of "unat start" j arr "select_if_not t variation"] j(1) c(2)
        list_update_id [of "update_between (select_if_not t variation) (unat start) j arr" j]
      by (auto simp: select_if_not_def)
    then show "succeeds (GenericSelect_body t variation (of_nat j) s) (\<lambda>s. s = R (Suc j))"
      using c assms(2) idem by (simp add: GenericSelect_body_def s R_def R set_cell_nth)
  qed (use assms in simp)
  moreover have "R (max (unat start) (Suc (unat stop))) = R (Suc (unat stop))"
    by (auto simp: R_def repeated_def max_def)
  moreover have "repeated (Suc (unat stop)) \<longleftrightarrow> (\<exists>k < length arr. unat start \<le> k \<and> k \<le> unat stop \<and> cell_selected (arr ! k))"
    by (auto simp: repeated_def less_Suc_eq_le)
  ultimately show ?thesis
    by (auto simp: R_def elim!: succeedsE)
qed

text \<open>The effect of a selection on the database: the points of the range that are there are selected.\<close>

definition selected_db :: "StaticType \<Rightarrow> Range \<Rightarrow> GroupVariation option \<Rightarrow> DatabaseBuffers \<Rightarrow> DatabaseBuffers" where
  "selected_db t rng variation db =
     (let arr = GetArrayView t db; allowed = Range_Intersection rng (RangeOf (view_size arr)) in
      if Range_IsValid rng \<and> Range_IsValid allowed
      then ranges_Merge t allowed (set_view t (update_between (select_if_not t variation) (unat (range_start allowed))
        (Suc (unat (range_stop allowed))) arr) db)
      else db)"

lemma GenericSelect_succeeds:
  assumes "length (GetArrayView t db) \<le> 65535"
  shows "\<exists>iin. GenericSelect t rng variation db = Some (iin, selected_db t rng variation db)"
proof -
  define arr where "arr = GetArrayView t db"
  define allowed where "allowed = Range_Intersection rng (RangeOf (view_size arr))"
  show ?thesis
  proof (cases "Range_IsValid rng \<and> Range_IsValid allowed")
    case True
    have "unat (range_stop allowed) < length arr"
      using Intersection_RangeOf(1) [of arr rng] True assms by (simp add: allowed_def arr_def)
    from GenericSelect_loop [OF this] True assms show ?thesis
      by (simp add: GenericSelect_def selected_db_def Let_def flip: arr_def allowed_def)
  qed (auto simp: GenericSelect_def selected_db_def Let_def allowed_def arr_def)
qed

lemma range_ok_Union:
  assumes "range_ok arr rng" and "unat (range_stop allowed) < length arr" and "Range_IsValid allowed"
    and "\<And>k. k < length arr \<Longrightarrow> cell_selected (arr' ! k) \<Longrightarrow> cell_selected (arr ! k) \<or> unat (range_start allowed) \<le> k \<and> k \<le> unat (range_stop allowed)"
    and "length arr' = length arr"
  shows "range_ok arr' (Range_Union rng allowed)"
proof -
  have minmax: "unat (min a b) = min (unat a) (unat b)" "unat (max a b) = max (unat a) (unat b)" for a b :: u16
    by (simp_all add: min_def max_def word_le_nat_alt)
  have "unat (range_stop rng) < length arr"
    using assms(1,2) by (auto simp: range_ok_def Range_Invalid_def)
  moreover have "Range_IsValid (Range_Union rng allowed)"
    using assms(3) by (simp add: Range_IsValid_def Range_Union_def min_le_iff_disj le_max_iff_disj)
  moreover have "unat (min a c) \<le> k \<and> k \<le> unat (max b d)"
    if "unat a \<le> k \<and> k \<le> unat b \<or> unat c \<le> k \<and> k \<le> unat d" for a b c d :: u16 and k
    using that by (auto simp: minmax)
  ultimately show ?thesis
    using assms(1,2,4,5) unfolding range_ok_def Range_Union_def by (simp add: minmax) blast
qed

lemma selected_db_inv:
  assumes "db_inv db"
  shows "db_inv (selected_db t rng variation db)"
proof -
  define arr where "arr = GetArrayView t db"
  define allowed where "allowed = Range_Intersection rng (RangeOf (view_size arr))"
  define arr' where "arr' = update_between (select_if_not t variation) (unat (range_start allowed)) (Suc (unat (range_stop allowed))) arr"
  have ok: "array_ok t arr" "range_ok arr (ranges_Get t db)" "length arr \<le> 65535"
    using assms by (simp_all add: db_inv_def arr_def array_ok_def)
  show ?thesis
  proof (cases "Range_IsValid rng \<and> Range_IsValid allowed")
    case True
    have "array_ok t arr'"
      unfolding arr'_def by (rule array_ok_update [OF ok(1)]) (simp_all add: select_if_not_def cell_ok_select, simp add: select_cell_def)
    moreover have "range_ok arr' (Range_Union (ranges_Get t db) allowed)"
    proof (rule range_ok_Union [OF ok(2)])
      show "unat (range_stop allowed) < length arr"
        using Intersection_RangeOf(1) [OF ok(3)] True by (simp add: allowed_def)
      show "cell_selected (arr ! k) \<or> unat (range_start allowed) \<le> k \<and> k \<le> unat (range_stop allowed)"
        if "k < length arr" "cell_selected (arr' ! k)" for k
        using that by (auto simp: arr'_def less_Suc_eq_le split: if_splits)
    qed (use True in \<open>simp_all add: arr'_def\<close>)
    ultimately show ?thesis
      using True assms by (simp add: selected_db_def Let_def ranges_Merge_def db_inv_update flip: arr_def allowed_def arr'_def)
  qed (use assms in \<open>auto simp: selected_db_def Let_def allowed_def arr_def\<close>)
qed

lemma db_inv_length: "db_inv db \<Longrightarrow> length (GetArrayView t db) \<le> 65535"
  by (simp add: db_inv_def array_ok_def)

lemma GenericSelect_ok: "db_inv db \<Longrightarrow> succeeds (GenericSelect t rng variation db) (\<lambda>(_, db'). db_inv db')"
  using GenericSelect_succeeds [OF db_inv_length, of db t rng variation] selected_db_inv [of db t rng variation] by auto


section \<open>The binary search\<close>

text \<open>The position of an index in a sorted array: the point itself, or one of its neighbours.\<close>

definition closest :: "Cell list \<Rightarrow> u16 \<Rightarrow> bool \<times> u16 \<Rightarrow> bool" where
  "closest arr x r \<longleftrightarrow>
     (case r of (match, m) \<Rightarrow> unat m < length arr \<and> (match \<longleftrightarrow> cell_vIndex (arr ! unat m) = x) \<and>
        (\<forall>k < length arr. k < unat m \<longrightarrow> cell_vIndex (arr ! k) < x) \<and>
        (\<forall>k < length arr. unat m < k \<longrightarrow> x < cell_vIndex (arr ! k)))"

lemma sorted_vIndex: "sorted_wrt (<) (map cell_vIndex arr) \<Longrightarrow> i < j \<Longrightarrow> j < length arr \<Longrightarrow> cell_vIndex (arr ! i) < cell_vIndex (arr ! j)"
  by (simp add: sorted_wrt_iff_nth_less)

lemma GetMidpoint_bounds:
  assumes "lower \<le> upper"
  shows "unat (GetMidpoint lower upper) = unat lower + (unat upper - unat lower) div 2"
proof -
  have half: "unat ((upper - lower) div 2) = (unat upper - unat lower) div 2"
    unfolding unat_div unat_sub [OF assms] by simp
  have "unat lower \<le> unat upper"
    using assms by (simp only: word_le_nat_alt)
  then have "unat lower + (unat upper - unat lower) div 2 < 65536"
    using unat_u16_less [of upper] by linarith
  then show ?thesis
    unfolding GetMidpoint_def by (simp only: unat_word_ariths(1) half add.commute) simp
qed

lemma FindClosestRawIndex_loop_ok:
  assumes "sorted_wrt (<) (map cell_vIndex arr)" and "length arr \<le> 65535"
    and "lower \<le> upper" and "unat upper < length arr"
    and "\<And>k. k < unat lower \<Longrightarrow> cell_vIndex (arr ! k) < x" and "\<And>k. unat upper < k \<Longrightarrow> k < length arr \<Longrightarrow> x < cell_vIndex (arr ! k)"
  shows "succeeds (FindClosestRawIndex_loop arr x lower upper mid) (closest arr x)"
  using assms(3-)
proof (induction "unat upper - unat lower" arbitrary: lower upper mid rule: less_induct)
  case less
  define m where "m = GetMidpoint lower upper"
  have le: "unat lower \<le> unat upper"
    using less.prems(1) by (simp add: word_le_nat_alt)
  have m: "unat m = unat lower + (unat upper - unat lower) div 2" "unat lower \<le> unat m" "unat m \<le> unat upper" "unat m < length arr"
    using GetMidpoint_bounds [OF less.prems(1)] le less.prems(2) by (simp_all add: m_def)
  define v where "v = cell_vIndex (arr ! unat m)"
  have sorted: "k < unat m \<Longrightarrow> cell_vIndex (arr ! k) < v" "unat m < k \<Longrightarrow> k < length arr \<Longrightarrow> v < cell_vIndex (arr ! k)" for k
    using sorted_vIndex [OF assms(1)] m(4) by (auto simp: v_def)
  have unfold: "FindClosestRawIndex_loop arr x lower upper mid =
      (if v = x then Some (True, m)
       else if v < x then if lower < 0xFFFF then FindClosestRawIndex_loop arr x (m + 1) upper m else Some (False, m)
       else if upper > 0 \<and> m > 0 then FindClosestRawIndex_loop arr x lower (m - 1) m else Some (False, m))"
    using less.prems(1) m(4) by (subst FindClosestRawIndex_loop.simps) (simp add: cell_at_def v_def flip: m_def)
  have closest: "closest arr x (v = x, m)"
    if "v < x \<Longrightarrow> unat m = unat upper" "x < v \<Longrightarrow> unat m = unat lower"
  proof -
    have "cell_vIndex (arr ! k) < x" if "k < unat m" for k
      using sorted(1) [OF that] less.prems(3) \<open>x < v \<Longrightarrow> unat m = unat lower\<close> that by (cases "x < v") (auto dest: less_trans)
    moreover have "x < cell_vIndex (arr ! k)" if "unat m < k" "k < length arr" for k
      using sorted(2) [OF that] less.prems(4) \<open>v < x \<Longrightarrow> unat m = unat upper\<close> that by (cases "v < x") (auto dest: less_trans)
    ultimately show ?thesis
      using m(4) by (simp add: closest_def v_def)
  qed
  consider "v = x" | "v < x" "m = upper" | "v < x" "unat m < unat upper" | "x < v" "m = lower" | "x < v" "unat lower < unat m"
    using m(2,3) by (metis le_neq_implies_less linorder_less_linear word_unat_eq_iff)
  then show ?case
  proof cases
    case 1
    then show ?thesis using closest unfold by simp
  next
    case 2
    have "\<not> m + 1 \<le> upper" if "lower < 0xFFFF"
      using 2 less.prems(2) assms(2) by (simp add: word_le_nat_alt unat_word_ariths)
    then show ?thesis
      using 2 closest by (auto simp: unfold FindClosestRawIndex_loop.simps [of arr x "upper + 1"])
  next
    case 3
    have next0: "unat (m + 1) = Suc (unat m)"
    proof -
      have "Suc (unat m) < 65536"
        using 3(2) unat_u16_less [of upper] by linarith
      then show ?thesis
        by (simp add: unat_word_ariths)
    qed
    have "unat lower < 65535"
      using 3(2) m(2) unat_u16_less [of upper] by linarith
    then have "lower < 0xFFFF"
      by (simp add: word_less_nat_alt)
    have "succeeds (FindClosestRawIndex_loop arr x (m + 1) upper m) (closest arr x)"
    proof (rule less.hyps)
      show "unat upper - unat (m + 1) < unat upper - unat lower"
        using 3 next0 m(2) by simp
      show "cell_vIndex (arr ! k) < x" if "k < unat (m + 1)" for k
        using sorted(1) [of k] 3 that next0 by (cases "k = unat m") (auto simp: v_def dest: less_trans)
    qed (use 3 next0 less.prems in \<open>auto simp: word_le_nat_alt\<close>)
    then show ?thesis
      using 3 \<open>lower < 0xFFFF\<close> by (auto simp: unfold)
  next
    case 4
    show ?thesis
    proof (cases "m > 0")
      case True
      then have "\<not> lower \<le> m - 1"
        using 4 by (simp add: word_le_nat_alt unat_minus_one word_unat_eq_iff word_less_nat_alt)
      then show ?thesis
        using 4 closest by (auto simp: unfold FindClosestRawIndex_loop.simps [of arr x _ "lower - 1"])
    qed (use 4 closest in \<open>auto simp: unfold\<close>)
  next
    case 5
    then have "m > 0"
      by (simp add: word_less_nat_alt)
    then have next0: "unat (m - 1) = unat m - 1"
      by (simp add: unat_minus_one word_unat_eq_iff word_less_nat_alt)
    have "upper > 0"
      using 5 m(3) by (simp add: word_less_nat_alt)
    have "succeeds (FindClosestRawIndex_loop arr x lower (m - 1) m) (closest arr x)"
    proof (rule less.hyps)
      show "unat (m - 1) - unat lower < unat upper - unat lower"
        using 5 next0 m(2,3) by simp
      show "x < cell_vIndex (arr ! k)" if "unat (m - 1) < k" "k < length arr" for k
        using sorted(2) [of k] 5 that next0 by (cases "k = unat m") (auto simp: v_def intro: less_trans)
    qed (use 5 next0 less.prems(2,3) m(2,3) in \<open>auto simp: word_le_nat_alt\<close>)
    then show ?thesis
      using 5 \<open>m > 0\<close> \<open>upper > 0\<close> not_less_iff_gr_or_eq [of v x] by (auto simp: unfold)
  qed
qed


lemma FindClosestRawIndex_ok:
  assumes "sorted_wrt (<) (map cell_vIndex arr)" and "length arr \<le> 65535" and "arr \<noteq> []"
  shows "succeeds (FindClosestRawIndex arr x) (closest arr x)"
proof -
  have "unat (view_size arr - 1) = length arr - 1"
    using RangeOf_simps [OF assms(2)] assms(3) by (simp add: RangeOf_def Range_From_def Range_IsValid_def Range_Invalid_def split: if_splits)
  then show ?thesis
    using assms FindClosestRawIndex_loop_ok [OF assms(1,2), of 0 "view_size arr - 1" x 0] by (simp add: FindClosestRawIndex_def)
qed

text \<open>The raw indices of the points whose virtual index lies in a range.\<close>

definition raw_indices :: "Cell list \<Rightarrow> Range \<Rightarrow> nat set" where
  "raw_indices arr rng = {k. k < length arr \<and> range_start rng \<le> cell_vIndex (arr ! k) \<and> cell_vIndex (arr ! k) \<le> range_stop rng}"

lemma closest_cases:
  assumes "closest arr x (match, m)" and "k < length arr"
  obtains "k < unat m" "cell_vIndex (arr ! k) < x" | "k = unat m" | "unat m < k" "x < cell_vIndex (arr ! k)"
  using assms by (auto simp: closest_def intro: linorder_cases [of k "unat m"])

lemma closest_start:
  assumes "closest arr x (match, m)" and "k < length arr"
  shows "x \<le> cell_vIndex (arr ! k) \<longleftrightarrow> (if cell_vIndex (arr ! unat m) < x then Suc (unat m) else unat m) \<le> k"
  using assms by (rule closest_cases) (auto simp: not_less not_le)

lemma closest_stop:
  assumes "closest arr x (match, m)" and "k < length arr"
  shows "cell_vIndex (arr ! k) \<le> x \<longleftrightarrow> (if x < cell_vIndex (arr ! unat m) then k < unat m else k \<le> unat m)"
  using assms by (rule closest_cases) (auto simp: not_less not_le)

lemma FindRawRange_spec:
  assumes "sorted_wrt (<) (map cell_vIndex arr)" and "length arr \<le> 65535"
  shows "succeeds (FindRawRange arr rng) (\<lambda>r.
    if Range_IsValid rng \<and> raw_indices arr rng \<noteq> {}
    then Range_IsValid r \<and> raw_indices arr rng = {k. unat (range_start r) \<le> k \<and> k \<le> unat (range_stop r)}
    else \<not> Range_IsValid r)"
proof (cases "Range_IsValid rng \<and> arr \<noteq> []")
  case True
  obtain m1 i1 where start: "FindClosestRawIndex arr (range_start rng) = Some (m1, i1)" "closest arr (range_start rng) (m1, i1)"
    using FindClosestRawIndex_ok [OF assms, of "range_start rng"] True by (cases "FindClosestRawIndex arr (range_start rng)") auto
  obtain m2 i2 where stop: "FindClosestRawIndex arr (range_stop rng) = Some (m2, i2)" "closest arr (range_stop rng) (m2, i2)"
    using FindClosestRawIndex_ok [OF assms, of "range_stop rng"] True by (cases "FindClosestRawIndex arr (range_stop rng)") auto
  have i: "unat i1 < length arr" "unat i2 < length arr" "i1 < 0xFFFF"
    using start(2) stop(2) assms(2) by (simp_all add: closest_def word_less_nat_alt)
  define low where "low = (if cell_vIndex (arr ! unat i1) < range_start rng then Suc (unat i1) else unat i1)"
  define high where "high = (if range_stop rng < cell_vIndex (arr ! unat i2) then unat i2 else Suc (unat i2))"
  have raw: "raw_indices arr rng = {k. low \<le> k \<and> k < high}"
    using closest_start [OF start(2)] closest_stop [OF stop(2)] i(2) by (auto simp: raw_indices_def low_def high_def split: if_splits)
  have low: "unat (if cell_vIndex (arr ! unat i1) < range_start rng then i1 + 1 else i1) = low"
    using i(1) assms(2) by (simp add: low_def unat_word_ariths)
  have n: "unat (view_size arr) = length arr"
    using assms(2) by (simp add: view_size_def unat_of_nat_u16)
  have cells: "cell_at i1 arr = Some (arr ! unat i1)" "cell_at i2 arr = Some (arr ! unat i2)"
    using i by (simp_all add: cell_at_def)
  show ?thesis
  proof (cases "high = 0")
    case True
    then have "range_stop rng < cell_vIndex (arr ! unat i2)" "\<not> i2 > 0"
      by (auto simp: high_def word_less_nat_alt split: if_splits)
    then have "FindRawRange arr rng = Some Range_Invalid"
      using start(1) stop(1) i(3) cells \<open>Range_IsValid rng \<and> arr \<noteq> []\<close> by (simp add: FindRawRange_def Let_def)
    then show ?thesis
      using raw True by (simp add: Range_Invalid_def Range_IsValid_def)
  next
    case False
    have high: "unat (if range_stop rng < cell_vIndex (arr ! unat i2) then i2 - 1 else i2) = high - 1"
      using False by (auto simp: high_def unat_minus_one word_unat_eq_iff)
    define start' where "start' = (if cell_vIndex (arr ! unat i1) < range_start rng then i1 + 1 else i1)"
    define stop' where "stop' = (if cell_vIndex (arr ! unat i2) > range_stop rng then i2 - 1 else i2)"
    have "\<not> (cell_vIndex (arr ! unat i2) > range_stop rng \<and> \<not> i2 > 0)"
      using False by (auto simp: high_def word_less_nat_alt)
    moreover have "start' < view_size arr \<longleftrightarrow> low < length arr" "stop' < view_size arr \<longleftrightarrow> high - 1 < length arr"
      using low high n by (simp_all add: start'_def stop'_def word_less_nat_alt)
    ultimately have "FindRawRange arr rng = Some (if low < length arr \<and> high - 1 < length arr then Range_From start' stop' else Range_Invalid)"
      using start(1) stop(1) i(3) cells \<open>Range_IsValid rng \<and> arr \<noteq> []\<close>
      by (auto simp: FindRawRange_def Let_def simp flip: start'_def stop'_def)
    moreover have "high \<le> length arr"
      using i(2) by (simp add: high_def)
    moreover have mapped: "Range_IsValid (Range_From start' stop') \<longleftrightarrow> low < high" "unat (range_start (Range_From start' stop')) = low"
        "unat (range_stop (Range_From start' stop')) = high - 1"
      using False low high by (auto simp: start'_def stop'_def Range_IsValid_def Range_From_def word_le_nat_alt)
    ultimately have found: "FindRawRange arr rng = Some (if low < high then Range_From start' stop' else if low < length arr then Range_From start' stop' else Range_Invalid)"
      using False by (cases "low < high") simp_all
    show ?thesis
    proof (cases "low < high")
      case True
      then have "raw_indices arr rng \<noteq> {}"
        unfolding raw by auto
      moreover have "raw_indices arr rng =
          {k. unat (range_start (Range_From start' stop')) \<le> k \<and> k \<le> unat (range_stop (Range_From start' stop'))}"
        unfolding raw mapped by (rule Collect_cong) (use True in linarith)
      moreover have "FindRawRange arr rng = Some (Range_From start' stop')" "Range_IsValid (Range_From start' stop')"
        using True found mapped(1) by simp_all
      ultimately show ?thesis
        using \<open>Range_IsValid rng \<and> arr \<noteq> []\<close> by (simp only: succeeds_simps simp_thms if_True)
    next
      case False
      then have "raw_indices arr rng = {}"
        unfolding raw by simp
      then show ?thesis
        using False found mapped(1) by simp
    qed
  qed
qed (auto simp: FindRawRange_def raw_indices_def Range_Invalid_def Range_IsValid_def)

lemma SelectVirtualRange_ok:
  assumes "db_inv db"
  shows "succeeds (SelectVirtualRange t rng variation db) (\<lambda>(_, db'). db_inv db')"
proof (cases "db_indexMode db = Discontiguous")
  case True
  obtain mapped where "FindRawRange (GetArrayView t db) rng = Some mapped"
    using FindRawRange_spec [of "GetArrayView t db" rng] assms by (auto simp: db_inv_def array_ok_def elim!: succeedsE)
  then show ?thesis
    using True assms GenericSelect_ok [OF assms, of t mapped variation] by (auto simp: SelectVirtualRange_def Let_def elim!: succeedsE)
qed (use assms GenericSelect_ok in \<open>simp add: SelectVirtualRange_def\<close>)

lemma SelectAllOf_ok: "db_inv db \<Longrightarrow> succeeds (SelectAllOf t variation db) (\<lambda>(_, db'). db_inv db')"
  by (simp add: SelectAllOf_def GenericSelect_ok)

lemma each_type_ok:
  assumes "P s" and "\<And>t s. t \<in> set ts \<Longrightarrow> P s \<Longrightarrow> succeeds (f t s) P"
  shows "succeeds (each_type f ts s) P"
  using assms
proof (induction ts arbitrary: s)
  case (Cons t ts)
  show ?case
    by (simp, rule succeeds_bind [OF Cons.prems(2)]) (use Cons in simp_all)
qed simp

lemma DatabaseBuffers_SelectAll_ok:
  assumes "db_inv db"
  shows "succeeds (DatabaseBuffers_SelectAll g db) (\<lambda>(_, db'). db_inv db')"
proof -
  have "succeeds (SelectAllClass0 t db) db_inv" if "db_inv db" for t db
    using that by (auto simp: SelectAllClass0_def intro: succeeds_mono [OF SelectAllOf_ok])
  then show ?thesis
    using assms SelectAllOf_ok [OF assms] each_type_ok [of db_inv db class0_types SelectAllClass0]
    by (auto simp: DatabaseBuffers_SelectAll_def split: option.split)
qed

lemma DatabaseBuffers_SelectRange_ok: "db_inv db \<Longrightarrow> succeeds (DatabaseBuffers_SelectRange g rng db) (\<lambda>(_, db'). db_inv db')"
  by (auto simp: DatabaseBuffers_SelectRange_def SelectVirtualRange_ok split: option.split)


section \<open>Deselection and classes\<close>

lemma Deselect_ok:
  assumes "db_inv db"
  shows "succeeds (Deselect t db) (\<lambda>db'. db_inv db' \<and> ranges_Get t db' = Range_Invalid \<and>
    (\<forall>t'. t' \<noteq> t \<longrightarrow> ranges_Get t' db' = ranges_Get t' db \<and> GetArrayView t' db' = GetArrayView t' db))"
proof -
  define arr where "arr = GetArrayView t db"
  define rng where "rng = ranges_Get t db"
  have ok: "array_ok t arr" "range_ok arr rng" "length arr \<le> 65535"
    using assms by (simp_all add: db_inv_def arr_def array_ok_def rng_def)
  show ?thesis
  proof (cases "Range_IsValid rng")
    case True
    define arr' where "arr' = update_between (\<lambda>c. c\<lparr>cell_selected := False\<rparr>) (unat (range_start rng)) (Suc (unat (range_stop rng))) arr"
    have "unat (range_stop rng) < length arr"
      using ok(2) True by (simp add: range_ok_def)
    then have loop: "for_range (update_cell (\<lambda>c. c\<lparr>cell_selected := False\<rparr>)) (range_start rng) (range_stop rng) arr = Some arr'"
      using for_range_update_cell ok(3) by (simp add: arr'_def)
    have "range_ok arr' Range_Invalid"
      using ok(2) by (auto simp: range_ok_none arr'_def range_ok_def less_Suc_eq_le)
    moreover have "array_ok t arr'"
      unfolding arr'_def by (rule array_ok_update [OF ok(1)]) (simp_all add: cell_ok_def)
    ultimately show ?thesis
      using loop True assms db_inv_update [of db t arr' Range_Invalid] by (simp add: Deselect_def ranges_Clear_def flip: arr_def rng_def)
  next
    case False
    then show ?thesis
      using assms ok(2) by (simp add: Deselect_def range_ok_def flip: rng_def)
  qed
qed

definition deselected_db :: "StaticType set \<Rightarrow> DatabaseBuffers \<Rightarrow> DatabaseBuffers \<Rightarrow> bool" where
  "deselected_db ts db db' \<longleftrightarrow> db_inv db' \<and> (\<forall>t. if t \<in> ts then ranges_Get t db' = Range_Invalid
     else ranges_Get t db' = ranges_Get t db \<and> GetArrayView t db' = GetArrayView t db)"

lemma Deselect_types: "db_inv db \<Longrightarrow> succeeds (each_type Deselect ts db) (deselected_db (set ts) db)"
proof (induction ts arbitrary: db)
  case (Cons t ts)
  have "succeeds (each_type Deselect ts db') (deselected_db (set (t # ts)) db)"
    if "db_inv db'" "ranges_Get t db' = Range_Invalid"
      "\<forall>t'. t' \<noteq> t \<longrightarrow> ranges_Get t' db' = ranges_Get t' db \<and> GetArrayView t' db' = GetArrayView t' db" for db'
    by (rule succeeds_mono [OF Cons.IH [OF that(1)]]) (simp add: deselected_db_def, metis that(2,3))
  then show ?case
    using Deselect_ok [OF Cons.prems, of t] by (auto elim!: succeedsE)
qed (simp add: deselected_db_def)

lemma DatabaseBuffers_Unselect_ok:
  assumes "db_inv db"
  shows "succeeds (DatabaseBuffers_Unselect db) (deselected_db (- {ST_OctetString}) db)"
proof -
  have "set deselected_types = - {ST_OctetString}"
    by (auto simp: deselected_types_def, (metis StaticType.exhaust)+)
  then show ?thesis
    using Deselect_types [OF assms, of deselected_types] by (simp add: DatabaseBuffers_Unselect_def)
qed

lemma AssignClassTo_ok:
  assumes "db_inv db"
  shows "succeeds (AssignClassTo t clazz rng db) (\<lambda>(_, db'). db_inv db')"
proof -
  define arr where "arr = GetArrayView t db"
  define clipped where "clipped = Range_Intersection rng (RangeOf (view_size arr))"
  have ok: "array_ok t arr" "range_ok arr (ranges_Get t db)" "length arr \<le> 65535"
    using assms by (simp_all add: db_inv_def arr_def array_ok_def)
  obtain lo hi where loop: "for_range (update_cell (\<lambda>c. c\<lparr>cell_clazz := clazz\<rparr>)) (range_start clipped) (range_stop clipped) arr =
      Some (update_between (\<lambda>c. c\<lparr>cell_clazz := clazz\<rparr>) lo hi arr)"
  proof (cases "Range_IsValid clipped")
    case True
    then show ?thesis
      using that for_range_update_cell [OF Intersection_RangeOf(1) [OF ok(3)] ok(3)] by (simp add: clipped_def)
  next
    case False
    then show ?thesis
      using that [of 0 0] by (simp add: for_range.simps Range_IsValid_def)
  qed
  define arr' where "arr' = update_between (\<lambda>c. c\<lparr>cell_clazz := clazz\<rparr>) lo hi arr"
  have "array_ok t arr'"
    unfolding arr'_def by (rule array_ok_update [OF ok(1)]) (simp_all add: cell_ok_def)
  moreover have "range_ok arr' (ranges_Get t db)"
    using ok(2) by (auto simp: range_ok_def arr'_def)
  moreover have "db_inv (set_view t arr' db)" if "array_ok t arr'" "range_ok arr' (ranges_Get t db)"
    using assms that by (simp add: db_inv_def)
  ultimately show ?thesis
    using loop by (simp add: AssignClassTo_def flip: arr_def clipped_def arr'_def)
qed


section \<open>The search\<close>

text \<open>A binary point for the examples.\<close>

definition demo_point :: "u16 \<Rightarrow> Cell" where
  "demo_point index =
     \<lparr>cell_value = SM_Meas (Meas 0 0 (VBool False)), cell_vIndex = index, cell_svariation = gv 1 2, cell_clazz = Class1,
      cell_evariation = gv 2 1, cell_deadband = VBool False, cell_lastEvent = Meas 0 0 (VBool False), cell_selected = False,
      cell_selvalue = SM_Meas (Meas 0 0 (VBool False)), cell_selvariation = gv 1 2\<rparr>"

text \<open>C12: The two binary searches find exactly the points of a range: for every range of indices and every array
  that is sorted by its indices, the positions of the points whose indices lie in the range are the ones
  between the ends of the raw range that is returned, and it is invalid when there is none.\<close>

theorem point_search_exact:
  assumes "sorted_wrt (<) (map cell_vIndex arr)" and "length arr \<le> 65535"
  shows "\<exists>r. FindRawRange arr rng = Some r \<and>
    (Range_IsValid r \<longleftrightarrow> (\<exists>k < length arr. range_start rng \<le> cell_vIndex (arr ! k) \<and> cell_vIndex (arr ! k) \<le> range_stop rng)) \<and>
    (Range_IsValid r \<longrightarrow> (\<forall>k. k < length arr \<and> range_start rng \<le> cell_vIndex (arr ! k) \<and> cell_vIndex (arr ! k) \<le> range_stop rng \<longleftrightarrow>
       unat (range_start r) \<le> k \<and> k \<le> unat (range_stop r)))"
proof -
  obtain r where r: "FindRawRange arr rng = Some r" "if Range_IsValid rng \<and> raw_indices arr rng \<noteq> {}
      then Range_IsValid r \<and> raw_indices arr rng = {k. unat (range_start r) \<le> k \<and> k \<le> unat (range_stop r)} else \<not> Range_IsValid r"
    using FindRawRange_spec [OF assms, of rng] by (auto elim!: succeedsE)
  have mem: "k \<in> raw_indices arr rng \<longleftrightarrow> k < length arr \<and> range_start rng \<le> cell_vIndex (arr ! k) \<and> cell_vIndex (arr ! k) \<le> range_stop rng" for k
    by (simp add: raw_indices_def)
  have valid: "Range_IsValid rng" if "k \<in> raw_indices arr rng" for k
    using that by (auto simp: raw_indices_def Range_IsValid_def)
  have "Range_IsValid r \<longleftrightarrow> (\<exists>k. k \<in> raw_indices arr rng)"
    using r(2) valid by (metis all_not_in_conv)
  moreover have "k \<in> raw_indices arr rng \<longleftrightarrow> unat (range_start r) \<le> k \<and> k \<le> unat (range_stop r)" if "Range_IsValid r" for k
  proof -
    have "raw_indices arr rng = {k. unat (range_start r) \<le> k \<and> k \<le> unat (range_stop r)}"
      using r(2) that by presburger
    then show ?thesis
      by simp
  qed
  ultimately show ?thesis
    using r(1) unfolding mem by blast
qed

theorem point_search_exact_witness:
  "\<exists>r. FindRawRange [demo_point 3, demo_point 7] (Range_From 4 9) = Some r \<and> Range_IsValid r"
  using point_search_exact [of "[demo_point 3, demo_point 7]" "Range_From 4 9"]
  by (simp add: Range_From_def demo_point_def All_less_Suc Ex_less_Suc) blast

definition demo_points :: DatabaseBuffers where
  "demo_points = DatabaseBuffers_of (\<lambda>t. if t = ST_Binary then [demo_point 0, demo_point 0] else []) 0 Discontiguous"

lemma demo_points_view: "GetArrayView t demo_points = (if t = ST_Binary then [demo_point 0, demo_point 1] else [])"
  by (simp add: demo_points_def DatabaseBuffers_of_def GetArrayView_def SetDefaultIndices_def demo_point_def)

lemma demo_points_mode: "db_indexMode demo_points = Discontiguous"
  by (simp add: demo_points_def DatabaseBuffers_of_def)

lemma demo_points_inv: "db_inv demo_points"
proof -
  have "ranges_Get t demo_points = Range_Invalid" for t
    by (simp add: demo_points_def DatabaseBuffers_of_def ranges_Get_def)
  then show ?thesis
    by (simp add: db_inv_def demo_points_view array_ok_def range_ok_def cell_ok_def static_ok_def demo_point_def Range_Invalid_def Range_IsValid_def All_less_Suc ex_bool_eq)
qed

end
