(* ===== verification/StaticLoading.thy ===== *)
theory StaticLoading
  imports DatabaseBounds ReadRequests
begin

text \<open>
  Loading the selected points: every write stays in the room of the header writer, points are
  deselected from the front of each range as they are written, and a type that is loaded completely
  has no selection left.
\<close>

section \<open>Ranges that advance\<close>

text \<open>The range whose first point is \<open>p\<close> and whose last point is \<open>e\<close>.\<close>

definition rng_at :: "nat \<Rightarrow> nat \<Rightarrow> Range" where
  "rng_at p e = (if p \<le> e then Range_From (of_nat p) (of_nat e) else Range_Invalid)"

lemma rng_at_simps:
  assumes "e < 65535"
  shows "Range_IsValid (rng_at p e) \<longleftrightarrow> p \<le> e"
    and "p \<le> e \<Longrightarrow> range_start (rng_at p e) = of_nat p" "p \<le> e \<Longrightarrow> range_stop (rng_at p e) = of_nat e"
    and "p \<le> e \<Longrightarrow> snd (Range_Advance (rng_at p e)) = rng_at (Suc p) e"
proof -
  show valid: "Range_IsValid (rng_at p e) \<longleftrightarrow> p \<le> e"
    using assms by (auto simp: rng_at_def Range_IsValid_def Range_From_def Range_Invalid_def word_le_nat_alt unat_of_nat_u16)
  show "p \<le> e \<Longrightarrow> range_start (rng_at p e) = of_nat p" "p \<le> e \<Longrightarrow> range_stop (rng_at p e) = of_nat e"
    by (simp_all add: rng_at_def Range_From_def)
  show "snd (Range_Advance (rng_at p e)) = rng_at (Suc p) e" if "p \<le> e"
    using that valid assms
    by (auto simp: Range_Advance_def rng_at_def Range_From_def Range_Invalid_def word_less_nat_alt unat_of_nat_u16)
qed

lemma rng_at_self:
  assumes "Range_IsValid rng"
  shows "rng = rng_at (unat (range_start rng)) (unat (range_stop rng))"
  using assms by (simp add: rng_at_def Range_IsValid_def Range_From_def word_le_nat_alt)


section \<open>A run\<close>

text \<open>
  What a write function does to the points: it writes and deselects the \<open>n\<close> first points of the
  range, all of them selected with the same variation and with consecutive virtual indices.
\<close>

definition run :: "Cell list \<Rightarrow> nat \<Rightarrow> nat \<Rightarrow> bool" where
  "run arr p n \<longleftrightarrow>
     (\<forall>k < n. cell_selected (arr ! (p + k)) \<and> cell_selvariation (arr ! (p + k)) = cell_selvariation (arr ! p) \<and>
        cell_vIndex (arr ! (p + k)) = cell_vIndex (arr ! p) + of_nat k)"

definition advanced :: "Cell list \<Rightarrow> nat \<Rightarrow> nat \<Rightarrow> nat \<Rightarrow> Cell list \<Rightarrow> Range \<Rightarrow> bool" where
  "advanced arr p e n arr' rng' \<longleftrightarrow>
     p + n \<le> Suc e \<and> run arr p n \<and> arr' = update_between deselect_cell p (p + n) arr \<and> rng' = rng_at (p + n) e"

lemma load_loop_ok:
  assumes "e < length arr" and "length arr \<le> 65535" and "p + n \<le> Suc e" and "W w" and "run arr p n"
    and "\<And>k. k < n \<Longrightarrow> extra (arr ! (p + k))"
    and put: "\<And>k w. p \<le> k \<Longrightarrow> k \<le> e \<Longrightarrow> cell_selected (arr ! k) \<Longrightarrow> extra (arr ! k) \<Longrightarrow> W w \<Longrightarrow>
      succeeds (put (cell_selvalue (arr ! k)) w) (\<lambda>(_, w'). W w')"
  shows "succeeds (load_loop put extra (cell_selvariation (arr ! p)) (cell_vIndex (arr ! p) + of_nat n) (of_nat n)
      (update_between deselect_cell p (p + n) arr) w (rng_at (p + n) e))
    (\<lambda>(ok, num, arr', w', rng'). \<exists>n' \<ge> n. advanced arr p e n' arr' rng' \<and> num = of_nat n' \<and> W w' \<and>
       (ok \<longrightarrow> n = 0 \<longrightarrow> cell_selected (arr ! p) \<longrightarrow> extra (arr ! p) \<longrightarrow> p \<le> e \<longrightarrow> 0 < n'))"
  using assms(3-6)
proof (induction "Suc e - (p + n)" arbitrary: n w rule: less_induct)
  case less
  note e = assms(1,2)
  have e': "e < 65535"
    using e by linarith
  show ?case
  proof (cases "p + n \<le> e")
    case False
    then show ?thesis
      using less.prems e' by (auto simp: load_loop.simps [of put] rng_at_simps(1) advanced_def intro!: exI [of _ n])
  next
    case True
    define k where "k = p + n"
    define arr1 where "arr1 = update_between deselect_cell p k arr"
    define c where "c = arr ! k"
    have c: "cell_at (of_nat k) arr1 = Some c"
      using True e cell_at_nth [of k arr1] by (simp add: arr1_def c_def k_def)
    define cont where "cont = (extra c \<and> continues (cell_selvariation (arr ! p)) (cell_vIndex (arr ! p) + of_nat n) c)"
    have adv: "advanced arr p e n arr1 (rng_at k e)"
      using less.prems by (simp add: advanced_def arr1_def k_def)
    show ?thesis
    proof (cases cont)
      case False
      have "\<not> (n = 0 \<and> cell_selected (arr ! p) \<and> extra (arr ! p))"
        using False by (auto simp: cont_def continues_def c_def k_def)
      then show ?thesis
        using True False c adv e' less.prems(2)
        by (auto simp: load_loop.simps [of put] rng_at_simps cont_def simp flip: k_def arr1_def intro!: exI [of _ n])
    next
      case cont: True
      then have c': "extra c" "cell_selected c" "cell_selvariation c = cell_selvariation (arr ! p)"
          "cell_vIndex c = cell_vIndex (arr ! p) + of_nat n"
        by (simp_all add: cont_def continues_def)
      obtain ok w' where w': "put (cell_selvalue c) w = Some (ok, w')" "W w'"
        using put [of k w] True c' less.prems(2) by (auto simp: c_def k_def elim!: succeedsE)
      have set_cell: "set_cell (of_nat k) (deselect_cell c) arr1 = update_between deselect_cell p (p + Suc n) arr"
        using True e update_between_Suc [of p k arr deselect_cell] set_cell_nth [of k arr1] by (simp add: arr1_def c_def k_def)
      have unfold: "load_loop put extra (cell_selvariation (arr ! p)) (cell_vIndex (arr ! p) + of_nat n) (of_nat n) arr1 w (rng_at k e) =
          (if ok then load_loop put extra (cell_selvariation (arr ! p)) (cell_vIndex (arr ! p) + of_nat (Suc n)) (of_nat (Suc n))
             (update_between deselect_cell p (p + Suc n) arr) w' (rng_at (p + Suc n) e)
           else Some (False, of_nat n, arr1, w', rng_at k e))"
        using True c cont w'(1) set_cell rng_at_simps(1,2,4) [OF e', of k]
        by (subst load_loop.simps) (simp add: cont_def k_def ac_simps)
      have run: "run arr p (Suc n)" "\<And>j. j < Suc n \<Longrightarrow> extra (arr ! (p + j))"
        using less.prems(3,4) c' by (auto simp: run_def less_Suc_eq c_def k_def)
      show ?thesis
      proof (cases ok)
        case True
        have "succeeds (load_loop put extra (cell_selvariation (arr ! p)) (cell_vIndex (arr ! p) + of_nat (Suc n)) (of_nat (Suc n))
             (update_between deselect_cell p (p + Suc n) arr) w' (rng_at (p + Suc n) e))
          (\<lambda>(ok, num, arr', w', rng'). \<exists>n' \<ge> Suc n. advanced arr p e n' arr' rng' \<and> num = of_nat n' \<and> W w' \<and>
             (ok \<longrightarrow> Suc n = 0 \<longrightarrow> cell_selected (arr ! p) \<longrightarrow> extra (arr ! p) \<longrightarrow> p \<le> e \<longrightarrow> 0 < n'))"
          using \<open>p + n \<le> e\<close> w'(2) run by (intro less.hyps) auto
        then show ?thesis
          unfolding k_def [symmetric] arr1_def [symmetric] unfold using True
          by (auto elim!: succeeds_mono intro: Suc_leD)
      next
        case False
        then show ?thesis
          unfolding k_def [symmetric] arr1_def [symmetric] unfold using adv w'(2) by auto
      qed
    qed
  qed
qed


text \<open>A write function with a first point that is selected: it writes at least that point, or reports that there is no room.\<close>

definition static_write_ok :: "StaticType \<Rightarrow> static_write \<Rightarrow> bool" where
  "static_write_ok t wr \<longleftrightarrow>
     (\<forall>arr hw p e. array_ok t arr \<longrightarrow> p \<le> e \<longrightarrow> e < length arr \<longrightarrow> writer_wf hw \<longrightarrow> cell_selected (arr ! p) \<longrightarrow>
        succeeds (wr arr hw (rng_at p e)) (\<lambda>(ok, arr', hw', rng'). grown hw hw' \<and>
          (\<exists>n. advanced arr p e n arr' rng' \<and> (ok \<longrightarrow> 0 < n))))"

lemma array_ok_nth: "array_ok t arr \<Longrightarrow> k < length arr \<Longrightarrow> cell_ok t (arr ! k)"
  by (simp add: array_ok_def)

lemma array_ok_length: "array_ok t arr \<Longrightarrow> length arr \<le> 65535"
  by (simp add: array_ok_def)

lemma cell_at_rng:
  assumes "array_ok t arr" and "p \<le> e" and "e < length arr"
  shows "cell_at (range_start (rng_at p e)) arr = Some (arr ! p)" and "cell_at (range_stop (rng_at p e)) arr = Some (arr ! e)"
    and "mapped_range arr (rng_at p e) = Some (Range_From (cell_vIndex (arr ! p)) (cell_vIndex (arr ! e)))"
proof -
  note len = array_ok_length [OF assms(1)]
  have "e < 65535"
    using assms(3) len by linarith
  note r = rng_at_simps(2,3) [OF this assms(2)]
  show "cell_at (range_start (rng_at p e)) arr = Some (arr ! p)" "cell_at (range_stop (rng_at p e)) arr = Some (arr ! e)"
    using assms len by (simp_all add: r cell_at_nth)
  then show "mapped_range arr (rng_at p e) = Some (Range_From (cell_vIndex (arr ! p)) (cell_vIndex (arr ! e)))"
    by (simp add: mapped_range_def)
qed

lemma load_loop_start:
  assumes "array_ok t arr" and "p \<le> e" and "e < length arr" and "W w" and "cell_selected (arr ! p)" and "extra (arr ! p)"
    and "\<And>c w. c \<in> set arr \<Longrightarrow> cell_selected c \<Longrightarrow> extra c \<Longrightarrow> W w \<Longrightarrow> succeeds (put (cell_selvalue c) w) (\<lambda>(_, w'). W w')"
  shows "succeeds (load_loop put extra (cell_selvariation (arr ! p)) (cell_vIndex (arr ! p)) 0 arr w (rng_at p e))
    (\<lambda>(ok, num, arr', w', rng'). \<exists>n. advanced arr p e n arr' rng' \<and> num = of_nat n \<and> W w' \<and> (ok \<longrightarrow> 0 < n))"
  using load_loop_ok [of e arr p 0 W w extra put] assms array_ok_length [OF assms(1)]
  by (fastforce simp: run_def elim!: succeeds_mono)

lemma LoadWithRangeIterator_ok:
  assumes "array_ok t arr" and "p \<le> e" and "e < length arr" and "Range_ok base iter hw" and "cell_selected (arr ! p)"
  shows "succeeds (LoadWithRangeIterator arr iter hw (rng_at p e)) (\<lambda>(ok, arr', (iter', hw'), rng'). Range_ok base iter' hw' \<and>
    (\<exists>n. advanced arr p e n arr' rng' \<and> (ok \<longrightarrow> 0 < n)))"
proof -
  have "succeeds (load_loop (\<lambda>v (iter, hw). Range_Write v iter hw) (\<lambda>_. True) (cell_selvariation (arr ! p)) (cell_vIndex (arr ! p)) 0 arr
      (iter, hw) (rng_at p e))
    (\<lambda>(ok, num, arr', w', rng'). \<exists>n. advanced arr p e n arr' rng' \<and> num = of_nat n \<and> (case w' of (i, h) \<Rightarrow> Range_ok base i h) \<and> (ok \<longrightarrow> 0 < n))"
    by (rule load_loop_start [OF assms(1-3)]) (use assms(4,5) Range_Write_ok in auto)
  then show ?thesis
    by (auto simp: LoadWithRangeIterator_def cell_at_rng [OF assms(1-3)] elim!: succeeds_bind)
qed

lemma LoadWithBitfieldIterator_ok:
  assumes "array_ok ST_Binary arr" and "p \<le> e" and "e < length arr" and "Bitfield_ok base iter hw" and "cell_selected (arr ! p)"
  shows "succeeds (LoadWithBitfieldIterator arr iter hw (rng_at p e)) (\<lambda>(ok, arr', (iter', hw'), rng'). Bitfield_ok base iter' hw' \<and>
    (\<exists>n. advanced arr p e n arr' rng' \<and> (ok \<longrightarrow> 0 < n)))"
proof -
  have "binary_value (cell_selvalue c) \<noteq> None" if "c \<in> set arr" "cell_selected c" for c
    using assms(1) that static_okD(1) by (simp add: array_ok_def cell_ok_def)
  then have "succeeds (load_loop (\<lambda>v (iter, hw). do { b \<leftarrow> binary_value v; Bitfield_Write b iter hw }) (\<lambda>_. True)
      (cell_selvariation (arr ! p)) (cell_vIndex (arr ! p)) 0 arr (iter, hw) (rng_at p e))
    (\<lambda>(ok, num, arr', w', rng'). \<exists>n. advanced arr p e n arr' rng' \<and> num = of_nat n \<and> (case w' of (i, h) \<Rightarrow> Bitfield_ok base i h) \<and> (ok \<longrightarrow> 0 < n))"
    by (intro load_loop_start [OF assms(1-3)]) (use assms(4,5) Bitfield_Write_ok in fastforce)+
  then show ?thesis
    by (auto simp: LoadWithBitfieldIterator_def cell_at_rng [OF assms(1-3)] elim!: succeeds_bind)
qed

lemma WriteSomeOctetString_ok:
  assumes "array_ok ST_OctetString arr" and "p \<le> e" and "e < length arr" and "Range_ok base iter hw" and "cell_selected (arr ! p)"
    and "map_option OctetData_Size (octets_of (cell_selvalue (arr ! p))) = Some sz"
  shows "succeeds (WriteSomeOctetString arr iter hw (rng_at p e) sz) (\<lambda>(num, arr', (iter', hw'), rng'). Range_ok base iter' hw' \<and>
    (\<exists>n. advanced arr p e n arr' rng' \<and> (num \<noteq> 0 \<longrightarrow> 0 < n)))"
proof -
  have "octets_of (cell_selvalue c) \<noteq> None" if "c \<in> set arr" "cell_selected c" for c
    using assms(1) that static_okD(2) by (simp add: array_ok_def cell_ok_def)
  then have "succeeds (load_loop (\<lambda>v (iter, hw). do { bs \<leftarrow> octets_of v; Range_Write bs iter hw })
      (\<lambda>c. map_option OctetData_Size (octets_of (cell_selvalue c)) = Some sz)
      (cell_selvariation (arr ! p)) (cell_vIndex (arr ! p)) 0 arr (iter, hw) (rng_at p e))
    (\<lambda>(ok, num, arr', w', rng'). \<exists>n. advanced arr p e n arr' rng' \<and> num = of_nat n \<and> (case w' of (i, h) \<Rightarrow> Range_ok base i h) \<and> (ok \<longrightarrow> 0 < n))"
    by (intro load_loop_start [OF assms(1-3)]) (use assms(4-6) Range_Write_ok in fastforce)+
  then show ?thesis
    by (auto simp: WriteSomeOctetString_def cell_at_rng [OF assms(1-3)] elim!: succeeds_bind)
qed


section \<open>Write functions\<close>

lemma WriteWithSerializer_ok:
  assumes "ser_total ser"
  shows "static_write_ok t (WriteWithSerializer ser)"
  unfolding static_write_ok_def
proof (intro allI impI)
  fix arr hw p e
  assume a: "array_ok t arr" "p \<le> e" "e < length arr" "writer_wf hw" "cell_selected (arr ! p)"
  obtain it qc start where header0: "range_header (Range_From (cell_vIndex (arr ! p)) (cell_vIndex (arr ! e))) = (it, qc, start)"
    by (cases "range_header (Range_From (cell_vIndex (arr ! p)) (cell_vIndex (arr ! e)))") auto
  obtain iter h1 where h1: "IterateOverRange it qc ser start hw = Some (iter, h1)" "Range_ok hw iter h1"
    using IterateOverRange_ok [of hw hw ser it qc start] a(4) assms by (auto elim!: succeedsE)
  obtain ok arr' iter' h2 rng' n where h2: "LoadWithRangeIterator arr iter h1 (rng_at p e) = Some (ok, arr', (iter', h2), rng')"
      "Range_ok hw iter' h2" "advanced arr p e n arr' rng'" "ok \<longrightarrow> 0 < n"
    using LoadWithRangeIterator_ok [OF a(1-3) h1(2) a(5)] by (auto elim!: succeedsE)
  obtain h3 where "Range_finish iter' h2 = Some h3" "grown hw h3"
    using Range_finish_ok [OF h2(2)] by (auto elim!: succeedsE)
  then show "succeeds (WriteWithSerializer ser arr hw (rng_at p e)) (\<lambda>(ok, arr', hw', rng'). grown hw hw' \<and>
          (\<exists>n. advanced arr p e n arr' rng' \<and> (ok \<longrightarrow> 0 < n)))"
    using h2(3,4) by (auto simp: WriteWithSerializer_def cell_at_rng(3) [OF a(1-3)] header0 h1(1) h2(1))
qed

lemma WriteSingleBitfield_ok: "static_write_ok ST_Binary (WriteSingleBitfield gk)"
  unfolding static_write_ok_def
proof (intro allI impI)
  fix arr hw p e
  assume a: "array_ok ST_Binary arr" "p \<le> e" "e < length arr" "writer_wf hw" "cell_selected (arr ! p)"
  obtain it qc start where header0: "range_header (Range_From (cell_vIndex (arr ! p)) (cell_vIndex (arr ! e))) = (it, qc, start)"
    by (cases "range_header (Range_From (cell_vIndex (arr ! p)) (cell_vIndex (arr ! e)))") auto
  obtain iter h1 where h1: "IterateOverSingleBitfield it (of_nat (fst gk)) (of_nat (snd gk)) qc start hw = Some (iter, h1)" "Bitfield_ok hw iter h1"
    using IterateOverSingleBitfield_ok [of hw hw it "of_nat (fst gk)" "of_nat (snd gk)" qc start] a(4) by (auto elim!: succeedsE)
  obtain ok arr' iter' h2 rng' n where h2: "LoadWithBitfieldIterator arr iter h1 (rng_at p e) = Some (ok, arr', (iter', h2), rng')"
      "Bitfield_ok hw iter' h2" "advanced arr p e n arr' rng'" "ok \<longrightarrow> 0 < n"
    using LoadWithBitfieldIterator_ok [OF a(1-3) h1(2) a(5)] by (auto elim!: succeedsE)
  obtain h3 where "Bitfield_finish iter' h2 = Some h3" "grown hw h3"
    using Bitfield_finish_ok [OF h2(2)] by (auto elim!: succeedsE)
  then show "succeeds (WriteSingleBitfield gk arr hw (rng_at p e)) (\<lambda>(ok, arr', hw', rng'). grown hw hw' \<and>
          (\<exists>n. advanced arr p e n arr' rng' \<and> (ok \<longrightarrow> 0 < n)))"
    using h2(3,4) by (auto simp: WriteSingleBitfield_def cell_at_rng(3) [OF a(1-3)] header0 h1(1) h2(1))
qed

lemma StaticWriters_Write_ok: "static_write_ok ST_OctetString StaticWriters_Write"
  unfolding static_write_ok_def
proof (intro allI impI)
  fix arr hw p e
  assume a: "array_ok ST_OctetString arr" "p \<le> e" "e < length arr" "writer_wf hw" "cell_selected (arr ! p)"
  have "cell_vIndex (arr ! p) \<le> cell_vIndex (arr ! e)"
    using a(1-3) sorted_vIndex [of arr p e] by (cases "p = e") (auto simp: array_ok_def)
  then have valid: "Range_IsValid (Range_From (cell_vIndex (arr ! p)) (cell_vIndex (arr ! e)))"
    by (simp add: Range_IsValid_def Range_From_def)
  obtain bs where bs: "octets_of (cell_selvalue (arr ! p)) = Some bs"
    using array_ok_nth [OF a(1), of p] a(2,3,5) static_okD(2) [of "cell_selvalue (arr ! p)"] by (auto simp: cell_ok_def)
  obtain it qc start where header0: "range_header (Range_From (cell_vIndex (arr ! p)) (cell_vIndex (arr ! e))) = (it, qc, start)"
    by (cases "range_header (Range_From (cell_vIndex (arr ! p)) (cell_vIndex (arr ! e)))") auto
  obtain iter h1 where h1: "IterateOverRange it qc (OctetStringSerializer False (OctetData_Size bs)) start hw = Some (iter, h1)" "Range_ok hw iter h1"
    using IterateOverRange_ok [OF _ OctetString_total, of hw hw it qc False "OctetData_Size bs" start] a(4) by (auto elim!: succeedsE)
  obtain num arr' iter' h2 rng' n where h2: "WriteSomeOctetString arr iter h1 (rng_at p e) (OctetData_Size bs) = Some (num, arr', (iter', h2), rng')"
      "Range_ok hw iter' h2" "advanced arr p e n arr' rng'" "num \<noteq> 0 \<longrightarrow> 0 < n"
    using WriteSomeOctetString_ok [OF a(1-3) h1(2) a(5), of "OctetData_Size bs"] bs by (auto elim!: succeedsE) blast
  obtain h3 where "Range_finish iter' h2 = Some h3" "grown hw h3"
    using Range_finish_ok [OF h2(2)] by (auto elim!: succeedsE)
  then show "succeeds (StaticWriters_Write arr hw (rng_at p e)) (\<lambda>(ok, arr', hw', rng'). grown hw hw' \<and>
          (\<exists>n. advanced arr p e n arr' rng' \<and> (ok \<longrightarrow> 0 < n)))"
    using h2(3,4) valid by (auto simp: StaticWriters_Write_def cell_at_rng [OF a(1-3)] header0 h1(1) h2(1) bs)
qed

lemma fst_object_case: "fst (the (object_case g vs (Some (g, k)) v)) = g"
  by (simp add: object_case_def split: option.split)

lemma fst_static_object: "fst (static_object t v) =
    (case t of ST_Binary \<Rightarrow> 1 | ST_DoubleBitBinary \<Rightarrow> 3 | ST_Counter \<Rightarrow> 20 | ST_FrozenCounter \<Rightarrow> 21 | ST_Analog \<Rightarrow> 30
     | ST_BinaryOutputStatus \<Rightarrow> 10 | ST_AnalogOutputStatus \<Rightarrow> 40 | ST_TimeAndInterval \<Rightarrow> 50 | ST_OctetString \<Rightarrow> 110)"
  by (cases t) (simp_all add: static_object_def fst_object_case)

lemma StaticWriters_Get_ok: "static_write_ok t (StaticWriters_Get conv t v)"
proof -
  have "t = ST_Binary" if "static_object t v = (1, 1)"
    using fst_static_object [of t v] that by (cases t) simp_all
  moreover have "ser_total (static_serializer conv gk)" for gk
    by (simp add: static_serializer_def Descriptor_total)
  ultimately show ?thesis
    using WriteSingleBitfield_ok StaticWriters_Write_ok WriteWithSerializer_ok by (auto simp: StaticWriters_Get_def)
qed



section \<open>Loading a type\<close>

text \<open>The points in front of \<open>q\<close> have been deselected.\<close>

definition loaded_to :: "Cell list \<Rightarrow> nat \<Rightarrow> nat \<Rightarrow> nat \<Rightarrow> bool \<Rightarrow> Cell list \<Rightarrow> Range \<Rightarrow> bool" where
  "loaded_to arr p e q space' arr' rng' \<longleftrightarrow>
     (\<exists>q' \<ge> q. q' \<le> Suc e \<and> arr' = update_between deselect_cell p q' arr \<and> rng' = rng_at q' e \<and> (space' \<longrightarrow> q' = Suc e))"

lemma loaded_to_mono:
  assumes "loaded_to arr p e q2 space' arr' rng'" and "q \<le> q2"
  shows "loaded_to arr p e q space' arr' rng'"
proof -
  obtain q' where "q2 \<le> q'" "q' \<le> Suc e" "arr' = update_between deselect_cell p q' arr" "rng' = rng_at q' e" "space' \<longrightarrow> q' = Suc e"
    using assms(1) unfolding loaded_to_def by blast
  then show ?thesis
    unfolding loaded_to_def using assms(2) by (intro exI [of _ q']) simp
qed

lemma LoadType_loop_ok:
  assumes "array_ok t arr" and "e < length arr" and "p \<le> q" and "q \<le> Suc e" and "writer_wf hw"
  shows "succeeds (LoadType_loop conv t space (update_between deselect_cell p q arr) hw (rng_at q e)) (\<lambda>(space', arr', hw', rng').
    grown hw hw' \<and> loaded_to arr p e q space' arr' rng' \<and> (\<not> space \<longrightarrow> \<not> space'))"
  using assms(3-5)
proof (induction "Suc e - q" arbitrary: q hw space rule: less_induct)
  case less
  have len: "length arr \<le> 65535" "e < 65535"
    using array_ok_length [OF assms(1)] assms(2) by linarith+
  define arr1 where "arr1 = update_between deselect_cell p q arr"
  have arr1: "array_ok t arr1" "length arr1 = length arr"
    unfolding arr1_def by (intro array_ok_update [OF assms(1)]) (simp_all add: deselect_cell_def cell_ok_def)
  show ?case
  proof (cases "space \<and> q \<le> e")
    case False
    then show ?thesis
      using less.prems len rng_at_simps(1) by (auto simp: LoadType_loop.simps loaded_to_def simp flip: arr1_def intro!: exI [of _ q])
  next
    case True
    have q: "q < length arr"
      using True assms(2) by simp
    have c: "cell_at (range_start (rng_at q e)) arr1 = Some (arr1 ! q)"
      using cell_at_rng(1) [OF arr1(1), of q e] True assms(2) arr1(2) by simp
    have valid: "Range_IsValid (rng_at q e)" "snd (Range_Advance (rng_at q e)) = rng_at (Suc q) e"
      using rng_at_simps(1,4) [OF len(2)] True by simp_all
    show ?thesis
    proof (cases "cell_selected (arr1 ! q)")
      case selected: True
      obtain ok arr2 hw2 rng2 n where step: "StaticWriters_Get conv t (cell_selvariation (arr1 ! q)) arr1 hw (rng_at q e) = Some (ok, arr2, hw2, rng2)"
          "grown hw hw2" "advanced arr1 q e n arr2 rng2" "ok \<longrightarrow> 0 < n"
      proof -
        have "succeeds (StaticWriters_Get conv t (cell_selvariation (arr1 ! q)) arr1 hw (rng_at q e)) (\<lambda>(ok, arr2, hw2, rng2). grown hw hw2 \<and>
            (\<exists>n. advanced arr1 q e n arr2 rng2 \<and> (ok \<longrightarrow> 0 < n)))"
          using StaticWriters_Get_ok [of t conv "cell_selvariation (arr1 ! q)"] arr1 True assms(2) less.prems(3) selected
          unfolding static_write_ok_def by simp
        then show ?thesis
          using that by (elim succeedsE) (auto simp del: not_gr_zero split: prod.splits)
      qed
      have next0: "arr2 = update_between deselect_cell p (q + n) arr" "rng2 = rng_at (q + n) e" "q + n \<le> Suc e"
        using step(3) less.prems(1) update_between_trans [of p q "q + n" deselect_cell arr] by (simp_all add: advanced_def arr1_def)
      have "succeeds (LoadType_loop conv t ok arr2 hw2 rng2) (\<lambda>(space', arr', hw', rng').
          grown hw2 hw' \<and> loaded_to arr p e (q + n) space' arr' rng' \<and> (\<not> ok \<longrightarrow> \<not> space'))"
      proof (cases ok)
        case True
        then show ?thesis
          unfolding next0(1,2) using next0(3) less.prems(1) step(2,4) grown_wf(2) [OF step(2)] \<open>space \<and> q \<le> e\<close> by (intro less.hyps) simp_all
      next
        case False
        then show ?thesis
          using next0 grown_wf(2) [OF step(2)] by (auto simp: LoadType_loop.simps loaded_to_def intro!: exI [of _ "q + n"])
      qed
      then show ?thesis
        using True valid c selected step(1,2)
        by (subst LoadType_loop.simps) (auto simp flip: arr1_def elim!: succeeds_mono intro: grown_trans loaded_to_mono)
    next
      case not_selected: False
      have "update_between deselect_cell p (Suc q) arr = arr1[q := deselect_cell (arr ! q)]"
        using update_between_Suc [OF less.prems(1) q, of deselect_cell] by (simp add: arr1_def)
      moreover have "deselect_cell (arr ! q) = arr1 ! q"
        using not_selected q by (simp add: arr1_def deselect_cell_def)
      ultimately have skip: "update_between deselect_cell p (Suc q) arr = arr1"
        by simp
      have "succeeds (LoadType_loop conv t space (update_between deselect_cell p (Suc q) arr) hw (rng_at (Suc q) e)) (\<lambda>(space', arr', hw', rng').
          grown hw hw' \<and> loaded_to arr p e (Suc q) space' arr' rng' \<and> (\<not> space \<longrightarrow> \<not> space'))"
        using True less.prems by (intro less.hyps) auto
      then show ?thesis
        using True valid c not_selected unfolding skip
        by (subst LoadType_loop.simps) (auto simp flip: arr1_def elim!: succeeds_mono intro: loaded_to_mono)
    qed
  qed
qed


lemma LoadType_ok:
  assumes "db_inv db" and "writer_wf hw"
  shows "succeeds (LoadType conv t hw db) (\<lambda>(ok, hw', db'). grown hw hw' \<and> db_inv db' \<and>
    (ok \<longrightarrow> \<not> Range_IsValid (ranges_Get t db')) \<and> (\<forall>t'. t' \<noteq> t \<longrightarrow> ranges_Get t' db' = ranges_Get t' db))"
proof -
  define arr where "arr = GetArrayView t db"
  define rng where "rng = ranges_Get t db"
  have ok: "array_ok t arr" "range_ok arr rng"
    using assms(1) by (simp_all add: db_inv_def arr_def rng_def)
  show ?thesis
  proof (cases "Range_IsValid rng")
    case True
    define p where "p = unat (range_start rng)"
    define e where "e = unat (range_stop rng)"
    have e: "e < length arr" "p \<le> e" "rng = rng_at p e"
      using ok(2) True rng_at_self [OF True] by (simp_all add: range_ok_def e_def p_def Range_IsValid_def word_le_nat_alt)
    have e': "e < 65535"
      using e(1) array_ok_length [OF ok(1)] by linarith
    obtain space' arr' hw' rng' where load: "LoadType_loop conv t True arr hw rng = Some (space', arr', hw', rng')"
        "grown hw hw'" "loaded_to arr p e p space' arr' rng'"
      using LoadType_loop_ok [OF ok(1) e(1) order_refl [of p], where hw = hw and conv = conv and space = True] e(2,3) assms(2) by (auto elim!: succeedsE)
    then obtain q where q: "q \<le> Suc e" "arr' = update_between deselect_cell p q arr" "rng' = rng_at q e" "space' \<longrightarrow> q = Suc e"
      by (auto simp: loaded_to_def)
    have "array_ok t arr'"
      unfolding q(2) by (rule array_ok_update [OF ok(1)]) (simp_all add: deselect_cell_def cell_ok_def)
    moreover have "range_ok arr' rng'"
    proof -
      have sel: "q \<le> k \<and> k \<le> e" if "k < length arr" "cell_selected (arr' ! k)" for k
        using that ok(2) by (auto simp: q(2) deselect_cell_def range_ok_def p_def e_def not_less split: if_splits)
      show ?thesis
      proof (cases "q \<le> e")
        case True
        then show ?thesis
          using sel e(1) e' rng_at_simps [OF e', of q] by (auto simp: range_ok_def q(3) q(2) unat_of_nat_u16)
      next
        case False
        then have "rng' = Range_Invalid"
          by (simp add: q(3) rng_at_def)
        then show ?thesis
          using sel False by (fastforce simp: range_ok_none q(2))
      qed
    qed
    ultimately have "db_inv (ranges_Set t rng' (set_view t arr' db))"
      by (rule db_inv_update [OF assms(1)])
    moreover have "space' \<longrightarrow> \<not> Range_IsValid rng'"
      using q(3,4) rng_at_simps(1) [OF e'] by auto
    ultimately show ?thesis
      using True load(1,2) by (simp add: LoadType_def flip: arr_def rng_def)
  qed (use assms in \<open>simp add: LoadType_def flip: rng_def\<close>)
qed

lemma Load_types_ok:
  assumes "db_inv db" and "writer_wf hw"
  shows "succeeds (Load_types conv ts hw db) (\<lambda>(ok, hw', db'). grown hw hw' \<and> db_inv db' \<and>
    (ok \<longrightarrow> (\<forall>t. t \<in> set ts \<or> \<not> Range_IsValid (ranges_Get t db) \<longrightarrow> \<not> Range_IsValid (ranges_Get t db'))))"
  using assms
proof (induction ts arbitrary: hw db)
  case (Cons t ts)
  obtain ok hw1 db1 where 1: "LoadType conv t hw db = Some (ok, hw1, db1)" "grown hw hw1" "db_inv db1"
      "ok \<longrightarrow> \<not> Range_IsValid (ranges_Get t db1)" "\<forall>t'. t' \<noteq> t \<longrightarrow> ranges_Get t' db1 = ranges_Get t' db"
    using LoadType_ok [OF Cons.prems, of conv t] by (auto elim!: succeedsE)
  show ?case
  proof (cases ok)
    case True
    have "t' \<in> set ts \<or> \<not> Range_IsValid (ranges_Get t' db1)" if "t' \<in> set (t # ts) \<or> \<not> Range_IsValid (ranges_Get t' db)" for t'
      using that True 1(4,5) by (cases "t' = t") auto
    then show ?thesis
      using True 1(1,2) Cons.IH [OF 1(3) grown_wf(2) [OF 1(2)]] by (auto elim!: succeeds_mono intro: grown_trans)
  qed (use 1 in simp)
qed simp

lemma DatabaseBuffers_Load_ok:
  assumes "db_inv db" and "writer_wf hw"
  shows "succeeds (DatabaseBuffers_Load conv hw db) (\<lambda>(ok, hw', db'). grown hw hw' \<and> db_inv db' \<and>
    (ok \<longrightarrow> \<not> DatabaseBuffers_HasAnySelection db'))"
proof -
  have "t \<in> set loaded_types" for t
    by (cases t) (simp_all add: loaded_types_def)
  then show ?thesis
    using Load_types_ok [OF assms, of conv loaded_types]
    by (auto simp: DatabaseBuffers_Load_def DatabaseBuffers_HasAnySelection_def elim!: succeeds_mono)
qed


section \<open>The database of the outstation\<close>

interpretation points: static_database "static_database_of conv" db_inv for conv
proof
  fix db hw g rng type clazz
  assume db: "db_inv db"
  show "succeeds (sd_SelectAll (static_database_of conv) g db) (\<lambda>(_, db'). db_inv db')"
    by (simp add: static_database_of_def DatabaseBuffers_SelectAll_ok db)
  show "succeeds (sd_SelectRange (static_database_of conv) g rng db) (\<lambda>(_, db'). db_inv db')"
    by (simp add: static_database_of_def DatabaseBuffers_SelectRange_ok db)
  show "succeeds (sd_Unselect (static_database_of conv) db) db_inv"
    using DatabaseBuffers_Unselect_ok [OF db] by (auto simp: static_database_of_def deselected_db_def elim!: succeeds_mono)
  show "succeeds (sd_AssignClassToAll (static_database_of conv) type clazz db) (\<lambda>(_, db'). db_inv db')"
    "succeeds (sd_AssignClassToRange (static_database_of conv) type clazz rng db) (\<lambda>(_, db'). db_inv db')"
    by (simp_all add: static_database_of_def DatabaseBuffers_AssignClassToAll_def DatabaseBuffers_AssignClassToRange_def AssignClassTo_ok db)
  assume "writer_wf hw"
  then show "succeeds (sd_Load (static_database_of conv) hw db) (\<lambda>(fin, hw', db'). grown hw hw' \<and> db_inv db' \<and>
      (fin \<longrightarrow> \<not> sd_HasAnySelection (static_database_of conv) db'))"
    using DatabaseBuffers_Load_ok [OF db] by (simp add: static_database_of_def)
qed


section \<open>Loading ends\<close>

text \<open>C19: Loading the selected points into a response ends, whatever is selected and however much room is left: it
  writes inside the fragment and keeps the invariant of the database, and when it reports that
  everything has been written no point is selected any more.\<close>

theorem static_load_terminates:
  assumes "db_inv db" and "writer_wf hw"
  shows "\<exists>complete hw' db'. DatabaseBuffers_Load conv hw db = Some (complete, hw', db') \<and> grown hw hw' \<and> db_inv db' \<and>
    (complete \<longrightarrow> \<not> DatabaseBuffers_HasAnySelection db')"
  using DatabaseBuffers_Load_ok [OF assms, of conv] by (auto elim!: succeedsE)

theorem static_load_terminates_witness:
  "\<exists>complete hw' db'. DatabaseBuffers_Load (\<lambda>_ _. []) (HeaderWriter_of \<lparr>wbuf = replicate 20 0, wpos = 0, wsize = 20\<rparr>) demo_points = Some (complete, hw', db') \<and> db_inv db'"
  using static_load_terminates [OF demo_points_inv, of "HeaderWriter_of \<lparr>wbuf = replicate 20 0, wpos = 0, wsize = 20\<rparr>" "\<lambda>_ _. []"]
  by (auto simp: writer_wf_def wslice_wf_def HeaderWriter_of_def)

end
