(* ===== verification/DatabaseUpdates.thy ===== *)
theory DatabaseUpdates
  imports StaticLoading
begin

text \<open>
  Updates of the database by the application: they return, keep the invariants of the database and of
  the event buffer, and change nothing that has been selected for a response.
\<close>

section \<open>One point\<close>

text \<open>The measurement that each overload of \<open>Update\<close> takes.\<close>

fun event_kind :: "EventType \<Rightarrow> MeasValue \<Rightarrow> bool" where
  "event_kind ET_Binary (VBool _) = True"
| "event_kind ET_DoubleBitBinary (VDoubleBit _) = True"
| "event_kind ET_Analog (VAnalog _) = True"
| "event_kind ET_Counter (VCounter _) = True"
| "event_kind ET_FrozenCounter (VCounter _) = True"
| "event_kind ET_BinaryOutputStatus (VBool _) = True"
| "event_kind ET_AnalogOutputStatus (VAnalog _) = True"
| "event_kind _ _ = False"

definition update_ok :: "EventType \<Rightarrow> MeasValue Measurement \<Rightarrow> bool" where
  "update_ok t v \<longleftrightarrow>
     (case v of
        OctetString _ \<Rightarrow> t = ET_OctetString
      | Meas _ time x \<Rightarrow> event_kind t x \<and> 0 \<le> sint time)"

text \<open>It is the measurement of the array that the update goes to, and the one of the events it creates.\<close>

lemma update_ok_static: "update_ok t v \<longleftrightarrow> static_ok (static_type t) (SM_Meas v)"
  by (cases t) (auto simp: update_ok_def static_ok_def split: Measurement.splits elim: event_kind.elims value_kind.elims)

lemma update_ok_measurement: "update_ok t v \<Longrightarrow> measurement_ok t v"
  by (cases t) (auto simp: update_ok_def measurement_ok_def split: Measurement.splits)

text \<open>What an update changes of a point: the current value and the last event.\<close>

definition updated_cell :: "Cell \<Rightarrow> Cell \<Rightarrow> bool" where
  "updated_cell c c' \<longleftrightarrow> c' = c\<lparr>cell_value := cell_value c', cell_lastEvent := cell_lastEvent c'\<rparr>"

lemma updated_cellD:
  "updated_cell c c' \<Longrightarrow> cell_vIndex c' = cell_vIndex c \<and> cell_selected c' = cell_selected c \<and>
     cell_selvalue c' = cell_selvalue c \<and> cell_selvariation c' = cell_selvariation c"
  by (cases c; cases c') (simp add: updated_cell_def)

lemma TryCreateEvent_ok:
  assumes "update_ok t v" and "buffer_inv cap eb"
  shows "succeeds (TryCreateEvent t v c eb) (\<lambda>(c', eb'). (c' = c \<or> c' = c\<lparr>cell_lastEvent := v\<rparr>) \<and> buffer_inv cap eb')"
proof (cases "ConvertToEventClass (cell_clazz c)")
  case (Some ec)
  have "measurement_ok t (ev_value \<lparr>ev_index = cell_vIndex c, ev_clazz = ec, ev_value = v, ev_variation = cell_evariation c\<rparr>)"
    using update_ok_measurement [OF assms(1)] by simp
  from EventBuffer_Update_ok [OF assms(2) this] show ?thesis
    by (auto simp: TryCreateEvent_def Some elim!: succeeds_bind)
qed (use assms in \<open>simp add: TryCreateEvent_def\<close>)

lemma UpdateAny_ok:
  assumes "update_ok t v" and "buffer_inv cap eb" and "cell_ok (static_type t) c"
  shows "succeeds (UpdateAny exceeds t v mode c eb) (\<lambda>(c', eb'). cell_ok (static_type t) c' \<and> updated_cell c c' \<and> buffer_inv cap eb')"
proof -
  have "succeeds (if mode = EM_Force \<or> mode = EM_EventOnly then TryCreateEvent t v c eb
        else if mode = EM_Detect \<and> IsEvent exceeds (cell_lastEvent c) v (cell_deadband c) then TryCreateEvent t v c eb
        else Some (c, eb)) (\<lambda>(c', eb'). (c' = c \<or> c' = c\<lparr>cell_lastEvent := v\<rparr>) \<and> buffer_inv cap eb')"
    using TryCreateEvent_ok [OF assms(1,2), of c] assms(2) by simp
  then show ?thesis
    unfolding UpdateAny_def
    by (rule succeeds_bind) (use assms(1,3) in \<open>auto simp: cell_ok_def updated_cell_def update_ok_static\<close>)
qed

lemma GetRawIndex_ok:
  assumes "db_inv db"
  shows "GetRawIndex t index db \<noteq> None"
proof (cases "db_indexMode db = Contiguous \<or> GetArrayView t db = []")
  case False
  then show ?thesis
    using FindClosestRawIndex_ok [of "GetArrayView t db" index] assms
    by (auto simp: GetRawIndex_def db_inv_def array_ok_def elim!: succeedsE)
qed (auto simp: GetRawIndex_def FindClosestRawIndex_def)

lemma db_inv_set_cell:
  assumes "db_inv db" and "cell_at i (GetArrayView t db) = Some c" and "cell_ok t c'" and "updated_cell c c'"
  shows "db_inv (set_view t (set_cell i c' (GetArrayView t db)) db)"
proof -
  define arr where "arr = GetArrayView t db"
  have i: "unat i < length arr" "arr ! unat i = c"
    using assms(2) by (simp_all add: cell_at_def arr_def split: if_splits)
  have c': "cell_vIndex c' = cell_vIndex c" "cell_selected c' = cell_selected c"
    using updated_cellD [OF assms(4)] by simp_all
  have "map cell_vIndex (arr[unat i := c']) = map cell_vIndex arr"
    using i c'(1) by (simp add: map_update) (metis length_map list_update_id nth_map)
  moreover have "map cell_selected (arr[unat i := c']) = map cell_selected arr"
    using i c'(2) by (simp add: map_update) (metis length_map list_update_id nth_map)
  then have "cell_selected (arr[unat i := c'] ! k) = cell_selected (arr ! k)" if "k < length arr" for k
    using that by (metis length_list_update nth_map)
  moreover have "\<forall>x \<in> set (arr[unat i := c']). cell_ok t x"
    using assms(1,3) set_update_subset_insert [of arr "unat i" c'] by (auto simp: db_inv_def array_ok_def arr_def)
  ultimately have "array_ok t (arr[unat i := c'])" "range_ok (arr[unat i := c']) (ranges_Get t db)"
    using assms(1) by (simp_all add: db_inv_def array_ok_def range_ok_def arr_def)
  then show ?thesis
    using assms(1) by (simp add: db_inv_def set_cell_def flip: arr_def)
qed


section \<open>The operations\<close>

definition selection_kept :: "DatabaseBuffers \<Rightarrow> DatabaseBuffers \<Rightarrow> bool" where
  "selection_kept db db' \<longleftrightarrow> db_ranges db' = db_ranges db \<and>
     (\<forall>t. map (\<lambda>c. (cell_selected c, cell_selvalue c, cell_selvariation c)) (GetArrayView t db') =
          map (\<lambda>c. (cell_selected c, cell_selvalue c, cell_selvariation c)) (GetArrayView t db))"

lemma selection_kept_set_cell:
  assumes "cell_at i (GetArrayView t db) = Some c" and "updated_cell c c'"
  shows "selection_kept db (set_view t (set_cell i c' (GetArrayView t db)) db)"
proof -
  define arr where "arr = GetArrayView t db"
  define sel where "sel c = (cell_selected c, cell_selvalue c, cell_selvariation c)" for c :: Cell
  have i: "unat i < length arr" "arr ! unat i = c"
    using assms(1) by (simp_all add: cell_at_def arr_def split: if_splits)
  have "sel c' = sel c"
    using updated_cellD [OF assms(2)] by (simp add: sel_def)
  then have "map sel (arr[unat i := c']) = map sel arr"
    using i by (simp add: map_update) (metis length_map list_update_id nth_map)
  then show ?thesis
    by (simp add: selection_kept_def set_cell_def sel_def [abs_def] flip: arr_def) (simp add: set_view_def arr_def)
qed

lemma UpdateEvent_ok:
  assumes "db_inv db" and "buffer_inv cap eb" and "update_ok t v"
  shows "succeeds (UpdateEvent exceeds t v index mode (db, eb)) (\<lambda>(_, db', eb'). db_inv db' \<and> buffer_inv cap eb' \<and> selection_kept db db')"
proof -
  obtain i where i: "GetRawIndex (static_type t) index db = Some i"
    using GetRawIndex_ok [OF assms(1)] by blast
  show ?thesis
  proof (cases "cell_at i (GetArrayView (static_type t) db)")
    case (Some c)
    then have "c \<in> set (GetArrayView (static_type t) db)"
      by (auto simp: cell_at_def split: if_splits)
    then have "cell_ok (static_type t) c"
      using assms(1) by (simp add: db_inv_def array_ok_def)
    from UpdateAny_ok [OF assms(3,2) this, of exceeds mode] show ?thesis
      using db_inv_set_cell [OF assms(1) Some] selection_kept_set_cell [OF Some] i Some
      by (auto simp: UpdateEvent_def Let_def elim!: succeeds_bind)
  qed (use assms i in \<open>simp add: UpdateEvent_def Let_def selection_kept_def\<close>)
qed

lemma Update_TimeAndInterval_ok:
  assumes "db_inv db"
  shows "succeeds (Update_TimeAndInterval v index db) (\<lambda>(_, db'). db_inv db' \<and> selection_kept db db')"
proof -
  obtain i where i: "GetRawIndex ST_TimeAndInterval index db = Some i"
    using GetRawIndex_ok [OF assms(1)] by blast
  show ?thesis
  proof (cases "cell_at i (GetArrayView ST_TimeAndInterval db)")
    case (Some c)
    then have "c \<in> set (GetArrayView ST_TimeAndInterval db)"
      by (auto simp: cell_at_def split: if_splits)
    then have "cell_ok ST_TimeAndInterval (c\<lparr>cell_value := SM_TimeAndInterval v\<rparr>)"
      using assms(1) by (simp add: db_inv_def array_ok_def cell_ok_def static_ok_def)
    moreover have "updated_cell c (c\<lparr>cell_value := SM_TimeAndInterval v\<rparr>)"
      by (simp add: updated_cell_def)
    ultimately show ?thesis
      using db_inv_set_cell [OF assms(1) Some] selection_kept_set_cell [OF Some] i Some
      by (simp add: Update_TimeAndInterval_def Let_def)
  qed (use assms i in \<open>simp add: Update_TimeAndInterval_def Let_def selection_kept_def\<close>)
qed

text \<open>\<open>Modify\<close> has no overload for octet strings.\<close>

lemma Modify_ok:
  assumes "db_inv db" and "buffer_inv cap eb" and "t \<noteq> ET_OctetString"
  shows "succeeds (Modify exceeds t start stop flags (db, eb)) (\<lambda>(_, db', eb'). db_inv db' \<and> buffer_inv cap eb' \<and> selection_kept db db')"
proof -
  define st where "st = static_type t"
  define arr where "arr = GetArrayView st db"
  obtain i j where ij: "GetRawIndex st start db = Some i" "GetRawIndex st stop db = Some j"
    using GetRawIndex_ok [OF assms(1)] by blast
  define good where "good arr' eb' \<longleftrightarrow> db_inv (set_view st arr' db) \<and> buffer_inv cap eb' \<and> selection_kept db (set_view st arr' db) \<and> length arr' = length arr"
    for arr' and eb' :: "MeasValue Measurement EventBuffer"
  have self: "set_view st arr db = db"
    by (simp add: arr_def set_view_def GetArrayView_def)
  show ?thesis
  proof (cases "i < view_size arr \<and> j < view_size arr \<and> i \<le> j")
    case True
    have len: "length arr \<le> 65535"
      using db_inv_length [OF assms(1)] by (simp add: arr_def)
    then have j: "unat j < length arr"
      using True by (simp add: view_size_def word_less_nat_alt unat_of_nat_u16)
    have body: "succeeds (Modify_body exceeds t flags (of_nat k) (arr', eb')) (\<lambda>(arr2, eb2). good arr2 eb2)"
      if "k \<le> unat j" "good arr' eb'" for k arr' eb'
    proof -
      define db' where "db' = set_view st arr' db"
      have db': "db_inv db'" "buffer_inv cap eb'" "selection_kept db db'" "GetArrayView st db' = arr'" "length arr' = length arr"
        using that(2) by (simp_all add: good_def db'_def)
      have c: "cell_at (of_nat k) (GetArrayView st db') = Some (arr' ! k)"
        using cell_at_nth [of k arr'] that(1) j len db'(4,5) by simp
      have c_ok: "cell_ok st (arr' ! k)"
        using db'(1,4,5) that(1) j array_ok_nth [of st arr' k] by (auto simp: db_inv_def)
      then obtain copy where copy: "with_flags flags (cell_value (arr' ! k)) = Some copy" "update_ok t copy"
        using assms(3) unfolding st_def
        by (cases t) (auto simp: cell_ok_def update_ok_static static_ok_def with_flags_def split: StaticMeas.splits Measurement.splits)
      obtain c' eb2 where c': "UpdateAny exceeds t copy EM_Detect (arr' ! k) eb' = Some (c', eb2)" "cell_ok st c'"
          "updated_cell (arr' ! k) c'" "buffer_inv cap eb2"
        using UpdateAny_ok [OF copy(2) db'(2) c_ok [unfolded st_def], of exceeds EM_Detect] by (auto simp: st_def elim!: succeedsE)
      have "set_view st (set_cell (of_nat k) c' arr') db' = set_view st (set_cell (of_nat k) c' arr') db"
        by (simp add: db'_def set_view_def)
      then have "good (set_cell (of_nat k) c' arr') eb2"
        using db_inv_set_cell [OF db'(1) c c'(2,3)] selection_kept_set_cell [OF c c'(3)] c'(4) db'
        by (auto simp: good_def selection_kept_def set_cell_def)
      then show ?thesis
        using c db'(4) copy(1) c'(1) by (simp add: Modify_body_def)
    qed
    have "succeeds (for_range (Modify_body exceeds t flags) i j (arr, eb)) (\<lambda>(arr2, eb2). good arr2 eb2)"
    proof (rule for_range_ok [where P = "\<lambda>_ (arr2, eb2). good arr2 eb2"])
      show "case (arr, eb) of (arr2, eb2) \<Rightarrow> good arr2 eb2"
        using assms by (simp add: good_def self) (simp add: selection_kept_def)
      show "succeeds (Modify_body exceeds t flags (of_nat k) s) (\<lambda>(arr2, eb2). good arr2 eb2)"
        if "k \<le> unat j" "case s of (arr2, eb2) \<Rightarrow> good arr2 eb2" for k s
        using that body [of k "fst s" "snd s"] by (cases s) simp
    qed (use j len in simp)
    then show ?thesis
      using True ij by (auto simp: Modify_def Let_def good_def simp flip: st_def arr_def elim!: succeeds_bind)
  qed (use assms ij in \<open>auto simp: Modify_def Let_def selection_kept_def simp flip: st_def arr_def\<close>)
qed


section \<open>The effect of an update\<close>

text \<open>
  The point of an array that an index addresses: with contiguous indices the one at this position,
  with discontiguous indices the one that has been given this index.
\<close>

definition addressed :: "DatabaseBuffers \<Rightarrow> StaticType \<Rightarrow> u16 \<Rightarrow> nat \<Rightarrow> bool" where
  "addressed db t index k \<longleftrightarrow>
     (case db_indexMode db of
        Contiguous \<Rightarrow> k = unat index
      | Discontiguous \<Rightarrow> cell_vIndex (GetArrayView t db ! k) = index)"

lemma cell_at_raw:
  assumes "db_inv db" and "GetRawIndex t index db = Some i"
  shows "case cell_at i (GetArrayView t db) of
     None \<Rightarrow> \<forall>k < length (GetArrayView t db). \<not> addressed db t index k
   | Some c \<Rightarrow> unat i < length (GetArrayView t db) \<and> c = GetArrayView t db ! unat i \<and>
       (\<forall>k < length (GetArrayView t db). addressed db t index k \<longleftrightarrow> k = unat i)"
proof (cases "db_indexMode db")
  case Contiguous
  then show ?thesis
    using assms(2) by (auto simp: GetRawIndex_def cell_at_def addressed_def)
next
  case Discontiguous
  define arr where "arr = GetArrayView t db"
  have arr: "sorted_wrt (<) (map cell_vIndex arr)" "length arr \<le> 65535"
    using assms(1) by (simp_all add: db_inv_def array_ok_def arr_def)
  have "case cell_at i arr of None \<Rightarrow> \<forall>k < length arr. cell_vIndex (arr ! k) \<noteq> index
   | Some c \<Rightarrow> unat i < length arr \<and> c = arr ! unat i \<and> (\<forall>k < length arr. cell_vIndex (arr ! k) = index \<longleftrightarrow> k = unat i)"
  proof (cases "arr = []")
    case False
    obtain match j where j: "FindClosestRawIndex arr index = Some (match, j)" "closest arr index (match, j)"
      using FindClosestRawIndex_ok [OF arr False, of index] by (auto elim!: succeedsE)
    then have i: "i = (if match then j else 0xFFFF)"
      using assms(2) Discontiguous by (simp add: GetRawIndex_def flip: arr_def)
    have found: "cell_vIndex (arr ! k) = index \<longleftrightarrow> match \<and> k = unat j" if "k < length arr" for k
    proof -
      have "k < unat j \<longrightarrow> cell_vIndex (arr ! k) < index" "unat j < k \<longrightarrow> index < cell_vIndex (arr ! k)"
          "match \<longleftrightarrow> cell_vIndex (arr ! unat j) = index"
        using j(2) that by (simp_all add: closest_def)
      then show ?thesis
        by (cases k "unat j" rule: linorder_cases) auto
    qed
    have "unat j < length arr"
      using j(2) by (simp add: closest_def)
    then show ?thesis
      using i arr(2) found by (simp add: cell_at_def)
  qed (simp add: cell_at_def)
  then show ?thesis
    using Discontiguous by (auto simp: addressed_def simp flip: arr_def split: option.splits)
qed

text \<open>What an update does to the events: nothing, or one event of the point's class.\<close>

definition event_update :: "(u8 list \<Rightarrow> u8 list \<Rightarrow> u8 list \<Rightarrow> bool) \<Rightarrow> EventType \<Rightarrow> MeasValue Measurement \<Rightarrow> EventMode \<Rightarrow> Cell \<Rightarrow>
    MeasValue Measurement EventBuffer \<Rightarrow> MeasValue Measurement EventBuffer option" where
  "event_update exceeds t v mode c eb =
     (case ConvertToEventClass (cell_clazz c) of
        Some ec \<Rightarrow>
          if mode = EM_Force \<or> mode = EM_EventOnly \<or> mode = EM_Detect \<and> IsEvent exceeds (cell_lastEvent c) v (cell_deadband c)
          then EventBuffer_Update t \<lparr>ev_index = cell_vIndex c, ev_clazz = ec, ev_value = v, ev_variation = cell_evariation c\<rparr> eb
          else Some eb
      | None \<Rightarrow> Some eb)"

lemma UpdateAny_effect:
  "UpdateAny exceeds t v mode c eb = Some (c', eb') \<Longrightarrow>
     event_update exceeds t v mode c eb = Some eb' \<and> cell_value c' = (if mode = EM_EventOnly then cell_value c else SM_Meas v)"
  by (cases c) (auto simp: UpdateAny_def event_update_def TryCreateEvent_def bind_eq_Some_conv split: if_splits option.splits)

text \<open>C18: An update changes the point that the index addresses, in either index mode, and no other: its value is
  the new one unless only an event was asked for. One event is given to the event buffer, with the
  index, the class and the variation of the point, if the mode forces it or the point detects a
  change, and the point is assigned to an event class. If the index addresses no point, nothing
  changes and the caller is told so.\<close>

theorem point_update:
  assumes "db_inv db"
    and "UpdateEvent exceeds t v index mode (db, eb) = Some (found, db', eb')"
  shows "(found \<longleftrightarrow> (\<exists>k < length (GetArrayView (static_type t) db). addressed db (static_type t) index k)) \<and>
    (\<forall>st k. k < length (GetArrayView st db) \<longrightarrow> cell_value (GetArrayView st db' ! k) =
       (if st = static_type t \<and> addressed db st index k \<and> mode \<noteq> EM_EventOnly then SM_Meas v
        else cell_value (GetArrayView st db ! k))) \<and>
    (\<forall>k < length (GetArrayView (static_type t) db). addressed db (static_type t) index k \<longrightarrow>
       event_update exceeds t v mode (GetArrayView (static_type t) db ! k) eb = Some eb') \<and>
    (\<not> found \<longrightarrow> db' = db \<and> eb' = eb)"
proof -
  define arr where "arr = GetArrayView (static_type t) db"
  obtain i where i: "GetRawIndex (static_type t) index db = Some i"
    using assms(2) by (auto simp: UpdateEvent_def bind_eq_Some_conv)
  show ?thesis
  proof (cases "cell_at i arr")
    case None
    then have "\<forall>k < length arr. \<not> addressed db (static_type t) index k" "\<not> found" "db' = db" "eb' = eb"
      using cell_at_raw [OF assms(1) i] assms(2) i by (simp_all add: UpdateEvent_def Let_def flip: arr_def)
    then show ?thesis
      unfolding arr_def by auto
  next
    case (Some c)
    then have c: "unat i < length arr" "c = arr ! unat i" "\<forall>k < length arr. addressed db (static_type t) index k \<longleftrightarrow> k = unat i"
      using cell_at_raw [OF assms(1) i] by (simp_all flip: arr_def)
    obtain c' where c': "UpdateAny exceeds t v mode c eb = Some (c', eb')" "found" "db' = set_view (static_type t) (set_cell i c' arr) db"
      using assms(2) i Some by (auto simp: UpdateEvent_def Let_def bind_eq_Some_conv simp flip: arr_def)
    have "cell_value (GetArrayView st db' ! k) = (if st = static_type t \<and> k = unat i \<and> mode \<noteq> EM_EventOnly then SM_Meas v
        else cell_value (GetArrayView st db ! k))" for st k
      using UpdateAny_effect [OF c'(1)] c(1,2) by (auto simp: c'(3) set_cell_def nth_list_update arr_def)
    then show ?thesis
      using UpdateAny_effect [OF c'(1)] c c'(2) by (auto simp flip: arr_def)
  qed
qed

text \<open>A database with contiguous indices, the default of an outstation.\<close>

definition demo_contiguous :: DatabaseBuffers where
  "demo_contiguous = demo_points\<lparr>db_indexMode := Contiguous\<rparr>"

lemma demo_contiguous_inv: "db_inv demo_contiguous"
  using demo_points_inv by (simp add: demo_contiguous_def db_inv_def GetArrayView_def ranges_Get_def)

theorem point_update_witness:
  "\<forall>eb. \<exists>db'. UpdateEvent (\<lambda>_ _ _. False) ET_Binary (Meas 1 0 (VBool True)) 1 EM_Suppress (demo_contiguous, eb) = Some (True, db', eb) \<and>
     cell_value (GetArrayView ST_Binary db' ! 1) = SM_Meas (Meas 1 0 (VBool True)) \<and>
     cell_value (GetArrayView ST_Binary db' ! 0) = SM_Meas (Meas 0 0 (VBool False))"
proof
  fix eb
  have arr: "GetArrayView ST_Binary demo_contiguous = [demo_point 0, demo_point 1]"
    using demo_points_view [of ST_Binary] by (simp add: demo_contiguous_def GetArrayView_def)
  have mode: "db_indexMode demo_contiguous = Contiguous"
    by (simp add: demo_contiguous_def)
  obtain found db' eb' where *: "UpdateEvent (\<lambda>_ _ _. False) ET_Binary (Meas 1 0 (VBool True)) 1 EM_Suppress (demo_contiguous, eb) = Some (found, db', eb')"
    by (simp add: UpdateEvent_def Let_def UpdateAny_def GetRawIndex_def mode arr cell_at_def)
  note facts = point_update [OF demo_contiguous_inv *, simplified]
  show "\<exists>db'. UpdateEvent (\<lambda>_ _ _. False) ET_Binary (Meas 1 0 (VBool True)) 1 EM_Suppress (demo_contiguous, eb) = Some (True, db', eb) \<and>
     cell_value (GetArrayView ST_Binary db' ! 1) = SM_Meas (Meas 1 0 (VBool True)) \<and>
     cell_value (GetArrayView ST_Binary db' ! 0) = SM_Meas (Meas 0 0 (VBool False))"
  proof (intro exI conjI)
    have "found" "eb' = eb"
      using facts by (auto simp: arr addressed_def mode event_update_def All_less_Suc split: option.splits)
    then show "UpdateEvent (\<lambda>_ _ _. False) ET_Binary (Meas 1 0 (VBool True)) 1 EM_Suppress (demo_contiguous, eb) = Some (True, db', eb)"
      using * by simp
    show "cell_value (GetArrayView ST_Binary db' ! 1) = SM_Meas (Meas 1 0 (VBool True))"
      using facts by (auto simp: arr addressed_def mode)
    show "cell_value (GetArrayView ST_Binary db' ! 0) = SM_Meas (Meas 0 0 (VBool False))"
      using facts by (auto simp: arr addressed_def mode demo_point_def)
  qed
qed

end
