(* ===== verification/Station.thy ===== *)
theory Station
  imports OutstationSafety DatabaseUpdates
begin

text \<open>
  The outstation on its database: the updates of the application (\<open>asiodnp3/Updates.h\<close>,
  \<open>UpdateBuilder.cpp\<close>, \<open>OutstationStack::Apply\<close>), the events of an outstation, the states it can
  reach, and what holds in all of them.
\<close>

section \<open>Updates\<close>

datatype FlagsType =
    FT_BinaryInput | FT_DoubleBinaryInput | FT_Counter | FT_FrozenCounter | FT_AnalogInput | FT_BinaryOutputStatus | FT_AnalogOutputStatus

primrec flags_event_type :: "FlagsType \<Rightarrow> EventType" where
  "flags_event_type FT_BinaryInput = ET_Binary"
| "flags_event_type FT_DoubleBinaryInput = ET_DoubleBitBinary"
| "flags_event_type FT_Counter = ET_Counter"
| "flags_event_type FT_FrozenCounter = ET_FrozenCounter"
| "flags_event_type FT_AnalogInput = ET_Analog"
| "flags_event_type FT_BinaryOutputStatus = ET_BinaryOutputStatus"
| "flags_event_type FT_AnalogOutputStatus = ET_AnalogOutputStatus"

text \<open>An update is one of the calls that \<open>UpdateBuilder\<close> records; their results are ignored.\<close>

datatype update =
    Update_Meas EventType "MeasValue Measurement" u16 EventMode
  | Update_Time TimeAndInterval u16
  | Update_Flags FlagsType u16 u16 u8

primrec update_func :: "(u8 list \<Rightarrow> u8 list \<Rightarrow> u8 list \<Rightarrow> bool) \<Rightarrow> update \<Rightarrow> database \<Rightarrow> database option" where
  "update_func exceeds (Update_Meas t v index mode) s = map_option snd (UpdateEvent exceeds t v index mode s)"
| "update_func exceeds (Update_Time v index) s = map_option (\<lambda>(_, db). (db, snd s)) (Update_TimeAndInterval v index (fst s))"
| "update_func exceeds (Update_Flags t start stop flags) s = map_option snd (Modify exceeds (flags_event_type t) start stop flags s)"

fun Updates_Apply :: "(u8 list \<Rightarrow> u8 list \<Rightarrow> u8 list \<Rightarrow> bool) \<Rightarrow> update list \<Rightarrow> database \<Rightarrow> database option" where
  "Updates_Apply exceeds [] s = Some s"
| "Updates_Apply exceeds (u # us) s = do { s \<leftarrow> update_func exceeds u s; Updates_Apply exceeds us s }"

type_synonym 'u station_env = "(MeasValue, DatabaseBuffers, 'u) environment"
type_synonym 'u station = "(MeasValue, DatabaseBuffers, 'u) OContext"

definition OutstationStack_Apply ::
    "(u8 list \<Rightarrow> u8 list \<Rightarrow> u8 list \<Rightarrow> bool) \<Rightarrow> 'u station_env \<Rightarrow> update list \<Rightarrow> 'u station \<Rightarrow> 'u station option" where
  "OutstationStack_Apply exceeds env updates ctx =
     (if updates = [] then Some ctx
      else do {
        (db, eb) \<leftarrow> Updates_Apply exceeds updates (oc_database ctx, oc_eventBuffer ctx);
        CheckForTaskStart env (ctx\<lparr>oc_database := db, oc_eventBuffer := eb\<rparr>) })"

text \<open>An update has a value of the type it is for.\<close>

primrec update_wf :: "update \<Rightarrow> bool" where
  "update_wf (Update_Meas t v index mode) = update_ok t v"
| "update_wf (Update_Time v index) = True"
| "update_wf (Update_Flags t start stop flags) = True"

lemma flags_event_type_not_octets [simp]: "flags_event_type t \<noteq> ET_OctetString"
  by (cases t) simp_all

lemma update_func_ok:
  assumes "db_inv db" and "buffer_inv cap eb" and "update_wf u"
  shows "succeeds (update_func exceeds u (db, eb)) (\<lambda>(db', eb'). db_inv db' \<and> buffer_inv cap eb' \<and> selection_kept db db')"
proof (cases u)
  case (Update_Meas t v index mode)
  then have "update_ok t v"
    using assms(3) by simp
  from UpdateEvent_ok [OF assms(1,2) this, of exceeds index mode] show ?thesis
    by (auto simp: Update_Meas elim!: succeedsE)
next
  case (Update_Time v index)
  then show ?thesis
    using Update_TimeAndInterval_ok [OF assms(1), of v index] assms(2) by (auto elim!: succeedsE)
next
  case (Update_Flags t start stop flags)
  then show ?thesis
    using Modify_ok [OF assms(1,2), of "flags_event_type t" exceeds start stop flags] by (auto elim!: succeedsE)
qed

lemma selection_kept_trans: "selection_kept a b \<Longrightarrow> selection_kept b c \<Longrightarrow> selection_kept a c"
  by (simp add: selection_kept_def)

lemma Updates_Apply_ok:
  "db_inv db \<Longrightarrow> buffer_inv cap eb \<Longrightarrow> \<forall>u \<in> set us. update_wf u \<Longrightarrow>
     succeeds (Updates_Apply exceeds us (db, eb)) (\<lambda>(db', eb'). db_inv db' \<and> buffer_inv cap eb' \<and> selection_kept db db')"
proof (induction us arbitrary: db eb)
  case (Cons u us)
  obtain db1 eb1 where 1: "update_func exceeds u (db, eb) = Some (db1, eb1)" "db_inv db1" "buffer_inv cap eb1" "selection_kept db db1"
    using update_func_ok [of db cap eb u exceeds] Cons.prems by (auto elim!: succeedsE)
  show ?case
    using 1(1) Cons.IH [OF 1(2,3)] Cons.prems(3) by (auto elim!: succeeds_mono intro: selection_kept_trans [OF 1(4)])
qed (simp add: selection_kept_def)


section \<open>Events\<close>

text \<open>
  What happens to an outstation: the transport layer and the executor call it, the application
  applies updates. The clock moves forward; the confirm timer fires when it has expired.
\<close>

datatype station_event =
    Ev_LowerLayerUp | Ev_LowerLayerDown | Ev_TxReady | Ev_Receive Message | Ev_ConfirmTimer | Ev_SetRestartIIN
  | Ev_Apply "update list" | Ev_Elapse TimeDuration

primrec station_enabled :: "station_event \<Rightarrow> 'u station \<Rightarrow> bool" where
  "station_enabled Ev_LowerLayerUp ctx = True"
| "station_enabled Ev_LowerLayerDown ctx = True"
| "station_enabled Ev_TxReady ctx = True"
| "station_enabled (Ev_Receive m) ctx = True"
| "station_enabled Ev_ConfirmTimer ctx = (case oc_confirmTimer ctx of Some t \<Rightarrow> t \<le> oc_now ctx | None \<Rightarrow> False)"
| "station_enabled Ev_SetRestartIIN ctx = True"
| "station_enabled (Ev_Apply us) ctx = (\<forall>u \<in> set us. update_wf u)"
| "station_enabled (Ev_Elapse d) ctx = (0 \<le> d)"

primrec station_handle ::
    "(u8 list \<Rightarrow> u8 list \<Rightarrow> u8 list \<Rightarrow> bool) \<Rightarrow> 'u station_env \<Rightarrow> station_event \<Rightarrow> 'u station \<Rightarrow> 'u station option" where
  "station_handle exceeds env Ev_LowerLayerUp ctx = map_option snd (OnLowerLayerUp env ctx)"
| "station_handle exceeds env Ev_LowerLayerDown ctx = map_option snd (OnLowerLayerDown ctx)"
| "station_handle exceeds env Ev_TxReady ctx = map_option snd (OnTxReady env ctx)"
| "station_handle exceeds env (Ev_Receive m) ctx = map_option snd (OnReceive env m ctx)"
| "station_handle exceeds env Ev_ConfirmTimer ctx = ConfirmTimer_fires env ctx"
| "station_handle exceeds env Ev_SetRestartIIN ctx = Some (SetRestartIIN ctx)"
| "station_handle exceeds env (Ev_Apply us) ctx = OutstationStack_Apply exceeds env us ctx"
| "station_handle exceeds env (Ev_Elapse d) ctx = Some (ctx\<lparr>oc_now := oc_now ctx + d\<rparr>)"

text \<open>The environment of an outstation on its database.\<close>

definition station_env :: "MeasValue conversions \<Rightarrow> 'u ICommandHandler \<Rightarrow> 'u IOutstationApplication \<Rightarrow> 'u station_env" where
  "station_env conv commandHandler application =
     \<lparr>env_conv = conv, env_database = static_database_of conv, env_commandHandler = commandHandler, env_application = application\<rparr>"

text \<open>The start of an outstation, and the states that events lead to.\<close>

definition station_start :: "EventBufferConfig \<Rightarrow> 'u station \<Rightarrow> bool" where
  "station_start cfg ctx \<longleftrightarrow>
     (\<exists>addresses params v0 db u. ctx = OContext_of addresses params (EventBuffer_of v0 cfg) db u \<and>
        4 \<le> op_maxTxFragSize params \<and> db_inv db)"

inductive station_reachable ::
    "(u8 list \<Rightarrow> u8 list \<Rightarrow> u8 list \<Rightarrow> bool) \<Rightarrow> 'u station_env \<Rightarrow> EventBufferConfig \<Rightarrow> 'u station \<Rightarrow> bool"
  for exceeds env cfg where
  start: "station_start cfg ctx \<Longrightarrow> station_reachable exceeds env cfg ctx"
| step: "station_reachable exceeds env cfg ctx \<Longrightarrow> station_enabled ev ctx \<Longrightarrow> station_handle exceeds env ev ctx = Some ctx' \<Longrightarrow>
    station_reachable exceeds env cfg ctx'"

interpretation station: outstation "station_env conv commandHandler application" db_inv cap for conv commandHandler application cap
  by (simp add: outstation_def station_env_def points.static_database_axioms)


section \<open>The invariant\<close>

lemma station_start_inv: "station_start cfg ctx \<Longrightarrow> outstation_inv (max_events cfg) db_inv ctx"
  using EventBuffer_of_inv
  by (auto simp: station_start_def outstation_inv_def resources_ok_def Let_def OContext_of_def OutstationSolState_of_def OutstationUnsolState_of_def
      TxBuffer_of_def tx_ok_def control_ok_def settled_def CanTransmit_def DeferredRequest_of_def)

text \<open>What an event does to the stored events.\<close>

primrec events_of_step :: "station_event \<Rightarrow> 'u station \<Rightarrow> 'u station \<Rightarrow> bool" where
  "events_of_step Ev_LowerLayerUp ctx ctx' = same_events ctx ctx'"
| "events_of_step Ev_LowerLayerDown ctx ctx' = same_events ctx ctx'"
| "events_of_step Ev_TxReady ctx ctx' = (same_events ctx ctx' \<or>
     oc_isTransmitting ctx \<and> dr_isSet (oc_deferred ctx) \<and> events_after (deferred_request (oc_deferred ctx)) ctx ctx')"
| "events_of_step (Ev_Receive m) ctx ctx' = (same_events ctx ctx' \<or>
     \<not> oc_isTransmitting ctx \<and> (\<exists>request. received_request m = Some request \<and> events_after request ctx ctx'))"
| "events_of_step Ev_ConfirmTimer ctx ctx' = same_events ctx ctx'"
| "events_of_step Ev_SetRestartIIN ctx ctx' = same_events ctx ctx'"
| "events_of_step (Ev_Apply us) ctx ctx' = True"
| "events_of_step (Ev_Elapse d) ctx ctx' = same_events ctx ctx'"

lemma OutstationStack_Apply_ok:
  assumes "outstation_inv cap db_inv ctx" and "\<forall>u \<in> set us. update_wf u"
  shows "succeeds (OutstationStack_Apply exceeds (station_env conv ch app) us ctx) (outstation_inv cap db_inv)"
proof -
  have "db_inv (oc_database ctx)" "buffer_inv cap (oc_eventBuffer ctx)"
    using assms(1) by (auto simp: outstation_inv_def resources_ok_def Let_def)
  from Updates_Apply_ok [OF this assms(2), of exceeds] show ?thesis
    using assms(1) station.update_then_start_ok [OF assms(1)] by (auto simp: OutstationStack_Apply_def elim!: succeedsE)
qed

lemma succeeds_map_snd: "succeeds m (\<lambda>(_, x). P x) \<Longrightarrow> succeeds (map_option snd m) P"
  by (cases m) (auto simp: split_beta)

lemma station_step:
  assumes "outstation_inv cap db_inv ctx" and "station_enabled ev ctx"
  shows "succeeds (station_handle exceeds (station_env conv ch app) ev ctx) (\<lambda>ctx'. outstation_inv cap db_inv ctx' \<and> events_of_step ev ctx ctx')"
proof (cases ev)
  case Ev_ConfirmTimer
  then have "oc_confirmTimer ctx \<noteq> None"
    using assms(2) by (auto split: option.splits)
  then show ?thesis
    using succeeds_mono [OF station.ConfirmTimer_fires_ok [OF assms(1)]] by (simp add: Ev_ConfirmTimer)
next
  case (Ev_Apply us)
  then show ?thesis
    using OutstationStack_Apply_ok [OF assms(1)] assms(2) by simp
next
  case Ev_SetRestartIIN
  then show ?thesis
    using assms(1) by (simp add: SetRestartIIN_def outstation_inv_def resources_ok_def Let_def control_ok_def settled_def CanTransmit_def)
next
  case (Ev_Elapse d)
  then show ?thesis
    using assms(1) by (simp add: outstation_inv_def resources_ok_def Let_def control_ok_def settled_def CanTransmit_def)
qed (simp_all add: succeeds_map_snd station.OnLowerLayerUp_ok [OF assms(1), unfolded case_prod_unfold]
    station.OnLowerLayerDown_ok [OF assms(1), unfolded case_prod_unfold] station.OnTxReady_ok [OF assms(1), unfolded case_prod_unfold]
    station.OnReceive_ok [OF assms(1), unfolded case_prod_unfold] case_prod_unfold)

lemma station_reachable_inv:
  "station_reachable exceeds (station_env conv ch app) cfg ctx \<Longrightarrow> outstation_inv (max_events cfg) db_inv ctx"
proof (induction rule: station_reachable.induct)
  case (start ctx)
  then show ?case
    by (rule station_start_inv)
next
  case (step ctx ev ctx')
  show ?case
    using station_step [OF step.IH step.hyps(2), of exceeds conv ch app] step.hyps(3) by simp
qed

end
