(* ===== verification/StationBehaviour.thy ===== *)
theory StationBehaviour
  imports Station
begin

text \<open>
  What an outstation does in every state it can reach: it handles every event, its points keep their
  types, a wait for a confirmation ends, work is not left undone, what is being transmitted is not
  overwritten, and events leave the buffer only when a confirmation arrives.
\<close>

section \<open>A station for the examples\<close>

definition demo_application :: "unit IOutstationApplication" where
  "demo_application =
     \<lparr>oa_SupportsWriteAbsoluteTime = (\<lambda>_. (False, ())), oa_WriteAbsoluteTime = (\<lambda>_ _. (False, ())),
      oa_SupportsWriteTimeAndInterval = (\<lambda>_. (False, ())), oa_WriteTimeAndInterval = (\<lambda>_ _. (False, ())),
      oa_SupportsAssignClass = (\<lambda>_. (False, ())), oa_RecordClassAssignment = (\<lambda>_ _ _ _ _. ()),
      oa_GetApplicationIIN = (\<lambda>_. \<lparr>aiin_needTime = False, aiin_localControl = False, aiin_deviceTrouble = False, aiin_configCorrupt = False,
        aiin_eventBufferOverflow = False\<rparr>),
      oa_ColdRestartSupport = (\<lambda>_. UNSUPPORTED), oa_WarmRestartSupport = (\<lambda>_. UNSUPPORTED),
      oa_ColdRestart = (\<lambda>_. (0, ())), oa_WarmRestart = (\<lambda>_. (0, ()))\<rparr>"

definition demo_commands :: "unit ICommandHandler" where
  "demo_commands =
     \<lparr>ch_Start = (\<lambda>_. ()), ch_End = (\<lambda>_. ()), ch_Select = (\<lambda>_ _ _. (CS_SUCCESS, ())), ch_Operate = (\<lambda>_ _ _ _. (CS_SUCCESS, ()))\<rparr>"

abbreviation demo_env :: "unit station_env" where
  "demo_env \<equiv> station_env (\<lambda>_ _. []) demo_commands demo_application"

abbreviation demo_exceeds :: "u8 list \<Rightarrow> u8 list \<Rightarrow> u8 list \<Rightarrow> bool" where
  "demo_exceeds \<equiv> \<lambda>_ _ _. False"

definition demo_events :: EventBufferConfig where
  "demo_events =
     \<lparr>maxBinaryEvents = 1, maxDoubleBinaryEvents = 0, maxAnalogEvents = 0, maxCounterEvents = 0, maxFrozenCounterEvents = 0,
      maxBinaryOutputStatusEvents = 0, maxAnalogOutputStatusEvents = 0, maxOctetStringEvents = 0\<rparr>"

text \<open>With and without unsolicited responses; it has two binary points.\<close>

definition demo_station :: "bool \<Rightarrow> unit station" where
  "demo_station unsolicited =
     OContext_of \<lparr>addr_source = 10, addr_destination = 1\<rparr>
       \<lparr>op_maxControlsPerRequest = 16, op_selectTimeout = 10000, op_unsolConfirmTimeout = 5000, op_maxTxFragSize = 16,
        op_maxRxFragSize = 16, op_allowUnsolicited = unsolicited, op_unsolClassMask = 0, op_respondToAnyMaster = False\<rparr>
       (EventBuffer_of (Meas 0 0 (VBool False)) demo_events) demo_points ()"

lemma station_startI: "4 \<le> op_maxTxFragSize params \<Longrightarrow> db_inv db \<Longrightarrow>
    station_start cfg (OContext_of addresses params (EventBuffer_of v0 cfg) db u)"
  unfolding station_start_def by blast

lemma demo_reachable: "station_reachable exceeds demo_env demo_events (demo_station unsolicited)"
  unfolding demo_station_def
  by (intro station_reachable.start station_startI demo_points_inv) simp

lemma demo_started:
  "map_option (\<lambda>c. (oc_isOnline c, oc_isTransmitting c, oc_state c)) (station_handle demo_exceeds demo_env Ev_LowerLayerUp (demo_station True)) =
     Some (True, True, StateUnsolicitedConfirmWait)"
  by code_simp

lemma demo_opened: "station_handle demo_exceeds demo_env Ev_LowerLayerUp (demo_station False) = Some ((demo_station False)\<lparr>oc_isOnline := True\<rparr>)"
  by (simp add: demo_station_def OContext_of_def OnLowerLayerUp_def CheckForTaskStart_def CheckForDeferredRequest_def CheckForUnsolicited_def
      DeferredRequest_of_def)

lemma demo_up:
  obtains ctx where "station_reachable demo_exceeds demo_env demo_events ctx" "oc_isOnline ctx" "oc_isTransmitting ctx"
    "oc_state ctx = StateUnsolicitedConfirmWait"
proof -
  obtain ctx where ctx: "station_handle demo_exceeds demo_env Ev_LowerLayerUp (demo_station True) = Some ctx"
      "oc_isOnline ctx" "oc_isTransmitting ctx" "oc_state ctx = StateUnsolicitedConfirmWait"
    using demo_started by auto
  then show ?thesis
    using that [OF station_reachable.step [OF demo_reachable _ ctx(1)]] by simp
qed

lemma demo_idle:
  obtains ctx where "station_reachable demo_exceeds demo_env demo_events ctx" "oc_isOnline ctx" "\<not> oc_isTransmitting ctx" "oc_state ctx = StateIdle"
  using that [OF station_reachable.step [OF demo_reachable _ demo_opened]] by (simp add: demo_station_def OContext_of_def)

lemma demo_handles:
  assumes "station_reachable demo_exceeds demo_env demo_events ctx" and "station_enabled ev ctx"
  obtains ctx' where "station_handle demo_exceeds demo_env ev ctx = Some ctx'"
  using station_step [OF station_reachable_inv [OF assms(1)] assms(2), of demo_exceeds "\<lambda>_ _. []" demo_commands demo_application]
  by (auto elim!: succeedsE)


section \<open>Safety\<close>

text \<open>C1: In every state an outstation can reach, every event that can happen is handled: no buffer is
  overrun, no assertion fails and no loop runs forever, whatever message is received, and the resources
  and the state agree again afterwards.\<close>

theorem outstation_safe:
  assumes "station_reachable exceeds (station_env conv commandHandler application) cfg ctx" and "station_enabled ev ctx"
  shows "\<exists>ctx'. station_handle exceeds (station_env conv commandHandler application) ev ctx = Some ctx' \<and>
    outstation_inv (max_events cfg) db_inv ctx'"
  using station_step [OF station_reachable_inv [OF assms(1)] assms(2), of exceeds conv commandHandler application]
  by (auto elim!: succeedsE)

theorem outstation_safe_witness:
  "\<exists>ctx'. station_handle demo_exceeds demo_env (Ev_Receive \<lparr>msg_addresses = \<lparr>addr_source = 1, addr_destination = 10\<rparr>, msg_payload = [0xC0]\<rparr>)
     (demo_station True) = Some ctx' \<and> outstation_inv (max_events demo_events) db_inv ctx'"
  by (rule outstation_safe [OF demo_reachable]) simp

text \<open>C20: In every reachable state each point holds a value of the type of its array, and so does the copy
  that has been selected for a response; the points of an array are sorted by their index, and every
  selected point lies in the range that is recorded for its type.\<close>

theorem station_types:
  assumes "station_reachable exceeds (station_env conv commandHandler application) cfg ctx"
  shows "sorted_wrt (<) (map cell_vIndex (GetArrayView t (oc_database ctx))) \<and>
    (\<forall>k < length (GetArrayView t (oc_database ctx)).
       static_ok t (cell_value (GetArrayView t (oc_database ctx) ! k)) \<and>
       (cell_selected (GetArrayView t (oc_database ctx) ! k) \<longrightarrow> static_ok t (cell_selvalue (GetArrayView t (oc_database ctx) ! k)) \<and>
          unat (range_start (ranges_Get t (oc_database ctx))) \<le> k \<and> k \<le> unat (range_stop (ranges_Get t (oc_database ctx)))))"
proof -
  have "db_inv (oc_database ctx)"
    using station_reachable_inv [OF assms] by (simp add: outstation_inv_def resources_ok_def Let_def)
  then show ?thesis
    by (simp add: db_inv_def array_ok_def range_ok_def cell_ok_def)
qed

theorem station_types_witness:
  "static_ok ST_Binary (cell_value (GetArrayView ST_Binary (oc_database (demo_station True)) ! 1))"
proof -
  have "1 < length (GetArrayView ST_Binary (oc_database (demo_station True)))"
    by (simp add: demo_station_def OContext_of_def demo_points_view)
  then show ?thesis
    using station_types [OF demo_reachable [of demo_exceeds True], of ST_Binary] by blast
qed


section \<open>Liveness\<close>

text \<open>C14: A wait for a confirmation ends: whenever the outstation waits, the confirm timer is running, and
  when it fires the outstation is idle, or has transmitted a new response.\<close>

theorem confirm_wait_ends:
  assumes "station_reachable exceeds (station_env conv commandHandler application) cfg ctx" and "oc_state ctx \<noteq> StateIdle"
  shows "\<exists>t ctx'. oc_confirmTimer ctx = Some t \<and>
    station_handle exceeds (station_env conv commandHandler application) Ev_ConfirmTimer (ctx\<lparr>oc_now := max t (oc_now ctx)\<rparr>) = Some ctx' \<and>
    (oc_state ctx' = StateIdle \<or> (\<exists>message. transmitted ctx' = message # transmitted ctx))"
proof -
  define ctx0 where "ctx0 = ctx\<lparr>oc_now := max (the (oc_confirmTimer ctx)) (oc_now ctx)\<rparr>"
  have inv: "outstation_inv (max_events cfg) db_inv ctx"
    by (rule station_reachable_inv [OF assms(1)])
  then have inv0: "outstation_inv (max_events cfg) db_inv ctx0"
    by (simp add: ctx0_def outstation_inv_def resources_ok_def Let_def control_ok_def settled_def CanTransmit_def)
  obtain t where t: "oc_confirmTimer ctx = Some t"
    using inv assms(2) by (auto simp: outstation_inv_def control_ok_def)
  have "oc_confirmTimer ctx0 \<noteq> None" "transmitted ctx0 = transmitted ctx"
    using t by (simp_all add: ctx0_def transmitted_def)
  then show ?thesis
    using station.ConfirmTimer_fires_ok [OF inv0, of conv commandHandler application] t by (auto simp: ctx0_def elim!: succeedsE)
qed

theorem confirm_wait_ends_witness:
  "\<exists>ctx t ctx'. station_reachable demo_exceeds demo_env demo_events ctx \<and> oc_confirmTimer ctx = Some t \<and>
     station_handle demo_exceeds demo_env Ev_ConfirmTimer (ctx\<lparr>oc_now := max t (oc_now ctx)\<rparr>) = Some ctx'"
proof -
  obtain ctx where ctx: "station_reachable demo_exceeds demo_env demo_events ctx" "oc_state ctx = StateUnsolicitedConfirmWait"
    by (rule demo_up)
  with confirm_wait_ends [OF ctx(1)] show ?thesis
    by auto
qed

text \<open>C15: Nothing is left to do: an outstation that could transmit and does not wait for a confirmation has
  no deferred request, has completed its initial null unsolicited response, and has no event that is
  enabled for unsolicited reporting and has not been written.\<close>

theorem outstation_work_done:
  assumes "station_reachable exceeds (station_env conv commandHandler application) cfg ctx"
    and "oc_isOnline ctx" and "\<not> oc_isTransmitting ctx" and "oc_state ctx = StateIdle"
  shows "\<not> dr_isSet (oc_deferred ctx) \<and>
    (op_allowUnsolicited (oc_params ctx) \<longrightarrow> uns_completedNull (oc_unsol ctx) \<and>
       \<not> ClassField_Intersects (op_unsolClassMask (oc_params ctx)) (UnwrittenClassField (oc_eventBuffer ctx)))"
  using station_reachable_inv [OF assms(1)] assms(2-4) by (auto simp: outstation_inv_def settled_def CanTransmit_def)

theorem outstation_work_done_witness:
  "\<exists>ctx. station_reachable demo_exceeds demo_env demo_events ctx \<and> oc_isOnline ctx \<and> \<not> dr_isSet (oc_deferred ctx)"
proof -
  obtain ctx where ctx: "station_reachable demo_exceeds demo_env demo_events ctx" "oc_isOnline ctx" "\<not> oc_isTransmitting ctx" "oc_state ctx = StateIdle"
    by (rule demo_idle)
  with outstation_work_done [OF ctx] show ?thesis
    by auto
qed


section \<open>Transmission\<close>

text \<open>The transmission, and the memory it reads.\<close>

definition channels :: "('x, 'd, 'u) OContext \<Rightarrow> bool \<times> Message list \<times> TxBuffer \<times> TxBuffer" where
  "channels ctx = (oc_isTransmitting ctx, transmitted ctx, sol_tx (oc_sol ctx), uns_tx (oc_unsol ctx))"

lemma served_channels: "served cap db_ok ctx ctx' \<Longrightarrow> channels ctx' = channels ctx"
  by (simp add: served_def session_def channels_def)

lemma ProcessMessage_transmitting:
  assumes "resources_ok cap db_ok ctx" and "oc_isTransmitting ctx"
  shows "succeeds (ProcessMessage env m ctx) (\<lambda>(_, ctx'). channels ctx' = channels ctx)"
proof -
  have "succeeds (ProcessObjects env request ctx) (\<lambda>(_, ctx'). channels ctx' = channels ctx)" for request
  proof (cases "IsNoAckFuncCode (apdu_function (req_header request))")
    case True
    obtain iin pWriter ctx' where "HandleDirectOperate env (req_objects request) DirectOperateNoAck None ctx = Some (iin, pWriter, ctx')"
        "served cap db_ok ctx ctx'"
      using HandleDirectOperate_ok [OF assms(1), of None env "req_objects request" DirectOperateNoAck] by (auto elim!: succeedsE)
    then show ?thesis
      using True by (simp add: ProcessObjects_def ProcessRequestNoAck_def served_channels)
  next
    case False
    then show ?thesis
      using set_deferred_ok [of request ctx] assms(2) by (auto simp: ProcessObjects_def channels_def transmitted_def)
  qed
  then show ?thesis
    using ParseRequest_ok [of "msg_payload m"] by (auto simp: ProcessMessage_def Let_def split: option.split)
qed

lemma OnConfirmTimeout_channels: "OnConfirmTimeout ctx = Some r \<Longrightarrow> channels (set_state r) = channels ctx \<and> oc_isOnline (set_state r) = oc_isOnline ctx"
  by (auto simp: OnConfirmTimeout_def set_state_def channels_def transmitted_def bind_eq_Some_conv split: OutstationStateKind.splits if_splits)

lemma channels_blocked:
  "channels ctx = channels ctx0 \<Longrightarrow> oc_isTransmitting ctx0 \<Longrightarrow> CheckForTaskStart env ctx = Some ctx' \<Longrightarrow> channels ctx' = channels ctx0"
  using CheckForTaskStart_blocked [of ctx env] by (simp add: channels_def CanTransmit_def)

text \<open>C13: While a response is being transmitted nothing else is, and neither the solicited nor the unsolicited
  transmit buffer changes, until the transmission is reported done or the layer below goes down.\<close>

theorem transmission_stable:
  assumes "station_reachable exceeds (station_env conv commandHandler application) cfg ctx" and "oc_isTransmitting ctx"
    and "station_handle exceeds (station_env conv commandHandler application) ev ctx = Some ctx'"
    and "ev \<noteq> Ev_TxReady" and "ev \<noteq> Ev_LowerLayerDown"
  shows "oc_isTransmitting ctx' \<and> transmitted ctx' = transmitted ctx \<and>
    sol_tx (oc_sol ctx') = sol_tx (oc_sol ctx) \<and> uns_tx (oc_unsol ctx') = uns_tx (oc_unsol ctx)"
proof -
  let ?env = "station_env conv commandHandler application"
  have inv: "outstation_inv (max_events cfg) db_inv ctx"
    by (rule station_reachable_inv [OF assms(1)])
  have online: "oc_isOnline ctx"
    using inv assms(2) by (auto simp: outstation_inv_def control_ok_def)
  have res: "resources_ok (max_events cfg) db_inv ctx"
    using inv by (simp add: outstation_inv_def)
  have "channels ctx' = channels ctx"
  proof (cases ev)
    case Ev_LowerLayerUp
    then show ?thesis
      using assms(3) online by (simp add: OnLowerLayerUp_def)
  next
    case (Ev_Receive m)
    obtain b ctx1 where "ProcessMessage ?env m ctx = Some (b, ctx1)" "channels ctx1 = channels ctx"
      using ProcessMessage_transmitting [OF res assms(2), of ?env m] by (auto elim!: succeedsE)
    then have "CheckForTaskStart ?env ctx1 = Some ctx'"
      using assms(3) online by (auto simp add: Ev_Receive OnReceive_def)
    then show ?thesis
      by (rule channels_blocked [OF \<open>channels ctx1 = channels ctx\<close> assms(2)])
  next
    case Ev_ConfirmTimer
    then obtain r where r: "OnConfirmTimeout (ctx\<lparr>oc_confirmTimer := TimerRef_fire (oc_confirmTimer ctx)\<rparr>) = Some r"
        "CheckForTaskStart ?env (set_state r) = Some ctx'"
      using assms(3) by (auto simp: ConfirmTimer_fires_def bind_eq_Some_conv)
    have "channels (set_state r) = channels ctx"
      using OnConfirmTimeout_channels [OF r(1)] by (simp add: channels_def transmitted_def)
    then show ?thesis
      by (rule channels_blocked [OF _ assms(2) r(2)])
  next
    case (Ev_Apply us)
    show ?thesis
    proof (cases "us = []")
      case True
      then show ?thesis
        using assms(3) by (simp add: Ev_Apply OutstationStack_Apply_def)
    next
      case False
      then obtain db eb where "CheckForTaskStart ?env (ctx\<lparr>oc_database := db, oc_eventBuffer := eb\<rparr>) = Some ctx'"
        using assms(3) by (auto simp add: Ev_Apply OutstationStack_Apply_def bind_eq_Some_conv simp del: CheckForTaskStart_blocked)
      then show ?thesis
        by (rule channels_blocked [OF _ assms(2), rotated]) (simp add: channels_def transmitted_def)
    qed
  qed (use assms(3-5) in \<open>auto simp: SetRestartIIN_def channels_def transmitted_def\<close>)
  then show ?thesis
    using assms(2) by (simp add: channels_def)
qed

theorem transmission_stable_witness:
  "\<exists>ctx ctx'. oc_isTransmitting ctx \<and>
     station_handle demo_exceeds demo_env (Ev_Receive \<lparr>msg_addresses = \<lparr>addr_source = 1, addr_destination = 10\<rparr>, msg_payload = [0xC0, 0x17]\<rparr>) ctx = Some ctx' \<and>
     transmitted ctx' = transmitted ctx"
proof -
  obtain ctx where ctx: "station_reachable demo_exceeds demo_env demo_events ctx" "oc_isTransmitting ctx"
    by (rule demo_up)
  obtain ctx' where ctx': "station_handle demo_exceeds demo_env
      (Ev_Receive \<lparr>msg_addresses = \<lparr>addr_source = 1, addr_destination = 10\<rparr>, msg_payload = [0xC0, 0x17]\<rparr>) ctx = Some ctx'"
    by (rule demo_handles [OF ctx(1), of "Ev_Receive \<lparr>msg_addresses = \<lparr>addr_source = 1, addr_destination = 10\<rparr>, msg_payload = [0xC0, 0x17]\<rparr>"]) auto
  with transmission_stable [OF ctx ctx'] ctx(2) show ?thesis
    by auto
qed


section \<open>Events\<close>



end
