(* ===== verification/StationRequests.thy ===== *)
theory StationRequests
  imports StationBehaviour
begin

text \<open>
  What an outstation does with the requests that it answers: an OPERATE is executed only after a matching SELECT,
  which the history of its events tells, and a repeated request is answered without being executed again.
\<close>

section \<open>Requests that are processed\<close>

text \<open>Solicited requests other than reads and confirmations are answered with a single response.\<close>

definition answered_request :: "ParsedRequest \<Rightarrow> bool" where
  "answered_request request \<longleftrightarrow>
     \<not> request_UNS request \<and> \<not> IsNoAckFuncCode (apdu_function (req_header request)) \<and>
     apdu_function (req_header request) \<noteq> FC_CONFIRM \<and> apdu_function (req_header request) \<noteq> FC_READ"

text \<open>A message for this station, from its master or from any master if that is configured.\<close>

definition message_addressed :: "Message \<Rightarrow> ('x, 'd, 'u) OContext \<Rightarrow> bool" where
  "message_addressed m ctx \<longleftrightarrow>
     addr_destination (msg_addresses m) = addr_source (oc_addresses ctx) \<and>
     (op_respondToAnyMaster (oc_params ctx) \<or> addr_source (msg_addresses m) = addr_destination (oc_addresses ctx))"

text \<open>
  The request that an event makes an online station process, if any: the request in a message that it receives while
  it does not transmit, or the request that it has deferred until its transmission is done.
\<close>

definition processed_request :: "station_event \<Rightarrow> 'u station \<Rightarrow> ParsedRequest option" where
  "processed_request ev ctx =
     (case ev of
        Ev_Receive m \<Rightarrow>
          (case received_request m of
             Some request \<Rightarrow>
               if oc_isOnline ctx \<and> \<not> oc_isTransmitting ctx \<and> message_addressed m ctx \<and>
                 IsFirAndFin (apdu_control (req_header request)) \<and> \<not> acf_CON (apdu_control (req_header request)) \<and>
                 answered_request request
               then Some request else None
           | None \<Rightarrow> None)
      | Ev_TxReady \<Rightarrow>
          if oc_isOnline ctx \<and> oc_isTransmitting ctx \<and> dr_isSet (oc_deferred ctx) \<and>
            answered_request (deferred_request (oc_deferred ctx))
          then Some (deferred_request (oc_deferred ctx)) else None
      | _ \<Rightarrow> None)"

text \<open>It is a repetition of the last request that was processed.\<close>

definition repeats :: "ParsedRequest \<Rightarrow> ('x, 'd, 'u) OContext \<Rightarrow> bool" where
  "repeats request ctx \<longleftrightarrow> sn_num (sol_seq (oc_sol ctx)) = request_seq request \<and>
     FullyEqualsLastRequest (oc_history ctx) (req_header request) (req_objects request)"

lemma take_min_length [simp]: "take (min (length xs) n) xs = take n xs"
  by (simp add: min_def)

lemma resend_last_fields [simp]:
  "oc_isTransmitting (resend_last request ctx)" "oc_control (resend_last request ctx) = oc_control ctx"
  "setting (resend_last request ctx) = setting ctx" "oc_deferred (resend_last request ctx) = oc_deferred ctx"
  "oc_application (resend_last request ctx) = oc_application ctx" "oc_database (resend_last request ctx) = oc_database ctx"
  "oc_eventBuffer (resend_last request ctx) = oc_eventBuffer ctx" "oc_history (resend_last request ctx) = oc_history ctx"
  "sol_seq (oc_sol (resend_last request ctx)) = sol_seq (oc_sol ctx)"
  "GetLastResponse (sol_tx (oc_sol (resend_last request ctx))) = GetLastResponse (sol_tx (oc_sol ctx))"
  "oc_addresses (resend_last request ctx) = oc_addresses ctx"
  "transmitted (resend_last request ctx) =
     \<lparr>msg_addresses = \<lparr>addr_source = addr_source (oc_addresses ctx), addr_destination = addr_source (req_addresses request)\<rparr>,
      msg_payload = GetLastResponse (sol_tx (oc_sol ctx))\<rparr> # transmitted ctx"
  by (simp_all add: resend_last_def BeginResponseTx_def BeginTx_def outstation_emit_def transmitted_def setting_def List.map_filter_simps
      GetLastResponse_def TxBuffer_Record_def)

lemma sent_response_transmits: "send_response destination response ctx = Some ctx' \<Longrightarrow> oc_isTransmitting ctx'"
  by (auto simp: send_response_def BeginResponseTx_def BeginTx_def outstation_emit_def Let_def bind_eq_Some_conv)

lemma RespondToNonReadRequest_transmits: "RespondToNonReadRequest env request ctx = Some ctx' \<Longrightarrow> oc_isTransmitting ctx'"
  by (auto simp: RespondToNonReadRequest_def Let_def bind_eq_Some_conv split_beta dest: sent_response_transmits)

text \<open>A request that is answered is either repeated, and the last response is sent again, or it is new.\<close>

definition new_request :: "ParsedRequest \<Rightarrow> TimerRef \<Rightarrow> DeferredRequest \<Rightarrow> ('x, 'd, 'u) OContext \<Rightarrow> ('x, 'd, 'u) OContext" where
  "new_request request t d ctx = ctx\<lparr>oc_sol := (oc_sol ctx)\<lparr>sol_seq := (sol_seq (oc_sol ctx))\<lparr>sn_num := request_seq request\<rparr>\<rparr>,
     oc_confirmTimer := t, oc_deferred := d\<rparr>"

lemma OnReceiveSolRequest_cases:
  assumes "OnReceiveSolRequest env request ctx = Some r" and "apdu_function (req_header request) \<noteq> FC_READ"
  shows "repeats request ctx \<and> (\<exists>k t. r = (k, resend_last request (ctx\<lparr>oc_confirmTimer := t\<rparr>))) \<or>
    \<not> repeats request ctx \<and> (\<exists>k t d c. RespondToNonReadRequest env request (new_request request t d ctx) = Some c \<and> r = (k, c) \<and>
       (dr_isSet d \<longrightarrow> dr_isSet (oc_deferred ctx)))"
proof (cases "repeats request ctx")
  case True
  have "ctx = ctx\<lparr>oc_confirmTimer := oc_confirmTimer ctx\<rparr>"
    by simp
  then have "\<exists>k t. r = (k, resend_last request (ctx\<lparr>oc_confirmTimer := t\<rparr>))"
    using assms True
    by (auto simp: repeats_def OnReceiveSolRequest_def FullyEqualsLastRequest_def EqualsLastObjects_def OnRepeatNonReadRequest_def CancelConfirmTimer_def
        split: OutstationStateKind.splits; metis)
  then show ?thesis
    using True by blast
next
  case False
  then have "OnNewNonReadRequest env request (ctx\<lparr>oc_sol := (oc_sol ctx)\<lparr>sol_seq := (sol_seq (oc_sol ctx))\<lparr>sn_num := request_seq request\<rparr>\<rparr>\<rparr>) = Some r"
    using assms by (auto simp: repeats_def OnReceiveSolRequest_def ProcessNewRequest_def Let_def split: if_splits)
  then have "\<exists>k t d c. RespondToNonReadRequest env request (new_request request t d ctx) = Some c \<and> r = (k, c) \<and>
      (dr_isSet d \<longrightarrow> dr_isSet (oc_deferred ctx))"
  proof (cases "oc_state ctx")
    case StateIdle
    then show ?thesis
      using \<open>OnNewNonReadRequest _ _ _ = _\<close>
      by (auto simp: OnNewNonReadRequest_def new_request_def intro!: exI [of _ "oc_confirmTimer ctx"] exI [of _ "oc_deferred ctx"])
  next
    case StateSolicitedConfirmWait
    then show ?thesis
      using \<open>OnNewNonReadRequest _ _ _ = _\<close>
      by (auto simp: OnNewNonReadRequest_def new_request_def CancelConfirmTimer_def intro!: exI [of _ "snd (TimerRef_Cancel (oc_confirmTimer ctx))"] exI [of _ "oc_deferred ctx"])
  next
    case StateUnsolicitedConfirmWait
    then show ?thesis
      using \<open>OnNewNonReadRequest _ _ _ = _\<close>
      by (auto simp: OnNewNonReadRequest_def new_request_def DeferredRequest_Reset_def
          intro!: exI [of _ "oc_confirmTimer ctx"] exI [of _ "DeferredRequest_Reset (oc_deferred ctx)"])
  qed
  then show ?thesis
    using False by blast
qed

lemma OnReceiveSolRequest_transmits:
  assumes "OnReceiveSolRequest env request ctx = Some r" and "apdu_function (req_header request) \<noteq> FC_READ"
  shows "oc_isTransmitting (snd r)"
  using OnReceiveSolRequest_cases [OF assms] by (auto dest: RespondToNonReadRequest_transmits)

lemma ProcessMessage_answered:
  assumes "received_request m = Some request" and "message_addressed m ctx"
    and "IsFirAndFin (apdu_control (req_header request))" and "\<not> acf_CON (apdu_control (req_header request))"
  shows "ProcessMessage env m ctx = ProcessObjects env request ctx"
proof -
  obtain header0 objects where "ParseRequest (msg_payload m) = Some (Some (header0, objects))"
      "request = \<lparr>req_addresses = msg_addresses m, req_header = header0, req_objects = objects\<rparr>"
    using assms(1) by (auto simp: received_request_def split: option.splits)
  then show ?thesis
    using assms(2-4) by (auto simp: ProcessMessage_def Let_def message_addressed_def)
qed

text \<open>The step of a station that processes such a request.\<close>

lemma processed_step:
  assumes "processed_request ev ctx = Some request" and "station_handle exceeds env ev ctx = Some ctx'"
  obtains r d where "OnReceiveSolRequest env request (ctx\<lparr>oc_isTransmitting := False\<rparr>) = Some r"
    "ctx' = (set_state r)\<lparr>oc_deferred := d\<rparr>" "answered_request request" "oc_isTransmitting (snd r)"
    "dr_isSet d \<longrightarrow> dr_isSet (oc_deferred (snd r))"
proof (cases ev)
  case (Ev_Receive m)
  then have m: "received_request m = Some request" "message_addressed m ctx" "IsFirAndFin (apdu_control (req_header request))"
      "\<not> acf_CON (apdu_control (req_header request))"
    and ctx: "oc_isOnline ctx" "\<not> oc_isTransmitting ctx" "answered_request request"
    using assms(1) by (auto simp: processed_request_def split: option.splits if_splits)
  have same: "ctx\<lparr>oc_isTransmitting := False\<rparr> = ctx"
    using ctx(2) by simp
  have "ProcessMessage env m ctx = map_option (\<lambda>r. (True, set_state r)) (OnReceiveSolRequest env request ctx)"
    using ctx(2,3) by (simp add: ProcessMessage_answered [OF m] ProcessObjects_def ProcessRequest_def answered_request_def)
  then obtain r where r: "OnReceiveSolRequest env request ctx = Some r" "CheckForTaskStart env (set_state r) = Some ctx'"
    using assms(2) ctx(1) by (auto simp: Ev_Receive OnReceive_def bind_eq_Some_conv)
  have tx: "oc_isTransmitting (snd r)"
    using OnReceiveSolRequest_transmits [OF r(1)] ctx(3) by (simp add: answered_request_def)
  then have "ctx' = set_state r"
    using r(2) CheckForTaskStart_blocked [of "set_state r" env] by (simp add: CanTransmit_def set_state_def)
  then have "ctx' = (set_state r)\<lparr>oc_deferred := oc_deferred (snd r)\<rparr>"
    by (simp add: set_state_def)
  then show ?thesis
    using that r(1) same tx ctx(3) by metis
next
  case Ev_TxReady
  then have ctx: "oc_isOnline ctx" "oc_isTransmitting ctx" "dr_isSet (oc_deferred ctx)" "answered_request request"
      "request = deferred_request (oc_deferred ctx)"
    using assms(1) by (auto simp: processed_request_def split: if_splits)
  define ctx0 where "ctx0 = ctx\<lparr>oc_isTransmitting := False\<rparr>"
  have "CheckForTaskStart env ctx0 = Some ctx'"
    using assms(2) ctx(1,2) by (auto simp: Ev_TxReady OnTxReady_def ctx0_def)
  then obtain ctx1 where 1: "CheckForDeferredRequest env ctx0 = Some ctx1" "CheckForUnsolicited env ctx1 = Some ctx'"
    by (auto simp: CheckForTaskStart_def bind_eq_Some_conv)
  then obtain r where r: "OnReceiveSolRequest env request ctx0 = Some r" and ctx1: "ctx1 = (set_state r)\<lparr>oc_deferred := (oc_deferred (set_state r))\<lparr>dr_isSet := False\<rparr>\<rparr>"
    using ctx by (auto simp: CheckForDeferredRequest_def ProcessDeferredRequest_def ProcessRequest_def CanTransmit_def answered_request_def ctx0_def
        bind_eq_Some_conv)
  have tx: "oc_isTransmitting (snd r)"
    using OnReceiveSolRequest_transmits [OF r] ctx(4) by (simp add: answered_request_def)
  then have "ctx' = ctx1"
    using 1(2) ctx1 by (simp add: CheckForUnsolicited_def CanTransmit_def set_state_def)
  then show ?thesis
    using that r ctx1 tx ctx(4) by (simp add: ctx0_def)
qed (use assms(1) in \<open>simp_all add: processed_request_def\<close>)

section \<open>The selection\<close>

text \<open>The writer that the response to a request other than a read is written with.\<close>

definition response_writer :: "ParsedRequest \<Rightarrow> ('x, 'd, 'u) OContext \<Rightarrow> HeaderWriter option" where
  "response_writer request ctx = do {
     response \<leftarrow> TxBuffer_Start (sol_tx (oc_sol ctx));
     response \<leftarrow> SetFunction FC_RESPONSE response;
     response \<leftarrow> SetControl ((AppControlField_init True True False False)\<lparr>acf_SEQ := acf_SEQ (apdu_control (req_header request))\<rparr>) response;
     Some (GetWriter response) }"

text \<open>
  A SELECT succeeds when its objects can be echoed, they are parsed, and the application selects every control
  that it is asked to select. (Controls above the limit of a request are refused without asking it.)
\<close>

definition select_succeeds :: "('x, 'd, 'u) environment \<Rightarrow> ParsedRequest \<Rightarrow> ('x, 'd, 'u) OContext \<Rightarrow> bool" where
  "select_succeeds env request ctx \<longleftrightarrow> apdu_function (req_header request) = FC_SELECT \<and>
     (case response_writer request ctx of
        None \<Rightarrow> False
      | Some writer \<Rightarrow> length (req_objects request) \<le> HW_Remaining writer \<and>
          (case process_commands env True DirectOperate (req_objects request) (Some writer) ctx of
             None \<Rightarrow> False
           | Some (result, _, allSuccessful, _, _) \<Rightarrow> result = PR_OK \<and> allSuccessful))"

lemma emit_control [simp]: "oc_control (outstation_emit out ctx) = oc_control ctx"
  by (simp add: outstation_emit_def)

lemma post_assignments_control [simp]: "oc_control (post_assignments posted ctx) = oc_control ctx"
  by (induction posted arbitrary: ctx) (auto simp: post_assignments_def)

lemma GetResponseIIN_control [simp]: "oc_control (snd (GetResponseIIN env ctx)) = oc_control ctx"
  by (simp add: GetResponseIIN_def GetDynamicIIN_def Let_def split_beta)

lemma send_response_control: "send_response destination response ctx = Some ctx' \<Longrightarrow> oc_control ctx' = oc_control ctx"
  by (auto simp: send_response_def BeginResponseTx_def BeginTx_def Let_def bind_eq_Some_conv)

lemma process_commands_control:
  "process_commands env isSelect opType objects pWriter ctx = Some (result, err, successful, pWriter', ctx') \<Longrightarrow> oc_control ctx' = oc_control ctx"
  by (auto simp: process_commands_def bind_eq_Some_conv)

lemma process_commands_context:
  "process_commands env isSelect opType objects pWriter ctx = Some (result, err, successful, pWriter', ctx') \<Longrightarrow>
     \<exists>u. process_commands env isSelect opType objects pWriter ctx0 = Some (result, err, successful, pWriter', ctx0\<lparr>oc_application := u\<rparr>)"
  if "oc_params ctx0 = oc_params ctx" "oc_application ctx0 = oc_application ctx"
  using that by (auto simp: process_commands_def bind_eq_Some_conv)

lemma HandleDirectOperate_control:
  "HandleDirectOperate env objects opType pWriter ctx = Some (iin, pWriter', ctx') \<Longrightarrow> oc_control ctx' = oc_control ctx"
  by (auto simp: HandleDirectOperate_def bind_eq_Some_conv split: if_splits dest: process_commands_control)

lemma HandleOperate_control: "HandleOperate env objects writer ctx = Some (iin, writer', ctx') \<Longrightarrow> oc_control ctx' = oc_control ctx"
  by (auto simp: HandleOperate_def HandleCommandWithConstant_def Let_def bind_eq_Some_conv split: if_splits dest: process_commands_control)

lemma HandleRestart_control: "HandleRestart env objects warm writer ctx = Some (iin, writer', ctx') \<Longrightarrow> oc_control ctx' = oc_control ctx"
  by (auto simp: HandleRestart_def Let_def bind_eq_Some_conv split_beta split: if_splits)

lemma HandleAssignClass_control: "HandleAssignClass env objects ctx = Some (iin, ctx') \<Longrightarrow> oc_control ctx' = oc_control ctx"
  by (auto simp: HandleAssignClass_def Let_def bind_eq_Some_conv split_beta split: if_splits)

lemma other_handlers_control:
  "HandleWrite env objects ctx = Some (iin, ctx') \<Longrightarrow> oc_control ctx' = oc_control ctx"
  "HandleDisableUnsolicited objects ctx = Some (iin, ctx') \<Longrightarrow> oc_control ctx' = oc_control ctx"
  "HandleEnableUnsolicited objects ctx = Some (iin, ctx') \<Longrightarrow> oc_control ctx' = oc_control ctx"
  "HandleRecordCurrentTime ctx = (iin, ctx') \<Longrightarrow> oc_control ctx' = oc_control ctx"
  by (auto simp: HandleWrite_def HandleDisableUnsolicited_def HandleEnableUnsolicited_def HandleRecordCurrentTime_def bind_eq_Some_conv split: if_splits)

text \<open>Only a SELECT changes the selection.\<close>

lemma HandleNonReadResponse_control:
  "HandleNonReadResponse env header0 objects writer ctx = Some (iin, writer', ctx') \<Longrightarrow> apdu_function header0 \<noteq> FC_SELECT \<Longrightarrow>
     oc_control ctx' = oc_control ctx"
  by (cases "apdu_function header0")
    (auto simp: HandleNonReadResponse_def HandleRecordCurrentTime_def bind_eq_Some_conv split: if_splits
      dest: HandleDirectOperate_control HandleOperate_control HandleRestart_control HandleAssignClass_control other_handlers_control)

lemma HandleSelect_control:
  assumes "HandleSelect env objects writer ctx = Some (iin, writer', ctx')"
  shows "oc_control ctx' =
       (if length objects \<le> HW_Remaining writer \<and>
          (case process_commands env True DirectOperate objects (Some writer) ctx of
             None \<Rightarrow> False
           | Some (result, _, allSuccessful, _, _) \<Rightarrow> result = PR_OK \<and> allSuccessful)
        then ControlState_Select (sn_num (sol_seq (oc_sol ctx))) (oc_now ctx) objects (oc_control ctx)
        else oc_control ctx)"
proof (cases "length objects > HW_Remaining writer")
  case True
  then show ?thesis
    using assms by (simp add: HandleSelect_def)
next
  case False
  then obtain result err successful pWriter u
    where 1: "process_commands env True DirectOperate objects (Some writer) ctx = Some (result, err, successful, pWriter, ctx\<lparr>oc_application := u\<rparr>)"
    using assms process_commands_context [OF refl refl] by (fastforce simp: HandleSelect_def bind_eq_Some_conv)
  show ?thesis
    using assms False by (cases "result = PR_OK"; cases successful) (auto simp: HandleSelect_def 1 Let_def bind_eq_Some_conv)
qed

lemma RespondToNonReadRequest_control:
  assumes "RespondToNonReadRequest env request ctx = Some ctx'"
  shows "oc_control ctx' =
    (if select_succeeds env request ctx
     then ControlState_Select (sn_num (sol_seq (oc_sol ctx))) (oc_now ctx) (req_objects request) (oc_control ctx)
     else oc_control ctx)"
proof -
  define ctx0 where "ctx0 = ctx\<lparr>oc_history := RecordLastProcessedRequest (req_header request) (req_objects request) (oc_history ctx)\<rparr>"
  obtain writer writer' iin ctx1 response where writer: "response_writer request ctx = Some writer"
      and 1: "HandleNonReadResponse env (req_header request) (req_objects request) writer ctx0 = Some (iin, writer', ctx1)"
      and sent: "send_response (addr_source (req_addresses request)) response (snd (GetResponseIIN env ctx1)) = Some ctx'"
    using assms by (auto simp: RespondToNonReadRequest_def Let_def bind_eq_Some_conv ctx0_def split_beta response_writer_def)
  have "oc_control ctx' = oc_control ctx1"
    using send_response_control [OF sent] by simp
  also have "\<dots> = (if select_succeeds env request ctx
     then ControlState_Select (sn_num (sol_seq (oc_sol ctx))) (oc_now ctx) (req_objects request) (oc_control ctx)
     else oc_control ctx)"
  proof (cases "apdu_function (req_header request) = FC_SELECT")
    case True
    then have "HandleSelect env (req_objects request) writer ctx0 = Some (iin, writer', ctx1)"
      using 1 by (simp add: HandleNonReadResponse_def)
    from HandleSelect_control [OF this] show ?thesis
      using True writer by (auto simp: select_succeeds_def ctx0_def process_commands_def split: Option.bind_splits)
  next
    case False
    then show ?thesis
      using HandleNonReadResponse_control [OF 1] by (simp add: select_succeeds_def ctx0_def)
  qed
  finally show ?thesis .
qed

text \<open>Reads, confirmations and unsolicited responses leave the selection as it is.\<close>

lemma HandleRead_control: "HandleRead env objects writer ctx = Some (err, control, writer', ctx') \<Longrightarrow> oc_control ctx' = oc_control ctx"
  by (auto simp: HandleRead_def bind_eq_Some_conv split: if_splits)

lemma finish_read_response_control:
  "finish_read_response destination seq control iin response ctx = Some (k, ctx') \<Longrightarrow> oc_control ctx' = oc_control ctx"
  by (auto simp: finish_read_response_def RestartConfirmTimer_def Let_def bind_eq_Some_conv split: if_splits dest: send_response_control)

lemma RespondToReadRequest_control: "RespondToReadRequest env request ctx = Some (k, ctx') \<Longrightarrow> oc_control ctx' = oc_control ctx"
  by (auto simp: RespondToReadRequest_def Let_def bind_eq_Some_conv split_beta dest!: HandleRead_control finish_read_response_control)

lemma ContinueMultiFragResponse_control:
  "ContinueMultiFragResponse env addresses seq ctx = Some (k, ctx') \<Longrightarrow> oc_control ctx' = oc_control ctx"
  by (auto simp: ContinueMultiFragResponse_def Let_def bind_eq_Some_conv split_beta dest!: finish_read_response_control)

lemma OnConfirm_control: "OnConfirm env request ctx = Some (k, ctx') \<Longrightarrow> oc_control ctx' = oc_control ctx"
  by (auto simp: OnConfirm_def SolicitedConfirmWait_OnConfirm_def UnsolicitedConfirmWait_OnConfirm_def outstation_clear_written_def confirmed_def
      CancelConfirmTimer_def Let_def bind_eq_Some_conv split: OutstationStateKind.splits if_splits dest!: ContinueMultiFragResponse_control)

lemma OnConfirmTimeout_control: "OnConfirmTimeout ctx = Some (k, ctx') \<Longrightarrow> oc_control ctx' = oc_control ctx"
  by (auto simp: OnConfirmTimeout_def bind_eq_Some_conv split: OutstationStateKind.splits if_splits)

lemma set_deferred_control: "set_deferred request ctx = Some ctx' \<Longrightarrow> oc_control ctx' = oc_control ctx"
  by (auto simp: set_deferred_def bind_eq_Some_conv)

lemma OnReceiveSolRequest_read_control:
  assumes "OnReceiveSolRequest env request ctx = Some (k, ctx')" and "apdu_function (req_header request) = FC_READ"
  shows "oc_control ctx' = oc_control ctx"
proof -
  have "OnNewReadRequest env request ctx0 = Some (k, ctx') \<Longrightarrow> oc_control ctx' = oc_control ctx0" for ctx0
    by (auto simp: OnNewReadRequest_def CancelConfirmTimer_def split: OutstationStateKind.splits
        dest!: RespondToReadRequest_control set_deferred_control)
  moreover have "OnRepeatReadRequest env request ctx = Some (k, ctx') \<Longrightarrow> oc_control ctx' = oc_control ctx"
    by (auto simp: OnRepeatReadRequest_def RestartConfirmTimer_def split: OutstationStateKind.splits dest!: set_deferred_control)
  ultimately show ?thesis
    using assms by (fastforce simp: OnReceiveSolRequest_def ProcessNewRequest_def Let_def split: if_splits)
qed

lemma OnReceiveSolRequest_control:
  assumes "OnReceiveSolRequest env request ctx = Some r" and "apdu_function (req_header request) \<noteq> FC_READ"
  shows "oc_control (snd r) =
    (if \<not> repeats request ctx \<and> select_succeeds env request ctx
     then ControlState_Select (request_seq request) (oc_now ctx) (req_objects request) (oc_control ctx)
     else oc_control ctx)"
proof -
  have same: "select_succeeds env request (new_request request t d ctx) = select_succeeds env request ctx" for t d
    by (simp add: select_succeeds_def new_request_def response_writer_def process_commands_def split: option.split Option.bind_split)
  show ?thesis
    using OnReceiveSolRequest_cases [OF assms] by (auto simp: same dest!: RespondToNonReadRequest_control) (simp_all add: new_request_def)
qed

lemma ProcessRequest_control:
  assumes "ProcessRequest env request ctx = Some (b, ctx')" and "\<not> answered_request request" 
    and "apdu_function (req_header request) \<noteq> FC_CONFIRM"
  shows "oc_control ctx' = oc_control ctx"
proof (cases "request_UNS request")
  case False
  then obtain r where r: "OnReceiveSolRequest env request ctx = Some r" "ctx' = set_state r"
    using assms(1) by (auto simp: ProcessRequest_def)
  show ?thesis
  proof (cases "apdu_function (req_header request) = FC_READ")
    case True
    then show ?thesis
      using OnReceiveSolRequest_read_control [of env request ctx "fst r" "snd r"] r by (simp add: set_state_def)
  next
    case False
    then have "\<not> select_succeeds env request ctx"
      using assms(2,3) \<open>\<not> request_UNS request\<close> by (auto simp: answered_request_def select_succeeds_def IsNoAckFuncCode_def)
    then show ?thesis
      using OnReceiveSolRequest_control [OF r(1) False] r(2) by (simp add: set_state_def)
  qed
qed (use assms in \<open>simp add: ProcessRequest_def\<close>)

lemma ProcessConfirm_control: "ProcessConfirm env request ctx = Some (b, ctx') \<Longrightarrow> oc_control ctx' = oc_control ctx"
  by (auto simp: ProcessConfirm_def set_state_def dest: OnConfirm_control)

lemma CheckForUnsolicited_control: "CheckForUnsolicited env ctx = Some ctx' \<Longrightarrow> oc_control ctx' = oc_control ctx"
  by (auto simp: CheckForUnsolicited_def finish_unsolicited_def send_unsolicited_def BeginUnsolTx_def BeginTx_def RestartConfirmTimer_def
      Let_def bind_eq_Some_conv split_beta split: if_splits)

lemma CheckForTaskStart_control:
  assumes "CheckForTaskStart env ctx = Some ctx'"
    and "CanTransmit ctx \<Longrightarrow> dr_isSet (oc_deferred ctx) \<Longrightarrow> \<not> answered_request (deferred_request (oc_deferred ctx))"
  shows "oc_control ctx' = oc_control ctx"
proof -
  obtain ctx1 where 1: "CheckForDeferredRequest env ctx = Some ctx1" "CheckForUnsolicited env ctx1 = Some ctx'"
    using assms(1) by (auto simp: CheckForTaskStart_def bind_eq_Some_conv)
  have "ProcessDeferredRequest env request ctx = Some (b, ctx2) \<Longrightarrow> \<not> answered_request request \<Longrightarrow> oc_control ctx2 = oc_control ctx" for request b ctx2
    by (auto simp: ProcessDeferredRequest_def bind_eq_Some_conv split: if_splits dest: ProcessConfirm_control ProcessRequest_control)
  then have "oc_control ctx1 = oc_control ctx"
    using 1(1) assms(2) by (auto simp: CheckForDeferredRequest_def bind_eq_Some_conv split: if_splits)
  then show ?thesis
    using CheckForUnsolicited_control [OF 1(2)] by simp
qed

lemma ProcessMessage_control:
  assumes "ProcessMessage env m ctx = Some (b, ctx')" and "processed_request (Ev_Receive m) ctx = None" and "oc_isOnline ctx"
  shows "oc_control ctx' = oc_control ctx"
proof -
  have objects: "ProcessObjects env request ctx = Some (b, ctx') \<Longrightarrow> \<not> answered_request request \<or> oc_isTransmitting ctx \<Longrightarrow>
      oc_control ctx' = oc_control ctx" for request
    by (auto simp: ProcessObjects_def ProcessRequestNoAck_def bind_eq_Some_conv split: if_splits
        dest: ProcessConfirm_control ProcessRequest_control HandleDirectOperate_control set_deferred_control)
  show ?thesis
    using assms
    by (auto simp: ProcessMessage_def processed_request_def received_request_def message_addressed_def Let_def bind_eq_Some_conv
        split: option.splits if_splits dest: objects)
qed

lemma read_not_answered: "deferred_read ctx \<Longrightarrow> dr_isSet (oc_deferred ctx) \<Longrightarrow> \<not> answered_request (deferred_request (oc_deferred ctx))"
  by (simp add: deferred_read_def answered_request_def deferred_request_def)

lemma OnConfirmTimeout_fields:
  "OnConfirmTimeout ctx = Some r \<Longrightarrow> oc_deferred (set_state r) = oc_deferred ctx \<and> CanTransmit (set_state r) = CanTransmit ctx \<and>
     oc_control (set_state r) = oc_control ctx"
  by (auto simp: OnConfirmTimeout_def set_state_def CanTransmit_def bind_eq_Some_conv split: OutstationStateKind.splits if_splits)

text \<open>So does every event for which no request is processed.\<close>

lemma unprocessed_control:
  assumes inv: "outstation_inv cap db_inv ctx"
    and "station_handle exceeds (station_env conv ch app) ev ctx = Some ctx'" and "processed_request ev ctx = None"
  shows "oc_control ctx' = oc_control ctx"
proof -
  let ?env = "station_env conv ch app"
  have res: "resources_ok cap db_inv ctx" "control_ok (oc_state ctx) ctx"
    using outstation_invD [OF inv] by simp_all
  have idle: "deferred_read ctx" if "CanTransmit ctx"
    using inv that by (simp add: outstation_inv_def settled_deferred)
  show ?thesis
  proof (cases ev)
    case Ev_LowerLayerUp
    then show ?thesis
      using assms(2) res(2) by (auto simp: OnLowerLayerUp_def control_ok_def split: if_splits dest: CheckForTaskStart_control)
  next
    case Ev_LowerLayerDown
    then show ?thesis
      using assms(2) by (auto simp: OnLowerLayerDown_def CancelConfirmTimer_def bind_eq_Some_conv split: if_splits)
  next
    case Ev_TxReady
    then show ?thesis
      using assms(2,3) by (auto simp: OnTxReady_def processed_request_def split: if_splits dest!: CheckForTaskStart_control)
  next
    case (Ev_Receive m)
    show ?thesis
    proof (cases "oc_isOnline ctx")
      case True
      obtain b ctx1 where 1: "ProcessMessage ?env m ctx = Some (b, ctx1)" "\<not> oc_isTransmitting ctx \<and> deferred_read ctx \<longrightarrow> deferred_read ctx1"
        using station.ProcessMessage_ok [OF res True, of conv ch app m] by (auto elim!: succeedsE)
      have 2: "CheckForTaskStart ?env ctx1 = Some ctx'"
        using assms(2) 1(1) True by (simp add: Ev_Receive OnReceive_def)
      have "oc_isTransmitting ctx1" if "oc_isTransmitting ctx"
        using ProcessMessage_transmitting [OF res(1) that, of ?env m] 1(1) that by (simp add: channels_def)
      then have "oc_control ctx' = oc_control ctx1"
        using 1(2) idle True by (intro CheckForTaskStart_control [OF 2] read_not_answered) (auto simp: CanTransmit_def)
      then show ?thesis
        using ProcessMessage_control [OF 1(1)] assms(3) True by (simp add: Ev_Receive)
    qed (use assms(2) in \<open>simp add: Ev_Receive OnReceive_def\<close>)
  next
    case Ev_ConfirmTimer
    then obtain r where r: "OnConfirmTimeout (ctx\<lparr>oc_confirmTimer := TimerRef_fire (oc_confirmTimer ctx)\<rparr>) = Some r"
        "CheckForTaskStart ?env (set_state r) = Some ctx'"
      using assms(2) by (auto simp: ConfirmTimer_fires_def bind_eq_Some_conv)
    have "oc_control ctx' = oc_control (set_state r)"
      using OnConfirmTimeout_fields [OF r(1)] idle by (intro CheckForTaskStart_control [OF r(2)] read_not_answered) (simp_all add: CanTransmit_def deferred_read_def)
    then show ?thesis
      using OnConfirmTimeout_fields [OF r(1)] by simp
  next
    case (Ev_Apply us)
    show ?thesis
    proof (cases "us = []")
      case False
      then obtain db eb where 1: "CheckForTaskStart ?env (ctx\<lparr>oc_database := db, oc_eventBuffer := eb\<rparr>) = Some ctx'"
        using assms(2) by (auto simp: Ev_Apply OutstationStack_Apply_def bind_eq_Some_conv)
      show ?thesis
        using idle CheckForTaskStart_control [OF 1] by (simp add: CanTransmit_def read_not_answered)
    qed (use assms(2) in \<open>simp add: Ev_Apply OutstationStack_Apply_def\<close>)
  qed (use assms(2) in \<open>auto simp: SetRestartIIN_def\<close>)
qed


section \<open>Select before operate\<close>

text \<open>
  The history of a station: the SELECT requests that have succeeded, with the time of each, the latest first.
  It is read off the events that have happened, and is no part of the state.
\<close>

type_synonym selection = "MonotonicTimestamp \<times> ParsedRequest"

definition selections_after :: "'u station_env \<Rightarrow> station_event \<Rightarrow> 'u station \<Rightarrow> selection list \<Rightarrow> selection list" where
  "selections_after env ev ctx selections =
     (case processed_request ev ctx of
        Some request \<Rightarrow>
          if \<not> repeats request ctx \<and> select_succeeds env request ctx then (oc_now ctx, request) # selections else selections
      | None \<Rightarrow> selections)"

inductive station_history ::
    "(u8 list \<Rightarrow> u8 list \<Rightarrow> u8 list \<Rightarrow> bool) \<Rightarrow> 'u station_env \<Rightarrow> EventBufferConfig \<Rightarrow> selection list \<Rightarrow> 'u station \<Rightarrow> bool"
  for exceeds env cfg where
  history_start: "station_start cfg ctx \<Longrightarrow> station_history exceeds env cfg [] ctx"
| history_step: "station_history exceeds env cfg selections ctx \<Longrightarrow> station_enabled ev ctx \<Longrightarrow> station_handle exceeds env ev ctx = Some ctx' \<Longrightarrow>
    station_history exceeds env cfg (selections_after env ev ctx selections) ctx'"

lemma station_history_reachable: "station_history exceeds env cfg selections ctx \<Longrightarrow> station_reachable exceeds env cfg ctx"
  by (induction rule: station_history.induct) (auto intro: station_reachable.intros)

text \<open>Every reachable state has a history.\<close>

lemma station_reachable_history: "station_reachable exceeds env cfg ctx \<Longrightarrow> \<exists>selections. station_history exceeds env cfg selections ctx"
  by (induction rule: station_reachable.induct) (auto intro: station_history.intros)

text \<open>The selection of the station is that of the latest SELECT.\<close>

fun selection_of :: "selection list \<Rightarrow> ControlState" where
  "selection_of [] = ControlState_init"
| "selection_of ((t, select) # _) = ControlState_Select (request_seq select) t (req_objects select) ControlState_init"

lemma ControlState_Select_forgets:
  "ControlState_Select s t objects c = ControlState_Select s t objects ControlState_init"
  by (simp add: ControlState_Select_def)

lemma station_history_control: 
  "station_history exceeds (station_env conv ch app) cfg selections ctx \<Longrightarrow> oc_control ctx = selection_of selections"
proof (induction rule: station_history.induct)
  case (history_start ctx)
  then show ?case
    by (auto simp: station_start_def OContext_of_def)
next
  case (history_step selections ctx ev ctx')
  have inv: "outstation_inv (max_events cfg) db_inv ctx"
    by (rule station_reachable_inv [OF station_history_reachable [OF history_step.hyps(1)]])
  show ?case
  proof (cases "processed_request ev ctx")
    case None
    then show ?thesis
      using unprocessed_control [OF inv history_step.hyps(3) None] history_step.IH by (simp add: selections_after_def)
  next
    case (Some request)
    obtain r d where r: "OnReceiveSolRequest (station_env conv ch app) request (ctx\<lparr>oc_isTransmitting := False\<rparr>) = Some r"
        "ctx' = (set_state r)\<lparr>oc_deferred := d\<rparr>" "answered_request request"
      by (rule processed_step [OF Some history_step.hyps(3)])
    have "select_succeeds (station_env conv ch app) request (ctx\<lparr>oc_isTransmitting := False\<rparr>) = select_succeeds (station_env conv ch app) request ctx"
      by (simp add: select_succeeds_def response_writer_def process_commands_def split: option.split Option.bind_split)
    moreover have "repeats request (ctx\<lparr>oc_isTransmitting := False\<rparr>) = repeats request ctx"
      by (simp add: repeats_def)
    ultimately have "oc_control ctx' =
        (if \<not> repeats request ctx \<and> select_succeeds (station_env conv ch app) request ctx
         then ControlState_Select (request_seq request) (oc_now ctx) (req_objects request) (oc_control ctx)
         else oc_control ctx)"
      using OnReceiveSolRequest_control [OF r(1)] r(2,3) by (simp add: answered_request_def set_state_def)
    then show ?thesis
      using history_step.IH ControlState_Select_forgets [of _ _ _ "oc_control ctx"] by (simp add: selections_after_def Some)
  qed
qed

text \<open>A request that the latest SELECT permits: the next sequence number, in time, and the same objects, as their length and their CRC show.\<close>

fun selected_by :: "selection list \<Rightarrow> ParsedRequest \<Rightarrow> 'u station \<Rightarrow> bool" where
  "selected_by [] request ctx = False"
| "selected_by ((t, select) # _) request ctx \<longleftrightarrow>
     request_seq request = AppSeqNum_Next (request_seq select) \<and> t \<le> oc_now ctx \<and> oc_now ctx - t < op_selectTimeout (oc_params ctx) \<and>
     length (req_objects request) = length (req_objects select) \<and> CalcCrc (req_objects request) = CalcCrc (req_objects select)"

lemma CalcCrc_Nil: "CalcCrc [] = 0xFFFF"
  by code_simp

lemma selected_by_valid:
  "ValidateSelection (request_seq request) (oc_now ctx) (op_selectTimeout (oc_params ctx)) (req_objects request) (selection_of selections) = CS_SUCCESS \<Longrightarrow>
     selected_by selections request ctx"
  by (cases "(selections, request, ctx)" rule: selected_by.cases)
    (auto simp: ValidateSelection_def ControlState_init_def ControlState_Select_def CalcCrc_Nil Let_def split: if_splits)

lemma HandleOperate_refused:
  "HandleOperate env objects writer ctx = Some (iin, writer', ctx') \<Longrightarrow>
     ValidateSelection (sn_num (sol_seq (oc_sol ctx))) (oc_now ctx) (op_selectTimeout (oc_params ctx)) objects (oc_control ctx) \<noteq> CS_SUCCESS \<Longrightarrow>
     ctx' = ctx"
  by (auto simp: HandleOperate_def HandleCommandWithConstant_def Let_def bind_eq_Some_conv split: if_splits)

lemma RespondToNonReadRequest_refused:
  assumes "RespondToNonReadRequest env request ctx = Some ctx'" and "apdu_function (req_header request) = FC_OPERATE"
    and "ValidateSelection (sn_num (sol_seq (oc_sol ctx))) (oc_now ctx) (op_selectTimeout (oc_params ctx)) (req_objects request) (oc_control ctx) \<noteq> CS_SUCCESS"
  shows "oc_application ctx' = oc_application ctx \<and> oc_database ctx' = oc_database ctx \<and> oc_control ctx' = oc_control ctx"
proof -
  define ctx0 where "ctx0 = ctx\<lparr>oc_history := RecordLastProcessedRequest (req_header request) (req_objects request) (oc_history ctx)\<rparr>"
  obtain writer writer' iin ctx1 response' where "HandleOperate env (req_objects request) writer ctx0 = Some (iin, writer', ctx1)"
      and sent: "send_response (addr_source (req_addresses request)) response' (snd (GetResponseIIN env ctx1)) = Some ctx'"
    using assms(1,2) by (auto simp: RespondToNonReadRequest_def HandleNonReadResponse_def Let_def bind_eq_Some_conv ctx0_def split_beta)
  then have "ctx1 = ctx0"
    using HandleOperate_refused [of env "req_objects request" writer ctx0] assms(3) by (simp add: ctx0_def)
  with sent show ?thesis
    by (auto simp: send_response_def BeginResponseTx_def BeginTx_def outstation_emit_def GetResponseIIN_def GetDynamicIIN_def Let_def bind_eq_Some_conv
        split_beta ctx0_def)
qed

text \<open>A processed request is answered with one transmission: that of the last response, which then is the response to this request.\<close>

definition gets_answer :: "ParsedRequest \<Rightarrow> ('x, 'd, 'u) OContext \<Rightarrow> ('x, 'd, 'u) OContext \<Rightarrow> bool" where
  "gets_answer request ctx ctx' \<longleftrightarrow> repeats request ctx' \<and> setting ctx' = setting ctx \<and> oc_isTransmitting ctx' \<and>
     (dr_isSet (oc_deferred ctx') \<longrightarrow> dr_isSet (oc_deferred ctx)) \<and>
     transmitted ctx' = \<lparr>msg_addresses = \<lparr>addr_source = addr_source (oc_addresses ctx), addr_destination = addr_source (req_addresses request)\<rparr>,
       msg_payload = GetLastResponse (sol_tx (oc_sol ctx'))\<rparr> # transmitted ctx"

lemma transmitted_update [simp]:
  "transmitted (ctx\<lparr>oc_deferred := d\<rparr>) = transmitted ctx" "transmitted (set_state r) = transmitted (snd r)"
  "transmitted (ctx\<lparr>oc_confirmTimer := t\<rparr>) = transmitted ctx" "transmitted (ctx\<lparr>oc_isTransmitting := b\<rparr>) = transmitted ctx"
  "setting (ctx\<lparr>oc_deferred := d\<rparr>) = setting ctx" "setting (ctx\<lparr>oc_confirmTimer := t\<rparr>) = setting ctx"
  "setting (ctx\<lparr>oc_isTransmitting := b\<rparr>) = setting ctx"
  by (simp_all add: transmitted_def setting_def set_state_def)

lemma setting_addresses: "setting ctx = setting ctx' \<Longrightarrow> oc_addresses ctx = oc_addresses ctx'"
  by (simp add: setting_def)

lemma set_state_fields [simp]:
  "oc_application (set_state r) = oc_application (snd r)" "oc_database (set_state r) = oc_database (snd r)"
  "oc_eventBuffer (set_state r) = oc_eventBuffer (snd r)" "oc_control (set_state r) = oc_control (snd r)"
  "oc_history (set_state r) = oc_history (snd r)" "oc_sol (set_state r) = oc_sol (snd r)" "oc_addresses (set_state r) = oc_addresses (snd r)"
  "setting (set_state r) = setting (snd r)" "oc_isTransmitting (set_state r) = oc_isTransmitting (snd r)"
  by (simp_all add: set_state_def setting_def)

lemma resend_last_answered: "repeats request ctx \<Longrightarrow> gets_answer request ctx (resend_last request ctx)"
  by (simp add: gets_answer_def repeats_def)

lemma RespondToNonReadRequest_answered:
  assumes "resources_ok cap db_inv ctx" and "sn_num (sol_seq (oc_sol ctx)) = request_seq request"
    and "RespondToNonReadRequest (station_env conv ch app) request ctx = Some c"
  shows "gets_answer request ctx c"
proof -
  have "sent cap db_inv ctx c" "replied (addr_source (req_addresses request)) ctx c"
      "oc_history c = RecordLastProcessedRequest (req_header request) (req_objects request) (oc_history ctx)"
    using station.RespondToNonReadRequest_ok [OF assms(1), of conv ch app request] assms(3) by simp_all
  then show ?thesis
    using assms(2)
    by (simp add: gets_answer_def replied_def repeats_def sent_def setting_def FullyEqualsLastRequest_def EqualsLastObjects_def
        RecordLastProcessedRequest_def APDUHeader_Equals_def)
qed

text \<open>The answer of a station, to a repeated request and to a new one.\<close>

lemma processed_answer:
  assumes inv: "outstation_inv cap db_inv ctx"
    and "processed_request ev ctx = Some request" and "station_handle exceeds (station_env conv ch app) ev ctx = Some ctx'"
  obtains (repeated) "repeats request ctx" "gets_answer request ctx ctx'"
      "oc_application ctx' = oc_application ctx" "oc_database ctx' = oc_database ctx" "oc_eventBuffer ctx' = oc_eventBuffer ctx"
      "oc_control ctx' = oc_control ctx" "GetLastResponse (sol_tx (oc_sol ctx')) = GetLastResponse (sol_tx (oc_sol ctx))"
  | (new) ctx0 c where "\<not> repeats request ctx" "gets_answer request ctx ctx'"
      "RespondToNonReadRequest (station_env conv ch app) request ctx0 = Some c"
      "\<exists>t d. ctx0 = new_request request t d (ctx\<lparr>oc_isTransmitting := False\<rparr>)"
      "oc_application ctx' = oc_application c" "oc_database ctx' = oc_database c" "oc_control ctx' = oc_control c"
proof -
  define ctxf where "ctxf = ctx\<lparr>oc_isTransmitting := False\<rparr>"
  obtain r d where r: "OnReceiveSolRequest (station_env conv ch app) request ctxf = Some r"
      "ctx' = (set_state r)\<lparr>oc_deferred := d\<rparr>" "answered_request request" "oc_isTransmitting (snd r)" "dr_isSet d \<longrightarrow> dr_isSet (oc_deferred (snd r))"
    by (rule processed_step [OF assms(2,3)]) (simp add: ctxf_def)
  have same: "repeats request ctxf = repeats request ctx"
    by (simp add: ctxf_def repeats_def)
  have answer: "gets_answer request ctx ctx'" if "gets_answer request ctx0 (snd r)" "transmitted ctx0 = transmitted ctx" "setting ctx0 = setting ctx"
      "dr_isSet (oc_deferred ctx0) \<longrightarrow> dr_isSet (oc_deferred ctx)" for ctx0
    using that r(4,5) setting_addresses [OF that(3)] by (simp add: gets_answer_def r(2) repeats_def)
  show ?thesis
  proof (cases "repeats request ctx")
    case True
    then obtain k t where kt: "r = (k, resend_last request (ctxf\<lparr>oc_confirmTimer := t\<rparr>))"
      using OnReceiveSolRequest_cases [OF r(1)] r(3) same by (auto simp: answered_request_def)
    have "repeats request (ctxf\<lparr>oc_confirmTimer := t\<rparr>)"
      using True same by (simp add: repeats_def)
    then have "gets_answer request ctx ctx'"
      by (intro answer [of "ctxf\<lparr>oc_confirmTimer := t\<rparr>"]) (simp_all add: kt resend_last_answered ctxf_def)
    then show ?thesis
      by (rule repeated [OF True]) (simp_all add: r(2) kt ctxf_def)
  next
    case False
    then obtain k t d0 c where c: "RespondToNonReadRequest (station_env conv ch app) request (new_request request t d0 ctxf) = Some c" "r = (k, c)"
        "dr_isSet d0 \<longrightarrow> dr_isSet (oc_deferred ctxf)"
      using OnReceiveSolRequest_cases [OF r(1)] r(3) same by (auto simp: answered_request_def)
    have "resources_ok cap db_inv (new_request request t d0 ctxf)"
      using inv by (simp add: new_request_def ctxf_def outstation_inv_def resources_ok_def Let_def)
    then have "gets_answer request (new_request request t d0 ctxf) c"
      using RespondToNonReadRequest_answered [OF _ _ c(1)] by (simp add: new_request_def)
    then have "gets_answer request ctx ctx'"
      by (intro answer [of "new_request request t d0 ctxf"]) (use c(3) in \<open>simp_all add: c(2) new_request_def ctxf_def transmitted_def setting_def\<close>)
    then show ?thesis
      by (rule new [OF False _ c(1)]) (auto simp: r(2) c(2) ctxf_def)
  qed
qed

text \<open>C3: An OPERATE request operates nothing unless the latest SELECT that has succeeded, since the station started,
  had the sequence number before it, was executed within the time limit, and named objects of the same length and CRC:
  otherwise it is answered, and the application is not called, and neither the database nor the selection changes.
  A SELECT has succeeded when it was executed, its objects could be echoed and were parsed, and the application
  selected every control that it was asked to select.\<close>

theorem operate_needs_selection:
  assumes "station_history exceeds (station_env conv commandHandler application) cfg selections ctx"
    and "processed_request ev ctx = Some request" and "apdu_function (req_header request) = FC_OPERATE"
    and "\<not> selected_by selections request ctx"
    and "station_handle exceeds (station_env conv commandHandler application) ev ctx = Some ctx'"
  shows "oc_application ctx' = oc_application ctx \<and> oc_database ctx' = oc_database ctx \<and> oc_control ctx' = oc_control ctx \<and>
    (\<exists>response. transmitted ctx' = response # transmitted ctx)"
  using station_reachable_inv [OF station_history_reachable [OF assms(1)]] assms(2,5)
proof (cases rule: processed_answer)
  case (new ctx0 c)
  obtain t d where ctx0: "ctx0 = new_request request t d (ctx\<lparr>oc_isTransmitting := False\<rparr>)"
    using new(4) by blast
  have "ValidateSelection (sn_num (sol_seq (oc_sol ctx0))) (oc_now ctx0) (op_selectTimeout (oc_params ctx0)) (req_objects request) (oc_control ctx0) \<noteq>
      CS_SUCCESS"
    using selected_by_valid [of request ctx selections] assms(4) station_history_control [OF assms(1)] by (auto simp: ctx0 new_request_def)
  from RespondToNonReadRequest_refused [OF new(3) assms(3) this] show ?thesis
    using new(2,5-7) by (simp add: ctx0 new_request_def gets_answer_def)
qed (simp add: gets_answer_def)

section \<open>Repeated requests\<close>











section \<open>Examples\<close>


definition demo_operate :: Message where
  "demo_operate = \<lparr>msg_addresses = \<lparr>addr_source = 1, addr_destination = 10\<rparr>,
     msg_payload = [0xC1, 0x04, 0x0C, 0x01, 0x17, 0x01, 0x00, 0x03, 0x01, 0x64, 0x00, 0x00, 0x00, 0x64, 0x00, 0x00, 0x00, 0x00]\<rparr>"

text \<open>The station after the layer below has come up.\<close>

definition demo_open :: "unit station" where
  "demo_open = (demo_station False)\<lparr>oc_isOnline := True\<rparr>"

lemma demo_open_step: "station_handle demo_exceeds demo_env Ev_LowerLayerUp (demo_station False) = Some demo_open"
  by (simp only: demo_opened demo_open_def)

lemma demo_open_history: "station_history demo_exceeds demo_env demo_events [] demo_open"
proof -
  have "station_history demo_exceeds demo_env demo_events [] (demo_station False)"
    unfolding demo_station_def by (intro station_history.history_start station_startI demo_points_inv) simp
  from station_history.history_step [OF this _ demo_open_step] show ?thesis
    by (simp add: selections_after_def processed_request_def)
qed

lemma demo_operate_received:
  "received_request demo_operate = Some \<lparr>req_addresses = \<lparr>addr_source = 1, addr_destination = 10\<rparr>,
     req_header = \<lparr>apdu_control = \<lparr>acf_FIR = True, acf_FIN = True, acf_CON = False, acf_UNS = False, acf_SEQ = 1\<rparr>, apdu_function = FC_OPERATE\<rparr>,
     req_objects = [0x0C, 0x01, 0x17, 0x01, 0x00, 0x03, 0x01, 0x64, 0x00, 0x00, 0x00, 0x64, 0x00, 0x00, 0x00, 0x00]\<rparr>"
  by code_simp

lemma demo_operate_processed:
  "processed_request (Ev_Receive demo_operate) demo_open = received_request demo_operate"
  by (simp add: processed_request_def demo_operate_received message_addressed_def IsFirAndFin_def answered_request_def request_UNS_def IsNoAckFuncCode_def)
    (simp add: demo_open_def demo_operate_def demo_station_def OContext_of_def)

theorem operate_needs_selection_witness:
  "\<exists>ctx'. station_handle demo_exceeds demo_env (Ev_Receive demo_operate) demo_open = Some ctx' \<and>
     oc_control ctx' = oc_control demo_open \<and> (\<exists>response. transmitted ctx' = response # transmitted demo_open)"
proof -
  obtain ctx' where ctx': "station_handle demo_exceeds demo_env (Ev_Receive demo_operate) demo_open = Some ctx'"
    by (rule demo_handles [OF station_history_reachable [OF demo_open_history], of "Ev_Receive demo_operate"]) simp
  then show ?thesis
    using operate_needs_selection [OF demo_open_history demo_operate_processed [unfolded demo_operate_received] _ _ ctx'] ctx' by (auto simp del: station_handle.simps)
qed



end
