(* ===== verification/RequestBuilding.thy ===== *)
theory RequestBuilding
  imports OutstationContext WriteParse
begin

text \<open>
  The requests of a master (\<open>app/APDUBuilders\<close>), and what an outstation makes of them: the request
  that enables unsolicited responses enables exactly its classes, and the request that clears the
  restart indication clears it and nothing else.
\<close>

section \<open>Requests\<close>

text \<open>\<open>APDURequest\<close> adds nothing to \<open>APDUWrapper\<close>.\<close>

definition APDURequest_of :: "wslice \<Rightarrow> APDUWrapper option" where
  "APDURequest_of buffer = APDUWrapper_of buffer"

definition WriteClassHeaders :: "ClassField \<Rightarrow> HeaderWriter \<Rightarrow> (bool \<times> HeaderWriter) option" where
  "WriteClassHeaders classes writer = do {
     (ok, writer) \<leftarrow> (if HasClass1 classes then WriteHeader 60 2 QC_ALL_OBJECTS writer else Some (True, writer));
     if \<not> ok then Some (False, writer) else do {
     (ok, writer) \<leftarrow> (if HasClass2 classes then WriteHeader 60 3 QC_ALL_OBJECTS writer else Some (True, writer));
     if \<not> ok then Some (False, writer) else do {
     (ok, writer) \<leftarrow> (if HasClass3 classes then WriteHeader 60 4 QC_ALL_OBJECTS writer else Some (True, writer));
     if \<not> ok then Some (False, writer) else do {
     (ok, writer) \<leftarrow> (if HasClass0 classes then WriteHeader 60 1 QC_ALL_OBJECTS writer else Some (True, writer));
     Some (ok, writer) }}}}"

definition ClassRequest :: "FunctionCode \<Rightarrow> ClassField \<Rightarrow> u8 \<Rightarrow> APDUWrapper \<Rightarrow> APDUWrapper option" where
  "ClassRequest fc classes seq request = do {
     request \<leftarrow> SetControl ((AppControlField_init True True False False)\<lparr>acf_SEQ := seq\<rparr>) request;
     request \<leftarrow> SetFunction fc request;
     (_, writer) \<leftarrow> WriteClassHeaders classes (GetWriter request);
     Some (put_writer writer request) }"

definition ReadIntegrity :: "ClassField \<Rightarrow> u8 \<Rightarrow> APDUWrapper \<Rightarrow> APDUWrapper option" where
  "ReadIntegrity classes seq request = ClassRequest FC_READ classes seq request"

definition ReadAllObjects :: "u8 \<Rightarrow> u8 \<Rightarrow> u8 \<Rightarrow> APDUWrapper \<Rightarrow> APDUWrapper option" where
  "ReadAllObjects grp variation seq request = do {
     request \<leftarrow> SetControl ((AppControlField_init True True False False)\<lparr>acf_SEQ := seq\<rparr>) request;
     request \<leftarrow> SetFunction FC_READ request;
     (_, writer) \<leftarrow> WriteHeader grp variation QC_ALL_OBJECTS (GetWriter request);
     Some (put_writer writer request) }"

definition DisableUnsolicited :: "u8 \<Rightarrow> APDUWrapper \<Rightarrow> APDUWrapper option" where
  "DisableUnsolicited seq request = ClassRequest FC_DISABLE_UNSOLICITED (ClassField_of_mask EVENT_CLASSES) seq request"

definition EnableUnsolicited :: "ClassField \<Rightarrow> u8 \<Rightarrow> APDUWrapper \<Rightarrow> APDUWrapper option" where
  "EnableUnsolicited classes seq request = ClassRequest FC_ENABLE_UNSOLICITED classes seq request"

definition ClearRestartIIN :: "u8 \<Rightarrow> APDUWrapper \<Rightarrow> APDUWrapper option" where
  "ClearRestartIIN seq request = do {
     request \<leftarrow> SetFunction FC_WRITE request;
     request \<leftarrow> SetControl ((AppControlField_init True True False False)\<lparr>acf_SEQ := seq\<rparr>) request;
     (iter, writer) \<leftarrow> IterateOverSingleBitfield IT_UInt8 80 1 QC_UINT8_START_STOP 7 (GetWriter request);
     (_, iter, writer) \<leftarrow> Bitfield_Write False iter writer;
     writer \<leftarrow> Bitfield_finish iter writer;
     Some (put_writer writer request) }"


section \<open>The bytes of a request\<close>

definition request_wrapper :: "u8 \<Rightarrow> u8 \<Rightarrow> u8 list \<Rightarrow> u8 list \<Rightarrow> APDUWrapper" where
  "request_wrapper c f body rest =
     \<lparr>apw_valid = True, apw_buffer = mkw [] (c # f # body @ rest) [], apw_rem_pos = 2 + length body, apw_rem_size = length rest\<rparr>"

lemma APDURequest_of_buffer:
  assumes "2 \<le> length buffer"
  shows "APDURequest_of (GetWSlice buffer) = Some (request_wrapper (buffer ! 0) (buffer ! 1) [] (drop 2 buffer))"
proof -
  obtain a b rest where buffer: "buffer = a # b # rest"
    using assms by (auto simp: numeral_2_eq_2 Suc_le_length_iff)
  show ?thesis
    by (simp add: buffer APDURequest_of_def APDUWrapper_of_def GetWSlice_def remaining_advance_def Let_def request_wrapper_def mkw_def)
qed

lemma request_setters:
  "SetControl control (request_wrapper c f body rest) = Some (request_wrapper (AppControlField_ToByte control) f body rest)"
  "SetFunction fc (request_wrapper c f body rest) = Some (request_wrapper c (FunctionCodeToType fc) body rest)"
  by (simp_all add: SetControl_def SetFunction_def request_wrapper_def wslice_store_mkw list_store_def)

lemma request_writer: "GetWriter (request_wrapper c f [] rest) = hwm [c, f] rest [] None"
  by (simp add: GetWriter_def request_wrapper_def HeaderWriter_of_def hwm_def mkw_def)

lemma request_put_writer:
  "put_writer (hwm ([c, f] @ body) rest' [] m) (request_wrapper c f [] rest) = request_wrapper c f body rest'"
  if "length rest = length body + length rest'"
  using that by (simp add: put_writer_def request_wrapper_def hwm_def mkw_def)

lemma request_parsed:
  assumes "AppControlField_of c = control" and "FunctionCodeFromType f = fc"
  shows "ParseRequest (APDU_ToRSlice (request_wrapper c f body rest)) = Some (Some (\<lparr>apdu_control = control, apdu_function = fc\<rparr>, body))"
  using assms by (simp add: APDU_ToRSlice_def APDU_Size_def request_wrapper_def WSlice_ToRSlice_mkw RSlice_Take_def ParseRequest_def REQUEST_SIZE_def
      rslice_at_def RSlice_Skip_def)


section \<open>Class headers\<close>

definition class_header :: "bool \<Rightarrow> u8 \<Rightarrow> u8 list" where
  "class_header present variation = (if present then [60, variation, 6] else [])"

definition class_headers :: "ClassField \<Rightarrow> u8 list" where
  "class_headers classes =
     class_header (HasClass1 classes) 2 @ class_header (HasClass2 classes) 3 @ class_header (HasClass3 classes) 4 @ class_header (HasClass0 classes) 1"

lemma length_class_headers: "length (class_headers classes) \<le> 12"
  by (simp add: class_headers_def class_header_def)

lemma class_header_step:
  assumes "length (class_header present variation) \<le> length room"
  shows "(if present then WriteHeader 60 variation QC_ALL_OBJECTS (hwm pre room post m) else Some (True, hwm pre room post m)) =
    Some (True, hwm (pre @ class_header present variation) (drop (length (class_header present variation)) room) post m)"
  using assms by (simp add: class_header_def WriteHeader_hwm numeral_3_eq_3 split: if_splits)

lemma WriteClassHeaders_hwm:
  assumes "12 \<le> length room"
  shows "WriteClassHeaders classes (hwm pre room post m) =
    Some (True, hwm (pre @ class_headers classes) (drop (length (class_headers classes)) room) post m)"
proof -
  have "length (class_header present variation) \<le> 3" for present variation
    by (simp add: class_header_def)
  note le = this [of "HasClass1 classes" 2] this [of "HasClass2 classes" 3] this [of "HasClass3 classes" 4] this [of "HasClass0 classes" 1]
  show ?thesis
    using assms le by (simp add: WriteClassHeaders_def class_header_step class_headers_def add.commute add.left_commute)
qed

lemma ClassRequest_built:
  assumes "14 \<le> length buffer" and "unat seq < 16"
  shows "\<exists>request. (do { request \<leftarrow> APDURequest_of (GetWSlice buffer); ClassRequest fc classes seq request }) = Some request \<and>
    ParseRequest (APDU_ToRSlice request) =
      Some (Some (\<lparr>apdu_control = \<lparr>acf_FIR = True, acf_FIN = True, acf_CON = False, acf_UNS = False, acf_SEQ = seq\<rparr>, apdu_function = fc\<rparr>,
        class_headers classes))"
proof -
  define control where "control = (AppControlField_init True True False False)\<lparr>acf_SEQ := seq\<rparr>"
  define rest where "rest = drop 2 buffer"
  define body where "body = class_headers classes"
  have len: "12 \<le> length rest" "length rest = length body + length (drop (length body) rest)"
    using assms(1) length_class_headers [of classes] by (simp_all add: rest_def body_def)
  have "ClassRequest fc classes seq (request_wrapper (buffer ! 0) (buffer ! 1) [] rest) =
      Some (request_wrapper (AppControlField_ToByte control) (FunctionCodeToType fc) body (drop (length body) rest))"
    using WriteClassHeaders_hwm [OF len(1), of classes] request_put_writer [OF len(2)]
    by (simp add: ClassRequest_def request_setters request_writer flip: control_def body_def)
  moreover have "AppControlField_of (AppControlField_ToByte control) = control"
    by (rule AppControlField_roundtrip) (use assms(2) in \<open>simp add: control_def\<close>)
  ultimately show ?thesis
    using assms(1) APDURequest_of_buffer [of buffer] request_parsed [OF _ FunctionCode_roundtrip [of fc]]
    by (auto simp: control_def AppControlField_init_def simp flip: rest_def body_def)
qed

section \<open>What the outstation does\<close>

lemma class_masks_Has:
  "HasClass0 f = bit f 0" "HasClass1 f = bit f 1" "HasClass2 f = bit f 2" "HasClass3 f = bit f 3"
proof -
  have "f AND 2 ^ k \<noteq> 0 \<longleftrightarrow> bit f k" if "k < 8" for k
    using that by (simp add: and_exp_eq_0_iff_not_bit)
  from this [of 0] this [of 1] this [of 2] this [of 3] show "HasClass0 f = bit f 0" "HasClass1 f = bit f 1" "HasClass2 f = bit f 2" "HasClass3 f = bit f 3"
    by (simp_all add: HasClass0_def HasClass1_def HasClass2_def HasClass3_def class_masks)
qed

lemma class_objects_known: "v \<in> {1, 2, 3, 4} \<Longrightarrow> gv 60 (unat (v :: u8)) \<in> set GroupVariation_values"
  unfolding GroupVariation_values_def gv_def by auto

lemma all_objects_parsed:
  assumes "gv (unat grp) (unat variation) \<in> set GroupVariation_values"
  shows "APDUParser_ParseHeader True (Some allow_all) True count [grp, variation, 6] =
    Some (PR_OK, [], [OnAllObjects (written_header grp variation QC_ALL_OBJECTS count)])"
proof (rule ParseHeader_white_list_complete)
  have "APDUParser_ParseHeader True None True count (grp # variation # QualifierCodeToType QC_ALL_OBJECTS # []) =
      ParseQualifier True (written_header grp variation QC_ALL_OBJECTS count) True []"
    by (rule ParseHeader_bytes [OF assms])
  then show "APDUParser_ParseHeader True None True count [grp, variation, 6] =
      Some (PR_OK, [], [OnAllObjects (written_header grp variation QC_ALL_OBJECTS count)])"
    by (simp add: QualifierCodeToType_def ParseQualifier_def written_header_qualifier QualifierCodeFromType_def HandleAllObjectsHeader_def)
qed (simp add: header_allowed_def allow_all_def)

definition class_variations :: "ClassField \<Rightarrow> u8 list" where
  "class_variations classes =
     (if HasClass1 classes then [2] else []) @ (if HasClass2 classes then [3] else []) @ (if HasClass3 classes then [4] else []) @
     (if HasClass0 classes then [1] else [])"

lemma class_headers_concat: "class_headers classes = concat (map (\<lambda>v. [60, v, 6]) (class_variations classes))"
  by (simp add: class_headers_def class_header_def class_variations_def)

lemma class_events:
  "set vs \<subseteq> {1, 2, 3, 4} \<Longrightarrow> accepted True allow_all count (map (\<lambda>v. [60, v, 6]) vs)
     (map (\<lambda>(k, v). OnAllObjects (written_header 60 v QC_ALL_OBJECTS k)) (enumerate count vs))"
  using all_objects_parsed [of 60] class_objects_known
  by (induction vs arbitrary: count) simp_all

definition class_bit :: "u8 \<Rightarrow> ClassField" where
  "class_bit v = (if v = 2 then CLASS_1 else if v = 3 then CLASS_2 else CLASS_3)"

lemma class_step:
  "v \<in> {2, 3, 4} \<Longrightarrow> ClassBasedRequestHandler_ProcessHeader (OnAllObjects (written_header 60 v QC_ALL_OBJECTS k)) f =
     Some (Some (IINField_Empty, f OR class_bit v))"
  using written_header_sel [of 60 v QC_ALL_OBJECTS k] class_objects_known [of v]
  by (auto simp: ClassBasedRequestHandler_ProcessHeader_def class_of_object_def ClassField_Set_def gv_def class_bit_def class_masks)

lemma class_0_step:
  "ClassBasedRequestHandler_ProcessHeader (OnAllObjects (written_header 60 1 QC_ALL_OBJECTS k)) f = Some (Some (FUNC_NOT_SUPPORTED, f))"
  using written_header_sel [of 60 1 QC_ALL_OBJECTS k] class_objects_known [of 1]
  by (simp add: ClassBasedRequestHandler_ProcessHeader_def class_of_object_def gv_def)

lemma class_bits:
  "0 OR (if HasClass1 classes then CLASS_1 else 0) OR (if HasClass2 classes then CLASS_2 else 0) OR (if HasClass3 classes then CLASS_3 else 0) =
     classes AND EVENT_CLASSES"
proof -
  have masks: "CLASS_1 = 2 ^ 1" "CLASS_2 = 2 ^ 2" "CLASS_3 = 2 ^ 3"
    by (simp_all add: class_masks)
  have "bit CLASS_1 k \<longleftrightarrow> k = 1" "bit CLASS_2 k \<longleftrightarrow> k = 2" "bit CLASS_3 k \<longleftrightarrow> k = 3" if "k < 8" for k
    using that unfolding masks bit_exp_iff by auto
  then show ?thesis
    unfolding class_masks_Has EVENT_CLASSES_def by (intro bit_word_eqI) (auto simp: bit_or_iff bit_and_iff)
qed

lemma class_headers_handled:
  "parse_request True ClassBasedRequestHandler_ProcessHeader allow_all (class_headers classes) 0 =
     Some (PR_OK, if HasClass0 classes then FUNC_NOT_SUPPORTED else IINField_Empty, classes AND EVENT_CLASSES)"
proof -
  have "set (class_variations classes) \<subseteq> {1, 2, 3, 4}"
    by (auto simp: class_variations_def split: if_splits)
  from accepted_Parse [OF class_events [OF this, of 0]]
  have "parse_request True ClassBasedRequestHandler_ProcessHeader allow_all (class_headers classes) 0 = do {
      (iin, s) \<leftarrow> handle_events ClassBasedRequestHandler_ProcessHeader
        (map (\<lambda>(k, v). OnAllObjects (written_header 60 v QC_ALL_OBJECTS k)) (enumerate 0 (class_variations classes))) 0;
      Some (PR_OK, iin, s) }"
    by (simp add: parse_request_events class_headers_concat)
  then show ?thesis
    unfolding class_bits [symmetric]
    by (simp add: class_variations_def class_step class_0_step class_bit_def IINField_or_def IINField_Empty_def or.assoc)
qed

section \<open>Requests of a master that an outstation obeys\<close>

definition built :: "wslice \<Rightarrow> (APDUWrapper \<Rightarrow> APDUWrapper option) \<Rightarrow> rslice option" where
  "built buffer build = do {
     request \<leftarrow> APDURequest_of buffer;
     request \<leftarrow> build request;
     Some (APDU_ToRSlice request) }"

definition request_header :: "FunctionCode \<Rightarrow> u8 \<Rightarrow> APDUHeader" where
  "request_header fc seq =
     \<lparr>apdu_control = \<lparr>acf_FIR = True, acf_FIN = True, acf_CON = False, acf_UNS = False, acf_SEQ = seq\<rparr>, apdu_function = fc\<rparr>"

text \<open>C37: A master's request to enable or to disable unsolicited responses, built in a buffer of at least 14 bytes, is
  parsed by the outstation as the header that was set, and carrying it out enables exactly the event classes that were
  asked for, or disables all of them. Class 0 cannot be enabled: the answer says so, and the event classes of the
  request are enabled nevertheless.\<close>

theorem unsolicited_requests_obeyed:
  assumes "14 \<le> length buffer" and "unat seq < 16"
  shows "(\<exists>apdu objects. built (GetWSlice buffer) (EnableUnsolicited classes seq) = Some apdu \<and>
      ParseRequest apdu = Some (Some (request_header FC_ENABLE_UNSOLICITED seq, objects)) \<and>
      HandleEnableUnsolicited objects ctx =
        Some (if HasClass0 classes then FUNC_NOT_SUPPORTED else IINField_Empty,
          ctx\<lparr>oc_params := (oc_params ctx)\<lparr>op_unsolClassMask :=
            op_unsolClassMask (oc_params ctx) OR classes AND EVENT_CLASSES\<rparr>\<rparr>)) \<and>
    (\<exists>apdu objects. built (GetWSlice buffer) (DisableUnsolicited seq) = Some apdu \<and>
      ParseRequest apdu = Some (Some (request_header FC_DISABLE_UNSOLICITED seq, objects)) \<and>
      HandleDisableUnsolicited objects ctx =
        Some (IINField_Empty, ctx\<lparr>oc_params := (oc_params ctx)\<lparr>op_unsolClassMask :=
          op_unsolClassMask (oc_params ctx) AND NOT EVENT_CLASSES\<rparr>\<rparr>))"
proof
  show "\<exists>apdu objects. built (GetWSlice buffer) (EnableUnsolicited classes seq) = Some apdu \<and>
      ParseRequest apdu = Some (Some (request_header FC_ENABLE_UNSOLICITED seq, objects)) \<and>
      HandleEnableUnsolicited objects ctx =
        Some (if HasClass0 classes then FUNC_NOT_SUPPORTED else IINField_Empty,
          ctx\<lparr>oc_params := (oc_params ctx)\<lparr>op_unsolClassMask :=
            op_unsolClassMask (oc_params ctx) OR classes AND EVENT_CLASSES\<rparr>\<rparr>)"
    using ClassRequest_built [OF assms, of FC_ENABLE_UNSOLICITED classes]
    by (auto simp: built_def EnableUnsolicited_def request_header_def HandleEnableUnsolicited_def class_headers_handled ClassField_Set_def
        or.commute bind_eq_Some_conv)
  have "\<not> HasClass0 (ClassField_of_mask EVENT_CLASSES)" "ClassField_of_mask EVENT_CLASSES AND EVENT_CLASSES = EVENT_CLASSES"
    by (simp_all add: HasClass0_def ClassField_of_mask_def class_masks)
  then show "\<exists>apdu objects. built (GetWSlice buffer) (DisableUnsolicited seq) = Some apdu \<and>
      ParseRequest apdu = Some (Some (request_header FC_DISABLE_UNSOLICITED seq, objects)) \<and>
      HandleDisableUnsolicited objects ctx =
        Some (IINField_Empty, ctx\<lparr>oc_params := (oc_params ctx)\<lparr>op_unsolClassMask :=
          op_unsolClassMask (oc_params ctx) AND NOT EVENT_CLASSES\<rparr>\<rparr>)"
    using ClassRequest_built [OF assms, of FC_DISABLE_UNSOLICITED "ClassField_of_mask EVENT_CLASSES"]
    by (auto simp: built_def DisableUnsolicited_def request_header_def HandleDisableUnsolicited_def class_headers_handled ClassField_Clear_def
        bind_eq_Some_conv)
qed

theorem unsolicited_requests_obeyed_witness:
  "\<forall>ctx :: (unit, unit, unit) OContext. \<exists>apdu objects. built (GetWSlice (replicate 14 0)) (EnableUnsolicited 6 3) = Some apdu \<and>
    ParseRequest apdu = Some (Some (request_header FC_ENABLE_UNSOLICITED 3, objects)) \<and>
    HandleEnableUnsolicited objects ctx =
      Some (IINField_Empty, ctx\<lparr>oc_params := (oc_params ctx)\<lparr>op_unsolClassMask := op_unsolClassMask (oc_params ctx) OR 6\<rparr>\<rparr>)"
proof
  fix ctx :: "(unit, unit, unit) OContext"
  have "\<not> HasClass0 6" "6 AND EVENT_CLASSES = 6"
    by (simp_all add: HasClass0_def class_masks)
  then show "\<exists>apdu objects. built (GetWSlice (replicate 14 0)) (EnableUnsolicited 6 3) = Some apdu \<and>
    ParseRequest apdu = Some (Some (request_header FC_ENABLE_UNSOLICITED 3, objects)) \<and>
    HandleEnableUnsolicited objects ctx =
      Some (IINField_Empty, ctx\<lparr>oc_params := (oc_params ctx)\<lparr>op_unsolClassMask := op_unsolClassMask (oc_params ctx) OR 6\<rparr>\<rparr>)"
    using unsolicited_requests_obeyed [of "replicate 14 0" 3 6 ctx] by simp
qed

lemma ClearRestartIIN_WriteBitfield:
  "ClearRestartIIN seq request = do {
     request \<leftarrow> SetFunction FC_WRITE request;
     request \<leftarrow> SetControl ((AppControlField_init True True False False)\<lparr>acf_SEQ := seq\<rparr>) request;
     writer \<leftarrow> WriteBitfield IT_UInt8 80 1 QC_UINT8_START_STOP 7 [False] (GetWriter request);
     Some (put_writer writer request) }"
  by (auto simp: ClearRestartIIN_def WriteBitfield_def split: Option.bind_split)

lemma ClearRestartIIN_built:
  assumes "8 \<le> length buffer" and "length buffer < 2 ^ 28" and "unat seq < 16"
  shows "\<exists>body. built (GetWSlice buffer) (ClearRestartIIN seq) = Some (AppControlField_ToByte (apdu_control (request_header FC_WRITE seq)) #
      FunctionCodeToType FC_WRITE # body) \<and>
    APDUParser_ParseHeader True None True 0 body =
      Some (PR_OK, [], [OnRangeOf (written_header 80 1 QC_UINT8_START_STOP 0) (written_range 7 1) [(7, SingleBit False)]])"
proof -
  define control where "control = (AppControlField_init True True False False)\<lparr>acf_SEQ := seq\<rparr>"
  define c where "c = AppControlField_ToByte control"
  define rest where "rest = drop 2 buffer"
  have len: "length rest = length buffer - 2"
    by (simp add: rest_def)
  have "map_of range_objects (gv (unat (80 :: u8)) (unat (1 :: u8))) = Some BitfieldType"
    unfolding range_objects_def gv_def by simp
  moreover have "length rest < 2 ^ 28 - 2" "6 \<le> length rest"
    unfolding len using assms(1,2) by simp_all
  ultimately obtain body where body: "length body = 6" "WriteBitfield IT_UInt8 80 1 QC_UINT8_START_STOP 7 [False] (hwm [c, 2] rest [] None) =
      Some (hwm ([c, 2] @ body) (drop (length body) rest) [] None)"
      "APDUParser_ParseHeader True None True 0 body =
        Some (PR_OK, [], [OnRangeOf (written_header 80 1 QC_UINT8_START_STOP 0) (written_range 7 1) [(7, SingleBit False)]])"
    using bitfield_written [of 80 1 "[False]" IT_UInt8 7 "[c, 2]" rest "[]" None 0 "[]"]
    by (auto simp: IT_Max_def IT_SIZE_def IT_range_qualifier_def)
  have parts: "length rest = length body + length (drop (length body) rest)"
    using body(1) \<open>6 \<le> length rest\<close> by simp
  have "ClearRestartIIN seq (request_wrapper (buffer ! 0) (buffer ! 1) [] rest) = Some (request_wrapper c 2 body (drop (length body) rest))"
    using body(2) request_put_writer [OF parts]
    by (simp add: ClearRestartIIN_WriteBitfield request_setters request_writer flip: control_def c_def)
  moreover have "control = apdu_control (request_header FC_WRITE seq)"
    by (simp add: control_def request_header_def AppControlField_init_def)
  ultimately show ?thesis
    using assms(1) APDURequest_of_buffer [of buffer] body(3)
    by (intro exI [of _ body])
      (simp add: built_def c_def APDU_ToRSlice_def APDU_Size_def request_wrapper_def WSlice_ToRSlice_mkw RSlice_Take_def flip: rest_def)
qed

text \<open>C38: A master's request to clear the restart indication, built in a buffer of at least 8 bytes, is parsed by the
  outstation as the header that was set, and carrying it out clears the indication DEVICE_RESTART, nothing else, and
  reports no error.\<close>

theorem restart_cleared:
  assumes "8 \<le> length buffer" and "length buffer < 2 ^ 28" and "unat seq < 16"
  shows "\<exists>apdu objects. built (GetWSlice buffer) (ClearRestartIIN seq) = Some apdu \<and>
    ParseRequest apdu = Some (Some (request_header FC_WRITE seq, objects)) \<and>
    HandleWrite env objects ctx = Some (IINField_Empty, ctx\<lparr>oc_staticIIN := IINField_ClearBit IIN_DEVICE_RESTART (oc_staticIIN ctx)\<rparr>)"
proof -
  obtain body where body: "built (GetWSlice buffer) (ClearRestartIIN seq) =
        Some (AppControlField_ToByte (apdu_control (request_header FC_WRITE seq)) # FunctionCodeToType FC_WRITE # body)"
      "APDUParser_ParseHeader True None True 0 body =
        Some (PR_OK, [], [OnRangeOf (written_header 80 1 QC_UINT8_START_STOP 0) (written_range 7 1) [(7, SingleBit False)]])"
    using ClearRestartIIN_built [OF assms] by blast
  have "AppControlField_of (AppControlField_ToByte (apdu_control (request_header FC_WRITE seq))) = apdu_control (request_header FC_WRITE seq)"
    by (rule AppControlField_roundtrip) (simp add: request_header_def assms(3))
  then have parsed: "ParseRequest (AppControlField_ToByte (apdu_control (request_header FC_WRITE seq)) # FunctionCodeToType FC_WRITE # body) =
      Some (Some (request_header FC_WRITE seq, body))"
    by (simp add: ParseRequest_def REQUEST_SIZE_def rslice_at_def RSlice_Skip_def FunctionCode_roundtrip del: FunctionCodeToType.simps)
      (simp add: request_header_def)
  have "accepted True allow_all 0 [body] [OnRangeOf (written_header 80 1 QC_UINT8_START_STOP 0) (written_range 7 1) [(7, SingleBit False)]]"
    using ParseHeader_white_list_complete [OF body(2)] by (simp add: header_allowed_def allow_all_def)
  from accepted_Parse [OF this] have parse: "APDUParser_Parse True allow_all body =
      Some (PR_OK, [OnRangeOf (written_header 80 1 QC_UINT8_START_STOP 0) (written_range 7 1) [(7, SingleBit False)]])"
    by simp
  have known: "gv (unat (80 :: u8)) (unat (1 :: u8)) \<in> set GroupVariation_values"
    unfolding GroupVariation_values_def gv_def by simp
  have "gvr_enumeration (written_header 80 1 QC_UINT8_START_STOP 0) = gv 80 1"
    using written_header_sel [of 80 1] known by simp
  then have "HandleWrite env body ctx = Some (IINField_Empty, ctx\<lparr>oc_staticIIN := IINField_ClearBit IIN_DEVICE_RESTART (oc_staticIIN ctx)\<rparr>)"
    by (simp add: HandleWrite_def parse_request_events parse WriteHandler_ProcessHeader_def Write_IIN_def WriteHandler_of_def
      IINField_or_def IINField_Empty_def)
  then show ?thesis
    using body(1) parsed by blast
qed

theorem restart_cleared_witness:
  "\<forall>env (ctx :: (unit, unit, unit) OContext). \<exists>apdu objects. built (GetWSlice (replicate 8 0)) (ClearRestartIIN 5) = Some apdu \<and>
    ParseRequest apdu = Some (Some (request_header FC_WRITE 5, objects)) \<and>
    HandleWrite env objects ctx = Some (IINField_Empty, ctx\<lparr>oc_staticIIN := IINField_ClearBit IIN_DEVICE_RESTART (oc_staticIIN ctx)\<rparr>)"
proof (intro allI)
  fix env and ctx :: "(unit, unit, unit) OContext"
  show "\<exists>apdu objects. built (GetWSlice (replicate 8 0)) (ClearRestartIIN 5) = Some apdu \<and>
    ParseRequest apdu = Some (Some (request_header FC_WRITE 5, objects)) \<and>
    HandleWrite env objects ctx = Some (IINField_Empty, ctx\<lparr>oc_staticIIN := IINField_ClearBit IIN_DEVICE_RESTART (oc_staticIIN ctx)\<rparr>)"
    using restart_cleared [of "replicate 8 0" 5 env ctx] by simp
qed

end
