(* ===== verification/MasterScheduler.thy ===== *)
theory MasterScheduler
  imports Timing "HOL-Library.Product_Lexorder"
begin

text \<open>
  The scheduling of the tasks of a master: \<open>master/TaskBehavior\<close> (when a task runs and is repeated),
  \<open>master/TaskContext\<close> and \<open>master/IMasterTask\<close> (how a task completes, which tasks it blocks) and
  \<open>master/MasterSchedulerBackend\<close>. The tasks are shared by the scheduler and the masters: they are
  numbers, and a store gives each its data. The virtual functions of a task that the scheduler uses are
  fields. A callback that is posted to the executor is an event that is pending.
\<close>

section \<open>When a task runs\<close>

record TaskBehavior =
  tb_period :: TimeDuration
  tb_minRetryDelay :: TimeDuration
  tb_maxRetryDelay :: TimeDuration
  tb_startExpiration :: MonotonicTimestamp
  tb_disabled :: bool
  tb_expiration :: MonotonicTimestamp
  tb_currentRetryDelay :: TimeDuration

definition MonotonicTimestamp_Min :: MonotonicTimestamp where
  "MonotonicTimestamp_Min = INT64_MIN"

definition TimeDuration_Min :: TimeDuration where
  "TimeDuration_Min = INT64_MIN"

definition TimeDuration_Max :: TimeDuration where
  "TimeDuration_Max = INT64_MAX"

definition TaskBehavior_of ::
    "TimeDuration \<Rightarrow> MonotonicTimestamp \<Rightarrow> TimeDuration \<Rightarrow> TimeDuration \<Rightarrow> MonotonicTimestamp \<Rightarrow> TaskBehavior" where
  "TaskBehavior_of period expiration minRetryDelay maxRetryDelay startExpiration =
     \<lparr>tb_period = period, tb_minRetryDelay = minRetryDelay, tb_maxRetryDelay = maxRetryDelay, tb_startExpiration = startExpiration,
      tb_disabled = False, tb_expiration = expiration, tb_currentRetryDelay = minRetryDelay\<rparr>"

definition SingleExecutionNoRetry :: "MonotonicTimestamp \<Rightarrow> TaskBehavior" where
  "SingleExecutionNoRetry startExpiration =
     TaskBehavior_of TimeDuration_Min MonotonicTimestamp_Min TimeDuration_Max TimeDuration_Max startExpiration"

definition ImmediatePeriodic :: "TimeDuration \<Rightarrow> TimeDuration \<Rightarrow> TimeDuration \<Rightarrow> TaskBehavior" where
  "ImmediatePeriodic period minRetryDelay maxRetryDelay =
     TaskBehavior_of period MonotonicTimestamp_Min minRetryDelay maxRetryDelay MonotonicTimestamp_Max"

definition SingleImmediateExecutionWithRetry :: "TimeDuration \<Rightarrow> TimeDuration \<Rightarrow> TaskBehavior" where
  "SingleImmediateExecutionWithRetry minRetryDelay maxRetryDelay =
     TaskBehavior_of TimeDuration_Min MonotonicTimestamp_Min minRetryDelay maxRetryDelay MonotonicTimestamp_Max"

definition ReactsToIINOnly :: TaskBehavior where
  "ReactsToIINOnly =
     TaskBehavior_of TimeDuration_Min MonotonicTimestamp_Max TimeDuration_Max TimeDuration_Max MonotonicTimestamp_Max"

text \<open>A delay is a signed 64 bit integer: the product is computed at this width.\<close>

definition int64_mul :: "int \<Rightarrow> int \<Rightarrow> int" where
  "int64_mul a b = signed_take_bit 63 (a * b)"

lemma int64_mul_exact: "0 \<le> a * b \<Longrightarrow> a * b \<le> INT64_MAX \<Longrightarrow> int64_mul a b = a * b"
  by (simp add: int64_mul_def INT64_MAX_def signed_take_bit_int_eq_self)

definition CalcNextRetryTimeout :: "TaskBehavior \<Rightarrow> TimeDuration" where
  "CalcNextRetryTimeout b =
     (let doubling_would_cause_mult_overflow = tb_currentRetryDelay b \<ge> INT64_MAX div 2;
          doubled = (if doubling_would_cause_mult_overflow then tb_maxRetryDelay b else int64_mul 2 (tb_currentRetryDelay b))
      in if doubled > tb_maxRetryDelay b then tb_maxRetryDelay b else doubled)"

definition Behavior_OnSuccess :: "MonotonicTimestamp \<Rightarrow> TaskBehavior \<Rightarrow> TaskBehavior" where
  "Behavior_OnSuccess now b =
     b\<lparr>tb_currentRetryDelay := tb_minRetryDelay b,
       tb_expiration := if tb_period b < 0 then MonotonicTimestamp_Max else MonotonicTimestamp_Add now (tb_period b)\<rparr>"

definition Behavior_OnResponseTimeout :: "MonotonicTimestamp \<Rightarrow> TaskBehavior \<Rightarrow> TaskBehavior" where
  "Behavior_OnResponseTimeout now b =
     (let b = b\<lparr>tb_expiration := MonotonicTimestamp_Add now (tb_currentRetryDelay b)\<rparr>
      in b\<lparr>tb_currentRetryDelay := CalcNextRetryTimeout b\<rparr>)"

definition Behavior_Reset :: "TaskBehavior \<Rightarrow> TaskBehavior" where
  "Behavior_Reset b = b\<lparr>tb_disabled := False, tb_expiration := MonotonicTimestamp_Min, tb_currentRetryDelay := tb_minRetryDelay b\<rparr>"

definition Behavior_Disable :: "TaskBehavior \<Rightarrow> TaskBehavior" where
  "Behavior_Disable b = b\<lparr>tb_disabled := True, tb_expiration := MonotonicTimestamp_Max\<rparr>"


section \<open>Tasks and the scheduler\<close>

datatype TaskCompletion =
    TASK_SUCCESS | FAILURE_BAD_RESPONSE | FAILURE_RESPONSE_TIMEOUT | FAILURE_START_TIMEOUT | FAILURE_MESSAGE_FORMAT_ERROR | FAILURE_NO_COMMS

type_synonym task_id = nat
type_synonym runner_id = nat
type_synonym context_id = nat

record MasterTask =
  mt_Priority :: int
  mt_IsRecurring :: bool
  mt_BlocksLowerPriority :: bool
  mt_IsEnabled :: bool
  mt_context :: context_id
  mt_behavior :: TaskBehavior

text \<open>What the scheduler calls: a runner, and the callbacks of a task that is completed.\<close>

datatype scheduler_output = Run_task task_id runner_id | Task_completed task_id TaskCompletion

record Scheduler =
  sch_isShutdown :: bool
  sch_taskCheckPending :: bool
  sch_current :: "(task_id \<times> runner_id) option"
  sch_tasks :: "(task_id \<times> runner_id) list"
  sch_taskTimer :: TimerRef
  sch_taskStartTimeout :: TimerRef
  sch_store :: "task_id \<Rightarrow> MasterTask"
  sch_blocking :: "context_id \<Rightarrow> task_id list"
  sch_demanded :: "task_id list"
  sch_now :: MonotonicTimestamp
  sch_outputs :: "scheduler_output list"

definition ExpirationTime :: "task_id \<Rightarrow> Scheduler \<Rightarrow> MonotonicTimestamp" where
  "ExpirationTime t s =
     (if mt_IsEnabled (sch_store s t) then tb_expiration (mt_behavior (sch_store s t)) else MonotonicTimestamp_Max)"

definition IsExpired :: "MonotonicTimestamp \<Rightarrow> task_id \<Rightarrow> Scheduler \<Rightarrow> bool" where
  "IsExpired now t s \<longleftrightarrow> now \<ge> ExpirationTime t s"

definition StartExpirationTime :: "task_id \<Rightarrow> Scheduler \<Rightarrow> MonotonicTimestamp" where
  "StartExpirationTime t s = tb_startExpiration (mt_behavior (sch_store s t))"

definition set_behavior :: "task_id \<Rightarrow> TaskBehavior \<Rightarrow> Scheduler \<Rightarrow> Scheduler" where
  "set_behavior t b s = s\<lparr>sch_store := (sch_store s)(t := (sch_store s t)\<lparr>mt_behavior := b\<rparr>)\<rparr>"

text \<open>\<open>TaskContext\<close>: the set of tasks of a master that block others.\<close>

definition AddBlock :: "task_id \<Rightarrow> Scheduler \<Rightarrow> Scheduler" where
  "AddBlock t s = s\<lparr>sch_blocking := (sch_blocking s)(mt_context (sch_store s t) := List.insert t (sch_blocking s (mt_context (sch_store s t))))\<rparr>"

definition RemoveBlock :: "task_id \<Rightarrow> Scheduler \<Rightarrow> Scheduler" where
  "RemoveBlock t s = s\<lparr>sch_blocking := (sch_blocking s)(mt_context (sch_store s t) := removeAll t (sch_blocking s (mt_context (sch_store s t))))\<rparr>"

definition IsBlocked :: "task_id \<Rightarrow> Scheduler \<Rightarrow> bool" where
  "IsBlocked t s \<longleftrightarrow>
     list_ex (\<lambda>b. mt_Priority (sch_store s b) < mt_Priority (sch_store s t) \<and> b \<noteq> t) (sch_blocking s (mt_context (sch_store s t)))"

definition scheduler_emit :: "scheduler_output \<Rightarrow> Scheduler \<Rightarrow> Scheduler" where
  "scheduler_emit out s = s\<lparr>sch_outputs := out # sch_outputs s\<rparr>"

definition CompleteTask :: "task_id \<Rightarrow> TaskCompletion \<Rightarrow> MonotonicTimestamp \<Rightarrow> Scheduler \<Rightarrow> Scheduler" where
  "CompleteTask t result now s =
     (let b = mt_behavior (sch_store s t);
          s = (case result of
                 FAILURE_NO_COMMS \<Rightarrow> set_behavior t (Behavior_Reset b) s
               | FAILURE_RESPONSE_TIMEOUT \<Rightarrow>
                   (let s = set_behavior t (Behavior_OnResponseTimeout now b) s
                    in if mt_BlocksLowerPriority (sch_store s t) then AddBlock t s else s)
               | TASK_SUCCESS \<Rightarrow> RemoveBlock t (set_behavior t (Behavior_OnSuccess now b) s)
               | _ \<Rightarrow>
                   (let s = set_behavior t (Behavior_Disable b) s
                    in if mt_BlocksLowerPriority (sch_store s t) then AddBlock t s else s))
      in scheduler_emit (Task_completed t result) s)"

definition SetMinExpiration :: "task_id \<Rightarrow> Scheduler \<Rightarrow> Scheduler" where
  "SetMinExpiration t s = set_behavior t (Behavior_Reset (mt_behavior (sch_store s t))) s"


section \<open>Comparing tasks\<close>

datatype Comparison = CMP_LEFT | CMP_RIGHT | CMP_SAME

definition CompareEnabledStatus :: "task_id \<Rightarrow> task_id \<Rightarrow> Scheduler \<Rightarrow> Comparison" where
  "CompareEnabledStatus left right s =
     (if MonotonicTimestamp_IsMax (ExpirationTime left s)
      then if MonotonicTimestamp_IsMax (ExpirationTime right s) then CMP_SAME else CMP_RIGHT
      else if MonotonicTimestamp_IsMax (ExpirationTime right s) then CMP_LEFT
      else CMP_SAME)"

definition CompareBlockedStatus :: "task_id \<Rightarrow> task_id \<Rightarrow> Scheduler \<Rightarrow> Comparison" where
  "CompareBlockedStatus left right s =
     (if IsBlocked left s
      then if IsBlocked right s then CMP_SAME else CMP_RIGHT
      else if IsBlocked right s then CMP_LEFT else CMP_SAME)"

definition CompareTime :: "MonotonicTimestamp \<Rightarrow> task_id \<Rightarrow> task_id \<Rightarrow> Scheduler \<Rightarrow> Comparison" where
  "CompareTime now left right s =
     (let leftTime = (if IsExpired now left s then now else ExpirationTime left s);
          rightTime = (if IsExpired now right s then now else ExpirationTime right s)
      in if leftTime < rightTime then CMP_LEFT
         else if rightTime < leftTime then CMP_RIGHT
         else CMP_SAME)"

definition ComparePriority :: "task_id \<Rightarrow> task_id \<Rightarrow> Scheduler \<Rightarrow> Comparison" where
  "ComparePriority left right s =
     (if mt_Priority (sch_store s left) < mt_Priority (sch_store s right) then CMP_LEFT
      else if mt_Priority (sch_store s right) < mt_Priority (sch_store s left) then CMP_RIGHT
      else CMP_SAME)"

definition GetBestTaskToRun :: "MonotonicTimestamp \<Rightarrow> task_id \<Rightarrow> task_id \<Rightarrow> Scheduler \<Rightarrow> Comparison" where
  "GetBestTaskToRun now left right s =
     (let BEST_ENABLED_STATUS = CompareEnabledStatus left right s
      in if BEST_ENABLED_STATUS \<noteq> CMP_SAME then BEST_ENABLED_STATUS
      else let BEST_BLOCKED_STATUS = CompareBlockedStatus left right s
      in if BEST_BLOCKED_STATUS \<noteq> CMP_SAME then BEST_BLOCKED_STATUS
      else let EARLIEST_EXPIRATION = CompareTime now left right s;
               BEST_PRIORITY = ComparePriority left right s
      in if EARLIEST_EXPIRATION = CMP_SAME then BEST_PRIORITY else EARLIEST_EXPIRATION)"


section \<open>The scheduler\<close>

text \<open>The executor is released by \<open>Shutdown\<close>: it must not be used afterwards.\<close>

definition PostCheckForTaskRun :: "Scheduler \<Rightarrow> Scheduler option" where
  "PostCheckForTaskRun s =
     (if sch_taskCheckPending s then Some s
      else if sch_isShutdown s then None
      else Some (s\<lparr>sch_taskCheckPending := True\<rparr>))"

fun min_start_expiration :: "(task_id \<times> runner_id) list \<Rightarrow> MonotonicTimestamp \<Rightarrow> Scheduler \<Rightarrow> MonotonicTimestamp" where
  "min_start_expiration [] minimum s = minimum"
| "min_start_expiration ((t, _) # rs) minimum s =
     min_start_expiration rs
       (if \<not> mt_IsRecurring (sch_store s t) \<and> StartExpirationTime t s < minimum then StartExpirationTime t s else minimum) s"

definition RestartTimeoutTimer :: "Scheduler \<Rightarrow> Scheduler" where
  "RestartTimeoutTimer s =
     (if sch_isShutdown s then s
      else let minimum = min_start_expiration (sch_tasks s) MonotonicTimestamp_Max s
      in if MonotonicTimestamp_IsMax minimum
         then s\<lparr>sch_taskStartTimeout := snd (TimerRef_Cancel (sch_taskStartTimeout s))\<rparr>
         else s\<lparr>sch_taskStartTimeout := TimerRef_Restart minimum (sch_taskStartTimeout s)\<rparr>)"

text \<open>The search: the position and the record of the best task, and the records that are left.\<close>

fun best_task_loop ::
    "MonotonicTimestamp \<Rightarrow> Scheduler \<Rightarrow> nat \<times> task_id \<times> runner_id \<Rightarrow> nat \<Rightarrow> (task_id \<times> runner_id) list \<Rightarrow> nat \<times> task_id \<times> runner_id" where
  "best_task_loop now s best i [] = best"
| "best_task_loop now s best i (r # rs) =
     best_task_loop now s (if GetBestTaskToRun now (fst (snd best)) (fst r) s = CMP_RIGHT then (i, r) else best) (i + 1) rs"

definition CheckForTaskRun :: "Scheduler \<Rightarrow> bool \<times> Scheduler" where
  "CheckForTaskRun s =
     (if sch_isShutdown s then (False, s)
      else let s = RestartTimeoutTimer (s\<lparr>sch_taskCheckPending := False\<rparr>)
      in if sch_current s \<noteq> None then (False, s)
      else case sch_tasks s of
        [] \<Rightarrow> (False, s)
      | r # rs \<Rightarrow>
          (let (i, t, runner) = best_task_loop (sch_now s) s (0, r) 1 rs;
               IS_EXPIRED = sch_now s \<ge> ExpirationTime t s
           in if IS_EXPIRED
              then (True, scheduler_emit (Run_task t runner)
                (s\<lparr>sch_current := Some (t, runner), sch_tasks := take i (sch_tasks s) @ drop (i + 1) (sch_tasks s)\<rparr>))
              else (False, s\<lparr>sch_taskTimer := TimerRef_Restart (ExpirationTime t s) (sch_taskTimer s)\<rparr>)))"

definition Scheduler_Shutdown :: "Scheduler \<Rightarrow> Scheduler" where
  "Scheduler_Shutdown s =
     s\<lparr>sch_isShutdown := True, sch_tasks := [], sch_current := None, sch_taskTimer := snd (TimerRef_Cancel (sch_taskTimer s)),
       sch_taskStartTimeout := snd (TimerRef_Cancel (sch_taskStartTimeout s))\<rparr>"

definition Scheduler_Add :: "task_id \<Rightarrow> runner_id \<Rightarrow> Scheduler \<Rightarrow> Scheduler option" where
  "Scheduler_Add t runner s =
     (if sch_isShutdown s then Some s else PostCheckForTaskRun (s\<lparr>sch_tasks := sch_tasks s @ [(t, runner)]\<rparr>))"

text \<open>The predicates that remove records call back: the list is walked once, in order.\<close>

definition checkForOwnership :: "MonotonicTimestamp \<Rightarrow> runner_id \<Rightarrow> task_id \<times> runner_id \<Rightarrow> Scheduler \<Rightarrow> bool \<times> Scheduler" where
  "checkForOwnership now runner r s =
     (if snd r = runner
      then (True, if \<not> mt_IsRecurring (sch_store s (fst r)) then CompleteTask (fst r) FAILURE_NO_COMMS now s else s)
      else (False, s))"

definition isTimedOut :: "MonotonicTimestamp \<Rightarrow> task_id \<times> runner_id \<Rightarrow> Scheduler \<Rightarrow> bool \<times> Scheduler" where
  "isTimedOut now r s =
     (if mt_IsRecurring (sch_store s (fst r)) \<or> StartExpirationTime (fst r) s > now then (False, s)
      else (True, CompleteTask (fst r) FAILURE_START_TIMEOUT now s))"

fun remove_records ::
    "(task_id \<times> runner_id \<Rightarrow> Scheduler \<Rightarrow> bool \<times> Scheduler) \<Rightarrow> (task_id \<times> runner_id) list \<Rightarrow> Scheduler \<Rightarrow> (task_id \<times> runner_id) list \<times> Scheduler" where
  "remove_records p [] s = ([], s)"
| "remove_records p (r # rs) s =
     (let (remove, s) = p r s;
          (rs, s) = remove_records p rs s
      in (if remove then rs else r # rs, s))"

definition SetRunnerOffline :: "runner_id \<Rightarrow> Scheduler \<Rightarrow> Scheduler option" where
  "SetRunnerOffline runner s =
     (if sch_isShutdown s then Some s
      else let now = sch_now s;
               s = (case sch_current s of
                      None \<Rightarrow> s
                    | Some r \<Rightarrow> (let (mine, s) = checkForOwnership now runner r s in if mine then s\<lparr>sch_current := None\<rparr> else s));
               (rs, s) = remove_records (checkForOwnership now runner) (sch_tasks s) s
      in PostCheckForTaskRun (s\<lparr>sch_tasks := rs\<rparr>))"

definition CompleteCurrentFor :: "runner_id \<Rightarrow> Scheduler \<Rightarrow> (bool \<times> Scheduler) option" where
  "CompleteCurrentFor runner s =
     (case sch_current s of
        None \<Rightarrow> Some (False, s)
      | Some (t, r) \<Rightarrow>
          if r \<noteq> runner then Some (False, s)
          else do {
            s \<leftarrow> (if mt_IsRecurring (sch_store s t) then Scheduler_Add t r s else Some s);
            s \<leftarrow> PostCheckForTaskRun (s\<lparr>sch_current := None\<rparr>);
            Some (True, s) })"

text \<open>\<open>Demand\<close> posts a callback (\<open>Demand_callback\<close>).\<close>

definition Scheduler_Demand :: "task_id \<Rightarrow> Scheduler \<Rightarrow> Scheduler option" where
  "Scheduler_Demand t s = (if sch_isShutdown s then None else Some (s\<lparr>sch_demanded := sch_demanded s @ [t]\<rparr>))"

definition Demand_callback :: "task_id \<Rightarrow> Scheduler \<Rightarrow> Scheduler" where
  "Demand_callback t s = snd (CheckForTaskRun (SetMinExpiration t (s\<lparr>sch_demanded := remove1 t (sch_demanded s)\<rparr>)))"

definition Scheduler_Evaluate :: "Scheduler \<Rightarrow> Scheduler option" where
  "Scheduler_Evaluate = PostCheckForTaskRun"

definition TimeoutTasks :: "Scheduler \<Rightarrow> Scheduler" where
  "TimeoutTasks s =
     (if sch_isShutdown s then s
      else let (rs, s) = remove_records (isTimedOut (sch_now s)) (sch_tasks s) s
      in RestartTimeoutTimer (s\<lparr>sch_tasks := rs\<rparr>))"

section \<open>The order of the tasks\<close>

text \<open>Disabled tasks come last, then blocked ones; then the time counts, and the priority at last.\<close>

definition task_rank :: "MonotonicTimestamp \<Rightarrow> Scheduler \<Rightarrow> task_id \<Rightarrow> bool \<times> bool \<times> int \<times> int" where
  "task_rank now s t =
     (MonotonicTimestamp_IsMax (ExpirationTime t s), IsBlocked t s, max now (ExpirationTime t s), mt_Priority (sch_store s t))"

lemma GetBestTaskToRun_rank:
  "GetBestTaskToRun now l r s =
     (if task_rank now s l < task_rank now s r then CMP_LEFT else if task_rank now s r < task_rank now s l then CMP_RIGHT else CMP_SAME)"
  by (simp add: GetBestTaskToRun_def CompareEnabledStatus_def CompareBlockedStatus_def CompareTime_def ComparePriority_def task_rank_def
      Let_def IsExpired_def max_def less_prod_def)

lemma best_task_loop_best:
  assumes "fst best < i" and "xs ! fst best = snd best" and "drop i xs = rs" and "i \<le> length xs"
    and "\<forall>j < i. task_rank now s (fst (snd best)) \<le> task_rank now s (fst (xs ! j))"
  shows "case best_task_loop now s best i rs of (k, r) \<Rightarrow> k < length xs \<and> xs ! k = r \<and>
    (\<forall>j < length xs. task_rank now s (fst r) \<le> task_rank now s (fst (xs ! j)))"
  using assms
proof (induction rs arbitrary: best i)
  case Nil
  then have "i = length xs"
    by simp
  then show ?case
    using Nil.prems by (auto split: prod.split)
next
  case (Cons r rs)
  have i: "i < length xs" "xs ! i = r" "drop (i + 1) xs = rs"
  proof -
    show "i < length xs"
      using Cons.prems(3) by (metis drop_eq_Nil leI list.discI)
    then have "drop i xs = xs ! i # drop (Suc i) xs"
      by (simp add: Cons_nth_drop_Suc)
    then show "xs ! i = r" "drop (i + 1) xs = rs"
      using Cons.prems(3) by simp_all
  qed
  show ?case
  proof (cases "task_rank now s (fst r) < task_rank now s (fst (snd best))")
    case True
    have "\<forall>j < i + 1. task_rank now s (fst r) \<le> task_rank now s (fst (xs ! j))"
      using Cons.prems(5) True i(2) by (auto simp: less_Suc_eq intro: order.trans less_imp_le)
    then show ?thesis
      using Cons.IH [of "(i, r)" "i + 1"] i True less_not_sym [OF True] by (simp add: GetBestTaskToRun_rank)
  next
    case False
    have "\<forall>j < i + 1. task_rank now s (fst (snd best)) \<le> task_rank now s (fst (xs ! j))"
      using Cons.prems(5) False i(2) by (auto simp: less_Suc_eq not_less)
    then show ?thesis
      using Cons.IH [of best "i + 1"] Cons.prems(1,2) i False by (auto simp: GetBestTaskToRun_rank)
  qed
qed

text \<open>What a check does when no task is running and tasks wait.\<close>

lemma RestartTimeoutTimer_simps [simp]:
  "sch_isShutdown (RestartTimeoutTimer s) = sch_isShutdown s" "sch_taskCheckPending (RestartTimeoutTimer s) = sch_taskCheckPending s"
  "sch_current (RestartTimeoutTimer s) = sch_current s" "sch_tasks (RestartTimeoutTimer s) = sch_tasks s"
  "sch_taskTimer (RestartTimeoutTimer s) = sch_taskTimer s" "sch_store (RestartTimeoutTimer s) = sch_store s"
  "sch_blocking (RestartTimeoutTimer s) = sch_blocking s" "sch_now (RestartTimeoutTimer s) = sch_now s"
  "sch_outputs (RestartTimeoutTimer s) = sch_outputs s" "sch_demanded (RestartTimeoutTimer s) = sch_demanded s"
  by (simp_all add: RestartTimeoutTimer_def Let_def)

text \<open>What the rank of a task depends on.\<close>

lemma ExpirationTime_cong: "sch_store s = sch_store s' \<Longrightarrow> ExpirationTime t s = ExpirationTime t s'"
  by (simp add: ExpirationTime_def)

lemma IsBlocked_cong: "sch_store s = sch_store s' \<Longrightarrow> sch_blocking s = sch_blocking s' \<Longrightarrow> IsBlocked t s = IsBlocked t s'"
  by (simp add: IsBlocked_def)

lemma task_rank_cong: "sch_store s = sch_store s' \<Longrightarrow> sch_blocking s = sch_blocking s' \<Longrightarrow> task_rank now s t = task_rank now s' t"
  by (simp add: task_rank_def IsBlocked_def ExpirationTime_def)

lemma CheckForTaskRun_cases:
  assumes "\<not> sch_isShutdown s" and "sch_current s = None" and "sch_tasks s \<noteq> []"
  obtains k t runner where "k < length (sch_tasks s)" "sch_tasks s ! k = (t, runner)"
    "\<forall>r \<in> set (sch_tasks s). task_rank (sch_now s) s t \<le> task_rank (sch_now s) s (fst r)"
    "CheckForTaskRun s =
       (let s' = RestartTimeoutTimer (s\<lparr>sch_taskCheckPending := False\<rparr>)
        in if ExpirationTime t s \<le> sch_now s
           then (True, scheduler_emit (Run_task t runner)
             (s'\<lparr>sch_current := Some (t, runner), sch_tasks := take k (sch_tasks s) @ drop (k + 1) (sch_tasks s)\<rparr>))
           else (False, s'\<lparr>sch_taskTimer := Some (ExpirationTime t s)\<rparr>))"
proof -
  define s' where "s' = RestartTimeoutTimer (s\<lparr>sch_taskCheckPending := False\<rparr>)"
  have s': "sch_store s' = sch_store s" "sch_blocking s' = sch_blocking s" "sch_now s' = sch_now s" "sch_tasks s' = sch_tasks s"
      "sch_current s' = None"
    using assms(2) by (simp_all add: s'_def)
  obtain r rs where xs: "sch_tasks s = r # rs"
    using assms(3) by (cases "sch_tasks s") auto
  obtain k t runner where loop: "best_task_loop (sch_now s) s' (0, r) 1 rs = (k, t, runner)"
    by (metis prod_cases3)
  have "k < length (sch_tasks s) \<and> sch_tasks s ! k = (t, runner) \<and>
      (\<forall>j < length (sch_tasks s). task_rank (sch_now s) s' t \<le> task_rank (sch_now s) s' (fst (sch_tasks s ! j)))"
    using best_task_loop_best [of "(0, r)" 1 "sch_tasks s" rs "sch_now s" s'] loop by (simp add: xs)
  moreover have "task_rank (sch_now s) s' = task_rank (sch_now s) s"
    using task_rank_cong [OF s'(1,2)] by blast
  ultimately have k: "k < length (sch_tasks s)" "sch_tasks s ! k = (t, runner)"
      "\<forall>r \<in> set (sch_tasks s). task_rank (sch_now s) s t \<le> task_rank (sch_now s) s (fst r)"
    by (simp_all add: all_set_conv_all_nth)
  show ?thesis
  proof (rule that [OF k])
    show "CheckForTaskRun s =
       (let s' = RestartTimeoutTimer (s\<lparr>sch_taskCheckPending := False\<rparr>)
        in if ExpirationTime t s \<le> sch_now s
           then (True, scheduler_emit (Run_task t runner)
             (s'\<lparr>sch_current := Some (t, runner), sch_tasks := take k (sch_tasks s) @ drop (k + 1) (sch_tasks s)\<rparr>))
           else (False, s'\<lparr>sch_taskTimer := Some (ExpirationTime t s)\<rparr>))"
      using assms(1) loop s' xs ExpirationTime_cong [OF s'(1), of t]
      by (simp add: CheckForTaskRun_def Let_def TimerRef_Restart_def flip: s'_def)
  qed
qed

lemma task_rank_le:
  "task_rank now s t \<le> task_rank now s t' \<longleftrightarrow>
     (let d = MonotonicTimestamp_IsMax (ExpirationTime t s); d' = MonotonicTimestamp_IsMax (ExpirationTime t' s);
          e = max now (ExpirationTime t s); e' = max now (ExpirationTime t' s)
      in \<not> d \<and> d' \<or> d = d' \<and> (\<not> IsBlocked t s \<and> IsBlocked t' s \<or> IsBlocked t s = IsBlocked t' s \<and>
        (e < e' \<or> e = e' \<and> mt_Priority (sch_store s t) \<le> mt_Priority (sch_store s t'))))"
  by (auto simp: task_rank_def less_eq_prod_def Let_def)

section \<open>Events\<close>

text \<open>
  The calls of the masters, the callbacks on the executor, and the changes that a master makes to its
  tasks: it completes the task that runs, or one that it could not schedule, and it makes a task
  due and asks for an evaluation.
\<close>

datatype scheduler_event =
    SE_Add task_id runner_id | SE_SetRunnerOffline runner_id | SE_CompleteCurrentFor runner_id | SE_Demand task_id | SE_Evaluate
  | SE_Shutdown | SE_Check | SE_DemandCallback task_id | SE_TaskTimer | SE_StartTimeout | SE_CompleteTask task_id TaskCompletion
  | SE_SetMinExpiration task_id | SE_Elapse TimeDuration

definition timer_due :: "TimerRef \<Rightarrow> Scheduler \<Rightarrow> bool" where
  "timer_due timer s = (case timer of None \<Rightarrow> False | Some e \<Rightarrow> e \<le> sch_now s)"

primrec scheduler_enabled :: "scheduler_event \<Rightarrow> Scheduler \<Rightarrow> bool" where
  "scheduler_enabled (SE_Add t r) s = True"
| "scheduler_enabled (SE_SetRunnerOffline r) s = True"
| "scheduler_enabled (SE_CompleteCurrentFor r) s = True"
| "scheduler_enabled (SE_Demand t) s = (\<not> sch_isShutdown s)"
| "scheduler_enabled SE_Evaluate s = (\<not> sch_isShutdown s)"
| "scheduler_enabled SE_Shutdown s = True"
| "scheduler_enabled SE_Check s = sch_taskCheckPending s"
| "scheduler_enabled (SE_DemandCallback t) s = (t \<in> set (sch_demanded s))"
| "scheduler_enabled SE_TaskTimer s = timer_due (sch_taskTimer s) s"
| "scheduler_enabled SE_StartTimeout s = timer_due (sch_taskStartTimeout s) s"
| "scheduler_enabled (SE_CompleteTask t result) s =
     (map_option fst (sch_current s) = Some t \<or> result = FAILURE_NO_COMMS \<and> t \<notin> fst ` set (sch_tasks s))"
| "scheduler_enabled (SE_SetMinExpiration t) s = (\<not> sch_isShutdown s)"
| "scheduler_enabled (SE_Elapse d) s = (0 \<le> d)"

primrec scheduler_handle :: "scheduler_event \<Rightarrow> Scheduler \<Rightarrow> Scheduler option" where
  "scheduler_handle (SE_Add t r) s = Scheduler_Add t r s"
| "scheduler_handle (SE_SetRunnerOffline r) s = SetRunnerOffline r s"
| "scheduler_handle (SE_CompleteCurrentFor r) s = map_option snd (CompleteCurrentFor r s)"
| "scheduler_handle (SE_Demand t) s = Scheduler_Demand t s"
| "scheduler_handle SE_Evaluate s = Scheduler_Evaluate s"
| "scheduler_handle SE_Shutdown s = Some (Scheduler_Shutdown s)"
| "scheduler_handle SE_Check s = Some (snd (CheckForTaskRun s))"
| "scheduler_handle (SE_DemandCallback t) s = Some (Demand_callback t s)"
| "scheduler_handle SE_TaskTimer s = Some (snd (CheckForTaskRun (s\<lparr>sch_taskTimer := TimerRef_fire (sch_taskTimer s)\<rparr>)))"
| "scheduler_handle SE_StartTimeout s = Some (TimeoutTasks (s\<lparr>sch_taskStartTimeout := TimerRef_fire (sch_taskStartTimeout s)\<rparr>))"
| "scheduler_handle (SE_CompleteTask t result) s = Some (CompleteTask t result (sch_now s) s)"
| "scheduler_handle (SE_SetMinExpiration t) s = Scheduler_Evaluate (SetMinExpiration t s)"
| "scheduler_handle (SE_Elapse d) s = Some (s\<lparr>sch_now := sch_now s + d\<rparr>)"

definition Scheduler_init :: "MonotonicTimestamp \<Rightarrow> (task_id \<Rightarrow> MasterTask) \<Rightarrow> Scheduler" where
  "Scheduler_init now store =
     \<lparr>sch_isShutdown = False, sch_taskCheckPending = False, sch_current = None, sch_tasks = [], sch_taskTimer = None,
      sch_taskStartTimeout = None, sch_store = store, sch_blocking = (\<lambda>_. []), sch_demanded = [], sch_now = now, sch_outputs = []\<rparr>"

inductive scheduler_reachable :: "Scheduler \<Rightarrow> bool" where
  init: "scheduler_reachable (Scheduler_init now store)"
| step: "scheduler_reachable s \<Longrightarrow> scheduler_enabled ev s \<Longrightarrow> scheduler_handle ev s = Some s' \<Longrightarrow> scheduler_reachable s'"


section \<open>The scheduler does not stall\<close>

definition runnable :: "task_id \<Rightarrow> Scheduler \<Rightarrow> bool" where
  "runnable t s \<longleftrightarrow> ExpirationTime t s \<noteq> INT64_MAX \<and> \<not> IsBlocked t s"

definition covered :: "Scheduler \<Rightarrow> bool" where
  "covered s \<longleftrightarrow> (\<forall>(t, r) \<in> set (sch_tasks s). runnable t s \<longrightarrow> (\<exists>e. sch_taskTimer s = Some e \<and> e \<le> ExpirationTime t s))"

definition awake :: "Scheduler \<Rightarrow> bool" where
  "awake s \<longleftrightarrow> (\<not> sch_isShutdown s \<longrightarrow> sch_current s = None \<longrightarrow> sch_taskCheckPending s \<or> covered s)"

lemma awake_cong:
  assumes "sch_store s' = sch_store s" "sch_blocking s' = sch_blocking s" "sch_isShutdown s' = sch_isShutdown s" "sch_current s' = sch_current s"
    "sch_taskCheckPending s' = sch_taskCheckPending s" "sch_tasks s' = sch_tasks s" "sch_taskTimer s' = sch_taskTimer s"
  shows "awake s' = awake s"
  using ExpirationTime_cong [OF assms(1)] IsBlocked_cong [OF assms(1,2)] assms by (simp add: awake_def covered_def runnable_def)

lemma CheckForTaskRun_awake: "awake (snd (CheckForTaskRun s))"
proof (cases "\<not> sch_isShutdown s \<and> sch_current s = None \<and> sch_tasks s \<noteq> []")
  case True
  then obtain k t runner where check: "k < length (sch_tasks s)" "sch_tasks s ! k = (t, runner)"
    "\<forall>r \<in> set (sch_tasks s). task_rank (sch_now s) s t \<le> task_rank (sch_now s) s (fst r)"
    "CheckForTaskRun s =
       (let s' = RestartTimeoutTimer (s\<lparr>sch_taskCheckPending := False\<rparr>)
        in if ExpirationTime t s \<le> sch_now s
           then (True, scheduler_emit (Run_task t runner)
             (s'\<lparr>sch_current := Some (t, runner), sch_tasks := take k (sch_tasks s) @ drop (k + 1) (sch_tasks s)\<rparr>))
           else (False, s'\<lparr>sch_taskTimer := Some (ExpirationTime t s)\<rparr>))"
    using CheckForTaskRun_cases by metis
  show ?thesis
  proof (cases "ExpirationTime t s \<le> sch_now s")
    case False
    define s' where "s' = snd (CheckForTaskRun s)"
    have s': "sch_store s' = sch_store s" "sch_blocking s' = sch_blocking s" "sch_tasks s' = sch_tasks s" "sch_taskTimer s' = Some (ExpirationTime t s)"
      using False by (simp_all add: s'_def check(4) Let_def)
    have "ExpirationTime t s \<le> ExpirationTime t' s" if "(t', r') \<in> set (sch_tasks s)" "runnable t' s" for t' r'
    proof -
      have "task_rank (sch_now s) s t \<le> task_rank (sch_now s) s t'"
        using check(3) that(1) by force
      then show ?thesis
        using that(2) False by (auto simp: task_rank_le Let_def runnable_def MonotonicTimestamp_IsMax_def split: if_splits)
    qed
    then have "covered s'"
      using ExpirationTime_cong [OF s'(1)] IsBlocked_cong [OF s'(1,2)] s'(3,4) by (auto simp: covered_def runnable_def)
    then show ?thesis
      by (simp add: awake_def flip: s'_def)
  qed (simp add: awake_def check(4) Let_def scheduler_emit_def)
qed (auto simp: awake_def CheckForTaskRun_def covered_def Let_def split: list.split)

lemma PostCheckForTaskRun_awake: "PostCheckForTaskRun s = Some s' \<Longrightarrow> awake s'"
  by (auto simp: PostCheckForTaskRun_def awake_def split: if_splits)

text \<open>Completing a task changes nothing for the others, except that they may get blocked.\<close>

lemma CompleteTask_others:
  assumes "result \<noteq> TASK_SUCCESS" and "t' \<noteq> t"
  shows "ExpirationTime t' (CompleteTask t result now s) = ExpirationTime t' s" "IsBlocked t' s \<Longrightarrow> IsBlocked t' (CompleteTask t result now s)"
  using assms by (cases result; auto simp: CompleteTask_def Let_def ExpirationTime_def set_behavior_def scheduler_emit_def AddBlock_def IsBlocked_def
      list_ex_iff)+

lemma CompleteTask_simps:
  "sch_isShutdown (CompleteTask t result now s) = sch_isShutdown s" "sch_current (CompleteTask t result now s) = sch_current s"
  "sch_taskCheckPending (CompleteTask t result now s) = sch_taskCheckPending s" "sch_tasks (CompleteTask t result now s) = sch_tasks s"
  "sch_taskTimer (CompleteTask t result now s) = sch_taskTimer s"
  "mt_IsRecurring (sch_store (CompleteTask t result now s) t') = mt_IsRecurring (sch_store s t')"
  "StartExpirationTime t' (CompleteTask t result now s) = StartExpirationTime t' s"
  by (cases result; simp add: CompleteTask_def Let_def set_behavior_def scheduler_emit_def AddBlock_def RemoveBlock_def StartExpirationTime_def
      Behavior_Reset_def Behavior_OnResponseTimeout_def Behavior_OnSuccess_def Behavior_Disable_def)+

definition timed_out :: "MonotonicTimestamp \<Rightarrow> task_id \<Rightarrow> Scheduler \<Rightarrow> bool" where
  "timed_out now t s \<longleftrightarrow> \<not> mt_IsRecurring (sch_store s t) \<and> StartExpirationTime t s \<le> now"

lemma remove_timed_out:
  assumes "remove_records (isTimedOut now) rs s = (rs', s')"
  shows "rs' = filter (\<lambda>r. \<not> timed_out now (fst r) s) rs \<and>
    (\<forall>t. timed_out now t s' = timed_out now t s) \<and>
    (\<forall>t. \<not> timed_out now t s \<longrightarrow> ExpirationTime t s' = ExpirationTime t s \<and> (IsBlocked t s \<longrightarrow> IsBlocked t s')) \<and>
    sch_isShutdown s' = sch_isShutdown s \<and> sch_current s' = sch_current s \<and> sch_taskCheckPending s' = sch_taskCheckPending s \<and>
    sch_taskTimer s' = sch_taskTimer s"
  using assms
proof (induction rs arbitrary: s rs')
  case (Cons r rs)
  define s1 where "s1 = snd (isTimedOut now r s)"
  have fst_r: "fst (isTimedOut now r s) = timed_out now (fst r) s"
    by (auto simp: isTimedOut_def timed_out_def not_le)
  have s1: "s1 = (if timed_out now (fst r) s then CompleteTask (fst r) FAILURE_START_TIMEOUT now s else s)"
    by (auto simp: s1_def isTimedOut_def timed_out_def not_le)
  obtain rs1 where rest: "remove_records (isTimedOut now) rs s1 = (rs1, s')" "rs' = (if timed_out now (fst r) s then rs1 else r # rs1)"
    using Cons.prems fst_r by (cases "isTimedOut now r s") (auto simp: s1_def split: prod.splits if_splits)
  have same: "timed_out now t s1 = timed_out now t s" for t
    by (simp add: s1 timed_out_def CompleteTask_simps)
  have other: "ExpirationTime t s1 = ExpirationTime t s \<and> (IsBlocked t s \<longrightarrow> IsBlocked t s1)" if "\<not> timed_out now t s" for t
  proof (cases "timed_out now (fst r) s")
    case True
    then have "t \<noteq> fst r"
      using that by auto
    then show ?thesis
      using CompleteTask_others [where result = FAILURE_START_TIMEOUT and t' = t and t = "fst r" and now = now and s = s] by (simp add: s1)
  qed (simp add: s1)
  have kept: "sch_isShutdown s1 = sch_isShutdown s" "sch_current s1 = sch_current s" "sch_taskCheckPending s1 = sch_taskCheckPending s"
      "sch_taskTimer s1 = sch_taskTimer s"
    by (simp_all add: s1 CompleteTask_simps)
  show ?case
    using Cons.IH [OF rest(1)] rest(2) other by (simp add: same kept)
qed simp

lemma TimeoutTasks_awake:
  assumes "awake s"
  shows "awake (TimeoutTasks s)"
proof (cases "sch_isShutdown s")
  case False
  obtain rs s1 where r: "remove_records (isTimedOut (sch_now s)) (sch_tasks s) s = (rs, s1)"
    by (cases "remove_records (isTimedOut (sch_now s)) (sch_tasks s) s") auto
  define s2 where "s2 = RestartTimeoutTimer (s1\<lparr>sch_tasks := rs\<rparr>)"
  have same: "sch_store s2 = sch_store s1" "sch_blocking s2 = sch_blocking s1"
    by (simp_all add: s2_def)
  have "covered s2" if "covered s"
    using that remove_timed_out [OF r] ExpirationTime_cong [OF same(1)] IsBlocked_cong [OF same]
    by (fastforce simp: covered_def runnable_def s2_def)
  then have "awake s2"
    using assms remove_timed_out [OF r] by (auto simp: awake_def s2_def)
  then show ?thesis
    using False r by (simp add: TimeoutTasks_def s2_def)
qed (use assms in \<open>simp add: TimeoutTasks_def\<close>)

lemma scheduler_step_awake:
  assumes "awake s" and "scheduler_enabled ev s" and "scheduler_handle ev s = Some s'"
  shows "awake s'"
proof (cases ev)
  case (SE_Add t r)
  then show ?thesis
    using assms PostCheckForTaskRun_awake by (auto simp: Scheduler_Add_def split: if_splits)
next
  case (SE_SetRunnerOffline r)
  then show ?thesis
    using assms PostCheckForTaskRun_awake by (auto simp: SetRunnerOffline_def Let_def split: if_splits prod.splits)
next
  case (SE_CompleteCurrentFor r)
  then show ?thesis
    using assms PostCheckForTaskRun_awake by (auto simp: CompleteCurrentFor_def bind_eq_Some_conv split: if_splits option.splits prod.splits)
next
  case (SE_Demand t)
  then have "s' = s\<lparr>sch_demanded := sch_demanded s @ [t]\<rparr>"
    using assms(3) by (simp add: Scheduler_Demand_def split: if_splits)
  then show ?thesis
    using assms(1) awake_cong [of s' s] by simp
next
  case SE_Shutdown
  then show ?thesis
    using assms(3) by (auto simp: awake_def Scheduler_Shutdown_def)
next
  case (SE_CompleteTask t result)
  show ?thesis
  proof (cases "map_option fst (sch_current s) = Some t")
    case True
    then show ?thesis
      using assms(3) SE_CompleteTask by (auto simp: awake_def CompleteTask_simps)
  next
    case False
    then have "result = FAILURE_NO_COMMS" "t \<notin> fst ` set (sch_tasks s)" and s': "s' = CompleteTask t result (sch_now s) s"
      using assms(2,3) SE_CompleteTask by simp_all
    then have "t' \<noteq> t" if "(t', r') \<in> set (sch_tasks s)" for t' r'
      using that by force
    then have "covered s'" if "covered s"
      using that CompleteTask_others [where result = result and t = t and now = "sch_now s" and s = s] \<open>result = FAILURE_NO_COMMS\<close>
      by (fastforce simp: covered_def s' runnable_def CompleteTask_simps)
    then show ?thesis
      using assms(1) by (auto simp: awake_def s' CompleteTask_simps)
  qed
next
  case (SE_Elapse d)
  then show ?thesis
    using assms(1,3) awake_cong [of s' s] by auto
next
  case SE_StartTimeout
  have "awake (s\<lparr>sch_taskStartTimeout := TimerRef_fire (sch_taskStartTimeout s)\<rparr>)"
    using assms(1) awake_cong [of "s\<lparr>sch_taskStartTimeout := TimerRef_fire (sch_taskStartTimeout s)\<rparr>" s] by simp
  then show ?thesis
    using assms(3) SE_StartTimeout TimeoutTasks_awake by auto
qed (use assms(3) CheckForTaskRun_awake PostCheckForTaskRun_awake in \<open>auto simp: Demand_callback_def Scheduler_Evaluate_def\<close>)

lemma remove_records_current:
  "(\<And>r s. sch_current (snd (p r s)) = sch_current s \<and> sch_isShutdown (snd (p r s)) = sch_isShutdown s) \<Longrightarrow>
     sch_current (snd (remove_records p rs s)) = sch_current s \<and> sch_isShutdown (snd (remove_records p rs s)) = sch_isShutdown s"
  by (induction rs arbitrary: s) (simp_all add: Let_def split_beta)

definition scheduler_inv :: "Scheduler \<Rightarrow> bool" where
  "scheduler_inv s \<longleftrightarrow> awake s \<and> (sch_isShutdown s \<longrightarrow> sch_current s = None)"

lemma CheckForTaskRun_shutdown: "sch_isShutdown (snd (CheckForTaskRun s)) = sch_isShutdown s \<and>
    (sch_isShutdown s \<longrightarrow> sch_current (snd (CheckForTaskRun s)) = sch_current s)"
  by (simp add: CheckForTaskRun_def Let_def scheduler_emit_def split: list.split prod.split)

lemma PostCheckForTaskRun_shutdown:
  "PostCheckForTaskRun s = Some s' \<Longrightarrow> sch_isShutdown s' = sch_isShutdown s \<and> sch_current s' = sch_current s"
  by (auto simp: PostCheckForTaskRun_def split: if_splits)

lemma PostCheckForTaskRun_defined: "\<not> sch_isShutdown s \<Longrightarrow> PostCheckForTaskRun s \<noteq> None"
  by (simp add: PostCheckForTaskRun_def)

lemma checkForOwnership_kept:
  "sch_isShutdown (snd (checkForOwnership now runner r s)) = sch_isShutdown s" "sch_current (snd (checkForOwnership now runner r s)) = sch_current s"
  by (simp_all add: checkForOwnership_def CompleteTask_simps)

lemma SetRunnerOffline_online:
  assumes "\<not> sch_isShutdown s"
  shows "\<exists>s'. SetRunnerOffline r s = Some s' \<and> \<not> sch_isShutdown s'"
proof -
  define s1 where "s1 = (case sch_current s of None \<Rightarrow> s
    | Some rec \<Rightarrow> (let (mine, s) = checkForOwnership (sch_now s) r rec s in if mine then s\<lparr>sch_current := None\<rparr> else s))"
  have "\<not> sch_isShutdown s1"
    using assms checkForOwnership_kept(1) [of "sch_now s" r _ s] by (auto simp: s1_def Let_def split_beta split: option.split)
  then have "\<not> sch_isShutdown (snd (remove_records (checkForOwnership (sch_now s) r) (sch_tasks s1) s1))"
    using remove_records_current [of "checkForOwnership (sch_now s) r" "sch_tasks s1" s1] checkForOwnership_kept by blast
  then show ?thesis
    using assms by (auto simp: SetRunnerOffline_def Let_def split_beta PostCheckForTaskRun_def simp flip: s1_def)
qed

lemma SetRunnerOffline_defined: "SetRunnerOffline r s \<noteq> None"
  using SetRunnerOffline_online [of s r] by (auto simp: SetRunnerOffline_def)

lemma scheduler_handle_defined:
  assumes "scheduler_enabled ev s" and "sch_isShutdown s \<longrightarrow> sch_current s = None"
  shows "scheduler_handle ev s \<noteq> None"
proof (cases ev)
  case (SE_CompleteCurrentFor r)
  then show ?thesis
    using assms PostCheckForTaskRun_defined
    by (auto simp: CompleteCurrentFor_def Scheduler_Add_def PostCheckForTaskRun_def bind_eq_None_conv split: option.split)
qed (use assms PostCheckForTaskRun_defined SetRunnerOffline_defined in
  \<open>auto simp: Scheduler_Add_def Scheduler_Demand_def Scheduler_Evaluate_def SetMinExpiration_def set_behavior_def\<close>)

lemma TimeoutTasks_kept: "sch_isShutdown (TimeoutTasks s) = sch_isShutdown s \<and> sch_current (TimeoutTasks s) = sch_current s"
proof (cases "remove_records (isTimedOut (sch_now s)) (sch_tasks s) s")
  case (Pair rs s1)
  then show ?thesis
    using remove_timed_out [OF Pair] by (simp add: TimeoutTasks_def)
qed

lemma scheduler_handle_shutdown:
  assumes "scheduler_handle ev s = Some s'" and "scheduler_enabled ev s" and "sch_isShutdown s \<longrightarrow> sch_current s = None"
  shows "sch_isShutdown s' \<longrightarrow> sch_current s' = None"
proof (cases ev)
  case (SE_SetRunnerOffline r)
  then show ?thesis
    using assms SetRunnerOffline_online [of s r] by (cases "sch_isShutdown s") (auto simp: SetRunnerOffline_def)
next
  case (SE_CompleteCurrentFor r)
  then show ?thesis
    using assms by (auto simp: CompleteCurrentFor_def bind_eq_Some_conv dest!: PostCheckForTaskRun_shutdown split: option.splits if_splits prod.splits)
next
  case SE_Check
  then show ?thesis
    using assms CheckForTaskRun_shutdown [of s] by auto
next
  case SE_StartTimeout
  then show ?thesis
    using assms TimeoutTasks_kept [of "s\<lparr>sch_taskStartTimeout := TimerRef_fire (sch_taskStartTimeout s)\<rparr>"] by auto
next
  case SE_TaskTimer
  then show ?thesis
    using assms CheckForTaskRun_shutdown [of "s\<lparr>sch_taskTimer := TimerRef_fire (sch_taskTimer s)\<rparr>"] by auto
next
  case (SE_DemandCallback t)
  then show ?thesis
    using assms CheckForTaskRun_shutdown [of "SetMinExpiration t (s\<lparr>sch_demanded := remove1 t (sch_demanded s)\<rparr>)"]
    by (auto simp: Demand_callback_def SetMinExpiration_def set_behavior_def)
qed (use assms in \<open>auto simp: Scheduler_Add_def Scheduler_Demand_def Scheduler_Evaluate_def SetMinExpiration_def set_behavior_def
    Scheduler_Shutdown_def CompleteTask_simps dest!: PostCheckForTaskRun_shutdown split: if_splits\<close>)

lemma scheduler_step_inv:
  assumes "scheduler_inv s" and "scheduler_enabled ev s"
  shows "\<exists>s'. scheduler_handle ev s = Some s' \<and> scheduler_inv s'"
  using assms scheduler_handle_defined [of ev s] scheduler_step_awake [of s ev] scheduler_handle_shutdown [of ev s]
  by (auto simp: scheduler_inv_def)

lemma scheduler_reachable_inv: "scheduler_reachable s \<Longrightarrow> scheduler_inv s"
proof (induction rule: scheduler_reachable.induct)
  case (init now store)
  then show ?case
    by (simp add: scheduler_inv_def awake_def covered_def Scheduler_init_def)
next
  case (step s ev s')
  then show ?case
    using scheduler_step_inv [of s ev] by auto
qed


section \<open>What the scheduler guarantees\<close>

definition demo_task :: "int \<Rightarrow> bool \<Rightarrow> TaskBehavior \<Rightarrow> MasterTask" where
  "demo_task priority blocks behavior =
     \<lparr>mt_Priority = priority, mt_IsRecurring = True, mt_BlocksLowerPriority = blocks, mt_IsEnabled = True, mt_context = 0, mt_behavior = behavior\<rparr>"

definition demo_scheduler :: Scheduler where
  "demo_scheduler =
     (Scheduler_init 5 (\<lambda>t. if t = 0 then demo_task 190 False (ImmediatePeriodic 1000 100 200)
        else demo_task 150 True (SingleImmediateExecutionWithRetry 100 200)))\<lparr>sch_tasks := [(0, 0), (1, 0)]\<rparr>"





text \<open>C35: The scheduler does not stall: in every state it can reach, if no task is running, then for every waiting task
  that is enabled and not blocked a check is pending, or the timer fires when the task is due or before.\<close>

theorem scheduler_never_stalls:
  assumes "scheduler_reachable s" and "\<not> sch_isShutdown s" and "sch_current s = None" and "(t, r) \<in> set (sch_tasks s)"
    and "ExpirationTime t s \<noteq> INT64_MAX" and "\<not> IsBlocked t s"
  shows "sch_taskCheckPending s \<or> (\<exists>e. sch_taskTimer s = Some e \<and> e \<le> ExpirationTime t s)"
  using scheduler_reachable_inv [OF assms(1)] assms(2-6) by (fastforce simp: scheduler_inv_def awake_def covered_def runnable_def)

theorem scheduler_never_stalls_witness:
  "\<exists>s. scheduler_reachable s \<and> (0, 0) \<in> set (sch_tasks s) \<and> (sch_taskCheckPending s \<or> (\<exists>e. sch_taskTimer s = Some e))"
proof -
  define s0 where "s0 = Scheduler_init 5 (sch_store demo_scheduler)"
  define s1 where "s1 = s0\<lparr>sch_tasks := [(0, 0)], sch_taskCheckPending := True\<rparr>"
  have "scheduler_handle (SE_Add 0 0) s0 = Some s1"
    by (simp add: Scheduler_Add_def PostCheckForTaskRun_def s0_def s1_def Scheduler_init_def)
  then have reach: "scheduler_reachable s1"
    using scheduler_reachable.step [of s0 "SE_Add 0 0" s1] by (simp add: scheduler_reachable.init s0_def)
  have "ExpirationTime 0 s1 \<noteq> INT64_MAX" "\<not> IsBlocked 0 s1"
    by (simp_all add: s1_def s0_def Scheduler_init_def demo_scheduler_def ExpirationTime_def IsBlocked_def demo_task_def ImmediatePeriodic_def
        TaskBehavior_of_def MonotonicTimestamp_Min_def INT64_MIN_def INT64_MAX_def)
  then have "sch_taskCheckPending s1 \<or> (\<exists>e. sch_taskTimer s1 = Some e \<and> e \<le> ExpirationTime 0 s1)"
    using scheduler_never_stalls [OF reach, of 0 0] by (simp add: s1_def s0_def Scheduler_init_def)
  then show ?thesis
    using reach by (auto simp: s1_def s0_def)
qed

lemma OnResponseTimeout_delay:
  assumes "0 \<le> tb_currentRetryDelay b" and "tb_maxRetryDelay b < INT64_MAX"
  shows "tb_currentRetryDelay (Behavior_OnResponseTimeout now b) = min (2 * tb_currentRetryDelay b) (tb_maxRetryDelay b)"
proof (cases "tb_currentRetryDelay b \<ge> INT64_MAX div 2")
  case True
  then show ?thesis
    using assms by (simp add: Behavior_OnResponseTimeout_def Let_def CalcNextRetryTimeout_def min_def INT64_MAX_def)
next
  case False
  then have "int64_mul 2 (tb_currentRetryDelay b) = 2 * tb_currentRetryDelay b"
    using assms(1) by (intro int64_mul_exact) (simp_all add: INT64_MAX_def)
  then show ?thesis
    using False by (simp add: Behavior_OnResponseTimeout_def Let_def CalcNextRetryTimeout_def min_def)
qed

lemma OnResponseTimeout_bounds [simp]:
  "tb_minRetryDelay (Behavior_OnResponseTimeout now b) = tb_minRetryDelay b"
  "tb_maxRetryDelay (Behavior_OnResponseTimeout now b) = tb_maxRetryDelay b"
  by (simp_all add: Behavior_OnResponseTimeout_def Let_def)

text \<open>C39: After a number of response timeouts in a row a task is tried again after a delay that doubles each time, from the
  minimum up to the maximum; the first success starts over from the minimum. The doubling at 64 bits
  never overflows, however large the delays are.\<close>

theorem retry_backoff:
  assumes "tb_currentRetryDelay b = tb_minRetryDelay b" and "0 \<le> tb_minRetryDelay b" and "tb_minRetryDelay b \<le> tb_maxRetryDelay b"
    and "tb_maxRetryDelay b < INT64_MAX"
  shows "tb_expiration (Behavior_OnResponseTimeout now (fold Behavior_OnResponseTimeout nows b)) =
      MonotonicTimestamp_Add now (min (tb_minRetryDelay b * 2 ^ length nows) (tb_maxRetryDelay b)) \<and>
    tb_currentRetryDelay (Behavior_OnSuccess now (fold Behavior_OnResponseTimeout nows b)) = tb_minRetryDelay b"
proof -
  have "tb_currentRetryDelay (fold Behavior_OnResponseTimeout nows b) = min (tb_minRetryDelay b * 2 ^ length nows) (tb_maxRetryDelay b) \<and>
      tb_minRetryDelay (fold Behavior_OnResponseTimeout nows b) = tb_minRetryDelay b \<and>
      tb_maxRetryDelay (fold Behavior_OnResponseTimeout nows b) = tb_maxRetryDelay b"
  proof (induction nows rule: rev_induct)
    case (snoc now nows)
    have "tb_minRetryDelay b * 2 ^ length nows \<ge> 0"
      using assms(2) by simp
    then show ?case
      using snoc.IH assms(2-4) OnResponseTimeout_delay [of "fold Behavior_OnResponseTimeout nows b" now] by simp
  qed (use assms in simp)
  then show ?thesis
    by (simp add: Behavior_OnResponseTimeout_def Behavior_OnSuccess_def Let_def)
qed

theorem retry_backoff_witness:
  "tb_expiration (Behavior_OnResponseTimeout 50 (fold Behavior_OnResponseTimeout [10, 20] (SingleImmediateExecutionWithRetry 5 1000))) = 70"
  using retry_backoff [of "SingleImmediateExecutionWithRetry 5 1000" 50 "[10, 20]"]
  by (simp add: SingleImmediateExecutionWithRetry_def TaskBehavior_of_def INT64_MAX_def MonotonicTimestamp_Add_min)



end
