(* ===== verification/Spec2Isabelle.thy ===== *)
theory Spec2Isabelle
  imports LinkBehaviour WriteParse ResponseEvents StationRequests RequestBuilding MasterScheduler
begin

text \<open>
  opendnp3 (\<open>cpp/libs\<close>) is a DNP3 protocol stack. From the wire upwards it has a link layer
  (framing, addressing, confirmed frames), a transport function (segmentation), and an application
  layer (fragments of object headers) that an outstation and a master use. This development models
  the C++ sources of these layers and proves the properties that make them correct.

  Conventions. A function or method of the sources is a definition of the same name, with the class
  in front where names clash. State is a \<open>record\<close> that is passed and returned. A failed assertion, a
  null dereference, an access outside of a buffer and a loop that does not return are \<open>None\<close> of
  an option monad; the theorems that say an operation is safe say that it returns \<open>Some\<close>. Machine
  integers are words of their width. A read-only slice is the list of its bytes; a writable slice is
  a memory with a position and a size. Calls into a neighbouring layer are an output trace, in the
  order of the calls; a call that the neighbour makes back from within such a call is an event that
  follows. The clock is a field of the executor. A destructor that completes a header is a definition
  with the suffix \<open>_finish\<close>. Logging is not modelled. Loops are recursive functions, or
  \<open>partial_function (option)\<close> where the code does not bound them; their termination is proved
  (\<open>OnRead_loop\<close>, \<open>ParseSinglePass_loop\<close>, the list loops of \<open>NodeList\<close>, \<open>LoadType_loop\<close>); no fuel is used.

  Base: \<open>Prelude\<close> (words, option, lists), \<open>Slices\<close> (\<open>openpal/container\<close>: \<open>RSlice\<close>, \<open>WSlice\<close>,
  \<open>Buffer\<close>), \<open>Serialization\<close> (\<open>openpal/serialization\<close>: integer formats and \<open>Parse\<close>), \<open>Timing\<close>
  (\<open>TimerRef\<close>, \<open>MonotonicTimestamp\<close>, \<open>SequenceNum\<close>).

  Link layer (\<open>opendnp3/link\<close>): \<open>Crc\<close> (\<open>CRC.cpp\<close>, equal to polynomial division),
  \<open>LinkHeader\<close>, \<open>LinkFrame\<close> (the frame formatters), \<open>ShiftableBuffer\<close>, \<open>LinkParser\<close>
  (\<open>LinkLayerParser.cpp\<close>: delivered frames are the frames of the byte stream),
  \<open>LinkContext\<close> (\<open>LinkContext.cpp\<close> and the states of the primary and secondary station),
  \<open>LinkLayer\<close> (\<open>LinkLayer.cpp\<close>: the events, an invariant of every reachable state, safety),
  \<open>LinkBehaviour\<close> (confirmed data is delivered exactly once, retries, stable buffers, and the
  path of a message from one station to another).

  Transport function (\<open>opendnp3/transport\<close>): \<open>Transport\<close> (segmentation into the fewest
  segments, reassembly as a refinement of a specification, safety of the layer).

  Application layer (\<open>opendnp3/app\<close>, \<open>opendnp3/gen\<close>, \<open>opendnp3/objects\<close>): \<open>AppHeader\<close>
  (request and response headers, indications), \<open>ObjectHeader\<close> (groups, variations,
  qualifiers, ranges), \<open>Objects\<close> (the sizes and fields of all objects), \<open>ObjectParser\<close>,
  \<open>HeaderParsers\<close> and \<open>ApduParser\<close> (parsing of a fragment in two passes: accepted exactly when it is a
  sequence of well-formed headers, and then delivered in order; nothing is delivered otherwise),
  \<open>HeaderWriter\<close> (the header writer and its iterators) and \<open>WriteParse\<close> (what the
  writer writes, the parser reads back).

  Outstation, events (\<open>opendnp3/outstation/event\<close>): \<open>NodeList\<close> (the linked list in an array of
  \<open>List.h\<close>, related to the list of its used nodes), \<open>EventStorage\<close> (the records, the typed
  lists, the counters, update, selection, removal; related to the sequence of stored events),
  \<open>EventWriting\<close> and \<open>EventWriters\<close> (runs of selected events and their headers),
  \<open>EventBuffer\<close> (all calls, refining a specification on the sequence of stored events),
  \<open>WriterBounds\<close> and \<open>EventBounds\<close> (writing stays inside the fragment), \<open>ResponseEvents\<close> (the bytes that
  are written are those of the oldest selected events, which are the ones that a confirmation removes).

  Outstation, requests (\<open>opendnp3/outstation\<close>): \<open>RequestParsing\<close> and \<open>Commands\<close>
  (\<open>CommandResponseHandler\<close>: a command request is echoed with the status of each command),
  \<open>RequestHandlers\<close> (write, class and assignment requests), \<open>ReadRequests\<close> (\<open>ReadHandler\<close>,
  \<open>ResponseContext\<close>). Reading uses the database through the locale \<open>static_database\<close>, its contract.

  Outstation, points: \<open>StaticDatabase\<close> and \<open>StaticWriting\<close> (\<open>DatabaseBuffers\<close>, \<open>StaticWriters\<close>,
  \<open>Database\<close>: the points of each type in an array, searching, selection, loading, updates),
  \<open>DatabaseBounds\<close> (the invariant of the database, the searches), \<open>StaticLoading\<close> (loading ends; the
  interpretation \<open>points\<close> of \<open>static_database\<close>), \<open>DatabaseUpdates\<close> (what an update does).

  Outstation, session: \<open>OutstationState\<close> (request history, deferred request, select before operate,
  transmit buffers, the members of \<open>OContext\<close>), \<open>OutstationContext\<close> and \<open>Outstation\<close>
  (\<open>OutstationContext.cpp\<close>, \<open>OutstationStates.cpp\<close>: the handler of every function, the states,
  deferred requests, unsolicited responses, the events). \<open>OutstationBounds\<close>, \<open>OutstationInvariant\<close>,
  \<open>OutstationEvents\<close> and \<open>OutstationSafety\<close> prove, in the locale \<open>outstation\<close> over any database that
  keeps its contract, that every event is handled and keeps the invariant of the context.
  \<open>Station\<close> puts the outstation on its database (interpretation \<open>station\<close>), adds the updates of the
  application (\<open>asiodnp3/UpdateBuilder.cpp\<close>, \<open>OutstationStack::Apply\<close>) and defines the reachable
  states; \<open>StationBehaviour\<close> states what holds in all of them: every event is handled, types, waiting
  for a confirmation ends, no work is left undone, transmissions are not overwritten, and events
  leave only when they are confirmed. \<open>StationRequests\<close> follows the requests: \<open>processed_request\<close> is the request
  that an event makes the station process, \<open>station_history\<close> adds the SELECTs that have succeeded to the
  reachable states, so that nothing is operated without a matching SELECT, and \<open>quiet_run\<close> is what may
  happen between a request and its repetition, which is then not executed again.

  Master (\<open>opendnp3/master\<close>): \<open>RequestBuilding\<close> (\<open>app/APDUBuilders.cpp\<close>: the requests of a master, and what
  an outstation makes of them), \<open>MasterScheduler\<close> (\<open>TaskBehavior\<close>, \<open>TaskContext\<close>, \<open>IMasterTask\<close> and
  \<open>MasterSchedulerBackend\<close>: tasks are numbers into a store, the calls of the masters, the posted
  checks and the timers are the events of a step relation; the scheduler starts the right task, never
  stalls, and backs off after timeouts).

  Bounds. The event lists have at most as many nodes as the configured 16 bit maxima add up to, so the
  32 bit counters do not wrap. The index of a header in a fragment is a natural number: a fragment
  has fewer than \<open>2 ^ 32\<close> bytes. The updates of the application have timestamps that are not negative
  (\<open>update_wf\<close>, \<open>static_ok\<close>); the sources do not require it, but with negative ones the difference of two
  timestamps in \<open>CTOEventWriter\<close> (\<open>EventWriters.h\<close>) can overflow, and writing the event is \<open>None\<close>.

  Specification functions. Some definitions translate no code and state what the code is to do: \<open>deframe\<close>
  (the frames of a byte stream, which \<open>Parser_stream_frames\<close> proves to be those the parser delivers),
  the polynomial CRC, the specification of the transport receiver and of the event buffer,
  \<open>event_run\<close> and \<open>run_header\<close> (the bytes of events), \<open>value_kind\<close> and \<open>event_kind\<close> (the values of each type),
  \<open>addressed\<close> (the point of an index in both index modes) and \<open>selected_by\<close>.

  Not modelled: floating-point values are kept as their bytes, and the conversion between object fields
  and measurement types (\<open>conv\<close>) and the comparison of floating-point values with a deadband (\<open>exceeds\<close>) are
  parameters, and the callbacks of the application and of the command handler are functions on an abstract
  application state; free-format objects are read but not written; of the master, the handling of
  responses and the tasks themselves; sockets, serial ports, threads and the wiring of objects (\<open>asiopal\<close> and the
  rest of \<open>asiodnp3\<close>) and the decoder of log output.
\<close>

end
